(* ===== verification/Prelude.thy ===== *)
theory Prelude
  imports Main "HOL-Library.List_Lexorder" "HOL-Library.Char_ord" "HOL-Library.AList"
    "HOL-Library.Multiset"
begin

section \<open>Prelude: machine integers, association lists and shared lemmas\<close>

text \<open>
  Types, arithmetic and lemmas the component theories share.

  \<^item> Machine integers. The engine's prices are 32-bit and its profit sums 64-bit signed
    integers. They are values of type \<open>int\<close> here, and every operation of the source that
    can leave the width is followed by \<open>i32\<close> or \<open>i64\<close>, the two's complement reduction.
    Signed overflow is undefined in C++; the reduction is the total extension used here,
    and the bounds lemmas say where it is the identity.
  \<^item> C++ integer division truncates towards zero: \<open>cdiv\<close>.
  \<^item> Times are microseconds since the epoch (\<open>system_clock\<close> ticks), unbounded.
  \<^item> Strings are byte strings, ordered lexicographically by byte value, as
    \<open>std::string_view\<close> compares them.
  \<^item> A hash map is an association list with distinct keys; where the source iterates
    over one, the iteration order is a parameter.
\<close>

type_synonym time = int

type_synonym symbol = string

named_theorems wrap_simps \<open>reductions of machine arithmetic\<close>
named_theorems inv_intros \<open>preservation of a component's invariant\<close>

subsection \<open>Machine integers\<close>

definition i32 :: "int \<Rightarrow> int" where
  "i32 x = signed_take_bit 31 x"

definition i64 :: "int \<Rightarrow> int" where
  "i64 x = signed_take_bit 63 x"

definition u64 :: "int \<Rightarrow> int" where
  "u64 x = x mod 18446744073709551616"

definition in_i32 :: "int \<Rightarrow> bool" where
  "in_i32 x \<longleftrightarrow> - (2 ^ 31) \<le> x \<and> x < 2 ^ 31"

definition in_i64 :: "int \<Rightarrow> bool" where
  "in_i64 x \<longleftrightarrow> - (2 ^ 63) \<le> x \<and> x < 2 ^ 63"

definition cdiv :: "int \<Rightarrow> int \<Rightarrow> int" where
  "cdiv a b = sgn a * sgn b * (\<bar>a\<bar> div \<bar>b\<bar>)"

lemma in_i32_i32 [simp, intro]: "in_i32 (i32 x)"
  unfolding in_i32_def i32_def
  using signed_take_bit_int_greater_eq_minus_exp [of 31 x] signed_take_bit_int_less_exp [of 31 x]
  by blast

lemma in_i64_i64 [simp, intro]: "in_i64 (i64 x)"
  unfolding in_i64_def i64_def
  using signed_take_bit_int_greater_eq_minus_exp [of 63 x] signed_take_bit_int_less_exp [of 63 x]
  by blast

lemma i32_id [simp]: "in_i32 x \<Longrightarrow> i32 x = x"
  by (simp add: in_i32_def i32_def signed_take_bit_int_eq_self_iff)

lemma i64_id [simp]: "in_i64 x \<Longrightarrow> i64 x = x"
  by (simp add: in_i64_def i64_def signed_take_bit_int_eq_self_iff)

lemma i32_code [code]: "i32 x = (x + 2147483648) mod 4294967296 - 2147483648"
  by (simp add: i32_def signed_take_bit_eq_take_bit_shift take_bit_eq_mod)

lemma i64_code [code]:
  "i64 x = (x + 9223372036854775808) mod 18446744073709551616 - 9223372036854775808"
  by (simp add: i64_def signed_take_bit_eq_take_bit_shift take_bit_eq_mod)

lemma i64_0 [simp]: "i64 0 = 0"
  by (simp add: i64_def)

lemma i32_0 [simp]: "i32 0 = 0"
  by (simp add: i32_def)

text \<open>Reduction commutes with sums and differences: accounting is exact modulo the width.\<close>

lemma i64_add_left [wrap_simps]: "i64 (i64 a + b) = i64 (a + b)"
  unfolding i64_def by (metis signed_take_bit_add signed_take_bit_signed_take_bit min.idem)

lemma i64_add_right [wrap_simps]: "i64 (a + i64 b) = i64 (a + b)"
  unfolding i64_def by (metis signed_take_bit_add signed_take_bit_signed_take_bit min.idem)

lemma i64_diff_left [wrap_simps]: "i64 (i64 a - b) = i64 (a - b)"
  unfolding i64_def by (metis signed_take_bit_diff signed_take_bit_signed_take_bit min.idem)

lemma i64_diff_right [wrap_simps]: "i64 (a - i64 b) = i64 (a - b)"
  unfolding i64_def by (metis signed_take_bit_diff signed_take_bit_signed_take_bit min.idem)

lemma i64_i64 [simp]: "i64 (i64 a) = i64 a"
  by simp

text \<open>The product of two 32-bit values fits 64 bits.\<close>

lemma in_i64_mult:
  assumes "in_i32 a" "in_i32 b"
  shows "in_i64 (a * b)"
proof -
  have "\<bar>a\<bar> \<le> 2 ^ 31" "\<bar>b\<bar> \<le> 2 ^ 31"
    using assms by (auto simp: in_i32_def)
  then have "\<bar>a\<bar> * \<bar>b\<bar> \<le> 2 ^ 31 * 2 ^ 31"
    by (rule mult_mono) auto
  then have "\<bar>a * b\<bar> \<le> 2 ^ 62" by (simp add: abs_mult)
  then show ?thesis by (simp add: in_i64_def abs_le_iff)
qed

lemma cdiv_nonneg [simp]: "0 \<le> a \<Longrightarrow> 0 < b \<Longrightarrow> cdiv a b = a div b"
  by (auto simp: cdiv_def sgn_if)

lemma cdiv_pos_iff: "0 < b \<Longrightarrow> cdiv a b = (if 0 \<le> a then a div b else - ((- a) div b))"
  by (auto simp: cdiv_def sgn_if)

text \<open>Adding half the divisor before dividing rounds to nearest.\<close>

lemma round_div_nearest:
  fixes s p :: int
  assumes "0 < p"
  shows "2 * \<bar>p * ((s + p div 2) div p) - s\<bar> \<le> p"
proof -
  let ?m = "(s + p div 2) mod p"
  have m: "0 \<le> ?m" "?m < p" using assms by auto
  have "p * ((s + p div 2) div p) = s + p div 2 - ?m"
    by (metis add_diff_cancel_right' mult_div_mod_eq)
  then have eq: "p * ((s + p div 2) div p) - s = p div 2 - ?m" by simp
  have "2 * (p div 2) \<le> p" "p \<le> 2 * (p div 2) + 1" by presburger+
  with m show ?thesis unfolding eq by (simp add: abs_if)
qed

subsection \<open>Failures\<close>

text \<open>
  The exceptions the modelled code throws, as values; \<open>UndefinedBehaviour\<close> marks an
  out-of-range read the source leaves to its caller to exclude.
\<close>

datatype cpp_error =
    InvalidArgument | OutOfRange | LogicError | RuntimeError | UndefinedBehaviour

type_synonym 'a result = "cpp_error + 'a"

subsection \<open>Association lists\<close>

lemma map_of_delete_same [simp]: "map_of (AList.delete k al) k = None"
  by (simp add: AList.delete_conv')

lemma map_of_delete_other [simp]: "k' \<noteq> k \<Longrightarrow> map_of (AList.delete k al) k' = map_of al k'"
  by (simp add: AList.delete_conv')

lemma set_delete: "set (AList.delete k al) = {p \<in> set al. fst p \<noteq> k}"
  by (auto simp: AList.delete_eq)

lemma keys_delete: "fst ` set (AList.delete k al) = fst ` set al - {k}"
  by (auto simp: set_delete)

lemma distinct_delete: "distinct (map fst al) \<Longrightarrow> distinct (map fst (AList.delete k al))"
  by (simp add: AList.distinct_delete)

lemma sum_list_delete:
  fixes f :: "'k \<times> 'v \<Rightarrow> int"
  assumes "distinct (map fst al)" and "map_of al k = Some v"
  shows "sum_list (map f (AList.delete k al)) = sum_list (map f al) - f (k, v)"
  using assms
proof (induction al)
  case (Cons p al)
  show ?case
  proof (cases "fst p = k")
    case True
    then have "AList.delete k al = al"
      using Cons.prems by (intro AList.delete_id) auto
    with True Cons.prems show ?thesis by (cases p) auto
  next
    case False
    with Cons show ?thesis by (cases p) auto
  qed
qed simp

lemma sum_list_update:
  fixes f :: "'k \<times> 'v \<Rightarrow> int"
  assumes "distinct (map fst al)" and "map_of al k = Some v"
  shows "sum_list (map f (AList.update k w al)) = sum_list (map f al) - f (k, v) + f (k, w)"
  using assms by (induction al) (auto split: if_splits)

lemma length_delete_Some:
  assumes "distinct (map fst al)" and "map_of al k = Some v"
  shows "Suc (length (AList.delete k al)) = length al"
  using assms
proof (induction al)
  case (Cons p al)
  show ?case
  proof (cases "fst p = k")
    case True
    then have "AList.delete k al = al"
      using Cons.prems by (intro AList.delete_id) auto
    with True show ?thesis by (cases p) auto
  next
    case False
    with Cons show ?thesis by (cases p) auto
  qed
qed simp

lemma map_fst_update: "map_of al k = Some v \<Longrightarrow> map fst (AList.update k w al) = map fst al"
  by (induction al) auto

lemma length_update_new: "map_of al k = None \<Longrightarrow> length (AList.update k w al) = Suc (length al)"
  by (induction al) (auto split: if_splits)

lemma set_update_distinct:
  "distinct (map fst al) \<Longrightarrow>
     set (AList.update k w al) = insert (k, w) {p \<in> set al. fst p \<noteq> k}"
  by (induction al) (auto simp: image_iff)

lemma mset_delete:
  "distinct (map fst al) \<Longrightarrow> (k, v) \<in> set al \<Longrightarrow>
     mset (AList.delete k al) = mset al - {#(k, v)#}"
proof (induction al)
  case (Cons p al)
  show ?case
  proof (cases "fst p = k")
    case True
    then have "AList.delete k al = al"
      using Cons.prems by (intro AList.delete_id) auto
    moreover have "p = (k, v)" using True Cons.prems by (cases p) (auto simp: rev_image_eqI)
    ultimately show ?thesis by simp
  next
    case False
    with Cons show ?thesis by (cases p) (auto simp: multiset_eq_iff)
  qed
qed simp

subsection \<open>Decimal printing\<close>

fun nat_dec :: "nat \<Rightarrow> string" where
  "nat_dec n = (if n < 10 then [char_of (48 + n)]
                else nat_dec (n div 10) @ [char_of (48 + n mod 10)])"

declare nat_dec.simps [simp del]

text \<open>A signed integer as \<open>std::to_string\<close> prints it.\<close>

definition int_dec :: "int \<Rightarrow> string" where
  "int_dec n = (if n < 0 then ''-'' @ nat_dec (nat (- n)) else nat_dec (nat n))"

subsection \<open>Windows of lists\<close>

text \<open>The last \<open>n\<close> elements, as the engine's rolling windows keep them.\<close>

definition lastn :: "nat \<Rightarrow> 'a list \<Rightarrow> 'a list" where
  "lastn n xs = drop (length xs - n) xs"

lemma length_lastn [simp]: "length (lastn n xs) = min n (length xs)"
  by (auto simp: lastn_def)

lemma lastn_all [simp]: "length xs \<le> n \<Longrightarrow> lastn n xs = xs"
  by (simp add: lastn_def)

lemma lastn_snoc: "0 < n \<Longrightarrow> lastn n (xs @ [x]) = lastn (n - 1) xs @ [x]"
  by (cases n) (auto simp: lastn_def Suc_diff_le)

lemma lastn_lastn [simp]: "lastn n (lastn m xs) = lastn (min n m) xs"
  by (auto simp: lastn_def min_def intro!: arg_cong [where f = "\<lambda>k. drop k xs"])

lemma lastn_two:
  "0 < n \<Longrightarrow> lastn n (lastn (n - 1) xs @ [y, z]) = lastn n (xs @ [y, z])"
proof -
  assume "0 < n"
  then have "lastn n (ys @ [y, z]) = lastn (n - 1) (ys @ [y]) @ [z]" for ys
    using lastn_snoc [of n "ys @ [y]" z] by simp
  moreover have "lastn (n - 1) (lastn (n - 1) xs @ [y]) = lastn (n - 1) (xs @ [y])"
    by (cases "n - 1") (auto simp: lastn_snoc lastn_def [of 0])
  ultimately show ?thesis by simp
qed

lemma lastn_eq_Nil [simp]: "lastn n xs = [] \<longleftrightarrow> n = 0 \<or> xs = []"
  by (cases n; cases xs) (auto simp: lastn_def)

lemma set_lastn: "set (lastn n xs) \<subseteq> set xs"
  by (simp add: lastn_def set_drop_subset)

lemma last_lastn [simp]: "0 < n \<Longrightarrow> xs \<noteq> [] \<Longrightarrow> last (lastn n xs) = last xs"
  by (simp add: lastn_def last_drop)

lemma butlast_lastn: "butlast (lastn n xs) = lastn (n - 1) (butlast xs)"
proof (cases "0 < n \<and> xs \<noteq> []")
  case True
  then obtain ys y where "xs = ys @ [y]" by (metis append_butlast_last_id)
  with True show ?thesis by (simp add: lastn_snoc)
next
  case False
  then show ?thesis by (auto simp: lastn_def)
qed

subsection \<open>Sequencing operations that may fail\<close>

definition bind :: "('e + 'a) \<Rightarrow> ('a \<Rightarrow> 'e + 'b) \<Rightarrow> 'e + 'b" where
  "bind r f = (case r of Inl e \<Rightarrow> Inl e | Inr x \<Rightarrow> f x)"

lemma bind_simps [simp]: "bind (Inl e) f = Inl e" "bind (Inr x) f = f x"
  by (simp_all add: bind_def)

lemma bind_cong [fundef_cong]:
  "r = r' \<Longrightarrow> (\<And>x. r' = Inr x \<Longrightarrow> f x = g x) \<Longrightarrow> bind r f = bind r' g"
  by (auto simp: bind_def split: sum.split)

lemma bind_Inr_iff: "bind r f = Inr y \<longleftrightarrow> (\<exists>x. r = Inr x \<and> f x = Inr y)"
  by (cases r) auto

subsection \<open>Folding an operation that may fail\<close>

fun res_fold :: "('a \<Rightarrow> 's \<Rightarrow> 's result) \<Rightarrow> 'a list \<Rightarrow> 's \<Rightarrow> 's result" where
  "res_fold f [] s = Inr s"
| "res_fold f (x # xs) s = (case f x s of Inl e \<Rightarrow> Inl e | Inr s' \<Rightarrow> res_fold f xs s')"

lemma res_fold_append:
  "res_fold f (xs @ ys) s = (case res_fold f xs s of Inl e \<Rightarrow> Inl e | Inr s' \<Rightarrow> res_fold f ys s')"
  by (induction xs arbitrary: s) (auto split: sum.split)

lemma res_fold_invariant:
  assumes "res_fold f xs s = Inr s'" "P s"
    and "\<And>x s s'. x \<in> set xs \<Longrightarrow> P s \<Longrightarrow> f x s = Inr s' \<Longrightarrow> P s'"
  shows "P s'"
  using assms
proof (induction xs arbitrary: s)
  case (Cons x xs)
  then obtain t where t: "f x s = Inr t" "res_fold f xs t = Inr s'" by (auto split: sum.splits)
  with Cons.prems have "P t" by auto
  with t Cons.prems(3) show ?case by (intro Cons.IH [of t]) auto
qed simp

end
