(* ===== verification/TableSearch.thy ===== *)
theory TableSearch
  imports Prelude
begin

section \<open>Binary search over the engine's sorted tables\<close>

text \<open>
  The engine keeps its static tables (point scales, sessions, risk clusters, cluster
  rules) as sorted arrays and looks a key up with one hand-written binary search:
  a half-open range \<open>[lo, hi)\<close>, the overflow-safe midpoint, three-way comparison.
  The loop is \<open>table_search\<close>. The contract of a table, strict sortedness (the
  \<open>static_assert\<close> beside each table), is the locale \<open>sorted_table\<close>; inside it the search
  is shown to be the first-match lookup of the table read as an association list.
\<close>

function table_search ::
  "('e \<Rightarrow> string) \<Rightarrow> 'e list \<Rightarrow> string \<Rightarrow> nat \<Rightarrow> nat \<Rightarrow> 'e option" where
  "table_search key tbl x lo hi =
     (if lo < hi then
        let mid = lo + (hi - lo) div 2; entry = tbl ! mid in
        if key entry < x then table_search key tbl x (mid + 1) hi
        else if x < key entry then table_search key tbl x lo mid
        else Some entry
      else None)"
  by pat_completeness auto
termination
  by (relation "measure (\<lambda>(key, tbl, x, lo, hi). hi - lo)") auto

declare table_search.simps [simp del]

text \<open>The sortedness check the source runs at compile time.\<close>

fun table_sorted :: "('e \<Rightarrow> string) \<Rightarrow> 'e list \<Rightarrow> bool" where
  "table_sorted key (a # b # es) = (key a < key b \<and> table_sorted key (b # es))"
| "table_sorted key es = True"

lemma table_sorted_sorted_wrt:
  "table_sorted key es \<Longrightarrow> sorted_wrt (\<lambda>a b. key a < key b) es"
proof (induction key es rule: table_sorted.induct)
  case (1 key a b es)
  then have "sorted_wrt (\<lambda>a b. key a < key b) (b # es)" and ab: "key a < key b" by auto
  then show ?case by (auto intro: less_trans)
qed auto

locale sorted_table =
  fixes key :: "'e \<Rightarrow> string" and tbl :: "'e list"
  assumes sorted: "table_sorted key tbl"
begin

lemma strict: "sorted_wrt (\<lambda>a b. key a < key b) tbl"
  using sorted by (rule table_sorted_sorted_wrt)

lemma key_less: "i < j \<Longrightarrow> j < length tbl \<Longrightarrow> key (tbl ! i) < key (tbl ! j)"
  using strict by (simp add: sorted_wrt_iff_nth_less)

lemma key_le: "i \<le> j \<Longrightarrow> j < length tbl \<Longrightarrow> key (tbl ! i) \<le> key (tbl ! j)"
  using key_less by (cases "i = j") (auto intro: less_imp_le)

lemma distinct_keys: "distinct (map key tbl)"
  using strict by (simp add: distinct_conv_nth sorted_wrt_iff_nth_less)
    (metis less_irrefl linorder_neqE_nat)

lemma search_sound:
  "table_search key tbl x lo hi = Some e \<Longrightarrow> hi \<le> length tbl \<Longrightarrow> e \<in> set tbl \<and> key e = x"
proof (induction key tbl x lo hi rule: table_search.induct)
  case (1 key tbl x lo hi)
  let ?mid = "lo + (hi - lo) div 2"
  have lo: "lo < hi" using "1.prems"(1) by (subst (asm) table_search.simps) (auto split: if_splits)
  then have mid: "?mid < hi" by linarith
  from lo "1.prems"(1) have eq:
    "(if key (tbl ! ?mid) < x then table_search key tbl x (?mid + 1) hi
      else if x < key (tbl ! ?mid) then table_search key tbl x lo ?mid
      else Some (tbl ! ?mid)) = Some e"
    by (simp add: table_search.simps [of key tbl x lo hi] Let_def)
  show ?case
  proof (cases "key (tbl ! ?mid) < x \<or> x < key (tbl ! ?mid)")
    case True
    with eq "1.IH" [OF lo refl refl] mid "1.prems"(2) show ?thesis by (auto split: if_splits)
  next
    case False
    with eq mid "1.prems"(2) show ?thesis by auto
  qed
qed

lemma search_complete:
  assumes "lo \<le> i" "i < hi" "hi \<le> length tbl" "key (tbl ! i) = x"
  shows "table_search key tbl x lo hi = Some (tbl ! i)"
  using assms
proof (induction "hi - lo" arbitrary: lo hi rule: less_induct)
  case less
  let ?mid = "lo + (hi - lo) div 2"
  have mid: "lo \<le> ?mid" "?mid < hi" using less.prems by auto
  consider "key (tbl ! ?mid) < x" | "x < key (tbl ! ?mid)" | "key (tbl ! ?mid) = x"
    by (meson linorder_less_linear)
  then show ?case
  proof cases
    case 1
    then have "?mid < i"
      using less.prems mid key_le [of i ?mid] by (metis linorder_not_le order.strict_trans2 order_less_irrefl)
    moreover have "hi - (?mid + 1) < hi - lo" using mid by auto
    ultimately show ?thesis
      using 1 mid less by (simp add: table_search.simps [of key tbl x lo hi] Let_def)
  next
    case 2
    then have "i < ?mid"
      using less.prems mid key_le [of ?mid i] by (metis linorder_not_le order.strict_trans2 order_less_irrefl)
    moreover have "?mid - lo < hi - lo" using mid by auto
    ultimately show ?thesis
      using 2 mid less by (auto simp: table_search.simps [of key tbl x lo hi] Let_def)
  next
    case 3
    then have "?mid = i"
      using less.prems mid key_less [of i ?mid] key_less [of ?mid i]
      by (metis linorder_neqE_nat order.strict_trans2 order_less_irrefl)
    with 3 less.prems show ?thesis
      by (simp add: table_search.simps [of key tbl x lo hi] Let_def)
  qed
qed

text \<open>The search is lookup in the table read as an association list.\<close>

lemma search_Some_iff:
  "table_search key tbl x 0 (length tbl) = Some e \<longleftrightarrow> e \<in> set tbl \<and> key e = x"
  using search_sound search_complete by (metis in_set_conv_nth le0 order_refl)

lemma search_map_of:
  "table_search key tbl x 0 (length tbl) = map_of (map (\<lambda>e. (key e, e)) tbl) x"
proof (cases "map_of (map (\<lambda>e. (key e, e)) tbl) x")
  case None
  then have "\<not> (\<exists>e. table_search key tbl x 0 (length tbl) = Some e)"
    by (auto simp: search_Some_iff map_of_eq_None_iff image_image)
  with None show ?thesis by auto
next
  case (Some e)
  then have "e \<in> set tbl \<and> key e = x" using map_of_SomeD by fastforce
  with Some show ?thesis by (simp add: search_Some_iff)
qed

lemma search_None_iff:
  "table_search key tbl x 0 (length tbl) = None \<longleftrightarrow> x \<notin> key ` set tbl"
  by (auto simp: search_map_of map_of_eq_None_iff image_image)

end

end
