(* ===== verification/SymbolScale.thy ===== *)
theory SymbolScale
  imports TableSearch
begin

section \<open>Symbol scales\<close>

text \<open>
  \<open>source/shared/utilities/symbolScale.cppm\<close>: the table of 29 instruments with the points
  per pip (\<open>scale\<close>) and the decimal price multiplier (\<open>priceScale\<close>), looked up by binary
  search. An unknown symbol yields \<open>kUnknown\<close>, zero.
\<close>

record scale_entry =
  e_symbol :: symbol
  e_scale :: int
  e_priceScale :: int

abbreviation scale_row :: "symbol \<Rightarrow> int \<Rightarrow> int \<Rightarrow> scale_entry" where
  "scale_row s sc ps \<equiv> \<lparr>e_symbol = s, e_scale = sc, e_priceScale = ps\<rparr>"

definition scale_kTable :: "scale_entry list" where
  "scale_kTable =
    [scale_row ''AUDNZD'' 10 100000,
     scale_row ''AUDUSD'' 10 100000,
     scale_row ''AUSIDXAUD'' 100 100,
     scale_row ''BRENTCMDUSD'' 100 100,
     scale_row ''COPPERCMDUSD'' 100 100,
     scale_row ''DEUIDXEUR'' 100 100,
     scale_row ''EURAUD'' 10 100000,
     scale_row ''EURCHF'' 10 100000,
     scale_row ''EURGBP'' 10 100000,
     scale_row ''EURJPY'' 10 1000,
     scale_row ''EURNOK'' 10 100000,
     scale_row ''EURUSD'' 10 100000,
     scale_row ''FRAIDXEUR'' 100 100,
     scale_row ''GBPJPY'' 10 1000,
     scale_row ''GBPUSD'' 10 100000,
     scale_row ''GBRIDXGBP'' 100 100,
     scale_row ''HKGIDXHKD'' 100 100,
     scale_row ''JPNIDXJPY'' 100 100,
     scale_row ''LIGHTCMDUSD'' 100 100,
     scale_row ''NZDUSD'' 10 100000,
     scale_row ''USA30IDXUSD'' 100 100,
     scale_row ''USA500IDXUSD'' 100 100,
     scale_row ''USATECHIDXUSD'' 100 100,
     scale_row ''USDCAD'' 10 100000,
     scale_row ''USDCHF'' 10 100000,
     scale_row ''USDJPY'' 10 1000,
     scale_row ''USDSEK'' 10 100000,
     scale_row ''XAGUSD'' 1000 1000,
     scale_row ''XAUUSD'' 1000 1000]"

definition kUnknown :: int where
  "kUnknown = 0"

definition findEntry :: "symbol \<Rightarrow> scale_entry option" where
  "findEntry symbol = table_search e_symbol scale_kTable symbol 0 (length scale_kTable)"

definition get_scale :: "symbol \<Rightarrow> int" where
  "get_scale symbol = (case findEntry symbol of Some entry \<Rightarrow> e_scale entry | None \<Rightarrow> kUnknown)"

definition getPriceScale :: "symbol \<Rightarrow> int" where
  "getPriceScale symbol =
     (case findEntry symbol of Some entry \<Rightarrow> e_priceScale entry | None \<Rightarrow> kUnknown)"

subsection \<open>The table's contract and the lookups\<close>

lemma scale_kTable_sorted: "table_sorted e_symbol scale_kTable"
  by code_simp

interpretation scale_tbl: sorted_table e_symbol scale_kTable
  by unfold_locales (rule scale_kTable_sorted)

lemma findEntry_map_of:
  "findEntry s = map_of (map (\<lambda>e. (e_symbol e, e)) scale_kTable) s"
  by (simp add: findEntry_def scale_tbl.search_map_of)

lemma scale_entry_values:
  "e \<in> set scale_kTable \<Longrightarrow>
     e_scale e \<in> {10, 100, 1000} \<and> e_priceScale e \<in> {100, 1000, 100000}"
  by (auto simp: scale_kTable_def)

lemma findEntry_None_iff: "findEntry s = None \<longleftrightarrow> s \<notin> e_symbol ` set scale_kTable"
  by (simp add: findEntry_def scale_tbl.search_None_iff)

lemma get_scale_cases: "get_scale s \<in> {0, 10, 100, 1000}"
proof (cases "findEntry s")
  case (Some e)
  then have "e \<in> set scale_kTable" by (simp add: findEntry_def scale_tbl.search_Some_iff)
  with Some show ?thesis using scale_entry_values [of e] by (auto simp: get_scale_def)
qed (simp add: get_scale_def kUnknown_def)

lemma get_scale_nonneg [simp]: "0 \<le> get_scale s"
  using get_scale_cases [of s] by auto

lemma get_scale_le: "get_scale s \<le> 1000"
  using get_scale_cases [of s] by auto

lemma get_scale_dvd_10: "10 dvd get_scale s"
  using get_scale_cases [of s] by auto

lemma symbol_lookup_unknown:
  "get_scale s = kUnknown \<longleftrightarrow> s \<notin> e_symbol ` set scale_kTable"
  "getPriceScale s = kUnknown \<longleftrightarrow> s \<notin> e_symbol ` set scale_kTable"
proof -
  have "get_scale s \<noteq> kUnknown \<and> getPriceScale s \<noteq> kUnknown" if "findEntry s = Some e" for e
  proof -
    from that have "e \<in> set scale_kTable" by (simp add: findEntry_def scale_tbl.search_Some_iff)
    with that show ?thesis using scale_entry_values [of e]
      by (auto simp: get_scale_def getPriceScale_def kUnknown_def)
  qed
  moreover have "get_scale s = kUnknown \<and> getPriceScale s = kUnknown" if "findEntry s = None"
    using that by (simp add: get_scale_def getPriceScale_def)
  ultimately show "get_scale s = kUnknown \<longleftrightarrow> s \<notin> e_symbol ` set scale_kTable"
    and "getPriceScale s = kUnknown \<longleftrightarrow> s \<notin> e_symbol ` set scale_kTable"
    using findEntry_None_iff [of s] by (cases "findEntry s", auto)+
qed

text \<open>the hand-written binary search over the scale table agrees with first-match
  lookup for every symbol, and the unknown sentinel is returned for exactly the symbols
  outside the table.\<close>

theorem symbol_lookup_correct:
  "findEntry s = map_of (map (\<lambda>e. (e_symbol e, e)) scale_kTable) s
   \<and> (get_scale s = kUnknown \<longleftrightarrow> s \<notin> e_symbol ` set scale_kTable)
   \<and> (getPriceScale s = kUnknown \<longleftrightarrow> s \<notin> e_symbol ` set scale_kTable)"
  by (simp add: findEntry_map_of symbol_lookup_unknown)

end
