(* ===== verification/Trade.thy ===== *)
theory Trade
  imports SymbolScale
begin

section \<open>Ticks, bars, trades and the exit rule\<close>

text \<open>
  The plain data of the engine: \<open>priceData.cppm\<close> (a tick), \<open>ohlcObject.cppm\<close> (a bar) and
  \<open>trade.cppm\<close> (a position), and the stateless exit rule of
  \<open>source/run/trading/exitRules.cppm\<close>. Field names carry the prefix of their record
  (\<open>p_\<close> for a tick, \<open>b_\<close> for a bar, \<open>t_\<close> for a trade).
\<close>

subsection \<open>PriceData, OhlcObject\<close>

record price_data =
  p_ask :: int
  p_bid :: int
  p_timestamp :: time
  p_symbol :: symbol

text \<open>The width of the tick's fields: prices are \<open>std::int32_t\<close>.\<close>

definition tick_ok :: "price_data \<Rightarrow> bool" where
  "tick_ok tick \<longleftrightarrow> in_i32 (p_ask tick) \<and> in_i32 (p_bid tick)"

record ohlc_object =
  b_date :: time
  b_open :: int
  b_close :: int
  b_high :: int
  b_low :: int
  b_complete :: bool

subsection \<open>Trade\<close>

datatype direction = LONG | SHORT

record trade =
  t_id :: string
  t_entryPrice :: int
  t_entryBid :: int
  t_entryAsk :: int
  t_size :: int
  t_openTime :: time
  t_direction :: direction
  t_dealReference :: string
  t_symbol :: symbol
  t_scalingFactor :: int
  t_stopDistancePips :: int
  t_limitDistancePips :: int
  t_exitReferencePrice :: int
  t_stopPrice :: int
  t_limitPrice :: int
  t_strategyId :: string
  t_strategyName :: string
  t_closePrice :: int
  t_closeTime :: time
  t_pnl :: int
  t_lastMarkPrice :: int
  t_floatingPnl :: int
  t_liquidated :: bool

definition new_trade :: "int \<Rightarrow> int \<Rightarrow> direction \<Rightarrow> symbol \<Rightarrow> trade" where
  "new_trade price quantity dir tradeSymbol =
     \<lparr>t_id = [], t_entryPrice = price, t_entryBid = 0, t_entryAsk = 0, t_size = quantity,
      t_openTime = 0, t_direction = dir, t_dealReference = [], t_symbol = tradeSymbol,
      t_scalingFactor = get_scale tradeSymbol, t_stopDistancePips = 0,
      t_limitDistancePips = 0, t_exitReferencePrice = 0, t_stopPrice = 0, t_limitPrice = 0,
      t_strategyId = [], t_strategyName = [], t_closePrice = 0, t_closeTime = 0, t_pnl = 0,
      t_lastMarkPrice = 0, t_floatingPnl = 0, t_liquidated = False\<rparr>"

subsection \<open>exit\_rules::checkExit\<close>

definition checkExit :: "trade \<Rightarrow> price_data \<Rightarrow> int option" where
  "checkExit trade tick =
     (if t_scalingFactor trade = 0 then None
      else if t_direction trade = LONG then
        (if t_stopDistancePips trade \<noteq> 0 \<and> p_bid tick \<le> t_stopPrice trade
         then Some (p_bid tick)
         else if t_limitDistancePips trade \<noteq> 0 \<and> p_bid tick \<ge> t_limitPrice trade
         then Some (p_bid tick)
         else None)
      else
        (if t_stopDistancePips trade \<noteq> 0 \<and> p_ask tick \<ge> t_stopPrice trade
         then Some (p_ask tick)
         else if t_limitDistancePips trade \<noteq> 0 \<and> p_ask tick \<le> t_limitPrice trade
         then Some (p_ask tick)
         else None))"

text \<open>The side of the spread a position is closed on.\<close>

definition close_side :: "direction \<Rightarrow> price_data \<Rightarrow> int" where
  "close_side dir tick = (if dir = LONG then p_bid tick else p_ask tick)"

lemma close_side_simps [simp]:
  "close_side LONG tick = p_bid tick" "close_side SHORT tick = p_ask tick"
  by (simp_all add: close_side_def)

lemma checkExit_close_side:
  "checkExit trade tick = Some price \<Longrightarrow> price = close_side (t_direction trade) tick"
  by (auto simp: checkExit_def close_side_def split: if_splits)

lemma checkExit_unknown_scale: "t_scalingFactor trade = 0 \<Longrightarrow> checkExit trade tick = None"
  by (simp add: checkExit_def)

lemma checkExit_Some_iff:
  "(checkExit trade tick \<noteq> None) \<longleftrightarrow>
     t_scalingFactor trade \<noteq> 0 \<and>
     (case t_direction trade of
        LONG \<Rightarrow> (t_stopDistancePips trade \<noteq> 0 \<and> p_bid tick \<le> t_stopPrice trade)
              \<or> (t_limitDistancePips trade \<noteq> 0 \<and> t_limitPrice trade \<le> p_bid tick)
      | SHORT \<Rightarrow> (t_stopDistancePips trade \<noteq> 0 \<and> t_stopPrice trade \<le> p_ask tick)
              \<or> (t_limitDistancePips trade \<noteq> 0 \<and> p_ask tick \<le> t_limitPrice trade))"
  by (auto simp: checkExit_def split: direction.splits)

end
