(* ===== verification/TradeManager.thy ===== *)
theory TradeManager
  imports Trade
begin

section \<open>TradeManager: open positions and account equity\<close>

text \<open>
  \<open>source/run/trading/tradeManager.cppm\<close> and \<open>reviewStopAndLimit.cppm\<close>. The manager keeps
  at most one open trade per symbol, the closed trades in order, running sums of realised
  and floating profit (64-bit points per lot), and the running peak and deepest drop of
  the account equity. The hash map of open trades is an association list with distinct
  keys; \<open>closeAllTrades\<close> takes the container's iteration order as the argument \<open>order\<close>.
  Console output is left out.
\<close>

record trade_manager =
  activeTrades :: "(symbol \<times> trade) list"
  closedTrades :: "trade list"
  tradeCounter :: int
  closedPnl :: int
  openPnl :: int
  peakEquity :: int
  maxDrawdown :: int
  entrySlippageTenthPips :: int

definition new_trade_manager :: "int \<Rightarrow> trade_manager" where
  "new_trade_manager slip =
     \<lparr>activeTrades = [], closedTrades = [], tradeCounter = 0, closedPnl = 0, openPnl = 0,
      peakEquity = 0, maxDrawdown = 0, entrySlippageTenthPips = slip\<rparr>"

subsection \<open>Operations\<close>

definition floatingPnlAt :: "trade \<Rightarrow> int \<Rightarrow> int" where
  "floatingPnlAt trade mark =
     (let diff = i32 (mark - t_entryPrice trade);
          diff = (if t_direction trade = SHORT then i32 (- diff) else diff)
      in i64 (diff * t_size trade))"

definition equity :: "trade_manager \<Rightarrow> int" where
  "equity tm = i64 (closedPnl tm + openPnl tm)"

definition updateDrawdown :: "trade_manager \<Rightarrow> trade_manager" where
  "updateDrawdown tm =
     (let eq = equity tm;
          tm = (if eq > peakEquity tm then tm\<lparr>peakEquity := eq\<rparr> else tm);
          drop = i64 (peakEquity tm - eq)
      in if drop > maxDrawdown tm then tm\<lparr>maxDrawdown := drop\<rparr> else tm)"

text \<open>The trade \<open>openTrade\<close> builds, before it is put in the map.\<close>

definition build_trade ::
  "int \<Rightarrow> int \<Rightarrow> price_data \<Rightarrow> int \<Rightarrow> direction \<Rightarrow> int \<Rightarrow> int \<Rightarrow> trade" where
  "build_trade slip counter tick sz dir stopPips limitPips =
     (let price = (if dir = LONG then p_ask tick else p_bid tick);
          trade = new_trade price sz dir (p_symbol tick);
          trade = (if slip > 0 \<and> t_scalingFactor trade > 0 then
                     let slipPoints = cdiv (i32 (slip * t_scalingFactor trade)) 10
                     in trade\<lparr>t_entryPrice := i32 (t_entryPrice trade +
                          (if dir = LONG then slipPoints else i32 (- slipPoints)))\<rparr>
                   else trade);
          exitRef = (if dir = LONG then p_bid tick else p_ask tick);
          stopOffset = i32 (stopPips * t_scalingFactor trade);
          limitOffset = i32 (limitPips * t_scalingFactor trade);
          trade = trade\<lparr>t_openTime := p_timestamp tick, t_entryBid := p_bid tick,
                    t_entryAsk := p_ask tick, t_id := ''T'' @ int_dec counter,
                    t_stopDistancePips := stopPips, t_limitDistancePips := limitPips,
                    t_exitReferencePrice := exitRef,
                    t_stopPrice := (if dir = LONG then i32 (exitRef - stopOffset)
                                    else i32 (exitRef + stopOffset)),
                    t_limitPrice := (if dir = LONG then i32 (exitRef + limitOffset)
                                     else i32 (exitRef - limitOffset)),
                    t_lastMarkPrice := exitRef\<rparr>
      in trade\<lparr>t_floatingPnl := floatingPnlAt trade (t_lastMarkPrice trade)\<rparr>)"

definition openTrade ::
  "trade_manager \<Rightarrow> price_data \<Rightarrow> int \<Rightarrow> direction \<Rightarrow> int \<Rightarrow> int \<Rightarrow> string \<times> trade_manager"
where
  "openTrade tm tick sz dir stopPips limitPips =
     (let trade = build_trade (entrySlippageTenthPips tm) (tradeCounter tm) tick sz dir
                    stopPips limitPips;
          tm = tm\<lparr>tradeCounter := u64 (tradeCounter tm + 1)\<rparr>
      in case map_of (activeTrades tm) (t_symbol trade) of
           Some existing \<Rightarrow> (t_id existing, tm)
         | None \<Rightarrow>
             (t_id trade,
              updateDrawdown (tm\<lparr>activeTrades := (t_symbol trade, trade) # activeTrades tm,
                                 openPnl := i64 (openPnl tm + t_floatingPnl trade)\<rparr>)))"

definition markToMarket :: "trade_manager \<Rightarrow> price_data \<Rightarrow> trade_manager" where
  "markToMarket tm tick =
     (case map_of (activeTrades tm) (p_symbol tick) of
        None \<Rightarrow> tm
      | Some trade \<Rightarrow>
          (let mark = (if t_direction trade = LONG then p_bid tick else p_ask tick);
               updated = floatingPnlAt trade mark;
               trade' = trade\<lparr>t_floatingPnl := updated, t_lastMarkPrice := mark\<rparr>
           in updateDrawdown
                (tm\<lparr>activeTrades := AList.update (p_symbol tick) trade' (activeTrades tm),
                    openPnl := i64 (openPnl tm + i64 (updated - t_floatingPnl trade))\<rparr>)))"

definition reviewAccount :: "trade_manager \<Rightarrow> nat" where
  "reviewAccount tm = length (activeTrades tm)"

definition hasActiveTradeForSymbol :: "trade_manager \<Rightarrow> symbol \<Rightarrow> bool" where
  "hasActiveTradeForSymbol tm symbol \<longleftrightarrow> map_of (activeTrades tm) symbol \<noteq> None"

definition findActiveTrade :: "trade_manager \<Rightarrow> symbol \<Rightarrow> trade option" where
  "findActiveTrade tm symbol = map_of (activeTrades tm) symbol"

definition closeTrade ::
  "trade_manager \<Rightarrow> symbol \<Rightarrow> int \<Rightarrow> price_data \<Rightarrow> bool \<Rightarrow> bool \<times> trade_manager" where
  "closeTrade tm symbol closePrice tick liquidated =
     (case map_of (activeTrades tm) symbol of
        None \<Rightarrow> (False, tm)
      | Some trade \<Rightarrow>
          (let diff = i32 (closePrice - t_entryPrice trade);
               diff = (if t_direction trade = SHORT then i32 (- diff) else diff);
               pnl = i64 (diff * t_size trade);
               closed = trade\<lparr>t_closePrice := closePrice, t_closeTime := p_timestamp tick,
                          t_liquidated := liquidated, t_pnl := pnl, t_floatingPnl := 0\<rparr>;
               tm = updateDrawdown
                      (tm\<lparr>activeTrades := AList.delete symbol (activeTrades tm),
                          closedPnl := i64 (closedPnl tm + pnl),
                          openPnl := i64 (openPnl tm - t_floatingPnl trade)\<rparr>)
           in (True, tm\<lparr>closedTrades := closedTrades tm @ [closed]\<rparr>)))"

fun close_each ::
  "trade_manager \<Rightarrow> (symbol \<times> int) list \<Rightarrow> price_data \<Rightarrow> bool \<Rightarrow> trade_manager" where
  "close_each tm [] tick liquidated = tm"
| "close_each tm ((symbol, price) # rest) tick liquidated =
     close_each (snd (closeTrade tm symbol price tick liquidated)) rest tick liquidated"

type_synonym map_order = "(symbol \<times> trade) list \<Rightarrow> (symbol \<times> trade) list"

definition closeAllTrades ::
  "map_order \<Rightarrow> trade_manager \<Rightarrow> price_data \<Rightarrow> bool \<Rightarrow> trade_manager" where
  "closeAllTrades order tm tick liquidated =
     close_each tm (map (\<lambda>(symbol, trade). (symbol, t_lastMarkPrice trade))
                        (order (activeTrades tm))) tick liquidated"

definition calculatePnl :: "trade_manager \<Rightarrow> int" where
  "calculatePnl tm = closedPnl tm"

definition unrealizedPnl :: "trade_manager \<Rightarrow> int" where
  "unrealizedPnl tm = openPnl tm"

definition maxDrawdownPoints :: "trade_manager \<Rightarrow> int" where
  "maxDrawdownPoints tm = maxDrawdown tm"

definition reviewStopAndLimit :: "trade_manager \<Rightarrow> price_data \<Rightarrow> trade_manager" where
  "reviewStopAndLimit tm tick =
     (case findActiveTrade tm (p_symbol tick) of
        None \<Rightarrow> tm
      | Some trade \<Rightarrow>
          (case checkExit trade tick of
             None \<Rightarrow> tm
           | Some exitPrice \<Rightarrow> snd (closeTrade tm (p_symbol tick) exitPrice tick False)))"

subsection \<open>The accounting invariant\<close>

text \<open>
  Keys are distinct and name their trade's symbol; every open trade's floating profit is
  its value at its last mark; the running sums are the sums over the trades (modulo the
  width); a closed trade carries no floating profit and the profit of its close price.
\<close>

definition tm_inv :: "trade_manager \<Rightarrow> bool" where
  "tm_inv tm \<longleftrightarrow>
     distinct (map fst (activeTrades tm))
     \<and> (\<forall>(s, t) \<in> set (activeTrades tm).
          t_symbol t = s \<and> t_floatingPnl t = floatingPnlAt t (t_lastMarkPrice t))
     \<and> openPnl tm = i64 (\<Sum>(s, t) \<leftarrow> activeTrades tm. t_floatingPnl t)
     \<and> closedPnl tm = i64 (\<Sum>t \<leftarrow> closedTrades tm. t_pnl t)
     \<and> (\<forall>t \<in> set (closedTrades tm).
          t_floatingPnl t = 0 \<and> t_pnl t = floatingPnlAt t (t_closePrice t))"

lemma updateDrawdown_simps [simp]:
  "activeTrades (updateDrawdown tm) = activeTrades tm"
  "closedTrades (updateDrawdown tm) = closedTrades tm"
  "tradeCounter (updateDrawdown tm) = tradeCounter tm"
  "closedPnl (updateDrawdown tm) = closedPnl tm"
  "openPnl (updateDrawdown tm) = openPnl tm"
  "entrySlippageTenthPips (updateDrawdown tm) = entrySlippageTenthPips tm"
  "equity (updateDrawdown tm) = equity tm"
  by (simp_all add: updateDrawdown_def Let_def equity_def)

lemma tm_inv_updateDrawdown [simp]: "tm_inv (updateDrawdown tm) = tm_inv tm"
  by (simp add: tm_inv_def)

lemma floatingPnlAt_update [simp]:
  "floatingPnlAt (t\<lparr>t_floatingPnl := x\<rparr>) m = floatingPnlAt t m"
  "floatingPnlAt (t\<lparr>t_lastMarkPrice := y\<rparr>) m = floatingPnlAt t m"
  "floatingPnlAt (t\<lparr>t_closePrice := y\<rparr>) m = floatingPnlAt t m"
  "floatingPnlAt (t\<lparr>t_closeTime := y\<rparr>) m = floatingPnlAt t m"
  "floatingPnlAt (t\<lparr>t_liquidated := b\<rparr>) m = floatingPnlAt t m"
  "floatingPnlAt (t\<lparr>t_pnl := y\<rparr>) m = floatingPnlAt t m"
  by (simp_all add: floatingPnlAt_def)

text \<open>Inside the width the value of a position is its signed price move times its size.\<close>

lemma floatingPnlAt_exact:
  assumes "in_i32 (mark - t_entryPrice t)" "in_i32 (t_entryPrice t - mark)" "in_i32 (t_size t)"
  shows "floatingPnlAt t mark =
           (if t_direction t = SHORT then t_entryPrice t - mark else mark - t_entryPrice t) * t_size t"
  using assms in_i64_mult [OF assms(1,3)] in_i64_mult [OF assms(2,3)]
  by (simp add: floatingPnlAt_def Let_def)

lemma build_trade_simps [simp]:
  "t_symbol (build_trade slip c tick sz dir sp lp) = p_symbol tick"
  "t_direction (build_trade slip c tick sz dir sp lp) = dir"
  "t_size (build_trade slip c tick sz dir sp lp) = sz"
  "t_scalingFactor (build_trade slip c tick sz dir sp lp) = get_scale (p_symbol tick)"
  "t_openTime (build_trade slip c tick sz dir sp lp) = p_timestamp tick"
  "t_stopDistancePips (build_trade slip c tick sz dir sp lp) = sp"
  "t_limitDistancePips (build_trade slip c tick sz dir sp lp) = lp"
  "t_lastMarkPrice (build_trade slip c tick sz dir sp lp) = close_side dir tick"
  "t_exitReferencePrice (build_trade slip c tick sz dir sp lp) = close_side dir tick"
  by (simp_all add: build_trade_def new_trade_def Let_def close_side_def)

lemma build_trade_floating:
  "t_floatingPnl (build_trade slip c tick sz dir sp lp) =
     floatingPnlAt (build_trade slip c tick sz dir sp lp) (close_side dir tick)"
  by (simp add: build_trade_def Let_def close_side_def)

lemma tm_inv_new [inv_intros]: "tm_inv (new_trade_manager slip)"
  by (simp add: tm_inv_def new_trade_manager_def)

lemma tm_inv_openTrade [inv_intros]:
  assumes "tm_inv tm"
  shows "tm_inv (snd (openTrade tm tick sz dir sp lp))"
proof (cases "map_of (activeTrades tm) (p_symbol tick)")
  case None
  then have "p_symbol tick \<notin> fst ` set (activeTrades tm)"
    by (simp add: map_of_eq_None_iff)
  with None assms show ?thesis
    by (auto simp: openTrade_def Let_def tm_inv_def build_trade_floating wrap_simps add.commute)
next
  case (Some t)
  with assms show ?thesis by (auto simp: openTrade_def Let_def tm_inv_def)
qed

lemma tm_inv_markToMarket [inv_intros]:
  assumes "tm_inv tm"
  shows "tm_inv (markToMarket tm tick)"
proof (cases "map_of (activeTrades tm) (p_symbol tick)")
  case None
  with assms show ?thesis by (simp add: markToMarket_def)
next
  case (Some t)
  have d: "distinct (map fst (activeTrades tm))" using assms by (simp add: tm_inv_def)
  note sum_upd = sum_list_update [OF d Some, where f = "\<lambda>(s, t). t_floatingPnl t"]
  from Some assms have "t_symbol t = p_symbol tick"
    by (auto simp: tm_inv_def dest: map_of_SomeD)
  with assms d Some show ?thesis
    by (auto simp: markToMarket_def Let_def tm_inv_def set_update_distinct sum_upd wrap_simps
        map_fst_update algebra_simps)
qed

lemma tm_inv_closeTrade [inv_intros]:
  assumes "tm_inv tm"
  shows "tm_inv (snd (closeTrade tm symbol price tick liq))"
proof (cases "map_of (activeTrades tm) symbol")
  case None
  with assms show ?thesis by (simp add: closeTrade_def)
next
  case (Some t)
  have d: "distinct (map fst (activeTrades tm))" using assms by (simp add: tm_inv_def)
  note sum_del = sum_list_delete [OF d Some, where f = "\<lambda>(s, t). t_floatingPnl t"]
  from Some assms d show ?thesis
    by (auto simp: closeTrade_def Let_def tm_inv_def set_delete distinct_delete sum_del wrap_simps
        floatingPnlAt_def)
qed

lemma tm_inv_close_each [inv_intros]:
  "tm_inv tm \<Longrightarrow> tm_inv (close_each tm xs tick liq)"
  by (induction tm xs tick liq rule: close_each.induct) (auto intro: tm_inv_closeTrade)

lemma tm_inv_closeAllTrades [inv_intros]:
  "tm_inv tm \<Longrightarrow> tm_inv (closeAllTrades order tm tick liq)"
  by (simp add: closeAllTrades_def tm_inv_close_each)

lemma tm_inv_reviewStopAndLimit [inv_intros]:
  "tm_inv tm \<Longrightarrow> tm_inv (reviewStopAndLimit tm tick)"
  by (auto simp: reviewStopAndLimit_def split: option.splits intro: tm_inv_closeTrade)

lemmas tm_op_defs = openTrade_def markToMarket_def closeTrade_def Let_def

subsection \<open>Refused and frame cases\<close>

lemma openTrade_refused:
  "map_of (activeTrades tm) (p_symbol tick) = Some t \<Longrightarrow>
   openTrade tm tick sz dir sp lp =
     (t_id t, tm\<lparr>tradeCounter := u64 (tradeCounter tm + 1)\<rparr>)"
  by (simp add: openTrade_def Let_def)

lemma openTrade_active:
  "map_of (activeTrades tm) (p_symbol tick) = None \<Longrightarrow>
   activeTrades (snd (openTrade tm tick sz dir sp lp)) =
     (p_symbol tick, build_trade (entrySlippageTenthPips tm) (tradeCounter tm) tick sz dir sp lp)
       # activeTrades tm"
  by (simp add: openTrade_def Let_def)

lemma closeTrade_missing:
  "map_of (activeTrades tm) s = None \<Longrightarrow> closeTrade tm s price tick liq = (False, tm)"
  by (simp add: closeTrade_def)

lemma closeTrade_active:
  "activeTrades (snd (closeTrade tm s price tick liq)) = AList.delete s (activeTrades tm)"
  by (auto simp: closeTrade_def Let_def map_of_eq_None_iff split: option.splits)

lemma find_closeTrade_other:
  "s' \<noteq> s \<Longrightarrow> findActiveTrade (snd (closeTrade tm s price tick liq)) s' = findActiveTrade tm s'"
  by (simp add: findActiveTrade_def closeTrade_active)

lemma find_closeTrade_same:
  "findActiveTrade (snd (closeTrade tm s price tick liq)) s = None"
  by (simp add: findActiveTrade_def closeTrade_active)

lemma find_markToMarket_other:
  "s \<noteq> p_symbol tick \<Longrightarrow> findActiveTrade (markToMarket tm tick) s = findActiveTrade tm s"
  by (auto simp: findActiveTrade_def markToMarket_def Let_def update_conv' split: option.splits)

lemma find_reviewStopAndLimit_other:
  "s \<noteq> p_symbol tick \<Longrightarrow> findActiveTrade (reviewStopAndLimit tm tick) s = findActiveTrade tm s"
  by (auto simp: reviewStopAndLimit_def find_closeTrade_other split: option.splits)

lemma length_activeTrades_le:
  "length (activeTrades (snd (closeTrade tm s price tick liq))) \<le> length (activeTrades tm)"
  by (simp add: closeTrade_active length_delete_le)

lemma length_markToMarket [simp]: "length (activeTrades (markToMarket tm tick)) = length (activeTrades tm)"
proof (cases "map_of (activeTrades tm) (p_symbol tick)")
  case (Some t)
  from map_fst_update [OF Some] show ?thesis
    by (metis (no_types, lifting) Some length_map markToMarket_def option.simps(5)
        trade_manager.select_convs(1) trade_manager.surjective trade_manager.update_convs(1,5)
        updateDrawdown_simps(1))
qed (simp add: markToMarket_def)

subsection \<open>Closing every trade at its mark realises the floating profit\<close>

lemma pnl_at_mark:
  assumes "tm_inv tm" "map_of (activeTrades tm) s = Some t"
  shows "floatingPnlAt t (t_lastMarkPrice t) = t_floatingPnl t"
  using assms by (auto simp: tm_inv_def dest: map_of_SomeD)

lemma closeTrade_sums:
  assumes "map_of (activeTrades tm) s = Some t"
  shows "closedPnl (snd (closeTrade tm s price tick liq)) = i64 (closedPnl tm + floatingPnlAt t price)"
    and "openPnl (snd (closeTrade tm s price tick liq)) = i64 (openPnl tm - t_floatingPnl t)"
    and "\<exists>c. closedTrades (snd (closeTrade tm s price tick liq)) = closedTrades tm @ [c]
             \<and> t_symbol c = t_symbol t \<and> t_closePrice c = price \<and> t_liquidated c = liq
             \<and> t_closeTime c = p_timestamp tick \<and> t_pnl c = floatingPnlAt t price"
  using assms by (auto simp: closeTrade_def Let_def floatingPnlAt_def)

lemma equity_closeTrade_at_mark:
  assumes "tm_inv tm" "map_of (activeTrades tm) s = Some t"
  shows "equity (snd (closeTrade tm s (t_lastMarkPrice t) tick liq)) = equity tm"
  using closeTrade_sums(1,2) [OF assms(2)] pnl_at_mark [OF assms]
  by (simp add: equity_def wrap_simps)

lemma close_each_at_marks:
  assumes "tm_inv tm" and "mset xs = mset (activeTrades tm)"
  shows "activeTrades (close_each tm (map (\<lambda>(s, t). (s, t_lastMarkPrice t)) xs) tick liq) = []
       \<and> equity (close_each tm (map (\<lambda>(s, t). (s, t_lastMarkPrice t)) xs) tick liq) = equity tm
       \<and> (\<exists>cs. closedTrades (close_each tm (map (\<lambda>(s, t). (s, t_lastMarkPrice t)) xs) tick liq)
                 = closedTrades tm @ cs
             \<and> map t_symbol cs = map fst xs \<and> (\<forall>c \<in> set cs. t_liquidated c = liq))"
  using assms
proof (induction xs arbitrary: tm)
  case Nil
  then show ?case by simp
next
  case (Cons p xs)
  obtain s t where p: "p = (s, t)" by (cases p)
  have d: "distinct (map fst (activeTrades tm))" using Cons.prems by (simp add: tm_inv_def)
  have in_t: "(s, t) \<in> set (activeTrades tm)"
    using Cons.prems p by (metis list.set_intros(1) mset_eq_setD)
  then have st: "map_of (activeTrades tm) s = Some t" using d by simp
  let ?tm = "snd (closeTrade tm s (t_lastMarkPrice t) tick liq)"
  have del: "mset (AList.delete s (activeTrades tm)) = mset (activeTrades tm) - {#(s, t)#}"
    using d in_t by (rule mset_delete)
  have "mset xs = mset (activeTrades ?tm)"
    using Cons.prems(2) p by (simp add: closeTrade_active del)
      (metis add_mset_remove_trivial mset.simps(2))
  with Cons.IH [of ?tm] Cons.prems(1)
  have IH: "activeTrades (close_each ?tm (map (\<lambda>(s, t). (s, t_lastMarkPrice t)) xs) tick liq) = []
       \<and> equity (close_each ?tm (map (\<lambda>(s, t). (s, t_lastMarkPrice t)) xs) tick liq) = equity ?tm
       \<and> (\<exists>cs. closedTrades (close_each ?tm (map (\<lambda>(s, t). (s, t_lastMarkPrice t)) xs) tick liq)
                 = closedTrades ?tm @ cs
             \<and> map t_symbol cs = map fst xs \<and> (\<forall>c \<in> set cs. t_liquidated c = liq))"
    by (simp add: tm_inv_closeTrade)
  obtain c where "closedTrades ?tm = closedTrades tm @ [c]"
      "t_symbol c = t_symbol t" "t_liquidated c = liq"
    using closeTrade_sums(3) [OF st] by blast
  moreover have "t_symbol t = s" using Cons.prems(1) in_t by (auto simp: tm_inv_def)
  moreover obtain cs where "closedTrades (close_each ?tm (map (\<lambda>(s, t). (s, t_lastMarkPrice t)) xs) tick liq)
       = closedTrades ?tm @ cs" "map t_symbol cs = map fst xs" "\<forall>c \<in> set cs. t_liquidated c = liq"
    using IH by blast
  ultimately show ?case
    using IH p equity_closeTrade_at_mark [OF Cons.prems(1) st]
    by (auto intro!: exI [of _ "c # cs"])
qed

lemma closeAllTrades_books:
  assumes "tm_inv tm" and "\<And>xs. mset (order xs) = mset xs"
  shows "activeTrades (closeAllTrades order tm tick liq) = []"
    and "openPnl (closeAllTrades order tm tick liq) = 0"
    and "closedPnl (closeAllTrades order tm tick liq) = equity tm"
proof -
  let ?tm = "closeAllTrades order tm tick liq"
  note each = close_each_at_marks [OF assms(1) assms(2), of tick liq]
  have inv: "tm_inv ?tm" using assms(1) by (rule tm_inv_closeAllTrades)
  show act: "activeTrades ?tm = []" using each by (simp add: closeAllTrades_def)
  have eq: "equity ?tm = equity tm" using each by (simp add: closeAllTrades_def)
  from act inv show op: "openPnl ?tm = 0" by (auto simp: tm_inv_def)
  have "in_i64 (closedPnl ?tm)" using inv by (auto simp: tm_inv_def)
  with eq op show "closedPnl ?tm = equity tm" by (simp add: equity_def)
qed

text \<open>C2: closing every open trade at its last mark, in whatever order the hash map yields
  them, leaves no open trade and no floating profit, and turns the account equity into
  realised profit unchanged; exactly the open symbols are closed, flagged as asked.\<close>

theorem closeAllTrades_realises_equity:
  assumes "tm_inv tm" and "\<And>xs. mset (order xs) = mset xs"
  shows "activeTrades (closeAllTrades order tm tick liq) = []
       \<and> unrealizedPnl (closeAllTrades order tm tick liq) = 0
       \<and> calculatePnl (closeAllTrades order tm tick liq) = equity tm
       \<and> (\<exists>cs. closedTrades (closeAllTrades order tm tick liq) = closedTrades tm @ cs
             \<and> mset (map t_symbol cs) = mset (map fst (activeTrades tm))
             \<and> (\<forall>c \<in> set cs. t_liquidated c = liq))"
proof -
  let ?tm = "closeAllTrades order tm tick liq"
  have order: "mset (order (activeTrades tm)) = mset (activeTrades tm)" by (rule assms(2))
  obtain cs where "closedTrades ?tm = closedTrades tm @ cs"
    "map t_symbol cs = map fst (order (activeTrades tm))" "\<forall>c \<in> set cs. t_liquidated c = liq"
    using close_each_at_marks [OF assms(1) order, of tick liq] by (auto simp: closeAllTrades_def)
  moreover have "mset (map t_symbol cs) = mset (map fst (activeTrades tm))"
    using calculation(2) order by (metis mset_map)
  ultimately show ?thesis
    using closeAllTrades_books [OF assms] unfolding calculatePnl_def unrealizedPnl_def by blast
qed

theorem closeAllTrades_realises_equity_witness:
  "calculatePnl (closeAllTrades rev (snd (openTrade (new_trade_manager 0)
     \<lparr>p_ask = 110012, p_bid = 110004, p_timestamp = 0, p_symbol = ''EURUSD''\<rparr> 1 LONG 0 0))
     \<lparr>p_ask = 3, p_bid = 2, p_timestamp = 9, p_symbol = ''XAUUSD''\<rparr> True) = - 8"
proof -
  let ?tm = "snd (openTrade (new_trade_manager 0)
     \<lparr>p_ask = 110012, p_bid = 110004, p_timestamp = 0, p_symbol = ''EURUSD''\<rparr> 1 LONG 0 0)"
  have "tm_inv ?tm" by (intro inv_intros)
  moreover have "equity ?tm = - 8" by code_simp
  ultimately show ?thesis
    using closeAllTrades_realises_equity [of ?tm rev] by simp
qed

end
