(* ===== verification/Accounting.thy ===== *)
theory Accounting
  imports TradeManager
begin

section \<open>What a trade costs and when it exits\<close>

text \<open>
  Properties of \<open>TradeManager\<close> that rest on its operations together: the width bounds under
  which entry arithmetic is exact, the contract of the stop and limit levels, and the cost
  of opening.
\<close>

subsection \<open>Entry arithmetic inside the width\<close>

text \<open>
  Bounds the engine's data satisfies with a wide margin: scaled prices stay below
  \<open>2 ^ 30\<close> (the comments of \<open>priceData.cppm\<close> put the largest at about 4.5 million), pip
  distances and slippage below one hundred thousand, so a distance in points stays below
  \<open>10 ^ 8\<close>.
\<close>

definition price_bound :: "int \<Rightarrow> bool" where
  "price_bound x \<longleftrightarrow> \<bar>x\<bar> \<le> 2 ^ 29"

definition tick_bounded :: "price_data \<Rightarrow> bool" where
  "tick_bounded tick \<longleftrightarrow> price_bound (p_ask tick) \<and> price_bound (p_bid tick)"

definition pips_bound :: "int \<Rightarrow> bool" where
  "pips_bound x \<longleftrightarrow> 0 \<le> x \<and> x \<le> 100000"

lemma offset_bound:
  assumes "pips_bound x"
  shows "0 \<le> x * get_scale s" "x * get_scale s \<le> 10 ^ 8"
proof -
  show "0 \<le> x * get_scale s" using assms by (simp add: pips_bound_def)
  have "x * get_scale s \<le> 100000 * 1000"
    using assms get_scale_le [of s] by (intro mult_mono) (auto simp: pips_bound_def)
  then show "x * get_scale s \<le> 10 ^ 8" by simp
qed

lemma i32_offset [simp]: "pips_bound x \<Longrightarrow> i32 (x * get_scale s) = x * get_scale s"
  using offset_bound [of x s] by (simp add: in_i32_def)

lemma i32_price_offset:
  assumes "price_bound p" "pips_bound x"
  shows "i32 (p + x * get_scale s) = p + x * get_scale s"
    and "i32 (p - x * get_scale s) = p - x * get_scale s"
  using assms offset_bound [of x s] by (auto simp: in_i32_def price_bound_def abs_le_iff)

lemma build_trade_levels:
  assumes "tick_bounded tick" "pips_bound sp" "pips_bound lp"
  shows "t_stopPrice (build_trade slip c tick sz dir sp lp) =
           (if dir = LONG then p_bid tick - sp * get_scale (p_symbol tick)
            else p_ask tick + sp * get_scale (p_symbol tick))"
    and "t_limitPrice (build_trade slip c tick sz dir sp lp) =
           (if dir = LONG then p_bid tick + lp * get_scale (p_symbol tick)
            else p_ask tick - lp * get_scale (p_symbol tick))"
  using assms i32_price_offset
  by (simp_all add: build_trade_def new_trade_def Let_def tick_bounded_def)

definition slip_points :: "int \<Rightarrow> symbol \<Rightarrow> int" where
  "slip_points slip s = (if slip > 0 then slip * (get_scale s div 10) else 0)"

lemma slip_points_exact:
  assumes "0 < slip"
  shows "slip * get_scale s div 10 = slip * (get_scale s div 10)"
  using get_scale_dvd_10 [of s] by (auto elim!: dvdE)

lemma slip_points_bound:
  assumes "slip \<le> 100000"
  shows "0 \<le> slip_points slip s" "slip_points slip s \<le> 10 ^ 7"
proof -
  have g: "0 \<le> get_scale s div 10" "get_scale s div 10 \<le> 100"
    using get_scale_cases [of s] by auto
  then show "0 \<le> slip_points slip s" by (simp add: slip_points_def)
  have "slip * (get_scale s div 10) \<le> 100000 * 100" if "0 < slip"
    using assms that g by (intro mult_mono) auto
  then show "slip_points slip s \<le> 10 ^ 7" by (auto simp: slip_points_def)
qed

lemma build_trade_entry:
  assumes "tick_bounded tick" "slip \<le> 100000"
  shows "t_entryPrice (build_trade slip c tick sz dir sp lp) =
           (if dir = LONG then p_ask tick + slip_points slip (p_symbol tick)
            else p_bid tick - slip_points slip (p_symbol tick))"
proof (cases "0 < slip \<and> 0 < get_scale (p_symbol tick)")
  case True
  let ?s = "p_symbol tick"
  note b = slip_points_bound [OF assms(2), of ?s]
  have "pips_bound slip" using True assms by (simp add: pips_bound_def)
  then have "cdiv (i32 (slip * get_scale ?s)) 10 = slip_points slip ?s"
    using True offset_bound [of slip ?s] slip_points_exact [of slip ?s]
    by (simp add: slip_points_def)
  moreover have "i32 (p_ask tick + slip_points slip ?s) = p_ask tick + slip_points slip ?s"
     "i32 (p_bid tick - slip_points slip ?s) = p_bid tick - slip_points slip ?s"
     "i32 (- slip_points slip ?s) = - slip_points slip ?s"
    using b assms(1) by (auto simp: in_i32_def tick_bounded_def price_bound_def abs_le_iff)
  ultimately show ?thesis
    using True by (simp add: build_trade_def new_trade_def Let_def)
next
  case False
  then have "slip_points slip (p_symbol tick) = 0"
    using get_scale_nonneg [of "p_symbol tick"] by (auto simp: slip_points_def)
  moreover have "t_entryPrice (build_trade slip c tick sz dir sp lp) =
      (if dir = LONG then p_ask tick else p_bid tick)"
    using False by (auto simp: build_trade_def new_trade_def Let_def)
  ultimately show ?thesis by simp
qed

text \<open>Opening a trade dips the equity by exactly the spread plus the configured
  slippage, per lot: the floating profit of a fresh trade is
  \<open>-(ask - bid + slippage) * size\<close>, on either side of the market.\<close>

theorem open_costs_spread_and_slippage:
  assumes "tick_bounded tick" "slip \<le> 100000" "in_i32 sz"
  shows "t_floatingPnl (build_trade slip c tick sz dir sp lp) =
           - (p_ask tick - p_bid tick + slip_points slip (p_symbol tick)) * sz"
proof -
  let ?cost = "p_ask tick - p_bid tick + slip_points slip (p_symbol tick)"
  note b = slip_points_bound [OF assms(2), of "p_symbol tick"]
  have w: "in_i32 (- ?cost)" "in_i32 ?cost"
    using b assms(1) by (auto simp: in_i32_def tick_bounded_def price_bound_def abs_le_iff)
  let ?t = "build_trade slip c tick sz dir sp lp"
  have "close_side dir tick - t_entryPrice ?t = (if dir = SHORT then ?cost else - ?cost)"
    by (cases dir) (simp_all add: build_trade_entry [OF assms(1,2)])
  moreover from this have "t_entryPrice ?t - close_side dir tick = (if dir = SHORT then - ?cost else ?cost)"
    by (auto split: if_splits)
  ultimately show ?thesis
    using w assms(3) floatingPnlAt_exact [of "close_side dir tick" ?t]
    by (auto simp: build_trade_floating split: if_splits)
qed

theorem open_costs_spread_and_slippage_witness:
  "t_floatingPnl (build_trade 3 0 \<lparr>p_ask = 110012, p_bid = 110004, p_timestamp = 0,
      p_symbol = ''EURUSD''\<rparr> 2 SHORT 10 20) = - 22"
proof -
  let ?tick = "\<lparr>p_ask = 110012, p_bid = 110004, p_timestamp = 0, p_symbol = ''EURUSD''\<rparr>"
  have "slip_points 3 ''EURUSD'' = 3" by code_simp
  then show ?thesis
    using open_costs_spread_and_slippage [of ?tick 3 2 0 SHORT 10 20]
    by (simp add: tick_bounded_def price_bound_def in_i32_def)
qed

subsection \<open>The contract of stop and limit\<close>

text \<open>C3: a freshly opened trade on a known symbol is closed by a later tick exactly when
  the price on its closing side has moved against it by at least the stop distance or in
  its favour by at least the limit distance (both in pips, a zero distance disarms the
  leg), and it closes at that tick's closing-side price: gaps fill at the real price.\<close>

theorem stop_limit_contract:
  fixes tick tick' :: price_data and dir :: direction
  defines "move \<equiv> (if dir = LONG then p_bid tick' - p_bid tick else p_ask tick - p_ask tick')"
  assumes "tick_bounded tick" "pips_bound sp" "pips_bound lp"
    and "p_symbol tick \<in> e_symbol ` set scale_kTable"
  shows "checkExit (build_trade slip c tick sz dir sp lp) tick' =
     (if (sp \<noteq> 0 \<and> move \<le> - (sp * get_scale (p_symbol tick)))
         \<or> (lp \<noteq> 0 \<and> lp * get_scale (p_symbol tick) \<le> move)
      then Some (close_side dir tick') else None)"
proof -
  have "get_scale (p_symbol tick) \<noteq> 0"
    using assms(5) symbol_lookup_unknown [of "p_symbol tick"] by (simp add: kUnknown_def)
  then show ?thesis
    using build_trade_levels [OF assms(2-4)]
    by (cases dir) (auto simp: checkExit_def move_def)
qed

theorem stop_limit_contract_witness:
  "checkExit (build_trade 0 0 \<lparr>p_ask = 110012, p_bid = 110004, p_timestamp = 0,
      p_symbol = ''EURUSD''\<rparr> 1 LONG 10 20)
     \<lparr>p_ask = 109910, p_bid = 109890, p_timestamp = 5, p_symbol = ''EURUSD''\<rparr> = Some 109890"
proof -
  have "''EURUSD'' \<in> e_symbol ` set scale_kTable" by code_simp
  moreover have "get_scale ''EURUSD'' = 10" by code_simp
  ultimately show ?thesis
    using stop_limit_contract [of "\<lparr>p_ask = 110012, p_bid = 110004, p_timestamp = 0,
        p_symbol = ''EURUSD''\<rparr>" 10 20 0 0 1 LONG
        "\<lparr>p_ask = 109910, p_bid = 109890, p_timestamp = 5, p_symbol = ''EURUSD''\<rparr>"]
    by (simp add: tick_bounded_def price_bound_def pips_bound_def)
qed

text \<open>In particular the tick that opens a trade never closes it.\<close>

lemma no_exit_on_entry_tick:
  assumes "tick_bounded tick" "pips_bound sp" "pips_bound lp"
  shows "checkExit (build_trade slip c tick sz dir sp lp) tick = None"
proof (cases "get_scale (p_symbol tick) = 0")
  case False
  then have "0 < get_scale (p_symbol tick)" using get_scale_cases [of "p_symbol tick"] by auto
  then have pos: "0 < x * get_scale (p_symbol tick)" if "pips_bound x" "x \<noteq> 0" for x
    using that by (simp add: pips_bound_def)
  from pos [OF assms(2)] pos [OF assms(3)] show ?thesis
    using build_trade_levels [OF assms, of slip c sz dir]
    by (cases dir) (auto simp: checkExit_def)
qed (simp add: checkExit_unknown_scale)

end
