(* ===== verification/Drawdown.thy ===== *)
theory Drawdown
  imports TradeManager
begin

section \<open>The account's drawdown\<close>

text \<open>
  \<open>TradeManager::updateDrawdown\<close> folds the current equity into a peak and a deepest drop
  after every change. This theory runs the manager's operations as a list, collects the
  equity curve, and shows the running value equal to the reference definition: the
  largest drop between two points of the curve.
\<close>

subsection \<open>The running drawdown is the maximum peak-to-trough drop\<close>

text \<open>
  The operations of the manager as values, so that a run is a list of them. A refused open,
  a mark or close of a symbol without a position leave the equity alone.
\<close>

datatype tm_op =
    Open price_data int direction int int
  | Mark price_data
  | Close symbol int price_data bool

fun tm_step :: "trade_manager \<Rightarrow> tm_op \<Rightarrow> trade_manager" where
  "tm_step tm (Open tick sz dir sp lp) = snd (openTrade tm tick sz dir sp lp)"
| "tm_step tm (Mark tick) = markToMarket tm tick"
| "tm_step tm (Close s price tick liq) = snd (closeTrade tm s price tick liq)"

fun tm_run :: "trade_manager \<Rightarrow> tm_op list \<Rightarrow> trade_manager" where
  "tm_run tm [] = tm"
| "tm_run tm (op # ops) = tm_run (tm_step tm op) ops"

fun equity_curve :: "trade_manager \<Rightarrow> tm_op list \<Rightarrow> int list" where
  "equity_curve tm [] = [equity tm]"
| "equity_curve tm (op # ops) = equity tm # equity_curve (tm_step tm op) ops"

text \<open>The reference: the largest drop from any point of a curve to a later one.\<close>

definition drops :: "int list \<Rightarrow> int list" where
  "drops es = [es ! i - es ! j. j \<leftarrow> [0..<length es], i \<leftarrow> [0..<Suc j]]"

definition max_drop :: "int list \<Rightarrow> int" where
  "max_drop es = Max (set (drops es))"

definition equity_bounded :: "int list \<Rightarrow> bool" where
  "equity_bounded es \<longleftrightarrow> (\<forall>e \<in> set es. \<bar>e\<bar> \<le> 2 ^ 62 - 1)"

lemma drops_snoc:
  "drops (es @ [e]) = drops es @ map (\<lambda>x. x - e) (es @ [e])"
proof -
  have "map (\<lambda>i. (es @ [e]) ! i - e) [0..<Suc (length es)] = map (\<lambda>x. x - e) (es @ [e])"
    by (rule nth_equalityI) (auto simp: nth_append simp del: upt_Suc)
  moreover have "drops (es @ [e]) =
      drops es @ map (\<lambda>i. (es @ [e]) ! i - e) [0..<Suc (length es)]"
    by (auto simp: drops_def nth_append intro!: arg_cong [where f = concat] map_cong)
  ultimately show ?thesis by simp
qed

lemma Max_minus:
  fixes A :: "int set"
  assumes "finite A" "A \<noteq> {}"
  shows "Max ((\<lambda>x. x - e) ` A) = Max A - e"
  using assms by (intro Max_eqI) auto

lemma max_drop_snoc:
  assumes "es \<noteq> []"
  shows "max_drop (es @ [e]) = max (max_drop es) (Max (set (es @ [e])) - e)"
proof -
  have ne: "set (drops es) \<noteq> {}"
    using assms by (auto simp: drops_def intro!: exI [of _ 0])
  have "set (drops (es @ [e])) = set (drops es) \<union> (\<lambda>x. x - e) ` set (es @ [e])"
    by (simp only: drops_snoc set_append set_map)
  then have "max_drop (es @ [e]) = max (max_drop es) (Max ((\<lambda>x. x - e) ` set (es @ [e])))"
    unfolding max_drop_def using ne by (simp only:) (intro Max_Un; simp)
  moreover have "Max ((\<lambda>x. x - e) ` set (es @ [e])) = Max (set (es @ [e])) - e"
    by (intro Max_minus) auto
  ultimately show ?thesis by (simp only:)
qed

lemma max_drop_single [simp]: "max_drop [e] = 0"
  by (simp add: max_drop_def drops_def)

lemma updateDrawdown_extremes:
  "peakEquity (updateDrawdown tm) = max (peakEquity tm) (equity tm)"
  "maxDrawdown (updateDrawdown tm) =
     max (maxDrawdown tm) (i64 (max (peakEquity tm) (equity tm) - equity tm))"
  by (auto simp: updateDrawdown_def Let_def max_def)

text \<open>The manager's extremes agree with a curve that ends at its current equity.\<close>

definition dd_agrees :: "trade_manager \<Rightarrow> int list \<Rightarrow> bool" where
  "dd_agrees tm es \<longleftrightarrow>
     es \<noteq> [] \<and> last es = equity tm \<and> peakEquity tm = Max (set es) \<and> maxDrawdown tm = max_drop es"

lemma dd_agrees_updateDrawdown:
  assumes "es \<noteq> []" "peakEquity tm = Max (set es)" "maxDrawdown tm = max_drop es"
    and "equity_bounded (es @ [equity tm])"
  shows "dd_agrees (updateDrawdown tm) (es @ [equity tm])"
proof -
  let ?e = "equity tm"
  let ?peak = "max (Max (set es)) ?e"
  have "Max (set es) \<in> set es" using assms(1) by simp
  then have "\<bar>?peak\<bar> \<le> 2 ^ 62 - 1" "\<bar>?e\<bar> \<le> 2 ^ 62 - 1"
    using assms(4) by (auto simp: equity_bounded_def max_def)
  then have w: "in_i64 (?peak - ?e)" by (auto simp: in_i64_def abs_le_iff)
  have "Max (set (es @ [?e])) = ?peak" using assms(1) by (simp add: max.commute)
  then show ?thesis
    using assms(1-3) i64_id [OF w]
    by (simp add: dd_agrees_def updateDrawdown_extremes max_drop_snoc)
qed

lemma dd_agrees_same:
  assumes "dd_agrees tm es" "equity tm' = equity tm" "peakEquity tm' = peakEquity tm"
    "maxDrawdown tm' = maxDrawdown tm"
  shows "dd_agrees tm' (es @ [equity tm'])"
proof -
  have l: "equity tm \<in> set es" using assms(1) by (metis dd_agrees_def last_in_set)
  then have "set (es @ [equity tm]) = set es" by auto
  moreover have "max_drop es \<ge> Max (set es) - equity tm"
  proof -
    obtain ys where "es = ys @ [equity tm]"
      using assms(1) by (metis dd_agrees_def append_butlast_last_id)
    then show ?thesis by (cases "ys = []") (auto simp: max_drop_snoc)
  qed
  ultimately show ?thesis using assms by (auto simp: dd_agrees_def max_drop_snoc)
qed

lemma tm_step_drawdown:
  "(equity (tm_step tm op) = equity tm \<and> peakEquity (tm_step tm op) = peakEquity tm
      \<and> maxDrawdown (tm_step tm op) = maxDrawdown tm)
   \<or> (\<exists>tm0. equity (tm_step tm op) = equity tm0
        \<and> peakEquity (tm_step tm op) = peakEquity (updateDrawdown tm0)
        \<and> maxDrawdown (tm_step tm op) = maxDrawdown (updateDrawdown tm0)
        \<and> peakEquity tm0 = peakEquity tm \<and> maxDrawdown tm0 = maxDrawdown tm)"
proof (cases op)
  case (Open tick sz dir sp lp)
  then show ?thesis
    by (cases "map_of (activeTrades tm) (p_symbol tick)")
      (auto simp: openTrade_def Let_def equity_def intro!: exI)
next
  case (Mark tick)
  then show ?thesis
    by (cases "map_of (activeTrades tm) (p_symbol tick)")
      (auto simp: markToMarket_def Let_def equity_def intro!: exI)
next
  case (Close s price tick liq)
  then show ?thesis
    by (cases "map_of (activeTrades tm) s")
      (auto simp: closeTrade_def Let_def equity_def intro!: exI)
qed

lemma dd_agrees_step:
  assumes "dd_agrees tm es" "equity_bounded (es @ [equity (tm_step tm op)])"
  shows "dd_agrees (tm_step tm op) (es @ [equity (tm_step tm op)])"
proof -
  have "(equity (tm_step tm op) = equity tm \<and> peakEquity (tm_step tm op) = peakEquity tm
            \<and> maxDrawdown (tm_step tm op) = maxDrawdown tm)
      \<or> (\<exists>tm0. equity (tm_step tm op) = equity tm0
            \<and> peakEquity (tm_step tm op) = peakEquity (updateDrawdown tm0)
            \<and> maxDrawdown (tm_step tm op) = maxDrawdown (updateDrawdown tm0)
            \<and> peakEquity tm0 = peakEquity tm \<and> maxDrawdown tm0 = maxDrawdown tm)"
    by (rule tm_step_drawdown)
  then show ?thesis
  proof (elim disjE exE conjE)
    fix tm0
    assume eq: "equity (tm_step tm op) = equity tm0"
      and upd: "peakEquity (tm_step tm op) = peakEquity (updateDrawdown tm0)"
        "maxDrawdown (tm_step tm op) = maxDrawdown (updateDrawdown tm0)"
      and old: "peakEquity tm0 = peakEquity tm" "maxDrawdown tm0 = maxDrawdown tm"
    have "dd_agrees (updateDrawdown tm0) (es @ [equity tm0])"
      using assms old eq by (intro dd_agrees_updateDrawdown) (auto simp: dd_agrees_def)
    with eq upd show ?thesis by (simp add: dd_agrees_def)
  next
    assume "equity (tm_step tm op) = equity tm" "peakEquity (tm_step tm op) = peakEquity tm"
      "maxDrawdown (tm_step tm op) = maxDrawdown tm"
    then show ?thesis by (rule dd_agrees_same [OF assms(1)])
  qed
qed

lemma dd_agrees_run:
  "dd_agrees tm es \<Longrightarrow> equity_bounded (es @ tl (equity_curve tm ops)) \<Longrightarrow>
   dd_agrees (tm_run tm ops) (es @ tl (equity_curve tm ops))"
proof (induction ops arbitrary: tm es)
  case (Cons op ops)
  let ?tm = "tm_step tm op"
  have curve: "equity_curve ?tm ops = equity ?tm # tl (equity_curve ?tm ops)"
    by (cases ops) simp_all
  have "equity ?tm \<in> set (equity_curve ?tm ops)" by (cases ops) simp_all
  with Cons.prems have "dd_agrees ?tm (es @ [equity ?tm])"
    by (intro dd_agrees_step) (auto simp: equity_bounded_def)
  from Cons.IH [OF this] Cons.prems(2) curve show ?case
    by (metis append.assoc append_Cons append_Nil equity_curve.simps(2) list.sel(3) tm_run.simps(2))
qed simp

text \<open>C1: over any sequence of opens, marks and closes, the running
  \<open>maxDrawdownPoints\<close> is the largest drop of the account equity from any earlier point of
  the run (its start included) to a later one, floating losses included.\<close>

theorem drawdown_is_max_peak_to_trough:
  assumes "equity_bounded (equity_curve (new_trade_manager slip) ops)"
  shows "maxDrawdownPoints (tm_run (new_trade_manager slip) ops) =
           max_drop (equity_curve (new_trade_manager slip) ops)"
proof -
  let ?tm = "new_trade_manager slip"
  have curve: "equity_curve ?tm ops = [equity ?tm] @ tl (equity_curve ?tm ops)"
    by (cases ops) simp_all
  have "dd_agrees ?tm [equity ?tm]"
    by (simp add: dd_agrees_def new_trade_manager_def equity_def)
  from dd_agrees_run [OF this, of ops] curve assms show ?thesis
    by (simp add: dd_agrees_def maxDrawdownPoints_def)
qed

theorem drawdown_is_max_peak_to_trough_witness:
  "maxDrawdownPoints (tm_run (new_trade_manager 0)
     [Open \<lparr>p_ask = 110012, p_bid = 110004, p_timestamp = 0, p_symbol = ''EURUSD''\<rparr> 1 LONG 0 0,
      Mark \<lparr>p_ask = 110212, p_bid = 110204, p_timestamp = 1, p_symbol = ''EURUSD''\<rparr>,
      Mark \<lparr>p_ask = 110112, p_bid = 110104, p_timestamp = 2, p_symbol = ''EURUSD''\<rparr>]) = 100"
proof -
  let ?ops = "[Open \<lparr>p_ask = 110012, p_bid = 110004, p_timestamp = 0, p_symbol = ''EURUSD''\<rparr> 1 LONG 0 0,
      Mark \<lparr>p_ask = 110212, p_bid = 110204, p_timestamp = 1, p_symbol = ''EURUSD''\<rparr>,
      Mark \<lparr>p_ask = 110112, p_bid = 110104, p_timestamp = 2, p_symbol = ''EURUSD''\<rparr>]"
  have curve: "equity_curve (new_trade_manager 0) ?ops = [0, - 8, 192, 92]" by code_simp
  moreover have "max_drop [0, - 8, 192, 92] = 100" by code_simp
  ultimately show ?thesis
    using drawdown_is_max_peak_to_trough [of 0 ?ops] by (simp add: equity_bounded_def)
qed

end
