(* ===== verification/Ohlc.thy ===== *)
theory Ohlc
  imports Trade
begin

section \<open>OHLC bars from ticks\<close>

text \<open>
  \<open>source/shared/utilities/ohlcBuilder.cppm\<close>. The environment (\<open>std::getenv\<close>) and the
  QuestDB connection are parameters, held in \<open>db_ctx\<close>: a query either yields rows or fails,
  and a failure of any kind is the builder's cold start. Times and durations are
  microseconds. The reference for the incremental builder is \<open>group_ticks\<close>: cut the tick
  stream greedily into runs that start no more than one bar duration before each member.
\<close>

record db_ctx =
  ctx_getenv :: "string \<Rightarrow> string option"
  ctx_queryOhlc :: "string \<Rightarrow> ohlc_object list result"
  ctx_executeQuery :: "string \<Rightarrow> price_data list result"

text \<open>\<open>env::getOr\<close>: an unset or empty variable yields the fallback.\<close>

definition getOr :: "(string \<Rightarrow> string option) \<Rightarrow> string \<Rightarrow> string \<Rightarrow> string" where
  "getOr env name fallback =
     (case env name of None \<Rightarrow> fallback | Some v \<Rightarrow> if v = [] then fallback else v)"

definition prepopulateQuery :: "symbol \<Rightarrow> time \<Rightarrow> int \<Rightarrow> int \<Rightarrow> string" where
  "prepopulateQuery symbol before barMinutes cnt =
     (let beforeMicros = before;
          totalMinutes = i64 (barMinutes * cnt);
          days = i64 (i64 (cdiv (i64 (totalMinutes + 1439)) 1440 * 6) + 10);
          fromMicros = i64 (beforeMicros - i64 (days * 86400000000))
      in ''SELECT timestamp, open, high, low, close FROM (''
         @ ''SELECT timestamp, first(ask) AS open, max(ask) AS high, min(ask) AS low, ''
         @ ''last(ask) AS close, count() AS ticks FROM '' @ [CHR 0x27] @ symbol @ [CHR 0x27] @ '' ''
         @ ''WHERE timestamp >= cast('' @ int_dec fromMicros
         @ ''L AS timestamp) AND timestamp < cast('' @ int_dec beforeMicros @ ''L AS timestamp) ''
         @ ''SAMPLE BY '' @ int_dec barMinutes @ ''m ALIGN TO CALENDAR''
         @ '') WHERE ticks >= 10 ORDER BY timestamp DESC LIMIT '' @ int_dec cnt)"

definition prepopulateOHLC ::
  "db_ctx \<Rightarrow> symbol \<Rightarrow> time \<Rightarrow> int \<Rightarrow> int \<Rightarrow> ohlc_object list" where
  "prepopulateOHLC ctx symbol before barMinutes cnt =
     (if cnt \<le> 0 \<or> barMinutes < 1 then []
      else if getOr (ctx_getenv ctx) ''OHLC_PREPOPULATE'' ''1'' \<noteq> ''1'' then []
      else if get_scale symbol = kUnknown then []
      else case ctx_queryOhlc ctx (prepopulateQuery symbol before barMinutes cnt) of
             Inl e \<Rightarrow> []
           | Inr rows \<Rightarrow>
               (let bars = rev rows
                in if bars = [] then []
                   else butlast bars @ [(last bars)\<lparr>b_complete := False\<rparr>]))"

definition tick_bar :: "time \<Rightarrow> int \<Rightarrow> ohlc_object" where
  "tick_bar t price = \<lparr>b_date = t, b_open = price, b_close = price, b_high = price,
                       b_low = price, b_complete = False\<rparr>"

definition absorb :: "ohlc_object \<Rightarrow> int \<Rightarrow> ohlc_object" where
  "absorb bar price =
     bar\<lparr>b_high := (if price > b_high bar then price else b_high bar),
         b_low := (if price < b_low bar then price else b_low bar),
         b_close := price\<rparr>"

text \<open>The part of \<open>calculateOHLC\<close> after the list is known to be non-empty.\<close>

definition ohlc_roll :: "time \<Rightarrow> int \<Rightarrow> int \<Rightarrow> ohlc_object list \<Rightarrow> ohlc_object list" where
  "ohlc_roll t price duration bars =
     (let bars = (if t - b_date (last bars) > duration
                  then butlast bars @ [(last bars)\<lparr>b_complete := True\<rparr>] @ [tick_bar t price]
                  else bars)
      in butlast bars @ [absorb (last bars) price])"

definition calculateOHLC ::
  "db_ctx \<Rightarrow> price_data \<Rightarrow> int \<Rightarrow> int \<Rightarrow> ohlc_object list \<Rightarrow> int \<Rightarrow> ohlc_object list result" where
  "calculateOHLC ctx tick price duration bars prepopulateCount =
     (if duration \<le> 0 then Inl InvalidArgument
      else let bars = (if bars = [] then
                         let seeded = (if prepopulateCount > 0
                               then prepopulateOHLC ctx (p_symbol tick) (p_timestamp tick)
                                      (cdiv duration 60000000) prepopulateCount
                               else [])
                         in if seeded = [] then [tick_bar (p_timestamp tick) price] else seeded
                       else bars)
           in Inr (ohlc_roll (p_timestamp tick) price duration bars))"

subsection \<open>The shape of a bar list\<close>

definition bar_ok :: "ohlc_object \<Rightarrow> bool" where
  "bar_ok bar \<longleftrightarrow> b_low bar \<le> b_open bar \<and> b_open bar \<le> b_high bar
               \<and> b_low bar \<le> b_close bar \<and> b_close bar \<le> b_high bar"

definition ohlc_inv :: "ohlc_object list \<Rightarrow> bool" where
  "ohlc_inv bars \<longleftrightarrow> bars \<noteq> [] \<and> (\<forall>bar \<in> set bars. bar_ok bar)
     \<and> (\<forall>bar \<in> set (butlast bars). b_complete bar) \<and> \<not> b_complete (last bars)"

lemma bar_ok_tick_bar [simp]: "bar_ok (tick_bar t p)"
  by (simp add: bar_ok_def tick_bar_def)

lemma bar_ok_absorb: "bar_ok bar \<Longrightarrow> bar_ok (absorb bar p)"
  by (auto simp: bar_ok_def absorb_def)

lemma bar_ok_complete [simp]: "bar_ok (bar\<lparr>b_complete := c\<rparr>) = bar_ok bar"
  by (simp add: bar_ok_def)

lemma absorb_simps [simp]:
  "b_complete (absorb bar p) = b_complete bar" "b_date (absorb bar p) = b_date bar"
  "b_close (absorb bar p) = p" "b_open (absorb bar p) = b_open bar"
  by (simp_all add: absorb_def)

lemma tick_bar_simps [simp]:
  "b_complete (tick_bar t p) = False" "b_date (tick_bar t p) = t" "b_open (tick_bar t p) = p"
  "b_close (tick_bar t p) = p"
  by (simp_all add: tick_bar_def)

lemma absorb_max_min:
  "absorb bar p = bar\<lparr>b_high := max p (b_high bar), b_low := min p (b_low bar), b_close := p\<rparr>"
  by (simp add: absorb_def max_def min_def)

lemma absorb_tick_bar [simp]: "absorb (tick_bar t p) p = tick_bar t p"
  by (simp add: absorb_def tick_bar_def)

lemma ohlc_inv_snoc:
  "ohlc_inv (bs @ [b]) \<longleftrightarrow> (\<forall>x \<in> set bs. bar_ok x \<and> b_complete x) \<and> bar_ok b \<and> \<not> b_complete b"
  by (auto simp: ohlc_inv_def)

lemma ohlc_roll_snoc:
  "ohlc_roll t p dur (bs @ [b]) =
     (if t - b_date b > dur then bs @ [b\<lparr>b_complete := True\<rparr>, tick_bar t p]
      else bs @ [absorb b p])"
  by (simp add: ohlc_roll_def butlast_append)

lemma ohlc_roll_inv:
  assumes "ohlc_inv bars"
  shows "ohlc_inv (ohlc_roll t p dur bars) \<and> b_close (last (ohlc_roll t p dur bars)) = p"
proof -
  obtain bs b where bars: "bars = bs @ [b]"
    using assms by (metis ohlc_inv_def append_butlast_last_id)
  with assms have "\<forall>x \<in> set bs. bar_ok x \<and> b_complete x" "bar_ok b" "\<not> b_complete b"
    by (auto simp: ohlc_inv_snoc)
  then show ?thesis
    using ohlc_inv_snoc [of "bs @ [b\<lparr>b_complete := True\<rparr>]" "tick_bar t p"]
    by (auto simp: bars ohlc_roll_snoc ohlc_inv_snoc bar_ok_absorb)
qed

text \<open>One tick keeps the builder's invariant (every bar has
  \<open>low \<le> open, close \<le> high\<close>; all but the last are complete, the last is not) and leaves
  the tick's price as the close of the last bar; a non-positive duration is refused.
  Warm-up rows count as good when they are complete bars, which is how the query layer
  delivers them.\<close>

theorem calculateOHLC_preserves_inv:
  assumes "bars \<noteq> [] \<Longrightarrow> ohlc_inv bars"
    and "\<And>q rows. ctx_queryOhlc ctx q = Inr rows \<Longrightarrow> \<forall>bar \<in> set rows. bar_ok bar \<and> b_complete bar"
  shows "(duration \<le> 0 \<longrightarrow> calculateOHLC ctx tick price duration bars n = Inl InvalidArgument)
       \<and> (0 < duration \<longrightarrow>
           (\<exists>bars'. calculateOHLC ctx tick price duration bars n = Inr bars' \<and> ohlc_inv bars'
              \<and> b_close (last bars') = price))"
proof -
  have seed: "ohlc_inv (prepopulateOHLC ctx s t m n)" if "prepopulateOHLC ctx s t m n \<noteq> []" for s t m
  proof -
    from that obtain rows where rows: "ctx_queryOhlc ctx (prepopulateQuery s t m n) = Inr rows" "rows \<noteq> []"
      and eq: "prepopulateOHLC ctx s t m n = butlast (rev rows) @ [(last (rev rows))\<lparr>b_complete := False\<rparr>]"
      by (auto simp: prepopulateOHLC_def Let_def split: if_splits sum.splits)
    have "last (rev rows) \<in> set rows" using rows(2) by (metis last_in_set rev_is_Nil_conv set_rev)
    with assms(2) [OF rows(1)] show ?thesis
      unfolding eq ohlc_inv_snoc by (auto dest: list.set_sel(2) [OF rows(2)])
  qed
  have "ohlc_inv [tick_bar t p]" for t p using ohlc_inv_snoc [of "[]"] by simp
  with seed assms(1) show ?thesis
    by (auto simp: calculateOHLC_def Let_def ohlc_roll_inv)
qed

theorem calculateOHLC_preserves_inv_witness:
  "\<exists>bars'. calculateOHLC \<lparr>ctx_getenv = (\<lambda>_. None), ctx_queryOhlc = (\<lambda>_. Inl RuntimeError),
       ctx_executeQuery = (\<lambda>_. Inl RuntimeError)\<rparr>
     \<lparr>p_ask = 12, p_bid = 11, p_timestamp = 70, p_symbol = ''EURUSD''\<rparr> 12 60 [tick_bar 5 10] 3
     = Inr bars' \<and> ohlc_inv bars' \<and> b_close (last bars') = 12"
proof -
  have "ohlc_inv [tick_bar 5 10]" using ohlc_inv_snoc [of "[]"] by simp
  then show ?thesis
    using calculateOHLC_preserves_inv [of "[tick_bar 5 10]"
        "\<lparr>ctx_getenv = (\<lambda>_. None), ctx_queryOhlc = (\<lambda>_. Inl RuntimeError),
         ctx_executeQuery = (\<lambda>_. Inl RuntimeError)\<rparr>" 60 _ 12 3] by simp
qed

subsection \<open>The builder computes the bars of the greedy grouping\<close>

function group_ticks :: "int \<Rightarrow> (time \<times> int) list \<Rightarrow> (time \<times> int) list list" where
  "group_ticks dur [] = []"
| "group_ticks dur (x # xs) =
     (x # takeWhile (\<lambda>y. fst y - fst x \<le> dur) xs)
       # group_ticks dur (dropWhile (\<lambda>y. fst y - fst x \<le> dur) xs)"
  by pat_completeness auto
termination
  by (relation "measure (\<lambda>(dur, xs). length xs)") (auto simp: le_imp_less_Suc length_dropWhile_le)

text \<open>The bar of one group of ticks: first price, last price, extremes, first time.\<close>

definition bar_of :: "bool \<Rightarrow> (time \<times> int) list \<Rightarrow> ohlc_object" where
  "bar_of done g = \<lparr>b_date = fst (hd g), b_open = snd (hd g), b_close = snd (last g),
     b_high = Max (snd ` set g), b_low = Min (snd ` set g), b_complete = done\<rparr>"

definition bars_of :: "(time \<times> int) list list \<Rightarrow> ohlc_object list" where
  "bars_of gs = (if gs = [] then [] else map (bar_of True) (butlast gs) @ [bar_of False (last gs)])"

fun ohlc_feed :: "int \<Rightarrow> ohlc_object list \<Rightarrow> (time \<times> int) list \<Rightarrow> ohlc_object list" where
  "ohlc_feed dur bars [] = bars"
| "ohlc_feed dur bars ((t, p) # xs) =
     ohlc_feed dur (ohlc_roll t p dur (if bars = [] then [tick_bar t p] else bars)) xs"

lemma bar_of_singleton: "bar_of False [(t, p)] = tick_bar t p"
  by (simp add: bar_of_def tick_bar_def)

lemma bar_of_snoc:
  assumes "g \<noteq> []"
  shows "absorb (bar_of False g) p = bar_of False (g @ [(t, p)])"
proof -
  have "Max (insert p (snd ` set g)) = max p (Max (snd ` set g))"
    and "Min (insert p (snd ` set g)) = min p (Min (snd ` set g))"
    using assms by auto
  with assms show ?thesis by (simp add: absorb_max_min bar_of_def)
qed

lemma bar_of_complete: "(bar_of False g)\<lparr>b_complete := True\<rparr> = bar_of True g"
  by (simp add: bar_of_def)

lemma bars_of_Cons: "gs \<noteq> [] \<Longrightarrow> bars_of (g # gs) = bar_of True g # bars_of gs"
  by (simp add: bars_of_def)

lemma group_ticks_eq_Nil [simp]: "group_ticks dur xs = [] \<longleftrightarrow> xs = []"
  by (cases xs) auto

lemma ohlc_feed_groups:
  assumes "g \<noteq> []" "0 < dur"
  shows "ohlc_feed dur (pre @ [bar_of False g]) xs =
     pre @ bars_of ((g @ takeWhile (\<lambda>y. fst y - fst (hd g) \<le> dur) xs)
                    # group_ticks dur (dropWhile (\<lambda>y. fst y - fst (hd g) \<le> dur) xs))"
  using assms(1)
proof (induction xs arbitrary: pre g)
  case Nil
  then show ?case by (simp add: bars_of_def)
next
  case (Cons x xs)
  obtain t p where x: "x = (t, p)" by (cases x)
  have date: "b_date (bar_of False g) = fst (hd g)" by (simp add: bar_of_def)
  show ?case
  proof (cases "t - fst (hd g) \<le> dur")
    case True
    with Cons.IH [of "g @ [(t, p)]" pre] Cons.prems date show ?thesis
      by (simp add: x ohlc_roll_snoc bar_of_snoc [of g p t])
  next
    case False
    have "ohlc_feed dur (pre @ [bar_of False g]) (x # xs) =
          ohlc_feed dur ((pre @ [bar_of True g]) @ [bar_of False [(t, p)]]) xs"
      using False date by (simp add: x ohlc_roll_snoc bar_of_complete bar_of_singleton)
    also have "\<dots> = (pre @ [bar_of True g]) @ bars_of (group_ticks dur (x # xs))"
      using Cons.IH [of "[(t, p)]" "pre @ [bar_of True g]"] by (simp add: x)
    finally show ?thesis
      using False by (simp add: x bars_of_Cons)
  qed
qed

lemma ohlc_feed_is_grouping:
  "0 < dur \<Longrightarrow> ohlc_feed dur [] xs = bars_of (group_ticks dur xs)"
proof (cases xs)
  case (Cons x ys)
  assume "0 < dur"
  obtain t p where x: "x = (t, p)" by (cases x)
  have "ohlc_feed dur [] xs = ohlc_feed dur ([] @ [bar_of False [(t, p)]]) ys"
    using \<open>0 < dur\<close> ohlc_roll_snoc [of t p dur "[]" "tick_bar t p"]
    by (simp add: Cons x bar_of_singleton)
  then show ?thesis
    using ohlc_feed_groups [of "[(t, p)]" dur "[]" ys] \<open>0 < dur\<close> by (simp add: Cons x)
qed (simp add: bars_of_def)

lemma calculateOHLC_cold:
  assumes "0 < dur" "n \<le> 0 \<or> prepopulateOHLC ctx (p_symbol tick) (p_timestamp tick) (cdiv dur 60000000) n = []"
  shows "calculateOHLC ctx tick price dur bars n =
     Inr (ohlc_roll (p_timestamp tick) price dur
            (if bars = [] then [tick_bar (p_timestamp tick) price] else bars))"
  using assms by (auto simp: calculateOHLC_def Let_def)

text \<open>The builder over a whole stream of ticks, on the ask and without warm-up.\<close>

fun ohlc_build :: "db_ctx \<Rightarrow> int \<Rightarrow> ohlc_object list \<Rightarrow> price_data list \<Rightarrow> ohlc_object list result" where
  "ohlc_build ctx dur bars [] = Inr bars"
| "ohlc_build ctx dur bars (tick # ticks) =
     (case calculateOHLC ctx tick (p_ask tick) dur bars 0 of
        Inl e \<Rightarrow> Inl e
      | Inr bars' \<Rightarrow> ohlc_build ctx dur bars' ticks)"

definition ask_points :: "price_data list \<Rightarrow> (time \<times> int) list" where
  "ask_points ticks = map (\<lambda>tick. (p_timestamp tick, p_ask tick)) ticks"

lemma ohlc_build_feed:
  "0 < dur \<Longrightarrow> ohlc_build ctx dur bars ticks = Inr (ohlc_feed dur bars (ask_points ticks))"
  by (induction ticks arbitrary: bars) (simp_all add: calculateOHLC_cold ask_points_def)

text \<open>C5: building from a whole tick stream, one tick at a time and from a cold start,
  yields exactly the bars of the greedy grouping of the stream: each bar opens at the
  first price of its group, closes at the last, spans the group's extremes and carries
  the first tick's time; all but the last bar are complete.\<close>

theorem ohlc_build_is_grouping:
  assumes "0 < dur"
  shows "ohlc_build ctx dur [] ticks = Inr (bars_of (group_ticks dur (ask_points ticks)))"
  using assms by (simp add: ohlc_build_feed ohlc_feed_is_grouping)

theorem ohlc_build_is_grouping_witness:
  "ohlc_build \<lparr>ctx_getenv = (\<lambda>_. None), ctx_queryOhlc = (\<lambda>_. Inl RuntimeError),
       ctx_executeQuery = (\<lambda>_. Inl RuntimeError)\<rparr> 60 []
     [\<lparr>p_ask = 10, p_bid = 9, p_timestamp = 0, p_symbol = ''EURUSD''\<rparr>,
      \<lparr>p_ask = 14, p_bid = 9, p_timestamp = 60, p_symbol = ''EURUSD''\<rparr>,
      \<lparr>p_ask = 8, p_bid = 7, p_timestamp = 61, p_symbol = ''EURUSD''\<rparr>] =
     Inr [bar_of True [(0, 10), (60, 14)], bar_of False [(61, 8)]]"
  using ohlc_build_is_grouping [of 60 _
     "[\<lparr>p_ask = 10, p_bid = 9, p_timestamp = 0, p_symbol = ''EURUSD''\<rparr>,
      \<lparr>p_ask = 14, p_bid = 9, p_timestamp = 60, p_symbol = ''EURUSD''\<rparr>,
      \<lparr>p_ask = 8, p_bid = 7, p_timestamp = 61, p_symbol = ''EURUSD''\<rparr>]"]
  by (simp add: bars_of_def ask_points_def)

lemma ohlc_feed_snoc:
  "ohlc_feed dur bars (xs @ [(t, p)]) =
     (let bs = ohlc_feed dur bars xs
      in ohlc_roll t p dur (if bs = [] then [tick_bar t p] else bs))"
  by (induction dur bars xs rule: ohlc_feed.induct) (auto simp: Let_def)

lemma ohlc_roll_ne [simp]: "ohlc_roll t p dur bars \<noteq> []"
  by (simp add: ohlc_roll_def Let_def)

lemma ohlc_feed_concat: "concat (group_ticks dur xs) = xs"
  by (induction dur xs rule: group_ticks.induct) simp_all

text \<open>Keeping only the last \<open>n\<close> bars commutes with the builder.\<close>

lemma ohlc_roll_lastn:
  assumes "bars \<noteq> []" "0 < n"
  shows "lastn n (ohlc_roll t p dur (lastn n bars)) = lastn n (ohlc_roll t p dur bars)"
proof -
  obtain bs b where bars: "bars = bs @ [b]" using assms(1) by (metis append_butlast_last_id)
  have "lastn n bars = lastn (n - 1) bs @ [b]" using assms(2) by (simp add: bars lastn_snoc)
  then show ?thesis
    using assms(2) lastn_two [of n bs] lastn_snoc [of n "lastn (n - 1) bs"] lastn_snoc [of n bs]
    by (simp add: bars ohlc_roll_snoc)
qed

end
