(* ===== verification/RangeBar.thy ===== *)
theory RangeBar
  imports Ohlc
begin

section \<open>Range bars\<close>

text \<open>
  \<open>source/shared/utilities/rangeBarBuilder.cppm\<close>: event-driven bars that close when price
  has travelled a threshold, the threshold being a percentage of the rolling high-low
  range over the last \<open>atrTickWindow\<close> ticks. The rolling range is kept by two monotonic
  deques of (tick index, price); the front of a deque is the list's head. The main result
  is that the deques compute the maximum and minimum of the window.
\<close>

record range_bar_spec =
  rs_atrTickWindow :: int
  rs_atrPercent :: int
  rs_count :: int

definition sameIdentity :: "range_bar_spec \<Rightarrow> range_bar_spec \<Rightarrow> bool" where
  "sameIdentity a b \<longleftrightarrow>
     rs_atrTickWindow a = rs_atrTickWindow b \<and> rs_atrPercent a = rs_atrPercent b"

definition kMaxPrepopulateTicks :: int where
  "kMaxPrepopulateTicks = 1000000"

definition prepopulateTickCap :: "range_bar_spec \<Rightarrow> int" where
  "prepopulateTickCap spec =
     (let ticksPerBar = cdiv (i64 (i64 (rs_atrTickWindow spec * rs_atrPercent spec) + 99)) 100;
          margin = i64 (i64 (2 * rs_count spec) * ticksPerBar)
      in min (i64 (rs_atrTickWindow spec + margin)) kMaxPrepopulateTicks)"

definition prepopulateTicksQuery :: "symbol \<Rightarrow> time \<Rightarrow> range_bar_spec \<Rightarrow> string" where
  "prepopulateTicksQuery symbol before spec =
     ''SELECT '' @ [CHR 0x27] @ symbol @ [CHR 0x27] @ '' as symbol, ask, bid, timestamp FROM ''
     @ [CHR 0x27] @ symbol @ [CHR 0x27] @ '' ''
     @ ''WHERE timestamp < cast('' @ int_dec before @ ''L AS timestamp) ''
     @ ''ORDER BY timestamp DESC LIMIT '' @ int_dec (prepopulateTickCap spec)"

definition spec_ok :: "range_bar_spec \<Rightarrow> bool" where
  "spec_ok spec \<longleftrightarrow> 1 \<le> rs_atrTickWindow spec \<and> 1 \<le> rs_atrPercent spec \<and> 1 \<le> rs_count spec"

definition prepopulateTicks ::
  "db_ctx \<Rightarrow> symbol \<Rightarrow> time \<Rightarrow> range_bar_spec \<Rightarrow> price_data list" where
  "prepopulateTicks ctx symbol before spec =
     (if \<not> spec_ok spec then []
      else if getOr (ctx_getenv ctx) ''OHLC_PREPOPULATE'' ''1'' \<noteq> ''1'' then []
      else if get_scale symbol = kUnknown then []
      else case ctx_executeQuery ctx (prepopulateTicksQuery symbol before spec) of
             Inl e \<Rightarrow> []
           | Inr ticks \<Rightarrow> rev ticks)"

record range_series =
  r_spec :: range_bar_spec
  r_bars :: "ohlc_object list"
  r_maxDeque :: "(int \<times> int) list"
  r_minDeque :: "(int \<times> int) list"
  r_tickIndex :: int
  r_lockedThreshold :: int
  r_prepopulateAttempted :: bool

definition new_range_series :: "range_bar_spec \<Rightarrow> range_series result" where
  "new_range_series spec =
     (if \<not> spec_ok spec then Inl InvalidArgument
      else Inr \<lparr>r_spec = spec, r_bars = [], r_maxDeque = [], r_minDeque = [], r_tickIndex = 0,
                r_lockedThreshold = 0, r_prepopulateAttempted = False\<rparr>)"

definition warm :: "range_series \<Rightarrow> bool" where
  "warm rs \<longleftrightarrow> r_tickIndex rs \<ge> rs_atrTickWindow (r_spec rs)"

definition windowRange :: "range_series \<Rightarrow> int" where
  "windowRange rs =
     (if r_maxDeque rs = [] then 0
      else i32 (snd (hd (r_maxDeque rs)) - snd (hd (r_minDeque rs))))"

text \<open>\<open>while (!d.empty() && cmp(d.back().price, price)) d.pop_back()\<close>, then the push.\<close>

definition deque_push :: "(int \<Rightarrow> int \<Rightarrow> bool) \<Rightarrow> (int \<times> int) list \<Rightarrow> int \<Rightarrow> int \<Rightarrow> (int \<times> int) list"
where
  "deque_push pops deque idx price =
     rev (dropWhile (\<lambda>e. pops (snd e) price) (rev deque)) @ [(idx, price)]"

text \<open>\<open>while (d.front().idx + window <= tickIndex) d.pop_front()\<close>.\<close>

definition deque_expire :: "int \<Rightarrow> int \<Rightarrow> (int \<times> int) list \<Rightarrow> (int \<times> int) list" where
  "deque_expire window idx deque = dropWhile (\<lambda>e. u64 (fst e + window) \<le> idx) deque"

definition advance_window :: "range_series \<Rightarrow> int \<Rightarrow> range_series" where
  "advance_window rs price =
     (let idx = u64 (r_tickIndex rs + 1);
          window = rs_atrTickWindow (r_spec rs)
      in rs\<lparr>r_tickIndex := idx,
            r_maxDeque := deque_expire window idx (deque_push (\<le>) (r_maxDeque rs) idx price),
            r_minDeque := deque_expire window idx (deque_push (\<ge>) (r_minDeque rs) idx price)\<rparr>)"

definition bar_step :: "range_series \<Rightarrow> time \<Rightarrow> int \<Rightarrow> range_series" where
  "bar_step rs t price =
     (if \<not> warm rs then rs
      else let rs = (if r_bars rs = [] \<or> b_complete (last (r_bars rs)) then
                       let scaled = cdiv (i64 (i64 (windowRange rs * rs_atrPercent (r_spec rs)) + 50)) 100
                       in rs\<lparr>r_lockedThreshold := i32 (max 1 scaled),
                             r_bars := r_bars rs @ [tick_bar t price]\<rparr>
                     else
                       let bar = absorb (last (r_bars rs)) price;
                           bar = (if i32 (b_high bar - b_low bar) \<ge> r_lockedThreshold rs
                                  then bar\<lparr>b_complete := True\<rparr> else bar)
                       in rs\<lparr>r_bars := butlast (r_bars rs) @ [bar]\<rparr>)
           in rs\<lparr>r_bars := lastn (nat (rs_count (r_spec rs))) (r_bars rs)\<rparr>)"

definition applyTick :: "range_series \<Rightarrow> price_data \<Rightarrow> range_series" where
  "applyTick rs tick = bar_step (advance_window rs (p_ask tick)) (p_timestamp tick) (p_ask tick)"

definition range_update :: "db_ctx \<Rightarrow> range_series \<Rightarrow> price_data \<Rightarrow> range_series" where
  "range_update ctx rs tick =
     (let rs = (if r_prepopulateAttempted rs then rs
                else foldl applyTick (rs\<lparr>r_prepopulateAttempted := True\<rparr>)
                       (prepopulateTicks ctx (p_symbol tick) (p_timestamp tick) (r_spec rs)))
      in applyTick rs tick)"

subsection \<open>Monotonic deques hold the extremes of the window\<close>

text \<open>
  The reference deque: of the prices seen so far (each with its 1-based index), the ones no
  older than the window that beat every later price. \<open>beats a b\<close> is strict: a later equal
  price evicts an earlier one.
\<close>

definition indexed :: "int list \<Rightarrow> (int \<times> int) list" where
  "indexed ps = zip (map (\<lambda>i. int i + 1) [0..<length ps]) ps"

fun beaters :: "(int \<Rightarrow> int \<Rightarrow> bool) \<Rightarrow> (int \<times> int) list \<Rightarrow> (int \<times> int) list" where
  "beaters pops [] = []"
| "beaters pops (e # es) =
     (if \<exists>f \<in> set es. pops (snd e) (snd f) then beaters pops es else e # beaters pops es)"

locale deque_order =
  fixes pops :: "int \<Rightarrow> int \<Rightarrow> bool"
  assumes pops_trans: "pops a b \<Longrightarrow> pops b c \<Longrightarrow> pops a c"
    and pops_total: "pops a b \<or> pops b a"
begin

lemma set_beaters: "set (beaters pops es) \<subseteq> set es"
  by (induction es) auto

lemma beaters_sorted: "sorted_wrt (\<lambda>e f. \<not> pops (snd e) (snd f)) (beaters pops es)"
  by (induction es) (auto dest: subsetD [OF set_beaters])

lemma beaters_head:
  "es \<noteq> [] \<Longrightarrow> beaters pops es \<noteq> [] \<and> (\<forall>f \<in> set es. pops (snd f) (snd (hd (beaters pops es))))"
proof (induction es)
  case (Cons e es)
  show ?case
  proof (cases "\<exists>f \<in> set es. pops (snd e) (snd f)")
    case True
    then obtain f where f: "f \<in> set es" "pops (snd e) (snd f)" by blast
    then have ne: "es \<noteq> []" by auto
    with Cons.IH f have "pops (snd e) (snd (hd (beaters pops es)))" by (meson pops_trans)
    with Cons.IH [OF ne] True show ?thesis by simp
  next
    case False
    with pops_total show ?thesis by auto
  qed
qed simp

lemma dropWhile_rev_filter:
  "sorted_wrt (\<lambda>e f. \<not> pops (snd e) (snd f)) es \<Longrightarrow>
   rev (dropWhile (\<lambda>e. pops (snd e) p) (rev es)) = filter (\<lambda>e. \<not> pops (snd e) p) es"
proof (induction es rule: rev_induct)
  case (snoc e es)
  show ?case
  proof (cases "pops (snd e) p")
    case True
    with snoc show ?thesis by (simp add: sorted_wrt_append)
  next
    case False
    moreover have "\<not> pops (snd x) p" if "x \<in> set es" for x
    proof -
      have "\<not> pops (snd x) (snd e)" using snoc.prems that by (simp add: sorted_wrt_append)
      then have "pops (snd e) (snd x)" using pops_total by blast
      with False show ?thesis using pops_trans by blast
    qed
    ultimately show ?thesis by simp
  qed
qed simp

lemma beaters_snoc:
  "beaters pops (es @ [(i, p)]) = filter (\<lambda>e. \<not> pops (snd e) p) (beaters pops es) @ [(i, p)]"
proof (induction es)
  case (Cons e es)
  then show ?case using pops_trans by auto
qed simp

lemma deque_push_beaters:
  "deque_push pops (beaters pops es) i p = beaters pops (es @ [(i, p)])"
  by (simp add: deque_push_def beaters_snoc dropWhile_rev_filter [OF beaters_sorted])

lemma beaters_dropWhile:
  assumes "sorted_wrt (\<lambda>e f. fst e < fst f) es"
  shows "dropWhile (\<lambda>e. fst e \<le> (k::int)) (beaters pops es) =
         beaters pops (dropWhile (\<lambda>e. fst e \<le> k) es)"
  using assms
proof (induction es)
  case (Cons e es)
  show ?case
  proof (cases "fst e \<le> k")
    case False
    have "dropWhile (\<lambda>e. fst e \<le> k) (beaters pops es) = beaters pops es"
      using Cons.prems False set_beaters [of es]
      by (cases "beaters pops es") auto
    with False show ?thesis by simp
  qed (use Cons in simp)
qed simp

end

interpretation max_deque: deque_order "(\<le>)"
  by unfold_locales auto

interpretation min_deque: deque_order "(\<ge>)"
  by unfold_locales auto

text \<open>The invariant: the deques are the reference deques of the last \<open>window\<close> prices.\<close>

definition window_of :: "int \<Rightarrow> int list \<Rightarrow> (int \<times> int) list" where
  "window_of window ps = dropWhile (\<lambda>e. fst e \<le> int (length ps) - window) (indexed ps)"

definition deques_agree :: "range_series \<Rightarrow> int list \<Rightarrow> bool" where
  "deques_agree rs ps \<longleftrightarrow>
     r_tickIndex rs = int (length ps)
     \<and> r_maxDeque rs = beaters (\<le>) (window_of (rs_atrTickWindow (r_spec rs)) ps)
     \<and> r_minDeque rs = beaters (\<ge>) (window_of (rs_atrTickWindow (r_spec rs)) ps)"

lemma indexed_snoc: "indexed (ps @ [p]) = indexed ps @ [(int (Suc (length ps)), p)]"
  by (simp add: indexed_def)

lemma fst_indexed: "e \<in> set (indexed ps) \<Longrightarrow> 1 \<le> fst e \<and> fst e \<le> int (length ps)"
  by (auto simp: indexed_def set_zip)

lemma sorted_indexed: "sorted_wrt (\<lambda>e f. fst e < fst f) (indexed ps)"
proof (induction ps rule: rev_induct)
  case (snoc p ps)
  then show ?case using fst_indexed [of _ ps] by (fastforce simp: indexed_snoc sorted_wrt_append)
qed (simp add: indexed_def)

lemma sorted_window: "sorted_wrt (\<lambda>e f. fst e < fst f) (window_of w ps)"
  unfolding window_of_def using sorted_indexed [of ps]
  by (metis sorted_wrt_append takeWhile_dropWhile_id)

lemma window_of_snoc:
  assumes "1 \<le> w"
  shows "window_of w (ps @ [p]) =
     dropWhile (\<lambda>e. fst e \<le> int (Suc (length ps)) - w)
       (window_of w ps @ [(int (Suc (length ps)), p)])"
proof -
  let ?k = "int (length ps) - w"
  have dd: "dropWhile (\<lambda>e. fst e \<le> ?k + 1) xs = dropWhile (\<lambda>e. fst e \<le> ?k + 1) (dropWhile (\<lambda>e. fst e \<le> ?k) xs)"
    for xs :: "(int \<times> int) list"
    by (induction xs) auto
  have "dropWhile (\<lambda>e. fst e \<le> ?k) (indexed ps @ [(int (Suc (length ps)), p)])
      = dropWhile (\<lambda>e. fst e \<le> ?k) (indexed ps) @ [(int (Suc (length ps)), p)]"
    using assms by (cases "\<forall>e \<in> set (indexed ps). fst e \<le> ?k") (auto simp: dropWhile_append)
  with dd [of "indexed (ps @ [p])"] show ?thesis
    by (simp add: window_of_def indexed_snoc algebra_simps)
qed

lemma expire_eq:
  assumes "\<forall>e \<in> set deque. 0 \<le> fst e \<and> fst e + w < 18446744073709551616" "0 \<le> w"
  shows "deque_expire w idx deque = dropWhile (\<lambda>e. fst e \<le> idx - w) deque"
  unfolding deque_expire_def
  by (rule dropWhile_cong) (use assms in \<open>auto simp: u64_def\<close>)

lemma deques_agree_advance:
  assumes "deques_agree rs ps" "1 \<le> rs_atrTickWindow (r_spec rs)"
    and "int (length ps) + rs_atrTickWindow (r_spec rs) + 1 < 18446744073709551616"
  shows "deques_agree (advance_window rs p) (ps @ [p])"
proof -
  let ?w = "rs_atrTickWindow (r_spec rs)"
  let ?i = "int (Suc (length ps))"
  let ?win = "window_of ?w ps @ [(?i, p)]"
  have idx: "u64 (r_tickIndex rs + 1) = ?i"
    using assms by (simp add: deques_agree_def u64_def)
  have "set (window_of ?w ps) \<subseteq> set (indexed ps)"
    unfolding window_of_def by (auto dest: set_dropWhileD)
  then have fst: "\<forall>e \<in> set ?win. 0 \<le> fst e \<and> fst e + ?w < 18446744073709551616"
    using assms(2,3) fst_indexed by fastforce
  have sorted: "sorted_wrt (\<lambda>e f. fst e < fst f) ?win"
    using sorted_window [of ?w ps] \<open>set (window_of ?w ps) \<subseteq> set (indexed ps)\<close> fst_indexed
    by (fastforce simp: sorted_wrt_append)
  have expire: "deque_expire ?w ?i d = dropWhile (\<lambda>e. fst e \<le> ?i - ?w) d"
    if "set d \<subseteq> set ?win" for d
    using that fst assms(2) by (intro expire_eq) auto
  have "deque_expire ?w ?i (beaters (\<le>) ?win) = beaters (\<le>) (window_of ?w (ps @ [p]))"
    using max_deque.beaters_dropWhile [OF sorted, of "?i - ?w"] expire [OF max_deque.set_beaters]
    by (simp only: window_of_snoc [OF assms(2)])
  moreover have "deque_expire ?w ?i (beaters (\<ge>) ?win) = beaters (\<ge>) (window_of ?w (ps @ [p]))"
    using min_deque.beaters_dropWhile [OF sorted, of "?i - ?w"] expire [OF min_deque.set_beaters]
    by (simp only: window_of_snoc [OF assms(2)])
  ultimately show ?thesis
    using assms(1) idx max_deque.deque_push_beaters min_deque.deque_push_beaters
    by (simp add: deques_agree_def advance_window_def Let_def)
qed

lemma bar_step_frame [simp]:
  "r_spec (bar_step rs t p) = r_spec rs" "r_maxDeque (bar_step rs t p) = r_maxDeque rs"
  "r_minDeque (bar_step rs t p) = r_minDeque rs" "r_tickIndex (bar_step rs t p) = r_tickIndex rs"
  "r_prepopulateAttempted (bar_step rs t p) = r_prepopulateAttempted rs"
  by (simp_all add: bar_step_def Let_def)

lemma advance_window_frame [simp]:
  "r_spec (advance_window rs p) = r_spec rs" "r_bars (advance_window rs p) = r_bars rs"
  "r_lockedThreshold (advance_window rs p) = r_lockedThreshold rs"
  by (simp_all add: advance_window_def Let_def)

lemma applyTick_spec [simp]: "r_spec (applyTick rs tick) = r_spec rs"
  by (simp add: applyTick_def)

lemma deques_agree_applyTick:
  assumes "deques_agree rs ps" "spec_ok (r_spec rs)"
    and "int (length ps) + rs_atrTickWindow (r_spec rs) + 1 < 18446744073709551616"
  shows "deques_agree (applyTick rs tick) (ps @ [p_ask tick])"
  using deques_agree_advance [OF assms(1) _ assms(3), of "p_ask tick"] assms(2)
  by (simp add: applyTick_def deques_agree_def spec_ok_def)

lemma deques_agree_feed:
  assumes "deques_agree rs ps" "spec_ok (r_spec rs)"
    and "int (length ps) + int (length ticks) + rs_atrTickWindow (r_spec rs) + 1 < 18446744073709551616"
  shows "deques_agree (foldl applyTick rs ticks) (ps @ map p_ask ticks)
       \<and> r_spec (foldl applyTick rs ticks) = r_spec rs"
  using assms
proof (induction ticks arbitrary: rs ps)
  case (Cons tick ticks)
  then have "deques_agree (applyTick rs tick) (ps @ [p_ask tick])"
    by (intro deques_agree_applyTick) auto
  with Cons show ?case by fastforce
qed simp

lemma window_of_lastn:
  assumes "0 \<le> w"
  shows "map snd (window_of w ps) = lastn (nat w) ps"
  using assms
proof (induction ps arbitrary: w rule: rev_induct)
  case Nil
  then show ?case by (simp add: window_of_def indexed_def)
next
  case (snoc p ps)
  show ?case
  proof (cases "w = 0")
    case True
    then show ?thesis
      using fst_indexed [of _ "ps @ [p]"] by (simp add: window_of_def lastn_def)
  next
    case False
    then have n: "nat w = Suc (nat (w - 1))" using snoc.prems by simp
    have "window_of w (ps @ [p]) = window_of (w - 1) ps @ [(int (Suc (length ps)), p)]"
    proof -
      have "dropWhile (\<lambda>e. fst e \<le> int (length (ps @ [p])) - w) (indexed ps @ [(int (Suc (length ps)), p)])
         = dropWhile (\<lambda>e. fst e \<le> int (length (ps @ [p])) - w) (indexed ps) @ [(int (Suc (length ps)), p)]"
        using False snoc.prems
        by (cases "\<forall>e \<in> set (indexed ps). fst e \<le> int (length (ps @ [p])) - w")
          (auto simp: dropWhile_append)
      then show ?thesis by (simp add: window_of_def indexed_snoc algebra_simps)
    qed
    with snoc.IH [of "w - 1"] False snoc.prems show ?thesis
      by (simp add: n lastn_snoc)
  qed
qed

lemma hd_beaters_extreme:
  assumes "es \<noteq> []"
  shows "snd (hd (beaters (\<le>) es)) = Max (snd ` set es)"
    and "snd (hd (beaters (\<ge>) es)) = Min (snd ` set es)"
proof -
  have "hd (beaters (\<le>) es) \<in> set es"
    using max_deque.beaters_head [OF assms] max_deque.set_beaters [of es] by (meson hd_in_set subsetD)
  then show "snd (hd (beaters (\<le>) es)) = Max (snd ` set es)"
    using max_deque.beaters_head [OF assms] by (intro Max_eqI [symmetric]) auto
  have "hd (beaters (\<ge>) es) \<in> set es"
    using min_deque.beaters_head [OF assms] min_deque.set_beaters [of es] by (meson hd_in_set subsetD)
  then show "snd (hd (beaters (\<ge>) es)) = Min (snd ` set es)"
    using min_deque.beaters_head [OF assms] by (intro Min_eqI [symmetric]) auto
qed

lemma rolling_range:
  assumes new: "new_range_series spec = Inr rs"
    and ticks: "ticks \<noteq> []" "\<forall>tick \<in> set ticks. \<bar>p_ask tick\<bar> \<le> 2 ^ 29"
    and idx: "int (length ticks) + rs_atrTickWindow spec + 1 < 18446744073709551616"
  shows "windowRange (foldl applyTick rs ticks) =
     Max (set (lastn (nat (rs_atrTickWindow spec)) (map p_ask ticks)))
     - Min (set (lastn (nat (rs_atrTickWindow spec)) (map p_ask ticks)))"
proof -
  let ?rs = "foldl applyTick rs ticks" and ?w = "rs_atrTickWindow spec"
  let ?win = "window_of ?w (map p_ask ticks)"
  have spec: "spec_ok spec" "r_spec rs = spec" and start: "deques_agree rs []"
    using new by (auto simp: new_range_series_def deques_agree_def window_of_def indexed_def
        split: if_splits)
  then have agree: "deques_agree ?rs (map p_ask ticks)" and "r_spec ?rs = spec"
    using deques_agree_feed [OF start, of ticks] idx by auto
  then have max: "r_maxDeque ?rs = beaters (\<le>) ?win" and min: "r_minDeque ?rs = beaters (\<ge>) ?win"
    by (auto simp: deques_agree_def)
  have snd: "snd ` set ?win = set (lastn (nat ?w) (map p_ask ticks))"
    using window_of_lastn [of ?w "map p_ask ticks"] spec(1)
    by (metis list.set_map spec_ok_def zero_le_one order_trans)
  have "lastn (nat ?w) (map p_ask ticks) \<noteq> []"
    using ticks(1) spec(1) by (auto simp: lastn_def spec_ok_def not_le intro!: diff_less)
  then have ne: "?win \<noteq> []" using snd by auto
  have "r_maxDeque ?rs \<noteq> []" unfolding max using max_deque.beaters_head [OF ne] by blast
  then have wr: "windowRange ?rs = i32 (Max (snd ` set ?win) - Min (snd ` set ?win))"
    by (simp add: windowRange_def max min hd_beaters_extreme [OF ne])
  have sub: "snd ` set ?win \<subseteq> p_ask ` set ticks"
    unfolding snd using set_lastn [of "nat ?w" "map p_ask ticks"] by simp
  have "Max (snd ` set ?win) \<in> p_ask ` set ticks" "Min (snd ` set ?win) \<in> p_ask ` set ticks"
    using ne by (auto intro!: subsetD [OF sub] Max_in Min_in simp del: Max_in Min_in)
  then have "\<bar>Max (snd ` set ?win)\<bar> \<le> 2 ^ 29" "\<bar>Min (snd ` set ?win)\<bar> \<le> 2 ^ 29"
    using ticks(2) by (metis imageE)+
  then have "in_i32 (Max (snd ` set ?win) - Min (snd ` set ?win))"
    by (simp add: in_i32_def abs_le_iff)
  then show ?thesis using wr snd by simp
qed

text \<open>C4: after any non-empty stream of ticks the rolling measure read off the two
  monotonic deques is the highest minus the lowest ask of the last \<open>atrTickWindow\<close> ticks.\<close>

theorem windowRange_is_rolling_range:
  assumes "new_range_series spec = Inr rs"
    and "ticks \<noteq> []" "\<forall>tick \<in> set ticks. \<bar>p_ask tick\<bar> \<le> 2 ^ 29"
    and "int (length ticks) + rs_atrTickWindow spec + 1 < 18446744073709551616"
  shows "windowRange (foldl applyTick rs ticks) =
     Max (set (lastn (nat (rs_atrTickWindow spec)) (map p_ask ticks)))
     - Min (set (lastn (nat (rs_atrTickWindow spec)) (map p_ask ticks)))"
  using assms by (rule rolling_range)

abbreviation ask_tick :: "int \<Rightarrow> int \<Rightarrow> price_data" where
  "ask_tick t p \<equiv> \<lparr>p_ask = p, p_bid = p, p_timestamp = t, p_symbol = ''EURUSD''\<rparr>"

theorem windowRange_is_rolling_range_witness:
  "\<exists>rs. new_range_series \<lparr>rs_atrTickWindow = 2, rs_atrPercent = 50, rs_count = 3\<rparr> = Inr rs
      \<and> windowRange (foldl applyTick rs [ask_tick 0 9, ask_tick 1 5, ask_tick 2 8]) = 3"
proof -
  obtain rs where rs: "new_range_series \<lparr>rs_atrTickWindow = 2, rs_atrPercent = 50, rs_count = 3\<rparr> = Inr rs"
    by (simp add: new_range_series_def spec_ok_def)
  from windowRange_is_rolling_range [OF this, of "[ask_tick 0 9, ask_tick 1 5, ask_tick 2 8]"] rs
  show ?thesis by (simp add: lastn_def)
qed

subsection \<open>The shape of the bar history\<close>

text \<open>
  Every bar but the last is complete and has travelled at least one point; the last bar is
  complete, or its range is below the threshold locked when it opened; never more bars
  than the spec's count; no bar before the window is warm.
\<close>

definition range_bar_good :: "ohlc_object \<Rightarrow> bool" where
  "range_bar_good bar \<longleftrightarrow> bar_ok bar \<and> \<bar>b_high bar\<bar> \<le> 2 ^ 29 \<and> \<bar>b_low bar\<bar> \<le> 2 ^ 29
     \<and> (b_complete bar \<longrightarrow> 1 \<le> b_high bar - b_low bar)"

definition range_inv :: "range_series \<Rightarrow> bool" where
  "range_inv rs \<longleftrightarrow>
     (\<forall>bar \<in> set (r_bars rs). range_bar_good bar)
     \<and> (\<forall>bar \<in> set (butlast (r_bars rs)). b_complete bar)
     \<and> (r_bars rs \<noteq> [] \<longrightarrow> 1 \<le> r_lockedThreshold rs \<and>
          (b_complete (last (r_bars rs))
             \<longleftrightarrow> r_lockedThreshold rs \<le> b_high (last (r_bars rs)) - b_low (last (r_bars rs))))
     \<and> length (r_bars rs) \<le> nat (rs_count (r_spec rs))
     \<and> (\<not> warm rs \<longrightarrow> r_bars rs = [])"

lemma range_inv_snoc:
  "r_bars rs = bs @ [b] \<Longrightarrow>
   range_inv rs \<longleftrightarrow> (\<forall>x \<in> set bs. range_bar_good x \<and> b_complete x) \<and> range_bar_good b
     \<and> 1 \<le> r_lockedThreshold rs
     \<and> (b_complete b \<longleftrightarrow> r_lockedThreshold rs \<le> b_high b - b_low b)
     \<and> length bs < nat (rs_count (r_spec rs)) \<and> warm rs"
  by (auto simp: range_inv_def)

lemma range_bar_good_complete:
  "range_bar_good bar \<Longrightarrow> 1 \<le> b_high bar - b_low bar \<Longrightarrow> range_bar_good (bar\<lparr>b_complete := True\<rparr>)"
  by (simp add: range_bar_good_def)

lemma range_bar_good_absorb:
  "range_bar_good bar \<Longrightarrow> \<not> b_complete bar \<Longrightarrow> \<bar>p\<bar> \<le> 2 ^ 29 \<Longrightarrow> range_bar_good (absorb bar p)"
  using bar_ok_absorb [of bar p] by (auto simp: range_bar_good_def) (auto simp: absorb_def)

lemma range_bar_good_tick_bar: "\<bar>p\<bar> \<le> 2 ^ 29 \<Longrightarrow> range_bar_good (tick_bar t p)"
  by (simp add: range_bar_good_def) (simp add: tick_bar_def)

lemma range_bar_range_width: "range_bar_good bar \<Longrightarrow> i32 (b_high bar - b_low bar) = b_high bar - b_low bar"
  by (rule i32_id) (auto simp: range_bar_good_def in_i32_def abs_le_iff)

lemma tick_bar_range [simp]: "b_high (tick_bar t p) - b_low (tick_bar t p) = 0"
  by (simp add: tick_bar_def)

lemma scaled_threshold:
  assumes "0 \<le> wr" "wr \<le> 2 ^ 30" "1 \<le> pct" "pct \<le> 100"
  shows "1 \<le> i32 (max 1 (cdiv (i64 (i64 (wr * pct) + 50)) 100))"
proof -
  have "wr * pct \<le> 2 ^ 30 * 100" using assms by (intro mult_mono) auto
  moreover have "0 \<le> wr * pct" using assms by simp
  ultimately have "wr * pct \<le> 2 ^ 30 * 100" "0 \<le> wr * pct" .
  then have w: "in_i64 (wr * pct)" "in_i64 (wr * pct + 50)" by (auto simp: in_i64_def)
  have "(wr * pct + 50) div 100 \<le> (2 ^ 30 * 100 + 50) div 100"
    using \<open>wr * pct \<le> 2 ^ 30 * 100\<close> by (intro zdiv_mono1) auto
  then have "in_i32 (max 1 ((wr * pct + 50) div 100))"
    by (auto simp: in_i32_def max_def)
  with w \<open>0 \<le> wr * pct\<close> show ?thesis by simp
qed

lemma range_inv_bar_step:
  assumes inv: "range_inv rs" and ok: "spec_ok (r_spec rs)" "rs_atrPercent (r_spec rs) \<le> 100"
    and wr: "0 \<le> windowRange rs" "windowRange rs \<le> 2 ^ 30" and p: "\<bar>p\<bar> \<le> 2 ^ 29"
  shows "range_inv (bar_step rs t p)"
proof (cases "warm rs")
  case False
  with inv show ?thesis by (simp add: bar_step_def)
next
  case warm: True
  let ?n = "nat (rs_count (r_spec rs))"
  have n: "0 < ?n" using ok(1) by (simp add: spec_ok_def)
  show ?thesis
  proof (cases "r_bars rs = [] \<or> b_complete (last (r_bars rs))")
    case True
    let ?thr = "i32 (max 1 (cdiv (i64 (i64 (windowRange rs * rs_atrPercent (r_spec rs)) + 50)) 100))"
    have thr: "1 \<le> ?thr" using scaled_threshold wr ok by (simp add: spec_ok_def)
    have bars: "r_bars (bar_step rs t p) = lastn (?n - 1) (r_bars rs) @ [tick_bar t p]"
      and lock: "r_lockedThreshold (bar_step rs t p) = ?thr"
      using warm True n by (simp_all add: bar_step_def Let_def lastn_snoc)
    have "\<forall>bar \<in> set (r_bars rs). range_bar_good bar \<and> b_complete bar"
    proof (cases "r_bars rs" rule: rev_cases)
      case (snoc bs b)
      with inv True show ?thesis by (auto simp: range_inv_snoc)
    qed simp
    then have "\<forall>bar \<in> set (lastn (?n - 1) (r_bars rs)). range_bar_good bar \<and> b_complete bar"
      using set_lastn [of "?n - 1" "r_bars rs"] by blast
    moreover have "warm (bar_step rs t p)" using warm by (simp add: warm_def)
    ultimately show ?thesis
      using thr n range_bar_good_tick_bar [OF p]
      by (simp add: range_inv_snoc [OF bars] lock)
  next
    case False
    obtain bs b where rb: "r_bars rs = bs @ [b]" using False by (metis append_butlast_last_id)
    note old = iffD1 [OF range_inv_snoc [OF rb] inv]
    let ?b = "absorb b p"
    have good: "range_bar_good ?b" using old False rb p by (intro range_bar_good_absorb) auto
    have bars: "r_bars (bar_step rs t p) =
        bs @ [if b_high ?b - b_low ?b \<ge> r_lockedThreshold rs then ?b\<lparr>b_complete := True\<rparr> else ?b]"
      and lock: "r_lockedThreshold (bar_step rs t p) = r_lockedThreshold rs"
      using warm False rb old range_bar_range_width [OF good]
      by (simp_all add: bar_step_def Let_def)
    have "warm (bar_step rs t p)" using warm by (simp add: warm_def)
    with old good False rb show ?thesis
      by (auto simp: range_inv_snoc [OF bars] lock intro!: range_bar_good_complete)
  qed
qed

lemma windowRange_bar_step [simp]: "windowRange (bar_step rs t p) = windowRange rs"
  by (simp add: windowRange_def bar_step_def Let_def)

lemma rolling_range_bounds:
  assumes "new_range_series spec = Inr rs"
    and ticks: "ticks \<noteq> []" "\<forall>tick \<in> set ticks. \<bar>p_ask tick\<bar> \<le> 2 ^ 29"
    and "int (length ticks) + rs_atrTickWindow spec + 1 < 18446744073709551616"
  shows "0 \<le> windowRange (foldl applyTick rs ticks) \<and> windowRange (foldl applyTick rs ticks) \<le> 2 ^ 30"
proof -
  let ?S = "set (lastn (nat (rs_atrTickWindow spec)) (map p_ask ticks))"
  have "1 \<le> rs_atrTickWindow spec"
    using assms(1) by (auto simp: new_range_series_def spec_ok_def split: if_splits)
  then have ne: "?S \<noteq> {}" using ticks(1) by (auto simp: lastn_def not_le intro!: diff_less)
  then have "Max ?S \<in> ?S" "Min ?S \<in> ?S" by (simp_all del: set_empty)
  moreover have "?S \<subseteq> p_ask ` set ticks" using set_lastn [of _ "map p_ask ticks"] by simp
  ultimately have "Max ?S \<in> p_ask ` set ticks" "Min ?S \<in> p_ask ` set ticks" and "Min ?S \<le> Max ?S"
    by (blast, blast, simp)
  then have "\<bar>Max ?S\<bar> \<le> 2 ^ 29" "\<bar>Min ?S\<bar> \<le> 2 ^ 29" using ticks(2) by (metis imageE)+
  with \<open>Min ?S \<le> Max ?S\<close> rolling_range [OF assms] show ?thesis by (simp add: abs_le_iff)
qed

lemma range_inv_advance_window:
  assumes "range_inv rs" "0 \<le> r_tickIndex rs" "r_tickIndex rs + 1 < 18446744073709551616"
  shows "range_inv (advance_window rs p)"
proof -
  have "r_tickIndex (advance_window rs p) = r_tickIndex rs + 1"
    using assms by (simp add: advance_window_def Let_def u64_def)
  moreover have "r_spec (advance_window rs p) = r_spec rs" "r_bars (advance_window rs p) = r_bars rs"
    "r_lockedThreshold (advance_window rs p) = r_lockedThreshold rs"
    by (simp_all add: advance_window_def Let_def)
  ultimately show ?thesis using assms(1) by (auto simp: range_inv_def warm_def)
qed

lemma range_inv_feed:
  assumes new: "new_range_series spec = Inr rs" and pct: "rs_atrPercent spec \<le> 100"
  shows "\<forall>tick \<in> set ticks. \<bar>p_ask tick\<bar> \<le> 2 ^ 29 \<Longrightarrow>
    int (length ticks) + rs_atrTickWindow spec + 1 < 18446744073709551616 \<Longrightarrow>
    range_inv (foldl applyTick rs ticks)"
proof (induction ticks rule: rev_induct)
  case Nil
  then show ?case
    using new by (auto simp: new_range_series_def range_inv_def split: if_splits)
next
  case (snoc tick ticks)
  let ?rs = "foldl applyTick rs ticks"
  have spec: "spec_ok spec" "r_spec rs = spec" and start: "deques_agree rs []"
    using new by (auto simp: new_range_series_def deques_agree_def window_of_def indexed_def
        split: if_splits)
  then have agree: "deques_agree ?rs (map p_ask ticks)" and rspec: "r_spec ?rs = spec"
    using deques_agree_feed [OF start, of ticks] snoc.prems(2) by auto
  then have "r_tickIndex ?rs = int (length ticks)" by (simp add: deques_agree_def)
  then have inv: "range_inv (advance_window ?rs (p_ask tick))"
    using snoc spec(1) by (intro range_inv_advance_window) (auto simp: spec_ok_def)
  have "0 \<le> windowRange (advance_window ?rs (p_ask tick))"
    "windowRange (advance_window ?rs (p_ask tick)) \<le> 2 ^ 30"
    using rolling_range_bounds [OF new _ snoc.prems] by (simp_all add: applyTick_def)
  moreover have "r_spec (advance_window ?rs (p_ask tick)) = spec"
    using rspec by (simp add: advance_window_def Let_def)
  ultimately have "range_inv (bar_step (advance_window ?rs (p_ask tick)) (p_timestamp tick) (p_ask tick))"
    using inv spec pct snoc.prems by (intro range_inv_bar_step) auto
  then show ?case by (simp add: applyTick_def [of ?rs tick])
qed

text \<open>Over any stream of ticks from a fresh series the bar history keeps its shape: every
  bar but the newest is complete, a complete bar travelled at least one point, the newest is
  complete exactly when its range has reached the threshold locked when it opened, there are
  at most \<open>count\<close> bars, and none exists before the window is warm.\<close>

theorem range_bars_keep_shape:
  assumes "new_range_series spec = Inr rs" and "rs_atrPercent spec \<le> 100"
    and "\<forall>tick \<in> set ticks. \<bar>p_ask tick\<bar> \<le> 2 ^ 29"
    and "int (length ticks) + rs_atrTickWindow spec + 1 < 18446744073709551616"
  shows "range_inv (foldl applyTick rs ticks)"
  using assms by (rule range_inv_feed)

theorem range_bars_keep_shape_witness:
  "\<exists>rs. new_range_series \<lparr>rs_atrTickWindow = 2, rs_atrPercent = 50, rs_count = 3\<rparr> = Inr rs
      \<and> range_inv (foldl applyTick rs [ask_tick 0 9, ask_tick 1 5, ask_tick 2 8])"
proof -
  obtain rs where rs: "new_range_series \<lparr>rs_atrTickWindow = 2, rs_atrPercent = 50, rs_count = 3\<rparr> = Inr rs"
    by (simp add: new_range_series_def spec_ok_def)
  from range_bars_keep_shape [OF this, of "[ask_tick 0 9, ask_tick 1 5, ask_tick 2 8]"] rs
  show ?thesis by simp
qed

end
