(* ===== verification/BarStore.thy ===== *)
theory BarStore
  imports RangeBar
begin

section \<open>The shared bar store\<close>

text \<open>
  \<open>source/shared/utilities/barStore.cppm\<close>: the registered series of a run, the rolling bar
  histories per symbol, and the lookups the entry gate and the strategies read. The two
  \<open>unordered_map\<close>s from symbol to a vector of histories are maps. Both legs of \<open>update\<close>
  route a tick to the state of its symbol; what follows from that routing alone is proved
  once, in the locale \<open>per_symbol\<close>.
\<close>

record series_spec =
  s_minutes :: int
  s_count :: int

record bar_store =
  bs_specs :: "series_spec list"
  bs_bySymbol :: "symbol \<rightharpoonup> ohlc_object list list"
  bs_rangeSpecs :: "range_bar_spec list"
  bs_rangeBySymbol :: "symbol \<rightharpoonup> range_series list"

definition new_bar_store :: bar_store where
  "new_bar_store = \<lparr>bs_specs = [], bs_bySymbol = Map.empty, bs_rangeSpecs = [],
                    bs_rangeBySymbol = Map.empty\<rparr>"

text \<open>The registration loop: the first entry of the same duration is widened, else a new
  entry is appended.\<close>

fun merge_spec :: "int \<Rightarrow> int \<Rightarrow> series_spec list \<Rightarrow> series_spec list" where
  "merge_spec mins cnt [] = [\<lparr>s_minutes = mins, s_count = cnt\<rparr>]"
| "merge_spec mins cnt (spec # specs) =
     (if s_minutes spec = mins then spec\<lparr>s_count := max (s_count spec) cnt\<rparr> # specs
      else spec # merge_spec mins cnt specs)"

definition registerSeries :: "bar_store \<Rightarrow> int \<Rightarrow> int \<Rightarrow> bar_store result" where
  "registerSeries store mins cnt =
     (if mins < 1 \<or> cnt < 1 then Inl InvalidArgument
      else Inr (store\<lparr>bs_specs := merge_spec mins cnt (bs_specs store)\<rparr>))"

fun merge_range_spec :: "range_bar_spec \<Rightarrow> range_bar_spec list \<Rightarrow> range_bar_spec list" where
  "merge_range_spec spec [] = [spec]"
| "merge_range_spec spec (existing # specs) =
     (if sameIdentity existing spec
      then existing\<lparr>rs_count := max (rs_count existing) (rs_count spec)\<rparr> # specs
      else existing # merge_range_spec spec specs)"

definition registerRangeSeries :: "bar_store \<Rightarrow> range_bar_spec \<Rightarrow> bar_store result" where
  "registerRangeSeries store spec =
     (if rs_atrTickWindow spec < 1 \<or> rs_atrPercent spec < 1 \<or> rs_count spec < 1
      then Inl InvalidArgument
      else Inr (store\<lparr>bs_rangeSpecs := merge_range_spec spec (bs_rangeSpecs store)\<rparr>))"

definition resize :: "nat \<Rightarrow> 'a list list \<Rightarrow> 'a list list" where
  "resize n v = (if length v < n then v @ replicate (n - length v) [] else v)"

text \<open>The per-series loop of \<open>update\<close>: build, then drop the oldest bars past the window.\<close>

fun update_series ::
  "db_ctx \<Rightarrow> price_data \<Rightarrow> series_spec list \<Rightarrow> ohlc_object list list \<Rightarrow> ohlc_object list list result"
where
  "update_series ctx tick [] v = Inr v"
| "update_series ctx tick (spec # specs) [] = Inl UndefinedBehaviour"
| "update_series ctx tick (spec # specs) (bars # v) =
     (case calculateOHLC ctx tick (p_ask tick) (s_minutes spec * 60000000) bars (s_count spec) of
        Inl e \<Rightarrow> Inl e
      | Inr bars' \<Rightarrow>
          (case update_series ctx tick specs v of
             Inl e \<Rightarrow> Inl e
           | Inr v' \<Rightarrow> Inr (lastn (nat (s_count spec)) bars' # v')))"

definition ohlc_step ::
  "db_ctx \<Rightarrow> series_spec list \<Rightarrow> price_data \<Rightarrow> ohlc_object list list \<Rightarrow> ohlc_object list list result"
where
  "ohlc_step ctx specs tick v = update_series ctx tick specs (resize (length specs) v)"

definition ohlc_leg ::
  "db_ctx \<Rightarrow> series_spec list \<Rightarrow> price_data \<Rightarrow> (symbol \<rightharpoonup> ohlc_object list list)
     \<Rightarrow> (symbol \<rightharpoonup> ohlc_object list list) result" where
  "ohlc_leg ctx specs tick m =
     (case ohlc_step ctx specs tick
             (case m (p_symbol tick) of None \<Rightarrow> replicate (length specs) [] | Some v \<Rightarrow> v) of
        Inl e \<Rightarrow> Inl e
      | Inr v \<Rightarrow> Inr (m(p_symbol tick \<mapsto> v)))"

text \<open>\<open>while (size < rangeSpecs_.size()) emplace_back(rangeSpecs_[size])\<close>: the series that
  are missing are appended in order, and a refused constructor is the error.\<close>

fun append_series :: "range_series list \<Rightarrow> range_bar_spec list \<Rightarrow> range_series list result" where
  "append_series v [] = Inr v"
| "append_series v (spec # specs) =
     (case new_range_series spec of
        Inl e \<Rightarrow> Inl e
      | Inr rs \<Rightarrow> append_series (v @ [rs]) specs)"

definition range_step ::
  "db_ctx \<Rightarrow> range_bar_spec list \<Rightarrow> price_data \<Rightarrow> range_series list \<Rightarrow> range_series list result"
where
  "range_step ctx specs tick v =
     (case append_series v (drop (length v) specs) of
        Inl e \<Rightarrow> Inl e
      | Inr v' \<Rightarrow> Inr (map (\<lambda>rs. range_update ctx rs tick) v'))"

definition range_leg ::
  "db_ctx \<Rightarrow> range_bar_spec list \<Rightarrow> price_data \<Rightarrow> (symbol \<rightharpoonup> range_series list)
     \<Rightarrow> (symbol \<rightharpoonup> range_series list) result" where
  "range_leg ctx specs tick m =
     (case range_step ctx specs tick (case m (p_symbol tick) of None \<Rightarrow> [] | Some v \<Rightarrow> v) of
        Inl e \<Rightarrow> Inl e
      | Inr v \<Rightarrow> Inr (m(p_symbol tick \<mapsto> v)))"

text \<open>The two guarded blocks of \<open>update\<close>, one after the other.\<close>

definition ohlc_block ::
  "db_ctx \<Rightarrow> series_spec list \<Rightarrow> price_data \<Rightarrow> (symbol \<rightharpoonup> ohlc_object list list)
     \<Rightarrow> (symbol \<rightharpoonup> ohlc_object list list) result" where
  "ohlc_block ctx specs tick m = (if specs = [] then Inr m else ohlc_leg ctx specs tick m)"

definition range_block ::
  "db_ctx \<Rightarrow> range_bar_spec list \<Rightarrow> price_data \<Rightarrow> (symbol \<rightharpoonup> range_series list)
     \<Rightarrow> (symbol \<rightharpoonup> range_series list) result" where
  "range_block ctx specs tick m = (if specs = [] then Inr m else range_leg ctx specs tick m)"

definition store_update :: "db_ctx \<Rightarrow> price_data \<Rightarrow> bar_store \<Rightarrow> bar_store result" where
  "store_update ctx tick store =
     (case ohlc_block ctx (bs_specs store) tick (bs_bySymbol store) of
        Inl e \<Rightarrow> Inl e
      | Inr m \<Rightarrow>
          (case range_block ctx (bs_rangeSpecs store) tick (bs_rangeBySymbol store) of
             Inl e \<Rightarrow> Inl e
           | Inr r \<Rightarrow> Inr (store\<lparr>bs_bySymbol := m, bs_rangeBySymbol := r\<rparr>)))"

text \<open>The index scans of the two lookups: the list's length when nothing matches.\<close>

fun index_where :: "('a \<Rightarrow> bool) \<Rightarrow> 'a list \<Rightarrow> nat" where
  "index_where P [] = 0"
| "index_where P (x # xs) = (if P x then 0 else Suc (index_where P xs))"

definition store_find :: "bar_store \<Rightarrow> symbol \<Rightarrow> int \<Rightarrow> ohlc_object list option" where
  "store_find store symbol mins =
     (let index = index_where (\<lambda>spec. s_minutes spec = mins) (bs_specs store)
      in if index = length (bs_specs store) then None
         else case bs_bySymbol store symbol of
                None \<Rightarrow> None
              | Some v \<Rightarrow> if index \<ge> length v then None else Some (v ! index))"

definition store_findRange :: "bar_store \<Rightarrow> symbol \<Rightarrow> range_bar_spec \<Rightarrow> ohlc_object list option" where
  "store_findRange store symbol spec =
     (let index = index_where (\<lambda>existing. sameIdentity existing spec) (bs_rangeSpecs store)
      in if index = length (bs_rangeSpecs store) then None
         else case bs_rangeBySymbol store symbol of
                None \<Rightarrow> None
              | Some v \<Rightarrow> if index \<ge> length v then None else Some (r_bars (v ! index)))"

subsection \<open>Routing by symbol\<close>

text \<open>A leg that applies a step to the state of the tick's symbol and leaves every other
  symbol alone holds, for each symbol, the step folded over that symbol's own ticks.\<close>

locale per_symbol =
  fixes step :: "'t \<Rightarrow> 's \<Rightarrow> 's result" and init :: 's and key :: "'t \<Rightarrow> symbol"
    and leg :: "'t \<Rightarrow> (symbol \<rightharpoonup> 's) \<Rightarrow> (symbol \<rightharpoonup> 's) result"
  assumes leg: "leg tick m =
    (case step tick (case m (key tick) of None \<Rightarrow> init | Some s \<Rightarrow> s) of
       Inl e \<Rightarrow> Inl e | Inr s \<Rightarrow> Inr (m(key tick \<mapsto> s)))"
begin

definition state_of :: "(symbol \<rightharpoonup> 's) \<Rightarrow> symbol \<Rightarrow> 's" where
  "state_of m k = (case m k of None \<Rightarrow> init | Some s \<Rightarrow> s)"

lemma leg_state: "leg tick m =
    (case step tick (state_of m (key tick)) of
       Inl e \<Rightarrow> Inl e | Inr s \<Rightarrow> Inr (m(key tick \<mapsto> s)))"
  by (simp add: leg state_of_def)

lemma own_ticks:
  "res_fold leg ticks m = Inr m' \<Longrightarrow>
   res_fold step (filter (\<lambda>tick. key tick = k) ticks) (state_of m k) = Inr (state_of m' k)
   \<and> (m' k = None \<longleftrightarrow> m k = None \<and> filter (\<lambda>tick. key tick = k) ticks = [])"
proof (induction ticks arbitrary: m)
  case (Cons tick ticks)
  then obtain s where s: "step tick (state_of m (key tick)) = Inr s"
      and rest: "res_fold leg ticks (m(key tick \<mapsto> s)) = Inr m'"
    by (auto simp: leg_state [of tick m] split: sum.splits)
  from Cons.IH [OF rest] s show ?case by (auto simp: state_of_def)
qed simp

lemma never_fails:
  assumes inv: "\<And>k. P (state_of m k)"
    and step: "\<And>tick s. tick \<in> set ticks \<Longrightarrow> P s \<Longrightarrow> \<exists>s'. step tick s = Inr s' \<and> P s'"
  shows "\<exists>m'. res_fold leg ticks m = Inr m'"
  using assms
proof (induction ticks arbitrary: m)
  case (Cons tick ticks)
  obtain s where s: "step tick (state_of m (key tick)) = Inr s" "P s"
    using Cons.prems by (meson list.set_intros(1))
  then have "P (state_of (m(key tick \<mapsto> s)) k)" for k
    using Cons.prems(1) [of k] by (auto simp: state_of_def)
  then have "\<exists>m'. res_fold leg ticks (m(key tick \<mapsto> s)) = Inr m'"
    using Cons.IH [of "m(key tick \<mapsto> s)"] Cons.prems(2) by (meson list.set_intros(2))
  with s show ?case by (simp add: leg_state [of tick m])
qed simp

end

interpretation ohlc_route:
  per_symbol "ohlc_step ctx specs" "replicate (length specs) []" p_symbol "ohlc_leg ctx specs"
  for ctx specs
  by unfold_locales (simp add: ohlc_leg_def)

interpretation range_route: per_symbol "range_step ctx specs" "[]" p_symbol "range_leg ctx specs"
  for ctx specs
  by unfold_locales (simp add: range_leg_def)

subsection \<open>The histories are windows of the full bar histories\<close>

definition cold_start :: "db_ctx \<Rightarrow> bool" where
  "cold_start ctx \<longleftrightarrow> getOr (ctx_getenv ctx) ''OHLC_PREPOPULATE'' ''1'' \<noteq> ''1''"

definition series_ok :: "series_spec \<Rightarrow> bool" where
  "series_ok spec \<longleftrightarrow> 1 \<le> s_minutes spec \<and> 1 \<le> s_count spec"

definition store_ready :: "bar_store \<Rightarrow> bool" where
  "store_ready store \<longleftrightarrow>
     (\<forall>spec \<in> set (bs_specs store). series_ok spec) \<and> distinct (map s_minutes (bs_specs store))
     \<and> (\<forall>spec \<in> set (bs_rangeSpecs store). spec_ok spec)
     \<and> distinct (map (\<lambda>spec. (rs_atrTickWindow spec, rs_atrPercent spec)) (bs_rangeSpecs store))"

definition series_window :: "series_spec \<Rightarrow> price_data list \<Rightarrow> ohlc_object list" where
  "series_window spec ticks =
     lastn (nat (s_count spec)) (bars_of (group_ticks (s_minutes spec * 60000000) (ask_points ticks)))"

lemma prepopulateOHLC_cold [simp]: "cold_start ctx \<Longrightarrow> prepopulateOHLC ctx s t m n = []"
  by (simp add: prepopulateOHLC_def cold_start_def)

lemma prepopulateTicks_cold [simp]: "cold_start ctx \<Longrightarrow> prepopulateTicks ctx s t spec = []"
  by (simp add: prepopulateTicks_def cold_start_def)

lemma series_window_snoc:
  assumes "series_ok spec"
  shows "lastn (nat (s_count spec)) (ohlc_roll (p_timestamp tick) (p_ask tick) (s_minutes spec * 60000000)
           (if series_window spec ticks = [] then [tick_bar (p_timestamp tick) (p_ask tick)]
            else series_window spec ticks)) = series_window spec (ticks @ [tick])"
proof -
  let ?d = "s_minutes spec * 60000000" and ?n = "nat (s_count spec)"
  let ?f = "ohlc_feed ?d [] (ask_points ticks)"
  have d: "0 < ?d" and n: "0 < ?n" using assms by (auto simp: series_ok_def)
  have w: "series_window spec xs = lastn ?n (ohlc_feed ?d [] (ask_points xs))" for xs
    using d by (simp add: series_window_def ohlc_feed_is_grouping)
  have "lastn ?n ?f = [] \<longleftrightarrow> ?f = []" using n by simp
  then show ?thesis
    using n ohlc_roll_lastn [of ?f ?n]
    by (cases "?f = []") (simp_all add: w ask_points_def ohlc_feed_snoc Let_def)
qed

lemma update_series_windows:
  assumes "cold_start ctx" "\<forall>spec \<in> set specs. series_ok spec"
  shows "update_series ctx tick specs (map (\<lambda>spec. series_window spec ticks) specs) =
         Inr (map (\<lambda>spec. series_window spec (ticks @ [tick])) specs)"
  using assms(2)
proof (induction specs)
  case (Cons spec specs)
  then have "0 < s_minutes spec * 60000000" by (simp add: series_ok_def)
  with Cons assms(1) show ?case
    using series_window_snoc [of spec tick ticks] by (simp add: calculateOHLC_cold)
qed simp

lemma ohlc_steps_windows:
  assumes "cold_start ctx" "\<forall>spec \<in> set specs. series_ok spec"
  shows "res_fold (ohlc_step ctx specs) ticks (replicate (length specs) []) =
         Inr (map (\<lambda>spec. series_window spec ticks) specs)"
proof (induction ticks rule: rev_induct)
  case Nil
  show ?case
    by (simp add: series_window_def ask_points_def bars_of_def lastn_def map_replicate_const)
next
  case (snoc tick ticks)
  then show ?case
    using update_series_windows [OF assms] by (simp add: res_fold_append ohlc_step_def resize_def)
qed

text \<open>The legs run side by side, each on the fixed list of registered specs.\<close>

lemma store_feed_blocks:
  assumes "res_fold (ohlc_block ctx (bs_specs store)) ticks (bs_bySymbol store) = Inr m"
    and "res_fold (range_block ctx (bs_rangeSpecs store)) ticks (bs_rangeBySymbol store) = Inr r"
  shows "res_fold (store_update ctx) ticks store = Inr (store\<lparr>bs_bySymbol := m, bs_rangeBySymbol := r\<rparr>)"
  using assms
proof (induction ticks arbitrary: store)
  case (Cons tick ticks)
  then obtain m1 r1 where
    "store_update ctx tick store = Inr (store\<lparr>bs_bySymbol := m1, bs_rangeBySymbol := r1\<rparr>)"
    "res_fold (ohlc_block ctx (bs_specs store)) ticks m1 = Inr m"
    "res_fold (range_block ctx (bs_rangeSpecs store)) ticks r1 = Inr r"
    unfolding res_fold.simps store_update_def by (auto split: sum.splits)
  then show ?case
    using Cons.IH [of "store\<lparr>bs_bySymbol := m1, bs_rangeBySymbol := r1\<rparr>"] by simp
qed simp

lemma block_empty [simp]:
  "res_fold (ohlc_block ctx []) ticks m = Inr m" "res_fold (range_block ctx []) ticks r = Inr r"
  by (induction ticks) (simp_all add: ohlc_block_def range_block_def)

lemma block_nonempty:
  "specs \<noteq> [] \<Longrightarrow> ohlc_block ctx specs = ohlc_leg ctx specs"
  "rspecs \<noteq> [] \<Longrightarrow> range_block ctx rspecs = range_leg ctx rspecs"
  by (simp_all add: ohlc_block_def range_block_def fun_eq_iff)

lemma index_where_distinct:
  "x \<in> set xs \<Longrightarrow> distinct (map f xs) \<Longrightarrow>
   index_where (\<lambda>y. f y = f x) xs < length xs \<and> xs ! index_where (\<lambda>y. f y = f x) xs = x"
proof (induction xs)
  case (Cons y ys)
  then show ?case by (cases "f y = f x") (auto simp: image_iff)
qed simp

lemma index_where_None: "k \<notin> f ` set xs \<Longrightarrow> index_where (\<lambda>y. f y = k) xs = length xs"
  by (induction xs) auto

lemma ohlc_leg_windows:
  assumes cold: "cold_start ctx" "\<forall>spec \<in> set specs. series_ok spec"
  shows "\<exists>m. res_fold (ohlc_leg ctx specs) ticks Map.empty = Inr m
     \<and> (\<forall>s. filter (\<lambda>tick. p_symbol tick = s) ticks \<noteq> [] \<longrightarrow>
          m s = Some (map (\<lambda>spec. series_window spec (filter (\<lambda>tick. p_symbol tick = s) ticks)) specs))"
proof -
  define P where "P v \<longleftrightarrow> (\<exists>ts. v = map (\<lambda>spec. series_window spec ts) specs)" for v
  have "replicate (length specs) [] = map (\<lambda>spec. series_window spec []) specs"
    using ohlc_steps_windows [OF cold, of "[]"] by simp
  then have P0: "P (ohlc_route.state_of specs Map.empty k)" for k
    unfolding P_def ohlc_route.state_of_def by auto
  have "\<exists>v'. ohlc_step ctx specs tick v = Inr v' \<and> P v'" if "P v" for tick v
    using that update_series_windows [OF cold] by (auto simp: P_def ohlc_step_def resize_def)
  then obtain m where m: "res_fold (ohlc_leg ctx specs) ticks Map.empty = Inr m"
    using ohlc_route.never_fails [of P specs Map.empty ticks ctx] P0 by blast
  show ?thesis
  proof (intro exI conjI allI impI, rule m)
    fix s assume "filter (\<lambda>tick. p_symbol tick = s) ticks \<noteq> []"
    with ohlc_route.own_ticks [OF m, of s] ohlc_steps_windows [OF cold]
    show "m s = Some (map (\<lambda>spec. series_window spec (filter (\<lambda>tick. p_symbol tick = s) ticks)) specs)"
      by (auto simp: ohlc_route.state_of_def)
  qed
qed

subsection \<open>The range leg\<close>

definition fresh_series :: "range_bar_spec \<Rightarrow> range_series" where
  "fresh_series spec = \<lparr>r_spec = spec, r_bars = [], r_maxDeque = [], r_minDeque = [],
     r_tickIndex = 0, r_lockedThreshold = 0, r_prepopulateAttempted = False\<rparr>"

definition range_state :: "range_bar_spec \<Rightarrow> price_data list \<Rightarrow> range_series" where
  "range_state spec ticks =
     (foldl applyTick (fresh_series spec) ticks)\<lparr>r_prepopulateAttempted := ticks \<noteq> []\<rparr>"

lemma new_range_series_fresh: "spec_ok spec \<Longrightarrow> new_range_series spec = Inr (fresh_series spec)"
  by (simp add: new_range_series_def fresh_series_def)

lemma windowRange_attempted [simp]:
  "windowRange (rs\<lparr>r_prepopulateAttempted := b\<rparr>) = windowRange rs"
  "warm (rs\<lparr>r_prepopulateAttempted := b\<rparr>) = warm rs"
  by (simp_all add: windowRange_def warm_def)

lemma advance_window_attempted:
  "advance_window (rs\<lparr>r_prepopulateAttempted := b\<rparr>) p = (advance_window rs p)\<lparr>r_prepopulateAttempted := b\<rparr>"
  by (simp add: advance_window_def Let_def)

lemma bar_step_attempted:
  "bar_step (rs\<lparr>r_prepopulateAttempted := b\<rparr>) t p = (bar_step rs t p)\<lparr>r_prepopulateAttempted := b\<rparr>"
proof (cases "r_bars rs = [] \<or> b_complete (last (r_bars rs))")
  case True
  then show ?thesis by (cases "warm rs") (simp_all add: bar_step_def Let_def)
next
  case False
  then show ?thesis by (cases "warm rs") (simp_all add: bar_step_def Let_def)
qed

lemma applyTick_attempted:
  "applyTick (rs\<lparr>r_prepopulateAttempted := b\<rparr>) tick = (applyTick rs tick)\<lparr>r_prepopulateAttempted := b\<rparr>"
  by (simp add: applyTick_def advance_window_attempted bar_step_attempted)

lemma range_update_state:
  "cold_start ctx \<Longrightarrow> range_update ctx (range_state spec ticks) tick = range_state spec (ticks @ [tick])"
  by (simp add: range_update_def range_state_def applyTick_attempted)

lemma append_series_fresh:
  "\<forall>spec \<in> set specs. spec_ok spec \<Longrightarrow> append_series v specs = Inr (v @ map (\<lambda>spec. range_state spec []) specs)"
  by (induction specs arbitrary: v)
    (simp_all add: new_range_series_fresh range_state_def fresh_series_def)

lemma range_step_state:
  assumes "cold_start ctx" "\<forall>spec \<in> set specs. spec_ok spec"
  shows "range_step ctx specs tick (map (\<lambda>spec. range_state spec ticks) specs)
           = Inr (map (\<lambda>spec. range_state spec (ticks @ [tick])) specs)"
    and "range_step ctx specs tick [] = Inr (map (\<lambda>spec. range_state spec [tick]) specs)"
  using assms range_update_state [OF assms(1), of _ "[]"]
  by (simp_all add: range_step_def append_series_fresh range_update_state)

lemma range_steps_state:
  assumes "cold_start ctx" "\<forall>spec \<in> set specs. spec_ok spec"
  shows "res_fold (range_step ctx specs) ticks [] =
         Inr (if ticks = [] then [] else map (\<lambda>spec. range_state spec ticks) specs)"
proof (induction ticks rule: rev_induct)
  case (snoc tick ticks)
  then show ?case using range_step_state [OF assms] by (simp add: res_fold_append)
qed simp

lemma range_leg_states:
  assumes cold: "cold_start ctx" "\<forall>spec \<in> set specs. spec_ok spec"
  shows "\<exists>m. res_fold (range_leg ctx specs) ticks Map.empty = Inr m
     \<and> (\<forall>s. filter (\<lambda>tick. p_symbol tick = s) ticks \<noteq> [] \<longrightarrow>
          m s = Some (map (\<lambda>spec. range_state spec (filter (\<lambda>tick. p_symbol tick = s) ticks)) specs))"
proof -
  define P where "P v \<longleftrightarrow> v = [] \<or> (\<exists>ts. v = map (\<lambda>spec. range_state spec ts) specs)" for v
  have P0: "P (range_route.state_of Map.empty k)" for k
    unfolding P_def range_route.state_of_def by auto
  have "\<exists>v'. range_step ctx specs tick v = Inr v' \<and> P v'" if "P v" for tick v
    using that range_step_state [OF cold] by (auto simp: P_def)
  then obtain m where m: "res_fold (range_leg ctx specs) ticks Map.empty = Inr m"
    using range_route.never_fails [of P Map.empty ticks ctx specs] P0 by blast
  show ?thesis
  proof (intro exI conjI allI impI, rule m)
    fix s assume "filter (\<lambda>tick. p_symbol tick = s) ticks \<noteq> []"
    with range_route.own_ticks [OF m, of s] range_steps_state [OF cold]
    show "m s = Some (map (\<lambda>spec. range_state spec (filter (\<lambda>tick. p_symbol tick = s) ticks)) specs)"
      by (auto simp: range_route.state_of_def)
  qed
qed

lemma store_feed_cold:
  assumes "store_ready store" "cold_start ctx"
    and "bs_bySymbol store = Map.empty" "bs_rangeBySymbol store = Map.empty"
  shows "\<exists>store'. res_fold (store_update ctx) ticks store = Inr store'
     \<and> bs_specs store' = bs_specs store \<and> bs_rangeSpecs store' = bs_rangeSpecs store
     \<and> (\<forall>s. filter (\<lambda>tick. p_symbol tick = s) ticks \<noteq> [] \<longrightarrow>
          (bs_specs store \<noteq> [] \<longrightarrow> bs_bySymbol store' s = Some (map (\<lambda>spec. series_window spec
               (filter (\<lambda>tick. p_symbol tick = s) ticks)) (bs_specs store)))
          \<and> (bs_rangeSpecs store \<noteq> [] \<longrightarrow> bs_rangeBySymbol store' s = Some (map (\<lambda>spec. range_state spec
               (filter (\<lambda>tick. p_symbol tick = s) ticks)) (bs_rangeSpecs store))))"
proof -
  have ok: "\<forall>spec \<in> set (bs_specs store). series_ok spec" "\<forall>spec \<in> set (bs_rangeSpecs store). spec_ok spec"
    using assms(1) by (auto simp: store_ready_def)
  obtain m where m: "res_fold (ohlc_leg ctx (bs_specs store)) ticks Map.empty = Inr m"
    "\<forall>s. filter (\<lambda>tick. p_symbol tick = s) ticks \<noteq> [] \<longrightarrow> m s = Some (map (\<lambda>spec. series_window spec
               (filter (\<lambda>tick. p_symbol tick = s) ticks)) (bs_specs store))"
    using ohlc_leg_windows [OF assms(2) ok(1)] by blast
  obtain r where r: "res_fold (range_leg ctx (bs_rangeSpecs store)) ticks Map.empty = Inr r"
    "\<forall>s. filter (\<lambda>tick. p_symbol tick = s) ticks \<noteq> [] \<longrightarrow> r s = Some (map (\<lambda>spec. range_state spec
               (filter (\<lambda>tick. p_symbol tick = s) ticks)) (bs_rangeSpecs store))"
    using range_leg_states [OF assms(2) ok(2)] by blast
  have "res_fold (ohlc_block ctx (bs_specs store)) ticks (bs_bySymbol store)
          = Inr (if bs_specs store = [] then Map.empty else m)"
    and "res_fold (range_block ctx (bs_rangeSpecs store)) ticks (bs_rangeBySymbol store)
          = Inr (if bs_rangeSpecs store = [] then Map.empty else r)"
    using m(1) r(1) assms(3,4) by (simp_all add: block_nonempty)
  from store_feed_blocks [OF this] m(2) r(2) show ?thesis by simp
qed

subsection \<open>Registration\<close>

definition window_of_minutes :: "bar_store \<Rightarrow> int \<rightharpoonup> int" where
  "window_of_minutes store = map_of (map (\<lambda>spec. (s_minutes spec, s_count spec)) (bs_specs store))"

lemma minutes_merge_spec:
  "map s_minutes (merge_spec m c specs) =
     (if m \<in> s_minutes ` set specs then map s_minutes specs else map s_minutes specs @ [m])"
  by (induction specs) auto

lemma series_ok_widen: "series_ok spec \<Longrightarrow> series_ok (spec\<lparr>s_count := max (s_count spec) c\<rparr>)"
  by (auto simp: series_ok_def)

lemma merge_spec_ok:
  "1 \<le> m \<Longrightarrow> 1 \<le> c \<Longrightarrow> \<forall>spec \<in> set specs. series_ok spec \<Longrightarrow>
   \<forall>spec \<in> set (merge_spec m c specs). series_ok spec"
proof (induction specs)
  case (Cons spec specs)
  then show ?case by (cases "s_minutes spec = m") (simp_all add: series_ok_widen)
qed (simp add: series_ok_def)

lemma map_of_merge_spec:
  "map_of (map (\<lambda>spec. (s_minutes spec, s_count spec)) (merge_spec m c specs)) =
   (map_of (map (\<lambda>spec. (s_minutes spec, s_count spec)) specs))
     (m \<mapsto> (case map_of (map (\<lambda>spec. (s_minutes spec, s_count spec)) specs) m of
               None \<Rightarrow> c | Some c' \<Rightarrow> max c' c))"
proof (induction specs)
  case (Cons spec specs)
  then show ?case by (cases "s_minutes spec = m") (auto simp: fun_eq_iff)
qed simp

lemma registerSeries_ready [inv_intros]:
  "registerSeries store m c = Inr store' \<Longrightarrow> store_ready store \<Longrightarrow> store_ready store'"
  using merge_spec_ok [of m c "bs_specs store"]
  by (auto simp: registerSeries_def store_ready_def minutes_merge_spec split: if_splits)

lemma identity_merge_range_spec:
  "map (\<lambda>spec. (rs_atrTickWindow spec, rs_atrPercent spec)) (merge_range_spec s specs) =
     (if (rs_atrTickWindow s, rs_atrPercent s) \<in> (\<lambda>spec. (rs_atrTickWindow spec, rs_atrPercent spec)) ` set specs
      then map (\<lambda>spec. (rs_atrTickWindow spec, rs_atrPercent spec)) specs
      else map (\<lambda>spec. (rs_atrTickWindow spec, rs_atrPercent spec)) specs
             @ [(rs_atrTickWindow s, rs_atrPercent s)])"
proof (induction specs)
  case (Cons spec specs)
  then show ?case by (cases "sameIdentity spec s") (auto simp: sameIdentity_def)
qed simp

lemma spec_ok_widen: "spec_ok spec \<Longrightarrow> spec_ok (spec\<lparr>rs_count := max (rs_count spec) c\<rparr>)"
  by (auto simp: spec_ok_def)

lemma merge_range_spec_ok:
  "spec_ok s \<Longrightarrow> \<forall>spec \<in> set specs. spec_ok spec \<Longrightarrow> \<forall>spec \<in> set (merge_range_spec s specs). spec_ok spec"
proof (induction specs)
  case (Cons spec specs)
  then show ?case by (cases "sameIdentity spec s") (simp_all add: spec_ok_widen)
qed simp

lemma registerRangeSeries_ready [inv_intros]:
  assumes "registerRangeSeries store s = Inr store'" "store_ready store"
  shows "store_ready store'"
proof -
  have "spec_ok s" and store': "store' = store\<lparr>bs_rangeSpecs := merge_range_spec s (bs_rangeSpecs store)\<rparr>"
    using assms(1) by (auto simp: registerRangeSeries_def spec_ok_def split: if_splits)
  then show ?thesis
    using assms(2) merge_range_spec_ok [of s "bs_rangeSpecs store"]
    unfolding store_ready_def store' by (simp add: identity_merge_range_spec image_iff)
qed

lemma new_bar_store_ready [simp]: "store_ready new_bar_store"
  by (simp add: store_ready_def new_bar_store_def)

text \<open>Any sequence of registrations either contains a non-positive duration or count and
  is refused, or yields a store with one series per requested duration whose window is the
  largest count asked for it.\<close>

theorem registration_keeps_largest_window:
  fixes reqs :: "(int \<times> int) list"
  defines "outcome \<equiv> res_fold (\<lambda>(m, c) store. registerSeries store m c) reqs new_bar_store"
  shows "(if \<exists>(m, c) \<in> set reqs. m < 1 \<or> c < 1 then outcome = Inl InvalidArgument
          else \<exists>store. outcome = Inr store \<and> store_ready store
            \<and> (\<forall>m. window_of_minutes store m =
                 (if m \<in> fst ` set reqs then Some (Max {c. (m, c) \<in> set reqs}) else None)))"
  unfolding outcome_def
proof (induction reqs rule: rev_induct)
  case Nil
  show ?case by (simp add: window_of_minutes_def new_bar_store_def store_ready_def)
next
  case (snoc req reqs)
  obtain m c where req: "req = (m, c)" by (cases req)
  show ?case
  proof (cases "\<exists>(m, c) \<in> set (reqs @ [req]). m < 1 \<or> c < 1")
    case True
    then show ?thesis using snoc.IH
      by (cases "\<exists>(m, c) \<in> set reqs. m < 1 \<or> c < 1")
        (auto simp: res_fold_append req registerSeries_def split: sum.splits)
  next
    case False
    then obtain store where store: "res_fold (\<lambda>(m, c) store. registerSeries store m c) reqs new_bar_store = Inr store"
        "store_ready store" and w: "\<And>m. window_of_minutes store m =
            (if m \<in> fst ` set reqs then Some (Max {c. (m, c) \<in> set reqs}) else None)"
      using snoc.IH by auto
    let ?new = "store\<lparr>bs_specs := merge_spec m c (bs_specs store)\<rparr>"
    have reg: "registerSeries store m c = Inr ?new"
      using False by (auto simp: registerSeries_def req)
    have "window_of_minutes ?new k =
        (if k \<in> fst ` set (reqs @ [req]) then Some (Max {c. (k, c) \<in> set (reqs @ [req])}) else None)" for k
    proof (cases "k = m")
      case True
      have fin: "finite {c. (m, c) \<in> set reqs}"
        by (rule finite_subset [of _ "snd ` set reqs"]) force+
      have eq: "{c'. (m, c') \<in> set (reqs @ [req])} = insert c {c. (m, c) \<in> set reqs}"
        by (auto simp: req)
      have "m \<in> fst ` set reqs \<longleftrightarrow> {c. (m, c) \<in> set reqs} \<noteq> {}" by force
      with w [of m] fin show ?thesis
        unfolding True eq
        by (cases "m \<in> fst ` set reqs")
          (auto simp: window_of_minutes_def map_of_merge_spec req max.commute)
    next
      case False
      with w [of k] show ?thesis
        by (auto simp: window_of_minutes_def map_of_merge_spec req)
    qed
    with store reg registerSeries_ready [OF reg] False show ?thesis
      by (auto simp: res_fold_append req)
  qed
qed

theorem registration_keeps_largest_window_witness:
  "\<exists>store. res_fold (\<lambda>(m, c) store. registerSeries store m c) [(15, 11), (60, 20), (15, 30)] new_bar_store
     = Inr store \<and> window_of_minutes store 15 = Some 30"
proof -
  have "{c::int. c = 11 \<or> c = 30} = {11, 30}" by auto
  then show ?thesis
    using registration_keeps_largest_window [of "[(15, 11), (60, 20), (15, 30)]"] by auto
qed

subsection \<open>What a lookup returns\<close>

abbreviation of_symbol :: "symbol \<Rightarrow> price_data list \<Rightarrow> price_data list" where
  "of_symbol s ticks \<equiv> filter (\<lambda>tick. p_symbol tick = s) ticks"


abbreviation demo_store :: bar_store where
  "demo_store \<equiv> \<lparr>bs_specs = [\<lparr>s_minutes = 1, s_count = 1\<rparr>], bs_bySymbol = Map.empty,
     bs_rangeSpecs = [\<lparr>rs_atrTickWindow = 1, rs_atrPercent = 50, rs_count = 3\<rparr>],
     bs_rangeBySymbol = Map.empty\<rparr>"

abbreviation cold_ctx :: db_ctx where
  "cold_ctx \<equiv> \<lparr>ctx_getenv = (\<lambda>_. Some ''0''), ctx_queryOhlc = (\<lambda>_. Inl RuntimeError),
     ctx_executeQuery = (\<lambda>_. Inl RuntimeError)\<rparr>"

abbreviation gold_tick :: "int \<Rightarrow> int \<Rightarrow> price_data" where
  "gold_tick t p \<equiv> \<lparr>p_ask = p, p_bid = p, p_timestamp = t, p_symbol = ''XAUUSD''\<rparr>"

lemma demo_store_ready: "store_ready demo_store" "cold_start cold_ctx"
  by (simp_all add: store_ready_def series_ok_def spec_ok_def cold_start_def getOr_def)


text \<open>Likewise \<open>findRange\<close> returns, for a symbol that has ticked and a registered identity,
  the bars a range series of its own builds from that symbol's ticks alone; the count in the
  looked-up spec does not matter.\<close>

theorem store_findRange_is_symbol_series:
  assumes "store_ready store" "cold_start ctx"
    and "bs_bySymbol store = Map.empty" "bs_rangeBySymbol store = Map.empty"
    and "spec \<in> set (bs_rangeSpecs store)" "of_symbol s ticks \<noteq> []" "sameIdentity spec wanted"
  shows "\<exists>store' rs. res_fold (store_update ctx) ticks store = Inr store'
     \<and> new_range_series spec = Inr rs
     \<and> store_findRange store' s wanted = Some (r_bars (foldl applyTick rs (of_symbol s ticks)))"
proof -
  let ?id = "\<lambda>spec. (rs_atrTickWindow spec, rs_atrPercent spec)"
  obtain store' where fold: "res_fold (store_update ctx) ticks store = Inr store'"
    and specs: "bs_rangeSpecs store' = bs_rangeSpecs store"
    and own: "bs_rangeBySymbol store' s = Some (map (\<lambda>spec. range_state spec (of_symbol s ticks)) (bs_rangeSpecs store))"
    using store_feed_cold [OF assms(1-4), of ticks] assms(5,6) by (metis empty_iff empty_set)
  have dist: "distinct (map ?id (bs_rangeSpecs store))" and ok: "spec_ok spec"
    using assms(1,5) by (simp_all add: store_ready_def)
  have "(\<lambda>existing. sameIdentity existing wanted) = (\<lambda>existing. ?id existing = ?id spec)"
    using assms(7) by (auto simp: sameIdentity_def fun_eq_iff)
  with index_where_distinct [OF assms(5) dist]
  have "store_findRange store' s wanted = Some (r_bars (range_state spec (of_symbol s ticks)))"
    by (simp add: store_findRange_def specs own Let_def)
  then show ?thesis
    using fold new_range_series_fresh [OF ok] by (simp add: range_state_def)
qed

theorem store_findRange_is_symbol_series_witness:
  "\<exists>store'. res_fold (store_update cold_ctx) [ask_tick 0 9, gold_tick 1 500, ask_tick 2 5] demo_store = Inr store'
     \<and> store_findRange store' ''EURUSD'' \<lparr>rs_atrTickWindow = 1, rs_atrPercent = 50, rs_count = 77\<rparr>
       = Some (r_bars (foldl applyTick
           (fresh_series \<lparr>rs_atrTickWindow = 1, rs_atrPercent = 50, rs_count = 3\<rparr>)
           [ask_tick 0 9, ask_tick 2 5]))"
  using store_findRange_is_symbol_series [OF demo_store_ready, of
      "\<lparr>rs_atrTickWindow = 1, rs_atrPercent = 50, rs_count = 3\<rparr>" "''EURUSD''"
      "[ask_tick 0 9, gold_tick 1 500, ask_tick 2 5]" "\<lparr>rs_atrTickWindow = 1, rs_atrPercent = 50, rs_count = 77\<rparr>"]
    new_range_series_fresh [of "\<lparr>rs_atrTickWindow = 1, rs_atrPercent = 50, rs_count = 3\<rparr>"]
  by (simp add: sameIdentity_def spec_ok_def)

end
