(* ===== verification/Indicators.thy ===== *)
theory Indicators
  imports Trade
begin

section \<open>Integer indicators over bars\<close>

text \<open>
  \<open>source/shared/utilities/atr.cppm\<close>, \<open>ema.cppm\<close> and \<open>swingPivots.cppm\<close>: the average true
  range, the Q16 fixed-point exponential moving average and the fractal swing predicates.
  A bad period is the error \<open>InvalidArgument\<close>; a read outside the bars, which the source
  leaves to its callers to exclude, is \<open>UndefinedBehaviour\<close>. A right shift by 16 is
  division by \<open>65536\<close> rounding down, as C++ shifts negative values.
\<close>

subsection \<open>Average true range\<close>

definition true_range :: "ohlc_object \<Rightarrow> ohlc_object \<Rightarrow> int" where
  "true_range prev bar =
     (let prevClose = b_close prev;
          highLow = i64 (b_high bar - b_low bar);
          highGap = \<bar>i64 (b_high bar - prevClose)\<bar>;
          lowGap = \<bar>i64 (b_low bar - prevClose)\<bar>
      in max highLow (max highGap lowGap))"

fun atr_sum :: "ohlc_object list \<Rightarrow> int \<Rightarrow> nat list \<Rightarrow> int" where
  "atr_sum candles acc [] = acc"
| "atr_sum candles acc (i # is) =
     atr_sum candles (i64 (acc + true_range (candles ! (i - 1)) (candles ! i))) is"

definition atr_calculate :: "ohlc_object list \<Rightarrow> int \<Rightarrow> int result" where
  "atr_calculate candles period =
     (if period < 1 then Inl InvalidArgument
      else let n = nat period in
        if length candles < n + 1 then Inr 0
        else let total = atr_sum candles 0 [length candles - n ..< length candles]
             in Inr (i32 (cdiv (i64 (total + cdiv period 2)) period)))"

definition bar_bounded :: "ohlc_object \<Rightarrow> bool" where
  "bar_bounded bar \<longleftrightarrow> \<bar>b_high bar\<bar> \<le> 2 ^ 29 \<and> \<bar>b_low bar\<bar> \<le> 2 ^ 29 \<and> \<bar>b_close bar\<bar> \<le> 2 ^ 29"

lemma true_range_bounds:
  assumes "bar_bounded a" "bar_bounded b"
  shows "true_range a b = max (b_high b - b_low b)
           (max \<bar>b_high b - b_close a\<bar> \<bar>b_low b - b_close a\<bar>)"
    and "0 \<le> true_range a b" "true_range a b \<le> 2 ^ 30"
proof -
  have "in_i64 (b_high b - b_low b)" "in_i64 (b_high b - b_close a)" "in_i64 (b_low b - b_close a)"
    using assms by (auto simp: bar_bounded_def in_i64_def)
  then show eq: "true_range a b = max (b_high b - b_low b)
           (max \<bar>b_high b - b_close a\<bar> \<bar>b_low b - b_close a\<bar>)"
    by (simp add: true_range_def Let_def)
  show "0 \<le> true_range a b" unfolding eq by linarith
  show "true_range a b \<le> 2 ^ 30"
    unfolding eq using assms by (auto simp: bar_bounded_def)
qed

text \<open>The reference: the plain sum of the true ranges over the last \<open>n\<close> steps.\<close>

definition tr_sum :: "ohlc_object list \<Rightarrow> nat \<Rightarrow> int" where
  "tr_sum candles n =
     (\<Sum>i \<leftarrow> [length candles - n ..< length candles]. true_range (candles ! (i - 1)) (candles ! i))"

lemma atr_sum_exact:
  assumes "\<forall>bar \<in> set candles. bar_bounded bar" "\<forall>i \<in> set is. 0 < i \<and> i < length candles"
    and "0 \<le> s" "s + 2 ^ 30 * int (length is) \<le> 2 ^ 62"
  shows "atr_sum candles s is = s + (\<Sum>i \<leftarrow> is. true_range (candles ! (i - 1)) (candles ! i))
       \<and> 0 \<le> atr_sum candles s is \<and> atr_sum candles s is \<le> s + 2 ^ 30 * int (length is)"
  using assms(2-4)
proof (induction "is" arbitrary: s)
  case (Cons i "is")
  let ?tr = "true_range (candles ! (i - 1)) (candles ! i)"
  have "candles ! (i - 1) \<in> set candles" "candles ! i \<in> set candles"
    using Cons.prems by auto
  then have tr: "0 \<le> ?tr" "?tr \<le> 2 ^ 30" using assms(1) true_range_bounds by auto
  then have "in_i64 (s + ?tr)" using Cons.prems by (auto simp: in_i64_def)
  moreover have "s + ?tr + 2 ^ 30 * int (length is) \<le> 2 ^ 62"
    using tr Cons.prems by (simp add: algebra_simps)
  ultimately show ?case using Cons tr by fastforce
qed simp

text \<open>on bars with prices inside the width and a window of at most two million bars,
  the integer ATR is the average of the last \<open>period\<close> true ranges rounded to nearest:
  \<open>2 \<cdot> \<bar>period \<cdot> atr - sum\<bar> \<le> period\<close>; it reads only the last \<open>period + 1\<close> candles, and is
  0 while fewer are available.\<close>

theorem atr_is_rounded_mean:
  assumes "\<forall>bar \<in> set candles. bar_bounded bar" "1 \<le> period" "period \<le> 2000000"
  shows "(length candles < nat period + 1 \<longrightarrow> atr_calculate candles period = Inr 0)
       \<and> (nat period + 1 \<le> length candles \<longrightarrow>
           (\<exists>a. atr_calculate candles period = Inr a \<and> 0 \<le> a
              \<and> 2 * \<bar>period * a - tr_sum candles (nat period)\<bar> \<le> period))"
proof (cases "length candles < nat period + 1")
  case True
  then show ?thesis using assms(2) by (simp add: atr_calculate_def)
next
  case False
  let ?is = "[length candles - nat period ..< length candles]"
  let ?sum = "atr_sum candles 0 ?is"
  have len: "int (length ?is) = period" using False assms(2) by simp
  have idx: "\<forall>i \<in> set ?is. 0 < i \<and> i < length candles" using False by auto
  have "2 ^ 30 * period \<le> 2 ^ 30 * 2000000" using assms(3) by simp
  then have "0 + 2 ^ 30 * int (length ?is) \<le> 2 ^ 62" unfolding len by simp
  from atr_sum_exact [OF assms(1) idx order_refl this]
  have sum: "?sum = tr_sum candles (nat period)" "0 \<le> ?sum" "?sum \<le> 2 ^ 30 * period"
    unfolding len by (auto simp: tr_sum_def)
  have half: "cdiv period 2 = period div 2" using assms(2) by simp
  have "in_i64 (?sum + period div 2)"
    using sum(2,3) assms(2,3) by (auto simp: in_i64_def)
  then have w: "i64 (?sum + cdiv period 2) = ?sum + period div 2" by (simp add: half)
  let ?a = "(?sum + period div 2) div period"
  have a0: "0 \<le> ?a" using sum(2) assms(2) by (simp add: pos_imp_zdiv_nonneg_iff)
  have "?a \<le> (2 ^ 30 * period + period) div period"
    using sum(3) assms(2) by (intro zdiv_mono1) auto
  also have "\<dots> = 2 ^ 30 + 1" using assms(2) by simp
  finally have "in_i32 ?a" using a0 by (simp add: in_i32_def)
  moreover have "cdiv (?sum + period div 2) period = ?a"
    using sum(2) assms(2) by simp
  ultimately have calc: "atr_calculate candles period = Inr ?a"
    using False assms(2) w by (simp add: atr_calculate_def Let_def)
  have "2 * \<bar>period * ?a - ?sum\<bar> \<le> period"
    using assms(2) by (intro round_div_nearest) simp
  with calc a0 sum(1) False show ?thesis by auto
qed

theorem atr_is_rounded_mean_witness:
  "\<exists>a. atr_calculate [\<lparr>b_date = 0, b_open = 5, b_close = 7, b_high = 9, b_low = 4, b_complete = True\<rparr>,
      \<lparr>b_date = 1, b_open = 7, b_close = 8, b_high = 12, b_low = 6, b_complete = True\<rparr>] 1 = Inr a
     \<and> 2 * \<bar>1 * a - 6\<bar> \<le> 1"
proof -
  let ?cs = "[\<lparr>b_date = 0, b_open = 5, b_close = 7, b_high = 9, b_low = 4, b_complete = True\<rparr>,
      \<lparr>b_date = 1, b_open = 7, b_close = 8, b_high = 12, b_low = 6, b_complete = True\<rparr>]"
  have "tr_sum ?cs 1 = 6" by code_simp
  then show ?thesis
    using atr_is_rounded_mean [of ?cs 1] by (auto simp: bar_bounded_def)
qed

subsection \<open>Exponential moving average\<close>

definition toQ :: "int \<Rightarrow> int" where
  "toQ points = points * 65536"

definition roundToPoints :: "int \<Rightarrow> int" where
  "roundToPoints q = i32 (i64 (q + 32768) div 65536)"

fun ema_loop :: "int \<Rightarrow> int \<Rightarrow> int list \<Rightarrow> int list" where
  "ema_loop alphaQ emaQ [] = []"
| "ema_loop alphaQ emaQ (price # prices) =
     (let deltaQ = i64 (toQ price - emaQ);
          emaQ = i64 (emaQ + i64 (alphaQ * deltaQ + 32768) div 65536)
      in roundToPoints emaQ # ema_loop alphaQ emaQ prices)"

definition ema_seed :: "int list \<Rightarrow> int \<Rightarrow> int" where
  "ema_seed prices period =
     cdiv (i64 (i64 (foldl (\<lambda>s p. i64 (s + p)) 0 prices * 65536) + cdiv period 2)) period"

definition ema_alpha :: "int \<Rightarrow> int" where
  "ema_alpha period = cdiv (2 * 65536 + cdiv (i32 (period + 1)) 2) (i32 (period + 1))"

definition ema_calculate :: "int list \<Rightarrow> int \<Rightarrow> int list result" where
  "ema_calculate prices period =
     (if period < 1 then Inl InvalidArgument
      else let n = nat period in
        if length prices < n then Inr (replicate (length prices) 0)
        else let emaQ = ema_seed (take n prices) period
             in Inr (replicate (n - 1) 0 @ [roundToPoints emaQ]
                     @ ema_loop (ema_alpha period) emaQ (drop n prices)))"

lemma length_ema_loop [simp]: "length (ema_loop a q ps) = length ps"
  by (induction ps arbitrary: q) (simp_all add: Let_def)

lemma ema_alpha_bounds:
  assumes "1 \<le> period" "period \<le> 2 ^ 30"
  shows "0 \<le> ema_alpha period" "ema_alpha period \<le> 65536"
proof -
  have "in_i32 (period + 1)" using assms by (simp add: in_i32_def)
  then have eq: "ema_alpha period = (131072 + (period + 1) div 2) div (period + 1)"
    using assms by (simp add: ema_alpha_def)
  show "0 \<le> ema_alpha period"
    unfolding eq using assms by (simp add: pos_imp_zdiv_nonneg_iff)
  have "(period + 1) div 2 \<le> period" using assms(1) by presburger
  then have "131072 + (period + 1) div 2 \<le> period + 65536 * (period + 1)" using assms(1) by (simp add: algebra_simps)
  then have "(131072 + (period + 1) div 2) div (period + 1)
      \<le> (period + 65536 * (period + 1)) div (period + 1)"
    using assms by (intro zdiv_mono1) auto
  also have "\<dots> = 65536" using assms by (simp only: div_mult_self1) simp
  finally show "ema_alpha period \<le> 65536" unfolding eq .
qed

text \<open>The recurrence moves towards the price and never past it.\<close>

definition q_in :: "int \<Rightarrow> int \<Rightarrow> int \<Rightarrow> bool" where
  "q_in lo hi q \<longleftrightarrow> toQ lo \<le> q \<and> q \<le> toQ hi"

lemma ema_increment:
  fixes a d :: int
  assumes "0 \<le> a" "a \<le> 65536"
  shows "0 \<le> d \<Longrightarrow> 0 \<le> (a * d + 32768) div 65536 \<and> (a * d + 32768) div 65536 \<le> d"
    and "d \<le> 0 \<Longrightarrow> d \<le> (a * d + 32768) div 65536 \<and> (a * d + 32768) div 65536 \<le> 0"
proof -
  assume d: "0 \<le> d"
  have "0 \<le> a * d" "a * d \<le> 65536 * d" using assms d by (auto intro: mult_right_mono)
  then show "0 \<le> (a * d + 32768) div 65536 \<and> (a * d + 32768) div 65536 \<le> d" by linarith
next
  assume d: "d \<le> 0"
  have "a * d \<le> 0" "65536 * d \<le> a * d"
    using assms d by (auto intro: mult_nonneg_nonpos mult_right_mono_neg)
  then show "d \<le> (a * d + 32768) div 65536 \<and> (a * d + 32768) div 65536 \<le> 0" by linarith
qed

lemma ema_product_in_i64:
  fixes a d :: int
  assumes "0 \<le> a" "a \<le> 65536" "\<bar>d\<bar> \<le> 2 ^ 40"
  shows "in_i64 (a * d + 32768)"
proof -
  have "\<bar>a\<bar> * \<bar>d\<bar> \<le> 65536 * 2 ^ 40" using assms by (intro mult_mono) auto
  then have "\<bar>a * d\<bar> \<le> 2 ^ 56" by (simp add: abs_mult)
  then show ?thesis by (simp add: in_i64_def abs_le_iff)
qed

lemma ema_step_in_range:
  assumes "0 \<le> a" "a \<le> 65536" "q_in lo hi q" "lo \<le> p" "p \<le> hi" "0 \<le> lo" "hi \<le> 2 ^ 23"
  shows "q_in lo hi (i64 (q + i64 (a * i64 (toQ p - q) + 32768) div 65536))"
proof -
  have q: "0 \<le> q" "q \<le> 2 ^ 39" "0 \<le> toQ p" "toQ p \<le> 2 ^ 39"
    using assms by (auto simp: q_in_def toQ_def)
  let ?d = "toQ p - q"
  have w: "i64 ?d = ?d" using q by (simp add: in_i64_def)
  have w2: "i64 (a * ?d + 32768) = a * ?d + 32768"
    using q assms(1,2) by (intro i64_id ema_product_in_i64) auto
  have inc: "q_in lo hi (q + (a * ?d + 32768) div 65536)"
    using ema_increment [OF assms(1,2), of ?d] assms(3-5)
    by (cases "0 \<le> ?d") (auto simp: q_in_def toQ_def)
  then have "in_i64 (q + (a * ?d + 32768) div 65536)"
    using assms(6,7) by (auto simp: q_in_def toQ_def in_i64_def)
  with inc w w2 show ?thesis by simp
qed

lemma roundToPoints_in_range:
  assumes "q_in lo hi q" "0 \<le> lo" "hi \<le> 2 ^ 23"
  shows "lo \<le> roundToPoints q" "roundToPoints q \<le> hi"
proof -
  have q: "65536 * lo \<le> q" "q \<le> 65536 * hi" using assms(1) by (auto simp: q_in_def toQ_def)
  then have "in_i64 (q + 32768)" using assms by (auto simp: in_i64_def)
  moreover have r: "lo \<le> (q + 32768) div 65536" "(q + 32768) div 65536 \<le> hi"
    using q by linarith+
  moreover have "in_i32 ((q + 32768) div 65536)"
    using r assms(2,3) by (simp add: in_i32_def)
  ultimately show "lo \<le> roundToPoints q" "roundToPoints q \<le> hi"
    by (simp_all add: roundToPoints_def)
qed

lemma ema_loop_in_range:
  assumes "0 \<le> a" "a \<le> 65536" "0 \<le> lo" "hi \<le> 2 ^ 23"
  shows "q_in lo hi q \<Longrightarrow> \<forall>p \<in> set ps. lo \<le> p \<and> p \<le> hi \<Longrightarrow>
         \<forall>e \<in> set (ema_loop a q ps). lo \<le> e \<and> e \<le> hi"
proof (induction ps arbitrary: q)
  case (Cons p ps)
  let ?q = "i64 (q + i64 (a * i64 (toQ p - q) + 32768) div 65536)"
  have "q_in lo hi ?q" using Cons.prems assms by (intro ema_step_in_range) auto
  with Cons show ?case using roundToPoints_in_range [of lo hi ?q] assms by (simp add: Let_def)
qed simp

lemma foldl_sum_exact:
  assumes "\<forall>p \<in> set ps. 0 \<le> p \<and> p \<le> 2 ^ 23" "0 \<le> s" "s + 2 ^ 23 * int (length ps) \<le> 2 ^ 46"
  shows "foldl (\<lambda>s p. i64 (s + p)) s ps = s + sum_list ps"
  using assms
proof (induction ps arbitrary: s)
  case (Cons p ps)
  then have "in_i64 (s + p)" by (auto simp: in_i64_def)
  with Cons show ?case by (auto simp: algebra_simps)
qed simp

lemma sum_list_between:
  fixes ps :: "int list"
  assumes "\<forall>p \<in> set ps. lo \<le> p \<and> p \<le> hi"
  shows "int (length ps) * lo \<le> sum_list ps" "sum_list ps \<le> int (length ps) * hi"
  using assms by (induction ps) (auto simp: algebra_simps)

lemma ema_seed_in_range:
  assumes "\<forall>p \<in> set ps. lo \<le> p \<and> p \<le> hi" "0 \<le> lo" "hi \<le> 2 ^ 23"
    and "period = int (length ps)" "1 \<le> period" "period \<le> 2 ^ 23"
  shows "q_in lo hi (ema_seed ps period)"
proof -
  have b: "\<forall>p \<in> set ps. 0 \<le> p \<and> p \<le> 2 ^ 23" using assms(1-3) by force
  have fold: "foldl (\<lambda>s p. i64 (s + p)) 0 ps = sum_list ps"
    using b assms(4,6) foldl_sum_exact [OF b, of 0] by simp
  have s: "period * lo \<le> sum_list ps" "sum_list ps \<le> period * hi"
    using sum_list_between [OF assms(1)] assms(4) by auto
  obtain p where "p \<in> set ps" using assms(4,5) by (cases ps) auto
  then have "0 \<le> hi" using assms(1,2) by (meson order_trans)
  then have "period * hi \<le> 2 ^ 23 * 2 ^ 23"
    using assms(3,5,6) by (intro mult_mono) auto
  moreover have "0 \<le> period * lo" using assms(2,5) by simp
  ultimately have ph: "period * hi \<le> 2 ^ 23 * 2 ^ 23" "0 \<le> period * lo" .
  then have w: "in_i64 (sum_list ps * 65536)" "in_i64 (sum_list ps * 65536 + period div 2)"
    using s assms(5,6) by (auto simp: in_i64_def)
  have seed: "ema_seed ps period = (sum_list ps * 65536 + period div 2) div period"
    using s ph assms(5) w by (simp add: ema_seed_def fold)
  have "(period * (lo * 65536)) div period \<le> (sum_list ps * 65536 + period div 2) div period"
    using s assms(5) by (intro zdiv_mono1) auto
  moreover have "(sum_list ps * 65536 + period div 2) div period
      \<le> (period div 2 + period * (hi * 65536)) div period"
    using s assms(5) by (intro zdiv_mono1) auto
  moreover have "(period div 2 + period * (hi * 65536)) div period = hi * 65536"
    using assms(5) by (simp only: div_mult_self2) simp
  ultimately show ?thesis using assms(5) by (simp add: seed q_in_def toQ_def)
qed

text \<open>For prices between \<open>lo\<close> and \<open>hi\<close> inside the engine's range, the EMA has one
  value per price: zeros before the period is reached, and from then on every emitted
  value lies between \<open>lo\<close> and \<open>hi\<close>. The Q16 recurrence never overshoots, and a constant
  series is reproduced exactly.\<close>

theorem ema_within_price_range:
  assumes "\<forall>p \<in> set prices. lo \<le> p \<and> p \<le> hi" "0 \<le> lo" "hi \<le> 2 ^ 23"
    and "1 \<le> period" "period \<le> 2 ^ 23"
  shows "\<exists>out. ema_calculate prices period = Inr out \<and> length out = length prices
           \<and> (\<forall>i < length out. if int i < period - 1 \<or> int (length prices) < period
                                then out ! i = 0 else lo \<le> out ! i \<and> out ! i \<le> hi)"
proof (cases "length prices < nat period")
  case True
  then show ?thesis using assms(4) by (auto simp: ema_calculate_def)
next
  case False
  let ?n = "nat period"
  let ?q = "ema_seed (take ?n prices) period"
  let ?tail = "[roundToPoints ?q] @ ema_loop (ema_alpha period) ?q (drop ?n prices)"
  have q: "q_in lo hi ?q"
    using False assms by (intro ema_seed_in_range) (auto dest: in_set_takeD)
  have "\<forall>e \<in> set (ema_loop (ema_alpha period) ?q (drop ?n prices)). lo \<le> e \<and> e \<le> hi"
    using assms ema_alpha_bounds [of period] q
    by (intro ema_loop_in_range) (auto dest: in_set_dropD)
  with roundToPoints_in_range [OF q assms(2,3)]
  have tail: "\<forall>e \<in> set ?tail. lo \<le> e \<and> e \<le> hi" by simp
  have len: "length (replicate (?n - 1) 0 @ ?tail) = length prices"
    using False assms(4) by (simp add: Suc_diff_le [symmetric])
  have "if int i < period - 1 \<or> int (length prices) < period
        then (replicate (?n - 1) 0 @ ?tail) ! i = 0
        else lo \<le> (replicate (?n - 1) 0 @ ?tail) ! i \<and> (replicate (?n - 1) 0 @ ?tail) ! i \<le> hi"
    if "i < length prices" for i
  proof (cases "i < ?n - 1")
    case True
    then have "int i < period - 1" by linarith
    with True show ?thesis by (simp add: nth_append)
  next
    case i: False
    have "length (replicate (?n - 1) (0::int)) + length ?tail = length prices"
      using len by (simp only: length_append)
    then have "i - (?n - 1) < length ?tail" using i that by (simp only: length_replicate) linarith
    then have "?tail ! (i - (?n - 1)) \<in> set ?tail" by (rule nth_mem)
    moreover have "(replicate (?n - 1) 0 @ ?tail) ! i = ?tail ! (i - (?n - 1))"
      using i by (simp only: nth_append length_replicate if_False)
    moreover have "\<not> (int i < period - 1 \<or> int (length prices) < period)"
      using i False assms(4) by linarith
    ultimately show ?thesis using tail by (simp only: if_False)
  qed
  then have range: "\<forall>i < length (replicate (?n - 1) 0 @ ?tail).
        if int i < period - 1 \<or> int (length prices) < period
        then (replicate (?n - 1) 0 @ ?tail) ! i = 0
        else lo \<le> (replicate (?n - 1) 0 @ ?tail) ! i \<and> (replicate (?n - 1) 0 @ ?tail) ! i \<le> hi"
    unfolding len by blast
  have "ema_calculate prices period = Inr (replicate (?n - 1) 0 @ ?tail)"
    using False assms(4) by (simp add: ema_calculate_def Let_def)
  with len range show ?thesis by blast
qed

theorem ema_within_price_range_witness:
  "\<exists>out. ema_calculate [7, 7, 9] 2 = Inr out \<and> length out = 3 \<and> out ! 0 = 0
        \<and> 7 \<le> out ! 2 \<and> out ! 2 \<le> 9"
proof -
  from ema_within_price_range [of "[7, 7, 9]" 7 9 2] obtain out
    where o: "ema_calculate [7, 7, 9] 2 = Inr out" "length out = 3"
      and r: "\<And>i. i < 3 \<Longrightarrow> if int i < 1 then out ! i = 0 else 7 \<le> out ! i \<and> out ! i \<le> 9"
    by auto
  from r [of 0] r [of 2] o show ?thesis by simp
qed

subsection \<open>Swing pivots\<close>

text \<open>The wing loop of \<open>isSwingHighAt\<close>: wings \<open>wing .. pivotBars\<close> are still to be checked.\<close>

function swing_high_loop :: "ohlc_object list \<Rightarrow> nat \<Rightarrow> nat \<Rightarrow> nat \<Rightarrow> bool result" where
  "swing_high_loop bars index wing pivotBars =
     (if wing \<le> pivotBars then
        if index < wing \<or> length bars \<le> index + wing then Inl UndefinedBehaviour
        else if b_high (bars ! (index - wing)) \<ge> b_high (bars ! index)
              \<or> b_high (bars ! (index + wing)) \<ge> b_high (bars ! index)
        then Inr False
        else swing_high_loop bars index (wing + 1) pivotBars
      else Inr True)"
  by pat_completeness auto
termination
  by (relation "measure (\<lambda>(bars, index, wing, pivotBars). Suc pivotBars - wing)") auto

function swing_low_loop :: "ohlc_object list \<Rightarrow> nat \<Rightarrow> nat \<Rightarrow> nat \<Rightarrow> bool result" where
  "swing_low_loop bars index wing pivotBars =
     (if wing \<le> pivotBars then
        if index < wing \<or> length bars \<le> index + wing then Inl UndefinedBehaviour
        else if b_low (bars ! (index - wing)) \<le> b_low (bars ! index)
              \<or> b_low (bars ! (index + wing)) \<le> b_low (bars ! index)
        then Inr False
        else swing_low_loop bars index (wing + 1) pivotBars
      else Inr True)"
  by pat_completeness auto
termination
  by (relation "measure (\<lambda>(bars, index, wing, pivotBars). Suc pivotBars - wing)") auto

declare swing_high_loop.simps [simp del] swing_low_loop.simps [simp del]

definition isSwingHighAt :: "ohlc_object list \<Rightarrow> nat \<Rightarrow> int \<Rightarrow> bool result" where
  "isSwingHighAt bars index pivotBars =
     (if pivotBars < 1 then Inl InvalidArgument
      else if length bars \<le> index then Inl UndefinedBehaviour
      else swing_high_loop bars index 1 (nat pivotBars))"

definition isSwingLowAt :: "ohlc_object list \<Rightarrow> nat \<Rightarrow> int \<Rightarrow> bool result" where
  "isSwingLowAt bars index pivotBars =
     (if pivotBars < 1 then Inl InvalidArgument
      else if length bars \<le> index then Inl UndefinedBehaviour
      else swing_low_loop bars index 1 (nat pivotBars))"

lemma swing_high_loop_iff:
  assumes "pivotBars \<le> index" "index + pivotBars < length bars"
  shows "swing_high_loop bars index wing pivotBars =
     Inr (\<forall>w \<in> {wing..pivotBars}. b_high (bars ! (index - w)) < b_high (bars ! index)
              \<and> b_high (bars ! (index + w)) < b_high (bars ! index))"
  using assms
proof (induction bars index wing pivotBars rule: swing_high_loop.induct)
  case (1 bars index wing pivotBars)
  then show ?case
    by (subst swing_high_loop.simps) (auto simp: atLeastAtMost_insertL [symmetric] not_le)
qed

lemma swing_low_loop_iff:
  assumes "pivotBars \<le> index" "index + pivotBars < length bars"
  shows "swing_low_loop bars index wing pivotBars =
     Inr (\<forall>w \<in> {wing..pivotBars}. b_low (bars ! index) < b_low (bars ! (index - w))
              \<and> b_low (bars ! index) < b_low (bars ! (index + w)))"
  using assms
proof (induction bars index wing pivotBars rule: swing_low_loop.induct)
  case (1 bars index wing pivotBars)
  then show ?case
    by (subst swing_low_loop.simps) (auto simp: atLeastAtMost_insertL [symmetric] not_le)
qed

text \<open>under the callers' window check the swing predicates terminate without an
  out-of-range read and say exactly that the bar's high (low) strictly exceeds (undercuts)
  every bar of both wings; hence two swing highs, or two swing lows, are always more than
  \<open>pivotBars\<close> bars apart.\<close>

theorem swing_pivots_strict_and_separated:
  assumes "1 \<le> k" "nat k \<le> i" "i + nat k < length bars" "nat k \<le> j" "j + nat k < length bars"
  shows "isSwingHighAt bars i k =
           Inr (\<forall>w \<in> {1..nat k}. b_high (bars ! (i - w)) < b_high (bars ! i)
                                 \<and> b_high (bars ! (i + w)) < b_high (bars ! i))
       \<and> isSwingLowAt bars i k =
           Inr (\<forall>w \<in> {1..nat k}. b_low (bars ! i) < b_low (bars ! (i - w))
                                 \<and> b_low (bars ! i) < b_low (bars ! (i + w)))
       \<and> (isSwingHighAt bars i k = Inr True \<and> isSwingHighAt bars j k = Inr True \<and> i < j
            \<longrightarrow> i + nat k < j)
       \<and> (isSwingLowAt bars i k = Inr True \<and> isSwingLowAt bars j k = Inr True \<and> i < j
            \<longrightarrow> i + nat k < j)"
proof -
  have hi: "isSwingHighAt bars m k =
      Inr (\<forall>w \<in> {1..nat k}. b_high (bars ! (m - w)) < b_high (bars ! m)
                            \<and> b_high (bars ! (m + w)) < b_high (bars ! m))"
    and lo: "isSwingLowAt bars m k =
      Inr (\<forall>w \<in> {1..nat k}. b_low (bars ! m) < b_low (bars ! (m - w))
                            \<and> b_low (bars ! m) < b_low (bars ! (m + w)))"
    if "nat k \<le> m" "m + nat k < length bars" for m
    using that assms(1)
    by (simp_all add: isSwingHighAt_def isSwingLowAt_def swing_high_loop_iff swing_low_loop_iff)
  have clash: False
    if "\<forall>w \<in> {1..nat k}. f (i + w) < f i" "\<forall>w \<in> {1..nat k}. f (j - w) < f j" "i < j" "j \<le> i + nat k"
    for f :: "nat \<Rightarrow> int"
  proof -
    have "j - i \<in> {1..nat k}" using that by auto
    with that(1,2) have "f (i + (j - i)) < f i" "f (j - (j - i)) < f j" by blast+
    with that(3) show False by simp
  qed
  have "i + nat k < j" if "isSwingHighAt bars i k = Inr True" "isSwingHighAt bars j k = Inr True" "i < j"
  proof (rule ccontr)
    assume "\<not> i + nat k < j"
    then show False
      using clash [of "\<lambda>m. b_high (bars ! m)"] that hi [OF assms(2,3)] hi [OF assms(4,5)] by auto
  qed
  moreover have "i + nat k < j" if "isSwingLowAt bars i k = Inr True" "isSwingLowAt bars j k = Inr True" "i < j"
  proof (rule ccontr)
    assume "\<not> i + nat k < j"
    then show False
      using clash [of "\<lambda>m. - b_low (bars ! m)"] that lo [OF assms(2,3)] lo [OF assms(4,5)] by auto
  qed
  ultimately show ?thesis using hi [OF assms(2,3)] lo [OF assms(2,3)] by blast
qed

theorem swing_pivots_strict_and_separated_witness:
  "isSwingHighAt (map (\<lambda>h. \<lparr>b_date = 0, b_open = h, b_close = h, b_high = h, b_low = h,
      b_complete = True\<rparr>) [1, 5, 2, 1, 6, 3]) 1 1 = Inr True"
proof -
  let ?bars = "map (\<lambda>h::int. \<lparr>b_date = 0, b_open = h, b_close = h, b_high = h, b_low = h,
      b_complete = True\<rparr>) [1, 5, 2, 1, 6, 3]"
  show ?thesis
    using swing_pivots_strict_and_separated [of 1 1 ?bars 4] by (simp add: numeral_nat)
qed

end
