(* ===== verification/Config.thy ===== *)
theory Config
  imports Prelude Complex_Main
begin

section \<open>Trading definitions\<close>

text \<open>
  The structs of \<open>source/shared/tradingDefinitions\<close>: what a strategy is configured with
  (\<open>strategyConfig.hpp\<close> and \<open>variables/*.hpp\<close>) and what a run is configured with
  (\<open>config/runConfiguration.hpp\<close>). \<open>boost::decimal::decimal64_t\<close> is a library type: it is
  a type parameter, and the operations the code uses on it are collected in \<open>decimal_ops\<close>.
\<close>

record trading_variables =
  tv_STRATEGY :: string
  tv_STOP_DISTANCE_IN_ATR :: int
  tv_LIMIT_DISTANCE_IN_ATR :: int
  tv_TRADING_SIZE :: int

record ohlc_variables =
  ov_OHLC_COUNT :: int
  ov_OHLC_MINUTES :: int

record range_bar_variables =
  rv_RANGE_ATR_TICK_WINDOW :: int
  rv_RANGE_ATR_PERCENT :: int
  rv_RANGE_COUNT :: int

record ohlc_rsi_variables =
  rsi_RSI_LONG :: int
  rsi_RSI_SHORT :: int

record ohlc_breakout_variables =
  ob_BUFFER_PIPS :: int
  ob_MAX_TRADE_DURATION_MINUTES :: int

record fvg_strategy_variables =
  fv_LOOKBACK_BARS :: int
  fv_MIN_GAP_PIPS :: int
  fv_HTF_SMA_PERIOD :: int
  fv_MIN_GAP_AGE_BARS :: int
  fv_MAX_TRADE_DURATION_MINUTES :: int

record keltner_fade_variables =
  kf_BAND_SMA_PERIOD :: int
  kf_BAND_ATR_MULT_TENTHS :: int
  kf_MAX_TRADE_DURATION_MINUTES :: int

record session_range_breakout_variables =
  sr_BUFFER_PIPS :: int
  sr_ENTRY_WINDOW_MINUTES :: int
  sr_MAX_TRADE_DURATION_MINUTES :: int

record squeeze_breakout_variables =
  sq_NR_LOOKBACK :: int
  sq_VALID_BARS :: int
  sq_BUFFER_PIPS :: int
  sq_MAX_TRADE_DURATION_MINUTES :: int

record ny_open_range_breakout_variables =
  ny_RANGE_HOURS :: int
  ny_BUFFER_PIPS :: int
  ny_ENTRY_WINDOW_MINUTES :: int
  ny_MAX_TRADE_DURATION_MINUTES :: int

record liquidity_sweep_reversal_variables =
  ls_PIVOT_BARS :: int
  ls_LOOKBACK_BARS :: int
  ls_MIN_SWEEP_PIPS :: int
  ls_DISPLACEMENT_ATR_TENTHS :: int
  ls_VALID_BARS :: int
  ls_MAX_TRADE_DURATION_MINUTES :: int

record range_velocity_variables =
  ve_RUN_BARS :: int
  ve_SPEED_LOOKBACK_BARS :: int
  ve_SPEED_RATIO_PERCENT :: int
  ve_EXIT_RUN_BARS :: int
  ve_MAX_TRADE_DURATION_MINUTES :: int

record strategy_variables =
  sv_OHLC_RSI_VARIABLES :: "ohlc_rsi_variables option"
  sv_OHLC_BREAKOUT_VARIABLES :: "ohlc_breakout_variables option"
  sv_FVG_STRATEGY_VARIABLES :: "fvg_strategy_variables option"
  sv_KELTNER_FADE_VARIABLES :: "keltner_fade_variables option"
  sv_SESSION_RANGE_BREAKOUT_VARIABLES :: "session_range_breakout_variables option"
  sv_SQUEEZE_BREAKOUT_VARIABLES :: "squeeze_breakout_variables option"
  sv_NY_OPEN_RANGE_BREAKOUT_VARIABLES :: "ny_open_range_breakout_variables option"
  sv_LIQUIDITY_SWEEP_REVERSAL_VARIABLES :: "liquidity_sweep_reversal_variables option"
  sv_RANGE_VELOCITY_VARIABLES :: "range_velocity_variables option"

record strategy_config =
  sc_UUID :: string
  sc_TRADING_VARIABLES :: trading_variables
  sc_OHLC_VARIABLES :: "ohlc_variables list"
  sc_RANGE_VARIABLES :: "range_bar_variables list"
  sc_STRATEGY_VARIABLES :: strategy_variables

record 'd run_configuration =
  rc_RUN_ID :: string
  rc_SYMBOLS :: string
  rc_BATCH :: string
  rc_EXECUTION_TS :: string
  rc_LAST_MONTHS :: int
  rc_OFFSET_MONTHS :: int
  rc_STARTING_BALANCE :: 'd
  rc_MAX_LOSS_PERCENT :: 'd
  rc_MAX_OPEN_TRADES :: int
  rc_MAX_TRADES_PER_MINUTE :: int
  rc_REPORT_FAILURES :: bool
  rc_PEAK_HOURS_ONLY :: bool
  rc_ENTRY_SLIPPAGE_TENTH_PIPS :: int

text \<open>The operations of \<open>decimal64_t\<close> the program uses: conversion from and (truncating) to
  64-bit integers, arithmetic and comparison.\<close>

record 'd decimal_ops =
  d_of_int :: "int \<Rightarrow> 'd"
  d_to_int64 :: "'d \<Rightarrow> int"
  d_add :: "'d \<Rightarrow> 'd \<Rightarrow> 'd"
  d_sub :: "'d \<Rightarrow> 'd \<Rightarrow> 'd"
  d_mult :: "'d \<Rightarrow> 'd \<Rightarrow> 'd"
  d_div :: "'d \<Rightarrow> 'd \<Rightarrow> 'd"
  d_less :: "'d \<Rightarrow> 'd \<Rightarrow> bool"
  d_leq :: "'d \<Rightarrow> 'd \<Rightarrow> bool"

text \<open>The operations on doubles the program uses, with the conversions from and to decimals;
  \<open>f_lit n d\<close> is the double nearest to \<open>n/d\<close>.\<close>

record ('d, 'f) float_ops =
  f_of_dec :: "'d \<Rightarrow> 'f"
  f_to_dec :: "'f \<Rightarrow> 'd"
  f_lit :: "int \<Rightarrow> int \<Rightarrow> 'f"
  f_add :: "'f \<Rightarrow> 'f \<Rightarrow> 'f"
  f_sub :: "'f \<Rightarrow> 'f \<Rightarrow> 'f"
  f_mult :: "'f \<Rightarrow> 'f \<Rightarrow> 'f"
  f_div :: "'f \<Rightarrow> 'f \<Rightarrow> 'f"
  f_sqrt :: "'f \<Rightarrow> 'f"
  f_abs :: "'f \<Rightarrow> 'f"
  f_less :: "'f \<Rightarrow> 'f \<Rightarrow> bool"
  f_leq :: "'f \<Rightarrow> 'f \<Rightarrow> bool"
  f_eq :: "'f \<Rightarrow> 'f \<Rightarrow> bool"
  f_isfinite :: "'f \<Rightarrow> bool"

text \<open>The exact instances: real arithmetic for both.\<close>

definition real_dec :: "real decimal_ops" where
  "real_dec = \<lparr>d_of_int = real_of_int, d_to_int64 = (\<lambda>x. i64 (if 0 \<le> x then \<lfloor>x\<rfloor> else \<lceil>x\<rceil>)),
     d_add = (+), d_sub = (-), d_mult = (*), d_div = (/), d_less = (<), d_leq = (\<le>)\<rparr>"

definition real_float :: "(real, real) float_ops" where
  "real_float = \<lparr>f_of_dec = id, f_to_dec = id, f_lit = (\<lambda>n d. real_of_int n / real_of_int d),
     f_add = (+), f_sub = (-), f_mult = (*), f_div = (/), f_sqrt = sqrt, f_abs = abs,
     f_less = (<), f_leq = (\<le>), f_eq = (=), f_isfinite = (\<lambda>_. True)\<rparr>"

end
