(* ===== verification/EntryConditions.thy ===== *)
theory EntryConditions
  imports BarStore Indicators Config
begin

section \<open>The ATR entry gate\<close>

text \<open>
  \<open>source/strategies/conditions/entryConditions.cppm\<close>: the gate that stands before every
  entry of the backtest loop and of the live runner. It reads the gate series' ATR, refuses
  a spread above 30% of it and a volatility below the pip floors, and turns the ATR
  multipliers into clamped pip distances. \<open>None\<close> is \<open>std::nullopt\<close>: the entry is skipped.
\<close>

definition kAtrPeriod :: int where "kAtrPeriod = 10"
definition kFallbackBarMinutes :: int where "kFallbackBarMinutes = 15"
definition kMaxSpreadNum :: int where "kMaxSpreadNum = 3"
definition kMaxSpreadDen :: int where "kMaxSpreadDen = 10"
definition kMinStopPips :: int where "kMinStopPips = 10"
definition kMaxStopPips :: int where "kMaxStopPips = 80"
definition kMinLimitPips :: int where "kMinLimitPips = 3"
definition kMaxLimitPips :: int where "kMaxLimitPips = 300"

lemmas gate_constants = kAtrPeriod_def kFallbackBarMinutes_def kMaxSpreadNum_def kMaxSpreadDen_def
  kMinStopPips_def kMaxStopPips_def kMinLimitPips_def kMaxLimitPips_def

record distances =
  stopPips :: int
  limitPips :: int

definition gateSeriesFor :: "strategy_config \<Rightarrow> series_spec" where
  "gateSeriesFor config =
     (case sc_OHLC_VARIABLES config of
        [] \<Rightarrow> \<lparr>s_minutes = kFallbackBarMinutes, s_count = kAtrPeriod + 1\<rparr>
      | primary # _ \<Rightarrow>
          if ov_OHLC_MINUTES primary \<ge> 1
          then \<lparr>s_minutes = ov_OHLC_MINUTES primary,
                s_count = max (ov_OHLC_COUNT primary) (kAtrPeriod + 1)\<rparr>
          else \<lparr>s_minutes = kFallbackBarMinutes, s_count = kAtrPeriod + 1\<rparr>)"

definition clamp :: "int \<Rightarrow> int \<Rightarrow> int \<Rightarrow> int" where
  "clamp x lo hi = (if x < lo then lo else if hi < x then hi else x)"

text \<open>\<open>atr::calculate\<close> throws only for a period below 1; the gate passes \<open>kAtrPeriod\<close>.\<close>

definition check_entry ::
  "bar_store \<Rightarrow> series_spec \<Rightarrow> price_data \<Rightarrow> int \<Rightarrow> int \<Rightarrow> distances option result" where
  "check_entry store gateSeries tick stopMultiplier limitMultiplier =
     (let pointsPerPip = get_scale (p_symbol tick) in
      if pointsPerPip = kUnknown then Inr None
      else case store_find store (p_symbol tick) (s_minutes gateSeries) of
        None \<Rightarrow> Inr None
      | Some candles \<Rightarrow>
          (case atr_calculate candles kAtrPeriod of
             Inl e \<Rightarrow> Inl e
           | Inr atrPoints \<Rightarrow>
               if atrPoints \<le> 0 then Inr None
               else let spreadPoints = i64 (p_ask tick - p_bid tick) in
               if i64 (spreadPoints * kMaxSpreadDen) > i64 (atrPoints * kMaxSpreadNum) then Inr None
               else let stopPointsRaw = i64 (atrPoints * stopMultiplier);
                        limitPointsRaw = i64 (atrPoints * limitMultiplier) in
               if stopPointsRaw < i64 (kMinStopPips * pointsPerPip)
                  \<or> limitPointsRaw < i64 (kMinLimitPips * pointsPerPip) then Inr None
               else Inr (Some \<lparr>
                 stopPips = clamp (i32 (cdiv stopPointsRaw pointsPerPip)) kMinStopPips kMaxStopPips,
                 limitPips = clamp (i32 (cdiv limitPointsRaw pointsPerPip)) kMinLimitPips kMaxLimitPips\<rparr>)))"

subsection \<open>What the gate admits\<close>

lemma gateSeriesFor_ok: "series_ok (gateSeriesFor config) \<and> kAtrPeriod + 1 \<le> s_count (gateSeriesFor config)"
  by (auto simp: gateSeriesFor_def series_ok_def gate_constants split: list.split)

lemma clamp_bounds: "lo \<le> hi \<Longrightarrow> lo \<le> clamp x lo hi \<and> clamp x lo hi \<le> hi"
  by (auto simp: clamp_def)

lemma clamp_above: "lo \<le> x \<Longrightarrow> clamp x lo hi = min x hi"
  by (auto simp: clamp_def)

lemma check_entry_Some_bounds:
  assumes "check_entry store gate tick sm lm = Inr (Some d)"
  shows "10 \<le> stopPips d \<and> stopPips d \<le> 80 \<and> 3 \<le> limitPips d \<and> limitPips d \<le> 300"
proof -
  obtain x y where "d = \<lparr>stopPips = clamp x 10 80, limitPips = clamp y 3 300\<rparr>"
    using assms
    by (auto simp: check_entry_def gate_constants Let_def split: if_splits option.splits sum.splits)
  then show ?thesis using clamp_bounds [of 10 80 x] clamp_bounds [of 3 300 y] by simp
qed

lemma pip_division:
  assumes "0 < ppp" "lo * ppp \<le> raw" "raw \<le> 2 ^ 31" "0 \<le> lo" "1 < ppp"
  shows "clamp (i32 (cdiv raw ppp)) lo hi = min hi (raw div ppp)"
proof -
  have "0 \<le> raw" using assms(1,2,4) by (meson mult_nonneg_nonneg less_imp_le order_trans)
  then have c: "cdiv raw ppp = raw div ppp" using assms(1) by simp
  have "lo \<le> raw div ppp" using zdiv_mono1 [OF assms(2,1)] assms(1) by simp
  moreover have "0 \<le> raw div ppp" using \<open>0 \<le> raw\<close> assms(1) by (simp add: pos_imp_zdiv_nonneg_iff)
  moreover have "raw div ppp < 2 ^ 31"
  proof (cases "raw = 0")
    case False
    then have "raw div ppp < raw" using \<open>0 \<le> raw\<close> assms(5) by (intro int_div_less_self) auto
    then show ?thesis using assms(3) by linarith
  qed simp
  ultimately have "in_i32 (raw div ppp)" "lo \<le> raw div ppp" by (auto simp: in_i32_def)
  then show ?thesis by (simp add: c clamp_above min.commute)
qed

lemma atr_times_multiplier:
  assumes "0 \<le> a" "a \<le> 2 ^ 24" "\<bar>m\<bar> \<le> (100::int)"
  shows "in_i64 (a * m)" "a * m \<le> 2 ^ 31"
proof -
  have "\<bar>a * m\<bar> \<le> 2 ^ 24 * 100" unfolding abs_mult using assms by (intro mult_mono) auto
  then show "in_i64 (a * m)" "a * m \<le> 2 ^ 31" by (auto simp: in_i64_def)
qed

text \<open>C13: for a known symbol whose gate series has ATR \<open>a\<close>, the gate admits an entry exactly
  when the market is not flat, ten spreads are at most three ATRs, and both ATR multiples
  reach their pip floors in points; the distances it then returns are the truncated pip
  quotients capped at 80 and 300 pips, so the pip floors never need to lift a result that
  passed the point floors. Without a series, or for an unknown symbol, the entry is skipped.\<close>

theorem check_entry_contract:
  assumes "in_i32 (p_ask tick)" "in_i32 (p_bid tick)" "\<bar>sm\<bar> \<le> 100" "\<bar>lm\<bar> \<le> 100"
    and "\<And>candles a. store_find store (p_symbol tick) (s_minutes gate) = Some candles \<Longrightarrow>
           atr_calculate candles kAtrPeriod = Inr a \<Longrightarrow> a \<le> 2 ^ 24"
  shows "check_entry store gate tick sm lm =
    (let ppp = get_scale (p_symbol tick) in
     case store_find store (p_symbol tick) (s_minutes gate) of
       None \<Rightarrow> Inr None
     | Some candles \<Rightarrow> if ppp = 0 then Inr None else
         (case atr_calculate candles kAtrPeriod of
            Inl e \<Rightarrow> Inl e
          | Inr a \<Rightarrow> Inr (
              if 0 < a \<and> 10 * (p_ask tick - p_bid tick) \<le> 3 * a \<and> 10 * ppp \<le> a * sm \<and> 3 * ppp \<le> a * lm
              then Some \<lparr>stopPips = min 80 (a * sm div ppp), limitPips = min 300 (a * lm div ppp)\<rparr>
              else None)))"
proof (cases "store_find store (p_symbol tick) (s_minutes gate)")
  case None
  then show ?thesis by (simp add: check_entry_def Let_def)
next
  case (Some candles)
  let ?ppp = "get_scale (p_symbol tick)"
  show ?thesis
  proof (cases "?ppp = 0")
    case True
    with Some show ?thesis by (simp add: check_entry_def kUnknown_def)
  next
    case False
    then have ppp: "1 < ?ppp" "?ppp \<le> 1000" using get_scale_cases [of "p_symbol tick"] by auto
    show ?thesis
    proof (cases "atr_calculate candles kAtrPeriod")
      case (Inl e)
      with Some False show ?thesis by (simp add: check_entry_def kUnknown_def Let_def)
    next
      case (Inr a)
      have floors: "i64 (10 * ?ppp) = 10 * ?ppp" "i64 (3 * ?ppp) = 3 * ?ppp"
        using ppp by (auto intro!: i64_id simp: in_i64_def)
      have spread: "i64 (p_ask tick - p_bid tick) = p_ask tick - p_bid tick"
        "i64 (10 * p_ask tick - 10 * p_bid tick) = 10 * p_ask tick - 10 * p_bid tick"
        using assms(1,2) by (auto intro!: i64_id simp: in_i64_def in_i32_def)
      show ?thesis
      proof (cases "0 < a")
        case True
        note mult = atr_times_multiplier [of a sm] atr_times_multiplier [of a lm]
        have a: "a \<le> 2 ^ 24" by (rule assms(5) [OF Some Inr])
        then have raw: "i64 (a * sm) = a * sm" "i64 (a * lm) = a * lm" "i64 (a * 3) = a * 3"
          "a * sm \<le> 2 ^ 31" "a * lm \<le> 2 ^ 31"
          using mult True assms(3,4) by (auto simp: in_i64_def)
        have "clamp (i32 (cdiv (a * sm) ?ppp)) 10 80 = min 80 (a * sm div ?ppp)" if "10 * ?ppp \<le> a * sm"
          using pip_division [of ?ppp 10 "a * sm" 80] that ppp raw by simp
        moreover have "clamp (i32 (cdiv (a * lm) ?ppp)) 3 300 = min 300 (a * lm div ?ppp)" if "3 * ?ppp \<le> a * lm"
          using pip_division [of ?ppp 3 "a * lm" 300] that ppp raw by simp
        ultimately show ?thesis
          using Some Inr False True raw
          by (simp add: check_entry_def kUnknown_def kMaxSpreadNum_def kMaxSpreadDen_def kMinStopPips_def
              kMaxStopPips_def kMinLimitPips_def kMaxLimitPips_def Let_def floors spread not_less not_le
              mult.commute [of _ 10] mult.commute [of _ 3])
      next
        case False
        with Some Inr \<open>?ppp \<noteq> 0\<close> show ?thesis by (simp add: check_entry_def kUnknown_def Let_def)
      qed
    qed
  qed
qed

definition flat_bars :: "ohlc_object list" where
  "flat_bars = replicate 11 \<lparr>b_date = 0, b_open = 100000, b_close = 100000,
     b_high = 100050, b_low = 99950, b_complete = True\<rparr>"

definition warm_store :: bar_store where
  "warm_store = \<lparr>bs_specs = [\<lparr>s_minutes = 15, s_count = 11\<rparr>],
     bs_bySymbol = [''EURUSD'' \<mapsto> [flat_bars]], bs_rangeSpecs = [], bs_rangeBySymbol = Map.empty\<rparr>"

lemma warm_store_facts:
  "store_find warm_store ''EURUSD'' 15 = Some flat_bars" "atr_calculate flat_bars kAtrPeriod = Inr 100"
  "get_scale ''EURUSD'' = 10"
proof -
  show "store_find warm_store ''EURUSD'' 15 = Some flat_bars"
    by (simp add: store_find_def Let_def warm_store_def)
  show "atr_calculate flat_bars kAtrPeriod = Inr 100" by code_simp
  show "get_scale ''EURUSD'' = 10" by code_simp
qed

theorem check_entry_contract_witness:
  "check_entry warm_store \<lparr>s_minutes = 15, s_count = 11\<rparr>
     \<lparr>p_ask = 100008, p_bid = 100000, p_timestamp = 0, p_symbol = ''EURUSD''\<rparr> 1 2
   = Inr (Some \<lparr>stopPips = 10, limitPips = 20\<rparr>)"
  using check_entry_contract [of "\<lparr>p_ask = 100008, p_bid = 100000, p_timestamp = 0, p_symbol = ''EURUSD''\<rparr>"
      1 2 warm_store "\<lparr>s_minutes = 15, s_count = 11\<rparr>"]
  by (simp add: in_i32_def warm_store_facts)

end
