(* ===== verification/Calendar.thy ===== *)
theory Calendar
  imports Prelude
begin

section \<open>Civil dates\<close>

text \<open>
  What the source uses of \<open>std::chrono\<close>'s calendar: the day of an instant, the weekday of a
  day, the civil year of a day, and the n-th and the last given weekday of a month. Days are
  counted from 1970-01-01 (\<open>sys_days\<close>); instants are microseconds. Sunday is 0.
\<close>

definition micros_per_day :: int where
  "micros_per_day = 86400000000"

definition floor_days :: "time \<Rightarrow> int" where
  "floor_days t = t div micros_per_day"

definition since_midnight :: "time \<Rightarrow> int" where
  "since_midnight t = t - floor_days t * micros_per_day"

definition weekday :: "int \<Rightarrow> int" where
  "weekday day = (day + 4) mod 7"

definition leap_year :: "int \<Rightarrow> bool" where
  "leap_year y \<longleftrightarrow> y mod 4 = 0 \<and> (y mod 100 \<noteq> 0 \<or> y mod 400 = 0)"

text \<open>The day number of 1 January.\<close>

definition jan1 :: "int \<Rightarrow> int" where
  "jan1 y = 365 * (y - 1) + (y - 1) div 4 - (y - 1) div 100 + (y - 1) div 400 - 719162"

text \<open>The civil year of a day: whole 400-year cycles, then centuries, 4-year cycles, years.\<close>

definition year_of :: "int \<Rightarrow> int" where
  "year_of day =
     (let n = day + 719162; e = n div 146097; d = n mod 146097;
          c = min 3 (d div 36524); r = d - 36524 * c;
          q = r div 1461; s = r mod 1461;
          k = min 3 (s div 365)
      in 400 * e + 100 * c + 4 * q + k + 1)"

definition month_length :: "int \<Rightarrow> int \<Rightarrow> int" where
  "month_length y m =
     (if m = 2 then (if leap_year y then 29 else 28)
      else if m \<in> {4, 6, 9, 11} then 30 else 31)"

definition month_start :: "int \<Rightarrow> nat \<Rightarrow> int" where
  "month_start y m = jan1 y + sum_list (map (\<lambda>i. month_length y (int i)) [1..<m])"

text \<open>\<open>year_month_weekday{y, m, wd[n]}\<close> and \<open>year_month_weekday_last{y, m, wd[last]}\<close> as days.\<close>

definition nth_weekday :: "int \<Rightarrow> nat \<Rightarrow> int \<Rightarrow> int \<Rightarrow> int" where
  "nth_weekday y m wd n =
     (let first = month_start y m in first + (wd - weekday first) mod 7 + (n - 1) * 7)"

definition last_weekday :: "int \<Rightarrow> nat \<Rightarrow> int \<Rightarrow> int" where
  "last_weekday y m wd =
     (let final = month_start y (m + 1) - 1 in final - (weekday final - wd) mod 7)"

lemma since_midnight_bounds: "0 \<le> since_midnight t \<and> since_midnight t < micros_per_day"
proof -
  have "since_midnight t = t mod micros_per_day"
    by (simp add: since_midnight_def floor_days_def minus_div_mult_eq_mod)
  then show ?thesis by (simp add: micros_per_day_def)
qed

lemma weekday_of_residue:
  assumes "x mod 7 = (wd - 4) mod 7" "0 \<le> wd" "wd < 7"
  shows "weekday x = wd"
proof -
  obtain k where "x - (wd - 4) = 7 * k" using assms(1) by (auto simp: mod_eq_dvd_iff)
  then have "x + 4 = wd + 7 * k" by simp
  with assms(2,3) show ?thesis by (simp add: weekday_def)
qed

lemma weekday_nth_weekday:
  assumes "0 \<le> wd" "wd < 7"
  shows "weekday (nth_weekday y m wd n) = wd"
proof -
  let ?f = "month_start y m"
  let ?x = "?f + (wd - weekday ?f) mod 7"
  have "?x mod 7 = (wd - 4) mod 7" by (simp add: weekday_def mod_simps algebra_simps)
  moreover have "nth_weekday y m wd n = ?x + (n - 1) * 7" by (simp add: nth_weekday_def Let_def)
  ultimately have "nth_weekday y m wd n mod 7 = (wd - 4) mod 7" by (simp only: mod_mult_self1)
  with assms show ?thesis by (intro weekday_of_residue)
qed

lemma weekday_last_weekday:
  assumes "0 \<le> wd" "wd < 7"
  shows "weekday (last_weekday y m wd) = wd"
proof -
  have "(f - ((f + 4) mod 7 - wd) mod 7) mod 7 = (wd - 4) mod 7" for f :: int
    by (simp add: mod_simps algebra_simps)
  then have "last_weekday y m wd mod 7 = (wd - 4) mod 7"
    unfolding last_weekday_def Let_def weekday_def .
  with assms show ?thesis by (intro weekday_of_residue)
qed

lemma year_of_parts:
  fixes day :: int
  obtains e c q k s where "day + 719162 = 146097 * e + 36524 * c + 1461 * q + 365 * k + s"
    "0 \<le> c" "c \<le> 3" "0 \<le> q" "q \<le> 24" "0 \<le> k" "k \<le> 3" "0 \<le> s" "s \<le> 365"
    "s = 365 \<longrightarrow> k = 3 \<and> (q = 24 \<longrightarrow> c = 3)"
    "year_of day = 400 * e + 100 * c + 4 * q + k + 1"
proof -
  define n where "n = day + 719162"
  define e where "e = n div 146097"
  define d where "d = n mod 146097"
  define c where "c = min 3 (d div 36524)"
  define r where "r = d - 36524 * c"
  define q where "q = r div 1461"
  define s where "s = r mod 1461"
  define k where "k = min 3 (s div 365)"
  have d: "0 \<le> d" "d < 146097" and n: "n = 146097 * e + d" by (simp_all add: d_def e_def)
  have c: "0 \<le> c" "c \<le> 3" and r: "0 \<le> r" "r \<le> 36524" "r = 36524 \<longrightarrow> c = 3"
    using d by (auto simp: c_def r_def min_def)
  have q: "0 \<le> q" "q \<le> 24" and s: "0 \<le> s" "s < 1461" and rq: "r = 1461 * q + s"
    using r by (auto simp: q_def s_def)
  have k: "0 \<le> k" "k \<le> 3" and rest: "0 \<le> s - 365 * k" "s - 365 * k \<le> 365" "s - 365 * k = 365 \<longrightarrow> k = 3"
    using s by (auto simp: k_def min_def)
  have "year_of day = 400 * e + 100 * c + 4 * q + k + 1"
    unfolding year_of_def Let_def k_def s_def q_def r_def c_def d_def e_def n_def ..
  moreover have "day + 719162 = 146097 * e + 36524 * c + 1461 * q + 365 * k + (s - 365 * k)"
    using n rq by (simp add: r_def n_def)
  moreover have "s - 365 * k = 365 \<longrightarrow> k = 3 \<and> (q = 24 \<longrightarrow> c = 3)" using rest(3) r(3) rq by auto
  ultimately show ?thesis using c q k rest(1,2) by (intro that [of e c q k "s - 365 * k"])
qed

lemma jan1_parts:
  assumes "0 \<le> c" "c \<le> 3" "0 \<le> q" "q \<le> 24" "0 \<le> k" "k \<le> (3::int)"
  shows "jan1 (400 * e + 100 * c + 4 * q + k + 1) = 146097 * e + 36524 * c + 1461 * q + 365 * k - 719162"
proof -
  let ?y = "400 * e + 100 * c + 4 * q + k"
  have "?y div 4 = 100 * e + 25 * c + q" "?y div 100 = 4 * e + c" "?y div 400 = e"
    using assms by linarith+
  then show ?thesis by (simp add: jan1_def)
qed

lemma year_of_bounds: "jan1 (year_of day) \<le> day \<and> day < jan1 (year_of day + 1)"
proof -
  obtain e c q k s where p: "day + 719162 = 146097 * e + 36524 * c + 1461 * q + 365 * k + s"
    "0 \<le> c" "c \<le> 3" "0 \<le> q" "q \<le> 24" "0 \<le> k" "k \<le> 3" "0 \<le> s" "s \<le> 365"
    "s = 365 \<longrightarrow> k = 3 \<and> (q = 24 \<longrightarrow> c = 3)"
    "year_of day = 400 * e + 100 * c + 4 * q + k + 1"
    by (rule year_of_parts)
  have lo: "jan1 (year_of day) = 146097 * e + 36524 * c + 1461 * q + 365 * k - 719162"
    using p jan1_parts by simp
  have hi: "day < jan1 (year_of day + 1)"
  proof (cases "k < 3")
    case True
    then have "jan1 (400 * e + 100 * c + 4 * q + (k + 1) + 1)
        = 146097 * e + 36524 * c + 1461 * q + 365 * (k + 1) - 719162"
      using p by (intro jan1_parts) auto
    with p True show ?thesis by (simp add: algebra_simps)
  next
    case k3: False
    then have "k = 3" using p by simp
    show ?thesis
    proof (cases "q < 24")
      case True
      then have "jan1 (400 * e + 100 * c + 4 * (q + 1) + 0 + 1)
          = 146097 * e + 36524 * c + 1461 * (q + 1) + 365 * 0 - 719162"
        using p by (intro jan1_parts) auto
      with p \<open>k = 3\<close> show ?thesis by (simp add: algebra_simps)
    next
      case False
      then have "q = 24" using p by simp
      show ?thesis
      proof (cases "c < 3")
        case True
        then have "jan1 (400 * e + 100 * (c + 1) + 4 * 0 + 0 + 1)
            = 146097 * e + 36524 * (c + 1) + 1461 * 0 + 365 * 0 - 719162"
          using p by (intro jan1_parts) auto
        with p True \<open>k = 3\<close> \<open>q = 24\<close> show ?thesis by (auto simp: algebra_simps)
      next
        case False
        then have "c = 3" using p by simp
        have "jan1 (400 * (e + 1) + 100 * 0 + 4 * 0 + 0 + 1)
            = 146097 * (e + 1) + 36524 * 0 + 1461 * 0 + 365 * 0 - 719162"
          by (intro jan1_parts) auto
        with p \<open>k = 3\<close> \<open>q = 24\<close> \<open>c = 3\<close> show ?thesis by (auto simp: algebra_simps)
      qed
    qed
  qed
  with lo p show ?thesis by auto
qed

end
