(* ===== verification/MarketHours.thy ===== *)
theory MarketHours
  imports SymbolScale Calendar
begin

section \<open>Market hours\<close>

text \<open>
  \<open>source/shared/utilities/marketHours.cppm\<close>: the session of each symbol and the
  peak-hours entry filter. Summer time is decided per day; the main result is that the
  instant-exact rule gives the same filter.
\<close>

datatype session = Asia | Europe | NewYork | SessionUnknown

record session_entry =
  m_symbol :: symbol
  m_session :: session

abbreviation session_row :: "symbol \<Rightarrow> session \<Rightarrow> session_entry" where
  "session_row s z \<equiv> \<lparr>m_symbol = s, m_session = z\<rparr>"

definition session_kTable :: "session_entry list" where
  "session_kTable =
    [session_row ''AUDNZD'' Asia,
     session_row ''AUDUSD'' Asia,
     session_row ''AUSIDXAUD'' Asia,
     session_row ''BRENTCMDUSD'' NewYork,
     session_row ''COPPERCMDUSD'' NewYork,
     session_row ''DEUIDXEUR'' Europe,
     session_row ''EURAUD'' Asia,
     session_row ''EURCHF'' Europe,
     session_row ''EURGBP'' Europe,
     session_row ''EURJPY'' Asia,
     session_row ''EURNOK'' Europe,
     session_row ''EURUSD'' Europe,
     session_row ''FRAIDXEUR'' Europe,
     session_row ''GBPJPY'' Asia,
     session_row ''GBPUSD'' Europe,
     session_row ''GBRIDXGBP'' Europe,
     session_row ''HKGIDXHKD'' Asia,
     session_row ''JPNIDXJPY'' Asia,
     session_row ''LIGHTCMDUSD'' NewYork,
     session_row ''NZDUSD'' Asia,
     session_row ''USA30IDXUSD'' NewYork,
     session_row ''USA500IDXUSD'' NewYork,
     session_row ''USATECHIDXUSD'' NewYork,
     session_row ''USDCAD'' NewYork,
     session_row ''USDCHF'' Europe,
     session_row ''USDJPY'' Asia,
     session_row ''USDSEK'' Europe,
     session_row ''XAGUSD'' NewYork,
     session_row ''XAUUSD'' NewYork]"

definition sessionFor :: "symbol \<Rightarrow> session" where
  "sessionFor symbol =
     (case table_search m_symbol session_kTable symbol 0 (length session_kTable) of
        Some entry \<Rightarrow> m_session entry | None \<Rightarrow> SessionUnknown)"

definition isLondonSummer :: "int \<Rightarrow> bool" where
  "isLondonSummer day =
     (let y = year_of day; start = last_weekday y 3 0; end = last_weekday y 10 0
      in day \<ge> start \<and> day < end)"

definition isNewYorkSummer :: "int \<Rightarrow> bool" where
  "isNewYorkSummer day =
     (let y = year_of day; start = nth_weekday y 3 0 2; end = nth_weekday y 11 0 1
      in day \<ge> start \<and> day < end)"

definition hours_us :: "int \<Rightarrow> int" where "hours_us h = h * 3600000000"
definition minutes_us :: "int \<Rightarrow> int" where "minutes_us m = m * 60000000"

definition tradePermitted :: "symbol \<Rightarrow> time \<Rightarrow> bool" where
  "tradePermitted symbol utcTimestamp =
     (let day = floor_days utcTimestamp; dow = weekday day;
          sinceMidnight = since_midnight utcTimestamp in
      if dow = 0 then False
      else if dow = 5 \<and> sinceMidnight \<ge> hours_us 16 then False
      else if dow = 1 \<and> sinceMidnight < hours_us 2 then False
      else case sessionFor symbol of
        Asia \<Rightarrow> sinceMidnight < hours_us 6
      | Europe \<Rightarrow>
          (let open = (if isLondonSummer day then hours_us 7 else hours_us 8)
           in sinceMidnight \<ge> open \<and> sinceMidnight < open + hours_us 3)
      | NewYork \<Rightarrow>
          (let open = (if isNewYorkSummer day then hours_us 13 else hours_us 14) + minutes_us 30
           in sinceMidnight \<ge> open \<and> sinceMidnight < open + hours_us 3)
      | SessionUnknown \<Rightarrow> False)"

subsection \<open>One universe of symbols\<close>

lemma session_kTable_sorted: "table_sorted m_symbol session_kTable"
  by code_simp

interpretation session_tbl: sorted_table m_symbol session_kTable
  by unfold_locales (rule session_kTable_sorted)

lemma same_universe: "map m_symbol session_kTable = map e_symbol scale_kTable"
  by code_simp

lemma session_rows_known: "entry \<in> set session_kTable \<Longrightarrow> m_session entry \<noteq> SessionUnknown"
  by (auto simp: session_kTable_def)

lemma sessionFor_unknown: "sessionFor s = SessionUnknown \<longleftrightarrow> s \<notin> m_symbol ` set session_kTable"
proof (cases "table_search m_symbol session_kTable s 0 (length session_kTable)")
  case None
  then show ?thesis using session_tbl.search_None_iff [of s] by (simp add: sessionFor_def)
next
  case (Some entry)
  then have "entry \<in> set session_kTable \<and> m_symbol entry = s" by (simp add: session_tbl.search_Some_iff)
  with Some session_rows_known [of entry] show ?thesis by (auto simp: sessionFor_def)
qed

text \<open>The session table and the scale table cover the same symbols, so the filter fails
  closed for exactly the symbols the engine cannot scale; and no entry is ever permitted for
  such a symbol, on a Sunday, from 16:00 on a Friday or before 02:00 on a Monday.\<close>

theorem tradePermitted_fails_closed:
  "(sessionFor s = SessionUnknown \<longleftrightarrow> get_scale s = kUnknown)
   \<and> (tradePermitted s t \<longrightarrow> get_scale s \<noteq> kUnknown \<and> weekday (floor_days t) \<noteq> 0
       \<and> (weekday (floor_days t) = 5 \<longrightarrow> since_midnight t < hours_us 16)
       \<and> (weekday (floor_days t) = 1 \<longrightarrow> hours_us 2 \<le> since_midnight t))"
proof -
  have known: "sessionFor s = SessionUnknown \<longleftrightarrow> get_scale s = kUnknown"
    using same_universe by (metis sessionFor_unknown symbol_lookup_unknown(1) list.set_map)
  then show ?thesis
    by (auto simp: tradePermitted_def Let_def split: if_splits)
qed

theorem tradePermitted_fails_closed_witness:
  "tradePermitted ''EURUSD'' 1719907200000000 \<and> get_scale ''EURUSD'' \<noteq> kUnknown"
proof -
  have "tradePermitted ''EURUSD'' 1719907200000000" by code_simp
  with tradePermitted_fails_closed [of "''EURUSD''" 1719907200000000] show ?thesis by simp
qed

subsection \<open>Deciding summer time per day is exact\<close>

text \<open>The instant-exact rules: London switches at 01:00 UTC on both Sundays; New York springs
  forward at 07:00 UTC and falls back at 06:00 UTC.\<close>

definition london_summer_at :: "time \<Rightarrow> bool" where
  "london_summer_at t =
     (let y = year_of (floor_days t)
      in last_weekday y 3 0 * micros_per_day + hours_us 1 \<le> t
         \<and> t < last_weekday y 10 0 * micros_per_day + hours_us 1)"

definition new_york_summer_at :: "time \<Rightarrow> bool" where
  "new_york_summer_at t =
     (let y = year_of (floor_days t)
      in nth_weekday y 3 0 2 * micros_per_day + hours_us 7 \<le> t
         \<and> t < nth_weekday y 11 0 1 * micros_per_day + hours_us 6)"

definition permitted_exact :: "symbol \<Rightarrow> time \<Rightarrow> bool" where
  "permitted_exact symbol t =
     (let dow = weekday (floor_days t); tod = since_midnight t in
      \<not> (dow = 0 \<or> dow = 5 \<and> hours_us 16 \<le> tod \<or> dow = 1 \<and> tod < hours_us 2)
      \<and> (case sessionFor symbol of
           Asia \<Rightarrow> tod < hours_us 6
         | Europe \<Rightarrow> (let open = hours_us (if london_summer_at t then 7 else 8)
                      in open \<le> tod \<and> tod < open + hours_us 3)
         | NewYork \<Rightarrow> (let open = hours_us (if new_york_summer_at t then 13 else 14) + minutes_us 30
                       in open \<le> tod \<and> tod < open + hours_us 3)
         | SessionUnknown \<Rightarrow> False))"

lemma day_boundary:
  assumes "0 \<le> off" "off < micros_per_day" "weekday d = 0" "weekday (floor_days t) \<noteq> 0"
  shows "d * micros_per_day + off \<le> t \<longleftrightarrow> d \<le> floor_days t"
proof -
  have ne: "d \<noteq> floor_days t" using assms(3,4) by auto
  have t: "t = floor_days t * micros_per_day + since_midnight t" by (simp add: since_midnight_def)
  note tod = since_midnight_bounds [of t]
  show ?thesis
  proof
    assume "d \<le> floor_days t"
    then have "d + 1 \<le> floor_days t" using ne by simp
    then have "(d + 1) * micros_per_day \<le> floor_days t * micros_per_day"
      by (intro mult_right_mono) (simp_all add: micros_per_day_def)
    with assms(2) tod t show "d * micros_per_day + off \<le> t" by (simp add: algebra_simps)
  next
    assume le: "d * micros_per_day + off \<le> t"
    show "d \<le> floor_days t"
    proof (rule ccontr)
      assume "\<not> d \<le> floor_days t"
      then have "(floor_days t + 1) * micros_per_day \<le> d * micros_per_day"
        by (intro mult_right_mono) (simp_all add: micros_per_day_def)
      with le assms(1) tod t show False by (simp add: algebra_simps)
    qed
  qed
qed

lemma summer_at_day:
  assumes "weekday (floor_days t) \<noteq> 0"
  shows "london_summer_at t = isLondonSummer (floor_days t)"
    and "new_york_summer_at t = isNewYorkSummer (floor_days t)"
proof -
  have off: "0 \<le> hours_us h" "hours_us h < micros_per_day" if "h \<in> {1, 6, 7}" for h
    using that by (auto simp: hours_us_def micros_per_day_def)
  note sunday = weekday_last_weekday [of 0] weekday_nth_weekday [of 0]
  show "london_summer_at t = isLondonSummer (floor_days t)"
    unfolding london_summer_at_def isLondonSummer_def Let_def
    using off [of 1] sunday assms by (simp add: day_boundary not_le [symmetric])
  show "new_york_summer_at t = isNewYorkSummer (floor_days t)"
    unfolding new_york_summer_at_def isNewYorkSummer_def Let_def
    using off [of 6] off [of 7] sunday assms by (simp add: day_boundary not_le [symmetric])
qed

text \<open>C14: deciding summer time by the day alone never changes the filter: it equals the
  filter that switches at the exact UTC instants, because every switch falls on a Sunday and
  Sundays are blocked.\<close>

theorem day_level_dst_is_exact: "tradePermitted s t = permitted_exact s t"
proof (cases "weekday (floor_days t) = 0")
  case True
  then show ?thesis by (simp add: tradePermitted_def permitted_exact_def)
next
  case False
  from summer_at_day [OF this] False show ?thesis
    by (auto simp: tradePermitted_def permitted_exact_def Let_def split: session.splits)
qed

end
