(* ===== verification/Strategy.thy ===== *)
theory Strategy
  imports TradeManager BarStore Indicators Config
begin

section \<open>Strategies\<close>

text \<open>
  \<open>source/strategies/strategy.cppm\<close> (the \<open>IStrategy\<close> interface), \<open>timeCapExit.cppm\<close>,
  \<open>randomStrategy\<close> and \<open>ohlcBreakout\<close>. A strategy is a pair of hooks over a state: the entry
  signal \<open>decide\<close> and the management hook \<open>during\<close>, which may close positions. The locale
  \<open>strategy_contract\<close> states what the loop relies on: \<open>during\<close> only exits.
\<close>

record 's strategy =
  sg_decide :: "'s \<Rightarrow> price_data \<Rightarrow> bar_store \<Rightarrow> (direction option \<times> 's) result"
  sg_during :: "'s \<Rightarrow> price_data \<Rightarrow> bar_store \<Rightarrow> trade_manager \<Rightarrow> (trade_manager \<times> 's) result"

definition closeIfPastCap :: "price_data \<Rightarrow> trade_manager \<Rightarrow> int \<Rightarrow> bool \<times> trade_manager" where
  "closeIfPastCap price tm cap =
     (if cap \<le> 0 then (False, tm)
      else case findActiveTrade tm (p_symbol price) of
        None \<Rightarrow> (False, tm)
      | Some trade \<Rightarrow>
          if p_timestamp price - t_openTime trade \<le> cap * 60000000 then (False, tm)
          else let closePrice = (if t_direction trade = LONG then p_bid price else p_ask price)
               in (True, snd (closeTrade tm (p_symbol price) closePrice price False)))"

subsection \<open>RandomStrategy\<close>

text \<open>The state is the generator; \<open>coin\<close> draws from it.\<close>

definition random_strategy :: "('r \<Rightarrow> bool \<times> 'r) \<Rightarrow> 'r strategy" where
  "random_strategy coin =
     \<lparr>sg_decide = (\<lambda>rng tick bars. let (heads, rng') = coin rng
                                  in Inr (Some (if heads then LONG else SHORT), rng')),
      sg_during = (\<lambda>rng price bars tm. Inr (tm, rng))\<rparr>"

subsection \<open>OhlcBreakoutStrategy\<close>

record ohlc_breakout =
  o_breakoutCfg :: ohlc_variables
  o_trendCfg :: ohlc_variables
  o_bufferPips :: int
  o_maxTradeDuration :: int

definition new_ohlc_breakout :: "strategy_config \<Rightarrow> ohlc_breakout result" where
  "new_ohlc_breakout config =
     (case sc_OHLC_VARIABLES config of
        breakoutCfg # trendCfg # _ \<Rightarrow>
          if \<exists>cfg \<in> set [breakoutCfg, trendCfg]. ov_OHLC_COUNT cfg < 2 \<or> ov_OHLC_MINUTES cfg < 1
          then Inl InvalidArgument
          else (case sv_OHLC_BREAKOUT_VARIABLES (sc_STRATEGY_VARIABLES config) of
                  None \<Rightarrow> Inl InvalidArgument
                | Some breakoutVars \<Rightarrow>
                    Inr \<lparr>o_breakoutCfg = breakoutCfg, o_trendCfg = trendCfg,
                         o_bufferPips = ob_BUFFER_PIPS breakoutVars,
                         o_maxTradeDuration = ob_MAX_TRADE_DURATION_MINUTES breakoutVars\<rparr>)
      | _ \<Rightarrow> Inl InvalidArgument)"

definition ohlc_breakout_decide ::
  "ohlc_breakout \<Rightarrow> price_data \<Rightarrow> bar_store \<Rightarrow> direction option result" where
  "ohlc_breakout_decide self tick store =
     (case (store_find store (p_symbol tick) (ov_OHLC_MINUTES (o_breakoutCfg self)),
            store_find store (p_symbol tick) (ov_OHLC_MINUTES (o_trendCfg self))) of
        (Some breakoutSeries, Some trendSeries) \<Rightarrow>
          (let breakoutCount = nat (ov_OHLC_COUNT (o_breakoutCfg self));
               trendCount = nat (ov_OHLC_COUNT (o_trendCfg self)) in
           if length breakoutSeries < breakoutCount \<or> length trendSeries < trendCount then Inr None
           else let
             breakoutBars = lastn breakoutCount breakoutSeries;
             trendBars = lastn trendCount trendSeries;
             closed = take (length breakoutBars - 1) breakoutBars;
             highestHigh = foldl (\<lambda>h bar. max h (b_high bar)) (-2147483648) closed;
             lowestLow = foldl (\<lambda>l bar. min l (b_low bar)) 2147483647 closed;
             bufferPoints = i32 (o_bufferPips self * get_scale (p_symbol tick));
             closes = map b_close trendBars;
             emaPeriod = int (length closes div 2) in
           (case ema_calculate closes emaPeriod of
              Inl e \<Rightarrow> Inl e
            | Inr emas \<Rightarrow>
                let currentClose = last closes; currentEma = last emas in
                if p_bid tick > i32 (highestHigh + bufferPoints) \<and> currentClose > currentEma
                then Inr (Some LONG)
                else if p_ask tick < i32 (lowestLow - bufferPoints) \<and> currentClose < currentEma
                then Inr (Some SHORT)
                else Inr None))
      | _ \<Rightarrow> Inr None)"

definition ohlc_breakout_strategy :: "ohlc_breakout strategy" where
  "ohlc_breakout_strategy =
     \<lparr>sg_decide = (\<lambda>self tick store. case ohlc_breakout_decide self tick store of
                     Inl e \<Rightarrow> Inl e | Inr signal \<Rightarrow> Inr (signal, self)),
      sg_during = (\<lambda>self price store tm.
                     Inr (snd (closeIfPastCap price tm (o_maxTradeDuration self)), self))\<rparr>"

subsection \<open>What the loop relies on\<close>

text \<open>The entries on the books, open or closed, as a multiset of (symbol, entry time).\<close>

definition opens :: "trade_manager \<Rightarrow> (symbol \<times> time) multiset" where
  "opens tm = mset (map (\<lambda>t. (t_symbol t, t_openTime t)) (closedTrades tm @ map snd (activeTrades tm)))"

definition open_symbols :: "trade_manager \<Rightarrow> symbol set" where
  "open_symbols tm = fst ` set (activeTrades tm)"

definition exits_only :: "trade_manager \<Rightarrow> trade_manager \<Rightarrow> bool" where
  "exits_only tm tm' \<longleftrightarrow> tm_inv tm' \<and> opens tm' = opens tm \<and> open_symbols tm' \<subseteq> open_symbols tm
     \<and> entrySlippageTenthPips tm' = entrySlippageTenthPips tm"

lemma exits_only_refl: "tm_inv tm \<Longrightarrow> exits_only tm tm"
  by (simp add: exits_only_def)

lemma exits_only_trans: "exits_only a b \<Longrightarrow> exits_only b c \<Longrightarrow> exits_only a c"
  by (auto simp: exits_only_def)

lemma opens_closeTrade:
  assumes "tm_inv tm"
  shows "opens (snd (closeTrade tm s price tick liq)) = opens tm"
proof (cases "map_of (activeTrades tm) s")
  case None
  then show ?thesis by (simp add: closeTrade_missing)
next
  case (Some t)
  have "distinct (map fst (activeTrades tm))" using assms by (simp add: tm_inv_def)
  then have "mset (activeTrades tm) = add_mset (s, t) (mset (AList.delete s (activeTrades tm)))"
    using mset_delete [of "activeTrades tm" s t] map_of_SomeD [OF Some] by simp
  then have "mset (map (\<lambda>p. (t_symbol (snd p), t_openTime (snd p))) (activeTrades tm)) =
      add_mset (t_symbol t, t_openTime t)
        (mset (map (\<lambda>p. (t_symbol (snd p), t_openTime (snd p))) (AList.delete s (activeTrades tm))))"
    by (simp only: mset_map image_mset_add_mset snd_conv)
  then show ?thesis using Some by (simp add: opens_def closeTrade_def Let_def comp_def)
qed

lemma exits_only_closeTrade:
  assumes "tm_inv tm"
  shows "exits_only tm (snd (closeTrade tm s price tick liq))"
proof -
  have "open_symbols (snd (closeTrade tm s price tick liq)) \<subseteq> open_symbols tm"
    by (auto simp: open_symbols_def closeTrade_active delete_conv' AList.delete_eq)
  moreover have "entrySlippageTenthPips (snd (closeTrade tm s price tick liq)) = entrySlippageTenthPips tm"
    by (simp add: closeTrade_def Let_def split: option.split)
  ultimately show ?thesis
    using assms by (simp add: exits_only_def opens_closeTrade tm_inv_closeTrade)
qed

lemma exits_only_reviewStopAndLimit:
  "tm_inv tm \<Longrightarrow> exits_only tm (reviewStopAndLimit tm tick)"
  by (auto simp: reviewStopAndLimit_def exits_only_closeTrade exits_only_refl split: option.split)

lemma exits_only_closeIfPastCap: "tm_inv tm \<Longrightarrow> exits_only tm (snd (closeIfPastCap price tm cap))"
  by (auto simp: closeIfPastCap_def Let_def exits_only_closeTrade exits_only_refl split: option.split)

lemma exits_only_close_each: "tm_inv tm \<Longrightarrow> exits_only tm (close_each tm xs tick liq)"
proof (induction tm xs tick liq rule: close_each.induct)
  case (2 tm s price rest tick liq)
  have "exits_only tm (snd (closeTrade tm s price tick liq))" using 2 by (simp add: exits_only_closeTrade)
  with 2 show ?case using exits_only_trans by (auto simp: exits_only_def)
qed (simp add: exits_only_refl)

lemma exits_only_closeAllTrades: "tm_inv tm \<Longrightarrow> exits_only tm (closeAllTrades order tm tick liq)"
  by (simp add: closeAllTrades_def exits_only_close_each)

locale strategy_contract =
  fixes strat :: "'s strategy"
  assumes during_exits_only:
    "tm_inv tm \<Longrightarrow> sg_during strat s tick store tm = Inr (tm', s') \<Longrightarrow> exits_only tm tm'"

interpretation random: strategy_contract "random_strategy coin" for coin
  by unfold_locales (auto simp: random_strategy_def exits_only_refl)

interpretation breakout: strategy_contract ohlc_breakout_strategy
  by unfold_locales (auto simp: ohlc_breakout_strategy_def exits_only_closeIfPastCap)

end
