(* ===== verification/ResultsSummary.thy ===== *)
theory ResultsSummary
  imports TradeManager Config
begin

section \<open>Run statistics and the performance score\<close>

text \<open>
  \<open>source/run/reporting/resultsSummary.cppm\<close>: the counters of a run and the blended
  performance score that decides whether a run is worth advancing. Decimal and
  double arithmetic are parameters (\<open>decimal_ops\<close>, \<open>float_ops\<close>): the counters do not depend
  on them, and the guards hold for every instance. Over exact real arithmetic the score's
  sign is the sign of the run's net profit.
\<close>

text \<open>\<open>TradingResultsStats\<close>.\<close>

record 'd trading_results_stats =
  finalPnl :: 'd
  tradesOpened :: nat
  tradesClosed :: nat
  openedLong :: nat
  openedShort :: nat
  closedLong :: nat
  closedShort :: nat
  winners :: nat
  losers :: nat
  breakeven :: nat
  liquidated :: nat
  avgPnl :: "'d option"
  performanceScore :: 'd
  winRate :: 'd
  tradeRatio :: 'd
  expectancyScore :: 'd
  calmarScore :: 'd
  confidenceMultiplier :: 'd
  maxDrawdownPercent :: 'd

definition confidence :: "('d, 'f, 'z) float_ops_scheme \<Rightarrow> 'f \<Rightarrow> 'f \<Rightarrow> 'f" where
  "confidence F totalSum years =
     (let enough = (\<lambda>n. f_leq F (f_mult F (f_lit F n 1) years) totalSum) in
      if enough 60 then f_lit F 1 1
      else if enough 40 then f_lit F 9 10
      else if enough 20 then f_lit F 8 10
      else if enough 10 then f_lit F 6 10
      else if enough 5 then f_lit F 4 10
      else f_lit F 1 10)"

definition finiteOr0 :: "('d, 'f, 'z) float_ops_scheme \<Rightarrow> 'f \<Rightarrow> 'f" where
  "finiteOr0 F v = (if f_isfinite F v then v else f_lit F 0 1)"

definition computePerformanceScore ::
  "('d, 'f, 'z) float_ops_scheme \<Rightarrow> 'd trading_results_stats \<Rightarrow> 'd \<Rightarrow> int \<Rightarrow> 'd \<Rightarrow> 'd \<Rightarrow> 'd
     \<Rightarrow> 'd trading_results_stats" where
  "computePerformanceScore F stats startingBalanceDec lastMonths winPipSum lossPipSum maxDropPips =
     (let lit = f_lit F; num = (\<lambda>n. f_lit F (int n) 1);
          mul = f_mult F; dvd' = f_div F;
          startingBalance = f_of_dec F startingBalanceDec in
      if tradesClosed stats = 0 \<or> f_leq F startingBalance (lit 0 1) \<or> lastMonths \<le> 0 then stats
      else let positive = num (winners stats); negative = num (losers stats);
               totalSum = f_add F positive negative in
      if f_eq F totalSum (lit 0 1) then stats
      else let
        closedCount = num (tradesClosed stats);
        winRate = dvd' positive closedCount;
        lossRate = dvd' negative closedCount;
        averageWin = (if f_less F (lit 0 1) positive then dvd' (f_of_dec F winPipSum) positive else lit 0 1);
        averageLoss = (if f_less F (lit 0 1) negative
                       then f_abs F (dvd' (f_of_dec F lossPipSum) negative) else lit 0 1);
        tradeRatio = (if f_eq F positive (lit 0 1) then lit 0 1
                      else if f_eq F negative (lit 0 1) \<or> f_eq F averageLoss (lit 0 1) then lit 100 1
                      else dvd' (mul averageWin positive) (mul averageLoss negative));
        expectancyPips = f_sub F (mul averageWin winRate) (mul averageLoss lossRate);
        expectancyPercent = mul (dvd' expectancyPips startingBalance) (lit 100 1);
        tradeFreqFactor = f_sqrt F totalSum;
        systemQuality = mul expectancyPercent tradeFreqFactor;
        expectancyScore = mul systemQuality (dvd' (lit 50 1) (lit 2 1));
        years = dvd' (lit lastMonths 1) (lit 12 1);
        finalPnl = f_of_dec F (finalPnl stats);
        cagrPercent = mul (dvd' (dvd' finalPnl startingBalance) years) (lit 100 1);
        maxDrawdownPercent = mul (dvd' (f_of_dec F maxDropPips) startingBalance) (lit 100 1);
        adjustedDrawdown = (if f_less F maxDrawdownPercent (lit 2 1) then lit 2 1 else maxDrawdownPercent);
        calmarScore = mul (dvd' cagrPercent adjustedDrawdown) (dvd' (lit 50 1) (lit 3 1));
        confidenceMultiplier = confidence F totalSum years;
        rawPerformance = f_add F (mul expectancyScore (lit 5 10)) (mul calmarScore (lit 5 10));
        performance = mul rawPerformance confidenceMultiplier
      in stats\<lparr>winRate := f_to_dec F (finiteOr0 F winRate),
               tradeRatio := f_to_dec F (finiteOr0 F tradeRatio),
               expectancyScore := f_to_dec F (finiteOr0 F expectancyScore),
               calmarScore := f_to_dec F (finiteOr0 F calmarScore),
               confidenceMultiplier := f_to_dec F (finiteOr0 F confidenceMultiplier),
               maxDrawdownPercent := f_to_dec F (finiteOr0 F maxDrawdownPercent),
               performanceScore := f_to_dec F (finiteOr0 F performance)\<rparr>)"

text \<open>The loop over the closed trades.\<close>

record 'd tally =
  y_closedLong :: nat
  y_closedShort :: nat
  y_winners :: nat
  y_losers :: nat
  y_breakeven :: nat
  y_liquidated :: nat
  y_unmeasured :: nat
  y_pnlSum :: 'd
  y_winPipSum :: 'd
  y_lossPipSum :: 'd

definition tally_trade :: "('d, 'z) decimal_ops_scheme \<Rightarrow> 'd tally \<Rightarrow> trade \<Rightarrow> 'd tally" where
  "tally_trade D y trade =
     (let y = (if t_direction trade = LONG then y\<lparr>y_closedLong := y_closedLong y + 1\<rparr>
               else y\<lparr>y_closedShort := y_closedShort y + 1\<rparr>);
          y = (if t_liquidated trade then y\<lparr>y_liquidated := y_liquidated y + 1\<rparr> else y) in
      if t_scalingFactor trade = 0 then y\<lparr>y_unmeasured := y_unmeasured y + 1\<rparr>
      else let
        y = (if t_pnl trade > 0 then y\<lparr>y_winners := y_winners y + 1\<rparr>
             else if t_pnl trade < 0 then y\<lparr>y_losers := y_losers y + 1\<rparr>
             else y\<lparr>y_breakeven := y_breakeven y + 1\<rparr>);
        pips = d_div D (d_of_int D (t_pnl trade)) (d_of_int D (t_scalingFactor trade));
        y = y\<lparr>y_pnlSum := d_add D (y_pnlSum y) pips\<rparr>
      in if t_pnl trade > 0 then y\<lparr>y_winPipSum := d_add D (y_winPipSum y) pips\<rparr>
         else if t_pnl trade < 0 then y\<lparr>y_lossPipSum := d_add D (y_lossPipSum y) pips\<rparr>
         else y)"

definition empty_tally :: "('d, 'z) decimal_ops_scheme \<Rightarrow> 'd tally" where
  "empty_tally D = \<lparr>y_closedLong = 0, y_closedShort = 0, y_winners = 0, y_losers = 0,
     y_breakeven = 0, y_liquidated = 0, y_unmeasured = 0, y_pnlSum = d_of_int D 0,
     y_winPipSum = d_of_int D 0, y_lossPipSum = d_of_int D 0\<rparr>"

definition collect ::
  "('d, 'z) decimal_ops_scheme \<Rightarrow> ('d, 'f, 'y) float_ops_scheme \<Rightarrow> trade_manager \<Rightarrow> 'd \<Rightarrow> int \<Rightarrow> int
     \<Rightarrow> 'd trading_results_stats" where
  "collect D F tm startingBalance lastMonths primaryPointsPerPip =
     (let active = map snd (activeTrades tm);
          closedCount = length (closedTrades tm);
          activeLong = length (filter (\<lambda>t. t_direction t = LONG) active);
          activeShort = length (filter (\<lambda>t. t_direction t \<noteq> LONG) active);
          y = foldl (tally_trade D) (empty_tally D) (closedTrades tm);
          maxDropPips = (if primaryPointsPerPip \<noteq> 0
                         then d_div D (d_of_int D (maxDrawdownPoints tm)) (d_of_int D primaryPointsPerPip)
                         else d_of_int D 0);
          zero = d_of_int D 0;
          stats = \<lparr>finalPnl = y_pnlSum y, tradesOpened = length active + closedCount,
                   tradesClosed = closedCount, openedLong = activeLong + y_closedLong y,
                   openedShort = activeShort + y_closedShort y, closedLong = y_closedLong y,
                   closedShort = y_closedShort y, winners = y_winners y, losers = y_losers y,
                   breakeven = y_breakeven y, liquidated = y_liquidated y,
                   avgPnl = (if closedCount = 0 then None
                             else Some (d_div D (y_pnlSum y) (d_of_int D (int closedCount)))),
                   performanceScore = zero, winRate = zero, tradeRatio = zero,
                   expectancyScore = zero, calmarScore = zero, confidenceMultiplier = zero,
                   maxDrawdownPercent = zero\<rparr>
      in computePerformanceScore F stats startingBalance lastMonths
           (y_winPipSum y) (y_lossPipSum y) maxDropPips)"

subsection \<open>The counters\<close>

lemma computePerformanceScore_frame [simp]:
  fixes stats :: "'d trading_results_stats"
  shows "finalPnl (computePerformanceScore F stats b m w l x) = finalPnl stats"
    "tradesOpened (computePerformanceScore F stats b m w l x) = tradesOpened stats"
    "tradesClosed (computePerformanceScore F stats b m w l x) = tradesClosed stats"
    "openedLong (computePerformanceScore F stats b m w l x) = openedLong stats"
    "openedShort (computePerformanceScore F stats b m w l x) = openedShort stats"
    "closedLong (computePerformanceScore F stats b m w l x) = closedLong stats"
    "closedShort (computePerformanceScore F stats b m w l x) = closedShort stats"
    "winners (computePerformanceScore F stats b m w l x) = winners stats"
    "losers (computePerformanceScore F stats b m w l x) = losers stats"
    "breakeven (computePerformanceScore F stats b m w l x) = breakeven stats"
    "liquidated (computePerformanceScore F stats b m w l x) = liquidated stats"
  by (simp_all add: computePerformanceScore_def Let_def)

lemma tally_trade_counts [simp]:
  "y_closedLong (tally_trade D y t) = y_closedLong y + (if t_direction t = LONG then 1 else 0)"
  "y_closedShort (tally_trade D y t) = y_closedShort y + (if t_direction t = LONG then 0 else 1)"
  "y_liquidated (tally_trade D y t) = y_liquidated y + (if t_liquidated t then 1 else 0)"
  "y_winners (tally_trade D y t) = y_winners y + (if t_scalingFactor t \<noteq> 0 \<and> 0 < t_pnl t then 1 else 0)"
  "y_losers (tally_trade D y t) = y_losers y + (if t_scalingFactor t \<noteq> 0 \<and> t_pnl t < 0 then 1 else 0)"
  "y_breakeven (tally_trade D y t) = y_breakeven y + (if t_scalingFactor t \<noteq> 0 \<and> t_pnl t = 0 then 1 else 0)"
  by (simp_all add: tally_trade_def Let_def)

lemma tally_counts:
  "y_closedLong (foldl (tally_trade D) (empty_tally D) ts) = length (filter (\<lambda>t. t_direction t = LONG) ts)"
  "y_closedShort (foldl (tally_trade D) (empty_tally D) ts) = length (filter (\<lambda>t. t_direction t \<noteq> LONG) ts)"
  "y_liquidated (foldl (tally_trade D) (empty_tally D) ts) = length (filter t_liquidated ts)"
  "y_winners (foldl (tally_trade D) (empty_tally D) ts) =
     length (filter (\<lambda>t. t_scalingFactor t \<noteq> 0 \<and> 0 < t_pnl t) ts)"
  "y_losers (foldl (tally_trade D) (empty_tally D) ts) =
     length (filter (\<lambda>t. t_scalingFactor t \<noteq> 0 \<and> t_pnl t < 0) ts)"
  "y_breakeven (foldl (tally_trade D) (empty_tally D) ts) =
     length (filter (\<lambda>t. t_scalingFactor t \<noteq> 0 \<and> t_pnl t = 0) ts)"
  by (induction ts rule: rev_induct) (simp_all add: empty_tally_def)

lemma filter_split: "length (filter P xs) + length (filter (\<lambda>x. \<not> P x) xs) = length xs"
  by (rule sum_length_filter_compl)

lemma outcome_split:
  "length (filter (\<lambda>t. t_scalingFactor t \<noteq> 0 \<and> 0 < t_pnl t) ts)
   + length (filter (\<lambda>t. t_scalingFactor t \<noteq> 0 \<and> t_pnl t < 0) ts)
   + length (filter (\<lambda>t. t_scalingFactor t \<noteq> 0 \<and> t_pnl t = 0) ts)
   = length (filter (\<lambda>t. t_scalingFactor t \<noteq> 0) ts)"
  by (induction ts) auto

text \<open>The reported counters partition the trades: every opened trade is long or short,
  every closed trade is long or short, and winners, losers and breakevens are exactly the
  closed trades of known scale with positive, negative and zero profit; nothing in the
  decimal or floating-point arithmetic can disturb them.\<close>

theorem collect_counters_partition:
  fixes D :: "('d, 'z) decimal_ops_scheme" and F :: "('d, 'f, 'y) float_ops_scheme"
  defines "s \<equiv> \<lambda>tm b m p. collect D F tm b m p"
  shows "tradesOpened (s tm b m p) = reviewAccount tm + length (closedTrades tm)
    \<and> tradesClosed (s tm b m p) = length (closedTrades tm)
    \<and> openedLong (s tm b m p) + openedShort (s tm b m p) = tradesOpened (s tm b m p)
    \<and> closedLong (s tm b m p) + closedShort (s tm b m p) = tradesClosed (s tm b m p)
    \<and> winners (s tm b m p) = length (filter (\<lambda>t. t_scalingFactor t \<noteq> 0 \<and> 0 < t_pnl t) (closedTrades tm))
    \<and> losers (s tm b m p) = length (filter (\<lambda>t. t_scalingFactor t \<noteq> 0 \<and> t_pnl t < 0) (closedTrades tm))
    \<and> winners (s tm b m p) + losers (s tm b m p) + breakeven (s tm b m p)
        = length (filter (\<lambda>t. t_scalingFactor t \<noteq> 0) (closedTrades tm))
    \<and> liquidated (s tm b m p) = length (filter t_liquidated (closedTrades tm))"
  using filter_split [of "\<lambda>t. t_direction t = LONG" "closedTrades tm"]
    filter_split [of "\<lambda>t. t_direction t = LONG" "map snd (activeTrades tm)"]
    outcome_split [of "closedTrades tm"]
  by (simp add: s_def collect_def Let_def tally_counts reviewAccount_def)

subsection \<open>The score over exact arithmetic\<close>

definition pips_real :: "trade \<Rightarrow> real" where
  "pips_real t = real_of_int (t_pnl t) / real_of_int (t_scalingFactor t)"

lemma tally_trade_real:
  "y_pnlSum (tally_trade real_dec y t) = y_pnlSum y + (if t_scalingFactor t = 0 then 0 else pips_real t)"
  "y_winPipSum (tally_trade real_dec y t) =
     y_winPipSum y + (if t_scalingFactor t \<noteq> 0 \<and> 0 < t_pnl t then pips_real t else 0)"
  "y_lossPipSum (tally_trade real_dec y t) =
     y_lossPipSum y + (if t_scalingFactor t \<noteq> 0 \<and> t_pnl t < 0 then pips_real t else 0)"
  by (simp_all add: tally_trade_def Let_def real_dec_def pips_real_def)

lemma pips_real_sign:
  "0 \<le> t_scalingFactor t \<Longrightarrow> 0 < t_pnl t \<Longrightarrow> 0 \<le> pips_real t"
  "0 \<le> t_scalingFactor t \<Longrightarrow> t_pnl t < 0 \<Longrightarrow> pips_real t \<le> 0"
  "t_pnl t = 0 \<Longrightarrow> pips_real t = 0"
  by (auto simp: pips_real_def intro: divide_nonneg_nonneg divide_nonpos_nonneg)

lemma tally_real:
  fixes ts
  defines "y \<equiv> foldl (tally_trade real_dec) (empty_tally real_dec) ts"
  assumes "\<forall>t \<in> set ts. 0 \<le> t_scalingFactor t"
  shows "y_pnlSum y = y_winPipSum y + y_lossPipSum y \<and> 0 \<le> y_winPipSum y \<and> y_lossPipSum y \<le> 0
     \<and> (y_winners y = 0 \<longrightarrow> y_winPipSum y = 0) \<and> (y_losers y = 0 \<longrightarrow> y_lossPipSum y = 0)"
  using assms(2) unfolding y_def
proof (induction ts rule: rev_induct)
  case (snoc t ts)
  have sf: "0 \<le> t_scalingFactor t" using snoc.prems by simp
  consider "t_scalingFactor t = 0" | "0 < t_pnl t" | "t_pnl t < 0" | "t_pnl t = 0" by linarith
  then show ?case
    using snoc pips_real_sign(1,2) [OF sf] pips_real_sign(3) [of t]
    by cases (simp_all add: tally_trade_real)
qed (simp add: empty_tally_def real_dec_def)

text \<open>The score's two parts share the sign of the net profit: per-trade expectancy times the
  closed count is the net profit, and so is the numerator of the growth rate.\<close>

lemma expectancy_is_mean:
  fixes w l n p q :: real
  assumes "0 < n" "0 \<le> w" "l \<le> 0" "0 \<le> p" "0 \<le> q" "p = 0 \<Longrightarrow> w = 0" "q = 0 \<Longrightarrow> l = 0"
  shows "(if 0 < p then w / p else 0) * (p / n) - (if 0 < q then \<bar>l / q\<bar> else 0) * (q / n) = (w + l) / n"
proof -
  have "(if 0 < p then w / p else 0) * (p / n) = w / n" using assms by auto
  moreover have "(if 0 < q then \<bar>l / q\<bar> else 0) * (q / n) = - l / n"
    using assms by (auto simp: abs_if field_simps)
  ultimately show ?thesis by (simp add: add_divide_distrib)
qed

definition score_gain :: "real \<Rightarrow> real \<Rightarrow> real \<Rightarrow> real \<Rightarrow> real \<Rightarrow> real" where
  "score_gain n tot b years dd =
     (1 / n / b * 100 * sqrt tot * 25 * (5 / 10) + 1 / b / years * 100 / max dd 2 * (50 / 3) * (5 / 10))
     * confidence real_float tot years"

lemma confidence_pos: "0 < confidence real_float tot years"
  by (simp add: confidence_def real_float_def Let_def)

lemma score_gain_pos:
  assumes "0 < n" "0 < b" "0 < years" "0 \<le> tot"
  shows "0 < score_gain n tot b years dd"
proof -
  have "0 \<le> 1 / n / b * 100 * sqrt tot * 25 * (5 / 10)" using assms by simp
  moreover have "0 < 1 / b / years * 100 / max dd 2 * (50 / 3) * (5 / 10)"
    using assms by (simp add: max_def)
  ultimately have "0 < 1 / n / b * 100 * sqrt tot * 25 * (5 / 10) + 1 / b / years * 100 / max dd 2 * (50 / 3) * (5 / 10)"
    by linarith
  then show ?thesis unfolding score_gain_def using confidence_pos by (rule mult_pos_pos)
qed

lemma performanceScore_real:
  fixes stats :: "real trading_results_stats"
  assumes "tradesClosed stats \<noteq> 0" "0 < b" "0 < m" "0 < winners stats + losers stats"
    and "finalPnl stats = w + l" "0 \<le> w" "l \<le> 0" "winners stats = 0 \<longrightarrow> w = 0" "losers stats = 0 \<longrightarrow> l = 0"
  shows "performanceScore (computePerformanceScore real_float stats b m w l x) =
     finalPnl stats * score_gain (tradesClosed stats) (real (winners stats) + real (losers stats)) b
       (real_of_int m / 12) (x / b * 100)"
proof -
  let ?n = "real (tradesClosed stats)" and ?p = "real (winners stats)" and ?q = "real (losers stats)"
  let ?e = "(if 0 < ?p then w / ?p else 0) * (?p / ?n) - (if 0 < ?q then \<bar>l / ?q\<bar> else 0) * (?q / ?n)"
  have e: "?e = finalPnl stats / ?n"
    using assms expectancy_is_mean [of ?n w l ?p ?q] by simp
  have tot: "?p + ?q \<noteq> 0" using assms(4) by linarith
  have "performanceScore (computePerformanceScore real_float stats b m w l x) =
     (?e / b * 100 * sqrt (?p + ?q) * (50 / 2) * (5 / 10)
      + finalPnl stats / b / (real_of_int m / 12) * 100 / (if x / b * 100 < 2 then 2 else x / b * 100)
          * (50 / 3) * (5 / 10)) * confidence real_float (?p + ?q) (real_of_int m / 12)"
    unfolding computePerformanceScore_def Let_def finiteOr0_def
    using assms(1-3) tot by (simp add: real_float_def cong: if_cong)
  also have "\<dots> = finalPnl stats * score_gain ?n (?p + ?q) b (real_of_int m / 12) (x / b * 100)"
    unfolding e score_gain_def max_def by (simp add: algebra_simps not_less)
  finally show ?thesis .
qed

text \<open>Over exact arithmetic the performance score has the sign of the run's net profit in
  pips, whenever the run is scoreable (positive balance and horizon, at least one decisive
  trade): a gate that demands a positive score never advances a run that did not make money.\<close>

theorem performance_score_sign:
  fixes tm :: trade_manager and b :: real and m ppp :: int
  defines "s \<equiv> collect real_dec real_float tm b m ppp"
  assumes "0 < b" "0 < m" "0 < winners s + losers s"
    and "\<forall>t \<in> set (closedTrades tm). 0 \<le> t_scalingFactor t"
  shows "sgn (performanceScore s) = sgn (finalPnl s)"
proof -
  let ?y = "foldl (tally_trade real_dec) (empty_tally real_dec) (closedTrades tm)"
  obtain stats x where s: "s = computePerformanceScore real_float stats b m (y_winPipSum ?y) (y_lossPipSum ?y) x"
    and st: "finalPnl stats = y_pnlSum ?y" "tradesClosed stats = length (closedTrades tm)"
      "winners stats = y_winners ?y" "losers stats = y_losers ?y"
    by (simp add: s_def collect_def Let_def)
  have "0 < winners stats + losers stats" using assms(4) by (simp add: s)
  moreover have "closedTrades tm \<noteq> []"
    using calculation st by (auto simp: empty_tally_def)
  ultimately have "performanceScore s = finalPnl s * score_gain (length (closedTrades tm))
      (real (winners stats) + real (losers stats)) b (real_of_int m / 12) (x / b * 100)"
    using tally_real [OF assms(5)] st assms(2,3) unfolding s
    by (subst performanceScore_real) auto
  moreover have "0 < score_gain (length (closedTrades tm)) (real (winners stats) + real (losers stats)) b
      (real_of_int m / 12) (x / b * 100)"
    using assms(2,3) \<open>closedTrades tm \<noteq> []\<close> by (intro score_gain_pos) auto
  ultimately show ?thesis by (simp add: sgn_mult)
qed

definition one_win :: trade_manager where
  "one_win = (new_trade_manager 0)\<lparr>closedTrades := [(new_trade 0 1 LONG ''EURUSD'')\<lparr>t_pnl := 250, t_scalingFactor := 10\<rparr>]\<rparr>"

theorem performance_score_sign_witness:
  "0 < performanceScore (collect real_dec real_float one_win 10000 6 10)"
proof -
  have "winners (collect real_dec real_float one_win 10000 6 10) = 1"
    and "finalPnl (collect real_dec real_float one_win 10000 6 10) = 25"
    by (simp_all add: collect_def Let_def one_win_def tally_trade_real)
      (simp_all add: tally_trade_def Let_def empty_tally_def real_dec_def pips_real_def)
  moreover have "\<forall>t \<in> set (closedTrades one_win). 0 \<le> t_scalingFactor t" by (simp add: one_win_def)
  ultimately show ?thesis
    using performance_score_sign [of 10000 6 one_win 10] by (simp add: sgn_1_pos)
qed

end
