(* ===== verification/RunLoop.thy ===== *)
theory RunLoop
  imports Strategy EntryConditions MarketHours ResultsSummary
begin

section \<open>The backtest loop\<close>

text \<open>
  \<open>source/run/trading/runLoop.cppm\<close>: the per-tick loop of a backtest. One tick marks the
  open trade to market, applies its stop and limit, feeds the bars, checks the loss limit,
  tries an entry behind the gates, and runs the strategy's management hook. The loop's state
  is a record; a hook or the bar store may fail, and then the run fails. The hash map's
  iteration order and the decimal and floating-point operations are the arguments \<open>order\<close>,
  \<open>D\<close> and \<open>F\<close>.
\<close>

record 'd risk_limits =
  k_startingBalance :: 'd
  k_maxLossPercent :: 'd
  k_maxOpenTrades :: int
  k_maxTradesPerMinute :: int
  k_peakHoursOnly :: bool
  k_pointsPerPip :: int
  k_minPerformanceScore :: 'd
  k_minDecisiveTrades :: int
  k_lastMonths :: int

datatype run_status = Completed | LossLimitBreached | Underperformed

record 's run_state =
  l_tm :: trade_manager
  l_strategy :: 's
  l_bars :: bar_store
  l_recentOpens :: "time list"

definition pnlFloorPoints :: "('d, 'z) decimal_ops_scheme \<Rightarrow> trading_variables \<Rightarrow> 'd risk_limits \<Rightarrow> int" where
  "pnlFloorPoints D vars limits =
     (let sizeScale = max 1 (tv_TRADING_SIZE vars);
          budget = d_to_int64 D (d_mult D (d_div D (d_mult D (k_startingBalance limits) (k_maxLossPercent limits))
                                                (d_of_int D 100)) (d_of_int D (k_pointsPerPip limits)))
      in i64 (i64 (- budget) * sizeScale))"

definition lossLimitBreached ::
  "('d, 'z) decimal_ops_scheme \<Rightarrow> trading_variables \<Rightarrow> 'd risk_limits \<Rightarrow> trade_manager \<Rightarrow> bool" where
  "lossLimitBreached D vars limits tm \<longleftrightarrow>
     d_less D (d_of_int D 0) (k_maxLossPercent limits)
     \<and> i64 (calculatePnl tm + unrealizedPnl tm) \<le> pnlFloorPoints D vars limits"

text \<open>The entry attempt of one tick: the gates, the ATR conditions, the signal, the order.\<close>

definition evict_opens :: "'d risk_limits \<Rightarrow> time \<Rightarrow> time list \<Rightarrow> time list" where
  "evict_opens limits now recentOpens =
     (if k_maxTradesPerMinute limits > 0
      then dropWhile (\<lambda>t. now - t \<ge> minutes_us 1) recentOpens else recentOpens)"

definition entry_gates :: "'d risk_limits \<Rightarrow> price_data \<Rightarrow> 's run_state \<Rightarrow> bool" where
  "entry_gates limits tick st \<longleftrightarrow>
     (\<not> k_peakHoursOnly limits \<or> tradePermitted (p_symbol tick) (p_timestamp tick))
     \<and> (k_maxOpenTrades limits \<le> 0 \<or> reviewAccount (l_tm st) < nat (k_maxOpenTrades limits))
     \<and> (k_maxTradesPerMinute limits \<le> 0
        \<or> length (l_recentOpens st) < nat (k_maxTradesPerMinute limits))
     \<and> \<not> hasActiveTradeForSymbol (l_tm st) (p_symbol tick)"

definition try_entry ::
  "'s strategy \<Rightarrow> trading_variables \<Rightarrow> 'd risk_limits \<Rightarrow> series_spec option \<Rightarrow> price_data
     \<Rightarrow> 's run_state \<Rightarrow> 's run_state result" where
  "try_entry strat vars limits gateSeries tick st =
     (if \<not> entry_gates limits tick st then Inr st
      else case (case gateSeries of
                   None \<Rightarrow> Inr (Some \<lparr>stopPips = tv_STOP_DISTANCE_IN_ATR vars,
                                      limitPips = tv_LIMIT_DISTANCE_IN_ATR vars\<rparr>)
                 | Some gate \<Rightarrow> check_entry (l_bars st) gate tick
                     (tv_STOP_DISTANCE_IN_ATR vars) (tv_LIMIT_DISTANCE_IN_ATR vars)) of
             Inl e \<Rightarrow> Inl e
           | Inr None \<Rightarrow> Inr st
           | Inr (Some d) \<Rightarrow>
               (case sg_decide strat (l_strategy st) tick (l_bars st) of
                  Inl e \<Rightarrow> Inl e
                | Inr (None, s) \<Rightarrow> Inr (st\<lparr>l_strategy := s\<rparr>)
                | Inr (Some dir, s) \<Rightarrow>
                    Inr (st\<lparr>l_strategy := s,
                            l_tm := snd (openTrade (l_tm st) tick (tv_TRADING_SIZE vars) dir
                                           (stopPips d) (limitPips d)),
                            l_recentOpens := (if k_maxTradesPerMinute limits > 0
                                              then l_recentOpens st @ [p_timestamp tick]
                                              else l_recentOpens st)\<rparr>)))"

text \<open>One iteration: \<open>(True, st)\<close> is the early return on a breach.\<close>

definition tick_step ::
  "map_order \<Rightarrow> ('d, 'z) decimal_ops_scheme \<Rightarrow> db_ctx \<Rightarrow> 's strategy \<Rightarrow> trading_variables \<Rightarrow> 'd risk_limits
     \<Rightarrow> series_spec option \<Rightarrow> price_data \<Rightarrow> 's run_state \<Rightarrow> (bool \<times> 's run_state) result" where
  "tick_step order D ctx strat vars limits gateSeries tick st =
     (let st = st\<lparr>l_tm := reviewStopAndLimit (markToMarket (l_tm st) tick) tick\<rparr> in
      case store_update ctx tick (l_bars st) of
        Inl e \<Rightarrow> Inl e
      | Inr bars \<Rightarrow>
          (let st = st\<lparr>l_bars := bars\<rparr> in
           if lossLimitBreached D vars limits (l_tm st)
           then Inr (True, st\<lparr>l_tm := closeAllTrades order (l_tm st) tick True\<rparr>)
           else case try_entry strat vars limits gateSeries tick
                       (st\<lparr>l_recentOpens := evict_opens limits (p_timestamp tick) (l_recentOpens st)\<rparr>) of
             Inl e \<Rightarrow> Inl e
           | Inr st \<Rightarrow>
               (case sg_during strat (l_strategy st) tick (l_bars st) (l_tm st) of
                  Inl e \<Rightarrow> Inl e
                | Inr (tm, s) \<Rightarrow> Inr (False, st\<lparr>l_tm := tm, l_strategy := s\<rparr>))))"

fun tick_loop ::
  "map_order \<Rightarrow> ('d, 'z) decimal_ops_scheme \<Rightarrow> db_ctx \<Rightarrow> 's strategy \<Rightarrow> trading_variables \<Rightarrow> 'd risk_limits
     \<Rightarrow> series_spec option \<Rightarrow> price_data list \<Rightarrow> 's run_state \<Rightarrow> (bool \<times> 's run_state) result" where
  "tick_loop order D ctx strat vars limits gateSeries [] st = Inr (False, st)"
| "tick_loop order D ctx strat vars limits gateSeries (tick # ticks) st =
     (case tick_step order D ctx strat vars limits gateSeries tick st of
        Inl e \<Rightarrow> Inl e
      | Inr (True, st') \<Rightarrow> Inr (True, st')
      | Inr (False, st') \<Rightarrow> tick_loop order D ctx strat vars limits gateSeries ticks st')"

definition performance_gate ::
  "('d, 'z) decimal_ops_scheme \<Rightarrow> ('d, 'f, 'y) float_ops_scheme \<Rightarrow> 'd risk_limits \<Rightarrow> trade_manager \<Rightarrow> run_status"
where
  "performance_gate D F limits tm =
     (let scoreActive = d_less D (d_of_int D 0) (k_minPerformanceScore limits);
          countActive = k_minDecisiveTrades limits > 0 in
      if scoreActive \<or> countActive then
        (let stats = collect D F tm (k_startingBalance limits) (k_lastMonths limits) (k_pointsPerPip limits) in
         if countActive \<and> winners stats + losers stats \<le> nat (k_minDecisiveTrades limits)
         then Underperformed
         else if scoreActive \<and> d_leq D (performanceScore stats) (k_minPerformanceScore limits)
         then Underperformed
         else Completed)
      else Completed)"

definition runTicks ::
  "map_order \<Rightarrow> ('d, 'z) decimal_ops_scheme \<Rightarrow> ('d, 'f, 'y) float_ops_scheme \<Rightarrow> db_ctx \<Rightarrow> 's strategy
     \<Rightarrow> trade_manager \<Rightarrow> 's \<Rightarrow> price_data list \<Rightarrow> trading_variables \<Rightarrow> 'd risk_limits
     \<Rightarrow> bar_store option \<Rightarrow> series_spec option \<Rightarrow> (run_status \<times> 's run_state) result" where
  "runTicks order D F ctx strat tm s ticks vars limits barStore gateSeries =
     (let sharedBars = (case barStore of None \<Rightarrow> new_bar_store | Some store \<Rightarrow> store);
          st = \<lparr>l_tm = tm, l_strategy = s, l_bars = sharedBars, l_recentOpens = []\<rparr> in
      case tick_loop order D ctx strat vars limits gateSeries ticks st of
        Inl e \<Rightarrow> Inl e
      | Inr (True, st) \<Rightarrow> Inr (LossLimitBreached, st)
      | Inr (False, st) \<Rightarrow>
          if lossLimitBreached D vars limits (l_tm st)
          then Inr (LossLimitBreached,
                    if ticks = [] then st
                    else st\<lparr>l_tm := closeAllTrades order (l_tm st) (last ticks) True\<rparr>)
          else let st = (if ticks = [] then st
                         else st\<lparr>l_tm := closeAllTrades order (l_tm st) (last ticks) False\<rparr>)
               in Inr (performance_gate D F limits (l_tm st), st))"

subsection \<open>Entries on the books\<close>

lemma map_update_same:
  "map_of al k = Some v0 \<Longrightarrow> f (k, v) = f (k, v0) \<Longrightarrow> map f (AList.update k v al) = map f al"
  by (induction al) auto

lemma opens_markToMarket [simp]: "opens (markToMarket tm tick) = opens tm"
proof (cases "map_of (activeTrades tm) (p_symbol tick)")
  case (Some t)
  let ?f = "\<lambda>p. (t_symbol (snd p), t_openTime (snd p))"
  have "map ?f (AList.update (p_symbol tick) (t\<lparr>t_floatingPnl := x, t_lastMarkPrice := y\<rparr>) (activeTrades tm))
      = map ?f (activeTrades tm)" for x y
    by (rule map_update_same [OF Some]) simp
  then show ?thesis
    using Some by (simp add: opens_def markToMarket_def Let_def comp_def)
qed (simp add: markToMarket_def)

lemma open_symbols_markToMarket [simp]: "open_symbols (markToMarket tm tick) = open_symbols tm"
proof (cases "map_of (activeTrades tm) (p_symbol tick)")
  case (Some t)
  have "map fst (AList.update (p_symbol tick) v (activeTrades tm)) = map fst (activeTrades tm)" for v
    by (rule map_update_same [OF Some]) simp
  then have "fst ` set (AList.update (p_symbol tick) v (activeTrades tm)) = fst ` set (activeTrades tm)" for v
    by (metis list.set_map)
  then show ?thesis using Some by (simp add: open_symbols_def markToMarket_def Let_def)
qed (simp add: markToMarket_def)

lemma opens_openTrade:
  assumes "\<not> hasActiveTradeForSymbol tm (p_symbol tick)"
  shows "opens (snd (openTrade tm tick sz dir sp lp)) = add_mset (p_symbol tick, p_timestamp tick) (opens tm)"
    and "open_symbols (snd (openTrade tm tick sz dir sp lp)) = insert (p_symbol tick) (open_symbols tm)"
proof -
  have none: "map_of (activeTrades tm) (p_symbol tick) = None"
    using assms by (simp add: hasActiveTradeForSymbol_def)
  have t: "t_openTime (build_trade sl c tick sz dir sp lp) = p_timestamp tick" for sl c
    by (simp add: build_trade_def Let_def)
  show "opens (snd (openTrade tm tick sz dir sp lp)) = add_mset (p_symbol tick, p_timestamp tick) (opens tm)"
    "open_symbols (snd (openTrade tm tick sz dir sp lp)) = insert (p_symbol tick) (open_symbols tm)"
    using none t by (simp_all add: opens_def open_symbols_def openTrade_def Let_def comp_def)
qed

lemma reviewAccount_card: "tm_inv tm \<Longrightarrow> reviewAccount tm = card (open_symbols tm)"
  by (metis tm_inv_def reviewAccount_def open_symbols_def distinct_card length_map list.set_map)

lemma finite_open_symbols [simp]: "finite (open_symbols tm)"
  by (simp add: open_symbols_def)

subsection \<open>The sliding rate window\<close>

text \<open>\<open>entries\<close> are the entry times so far, \<open>recent\<close> the deque, \<open>now\<close> the current tick's time:
  what the deque no longer holds is at least a minute old, and no minute holds more than
  \<open>cap\<close> entries.\<close>

definition minute_load :: "time multiset \<Rightarrow> time \<Rightarrow> int" where
  "minute_load entries T = int (size {#e \<in># entries. T - minutes_us 1 < e \<and> e \<le> T#})"

definition rate_inv :: "int \<Rightarrow> time \<Rightarrow> time list \<Rightarrow> time multiset \<Rightarrow> bool" where
  "rate_inv cap now recent entries \<longleftrightarrow>
     (\<forall>e \<in># entries. e \<le> now)
     \<and> (\<exists>old. entries = mset recent + old \<and> (\<forall>e \<in># old. minutes_us 1 \<le> now - e))
     \<and> (\<forall>T. minute_load entries T \<le> cap)"

lemma rate_inv_advance:
  assumes "rate_inv cap now recent entries" "now \<le> now'"
  shows "rate_inv cap now' (dropWhile (\<lambda>t. minutes_us 1 \<le> now' - t) recent) entries"
proof -
  let ?P = "\<lambda>t. minutes_us 1 \<le> now' - t"
  obtain old where old: "entries = mset recent + old" "\<forall>e \<in># old. minutes_us 1 \<le> now - e"
    and rest: "\<forall>e \<in># entries. e \<le> now" "\<forall>T. minute_load entries T \<le> cap"
    using assms(1) by (auto simp: rate_inv_def)
  have "mset recent = mset (dropWhile ?P recent) + mset (takeWhile ?P recent)"
    by (metis add.commute mset_append takeWhile_dropWhile_id)
  then have "entries = mset (dropWhile ?P recent) + (mset (takeWhile ?P recent) + old)"
    using old(1) by simp
  moreover have "\<forall>e \<in># mset (takeWhile ?P recent) + old. ?P e"
    using old(2) assms(2) by (auto dest: set_takeWhileD)
  moreover have "\<forall>e \<in># entries. e \<le> now'" using rest(1) assms(2) by auto
  ultimately show ?thesis using rest(2) unfolding rate_inv_def by blast
qed

lemma rate_inv_time:
  assumes "rate_inv cap now recent entries" "now \<le> now'"
  shows "rate_inv cap now' recent entries"
proof -
  obtain old where "entries = mset recent + old" "\<forall>e \<in># old. minutes_us 1 \<le> now - e"
    using assms(1) by (auto simp: rate_inv_def)
  moreover have "\<forall>e \<in># old. minutes_us 1 \<le> now' - e" using calculation(2) assms(2) by auto
  moreover have "\<forall>e \<in># entries. e \<le> now'" using assms by (auto simp: rate_inv_def)
  ultimately show ?thesis using assms(1) unfolding rate_inv_def by blast
qed

lemma rate_inv_open:
  assumes "rate_inv cap now recent entries" "int (length recent) < cap"
  shows "rate_inv cap now (recent @ [now]) (add_mset now entries)"
proof -
  obtain old where old: "entries = mset recent + old" "\<forall>e \<in># old. minutes_us 1 \<le> now - e"
    and rest: "\<forall>e \<in># entries. e \<le> now" "\<forall>T. minute_load entries T \<le> cap"
    using assms(1) by (auto simp: rate_inv_def)
  have "minute_load (add_mset now entries) T \<le> cap" for T
  proof (cases "T - minutes_us 1 < now \<and> now \<le> T")
    case True
    then have none: "{#e \<in># old. T - minutes_us 1 < e \<and> e \<le> T#} = {#}"
      using old(2) by (force simp: filter_mset_eq_conv)
    have "minute_load entries T \<le> int (length recent)"
      unfolding minute_load_def old(1) filter_union_mset none
      using size_filter_mset_lesseq [of _ "mset recent"] by simp
    with True assms(2) show ?thesis by (simp add: minute_load_def)
  next
    case False
    with rest(2) show ?thesis by (auto simp: minute_load_def)
  qed
  moreover have "add_mset now entries = mset (recent @ [now]) + old" using old(1) by simp
  ultimately show ?thesis using old(2) rest(1) unfolding rate_inv_def by auto
qed

subsection \<open>The run invariant\<close>

definition run_inv :: "'d risk_limits \<Rightarrow> time \<Rightarrow> 's run_state \<Rightarrow> bool" where
  "run_inv limits now st \<longleftrightarrow>
     tm_inv (l_tm st)
     \<and> (0 < k_maxOpenTrades limits \<longrightarrow> int (reviewAccount (l_tm st)) \<le> k_maxOpenTrades limits)
     \<and> (k_peakHoursOnly limits \<longrightarrow> (\<forall>(s, t) \<in># opens (l_tm st). tradePermitted s t))
     \<and> (0 < k_maxTradesPerMinute limits \<longrightarrow>
          rate_inv (k_maxTradesPerMinute limits) now (l_recentOpens st) (image_mset snd (opens (l_tm st))))"

lemma run_inv_exit:
  assumes "run_inv limits now st" "exits_only (l_tm st) tm'"
  shows "run_inv limits now (st\<lparr>l_tm := tm', l_strategy := s\<rparr>)" "run_inv limits now (st\<lparr>l_tm := tm'\<rparr>)"
proof -
  have "reviewAccount tm' \<le> reviewAccount (l_tm st)"
    using assms reviewAccount_card card_mono [OF finite_open_symbols]
    by (metis exits_only_def run_inv_def)
  with assms show "run_inv limits now (st\<lparr>l_tm := tm', l_strategy := s\<rparr>)" "run_inv limits now (st\<lparr>l_tm := tm'\<rparr>)"
    by (auto simp: run_inv_def exits_only_def)
qed

lemma run_inv_marks:
  assumes "run_inv limits now st"
  shows "run_inv limits now (st\<lparr>l_tm := reviewStopAndLimit (markToMarket (l_tm st) tick) tick\<rparr>)"
proof -
  have "run_inv limits now (st\<lparr>l_tm := markToMarket (l_tm st) tick\<rparr>)"
    using assms by (auto simp: run_inv_def reviewAccount_def tm_inv_markToMarket)
  from run_inv_exit(2) [OF this, of "reviewStopAndLimit (markToMarket (l_tm st) tick) tick"] show ?thesis
    using assms by (simp add: exits_only_reviewStopAndLimit tm_inv_markToMarket run_inv_def)
qed

lemma run_inv_evict:
  assumes "run_inv limits now st" "now \<le> now'"
  shows "run_inv limits now' (st\<lparr>l_recentOpens := evict_opens limits now' (l_recentOpens st)\<rparr>)"
  using assms rate_inv_advance [OF _ assms(2)] by (simp add: run_inv_def evict_opens_def)

lemma run_inv_open:
  assumes inv: "run_inv limits (p_timestamp tick) st" and gates: "entry_gates limits tick st"
  shows "run_inv limits (p_timestamp tick) (st\<lparr>l_strategy := s,
     l_tm := snd (openTrade (l_tm st) tick sz dir sp lp),
     l_recentOpens := (if k_maxTradesPerMinute limits > 0 then l_recentOpens st @ [p_timestamp tick]
                       else l_recentOpens st)\<rparr>)"
proof -
  let ?tm = "snd (openTrade (l_tm st) tick sz dir sp lp)"
  have free: "\<not> hasActiveTradeForSymbol (l_tm st) (p_symbol tick)" using gates by (simp add: entry_gates_def)
  note book = opens_openTrade [OF free]
  have "activeTrades ?tm \<noteq> []" "reviewAccount ?tm = Suc (reviewAccount (l_tm st))"
    using free by (simp_all add: reviewAccount_def openTrade_active hasActiveTradeForSymbol_def)
  then have "0 < k_maxOpenTrades limits \<longrightarrow> int (reviewAccount ?tm) \<le> k_maxOpenTrades limits"
    using gates by (auto simp: entry_gates_def)
  moreover have "0 < k_maxTradesPerMinute limits \<longrightarrow>
      rate_inv (k_maxTradesPerMinute limits) (p_timestamp tick) (l_recentOpens st @ [p_timestamp tick])
        (image_mset snd (opens ?tm))"
    using inv gates rate_inv_open by (auto simp: run_inv_def entry_gates_def book)
  moreover have "k_peakHoursOnly limits \<longrightarrow> (\<forall>(s, t) \<in># opens ?tm. tradePermitted s t)"
    using inv gates by (auto simp: run_inv_def entry_gates_def book)
  moreover have "tm_inv ?tm" using inv by (simp add: run_inv_def tm_inv_openTrade)
  ultimately show ?thesis by (simp add: run_inv_def)
qed

lemma run_inv_try_entry:
  assumes "try_entry strat vars limits gate tick st = Inr st'" "run_inv limits (p_timestamp tick) st"
  shows "run_inv limits (p_timestamp tick) st'"
proof (cases "entry_gates limits tick st")
  case False
  with assms show ?thesis by (simp add: try_entry_def)
next
  case True
  have same: "run_inv limits (p_timestamp tick) (st\<lparr>l_strategy := s\<rparr>)" for s
    using assms(2) by (simp add: run_inv_def)
  show ?thesis
    using assms True same run_inv_open [OF assms(2) True]
    by (auto simp: try_entry_def split: option.splits sum.splits prod.splits)
qed

context strategy_contract
begin

lemma run_inv_tick_step:
  assumes step: "tick_step order D ctx strat vars limits gate tick st = Inr (b, st')"
    and inv: "run_inv limits now st" and time: "now \<le> p_timestamp tick"
  shows "run_inv limits (p_timestamp tick) st'"
proof -
  let ?st = "st\<lparr>l_tm := reviewStopAndLimit (markToMarket (l_tm st) tick) tick\<rparr>"
  obtain bars where bars: "store_update ctx tick (l_bars st) = Inr bars"
    using step by (auto simp: tick_step_def Let_def split: sum.splits)
  let ?sb = "?st\<lparr>l_bars := bars\<rparr>"
  let ?se = "?sb\<lparr>l_recentOpens := evict_opens limits (p_timestamp tick) (l_recentOpens ?sb)\<rparr>"
  have inv_sb: "run_inv limits now ?sb"
    using run_inv_marks [OF inv, of tick] by (simp add: run_inv_def)
  from run_inv_evict [OF this time] have inv_se: "run_inv limits (p_timestamp tick) ?se" .
  show ?thesis
  proof (cases "lossLimitBreached D vars limits (l_tm ?sb)")
    case True
    then have st': "st' = ?sb\<lparr>l_tm := closeAllTrades order (l_tm ?sb) tick True\<rparr>"
      using step bars by (simp add: tick_step_def Let_def)
    have "exits_only (l_tm ?sb) (closeAllTrades order (l_tm ?sb) tick True)"
      using inv_sb by (intro exits_only_closeAllTrades) (simp add: run_inv_def)
    then have ex: "run_inv limits now st'" using run_inv_exit(2) [OF inv_sb] by (simp add: st')
    have "0 < k_maxTradesPerMinute limits \<longrightarrow> rate_inv (k_maxTradesPerMinute limits) (p_timestamp tick)
        (l_recentOpens st') (image_mset snd (opens (l_tm st')))"
      using ex rate_inv_time [OF _ time] by (auto simp: run_inv_def)
    with ex show ?thesis by (simp add: run_inv_def)
  next
    case False
    then obtain st1 tm s where st1: "try_entry strat vars limits gate tick ?se = Inr st1"
      and during: "sg_during strat (l_strategy st1) tick (l_bars st1) (l_tm st1) = Inr (tm, s)"
      and st': "st' = st1\<lparr>l_tm := tm, l_strategy := s\<rparr>"
      using step bars by (auto simp: tick_step_def Let_def split: sum.splits prod.splits)
    have inv1: "run_inv limits (p_timestamp tick) st1" using run_inv_try_entry [OF st1 inv_se] .
    then have "exits_only (l_tm st1) tm"
      using during by (intro during_exits_only) (auto simp: run_inv_def)
    with inv1 show ?thesis unfolding st' by (rule run_inv_exit(1))
  qed
qed

lemma run_inv_tick_loop:
  assumes "tick_loop order D ctx strat vars limits gate ticks st = Inr (b, st')"
    and "run_inv limits now st" "sorted (now # map p_timestamp ticks)"
  shows "\<exists>now'. run_inv limits now' st'"
  using assms
proof (induction ticks arbitrary: st now)
  case (Cons tick ticks)
  then obtain b1 st1 where st1: "tick_step order D ctx strat vars limits gate tick st = Inr (b1, st1)"
    by (auto split: sum.splits)
  then have inv: "run_inv limits (p_timestamp tick) st1"
    using Cons.prems by (intro run_inv_tick_step [of _ _ _ _ _ _ _ _ b1]) auto
  show ?case
  proof (cases b1)
    case True
    with Cons.prems(1) st1 inv show ?thesis by auto
  next
    case False
    with Cons.prems st1 inv show ?thesis by (intro Cons.IH [of st1 "p_timestamp tick"]) auto
  qed
qed auto

lemma tick_loop_breach:
  assumes "tick_loop order D ctx strat vars limits gate ticks st = Inr (True, st')"
    and "run_inv limits now st" "sorted (now # map p_timestamp ticks)"
  shows "\<exists>tm tick. tm_inv tm \<and> lossLimitBreached D vars limits tm
           \<and> l_tm st' = closeAllTrades order tm tick True"
  using assms
proof (induction ticks arbitrary: st now)
  case (Cons tick ticks)
  then obtain b1 st1 where st1: "tick_step order D ctx strat vars limits gate tick st = Inr (b1, st1)"
    by (auto split: sum.splits)
  show ?case
  proof (cases b1)
    case True
    let ?tm = "reviewStopAndLimit (markToMarket (l_tm st) tick) tick"
    have "tm_inv ?tm" using Cons.prems(2) by (auto simp: run_inv_def intro: inv_intros)
    moreover have "lossLimitBreached D vars limits ?tm \<and> l_tm st1 = closeAllTrades order ?tm tick True"
      using st1 True by (auto simp: tick_step_def Let_def split: sum.splits if_splits prod.splits)
    moreover have "st' = st1" using Cons.prems(1) st1 True by simp
    ultimately show ?thesis by blast
  next
    case False
    have "run_inv limits (p_timestamp tick) st1"
      using st1 Cons.prems by (intro run_inv_tick_step [of _ _ _ _ _ _ _ _ b1]) auto
    with Cons.prems st1 False show ?thesis by (intro Cons.IH [of st1 "p_timestamp tick"]) auto
  qed
qed auto

end

definition start_state :: "trade_manager \<Rightarrow> 's \<Rightarrow> bar_store \<Rightarrow> 's run_state" where
  "start_state tm s store = \<lparr>l_tm = tm, l_strategy = s, l_bars = store, l_recentOpens = []\<rparr>"

lemma run_inv_start: "run_inv limits now (start_state (new_trade_manager slip) s store)"
  by (auto simp: run_inv_def start_state_def rate_inv_def minute_load_def opens_def new_trade_manager_def
      tm_inv_def reviewAccount_def)

lemma run_inv_runTicks:
  assumes "strategy_contract strat" "sorted (map p_timestamp ticks)"
    and "runTicks order D F ctx strat (new_trade_manager slip) s ticks vars limits bars gate = Inr (status, st')"
  shows "\<exists>now. run_inv limits now st'"
proof -
  let ?st = "start_state (new_trade_manager slip) s (case bars of None \<Rightarrow> new_bar_store | Some store \<Rightarrow> store)"
  obtain b st1 where loop: "tick_loop order D ctx strat vars limits gate ticks ?st = Inr (b, st1)"
    and st': "st' = st1 \<or> st' = st1\<lparr>l_tm := closeAllTrades order (l_tm st1) (last ticks) True\<rparr>
        \<or> st' = st1\<lparr>l_tm := closeAllTrades order (l_tm st1) (last ticks) False\<rparr>"
    using assms(3) by (auto simp: runTicks_def start_state_def Let_def split: sum.splits bool.splits prod.splits if_splits)
  have "sorted ((if ticks = [] then 0 else p_timestamp (hd ticks)) # map p_timestamp ticks)"
    using assms(2) by (cases ticks) auto
  from strategy_contract.run_inv_tick_loop [OF assms(1) loop run_inv_start this]
  obtain now where inv: "run_inv limits now st1" by blast
  then have "exits_only (l_tm st1) (closeAllTrades order (l_tm st1) tick liq)" for tick liq
    by (intro exits_only_closeAllTrades) (simp add: run_inv_def)
  with inv st' run_inv_exit(2) show ?thesis by metis
qed

text \<open>A concrete run, evaluated: two symbols, whole-number arithmetic for the decimals, a
  strategy that always buys, and a cap of one entry per minute.\<close>

definition whole_dec :: "int decimal_ops" where
  "whole_dec = \<lparr>d_of_int = (\<lambda>x. x), d_to_int64 = (\<lambda>x. x), d_add = (\<lambda>x y. x + y), d_sub = (\<lambda>x y. x - y),
     d_mult = (\<lambda>x y. x * y), d_div = cdiv, d_less = (\<lambda>x y. x < y), d_leq = (\<lambda>x y. x \<le> y)\<rparr>"

definition whole_float :: "(int, int) float_ops" where
  "whole_float = \<lparr>f_of_dec = (\<lambda>x. x), f_to_dec = (\<lambda>x. x), f_lit = cdiv, f_add = (\<lambda>x y. x + y),
     f_sub = (\<lambda>x y. x - y), f_mult = (\<lambda>x y. x * y), f_div = cdiv, f_sqrt = (\<lambda>x. x), f_abs = abs,
     f_less = (\<lambda>x y. x < y), f_leq = (\<lambda>x y. x \<le> y), f_eq = (\<lambda>x y. x = y), f_isfinite = (\<lambda>_. True)\<rparr>"

definition demo_limits :: "int risk_limits" where
  "demo_limits = \<lparr>k_startingBalance = 10000, k_maxLossPercent = 5, k_maxOpenTrades = 2,
     k_maxTradesPerMinute = 1, k_peakHoursOnly = False, k_pointsPerPip = 10, k_minPerformanceScore = 0,
     k_minDecisiveTrades = 0, k_lastMonths = 6\<rparr>"

definition demo_vars :: trading_variables where
  "demo_vars = \<lparr>tv_STRATEGY = ''RandomStrategy'', tv_STOP_DISTANCE_IN_ATR = 10,
     tv_LIMIT_DISTANCE_IN_ATR = 20, tv_TRADING_SIZE = 1\<rparr>"

definition demo_ticks :: "price_data list" where
  "demo_ticks = [\<lparr>p_ask = 110010, p_bid = 110002, p_timestamp = 0, p_symbol = ''EURUSD''\<rparr>,
     \<lparr>p_ask = 65010, p_bid = 65002, p_timestamp = 1000000, p_symbol = ''AUDUSD''\<rparr>,
     \<lparr>p_ask = 65012, p_bid = 65004, p_timestamp = 61000000, p_symbol = ''AUDUSD''\<rparr>]"

definition demo_ctx :: db_ctx where
  "demo_ctx = \<lparr>ctx_getenv = (\<lambda>_. Some ''0''), ctx_queryOhlc = (\<lambda>_. Inl RuntimeError),
     ctx_executeQuery = (\<lambda>_. Inl RuntimeError)\<rparr>"

definition demo_coin :: "unit \<Rightarrow> bool \<times> unit" where
  "demo_coin rng = (True, rng)"

definition demo_run :: "(run_status \<times> unit run_state) result" where
  "demo_run = runTicks rev whole_dec whole_float demo_ctx (random_strategy demo_coin) (new_trade_manager 0)
     () demo_ticks demo_vars demo_limits None None"

lemma demo_run_value:
  "\<exists>st'. demo_run = Inr (Completed, st') \<and> calculatePnl (l_tm st') = - 16 \<and> activeTrades (l_tm st') = []
     \<and> map (\<lambda>t. (t_symbol t, t_openTime t)) (closedTrades (l_tm st')) = [(''EURUSD'', 0), (''AUDUSD'', 61000000)]"
proof -
  have "(case demo_run of Inr (r, st') \<Rightarrow> r = Completed \<and> calculatePnl (l_tm st') = - 16 \<and> activeTrades (l_tm st') = []
     \<and> map (\<lambda>t. (t_symbol t, t_openTime t)) (closedTrades (l_tm st')) = [(''EURUSD'', 0), (''AUDUSD'', 61000000)]
     | Inl _ \<Rightarrow> False)"
    by code_simp
  then show ?thesis by (auto split: sum.splits)
qed



text \<open>at every point of a run (after any prefix of its ticks) there is at most one open
  trade per symbol, the open-trade cap holds, and the account's running sums agree with the
  trades on the books.\<close>

theorem open_trades_within_cap:
  assumes "strategy_contract strat" "sorted (map p_timestamp ticks)"
    and "tick_loop order D ctx strat vars limits gate ticks
           (start_state (new_trade_manager slip) s store) = Inr (b, st')"
  shows "distinct (map fst (activeTrades (l_tm st'))) \<and> tm_inv (l_tm st')
    \<and> (0 < k_maxOpenTrades limits \<longrightarrow> int (reviewAccount (l_tm st')) \<le> k_maxOpenTrades limits)"
proof -
  have "sorted ((if ticks = [] then 0 else p_timestamp (hd ticks)) # map p_timestamp ticks)"
    using assms(2) by (cases ticks) auto
  from strategy_contract.run_inv_tick_loop [OF assms(1,3) run_inv_start this]
  show ?thesis by (auto simp: run_inv_def tm_inv_def)
qed

lemma demo_loop_value:
  "\<exists>st'. tick_loop rev whole_dec demo_ctx (random_strategy demo_coin) demo_vars demo_limits None demo_ticks
      (start_state (new_trade_manager 0) () new_bar_store) = Inr (False, st')
     \<and> reviewAccount (l_tm st') = 2"
proof -
  have "(case tick_loop rev whole_dec demo_ctx (random_strategy demo_coin) demo_vars demo_limits None demo_ticks
      (start_state (new_trade_manager 0) () new_bar_store) of
      Inr (b, st') \<Rightarrow> \<not> b \<and> reviewAccount (l_tm st') = 2 | Inl _ \<Rightarrow> False)"
    by code_simp
  then show ?thesis by (auto split: sum.splits)
qed

theorem open_trades_within_cap_witness:
  "\<exists>st'. tick_loop rev whole_dec demo_ctx (random_strategy demo_coin) demo_vars demo_limits None demo_ticks
      (start_state (new_trade_manager 0) () new_bar_store) = Inr (False, st')
     \<and> reviewAccount (l_tm st') = 2 \<and> distinct (map fst (activeTrades (l_tm st')))"
proof -
  have "sorted (map p_timestamp demo_ticks)" by (simp add: demo_ticks_def)
  moreover obtain st' where "tick_loop rev whole_dec demo_ctx (random_strategy demo_coin) demo_vars demo_limits None
      demo_ticks (start_state (new_trade_manager 0) () new_bar_store) = Inr (False, st')" "reviewAccount (l_tm st') = 2"
    using demo_loop_value by blast
  ultimately show ?thesis
    using open_trades_within_cap [OF random.strategy_contract_axioms, of demo_ticks rev whole_dec demo_ctx
        demo_coin demo_vars demo_limits None 0 "()" new_bar_store False st'] by auto
qed

subsection \<open>How a run ends\<close>

lemma lossLimitBreached_closed:
  assumes "tm_inv tm" "\<And>xs. mset (order xs) = mset xs"
  shows "lossLimitBreached D vars limits (closeAllTrades order tm tick liq) = lossLimitBreached D vars limits tm"
  using closeAllTrades_books [OF assms] assms(1)
  by (simp add: lossLimitBreached_def calculatePnl_def unrealizedPnl_def equity_def tm_inv_def)

lemma run_closes:
  assumes "strategy_contract strat" "sorted (map p_timestamp ticks)"
    and run: "runTicks order D F ctx strat (new_trade_manager slip) s ticks vars limits bars gate = Inr (status, st')"
    and ne: "ticks \<noteq> []"
  shows "\<exists>tm tick liq. tm_inv tm \<and> l_tm st' = closeAllTrades order tm tick liq
    \<and> status = (if lossLimitBreached D vars limits tm then LossLimitBreached else performance_gate D F limits (l_tm st'))"
proof -
  let ?st = "start_state (new_trade_manager slip) s (case bars of None \<Rightarrow> new_bar_store | Some store \<Rightarrow> store)"
  let ?breach = "lossLimitBreached D vars limits"
  obtain b st1 where loop: "tick_loop order D ctx strat vars limits gate ticks ?st = Inr (b, st1)"
    using run by (auto simp: runTicks_def start_state_def Let_def split: sum.splits)
  have sort: "sorted (p_timestamp (hd ticks) # map p_timestamp ticks)"
    using assms(2) ne by (cases ticks) auto
  obtain now where inv: "run_inv limits now st1"
    using strategy_contract.run_inv_tick_loop [OF assms(1) loop run_inv_start sort] by blast
  obtain tm tick liq where tm: "tm_inv tm" "l_tm st' = closeAllTrades order tm tick liq"
    and status: "status = (if ?breach tm then LossLimitBreached else performance_gate D F limits (l_tm st'))"
  proof (cases b)
    case True
    then have True_b: "b = True" by simp
    from strategy_contract.tick_loop_breach [OF assms(1) loop [unfolded True_b] run_inv_start sort]
    obtain tm tick where "tm_inv tm" "?breach tm" "l_tm st1 = closeAllTrades order tm tick True" by blast
    moreover have "status = LossLimitBreached \<and> st' = st1"
      using run loop True by (simp add: runTicks_def start_state_def Let_def)
    ultimately show ?thesis by (intro that [of tm tick True]) auto
  next
    case False
    have "tm_inv (l_tm st1)" using inv by (simp add: run_inv_def)
    with run loop False ne show ?thesis
      by (intro that [of "l_tm st1" "last ticks" "?breach (l_tm st1)"])
        (auto simp: runTicks_def start_state_def Let_def split: if_splits)
  qed
  then show ?thesis by blast
qed

text \<open>C30: a run over at least one tick ends flat, with every position closed and no floating
  profit, and it reports \<open>LossLimitBreached\<close> exactly when the loss limit is active and the
  realised profit it reports is at or below the floor; otherwise the status is the verdict of
  the performance gate on the final books.\<close>

theorem run_ends_flat_with_consistent_status:
  assumes "strategy_contract strat" "sorted (map p_timestamp ticks)" "\<And>xs. mset (order xs) = mset xs"
    and run: "runTicks order D F ctx strat (new_trade_manager slip) s ticks vars limits bars gate = Inr (status, st')"
    and ne: "ticks \<noteq> []"
  shows "activeTrades (l_tm st') = [] \<and> unrealizedPnl (l_tm st') = 0
    \<and> status = (if d_less D (d_of_int D 0) (k_maxLossPercent limits)
                    \<and> calculatePnl (l_tm st') \<le> pnlFloorPoints D vars limits
                 then LossLimitBreached else performance_gate D F limits (l_tm st'))"
proof -
  let ?breach = "lossLimitBreached D vars limits"
  obtain tm tick liq where tm: "tm_inv tm" "l_tm st' = closeAllTrades order tm tick liq"
    and status: "status = (if ?breach tm then LossLimitBreached else performance_gate D F limits (l_tm st'))"
    using run_closes [OF assms(1,2) run ne] by blast
  note books = closeAllTrades_books [OF tm(1) assms(3), of tick liq]
  have "in_i64 (closedPnl (l_tm st'))"
    using tm tm_inv_closeAllTrades [OF tm(1), of order tick liq] by (simp add: tm_inv_def)
  then have "?breach (l_tm st') \<longleftrightarrow> d_less D (d_of_int D 0) (k_maxLossPercent limits)
      \<and> calculatePnl (l_tm st') \<le> pnlFloorPoints D vars limits"
    using books tm(2) by (simp add: lossLimitBreached_def calculatePnl_def unrealizedPnl_def)
  moreover have "?breach (l_tm st') = ?breach tm"
    using lossLimitBreached_closed [OF tm(1) assms(3)] tm(2) by simp
  ultimately show ?thesis
    using status books tm(2) unfolding unrealizedPnl_def by simp
qed

theorem run_ends_flat_with_consistent_status_witness:
  "\<exists>st'. demo_run = Inr (Completed, st') \<and> activeTrades (l_tm st') = [] \<and> unrealizedPnl (l_tm st') = 0"
proof -
  obtain st' where run: "demo_run = Inr (Completed, st')" using demo_run_value by auto
  have "sorted (map p_timestamp demo_ticks)" "demo_ticks \<noteq> []" by (simp_all add: demo_ticks_def)
  with run_ends_flat_with_consistent_status [OF random.strategy_contract_axioms _ _ run [unfolded demo_run_def]] run
  have "activeTrades (l_tm st') = [] \<and> unrealizedPnl (l_tm st') = 0" by simp
  with run show ?thesis by blast
qed

end
