(* ===== verification/Sweep.thy ===== *)
theory Sweep
  imports SymbolScale Config
begin

section \<open>Parameter sweeps\<close>

text \<open>
  \<open>source/load/sweep\<close> and \<open>source/load/utility/symbolGroups.cppm\<close>: parameter ranges, the
  cartesian product of a sweep, eagerly expanded and lazily indexed, and the tokeniser of
  symbol groups. Doubles are the type \<open>'f\<close> with the operations of \<open>float_ops\<close>; the linear
  range's loop need not end in floating point, so its result is an option.
\<close>

subsection \<open>Ranges\<close>

datatype 'f parameter_range =
    LinearRange 'f 'f 'f
  | ExplicitRange "'f list"
  | ExponentialRange 'f 'f int

text \<open>\<open>for (value = start; value <= end + 1e-9; value += step)\<close>.\<close>

partial_function (option) linear_values ::
  "('f \<Rightarrow> bool) \<Rightarrow> ('f \<Rightarrow> 'f) \<Rightarrow> 'f \<Rightarrow> 'f list option" where
  "linear_values inside advance value =
     (if \<not> inside value then Some []
      else Option.bind (linear_values inside advance (advance value)) (\<lambda>vs. Some (value # vs)))"

fun exponential_values :: "('f \<Rightarrow> 'f) \<Rightarrow> 'f \<Rightarrow> nat \<Rightarrow> 'f list" where
  "exponential_values grow current 0 = []"
| "exponential_values grow current (Suc n) = current # exponential_values grow (grow current) n"

fun generateValues :: "('d, 'f, 'y) float_ops_scheme \<Rightarrow> 'f parameter_range \<Rightarrow> 'f list option" where
  "generateValues F (LinearRange start step end) =
     (if f_leq F step (f_lit F 0 1) then Some [start]
      else linear_values (\<lambda>value. f_leq F value (f_add F end (f_lit F 1 1000000000)))
             (\<lambda>value. f_add F value step) start)"
| "generateValues F (ExplicitRange vals) = Some vals"
| "generateValues F (ExponentialRange base multiplier iterations) =
     Some (exponential_values (\<lambda>current. f_mult F current multiplier) base (nat iterations))"

subsection \<open>Combinations\<close>

type_synonym 'f combination = "string \<rightharpoonup> 'f"

definition combo_has :: "'f combination \<Rightarrow> string \<Rightarrow> bool" where
  "combo_has c name \<longleftrightarrow> c name \<noteq> None"

definition combo_get :: "'f combination \<Rightarrow> string \<Rightarrow> 'f result" where
  "combo_get c name = (case c name of None \<Rightarrow> Inl OutOfRange | Some v \<Rightarrow> Inr v)"

definition combo_getInt :: "('f \<Rightarrow> int) \<Rightarrow> 'f combination \<Rightarrow> string \<Rightarrow> int result" where
  "combo_getInt lround c name =
     (case combo_get c name of Inl e \<Rightarrow> Inl e | Inr v \<Rightarrow> Inr (i32 (lround v)))"

definition combo_set :: "'f combination \<Rightarrow> string \<Rightarrow> 'f \<Rightarrow> 'f combination" where
  "combo_set c name value = c(name \<mapsto> value)"

subsection \<open>The generator\<close>

record 'f parameter_generator =
  g_ranges :: "(string \<times> 'f parameter_range) list"
  g_symbolGroups :: "string list"

definition addRange ::
  "'f parameter_generator \<Rightarrow> string \<Rightarrow> 'f parameter_range \<Rightarrow> 'f parameter_generator" where
  "addRange gen name rng = gen\<lparr>g_ranges := g_ranges gen @ [(name, rng)]\<rparr>"

text \<open>The value lists of all ranges, in registration order; \<open>None\<close> when a loop does not end.\<close>

fun range_values ::
  "('d, 'f, 'y) float_ops_scheme \<Rightarrow> (string \<times> 'f parameter_range) list \<Rightarrow> (string \<times> 'f list) list option"
where
  "range_values F [] = Some []"
| "range_values F ((name, rng) # rest) =
     (case generateValues F rng of
        None \<Rightarrow> None
      | Some vals \<Rightarrow> map_option (\<lambda>vs. (name, vals) # vs) (range_values F rest))"

definition expand_step :: "'f combination list \<Rightarrow> string \<times> 'f list \<Rightarrow> 'f combination list" where
  "expand_step result nv =
     concat (map (\<lambda>base. map (\<lambda>value. combo_set base (fst nv) value) (snd nv)) result)"

definition generateAllCombinations ::
  "('d, 'f, 'y) float_ops_scheme \<Rightarrow> 'f parameter_generator \<Rightarrow> 'f combination list option" where
  "generateAllCombinations F gen =
     map_option (foldl expand_step [Map.empty]) (range_values F (g_ranges gen))"

definition combinationCount :: "('d, 'f, 'y) float_ops_scheme \<Rightarrow> 'f parameter_generator \<Rightarrow> int option" where
  "combinationCount F gen =
     map_option (foldl (\<lambda>n nv. u64 (n * int (length (snd nv)))) 1) (range_values F (g_ranges gen))"

text \<open>The mixed-radix decoding, over the ranges in reverse; \<open>index % 0\<close> is undefined.\<close>

fun combo_loop :: "(string \<times> 'f list) list \<Rightarrow> nat \<Rightarrow> 'f combination \<Rightarrow> 'f combination result" where
  "combo_loop [] index combo = Inr combo"
| "combo_loop ((name, vals) # rest) index combo =
     (if vals = [] then Inl UndefinedBehaviour
      else combo_loop rest (index div length vals)
             (combo_set combo name (vals ! (index mod length vals))))"

definition combinationAt ::
  "('d, 'f, 'y) float_ops_scheme \<Rightarrow> 'f parameter_generator \<Rightarrow> nat \<Rightarrow> 'f combination result option" where
  "combinationAt F gen index =
     map_option (\<lambda>nvs. combo_loop (rev nvs) index Map.empty) (range_values F (g_ranges gen))"

definition rangeValueCounts ::
  "('d, 'f, 'y) float_ops_scheme \<Rightarrow> 'f parameter_generator \<Rightarrow> (string \<times> nat) list option" where
  "rangeValueCounts F gen =
     map_option (map (\<lambda>(name, vals). (name, length vals))) (range_values F (g_ranges gen))"

subsection \<open>Symbol groups\<close>

definition blank :: "char \<Rightarrow> bool" where
  "blank ch \<longleftrightarrow> ch = CHR '' '' \<or> ch = CHR 0x09"

definition trim :: "string \<Rightarrow> string" where
  "trim token = rev (dropWhile blank (rev (dropWhile blank token)))"

function splitSymbols :: "string \<Rightarrow> string list" where
  "splitSymbols grp =
     (let token = trim (takeWhile (\<lambda>ch. ch \<noteq> CHR '','') grp);
          rest = dropWhile (\<lambda>ch. ch \<noteq> CHR '','') grp;
          later = (if rest = [] then [] else splitSymbols (tl rest))
      in if token = [] then later else token # later)"
  by pat_completeness auto
termination
proof (relation "measure length", simp)
  fix grp token rest :: string
  assume "rest = dropWhile (\<lambda>ch. ch \<noteq> CHR '','') grp" "rest \<noteq> []"
  then have "length rest \<le> length grp" "0 < length rest" by (simp_all add: length_dropWhile_le)
  then show "(tl rest, grp) \<in> measure length" by (cases rest) auto
qed

declare splitSymbols.simps [simp del]

definition cleanSymbols :: "string \<Rightarrow> string" where
  "cleanSymbols grp =
     foldl (\<lambda>result symbol. (if result = [] then result else result @ '','') @ symbol) []
       (splitSymbols grp)"

definition allSymbolsKnown :: "string list \<Rightarrow> bool" where
  "allSymbolsKnown groups \<longleftrightarrow>
     list_all (\<lambda>grp. list_all (\<lambda>symbol. get_scale symbol \<noteq> kUnknown) (splitSymbols grp)) groups"

text \<open>The template's \<open>static_assert\<close> refuses to compile: no result.\<close>

definition setSymbolGroups ::
  "'f parameter_generator \<Rightarrow> string list \<Rightarrow> 'f parameter_generator option" where
  "setSymbolGroups gen groups =
     (if allSymbolsKnown groups then Some (gen\<lparr>g_symbolGroups := groups\<rparr>) else None)"

subsection \<open>The lazy decoder mirrors the eager expansion\<close>

lemma in_expand_step:
  "m \<in> set (expand_step result nv) \<longleftrightarrow>
   (\<exists>base \<in> set result. \<exists>v \<in> set (snd nv). m = combo_set base (fst nv) v)"
  by (auto simp: expand_step_def)

lemma foldl_expand_names:
  "m \<in> set (foldl expand_step [Map.empty] nvs) \<Longrightarrow> dom m = fst ` set nvs"
proof (induction nvs arbitrary: m rule: rev_induct)
  case (snoc nv nvs)
  then obtain base v where "base \<in> set (foldl expand_step [Map.empty] nvs)" "m = combo_set base (fst nv) v"
    by (auto simp: in_expand_step)
  with snoc.IH [of base] show ?case by (simp only: combo_set_def dom_fun_upd) simp
qed simp

lemma length_expand_step: "length (expand_step result nv) = length result * length (snd nv)"
  by (induction result) (simp_all add: expand_step_def)

lemma length_foldl_expand:
  "length (foldl expand_step result nvs) = length result * prod_list (map (\<lambda>nv. length (snd nv)) nvs)"
  by (induction nvs arbitrary: result) (simp_all add: length_expand_step)

lemma nth_expand_step:
  "i < length result * length (snd nv) \<Longrightarrow>
   expand_step result nv ! i = combo_set (result ! (i div length (snd nv))) (fst nv) (snd nv ! (i mod length (snd nv)))"
proof (induction result arbitrary: i)
  case (Cons base result)
  let ?n = "length (snd nv)"
  have step: "expand_step (base # result) nv = map (combo_set base (fst nv)) (snd nv) @ expand_step result nv"
    by (simp add: expand_step_def)
  show ?case
  proof (cases "i < ?n")
    case True
    then show ?thesis by (simp add: step nth_append)
  next
    case False
    then have n: "0 < ?n" "i - ?n < length result * ?n" using Cons.prems by (auto simp: not_less intro: Nat.gr0I)
    moreover have "i div ?n = Suc ((i - ?n) div ?n)" "i mod ?n = (i - ?n) mod ?n"
      using False n(1) by (simp_all add: le_div_geq le_mod_geq)
    ultimately show ?thesis using False Cons.IH [of "i - ?n"] by (simp add: step nth_append)
  qed
qed simp

lemma combo_loop_overlay:
  "combo_loop nvs i c = (case combo_loop nvs i Map.empty of Inl e \<Rightarrow> Inl e | Inr m \<Rightarrow> Inr (c ++ m))"
proof (induction nvs arbitrary: i c)
  case (Cons nv nvs)
  obtain name vals where nv: "nv = (name, vals)" by (cases nv)
  show ?case
  proof (cases "vals = []")
    case False
    let ?c = "combo_set c name (vals ! (i mod length vals))"
    let ?e = "combo_set Map.empty name (vals ! (i mod length vals))"
    have "combo_loop nvs (i div length vals) ?c =
      (case combo_loop nvs (i div length vals) Map.empty of Inl e \<Rightarrow> Inl e | Inr m \<Rightarrow> Inr (?c ++ m))"
      by (rule Cons.IH)
    moreover have "combo_loop nvs (i div length vals) ?e =
      (case combo_loop nvs (i div length vals) Map.empty of Inl e \<Rightarrow> Inl e | Inr m \<Rightarrow> Inr (?e ++ m))"
      by (rule Cons.IH)
    moreover have "c ++ (?e ++ m) = ?c ++ m" for m
      by (auto simp: combo_set_def map_add_def fun_eq_iff split: option.splits)
    ultimately show ?thesis using False by (simp add: nv split: sum.splits)
  qed (simp add: nv)
qed simp

lemma combo_loop_nth:
  "distinct (map fst nvs) \<Longrightarrow> i < length (foldl expand_step [Map.empty] nvs) \<Longrightarrow>
   combo_loop (rev nvs) i Map.empty = Inr (foldl expand_step [Map.empty] nvs ! i)"
proof (induction nvs arbitrary: i rule: rev_induct)
  case (snoc nv nvs)
  obtain name vals where nv: "nv = (name, vals)" by (cases nv)
  let ?all = "foldl expand_step [Map.empty] nvs"
  have i: "i < length ?all * length vals" using snoc.prems(2) by (simp add: nv length_expand_step)
  then have v: "vals \<noteq> []" and j: "i div length vals < length ?all"
    by (auto simp: less_mult_imp_div_less)
  let ?m = "?all ! (i div length vals)" and ?v = "vals ! (i mod length vals)"
  have "combo_loop (rev nvs) (i div length vals) Map.empty = Inr ?m"
    using snoc j by simp
  then have "combo_loop (rev (nvs @ [nv])) i Map.empty = Inr (combo_set Map.empty name ?v ++ ?m)"
    using v combo_loop_overlay [of "rev nvs" "i div length vals" "combo_set Map.empty name ?v"]
    by (simp add: nv)
  moreover have "dom ?m = fst ` set nvs" using j by (intro foldl_expand_names) simp
  then have "combo_set Map.empty name ?v ++ ?m = combo_set ?m name ?v"
    using snoc.prems(1) by (auto simp: nv combo_set_def map_add_def fun_eq_iff domIff split: option.splits)
  moreover have "foldl expand_step [Map.empty] (nvs @ [nv]) ! i = combo_set ?m name ?v"
    using nth_expand_step [of i ?all nv] i by (simp add: nv)
  ultimately show ?case by simp
qed simp

lemma map_fst_range_values: "range_values F rs = Some nvs \<Longrightarrow> map fst nvs = map fst rs"
  by (induction F rs arbitrary: nvs rule: range_values.induct) (auto split: option.splits)

lemma foldl_u64:
  "foldl (\<lambda>n nv. u64 (n * int (length (snd nv)))) (u64 k) nvs
     = u64 (k * int (prod_list (map (\<lambda>nv. length (snd nv)) nvs)))"
proof (induction nvs arbitrary: k)
  case (Cons nv nvs)
  have "u64 (u64 k * int (length (snd nv))) = u64 (k * int (length (snd nv)))"
    by (simp add: u64_def mod_mult_left_eq)
  with Cons.IH [of "k * int (length (snd nv))"] show ?case by (simp add: mult.assoc)
qed simp

text \<open>C31: for a sweep whose parameter names are distinct, the lazy decoder returns at every index
  exactly the combination the eager expansion has there, so a grid can be walked without being
  built; and the advertised count is the number of combinations (modulo the width of
  \<open>size_t\<close>).\<close>

theorem lazy_combination_is_eager:
  assumes "generateAllCombinations F gen = Some combos" "distinct (map fst (g_ranges gen))"
    and "index < length combos"
  shows "combinationAt F gen index = Some (Inr (combos ! index))
       \<and> combinationCount F gen = Some (u64 (int (length combos)))"
proof -
  obtain nvs where nvs: "range_values F (g_ranges gen) = Some nvs"
    and combos: "combos = foldl expand_step [Map.empty] nvs"
    using assms(1) by (auto simp: generateAllCombinations_def)
  have "distinct (map fst nvs)" using assms(2) map_fst_range_values [OF nvs] by simp
  then have "combo_loop (rev nvs) index Map.empty = Inr (combos ! index)"
    using assms(3) unfolding combos by (rule combo_loop_nth)
  moreover have "foldl (\<lambda>n nv. u64 (n * int (length (snd nv)))) 1 nvs = u64 (int (length combos))"
    using foldl_u64 [of 1 nvs] unfolding combos length_foldl_expand by (simp add: u64_def)
  ultimately show ?thesis by (simp add: combinationAt_def combinationCount_def nvs)
qed

definition int_ops :: "(int, int) float_ops" where
  "int_ops = \<lparr>f_of_dec = id, f_to_dec = id, f_lit = cdiv, f_add = (+), f_sub = (-), f_mult = (*),
     f_div = cdiv, f_sqrt = id, f_abs = abs, f_less = (<), f_leq = (\<le>), f_eq = (=), f_isfinite = (\<lambda>_. True)\<rparr>"

definition demo_grid :: "int parameter_generator" where
  "demo_grid = addRange (addRange \<lparr>g_ranges = [], g_symbolGroups = []\<rparr> ''STOP'' (ExplicitRange [1, 3]))
     ''SIZE'' (ExponentialRange 10 2 3)"

theorem lazy_combination_is_eager_witness:
  "combinationAt int_ops demo_grid 4 = Some (Inr [''STOP'' \<mapsto> 3, ''SIZE'' \<mapsto> 20])
   \<and> combinationCount int_ops demo_grid = Some 6"
proof -
  obtain combos where all: "generateAllCombinations int_ops demo_grid = Some combos"
    and c: "length combos = 6" "combos ! 4 = [''STOP'' \<mapsto> 3, ''SIZE'' \<mapsto> 20]"
    by (simp add: generateAllCombinations_def demo_grid_def addRange_def int_ops_def eval_nat_numeral
        expand_step_def combo_set_def)
  from lazy_combination_is_eager [OF all, of 4] c show ?thesis
    by (simp add: demo_grid_def addRange_def u64_def)
qed

text \<open>Distinct names are needed: on a name registered twice the two orders disagree, the eager
  expansion keeping the last registration and the decoder the first.\<close>

lemma duplicate_names_disagree:
  fixes gen :: "int parameter_generator"
  defines "gen \<equiv> \<lparr>g_ranges = [(''A'', ExplicitRange [1]), (''A'', ExplicitRange [2])], g_symbolGroups = []\<rparr>"
  shows "generateAllCombinations int_ops gen = Some [[''A'' \<mapsto> 2]]
       \<and> combinationAt int_ops gen 0 = Some (Inr [''A'' \<mapsto> 1])"
  by (simp add: gen_def generateAllCombinations_def combinationAt_def expand_step_def combo_set_def)

subsection \<open>A linear range over exact arithmetic\<close>

lemma linear_values_exact:
  fixes start step limit :: real
  assumes "0 < step"
  shows "linear_values (\<lambda>v. v \<le> limit) (\<lambda>v. v + step) start =
     Some (map (\<lambda>i. start + real i * step) [0..<nat (\<lfloor>(limit - start) / step\<rfloor> + 1)])"
proof (induction "nat (\<lfloor>(limit - start) / step\<rfloor> + 1)" arbitrary: start)
  case 0
  then have "(limit - start) / step < 0" by linarith
  then have "\<not> start \<le> limit" using assms by (simp add: divide_less_0_iff)
  with 0 show ?case by (subst linear_values.simps) simp
next
  case (Suc n)
  have shift: "(limit - (start + step)) / step = (limit - start) / step - 1"
    using assms by (simp add: field_simps)
  then have n: "n = nat (\<lfloor>(limit - (start + step)) / step\<rfloor> + 1)" using Suc(2) by linarith
  have "0 \<le> (limit - start) / step" using Suc(2) by linarith
  then have "start \<le> limit" using assms by (simp add: zero_le_divide_iff)
  moreover have "linear_values (\<lambda>v. v \<le> limit) (\<lambda>v. v + step) (start + step) =
      Some (map (\<lambda>i. start + step + real i * step) [0..<n])"
    using Suc(1) [OF n] n by simp
  moreover have "map (\<lambda>i. start + real i * step) [0..<Suc n] =
      start # map (\<lambda>i. start + step + real i * step) [0..<n]"
    by (rule nth_equalityI) (auto simp: nth_Cons algebra_simps split: nat.split simp del: upt_Suc)
  ultimately show ?case using Suc(2) by (subst linear_values.simps) simp
qed

lemma floor_div_allowance:
  fixes x s e :: real
  assumes "0 < s" "of_int q * s \<le> x" "x + 1 \<le> (of_int q + 1) * s" "0 \<le> e" "e < 1"
  shows "\<lfloor>(x + e) / s\<rfloor> = q"
proof (rule floor_unique)
  show "of_int q \<le> (x + e) / s" using assms by (simp add: pos_le_divide_eq)
  have "x + e < (of_int q + 1) * s" using assms by linarith
  then show "(x + e) / s < of_int q + 1" using assms(1) by (simp add: pos_divide_less_eq)
qed

text \<open>over exact arithmetic and integer bounds the linear range's loop ends and yields
  start, start + step, and so on up to the last value not above the end, the end itself
  included when the step reaches it; the \<open>1e-9\<close> allowance adds no value.\<close>

theorem linear_range_inclusive:
  assumes "0 < step"
  shows "generateValues real_float (LinearRange (of_int start) (of_int step) (of_int stop)) =
     Some (map (\<lambda>i. of_int (start + int i * step)) [0..<nat ((stop - start) div step + 1)])"
proof -
  let ?q = "(stop - start) div step"
  have split: "stop - start = ?q * step + (stop - start) mod step" by simp
  have hi: "stop - start + 1 \<le> ?q * step + step" and lo: "?q * step \<le> stop - start"
    using pos_mod_bound [OF assms, of "stop - start"] pos_mod_sign [OF assms, of "stop - start"] split
    by linarith+
  have "real_of_int (?q * step) \<le> real_of_int (stop - start)" using lo by (rule of_int_le_iff [THEN iffD2])
  moreover have "real_of_int (stop - start + 1) \<le> real_of_int (?q * step + step)"
    using hi by (rule of_int_le_iff [THEN iffD2])
  ultimately have floor: "\<lfloor>(real_of_int (stop - start) + 1 / 1000000000) / real_of_int step\<rfloor> = ?q"
    using assms by (intro floor_div_allowance) (auto simp: distrib_right)
  have eq: "real_of_int stop + 1 / 1000000000 - real_of_int start = real_of_int (stop - start) + 1 / 1000000000"
    by simp
  have "\<lfloor>(real_of_int stop + 1 / 1000000000 - real_of_int start) / real_of_int step\<rfloor> = ?q"
    unfolding eq by (rule floor)
  with linear_values_exact [of "of_int step" "of_int stop + 1 / 1000000000" "of_int start"] assms
  show ?thesis by (simp add: real_float_def)
qed

theorem linear_range_inclusive_witness:
  "generateValues real_float (LinearRange 80 20 140) = Some [80, 100, 120, 140]"
  using linear_range_inclusive [of 20 80 140] by (simp add: upt_rec)

subsection \<open>Normalised symbol groups\<close>

definition trimmed :: "string \<Rightarrow> bool" where
  "trimmed token \<longleftrightarrow> token \<noteq> [] \<and> \<not> blank (hd token) \<and> \<not> blank (last token) \<and> CHR '','' \<notin> set token"

lemma dropWhile_id: "xs \<noteq> [] \<Longrightarrow> \<not> P (hd xs) \<Longrightarrow> dropWhile P xs = xs"
  by (cases xs) auto

lemma trim_trimmed [simp]: "trimmed token \<Longrightarrow> trim token = token"
  by (simp add: trimmed_def trim_def dropWhile_id hd_rev)

lemma trim_shape:
  assumes "trim s \<noteq> []" "CHR '','' \<notin> set s"
  shows "trimmed (trim s)"
proof -
  let ?a = "dropWhile blank s"
  have ne: "dropWhile blank (rev ?a) \<noteq> []" using assms(1) by (metis trim_def rev.simps(1))
  then have a: "?a \<noteq> []" by (metis dropWhile.simps(1) rev.simps(1))
  have last: "\<not> blank (last (trim s))" using hd_dropWhile [OF ne] ne by (metis last_rev trim_def)
  obtain suf where suf: "?a = trim s @ suf"
    by (metis rev_append rev_rev_ident takeWhile_dropWhile_id trim_def)
  then have "hd (trim s) = hd ?a" using assms(1) by (metis hd_append2)
  moreover have "\<not> blank (hd ?a)" using a by (rule hd_dropWhile)
  moreover have "set (trim s) \<subseteq> set ?a" unfolding suf by simp
  then have "CHR '','' \<notin> set (trim s)" using assms(2) by (auto dest: set_dropWhileD)
  ultimately show ?thesis using assms(1) last unfolding trimmed_def by simp
qed

lemma splitSymbols_trimmed: "list_all trimmed (splitSymbols grp)"
proof (induction grp rule: splitSymbols.induct)
  case (1 grp)
  have "CHR '','' \<notin> set (takeWhile (\<lambda>ch. ch \<noteq> CHR '','') grp)" by (auto dest: set_takeWhileD)
  with 1 trim_shape show ?case
    by (subst splitSymbols.simps) (simp add: Let_def)
qed

lemma trimmed_no_comma: "trimmed token \<Longrightarrow> ch \<in> set token \<Longrightarrow> ch \<noteq> CHR '',''"
  by (auto simp: trimmed_def)

lemma trimmed_ne: "trimmed token \<Longrightarrow> token \<noteq> []"
  by (simp add: trimmed_def)

lemma splitSymbols_last: "trimmed token \<Longrightarrow> splitSymbols token = [token]"
proof -
  assume t: "trimmed token"
  have tw: "takeWhile (\<lambda>ch. ch \<noteq> CHR '','') token = token" and dw: "dropWhile (\<lambda>ch. ch \<noteq> CHR '','') token = []"
    using trimmed_no_comma [OF t] by (simp_all add: takeWhile_eq_all_conv dropWhile_eq_Nil_conv)
  show ?thesis
    using trimmed_ne [OF t] by (simp add: splitSymbols.simps [of token] tw dw trim_trimmed [OF t] Let_def)
qed

lemma splitSymbols_Cons: "trimmed token \<Longrightarrow> splitSymbols (token @ CHR '','' # rest) = token # splitSymbols rest"
proof -
  assume t: "trimmed token"
  have "takeWhile (\<lambda>ch. ch \<noteq> CHR '','') (token @ CHR '','' # rest) = token @ takeWhile (\<lambda>ch. ch \<noteq> CHR '','') (CHR '','' # rest)"
    by (rule takeWhile_append2) (rule trimmed_no_comma [OF t])
  moreover have "dropWhile (\<lambda>ch. ch \<noteq> CHR '','') (token @ CHR '','' # rest) = dropWhile (\<lambda>ch. ch \<noteq> CHR '','') (CHR '','' # rest)"
    by (rule dropWhile_append2) (rule trimmed_no_comma [OF t])
  ultimately show ?thesis
    using trimmed_ne [OF t] trim_trimmed [OF t]
    by (simp add: splitSymbols.simps [of "token @ CHR '','' # rest"])
qed

definition join :: "string list \<Rightarrow> string" where
  "join = foldl (\<lambda>result symbol. (if result = [] then result else result @ '','') @ symbol) []"

lemma foldl_join:
  "list_all trimmed tokens \<Longrightarrow> acc \<noteq> [] \<Longrightarrow>
   foldl (\<lambda>result symbol. (if result = [] then result else result @ '','') @ symbol) acc tokens
     = acc @ concat (map (\<lambda>token. CHR '','' # token) tokens)"
  by (induction tokens arbitrary: acc) auto

lemma splitSymbols_join: "list_all trimmed tokens \<Longrightarrow> splitSymbols (join tokens) = tokens"
proof (cases tokens)
  case Nil
  then show ?thesis by (simp add: join_def splitSymbols.simps [of "[]"] trim_def)
next
  case (Cons token rest)
  assume "list_all trimmed tokens"
  then have t: "trimmed token" "list_all trimmed rest" by (simp_all add: Cons)
  have "splitSymbols (token @ concat (map (\<lambda>token. CHR '','' # token) rest)) = token # rest"
    using t
  proof (induction rest arbitrary: token)
    case Nil
    then show ?case by (simp add: splitSymbols_last)
  next
    case (Cons nxt rest)
    then show ?case by (simp add: splitSymbols_Cons)
  qed
  then show ?thesis using t trimmed_ne [OF t(1)] by (simp add: join_def Cons foldl_join)
qed

text \<open>normalising a symbol group loses nothing and is stable: the cleaned string tokenises
  to the same symbols, cleaning it again changes nothing, and every symbol it carries is
  non-empty, trimmed and free of commas, which is what the run side's untrimmed split needs.\<close>

theorem cleanSymbols_normalises:
  "splitSymbols (cleanSymbols grp) = splitSymbols grp
   \<and> cleanSymbols (cleanSymbols grp) = cleanSymbols grp
   \<and> list_all trimmed (splitSymbols (cleanSymbols grp))"
  using splitSymbols_join [OF splitSymbols_trimmed [of grp]] splitSymbols_trimmed [of grp]
  by (simp add: cleanSymbols_def join_def)

end
