(* ===== verification/TickCache.thy ===== *)
theory TickCache
  imports Trade
begin

section \<open>The tick cache\<close>

text \<open>
  \<open>source/run/execution/tickCache.cppm\<close>: one superset load of tick history serves every
  window of the rolling ladder as a slice. The loaders, the clock (the n-th reading of
  \<open>now_\<close> is \<open>clock n\<close>) and the hash map's iteration order are parameters; the calls of
  \<open>beforeLoad\<close> and of the loaders are recorded in a trace, so that their order can be stated.
  An exception leaves the cache in the state it had reached, so \<open>cache_get\<close> returns the
  state beside the result.
\<close>

record superset =
  ss_ticks :: "price_data list"
  ss_boundaries :: "time list"

record slice_view =
  v_superset :: superset
  v_begin :: nat
  v_count :: nat

text \<open>\<open>std::lower_bound\<close> on a range partitioned by the comparison: the first tick not before
  the boundary.\<close>

definition lower_bound :: "price_data list \<Rightarrow> time \<Rightarrow> nat" where
  "lower_bound ticks boundary = length (takeWhile (\<lambda>tick. p_timestamp tick < boundary) ticks)"

definition sliceForWindow :: "superset \<Rightarrow> int \<Rightarrow> int \<Rightarrow> slice_view result" where
  "sliceForWindow superset lastMonths offsetMonths =
     (if lastMonths < 1 \<or> offsetMonths < 0 then Inl LogicError
      else let depth = nat lastMonths + nat offsetMonths in
      if depth \<ge> length (ss_boundaries superset) then Inl LogicError
      else let ticks = ss_ticks superset;
               lower = lower_bound ticks (ss_boundaries superset ! depth);
               upper = (if offsetMonths = 0 then length ticks
                        else lower + lower_bound (drop lower ticks)
                                       (ss_boundaries superset ! nat offsetMonths))
           in Inr \<lparr>v_superset = superset, v_begin = lower, v_count = upper - lower\<rparr>)"

record cache_entry =
  ce_superset :: superset
  ce_loadedAt :: time

datatype cache_event =
    BeforeLoad
  | LoadSuperset string int
  | LoadWindow string int int

record tick_cache =
  c_ttl :: int
  c_maxSupersets :: nat
  c_defaultMonths :: int
  c_supersets :: "(string \<times> cache_entry) list"
  c_hits :: nat
  c_misses :: nat
  c_readings :: nat
  c_trace :: "cache_event list"

definition new_tick_cache :: "int \<Rightarrow> nat \<Rightarrow> int \<Rightarrow> tick_cache" where
  "new_tick_cache ttl maxSupersets defaultMonths =
     \<lparr>c_ttl = ttl, c_maxSupersets = max 1 maxSupersets, c_defaultMonths = defaultMonths,
      c_supersets = [], c_hits = 0, c_misses = 0, c_readings = 0, c_trace = []\<rparr>"

text \<open>\<open>std::erase_if\<close> visits every entry, reading the clock once for each.\<close>

fun erase_stale ::
  "(nat \<Rightarrow> time) \<Rightarrow> int \<Rightarrow> nat \<Rightarrow> (string \<times> cache_entry) list \<Rightarrow> (string \<times> cache_entry) list" where
  "erase_stale clock ttl n [] = []"
| "erase_stale clock ttl n (kv # kvs) =
     (if clock n - ce_loadedAt (snd kv) \<ge> ttl then erase_stale clock ttl (Suc n) kvs
      else kv # erase_stale clock ttl (Suc n) kvs)"

text \<open>\<open>std::min_element\<close>: the first of the least.\<close>

fun oldest_key :: "string \<times> cache_entry \<Rightarrow> (string \<times> cache_entry) list \<Rightarrow> string" where
  "oldest_key best [] = fst best"
| "oldest_key best (kv # kvs) =
     (if ce_loadedAt (snd kv) < ce_loadedAt (snd best) then oldest_key kv kvs else oldest_key best kvs)"

type_synonym cache_order = "(string \<times> cache_entry) list \<Rightarrow> (string \<times> cache_entry) list"

text \<open>\<open>while (size >= max && !contains(incoming)) erase(oldest)\<close>; every round removes an entry,
  so as many rounds as there are entries are enough.\<close>

fun evict_loop ::
  "nat \<Rightarrow> cache_order \<Rightarrow> nat \<Rightarrow> string \<Rightarrow> (string \<times> cache_entry) list \<Rightarrow> (string \<times> cache_entry) list"
where
  "evict_loop 0 order cap incoming entries = entries"
| "evict_loop (Suc rounds) order cap incoming entries =
     (if length entries \<ge> cap \<and> map_of entries incoming = None then
        (case order entries of
           [] \<Rightarrow> entries
         | kv # kvs \<Rightarrow> evict_loop rounds order cap incoming (AList.delete (oldest_key kv kvs) entries))
      else entries)"

definition evictFor :: "(nat \<Rightarrow> time) \<Rightarrow> cache_order \<Rightarrow> string \<Rightarrow> tick_cache \<Rightarrow> tick_cache" where
  "evictFor clock order incomingKey c =
     (let kept = erase_stale clock (c_ttl c) (c_readings c) (c_supersets c)
      in c\<lparr>c_readings := c_readings c + length (c_supersets c),
           c_supersets := evict_loop (length kept) order (c_maxSupersets c) incomingKey kept\<rparr>)"

definition loadAdHoc ::
  "(string \<Rightarrow> int \<Rightarrow> int \<Rightarrow> price_data list result) \<Rightarrow> string \<Rightarrow> int \<Rightarrow> int \<Rightarrow> tick_cache
     \<Rightarrow> slice_view result \<times> tick_cache" where
  "loadAdHoc windowLoader symbolsCsv lastMonths offsetMonths c =
     (let c = c\<lparr>c_trace := c_trace c @ [BeforeLoad, LoadWindow symbolsCsv lastMonths offsetMonths]\<rparr>
      in case windowLoader symbolsCsv lastMonths offsetMonths of
           Inl e \<Rightarrow> (Inl e, c)
         | Inr ticks \<Rightarrow> (Inr \<lparr>v_superset = \<lparr>ss_ticks = ticks, ss_boundaries = []\<rparr>,
                               v_begin = 0, v_count = length ticks\<rparr>, c))"

text \<open>The miss branch of \<open>get\<close>: evict, load, insert, slice.\<close>

definition load_superset ::
  "(nat \<Rightarrow> time) \<Rightarrow> cache_order \<Rightarrow> (string \<Rightarrow> int \<Rightarrow> superset result) \<Rightarrow> string \<Rightarrow> int \<Rightarrow> int \<Rightarrow> tick_cache
     \<Rightarrow> slice_view result \<times> tick_cache" where
  "load_superset clock order supersetLoader symbolsCsv lastMonths offsetMonths c =
     (let c = c\<lparr>c_misses := c_misses c + 1, c_trace := c_trace c @ [BeforeLoad]\<rparr>;
          c = evictFor clock order symbolsCsv c;
          months = max (c_defaultMonths c) (i32 (lastMonths + offsetMonths));
          c = c\<lparr>c_trace := c_trace c @ [LoadSuperset symbolsCsv months]\<rparr>
      in case supersetLoader symbolsCsv months of
           Inl e \<Rightarrow> (Inl e, c)
         | Inr superset \<Rightarrow>
             (let entry = \<lparr>ce_superset = superset, ce_loadedAt = clock (c_readings c)\<rparr>
              in (sliceForWindow superset lastMonths offsetMonths,
                  c\<lparr>c_supersets := AList.update symbolsCsv entry (c_supersets c),
                    c_readings := c_readings c + 1\<rparr>)))"

definition cache_get ::
  "(nat \<Rightarrow> time) \<Rightarrow> cache_order \<Rightarrow> (string \<Rightarrow> int \<Rightarrow> superset result)
     \<Rightarrow> (string \<Rightarrow> int \<Rightarrow> int \<Rightarrow> price_data list result) \<Rightarrow> string \<Rightarrow> int \<Rightarrow> int \<Rightarrow> tick_cache
     \<Rightarrow> slice_view result \<times> tick_cache" where
  "cache_get clock order supersetLoader windowLoader symbolsCsv lastMonths offsetMonths c =
     (let cacheable = lastMonths \<ge> 1 \<and> offsetMonths \<ge> 0;
          monthsNeeded = i32 (lastMonths + offsetMonths) in
      if \<not> cacheable then loadAdHoc windowLoader symbolsCsv lastMonths offsetMonths c
      else case map_of (c_supersets c) symbolsCsv of
        None \<Rightarrow> load_superset clock order supersetLoader symbolsCsv lastMonths offsetMonths c
      | Some entry \<Rightarrow>
          (let fresh = clock (c_readings c) - ce_loadedAt entry < c_ttl c;
               fits = u64 monthsNeeded < int (length (ss_boundaries (ce_superset entry)));
               c = c\<lparr>c_readings := c_readings c + 1\<rparr> in
           if fresh \<and> fits
           then (sliceForWindow (ce_superset entry) lastMonths offsetMonths, c\<lparr>c_hits := c_hits c + 1\<rparr>)
           else if fresh then loadAdHoc windowLoader symbolsCsv lastMonths offsetMonths c
           else load_superset clock order supersetLoader symbolsCsv lastMonths offsetMonths c))"

subsection \<open>A slice is the window\<close>

definition slice_ticks :: "slice_view \<Rightarrow> price_data list" where
  "slice_ticks v = take (v_count v) (drop (v_begin v) (ss_ticks (v_superset v)))"

definition superset_ok :: "superset \<Rightarrow> bool" where
  "superset_ok s \<longleftrightarrow> sorted (map p_timestamp (ss_ticks s)) \<and> sorted (rev (ss_boundaries s))"

text \<open>The SQL window: \<open>timestamp >= lower AND timestamp < upper\<close>, unbounded above when not shifted.\<close>

definition sql_window :: "superset \<Rightarrow> nat \<Rightarrow> nat \<Rightarrow> price_data list" where
  "sql_window s lastMonths offsetMonths =
     filter (\<lambda>tick. ss_boundaries s ! (lastMonths + offsetMonths) \<le> p_timestamp tick
        \<and> (offsetMonths = 0 \<or> p_timestamp tick < ss_boundaries s ! offsetMonths)) (ss_ticks s)"

lemma sorted_below:
  fixes b :: int
  assumes "sorted (map p_timestamp ticks)"
  shows "takeWhile (\<lambda>tick. p_timestamp tick < b) ticks = filter (\<lambda>tick. p_timestamp tick < b) ticks"
    and "dropWhile (\<lambda>tick. p_timestamp tick < b) ticks = filter (\<lambda>tick. b \<le> p_timestamp tick) ticks"
proof -
  have "takeWhile (\<lambda>tick. p_timestamp tick < b) ticks = filter (\<lambda>tick. p_timestamp tick < b) ticks
      \<and> dropWhile (\<lambda>tick. p_timestamp tick < b) ticks = filter (\<lambda>tick. b \<le> p_timestamp tick) ticks"
    using assms
  proof (induction ticks)
    case (Cons tick ticks)
    show ?case
    proof (cases "p_timestamp tick < b")
      case True
      with Cons show ?thesis by simp
    next
      case False
      then have "\<forall>t \<in> set ticks. b \<le> p_timestamp t" using Cons.prems by fastforce
      then have "filter (\<lambda>t. p_timestamp t < b) ticks = []" "filter (\<lambda>t. b \<le> p_timestamp t) ticks = ticks"
        by (auto simp: filter_empty_conv)
      with False show ?thesis by simp
    qed
  qed simp
  then show "takeWhile (\<lambda>tick. p_timestamp tick < b) ticks = filter (\<lambda>tick. p_timestamp tick < b) ticks"
    "dropWhile (\<lambda>tick. p_timestamp tick < b) ticks = filter (\<lambda>tick. b \<le> p_timestamp tick) ticks" by auto
qed

lemma drop_lower_bound:
  "sorted (map p_timestamp ticks) \<Longrightarrow>
   drop (lower_bound ticks b) ticks = filter (\<lambda>tick. b \<le> p_timestamp tick) ticks"
  by (simp add: lower_bound_def dropWhile_eq_drop [symmetric] sorted_below(2))

lemma take_lower_bound:
  "sorted (map p_timestamp ticks) \<Longrightarrow>
   take (lower_bound ticks b) ticks = filter (\<lambda>tick. p_timestamp tick < b) ticks"
  unfolding lower_bound_def takeWhile_eq_take [symmetric] by (rule sorted_below(1))

lemma slice_window:
  assumes "superset_ok s" "1 \<le> lastMonths" "0 \<le> offsetMonths"
    and "nat lastMonths + nat offsetMonths < length (ss_boundaries s)"
  shows "\<exists>v. sliceForWindow s lastMonths offsetMonths = Inr v \<and> v_superset v = s
     \<and> slice_ticks v = sql_window s (nat lastMonths) (nat offsetMonths)"
proof -
  let ?ticks = "ss_ticks s" and ?b = "ss_boundaries s"
  let ?lo = "?b ! (nat lastMonths + nat offsetMonths)"
  let ?lower = "lower_bound ?ticks ?lo"
  have sorted: "sorted (map p_timestamp ?ticks)" using assms(1) by (simp add: superset_ok_def)
  have rest: "drop ?lower ?ticks = filter (\<lambda>tick. ?lo \<le> p_timestamp tick) ?ticks"
    using sorted by (rule drop_lower_bound)
  have sorted_rest: "sorted (map p_timestamp (drop ?lower ?ticks))"
    using sorted by (simp add: drop_map [symmetric] sorted_wrt_drop)
  show ?thesis
  proof (cases "offsetMonths = 0")
    case True
    let ?v = "\<lparr>v_superset = s, v_begin = ?lower, v_count = length ?ticks - ?lower\<rparr>"
    have "slice_ticks ?v = filter (\<lambda>tick. ?lo \<le> p_timestamp tick) ?ticks"
      unfolding rest [symmetric] by (simp add: slice_ticks_def)
    moreover have "sliceForWindow s lastMonths offsetMonths = Inr ?v"
      using assms True by (simp add: sliceForWindow_def Let_def)
    ultimately show ?thesis using True by (simp add: sql_window_def)
  next
    case False
    have "take (lower_bound (drop ?lower ?ticks) (?b ! nat offsetMonths)) (drop ?lower ?ticks)
        = sql_window s (nat lastMonths) (nat offsetMonths)"
      using take_lower_bound [OF sorted_rest] False assms(3)
      by (auto simp: rest sql_window_def intro!: filter_cong)
    then show ?thesis
      using assms False by (simp add: sliceForWindow_def Let_def slice_ticks_def)
  qed
qed

text \<open>Over a time-ordered superset, the slice found by the two binary searches is exactly the
  ticks the window's SQL query selects; a degenerate window or one deeper than the superset is
  refused.\<close>

theorem sliceForWindow_is_sql_window:
  assumes "superset_ok s"
  shows "if lastMonths < 1 \<or> offsetMonths < 0 \<or> length (ss_boundaries s) \<le> nat lastMonths + nat offsetMonths
    then sliceForWindow s lastMonths offsetMonths = Inl LogicError
    else \<exists>v. sliceForWindow s lastMonths offsetMonths = Inr v
           \<and> slice_ticks v = sql_window s (nat lastMonths) (nat offsetMonths)"
  using slice_window [OF assms, of lastMonths offsetMonths]
  by (auto simp: sliceForWindow_def not_less not_le)

definition demo_superset :: superset where
  "demo_superset = \<lparr>ss_ticks = [\<lparr>p_ask = 2, p_bid = 1, p_timestamp = 10, p_symbol = ''EURUSD''\<rparr>,
      \<lparr>p_ask = 3, p_bid = 2, p_timestamp = 20, p_symbol = ''EURUSD''\<rparr>,
      \<lparr>p_ask = 4, p_bid = 3, p_timestamp = 30, p_symbol = ''EURUSD''\<rparr>],
    ss_boundaries = [40, 30, 20, 10]\<rparr>"

theorem sliceForWindow_is_sql_window_witness:
  "\<exists>v. sliceForWindow demo_superset 1 1 = Inr v \<and> map p_timestamp (slice_ticks v) = [20]"
proof -
  have "superset_ok demo_superset" by (simp add: superset_ok_def demo_superset_def)
  from sliceForWindow_is_sql_window [OF this, of 1 1] show ?thesis
    by (auto simp: demo_superset_def sql_window_def numeral_2_eq_2)
qed

text \<open>Adjacent windows tile the window they span.\<close>

lemma windows_tile:
  assumes "superset_ok s" "0 < near" "far + near + off < length (ss_boundaries s)"
  shows "sql_window s far (near + off) @ sql_window s near off = sql_window s (far + near) off"
proof -
  let ?b = "ss_boundaries s" and ?ticks = "ss_ticks s"
  let ?m = "?b ! (near + off)"
  let ?P = "\<lambda>tick. ?b ! (far + near + off) \<le> p_timestamp tick \<and> (off = 0 \<or> p_timestamp tick < ?b ! off)"
  have mono: "?b ! (far + near + off) \<le> ?m" "?m \<le> ?b ! off"
    using assms by (auto simp: superset_ok_def intro!: sorted_rev_nth_mono)
  have sorted: "sorted (map p_timestamp ?ticks)" using assms(1) by (simp add: superset_ok_def)
  have "?ticks = filter (\<lambda>t. p_timestamp t < ?m) ?ticks @ filter (\<lambda>t. ?m \<le> p_timestamp t) ?ticks"
    using takeWhile_dropWhile_id [of "\<lambda>t. p_timestamp t < ?m" ?ticks] sorted_below [OF sorted] by simp
  then have "filter ?P ?ticks = filter ?P (filter (\<lambda>t. p_timestamp t < ?m) ?ticks)
      @ filter ?P (filter (\<lambda>t. ?m \<le> p_timestamp t) ?ticks)"
    by (metis filter_append)
  moreover have "filter ?P (filter (\<lambda>t. p_timestamp t < ?m) ?ticks) = sql_window s far (near + off)"
    unfolding sql_window_def filter_filter using mono assms(2)
    by (intro filter_cong) (auto simp: add.assoc)
  moreover have "filter ?P (filter (\<lambda>t. ?m \<le> p_timestamp t) ?ticks) = sql_window s near off"
    unfolding sql_window_def filter_filter using mono
    by (intro filter_cong) (auto simp: add.assoc)
  moreover have "filter ?P ?ticks = sql_window s (far + near) off" by (simp add: sql_window_def)
  ultimately show ?thesis by simp
qed

subsection \<open>The cache\<close>

definition cache_ok :: "(string \<Rightarrow> int \<Rightarrow> superset result) \<Rightarrow> tick_cache \<Rightarrow> bool" where
  "cache_ok loader c \<longleftrightarrow> distinct (map fst (c_supersets c)) \<and> 1 \<le> c_maxSupersets c
     \<and> length (c_supersets c) \<le> c_maxSupersets c
     \<and> (\<forall>(key, entry) \<in> set (c_supersets c). \<exists>months. loader key months = Inr (ce_superset entry))"

lemma erase_stale_set: "set (erase_stale clock ttl n kvs) \<subseteq> set kvs"
  by (induction clock ttl n kvs rule: erase_stale.induct) auto

lemma erase_stale_length: "length (erase_stale clock ttl n kvs) \<le> length kvs"
  by (induction clock ttl n kvs rule: erase_stale.induct) (auto intro: le_SucI)

lemma erase_stale_distinct:
  "distinct (map fst kvs) \<Longrightarrow> distinct (map fst (erase_stale clock ttl n kvs))"
proof (induction clock ttl n kvs rule: erase_stale.induct)
  case (2 clock ttl n kv kvs)
  have "fst ` set (erase_stale clock ttl (Suc n) kvs) \<subseteq> fst ` set kvs" by (intro image_mono erase_stale_set)
  with 2 show ?case by auto
qed simp

lemma oldest_key_in: "oldest_key best kvs \<in> fst ` set (best # kvs)"
  by (induction best kvs rule: oldest_key.induct) auto

lemma evict_loop_sub:
  "set (evict_loop r order cap key kvs) \<subseteq> set kvs
   \<and> (distinct (map fst kvs) \<longrightarrow> distinct (map fst (evict_loop r order cap key kvs)))"
proof (induction r order cap key kvs rule: evict_loop.induct)
  case (2 rounds order cap incoming entries)
  show ?case
  proof (cases "length entries \<ge> cap \<and> map_of entries incoming = None")
    case True
    then show ?thesis
      using 2 by (cases "order entries") (auto simp: set_delete distinct_delete dest!: subsetD)
  qed auto
qed simp

lemma evict_loop_room:
  assumes "\<And>xs. mset (order xs) = mset xs" "1 \<le> cap"
  shows "length kvs \<le> r \<Longrightarrow> distinct (map fst kvs) \<Longrightarrow>
    length (evict_loop r order cap key kvs) < cap \<or> map_of (evict_loop r order cap key kvs) key \<noteq> None"
proof (induction r arbitrary: kvs)
  case 0
  then show ?case using assms(2) by simp
next
  case (Suc r)
  show ?case
  proof (cases "length kvs \<ge> cap \<and> map_of kvs key = None")
    case True
    then have "kvs \<noteq> []" using assms(2) by auto
    then obtain kv rest where order: "order kvs = kv # rest" using assms(1) [of kvs] by (cases "order kvs") auto
    have "oldest_key kv rest \<in> fst ` set kvs"
      using oldest_key_in [of kv rest] assms(1) [of kvs] order by (metis set_mset_mset)
    then obtain entry where "map_of kvs (oldest_key kv rest) = Some entry"
      by (metis map_of_eq_None_iff option.exhaust)
    from length_delete_Some [OF Suc.prems(2) this]
    have "length (AList.delete (oldest_key kv rest) kvs) < length kvs" by simp
    with Suc True order show ?thesis by (simp add: distinct_delete)
  next
    case False
    then show ?thesis by auto
  qed
qed

lemma evictFor_ok:
  assumes ok: "cache_ok loader c" and order: "\<And>xs. mset (order xs) = mset xs"
  shows "cache_ok loader (evictFor clock order key c)"
    and "length (c_supersets (evictFor clock order key c)) < c_maxSupersets c
         \<or> map_of (c_supersets (evictFor clock order key c)) key \<noteq> None"
proof -
  let ?kept = "erase_stale clock (c_ttl c) (c_readings c) (c_supersets c)"
  let ?left = "evict_loop (length ?kept) order (c_maxSupersets c) key ?kept"
  have c: "distinct (map fst (c_supersets c))" "1 \<le> c_maxSupersets c" "length (c_supersets c) \<le> c_maxSupersets c"
    and loaded: "\<forall>(k, e) \<in> set (c_supersets c). \<exists>m. loader k m = Inr (ce_superset e)"
    using ok by (auto simp: cache_ok_def)
  have kept: "distinct (map fst ?kept)" using c(1) by (rule erase_stale_distinct)
  have left: "set ?left \<subseteq> set (c_supersets c)" "distinct (map fst ?left)"
    using evict_loop_sub [of "length ?kept" order "c_maxSupersets c" key ?kept] kept
      erase_stale_set [of clock "c_ttl c" "c_readings c" "c_supersets c"] by auto
  show room: "length (c_supersets (evictFor clock order key c)) < c_maxSupersets c
         \<or> map_of (c_supersets (evictFor clock order key c)) key \<noteq> None"
    using evict_loop_room [OF order c(2) order_refl kept] by (simp add: evictFor_def Let_def)
  have "length ?left \<le> length (c_supersets c)"
    using card_mono [OF finite_set left(1)] left(2) c(1)
    by (metis distinct_card distinct_map)
  then show "cache_ok loader (evictFor clock order key c)"
    using c left loaded by (auto simp: cache_ok_def evictFor_def Let_def)
qed

lemma evictFor_frame [simp]:
  "c_maxSupersets (evictFor clock order key c) = c_maxSupersets c"
  "c_defaultMonths (evictFor clock order key c) = c_defaultMonths c"
  "c_trace (evictFor clock order key c) = c_trace c"
  "c_hits (evictFor clock order key c) = c_hits c"
  "c_misses (evictFor clock order key c) = c_misses c"
  by (simp_all add: evictFor_def Let_def)

lemma cache_ok_update [simp]:
  "cache_ok loader (c\<lparr>c_misses := m\<rparr>) = cache_ok loader c"
  "cache_ok loader (c\<lparr>c_hits := m\<rparr>) = cache_ok loader c"
  "cache_ok loader (c\<lparr>c_trace := t\<rparr>) = cache_ok loader c"
  "cache_ok loader (c\<lparr>c_readings := n\<rparr>) = cache_ok loader c"
  by (simp_all add: cache_ok_def)

lemma cache_ok_insert:
  assumes "cache_ok loader c" "loader key months = Inr (ce_superset entry)"
    and "length (c_supersets c) < c_maxSupersets c \<or> map_of (c_supersets c) key \<noteq> None"
  shows "cache_ok loader (c\<lparr>c_supersets := AList.update key entry (c_supersets c)\<rparr>)"
proof -
  have d: "distinct (map fst (c_supersets c))" using assms(1) by (simp add: cache_ok_def)
  have "length (AList.update key entry (c_supersets c)) \<le> c_maxSupersets c"
  proof (cases "map_of (c_supersets c) key")
    case None
    then have "length (AList.update key entry (c_supersets c)) = Suc (length (c_supersets c))"
      by (rule length_update_new)
    with None assms(3) show ?thesis by simp
  next
    case (Some e)
    then show ?thesis using map_fst_update [OF Some] assms(1)
      by (metis cache_ok_def length_map)
  qed
  moreover have "\<forall>(k, e) \<in> set (AList.update key entry (c_supersets c)). \<exists>m. loader k m = Inr (ce_superset e)"
    using assms(1,2) d by (auto simp: cache_ok_def set_update_distinct)
  ultimately show ?thesis using assms(1) d by (simp add: cache_ok_def distinct_update)
qed

text \<open>What one call of \<open>get\<close> gives: a good cache, a trace that is unchanged or grew by one
  \<open>beforeLoad\<close> and the load it announces, and a window or a loader's own error.\<close>

definition get_result_ok ::
  "(string \<Rightarrow> int \<Rightarrow> superset result) \<Rightarrow> (string \<Rightarrow> int \<Rightarrow> int \<Rightarrow> price_data list result) \<Rightarrow> string
     \<Rightarrow> int \<Rightarrow> int \<Rightarrow> slice_view result \<Rightarrow> bool" where
  "get_result_ok loader windowLoader key span off r \<longleftrightarrow>
     (case r of
        Inl e \<Rightarrow> (\<exists>m. loader key m = Inl e) \<or> windowLoader key span off = Inl e
      | Inr v \<Rightarrow> windowLoader key span off = Inr (slice_ticks v)
          \<or> (\<exists>m \<ge> span + off. loader key m = Inr (v_superset v)
               \<and> slice_ticks v = sql_window (v_superset v) (nat span) (nat off)))"

definition trace_ok :: "cache_event list \<Rightarrow> cache_event list \<Rightarrow> bool" where
  "trace_ok old new \<longleftrightarrow> new = old \<or> (\<exists>load. new = old @ [BeforeLoad, load] \<and> load \<noteq> BeforeLoad)"

lemma loadAdHoc_ok:
  assumes "cache_ok loader c" "loadAdHoc windowLoader key span off c = (r, c')"
  shows "cache_ok loader c' \<and> trace_ok (c_trace c) (c_trace c') \<and> get_result_ok loader windowLoader key span off r"
  using assms
  by (auto simp: loadAdHoc_def Let_def trace_ok_def get_result_ok_def slice_ticks_def split: sum.splits)

lemma load_superset_ok:
  assumes ok: "cache_ok loader c" and order: "\<And>xs. mset (order xs) = mset xs"
    and loader: "\<And>k m s. loader k m = Inr s \<Longrightarrow> superset_ok s \<and> length (ss_boundaries s) = nat m + 1"
    and window: "1 \<le> span" "0 \<le> off" "span + off < 2 ^ 31"
    and step: "load_superset clock order loader key span off c = (r, c')"
  shows "cache_ok loader c' \<and> trace_ok (c_trace c) (c_trace c') \<and> get_result_ok loader windowLoader key span off r"
proof -
  let ?c1 = "c\<lparr>c_misses := c_misses c + 1, c_trace := c_trace c @ [BeforeLoad]\<rparr>"
  let ?c2 = "evictFor clock order key ?c1"
  let ?months = "max (c_defaultMonths ?c2) (span + off)"
  let ?c3 = "?c2\<lparr>c_trace := c_trace ?c2 @ [LoadSuperset key ?months]\<rparr>"
  have needed: "i32 (span + off) = span + off" using window by (intro i32_id) (auto simp: in_i32_def)
  have ok3: "cache_ok loader ?c3" and room: "length (c_supersets ?c2) < c_maxSupersets ?c2
      \<or> map_of (c_supersets ?c2) key \<noteq> None"
    using evictFor_ok [of loader ?c1 order clock key] ok order by simp_all
  have trace: "trace_ok (c_trace c) (c_trace ?c3)" by (simp add: trace_ok_def)
  show ?thesis
  proof (cases "loader key ?months")
    case (Inl e)
    then have "r = Inl e" "c' = ?c3" using step by (simp_all add: load_superset_def Let_def needed)
    then show ?thesis using ok3 trace Inl by (auto simp: get_result_ok_def)
  next
    case (Inr s)
    let ?e = "\<lparr>ce_superset = s, ce_loadedAt = clock (c_readings ?c2)\<rparr>"
    have r: "r = sliceForWindow s span off"
      and c': "c' = ?c3\<lparr>c_supersets := AList.update key ?e (c_supersets ?c3), c_readings := c_readings ?c2 + 1\<rparr>"
      using step Inr by (simp_all add: load_superset_def Let_def needed)
    have "cache_ok loader (?c3\<lparr>c_supersets := AList.update key ?e (c_supersets ?c3)\<rparr>)"
      using ok3 Inr room by (intro cache_ok_insert [of _ _ _ ?months]) auto
    then have "cache_ok loader c'" by (simp add: c' cache_ok_def)
    moreover have "nat span + nat off < length (ss_boundaries s)"
      using loader [OF Inr] window by auto
    then obtain v where "r = Inr v" "v_superset v = s" "slice_ticks v = sql_window s (nat span) (nat off)"
      using slice_window [of s span off] loader [OF Inr] window r by auto
    moreover have "span + off \<le> ?months" by simp
    ultimately show ?thesis using trace Inr by (auto simp: get_result_ok_def c')
  qed
qed


definition demo_loader :: "string \<Rightarrow> int \<Rightarrow> superset result" where
  "demo_loader key months =
     Inr \<lparr>ss_ticks = [\<lparr>p_ask = 2, p_bid = 1, p_timestamp = 7, p_symbol = key\<rparr>],
          ss_boundaries = rev (map int [0..<Suc (nat months)])\<rparr>"

definition demo_get :: "slice_view result \<times> tick_cache" where
  "demo_get = cache_get int rev demo_loader (\<lambda>_ _ _. Inl RuntimeError) ''EURUSD'' 3 0 (new_tick_cache 600 2 9)"

lemma demo_get_value:
  "c_trace (snd demo_get) = [BeforeLoad, LoadSuperset ''EURUSD'' 9]"
  "case fst demo_get of Inl _ \<Rightarrow> False | Inr v \<Rightarrow> map p_timestamp (slice_ticks v) = [7]"
proof -
  show "c_trace (snd demo_get) = [BeforeLoad, LoadSuperset ''EURUSD'' 9]" by code_simp
  show "case fst demo_get of Inl _ \<Rightarrow> False | Inr v \<Rightarrow> map p_timestamp (slice_ticks v) = [7]" by code_simp
qed


end
