(* ===== verification/Base64.thy ===== *)
theory Base64
  imports Prelude
begin

unbundle bit_operations_syntax

section \<open>Base64\<close>

text \<open>
  \<open>source/shared/utilities/base64.cpp\<close>, which carries every queued payload. Bytes are
  integers from 0 to 255; a \<open>std::string\<close> is its list of bytes, readable one position past
  the end (the terminating zero of \<open>c_str()\<close>) and nowhere else.
\<close>

definition B64chars :: "int list" where
  "B64chars = map (\<lambda>ch. int (of_char ch))
     ''ABCDEFGHIJKLMNOPQRSTUVWXYZabcdefghijklmnopqrstuvwxyz0123456789+/''"

definition B64index :: "int list" where
  "B64index =
    [0, 0, 0, 0, 0, 0, 0, 0, 0, 0, 0, 0, 0, 0, 0, 0,
     0, 0, 0, 0, 0, 0, 0, 0, 0, 0, 0, 0, 0, 0, 0, 0,
     0, 0, 0, 0, 0, 0, 0, 0, 0, 0, 0, 62, 63, 62, 62, 63,
     52, 53, 54, 55, 56, 57, 58, 59, 60, 61, 0, 0, 0, 0, 0, 0,
     0, 0, 1, 2, 3, 4, 5, 6, 7, 8, 9, 10, 11, 12, 13, 14,
     15, 16, 17, 18, 19, 20, 21, 22, 23, 24, 25, 0, 0, 0, 0, 63,
     0, 26, 27, 28, 29, 30, 31, 32, 33, 34, 35, 36, 37, 38, 39, 40,
     41, 42, 43, 44, 45, 46, 47, 48, 49, 50, 51] @ replicate 133 0"

abbreviation eq_byte :: int where "eq_byte \<equiv> 61"

definition b64_char :: "int \<Rightarrow> int" where
  "b64_char n = B64chars ! nat n"

definition b64_value :: "int \<Rightarrow> int" where
  "b64_value p = B64index ! nat p"

fun b64encode :: "int list \<Rightarrow> int list" where
  "b64encode (p0 # p1 # p2 # rest) =
     (let n = push_bit 16 p0 OR push_bit 8 p1 OR p2
      in [b64_char (drop_bit 18 n), b64_char (drop_bit 12 n AND 63),
          b64_char (drop_bit 6 n AND 63), b64_char (n AND 63)] @ b64encode rest)"
| "b64encode [p0, p1] =
     (let n = push_bit 8 p0 OR p1
      in [b64_char (drop_bit 10 n AND 63), b64_char (drop_bit 4 n AND 63),
          b64_char (push_bit 2 n AND 63), eq_byte])"
| "b64encode [p0] =
     [b64_char (drop_bit 2 p0), b64_char (push_bit 4 p0 AND 63), eq_byte, eq_byte]"
| "b64encode [] = []"

text \<open>The loop over whole groups of four.\<close>

fun b64_groups :: "int list \<Rightarrow> int list" where
  "b64_groups (p0 # p1 # p2 # p3 # rest) =
     (let n = push_bit 18 (b64_value p0) OR push_bit 12 (b64_value p1)
                OR push_bit 6 (b64_value p2) OR b64_value p3
      in [drop_bit 16 n AND 255, drop_bit 8 n AND 255, n AND 255] @ b64_groups rest)"
| "b64_groups _ = []"

definition c_str_at :: "int list \<Rightarrow> nat \<Rightarrow> int result" where
  "c_str_at p i = (if i < length p then Inr (p ! i) else if i = length p then Inr 0
                   else Inl UndefinedBehaviour)"

definition b64_pad1 :: "int list \<Rightarrow> bool" where
  "b64_pad1 p \<longleftrightarrow> length p mod 4 \<noteq> 0 \<or> p ! (length p - 1) = eq_byte"

definition b64_pad2 :: "int list \<Rightarrow> bool result" where
  "b64_pad2 p =
     (if \<not> b64_pad1 p then Inr False
      else if length p mod 4 > 2 then Inr True
      else if length p < 2 then Inl UndefinedBehaviour
      else Inr (p ! (length p - 2) \<noteq> eq_byte))"

definition b64_tail :: "int list \<Rightarrow> nat \<Rightarrow> bool \<Rightarrow> int list result" where
  "b64_tail p lst pad2 =
     (case (c_str_at p lst, c_str_at p (lst + 1)) of
        (Inr x0, Inr x1) \<Rightarrow>
          (let n = push_bit 18 (b64_value x0) OR push_bit 12 (b64_value x1) in
           if \<not> pad2 then Inr [drop_bit 16 n AND 255]
           else (case c_str_at p (lst + 2) of
                   Inl e \<Rightarrow> Inl e
                 | Inr x2 \<Rightarrow> Inr [drop_bit 16 n AND 255,
                                drop_bit 8 (n OR push_bit 6 (b64_value x2)) AND 255]))
      | _ \<Rightarrow> Inl UndefinedBehaviour)"

definition b64decode :: "int list \<Rightarrow> int list result" where
  "b64decode p =
     (if p = [] then Inr []
      else case b64_pad2 p of
        Inl e \<Rightarrow> Inl e
      | Inr pad2 \<Rightarrow>
          (let lst = (length p - (if b64_pad1 p then 1 else 0)) div 4 * 4;
               body = b64_groups (take lst p) in
           if \<not> b64_pad1 p then Inr body
           else (case b64_tail p lst pad2 of Inl e \<Rightarrow> Inl e | Inr tail \<Rightarrow> Inr (body @ tail))))"

subsection \<open>Round trip\<close>

definition byte :: "int \<Rightarrow> bool" where
  "byte x \<longleftrightarrow> 0 \<le> x \<and> x < 256"

lemma B64chars_code: "B64chars =
   [65, 66, 67, 68, 69, 70, 71, 72, 73, 74, 75, 76, 77, 78, 79, 80,
    81, 82, 83, 84, 85, 86, 87, 88, 89, 90, 97, 98, 99, 100, 101, 102,
    103, 104, 105, 106, 107, 108, 109, 110, 111, 112, 113, 114, 115, 116, 117, 118,
    119, 120, 121, 122, 48, 49, 50, 51, 52, 53, 54, 55, 56, 57, 43, 47]"
  by (simp add: B64chars_def)

lemma byte_zero: "byte 0"
  by (simp add: byte_def)

lemma alphabet:
  "list_all (\<lambda>i. b64_value (b64_char (int i)) = int i \<and> b64_char (int i) \<noteq> eq_byte) [0..<64]"
proof -
  have "[0..<64] = 0 # 1 # [2..<64]" by (simp add: upt_rec numeral_2_eq_2)
  then show ?thesis
    by (simp add: upt_rec_numeral b64_value_def b64_char_def B64chars_code B64index_def del: upt.simps)
qed

lemma b64_value_char:
  assumes "0 \<le> n" "n < 64"
  shows "b64_value (b64_char n) = n" "b64_char n \<noteq> eq_byte"
proof -
  have "nat n \<in> set [0..<64]" using assms by auto
  with alphabet have "b64_value (b64_char (int (nat n))) = int (nat n) \<and> b64_char (int (nat n)) \<noteq> eq_byte"
    unfolding list_all_iff by blast
  with assms show "b64_value (b64_char n) = n" "b64_char n \<noteq> eq_byte" by simp_all
qed

lemma and_mask: "(x::int) AND 63 = x mod 64" "(x::int) AND 255 = x mod 256"
proof -
  have m: "(63::int) = mask 6" "(255::int) = mask 8" by (simp_all add: mask_eq_exp_minus_1)
  show "x AND 63 = x mod 64" by (subst m) (simp add: take_bit_eq_mask [symmetric] take_bit_eq_mod del: mask_numeral)
  show "x AND 255 = x mod 256" by (subst m) (simp add: take_bit_eq_mask [symmetric] take_bit_eq_mod del: mask_numeral)
qed

lemma or_disjoint:
  fixes a b :: int
  assumes "0 \<le> b" "b < 2 ^ k"
  shows "push_bit k a OR b = a * 2 ^ k + b"
proof -
  have b: "take_bit k b = b" using assms by (simp add: take_bit_int_eq_self)
  have "push_bit k a AND b = 0"
  proof (rule bit_eqI)
    fix i
    show "bit (push_bit k a AND b) i = bit (0::int) i"
      by (subst b [symmetric]) (auto simp: bit_and_iff bit_push_bit_iff bit_take_bit_iff)
  qed
  then have "push_bit k a OR b = push_bit k a + b"
    by (simp add: disjunctive_add bit_eq_iff bit_and_iff)
  then show ?thesis by (simp add: push_bit_eq_mult)
qed

lemma encode_bits:
  assumes "byte a" "byte b" "byte c"
  shows "push_bit 8 a OR b = a * 256 + b"
    and "push_bit 16 a OR (b * 256 + c) = a * 65536 + b * 256 + c"
  using or_disjoint [of "b * 256 + c" 16 a] or_disjoint [of b 8 a] assms by (simp_all add: byte_def)

lemma decode_bits:
  assumes "0 \<le> x" "x < 64" "0 \<le> y" "y < 64" "0 \<le> z" "z < (64::int)"
  shows "push_bit 6 y OR z = y * 64 + z"
    and "push_bit 12 x OR (y * 64 + z) = x * 4096 + y * 64 + z"
    and "push_bit 18 w OR (x * 4096 + y * 64 + z) = w * 262144 + x * 4096 + y * 64 + z"
    and "push_bit 18 w OR push_bit 12 x = w * 262144 + x * 4096"
    and "(w * 262144 + x * 4096) OR push_bit 6 y = w * 262144 + x * 4096 + y * 64"
proof -
  show "push_bit 6 y OR z = y * 64 + z" "push_bit 12 x OR (y * 64 + z) = x * 4096 + y * 64 + z"
    "push_bit 18 w OR (x * 4096 + y * 64 + z) = w * 262144 + x * 4096 + y * 64 + z"
    using or_disjoint [of z 6 y] or_disjoint [of "y * 64 + z" 12 x]
      or_disjoint [of "x * 4096 + y * 64 + z" 18 w] assms by simp_all
  show "push_bit 18 w OR push_bit 12 x = w * 262144 + x * 4096"
    using or_disjoint [of "x * 4096" 18 w] assms by (simp add: push_bit_eq_mult)
  have "push_bit 12 (w * 64 + x) OR push_bit 6 y = (w * 64 + x) * 4096 + y * 64"
    using or_disjoint [of "y * 64" 12 "w * 64 + x"] assms by (simp add: push_bit_eq_mult)
  then show "(w * 262144 + x * 4096) OR push_bit 6 y = w * 262144 + x * 4096 + y * 64"
    by (simp add: push_bit_eq_mult algebra_simps)
qed

lemma b64_value_zero [simp]: "b64_value eq_byte = 0"
  by (simp add: b64_value_def B64index_def)

lemma regroup:
  fixes n :: int
  assumes "0 \<le> n" "n < 16777216"
  shows "push_bit 18 (b64_value (b64_char (n div 262144))) OR push_bit 12 (b64_value (b64_char (n div 4096 mod 64)))
     OR push_bit 6 (b64_value (b64_char (n div 64 mod 64))) OR b64_value (b64_char (n mod 64)) = n"
proof -
  define q r where "q = n div 64" and "r = q div 64"
  have e: "n div 64 = q" "n div 4096 = r" "n div 262144 = r div 64"
    by (simp_all add: q_def r_def flip: zdiv_zmult2_eq)
  have b: "0 \<le> r div 64" "r div 64 < 64" using assms e by (simp_all flip: e)
  have d: "r div 64 * 64 + r mod 64 = r" "r * 64 + q mod 64 = q" "q * 64 + n mod 64 = n"
    by (simp_all add: q_def r_def)
  have "r div 64 * 262144 + r mod 64 * 4096 + q mod 64 * 64 + n mod 64 = n" using d by linarith
  then show ?thesis
    unfolding e using b by (simp add: b64_value_char decode_bits)
qed

lemma split_bytes:
  assumes "byte a" "byte b" "byte c"
  shows "(a * 65536 + b * 256 + c) div 65536 mod 256 = a" "(a * 65536 + b * 256 + c) div 256 mod 256 = b"
    "(a * 65536 + b * 256 + c) mod 256 = c" "0 \<le> a * 65536 + b * 256 + c"
    "a * 65536 + b * 256 + c < 16777216"
proof -
  have e: "a * 65536 + b * 256 + c = (a * 256 + b) * 256 + c" by simp
  have low: "(x * 256 + y) div 256 = x" "(x * 256 + y) mod 256 = y" if "byte y" for x y :: int
    using that by (simp_all add: byte_def)
  have "x div 65536 = x div 256 div 256" for x :: int by (simp flip: zdiv_zmult2_eq)
  with low assms show "(a * 65536 + b * 256 + c) div 65536 mod 256 = a"
    "(a * 65536 + b * 256 + c) div 256 mod 256 = b" "(a * 65536 + b * 256 + c) mod 256 = c"
    unfolding e by (simp_all add: byte_def del: distrib_right_numeral)
  show "0 \<le> a * 65536 + b * 256 + c" "a * 65536 + b * 256 + c < 16777216"
    using assms by (simp_all add: byte_def)
qed

lemma group_round_trip:
  assumes "byte a" "byte b" "byte c"
  shows "b64_groups (b64encode [a, b, c]) = [a, b, c]"
  using assms
  by (simp add: Let_def encode_bits and_mask drop_bit_eq_div regroup split_bytes)

text \<open>A leading group of four decodes on its own, whatever follows it.\<close>

lemma b64_groups_append:
  "length q mod 4 = 0 \<Longrightarrow> b64_groups (q @ p) = b64_groups q @ b64_groups p"
  by (induction q rule: b64_groups.induct) (auto simp: Let_def)

lemma b64decode_group:
  assumes "length q = 4" "p \<noteq> []" "length p mod 4 = 0"
  shows "b64decode (q @ p) = map_sum id (\<lambda>t. b64_groups q @ t) (b64decode p)"
proof -
  obtain k where k: "length p = 4 * Suc k"
    using assms(2,3) by (cases "length p div 4") (auto simp: mod_eq_0_iff_dvd dvd_def)
  have at: "(q @ p) ! (4 * Suc k + 4 - 1) = p ! (4 * Suc k - 1)"
    "(q @ p) ! (4 * Suc k + 4 - 2) = p ! (4 * Suc k - 2)"
    using assms(1) by (simp_all add: nth_append)
  have pad: "b64_pad1 (q @ p) = b64_pad1 p" "b64_pad2 (q @ p) = b64_pad2 p"
    using at assms(1) k by (auto simp: b64_pad1_def b64_pad2_def add.commute)
  define l where "l = (length p - (if b64_pad1 p then 1 else 0)) div 4 * 4"
  have l: "(length (q @ p) - (if b64_pad1 p then 1 else 0)) div 4 * 4 = 4 + l"
    using assms(1) k by (auto simp: l_def)
  have body: "b64_groups (take (4 + l) (q @ p)) = b64_groups q @ b64_groups (take l p)"
    using assms(1) by (simp add: b64_groups_append)
  have c: "c_str_at (q @ p) (4 + i) = c_str_at p i" for i
    using assms(1) by (simp add: c_str_at_def nth_append)
  have tail: "b64_tail (q @ p) (4 + l) b = b64_tail p l b" for b
    by (simp only: b64_tail_def add.assoc c)
  have *: "b64decode p = (case b64_pad2 p of Inl e \<Rightarrow> Inl e | Inr pad2 \<Rightarrow>
      if \<not> b64_pad1 p then Inr (b64_groups (take l p))
      else (case b64_tail p l pad2 of Inl e \<Rightarrow> Inl e | Inr t \<Rightarrow> Inr (b64_groups (take l p) @ t)))"
    using assms(2) unfolding b64decode_def Let_def l_def by (simp only: if_False)
  have "b64decode (q @ p) = (case b64_pad2 p of Inl e \<Rightarrow> Inl e | Inr pad2 \<Rightarrow>
      if \<not> b64_pad1 p then Inr (b64_groups q @ b64_groups (take l p))
      else (case b64_tail p l pad2 of Inl e \<Rightarrow> Inl e
        | Inr t \<Rightarrow> Inr ((b64_groups q @ b64_groups (take l p)) @ t)))"
    using assms(2) unfolding b64decode_def Let_def pad l body tail
    by (simp only: append_is_Nil_conv if_False simp_thms)
  with * show ?thesis by (simp split: sum.split)
qed

lemma b64encode_length [simp]: "length (b64encode xs) mod 4 = 0"
  by (induction xs rule: b64encode.induct) (simp_all add: Let_def mod_add_eq)

lemma one_byte:
  assumes "byte a"
  shows "0 \<le> a div 4" "a div 4 < 64" "(a div 4 * 262144 + a * 16 mod 64 * 4096) div 65536 mod 256 = a"
proof -
  have "a * 16 mod 64 = (a mod 4) * 16" by (simp flip: mult_mod_left [of a 4 16, simplified])
  moreover have "a = a div 4 * 4 + a mod 4" by simp
  ultimately have "(a div 4) * 262144 + (a * 16 mod 64) * 4096 = a * 65536" by linarith
  with assms show "(a div 4 * 262144 + a * 16 mod 64 * 4096) div 65536 mod 256 = a"
    by (simp add: byte_def)
  show "0 \<le> a div 4" "a div 4 < 64" using assms by (auto simp: byte_def)
qed

lemma two_bytes:
  assumes "byte a" "byte b"
  defines "n \<equiv> a * 256 + b"
  shows "0 \<le> n" "n div 1024 mod 64 * 262144 + n div 16 mod 64 * 4096 + n * 4 mod 64 * 64 = a * 65536 + b * 256"
    "(n div 1024 mod 64 * 262144 + n div 16 mod 64 * 4096) div 65536 mod 256 = a"
proof -
  define q r s t where "q = a div 4" and "r = a mod 4" and "s = b div 16" and "t = b mod 16"
  have ab: "a = 4 * q + r" "b = 16 * s + t" "0 \<le> r" "r < 4" "0 \<le> t" "t < 16"
    "0 \<le> q" "q < 64" "0 \<le> s" "s < 16"
    using assms by (auto simp: q_def r_def s_def t_def byte_def)
  have n: "n = q * 1024 + (r * 256 + (s * 16 + t))" "n = (q * 64 + (r * 16 + s)) * 16 + t"
    "n * 4 = (q * 16 + (r * 4 + s div 4)) * 64 * 4 + n * 4 - (q * 16 + (r * 4 + s div 4)) * 64 * 4"
    using ab by (simp_all add: n_def)
  show "0 \<le> n" using assms by (simp add: n_def byte_def)
  have d1: "n div 1024 = q" unfolding n(1) using ab by simp
  have d2: "n div 16 = q * 64 + (r * 16 + s)" unfolding n(2) using ab by simp
  have d3: "n * 4 mod 64 = t * 4"
  proof -
    have "n * 4 = t * 4 + 64 * (q * 64 + (r * 16 + s))" using n(2) by simp
    then show ?thesis using ab by (simp only: mod_mult_self2) simp
  qed
  have d4: "(q * 64 + (r * 16 + s)) mod 64 = r * 16 + s" using ab by simp
  show "n div 1024 mod 64 * 262144 + n div 16 mod 64 * 4096 + n * 4 mod 64 * 64 = a * 65536 + b * 256"
    unfolding d1 d2 d3 d4 using ab by simp
  have "q mod 64 * 262144 + (r * 16 + s) * 4096 = s * 4096 + a * 65536" using ab by simp
  moreover have "(s * 4096 + a * 65536) div 65536 = a" using ab by (simp del: ab(1))
  ultimately have "(q mod 64 * 262144 + (r * 16 + s) * 4096) div 65536 = a" by simp
  then show "(n div 1024 mod 64 * 262144 + n div 16 mod 64 * 4096) div 65536 mod 256 = a"
    unfolding d1 d2 d4 using assms by (simp add: byte_def)
qed

lemma decode_last:
  assumes "byte a" "byte b" "byte c"
  shows "b64decode (b64encode [a]) = Inr [a]" "b64decode (b64encode [a, b]) = Inr [a, b]"
    "b64decode (b64encode [a, b, c]) = Inr [a, b, c]"
proof -
  note byte_bounds = one_byte(1,2) [OF assms(1)]
  note tail_simps = b64decode_def b64_pad1_def b64_pad2_def b64_tail_def c_str_at_def Let_def
    and_mask drop_bit_eq_div numeral_2_eq_2
  have a: "b64_char n \<noteq> eq_byte" if "byte a" "n = a div 4 \<or> n = a * 16 mod 64" for a n
    using that by (auto simp: byte_def b64_value_char)
  show "b64decode (b64encode [a]) = Inr [a]"
    using one_byte [OF assms(1)] assms(1)
    by (simp add: tail_simps a decode_bits b64_value_char push_bit_eq_mult [of 4])
  show "b64decode (b64encode [a, b, c]) = Inr [a, b, c]"
    using group_round_trip [OF assms] by (simp add: tail_simps b64_value_char)
  define n where "n = a * 256 + b"
  have two: "b64decode [w, x, y, eq_byte] = Inr
      [drop_bit 16 (push_bit 18 (b64_value w) OR push_bit 12 (b64_value x)) AND 255,
       drop_bit 8 ((push_bit 18 (b64_value w) OR push_bit 12 (b64_value x))
         OR push_bit 6 (b64_value y)) AND 255]" if "y \<noteq> eq_byte" for w x y
    using that by (simp add: b64decode_def b64_pad1_def b64_pad2_def b64_tail_def c_str_at_def Let_def
      numeral_2_eq_2)
  have enc: "b64encode [a, b] = [b64_char (n div 1024 mod 64), b64_char (n div 16 mod 64),
      b64_char (n * 4 mod 64), eq_byte]"
    by (simp add: Let_def and_mask drop_bit_eq_div encode_bits(1) [OF assms] push_bit_eq_mult [of 2] n_def)
  have ne: "b64_char (n * 4 mod 64) \<noteq> eq_byte" by (rule b64_value_char) simp_all
  have val: "b64_value (b64_char (k mod 64)) = k mod 64" for k by (rule b64_value_char) simp_all
  have bits: "push_bit 18 (n div 1024 mod 64) OR push_bit 12 (n div 16 mod 64)
      = n div 1024 mod 64 * 262144 + n div 16 mod 64 * 4096"
    "(n div 1024 mod 64 * 262144 + n div 16 mod 64 * 4096) OR push_bit 6 (n * 4 mod 64)
      = a * 65536 + b * 256"
    unfolding two_bytes(2) [OF assms(1,2), folded n_def, symmetric]
    using decode_bits(4) [of "n div 16 mod 64" 0 0] decode_bits(5) [of "n div 16 mod 64" "n * 4 mod 64" 0]
    by (simp_all del: push_bit_of_0)
  have out: "(n div 1024 mod 64 * 262144 + n div 16 mod 64 * 4096) div 65536 mod 256 = a"
    "(a * 65536 + b * 256) div 256 mod 256 = b"
    by (rule two_bytes(3) [OF assms(1,2), folded n_def])
      (rule split_bytes(2) [of a b 0, simplified add_0_right]; simp only: assms byte_zero)
  have pow: "(2::int) ^ 16 = 65536" "(2::int) ^ 8 = 256" by simp_all
  show "b64decode (b64encode [a, b]) = Inr [a, b]"
    unfolding enc two [OF ne] val bits and_mask drop_bit_eq_div
    by (simp only: pow out)
qed

lemma base64_round_trip_bytes:
  assumes "list_all byte xs"
  shows "b64decode (b64encode xs) = Inr xs"
  using assms
proof (induction xs rule: b64encode.induct)
  case (1 a b c rest)
  show ?case
  proof (cases "rest = []")
    case True
    with 1 show ?thesis using decode_last(3) [of a b c] by simp
  next
    case False
    have "b64encode (a # b # c # rest) = b64encode [a, b, c] @ b64encode rest"
      by (simp add: Let_def)
    moreover have "b64encode rest \<noteq> []"
      using False by (cases rest rule: b64encode.cases) (auto simp: Let_def)
    moreover have "b64decode (b64encode rest) = Inr rest" using 1 by simp
    ultimately show ?thesis
      using 1 b64decode_group [of "b64encode [a, b, c]" "b64encode rest"] group_round_trip [of a b c]
      by (simp add: Let_def)
  qed
next
  case (2 a b)
  then show ?case using decode_last(2) [of a b 0] by (simp add: byte_def)
next
  case (3 a)
  then show ?case using decode_last(1) [of a 0 0] by (simp add: byte_def)
next
  case 4
  show ?case by (simp add: b64decode_def)
qed

lemma alphabet_bytes: "0 \<le> n \<Longrightarrow> n < 64 \<Longrightarrow> byte (b64_char n)"
proof -
  assume n: "0 \<le> n" "n < 64"
  have "length B64chars = 64" "list_all byte B64chars" by (simp_all add: B64chars_code byte_def)
  then show "byte (b64_char n)" using n by (simp add: b64_char_def list_all_length)
qed

lemma b64encode_bytes: "list_all byte xs \<Longrightarrow> list_all byte (b64encode xs)"
proof (induction xs rule: b64encode.induct)
  case (1 a b c rest)
  then have n: "push_bit 16 a OR push_bit 8 b OR c = a * 65536 + b * 256 + c"
    using encode_bits(1) [of b c c] encode_bits(2) [of a b c] by simp
  have "0 \<le> a * 65536 + b * 256 + c" "(a * 65536 + b * 256 + c) div 262144 < 64"
    using split_bytes(4,5) [of a b c] 1 by auto
  with 1 show ?case
    by (simp add: Let_def n and_mask drop_bit_eq_div alphabet_bytes pos_imp_zdiv_nonneg_iff)
next
  case (2 a b)
  have "byte eq_byte" by (simp add: byte_def)
  then show ?case by (simp add: Let_def and_mask alphabet_bytes)
next
  case (3 a)
  have "byte eq_byte" by (simp add: byte_def)
  with 3 show ?case using one_byte(1,2) [of a] by (simp add: and_mask drop_bit_eq_div alphabet_bytes)
qed simp

text \<open>C33: Whatever bytes the engine encodes into a queue payload (JSON of any length, its padding
  included), decoding returns exactly those bytes, without an out-of-range read.\<close>

theorem base64_round_trip:
  assumes "list_all byte xs"
  shows "b64decode (b64encode xs) = Inr xs"
  by (rule base64_round_trip_bytes [OF assms])

lemma base64_round_trip_witness:
  "list_all byte [82, 85, 78, 35] \<and> b64decode (b64encode [82, 85, 78, 35]) = Inr [82, 85, 78, 35]"
  using base64_round_trip [of "[82, 85, 78, 35]"] by (simp add: byte_def)

text \<open>On inputs the encoder never writes: a single character makes \<open>p[len - 2]\<close> read before the
  string, five characters make \<open>p[last + 2]\<close> read past its terminator, and an unpadded tail of two
  characters yields a spurious zero byte.\<close>

lemma b64decode_malformed:
  "b64decode [65] = Inl UndefinedBehaviour"
  "b64decode [85, 107, 86, 79, 65] = Inl UndefinedBehaviour"
  "b64decode [85, 107] = Inr [82, 64]"
  by code_simp+

end
