(* ===== verification/JsonValue.thy ===== *)
theory JsonValue
  imports Prelude
begin

unbundle bit_operations_syntax

section \<open>JSON values\<close>

text \<open>
  Every payload the engine queues, stores or publishes is JSON of the bundled
  \<open>external/nlohmann/json.hpp\<close>. This theory holds its value type, its exceptions and UTF-8;
  \<open>JsonSerializer\<close> is \<open>dump\<close>, \<open>JsonLexer\<close> and \<open>JsonParser\<close> are \<open>parse\<close>.

  A \<open>std::string\<close> is its list of bytes; an object is a \<open>std::map\<close>, listed in key order. Doubles
  and their conversions from and to text are a parameter of type \<open>'f double_ops\<close>.
\<close>

datatype 'f json =
    JNull
  | JObject "(string \<times> 'f json) list"
  | JArray "'f json list"
  | JString string
  | JBoolean bool
  | JInteger int
  | JUnsigned int
  | JFloat 'f

record position_t =
  chars_read_total :: nat
  chars_read_current_line :: nat
  lines_read :: nat

datatype json_error =
    parse_error nat position_t string
  | type_error nat string
  | out_of_range nat string
  | buffer_overrun

record 'f double_ops =
  dbl_isfinite :: "'f \<Rightarrow> bool"
  dbl_to_chars :: "'f \<Rightarrow> string"
  dbl_strtod :: "string \<Rightarrow> 'f"

text \<open>\<open>operator[]\<close> of a \<open>std::map\<close> followed by an assignment: overwrite or insert in key order.\<close>

fun map_put :: "string \<Rightarrow> 'v \<Rightarrow> (string \<times> 'v) list \<Rightarrow> (string \<times> 'v) list" where
  "map_put k v [] = [(k, v)]"
| "map_put k v ((k', v') # kvs) =
     (if k = k' then (k, v) # kvs
      else if k < k' then (k, v) # (k', v') # kvs
      else (k', v') # map_put k v kvs)"

definition json_find :: "'f json \<Rightarrow> string \<Rightarrow> 'f json option" where
  "json_find j k = (case j of JObject kvs \<Rightarrow> map_of kvs k | _ \<Rightarrow> None)"

lemma map_of_map_put [simp]: "map_of (map_put k v kvs) = (map_of kvs)(k \<mapsto> v)"
  by (induction k v kvs rule: map_put.induct) (auto simp: fun_eq_iff)

lemma keys_map_put: "fst ` set (map_put k v kvs) = insert k (fst ` set kvs)"
  by (induction k v kvs rule: map_put.induct) auto

lemma sorted_map_put:
  "sorted_wrt (<) (map fst kvs) \<Longrightarrow> sorted_wrt (<) (map fst (map_put k v kvs))"
proof (induction k v kvs rule: map_put.induct)
  case (2 k v k' v' kvs)
  then show ?case
    by (auto simp: keys_map_put simp flip: set_map) (auto simp: keys_map_put dest: less_trans)
qed simp

lemma map_put_last:
  assumes "\<forall>k' \<in> set (map fst kvs). k' < k"
  shows "map_put k v kvs = kvs @ [(k, v)]"
  using assms by (induction kvs) (auto dest: less_asym)

subsection \<open>UTF-8\<close>

text \<open>Well-formed byte sequences (Unicode 15, table 3-7): the ranges of the bytes that may follow a
  leading byte, or \<open>None\<close> where no sequence starts with it.\<close>

definition utf8_follow :: "char \<Rightarrow> (nat \<times> nat) list option" where
  "utf8_follow c =
     (let b = of_char c :: nat in
      if b < 0x80 then Some []
      else if 0xC2 \<le> b \<and> b \<le> 0xDF then Some [(0x80, 0xBF)]
      else if b = 0xE0 then Some [(0xA0, 0xBF), (0x80, 0xBF)]
      else if b = 0xED then Some [(0x80, 0x9F), (0x80, 0xBF)]
      else if 0xE1 \<le> b \<and> b \<le> 0xEF then Some [(0x80, 0xBF), (0x80, 0xBF)]
      else if b = 0xF0 then Some [(0x90, 0xBF), (0x80, 0xBF), (0x80, 0xBF)]
      else if 0xF1 \<le> b \<and> b \<le> 0xF3 then Some [(0x80, 0xBF), (0x80, 0xBF), (0x80, 0xBF)]
      else if b = 0xF4 then Some [(0x80, 0x8F), (0x80, 0xBF), (0x80, 0xBF)]
      else None)"

definition in_range :: "nat \<times> nat \<Rightarrow> char \<Rightarrow> bool" where
  "in_range r c \<longleftrightarrow> fst r \<le> of_char c \<and> of_char c \<le> snd r"

inductive utf8 :: "string \<Rightarrow> bool" where
  utf8_Nil: "utf8 []"
| utf8_seq: "utf8_follow c = Some rs \<Longrightarrow> list_all2 in_range rs cs \<Longrightarrow> utf8 s \<Longrightarrow> utf8 (c # cs @ s)"

lemma of_char_less_256 [simp]: "(of_char c :: nat) < 256"
  by (metis of_char_mod_256 mod_less_divisor zero_less_numeral)

lemma utf8_ascii:
  assumes "\<forall>c \<in> set s. of_char c < (0x80::nat)"
  shows "utf8 s"
  using assms
proof (induction s)
  case (Cons c s)
  then show ?case using utf8_seq [of c "[]" "[]" s] by (simp add: utf8_follow_def)
qed (rule utf8_Nil)

end
