(* ===== verification/JsonLexer.thy ===== *)
theory JsonLexer
  imports JsonValue
begin

unbundle bit_operations_syntax

section \<open>The JSON lexer\<close>

text \<open>
  \<open>class lexer\<close> of \<open>external/nlohmann/json.hpp\<close>, reading a byte string. \<open>lx_current\<close> is \<open>None\<close> at
  the end of the input (\<open>eof()\<close>). The engine never changes the locale, so the decimal point is
  \<open>.\<close>, and never asks for comments to be skipped. \<open>strtoull\<close> and \<open>strtoll\<close> are read off their
  standard: the digits' value, or a range error. \<open>strtod\<close> is a parameter.
\<close>

datatype token_type =
    uninitialized
  | literal_true
  | literal_false
  | literal_null
  | value_string
  | value_unsigned
  | value_integer
  | value_float
  | begin_array
  | begin_object
  | end_array
  | end_object
  | name_separator
  | value_separator
  | tok_parse_error
  | end_of_input
  | literal_or_value

fun token_type_name :: "token_type \<Rightarrow> string" where
  "token_type_name uninitialized = ''<uninitialized>''"
| "token_type_name literal_true = ''true literal''"
| "token_type_name literal_false = ''false literal''"
| "token_type_name literal_null = ''null literal''"
| "token_type_name value_string = ''string literal''"
| "token_type_name value_unsigned = ''number literal''"
| "token_type_name value_integer = ''number literal''"
| "token_type_name value_float = ''number literal''"
| "token_type_name begin_array = [CHR 0x27, CHR ''['', CHR 0x27]"
| "token_type_name begin_object = [CHR 0x27, CHR ''{'', CHR 0x27]"
| "token_type_name end_array = [CHR 0x27, CHR '']'', CHR 0x27]"
| "token_type_name end_object = [CHR 0x27, CHR ''}'', CHR 0x27]"
| "token_type_name name_separator = [CHR 0x27, CHR '':'', CHR 0x27]"
| "token_type_name value_separator = [CHR 0x27, CHR '','', CHR 0x27]"
| "token_type_name tok_parse_error = ''<parse error>''"
| "token_type_name end_of_input = ''end of input''"
| "token_type_name literal_or_value =
     [CHR 0x27, CHR ''['', CHR 0x27] @ '', '' @ [CHR 0x27, CHR ''{'', CHR 0x27] @ '', or a literal''"

record 'f lexer =
  lx_input :: string
  lx_current :: "char option"
  lx_next_unget :: bool
  lx_position :: position_t
  lx_token_string :: string
  lx_token_buffer :: string
  lx_error_message :: string
  lx_value_integer :: int
  lx_value_unsigned :: int
  lx_value_float :: 'f

definition new_lexer :: "'f \<Rightarrow> string \<Rightarrow> 'f lexer" where
  "new_lexer zero input =
     \<lparr>lx_input = input, lx_current = None, lx_next_unget = False,
      lx_position = \<lparr>chars_read_total = 0, chars_read_current_line = 0, lines_read = 0\<rparr>,
      lx_token_string = [], lx_token_buffer = [], lx_error_message = [],
      lx_value_integer = 0, lx_value_unsigned = 0, lx_value_float = zero\<rparr>"

subsection \<open>Input management\<close>

definition count_read :: "position_t \<Rightarrow> position_t" where
  "count_read p = p\<lparr>chars_read_total := chars_read_total p + 1,
                    chars_read_current_line := chars_read_current_line p + 1\<rparr>"

definition new_line :: "position_t \<Rightarrow> position_t" where
  "new_line p = p\<lparr>lines_read := lines_read p + 1, chars_read_current_line := 0\<rparr>"

definition lx_get :: "'f lexer \<Rightarrow> 'f lexer" where
  "lx_get l =
     (let l = l\<lparr>lx_position := count_read (lx_position l)\<rparr>;
          l = (if lx_next_unget l then l\<lparr>lx_next_unget := False\<rparr>
               else case lx_input l of
                      [] \<Rightarrow> l\<lparr>lx_current := None\<rparr>
                    | c # cs \<Rightarrow> l\<lparr>lx_current := Some c, lx_input := cs\<rparr>);
          l = (case lx_current l of None \<Rightarrow> l | Some c \<Rightarrow> l\<lparr>lx_token_string := lx_token_string l @ [c]\<rparr>)
      in if lx_current l = Some (CHR 0x0A) then l\<lparr>lx_position := new_line (lx_position l)\<rparr> else l)"

definition lx_unget :: "'f lexer \<Rightarrow> 'f lexer" where
  "lx_unget l =
     (let p = lx_position l;
          p = p\<lparr>chars_read_total := chars_read_total p - 1\<rparr>;
          p = (if chars_read_current_line p = 0
               then if lines_read p > 0 then p\<lparr>lines_read := lines_read p - 1\<rparr> else p
               else p\<lparr>chars_read_current_line := chars_read_current_line p - 1\<rparr>);
          l = l\<lparr>lx_next_unget := True, lx_position := p\<rparr>
      in if lx_current l \<noteq> None then l\<lparr>lx_token_string := butlast (lx_token_string l)\<rparr> else l)"

definition lx_add :: "char \<Rightarrow> 'f lexer \<Rightarrow> 'f lexer" where
  "lx_add c l = l\<lparr>lx_token_buffer := lx_token_buffer l @ [c]\<rparr>"

definition lx_reset :: "'f lexer \<Rightarrow> 'f lexer" where
  "lx_reset l = l\<lparr>lx_token_buffer := [],
     lx_token_string := (case lx_current l of None \<Rightarrow> [CHR 0xFF] | Some c \<Rightarrow> [c])\<rparr>"

definition lx_fail :: "string \<Rightarrow> 'f lexer \<Rightarrow> token_type \<times> 'f lexer" where
  "lx_fail msg l = (tok_parse_error, l\<lparr>lx_error_message := msg\<rparr>)"

text \<open>\<open>get_token_string\<close>: control characters are shown as \<open><U+0000>\<close>.\<close>

definition upper_hex :: "nat \<Rightarrow> char" where
  "upper_hex n = ''0123456789ABCDEF'' ! n"

definition get_token_string :: "'f lexer \<Rightarrow> string" where
  "get_token_string l =
     concat (map (\<lambda>c. if of_char c \<le> (0x1F :: nat)
                      then ''<U+00'' @ [upper_hex (of_char c div 16), upper_hex (of_char c mod 16)] @ ''>''
                      else [c]) (lx_token_string l))"

text \<open>What is left to read; an ungot character counts.\<close>

definition lx_size :: "'f lexer \<Rightarrow> nat" where
  "lx_size l = length (lx_input l) + (if lx_next_unget l \<and> lx_current l \<noteq> None then 1 else 0)"

lemma lx_get_size: "lx_current (lx_get l) = Some c \<Longrightarrow> lx_size (lx_get l) < lx_size l"
  by (auto simp: lx_get_def lx_size_def Let_def split: list.splits option.splits if_splits)

lemma lx_get_size_le: "lx_size (lx_get l) \<le> lx_size l"
  by (auto simp: lx_get_def lx_size_def Let_def split: list.splits option.splits if_splits)

lemma lx_add_simps [simp]:
  "lx_size (lx_add c l) = lx_size l" "lx_current (lx_add c l) = lx_current l"
  "lx_next_unget (lx_add c l) = lx_next_unget l" "lx_input (lx_add c l) = lx_input l"
  by (simp_all add: lx_add_def lx_size_def)

subsection \<open>String literals\<close>

definition hex_value :: "char \<Rightarrow> nat option" where
  "hex_value c =
     (let b = of_char c :: nat in
      if 0x30 \<le> b \<and> b \<le> 0x39 then Some (b - 0x30)
      else if 0x41 \<le> b \<and> b \<le> 0x46 then Some (b - 0x37)
      else if 0x61 \<le> b \<and> b \<le> 0x66 then Some (b - 0x57)
      else None)"

text \<open>The loop over the factors 12, 8, 4, 0; \<open>None\<close> is -1.\<close>

fun codepoint_loop :: "nat list \<Rightarrow> nat \<Rightarrow> 'f lexer \<Rightarrow> nat option \<times> 'f lexer" where
  "codepoint_loop [] codepoint l = (Some codepoint, l)"
| "codepoint_loop (factor # factors) codepoint l =
     (let l = lx_get l in
      case Option.bind (lx_current l) hex_value of
        None \<Rightarrow> (None, l)
      | Some v \<Rightarrow> codepoint_loop factors (codepoint + push_bit factor v) l)"

definition get_codepoint :: "'f lexer \<Rightarrow> nat option \<times> 'f lexer" where
  "get_codepoint l = codepoint_loop [12, 8, 4, 0] 0 l"

fun range_loop :: "(nat \<times> nat) list \<Rightarrow> 'f lexer \<Rightarrow> bool \<times> 'f lexer" where
  "range_loop [] l = (True, l)"
| "range_loop (r # rs) l =
     (let l = lx_get l in
      case lx_current l of
        Some c \<Rightarrow> if fst r \<le> of_char c \<and> of_char c \<le> snd r then range_loop rs (lx_add c l)
                  else (False, l\<lparr>lx_error_message := ''invalid string: ill-formed UTF-8 byte''\<rparr>)
      | None \<Rightarrow> (False, l\<lparr>lx_error_message := ''invalid string: ill-formed UTF-8 byte''\<rparr>))"

definition next_byte_in_range :: "(nat \<times> nat) list \<Rightarrow> 'f lexer \<Rightarrow> bool \<times> 'f lexer" where
  "next_byte_in_range rs l =
     (case lx_current l of Some c \<Rightarrow> range_loop rs (lx_add c l) | None \<Rightarrow> range_loop rs l)"

text \<open>A code point as UTF-8 bytes.\<close>

definition codepoint_bytes :: "nat \<Rightarrow> string" where
  "codepoint_bytes cp =
     map char_of
       (if cp < 0x80 then [cp]
        else if cp \<le> 0x7FF then [0xC0 OR drop_bit 6 cp, 0x80 OR (cp AND 0x3F)]
        else if cp \<le> 0xFFFF
        then [0xE0 OR drop_bit 12 cp, 0x80 OR (drop_bit 6 cp AND 0x3F), 0x80 OR (cp AND 0x3F)]
        else [0xF0 OR drop_bit 18 cp, 0x80 OR (drop_bit 12 cp AND 0x3F),
              0x80 OR (drop_bit 6 cp AND 0x3F), 0x80 OR (cp AND 0x3F)])"

definition lx_add_all :: "string \<Rightarrow> 'f lexer \<Rightarrow> 'f lexer" where
  "lx_add_all cs l = fold lx_add cs l"

definition hex4_message :: string where
  "hex4_message = ''invalid string: '' @ [CHR 0x27, CHR 0x5C] @ ''u'' @ [CHR 0x27]
                  @ '' must be followed by 4 hex digits''"

definition surrogate_message :: string where
  "surrogate_message = ''invalid string: surrogate U+D800..U+DBFF must be followed by U+DC00..U+DFFF''"

text \<open>After \<open>\u\<close>: one code point, or a surrogate pair. \<open>Inl\<close> is a scan error.\<close>

definition scan_unicode :: "'f lexer \<Rightarrow> 'f lexer + 'f lexer" where
  "scan_unicode l =
     (case get_codepoint l of
        (None, l) \<Rightarrow> Inl (l\<lparr>lx_error_message := hex4_message\<rparr>)
      | (Some codepoint1, l) \<Rightarrow>
          if 0xD800 \<le> codepoint1 \<and> codepoint1 \<le> 0xDBFF
          then let l = lx_get l in
               if lx_current l \<noteq> Some (CHR 0x5C) then Inl (l\<lparr>lx_error_message := surrogate_message\<rparr>)
               else let l = lx_get l in
               if lx_current l \<noteq> Some (CHR ''u'') then Inl (l\<lparr>lx_error_message := surrogate_message\<rparr>)
               else (case get_codepoint l of
                       (None, l) \<Rightarrow> Inl (l\<lparr>lx_error_message := hex4_message\<rparr>)
                     | (Some codepoint2, l) \<Rightarrow>
                         if 0xDC00 \<le> codepoint2 \<and> codepoint2 \<le> 0xDFFF
                         then Inr (lx_add_all (codepoint_bytes
                                (push_bit 10 codepoint1 + codepoint2 - 0x35FDC00)) l)
                         else Inl (l\<lparr>lx_error_message := surrogate_message\<rparr>))
          else if 0xDC00 \<le> codepoint1 \<and> codepoint1 \<le> 0xDFFF
          then Inl (l\<lparr>lx_error_message :=
                 ''invalid string: surrogate U+DC00..U+DFFF must follow U+D800..U+DBFF''\<rparr>)
          else Inr (lx_add_all (codepoint_bytes codepoint1) l))"

definition simple_escapes :: "(char \<times> char) list" where
  "simple_escapes =
     [(CHR 0x22, CHR 0x22), (CHR 0x5C, CHR 0x5C), (CHR ''/'', CHR ''/''), (CHR ''b'', CHR 0x08),
      (CHR ''f'', CHR 0x0C), (CHR ''n'', CHR 0x0A), (CHR ''r'', CHR 0x0D), (CHR ''t'', CHR 0x09)]"

definition scan_escape :: "'f lexer \<Rightarrow> 'f lexer + 'f lexer" where
  "scan_escape l =
     (let l = lx_get l;
          bad = l\<lparr>lx_error_message := ''invalid string: forbidden character after backslash''\<rparr> in
      case lx_current l of
        None \<Rightarrow> Inl bad
      | Some c \<Rightarrow> (case map_of simple_escapes c of
                     Some d \<Rightarrow> Inr (lx_add d l)
                   | None \<Rightarrow> if c = CHR ''u'' then scan_unicode l else Inl bad))"

definition control_names :: "string list" where
  "control_names =
     [''NUL'', ''SOH'', ''STX'', ''ETX'', ''EOT'', ''ENQ'', ''ACK'', ''BEL'', ''BS'', ''HT'', ''LF'', ''VT'',
      ''FF'', ''CR'', ''SO'', ''SI'', ''DLE'', ''DC1'', ''DC2'', ''DC3'', ''DC4'', ''NAK'', ''SYN'', ''ETB'',
      ''CAN'', ''EM'', ''SUB'', ''ESC'', ''FS'', ''GS'', ''RS'', ''US'']"

definition control_message :: "nat \<Rightarrow> string" where
  "control_message b =
     (let hex = ''00'' @ [upper_hex (b div 16), upper_hex (b mod 16)];
          short = map_of [(8, CHR ''b''), (9, CHR ''t''), (10, CHR ''n''), (12, CHR ''f''), (13, CHR ''r'')] b in
      ''invalid string: control character U+'' @ hex @ '' ('' @ control_names ! b @ '') must be escaped to ''
      @ [CHR 0x5C] @ ''u'' @ hex
      @ (case short of None \<Rightarrow> [] | Some c \<Rightarrow> '' or '' @ [CHR 0x5C, c]))"

definition lead_ranges :: "nat \<Rightarrow> (nat \<times> nat) list option" where
  "lead_ranges b =
     (if 0xC2 \<le> b \<and> b \<le> 0xDF then Some [(0x80, 0xBF)]
      else if b = 0xE0 then Some [(0xA0, 0xBF), (0x80, 0xBF)]
      else if 0xE1 \<le> b \<and> b \<le> 0xEC \<or> 0xEE \<le> b \<and> b \<le> 0xEF then Some [(0x80, 0xBF), (0x80, 0xBF)]
      else if b = 0xED then Some [(0x80, 0x9F), (0x80, 0xBF)]
      else if b = 0xF0 then Some [(0x90, 0xBF), (0x80, 0xBF), (0x80, 0xBF)]
      else if 0xF1 \<le> b \<and> b \<le> 0xF3 then Some [(0x80, 0xBF), (0x80, 0xBF), (0x80, 0xBF)]
      else if b = 0xF4 then Some [(0x80, 0x8F), (0x80, 0xBF), (0x80, 0xBF)]
      else None)"

definition plain_ascii :: "nat \<Rightarrow> bool" where
  "plain_ascii b \<longleftrightarrow> 0x20 \<le> b \<and> b \<le> 0x7F \<and> b \<noteq> 0x22 \<and> b \<noteq> 0x5C"

lemma plain_ascii_iff [simp]:
  "c \<noteq> CHR 0x22 \<Longrightarrow> c \<noteq> CHR 0x5C \<Longrightarrow> \<not> of_char c \<le> (0x1F :: nat) \<Longrightarrow>
     plain_ascii (of_char c) \<longleftrightarrow> of_char c \<le> (0x7F :: nat)"
proof -
  have "c = char_of (of_char c :: nat)" by simp
  then have "(of_char c :: nat) = 0x22 \<Longrightarrow> c = CHR 0x22" "(of_char c :: nat) = 0x5C \<Longrightarrow> c = CHR 0x5C"
    by (simp_all add: char_of_def bit_0)
  then show "c \<noteq> CHR 0x22 \<Longrightarrow> c \<noteq> CHR 0x5C \<Longrightarrow> \<not> of_char c \<le> (0x1F :: nat) \<Longrightarrow>
     plain_ascii (of_char c) \<longleftrightarrow> of_char c \<le> (0x7F :: nat)"
    by (auto simp: plain_ascii_def)
qed

lemma lx_error_size [simp]: "lx_size (l\<lparr>lx_error_message := m\<rparr>) = lx_size l"
  by (simp add: lx_size_def)

lemma lx_add_all_size [simp]: "lx_size (lx_add_all cs l) = lx_size l"
  unfolding lx_add_all_def by (induction cs arbitrary: l) simp_all

lemma codepoint_loop_size: "codepoint_loop fs cp l = (r, l') \<Longrightarrow> lx_size l' \<le> lx_size l"
  using lx_get_size_le by (induction fs cp l rule: codepoint_loop.induct)
    (fastforce simp: Let_def split: option.splits intro: order_trans)+

lemma range_loop_size: "range_loop rs l = (r, l') \<Longrightarrow> lx_size l' \<le> lx_size l"
proof (induction rs l rule: range_loop.induct)
  case (2 r rs l)
  then show ?case using lx_get_size_le [of l] by (force simp: Let_def split: option.splits if_splits)
qed simp

lemma next_byte_in_range_size: "next_byte_in_range rs l = (r, l') \<Longrightarrow> lx_size l' \<le> lx_size l"
  using range_loop_size [of rs] by (fastforce simp: next_byte_in_range_def split: option.splits)

lemma get_codepoint_size: "get_codepoint l = (r, l') \<Longrightarrow> lx_size l' \<le> lx_size l"
  unfolding get_codepoint_def by (rule codepoint_loop_size)

lemma scan_unicode_size:
  assumes "scan_unicode l = Inr l'"
  shows "lx_size l' \<le> lx_size l"
proof -
  obtain r1 l1 where g1: "get_codepoint l = (r1, l1)" by force
  obtain r2 l2 where g2: "get_codepoint (lx_get (lx_get l1)) = (r2, l2)" by force
  have "lx_size l1 \<le> lx_size l" "lx_size l2 \<le> lx_size l1"
    using get_codepoint_size [OF g1] get_codepoint_size [OF g2] lx_get_size_le [of l1]
      lx_get_size_le [of "lx_get l1"] by linarith+
  with assms g1 g2 show ?thesis
    by (auto simp: scan_unicode_def Let_def split: option.splits if_splits)
qed

lemma scan_escape_size: "scan_escape l = Inr l' \<Longrightarrow> lx_size l' \<le> lx_size l"
  using lx_get_size_le [of l] scan_unicode_size [of "lx_get l" l']
  by (auto simp: scan_escape_def Let_def split: option.splits if_splits)

function scan_string_loop :: "'f lexer \<Rightarrow> token_type \<times> 'f lexer" where
  "scan_string_loop l =
     (let l = lx_get l in
      case lx_current l of
        None \<Rightarrow> lx_fail ''invalid string: missing closing quote'' l
      | Some c \<Rightarrow>
          if c = CHR 0x22 then (value_string, l)
          else if c = CHR 0x5C
          then (case scan_escape l of Inl l \<Rightarrow> (tok_parse_error, l) | Inr l \<Rightarrow> scan_string_loop l)
          else if of_char c \<le> (0x1F :: nat) then lx_fail (control_message (of_char c)) l
          else if plain_ascii (of_char c) then scan_string_loop (lx_add c l)
          else (case lead_ranges (of_char c) of
                  None \<Rightarrow> lx_fail ''invalid string: ill-formed UTF-8 byte'' l
                | Some rs \<Rightarrow> (case next_byte_in_range rs l of
                                (False, l) \<Rightarrow> (tok_parse_error, l)
                              | (True, l) \<Rightarrow> scan_string_loop l)))"
  by pat_completeness auto
termination
  by (relation "measure lx_size")
    (auto dest!: lx_get_size scan_escape_size next_byte_in_range_size [OF sym])

declare scan_string_loop.simps [simp del]

definition scan_string :: "'f lexer \<Rightarrow> token_type \<times> 'f lexer" where
  "scan_string l = scan_string_loop (lx_reset l)"

lemma scan_string_loop_size:
  "scan_string_loop l = (t, l') \<Longrightarrow> t \<noteq> tok_parse_error \<Longrightarrow> lx_size l' < lx_size l"
proof (induction l rule: scan_string_loop.induct)
  case (1 l)
  show ?case
  proof (cases "lx_current (lx_get l)")
    case None
    then show ?thesis using 1(4,5) by (subst (asm) scan_string_loop.simps) (simp add: lx_fail_def)
  next
    case (Some c)
    note less = lx_get_size [OF Some]
    note IH = 1(1-3) [OF refl Some]
    show ?thesis
    proof (cases "c = CHR 0x5C")
      case True
      then show ?thesis
        using 1(4,5) Some less IH(1) scan_escape_size [of "lx_get l"]
        by (subst (asm) scan_string_loop.simps) (fastforce split: sum.splits)
    next
      case nesc: False
      show ?thesis
      proof (cases "c = CHR 0x22 \<or> of_char c \<le> (0x7F :: nat)")
        case True
        then show ?thesis
          using 1(4,5) Some less nesc IH(2)
          by (subst (asm) scan_string_loop.simps) (auto simp: lx_fail_def Let_def split: if_splits)
      next
        case False
        show ?thesis
        proof (cases "lead_ranges (of_char c)")
          case None
          then show ?thesis
            using 1(4,5) Some nesc False
            by (subst (asm) scan_string_loop.simps) (auto simp: lx_fail_def Let_def split: if_splits)
        next
          case rs: (Some rs)
          obtain r l2 where nb: "next_byte_in_range rs (lx_get l) = (r, l2)" by force
          then show ?thesis
            using 1(4,5) Some less nesc False rs IH(3) [of rs r l2] next_byte_in_range_size [OF nb]
            by (subst (asm) scan_string_loop.simps)
              (auto simp: lx_fail_def Let_def split: if_splits bool.splits)
        qed
      qed
    qed
  qed
qed

subsection \<open>Number literals\<close>

text \<open>The labels of \<open>scan_number\<close>, and the switch at each: an error message, the next label, or
  \<open>None\<close> for \<open>scan_number_done\<close>.\<close>

datatype num_label = NMinus | NZero | NAny1 | NDecimal1 | NDecimal2 | NExponent | NSign | NAny2

abbreviation is_digit :: "char \<Rightarrow> bool" where
  "is_digit c \<equiv> 0x30 \<le> (of_char c :: nat) \<and> of_char c \<le> (0x39 :: nat)"

definition number_minus :: "char option \<Rightarrow> string + num_label option" where
  "number_minus current =
    (case current of
      Some c \<Rightarrow> if c = CHR ''0'' then Inr (Some NZero) else if is_digit c then Inr (Some NAny1)
                else Inl (''invalid number; expected digit after '' @ [CHR 0x27, CHR ''-'', CHR 0x27])
    | None \<Rightarrow> Inl (''invalid number; expected digit after '' @ [CHR 0x27, CHR ''-'', CHR 0x27]))"

definition number_zero :: "char option \<Rightarrow> string + num_label option" where
  "number_zero current =
    (case current of
      Some c \<Rightarrow> if c = CHR ''.'' then Inr (Some NDecimal1)
                else if c = CHR ''e'' \<or> c = CHR ''E'' then Inr (Some NExponent) else Inr None
    | None \<Rightarrow> Inr None)"

definition number_any1 :: "char option \<Rightarrow> string + num_label option" where
  "number_any1 current =
    (case current of
      Some c \<Rightarrow> if is_digit c then Inr (Some NAny1) else if c = CHR ''.'' then Inr (Some NDecimal1)
                else if c = CHR ''e'' \<or> c = CHR ''E'' then Inr (Some NExponent) else Inr None
    | None \<Rightarrow> Inr None)"

definition number_decimal1 :: "char option \<Rightarrow> string + num_label option" where
  "number_decimal1 current =
    (case current of
      Some c \<Rightarrow> if is_digit c then Inr (Some NDecimal2)
                else Inl (''invalid number; expected digit after '' @ [CHR 0x27, CHR ''.'', CHR 0x27])
    | None \<Rightarrow> Inl (''invalid number; expected digit after '' @ [CHR 0x27, CHR ''.'', CHR 0x27]))"

definition number_decimal2 :: "char option \<Rightarrow> string + num_label option" where
  "number_decimal2 current =
    (case current of
      Some c \<Rightarrow> if is_digit c then Inr (Some NDecimal2)
                else if c = CHR ''e'' \<or> c = CHR ''E'' then Inr (Some NExponent) else Inr None
    | None \<Rightarrow> Inr None)"

definition number_exponent :: "char option \<Rightarrow> string + num_label option" where
  "number_exponent current =
    (case current of
      Some c \<Rightarrow> if c = CHR ''+'' \<or> c = CHR ''-'' then Inr (Some NSign) else if is_digit c then Inr (Some NAny2)
                else Inl (''invalid number; expected '' @ [CHR 0x27, CHR ''+'', CHR 0x27] @ '', ''
                  @ [CHR 0x27, CHR ''-'', CHR 0x27] @ '', or digit after exponent'')
    | None \<Rightarrow> Inl (''invalid number; expected '' @ [CHR 0x27, CHR ''+'', CHR 0x27] @ '', ''
                  @ [CHR 0x27, CHR ''-'', CHR 0x27] @ '', or digit after exponent''))"

definition number_sign :: "char option \<Rightarrow> string + num_label option" where
  "number_sign current =
    (case current of
      Some c \<Rightarrow> if is_digit c then Inr (Some NAny2)
                else Inl ''invalid number; expected digit after exponent sign''
    | None \<Rightarrow> Inl ''invalid number; expected digit after exponent sign'')"

definition number_any2 :: "char option \<Rightarrow> string + num_label option" where
  "number_any2 current =
    (case current of
      Some c \<Rightarrow> if is_digit c then Inr (Some NAny2) else Inr None
    | None \<Rightarrow> Inr None)"

definition number_switch :: "num_label \<Rightarrow> char option \<Rightarrow> string + num_label option" where
  "number_switch label =
     (case label of
        NMinus \<Rightarrow> number_minus
      | NZero \<Rightarrow> number_zero
      | NAny1 \<Rightarrow> number_any1
      | NDecimal1 \<Rightarrow> number_decimal1
      | NDecimal2 \<Rightarrow> number_decimal2
      | NExponent \<Rightarrow> number_exponent
      | NSign \<Rightarrow> number_sign
      | NAny2 \<Rightarrow> number_any2)"

lemmas number_switch_defs = number_switch_def number_minus_def number_zero_def number_any1_def number_decimal1_def number_decimal2_def number_exponent_def number_sign_def number_any2_def

definition number_type_at :: "num_label \<Rightarrow> token_type \<Rightarrow> token_type" where
  "number_type_at label ty =
     (case label of NMinus \<Rightarrow> value_integer | NDecimal1 \<Rightarrow> value_float | NExponent \<Rightarrow> value_float | _ \<Rightarrow> ty)"

lemma number_switch_None: "number_switch label None \<noteq> Inr (Some label')"
  by (cases label) (simp_all add: number_switch_defs)

function number_loop :: "num_label \<Rightarrow> token_type \<Rightarrow> 'f lexer \<Rightarrow> token_type \<times> 'f lexer" where
  "number_loop label ty l =
     (let ty = number_type_at label ty; l = lx_get l in
      case number_switch label (lx_current l) of
        Inl msg \<Rightarrow> lx_fail msg l
      | Inr None \<Rightarrow> (ty, l)
      | Inr (Some label') \<Rightarrow> (case lx_current l of Some c \<Rightarrow> number_loop label' ty (lx_add c l)
                                                | None \<Rightarrow> (ty, l)))"
  by pat_completeness auto
termination
  by (relation "measure (\<lambda>(label, ty, l). lx_size l)") (auto dest: lx_get_size)

declare number_loop.simps [simp del]

definition digits_value :: "string \<Rightarrow> int" where
  "digits_value s = foldl (\<lambda>n c. 10 * n + (of_char c - 48)) 0 s"

text \<open>\<open>None\<close> is \<open>ERANGE\<close>.\<close>

definition strtoull :: "string \<Rightarrow> int option" where
  "strtoull s = (let n = digits_value s in if n \<le> 18446744073709551615 then Some n else None)"

definition strtoll :: "string \<Rightarrow> int option" where
  "strtoll s = (let n = - digits_value (tl s) in if - 9223372036854775808 \<le> n then Some n else None)"

definition number_done :: "'f double_ops \<Rightarrow> token_type \<Rightarrow> 'f lexer \<Rightarrow> token_type \<times> 'f lexer" where
  "number_done dbl ty l =
     (let l = lx_unget l;
          s = lx_token_buffer l;
          float = (value_float, l\<lparr>lx_value_float := dbl_strtod dbl s\<rparr>) in
      if ty = value_unsigned
      then (case strtoull s of Some x \<Rightarrow> (value_unsigned, l\<lparr>lx_value_unsigned := x\<rparr>) | None \<Rightarrow> float)
      else if ty = value_integer
      then (case strtoll s of Some x \<Rightarrow> (value_integer, l\<lparr>lx_value_integer := x\<rparr>) | None \<Rightarrow> float)
      else float)"

text \<open>\<open>scan\<close> calls it on a minus sign or a digit only; anything else is an assertion.\<close>

definition scan_number :: "'f double_ops \<Rightarrow> 'f lexer \<Rightarrow> token_type \<times> 'f lexer" where
  "scan_number dbl l =
     (let l = lx_reset l in
      case lx_current l of
        None \<Rightarrow> lx_fail ''JSON_ASSERT(false)'' l
      | Some c \<Rightarrow>
          (let label = (if c = CHR ''-'' then NMinus else if c = CHR ''0'' then NZero else NAny1) in
           case number_loop label value_unsigned (lx_add c l) of
             (ty, l) \<Rightarrow> if ty = tok_parse_error then (ty, l) else number_done dbl ty l))"

subsection \<open>The scanner\<close>

fun scan_literal :: "string \<Rightarrow> token_type \<Rightarrow> 'f lexer \<Rightarrow> token_type \<times> 'f lexer" where
  "scan_literal [] return_type l = (return_type, l)"
| "scan_literal (c # cs) return_type l =
     (let l = lx_get l in
      if lx_current l \<noteq> Some c then lx_fail ''invalid literal'' l else scan_literal cs return_type l)"

definition skip_bom :: "'f lexer \<Rightarrow> bool \<times> 'f lexer" where
  "skip_bom l =
     (let l = lx_get l in
      if lx_current l = Some (CHR 0xEF)
      then let l = lx_get l in
           if lx_current l = Some (CHR 0xBB)
           then let l = lx_get l in (lx_current l = Some (CHR 0xBF), l)
           else (False, l)
      else (True, lx_unget l))"

definition is_space :: "char \<Rightarrow> bool" where
  "is_space c \<longleftrightarrow> c = CHR '' '' \<or> c = CHR 0x09 \<or> c = CHR 0x0A \<or> c = CHR 0x0D"

function skip_whitespace :: "'f lexer \<Rightarrow> 'f lexer" where
  "skip_whitespace l =
     (let l = lx_get l in
      case lx_current l of
        Some c \<Rightarrow> if is_space c then skip_whitespace l else l
      | None \<Rightarrow> l)"
  by pat_completeness auto
termination
  by (relation "measure lx_size") (auto dest: lx_get_size)

declare skip_whitespace.simps [simp del]

definition scan_token :: "'f double_ops \<Rightarrow> 'f lexer \<Rightarrow> token_type \<times> 'f lexer" where
  "scan_token dbl l =
     (case lx_current l of
        None \<Rightarrow> (end_of_input, l)
      | Some c \<Rightarrow>
          if c = CHR ''['' then (begin_array, l)
          else if c = CHR '']'' then (end_array, l)
          else if c = CHR ''{'' then (begin_object, l)
          else if c = CHR ''}'' then (end_object, l)
          else if c = CHR '':'' then (name_separator, l)
          else if c = CHR '','' then (value_separator, l)
          else if c = CHR ''t'' then scan_literal ''rue'' literal_true l
          else if c = CHR ''f'' then scan_literal ''alse'' literal_false l
          else if c = CHR ''n'' then scan_literal ''ull'' literal_null l
          else if c = CHR 0x22 then scan_string l
          else if c = CHR ''-'' \<or> is_digit c then scan_number dbl l
          else if c = CHR 0x00 then (end_of_input, l)
          else lx_fail ''invalid literal'' l)"

definition scan :: "'f double_ops \<Rightarrow> 'f lexer \<Rightarrow> token_type \<times> 'f lexer" where
  "scan dbl l =
     (let (bom, l) = (if chars_read_total (lx_position l) = 0 then skip_bom l else (True, l)) in
      if \<not> bom then lx_fail ''invalid BOM; must be 0xEF 0xBB 0xBF if given'' l
      else scan_token dbl (skip_whitespace l))"

subsection \<open>Every token consumes input\<close>

lemma lx_unget_size:
  "lx_size (lx_unget l) = length (lx_input l) + (if lx_current l \<noteq> None then 1 else 0)"
  by (simp add: lx_unget_def lx_size_def Let_def)

lemma lx_get_current:
  "lx_current (lx_get l) = (if lx_next_unget l then lx_current l
     else case lx_input l of [] \<Rightarrow> None | c # cs \<Rightarrow> Some c)"
  by (simp add: lx_get_def Let_def split: option.splits list.splits)

lemma lx_get_input:
  "lx_input (lx_get l) = (if lx_next_unget l then lx_input l else tl (lx_input l))"
  "lx_next_unget (lx_get l) = False"
  by (simp_all add: lx_get_def Let_def split: option.splits list.splits)

lemma lx_unget_get_size: "lx_size (lx_unget (lx_get l)) \<le> lx_size l"
  unfolding lx_unget_size by (cases "lx_input l") (auto simp: lx_get_current lx_get_input lx_size_def)

lemma lx_reset_simps [simp]:
  "lx_size (lx_reset l) = lx_size l" "lx_current (lx_reset l) = lx_current l"
  "lx_input (lx_reset l) = lx_input l" "lx_next_unget (lx_reset l) = lx_next_unget l"
  by (simp_all add: lx_reset_def lx_size_def)

lemma number_loop_gets:
  assumes "number_loop label ty l = (t, l')" "t \<noteq> tok_parse_error"
  shows "\<exists>m. l' = lx_get m \<and> lx_size m \<le> lx_size l"
  using assms
proof (induction label ty l rule: number_loop.induct)
  case (1 label ty l)
  show ?case
  proof (cases "number_switch label (lx_current (lx_get l))")
    case (Inl msg)
    then show ?thesis using 1(2,3) by (subst (asm) number_loop.simps) (simp add: lx_fail_def)
  next
    case (Inr next_label)
    show ?thesis
    proof (cases next_label)
      case None
      then show ?thesis using 1(2) Inr by (subst (asm) number_loop.simps) auto
    next
      case (Some label')
      then obtain c where c: "lx_current (lx_get l) = Some c"
        using Inr number_switch_None [of label label'] by (cases "lx_current (lx_get l)") auto
      then obtain m where "l' = lx_get m" "lx_size m \<le> lx_size (lx_get l)"
        using 1(1) [OF refl refl Inr Some c] 1(2,3) Inr Some
        by (subst (asm) (2) number_loop.simps) auto
      then show ?thesis using lx_get_size [OF c] by (intro exI [of _ m]) simp
    qed
  qed
qed

lemma scan_number_size:
  assumes "scan_number dbl l = (t, l')" "t \<noteq> tok_parse_error"
  shows "lx_size l' \<le> lx_size l"
proof (cases "lx_current l")
  case (Some c)
  obtain ty l1 where n: "number_loop (if c = CHR ''-'' then NMinus else if c = CHR ''0'' then NZero else NAny1)
      value_unsigned (lx_add c (lx_reset l)) = (ty, l1)" by force
  have ty: "ty \<noteq> tok_parse_error" using assms Some n by (auto simp: scan_number_def Let_def)
  obtain m where m: "l1 = lx_get m" "lx_size m \<le> lx_size l" using number_loop_gets [OF n ty] by auto
  have upd: "lx_size (l\<lparr>lx_value_unsigned := x\<rparr>) = lx_size l" "lx_size (l\<lparr>lx_value_integer := x\<rparr>) = lx_size l"
    "lx_size (l\<lparr>lx_value_float := y\<rparr>) = lx_size l" for l :: "'a lexer" and x y
    by (simp_all add: lx_size_def)
  have "lx_size l' = lx_size (lx_unget l1)"
    using assms Some n ty
    by (auto simp: scan_number_def number_done_def Let_def upd split: option.splits if_splits)
  then show ?thesis using m lx_unget_get_size [of m] by simp
qed (use assms in \<open>simp add: scan_number_def lx_fail_def\<close>)

lemma scan_literal_size:
  "scan_literal cs r l = (t, l') \<Longrightarrow> lx_size l' \<le> lx_size l"
proof (induction cs r l rule: scan_literal.induct)
  case (2 c cs r l)
  then show ?case using lx_get_size_le [of l]
    by (auto simp: Let_def lx_fail_def split: if_splits intro: order_trans)
qed simp

lemma skip_whitespace_size: "lx_current (skip_whitespace l) = Some c \<Longrightarrow> lx_size (skip_whitespace l) < lx_size l"
proof (induction l rule: skip_whitespace.induct)
  case (1 l)
  show ?case
  proof (cases "lx_current (lx_get l)")
    case None
    then show ?thesis using 1(2) by (subst (asm) skip_whitespace.simps) simp
  next
    case (Some d)
    then have "skip_whitespace l = (if is_space d then skip_whitespace (lx_get l) else lx_get l)"
      by (subst skip_whitespace.simps) simp
    with Some 1(2) 1(1) [OF refl Some] lx_get_size [OF Some] show ?thesis by (cases "is_space d") auto
  qed
qed

lemma skip_bom_size: "skip_bom l = (r, l') \<Longrightarrow> lx_size l' \<le> lx_size l"
  using lx_get_size_le [of l] lx_get_size_le [of "lx_get l"] lx_get_size_le [of "lx_get (lx_get l)"]
    lx_unget_get_size [of l]
  by (auto simp: skip_bom_def Let_def split: if_splits)

lemma scan_token_size:
  assumes "scan_token dbl l = (t, l')" "t \<noteq> tok_parse_error" "t \<noteq> end_of_input"
  shows "lx_size l' \<le> lx_size l"
proof (cases "lx_current l")
  case (Some c)
  have string: "scan_string l = (t, l') \<Longrightarrow> lx_size l' \<le> lx_size l"
    using assms(2) scan_string_loop_size [of "lx_reset l" t l'] by (simp add: scan_string_def)
  show ?thesis
    using assms Some scan_literal_size [of _ _ l t l'] scan_number_size [of dbl l t l'] string
    unfolding scan_token_def by (auto simp: lx_fail_def simp del: scan_literal.simps split: if_splits)
qed (use assms in \<open>simp add: scan_token_def\<close>)

lemma scan_token_eoi: "lx_current l = None \<Longrightarrow> scan_token dbl l = (end_of_input, l)"
  by (simp add: scan_token_def)

lemma scan_size:
  assumes "scan dbl l = (t, l')" "t \<noteq> tok_parse_error" "t \<noteq> end_of_input"
  shows "lx_size l' < lx_size l"
proof -
  obtain b l1 where b: "(if chars_read_total (lx_position l) = 0 then skip_bom l else (True, l)) = (b, l1)" by force
  then have l1: "lx_size l1 \<le> lx_size l" using skip_bom_size [of l] by (auto split: if_splits)
  have s: "scan_token dbl (skip_whitespace l1) = (t, l')" "b"
    using assms b by (auto simp: scan_def lx_fail_def split: if_splits)
  then obtain c where "lx_current (skip_whitespace l1) = Some c"
    using scan_token_eoi [of "skip_whitespace l1" dbl] assms(3) by (cases "lx_current (skip_whitespace l1)") auto
  from skip_whitespace_size [OF this] scan_token_size [OF s(1) assms(2,3)] l1 show ?thesis by simp
qed

text \<open>Not even a failed scan gives input back.\<close>

lemma lx_fail_size: "lx_fail m l = (t, l') \<Longrightarrow> lx_size l' = lx_size l"
  by (auto simp: lx_fail_def)

lemma scan_unicode_size_Inl:
  assumes "scan_unicode l = Inl l'"
  shows "lx_size l' \<le> lx_size l"
proof -
  obtain r1 l1 where g1: "get_codepoint l = (r1, l1)" by force
  obtain r2 l2 where g2: "get_codepoint (lx_get (lx_get l1)) = (r2, l2)" by force
  have "lx_size l1 \<le> lx_size l" "lx_size l2 \<le> lx_size l1" "lx_size (lx_get l1) \<le> lx_size l1"
    "lx_size (lx_get (lx_get l1)) \<le> lx_size l1"
    using get_codepoint_size [OF g1] get_codepoint_size [OF g2] lx_get_size_le [of l1]
      lx_get_size_le [of "lx_get l1"] by linarith+
  with assms g1 g2 show ?thesis
    by (auto simp: scan_unicode_def Let_def split: option.splits if_splits)
qed

lemma scan_escape_size_Inl: "scan_escape l = Inl l' \<Longrightarrow> lx_size l' \<le> lx_size l"
  using lx_get_size_le [of l] scan_unicode_size_Inl [of "lx_get l" l']
  by (auto simp: scan_escape_def Let_def split: option.splits if_splits)

lemma scan_string_loop_size_le: "scan_string_loop l = (t, l') \<Longrightarrow> lx_size l' \<le> lx_size l"
proof (induction l rule: scan_string_loop.induct)
  case (1 l)
  note get_le = lx_get_size_le [of l]
  show ?case
  proof (cases "lx_current (lx_get l)")
    case None
    then show ?thesis using 1(4) get_le by (subst (asm) scan_string_loop.simps) (auto simp: lx_fail_def)
  next
    case (Some c)
    note IH = 1(1-3) [OF refl Some]
    consider (esc) "c = CHR 0x5C" | (plain) "c \<noteq> CHR 0x5C" "c = CHR 0x22 \<or> of_char c \<le> (0x7F :: nat)"
      | (multi) "c \<noteq> CHR 0x5C" "\<not> (c = CHR 0x22 \<or> of_char c \<le> (0x7F :: nat))" by blast
    then show ?thesis
    proof cases
      case esc
      then show ?thesis
        using 1(4) Some IH(1) get_le scan_escape_size [of "lx_get l"] scan_escape_size_Inl [of "lx_get l"]
        by (subst (asm) scan_string_loop.simps) (fastforce split: sum.splits)
    next
      case plain
      then show ?thesis
        using 1(4) Some IH(2) get_le
        by (subst (asm) scan_string_loop.simps) (auto simp: lx_fail_def Let_def split: if_splits)
    next
      case multi
      show ?thesis
      proof (cases "lead_ranges (of_char c)")
        case None
        then show ?thesis
          using 1(4) Some multi get_le
          by (subst (asm) scan_string_loop.simps) (auto simp: lx_fail_def Let_def split: if_splits)
      next
        case rs: (Some rs)
        obtain r l2 where nb: "next_byte_in_range rs (lx_get l) = (r, l2)" by force
        then show ?thesis
          using 1(4) Some multi rs IH(3) [of rs r l2] next_byte_in_range_size [OF nb] get_le
          by (subst (asm) scan_string_loop.simps)
            (auto simp: lx_fail_def Let_def split: if_splits bool.splits)
      qed
    qed
  qed
qed

lemma number_loop_size_le: "number_loop label ty l = (t, l') \<Longrightarrow> lx_size l' \<le> lx_size l"
proof (induction label ty l rule: number_loop.induct)
  case (1 label ty l)
  note get_le = lx_get_size_le [of l]
  show ?case
  proof (cases "number_switch label (lx_current (lx_get l))")
    case (Inl msg)
    then show ?thesis using 1(2) get_le by (subst (asm) number_loop.simps) (auto simp: lx_fail_def)
  next
    case (Inr next_label)
    show ?thesis
    proof (cases next_label)
      case None
      then show ?thesis using 1(2) Inr get_le by (subst (asm) number_loop.simps) auto
    next
      case (Some label')
      then obtain c where c: "lx_current (lx_get l) = Some c"
        using Inr number_switch_None [of label label'] by (cases "lx_current (lx_get l)") auto
      show ?thesis
        using 1(1) [OF refl refl Inr Some c] 1(2) Inr Some c get_le
        by (subst (asm) (2) number_loop.simps) auto
    qed
  qed
qed

lemma scan_token_size_le:
  assumes "scan_token dbl l = (t, l')"
  shows "lx_size l' \<le> lx_size l"
proof (cases "t \<noteq> tok_parse_error \<and> t \<noteq> end_of_input")
  case True
  with scan_token_size [OF assms] show ?thesis by blast
next
  case False
  show ?thesis
  proof (cases "lx_current l")
    case (Some c)
    have string: "scan_string l = (t, l') \<Longrightarrow> lx_size l' \<le> lx_size l"
      using scan_string_loop_size_le [of "lx_reset l" t l'] by (simp add: scan_string_def)
    have number: "lx_size l' \<le> lx_size l" if n: "scan_number dbl l = (t, l')"
    proof (cases "t = tok_parse_error")
      case True
      obtain ty l1 where loop: "number_loop (if c = CHR ''-'' then NMinus else if c = CHR ''0'' then NZero else NAny1)
          value_unsigned (lx_add c (lx_reset l)) = (ty, l1)" by force
      moreover have "ty = tok_parse_error"
        using n Some loop True by (auto simp: scan_number_def number_done_def Let_def split: if_splits option.splits)
      ultimately show ?thesis
        using n Some number_loop_size_le [OF loop] by (auto simp: scan_number_def Let_def)
    next
      case False
      with scan_number_size [OF n] show ?thesis by blast
    qed
    show ?thesis
      using assms Some scan_literal_size [of _ _ l t l'] number string
      unfolding scan_token_def by (auto simp: lx_fail_def simp del: scan_literal.simps split: if_splits)
  qed (use assms in \<open>simp add: scan_token_def\<close>)
qed

lemma skip_whitespace_size_le: "lx_size (skip_whitespace l) \<le> lx_size l"
proof (induction l rule: skip_whitespace.induct)
  case (1 l)
  then show ?case using lx_get_size_le [of l]
    by (subst skip_whitespace.simps) (fastforce simp: Let_def split: option.split)
qed

lemma scan_size_le: "scan dbl l = (t, l') \<Longrightarrow> lx_size l' \<le> lx_size l"
proof -
  assume s: "scan dbl l = (t, l')"
  obtain b l1 where b: "(if chars_read_total (lx_position l) = 0 then skip_bom l else (True, l)) = (b, l1)" by force
  then have l1: "lx_size l1 \<le> lx_size l" using skip_bom_size [of l] by (auto split: if_splits)
  show ?thesis
    using s b l1 skip_whitespace_size_le [of l1] scan_token_size_le [of dbl "skip_whitespace l1" t l']
    by (auto simp: scan_def lx_fail_def split: if_splits)
qed

end
