(* ===== verification/JsonParser.thy ===== *)
theory JsonParser
  imports JsonLexer
begin

section \<open>The JSON parser\<close>

text \<open>
  \<open>class parser\<close> and \<open>json_sax_dom_parser\<close> of \<open>external/nlohmann/json.hpp\<close>, with exceptions
  (\<open>nlohmann::json::parse(text)\<close>). The parser's stack of references into the value it builds is
  the list of the containers still open, innermost first: an element goes into the innermost one,
  and a closed container goes into the next. Each iteration of the \<open>while (true)\<close> is a
  \<open>value_switch\<close>, unless skipped, and a \<open>state_evaluation\<close>.
\<close>

datatype 'f open_container =
    Open_Array "'f json list"
  | Open_Object "(string \<times> 'f json) list" string

record 'f parser =
  ps_last_token :: token_type
  ps_lexer :: "'f lexer"
  ps_states :: "bool list"
  ps_root :: "'f json"
  ps_ref_stack :: "'f open_container list"
  ps_skip :: bool

definition get_token :: "'f double_ops \<Rightarrow> 'f parser \<Rightarrow> 'f parser" where
  "get_token dbl p = (let (t, l) = scan dbl (ps_lexer p) in p\<lparr>ps_last_token := t, ps_lexer := l\<rparr>)"

definition exception_message :: "token_type \<Rightarrow> string \<Rightarrow> 'f parser \<Rightarrow> string" where
  "exception_message expected context p =
     ''syntax error ''
     @ (if context = [] then [] else ''while parsing '' @ context @ '' '')
     @ ''- ''
     @ (if ps_last_token p = tok_parse_error
        then lx_error_message (ps_lexer p) @ ''; last read: '' @ [CHR 0x27]
             @ get_token_string (ps_lexer p) @ [CHR 0x27]
        else ''unexpected '' @ token_type_name (ps_last_token p))
     @ (if expected = uninitialized then [] else ''; expected '' @ token_type_name expected)"

definition syntax_error :: "token_type \<Rightarrow> string \<Rightarrow> 'f parser \<Rightarrow> json_error" where
  "syntax_error expected context p =
     parse_error 101 (lx_position (ps_lexer p)) (exception_message expected context p)"

subsection \<open>json_sax_dom_parser\<close>

definition handle_value :: "'f json \<Rightarrow> 'f parser \<Rightarrow> 'f parser" where
  "handle_value v p =
     (case ps_ref_stack p of
        [] \<Rightarrow> p\<lparr>ps_root := v\<rparr>
      | Open_Array vs # st \<Rightarrow> p\<lparr>ps_ref_stack := Open_Array (vs @ [v]) # st\<rparr>
      | Open_Object kvs k # st \<Rightarrow> p\<lparr>ps_ref_stack := Open_Object (map_put k v kvs) k # st\<rparr>)"

definition start_object :: "'f parser \<Rightarrow> 'f parser" where
  "start_object p = p\<lparr>ps_ref_stack := Open_Object [] [] # ps_ref_stack p\<rparr>"

definition start_array :: "'f parser \<Rightarrow> 'f parser" where
  "start_array p = p\<lparr>ps_ref_stack := Open_Array [] # ps_ref_stack p\<rparr>"

definition sax_key :: "'f parser \<Rightarrow> 'f parser" where
  "sax_key p =
     (case ps_ref_stack p of
        Open_Object kvs k # st \<Rightarrow> p\<lparr>ps_ref_stack := Open_Object kvs (lx_token_buffer (ps_lexer p)) # st\<rparr>
      | _ \<Rightarrow> p)"

definition end_container :: "'f parser \<Rightarrow> 'f parser" where
  "end_container p =
     (case ps_ref_stack p of
        [] \<Rightarrow> p
      | Open_Array vs # st \<Rightarrow> handle_value (JArray vs) (p\<lparr>ps_ref_stack := st\<rparr>)
      | Open_Object kvs k # st \<Rightarrow> handle_value (JObject kvs) (p\<lparr>ps_ref_stack := st\<rparr>))"

subsection \<open>sax_parse_internal\<close>

text \<open>The boolean says whether the loop continues at once.\<close>

definition value_switch :: "'f double_ops \<Rightarrow> 'f parser \<Rightarrow> json_error + bool \<times> 'f parser" where
  "value_switch dbl p =
     (let l = ps_lexer p in
      case ps_last_token p of
        begin_object \<Rightarrow>
          (let p = get_token dbl (start_object p) in
           if ps_last_token p = end_object then Inr (False, end_container p)
           else if ps_last_token p \<noteq> value_string then Inl (syntax_error value_string ''object key'' p)
           else let p = get_token dbl (sax_key p) in
           if ps_last_token p \<noteq> name_separator then Inl (syntax_error name_separator ''object separator'' p)
           else Inr (True, get_token dbl (p\<lparr>ps_states := False # ps_states p\<rparr>)))
      | begin_array \<Rightarrow>
          (let p = get_token dbl (start_array p) in
           if ps_last_token p = end_array then Inr (False, end_container p)
           else Inr (True, p\<lparr>ps_states := True # ps_states p\<rparr>))
      | value_float \<Rightarrow>
          if \<not> dbl_isfinite dbl (lx_value_float l)
          then Inl (out_of_range 406 (''number overflow parsing '' @ [CHR 0x27] @ get_token_string l @ [CHR 0x27]))
          else Inr (False, handle_value (JFloat (lx_value_float l)) p)
      | literal_false \<Rightarrow> Inr (False, handle_value (JBoolean False) p)
      | literal_null \<Rightarrow> Inr (False, handle_value JNull p)
      | literal_true \<Rightarrow> Inr (False, handle_value (JBoolean True) p)
      | value_integer \<Rightarrow> Inr (False, handle_value (JInteger (lx_value_integer l)) p)
      | value_string \<Rightarrow> Inr (False, handle_value (JString (lx_token_buffer l)) p)
      | value_unsigned \<Rightarrow> Inr (False, handle_value (JUnsigned (lx_value_unsigned l)) p)
      | tok_parse_error \<Rightarrow> Inl (syntax_error uninitialized ''value'' p)
      | end_of_input \<Rightarrow>
          if chars_read_total (lx_position l) = 1
          then Inl (parse_error 101 (lx_position l)
                 ''attempting to parse an empty input; check that your input string or stream contains the expected JSON'')
          else Inl (syntax_error literal_or_value ''value'' p)
      | _ \<Rightarrow> Inl (syntax_error literal_or_value ''value'' p))"

definition state_evaluation :: "'f double_ops \<Rightarrow> 'f parser \<Rightarrow> json_error + bool \<times> 'f parser" where
  "state_evaluation dbl p =
     (case ps_states p of
        [] \<Rightarrow> Inr (False, p)
      | is_array # outer \<Rightarrow>
          (let p = get_token dbl p in
           if is_array
           then if ps_last_token p = value_separator then Inr (True, get_token dbl p)
                else if ps_last_token p = end_array
                then Inr (True, (end_container p)\<lparr>ps_states := outer, ps_skip := True\<rparr>)
                else Inl (syntax_error end_array ''array'' p)
           else if ps_last_token p = value_separator
           then (let p = get_token dbl p in
                 if ps_last_token p \<noteq> value_string then Inl (syntax_error value_string ''object key'' p)
                 else let p = get_token dbl (sax_key p) in
                 if ps_last_token p \<noteq> name_separator then Inl (syntax_error name_separator ''object separator'' p)
                 else Inr (True, get_token dbl p))
           else if ps_last_token p = end_object
           then Inr (True, (end_container p)\<lparr>ps_states := outer, ps_skip := True\<rparr>)
           else Inl (syntax_error end_object ''object'' p)))"

text \<open>What bounds the loop: the input left, and whether a token is in hand.\<close>

definition proper :: "token_type \<Rightarrow> bool" where
  "proper t \<longleftrightarrow> t \<noteq> tok_parse_error \<and> t \<noteq> end_of_input"

definition ps_size :: "'f parser \<Rightarrow> nat" where
  "ps_size p = lx_size (ps_lexer p)"

definition ps_left :: "'f parser \<Rightarrow> nat" where
  "ps_left p = 2 * ps_size p + (if proper (ps_last_token p) then 1 else 0)"

lemma ps_simps [simp]:
  "ps_last_token (handle_value v p) = ps_last_token p" "ps_lexer (handle_value v p) = ps_lexer p"
  "ps_last_token (end_container p) = ps_last_token p" "ps_lexer (end_container p) = ps_lexer p"
  "ps_last_token (sax_key p) = ps_last_token p" "ps_lexer (sax_key p) = ps_lexer p"
  "ps_last_token (start_object p) = ps_last_token p" "ps_lexer (start_object p) = ps_lexer p"
  "ps_last_token (start_array p) = ps_last_token p" "ps_lexer (start_array p) = ps_lexer p"
  "ps_states (handle_value v p) = ps_states p" "ps_skip (handle_value v p) = ps_skip p"
  "ps_states (end_container p) = ps_states p" "ps_skip (end_container p) = ps_skip p"
  "ps_states (sax_key p) = ps_states p" "ps_skip (sax_key p) = ps_skip p"
  "ps_states (start_object p) = ps_states p" "ps_skip (start_object p) = ps_skip p"
  "ps_states (start_array p) = ps_states p" "ps_skip (start_array p) = ps_skip p"
  by (auto simp: handle_value_def end_container_def sax_key_def start_object_def start_array_def
      split: list.split open_container.split)

lemma ps_size_simps [simp]:
  "ps_size (handle_value v p) = ps_size p" "ps_size (end_container p) = ps_size p"
  "ps_size (sax_key p) = ps_size p" "ps_size (start_object p) = ps_size p"
  "ps_size (start_array p) = ps_size p" "ps_size (p\<lparr>ps_states := s\<rparr>) = ps_size p"
  "ps_size (p\<lparr>ps_skip := b\<rparr>) = ps_size p"
  by (simp_all add: ps_size_def)

lemma get_token_size:
  "proper (ps_last_token (get_token dbl p)) \<Longrightarrow> ps_size (get_token dbl p) < ps_size p"
  "ps_left (get_token dbl p) \<le> 2 * ps_size p"
  using scan_size [of dbl "ps_lexer p"] scan_size_le [of dbl "ps_lexer p"]
  by (cases "scan dbl (ps_lexer p)"; force simp: ps_left_def ps_size_def proper_def get_token_def)+

lemma value_switch_left:
  assumes "value_switch dbl p = Inr (b, p')"
  shows "ps_left p' \<le> ps_left p" "b \<Longrightarrow> ps_left p' < ps_left p"
proof -
  consider (obj) "ps_last_token p = begin_object" | (arr) "ps_last_token p = begin_array"
    | (other) "ps_last_token p \<noteq> begin_object" "ps_last_token p \<noteq> begin_array" by blast
  then have "ps_left p' \<le> ps_left p \<and> (b \<longrightarrow> ps_left p' < ps_left p)"
  proof cases
    case obj
    define p1 where "p1 = get_token dbl (start_object p)"
    have p1: "ps_left p1 < ps_left p" "proper (ps_last_token p1) \<Longrightarrow> ps_size p1 < ps_size p"
      using get_token_size [of dbl "start_object p"] obj by (simp_all add: p1_def ps_left_def proper_def)
    show ?thesis
    proof (cases "ps_last_token p1 = end_object")
      case True
      then show ?thesis using assms obj p1 by (auto simp: value_switch_def p1_def [symmetric] Let_def ps_left_def)
    next
      case False
      then have str: "ps_last_token p1 = value_string"
        using assms obj by (simp add: value_switch_def p1_def [symmetric] Let_def split: if_splits)
      define p2 where "p2 = get_token dbl (sax_key p1)"
      have sep: "ps_last_token p2 = name_separator"
        and p': "b" "p' = get_token dbl (p2\<lparr>ps_states := False # ps_states p2\<rparr>)"
        using assms obj str
        by (simp_all add: value_switch_def p1_def [symmetric] p2_def [symmetric] Let_def split: if_splits)
      have "ps_size p2 < ps_size p1"
        using get_token_size(1) [of dbl "sax_key p1"] sep by (simp add: p2_def proper_def)
      moreover have "ps_left p' \<le> 2 * ps_size p2"
        using get_token_size(2) [of dbl "p2\<lparr>ps_states := False # ps_states p2\<rparr>"] by (simp add: p')
      ultimately show ?thesis using p1 str by (simp add: ps_left_def proper_def)
    qed
  next
    case arr
    have "ps_left (get_token dbl (start_array p)) < ps_left p"
      using get_token_size(2) [of dbl "start_array p"] arr by (simp add: ps_left_def proper_def)
    then show ?thesis using assms arr by (auto simp: value_switch_def Let_def ps_left_def split: if_splits)
  next
    case other
    then show ?thesis using assms
      by (auto simp: value_switch_def Let_def ps_left_def split: token_type.splits if_splits)
  qed
  then show "ps_left p' \<le> ps_left p" "b \<Longrightarrow> ps_left p' < ps_left p" by simp_all
qed

lemma state_evaluation_left:
  assumes "state_evaluation dbl p = Inr (True, p')"
  shows "ps_left p' < ps_left p"
proof -
  define p1 where "p1 = get_token dbl p"
  have p1: "ps_size p1 < ps_size p" if "proper (ps_last_token p1)"
    using get_token_size(1) that by (simp add: p1_def)
  obtain is_array outer where st: "ps_states p = is_array # outer"
    using assms by (cases "ps_states p") (auto simp: state_evaluation_def)
  define p2 where "p2 = get_token dbl p1"
  have p2: "ps_size p2 < ps_size p1" if "proper (ps_last_token p2)"
    using get_token_size(1) that by (simp add: p2_def)
  define p3 where "p3 = get_token dbl (sax_key p2)"
  have p3: "ps_size p3 < ps_size p2" if "proper (ps_last_token p3)"
    using get_token_size(1) [of dbl "sax_key p2"] that by (simp add: p3_def)
  have last: "ps_left p2 \<le> 2 * ps_size p1" "ps_left (get_token dbl p3) \<le> 2 * ps_size p3"
    using get_token_size(2) by (auto simp: p2_def)
  have "is_array \<and> ps_last_token p1 = value_separator \<and> p' = p2
      \<or> proper (ps_last_token p1) \<and> p' = (end_container p1)\<lparr>ps_states := outer, ps_skip := True\<rparr>
      \<or> ps_last_token p1 = value_separator \<and> ps_last_token p2 = value_string
        \<and> ps_last_token p3 = name_separator \<and> p' = get_token dbl p3"
    using assms st
    by (auto simp: state_evaluation_def p1_def [symmetric] p2_def [symmetric] p3_def [symmetric] Let_def
        proper_def split: if_splits)
  then show ?thesis
    using p1 p2 p3 last by (auto simp: proper_def ps_left_def)
qed

text \<open>The boolean of the result of \<open>state_evaluation\<close> is true where the loop goes on, false where the
  whole value is read.\<close>

function sax_parse_internal :: "'f double_ops \<Rightarrow> 'f parser \<Rightarrow> json_error + 'f parser" where
  "sax_parse_internal dbl p =
     (case (if ps_skip p then Inr (False, p\<lparr>ps_skip := False\<rparr>) else value_switch dbl p) of
        Inl e \<Rightarrow> Inl e
      | Inr (True, p') \<Rightarrow> sax_parse_internal dbl p'
      | Inr (False, p') \<Rightarrow>
          (case state_evaluation dbl p' of
             Inl e \<Rightarrow> Inl e
           | Inr (True, p'') \<Rightarrow> sax_parse_internal dbl p''
           | Inr (False, p'') \<Rightarrow> Inr p''))"
  by pat_completeness auto

termination
proof (relation "measure (\<lambda>(dbl, p). ps_left p)", goal_cases)
  case (2 dbl p bp b p')
  then have "value_switch dbl p = Inr (True, p')" by (auto split: if_splits)
  then show ?case using value_switch_left(2) by auto
next
  case (3 dbl p bp b p' bp' b' p'')
  then have "ps_left p' \<le> ps_left p"
    using value_switch_left(1) [of dbl p False p'] by (auto simp: ps_left_def split: if_splits)
  with 3 show ?case using state_evaluation_left [of dbl p' p''] by auto
qed simp

declare sax_parse_internal.simps [simp del]

definition new_parser :: "'f double_ops \<Rightarrow> string \<Rightarrow> 'f parser" where
  "new_parser dbl input =
     get_token dbl \<lparr>ps_last_token = uninitialized, ps_lexer = new_lexer (dbl_strtod dbl ''0'') input,
       ps_states = [], ps_root = JNull, ps_ref_stack = [], ps_skip = False\<rparr>"

text \<open>\<open>parse\<close> in strict mode: the input must end after the value.\<close>

definition json_parse :: "'f double_ops \<Rightarrow> string \<Rightarrow> json_error + 'f json" where
  "json_parse dbl input =
     (case sax_parse_internal dbl (new_parser dbl input) of
        Inl e \<Rightarrow> Inl e
      | Inr p \<Rightarrow> (let p = get_token dbl p in
                  if ps_last_token p \<noteq> end_of_input then Inl (syntax_error end_of_input ''value'' p)
                  else Inr (ps_root p)))"

end
