(* ===== verification/JsonSerializer.thy ===== *)
theory JsonSerializer
  imports JsonValue
begin

unbundle bit_operations_syntax

section \<open>The JSON serializer\<close>

text \<open>
  \<open>class serializer\<close> of \<open>external/nlohmann/json.hpp\<close>: the UTF-8 automaton, string escaping through
  the fixed 512-byte buffer, integers, and the compact form of \<open>dump\<close>. A write past the string
  buffer is the error \<open>buffer_overrun\<close>; the engine never asks for the indented form.
\<close>

subsection \<open>The UTF-8 automaton\<close>

definition utf8d_types :: "nat list" where
  "utf8d_types =
     replicate 128 0 @ replicate 16 1 @ replicate 16 9 @ replicate 32 7
     @ [8, 8] @ replicate 30 2
     @ [0xA] @ replicate 12 3 @ [4, 3, 3]
     @ [0xB, 6, 6, 6, 5] @ replicate 11 8"

definition utf8d_states :: "nat list" where
  "utf8d_states =
    [0, 1, 2, 3, 5, 8, 7, 1, 1, 1, 4, 6, 1, 1, 1, 1,
     1, 1, 1, 1, 1, 1, 1, 1, 1, 1, 1, 1, 1, 1, 1, 1,
     1, 0, 1, 1, 1, 1, 1, 0, 1, 0, 1, 1, 1, 1, 1, 1,
     1, 2, 1, 1, 1, 1, 1, 2, 1, 2, 1, 1, 1, 1, 1, 1,
     1, 1, 1, 1, 1, 1, 1, 2, 1, 1, 1, 1, 1, 1, 1, 1,
     1, 2, 1, 1, 1, 1, 1, 1, 1, 2, 1, 1, 1, 1, 1, 1,
     1, 1, 1, 1, 1, 1, 1, 3, 1, 3, 1, 1, 1, 1, 1, 1,
     1, 3, 1, 1, 1, 1, 1, 3, 1, 3, 1, 1, 1, 1, 1, 1,
     1, 3, 1, 1, 1, 1, 1, 1, 1, 1, 1, 1, 1, 1, 1, 1]"

abbreviation (input) UTF8_ACCEPT :: nat where "UTF8_ACCEPT \<equiv> 0"
abbreviation (input) UTF8_REJECT :: nat where "UTF8_REJECT \<equiv> 1"

definition utf8_decode :: "nat \<Rightarrow> nat \<Rightarrow> nat \<Rightarrow> nat \<times> nat" where
  "utf8_decode st codep b =
     (let ty = utf8d_types ! b;
          codep = (if st \<noteq> UTF8_ACCEPT then (b AND 0x3F) OR push_bit 6 codep
                   else drop_bit ty 0xFF AND b)
      in (utf8d_states ! (st * 16 + ty), codep))"

subsection \<open>Escaping\<close>

datatype error_handler = strict | replace | ignore

record escaper =
  e_written :: string
  e_buffer :: string
  e_accepted :: nat
  e_undumped :: nat
  e_state :: nat
  e_codepoint :: nat

definition hex_digit :: "nat \<Rightarrow> char" where
  "hex_digit n = ''0123456789abcdef'' ! n"

text \<open>\<open>snprintf\<close> with \<open>%04x\<close> on 16 bits.\<close>

definition u_escape :: "nat \<Rightarrow> string" where
  "u_escape n = CHR 0x5C # CHR ''u'' #
     map hex_digit [n div 4096 mod 16, n div 256 mod 16, n div 16 mod 16, n mod 16]"

text \<open>Writing \<open>cs\<close> at the end of the buffer with \<open>k\<close> more bytes touched behind it (the
  terminating zero \<open>snprintf\<close> writes).\<close>

definition buf_put :: "string \<Rightarrow> nat \<Rightarrow> escaper \<Rightarrow> json_error + escaper" where
  "buf_put cs k e =
     (if length (e_buffer e) + length cs + k > 512 then Inl buffer_overrun
      else Inr (e\<lparr>e_buffer := e_buffer e @ cs\<rparr>))"

definition buf_flush :: "escaper \<Rightarrow> escaper" where
  "buf_flush e =
     (if 512 - length (e_buffer e) < 13
      then e\<lparr>e_written := e_written e @ e_buffer e, e_buffer := []\<rparr> else e)"

text \<open>The bytes written for an accepted code point, and how many more the write touches.\<close>

definition escape_bytes :: "bool \<Rightarrow> nat \<Rightarrow> char \<Rightarrow> string \<times> nat" where
  "escape_bytes ensure_ascii cp c =
     (if cp = 0x08 then ([CHR 0x5C, CHR ''b''], 0)
      else if cp = 0x09 then ([CHR 0x5C, CHR ''t''], 0)
      else if cp = 0x0A then ([CHR 0x5C, CHR ''n''], 0)
      else if cp = 0x0C then ([CHR 0x5C, CHR ''f''], 0)
      else if cp = 0x0D then ([CHR 0x5C, CHR ''r''], 0)
      else if cp = 0x22 then ([CHR 0x5C, CHR 0x22], 0)
      else if cp = 0x5C then ([CHR 0x5C, CHR 0x5C], 0)
      else if cp \<le> 0x1F \<or> ensure_ascii \<and> cp \<ge> 0x7F
      then if cp \<le> 0xFFFF then (u_escape cp, 1)
           else (u_escape (0xD7C0 + drop_bit 10 cp) @ u_escape (0xDC00 + (cp AND 0x3FF)), 1)
      else ([c], 0))"

definition escape_accept :: "bool \<Rightarrow> char \<Rightarrow> escaper \<Rightarrow> json_error + escaper" where
  "escape_accept ensure_ascii c e =
     bind (buf_put (fst (escape_bytes ensure_ascii (e_codepoint e) c))
                   (snd (escape_bytes ensure_ascii (e_codepoint e) c)) e)
       (\<lambda>e. let e = buf_flush e in Inr (e\<lparr>e_accepted := length (e_buffer e), e_undumped := 0\<rparr>))"

definition hex_bytes :: "nat \<Rightarrow> string" where
  "hex_bytes b = [''0123456789ABCDEF'' ! (b div 16), ''0123456789ABCDEF'' ! (b mod 16)]"

definition replacement_char :: "bool \<Rightarrow> string" where
  "replacement_char ensure_ascii =
     (if ensure_ascii then CHR 0x5C # ''ufffd'' else [CHR 0xEF, CHR 0xBF, CHR 0xBD])"

definition escape_reject :: "error_handler \<Rightarrow> bool \<Rightarrow> escaper \<Rightarrow> json_error + escaper" where
  "escape_reject handler ensure_ascii e =
     (let e = e\<lparr>e_buffer := take (e_accepted e) (e_buffer e)\<rparr> in
      bind (if handler = replace
            then bind (buf_put (replacement_char ensure_ascii) 0 e)
                   (\<lambda>e. let e = buf_flush e in Inr (e\<lparr>e_accepted := length (e_buffer e)\<rparr>))
            else Inr e)
        (\<lambda>e. Inr (e\<lparr>e_undumped := 0, e_state := UTF8_ACCEPT\<rparr>)))"

text \<open>The loop over the bytes; \<open>i\<close> is the index, only for the message. A rejected byte that
  interrupts a sequence is read again (\<open>--i\<close>).\<close>

function escape_loop ::
  "error_handler \<Rightarrow> bool \<Rightarrow> nat \<Rightarrow> string \<Rightarrow> escaper \<Rightarrow> json_error + escaper" where
  "escape_loop handler ensure_ascii i [] e = Inr e"
| "escape_loop handler ensure_ascii i (c # cs) e =
     (let (st, cp) = utf8_decode (e_state e) (e_codepoint e) (of_char c);
          e = e\<lparr>e_state := st, e_codepoint := cp\<rparr> in
      if st = UTF8_ACCEPT
      then bind (escape_accept ensure_ascii c e) (escape_loop handler ensure_ascii (Suc i) cs)
      else if st = UTF8_REJECT
      then if handler = strict
           then Inl (type_error 316 (''invalid UTF-8 byte at index '' @ nat_dec i @ '': 0x''
                                     @ hex_bytes (of_char c)))
           else case escape_reject handler ensure_ascii e of
                  Inl err \<Rightarrow> Inl err
                | Inr e' \<Rightarrow> if e_undumped e > 0
                            then escape_loop handler ensure_ascii i (c # cs) (e'\<lparr>e_undumped := 0\<rparr>)
                            else escape_loop handler ensure_ascii (Suc i) cs e'
      else bind (if ensure_ascii then Inr e else buf_put [c] 0 e)
             (\<lambda>e. escape_loop handler ensure_ascii (Suc i) cs (e\<lparr>e_undumped := Suc (e_undumped e)\<rparr>)))"
  by pat_completeness auto

termination
  by (relation "measure (\<lambda>(handler, ensure_ascii, i, cs, e). 2 * length cs + (if e_undumped e > 0 then 1 else 0))") auto

definition dump_escaped :: "error_handler \<Rightarrow> bool \<Rightarrow> string \<Rightarrow> json_error + string" where
  "dump_escaped handler ensure_ascii s =
     bind (escape_loop handler ensure_ascii 0 s
             \<lparr>e_written = [], e_buffer = [], e_accepted = 0, e_undumped = 0,
              e_state = UTF8_ACCEPT, e_codepoint = 0\<rparr>)
       (\<lambda>e. if e_state e = UTF8_ACCEPT then Inr (e_written e @ e_buffer e)
            else if handler = strict
            then Inl (type_error 316 (''incomplete UTF-8 string; last byte: 0x'' @ hex_bytes (of_char (last s))))
            else if handler = ignore then Inr (e_written e @ take (e_accepted e) (e_buffer e))
            else Inr (e_written e @ take (e_accepted e) (e_buffer e) @ replacement_char ensure_ascii))"

subsection \<open>Integers\<close>

function count_digits :: "nat \<Rightarrow> nat" where
  "count_digits x =
     (if x < 10 then 1 else if x < 100 then 2 else if x < 1000 then 3 else if x < 10000 then 4
      else 4 + count_digits (x div 10000))"
  by pat_completeness auto
termination by (relation "measure id") auto

declare count_digits.simps [simp del]

definition digit :: "nat \<Rightarrow> char" where
  "digit n = char_of (48 + n)"

definition digits_to_99 :: "nat \<Rightarrow> string" where
  "digits_to_99 n = [digit (n div 10), digit (n mod 10)]"

text \<open>The digits are written backwards from the end of the \<open>n_chars\<close> the number needs, so the buffer
  is what is written in front of what is there.\<close>

function write_digits :: "nat \<Rightarrow> string \<Rightarrow> string" where
  "write_digits abs_value buf =
     (if abs_value \<ge> 100 then write_digits (abs_value div 100) (digits_to_99 (abs_value mod 100) @ buf)
      else if abs_value \<ge> 10 then digits_to_99 abs_value @ buf
      else digit abs_value # buf)"
  by pat_completeness auto
termination by (relation "measure fst") auto

declare write_digits.simps [simp del]

definition remove_sign :: "int \<Rightarrow> nat" where
  "remove_sign x = nat (- (x + 1)) + 1"

text \<open>\<open>n_chars\<close> bytes of the zeroed \<open>number_buffer\<close> are written out, the sign first.\<close>

definition dump_integer :: "int \<Rightarrow> string" where
  "dump_integer x =
     (if x = 0 then ''0''
      else let neg = x < 0;
               abs_value = (if neg then remove_sign x else nat x);
               n = count_digits abs_value;
               ds = write_digits abs_value []
           in (if neg then ''-'' else []) @ replicate (n - length ds) (CHR 0x00) @ lastn n ds)"

definition dump_float :: "'f double_ops \<Rightarrow> 'f \<Rightarrow> string" where
  "dump_float dbl x = (if dbl_isfinite dbl x then dbl_to_chars dbl x else ''null'')"

subsection \<open>dump\<close>

fun dump_value :: "'f double_ops \<Rightarrow> error_handler \<Rightarrow> bool \<Rightarrow> 'f json \<Rightarrow> json_error + string"
  and dump_members :: "'f double_ops \<Rightarrow> error_handler \<Rightarrow> bool \<Rightarrow> (string \<times> 'f json) list \<Rightarrow> json_error + string"
  and dump_elements :: "'f double_ops \<Rightarrow> error_handler \<Rightarrow> bool \<Rightarrow> 'f json list \<Rightarrow> json_error + string" where
  "dump_value dbl h ascii JNull = Inr ''null''"
| "dump_value dbl h ascii (JBoolean b) = Inr (if b then ''true'' else ''false'')"
| "dump_value dbl h ascii (JInteger n) = Inr (dump_integer n)"
| "dump_value dbl h ascii (JUnsigned n) = Inr (dump_integer n)"
| "dump_value dbl h ascii (JFloat x) = Inr (dump_float dbl x)"
| "dump_value dbl h ascii (JString s) =
     bind (dump_escaped h ascii s) (\<lambda>t. Inr (CHR 0x22 # t @ [CHR 0x22]))"
| "dump_value dbl h ascii (JArray vs) =
     (if vs = [] then Inr ''[]''
      else bind (dump_elements dbl h ascii vs) (\<lambda>t. Inr (CHR ''['' # t @ '']'')))"
| "dump_value dbl h ascii (JObject kvs) =
     (if kvs = [] then Inr ''{}''
      else bind (dump_members dbl h ascii kvs) (\<lambda>t. Inr (CHR ''{'' # t @ ''}'')))"
| "dump_elements dbl h ascii [] = Inr []"
| "dump_elements dbl h ascii (v # vs) =
     bind (dump_value dbl h ascii v) (\<lambda>t.
       if vs = [] then Inr t
       else bind (dump_elements dbl h ascii vs) (\<lambda>ts. Inr (t @ CHR '','' # ts)))"
| "dump_members dbl h ascii [] = Inr []"
| "dump_members dbl h ascii ((k, v) # kvs) =
     bind (dump_escaped h ascii k) (\<lambda>key.
     bind (dump_value dbl h ascii v) (\<lambda>t.
       let kv = CHR 0x22 # key @ CHR 0x22 # CHR '':'' # t in
       if kvs = [] then Inr kv
       else bind (dump_members dbl h ascii kvs) (\<lambda>ts. Inr (kv @ CHR '','' # ts))))"

definition json_dump :: "'f double_ops \<Rightarrow> 'f json \<Rightarrow> json_error + string" where
  "json_dump dbl j = dump_value dbl strict False j"

subsection \<open>Integers print in decimal\<close>

lemma write_digits_dec: "write_digits n buf = nat_dec n @ buf"
proof (induction n buf rule: write_digits.induct)
  case (1 n buf)
  have two: "nat_dec n = nat_dec (n div 10) @ [digit (n mod 10)]" if "n \<ge> 10" for n
    using that by (subst nat_dec.simps) (simp add: digit_def)
  have one: "nat_dec n = [digit n]" if "n < 10" for n
    using that by (subst nat_dec.simps) (simp add: digit_def)
  show ?case
  proof (cases "n \<ge> 100")
    case True
    have "nat_dec n = nat_dec (n div 100) @ [digit (n div 10 mod 10), digit (n mod 10)]"
      using True by (simp add: two div_mult2_eq [of n 10 10, simplified])
    moreover have "n mod 100 div 10 = n div 10 mod 10" "n mod 100 mod 10 = n mod 10"
      using mod_mult2_eq [of n 10 10] by simp_all
    ultimately show ?thesis
      using 1 [OF True] True by (subst write_digits.simps) (simp add: digits_to_99_def)
  next
    case False
    then show ?thesis
      by (subst write_digits.simps) (auto simp: one two digits_to_99_def)
  qed
qed

lemma length_nat_dec: "length (nat_dec n) = (if n < 10 then 1 else Suc (length (nat_dec (n div 10))))"
  by (subst nat_dec.simps) simp

lemma count_digits_dec: "count_digits x = length (nat_dec x)"
proof (induction x rule: count_digits.induct)
  case (1 x)
  have d: "x div 10 div 10 = x div 100" "x div 100 div 10 = x div 1000" "x div 1000 div 10 = x div 10000"
    by (simp_all flip: div_mult2_eq)
  have l: "length (nat_dec y) = 1" if "y < 10" for y using that by (simp add: length_nat_dec)
  have m: "length (nat_dec y) = Suc (length (nat_dec (y div 10)))" if "10 \<le> y" for y
    using that by (simp add: length_nat_dec)
  show ?case
  proof (cases "x < 10000")
    case True
    then show ?thesis by (subst count_digits.simps) (auto simp: l m d)
  next
    case False
    then show ?thesis using 1 by (subst count_digits.simps) (simp add: m d)
  qed
qed

lemma dump_integer_dec: "dump_integer x = int_dec x"
proof -
  have z: "nat_dec 0 = ''0''" by code_simp
  have r: "remove_sign x = nat (- x)" if "x < 0" using that by (simp add: remove_sign_def nat_eq_iff)
  show ?thesis
    by (auto simp: r dump_integer_def int_dec_def Let_def write_digits_dec count_digits_dec z)
qed

subsection \<open>Escaping of well-formed UTF-8\<close>

text \<open>What escaping amounts to: one escape per byte, the bytes of a multi-byte sequence copied.\<close>

definition escape_char :: "char \<Rightarrow> string" where
  "escape_char c =
     (let b = of_char c :: nat in
      if b = 0x08 then [CHR 0x5C, CHR ''b'']
      else if b = 0x09 then [CHR 0x5C, CHR ''t'']
      else if b = 0x0A then [CHR 0x5C, CHR ''n'']
      else if b = 0x0C then [CHR 0x5C, CHR ''f'']
      else if b = 0x0D then [CHR 0x5C, CHR ''r'']
      else if b = 0x22 then [CHR 0x5C, CHR 0x22]
      else if b = 0x5C then [CHR 0x5C, CHR 0x5C]
      else if b \<le> 0x1F then u_escape b
      else [c])"

definition json_escape :: "string \<Rightarrow> string" where
  "json_escape s = concat (map escape_char s)"

lemma utf8d_type:
  "b < 0x80 \<Longrightarrow> utf8d_types ! b = 0"
  "0x80 \<le> b \<Longrightarrow> b \<le> 0x8F \<Longrightarrow> utf8d_types ! b = 1"
  "0x90 \<le> b \<Longrightarrow> b \<le> 0x9F \<Longrightarrow> utf8d_types ! b = 9"
  "0xA0 \<le> b \<Longrightarrow> b \<le> 0xBF \<Longrightarrow> utf8d_types ! b = 7"
  "0xC2 \<le> b \<Longrightarrow> b \<le> 0xDF \<Longrightarrow> utf8d_types ! b = 2"
  by (auto simp add: utf8d_types_def nth_append nth_Cons')

lemma utf8d_type_lead:
  "utf8d_types ! 0xE0 = 10" "utf8d_types ! 0xED = 4" "utf8d_types ! 0xF0 = 11" "utf8d_types ! 0xF4 = 5"
  "0xE1 \<le> b \<Longrightarrow> b \<le> 0xEF \<Longrightarrow> b \<noteq> 0xED \<Longrightarrow> utf8d_types ! b = 3"
  "0xF1 \<le> b \<Longrightarrow> b \<le> 0xF3 \<Longrightarrow> utf8d_types ! b = 6"
  by (auto simp add: utf8d_types_def nth_append nth_Cons')

lemma and_mask_nat: "(x::nat) AND 63 = x mod 64" "(255::nat) AND x = x mod 256"
proof -
  have m: "(63::nat) = mask 6" "(255::nat) = mask 8" by (simp_all add: mask_eq_exp_minus_1)
  show "x AND 63 = x mod 64" by (subst m) (simp add: take_bit_eq_mask [symmetric] take_bit_eq_mod del: mask_numeral)
  show "255 AND x = x mod 256" by (subst m, subst and.commute) (simp add: take_bit_eq_mask [symmetric] take_bit_eq_mod del: mask_numeral)
qed

lemma or_push_bit_nat:
  fixes a b :: nat
  assumes "b < 2 ^ k"
  shows "b OR push_bit k a = a * 2 ^ k + b"
proof -
  have b: "take_bit k b = b" using assms by (simp add: take_bit_nat_eq_self)
  have "b AND push_bit k a = 0"
  proof (rule bit_eqI)
    fix i
    show "bit (b AND push_bit k a) i = bit (0::nat) i"
      by (subst b [symmetric]) (auto simp: bit_and_iff bit_push_bit_iff bit_take_bit_iff)
  qed
  then have "b OR push_bit k a = b + push_bit k a"
    by (simp add: disjunctive_add bit_eq_iff bit_and_iff)
  then show ?thesis by (simp add: push_bit_eq_mult)
qed

lemma utf8_decode_cont:
  "st \<noteq> 0 \<Longrightarrow> utf8_decode st cp b = (utf8d_states ! (st * 16 + utf8d_types ! b), cp * 64 + b mod 64)"
  using or_push_bit_nat [of "b mod 64" 6 cp] by (simp add: utf8_decode_def and_mask_nat Let_def)

lemma utf8_decode_lead:
  "utf8_decode 0 cp b = (utf8d_states ! (utf8d_types ! b), drop_bit (utf8d_types ! b) 255 AND b)"
  by (simp add: utf8_decode_def Let_def)

text \<open>A state between two code points, with room in the buffer for the next one.\<close>

definition esc_clean :: "escaper \<Rightarrow> bool" where
  "esc_clean e \<longleftrightarrow> e_state e = UTF8_ACCEPT \<and> length (e_buffer e) \<le> 499"

definition esc_output :: "escaper \<Rightarrow> string" where
  "esc_output e = e_written e @ e_buffer e"

lemma esc_clean_flush:
  assumes "e_state e = 0"
  shows "esc_clean (buf_flush e\<lparr>e_accepted := n, e_undumped := m\<rparr>)"
    and "esc_output (buf_flush e\<lparr>e_accepted := n, e_undumped := m\<rparr>) = esc_output e"
  using assms by (auto simp: esc_clean_def esc_output_def buf_flush_def)

lemma escape_accept_put:
  assumes "e_state e = 0" "length (e_buffer e) \<le> 502" "0x80 \<le> e_codepoint e"
  shows "\<exists>e'. escape_accept False c e = Inr e' \<and> esc_clean e' \<and> esc_output e' = esc_output e @ [c]"
  using assms esc_clean_flush [of "e\<lparr>e_buffer := e_buffer e @ [c]\<rparr>"]
  by (auto simp: escape_accept_def escape_bytes_def buf_put_def Let_def esc_output_def)

lemma escape_accept_ascii:
  assumes "e_state e = 0" "length (e_buffer e) \<le> 499" "e_codepoint e = of_char c" "of_char c < (0x80::nat)"
  shows "\<exists>e'. escape_accept False c e = Inr e' \<and> esc_clean e' \<and> esc_output e' = esc_output e @ escape_char c"
proof -
  have put: "bind (buf_put t k e) (\<lambda>e. let e = buf_flush e in Inr (e\<lparr>e_accepted := length (e_buffer e), e_undumped := 0\<rparr>))
      = Inr (buf_flush (e\<lparr>e_buffer := e_buffer e @ t\<rparr>)\<lparr>e_accepted := length (e_buffer (buf_flush (e\<lparr>e_buffer := e_buffer e @ t\<rparr>))),
              e_undumped := 0\<rparr>)" if "length t + k \<le> 13" for t k
    using that assms(2) by (simp add: buf_put_def Let_def)
  have clean: "esc_clean (buf_flush (e\<lparr>e_buffer := e_buffer e @ t\<rparr>)\<lparr>e_accepted := n, e_undumped := 0\<rparr>)"
    "esc_output (buf_flush (e\<lparr>e_buffer := e_buffer e @ t\<rparr>)\<lparr>e_accepted := n, e_undumped := 0\<rparr>) = esc_output e @ t" for t n
    using assms(1) esc_clean_flush [of "e\<lparr>e_buffer := e_buffer e @ t\<rparr>"] by (simp_all add: esc_output_def)
  have "length (escape_char c) \<le> 6"
    by (simp add: escape_char_def u_escape_def Let_def)
  moreover have "fst (escape_bytes False (e_codepoint e) c) = escape_char c"
    "snd (escape_bytes False (e_codepoint e) c) \<le> 1"
    using assms(3,4) by (simp_all add: escape_bytes_def escape_char_def Let_def)
  ultimately show ?thesis
    using put [of "escape_char c" "snd (escape_bytes False (e_codepoint e) c)"] clean
    by (simp add: escape_accept_def)
qed

lemma escape_loop_copy:
  assumes "utf8_decode (e_state e) (e_codepoint e) (of_char c) = (st, cp)" "st \<noteq> 0" "st \<noteq> 1"
    "length (e_buffer e) < 512"
  shows "escape_loop strict False i (c # s) e = escape_loop strict False (Suc i) s
     (e\<lparr>e_state := st, e_codepoint := cp, e_buffer := e_buffer e @ [c], e_undumped := Suc (e_undumped e)\<rparr>)"
  using assms by (simp add: buf_put_def)

lemma escape_loop_accept:
  assumes "utf8_decode (e_state e) (e_codepoint e) (of_char c) = (0, cp)" "0x80 \<le> cp"
    "length (e_buffer e) \<le> 502"
  shows "\<exists>e'. escape_loop strict False i (c # s) e = escape_loop strict False (Suc i) s e'
     \<and> esc_clean e' \<and> esc_output e' = esc_output e @ [c]"
  using assms escape_accept_put [of "e\<lparr>e_state := 0, e_codepoint := cp\<rparr>" c]
  by (auto simp: esc_output_def)

lemma mod_at:
  fixes n :: nat
  assumes "k * m \<le> n" "n < k * m + m"
  shows "n mod m = n - k * m"
proof -
  obtain r where "n = k * m + r" using assms(1) le_Suc_ex by blast
  with assms(2) show ?thesis by simp
qed

lemma utf8_decode_steps:
  "0x80 \<le> b \<Longrightarrow> b \<le> 0xBF \<Longrightarrow> utf8_decode 2 cp b = (0, cp * 64 + b mod 64)"
  "0x80 \<le> b \<Longrightarrow> b \<le> 0xBF \<Longrightarrow> utf8_decode 3 cp b = (2, cp * 64 + b mod 64)"
  "0xA0 \<le> b \<Longrightarrow> b \<le> 0xBF \<Longrightarrow> utf8_decode 4 cp b = (2, cp * 64 + b mod 64)"
  "0x80 \<le> b \<Longrightarrow> b \<le> 0x9F \<Longrightarrow> utf8_decode 5 cp b = (2, cp * 64 + b mod 64)"
  "0x90 \<le> b \<Longrightarrow> b \<le> 0xBF \<Longrightarrow> utf8_decode 6 cp b = (3, cp * 64 + b mod 64)"
  "0x80 \<le> b \<Longrightarrow> b \<le> 0xBF \<Longrightarrow> utf8_decode 7 cp b = (3, cp * 64 + b mod 64)"
  "0x80 \<le> b \<Longrightarrow> b \<le> 0x8F \<Longrightarrow> utf8_decode 8 cp b = (3, cp * 64 + b mod 64)"
proof -
  have t: "utf8d_types ! b = 1 \<or> utf8d_types ! b = 9 \<or> utf8d_types ! b = 7" if "0x80 \<le> b" "b \<le> 0xBF" for b
    using that utf8d_type(2-4) [of b] by linarith
  have hi: "utf8d_types ! b = 9 \<or> utf8d_types ! b = 7" if "0x90 \<le> b" "b \<le> 0xBF" for b
    using that utf8d_type(3-4) [of b] by linarith
  have lo: "utf8d_types ! b = 1 \<or> utf8d_types ! b = 9" if "0x80 \<le> b" "b \<le> 0x9F" for b
    using that utf8d_type(2-3) [of b] by linarith
  note d = utf8_decode_cont utf8d_states_def
  show "0x80 \<le> b \<Longrightarrow> b \<le> 0xBF \<Longrightarrow> utf8_decode 2 cp b = (0, cp * 64 + b mod 64)"
    "0x80 \<le> b \<Longrightarrow> b \<le> 0xBF \<Longrightarrow> utf8_decode 3 cp b = (2, cp * 64 + b mod 64)"
    "0x80 \<le> b \<Longrightarrow> b \<le> 0xBF \<Longrightarrow> utf8_decode 7 cp b = (3, cp * 64 + b mod 64)"
    using t [of b] by (auto simp: d)
  show "0xA0 \<le> b \<Longrightarrow> b \<le> 0xBF \<Longrightarrow> utf8_decode 4 cp b = (2, cp * 64 + b mod 64)"
    using utf8d_type(4) [of b] by (auto simp: d)
  show "0x80 \<le> b \<Longrightarrow> b \<le> 0x9F \<Longrightarrow> utf8_decode 5 cp b = (2, cp * 64 + b mod 64)"
    using lo [of b] by (auto simp: d)
  show "0x90 \<le> b \<Longrightarrow> b \<le> 0xBF \<Longrightarrow> utf8_decode 6 cp b = (3, cp * 64 + b mod 64)"
    using hi [of b] by (auto simp: d)
  show "0x80 \<le> b \<Longrightarrow> b \<le> 0x8F \<Longrightarrow> utf8_decode 8 cp b = (3, cp * 64 + b mod 64)"
    using utf8d_type(2) [of b] by (auto simp: d)
qed

lemma and_low_bits_nat: "(31::nat) AND x = x mod 32" "(3::nat) AND x = x mod 4" "(63::nat) AND x = x mod 64"
proof -
  have m: "(31::nat) = mask 5" "(3::nat) = mask 2" "(63::nat) = mask 6" by (simp_all add: mask_eq_exp_minus_1)
  show "31 AND x = x mod 32" by (subst m, subst and.commute) (simp add: take_bit_eq_mask [symmetric] take_bit_eq_mod del: mask_numeral)
  show "3 AND x = x mod 4" by (subst m, subst and.commute) (simp add: take_bit_eq_mask [symmetric] take_bit_eq_mod del: mask_numeral)
  show "63 AND x = x mod 64" by (subst m, subst and.commute) (simp add: take_bit_eq_mask [symmetric] take_bit_eq_mod del: mask_numeral)
qed

lemma utf8_decode_leads:
  "b < 0x80 \<Longrightarrow> utf8_decode 0 cp b = (0, b)"
  "0xC2 \<le> b \<Longrightarrow> b \<le> 0xDF \<Longrightarrow> utf8_decode 0 cp b = (2, b mod 64)"
  "utf8_decode 0 cp 0xE0 = (4, 0)"
  "utf8_decode 0 cp 0xED = (5, 13)"
  "0xE1 \<le> b \<Longrightarrow> b \<le> 0xEF \<Longrightarrow> b \<noteq> 0xED \<Longrightarrow> utf8_decode 0 cp b = (3, b mod 32)"
  "utf8_decode 0 cp 0xF0 = (6, 0)"
  "0xF1 \<le> b \<Longrightarrow> b \<le> 0xF3 \<Longrightarrow> utf8_decode 0 cp b = (7, b mod 4)"
  "utf8_decode 0 cp 0xF4 = (8, 4)"
  by (simp_all add: utf8_decode_lead utf8d_type utf8d_type_lead utf8d_states_def and_mask_nat
      and_low_bits_nat drop_bit_eq_div)

declare escape_loop.simps(2) [simp del]

text \<open>The result of one well-formed sequence, from a state between code points.\<close>

lemma escape_seq1:
  assumes "of_char c < (0x80::nat)" "esc_clean e"
  shows "\<exists>e'. escape_loop strict False i (c # s) e = escape_loop strict False (Suc i) s e'
     \<and> esc_clean e' \<and> esc_output e' = esc_output e @ escape_char c"
  using assms escape_accept_ascii [of "e\<lparr>e_state := 0, e_codepoint := of_char c\<rparr>" c]
  by (auto simp: escape_loop.simps(2) esc_clean_def utf8_decode_leads esc_output_def)

lemma escape_tail2:
  assumes "in_range (0x80, 0xBF) d" "e_state e = 2" "2 \<le> e_codepoint e" "length (e_buffer e) \<le> 502"
  shows "\<exists>e'. escape_loop strict False i (d # s) e = escape_loop strict False (Suc i) s e'
     \<and> esc_clean e' \<and> esc_output e' = esc_output e @ [d]"
  using assms by (intro escape_loop_accept [where cp = "e_codepoint e * 64 + of_char d mod 64"])
    (auto simp: in_range_def utf8_decode_steps)

lemma escape_tail3:
  assumes "in_range r d" "in_range (0x80, 0xBF) d'" "length (e_buffer e) \<le> 501"
    "e_state e = 3 \<and> r = (0x80, 0xBF) \<and> 1 \<le> e_codepoint e
     \<or> e_state e = 4 \<and> r = (0xA0, 0xBF)
     \<or> e_state e = 5 \<and> r = (0x80, 0x9F) \<and> 1 \<le> e_codepoint e"
  shows "\<exists>e'. escape_loop strict False i (d # d' # s) e = escape_loop strict False (Suc (Suc i)) s e'
     \<and> esc_clean e' \<and> esc_output e' = esc_output e @ [d, d']"
proof -
  have "utf8_decode (e_state e) (e_codepoint e) (of_char d) = (2, e_codepoint e * 64 + of_char d mod 64)"
    using assms(1,4) by (auto simp: in_range_def utf8_decode_steps)
  moreover have "2 \<le> e_codepoint e * 64 + of_char d mod 64"
  proof -
    from mod_at [of 2 64 "of_char d"] have "32 \<le> (of_char d mod 64 :: nat)" if "160 \<le> (of_char d :: nat)" "of_char d \<le> (191::nat)"
      using that by simp
    with assms(1,4) show ?thesis by (auto simp: in_range_def)
  qed
  ultimately show ?thesis
    using escape_loop_copy [of e d 2 "e_codepoint e * 64 + of_char d mod 64" i "d' # s"] assms(2,3)
      escape_tail2 [of d' "e\<lparr>e_state := 2, e_codepoint := e_codepoint e * 64 + of_char d mod 64,
        e_buffer := e_buffer e @ [d], e_undumped := Suc (e_undumped e)\<rparr>" "Suc i" s]
    by (auto simp: esc_output_def)
qed

lemma escape_tail4:
  assumes "in_range r d" "in_range (0x80, 0xBF) d'" "in_range (0x80, 0xBF) d''" "length (e_buffer e) \<le> 500"
    "e_state e = 6 \<and> r = (0x90, 0xBF)
     \<or> e_state e = 7 \<and> r = (0x80, 0xBF) \<and> 1 \<le> e_codepoint e
     \<or> e_state e = 8 \<and> r = (0x80, 0x8F) \<and> 1 \<le> e_codepoint e"
  shows "\<exists>e'. escape_loop strict False i (d # d' # d'' # s) e = escape_loop strict False (Suc (Suc (Suc i))) s e'
     \<and> esc_clean e' \<and> esc_output e' = esc_output e @ [d, d', d'']"
proof -
  have "utf8_decode (e_state e) (e_codepoint e) (of_char d) = (3, e_codepoint e * 64 + of_char d mod 64)"
    using assms(1,5) by (auto simp: in_range_def utf8_decode_steps)
  moreover have "1 \<le> e_codepoint e * 64 + of_char d mod 64"
  proof -
    from mod_at [of 2 64 "of_char d"] show ?thesis using assms(1,5) by (auto simp: in_range_def)
  qed
  ultimately show ?thesis
    using escape_loop_copy [of e d 3 "e_codepoint e * 64 + of_char d mod 64" i "d' # d'' # s"] assms(2,3,4)
      escape_tail3 [of "(0x80, 0xBF)" d' d'' "e\<lparr>e_state := 3, e_codepoint := e_codepoint e * 64 + of_char d mod 64,
        e_buffer := e_buffer e @ [d], e_undumped := Suc (e_undumped e)\<rparr>" "Suc i" s]
    by (auto simp: esc_output_def)
qed

lemma lead_bounds:
  fixes b :: nat
  shows "0xC2 \<le> b \<Longrightarrow> b \<le> 0xDF \<Longrightarrow> 2 \<le> b mod 64"
    and "0xE1 \<le> b \<Longrightarrow> b \<le> 0xEF \<Longrightarrow> 1 \<le> b mod 32"
    and "0xF1 \<le> b \<Longrightarrow> b \<le> 0xF3 \<Longrightarrow> 1 \<le> b mod 4"
  using mod_at [of 3 64 b] mod_at [of 7 32 b] mod_at [of 60 4 b] by simp_all

lemma escape_char_high: "0x80 \<le> (of_char c :: nat) \<Longrightarrow> escape_char c = [c]"
  by (simp add: escape_char_def Let_def)

lemma escape_seq:
  assumes "utf8_follow c = Some rs" "list_all2 in_range rs cs" "esc_clean e"
  shows "\<exists>e'. escape_loop strict False i (c # cs @ s) e = escape_loop strict False (i + Suc (length cs)) s e'
     \<and> esc_clean e' \<and> esc_output e' = esc_output e @ json_escape (c # cs)"
proof -
  have high: "json_escape ds = ds" if "\<forall>d \<in> set ds. 0x80 \<le> (of_char d :: nat)" for ds
    using that by (induction ds) (auto simp: json_escape_def escape_char_high)
  have copy: "escape_loop strict False i (c # t) e = escape_loop strict False (Suc i) t
      (e\<lparr>e_state := st, e_codepoint := cp, e_buffer := e_buffer e @ [c], e_undumped := Suc (e_undumped e)\<rparr>)"
    if "utf8_decode 0 (e_codepoint e) (of_char c) = (st, cp)" "st \<noteq> 0" "st \<noteq> 1" for st cp t
    using escape_loop_copy [of e c st cp] that assms(3) by (simp add: esc_clean_def)
  note len = assms(3) [unfolded esc_clean_def]
  consider (one) "of_char c < (0x80::nat)" "rs = []"
    | (two) "0xC2 \<le> (of_char c :: nat)" "of_char c \<le> (0xDF::nat)" "rs = [(0x80, 0xBF)]"
    | (three) st cp r where "utf8_decode 0 (e_codepoint e) (of_char c) = (st, cp)" "rs = [r, (0x80, 0xBF)]"
        "0xE0 \<le> (of_char c :: nat)"
        "st = 3 \<and> r = (0x80, 0xBF) \<and> 1 \<le> cp \<or> st = 4 \<and> r = (0xA0, 0xBF) \<or> st = 5 \<and> r = (0x80, 0x9F) \<and> 1 \<le> cp"
    | (four) st cp r where "utf8_decode 0 (e_codepoint e) (of_char c) = (st, cp)"
        "rs = [r, (0x80, 0xBF), (0x80, 0xBF)]" "0xE0 \<le> (of_char c :: nat)"
        "st = 6 \<and> r = (0x90, 0xBF) \<or> st = 7 \<and> r = (0x80, 0xBF) \<and> 1 \<le> cp \<or> st = 8 \<and> r = (0x80, 0x8F) \<and> 1 \<le> cp"
    using assms(1) unfolding utf8_follow_def Let_def
    using lead_bounds(2,3) [of "of_char c"] by (auto split: if_splits simp: utf8_decode_leads)
  then show ?thesis
  proof cases
    case one
    then show ?thesis using assms(2,3) escape_seq1 [of c e i s] by (auto simp: json_escape_def)
  next
    case two
    then obtain d where d: "cs = [d]" "in_range (0x80, 0xBF) d"
      using assms(2) by (auto simp: list_all2_Cons1)
    show ?thesis
      using copy [of 2 "of_char c mod 64" "d # s"] two d len utf8_decode_leads(2) [of "of_char c"]
        lead_bounds(1) [of "of_char c"] high [of "[c, d]"]
        escape_tail2 [of d "e\<lparr>e_state := 2, e_codepoint := of_char c mod 64, e_buffer := e_buffer e @ [c],
          e_undumped := Suc (e_undumped e)\<rparr>" "Suc i" s]
      by (auto simp: esc_output_def in_range_def)
  next
    case three
    then obtain d d' where d: "cs = [d, d']" "in_range r d" "in_range (0x80, 0xBF) d'"
      using assms(2) by (auto simp: list_all2_Cons1)
    show ?thesis
      using copy [OF three(1), of "d # d' # s"] three d len high [of "[c, d, d']"]
        escape_tail3 [of r d d' "e\<lparr>e_state := st, e_codepoint := cp, e_buffer := e_buffer e @ [c],
          e_undumped := Suc (e_undumped e)\<rparr>" "Suc i" s]
      by (auto simp: esc_output_def in_range_def)
  next
    case four
    then obtain d d' d'' where d: "cs = [d, d', d'']" "in_range r d" "in_range (0x80, 0xBF) d'" "in_range (0x80, 0xBF) d''"
      using assms(2) by (auto simp: list_all2_Cons1)
    show ?thesis
      using copy [OF four(1), of "d # d' # d'' # s"] four d len high [of "[c, d, d', d'']"]
        escape_tail4 [of r d d' d'' "e\<lparr>e_state := st, e_codepoint := cp, e_buffer := e_buffer e @ [c],
          e_undumped := Suc (e_undumped e)\<rparr>" "Suc i" s]
      by (auto simp: esc_output_def in_range_def)
  qed
qed

lemma escape_loop_utf8:
  assumes "utf8 s" "esc_clean e"
  shows "\<exists>e'. escape_loop strict False i s e = Inr e' \<and> esc_clean e'
     \<and> esc_output e' = esc_output e @ json_escape s"
  using assms
proof (induction arbitrary: i e rule: utf8.induct)
  case utf8_Nil
  then show ?case by (simp add: json_escape_def)
next
  case (utf8_seq c rs cs s)
  obtain e1 where e1: "escape_loop strict False i (c # cs @ s) e = escape_loop strict False (i + Suc (length cs)) s e1"
    "esc_clean e1" "esc_output e1 = esc_output e @ json_escape (c # cs)"
    using escape_seq [OF utf8_seq(1,2,5)] by blast
  obtain e2 where "escape_loop strict False (i + Suc (length cs)) s e1 = Inr e2" "esc_clean e2"
    "esc_output e2 = esc_output e1 @ json_escape s"
    using utf8_seq.IH [OF e1(2)] by blast
  with e1 show ?case by (auto simp: json_escape_def)
qed

lemma dump_escaped_utf8:
  assumes "utf8 s"
  shows "dump_escaped strict False s = Inr (json_escape s)"
proof -
  obtain e' where "escape_loop strict False 0 s \<lparr>e_written = [], e_buffer = [], e_accepted = 0,
      e_undumped = 0, e_state = 0, e_codepoint = 0\<rparr> = Inr e'" "esc_clean e'" "esc_output e' = json_escape s"
    using escape_loop_utf8 [OF assms, of "\<lparr>e_written = [], e_buffer = [], e_accepted = 0,
      e_undumped = 0, e_state = 0, e_codepoint = 0\<rparr>" 0] by (auto simp: esc_clean_def esc_output_def)
  then show ?thesis by (auto simp: dump_escaped_def esc_clean_def esc_output_def)
qed

subsection \<open>The buffer is large enough\<close>

text \<open>Bytes a state still waits for.\<close>

definition utf8_pending :: "nat \<Rightarrow> nat" where
  "utf8_pending st = (if st = 0 then 0 else if st = 2 then 1 else if st \<le> 5 then 2 else 3)"

lemma utf8d_types_less: "b < 256 \<Longrightarrow> utf8d_types ! b < 12"
proof -
  assume "b < 256"
  then have "utf8d_types ! b \<in> set utf8d_types" by (intro nth_mem) (simp add: utf8d_types_def)
  moreover have "set utf8d_types \<subseteq> {..<12}" by (simp add: utf8d_types_def)
  ultimately show ?thesis by blast
qed

lemma utf8_state_table:
  "list_all (\<lambda>st. list_all (\<lambda>ty. let st' = utf8d_states ! (st * 16 + ty) in
      st' = 1 \<or> st' \<le> 8 \<and> (st \<noteq> 0 \<longrightarrow> utf8_pending st' < utf8_pending st))
      [0, 1, 2, 3, 4, 5, 6, 7, 8, 9, 10, 11]) [0, 2, 3, 4, 5, 6, 7, 8]"
  by (simp add: utf8d_states_def utf8_pending_def)

lemma utf8_decode_pending:
  assumes "utf8_decode st cp b = (st', cp')" "st \<noteq> 1" "st \<le> 8" "b < 256" "st' \<noteq> 1"
  shows "st' \<le> 8" "st \<noteq> 0 \<Longrightarrow> utf8_pending st' < utf8_pending st"
proof -
  have st': "st' = utf8d_states ! (st * 16 + utf8d_types ! b)"
    using assms(1) by (auto simp: utf8_decode_def Let_def)
  have "n = 0 \<or> n = 1 \<or> n = 2 \<or> n = 3 \<or> n = 4 \<or> n = 5 \<or> n = 6 \<or> n = 7 \<or> n = 8 \<or> n = 9 \<or> n = 10 \<or> n = 11"
    if "n < 12" for n :: nat using that by presburger
  then have "utf8d_types ! b \<in> set [0, 1, 2, 3, 4, 5, 6, 7, 8, 9, 10, 11]"
    using utf8d_types_less [OF assms(4)] by simp
  moreover have "st \<in> set [0, 2, 3, 4, 5, 6, 7, 8]" using assms(2,3) by auto
  ultimately have "st' = 1 \<or> st' \<le> 8 \<and> (st \<noteq> 0 \<longrightarrow> utf8_pending st' < utf8_pending st)"
    using utf8_state_table unfolding list_all_iff Let_def st' by blast
  with assms(5) show "st' \<le> 8" "st \<noteq> 0 \<Longrightarrow> utf8_pending st' < utf8_pending st" by blast+
qed

definition esc_room :: "bool \<Rightarrow> escaper \<Rightarrow> bool" where
  "esc_room ensure_ascii e \<longleftrightarrow>
     e_state e \<noteq> 1 \<and> e_state e \<le> 8 \<and> e_accepted e \<le> 499 \<and>
     (if ensure_ascii \<or> e_state e = 0 then length (e_buffer e) \<le> 499
      else length (e_buffer e) + utf8_pending (e_state e) \<le> 503)"

lemma buf_flush_room: "length (e_buffer (buf_flush e)) \<le> 499" "e_state (buf_flush e) = e_state e"
  by (auto simp: buf_flush_def)

lemma escape_accept_room:
  assumes "e_state e = 0" "length (e_buffer e) \<le> (if ensure_ascii then 499 else 502)"
  shows "\<exists>e'. escape_accept ensure_ascii c e = Inr e' \<and> esc_room ensure_ascii e'"
proof -
  let ?flush = "\<lambda>e. let e = buf_flush e in Inr (e\<lparr>e_accepted := length (e_buffer e), e_undumped := 0\<rparr>)"
  have put: "\<exists>e'. bind (buf_put t k e) ?flush = Inr e' \<and> esc_room ensure_ascii e'"
    if "length t + k \<le> (if ensure_ascii then 13 else 10)" for t k
    using that assms buf_flush_room [of "e\<lparr>e_buffer := e_buffer e @ t\<rparr>"]
    by (auto simp: buf_put_def esc_room_def Let_def split: if_splits)
  have "length (fst (escape_bytes ensure_ascii cp c)) + snd (escape_bytes ensure_ascii cp c)
      \<le> (if ensure_ascii then 13 else 10)" for cp
    by (simp add: escape_bytes_def u_escape_def)
  then show ?thesis unfolding escape_accept_def using put by blast
qed

lemma escape_reject_room:
  assumes "e_accepted e \<le> 499"
  shows "\<exists>e'. escape_reject handler ensure_ascii e = Inr e' \<and> esc_room ensure_ascii e'"
  using assms buf_flush_room
  by (auto simp: escape_reject_def buf_put_def replacement_char_def esc_room_def Let_def
      split: if_splits)

lemma escape_loop_cases:
  assumes "utf8_decode (e_state e) (e_codepoint e) (of_char c) = (st, cp)"
  defines "e1 \<equiv> e\<lparr>e_state := st, e_codepoint := cp\<rparr>"
  shows "st = 0 \<Longrightarrow> escape_loop h a i (c # cs) e = bind (escape_accept a c e1) (escape_loop h a (Suc i) cs)"
    and "st = 1 \<Longrightarrow> h = strict \<Longrightarrow> \<exists>msg. escape_loop h a i (c # cs) e = Inl (type_error 316 msg)"
    and "st = 1 \<Longrightarrow> h \<noteq> strict \<Longrightarrow> escape_reject h a e1 = Inr e' \<Longrightarrow> escape_loop h a i (c # cs) e =
      (if e_undumped e > 0 then escape_loop h a i (c # cs) (e'\<lparr>e_undumped := 0\<rparr>)
       else escape_loop h a (Suc i) cs e')"
    and "st \<noteq> 0 \<Longrightarrow> st \<noteq> 1 \<Longrightarrow> length (e_buffer e) < 512 \<Longrightarrow> escape_loop h a i (c # cs) e =
      escape_loop h a (Suc i) cs (e\<lparr>e_state := st, e_codepoint := cp,
        e_buffer := (if a then e_buffer e else e_buffer e @ [c]), e_undumped := Suc (e_undumped e)\<rparr>)"
  using assms by (subst escape_loop.simps(2); simp add: buf_put_def)+

lemma escape_loop_room:
  assumes "esc_room ensure_ascii e"
  shows "escape_loop handler ensure_ascii i s e \<noteq> Inl buffer_overrun"
  using assms
proof (induction "2 * length s + (if e_undumped e > 0 then 1 else 0)" arbitrary: i s e rule: less_induct)
  case less
  show ?case
  proof (cases s)
    case (Cons c cs)
    obtain st cp where d: "utf8_decode (e_state e) (e_codepoint e) (of_char c) = (st, cp)" by force
    note room = less(2) [unfolded esc_room_def]
    note next_state = utf8_decode_pending [OF d] and unfold_loop = escape_loop_cases [OF d]
    consider (accept) "st = 0" | (reject) "st = 1" | (more) "st \<noteq> 0" "st \<noteq> 1" by blast
    then show ?thesis
    proof cases
      case accept
      have "length (e_buffer e) \<le> (if ensure_ascii then 499 else 502)"
        using next_state room accept by (cases "e_state e = 0") (auto simp: utf8_pending_def split: if_splits)
      then obtain e' where "escape_accept ensure_ascii c (e\<lparr>e_state := st, e_codepoint := cp\<rparr>) = Inr e'"
        "esc_room ensure_ascii e'"
        using escape_accept_room [of "e\<lparr>e_state := st, e_codepoint := cp\<rparr>" ensure_ascii c] accept by auto
      then show ?thesis using less(1) [of cs e'] unfold_loop(1) accept by (simp add: Cons)
    next
      case reject
      obtain e' where e': "escape_reject handler ensure_ascii (e\<lparr>e_state := st, e_codepoint := cp\<rparr>) = Inr e'"
        "esc_room ensure_ascii e'"
        using escape_reject_room [of "e\<lparr>e_state := st, e_codepoint := cp\<rparr>"] room by auto
      then have "esc_room ensure_ascii (e'\<lparr>e_undumped := 0\<rparr>)" by (simp add: esc_room_def)
      then show ?thesis
        using less(1) [of s "e'\<lparr>e_undumped := 0\<rparr>" i] less(1) [of cs e' "Suc i"] e'
          unfold_loop(2) [OF reject, of handler ensure_ascii i cs] unfold_loop(3) [OF reject _ e'(1), of i cs]
        by (cases "handler = strict") (auto simp: Cons)
    next
      case more
      have "length (e_buffer e) < 512" using room by (auto split: if_splits)
      moreover have "esc_room ensure_ascii (e\<lparr>e_state := st, e_codepoint := cp,
          e_buffer := (if ensure_ascii then e_buffer e else e_buffer e @ [c]), e_undumped := Suc (e_undumped e)\<rparr>)"
        using next_state room more
        by (cases "e_state e = 0") (auto simp: esc_room_def utf8_pending_def split: if_splits)
      ultimately show ?thesis
        using less(1) [of cs "e\<lparr>e_state := st, e_codepoint := cp,
          e_buffer := (if ensure_ascii then e_buffer e else e_buffer e @ [c]), e_undumped := Suc (e_undumped e)\<rparr>" "Suc i"]
          unfold_loop(4) [OF more, of handler ensure_ascii i cs] by (simp add: Cons)
    qed
  qed simp
qed

text \<open>Escaping a string for JSON never writes past the serializer's 512-byte buffer: for any bytes,
  well-formed UTF-8 or not, under every error policy, with and without \<open>ensure_ascii\<close>.\<close>

theorem escape_never_overruns:
  shows "dump_escaped handler ensure_ascii s \<noteq> Inl buffer_overrun"
proof -
  let ?e = "\<lparr>e_written = [], e_buffer = [], e_accepted = 0, e_undumped = 0, e_state = 0, e_codepoint = 0\<rparr>"
  have "esc_room ensure_ascii ?e" by (simp add: esc_room_def)
  from escape_loop_room [OF this] have "escape_loop handler ensure_ascii 0 s ?e \<noteq> Inl buffer_overrun" .
  then show ?thesis
    by (cases "escape_loop handler ensure_ascii 0 s ?e") (auto simp: dump_escaped_def)
qed

end
