(* ===== verification/JsonRoundTrip.thy ===== *)
theory JsonRoundTrip
  imports JsonParser JsonSerializer
begin

unbundle bit_operations_syntax

section \<open>Parsing what was dumped\<close>

text \<open>
  The parser reads back every value the serializer writes. \<open>reads l s\<close> says that the lexer will
  deliver exactly the bytes \<open>s\<close>.
\<close>

subsection \<open>What a lexer will deliver\<close>

definition reads :: "'f lexer \<Rightarrow> string \<Rightarrow> bool" where
  "reads l s \<longleftrightarrow>
     (if lx_next_unget l
      then (case lx_current l of Some c \<Rightarrow> c # lx_input l = s | None \<Rightarrow> s = [] \<and> lx_input l = [])
      else lx_input l = s)"

text \<open>\<open>at l c s\<close>: the lexer just delivered \<open>c\<close> and will deliver \<open>s\<close>.\<close>

definition at :: "'f lexer \<Rightarrow> char option \<Rightarrow> string \<Rightarrow> bool" where
  "at l c s \<longleftrightarrow> lx_current l = c \<and> \<not> lx_next_unget l \<and> lx_input l = s"

lemma at_reads: "at l c s \<Longrightarrow> reads l s"
  by (simp add: at_def reads_def)

lemma at_current: "at l c s \<Longrightarrow> lx_current l = c"
  by (simp add: at_def)

lemma lx_get_buffer [simp]:
  "lx_token_buffer (lx_get l) = lx_token_buffer l"
  by (simp add: lx_get_def Let_def split: list.split option.split)

lemma get_reads:
  "reads l (c # s) \<Longrightarrow> at (lx_get l) (Some c) s"
  "reads l [] \<Longrightarrow> at (lx_get l) None []"
  by (auto simp: reads_def at_def lx_get_current lx_get_input split: if_splits option.splits)

lemma unget_reads:
  "at l (Some c) s \<Longrightarrow> reads (lx_unget l) (c # s)"
  "at l None [] \<Longrightarrow> reads (lx_unget l) []"
  by (simp_all add: reads_def at_def lx_unget_def Let_def)

lemma at_simps [simp]:
  "at (lx_add c l) = at l" "at (lx_reset l) = at l"
  "reads (lx_add c l) = reads l" "reads (lx_reset l) = reads l"
  by (simp_all add: at_def reads_def fun_eq_iff cong: option.case_cong)

lemma lx_add_buffer [simp]: "lx_token_buffer (lx_add c l) = lx_token_buffer l @ [c]"
  by (simp add: lx_add_def)

lemma lx_reset_buffer [simp]: "lx_token_buffer (lx_reset l) = []"
  by (simp add: lx_reset_def)

lemma lx_add_all_simps:
  "lx_token_buffer (lx_add_all cs l) = lx_token_buffer l @ cs" "reads (lx_add_all cs l) = reads l"
  unfolding lx_add_all_def by (induction cs arbitrary: l) simp_all

text \<open>Scanning a token that starts here and now.\<close>

lemma scan_at:
  assumes "reads l (c # s)" "\<not> is_space c" "c \<noteq> CHR 0xEF"
  shows "\<exists>l1. scan dbl l = scan_token dbl l1 \<and> at l1 (Some c) s"
proof -
  have ws: "skip_whitespace m = lx_get m" if "reads m (c # s)" for m :: "'a lexer"
    using get_reads(1) [OF that] assms(2) by (subst skip_whitespace.simps) (simp add: at_def)
  have "skip_bom l = (True, lx_unget (lx_get l))"
    using get_reads(1) [OF assms(1)] assms(3) by (simp add: skip_bom_def at_def)
  moreover have "reads (lx_unget (lx_get l)) (c # s)"
    using unget_reads(1) get_reads(1) [OF assms(1)] by blast
  ultimately show ?thesis
    using ws [OF assms(1)] ws [of "lx_unget (lx_get l)"] get_reads(1) assms(1)
    by (cases "chars_read_total (lx_position l) = 0") (auto simp: scan_def)
qed

lemma scan_end:
  assumes "reads l []"
  shows "\<exists>l1. scan dbl l = (end_of_input, l1) \<and> reads l1 []"
proof -
  have ws: "skip_whitespace m = lx_get m" if "reads m []" for m :: "'a lexer"
    using get_reads(2) [OF that] by (subst skip_whitespace.simps) (simp add: at_def)
  have "skip_bom l = (True, lx_unget (lx_get l))"
    using get_reads(2) [OF assms] by (simp add: skip_bom_def at_def)
  moreover have "reads (lx_unget (lx_get l)) []"
    using unget_reads(2) get_reads(2) [OF assms] by blast
  ultimately show ?thesis
    using ws [OF assms] ws [of "lx_unget (lx_get l)"] get_reads(2) assms at_reads
    by (cases "chars_read_total (lx_position l) = 0")
      (fastforce simp: scan_def scan_token_def at_current)+
qed

subsection \<open>Strings\<close>

lemma hex_value_hex_digit: "n < 16 \<Longrightarrow> hex_value (hex_digit n) = Some n"
proof -
  have "\<forall>n \<in> {0..<16}. hex_value (hex_digit n) = Some n" by code_simp
  then show "n < 16 \<Longrightarrow> hex_value (hex_digit n) = Some n" by simp
qed

lemma codepoint_loop_reads:
  assumes "length fs = length ns" "\<forall>n \<in> set ns. n < 16" "reads l (map hex_digit ns @ t)"
  shows "\<exists>l'. codepoint_loop fs cp l = (Some (cp + sum_list (map2 push_bit fs ns)), l')
           \<and> reads l' t \<and> lx_token_buffer l' = lx_token_buffer l"
  using assms
proof (induction fs ns arbitrary: cp l rule: list_induct2)
  case (Cons f fs n ns)
  have g: "at (lx_get l) (Some (hex_digit n)) (map hex_digit ns @ t)"
    using Cons.prems by (auto intro!: get_reads(1))
  obtain l' where "codepoint_loop fs (cp + push_bit f n) (lx_get l)
      = (Some (cp + push_bit f n + sum_list (map2 push_bit fs ns)), l')"
    "reads l' t" "lx_token_buffer l' = lx_token_buffer l"
    using Cons.IH [of "lx_get l" "cp + push_bit f n"] Cons.prems at_reads [OF g] by auto
  then show ?case
    using g Cons.prems by (simp add: at_current hex_value_hex_digit Let_def add.assoc)
qed auto

lemma scan_unicode_control:
  assumes "n < 32" "reads l (drop 2 (u_escape n) @ t)"
  shows "\<exists>l'. scan_unicode l = Inr l' \<and> reads l' t \<and> lx_token_buffer l' = lx_token_buffer l @ [char_of n]"
proof -
  have ns: "drop 2 (u_escape n) = map hex_digit [0, 0, n div 16, n mod 16]"
    using assms(1) by (simp add: u_escape_def)
  let ?ns = "[0, 0, n div 16, n mod 16]"
  have total: "0 + sum_list (map2 push_bit [12, 8, 4, 0] ?ns) = n" by (simp add: push_bit_eq_mult)
  have "length [12, 8, 4, 0 :: nat] = length ?ns" "\<forall>n \<in> set ?ns. n < 16"
    "reads l (map hex_digit ?ns @ t)"
    using assms unfolding ns by simp_all
  from codepoint_loop_reads [OF this, of 0] obtain l' where l': "get_codepoint l = (Some n, l')" "reads l' t"
    "lx_token_buffer l' = lx_token_buffer l"
    unfolding get_codepoint_def total by blast
  then have "scan_unicode l = Inr (lx_add (char_of n) l')"
    using assms(1) by (simp add: scan_unicode_def codepoint_bytes_def lx_add_all_def)
  with l' show ?thesis by simp
qed

text \<open>One ASCII character, escaped or not.\<close>

lemma string_step_ascii:
  assumes "reads l (escape_char c @ t)" "of_char c < (0x80 :: nat)"
  shows "\<exists>l'. scan_string_loop l = scan_string_loop l' \<and> reads l' t \<and> lx_token_buffer l' = lx_token_buffer l @ [c]"
proof -
  have short: ?thesis if e: "escape_char c = [CHR 0x5C, d]" "map_of simple_escapes d = Some c" for d
  proof -
    have g1: "at (lx_get l) (Some (CHR 0x5C)) (d # t)"
      using assms(1) e(1) by (auto intro!: get_reads(1))
    have g2: "at (lx_get (lx_get l)) (Some d) t"
      using get_reads(1) [OF at_reads [OF g1]] .
    have "scan_string_loop l = scan_string_loop (lx_add c (lx_get (lx_get l)))"
      using g1 g2 e(2) by (subst scan_string_loop.simps) (simp add: at_current scan_escape_def)
    then show ?thesis using at_reads [OF g2] by (intro exI [of _ "lx_add c (lx_get (lx_get l))"]) simp
  qed
  let ?b = "of_char c :: nat"
  consider (simple) "?b \<in> {8, 9, 10, 12, 13, 0x22, 0x5C}"
    | (control) "?b \<notin> {8, 9, 10, 12, 13, 0x22, 0x5C}" "?b < 32"
    | (plain) "?b \<notin> {8, 9, 10, 12, 13, 0x22, 0x5C}" "32 \<le> ?b" by linarith
  then show ?thesis
  proof cases
    case simple
    then have "c \<in> char_of ` {8, 9, 10, 12, 13, 0x22, 0x5C :: nat}" by (metis char_of_char imageI)
    then have "c \<in> {CHR 8, CHR 9, CHR 10, CHR 12, CHR 13, CHR 0x22, CHR 0x5C}"
      by (simp add: char_of_def bit_0)
    moreover have "\<forall>c \<in> {CHR 8, CHR 9, CHR 10, CHR 12, CHR 13, CHR 0x22, CHR 0x5C}.
        \<exists>d. escape_char c = [CHR 0x5C, d] \<and> map_of simple_escapes d = Some c"
      by (simp add: escape_char_def simple_escapes_def)
    ultimately show ?thesis using short by blast
  next
    case control
    then have "escape_char c = CHR 0x5C # CHR ''u'' # drop 2 (u_escape ?b)"
      by (simp add: escape_char_def u_escape_def Let_def)
    then have g1: "at (lx_get l) (Some (CHR 0x5C)) (CHR ''u'' # drop 2 (u_escape ?b) @ t)"
      using assms(1) by (auto intro!: get_reads(1))
    have g2: "at (lx_get (lx_get l)) (Some (CHR ''u'')) (drop 2 (u_escape ?b) @ t)"
      using get_reads(1) [OF at_reads [OF g1]] .
    obtain l' where l': "scan_unicode (lx_get (lx_get l)) = Inr l'" "reads l' t"
      "lx_token_buffer l' = lx_token_buffer l @ [c]"
      using scan_unicode_control [OF control(2) at_reads [OF g2]] by auto
    have "map_of simple_escapes (CHR ''u'') = None" by (simp add: simple_escapes_def)
    then have "scan_string_loop l = scan_string_loop l'"
      using g1 g2 l' by (subst scan_string_loop.simps) (simp add: at_current scan_escape_def)
    with l' show ?thesis by blast
  next
    case plain
    then have "escape_char c = [c]" by (simp add: escape_char_def)
    then have g: "at (lx_get l) (Some c) t" using assms(1) by (auto intro!: get_reads(1))
    have "c \<noteq> CHR 0x22" "c \<noteq> CHR 0x5C" using plain by auto
    then have "scan_string_loop l = scan_string_loop (lx_add c (lx_get l))"
      using g plain assms(2) by (subst scan_string_loop.simps) (simp add: at_current)
    then show ?thesis using at_reads [OF g] by (intro exI [of _ "lx_add c (lx_get l)"]) simp
  qed
qed

lemma range_loop_reads:
  assumes "list_all2 in_range rs cs" "reads l (cs @ t)"
  shows "\<exists>l'. range_loop rs l = (True, l') \<and> reads l' t \<and> lx_token_buffer l' = lx_token_buffer l @ cs"
  using assms
proof (induction rs cs arbitrary: l rule: list_all2_induct)
  case (Cons r rs c cs)
  have g: "at (lx_get l) (Some c) (cs @ t)" using Cons.prems by (auto intro!: get_reads(1))
  then show ?case
    using Cons.IH [of "lx_add c (lx_get l)"] Cons.hyps at_reads [OF g]
    by (auto simp: at_current in_range_def)
qed simp

lemma lead_ranges_follow:
  "utf8_follow c = Some rs \<Longrightarrow> \<not> of_char c < (0x80 :: nat) \<Longrightarrow> lead_ranges (of_char c) = Some rs"
  by (auto simp: utf8_follow_def lead_ranges_def Let_def split: if_splits)

lemma string_step_multi:
  assumes "utf8_follow c = Some rs" "list_all2 in_range rs cs" "\<not> of_char c < (0x80 :: nat)"
    "reads l (c # cs @ t)"
  shows "\<exists>l'. scan_string_loop l = scan_string_loop l' \<and> reads l' t
           \<and> lx_token_buffer l' = lx_token_buffer l @ c # cs"
proof -
  have g: "at (lx_get l) (Some c) (cs @ t)" using assms(4) by (auto intro!: get_reads(1))
  obtain l' where l': "range_loop rs (lx_add c (lx_get l)) = (True, l')" "reads l' t"
    "lx_token_buffer l' = lx_token_buffer l @ c # cs"
    using range_loop_reads [OF assms(2), of "lx_add c (lx_get l)" t] at_reads [OF g] by auto
  have "c \<noteq> CHR 0x22" "c \<noteq> CHR 0x5C" using assms(3) by auto
  then have "scan_string_loop l = scan_string_loop l'"
    using g l' assms(3) lead_ranges_follow [OF assms(1,3)]
    by (subst scan_string_loop.simps) (simp add: at_current next_byte_in_range_def)
  with l' show ?thesis by blast
qed

lemma json_escape_append [simp]: "json_escape (s @ t) = json_escape s @ json_escape t"
  by (simp add: json_escape_def)

lemma json_escape_simps [simp]: "json_escape [] = []" "json_escape (c # s) = escape_char c @ json_escape s"
  by (simp_all add: json_escape_def)

lemma json_escape_follow:
  assumes "list_all2 in_range rs cs" "utf8_follow c = Some rs"
  shows "json_escape cs = cs"
proof -
  have "\<forall>r \<in> set rs. 0x80 \<le> fst r"
    using assms(2) by (auto simp: utf8_follow_def Let_def split: if_splits)
  with assms(1) show ?thesis
    by (induction rs cs rule: list_all2_induct) (auto simp: in_range_def escape_char_high)
qed

lemma scan_string_loop_escape:
  assumes "utf8 s" "reads l (json_escape s @ CHR 0x22 # t)"
  shows "\<exists>l'. scan_string_loop l = (value_string, l') \<and> reads l' t
           \<and> lx_token_buffer l' = lx_token_buffer l @ s"
  using assms
proof (induction s arbitrary: l rule: utf8.induct)
  case utf8_Nil
  then have g: "at (lx_get l) (Some (CHR 0x22)) t" using get_reads(1) by simp
  then show ?case using at_reads [OF g] by (subst scan_string_loop.simps) (simp add: at_current)
next
  case (utf8_seq c rs cs s)
  have "\<exists>l1. scan_string_loop l = scan_string_loop l1 \<and> reads l1 (json_escape s @ CHR 0x22 # t)
         \<and> lx_token_buffer l1 = lx_token_buffer l @ c # cs"
  proof (cases "of_char c < (0x80 :: nat)")
    case True
    then have "cs = []" using utf8_seq.hyps by (auto simp: utf8_follow_def)
    with True show ?thesis using string_step_ascii [of l c] utf8_seq.prems by simp
  next
    case False
    then have "escape_char c = [c]" by (simp add: escape_char_high)
    then show ?thesis
      using string_step_multi [OF utf8_seq.hyps(1,2) False] utf8_seq.prems
        json_escape_follow [OF utf8_seq.hyps(2,1)] by simp
  qed
  then obtain l1 where l1: "scan_string_loop l = scan_string_loop l1"
    "reads l1 (json_escape s @ CHR 0x22 # t)" "lx_token_buffer l1 = lx_token_buffer l @ c # cs" by blast
  from utf8_seq.IH [OF l1(2)] l1 show ?case by auto
qed

lemma scan_quoted:
  assumes "utf8 s" "reads l (CHR 0x22 # json_escape s @ CHR 0x22 # t)"
  shows "\<exists>l'. scan dbl l = (value_string, l') \<and> reads l' t \<and> lx_token_buffer l' = s"
proof -
  obtain l1 where l1: "scan dbl l = scan_token dbl l1" "at l1 (Some (CHR 0x22)) (json_escape s @ CHR 0x22 # t)"
    using scan_at [OF assms(2)] by (auto simp: is_space_def)
  then show ?thesis
    using scan_string_loop_escape [OF assms(1), of "lx_reset l1" t] at_reads [OF l1(2)]
    by (simp add: at_current scan_token_def scan_string_def)
qed

subsection \<open>Numbers\<close>

text \<open>The run of the number automaton over a text, and the texts it accepts.\<close>

fun num_run :: "num_label \<Rightarrow> token_type \<Rightarrow> string \<Rightarrow> (num_label \<times> token_type) option" where
  "num_run label ty [] = Some (label, number_type_at label ty)"
| "num_run label ty (c # s) =
     (case number_switch label (Some c) of
        Inr (Some label') \<Rightarrow> num_run label' (number_type_at label ty) s
      | _ \<Rightarrow> None)"

definition number_text :: "string \<Rightarrow> token_type option" where
  "number_text s =
     (case s of
        [] \<Rightarrow> None
      | c # cs \<Rightarrow>
          if c = CHR ''-'' \<or> is_digit c
          then (case num_run (if c = CHR ''-'' then NMinus else if c = CHR ''0'' then NZero else NAny1)
                       value_unsigned cs of
                  None \<Rightarrow> None
                | Some (label, ty) \<Rightarrow>
                    if label \<in> {NZero, NAny1, NDecimal2, NAny2} then Some ty else None)
          else None)"

text \<open>What may follow a value in a dumped text.\<close>

definition value_stop :: "string \<Rightarrow> bool" where
  "value_stop t \<longleftrightarrow> (case t of [] \<Rightarrow> True | c # _ \<Rightarrow> c \<in> {CHR '','', CHR '']'', CHR ''}''})"

definition hd_opt :: "string \<Rightarrow> char option" where
  "hd_opt t = (case t of [] \<Rightarrow> None | c # _ \<Rightarrow> Some c)"

lemma get_reads_hd: "reads l t \<Longrightarrow> at (lx_get l) (hd_opt t) (tl t)"
  by (cases t) (auto simp: hd_opt_def intro: get_reads)

lemma unget_reads_hd: "at l (hd_opt t) (tl t) \<Longrightarrow> reads (lx_unget l) t"
  by (cases t) (auto simp: hd_opt_def intro: unget_reads)

lemma number_switch_stop:
  "value_stop t \<Longrightarrow> label \<in> {NZero, NAny1, NDecimal2, NAny2} \<Longrightarrow> number_switch label (hd_opt t) = Inr None"
  by (cases t) (auto simp: value_stop_def hd_opt_def number_switch_defs)

lemma number_loop_run:
  assumes "num_run label ty s = Some (label', ty')" "label' \<in> {NZero, NAny1, NDecimal2, NAny2}"
    "value_stop t" "reads l (s @ t)"
  shows "\<exists>l'. number_loop label ty l = (ty', l') \<and> at l' (hd_opt t) (tl t)
           \<and> lx_token_buffer l' = lx_token_buffer l @ s"
  using assms
proof (induction s arbitrary: label ty l)
  case Nil
  then have "at (lx_get l) (hd_opt t) (tl t)" using get_reads_hd by simp
  with Nil number_switch_stop [of t label] show ?case
    by (subst number_loop.simps) (auto simp: at_current)
next
  case (Cons c s)
  obtain label2 where sw: "number_switch label (Some c) = Inr (Some label2)"
    "num_run label2 (number_type_at label ty) s = Some (label', ty')"
    using Cons.prems(1) by (auto split: sum.splits option.splits)
  have g: "at (lx_get l) (Some c) (s @ t)" using Cons.prems(4) by (auto intro!: get_reads(1))
  then have "reads (lx_add c (lx_get l)) (s @ t)" by (simp add: at_reads)
  from Cons.IH [OF sw(2) Cons.prems(2,3) this] show ?case
    using g sw(1) by (subst number_loop.simps) (auto simp: at_current)
qed

lemma num_run_type:
  "num_run label ty s = Some (label', ty') \<Longrightarrow> ty \<noteq> tok_parse_error \<Longrightarrow> ty' \<noteq> tok_parse_error"
  by (induction s arbitrary: label ty)
    (auto simp: number_type_at_def split: sum.splits option.splits num_label.splits)

lemma scan_number_text:
  assumes "number_text s = Some ty" "reads l (s @ t)" "value_stop t"
  shows "\<exists>l1. scan dbl l = number_done dbl ty l1 \<and> at l1 (hd_opt t) (tl t) \<and> lx_token_buffer l1 = s"
proof -
  obtain c cs where s: "s = c # cs" and c: "c = CHR ''-'' \<or> is_digit c"
    using assms(1) by (auto simp: number_text_def split: list.splits if_splits)
  define label where "label = (if c = CHR ''-'' then NMinus else if c = CHR ''0'' then NZero else NAny1)"
  obtain label' where run: "num_run label value_unsigned cs = Some (label', ty)"
    "label' \<in> {NZero, NAny1, NDecimal2, NAny2}"
    using assms(1) c s by (auto simp: number_text_def label_def split: option.splits if_splits)
  have other: "c \<noteq> CHR ''[''" "c \<noteq> CHR '']''" "c \<noteq> CHR ''{''" "c \<noteq> CHR ''}''" "c \<noteq> CHR '':''"
    "c \<noteq> CHR '',''" "c \<noteq> CHR ''t''" "c \<noteq> CHR ''f''" "c \<noteq> CHR ''n''" "c \<noteq> CHR 0x22" "c \<noteq> CHR 0xEF"
    "\<not> is_space c"
    using c by (auto simp: is_space_def)
  obtain l1 where l1: "scan dbl l = scan_token dbl l1" "at l1 (Some c) (cs @ t)"
    using scan_at [of l c "cs @ t" dbl] assms(2) s other by auto
  have "reads (lx_add c (lx_reset l1)) (cs @ t)" using at_reads [OF l1(2)] by simp
  from number_loop_run [OF run assms(3) this] obtain l2 where
    l2: "number_loop label value_unsigned (lx_add c (lx_reset l1)) = (ty, l2)"
      "at l2 (hd_opt t) (tl t)" "lx_token_buffer l2 = s" using s by auto
  have "scan_token dbl l1 = scan_number dbl l1"
    using at_current [OF l1(2)] c other by (simp add: scan_token_def)
  also have "\<dots> = number_done dbl ty l2"
    using at_current [OF l1(2)] l2 num_run_type [OF run(1)] by (simp add: scan_number_def label_def [symmetric])
  finally show ?thesis using l1 l2 by auto
qed

lemma digits_run:
  "\<forall>d \<in> set ds. is_digit d \<Longrightarrow> num_run NAny1 ty ds = Some (NAny1, ty)"
  by (induction ds) (simp_all add: number_switch_defs number_type_at_def)

lemma digit_char:
  assumes "n < 10"
  shows "is_digit (char_of (48 + n :: nat))" "(of_char (char_of (48 + n :: nat)) :: int) = 48 + int n"
proof -
  have "\<forall>n \<in> {0..<10}. is_digit (char_of (48 + n :: nat)) \<and> (of_char (char_of (48 + n :: nat)) :: int) = 48 + int n"
    by code_simp
  with assms show "is_digit (char_of (48 + n :: nat))" "(of_char (char_of (48 + n :: nat)) :: int) = 48 + int n"
    by simp_all
qed

lemma nat_dec_digits:
  "\<exists>c cs. nat_dec n = c # cs \<and> is_digit c \<and> (\<forall>d \<in> set cs. is_digit d) \<and> (0 < n \<longrightarrow> c \<noteq> CHR ''0'')
     \<and> (n = 0 \<longrightarrow> nat_dec n = ''0'')"
proof (induction n rule: nat_dec.induct)
  case (1 n)
  show ?case
  proof (cases "n < 10")
    case True
    have "char_of (48 + n) \<noteq> CHR ''0''" if "0 < n"
    proof
      assume "char_of (48 + n) = CHR ''0''"
      then have "(of_char (char_of (48 + n)) :: nat) = of_char (CHR ''0'')" by simp
      with True that show False by simp
    qed
    moreover have "nat_dec 0 = ''0''" by code_simp
    moreover have "nat_dec n = [char_of (48 + n)]" using True by (subst nat_dec.simps) simp
    ultimately show ?thesis using digit_char(1) [OF True] by auto
  next
    case False
    then have "nat_dec n = nat_dec (n div 10) @ [char_of (48 + n mod 10)]"
      by (subst nat_dec.simps) simp
    then show ?thesis using 1 [OF False] False digit_char(1) [of "n mod 10"] by auto
  qed
qed

lemma digits_value_dec: "digits_value (nat_dec n) = int n"
proof (induction n rule: nat_dec.induct)
  case (1 n)
  then show ?case
    by (subst nat_dec.simps) (auto simp: digits_value_def digit_char(2) zdiv_int zmod_int)
qed

lemma number_text_dec:
  "number_text (nat_dec n) = Some value_unsigned"
  "0 < n \<Longrightarrow> number_text (CHR ''-'' # nat_dec n) = Some value_integer"
proof -
  obtain c cs where n: "nat_dec n = c # cs" "is_digit c" "\<forall>d \<in> set cs. is_digit d"
    "0 < n \<longrightarrow> c \<noteq> CHR ''0''" "n = 0 \<longrightarrow> nat_dec n = ''0''"
    using nat_dec_digits [of n] by (elim exE conjE) (rule that, assumption, rule conjI, assumption+)
  have "c \<noteq> CHR ''-''" using n(2) by auto
  then show "number_text (nat_dec n) = Some value_unsigned"
    using n digits_run [of cs value_unsigned]
    by (cases "n = 0") (simp_all add: number_text_def number_type_at_def)
  show "number_text (CHR ''-'' # nat_dec n) = Some value_integer" if "0 < n"
    using n that digits_run [of cs value_integer]
    by (simp add: number_text_def number_switch_defs number_type_at_def)
qed

lemma number_done_reads:
  assumes "at l (hd_opt t) (tl t)"
  shows "ty = value_float \<Longrightarrow> \<exists>l'. number_done dbl ty l = (value_float, l') \<and> reads l' t
           \<and> lx_value_float l' = dbl_strtod dbl (lx_token_buffer l)"
    and "ty = value_unsigned \<Longrightarrow> strtoull (lx_token_buffer l) = Some x \<Longrightarrow>
           \<exists>l'. number_done dbl ty l = (value_unsigned, l') \<and> reads l' t \<and> lx_value_unsigned l' = x"
    and "ty = value_integer \<Longrightarrow> strtoll (lx_token_buffer l) = Some x \<Longrightarrow>
           \<exists>l'. number_done dbl ty l = (value_integer, l') \<and> reads l' t \<and> lx_value_integer l' = x"
proof -
  have b: "lx_token_buffer (lx_unget l) = lx_token_buffer l" by (simp add: lx_unget_def Let_def)
  have "reads (lx_unget l\<lparr>lx_value_float := y\<rparr>) t" "reads (lx_unget l\<lparr>lx_value_unsigned := u\<rparr>) t"
    "reads (lx_unget l\<lparr>lx_value_integer := u\<rparr>) t" for y u
    using unget_reads_hd [OF assms] by (simp_all add: reads_def cong: option.case_cong)
  then show "ty = value_float \<Longrightarrow> \<exists>l'. number_done dbl ty l = (value_float, l') \<and> reads l' t
           \<and> lx_value_float l' = dbl_strtod dbl (lx_token_buffer l)"
    "ty = value_unsigned \<Longrightarrow> strtoull (lx_token_buffer l) = Some x \<Longrightarrow>
           \<exists>l'. number_done dbl ty l = (value_unsigned, l') \<and> reads l' t \<and> lx_value_unsigned l' = x"
    "ty = value_integer \<Longrightarrow> strtoll (lx_token_buffer l) = Some x \<Longrightarrow>
           \<exists>l'. number_done dbl ty l = (value_integer, l') \<and> reads l' t \<and> lx_value_integer l' = x"
    by (simp_all add: number_done_def b Let_def)
qed

subsection \<open>Literals and structure\<close>

lemma scan_literal_reads:
  "reads l (cs @ t) \<Longrightarrow> \<exists>l'. scan_literal cs ty l = (ty, l') \<and> reads l' t"
proof (induction cs arbitrary: l)
  case (Cons c cs)
  have g: "at (lx_get l) (Some c) (cs @ t)" using Cons.prems by (auto intro!: get_reads(1))
  from Cons.IH [OF at_reads [OF g]] show ?case using at_current [OF g] by simp
qed simp

lemma scan_literals:
  "reads l (''true'' @ t) \<Longrightarrow> \<exists>l'. scan dbl l = (literal_true, l') \<and> reads l' t"
  "reads l (''false'' @ t) \<Longrightarrow> \<exists>l'. scan dbl l = (literal_false, l') \<and> reads l' t"
  "reads l (''null'' @ t) \<Longrightarrow> \<exists>l'. scan dbl l = (literal_null, l') \<and> reads l' t"
proof -
  show "\<exists>l'. scan dbl l = (literal_true, l') \<and> reads l' t" if r: "reads l (''true'' @ t)"
  proof -
    obtain l1 where "scan dbl l = scan_token dbl l1" "at l1 (Some (CHR ''t'')) (''rue'' @ t)"
      using scan_at [of l "CHR ''t''" "''rue'' @ t"] r by (auto simp: is_space_def)
    then show ?thesis
      using scan_literal_reads [OF at_reads] by (simp add: at_current scan_token_def del: scan_literal.simps append_Cons)
  qed
  show "\<exists>l'. scan dbl l = (literal_false, l') \<and> reads l' t" if r: "reads l (''false'' @ t)"
  proof -
    obtain l1 where "scan dbl l = scan_token dbl l1" "at l1 (Some (CHR ''f'')) (''alse'' @ t)"
      using scan_at [of l "CHR ''f''" "''alse'' @ t"] r by (auto simp: is_space_def)
    then show ?thesis
      using scan_literal_reads [OF at_reads] by (simp add: at_current scan_token_def del: scan_literal.simps append_Cons)
  qed
  show "\<exists>l'. scan dbl l = (literal_null, l') \<and> reads l' t" if r: "reads l (''null'' @ t)"
  proof -
    obtain l1 where "scan dbl l = scan_token dbl l1" "at l1 (Some (CHR ''n'')) (''ull'' @ t)"
      using scan_at [of l "CHR ''n''" "''ull'' @ t"] r by (auto simp: is_space_def)
    then show ?thesis
      using scan_literal_reads [OF at_reads] by (simp add: at_current scan_token_def del: scan_literal.simps append_Cons)
  qed
qed

definition structural :: "char \<Rightarrow> token_type option" where
  "structural c = map_of [(CHR ''['', begin_array), (CHR '']'', end_array), (CHR ''{'', begin_object),
     (CHR ''}'', end_object), (CHR '':'', name_separator), (CHR '','', value_separator)] c"

lemma scan_structural:
  assumes "reads l (c # t)" "structural c = Some ty"
  shows "\<exists>l'. scan dbl l = (ty, l') \<and> reads l' t"
proof -
  have "c \<noteq> CHR 0xEF" "\<not> is_space c"
    using assms(2) by (auto simp: structural_def is_space_def split: if_splits)
  with scan_at [OF assms(1)] obtain l1 where "scan dbl l = scan_token dbl l1" "at l1 (Some c) t" by blast
  then show ?thesis
    using assms(2) at_reads
    by (auto simp: structural_def at_current scan_token_def split: if_splits)
qed

subsection \<open>The parser over a dumped value\<close>

text \<open>\<open>moved q t p\<close>: \<open>p\<close> is \<open>q\<close> with the lexer further on, before \<open>t\<close>.\<close>

definition moved :: "'f parser \<Rightarrow> string \<Rightarrow> 'f parser \<Rightarrow> bool" where
  "moved q t p \<longleftrightarrow> p = q\<lparr>ps_last_token := ps_last_token p, ps_lexer := ps_lexer p\<rparr> \<and> reads (ps_lexer p) t"

abbreviation next_reads :: "'f parser \<Rightarrow> string \<Rightarrow> bool" where
  "next_reads p t \<equiv> reads (ps_lexer p) t"

text \<open>What the loop does after a value.\<close>

definition cont :: "'f double_ops \<Rightarrow> 'f parser \<Rightarrow> json_error + 'f parser" where
  "cont dbl p =
     (case state_evaluation dbl p of
        Inl e \<Rightarrow> Inl e
      | Inr (True, p') \<Rightarrow> sax_parse_internal dbl p'
      | Inr (False, p') \<Rightarrow> Inr p')"

lemma sax_skip: "ps_skip p \<Longrightarrow> sax_parse_internal dbl p = cont dbl (p\<lparr>ps_skip := False\<rparr>)"
  by (subst sax_parse_internal.simps) (simp add: cont_def)

lemma sax_value:
  "\<not> ps_skip p \<Longrightarrow> value_switch dbl p = Inr (False, p') \<Longrightarrow> sax_parse_internal dbl p = cont dbl p'"
  "\<not> ps_skip p \<Longrightarrow> value_switch dbl p = Inr (True, p') \<Longrightarrow> sax_parse_internal dbl p = sax_parse_internal dbl p'"
  by (subst sax_parse_internal.simps, simp add: cont_def)+

lemma get_token_moved:
  assumes "scan dbl (ps_lexer q) = (ty, l)" "reads l t"
  shows "get_token dbl q = q\<lparr>ps_last_token := ty, ps_lexer := l\<rparr>" "moved q t (get_token dbl q)"
    "ps_last_token (get_token dbl q) = ty"
  using assms by (simp_all add: get_token_def moved_def)

lemma get_token_structural:
  assumes "next_reads q (c # t)" "structural c = Some ty"
  shows "moved q t (get_token dbl q)" "ps_last_token (get_token dbl q) = ty"
  using scan_structural [OF assms, of dbl] get_token_moved [of dbl q ty _ t] by blast+

lemma moved_reads: "moved q t p \<Longrightarrow> next_reads p t"
  by (simp add: moved_def)

lemma moved_fields:
  assumes "moved q t p"
  shows "ps_states p = ps_states q" "ps_ref_stack p = ps_ref_stack q" "ps_root p = ps_root q"
    "ps_skip p = ps_skip q"
  by (subst assms [unfolded moved_def, THEN conjunct1], simp)+

lemma moved_iff:
  "moved q t p \<longleftrightarrow> ps_states p = ps_states q \<and> ps_ref_stack p = ps_ref_stack q \<and> ps_root p = ps_root q
     \<and> ps_skip p = ps_skip q \<and> next_reads p t"
proof
  assume r: "ps_states p = ps_states q \<and> ps_ref_stack p = ps_ref_stack q \<and> ps_root p = ps_root q
     \<and> ps_skip p = ps_skip q \<and> next_reads p t"
  show "moved q t p" using r unfolding moved_def by (cases p; cases q) simp
qed (simp add: moved_fields moved_reads)

lemma handle_value_fields:
  "ps_root (handle_value v p) = (if ps_ref_stack p = [] then v else ps_root p)"
  "ps_ref_stack (handle_value v p) =
     (case ps_ref_stack p of
        [] \<Rightarrow> []
      | Open_Array vs # st \<Rightarrow> Open_Array (vs @ [v]) # st
      | Open_Object kvs k # st \<Rightarrow> Open_Object (map_put k v kvs) k # st)"
  by (simp_all add: handle_value_def split: list.split open_container.split)

lemma moved_handle_value:
  "moved q t p \<Longrightarrow> moved (handle_value v q) t (handle_value v p)"
  by (simp add: moved_iff handle_value_fields)

text \<open>\<open>parses dbl j s\<close>: reading \<open>s\<close> where a value is expected hands over \<open>j\<close> and goes on behind it.\<close>

definition parses :: "'f double_ops \<Rightarrow> 'f json \<Rightarrow> string \<Rightarrow> bool" where
  "parses dbl j s \<longleftrightarrow>
     (\<forall>q t. next_reads q (s @ t) \<longrightarrow> value_stop t \<longrightarrow> \<not> ps_skip q \<longrightarrow>
        ps_last_token (get_token dbl q) \<noteq> end_array
        \<and> (\<exists>p. sax_parse_internal dbl (get_token dbl q) = cont dbl p \<and> moved (handle_value j q) t p))"

lemma parses_leaf:
  assumes "\<And>l t. reads l (s @ t) \<Longrightarrow> value_stop t \<Longrightarrow>
      \<exists>ty l'. scan dbl l = (ty, l') \<and> reads l' t \<and> ty \<noteq> end_array
        \<and> (\<forall>p. ps_last_token p = ty \<longrightarrow> ps_lexer p = l' \<longrightarrow> value_switch dbl p = Inr (False, handle_value j p))"
  shows "parses dbl j s"
  unfolding parses_def
proof (intro allI impI)
  fix q :: "'a parser" and t
  assume q: "next_reads q (s @ t)" "value_stop t" "\<not> ps_skip q"
  from assms [OF q(1,2)] obtain ty l' where l': "scan dbl (ps_lexer q) = (ty, l')" "reads l' t" "ty \<noteq> end_array"
    "\<forall>p. ps_last_token p = ty \<longrightarrow> ps_lexer p = l' \<longrightarrow> value_switch dbl p = Inr (False, handle_value j p)" by blast
  let ?p = "get_token dbl q"
  have p: "?p = q\<lparr>ps_last_token := ty, ps_lexer := l'\<rparr>" "moved q t ?p"
    using get_token_moved [OF l'(1,2)] by simp_all
  have "value_switch dbl ?p = Inr (False, handle_value j ?p)" using l'(4) p(1) by simp
  moreover have "\<not> ps_skip ?p" using q(3) p(1) by simp
  ultimately have "sax_parse_internal dbl ?p = cont dbl (handle_value j ?p)" by (intro sax_value(1))
  then show "ps_last_token ?p \<noteq> end_array
      \<and> (\<exists>p. sax_parse_internal dbl ?p = cont dbl p \<and> moved (handle_value j q) t p)"
    using moved_handle_value [OF p(2)] p(1) l'(3) by auto
qed

lemma parses_literals:
  "parses dbl (JBoolean True) ''true''" "parses dbl (JBoolean False) ''false''" "parses dbl JNull ''null''"
proof -
  show "parses dbl (JBoolean True) ''true''"
    by (rule parses_leaf) (drule scan_literals(1) [where dbl = dbl], force simp: value_switch_def)
  show "parses dbl (JBoolean False) ''false''"
    by (rule parses_leaf) (drule scan_literals(2) [where dbl = dbl], force simp: value_switch_def)
  show "parses dbl JNull ''null''"
    by (rule parses_leaf) (drule scan_literals(3) [where dbl = dbl], force simp: value_switch_def)
qed

lemma parses_string: "utf8 s \<Longrightarrow> parses dbl (JString s) (CHR 0x22 # json_escape s @ [CHR 0x22])"
proof (rule parses_leaf)
  fix l :: "'a lexer" and t
  assume s: "utf8 s" and r: "reads l ((CHR 0x22 # json_escape s @ [CHR 0x22]) @ t)"
  from r have "reads l (CHR 0x22 # json_escape s @ CHR 0x22 # t)" by simp
  from scan_quoted [OF s this, of dbl] obtain l' where
    "scan dbl l = (value_string, l')" "reads l' t" "lx_token_buffer l' = s" by blast
  then show "\<exists>ty l'. scan dbl l = (ty, l') \<and> reads l' t \<and> ty \<noteq> end_array
        \<and> (\<forall>p. ps_last_token p = ty \<longrightarrow> ps_lexer p = l' \<longrightarrow> value_switch dbl p = Inr (False, handle_value (JString s) p))"
    by (simp add: value_switch_def)
qed

lemma parses_unsigned:
  assumes "0 \<le> n" "n < 2 ^ 64"
  shows "parses dbl (JUnsigned n) (int_dec n)"
proof (rule parses_leaf)
  fix l :: "'a lexer" and t assume r: "reads l (int_dec n @ t)" "value_stop t"
  have dec: "number_text (int_dec n) = Some value_unsigned" "strtoull (int_dec n) = Some n"
    using assms number_text_dec(1) by (simp_all add: int_dec_def strtoull_def digits_value_dec)
  obtain l1 where "scan dbl l = number_done dbl value_unsigned l1" "at l1 (hd_opt t) (tl t)"
    "lx_token_buffer l1 = int_dec n"
    using scan_number_text [OF dec(1) r] by blast
  with number_done_reads(2) [of l1 t value_unsigned n dbl] dec(2)
  show "\<exists>ty l'. scan dbl l = (ty, l') \<and> reads l' t \<and> ty \<noteq> end_array
        \<and> (\<forall>p. ps_last_token p = ty \<longrightarrow> ps_lexer p = l' \<longrightarrow> value_switch dbl p = Inr (False, handle_value (JUnsigned n) p))"
    by (force simp: value_switch_def)
qed

lemma parses_integer:
  assumes "- (2 ^ 63) \<le> n" "n < 0"
  shows "parses dbl (JInteger n) (int_dec n)"
proof (rule parses_leaf)
  fix l :: "'a lexer" and t assume r: "reads l (int_dec n @ t)" "value_stop t"
  have dec: "number_text (int_dec n) = Some value_integer" "strtoll (int_dec n) = Some n"
    using assms number_text_dec(2) [of "nat (- n)"] by (simp_all add: int_dec_def strtoll_def digits_value_dec)
  obtain l1 where "scan dbl l = number_done dbl value_integer l1" "at l1 (hd_opt t) (tl t)"
    "lx_token_buffer l1 = int_dec n"
    using scan_number_text [OF dec(1) r] by blast
  with number_done_reads(3) [of l1 t value_integer n dbl] dec(2)
  show "\<exists>ty l'. scan dbl l = (ty, l') \<and> reads l' t \<and> ty \<noteq> end_array
        \<and> (\<forall>p. ps_last_token p = ty \<longrightarrow> ps_lexer p = l' \<longrightarrow> value_switch dbl p = Inr (False, handle_value (JInteger n) p))"
    by (force simp: value_switch_def)
qed

text \<open>A double whose text is a float literal that reads back as itself.\<close>

definition float_text :: "'f double_ops \<Rightarrow> 'f \<Rightarrow> bool" where
  "float_text dbl x \<longleftrightarrow> dbl_isfinite dbl x \<and> number_text (dbl_to_chars dbl x) = Some value_float
     \<and> dbl_strtod dbl (dbl_to_chars dbl x) = x"

lemma parses_float:
  assumes "float_text dbl x"
  shows "parses dbl (JFloat x) (dbl_to_chars dbl x)"
proof (rule parses_leaf)
  fix l :: "'a lexer" and t assume r: "reads l (dbl_to_chars dbl x @ t)" "value_stop t"
  obtain l1 where "scan dbl l = number_done dbl value_float l1" "at l1 (hd_opt t) (tl t)"
    "lx_token_buffer l1 = dbl_to_chars dbl x"
    using scan_number_text [OF _ r] assms by (auto simp: float_text_def)
  with number_done_reads(1) [of l1 t value_float dbl] assms
  show "\<exists>ty l'. scan dbl l = (ty, l') \<and> reads l' t \<and> ty \<noteq> end_array
        \<and> (\<forall>p. ps_last_token p = ty \<longrightarrow> ps_lexer p = l' \<longrightarrow> value_switch dbl p = Inr (False, handle_value (JFloat x) p))"
    by (force simp: value_switch_def float_text_def)
qed

subsection \<open>Arrays\<close>

definition parses_elems :: "'f double_ops \<Rightarrow> 'f json list \<Rightarrow> string \<Rightarrow> bool" where
  "parses_elems dbl vs s \<longleftrightarrow>
     (\<forall>q t ws st outer. next_reads q (s @ CHR '']'' # t) \<longrightarrow> \<not> ps_skip q \<longrightarrow>
        ps_ref_stack q = Open_Array ws # st \<longrightarrow> ps_states q = True # outer \<longrightarrow>
        ps_last_token (get_token dbl q) \<noteq> end_array
        \<and> (\<exists>p. sax_parse_internal dbl (get_token dbl q) = cont dbl p
              \<and> moved (handle_value (JArray (ws @ vs)) (q\<lparr>ps_ref_stack := st, ps_states := outer\<rparr>)) t p))"

lemma structural_simps:
  "structural (CHR ''['') = Some begin_array" "structural (CHR '']'') = Some end_array"
  "structural (CHR ''{'') = Some begin_object" "structural (CHR ''}'') = Some end_object"
  "structural (CHR '':'') = Some name_separator" "structural (CHR '','') = Some value_separator"
  by (simp_all add: structural_def)

text \<open>Closing a container.\<close>

lemma cont_close:
  assumes "next_reads p (c # t)" "c = (if arr then CHR '']'' else CHR ''}'')"
    "ps_states p = arr # outer" "\<not> ps_skip p"
    "ps_ref_stack p = (if arr then Open_Array vs else Open_Object kvs k) # st"
    "j = (if arr then JArray vs else JObject kvs)"
  shows "\<exists>p'. cont dbl p = cont dbl p' \<and> moved (handle_value j (p\<lparr>ps_ref_stack := st, ps_states := outer\<rparr>)) t p'"
proof -
  define p1 where "p1 = get_token dbl p"
  have "structural c = Some (if arr then end_array else end_object)" using assms(2) by (simp add: structural_simps)
  from get_token_structural [OF assms(1) this, of dbl]
  have p1: "moved p t p1" "ps_last_token p1 = (if arr then end_array else end_object)"
    by (simp_all add: p1_def)
  let ?p' = "(end_container p1)\<lparr>ps_states := outer, ps_skip := False\<rparr>"
  have "state_evaluation dbl p = Inr (True, (end_container p1)\<lparr>ps_states := outer, ps_skip := True\<rparr>)"
    using assms(3) p1 by (cases arr) (simp_all add: state_evaluation_def p1_def [symmetric] Let_def)
  then have "cont dbl p = cont dbl ?p'"
    using sax_skip [of "(end_container p1)\<lparr>ps_states := outer, ps_skip := True\<rparr>" dbl] by (simp add: cont_def [of dbl p])
  moreover have "moved (handle_value j (p\<lparr>ps_ref_stack := st, ps_states := outer\<rparr>)) t ?p'"
    using p1(1) assms(4-6) unfolding moved_iff
    by (cases arr) (simp_all add: end_container_def handle_value_fields)
  ultimately show ?thesis by blast
qed

lemma parses_elem_single:
  assumes "parses dbl v s"
  shows "parses_elems dbl [v] s"
  unfolding parses_elems_def
proof (intro allI impI)
  fix q :: "'a parser" and t ws st outer
  assume q: "next_reads q (s @ CHR '']'' # t)" "\<not> ps_skip q" "ps_ref_stack q = Open_Array ws # st"
    "ps_states q = True # outer"
  obtain p where p: "ps_last_token (get_token dbl q) \<noteq> end_array"
    "sax_parse_internal dbl (get_token dbl q) = cont dbl p" "moved (handle_value v q) (CHR '']'' # t) p"
    using assms q(1,2) unfolding parses_def value_stop_def by fastforce
  have fields: "ps_states p = True # outer" "\<not> ps_skip p" "ps_ref_stack p = Open_Array (ws @ [v]) # st"
    using p(3) q unfolding moved_iff by (simp_all add: handle_value_fields)
  obtain p' where "cont dbl p = cont dbl p'"
    "moved (handle_value (JArray (ws @ [v])) (p\<lparr>ps_ref_stack := st, ps_states := outer\<rparr>)) t p'"
    using cont_close [OF moved_reads [OF p(3)], of True outer "ws @ [v]" "[]" "[]" st "JArray (ws @ [v])"] fields
    by auto
  moreover then have "moved (handle_value (JArray (ws @ [v])) (q\<lparr>ps_ref_stack := st, ps_states := outer\<rparr>)) t p'"
    using p(3) q(3) unfolding moved_iff by (simp add: handle_value_fields)
  ultimately show "ps_last_token (get_token dbl q) \<noteq> end_array
        \<and> (\<exists>p. sax_parse_internal dbl (get_token dbl q) = cont dbl p
              \<and> moved (handle_value (JArray (ws @ [v])) (q\<lparr>ps_ref_stack := st, ps_states := outer\<rparr>)) t p)"
    using p(1,2) by auto
qed

lemma parses_elem_Cons:
  assumes "parses dbl v s1" "parses_elems dbl vs s2"
  shows "parses_elems dbl (v # vs) (s1 @ CHR '','' # s2)"
  unfolding parses_elems_def
proof (intro allI impI)
  fix q :: "'a parser" and t ws st outer
  assume q: "next_reads q ((s1 @ CHR '','' # s2) @ CHR '']'' # t)" "\<not> ps_skip q"
    "ps_ref_stack q = Open_Array ws # st" "ps_states q = True # outer"
  have stop: "value_stop (CHR '','' # s2 @ CHR '']'' # t)" by (simp add: value_stop_def)
  obtain p where p: "ps_last_token (get_token dbl q) \<noteq> end_array"
    "sax_parse_internal dbl (get_token dbl q) = cont dbl p"
    "moved (handle_value v q) (CHR '','' # s2 @ CHR '']'' # t) p"
    using assms(1) [unfolded parses_def, rule_format, of q "CHR '','' # s2 @ CHR '']'' # t"] q(1,2) stop by auto
  define p1 where "p1 = get_token dbl p"
  have p1: "moved p (s2 @ CHR '']'' # t) p1" "ps_last_token p1 = value_separator"
    using get_token_structural [OF moved_reads [OF p(3)] structural_simps(6), of dbl] by (simp_all add: p1_def)
  have fields: "ps_states p1 = True # outer" "\<not> ps_skip p1" "ps_ref_stack p1 = Open_Array (ws @ [v]) # st"
    "ps_root p1 = ps_root q"
    using p(3) p1(1) q unfolding moved_iff by (simp_all add: handle_value_fields)
  have "ps_states p = True # outer" using p1(1) fields unfolding moved_iff by simp
  then have "cont dbl p = sax_parse_internal dbl (get_token dbl p1)"
    using p1(2) by (simp add: cont_def state_evaluation_def p1_def [symmetric] Let_def)
  moreover obtain p' where "sax_parse_internal dbl (get_token dbl p1) = cont dbl p'"
    "moved (handle_value (JArray ((ws @ [v]) @ vs)) (p1\<lparr>ps_ref_stack := st, ps_states := outer\<rparr>)) t p'"
    using assms(2) [unfolded parses_elems_def, rule_format, OF moved_reads [OF p1(1)] fields(2,3,1)] by blast
  moreover then have "moved (handle_value (JArray (ws @ v # vs)) (q\<lparr>ps_ref_stack := st, ps_states := outer\<rparr>)) t p'"
    using fields q(2) unfolding moved_iff by (simp add: handle_value_fields)
  ultimately show "ps_last_token (get_token dbl q) \<noteq> end_array
        \<and> (\<exists>p. sax_parse_internal dbl (get_token dbl q) = cont dbl p
              \<and> moved (handle_value (JArray (ws @ v # vs)) (q\<lparr>ps_ref_stack := st, ps_states := outer\<rparr>)) t p)"
    using p(1,2) by auto
qed

text \<open>Reading a token does not look at the states of the parser.\<close>

lemma get_token_upd:
  "get_token dbl (p\<lparr>ps_states := ss\<rparr>) = (get_token dbl p)\<lparr>ps_states := ss\<rparr>"
  "get_token dbl (p\<lparr>ps_ref_stack := st\<rparr>) = (get_token dbl p)\<lparr>ps_ref_stack := st\<rparr>"
  by (simp_all add: get_token_def split: prod.split)

lemma parses_array_Nil: "parses dbl (JArray []) ''[]''"
  unfolding parses_def
proof (intro allI impI)
  fix q :: "'a parser" and t
  assume q: "next_reads q (''[]'' @ t)" "value_stop t" "\<not> ps_skip q"
  define p0 where "p0 = get_token dbl q"
  have p0: "moved q (CHR '']'' # t) p0" "ps_last_token p0 = begin_array"
    using get_token_structural [of q "CHR ''[''" "CHR '']'' # t" begin_array dbl] q(1) structural_simps
    by (simp_all add: p0_def)
  define p1 where "p1 = get_token dbl (start_array p0)"
  have "next_reads (start_array p0) (CHR '']'' # t)" using moved_reads [OF p0(1)] by simp
  from get_token_structural [OF this structural_simps(2), of dbl]
  have p1: "moved (start_array p0) t p1" "ps_last_token p1 = end_array" by (simp_all add: p1_def)
  have "value_switch dbl p0 = Inr (False, end_container p1)"
    using p0(2) p1(2) by (simp add: value_switch_def p1_def [symmetric] Let_def)
  then have "sax_parse_internal dbl p0 = cont dbl (end_container p1)"
    using p0(1) q(3) unfolding moved_iff by (intro sax_value(1)) simp_all
  moreover have "moved (handle_value (JArray []) q) t (end_container p1)"
    using p0(1) p1(1) unfolding moved_iff
    by (simp add: start_array_def end_container_def handle_value_fields)
  ultimately show "ps_last_token (get_token dbl q) \<noteq> end_array
      \<and> (\<exists>p. sax_parse_internal dbl (get_token dbl q) = cont dbl p \<and> moved (handle_value (JArray []) q) t p)"
    using p0(2) by (auto simp: p0_def [symmetric])
qed

lemma parses_array:
  assumes "parses_elems dbl vs s"
  shows "parses dbl (JArray vs) (CHR ''['' # s @ '']'')"
  unfolding parses_def
proof (intro allI impI)
  fix q :: "'a parser" and t
  assume q: "next_reads q ((CHR ''['' # s @ '']'') @ t)" "value_stop t" "\<not> ps_skip q"
  define p0 where "p0 = get_token dbl q"
  have p0: "moved q (s @ CHR '']'' # t) p0" "ps_last_token p0 = begin_array"
    using get_token_structural [of q "CHR ''[''" "s @ CHR '']'' # t" begin_array dbl] q(1) structural_simps
    by (simp_all add: p0_def)
  define q1 where "q1 = (start_array p0)\<lparr>ps_states := True # ps_states q\<rparr>"
  have q1: "next_reads q1 (s @ CHR '']'' # t)" "\<not> ps_skip q1" "ps_ref_stack q1 = Open_Array [] # ps_ref_stack q"
    "ps_states q1 = True # ps_states q"
    using p0(1) q(3) unfolding moved_iff q1_def by (simp_all add: start_array_def)
  obtain p where p: "ps_last_token (get_token dbl q1) \<noteq> end_array"
    "sax_parse_internal dbl (get_token dbl q1) = cont dbl p"
    "moved (handle_value (JArray vs) (q1\<lparr>ps_ref_stack := ps_ref_stack q, ps_states := ps_states q\<rparr>)) t p"
    using assms [unfolded parses_elems_def, rule_format, OF q1] by auto
  have st: "ps_states (start_array p0) = ps_states q" "ps_states (get_token dbl (start_array p0)) = ps_states q"
    using p0(1) unfolding moved_iff by (simp_all add: get_token_def split: prod.split)
  have t1: "get_token dbl q1 = (get_token dbl (start_array p0))\<lparr>ps_states := True # ps_states q\<rparr>"
    by (simp add: q1_def get_token_upd)
  then have "value_switch dbl p0 = Inr (True, get_token dbl q1)"
    using p0(2) p(1) st by (simp add: value_switch_def Let_def)
  then have "sax_parse_internal dbl p0 = cont dbl p"
    using p0(1) q(3) p(2) sax_value(2) [of p0 dbl "get_token dbl q1"] unfolding moved_iff by simp
  moreover have "moved (handle_value (JArray vs) q) t p"
    using p(3) p0(1) unfolding moved_iff q1_def by (simp add: handle_value_fields start_array_def)
  ultimately show "ps_last_token (get_token dbl q) \<noteq> end_array
      \<and> (\<exists>p. sax_parse_internal dbl (get_token dbl q) = cont dbl p \<and> moved (handle_value (JArray vs) q) t p)"
    using p0(2) by (auto simp: p0_def [symmetric])
qed

subsection \<open>Objects\<close>

text \<open>The tokens of a key and its colon.\<close>

definition key_step :: "'f double_ops \<Rightarrow> 'f parser \<Rightarrow> 'f parser" where
  "key_step dbl q = get_token dbl (sax_key (get_token dbl q))"

lemma key_step_upd: "key_step dbl (p\<lparr>ps_states := ss\<rparr>) = (key_step dbl p)\<lparr>ps_states := ss\<rparr>"
proof -
  have "sax_key (p\<lparr>ps_states := ss\<rparr>) = (sax_key p)\<lparr>ps_states := ss\<rparr>" for p :: "'a parser"
    by (simp add: sax_key_def split: list.split open_container.split)
  then show ?thesis by (simp add: key_step_def get_token_upd)
qed

lemma key_step_reads:
  assumes "utf8 k" "next_reads q (CHR 0x22 # json_escape k @ CHR 0x22 # CHR '':'' # t)"
    "ps_ref_stack q = Open_Object kvs k0 # st"
  shows "ps_last_token (get_token dbl q) = value_string" "ps_last_token (key_step dbl q) = name_separator"
    "moved (q\<lparr>ps_ref_stack := Open_Object kvs k # st\<rparr>) t (key_step dbl q)"
proof -
  obtain l where l: "scan dbl (ps_lexer q) = (value_string, l)" "reads l (CHR '':'' # t)" "lx_token_buffer l = k"
    using scan_quoted [OF assms(1,2)] by blast
  show "ps_last_token (get_token dbl q) = value_string" using get_token_moved [OF l(1,2)] by simp
  let ?p = "sax_key (get_token dbl q)"
  have p: "moved (q\<lparr>ps_ref_stack := Open_Object kvs k # st\<rparr>) (CHR '':'' # t) ?p"
    using get_token_moved [OF l(1,2)] assms(3) l unfolding moved_iff by (simp add: sax_key_def)
  from get_token_structural [OF moved_reads [OF this] structural_simps(5), of dbl]
  show "ps_last_token (key_step dbl q) = name_separator"
    "moved (q\<lparr>ps_ref_stack := Open_Object kvs k # st\<rparr>) t (key_step dbl q)"
    using p unfolding moved_iff key_step_def by simp_all
qed

definition parses_members :: "'f double_ops \<Rightarrow> (string \<times> 'f json) list \<Rightarrow> string \<Rightarrow> bool" where
  "parses_members dbl mem s \<longleftrightarrow>
     (\<forall>q t acc k0 st outer. next_reads q (s @ CHR ''}'' # t) \<longrightarrow> \<not> ps_skip q \<longrightarrow>
        ps_ref_stack q = Open_Object acc k0 # st \<longrightarrow> ps_states q = False # outer \<longrightarrow>
        sorted_wrt (<) (map fst (acc @ mem)) \<longrightarrow>
        ps_last_token (get_token dbl q) = value_string \<and> ps_last_token (key_step dbl q) = name_separator
        \<and> (\<exists>p. sax_parse_internal dbl (get_token dbl (key_step dbl q)) = cont dbl p
              \<and> moved (handle_value (JObject (acc @ mem)) (q\<lparr>ps_ref_stack := st, ps_states := outer\<rparr>)) t p))"

text \<open>One member: after its value the parser stands behind it, the member in place.\<close>

lemma parses_member:
  assumes "utf8 k" "parses dbl v s"
    "next_reads q (CHR 0x22 # json_escape k @ CHR 0x22 # CHR '':'' # s @ t)" "value_stop t" "\<not> ps_skip q"
    "ps_ref_stack q = Open_Object acc k0 # st" "sorted_wrt (<) (map fst (acc @ (k, v) # mem))"
  shows "\<exists>p. sax_parse_internal dbl (get_token dbl (key_step dbl q)) = cont dbl p
           \<and> moved (q\<lparr>ps_ref_stack := Open_Object (acc @ [(k, v)]) k # st\<rparr>) t p"
proof -
  have k: "moved (q\<lparr>ps_ref_stack := Open_Object acc k # st\<rparr>) (s @ t) (key_step dbl q)"
    using key_step_reads(3) [OF assms(1,3,6)] .
  then have "\<not> ps_skip (key_step dbl q)" using assms(5) unfolding moved_iff by simp
  from assms(2) [unfolded parses_def, rule_format, OF moved_reads [OF k] assms(4) this] obtain p where
    p: "sax_parse_internal dbl (get_token dbl (key_step dbl q)) = cont dbl p"
      "moved (handle_value v (key_step dbl q)) t p" by blast
  have "map_put k v acc = acc @ [(k, v)]"
    using assms(7) by (intro map_put_last) (auto simp: sorted_wrt_append)
  then have "moved (q\<lparr>ps_ref_stack := Open_Object (acc @ [(k, v)]) k # st\<rparr>) t p"
    using p(2) k assms(5,6) unfolding moved_iff by (simp add: handle_value_fields)
  with p(1) show ?thesis by blast
qed

lemma parses_member_single:
  assumes "utf8 k" "parses dbl v s"
  shows "parses_members dbl [(k, v)] (CHR 0x22 # json_escape k @ CHR 0x22 # CHR '':'' # s)"
  unfolding parses_members_def
proof (intro allI impI)
  fix q :: "'a parser" and t acc k0 st outer
  assume q0: "next_reads q ((CHR 0x22 # json_escape k @ CHR 0x22 # CHR '':'' # s) @ CHR ''}'' # t)" "\<not> ps_skip q"
    "ps_ref_stack q = Open_Object acc k0 # st" "ps_states q = False # outer"
    "sorted_wrt (<) (map fst (acc @ [(k, v)]))"
  then have q: "next_reads q (CHR 0x22 # json_escape k @ CHR 0x22 # CHR '':'' # s @ CHR ''}'' # t)" by simp
  have stop: "value_stop (CHR ''}'' # t)" by (simp add: value_stop_def)
  obtain p where p: "sax_parse_internal dbl (get_token dbl (key_step dbl q)) = cont dbl p"
    "moved (q\<lparr>ps_ref_stack := Open_Object (acc @ [(k, v)]) k # st\<rparr>) (CHR ''}'' # t) p"
    using parses_member [OF assms q stop q0(2,3,5)] by blast
  have f: "ps_states p = False # outer" "\<not> ps_skip p" "ps_ref_stack p = Open_Object (acc @ [(k, v)]) k # st"
    using p(2) q0 unfolding moved_iff by simp_all
  obtain p' where "cont dbl p = cont dbl p'"
    "moved (handle_value (JObject (acc @ [(k, v)])) (p\<lparr>ps_ref_stack := st, ps_states := outer\<rparr>)) t p'"
    using cont_close [OF moved_reads [OF p(2)], of False outer "[]" "acc @ [(k, v)]" k st "JObject (acc @ [(k, v)])"] f
    by auto
  moreover then have "moved (handle_value (JObject (acc @ [(k, v)])) (q\<lparr>ps_ref_stack := st, ps_states := outer\<rparr>)) t p'"
    using p(2) unfolding moved_iff by (simp add: handle_value_fields)
  ultimately show "ps_last_token (get_token dbl q) = value_string \<and> ps_last_token (key_step dbl q) = name_separator
        \<and> (\<exists>p. sax_parse_internal dbl (get_token dbl (key_step dbl q)) = cont dbl p
              \<and> moved (handle_value (JObject (acc @ [(k, v)])) (q\<lparr>ps_ref_stack := st, ps_states := outer\<rparr>)) t p)"
    using key_step_reads(1,2) [OF assms(1) q q0(3)] p(1) by auto
qed

lemma parses_member_Cons:
  assumes "utf8 k" "parses dbl v s" "parses_members dbl mem s2"
  shows "parses_members dbl ((k, v) # mem) ((CHR 0x22 # json_escape k @ CHR 0x22 # CHR '':'' # s) @ CHR '','' # s2)"
  unfolding parses_members_def
proof (intro allI impI)
  fix q :: "'a parser" and t acc k0 st outer
  assume q0: "next_reads q (((CHR 0x22 # json_escape k @ CHR 0x22 # CHR '':'' # s) @ CHR '','' # s2) @ CHR ''}'' # t)"
    "\<not> ps_skip q" "ps_ref_stack q = Open_Object acc k0 # st" "ps_states q = False # outer"
    "sorted_wrt (<) (map fst (acc @ (k, v) # mem))"
  then have q: "next_reads q (CHR 0x22 # json_escape k @ CHR 0x22 # CHR '':'' # s @ CHR '','' # s2 @ CHR ''}'' # t)"
    by simp
  have stop: "value_stop (CHR '','' # s2 @ CHR ''}'' # t)" by (simp add: value_stop_def)
  obtain p where p: "sax_parse_internal dbl (get_token dbl (key_step dbl q)) = cont dbl p"
    "moved (q\<lparr>ps_ref_stack := Open_Object (acc @ [(k, v)]) k # st\<rparr>) (CHR '','' # s2 @ CHR ''}'' # t) p"
    using parses_member [OF assms(1,2) q stop q0(2,3,5)] by blast
  define p1 where "p1 = get_token dbl p"
  have p1: "moved p (s2 @ CHR ''}'' # t) p1" "ps_last_token p1 = value_separator"
    using get_token_structural [OF moved_reads [OF p(2)] structural_simps(6), of dbl] by (simp_all add: p1_def)
  have f: "ps_states p1 = False # outer" "ps_states p = False # outer" "\<not> ps_skip p1"
    "ps_ref_stack p1 = Open_Object (acc @ [(k, v)]) k # st" "ps_root p1 = ps_root q"
    using p(2) p1(1) q0 unfolding moved_iff by simp_all
  have "sorted_wrt (<) (map fst ((acc @ [(k, v)]) @ mem))" using q0(5) by simp
  from assms(3) [unfolded parses_members_def, rule_format, OF moved_reads [OF p1(1)] f(3,4,1) this]
  obtain p' where p': "ps_last_token (get_token dbl p1) = value_string"
    "ps_last_token (key_step dbl p1) = name_separator"
    "sax_parse_internal dbl (get_token dbl (key_step dbl p1)) = cont dbl p'"
    "moved (handle_value (JObject ((acc @ [(k, v)]) @ mem)) (p1\<lparr>ps_ref_stack := st, ps_states := outer\<rparr>)) t p'"
    by blast
  have "state_evaluation dbl p = Inr (True, get_token dbl (key_step dbl p1))"
    using p1(2) p'(1,2) f(2) by (simp add: state_evaluation_def p1_def [symmetric] key_step_def Let_def)
  then have "cont dbl p = cont dbl p'" using p'(3) by (simp add: cont_def [of dbl p])
  moreover have "moved (handle_value (JObject (acc @ (k, v) # mem)) (q\<lparr>ps_ref_stack := st, ps_states := outer\<rparr>)) t p'"
    using p'(4) f q0(2) unfolding moved_iff by (simp add: handle_value_fields)
  ultimately show "ps_last_token (get_token dbl q) = value_string \<and> ps_last_token (key_step dbl q) = name_separator
        \<and> (\<exists>p. sax_parse_internal dbl (get_token dbl (key_step dbl q)) = cont dbl p
              \<and> moved (handle_value (JObject (acc @ (k, v) # mem)) (q\<lparr>ps_ref_stack := st, ps_states := outer\<rparr>)) t p)"
    using key_step_reads(1,2) [OF assms(1) q q0(3)] p(1) by auto
qed

lemma parses_object_Nil: "parses dbl (JObject []) ''{}''"
  unfolding parses_def
proof (intro allI impI)
  fix q :: "'a parser" and t
  assume q: "next_reads q (''{}'' @ t)" "value_stop t" "\<not> ps_skip q"
  define p0 where "p0 = get_token dbl q"
  have p0: "moved q (CHR ''}'' # t) p0" "ps_last_token p0 = begin_object"
    using get_token_structural [of q "CHR ''{''" "CHR ''}'' # t" begin_object dbl] q(1) structural_simps
    by (simp_all add: p0_def)
  define p1 where "p1 = get_token dbl (start_object p0)"
  have "next_reads (start_object p0) (CHR ''}'' # t)" using moved_reads [OF p0(1)] by simp
  from get_token_structural [OF this structural_simps(4), of dbl]
  have p1: "moved (start_object p0) t p1" "ps_last_token p1 = end_object" by (simp_all add: p1_def)
  have "value_switch dbl p0 = Inr (False, end_container p1)"
    using p0(2) p1(2) by (simp add: value_switch_def p1_def [symmetric] Let_def)
  then have "sax_parse_internal dbl p0 = cont dbl (end_container p1)"
    using p0(1) q(3) unfolding moved_iff by (intro sax_value(1)) simp_all
  moreover have "moved (handle_value (JObject []) q) t (end_container p1)"
    using p0(1) p1(1) unfolding moved_iff
    by (simp add: start_object_def end_container_def handle_value_fields)
  ultimately show "ps_last_token (get_token dbl q) \<noteq> end_array
      \<and> (\<exists>p. sax_parse_internal dbl (get_token dbl q) = cont dbl p \<and> moved (handle_value (JObject []) q) t p)"
    using p0(2) by (auto simp: p0_def [symmetric])
qed

lemma parses_object:
  assumes "parses_members dbl mem s" "sorted_wrt (<) (map fst mem)"
  shows "parses dbl (JObject mem) (CHR ''{'' # s @ ''}'')"
  unfolding parses_def
proof (intro allI impI)
  fix q :: "'a parser" and t
  assume q: "next_reads q ((CHR ''{'' # s @ ''}'') @ t)" "value_stop t" "\<not> ps_skip q"
  define p0 where "p0 = get_token dbl q"
  have p0: "moved q (s @ CHR ''}'' # t) p0" "ps_last_token p0 = begin_object"
    using get_token_structural [of q "CHR ''{''" "s @ CHR ''}'' # t" begin_object dbl] q(1) structural_simps
    by (simp_all add: p0_def)
  define q1 where "q1 = (start_object p0)\<lparr>ps_states := False # ps_states q\<rparr>"
  have q1: "next_reads q1 (s @ CHR ''}'' # t)" "\<not> ps_skip q1" "ps_ref_stack q1 = Open_Object [] [] # ps_ref_stack q"
    "ps_states q1 = False # ps_states q" "sorted_wrt (<) (map fst ([] @ mem))"
    using p0(1) q(3) assms(2) unfolding moved_iff q1_def by (simp_all add: start_object_def)
  obtain p where p: "ps_last_token (get_token dbl q1) = value_string" "ps_last_token (key_step dbl q1) = name_separator"
    "sax_parse_internal dbl (get_token dbl (key_step dbl q1)) = cont dbl p"
    "moved (handle_value (JObject mem) (q1\<lparr>ps_ref_stack := ps_ref_stack q, ps_states := ps_states q\<rparr>)) t p"
    using assms(1) [unfolded parses_members_def, rule_format, OF q1] by auto
  have k1: "get_token dbl q1 = (get_token dbl (start_object p0))\<lparr>ps_states := False # ps_states q\<rparr>"
    "key_step dbl q1 = (key_step dbl (start_object p0))\<lparr>ps_states := False # ps_states q\<rparr>"
    by (simp_all add: q1_def get_token_upd key_step_upd)
  have st: "ps_states (key_step dbl (start_object p0)) = ps_states q"
    using p0(1) unfolding moved_iff by (simp add: key_step_def get_token_def split: prod.split)
  have "value_switch dbl p0 = Inr (True, get_token dbl (key_step dbl q1))"
    using p0(2) p(1,2) st k1 by (simp add: value_switch_def key_step_def Let_def)
  then have "sax_parse_internal dbl p0 = cont dbl p"
    using p0(1) q(3) p(3) sax_value(2) [of p0 dbl "get_token dbl (key_step dbl q1)"] unfolding moved_iff by simp
  moreover have "moved (handle_value (JObject mem) q) t p"
    using p(4) p0(1) unfolding moved_iff q1_def by (simp add: handle_value_fields start_object_def)
  ultimately show "ps_last_token (get_token dbl q) \<noteq> end_array
      \<and> (\<exists>p. sax_parse_internal dbl (get_token dbl q) = cont dbl p \<and> moved (handle_value (JObject mem) q) t p)"
    using p0(2) by (auto simp: p0_def [symmetric])
qed

subsection \<open>The round trip\<close>

text \<open>
  The values that survive: strings are UTF-8, negative integers are signed and the others unsigned,
  as the parser classifies them, both within 64 bits; an object's keys ascend, as in its \<open>std::map\<close>;
  a double's text is a float literal that reads back.
\<close>

fun canonical :: "'f double_ops \<Rightarrow> 'f json \<Rightarrow> bool" where
  "canonical dbl JNull = True"
| "canonical dbl (JBoolean b) = True"
| "canonical dbl (JString s) = utf8 s"
| "canonical dbl (JInteger n) = (- (2 ^ 63) \<le> n \<and> n < 0)"
| "canonical dbl (JUnsigned n) = (0 \<le> n \<and> n < 2 ^ 64)"
| "canonical dbl (JFloat x) = float_text dbl x"
| "canonical dbl (JArray vs) = (\<forall>v \<in> set vs. canonical dbl v)"
| "canonical dbl (JObject kvs) =
     (sorted_wrt (<) (map fst kvs) \<and> (\<forall>kv \<in> set kvs. utf8 (fst kv) \<and> canonical dbl (snd kv)))"

lemma dump_elements_parses:
  assumes "vs \<noteq> []" "\<forall>v \<in> set vs. \<exists>s. dump_value dbl strict False v = Inr s \<and> parses dbl v s"
  shows "\<exists>s. dump_elements dbl strict False vs = Inr s \<and> parses_elems dbl vs s"
  using assms
proof (induction vs)
  case (Cons v vs)
  then obtain s where s: "dump_value dbl strict False v = Inr s" "parses dbl v s" by auto
  show ?case
  proof (cases "vs = []")
    case True
    with s show ?thesis using parses_elem_single [OF s(2)] by simp
  next
    case False
    with Cons obtain s2 where "dump_elements dbl strict False vs = Inr s2" "parses_elems dbl vs s2" by auto
    with s False show ?thesis using parses_elem_Cons [OF s(2)] by simp
  qed
qed simp

lemma dump_members_parses:
  assumes "kvs \<noteq> []"
    "\<forall>kv \<in> set kvs. utf8 (fst kv) \<and> (\<exists>s. dump_value dbl strict False (snd kv) = Inr s \<and> parses dbl (snd kv) s)"
  shows "\<exists>s. dump_members dbl strict False kvs = Inr s \<and> parses_members dbl kvs s"
  using assms
proof (induction kvs)
  case (Cons kv kvs)
  then obtain k v s where kv: "kv = (k, v)" and k: "utf8 k"
    and s: "dump_value dbl strict False v = Inr s" "parses dbl v s" by (cases kv) auto
  show ?case
  proof (cases "kvs = []")
    case True
    with kv s show ?thesis using parses_member_single [OF k s(2)] dump_escaped_utf8 [OF k] by simp
  next
    case False
    with Cons obtain s2 where "dump_members dbl strict False kvs = Inr s2" "parses_members dbl kvs s2" by auto
    with kv s False show ?thesis
      using parses_member_Cons [OF k s(2)] dump_escaped_utf8 [OF k] by simp
  qed
qed simp

lemma dump_canonical:
  "canonical dbl j \<Longrightarrow> \<exists>s. dump_value dbl strict False j = Inr s \<and> parses dbl j s"
proof (induction j)
  case (JObject kvs)
  show ?case
  proof (cases "kvs = []")
    case False
    have "\<forall>kv \<in> set kvs. utf8 (fst kv) \<and> (\<exists>s. dump_value dbl strict False (snd kv) = Inr s \<and> parses dbl (snd kv) s)"
      using JObject by (auto simp: snds.simps)
    from dump_members_parses [OF False this] show ?thesis
      using False JObject.prems parses_object [of dbl kvs] by auto
  qed (simp add: parses_object_Nil)
next
  case (JArray vs)
  show ?case
  proof (cases "vs = []")
    case False
    then show ?thesis using dump_elements_parses [OF False, of dbl] JArray parses_array [of dbl vs] by auto
  qed (simp add: parses_array_Nil)
next
  case (JBoolean b)
  then show ?case using parses_literals(1,2) by (cases b) simp_all
next
  case (JFloat x)
  then have "float_text dbl x" by simp
  from parses_float [OF this] this show ?case by (simp add: dump_float_def float_text_def)
qed (use parses_literals(3) parses_string parses_unsigned parses_integer dump_escaped_utf8
      in \<open>auto simp: dump_integer_dec\<close>)

lemma json_round_trip_value:
  assumes "canonical dbl j"
  shows "\<exists>text. json_dump dbl j = Inr text \<and> json_parse dbl text = Inr j"
proof -
  obtain s where s: "json_dump dbl j = Inr s" "parses dbl j s"
    using dump_canonical [OF assms] by (auto simp: json_dump_def)
  let ?l = "new_lexer (dbl_strtod dbl ''0'') s"
  let ?q = "\<lparr>ps_last_token = uninitialized, ps_lexer = ?l, ps_states = [], ps_root = JNull,
    ps_ref_stack = [], ps_skip = False\<rparr>"
  have "next_reads ?q (s @ [])" by (simp add: reads_def new_lexer_def)
  moreover have "value_stop []" by (simp add: value_stop_def)
  ultimately obtain p where p: "sax_parse_internal dbl (new_parser dbl s) = cont dbl p"
    "moved (handle_value j ?q) [] p"
    using s(2) unfolding parses_def new_parser_def by fastforce
  have f: "ps_states p = []" "ps_root p = j" "next_reads p []"
    using p(2) unfolding moved_iff by (simp_all add: handle_value_fields)
  then have "sax_parse_internal dbl (new_parser dbl s) = Inr p"
    using p(1) by (simp add: cont_def state_evaluation_def)
  moreover have "ps_last_token (get_token dbl p) = end_of_input" "ps_root (get_token dbl p) = j"
    using scan_end [OF f(3), of dbl] f(2) by (auto simp: get_token_def)
  ultimately show ?thesis using s(1) by (auto simp: json_parse_def Let_def)
qed

text \<open>C34: Every canonical value is dumped, and parsing the text gives exactly the value back.\<close>

theorem json_round_trip:
  assumes "canonical dbl j"
  shows "\<exists>text. json_dump dbl j = Inr text \<and> json_parse dbl text = Inr j"
  by (rule json_round_trip_value [OF assms])

definition sample_json :: "nat json" where
  "sample_json =
     JObject [(''RUN_ID'', JString [CHR ''a'', CHR 0x22, CHR 0x0A, CHR 0x01, CHR 0xC3, CHR 0xA9]),
       (''SYMBOLS'', JArray [JNull, JBoolean True, JArray [], JObject []]),
       (''X'', JInteger (-42)), (''Y'', JUnsigned 18446744073709551615), (''Z'', JFloat 7)]"

definition sample_doubles :: "nat double_ops" where
  "sample_doubles = \<lparr>dbl_isfinite = (\<lambda>_. True), dbl_to_chars = (\<lambda>n. nat_dec n @ ''.0''), dbl_strtod = (\<lambda>s. 7)\<rparr>"

lemma sample_utf8:
  "utf8 [CHR ''a'', CHR 0x22, CHR 0x0A, CHR 0x01, CHR 0xC3, CHR 0xA9]"
proof -
  have a: "utf8 (c # s)" if "of_char c < (0x80 :: nat)" "utf8 s" for c s
    using that utf8_seq [of c "[]" "[]" s] by (simp add: utf8_follow_def)
  have "utf8 [CHR 0xC3, CHR 0xA9]"
    using utf8_seq [of "CHR 0xC3" "[(0x80, 0xBF)]" "[CHR 0xA9]" "[]"] utf8_Nil
    by (simp add: utf8_follow_def in_range_def)
  then show ?thesis
    by (intro a [of "CHR ''a''"] a [of "CHR 0x22"] a [of "CHR 0x0A"] a [of "CHR 0x01"]) simp_all
qed

lemma json_round_trip_witness:
  "canonical sample_doubles sample_json
   \<and> (\<exists>text. json_dump sample_doubles sample_json = Inr text \<and> json_parse sample_doubles text = Inr sample_json)"
proof -
  have "number_text (nat_dec 7 @ ''.0'') = Some value_float" by code_simp
  then have "canonical sample_doubles sample_json"
    using sample_utf8 utf8_ascii [of "''RUN_ID''"] utf8_ascii [of "''SYMBOLS''"] utf8_ascii [of "''X''"]
      utf8_ascii [of "''Y''"] utf8_ascii [of "''Z''"]
    by (simp add: sample_json_def float_text_def) (simp add: sample_doubles_def)
  then show ?thesis using json_round_trip [of sample_doubles sample_json] by blast
qed

end
