(* ===== verification/JsonUtf8.thy ===== *)
theory JsonUtf8
  imports JsonRoundTrip
begin

unbundle bit_operations_syntax

section \<open>Parsed strings are UTF-8\<close>

text \<open>
  The lexer checks UTF-8 while it reads and encodes escapes itself, so every string of a parsed value
  is well-formed: a value that was read can always be written again.
\<close>

lemma utf8_append: "utf8 s \<Longrightarrow> utf8 t \<Longrightarrow> utf8 (s @ t)"
  by (induction s rule: utf8.induct) (use utf8_seq in auto)

lemma utf8_single: "of_char c < (0x80 :: nat) \<Longrightarrow> utf8 [c]"
  using utf8_seq [of c "[]" "[]" "[]"] utf8_Nil by (simp add: utf8_follow_def)

subsection \<open>Code points\<close>

lemma or_high:
  fixes x :: nat
  shows "x < 64 \<Longrightarrow> 0x80 OR x = 0x80 + x" "x < 64 \<Longrightarrow> 0xC0 OR x = 0xC0 + x"
    "x < 32 \<Longrightarrow> 0xE0 OR x = 0xE0 + x" "x < 16 \<Longrightarrow> 0xF0 OR x = 0xF0 + x"
  using or_push_bit_nat [of x 6 2] or_push_bit_nat [of x 6 3] or_push_bit_nat [of x 5 7] or_push_bit_nat [of x 4 15]
  by (simp_all add: push_bit_eq_mult or.commute)

lemma drop_bit_div: "drop_bit k (n :: nat) = n div 2 ^ k"
  by (simp add: drop_bit_eq_div)

lemma utf8_codepoint:
  assumes "cp < 0x110000" "\<not> (0xD800 \<le> cp \<and> cp \<le> 0xDFFF)"
  shows "utf8 (codepoint_bytes cp)"
proof -
  have tail: "0x80 OR (x mod 64) = 0x80 + x mod 64" for x :: nat by (simp add: or_high)
  have seq: "utf8 (c # cs)" if "utf8_follow c = Some rs" "list_all2 in_range rs cs" for c rs cs
    using utf8_seq [OF that utf8_Nil] by simp
  have le: "x mod 64 < (64::nat)" for x by simp
  consider (one) "cp < 0x80" | (two) "0x80 \<le> cp" "cp \<le> 0x7FF" | (three) "0x800 \<le> cp" "cp \<le> 0xFFFF"
    | (four) "0x10000 \<le> cp" by linarith
  then show ?thesis
  proof cases
    case one
    then show ?thesis using utf8_single [of "char_of cp"] by (simp add: codepoint_bytes_def)
  next
    case two
    have d: "cp div 64 < 32" "2 \<le> cp div 64" using two by auto
    have "codepoint_bytes cp = [char_of (0xC0 + cp div 64), char_of (0x80 + cp mod 64)]"
      using two d by (simp add: codepoint_bytes_def and_mask_nat(1) drop_bit_div tail or_high)
    moreover have "utf8 [char_of (0xC0 + cp div 64), char_of (0x80 + cp mod 64)]"
      using d le [of cp] by (intro seq [where rs = "[(0x80, 0xBF)]"]) (simp_all add: utf8_follow_def in_range_def)
    ultimately show ?thesis by simp
  next
    case three
    define a b where "a = cp div 4096" and "b = cp div 64 mod 64"
    have cp: "cp = a * 4096 + b * 64 + cp mod 64"
      unfolding a_def b_def div_mult2_eq [of cp 64 64, simplified]
      using div_mult_mod_eq [of cp 64] div_mult_mod_eq [of "cp div 64" 64] by linarith
    have a: "a < 16" using three by (simp add: a_def)
    have b: "b < 64" by (simp add: b_def)
    have bytes: "codepoint_bytes cp = [char_of (0xE0 + a), char_of (0x80 + b), char_of (0x80 + cp mod 64)]"
      using three a by (simp add: codepoint_bytes_def and_mask_nat(1) drop_bit_div tail or_high a_def b_def)
    have m: "cp mod 64 < 64" by simp
    consider (e0) "a = 0" "32 \<le> b" | (ed) "a = 13" "b < 32" | (other) "a \<noteq> 0" "a \<noteq> 13"
      using cp three assms(2) b m by linarith
    then show ?thesis
    proof cases
      case e0
      then show ?thesis unfolding bytes using b m
        by (intro seq [where rs = "[(0xA0, 0xBF), (0x80, 0xBF)]"]) (simp_all add: utf8_follow_def in_range_def)
    next
      case ed
      then show ?thesis unfolding bytes using b m
        by (intro seq [where rs = "[(0x80, 0x9F), (0x80, 0xBF)]"]) (simp_all add: utf8_follow_def in_range_def)
    next
      case other
      then show ?thesis unfolding bytes using a b m
        by (intro seq [where rs = "[(0x80, 0xBF), (0x80, 0xBF)]"]) (simp_all add: utf8_follow_def in_range_def Let_def)
    qed
  next
    case four
    define a b d where "a = cp div 262144" and "b = cp div 4096 mod 64" and "d = cp div 64 mod 64"
    have cp: "cp = a * 262144 + b * 4096 + d * 64 + cp mod 64"
      unfolding a_def b_def d_def div_mult2_eq [of cp 4096 64, simplified] div_mult2_eq [of cp 64 64, simplified]
      using div_mult_mod_eq [of cp 64] div_mult_mod_eq [of "cp div 64" 64]
        div_mult_mod_eq [of "cp div 64 div 64" 64] by linarith
    have r: "a < 5" "b < 64" "d < 64" "cp mod 64 < 64" using four assms(1) by (simp_all add: a_def b_def d_def)
    have bytes: "codepoint_bytes cp = [char_of (0xF0 + a), char_of (0x80 + b), char_of (0x80 + d), char_of (0x80 + cp mod 64)]"
      using four r(1) by (simp add: codepoint_bytes_def and_mask_nat(1) drop_bit_div tail or_high a_def b_def d_def)
    consider (f0) "a = 0" "16 \<le> b" | (f4) "a = 4" "b < 16" | (other) "1 \<le> a" "a \<le> 3"
      using cp four assms(1) r by linarith
    then show ?thesis
    proof cases
      case f0
      then show ?thesis unfolding bytes using r
        by (intro seq [where rs = "[(0x90, 0xBF), (0x80, 0xBF), (0x80, 0xBF)]"]) (simp_all add: utf8_follow_def in_range_def)
    next
      case f4
      then show ?thesis unfolding bytes using r
        by (intro seq [where rs = "[(0x80, 0x8F), (0x80, 0xBF), (0x80, 0xBF)]"]) (simp_all add: utf8_follow_def in_range_def)
    next
      case other
      then show ?thesis unfolding bytes using r
        by (intro seq [where rs = "[(0x80, 0xBF), (0x80, 0xBF), (0x80, 0xBF)]"]) (simp_all add: utf8_follow_def in_range_def Let_def)
    qed
  qed
qed

subsection \<open>The lexer's strings\<close>

lemma hex_value_less: "hex_value c = Some v \<Longrightarrow> v < 16"
  by (auto simp: hex_value_def Let_def split: if_splits)

lemma codepoint_loop_buffer:
  "codepoint_loop fs cp l = (r, l') \<Longrightarrow> lx_token_buffer l' = lx_token_buffer l"
  by (induction fs cp l rule: codepoint_loop.induct) (auto simp: Let_def split: option.splits)

lemma codepoint_loop_bound:
  "codepoint_loop fs cp l = (Some n, l') \<Longrightarrow> n \<le> cp + sum_list (map (\<lambda>f. 15 * 2 ^ f) fs)"
proof (induction fs cp l rule: codepoint_loop.induct)
  case (2 f fs cp l)
  then obtain v where v: "Option.bind (lx_current (lx_get l)) hex_value = Some v"
    "codepoint_loop fs (cp + push_bit f v) (lx_get l) = (Some n, l')"
    by (auto simp: Let_def split: option.splits)
  then have "v \<le> 15" by (auto simp: bind_eq_Some_conv dest: hex_value_less)
  then have "push_bit f v \<le> 15 * 2 ^ f" by (simp add: push_bit_eq_mult)
  with 2(1) [OF refl v] show ?case by simp
qed simp

lemma get_codepoint_facts:
  assumes "get_codepoint l = (r, l')"
  shows "lx_token_buffer l' = lx_token_buffer l" "r = Some n \<Longrightarrow> n \<le> 0xFFFF"
  using assms codepoint_loop_buffer [of "[12, 8, 4, 0]" 0 l r l']
    codepoint_loop_bound [of "[12, 8, 4, 0]" 0 l n l']
  by (simp_all add: get_codepoint_def)

lemma scan_unicode_utf8:
  assumes "scan_unicode l = Inr l'"
  shows "\<exists>u. utf8 u \<and> lx_token_buffer l' = lx_token_buffer l @ u"
proof -
  obtain r1 l1 where g1: "get_codepoint l = (r1, l1)" by force
  obtain r2 l2 where g2: "get_codepoint (lx_get (lx_get l1)) = (r2, l2)" by force
  note f = get_codepoint_facts [OF g1] get_codepoint_facts [OF g2]
  obtain n where n: "r1 = Some n" using assms g1 by (cases r1) (auto simp: scan_unicode_def)
  show ?thesis
  proof (cases "0xD800 \<le> n \<and> n \<le> 0xDBFF")
    case True
    then obtain k where k: "r2 = Some k" "0xDC00 \<le> k" "k \<le> 0xDFFF"
      "l' = lx_add_all (codepoint_bytes (push_bit 10 n + k - 0x35FDC00)) l2"
      using assms g1 g2 n by (auto simp: scan_unicode_def Let_def split: if_splits option.splits)
    have "utf8 (codepoint_bytes (push_bit 10 n + k - 0x35FDC00))"
      using True k(2,3) by (intro utf8_codepoint) (auto simp: push_bit_eq_mult)
    then show ?thesis using k(4) f by (auto simp: lx_add_all_simps)
  next
    case False
    then have "\<not> (0xDC00 \<le> n \<and> n \<le> 0xDFFF)" "l' = lx_add_all (codepoint_bytes n) l1"
      using assms g1 n by (auto simp: scan_unicode_def split: if_splits)
    moreover have "utf8 (codepoint_bytes n)"
      using False calculation(1) f(2) [OF n] by (intro utf8_codepoint) auto
    ultimately show ?thesis using f(1) by (auto simp: lx_add_all_simps)
  qed
qed

lemma scan_escape_utf8:
  assumes "scan_escape l = Inr l'"
  shows "\<exists>u. utf8 u \<and> lx_token_buffer l' = lx_token_buffer l @ u"
proof -
  obtain c where c: "lx_current (lx_get l) = Some c"
    using assms by (cases "lx_current (lx_get l)") (auto simp: scan_escape_def)
  show ?thesis
  proof (cases "map_of simple_escapes c")
    case None
    then show ?thesis using assms c scan_unicode_utf8 [of "lx_get l" l']
      by (auto simp: scan_escape_def Let_def split: if_splits)
  next
    case (Some d)
    then have "of_char d < (0x80 :: nat)" by (auto simp: simple_escapes_def split: if_splits)
    then show ?thesis using assms c Some utf8_single [of d] by (auto simp: scan_escape_def)
  qed
qed

lemma range_loop_utf8:
  "range_loop rs l = (True, l') \<Longrightarrow> \<exists>cs. list_all2 in_range rs cs \<and> lx_token_buffer l' = lx_token_buffer l @ cs"
proof (induction rs l rule: range_loop.induct)
  case (2 r rs l)
  then obtain c where c: "lx_current (lx_get l) = Some c" "in_range r c"
    "range_loop rs (lx_add c (lx_get l)) = (True, l')"
    by (auto simp: Let_def in_range_def split: option.splits if_splits)
  from c(2) have "fst r \<le> of_char c \<and> of_char c \<le> snd r" by (simp add: in_range_def)
  from 2(1) [OF refl c(1) this c(3)] obtain cs where
    "list_all2 in_range rs cs" "lx_token_buffer l' = lx_token_buffer l @ c # cs" by auto
  with c(2) show ?case by (intro exI [of _ "c # cs"]) simp
qed simp

lemma lead_ranges_utf8:
  "lead_ranges (of_char c) = Some rs \<Longrightarrow> utf8_follow c = Some rs"
  by (auto simp: lead_ranges_def utf8_follow_def Let_def split: if_splits)

lemma scan_string_loop_utf8:
  "scan_string_loop l = (value_string, l') \<Longrightarrow> utf8 (lx_token_buffer l) \<Longrightarrow> utf8 (lx_token_buffer l')"
proof (induction l rule: scan_string_loop.induct)
  case (1 l)
  obtain c where c: "lx_current (lx_get l) = Some c"
    using 1(4) by (cases "lx_current (lx_get l)") (subst (asm) scan_string_loop.simps, simp add: lx_fail_def)+
  note IH = 1(1-3) [OF refl c]
  note step = 1(4) [unfolded scan_string_loop.simps [of l]]
  consider (quote) "c = CHR 0x22" | (esc) "c = CHR 0x5C" | (plain) "c \<noteq> CHR 0x22" "c \<noteq> CHR 0x5C" "of_char c \<le> (0x7F :: nat)"
    | (multi) "c \<noteq> CHR 0x22" "c \<noteq> CHR 0x5C" "\<not> of_char c \<le> (0x7F :: nat)" by blast
  then show ?case
  proof cases
    case quote
    then have "lx_get l = l'" using step c by simp
    from arg_cong [OF this, of lx_token_buffer] show ?thesis using 1(5) by simp
  next
    case esc
    then obtain l2 where l2: "scan_escape (lx_get l) = Inr l2" "scan_string_loop l2 = (value_string, l')"
      using step c by (auto split: sum.splits)
    have "utf8 (lx_token_buffer l2)" using scan_escape_utf8 [OF l2(1)] 1(5) utf8_append by auto
    then show ?thesis using IH(1) l2 esc by simp
  next
    case plain
    then have g: "\<not> of_char c \<le> (0x1F :: nat)" "scan_string_loop (lx_add c (lx_get l)) = (value_string, l')"
      using step c by (auto simp: lx_fail_def Let_def split: if_splits)
    have "utf8 (lx_token_buffer (lx_add c (lx_get l)))"
      using utf8_append [OF 1(5) utf8_single [of c]] plain(3) by simp
    then show ?thesis using IH(2) g plain by simp
  next
    case multi
    then obtain rs l2 where r: "lead_ranges (of_char c) = Some rs" "next_byte_in_range rs (lx_get l) = (True, l2)"
      "scan_string_loop l2 = (value_string, l')"
      using step c by (auto simp: lx_fail_def Let_def split: if_splits option.splits prod.splits bool.splits)
    then obtain cs where cs: "list_all2 in_range rs cs" "lx_token_buffer l2 = lx_token_buffer l @ c # cs"
      using range_loop_utf8 [of rs "lx_add c (lx_get l)" l2] c by (auto simp: next_byte_in_range_def)
    have "utf8 (lx_token_buffer l2)"
      using utf8_append [OF 1(5) utf8_seq [OF lead_ranges_utf8 [OF r(1)] cs(1) utf8_Nil]] cs(2) by simp
    then show ?thesis using IH(3) [OF _ _ _ _ r(1) r(2) [symmetric]] r multi by simp
  qed
qed

lemma number_loop_not_string:
  "number_loop label ty l = (t, l') \<Longrightarrow> ty \<noteq> value_string \<Longrightarrow> t \<noteq> value_string"
proof (induction label ty l rule: number_loop.induct)
  case (1 label ty l)
  have ty: "number_type_at label ty \<noteq> value_string"
    using 1(3) by (simp add: number_type_at_def split: num_label.split)
  show ?case
  proof (cases "number_switch label (lx_current (lx_get l))")
    case (Inl msg)
    then show ?thesis using 1(2) by (subst (asm) number_loop.simps) (auto simp: lx_fail_def)
  next
    case (Inr next_label)
    then show ?thesis
      using 1 ty by (subst (asm) (2) number_loop.simps)
        (cases next_label; cases "lx_current (lx_get l)"; fastforce)
  qed
qed

lemma scan_token_utf8:
  assumes "scan_token dbl l = (value_string, l')"
  shows "utf8 (lx_token_buffer l')"
proof -
  have lit: "fst (scan_literal cs ty m) \<in> {ty, tok_parse_error}" for cs ty and m :: "'a lexer"
    by (induction cs arbitrary: m) (auto simp: Let_def lx_fail_def)
  have num: "fst (scan_number dbl m) \<noteq> value_string" for m
  proof -
    obtain ty l1 where n: "number_loop (if lx_current (lx_reset m) = Some (CHR ''-'') then NMinus
        else if lx_current (lx_reset m) = Some (CHR ''0'') then NZero else NAny1) value_unsigned
        (lx_add (the (lx_current m)) (lx_reset m)) = (ty, l1)" by force
    from number_loop_not_string [OF this] n show ?thesis
      by (auto simp: scan_number_def number_done_def lx_fail_def Let_def split: option.splits if_splits)
  qed
  obtain c where c: "lx_current l = Some c" using assms by (cases "lx_current l") (auto simp: scan_token_def)
  show ?thesis
  proof (cases "c = CHR 0x22")
    case True
    then have "scan_string_loop (lx_reset l) = (value_string, l')"
      using assms c by (simp add: scan_token_def scan_string_def)
    from scan_string_loop_utf8 [OF this] show ?thesis using utf8_Nil by simp
  next
    case False
    then show ?thesis
      using assms c lit [of "''rue''" literal_true l] lit [of "''alse''" literal_false l] lit [of "''ull''" literal_null l]
        num [of l]
      by (auto simp: scan_token_def lx_fail_def simp del: scan_literal.simps split: if_splits)
  qed
qed

lemma scan_utf8: "scan dbl l = (value_string, l') \<Longrightarrow> utf8 (lx_token_buffer l')"
  using scan_token_utf8 by (fastforce simp: scan_def lx_fail_def split: prod.splits if_splits)

subsection \<open>The parser's values\<close>

fun json_utf8 :: "'f json \<Rightarrow> bool" where
  "json_utf8 (JString s) = utf8 s"
| "json_utf8 (JArray vs) = (\<forall>v \<in> set vs. json_utf8 v)"
| "json_utf8 (JObject kvs) = (\<forall>kv \<in> set kvs. utf8 (fst kv) \<and> json_utf8 (snd kv))"
| "json_utf8 _ = True"

lemma json_utf8_object [simp]:
  "json_utf8 (JObject kvs) \<longleftrightarrow> (\<forall>k v. (k, v) \<in> set kvs \<longrightarrow> utf8 k \<and> json_utf8 v)"
  by (subst json_utf8.simps(3)) auto

declare json_utf8.simps(3) [simp del]

definition open_utf8 :: "'f open_container \<Rightarrow> bool" where
  "open_utf8 c =
     (case c of
        Open_Array vs \<Rightarrow> json_utf8 (JArray vs)
      | Open_Object kvs k \<Rightarrow> utf8 k \<and> json_utf8 (JObject kvs))"

definition ps_utf8 :: "'f parser \<Rightarrow> bool" where
  "ps_utf8 p \<longleftrightarrow> json_utf8 (ps_root p) \<and> (\<forall>c \<in> set (ps_ref_stack p). open_utf8 c)
     \<and> (ps_last_token p = value_string \<longrightarrow> utf8 (lx_token_buffer (ps_lexer p)))"

lemma set_map_put: "set (map_put k v kvs) \<subseteq> insert (k, v) (set kvs)"
  by (induction k v kvs rule: map_put.induct) auto

lemma get_token_utf8: "ps_utf8 p \<Longrightarrow> ps_utf8 (get_token dbl p)"
  using scan_utf8 [of dbl "ps_lexer p"] by (auto simp: ps_utf8_def get_token_def split: prod.split)

lemma handle_value_utf8: "ps_utf8 p \<Longrightarrow> json_utf8 v \<Longrightarrow> ps_utf8 (handle_value v p)"
  using set_map_put
  by (fastforce simp: ps_utf8_def handle_value_def open_utf8_def split: list.splits open_container.splits)

lemma start_utf8: "ps_utf8 p \<Longrightarrow> ps_utf8 (start_object p)" "ps_utf8 p \<Longrightarrow> ps_utf8 (start_array p)"
  using utf8_Nil by (simp_all add: ps_utf8_def start_object_def start_array_def open_utf8_def)

lemma sax_key_utf8: "ps_utf8 p \<Longrightarrow> ps_last_token p = value_string \<Longrightarrow> ps_utf8 (sax_key p)"
  by (auto simp: ps_utf8_def sax_key_def open_utf8_def split: list.splits open_container.splits)

lemma ps_utf8_upd [simp]:
  "ps_utf8 (p\<lparr>ps_states := ss\<rparr>) = ps_utf8 p" "ps_utf8 (p\<lparr>ps_skip := b\<rparr>) = ps_utf8 p"
  by (simp_all add: ps_utf8_def)

lemma end_container_utf8:
  assumes "ps_utf8 p"
  shows "ps_utf8 (end_container p)"
proof (cases "ps_ref_stack p")
  case (Cons c st)
  then have "ps_utf8 (p\<lparr>ps_ref_stack := st\<rparr>)" "open_utf8 c" using assms by (simp_all add: ps_utf8_def)
  then show ?thesis
    by (cases c) (simp_all add: end_container_def Cons open_utf8_def handle_value_utf8)
qed (use assms in \<open>simp add: end_container_def\<close>)

lemmas parser_utf8 = get_token_utf8 handle_value_utf8 start_utf8 sax_key_utf8 end_container_utf8

lemma value_switch_utf8:
  "ps_utf8 p \<Longrightarrow> value_switch dbl p = Inr (b, p') \<Longrightarrow> ps_utf8 p'"
  unfolding value_switch_def
  by (auto simp: Let_def intro!: parser_utf8 split: token_type.splits if_splits) (auto simp: ps_utf8_def)

lemma state_evaluation_utf8:
  "ps_utf8 p \<Longrightarrow> state_evaluation dbl p = Inr (b, p') \<Longrightarrow> ps_utf8 p'"
  unfolding state_evaluation_def
  by (auto simp: Let_def intro!: parser_utf8 split: list.splits if_splits)

lemma sax_parse_utf8:
  "sax_parse_internal dbl p = Inr p' \<Longrightarrow> ps_utf8 p \<Longrightarrow> ps_utf8 p'"
proof (induction dbl p rule: sax_parse_internal.induct)
  case (1 dbl p)
  define r where "r = (if ps_skip p then Inr (False, p\<lparr>ps_skip := False\<rparr>) else value_switch dbl p)"
  obtain b p1 where r: "r = Inr (b, p1)"
    using 1(3) by (subst (asm) sax_parse_internal.simps) (auto simp: r_def [symmetric] split: sum.splits)
  have p1: "ps_utf8 p1"
    using r 1(4) value_switch_utf8 [of p dbl b p1] by (auto simp: r_def split: if_splits)
  show ?case
  proof (cases b)
    case True
    then have "sax_parse_internal dbl p1 = Inr p'"
      using 1(3) r by (subst (asm) sax_parse_internal.simps) (simp add: r_def [symmetric])
    then show ?thesis using 1(1) [OF r [unfolded r_def]] True p1 by blast
  next
    case False
    then obtain b2 p2 where s: "state_evaluation dbl p1 = Inr (b2, p2)" "b2 \<Longrightarrow> sax_parse_internal dbl p2 = Inr p'"
      "\<not> b2 \<Longrightarrow> p2 = p'"
      using 1(3) r by (subst (asm) sax_parse_internal.simps)
        (auto simp: r_def [symmetric] split: sum.splits bool.splits)
    then show ?thesis
      using 1(2) [OF r [unfolded r_def]] False state_evaluation_utf8 [OF p1 s(1)] by (cases b2) auto
  qed
qed

lemma parsed_is_utf8_value:
  assumes "json_parse dbl input = Inr j"
  shows "json_utf8 j"
proof -
  obtain p where p: "sax_parse_internal dbl (new_parser dbl input) = Inr p" "j = ps_root (get_token dbl p)"
    using assms by (auto simp: json_parse_def Let_def split: sum.splits if_splits)
  have "ps_utf8 (new_parser dbl input)"
    unfolding new_parser_def by (rule get_token_utf8) (simp add: ps_utf8_def)
  then have "ps_utf8 (get_token dbl p)" by (rule get_token_utf8 [OF sax_parse_utf8 [OF p(1)]])
  then show ?thesis using p(2) by (simp add: ps_utf8_def)
qed

text \<open>C35: Whatever bytes are parsed, every string and key of the value that comes back is well-formed
  UTF-8, escapes and surrogate pairs included: what was read can always be written again.\<close>

theorem parsed_is_utf8:
  assumes "json_parse dbl input = Inr j"
  shows "json_utf8 j"
  by (rule parsed_is_utf8_value [OF assms])

lemma parsed_is_utf8_witness:
  "json_parse sample_doubles [CHR ''['', CHR 0x22, CHR 0xC3, CHR 0xA9, CHR 0x22, CHR '']'']
     = Inr (JArray [JString [CHR 0xC3, CHR 0xA9]])
   \<and> json_utf8 (JArray [JString [CHR 0xC3, CHR 0xA9]] :: nat json)"
proof -
  have "json_parse sample_doubles [CHR ''['', CHR 0x22, CHR 0xC3, CHR 0xA9, CHR 0x22, CHR '']'']
     = Inr (JArray [JString [CHR 0xC3, CHR 0xA9]])" by code_simp
  from this parsed_is_utf8 [OF this] show ?thesis by blast
qed

end
