(* ===== verification/Redis.thy ===== *)
theory Redis
  imports JsonRoundTrip
begin

section \<open>Redis commands\<close>

text \<open>
  \<open>RedisOperations\<close> of \<open>shared/redis/operations\<close>: the commands it sends and how it reads the replies.
  The connection is a parameter: \<open>exec\<close> performs one request, a list of commands, and gives a reply
  for each, or the text of the failure. The callers run every operation through
  \<open>SyncRedisClient::run\<close>, whose open breaker is the failure with the empty text. \<open>redis_contract\<close>
  states the documented behaviour of the server for the commands the callers rely on.
\<close>

datatype reply =
    Nil_reply
  | Simple_reply string
  | Blob_reply string
  | Int_reply int
  | Array_reply "reply list"
  | Error_reply string

type_synonym command = "string list"

type_synonym 'w exec = "command list \<Rightarrow> 'w \<Rightarrow> (string + reply list) \<times> 'w"

type_synonym ('w, 'a) redis = "'w \<Rightarrow> (string + 'a) \<times> 'w"

datatype SetWhen = Always | NotExists | Exists

subsection \<open>Reading replies\<close>

definition type_mismatch :: string where
  "type_mismatch = ''incompatible reply type''"

definition as_optional_string :: "reply \<Rightarrow> string + string option" where
  "as_optional_string r =
     (case r of
        Nil_reply \<Rightarrow> Inr None
      | Simple_reply s \<Rightarrow> Inr (Some s)
      | Blob_reply s \<Rightarrow> Inr (Some s)
      | Error_reply e \<Rightarrow> Inl e
      | _ \<Rightarrow> Inl type_mismatch)"

definition as_int :: "reply \<Rightarrow> string + int" where
  "as_int r = (case r of Int_reply n \<Rightarrow> Inr n | Error_reply e \<Rightarrow> Inl e | _ \<Rightarrow> Inl type_mismatch)"

fun as_list :: "(reply \<Rightarrow> string + 'a) \<Rightarrow> reply list \<Rightarrow> string + 'a list" where
  "as_list f [] = Inr []"
| "as_list f (r # rs) = bind (f r) (\<lambda>x. bind (as_list f rs) (\<lambda>xs. Inr (x # xs)))"

definition as_string :: "reply \<Rightarrow> string + string" where
  "as_string r = bind (as_optional_string r) (\<lambda>s. case s of Some s \<Rightarrow> Inr s | None \<Rightarrow> Inl type_mismatch)"

definition as_array :: "(reply \<Rightarrow> string + 'a) \<Rightarrow> reply \<Rightarrow> string + 'a list" where
  "as_array f r =
     (case r of Array_reply rs \<Rightarrow> as_list f rs | Error_reply e \<Rightarrow> Inl e | _ \<Rightarrow> Inl type_mismatch)"

text \<open>\<open>execOptionalString\<close>, \<open>execValue\<close>: one command, its reply decoded; \<open>execIgnore\<close> reads none.\<close>

definition execValue :: "(reply \<Rightarrow> string + 'a) \<Rightarrow> 'w exec \<Rightarrow> command \<Rightarrow> ('w, 'a) redis" where
  "execValue decode exec cmd w =
     (case exec [cmd] w of
        (Inl e, w') \<Rightarrow> (Inl e, w')
      | (Inr [r], w') \<Rightarrow> (decode r, w')
      | (Inr _, w') \<Rightarrow> (Inl type_mismatch, w'))"

definition execOptionalString :: "'w exec \<Rightarrow> command \<Rightarrow> ('w, string option) redis" where
  "execOptionalString = execValue as_optional_string"

definition execIgnore :: "'w exec \<Rightarrow> command list \<Rightarrow> ('w, unit) redis" where
  "execIgnore exec cmds w =
     (case exec cmds w of (Inl e, w') \<Rightarrow> (Inl e, w') | (Inr _, w') \<Rightarrow> (Inr (), w'))"

text \<open>Post-processing of an operation's value.\<close>

definition redis_map :: "('a \<Rightarrow> 'b) \<Rightarrow> ('w, 'a) redis \<Rightarrow> ('w, 'b) redis" where
  "redis_map f m w = (case m w of (Inl e, w') \<Rightarrow> (Inl e, w') | (Inr x, w') \<Rightarrow> (Inr (f x), w'))"

subsection \<open>Strings\<close>

definition getString :: "'w exec \<Rightarrow> string \<Rightarrow> ('w, string option) redis" where
  "getString exec key = execOptionalString exec [''GET'', key]"

definition setStringPlain :: "'w exec \<Rightarrow> string \<Rightarrow> string \<Rightarrow> ('w, unit) redis" where
  "setStringPlain exec key v = execIgnore exec [[''SET'', key, v]]"

definition set_args :: "string \<Rightarrow> string \<Rightarrow> SetWhen \<Rightarrow> int option \<Rightarrow> string list" where
  "set_args key v wh expiry =
     [key, v]
     @ (case expiry of Some ms \<Rightarrow> [''PX'', int_dec ms] | None \<Rightarrow> [])
     @ (case wh of NotExists \<Rightarrow> [''NX''] | Exists \<Rightarrow> [''XX''] | Always \<Rightarrow> [])"

definition setString :: "'w exec \<Rightarrow> string \<Rightarrow> string \<Rightarrow> SetWhen \<Rightarrow> int option \<Rightarrow> ('w, bool) redis" where
  "setString exec key v wh expiry =
     redis_map (\<lambda>r. r \<noteq> None) (execOptionalString exec (''SET'' # set_args key v wh expiry))"

definition setIfNotExists :: "'w exec \<Rightarrow> string \<Rightarrow> string \<Rightarrow> int option \<Rightarrow> ('w, bool) redis" where
  "setIfNotExists exec key v expiry = setString exec key v NotExists expiry"

definition setMultiple :: "'w exec \<Rightarrow> (string \<times> string) list \<Rightarrow> ('w, unit) redis" where
  "setMultiple exec kvs w =
     (if kvs = [] then (Inr (), w)
      else execIgnore exec [''MSET'' # concat (map (\<lambda>(k, v). [k, v]) kvs)] w)"

definition setMultipleWithTTL :: "'w exec \<Rightarrow> (string \<times> string) list \<Rightarrow> int \<Rightarrow> ('w, unit) redis" where
  "setMultipleWithTTL exec kvs ttl w =
     (if kvs = [] then (Inr (), w)
      else execIgnore exec (map (\<lambda>(k, v). [''SET'', k, v, ''PX'', int_dec ttl]) kvs) w)"

definition getDelete :: "'w exec \<Rightarrow> string \<Rightarrow> ('w, string option) redis" where
  "getDelete exec key = execOptionalString exec [''GETDEL'', key]"

definition emplace :: "string \<Rightarrow> 'v \<Rightarrow> (string \<times> 'v) list \<Rightarrow> (string \<times> 'v) list" where
  "emplace k v m = (if map_of m k = None then map_put k v m else m)"

text \<open>The values of an \<open>MGET\<close> are zipped back onto their keys, nils skipped.\<close>

fun zip_values :: "string list \<Rightarrow> string option list \<Rightarrow> (string \<times> string) list \<Rightarrow> (string \<times> string) list" where
  "zip_values (k # ks) (Some v # vs) m = zip_values ks vs (emplace k v m)"
| "zip_values (k # ks) (None # vs) m = zip_values ks vs m"
| "zip_values _ _ m = m"

definition getMultiple :: "'w exec \<Rightarrow> string list \<Rightarrow> ('w, (string \<times> string) list) redis" where
  "getMultiple exec keys w =
     (if keys = [] then (Inr [], w)
      else redis_map (\<lambda>vs. zip_values keys vs [])
             (execValue (as_array as_optional_string) exec (''MGET'' # keys)) w)"

subsection \<open>Keys\<close>

definition deleteKey :: "'w exec \<Rightarrow> string \<Rightarrow> ('w, bool) redis" where
  "deleteKey exec key = redis_map (\<lambda>n. n > 0) (execValue as_int exec [''DEL'', key])"

definition deleteKeys :: "'w exec \<Rightarrow> string list \<Rightarrow> ('w, int) redis" where
  "deleteKeys exec keys w =
     (if keys = [] then (Inr 0, w) else execValue as_int exec (''DEL'' # keys) w)"

definition setTTL :: "'w exec \<Rightarrow> string \<Rightarrow> int \<Rightarrow> ('w, bool) redis" where
  "setTTL exec key ttl = redis_map (\<lambda>n. n \<noteq> 0) (execValue as_int exec [''PEXPIRE'', key, int_dec ttl])"

definition keyExpire :: "'w exec \<Rightarrow> string \<Rightarrow> int option \<Rightarrow> ('w, unit) redis" where
  "keyExpire exec key expiry =
     execIgnore exec [case expiry of Some ms \<Rightarrow> [''PEXPIRE'', key, int_dec ms] | None \<Rightarrow> [''PERSIST'', key]]"

definition keyRename :: "'w exec \<Rightarrow> string \<Rightarrow> string \<Rightarrow> ('w, bool) redis" where
  "keyRename exec source destination =
     redis_map (\<lambda>_. True) (execIgnore exec [[''RENAME'', source, destination]])"

text \<open>\<open>SCAN\<close>: the reply as the flat node list of RESP3 (depth, is a blob, value).\<close>

fun nodes_of :: "nat \<Rightarrow> reply \<Rightarrow> (nat \<times> bool \<times> string) list" where
  "nodes_of d (Blob_reply s) = [(d, True, s)]"
| "nodes_of d (Simple_reply s) = [(d, False, s)]"
| "nodes_of d (Int_reply n) = [(d, False, int_dec n)]"
| "nodes_of d (Array_reply rs) = (d, False, []) # concat (map (nodes_of (Suc d)) rs)"
| "nodes_of d Nil_reply = [(d, False, [])]"
| "nodes_of d (Error_reply e) = [(d, False, e)]"

definition scan_keys :: "(nat \<times> bool \<times> string) list \<Rightarrow> string list" where
  "scan_keys nodes = map (snd \<circ> snd) (filter (\<lambda>(d, blob, s). d = 2 \<and> blob) (drop 2 nodes))"

text \<open>The loop ends when the server returns the cursor 0; a server that never does keeps it going, so
  it is a partial function: \<open>None\<close> is a loop that does not end.\<close>

partial_function (option) scan_loop ::
  "'w exec \<Rightarrow> string \<Rightarrow> string \<Rightarrow> string list \<Rightarrow> 'w \<Rightarrow> ((string + string list) \<times> 'w) option" where
  "scan_loop exec pattern cursor keys w =
     (case exec [[''SCAN'', cursor, ''MATCH'', pattern, ''COUNT'', ''250'']] w of
        (Inl e, w') \<Rightarrow> Some (Inl e, w')
      | (Inr rs, w') \<Rightarrow>
          (case rs of
             Error_reply e # _ \<Rightarrow> Some (Inl e, w')
           | _ \<Rightarrow>
               (let nodes = concat (map (nodes_of 0) rs) in
                if length nodes < 2 then Some (Inr keys, w')
                else let cursor' = snd (snd (nodes ! 1)); keys' = keys @ scan_keys nodes in
                     if cursor' \<noteq> ''0'' then scan_loop exec pattern cursor' keys' w'
                     else Some (Inr keys', w'))))"

definition getKeysByPattern :: "'w exec \<Rightarrow> string \<Rightarrow> 'w \<Rightarrow> ((string + string list) \<times> 'w) option" where
  "getKeysByPattern exec pattern w = scan_loop exec pattern ''0'' [] w"

subsection \<open>Sets\<close>

definition setAdd :: "'w exec \<Rightarrow> string \<Rightarrow> string \<Rightarrow> ('w, bool) redis" where
  "setAdd exec key v = redis_map (\<lambda>n. n \<noteq> 0) (execValue as_int exec [''SADD'', key, v])"

definition setRemove :: "'w exec \<Rightarrow> string \<Rightarrow> string \<Rightarrow> ('w, bool) redis" where
  "setRemove exec key v = redis_map (\<lambda>n. n \<noteq> 0) (execValue as_int exec [''SREM'', key, v])"

definition setMembers :: "'w exec \<Rightarrow> string \<Rightarrow> ('w, string list) redis" where
  "setMembers exec key = execValue (as_array as_string) exec [''SMEMBERS'', key]"

definition setContains :: "'w exec \<Rightarrow> string \<Rightarrow> string \<Rightarrow> ('w, bool) redis" where
  "setContains exec key v = redis_map (\<lambda>n. n \<noteq> 0) (execValue as_int exec [''SISMEMBER'', key, v])"

definition setLength :: "'w exec \<Rightarrow> string \<Rightarrow> ('w, int) redis" where
  "setLength exec key = execValue as_int exec [''SCARD'', key]"

subsection \<open>Lists\<close>

definition listPushFront :: "'w exec \<Rightarrow> string \<Rightarrow> string \<Rightarrow> ('w, unit) redis" where
  "listPushFront exec key v = execIgnore exec [[''LPUSH'', key, v]]"

definition listPushFrontAll :: "'w exec \<Rightarrow> string \<Rightarrow> string list \<Rightarrow> ('w, unit) redis" where
  "listPushFrontAll exec key vs = execIgnore exec (map (\<lambda>v. [''LPUSH'', key, v]) vs)"

definition listPopBack :: "'w exec \<Rightarrow> string \<Rightarrow> ('w, string option) redis" where
  "listPopBack exec key = execOptionalString exec [''RPOP'', key]"

definition listIndex :: "'w exec \<Rightarrow> string \<Rightarrow> int \<Rightarrow> ('w, string option) redis" where
  "listIndex exec key i = execOptionalString exec [''LINDEX'', key, int_dec i]"

definition listRemove :: "'w exec \<Rightarrow> string \<Rightarrow> int \<Rightarrow> string \<Rightarrow> ('w, unit) redis" where
  "listRemove exec key n v = execIgnore exec [[''LREM'', key, int_dec n, v]]"

definition execute_cmd :: "'w exec \<Rightarrow> command \<Rightarrow> ('w, reply list) redis" where
  "execute_cmd exec cmd w = (if cmd = [] then (Inr [], w) else exec [cmd] w)"

end
