(* ===== verification/RedisContract.thy ===== *)
theory RedisContract
  imports Redis
begin

section \<open>What a Redis server promises\<close>

text \<open>
  The documented behaviour of the commands the engine's gates and stores rely on, as a step of an
  abstract key space, and \<open>redis_contract\<close>: the connection behaves like it. Time passes before a
  command runs and keys whose expiry has passed are gone. A failed call may have run, wholly, partly
  or not at all.
\<close>

datatype rvalue = RString string | RSet "string list" | RList "string list"

record redis_db =
  db_now :: time
  db_keys :: "string \<Rightarrow> (rvalue \<times> time option) option"

definition live :: "redis_db \<Rightarrow> string \<Rightarrow> rvalue option" where
  "live d k =
     (case db_keys d k of
        Some (v, None) \<Rightarrow> Some v
      | Some (v, Some t) \<Rightarrow> if db_now d < t then Some v else None
      | None \<Rightarrow> None)"

definition put_key :: "string \<Rightarrow> rvalue \<Rightarrow> time option \<Rightarrow> redis_db \<Rightarrow> redis_db" where
  "put_key k v e d = d\<lparr>db_keys := (db_keys d)(k \<mapsto> (v, e))\<rparr>"

definition del_key :: "string \<Rightarrow> redis_db \<Rightarrow> redis_db" where
  "del_key k d = d\<lparr>db_keys := (db_keys d)(k := None)\<rparr>"

definition key_expiry :: "redis_db \<Rightarrow> string \<Rightarrow> time option" where
  "key_expiry d k = (case db_keys d k of Some (_, e) \<Rightarrow> e | None \<Rightarrow> None)"

text \<open>Milliseconds from now.\<close>

definition expiry_at :: "redis_db \<Rightarrow> int \<Rightarrow> time" where
  "expiry_at d ms = db_now d + 1000 * ms"

definition parse_ms :: "string \<Rightarrow> int option" where
  "parse_ms s = (if s \<noteq> [] \<and> (\<forall>c \<in> set s. is_digit c) \<and> digits_value s > 0 then Some (digits_value s) else None)"

definition wrong_type :: reply where
  "wrong_type = Error_reply ''WRONGTYPE Operation against a key holding the wrong kind of value''"

definition get_reply :: "redis_db \<Rightarrow> string \<Rightarrow> reply" where
  "get_reply d k =
     (case live d k of None \<Rightarrow> Nil_reply | Some (RString s) \<Rightarrow> Blob_reply s | Some _ \<Rightarrow> wrong_type)"

text \<open>\<open>SET\<close> with \<open>PX\<close> and a condition.\<close>

definition set_step :: "string \<Rightarrow> string \<Rightarrow> string list \<Rightarrow> redis_db \<Rightarrow> (reply \<times> redis_db) option" where
  "set_step k v opts d =
     (let (px, flags) = (case opts of o1 # ms # rest \<Rightarrow>
                           if o1 = ''PX'' then (Some ms, rest) else (None, opts) | _ \<Rightarrow> (None, opts));
          expiry = map_option (\<lambda>ms. map_option (expiry_at d) (parse_ms ms)) px;
          blocked = (flags = [''NX''] \<and> live d k \<noteq> None) \<or> (flags = [''XX''] \<and> live d k = None)
      in if flags \<notin> {[], [''NX''], [''XX'']} \<or> expiry = Some None then None
         else if blocked then Some (Nil_reply, d)
         else Some (Simple_reply ''OK'', put_key k (RString v) (Option.bind expiry (\<lambda>e. e)) d))"

definition bool_reply :: "bool \<Rightarrow> reply" where
  "bool_reply b = Int_reply (if b then 1 else 0)"

text \<open>An emptied list is gone.\<close>

definition list_put :: "string \<Rightarrow> string list \<Rightarrow> redis_db \<Rightarrow> redis_db" where
  "list_put k vs d = (if vs = [] then del_key k d else put_key k (RList vs) (key_expiry d k) d)"

definition redis_step :: "command \<Rightarrow> redis_db \<Rightarrow> (reply \<times> redis_db) option" where
  "redis_step cmd d =
     (case cmd of
        [c, k] \<Rightarrow>
          if c = ''GET'' then Some (get_reply d k, d)
          else if c = ''DEL'' then Some (bool_reply (live d k \<noteq> None), del_key k d)
          else if c = ''GETDEL'' then
            Some (get_reply d k, case live d k of Some (RString s) \<Rightarrow> del_key k d | _ \<Rightarrow> d)
          else if c = ''SMEMBERS'' then
            Some (case live d k of
                    None \<Rightarrow> Array_reply []
                  | Some (RSet vs) \<Rightarrow> Array_reply (map Blob_reply vs)
                  | Some _ \<Rightarrow> wrong_type, d)
          else if c = ''RPOP'' then
            Some (case live d k of
                    None \<Rightarrow> (Nil_reply, d)
                  | Some (RList vs) \<Rightarrow>
                      if vs = [] then (Nil_reply, d) else (Blob_reply (last vs), list_put k (butlast vs) d)
                  | Some _ \<Rightarrow> (wrong_type, d))
          else None
      | [c, k, v] \<Rightarrow>
          if c = ''SET'' then set_step k v [] d
          else if c = ''SADD'' then
            (case live d k of
               None \<Rightarrow> Some (Int_reply 1, put_key k (RSet [v]) None d)
             | Some (RSet vs) \<Rightarrow>
                 if v \<in> set vs then Some (Int_reply 0, d)
                 else Some (Int_reply 1, put_key k (RSet (vs @ [v])) (key_expiry d k) d)
             | Some _ \<Rightarrow> Some (wrong_type, d))
          else if c = ''RENAME'' then
            (case live d k of
               None \<Rightarrow> Some (Error_reply ''ERR no such key'', d)
             | Some x \<Rightarrow> Some (Simple_reply ''OK'', put_key v x (key_expiry d k) (del_key k d)))
          else if c = ''PEXPIRE'' then
            (case (live d k, parse_ms v) of
               (_, None) \<Rightarrow> None
             | (None, _) \<Rightarrow> Some (Int_reply 0, d)
             | (Some x, Some ms) \<Rightarrow> Some (Int_reply 1, put_key k x (Some (expiry_at d ms)) d))
          else if c = ''LPUSH'' then
            (case live d k of
               None \<Rightarrow> Some (Int_reply 1, put_key k (RList [v]) None d)
             | Some (RList vs) \<Rightarrow> Some (Int_reply (1 + int (length vs)), list_put k (v # vs) d)
             | Some _ \<Rightarrow> Some (wrong_type, d))
          else if c = ''LINDEX'' \<and> v = ''-1'' then
            Some (case live d k of
                    None \<Rightarrow> Nil_reply
                  | Some (RList vs) \<Rightarrow> if vs = [] then Nil_reply else Blob_reply (last vs)
                  | Some _ \<Rightarrow> wrong_type, d)
          else None
      | c # k # v # opts \<Rightarrow>
          if c = ''SET'' then set_step k v opts d
          else if c = ''LREM'' \<and> v = ''0'' \<and> length opts = 1 then
            (case live d k of
               None \<Rightarrow> Some (Int_reply 0, d)
             | Some (RList vs) \<Rightarrow>
                 Some (Int_reply (int (length (filter (\<lambda>x. x = hd opts) vs))),
                       list_put k (filter (\<lambda>x. x \<noteq> hd opts) vs) d)
             | Some _ \<Rightarrow> Some (wrong_type, d))
          else None
      | _ \<Rightarrow> None)"

text \<open>\<open>MGET\<close> takes any number of keys and answers nil for what is not a string.\<close>

definition mget_reply :: "redis_db \<Rightarrow> string list \<Rightarrow> reply" where
  "mget_reply d ks = Array_reply (map (\<lambda>k. case live d k of Some (RString s) \<Rightarrow> Blob_reply s | _ \<Rightarrow> Nil_reply) ks)"

definition redis_run :: "command \<Rightarrow> redis_db \<Rightarrow> (reply \<times> redis_db) option" where
  "redis_run cmd d =
     (case cmd of
        c # ks \<Rightarrow> if c = ''MGET'' \<and> ks \<noteq> [] then Some (mget_reply d ks, d) else redis_step cmd d
      | [] \<Rightarrow> None)"

fun redis_runs :: "command list \<Rightarrow> redis_db \<Rightarrow> (reply list \<times> redis_db) option" where
  "redis_runs [] d = Some ([], d)"
| "redis_runs (c # cs) d =
     (case redis_run c d of
        None \<Rightarrow> None
      | Some (r, d') \<Rightarrow> (case redis_runs cs d' of None \<Rightarrow> None | Some (rs, d'') \<Rightarrow> Some (r # rs, d'')))"

definition at_time :: "time \<Rightarrow> redis_db \<Rightarrow> redis_db" where
  "at_time t d = d\<lparr>db_now := t\<rparr>"

definition redis_contract :: "'w exec \<Rightarrow> ('w \<Rightarrow> redis_db) \<Rightarrow> bool" where
  "redis_contract exec db \<longleftrightarrow>
     (\<forall>cmds w res w'. exec cmds w = (res, w') \<longrightarrow>
        (\<exists>t \<ge> db_now (db w).
           case res of
             Inr rs \<Rightarrow> (case redis_runs cmds (at_time t (db w)) of
                          Some (rs', d') \<Rightarrow> rs = rs' \<and> db w' = d' | None \<Rightarrow> True)
           | Inl e \<Rightarrow> (\<exists>n. case redis_runs (take n cmds) (at_time t (db w)) of
                          Some (rs', d') \<Rightarrow> db w' = d' | None \<Rightarrow> True)))"

text \<open>A server that never fails and needs no time: the contract can hold.\<close>

definition mem_exec :: "redis_db exec" where
  "mem_exec cmds d =
     (case redis_runs cmds d of
        Some (rs, d') \<Rightarrow> (Inr rs, d')
      | None \<Rightarrow> (Inl ''unsupported'', d))"

definition empty_db :: redis_db where
  "empty_db = \<lparr>db_now = 0, db_keys = (\<lambda>_. None)\<rparr>"

lemma at_time_now [simp]: "at_time (db_now d) d = d"
  by (simp add: at_time_def)

lemma mem_exec_contract: "redis_contract mem_exec (\<lambda>d. d)"
proof -
  have "\<exists>t \<ge> db_now w. case res of
             Inr rs \<Rightarrow> (case redis_runs cmds (at_time t w) of
                          Some (rs', d') \<Rightarrow> rs = rs' \<and> w' = d' | None \<Rightarrow> True)
           | Inl e \<Rightarrow> (\<exists>n. case redis_runs (take n cmds) (at_time t w) of
                          Some (rs', d') \<Rightarrow> w' = d' | None \<Rightarrow> True)"
    if "mem_exec cmds w = (res, w')" for cmds w res w'
    using that
    by (intro exI [of _ "db_now w"] conjI order_refl)
      (auto simp: mem_exec_def split: option.splits sum.splits intro!: exI [of _ 0])
  then show ?thesis unfolding redis_contract_def by blast
qed

subsection \<open>The key space\<close>

lemma live_put [simp]:
  "live (put_key k v None d) k' = (if k = k' then Some v else live d k')"
  "db_now d < t \<Longrightarrow> live (put_key k v (Some t) d) k' = (if k = k' then Some v else live d k')"
  by (auto simp: live_def put_key_def split: option.splits)

lemma live_put_other: "k \<noteq> k' \<Longrightarrow> live (put_key k v e d) k' = live d k'"
  by (auto simp: live_def put_key_def split: option.splits)

lemma live_del [simp]: "live (del_key k d) k' = (if k = k' then None else live d k')"
  by (auto simp: live_def del_key_def split: option.splits)

lemma db_now_simps [simp]:
  "db_now (put_key k v e d) = db_now d" "db_now (del_key k d) = db_now d" "db_now (at_time t d) = t"
  "db_keys (at_time t d) = db_keys d" "at_time s (at_time t d) = at_time s d"
  by (simp_all add: put_key_def del_key_def at_time_def)

text \<open>With time, keys only go.\<close>

lemma live_at_time: "db_now d \<le> t \<Longrightarrow> live (at_time t d) k = Some v \<Longrightarrow> live d k = Some v"
  by (auto simp: live_def split: option.splits if_splits)

lemma parse_ms_int_dec: "0 < n \<Longrightarrow> parse_ms (int_dec n) = Some n"
proof -
  assume n: "0 < n"
  then have d: "int_dec n = nat_dec (nat n)" by (simp add: int_dec_def)
  have "nat_dec (nat n) \<noteq> []" "\<forall>c \<in> set (nat_dec (nat n)). is_digit c"
    using nat_dec_digits [of "nat n"] by auto
  then show "parse_ms (int_dec n) = Some n" using n by (simp add: parse_ms_def d digits_value_dec)
qed

subsection \<open>The operations under the contract\<close>

text \<open>\<open>passed d d'\<close>: only time has passed.\<close>

definition passed :: "redis_db \<Rightarrow> redis_db \<Rightarrow> bool" where
  "passed d d' \<longleftrightarrow> (\<exists>t \<ge> db_now d. d' = at_time t d)"

lemma passed_refl [simp]: "passed d d"
  unfolding passed_def by (rule exI [of _ "db_now d"]) simp

lemma passed_trans: "passed a b \<Longrightarrow> passed b c \<Longrightarrow> passed a c"
  by (clarsimp simp: passed_def) (metis order_trans)

lemma passed_live: "passed d d' \<Longrightarrow> live d' k = Some v \<Longrightarrow> live d k = Some v"
  unfolding passed_def by (auto dest: live_at_time)

lemma passed_keys: "passed d d' \<Longrightarrow> db_keys d' = db_keys d"
  unfolding passed_def by auto

lemma passed_now: "passed d d' \<Longrightarrow> db_now d \<le> db_now d'"
  unfolding passed_def by auto

text \<open>Under the contract one command is one step of the key space at some later time; a failed call
  is that or nothing.\<close>

lemma contract_one:
  assumes "redis_contract exec db" "exec [cmd] w = (res, w')"
  shows "\<exists>d. passed (db w) d \<and> (redis_run cmd d \<noteq> None \<longrightarrow>
           (case res of
              Inr rs \<Rightarrow> \<exists>r. rs = [r] \<and> redis_run cmd d = Some (r, db w')
            | Inl e \<Rightarrow> db w' = d \<or> (\<exists>r. redis_run cmd d = Some (r, db w'))))"
proof -
  obtain t where t: "t \<ge> db_now (db w)" and c:
    "case res of
       Inr rs \<Rightarrow> (case redis_runs [cmd] (at_time t (db w)) of Some (rs', d') \<Rightarrow> rs = rs' \<and> db w' = d' | None \<Rightarrow> True)
     | Inl e \<Rightarrow> (\<exists>n. case redis_runs (take n [cmd]) (at_time t (db w)) of Some (rs', d') \<Rightarrow> db w' = d' | None \<Rightarrow> True)"
    using assms unfolding redis_contract_def by blast
  let ?d = "at_time t (db w)"
  have "case res of
          Inr rs \<Rightarrow> \<exists>r. rs = [r] \<and> redis_run cmd ?d = Some (r, db w')
        | Inl e \<Rightarrow> db w' = ?d \<or> (\<exists>r. redis_run cmd ?d = Some (r, db w'))" if run: "redis_run cmd ?d \<noteq> None"
  proof (cases res)
    case (Inl e)
    then obtain n where n: "case redis_runs (take n [cmd]) ?d of Some (rs', d') \<Rightarrow> db w' = d' | None \<Rightarrow> True"
      using c by auto
    then show ?thesis using run Inl by (cases n) (auto split: option.splits)
  next
    case (Inr rs)
    then show ?thesis using c run by (auto split: option.splits prod.splits)
  qed
  then show ?thesis using t unfolding passed_def by blast
qed

text \<open>One decoded command that the key space defines.\<close>

lemma execValue_step:
  assumes "redis_contract exec db" "execValue decode exec cmd w = (res, w')" "\<And>d. redis_run cmd d = Some (R d, D d)"
  shows "\<exists>d. passed (db w) d
           \<and> (db w' = D d \<and> res = decode (R d) \<or> (\<exists>e. res = Inl e) \<and> (db w' = d \<or> db w' = D d))"
proof -
  obtain res1 w1 where e: "exec [cmd] w = (res1, w1)" by force
  show ?thesis
    using contract_one [OF assms(1) e] assms(2,3) e
    by (cases res1) (auto simp: execValue_def)
qed

lemma redis_map_cases:
  assumes "redis_map f m w = (res, w')"
  obtains (fail) e where "m w = (Inl e, w')" "res = Inl e" | (ok) x where "m w = (Inr x, w')" "res = Inr (f x)"
  using assms by (cases "m w") (auto simp: redis_map_def split: sum.splits)

lemma getString_contract:
  assumes "redis_contract exec db" "getString exec k w = (res, w')"
  shows "passed (db w) (db w')"
    and "res = Inr None \<Longrightarrow> live (db w') k = None"
    and "res = Inr (Some s) \<Longrightarrow> live (db w') k = Some (RString s)"
proof -
  have "redis_run [''GET'', k] d = Some (get_reply d k, d)" for d by (simp add: redis_run_def redis_step_def)
  from execValue_step [OF assms(1) assms(2) [unfolded getString_def execOptionalString_def] this]
  obtain d where "passed (db w) d"
    "db w' = d \<and> res = as_optional_string (get_reply d k) \<or> (\<exists>e. res = Inl e) \<and> db w' = d" by blast
  then show "passed (db w) (db w')" "res = Inr None \<Longrightarrow> live (db w') k = None"
    "res = Inr (Some s) \<Longrightarrow> live (db w') k = Some (RString s)"
    by (auto simp: get_reply_def as_optional_string_def wrong_type_def split: option.splits rvalue.splits)
qed

text \<open>\<open>SET\<close>: stored, blocked by its condition, or failed and possibly stored.\<close>

definition set_expiry :: "redis_db \<Rightarrow> int option \<Rightarrow> time option" where
  "set_expiry d ms = map_option (expiry_at d) ms"

definition set_blocked :: "redis_db \<Rightarrow> string \<Rightarrow> SetWhen \<Rightarrow> bool" where
  "set_blocked d k wh \<longleftrightarrow> (wh = NotExists \<and> live d k \<noteq> None) \<or> (wh = Exists \<and> live d k = None)"

definition set_reply :: "redis_db \<Rightarrow> string \<Rightarrow> SetWhen \<Rightarrow> reply" where
  "set_reply d k wh = (if set_blocked d k wh then Nil_reply else Simple_reply ''OK'')"

definition set_result :: "string \<Rightarrow> string \<Rightarrow> SetWhen \<Rightarrow> int option \<Rightarrow> redis_db \<Rightarrow> redis_db" where
  "set_result k v wh expiry d =
     (if set_blocked d k wh then d else put_key k (RString v) (set_expiry d expiry) d)"

lemma redis_run_set:
  assumes "\<forall>ms. expiry = Some ms \<longrightarrow> 0 < ms"
  shows "redis_run (''SET'' # set_args k v wh expiry) d =
    Some (set_reply d k wh, set_result k v wh expiry d)"
  using assms
  by (cases expiry; cases wh)
    (auto simp: redis_run_def redis_step_def set_step_def set_args_def set_blocked_def set_expiry_def
      set_reply_def set_result_def parse_ms_int_dec)

lemma setString_contract:
  assumes "redis_contract exec db" "setString exec k v wh expiry w = (res, w')"
    "\<forall>ms. expiry = Some ms \<longrightarrow> 0 < ms"
  shows "\<exists>d. passed (db w) d
           \<and> (db w' = set_result k v wh expiry d \<and> res = Inr (\<not> set_blocked d k wh)
              \<or> (\<exists>e. res = Inl e) \<and> (db w' = d \<or> db w' = set_result k v wh expiry d))"
proof -
  obtain res1 where e: "execValue as_optional_string exec (''SET'' # set_args k v wh expiry) w = (res1, w')"
    and r: "(\<exists>e. res1 = Inl e \<and> res = Inl e) \<or> (\<exists>x. res1 = Inr x \<and> res = Inr (x \<noteq> None))"
    using assms(2) by (auto simp: setString_def execOptionalString_def elim: redis_map_cases)
  from execValue_step [OF assms(1) e redis_run_set [OF assms(3)]] r show ?thesis
    by (auto simp: as_optional_string_def set_reply_def split: if_splits)
qed

lemma mem_setString:
  "\<forall>ms. expiry = Some ms \<longrightarrow> 0 < ms \<Longrightarrow>
     setString mem_exec k v wh expiry d = (Inr (\<not> set_blocked d k wh), set_result k v wh expiry d)"
  using redis_run_set [of expiry k v wh d]
  by (auto simp: setString_def redis_map_def execOptionalString_def execValue_def mem_exec_def
      as_optional_string_def set_reply_def)

text \<open>\<open>MGET\<close>: the string of every key that has one.\<close>

definition live_string :: "redis_db \<Rightarrow> string \<Rightarrow> string option" where
  "live_string d k = (case live d k of Some (RString s) \<Rightarrow> Some s | _ \<Rightarrow> None)"

lemma map_of_zip_values:
  "\<forall>k \<in> set ks. \<forall>v. map_of m k = Some v \<longrightarrow> f k = Some v \<Longrightarrow>
     map_of (zip_values ks (map f ks) m) k = (if k \<in> set ks then f k else map_of m k)"
proof (induction ks arbitrary: m)
  case (Cons k' ks)
  show ?case
  proof (cases "f k'")
    case None
    then show ?thesis using Cons by (cases "map_of m k'") auto
  next
    case (Some v)
    have "map_of (emplace k' v m) = (map_of m)(k' \<mapsto> v)"
      using Cons.prems Some by (cases "map_of m k'") (auto simp: emplace_def fun_eq_iff)
    then show ?thesis using Cons.IH [of "emplace k' v m"] Cons.prems Some by auto
  qed
qed simp

lemma as_list_map:
  "as_list as_optional_string
     (map (\<lambda>k. case live d k of Some (RString s) \<Rightarrow> Blob_reply s | _ \<Rightarrow> Nil_reply) ks)
   = Inr (map (live_string d) ks)"
  by (induction ks) (auto simp: live_string_def as_optional_string_def split: option.split rvalue.split)

lemma getMultiple_contract:
  assumes "redis_contract exec db" "getMultiple exec keys w = (res, w')"
  shows "passed (db w) (db w')"
    and "res = Inr m \<Longrightarrow> k \<in> set keys \<Longrightarrow> map_of m k = live_string (db w') k"
proof -
  have "passed (db w) (db w') \<and> (\<forall>m. res = Inr m \<longrightarrow> (\<forall>k \<in> set keys. map_of m k = live_string (db w') k))"
  proof (cases "keys = []")
    case False
    have run: "redis_run (''MGET'' # keys) d = Some (mget_reply d keys, d)" for d
      using False by (simp add: redis_run_def)
    obtain res1 where e: "execValue (as_array as_optional_string) exec (''MGET'' # keys) w = (res1, w')"
      and r: "(\<exists>e. res1 = Inl e \<and> res = Inl e) \<or> (\<exists>vs. res1 = Inr vs \<and> res = Inr (zip_values keys vs []))"
      using assms(2) False by (auto simp: getMultiple_def elim: redis_map_cases)
    obtain d where d: "passed (db w) d"
      "db w' = d \<and> res1 = Inr (map (live_string d) keys) \<or> (\<exists>e. res1 = Inl e) \<and> db w' = d"
      using execValue_step [OF assms(1) e run] by (auto simp: as_array_def mget_reply_def as_list_map)
    have "map_of (zip_values keys (map (live_string d) keys) []) k = live_string d k" if "k \<in> set keys" for k
      using that map_of_zip_values [of keys "[]" "live_string d" k] by simp
    then show ?thesis using d r by auto
  qed (use assms(2) in \<open>simp add: getMultiple_def\<close>)
  then show "passed (db w) (db w')" "res = Inr m \<Longrightarrow> k \<in> set keys \<Longrightarrow> map_of m k = live_string (db w') k"
    by blast+
qed

lemma deleteKey_contract:
  assumes "redis_contract exec db" "deleteKey exec k w = (res, w')"
  shows "\<exists>d. passed (db w) d
           \<and> (db w' = del_key k d \<and> res = Inr (live d k \<noteq> None)
              \<or> (\<exists>e. res = Inl e) \<and> (db w' = d \<or> db w' = del_key k d))"
proof -
  have run: "redis_run [''DEL'', k] d = Some (bool_reply (live d k \<noteq> None), del_key k d)" for d
    by (simp add: redis_run_def redis_step_def)
  obtain res1 where e: "execValue as_int exec [''DEL'', k] w = (res1, w')"
    and r: "(\<exists>e. res1 = Inl e \<and> res = Inl e) \<or> (\<exists>n. res1 = Inr n \<and> res = Inr (n > 0))"
    using assms(2) by (auto simp: deleteKey_def elim: redis_map_cases)
  from execValue_step [OF assms(1) e run] r show ?thesis
    by (auto simp: as_int_def bool_reply_def split: if_splits)
qed

text \<open>\<open>GETDEL\<close> leaves no string behind and says what it was.\<close>

lemma getDelete_contract:
  assumes "redis_contract exec db" "getDelete exec k w = (res, w')"
  shows "\<exists>d. passed (db w) d \<and> (db w' = d \<or> db w' = del_key k d)
           \<and> (\<forall>v. res = Inr v \<longrightarrow> v = live_string d k \<and> live (db w') k = None)"
proof -
  define D where "D d = (case live d k of Some (RString s) \<Rightarrow> del_key k d | _ \<Rightarrow> d)" for d
  have run: "redis_run [''GETDEL'', k] d = Some (get_reply d k, D d)" for d
    by (simp add: redis_run_def redis_step_def D_def)
  from execValue_step [OF assms(1) assms(2) [unfolded getDelete_def execOptionalString_def] run]
  obtain d where d: "passed (db w) d"
    "db w' = D d \<and> res = as_optional_string (get_reply d k) \<or> (\<exists>e. res = Inl e) \<and> (db w' = d \<or> db w' = D d)" by blast
  show ?thesis
    using d by (intro exI [of _ d])
      (auto simp: D_def get_reply_def as_optional_string_def wrong_type_def live_string_def
        split: option.splits rvalue.splits)
qed

subsection \<open>What an operation leaves alone\<close>

text \<open>\<open>d'\<close> is \<open>d\<close> later, with only the keys \<open>ks\<close> touched.\<close>

definition touched :: "string set \<Rightarrow> redis_db \<Rightarrow> redis_db \<Rightarrow> bool" where
  "touched ks d d' \<longleftrightarrow> db_now d \<le> db_now d' \<and> (\<forall>k. k \<notin> ks \<longrightarrow> db_keys d' k = db_keys d k)"

lemma touched_trans: "touched ks a b \<Longrightarrow> touched ls b c \<Longrightarrow> touched (ks \<union> ls) a c"
  by (auto simp: touched_def)

lemma touched_passed: "passed d d' \<Longrightarrow> touched ks d d'"
  by (simp add: touched_def passed_keys passed_now)

lemma touched_put: "passed d d' \<Longrightarrow> touched {k} d (put_key k v e d')"
  by (simp add: touched_def put_key_def passed_keys passed_now)

lemma setString_touched:
  assumes "redis_contract exec db" "setString exec k v wh expiry w = (res, w')" "\<forall>ms. expiry = Some ms \<longrightarrow> 0 < ms"
  shows "touched {k} (db w) (db w')"
proof -
  obtain d where "passed (db w) d" "db w' = d \<or> db w' = set_result k v wh expiry d"
    using setString_contract [OF assms] by blast
  then show ?thesis by (auto simp: touched_def set_result_def put_key_def passed_keys passed_now)
qed

lemma deleteKey_touched:
  assumes "redis_contract exec db" "deleteKey exec k w = (res, w')"
  shows "touched {k} (db w) (db w')"
proof -
  obtain d where "passed (db w) d" "db w' = d \<or> db w' = del_key k d" using deleteKey_contract [OF assms] by blast
  then show ?thesis by (auto simp: touched_def del_key_def passed_keys passed_now)
qed

lemma getDelete_touched:
  assumes "redis_contract exec db" "getDelete exec k w = (res, w')"
  shows "touched {k} (db w) (db w')"
proof -
  obtain d where "passed (db w) d" "db w' = d \<or> db w' = del_key k d" using getDelete_contract [OF assms] by blast
  then show ?thesis by (auto simp: touched_def del_key_def passed_keys passed_now)
qed

end
