(* ===== verification/JsonConv.thy ===== *)
theory JsonConv
  imports JsonRoundTrip
begin

section \<open>Reading and building JSON values\<close>

text \<open>
  The part of \<open>external/nlohmann/json.hpp\<close> between a parsed document and the engine's structs: \<open>at\<close>,
  \<open>value\<close>, \<open>contains\<close>, \<open>get\<close> for the types the structs use, and the two ways the structs build an
  object: an initializer list of pairs, and \<open>operator[]\<close> with an assignment. An exception is a value:
  one of the library's, or the text of a standard one. Numbers are converted by \<open>static_cast\<close>; the
  conversions of doubles are parameters.
\<close>

datatype conv_error = Json_error json_error | Std_error string | Read_outside

record 'f double_conv = "'f double_ops" +
  dbl_of_int :: "int \<Rightarrow> 'f"
  dbl_to_int :: "'f \<Rightarrow> int"
  dbl_format :: "'f \<Rightarrow> string"

definition type_name :: "'f json \<Rightarrow> string" where
  "type_name j =
     (case j of
        JNull \<Rightarrow> ''null''
      | JObject _ \<Rightarrow> ''object''
      | JArray _ \<Rightarrow> ''array''
      | JString _ \<Rightarrow> ''string''
      | JBoolean _ \<Rightarrow> ''boolean''
      | _ \<Rightarrow> ''number'')"

definition must_be :: "string \<Rightarrow> 'f json \<Rightarrow> conv_error + 'a" where
  "must_be what j = Inl (Json_error (type_error 302 (''type must be '' @ what @ '', but is '' @ type_name j)))"

definition get_string_of :: "'f json \<Rightarrow> conv_error + string" where
  "get_string_of j = (case j of JString s \<Rightarrow> Inr s | _ \<Rightarrow> must_be ''string'' j)"

definition get_bool_of :: "'f json \<Rightarrow> conv_error + bool" where
  "get_bool_of j = (case j of JBoolean b \<Rightarrow> Inr b | _ \<Rightarrow> must_be ''boolean'' j)"

text \<open>\<open>get<int>\<close> takes a boolean too, \<open>get<double>\<close> does not.\<close>

definition get_int_of :: "'f double_conv \<Rightarrow> 'f json \<Rightarrow> conv_error + int" where
  "get_int_of conv j =
     (case j of
        JUnsigned n \<Rightarrow> Inr (i32 n)
      | JInteger n \<Rightarrow> Inr (i32 n)
      | JFloat x \<Rightarrow> Inr (i32 (dbl_to_int conv x))
      | JBoolean b \<Rightarrow> Inr (if b then 1 else 0)
      | _ \<Rightarrow> must_be ''number'' j)"

definition get_double_of :: "'f double_conv \<Rightarrow> 'f json \<Rightarrow> conv_error + 'f" where
  "get_double_of conv j =
     (case j of
        JUnsigned n \<Rightarrow> Inr (dbl_of_int conv n)
      | JInteger n \<Rightarrow> Inr (dbl_of_int conv n)
      | JFloat x \<Rightarrow> Inr x
      | _ \<Rightarrow> must_be ''number'' j)"

fun get_each :: "('f json \<Rightarrow> conv_error + 'a) \<Rightarrow> 'f json list \<Rightarrow> conv_error + 'a list" where
  "get_each f [] = Inr []"
| "get_each f (j # js) = bind (f j) (\<lambda>x. bind (get_each f js) (\<lambda>xs. Inr (x # xs)))"

definition get_array_of :: "('f json \<Rightarrow> conv_error + 'a) \<Rightarrow> 'f json \<Rightarrow> conv_error + 'a list" where
  "get_array_of f j = (case j of JArray js \<Rightarrow> get_each f js | _ \<Rightarrow> must_be ''array'' j)"

definition json_at :: "'f json \<Rightarrow> string \<Rightarrow> conv_error + 'f json" where
  "json_at j k =
     (case j of
        JObject kvs \<Rightarrow>
          (case map_of kvs k of
             Some v \<Rightarrow> Inr v
           | None \<Rightarrow> Inl (Json_error (out_of_range 403 (''key '' @ [CHR 0x27] @ k @ [CHR 0x27] @ '' not found''))))
      | _ \<Rightarrow> Inl (Json_error (type_error 304 (''cannot use at() with '' @ type_name j))))"

definition json_value :: "('f json \<Rightarrow> conv_error + 'a) \<Rightarrow> 'f json \<Rightarrow> string \<Rightarrow> 'a \<Rightarrow> conv_error + 'a" where
  "json_value f j k dflt =
     (case j of
        JObject kvs \<Rightarrow> (case map_of kvs k of Some v \<Rightarrow> f v | None \<Rightarrow> Inr dflt)
      | _ \<Rightarrow> Inl (Json_error (type_error 306 (''cannot use value() with '' @ type_name j))))"

definition json_contains :: "'f json \<Rightarrow> string \<Rightarrow> bool" where
  "json_contains j k = (case j of JObject kvs \<Rightarrow> map_of kvs k \<noteq> None | _ \<Rightarrow> False)"

text \<open>\<open>NLOHMANN_JSON_FROM_WITH_DEFAULT\<close>.\<close>

definition value_or :: "('f json \<Rightarrow> conv_error + 'a) \<Rightarrow> 'f json \<Rightarrow> string \<Rightarrow> 'a \<Rightarrow> conv_error + 'a" where
  "value_or f j k dflt = (case j of JNull \<Rightarrow> Inr dflt | _ \<Rightarrow> json_value f j k dflt)"

text \<open>An initializer list of pairs: \<open>emplace\<close> keeps the first of two equal keys.\<close>

definition json_init :: "(string \<times> 'f json) list \<Rightarrow> 'f json" where
  "json_init kvs =
     JObject (fold (\<lambda>(k, v) m. if map_of m k = None then map_put k v m else m) kvs [])"

text \<open>\<open>j[k] = v\<close>; a null becomes an object.\<close>

definition json_set :: "string \<Rightarrow> 'f json \<Rightarrow> 'f json \<Rightarrow> 'f json" where
  "json_set k v j = (case j of JObject kvs \<Rightarrow> JObject (map_put k v kvs) | _ \<Rightarrow> JObject [(k, v)])"

definition json_fields :: "(string \<times> 'f json) list \<Rightarrow> 'f json" where
  "json_fields kvs = fold (\<lambda>(k, v). json_set k v) kvs JNull"

subsection \<open>What a document keeps\<close>

text \<open>Parsing a dumped value gives it back with its non-negative integers unsigned.\<close>

fun parsed_as :: "'f json \<Rightarrow> 'f json" where
  "parsed_as (JInteger n) = (if 0 \<le> n then JUnsigned n else JInteger n)"
| "parsed_as (JArray vs) = JArray (map parsed_as vs)"
| "parsed_as (JObject kvs) = JObject (map (\<lambda>(k, v). (k, parsed_as v)) kvs)"
| "parsed_as j = j"

lemma dump_parsed_as:
  "dump_value dbl h ascii (parsed_as j) = dump_value dbl h ascii j"
  "dump_members dbl h ascii (map (\<lambda>(k, v). (k, parsed_as v)) kvs) = dump_members dbl h ascii kvs"
  "dump_elements dbl h ascii (map parsed_as vs) = dump_elements dbl h ascii vs"
  by (induction dbl h ascii j and dbl h ascii kvs and dbl h ascii vs
      rule: dump_value_dump_members_dump_elements.induct) (auto simp: Let_def cong: bind_cong if_cong)

lemma round_trip_parsed_as:
  assumes "canonical dbl (parsed_as j)"
  shows "\<exists>text. json_dump dbl j = Inr text \<and> json_parse dbl text = Inr (parsed_as j)"
  using json_round_trip_value [OF assms] by (simp add: json_dump_def dump_parsed_as)

lemma map_of_parsed: "map_of (map (\<lambda>(k, v). (k, parsed_as v)) kvs) k = map_option parsed_as (map_of kvs k)"
  by (induction kvs) auto

definition obj_of :: "'f json \<Rightarrow> (string \<times> 'f json) list" where
  "obj_of j = (case j of JObject kvs \<Rightarrow> kvs | _ \<Rightarrow> [])"

lemma init_fold:
  "map_of (fold (\<lambda>(k, v) m. if map_of m k = None then map_put k v m else m) kvs m) = map_of kvs ++ map_of m
   \<and> (sorted_wrt (<) (map fst m) \<longrightarrow>
        sorted_wrt (<) (map fst (fold (\<lambda>(k, v) m. if map_of m k = None then map_put k v m else m) kvs m)))"
proof (induction kvs arbitrary: m)
  case (Cons kv kvs)
  obtain k v where kv: "kv = (k, v)" by force
  show ?case
    using Cons.IH [of m] Cons.IH [of "map_put k v m"] kv
    by (auto simp: sorted_map_put fun_eq_iff map_add_def split: option.splits)
qed simp

lemma json_init_obj:
  "json_init kvs = JObject (obj_of (json_init kvs))"
  "map_of (obj_of (json_init kvs)) = map_of kvs"
  "sorted_wrt (<) (map fst (obj_of (json_init kvs)))"
  using init_fold [of kvs "[]"] by (simp_all add: json_init_def obj_of_def)

lemma json_fields_obj:
  assumes "kvs \<noteq> []"
  shows "json_fields kvs = JObject (obj_of (json_fields kvs))
       \<and> map_of (obj_of (json_fields kvs)) = map_of (rev kvs)
       \<and> sorted_wrt (<) (map fst (obj_of (json_fields kvs)))"
  using assms
proof (induction kvs rule: rev_induct)
  case (snoc kv kvs)
  obtain k v where kv: "kv = (k, v)" by force
  show ?case
  proof (cases "kvs = []")
    case False
    then obtain m where m: "json_fields kvs = JObject m" "map_of m = map_of (rev kvs)" "sorted_wrt (<) (map fst m)"
      using snoc.IH by auto
    have "json_fields (kvs @ [kv]) = JObject (map_put k v m)"
      using m(1) by (simp add: json_fields_def json_set_def kv)
    then show ?thesis using m(2,3) by (simp add: obj_of_def kv sorted_map_put)
  qed (simp add: json_fields_def json_set_def obj_of_def kv)
qed simp

text \<open>A sorted object is canonical when its entries are; it is read through its map.\<close>

lemma canonical_obj:
  assumes "sorted_wrt (<) (map fst m)" "\<And>k v. map_of m k = Some v \<Longrightarrow> utf8 k \<and> canonical dbl (parsed_as v)"
  shows "canonical dbl (parsed_as (JObject m))"
proof -
  have "utf8 k \<and> canonical dbl (parsed_as v)" if "(k, v) \<in> set m" for k v
  proof -
    have "distinct (map fst m)" using assms(1) by (simp add: strict_sorted_iff)
    then show ?thesis using assms(2) that by simp
  qed
  moreover have "map fst (map (\<lambda>(k, v). (k, parsed_as v)) m) = map fst m" by (induction m) auto
  then have "sorted_wrt (<) (map fst (map (\<lambda>(k, v). (k, parsed_as v)) m))"
    using assms(1) by (simp only:)
  ultimately show ?thesis unfolding parsed_as.simps canonical.simps by auto
qed

definition entries_ok :: "'f double_ops \<Rightarrow> (string \<times> 'f json) list \<Rightarrow> bool" where
  "entries_ok dbl kvs \<longleftrightarrow> list_all (\<lambda>(k, v). list_all (\<lambda>c. of_char c < (0x80 :: nat)) k \<and> canonical dbl (parsed_as v)) kvs"

lemma entries_okD:
  assumes "entries_ok dbl kvs" "map_of kvs k = Some v"
  shows "utf8 k \<and> canonical dbl (parsed_as v)"
proof -
  have "(k, v) \<in> set kvs" using assms(2) by (rule map_of_SomeD)
  then show ?thesis using assms(1) by (auto simp: entries_ok_def list_all_iff intro: utf8_ascii)
qed

lemma canonical_init: "entries_ok dbl kvs \<Longrightarrow> canonical dbl (parsed_as (json_init kvs))"
  using canonical_obj [OF json_init_obj(3)] entries_okD json_init_obj(1,2) by metis

lemma canonical_fields: "kvs \<noteq> [] \<Longrightarrow> entries_ok dbl (rev kvs) \<Longrightarrow> canonical dbl (parsed_as (json_fields kvs))"
  using canonical_obj [of "obj_of (json_fields kvs)"] entries_okD [of dbl "rev kvs"] json_fields_obj [of kvs] by metis

text \<open>Reading a built object goes through the list it was built from.\<close>

lemma parsed_init:
  "json_at (parsed_as (json_init kvs)) k =
     (case map_of kvs k of
        Some v \<Rightarrow> Inr (parsed_as v)
      | None \<Rightarrow> Inl (Json_error (out_of_range 403 (''key '' @ [CHR 0x27] @ k @ [CHR 0x27] @ '' not found''))))"
  "json_value f (parsed_as (json_init kvs)) k d = (case map_of kvs k of Some v \<Rightarrow> f (parsed_as v) | None \<Rightarrow> Inr d)"
  by (subst json_init_obj(1); simp add: json_at_def json_value_def map_of_parsed json_init_obj(2) split: option.split)+

lemma parsed_fields:
  assumes "kvs \<noteq> []"
  shows "json_at (parsed_as (json_fields kvs)) k =
     (case map_of (rev kvs) k of
        Some v \<Rightarrow> Inr (parsed_as v)
      | None \<Rightarrow> Inl (Json_error (out_of_range 403 (''key '' @ [CHR 0x27] @ k @ [CHR 0x27] @ '' not found''))))"
    "value_or f (parsed_as (json_fields kvs)) k d = (case map_of (rev kvs) k of Some v \<Rightarrow> f (parsed_as v) | None \<Rightarrow> Inr d)"
    "json_contains (parsed_as (json_fields kvs)) k \<longleftrightarrow> map_of (rev kvs) k \<noteq> None"
proof -
  define m where "m = obj_of (json_fields kvs)"
  have m: "json_fields kvs = JObject m" "map_of m = map_of (rev kvs)"
    using json_fields_obj [OF assms] by (simp_all add: m_def)
  show "json_at (parsed_as (json_fields kvs)) k =
     (case map_of (rev kvs) k of
        Some v \<Rightarrow> Inr (parsed_as v)
      | None \<Rightarrow> Inl (Json_error (out_of_range 403 (''key '' @ [CHR 0x27] @ k @ [CHR 0x27] @ '' not found''))))"
    "value_or f (parsed_as (json_fields kvs)) k d = (case map_of (rev kvs) k of Some v \<Rightarrow> f (parsed_as v) | None \<Rightarrow> Inr d)"
    "json_contains (parsed_as (json_fields kvs)) k \<longleftrightarrow> map_of (rev kvs) k \<noteq> None"
    by (simp_all add: m value_or_def json_at_def json_value_def json_contains_def map_of_parsed split: option.split)
qed

lemma get_int_parsed: "i32 n = n \<Longrightarrow> get_int_of conv (parsed_as (JInteger n)) = Inr n"
  by (simp add: get_int_of_def)

lemma get_each_map:
  "(\<And>x. x \<in> set xs \<Longrightarrow> f (parsed_as (g x)) = Inr (h x)) \<Longrightarrow>
     get_array_of f (parsed_as (JArray (map g xs))) = Inr (map h xs)"
  by (simp add: get_array_of_def) (induction xs; simp)

end
