(* ===== verification/PositionManager.thy ===== *)
theory PositionManager
  imports RedisContract JsonUtf8 JsonConv
begin

section \<open>The broker position store\<close>

text \<open>
  \<open>shared/redis/positionManager\<close>: the open deals of a strategy (\<open>PL#\<close>, a JSON list of deal ids), the
  live deals (\<open>PO#\<close>, with a short expiry), the history (\<open>PH#\<close>) and the deal receipts. Durations are
  milliseconds. A JSON exception of an encoder escapes an operation as \<open>Inl\<close>; \<open>None\<close> and \<open>False\<close> are
  the source's own failure results. What is logged is left out.
\<close>

definition kHistoryTtl :: int where
  "kHistoryTtl = 24 * 60 * 3600000"

definition positionListKey :: "string \<Rightarrow> string" where
  "positionListKey strategyId = ''PL#'' @ strategyId"

definition positionKey :: "string \<Rightarrow> string" where
  "positionKey dealId = ''PO#'' @ dealId"

definition historyPositionKey :: "string \<Rightarrow> string" where
  "historyPositionKey dealId = ''PH#'' @ dealId"

definition dealReceiptKey :: "string \<Rightarrow> string \<Rightarrow> string" where
  "dealReceiptKey dealReference symb = ''DealId#'' @ dealReference @ ''#'' @ symb"

subsection \<open>Codecs\<close>

definition encodePositionList :: "'f double_ops \<Rightarrow> string list \<Rightarrow> json_error + string" where
  "encodePositionList dbl dealIds = json_dump dbl (JArray (map JString dealIds))"

fun all_strings :: "'f json list \<Rightarrow> string list option" where
  "all_strings [] = Some []"
| "all_strings (JString s # js) = map_option (\<lambda>ss. s # ss) (all_strings js)"
| "all_strings (_ # js) = None"

definition decodePositionList :: "'f double_ops \<Rightarrow> string \<Rightarrow> string list option" where
  "decodePositionList dbl text =
     (case json_parse dbl text of Inr (JArray items) \<Rightarrow> all_strings items | _ \<Rightarrow> None)"

text \<open>\<open>get<int32_t>()\<close> and the like: conversions of a number, the double ones a parameter.\<close>

definition read_string :: "'f json \<Rightarrow> string \<Rightarrow> string" where
  "read_string j k = (case json_find j k of Some (JString s) \<Rightarrow> s | _ \<Rightarrow> [])"

definition read_int :: "(int \<Rightarrow> int) \<Rightarrow> 'f double_conv \<Rightarrow> 'f json \<Rightarrow> string \<Rightarrow> int" where
  "read_int width conv j k =
     (case json_find j k of
        Some (JInteger n) \<Rightarrow> width n
      | Some (JUnsigned n) \<Rightarrow> width n
      | Some (JFloat x) \<Rightarrow> width (dbl_to_int conv x)
      | _ \<Rightarrow> 0)"

definition read_double :: "'f double_conv \<Rightarrow> 'f json \<Rightarrow> string \<Rightarrow> 'f" where
  "read_double conv j k =
     (case json_find j k of
        Some (JInteger n) \<Rightarrow> dbl_of_int conv n
      | Some (JUnsigned n) \<Rightarrow> dbl_of_int conv n
      | Some (JFloat x) \<Rightarrow> x
      | _ \<Rightarrow> dbl_of_int conv 0)"

record 'f position_record =
  pr_dealId :: string
  pr_dealReference :: string
  pr_symbol :: string
  pr_epic :: string
  pr_direction :: string
  pr_size :: 'f
  pr_level :: int
  pr_stopLevel :: int
  pr_limitLevel :: int
  pr_strategyId :: string
  pr_strategyName :: string
  pr_openedAtMicros :: int

definition record_of :: "'f double_conv \<Rightarrow> 'f json \<Rightarrow> 'f position_record" where
  "record_of conv j =
     \<lparr>pr_dealId = read_string j ''dealId'', pr_dealReference = read_string j ''dealReference'',
      pr_symbol = read_string j ''symbol'', pr_epic = read_string j ''epic'',
      pr_direction = read_string j ''direction'', pr_size = read_double conv j ''size'',
      pr_level = read_int i32 conv j ''level'', pr_stopLevel = read_int i32 conv j ''stopLevel'',
      pr_limitLevel = read_int i32 conv j ''limitLevel'', pr_strategyId = read_string j ''strategyId'',
      pr_strategyName = read_string j ''strategyName'',
      pr_openedAtMicros = read_int i64 conv j ''openedAt''\<rparr>"

definition decodePositionRecord :: "'f double_conv \<Rightarrow> string \<Rightarrow> 'f position_record option" where
  "decodePositionRecord conv text =
     (case json_parse (double_ops.truncate conv) text of
        Inr (JObject kvs) \<Rightarrow>
          (let r = record_of conv (JObject kvs) in
           if pr_dealReference r = [] \<or> pr_symbol r = [] \<or> pr_direction r = [] then None else Some r)
      | _ \<Rightarrow> None)"

text \<open>A quoted member of the hand-rolled payload.\<close>

definition quoted :: "string \<Rightarrow> string" where
  "quoted s = CHR 0x22 # s @ [CHR 0x22]"

definition encodePositionRecord :: "'f double_conv \<Rightarrow> 'f position_record \<Rightarrow> string" where
  "encodePositionRecord conv r =
     ''{'' @ quoted ''dealId'' @ '':'' @ quoted (pr_dealId r)
     @ '','' @ quoted ''dealReference'' @ '':'' @ quoted (pr_dealReference r)
     @ '','' @ quoted ''symbol'' @ '':'' @ quoted (pr_symbol r)
     @ '','' @ quoted ''epic'' @ '':'' @ quoted (pr_epic r)
     @ '','' @ quoted ''direction'' @ '':'' @ quoted (pr_direction r)
     @ '','' @ quoted ''size'' @ '':'' @ dbl_format conv (pr_size r)
     @ '','' @ quoted ''level'' @ '':'' @ int_dec (pr_level r)
     @ '','' @ quoted ''stopLevel'' @ '':'' @ int_dec (pr_stopLevel r)
     @ '','' @ quoted ''limitLevel'' @ '':'' @ int_dec (pr_limitLevel r)
     @ '','' @ quoted ''strategyId'' @ '':'' @ quoted (pr_strategyId r)
     @ '','' @ quoted ''strategyName'' @ '':'' @ quoted (pr_strategyName r)
     @ '','' @ quoted ''openedAt'' @ '':'' @ int_dec (pr_openedAtMicros r) @ ''}''"

record deal_receipt =
  dr_strategyId :: string
  dr_dealId :: string
  dr_strategyName :: string

definition decodeDealReceipt :: "'f double_ops \<Rightarrow> string \<Rightarrow> deal_receipt option" where
  "decodeDealReceipt dbl text =
     (case json_parse dbl text of
        Inr (JObject kvs) \<Rightarrow>
          Some \<lparr>dr_strategyId = read_string (JObject kvs) ''strategyId'',
                dr_dealId = read_string (JObject kvs) ''dealId'',
                dr_strategyName = read_string (JObject kvs) ''strategyName''\<rparr>
      | _ \<Rightarrow> None)"

subsection \<open>The store\<close>

datatype ListState = ListOk "string list" | ListMissing | ListFailed

definition fetchList :: "'w exec \<Rightarrow> 'f double_ops \<Rightarrow> string \<Rightarrow> 'w \<Rightarrow> ListState \<times> 'w" where
  "fetchList exec dbl strategyId w =
     (case getString exec (positionListKey strategyId) w of
        (Inl e, w') \<Rightarrow> (ListFailed, w')
      | (Inr None, w') \<Rightarrow> (ListMissing, w')
      | (Inr (Some text), w') \<Rightarrow>
          (case decodePositionList dbl text of None \<Rightarrow> (ListFailed, w') | Some ids \<Rightarrow> (ListOk ids, w')))"

definition getPositionsList :: "'w exec \<Rightarrow> 'f double_ops \<Rightarrow> string \<Rightarrow> 'w \<Rightarrow> string list option \<times> 'w" where
  "getPositionsList exec dbl strategyId w =
     (case fetchList exec dbl strategyId w of
        (ListOk ids, w') \<Rightarrow> (Some ids, w')
      | (ListMissing, w') \<Rightarrow> (Some [], w')
      | (ListFailed, w') \<Rightarrow> (None, w'))"

text \<open>A write whose failure is the result \<open>False\<close>.\<close>

definition stored :: "('w, bool) redis \<Rightarrow> 'w \<Rightarrow> bool \<times> 'w" where
  "stored m w = (case m w of (Inl e, w') \<Rightarrow> (False, w') | (Inr b, w') \<Rightarrow> (b, w'))"

definition savePosition :: "'w exec \<Rightarrow> string \<Rightarrow> string \<Rightarrow> int \<Rightarrow> 'w \<Rightarrow> bool \<times> 'w" where
  "savePosition exec dealId payload ttl = stored (setString exec (positionKey dealId) payload Always (Some ttl))"

definition saveDealReceipt :: "'w exec \<Rightarrow> string \<Rightarrow> string \<Rightarrow> string \<Rightarrow> int \<Rightarrow> 'w \<Rightarrow> bool \<times> 'w" where
  "saveDealReceipt exec dealReference symb payload ttl =
     stored (setString exec (dealReceiptKey dealReference symb) payload Always (Some ttl))"

text \<open>Writing a list back, without an expiry.\<close>

definition storeList :: "'w exec \<Rightarrow> 'f double_ops \<Rightarrow> string \<Rightarrow> string list \<Rightarrow> 'w \<Rightarrow> (json_error + bool) \<times> 'w" where
  "storeList exec dbl strategyId dealIds w =
     (case encodePositionList dbl dealIds of
        Inl e \<Rightarrow> (Inl e, w)
      | Inr text \<Rightarrow>
          (case stored (setString exec (positionListKey strategyId) text Always None) w of (b, w') \<Rightarrow> (Inr b, w')))"

definition addPosition :: "'w exec \<Rightarrow> 'f double_ops \<Rightarrow> string \<Rightarrow> string \<Rightarrow> 'w \<Rightarrow> (json_error + bool) \<times> 'w" where
  "addPosition exec dbl strategyId dealId w =
     (case fetchList exec dbl strategyId w of
        (ListFailed, w') \<Rightarrow> (Inr False, w')
      | (st, w') \<Rightarrow>
          (let dealIds = (case st of ListOk ids \<Rightarrow> ids | _ \<Rightarrow> []) in
           if dealId \<in> set dealIds then (Inr True, w')
           else storeList exec dbl strategyId (dealIds @ [dealId]) w'))"

text \<open>The \<open>MGET\<close> of the live deals; deals without one are left out, in list order.\<close>

definition live_payloads :: "(string \<times> string) list \<Rightarrow> string list \<Rightarrow> (string \<times> string) list" where
  "live_payloads liveDeals dealIds =
     List.map_filter (\<lambda>d. map_option (Pair d) (map_of liveDeals (positionKey d))) dealIds"

definition getPositionPayloads ::
  "'w exec \<Rightarrow> 'f double_ops \<Rightarrow> string \<Rightarrow> 'w \<Rightarrow> (string \<times> string) list option \<times> 'w" where
  "getPositionPayloads exec dbl strategyId w =
     (case fetchList exec dbl strategyId w of
        (ListMissing, w') \<Rightarrow> (Some [], w')
      | (ListFailed, w') \<Rightarrow> (None, w')
      | (ListOk dealIds, w') \<Rightarrow>
          if dealIds = [] then (Some [], w')
          else (case getMultiple exec (map positionKey dealIds) w' of
                  (Inl e, w'') \<Rightarrow> (None, w'')
                | (Inr liveDeals, w'') \<Rightarrow> (Some (live_payloads liveDeals dealIds), w'')))"

definition getPositionCount :: "'w exec \<Rightarrow> 'f double_ops \<Rightarrow> string \<Rightarrow> 'w \<Rightarrow> int option \<times> 'w" where
  "getPositionCount exec dbl strategyId w =
     (case getPositionPayloads exec dbl strategyId w of
        (None, w') \<Rightarrow> (None, w')
      | (Some ps, w') \<Rightarrow> (Some (i32 (int (length ps))), w'))"

definition refreshPositionList :: "'w exec \<Rightarrow> 'f double_ops \<Rightarrow> string \<Rightarrow> 'w \<Rightarrow> (json_error + bool) \<times> 'w" where
  "refreshPositionList exec dbl strategyId w =
     (case fetchList exec dbl strategyId w of
        (ListMissing, w') \<Rightarrow> (Inr True, w')
      | (ListFailed, w') \<Rightarrow> (Inr False, w')
      | (ListOk dealIds, w') \<Rightarrow>
          (case (if dealIds = [] then (Inr [], w') else getMultiple exec (map positionKey dealIds) w') of
             (Inl e, w'') \<Rightarrow> (Inr False, w'')
           | (Inr liveDeals, w'') \<Rightarrow>
               (let survivors = filter (\<lambda>d. map_of liveDeals (positionKey d) \<noteq> None) dealIds in
                if survivors = []
                then (case deleteKey exec (positionListKey strategyId) w'' of
                        (Inl e, w3) \<Rightarrow> (Inr False, w3)
                      | (Inr _, w3) \<Rightarrow> (Inr True, w3))
                else storeList exec dbl strategyId survivors w'')))"

definition removePosition :: "'w exec \<Rightarrow> 'f double_ops \<Rightarrow> string \<Rightarrow> string \<Rightarrow> 'w \<Rightarrow> (json_error + bool) \<times> 'w" where
  "removePosition exec dbl strategyId dealId w =
     (case getDelete exec (positionKey dealId) w of
        (Inl e, w1) \<Rightarrow> (Inr False, w1)
      | (Inr payload, w1) \<Rightarrow>
          (let w2 = (case payload of
                       Some text \<Rightarrow> snd (setString exec (historyPositionKey dealId) text Always (Some kHistoryTtl) w1)
                     | None \<Rightarrow> w1) in
           case fetchList exec dbl strategyId w2 of
             (ListMissing, w3) \<Rightarrow> (Inr True, w3)
           | (ListFailed, w3) \<Rightarrow> (Inr False, w3)
           | (ListOk dealIds, w3) \<Rightarrow> storeList exec dbl strategyId (filter (\<lambda>d. d \<noteq> dealId) dealIds) w3))"

text \<open>Outer \<open>None\<close> a failure, inner \<open>None\<close> a missing key.\<close>

definition getPayload :: "'w exec \<Rightarrow> string \<Rightarrow> 'w \<Rightarrow> string option option \<times> 'w" where
  "getPayload exec key w =
     (case getString exec key w of (Inl e, w') \<Rightarrow> (None, w') | (Inr v, w') \<Rightarrow> (Some v, w'))"

definition getPositionPayload :: "'w exec \<Rightarrow> string \<Rightarrow> 'w \<Rightarrow> string option option \<times> 'w" where
  "getPositionPayload exec dealId = getPayload exec (positionKey dealId)"

definition getHistoryPositionPayload :: "'w exec \<Rightarrow> string \<Rightarrow> 'w \<Rightarrow> string option option \<times> 'w" where
  "getHistoryPositionPayload exec dealId = getPayload exec (historyPositionKey dealId)"

definition getDealReceipt :: "'w exec \<Rightarrow> string \<Rightarrow> string \<Rightarrow> 'w \<Rightarrow> string option \<times> 'w" where
  "getDealReceipt exec dealReference symb w =
     (case getString exec (dealReceiptKey dealReference symb) w of
        (Inl e, w') \<Rightarrow> (None, w')
      | (Inr v, w') \<Rightarrow> (v, w'))"

text \<open>The strategies with a list; \<open>None\<close> where the scan never ends.\<close>

definition listStrategyIds :: "'w exec \<Rightarrow> 'w \<Rightarrow> (string list option \<times> 'w) option" where
  "listStrategyIds exec w =
     map_option (\<lambda>(res, w'). (case res of Inl e \<Rightarrow> None | Inr keys \<Rightarrow> Some (sort (map (drop 3) keys)), w'))
       (getKeysByPattern exec ''PL#*'' w)"

subsection \<open>The list codec\<close>

lemma all_strings_map: "all_strings (map JString ss) = Some ss"
  by (induction ss) simp_all

lemma encodePositionList_ok:
  assumes "\<forall>s \<in> set ids. utf8 s"
  shows "\<exists>text. encodePositionList dbl ids = Inr text \<and> decodePositionList dbl text = Some ids"
proof -
  have "canonical dbl (JArray (map JString ids))" using assms by simp
  from json_round_trip_value [OF this] show ?thesis
    by (auto simp: encodePositionList_def decodePositionList_def all_strings_map)
qed

subsection \<open>The book of a strategy\<close>

text \<open>What the key space says: the deals listed for a strategy, and those of them still live.\<close>

definition book :: "'f double_ops \<Rightarrow> redis_db \<Rightarrow> string \<Rightarrow> string list option" where
  "book dbl d strategyId =
     (case live d (positionListKey strategyId) of
        None \<Rightarrow> Some []
      | Some (RString text) \<Rightarrow> decodePositionList dbl text
      | Some _ \<Rightarrow> None)"

lemma book_utf8:
  assumes "book dbl d s = Some ids"
  shows "\<forall>i \<in> set ids. utf8 i"
proof -
  have all: "all_strings js = Some ss \<Longrightarrow> \<forall>v \<in> set js. json_utf8 v \<Longrightarrow> \<forall>i \<in> set ss. utf8 i" for js :: "'a json list" and ss
    by (induction js arbitrary: ss rule: all_strings.induct) auto
  have "decodePositionList dbl tx = Some ids \<Longrightarrow> \<forall>i \<in> set ids. utf8 i" for tx
    using parsed_is_utf8_value [of dbl tx] all by (fastforce simp: decodePositionList_def split: sum.splits json.splits)
  with assms show ?thesis using utf8_Nil by (auto simp: book_def split: option.splits rvalue.splits)
qed

definition live_deals :: "redis_db \<Rightarrow> string list \<Rightarrow> (string \<times> string) list" where
  "live_deals d ids = List.map_filter (\<lambda>i. map_option (Pair i) (live_string d (positionKey i))) ids"

lemma fetchList_contract:
  assumes "redis_contract exec db" "fetchList exec dbl s w = (st, w')"
  shows "passed (db w) (db w')"
    and "st = ListOk ids \<Longrightarrow> book dbl (db w') s = Some ids"
    and "st = ListMissing \<Longrightarrow> live (db w') (positionListKey s) = None \<and> book dbl (db w') s = Some []"
proof -
  obtain res w1 where g: "getString exec (positionListKey s) w = (res, w1)" by force
  note c = getString_contract [OF assms(1) g]
  show "passed (db w) (db w')" "st = ListOk ids \<Longrightarrow> book dbl (db w') s = Some ids"
    "st = ListMissing \<Longrightarrow> live (db w') (positionListKey s) = None \<and> book dbl (db w') s = Some []"
    using assms(2) g c by (auto simp: fetchList_def book_def split: sum.splits option.splits)
qed

lemma live_payloads_eq:
  assumes "\<forall>i \<in> set ids. map_of m (positionKey i) = live_string d (positionKey i)"
  shows "live_payloads m ids = live_deals d ids"
  using assms unfolding live_payloads_def live_deals_def
  by (induction ids) (simp_all add: List.map_filter_def)

text \<open>C36: Reading a strategy's positions changes nothing, and what it returns is exactly the listed
  deals whose payload is live, in list order. A failed command, or a list that is not a JSON array of
  strings, is never an answer: the result is then unknown, not empty.\<close>

theorem getPositionPayloads_is_book:
  assumes "redis_contract exec db" "getPositionPayloads exec dbl s w = (res, w')"
  shows "passed (db w) (db w') \<and> (\<forall>ps. res = Some ps \<longrightarrow>
           (\<exists>d ids. passed (db w) d \<and> passed d (db w') \<and> book dbl d s = Some ids \<and> ps = live_deals (db w') ids))"
proof -
  obtain st w1 where f: "fetchList exec dbl s w = (st, w1)" by force
  note fc = fetchList_contract [OF assms(1) f]
  obtain res2 w2 where g: "getMultiple exec (map positionKey (case st of ListOk ids \<Rightarrow> ids | _ \<Rightarrow> [])) w1 = (res2, w2)"
    by force
  note gc = getMultiple_contract [OF assms(1) g]
  show ?thesis
  proof (cases st)
    case (ListOk ids)
    show ?thesis
    proof (cases "ids = []")
      case True
      then show ?thesis using assms(2) f fc ListOk
        by (auto simp: getPositionPayloads_def live_deals_def List.map_filter_def)
    next
      case False
      then show ?thesis
        using assms(2) f g fc(1,2) ListOk passed_trans [OF fc(1) gc(1)] gc
          live_payloads_eq [of ids _ "db w2"]
        by (cases res2) (auto simp: getPositionPayloads_def intro!: exI [of _ "db w1"])
    qed
  next
    case ListMissing
    then show ?thesis using assms(2) f fc
      by (auto simp: getPositionPayloads_def live_deals_def List.map_filter_def)
  next
    case ListFailed
    then show ?thesis using assms(2) f fc by (auto simp: getPositionPayloads_def)
  qed
qed

subsection \<open>Changing the book\<close>

lemma storeList_contract:
  assumes "redis_contract exec db" "storeList exec dbl s ids w = (res, w')" "\<forall>i \<in> set ids. utf8 i"
    "res = Inr True"
  shows "\<exists>d tx. passed (db w) d \<and> db w' = put_key (positionListKey s) (RString tx) None d
           \<and> book dbl (db w') s = Some ids"
proof -
  obtain tx where tx: "encodePositionList dbl ids = Inr tx" "decodePositionList dbl tx = Some ids"
    using encodePositionList_ok [OF assms(3)] by blast
  obtain res1 where e: "setString exec (positionListKey s) tx Always None w = (res1, w')"
    and r: "res1 = Inr True"
    using assms(2,4) tx(1) by (auto simp: storeList_def stored_def split: prod.splits sum.splits)
  obtain d where "passed (db w) d" "db w' = put_key (positionListKey s) (RString tx) None d"
    using setString_contract [OF assms(1) e] r by (auto simp: set_result_def set_blocked_def set_expiry_def)
  then show ?thesis using tx(2) by (auto simp: book_def)
qed

text \<open>A position that was added is in the strategy's book, once, behind the deals already there;
  adding it again changes nothing. Other keys are untouched.\<close>

theorem addPosition_appends:
  assumes "redis_contract exec db" "addPosition exec dbl s i w = (Inr True, w')"
    "utf8 i"
  shows "\<exists>d ids. passed (db w) d \<and> book dbl d s = Some ids
           \<and> book dbl (db w') s = Some (if i \<in> set ids then ids else ids @ [i])
           \<and> (\<forall>k. k \<noteq> positionListKey s \<longrightarrow> db_keys (db w') k = db_keys (db w) k)"
proof -
  obtain st w1 where f: "fetchList exec dbl s w = (st, w1)" by force
  note fc = fetchList_contract [OF assms(1) f]
  have nf: "st \<noteq> ListFailed" using assms(2) f by (auto simp: addPosition_def)
  define ids where "ids = (case st of ListOk ids \<Rightarrow> ids | _ \<Rightarrow> [])"
  have b: "book dbl (db w1) s = Some ids" using fc nf by (cases st) (auto simp: ids_def)
  show ?thesis
  proof (cases "i \<in> set ids")
    case True
    then have "w' = w1" using assms(2) f nf by (cases st) (auto simp: addPosition_def ids_def)
    then show ?thesis using b fc(1) True passed_keys [OF fc(1)] by auto
  next
    case False
    then have "storeList exec dbl s (ids @ [i]) w1 = (Inr True, w')"
      using assms(2) f nf by (cases st) (auto simp: addPosition_def ids_def)
    from storeList_contract [OF assms(1) this] assms(3) book_utf8 [OF b] obtain d tx where
      d: "passed (db w1) d" "db w' = put_key (positionListKey s) (RString tx) None d"
        "book dbl (db w') s = Some (ids @ [i])" by auto
    have "\<forall>k. k \<noteq> positionListKey s \<longrightarrow> db_keys (db w') k = db_keys (db w) k"
      using d(1,2) fc(1) by (simp add: put_key_def passed_keys)
    with b d(3) fc(1) False show ?thesis by (intro exI [of _ "db w1"] exI [of _ ids]) simp
  qed
qed

text \<open>Refreshing drops exactly the deals whose payload has expired: the book is then the listed deals
  that were still live, in their order, and a book without any is empty.\<close>

theorem refreshPositionList_keeps_survivors:
  assumes "redis_contract exec db" "refreshPositionList exec dbl s w = (Inr True, w')"
  shows "\<exists>d d' ids. passed (db w) d \<and> passed d d' \<and> book dbl d s = Some ids
           \<and> book dbl (db w') s = Some (filter (\<lambda>i. live_string d' (positionKey i) \<noteq> None) ids)
           \<and> touched {positionListKey s} (db w) (db w')"
proof -
  obtain st w1 where f: "fetchList exec dbl s w = (st, w1)" by force
  note fc = fetchList_contract [OF assms(1) f]
  show ?thesis
  proof (cases st)
    case (ListOk ids)
    note b = fc(2) [OF ListOk]
    obtain res2 w2 where g: "getMultiple exec (map positionKey ids) w1 = (res2, w2)" by force
    note gc = getMultiple_contract [OF assms(1) g]
    have g': "(if ids = [] then (Inr [], w1) else getMultiple exec (map positionKey ids) w1) = (res2, w2)"
      using g by (auto simp: getMultiple_def)
    obtain m where m: "res2 = Inr m"
      using assms(2) f ListOk g' by (auto simp: refreshPositionList_def split: sum.splits)
    define survivors where "survivors = filter (\<lambda>i. map_of m (positionKey i) \<noteq> None) ids"
    have sv: "survivors = filter (\<lambda>i. live_string (db w2) (positionKey i) \<noteq> None) ids"
      unfolding survivors_def using gc(2) [OF m] by (intro filter_cong) auto
    have "book dbl (db w') s = Some survivors \<and> touched {positionListKey s} (db w2) (db w')"
    proof (cases "survivors = []")
      case True
      then obtain r where del: "deleteKey exec (positionListKey s) w2 = (Inr r, w')"
        using assms(2) f ListOk g' m
        by (auto simp: refreshPositionList_def survivors_def split: sum.splits prod.splits)
      then have "live (db w') (positionListKey s) = None" using deleteKey_contract [OF assms(1)] by fastforce
      then show ?thesis using True deleteKey_touched [OF assms(1) del] by (simp add: book_def)
    next
      case False
      then have "storeList exec dbl s survivors w2 = (Inr True, w')"
        using assms(2) f ListOk g' m by (auto simp: refreshPositionList_def survivors_def)
      moreover have "\<forall>i \<in> set survivors. utf8 i" using book_utf8 [OF b] by (simp add: survivors_def)
      ultimately obtain d tx where "passed (db w2) d" "db w' = put_key (positionListKey s) (RString tx) None d"
        "book dbl (db w') s = Some survivors" using storeList_contract [OF assms(1)] by blast
      then show ?thesis by (simp add: touched_put)
    qed
    moreover have "touched {positionListKey s} (db w) (db w2)"
      using touched_passed [OF passed_trans [OF fc(1) gc(1)]] .
    ultimately show ?thesis
      using fc(1) gc(1) b sv touched_trans [of "{positionListKey s}" "db w" "db w2" "{positionListKey s}" "db w'"] by auto
  next
    case ListMissing
    then have "w' = w1" using assms(2) f by (simp add: refreshPositionList_def)
    then show ?thesis using fc(1) fc(3) [OF ListMissing] touched_passed [OF fc(1)]
      by (intro exI [of _ "db w1"] exI [of _ "[]"]) simp
  next
    case ListFailed
    then show ?thesis using assms(2) f by (simp add: refreshPositionList_def)
  qed
qed

lemma key_prefixes:
  "positionKey i \<noteq> historyPositionKey j" "positionKey i \<noteq> positionListKey s" "historyPositionKey i \<noteq> positionListKey s"
  by (simp_all add: positionKey_def historyPositionKey_def positionListKey_def)

lemma live_None_passed: "passed d d' \<Longrightarrow> live d k = None \<Longrightarrow> live d' k = None"
  using passed_live by (metis not_None_eq)

lemma setString_live_None:
  assumes "redis_contract exec db" "setString exec k v wh expiry w = (res, w')"
    "\<forall>ms. expiry = Some ms \<longrightarrow> 0 < ms" "k \<noteq> k'" "live (db w) k' = None"
  shows "live (db w') k' = None"
proof -
  obtain d where "passed (db w) d" "db w' = d \<or> db w' = set_result k v wh expiry d"
    using setString_contract [OF assms(1-3)] by blast
  then show ?thesis
    using live_None_passed [OF _ assms(5)] assms(4) by (auto simp: set_result_def live_put_other)
qed

text \<open>A position that was removed is live no more, and the strategy's book is what it was without
  it, in order. Only its live key, its history key and the strategy's list were touched.\<close>

theorem removePosition_removes:
  assumes "redis_contract exec db" "removePosition exec dbl s i w = (Inr True, w')"
  shows "live (db w') (positionKey i) = None
         \<and> touched {positionKey i, historyPositionKey i, positionListKey s} (db w) (db w')
         \<and> (\<exists>d ids. touched {positionKey i, historyPositionKey i} (db w) d \<and> book dbl d s = Some ids
              \<and> book dbl (db w') s = Some (filter (\<lambda>j. j \<noteq> i) ids))"
proof -
  let ?hist = "{positionKey i, historyPositionKey i}"
  obtain payload w1 where g: "getDelete exec (positionKey i) w = (Inr payload, w1)"
    using assms(2) by (auto simp: removePosition_def split: prod.splits sum.splits)
  have n1: "live (db w1) (positionKey i) = None" using getDelete_contract [OF assms(1) g] by blast
  note t1 = getDelete_touched [OF assms(1) g]
  define w2 where "w2 = (case payload of
      Some p \<Rightarrow> snd (setString exec (historyPositionKey i) p Always (Some kHistoryTtl) w1) | None \<Rightarrow> w1)"
  have n2: "live (db w2) (positionKey i) = None \<and> touched ?hist (db w) (db w2)"
  proof (cases payload)
    case (Some p)
    obtain r w3 where e: "setString exec (historyPositionKey i) p Always (Some kHistoryTtl) w1 = (r, w3)" by force
    have pos: "\<forall>ms. Some kHistoryTtl = Some ms \<longrightarrow> 0 < ms" by (simp add: kHistoryTtl_def)
    have "live (db w3) (positionKey i) = None"
      using setString_live_None [OF assms(1) e pos _ n1] key_prefixes(1) [of i i] by simp
    then show ?thesis
      using Some e touched_trans [OF t1 setString_touched [OF assms(1) e pos]] by (simp add: w2_def insert_commute)
  qed (use t1 in \<open>simp add: w2_def n1 touched_def\<close>)
  obtain st w3 where f: "fetchList exec dbl s w2 = (st, w3)" by force
  note fc = fetchList_contract [OF assms(1) f]
  have n3: "live (db w3) (positionKey i) = None" using live_None_passed [OF fc(1)] n2 by blast
  have t3: "touched ?hist (db w) (db w3)"
    using touched_trans [OF conjunct2 [OF n2] touched_passed [OF fc(1), of ?hist]] by simp
  show ?thesis
  proof (cases st)
    case (ListOk ids)
    then have "storeList exec dbl s (filter (\<lambda>d. d \<noteq> i) ids) w3 = (Inr True, w')"
      using assms(2) g f by (simp add: removePosition_def w2_def [symmetric])
    moreover have "\<forall>j \<in> set (filter (\<lambda>d. d \<noteq> i) ids). utf8 j" using book_utf8 [OF fc(2) [OF ListOk]] by auto
    ultimately obtain d tx where d: "passed (db w3) d" "db w' = put_key (positionListKey s) (RString tx) None d"
      "book dbl (db w') s = Some (filter (\<lambda>d. d \<noteq> i) ids)"
      using storeList_contract [OF assms(1)] by blast
    have "live (db w') (positionKey i) = None"
      using d(2) live_None_passed [OF d(1) n3] key_prefixes(2) [of i s] by (auto simp: live_put_other)
    moreover have "touched {positionListKey s} (db w3) (db w')" using d(1,2) by (simp add: touched_put)
    moreover have "touched (?hist \<union> {positionListKey s}) (db w) (db w')"
      by (rule touched_trans [OF t3 calculation(2)])
    then have "touched {positionKey i, historyPositionKey i, positionListKey s} (db w) (db w')"
      by (simp add: insert_commute)
    ultimately show ?thesis
      using t3 fc(2) [OF ListOk] d(3) by blast
  next
    case ListMissing
    then have "w' = w3" using assms(2) g f by (simp add: removePosition_def w2_def [symmetric])
    moreover have "touched {positionKey i, historyPositionKey i, positionListKey s} (db w) (db w3)"
      using t3 by (simp add: touched_def)
    moreover have "\<exists>d ids. touched ?hist (db w) d \<and> book dbl d s = Some ids
        \<and> book dbl (db w3) s = Some (filter (\<lambda>j. j \<noteq> i) ids)"
      using t3 fc(3) [OF ListMissing] by (intro exI [of _ "db w3"] exI [of _ "[]"]) simp
    ultimately show ?thesis using n3 by simp
  next
    case ListFailed
    then show ?thesis using assms(2) g f by (simp add: removePosition_def w2_def [symmetric])
  qed
qed

subsection \<open>On a server in memory\<close>

definition sample_book :: redis_db where
  "sample_book =
     put_key (positionListKey ''S'') (RString [CHR ''['', CHR 0x22, CHR ''a'', CHR 0x22, CHR '','', CHR 0x22, CHR ''b'', CHR 0x22, CHR '']'']) None
       (put_key (positionKey ''b'') (RString ''{}'') (Some 300000000) empty_db)"

lemma getPositionPayloads_is_book_witness:
  "fst (getPositionPayloads mem_exec sample_doubles ''S'' sample_book) = Some [(''b'', ''{}'')]
   \<and> (\<exists>d ids. passed sample_book d \<and> book sample_doubles d ''S'' = Some ids
        \<and> [(''b'', ''{}'')] = live_deals (snd (getPositionPayloads mem_exec sample_doubles ''S'' sample_book)) ids)"
proof -
  have r: "fst (getPositionPayloads mem_exec sample_doubles ''S'' sample_book) = Some [(''b'', ''{}'')]"
    by code_simp
  from getPositionPayloads_is_book [OF mem_exec_contract prod.collapse [symmetric]] r show ?thesis by blast
qed

lemma addPosition_appends_witness:
  "fst (addPosition mem_exec sample_doubles ''S'' ''D1'' empty_db) = Inr True
   \<and> (\<exists>ids. book sample_doubles (snd (addPosition mem_exec sample_doubles ''S'' ''D1'' empty_db)) ''S''
            = Some (if ''D1'' \<in> set ids then ids else ids @ [''D1'']))"
proof -
  let ?r = "addPosition mem_exec sample_doubles ''S'' ''D1'' empty_db"
  have r: "fst ?r = Inr True" by code_simp
  then have e: "?r = (Inr True, snd ?r)" by (metis prod.collapse)
  have "utf8 ''D1''" by (rule utf8_ascii) simp
  from addPosition_appends [OF mem_exec_contract e this] r show ?thesis by blast
qed

lemma refreshPositionList_keeps_survivors_witness:
  "fst (refreshPositionList mem_exec sample_doubles ''S'' sample_book) = Inr True
   \<and> (\<exists>d d' ids. passed sample_book d \<and> book sample_doubles d ''S'' = Some ids
        \<and> book sample_doubles (snd (refreshPositionList mem_exec sample_doubles ''S'' sample_book)) ''S''
            = Some (filter (\<lambda>i. live_string d' (positionKey i) \<noteq> None) ids))"
proof -
  let ?r = "refreshPositionList mem_exec sample_doubles ''S'' sample_book"
  have r: "fst ?r = Inr True" by code_simp
  then have "?r = (Inr True, snd ?r)" by (metis prod.collapse)
  from refreshPositionList_keeps_survivors [OF mem_exec_contract this] r show ?thesis by blast
qed

lemma removePosition_removes_witness:
  "fst (removePosition mem_exec sample_doubles ''S'' ''a'' sample_book) = Inr True
   \<and> live (snd (removePosition mem_exec sample_doubles ''S'' ''a'' sample_book)) (positionKey ''a'') = None
   \<and> (\<exists>ids. book sample_doubles (snd (removePosition mem_exec sample_doubles ''S'' ''a'' sample_book)) ''S''
            = Some (filter (\<lambda>j. j \<noteq> ''a'') ids))"
proof -
  let ?r = "removePosition mem_exec sample_doubles ''S'' ''a'' sample_book"
  have r: "fst ?r = Inr True" by code_simp
  then have "?r = (Inr True, snd ?r)" by (metis prod.collapse)
  from removePosition_removes [OF mem_exec_contract this] r show ?thesis by blast
qed

end
