(* ===== verification/SyncClient.thy ===== *)
theory SyncClient
  imports Prelude
begin

section \<open>The synchronous Redis client\<close>

text \<open>
  \<open>SyncRedisClient\<close> of \<open>shared/redis/client\<close>: one operation is pumped to its completion or its
  deadline, and a breaker answers at once for a while after a failure. The io context is a parameter:
  the steady clock, \<open>run_one_for\<close> (at most one handler within a time, and how many it ran) and the
  cancelling of pending requests. An operation is the step that spawns it and \<open>poll\<close>, its outcome so
  far: still running, an exception's text, or a value. Times are ticks; the epoch is 0.
\<close>

record 'w pump =
  steady_now :: "'w \<Rightarrow> time \<times> 'w"
  run_one_for :: "time \<Rightarrow> 'w \<Rightarrow> nat \<times> 'w"
  cancel_exec :: "'w \<Rightarrow> 'w"

record sync_client =
  opTimeout :: time
  failFastCooldown :: time
  failFastUntil :: time

definition new_sync_client :: "time \<Rightarrow> time \<Rightarrow> sync_client" where
  "new_sync_client timeout cooldown =
     \<lparr>opTimeout = timeout, failFastCooldown = cooldown, failFastUntil = 0\<rparr>"

definition breakerOpen :: "'w pump \<Rightarrow> sync_client \<Rightarrow> 'w \<Rightarrow> bool \<times> 'w" where
  "breakerOpen p cl w = (case steady_now p w of (now, w') \<Rightarrow> (now < failFastUntil cl, w'))"

definition closeBreaker :: "sync_client \<Rightarrow> sync_client" where
  "closeBreaker cl = cl\<lparr>failFastUntil := 0\<rparr>"

definition tripBreaker :: "'w pump \<Rightarrow> sync_client \<Rightarrow> 'w \<Rightarrow> sync_client \<times> 'w" where
  "tripBreaker p cl w =
     (case steady_now p (cancel_exec p w) of
        (now, w') \<Rightarrow> (cl\<lparr>failFastUntil := now + failFastCooldown cl\<rparr>, w'))"

definition timed_out :: string where
  "timed_out = ''timed out (Redis unreachable?)''"

definition connection_stopped :: string where
  "connection_stopped = ''connection stopped before the command completed''"

text \<open>The loop of \<open>pumpUntil\<close>: \<open>None\<close> where it never ends; else the reason for giving up, if any.\<close>

partial_function (option) pump_loop ::
  "'w pump \<Rightarrow> ('w \<Rightarrow> bool) \<Rightarrow> time \<Rightarrow> 'w \<Rightarrow> (string option \<times> 'w) option" where
  "pump_loop p finished deadline w =
     (if finished w then Some (None, w)
      else (case steady_now p w of
              (now, w1) \<Rightarrow>
                if now \<ge> deadline then Some (Some timed_out, w1)
                else (case run_one_for p (deadline - now) w1 of
                        (n, w2) \<Rightarrow>
                          if n = 0 \<and> \<not> finished w2
                          then (case steady_now p w2 of
                                  (now', w3) \<Rightarrow>
                                    Some (Some (if now' \<ge> deadline then timed_out else connection_stopped), w3))
                          else pump_loop p finished deadline w2)))"

definition pumpUntil ::
  "'w pump \<Rightarrow> ('w \<Rightarrow> bool) \<Rightarrow> sync_client \<Rightarrow> 'w \<Rightarrow> (string option \<times> sync_client \<times> 'w) option" where
  "pumpUntil p finished cl w =
     (case steady_now p w of
        (now, w1) \<Rightarrow>
          (case pump_loop p finished (now + opTimeout cl) w1 of
             None \<Rightarrow> None
           | Some (None, w2) \<Rightarrow> Some (None, cl, w2)
           | Some (Some reason, w2) \<Rightarrow>
               (case tripBreaker p cl w2 of (cl', w3) \<Rightarrow> Some (Some reason, cl', w3))))"

text \<open>\<open>run\<close>: a value, or a failure with its text, empty where the breaker skipped the call.\<close>

definition run_op ::
  "'w pump \<Rightarrow> ('w \<Rightarrow> 'w) \<Rightarrow> ('w \<Rightarrow> (string + 'a) option) \<Rightarrow> sync_client \<Rightarrow> 'w \<Rightarrow>
     ((string + 'a) \<times> sync_client \<times> 'w) option" where
  "run_op p spawn poll cl w =
     (case breakerOpen p cl w of
        (True, w1) \<Rightarrow> Some (Inl [], cl, w1)
      | (False, w1) \<Rightarrow>
          (case pumpUntil p (\<lambda>w. poll w \<noteq> None) cl (spawn w1) of
             None \<Rightarrow> None
           | Some (Some reason, cl', w2) \<Rightarrow> Some (Inl reason, cl', w2)
           | Some (None, cl', w2) \<Rightarrow>
               (case poll w2 of
                  Some (Inl e) \<Rightarrow> (case tripBreaker p cl' w2 of (cl'', w3) \<Rightarrow> Some (Inl e, cl'', w3))
                | Some (Inr x) \<Rightarrow> Some (Inr x, closeBreaker cl', w2)
                | None \<Rightarrow> Some (Inl [], cl', w2))))"

subsection \<open>The call ends\<close>

text \<open>The clock never goes back, and running handlers takes time.\<close>

definition clock_advances :: "'w pump \<Rightarrow> ('w \<Rightarrow> time) \<Rightarrow> bool" where
  "clock_advances p clock \<longleftrightarrow>
     (\<forall>w. fst (steady_now p w) = clock (snd (steady_now p w)) \<and> clock w \<le> clock (snd (steady_now p w)))
     \<and> (\<forall>d w. 0 < d \<longrightarrow> fst (run_one_for p d w) \<noteq> 0 \<longrightarrow> clock w < clock (snd (run_one_for p d w)))
     \<and> (\<forall>d w. clock w \<le> clock (snd (run_one_for p d w)))"

lemma pump_loop_ends:
  assumes "clock_advances p clock"
  shows "\<exists>r. pump_loop p finished deadline w = Some r"
proof (induction "nat (deadline - clock w)" arbitrary: w rule: less_induct)
  case less
  obtain now w1 where s: "steady_now p w = (now, w1)" by force
  obtain n w2 where r: "run_one_for p (deadline - now) w1 = (n, w2)" by force
  have now: "now = clock w1" "clock w \<le> clock w1"
    using assms s unfolding clock_advances_def by (metis fst_conv snd_conv)+
  show ?case
  proof (cases "finished w \<or> now \<ge> deadline \<or> (n = 0 \<and> \<not> finished w2)")
    case True
    then show ?thesis using s r by (subst pump_loop.simps) (auto split: prod.split)
  next
    case False
    have "\<exists>r. pump_loop p finished deadline w2 = Some r"
    proof (cases "n = 0")
      case True
      with False show ?thesis by (subst pump_loop.simps) simp
    next
      case n: False
      have "clock w1 < clock w2"
        using assms n False r unfolding clock_advances_def by (metis diff_gt_0_iff_gt fst_conv linorder_not_le snd_conv)
      then show ?thesis using less [of w2] now False by simp
    qed
    then show ?thesis using False s r by (subst pump_loop.simps) auto
  qed
qed

text \<open>C37: A call to Redis always comes back, connected or not, as long as the clock moves on while
  handlers run: the pump never waits past its deadline for ever.\<close>

theorem run_op_returns:
  assumes "clock_advances p clock"
  shows "\<exists>r. run_op p spawn poll cl w = Some r"
proof -
  obtain b w1 where b: "breakerOpen p cl w = (b, w1)" by force
  obtain now w2 where s: "steady_now p (spawn w1) = (now, w2)" by force
  obtain reason w3 where l: "pump_loop p (\<lambda>w. poll w \<noteq> None) (now + opTimeout cl) w2 = Some (reason, w3)"
    using pump_loop_ends [OF assms] by fastforce
  then obtain cl' w4 where "pumpUntil p (\<lambda>w. poll w \<noteq> None) cl (spawn w1) = Some (reason, cl', w4)"
    using s by (cases reason; cases "tripBreaker p cl w3") (auto simp: pumpUntil_def)
  then show ?thesis
    using b by (cases b; cases reason; cases "poll w4")
      (auto simp: run_op_def split: sum.split prod.split)
qed

lemma pump_loop_finished:
  assumes "pump_loop p finished deadline w = Some (None, w')"
  shows "finished w'"
proof -
  have "fst (None :: string option, w') = None \<longrightarrow> finished (snd (None :: string option, w'))"
  proof (rule pump_loop.raw_induct [OF _ assms, where P = "\<lambda>p finished deadline w r. fst r = None \<longrightarrow> finished (snd r)"], goal_cases)
    case (1 rec p finished deadline w r)
    have "rec p finished deadline v = Some r \<Longrightarrow> fst r = None \<longrightarrow> finished (snd r)" for v
      using 1(1) [of p finished deadline v r] .
    with 1(2) show ?case by (auto split: if_splits prod.splits)
  qed
  then show ?thesis by simp
qed

lemma run_op_breaker_facts:
  assumes "run_op p spawn poll cl w = Some (res, cl', w')"
  shows "fst (steady_now p w) < failFastUntil cl \<Longrightarrow> res = Inl [] \<and> cl' = cl \<and> w' = snd (steady_now p w)"
    and "\<And>x. res = Inr x \<Longrightarrow> failFastUntil cl' = 0 \<and> poll w' = Some (Inr x)"
    and "\<And>e. res = Inl e \<Longrightarrow> failFastUntil cl \<le> fst (steady_now p w) \<Longrightarrow>
           \<exists>v. w' = snd (steady_now p (cancel_exec p v))
             \<and> failFastUntil cl' = fst (steady_now p (cancel_exec p v)) + failFastCooldown cl"
proof -
  show "fst (steady_now p w) < failFastUntil cl \<Longrightarrow> res = Inl [] \<and> cl' = cl \<and> w' = snd (steady_now p w)"
    using assms by (auto simp: run_op_def breakerOpen_def split: prod.splits)
  show "failFastUntil cl' = 0 \<and> poll w' = Some (Inr x)" if "res = Inr x" for x
    using assms that
    by (auto simp: run_op_def closeBreaker_def split: prod.splits bool.splits option.splits sum.splits)
  show "\<exists>v. w' = snd (steady_now p (cancel_exec p v))
             \<and> failFastUntil cl' = fst (steady_now p (cancel_exec p v)) + failFastCooldown cl"
    if e: "res = Inl e" and closed: "failFastUntil cl \<le> fst (steady_now p w)" for e
  proof -
    obtain now w1 where s: "steady_now p w = (now, w1)" by force
    have b: "breakerOpen p cl w = (False, w1)" using closed s by (simp add: breakerOpen_def)
    have trip: "\<exists>v. w' = snd (steady_now p (cancel_exec p v))
        \<and> failFastUntil cl' = fst (steady_now p (cancel_exec p v)) + failFastCooldown cl"
      if "tripBreaker p cl w2 = (cl', w')" for w2
      using that by (intro exI [of _ w2]) (auto simp: tripBreaker_def split: prod.splits)
    obtain r cl2 w2 where u: "pumpUntil p (\<lambda>w. poll w \<noteq> None) cl (spawn w1) = Some (r, cl2, w2)"
      using assms b by (auto simp: run_op_def split: option.splits)
    show ?thesis
    proof (cases r)
      case None
      then have "poll w2 \<noteq> None" "cl2 = cl"
        using u pump_loop_finished [of p "\<lambda>w. poll w \<noteq> None"]
        by (auto simp: pumpUntil_def split: prod.splits option.splits)
      then obtain e' where "poll w2 = Some (Inl e')"
        using assms b u None e by (auto simp: run_op_def split: option.splits sum.splits)
      then show ?thesis using assms b u None \<open>cl2 = cl\<close> trip by (auto simp: run_op_def split: prod.splits)
    next
      case (Some reason)
      then have "cl' = cl2" "w' = w2" using assms b u by (auto simp: run_op_def)
      then show ?thesis using u Some trip by (auto simp: pumpUntil_def split: prod.splits option.splits)
    qed
  qed
qed

text \<open>C38: With the breaker open a call answers at once, empty-handed and without touching the
  connection. A call that succeeds closes the breaker; one that fails for another reason leaves it
  open for the whole cooldown after the pending requests were cancelled.\<close>

theorem run_op_breaker:
  assumes "run_op p spawn poll cl w = Some (res, cl', w')"
  shows "(fst (steady_now p w) < failFastUntil cl \<longrightarrow> res = Inl [] \<and> cl' = cl \<and> w' = snd (steady_now p w))
    \<and> (\<forall>x. res = Inr x \<longrightarrow> failFastUntil cl' = 0 \<and> poll w' = Some (Inr x))
    \<and> (\<forall>e. res = Inl e \<and> failFastUntil cl \<le> fst (steady_now p w) \<longrightarrow>
           (\<exists>v. w' = snd (steady_now p (cancel_exec p v))
             \<and> failFastUntil cl' = fst (steady_now p (cancel_exec p v)) + failFastCooldown cl))"
  using run_op_breaker_facts [OF assms] by blast

definition tick_pump :: "time pump" where
  "tick_pump = \<lparr>steady_now = (\<lambda>w. (w, w)), run_one_for = (\<lambda>d w. (1, w + 1)), cancel_exec = (\<lambda>w. w)\<rparr>"

lemma run_op_returns_witness:
  "clock_advances tick_pump (\<lambda>w. w)
   \<and> (\<exists>r. run_op tick_pump (\<lambda>w. w) (\<lambda>w. None :: (string + bool) option) (new_sync_client 2 3) 0 = Some r)"
proof -
  have "clock_advances tick_pump (\<lambda>w. w)" by (simp add: clock_advances_def tick_pump_def)
  from this run_op_returns [OF this] show ?thesis by blast
qed

lemma run_op_breaker_witness:
  "run_op tick_pump (\<lambda>w. w) (\<lambda>w. Some (Inr True)) ((new_sync_client 2 3)\<lparr>failFastUntil := 10\<rparr>) 5
     = Some (Inl [] :: string + bool, (new_sync_client 2 3)\<lparr>failFastUntil := 10\<rparr>, 5)
   \<and> (Inl [] :: string + bool) = Inl []"
proof -
  have r: "run_op tick_pump (\<lambda>w. w) (\<lambda>w. Some (Inr True)) ((new_sync_client 2 3)\<lparr>failFastUntil := 10\<rparr>) 5
     = Some (Inl [] :: string + bool, (new_sync_client 2 3)\<lparr>failFastUntil := 10\<rparr>, 5)"
    by (simp add: run_op_def breakerOpen_def tick_pump_def)
  then show ?thesis using run_op_breaker [OF r] by (simp add: tick_pump_def)
qed

end
