(* ===== verification/TradeLocks.thy ===== *)
theory TradeLocks
  imports RedisContract
begin

section \<open>Trade locks\<close>

text \<open>
  \<open>shared/redis/tradeLocks\<close>: one lock per strategy and direction, taken with \<open>SET NX PX\<close>, the live
  entry gate. An instance remembers until when the locks it took are surely held. The steady clock is
  a parameter, read before the command; the host name is one too. Times to live are seconds.
\<close>

definition lockKey :: "string \<Rightarrow> string \<Rightarrow> string" where
  "lockKey strategyUuid direction = ''LOCK#'' @ strategyUuid @ ''#'' @ direction"

record 'w lock_env =
  lk_exec :: "'w exec"
  lk_now :: "'w \<Rightarrow> time \<times> 'w"
  lk_hostname :: "string option"

text \<open>\<open>lockOwner\<close>: the host name cut to the 255 bytes of its buffer.\<close>

definition lockOwner :: "'w lock_env \<Rightarrow> string" where
  "lockOwner env =
     (case lk_hostname env of None \<Rightarrow> ''live'' | Some h \<Rightarrow> takeWhile (\<lambda>c. c \<noteq> CHR 0x00) (take 255 h))"

type_synonym held = "(string \<times> time) list"

text \<open>True: locked, do not trade.\<close>

definition isThereATradeLock ::
  "'w lock_env \<Rightarrow> string \<Rightarrow> string \<Rightarrow> int \<Rightarrow> held \<Rightarrow> 'w \<Rightarrow> bool \<times> held \<times> 'w" where
  "isThereATradeLock env strategyUuid direction ttl heldUntil w =
     (let key = lockKey strategyUuid direction in
      case lk_now env w of (now, w1) \<Rightarrow>
        if (case map_of heldUntil key of Some t \<Rightarrow> now < t | None \<Rightarrow> False) then (True, heldUntil, w1)
        else let heldUntil = AList.delete key heldUntil in
             (case setIfNotExists (lk_exec env) key (lockOwner env) (Some (ttl * 1000)) w1 of
                (Inl e, w2) \<Rightarrow> (True, heldUntil, w2)
              | (Inr b, w2) \<Rightarrow>
                  if b then (False, AList.update key (now + ttl * 1000000) heldUntil, w2)
                  else (True, heldUntil, w2)))"

definition extendLock ::
  "'w lock_env \<Rightarrow> string \<Rightarrow> string \<Rightarrow> int \<Rightarrow> held \<Rightarrow> 'w \<Rightarrow> bool \<times> held \<times> 'w" where
  "extendLock env strategyUuid direction ttl heldUntil w =
     (let key = lockKey strategyUuid direction in
      case lk_now env w of (now, w1) \<Rightarrow>
        (case setString (lk_exec env) key (lockOwner env) Always (Some (ttl * 1000)) w1 of
           (Inl e, w2) \<Rightarrow> (False, heldUntil, w2)
         | (Inr b, w2) \<Rightarrow>
             if b then (True, AList.update key (now + ttl * 1000000) heldUntil, w2)
             else (False, heldUntil, w2)))"

definition releaseLock ::
  "'w lock_env \<Rightarrow> string \<Rightarrow> string \<Rightarrow> held \<Rightarrow> 'w \<Rightarrow> bool \<times> held \<times> 'w" where
  "releaseLock env strategyUuid direction heldUntil w =
     (let key = lockKey strategyUuid direction; heldUntil = AList.delete key heldUntil in
      case deleteKey (lk_exec env) key w of
        (Inl e, w') \<Rightarrow> (False, heldUntil, w')
      | (Inr _, w') \<Rightarrow> (True, heldUntil, w'))"

subsection \<open>Mutual exclusion\<close>

text \<open>Reading the clock takes time and nothing else.\<close>

definition lock_env_ok :: "'w lock_env \<Rightarrow> ('w \<Rightarrow> redis_db) \<Rightarrow> bool" where
  "lock_env_ok env db \<longleftrightarrow>
     redis_contract (lk_exec env) db \<and> (\<forall>w. passed (db w) (db (snd (lk_now env w))))"

lemma lock_env_contract: "lock_env_ok env db \<Longrightarrow> redis_contract (lk_exec env) db"
  by (simp add: lock_env_ok_def)

text \<open>What any instances may do between two checks of the same lock: other checks, of this lock or any
  other, extensions by at least the same time to live, and nothing.\<close>

inductive lock_steps :: "'w lock_env \<Rightarrow> ('w \<Rightarrow> redis_db) \<Rightarrow> int \<Rightarrow> 'w \<Rightarrow> 'w \<Rightarrow> bool"
  for env db ttl where
  lock_done: "lock_steps env db ttl w w"
| lock_check: "isThereATradeLock env s d ttl' h w = (r, h', w') \<Longrightarrow> 0 < ttl' \<Longrightarrow>
    lock_steps env db ttl w' v \<Longrightarrow> lock_steps env db ttl w v"
| lock_extend: "extendLock env s d ttl' h w = (r, h', w') \<Longrightarrow> ttl \<le> ttl' \<Longrightarrow> 0 < ttl' \<Longrightarrow>
    lock_steps env db ttl w' v \<Longrightarrow> lock_steps env db ttl w v"
| lock_idle: "passed (db w) (db w') \<Longrightarrow> lock_steps env db ttl w' v \<Longrightarrow> lock_steps env db ttl w v"

definition locked_until :: "redis_db \<Rightarrow> string \<Rightarrow> time \<Rightarrow> bool" where
  "locked_until d k t \<longleftrightarrow> (\<exists>v e. db_keys d k = Some (v, Some e) \<and> t \<le> e) \<or> t \<le> db_now d"

lemma locked_until_passed: "passed d d' \<Longrightarrow> locked_until d k t \<Longrightarrow> locked_until d' k t"
  unfolding locked_until_def by (auto simp: passed_keys dest: passed_now)

lemma locked_until_blocks: "locked_until d k t \<Longrightarrow> live d k = None \<Longrightarrow> t \<le> db_now d"
  by (auto simp: locked_until_def live_def split: if_splits)

lemma locked_until_set:
  assumes "locked_until d k t" "wh = NotExists \<or> t \<le> db_now d + 1000 * ms" "wh \<noteq> Exists"
  shows "locked_until (set_result k' v wh (Some ms) d) k t"
proof (cases "k' = k \<and> \<not> set_blocked d k wh")
  case True
  then have "t \<le> db_now d + 1000 * ms \<or> t \<le> db_now d"
    using assms locked_until_blocks [OF assms(1)] by (auto simp: set_blocked_def)
  then show ?thesis
    using True by (auto simp: locked_until_def set_result_def put_key_def set_expiry_def expiry_at_def)
qed (use assms(1) in \<open>auto simp: locked_until_def set_result_def put_key_def\<close>)

text \<open>A set of the lock, by a check or an extension, at a later time.\<close>

lemma set_keeps_locked:
  assumes "redis_contract exec db" "setString exec k' v wh (Some ms) w = (res, w')" "0 < ms"
    "locked_until (db w) k t" "wh = NotExists \<or> t \<le> db_now (db w) + 1000 * ms" "wh \<noteq> Exists"
  shows "locked_until (db w') k t"
proof -
  obtain d where d: "passed (db w) d" "db w' = d \<or> db w' = set_result k' v wh (Some ms) d"
    using setString_contract [OF assms(1,2)] assms(3) by auto
  have "locked_until d k t" by (rule locked_until_passed [OF d(1) assms(4)])
  then show ?thesis
    using d(2) locked_until_set [of d k t wh ms k' v] assms(5,6) passed_now [OF d(1)] by auto
qed

lemma check_locked:
  assumes "lock_env_ok env db" "isThereATradeLock env s d ttl h w = (r, h', w')" "0 < ttl"
    "locked_until (db w) k t"
  shows "locked_until (db w') k t"
proof -
  obtain now w1 where n: "lk_now env w = (now, w1)" by force
  have w1: "locked_until (db w1) k t"
    using assms(1,4) n locked_until_passed unfolding lock_env_ok_def by (metis snd_conv)
  obtain res w2 where e: "setString (lk_exec env) (lockKey s d) (lockOwner env) NotExists (Some (ttl * 1000)) w1 = (res, w2)"
    by force
  have "locked_until (db w2) k t"
    using set_keeps_locked [OF lock_env_contract [OF assms(1)] e _ w1] assms(3) by simp
  moreover have "w' = w1 \<or> w' = w2"
    using assms(2) n e by (auto simp: isThereATradeLock_def setIfNotExists_def Let_def split: if_splits sum.splits)
  ultimately show ?thesis using w1 by blast
qed

lemma extend_locked:
  assumes "lock_env_ok env db" "extendLock env s d ttl h w = (r, h', w')" "0 < ttl"
    "locked_until (db w) k t" "t \<le> db_now (db w) + 1000000 * ttl"
  shows "locked_until (db w') k t"
proof -
  obtain now w1 where n: "lk_now env w = (now, w1)" by force
  have p: "passed (db w) (db w1)" using assms(1) n unfolding lock_env_ok_def by (metis snd_conv)
  obtain res w2 where e: "setString (lk_exec env) (lockKey s d) (lockOwner env) Always (Some (ttl * 1000)) w1 = (res, w2)"
    by force
  have "locked_until (db w2) k t"
    using set_keeps_locked [OF lock_env_contract [OF assms(1)] e _ locked_until_passed [OF p assms(4)]]
      assms(3,5) passed_now [OF p] by simp
  moreover have "w' = w2"
    using assms(2) n e by (auto simp: extendLock_def Let_def split: if_splits sum.splits)
  ultimately show ?thesis by blast
qed

lemma set_time:
  assumes "redis_contract exec db" "setString exec k v wh (Some ms) w = (res, w')" "0 < ms"
  shows "db_now (db w) \<le> db_now (db w')"
proof -
  obtain d where "passed (db w) d" "db w' = d \<or> db w' = set_result k v wh (Some ms) d"
    using setString_contract [OF assms(1,2)] assms(3) by auto
  then show ?thesis using passed_now [of "db w" d] by (auto simp: set_result_def)
qed

lemma check_time:
  assumes "lock_env_ok env db" "isThereATradeLock env s d ttl h w = (r, h', w')" "0 < ttl"
  shows "db_now (db w) \<le> db_now (db w')"
proof -
  obtain now w1 where n: "lk_now env w = (now, w1)" by force
  have p: "passed (db w) (db w1)" using assms(1) n unfolding lock_env_ok_def by (metis snd_conv)
  obtain res w2 where e: "setString (lk_exec env) (lockKey s d) (lockOwner env) NotExists (Some (ttl * 1000)) w1 = (res, w2)"
    by force
  have "w' = w1 \<or> w' = w2"
    using assms(2) n e by (auto simp: isThereATradeLock_def setIfNotExists_def Let_def split: if_splits sum.splits)
  then show ?thesis
    using passed_now [OF p] set_time [OF lock_env_contract [OF assms(1)] e] assms(3) by auto
qed

lemma extend_time:
  assumes "lock_env_ok env db" "extendLock env s d ttl h w = (r, h', w')" "0 < ttl"
  shows "db_now (db w) \<le> db_now (db w')"
proof -
  obtain now w1 where n: "lk_now env w = (now, w1)" by force
  have p: "passed (db w) (db w1)" using assms(1) n unfolding lock_env_ok_def by (metis snd_conv)
  obtain res w2 where e: "setString (lk_exec env) (lockKey s d) (lockOwner env) Always (Some (ttl * 1000)) w1 = (res, w2)"
    by force
  have "w' = w2" using assms(2) n e by (auto simp: extendLock_def Let_def split: if_splits sum.splits)
  then show ?thesis
    using passed_now [OF p] set_time [OF lock_env_contract [OF assms(1)] e] assms(3) by auto
qed

lemma lock_steps_keep:
  assumes "lock_steps env db ttl w v" "lock_env_ok env db" "locked_until (db w) k t"
    "t \<le> db_now (db w) + 1000000 * ttl"
  shows "locked_until (db v) k t"
  using assms
proof (induction rule: lock_steps.induct)
  case (lock_check s d ttl' h w r h' w' v)
  then show ?case
    using check_locked [OF lock_check.prems(1) lock_check.hyps(1,2)] check_time [OF lock_check.prems(1) lock_check.hyps(1,2)]
    by auto
next
  case (lock_extend s d ttl' h w r h' w' v)
  have "t \<le> db_now (db w) + 1000000 * ttl'" using lock_extend.prems(3) lock_extend.hyps(2) by linarith
  then show ?case
    using extend_locked [OF lock_extend.prems(1) lock_extend.hyps(1,3) lock_extend.prems(2)]
      extend_time [OF lock_extend.prems(1) lock_extend.hyps(1,3)] lock_extend.IH lock_extend.prems
    by auto
next
  case (lock_idle w w' v)
  then show ?case using locked_until_passed [OF lock_idle.hyps(1)] passed_now [OF lock_idle.hyps(1)] by auto
qed simp


text \<open>A failing Redis is a lock.\<close>

lemma lock_fails_closed:
  assumes "isThereATradeLock env s d ttl h w = (False, h', w')"
  shows "\<exists>v. setIfNotExists (lk_exec env) (lockKey s d) (lockOwner env) (Some (ttl * 1000)) v = (Inr True, w')"
  using assms by (auto simp: isThereATradeLock_def Let_def split: prod.splits if_splits sum.splits)

definition mem_lock_env :: "redis_db lock_env" where
  "mem_lock_env = \<lparr>lk_exec = mem_exec, lk_now = (\<lambda>d. (db_now d, d)), lk_hostname = None\<rparr>"


end
