(* ===== verification/PositionClustering.thy ===== *)
theory PositionClustering
  imports RedisContract SymbolScale
begin

section \<open>Position clustering\<close>

text \<open>
  \<open>shared/redis/positionClustering\<close>: the portfolio gate. Every symbol belongs to risk clusters; an
  entry takes a short lock on each of them and is blocked when one is full, already holds the symbol
  and strategy, or, for strict clusters, the strategy. The producer rebuilds the clusters' sets from
  the broker's book. Times to live of locks are seconds, of sets milliseconds; \<open>nonce\<close> is the
  process's random suffix. What is logged is left out.
\<close>

definition clusterKey :: "string \<Rightarrow> string" where
  "clusterKey cluster = ''CG#'' @ cluster"

definition clusterLockKey :: "string \<Rightarrow> string" where
  "clusterLockKey cluster = ''CLUSTER_LOCK#'' @ cluster"

subsection \<open>The tables\<close>

record symbol_clusters =
  sc_symbol :: string
  sc_groups :: "string list"
  sc_count :: nat

abbreviation cluster_row :: "string \<Rightarrow> string list \<Rightarrow> nat \<Rightarrow> symbol_clusters" where
  "cluster_row s gs n \<equiv> \<lparr>sc_symbol = s, sc_groups = gs, sc_count = n\<rparr>"

definition kClusterTable :: "symbol_clusters list" where
  "kClusterTable =
    [cluster_row ''AUDNZD'' [''Commodity_FX'', ''Crosses'', ''AUD_Pairs'', []] 3,
     cluster_row ''AUDUSD'' [''USD_Forex'', ''Commodity_FX'', ''AUD_Pairs'', []] 3,
     cluster_row ''AUSIDXAUD'' [''Asian_Index'', [], [], []] 1,
     cluster_row ''BRENTCMDUSD'' [''Energy'', [], [], []] 1,
     cluster_row ''COPPERCMDUSD'' [''Industrial_Metals'', [], [], []] 1,
     cluster_row ''DEUIDXEUR'' [''EU_Index'', [], [], []] 1,
     cluster_row ''EURAUD'' [''Crosses'', ''EUR_Pairs'', ''AUD_Pairs'', []] 3,
     cluster_row ''EURCHF'' [''Crosses'', ''EUR_Pairs'', [], []] 2,
     cluster_row ''EURGBP'' [''Crosses'', ''EUR_Pairs'', ''GBP_Pairs'', []] 3,
     cluster_row ''EURJPY'' [''Crosses'', ''EUR_Pairs'', ''JPY_Pairs'', []] 3,
     cluster_row ''EURNOK'' [''Commodity_FX'', ''Crosses'', ''EUR_Pairs'', ''Scandi_Pairs''] 4,
     cluster_row ''EURUSD'' [''USD_Forex'', ''EUR_Pairs'', [], []] 2,
     cluster_row ''FRAIDXEUR'' [''EU_Index'', [], [], []] 1,
     cluster_row ''GBPAUD'' [''Crosses'', ''GBP_Pairs'', ''AUD_Pairs'', []] 3,
     cluster_row ''GBPJPY'' [''Crosses'', ''GBP_Pairs'', ''JPY_Pairs'', []] 3,
     cluster_row ''GBPUSD'' [''USD_Forex'', ''GBP_Pairs'', [], []] 2,
     cluster_row ''GBRIDXGBP'' [''UK_Index'', [], [], []] 1,
     cluster_row ''HKGIDXHKD'' [''Asian_Index'', [], [], []] 1,
     cluster_row ''JPNIDXJPY'' [''Asian_Index'', [], [], []] 1,
     cluster_row ''LIGHTCMDUSD'' [''Energy'', [], [], []] 1,
     cluster_row ''NGASCMDUSD'' [''Energy'', [], [], []] 1,
     cluster_row ''NZDUSD'' [''USD_Forex'', ''Commodity_FX'', [], []] 2,
     cluster_row ''USA30IDXUSD'' [''US_Index'', [], [], []] 1,
     cluster_row ''USA500IDXUSD'' [''US_Index'', [], [], []] 1,
     cluster_row ''USATECHIDXUSD'' [''US_Index'', [], [], []] 1,
     cluster_row ''USDCAD'' [''USD_Forex'', ''Commodity_FX'', [], []] 2,
     cluster_row ''USDCHF'' [''USD_Forex'', [], [], []] 1,
     cluster_row ''USDJPY'' [''USD_Forex'', ''JPY_Pairs'', [], []] 2,
     cluster_row ''USDSEK'' [''USD_Forex'', ''Scandi_Pairs'', [], []] 2,
     cluster_row ''XAGUSD'' [''Precious_Metals'', [], [], []] 1,
     cluster_row ''XAUUSD'' [''Precious_Metals'', [], [], []] 1]"

record cluster_rule =
  cr_cluster :: string
  cr_limit :: int
  cr_strict :: bool

abbreviation rule_row :: "string \<Rightarrow> int \<Rightarrow> bool \<Rightarrow> cluster_rule" where
  "rule_row c n b \<equiv> \<lparr>cr_cluster = c, cr_limit = n, cr_strict = b\<rparr>"

definition kClusterRules :: "cluster_rule list" where
  "kClusterRules =
    [rule_row ''AUD_Pairs'' 2 False,
     rule_row ''Asian_Index'' 1 True,
     rule_row ''Commodity_FX'' 2 False,
     rule_row ''Crosses'' 2 False,
     rule_row ''EUR_Pairs'' 2 False,
     rule_row ''EU_Index'' 1 True,
     rule_row ''Energy'' 1 True,
     rule_row ''GBP_Pairs'' 2 False,
     rule_row ''Industrial_Metals'' 1 True,
     rule_row ''JPY_Pairs'' 2 False,
     rule_row ''Precious_Metals'' 1 True,
     rule_row ''Scandi_Pairs'' 1 False,
     rule_row ''UK_Index'' 1 True,
     rule_row ''USD_Forex'' 2 False,
     rule_row ''US_Index'' 1 True]"

text \<open>The other compile-time check: the count is the length of the non-empty prefix.\<close>

definition counts_match :: "symbol_clusters list \<Rightarrow> bool" where
  "counts_match tbl \<longleftrightarrow>
     (\<forall>e \<in> set tbl. 0 < sc_count e \<and> sc_count e \<le> length (sc_groups e)
        \<and> list_all (\<lambda>i. (i < sc_count e) = (sc_groups e ! i \<noteq> [])) [0..<length (sc_groups e)])"

definition groupsFor :: "string \<Rightarrow> string list" where
  "groupsFor symbol =
     (case table_search sc_symbol kClusterTable symbol 0 (length kClusterTable) of
        Some entry \<Rightarrow> take (sc_count entry) (sc_groups entry)
      | None \<Rightarrow> [])"

definition findRule :: "string \<Rightarrow> cluster_rule option" where
  "findRule cluster = table_search cr_cluster kClusterRules cluster 0 (length kClusterRules)"

definition clusterLimit :: "string \<Rightarrow> int" where
  "clusterLimit cluster = (case findRule cluster of Some r \<Rightarrow> cr_limit r | None \<Rightarrow> 1)"

definition isStrictCluster :: "string \<Rightarrow> bool" where
  "isStrictCluster cluster = (case findRule cluster of Some r \<Rightarrow> cr_strict r | None \<Rightarrow> False)"

subsection \<open>One cluster's decision\<close>

definition splitMember :: "string \<Rightarrow> (string \<times> string) option" where
  "splitMember member =
     (if CHR ''#'' \<notin> set member then None
      else let first = takeWhile (\<lambda>c. c \<noteq> CHR ''#'') member;
               rest = drop (length first + 1) member
           in Some (first, takeWhile (\<lambda>c. c \<noteq> CHR ''#'') rest))"

datatype ClusterVerdict = Allowed | GroupFull | SymbolStrategyStacked | StrategyNotDiverse

text \<open>A negative limit is a huge one: \<open>static_cast<std::size_t>\<close>.\<close>

definition evaluateClusterGroup :: "string list \<Rightarrow> string \<Rightarrow> string \<Rightarrow> int \<Rightarrow> bool \<Rightarrow> ClusterVerdict" where
  "evaluateClusterGroup members symbol strategyName limit strict_rule =
     (if int (length members) \<ge> u64 limit then GroupFull
      else if list_ex (\<lambda>m. splitMember m = Some (symbol, strategyName)) members then SymbolStrategyStacked
      else if strict_rule \<and> list_ex (\<lambda>m. map_option snd (splitMember m) = Some strategyName) members
      then StrategyNotDiverse
      else Allowed)"

record cluster_member =
  cm_symbol :: string
  cm_strategyName :: string
  cm_dealReference :: string

definition clusterMemberString :: "cluster_member \<Rightarrow> string" where
  "clusterMemberString m = cm_symbol m @ ''#'' @ cm_strategyName m @ ''#'' @ cm_dealReference m"

text \<open>\<open>clusters[group].push_back(value)\<close> for every group of every member, then sort and unique.\<close>

definition push_member :: "string \<Rightarrow> string \<Rightarrow> (string \<times> string list) list \<Rightarrow> (string \<times> string list) list" where
  "push_member v g clusters =
     map_put g ((case map_of clusters g of Some vs \<Rightarrow> vs | None \<Rightarrow> []) @ [v]) clusters"

definition groupMembersByCluster ::
  "cluster_member list \<Rightarrow> (string \<Rightarrow> string list) \<Rightarrow> (string \<times> string list) list" where
  "groupMembersByCluster members lookup =
     map (\<lambda>(g, vs). (g, remdups_adj (sort vs)))
       (fold (\<lambda>m. fold (push_member (clusterMemberString m)) (lookup (cm_symbol m))) members [])"

subsection \<open>The gate\<close>

text \<open>True: blocked. Locks that were taken are left to expire.\<close>

fun take_locks :: "'w exec \<Rightarrow> string \<Rightarrow> int \<Rightarrow> string list \<Rightarrow> 'w \<Rightarrow> bool \<times> 'w" where
  "take_locks exec symbol ttl [] w = (False, w)"
| "take_locks exec symbol ttl (g # groups) w =
     (case setIfNotExists exec (clusterLockKey g) symbol (Some (ttl * 1000)) w of
        (Inl e, w') \<Rightarrow> (True, w')
      | (Inr b, w') \<Rightarrow> if b then take_locks exec symbol ttl groups w' else (True, w'))"

fun check_groups :: "'w exec \<Rightarrow> string \<Rightarrow> string \<Rightarrow> string list \<Rightarrow> 'w \<Rightarrow> bool \<times> 'w" where
  "check_groups exec symbol strategyName [] w = (False, w)"
| "check_groups exec symbol strategyName (g # groups) w =
     (case setMembers exec (clusterKey g) w of
        (Inl e, w') \<Rightarrow> (True, w')
      | (Inr members, w') \<Rightarrow>
          if evaluateClusterGroup members symbol strategyName (clusterLimit g) (isStrictCluster g) = Allowed
          then check_groups exec symbol strategyName groups w' else (True, w'))"

definition isClusterBlocked :: "'w exec \<Rightarrow> string \<Rightarrow> string \<Rightarrow> int \<Rightarrow> 'w \<Rightarrow> bool \<times> 'w" where
  "isClusterBlocked exec symbol strategyName lockTtl w =
     (let groups = groupsFor symbol in
      if groups = [] then (True, w)
      else case take_locks exec symbol lockTtl groups w of
             (True, w') \<Rightarrow> (True, w')
           | (False, w') \<Rightarrow> check_groups exec symbol strategyName groups w')"

definition markOpened :: "'w exec \<Rightarrow> string \<Rightarrow> int \<Rightarrow> 'w \<Rightarrow> 'w" where
  "markOpened exec symbol ttl w =
     fold (\<lambda>g w. snd (setString exec (clusterLockKey g) symbol Always (Some (ttl * 1000)) w))
       (groupsFor symbol) w"

subsection \<open>The producer\<close>

fun fill_set :: "'w exec \<Rightarrow> string \<Rightarrow> string list \<Rightarrow> 'w \<Rightarrow> bool \<times> 'w" where
  "fill_set exec key [] w = (True, w)"
| "fill_set exec key (v # vs) w =
     (case setAdd exec key v w of (Inl e, w') \<Rightarrow> (False, w') | (Inr _, w') \<Rightarrow> fill_set exec key vs w')"

definition temp_key :: "string \<Rightarrow> string \<Rightarrow> string" where
  "temp_key cluster nonce = ''temp_CG#'' @ cluster @ ''#'' @ nonce"

definition sync_cluster :: "'w exec \<Rightarrow> string \<Rightarrow> int \<Rightarrow> string \<Rightarrow> string list \<Rightarrow> 'w \<Rightarrow> bool \<times> 'w" where
  "sync_cluster exec nonce ttl cluster vs w =
     (let tempKey = temp_key cluster nonce; key = clusterKey cluster in
      case deleteKey exec tempKey w of (res, w1) \<Rightarrow>
        if (case res of Inl e \<Rightarrow> e \<noteq> [] | Inr _ \<Rightarrow> False) then (False, w1)
        else (case fill_set exec tempKey vs w1 of
                (False, w2) \<Rightarrow> (False, snd (deleteKey exec tempKey w2))
              | (True, w2) \<Rightarrow>
                  (case keyRename exec tempKey key w2 of
                     (Inl e, w3) \<Rightarrow> (False, w3)
                   | (Inr _, w3) \<Rightarrow>
                       (case setTTL exec key ttl w3 of
                          (Inl e, w4) \<Rightarrow> (False, w4)
                        | (Inr _, w4) \<Rightarrow> (True, w4)))))"

fun sync_loop :: "'w exec \<Rightarrow> string \<Rightarrow> int \<Rightarrow> (string \<times> string list) list \<Rightarrow> 'w \<Rightarrow> bool \<times> 'w" where
  "sync_loop exec nonce ttl [] w = (True, w)"
| "sync_loop exec nonce ttl ((cluster, vs) # rest) w =
     (case sync_cluster exec nonce ttl cluster vs w of
        (ok, w') \<Rightarrow> (case sync_loop exec nonce ttl rest w' of (all_ok, w'') \<Rightarrow> (ok \<and> all_ok, w'')))"

definition syncAllClusters :: "'w exec \<Rightarrow> string \<Rightarrow> cluster_member list \<Rightarrow> int \<Rightarrow> 'w \<Rightarrow> bool \<times> 'w" where
  "syncAllClusters exec nonce members ttl = sync_loop exec nonce ttl (groupMembersByCluster members groupsFor)"

subsection \<open>The tables are what the searches need\<close>

lemma kClusterTable_sorted: "table_sorted sc_symbol kClusterTable"
  by code_simp

lemma kClusterRules_sorted: "table_sorted cr_cluster kClusterRules"
  by code_simp

interpretation cluster_tbl: sorted_table sc_symbol kClusterTable
  by unfold_locales (rule kClusterTable_sorted)

interpretation rule_tbl: sorted_table cr_cluster kClusterRules
  by unfold_locales (rule kClusterRules_sorted)

lemma groupsFor_map_of:
  "groupsFor s = (case map_of (map (\<lambda>e. (sc_symbol e, e)) kClusterTable) s of
     Some e \<Rightarrow> take (sc_count e) (sc_groups e) | None \<Rightarrow> [])"
  by (simp add: groupsFor_def cluster_tbl.search_map_of)

lemma findRule_map_of: "findRule c = map_of (map (\<lambda>r. (cr_cluster r, r)) kClusterRules) c"
  by (simp add: findRule_def rule_tbl.search_map_of)

lemma cluster_tables_facts:
  shows "\<forall>e \<in> set scale_kTable. groupsFor (e_symbol e) \<noteq> []"
    and "\<forall>e \<in> set kClusterTable. \<forall>g \<in> set (groupsFor (sc_symbol e)).
           \<exists>r \<in> set kClusterRules. findRule g = Some r \<and> cr_cluster r = g \<and> 0 < clusterLimit g"
    and "counts_match kClusterTable"
proof -
  show "\<forall>e \<in> set scale_kTable. groupsFor (e_symbol e) \<noteq> []"
    by code_simp
  have "\<forall>e \<in> set kClusterTable. \<forall>g \<in> set (groupsFor (sc_symbol e)). findRule g \<noteq> None \<and> 0 < clusterLimit g"
    by code_simp
  then show "\<forall>e \<in> set kClusterTable. \<forall>g \<in> set (groupsFor (sc_symbol e)).
           \<exists>r \<in> set kClusterRules. findRule g = Some r \<and> cr_cluster r = g \<and> 0 < clusterLimit g"
    unfolding findRule_def using rule_tbl.search_Some_iff by blast
  show "counts_match kClusterTable"
    by code_simp
qed

text \<open>The cluster tables fit together and fit the engine: every instrument that can be traded has a
  cluster, so none is blocked for want of one, and every cluster of every symbol has its own rule, with
  a positive limit, so the fallback limit is never used.\<close>

theorem cluster_tables_complete:
  "(\<forall>e \<in> set scale_kTable. groupsFor (e_symbol e) \<noteq> [])
   \<and> (\<forall>e \<in> set kClusterTable. \<forall>g \<in> set (groupsFor (sc_symbol e)).
        \<exists>r \<in> set kClusterRules. findRule g = Some r \<and> cr_cluster r = g \<and> 0 < clusterLimit g)
   \<and> counts_match kClusterTable"
  using cluster_tables_facts by blast

lemma cluster_tables_complete_witness:
  "(\<exists>e \<in> set scale_kTable. e_symbol e = ''EURNOK'') \<and> groupsFor ''EURNOK'' \<noteq> []"
proof -
  have "\<lparr>e_symbol = ''EURNOK'', e_scale = 10, e_priceScale = 100000\<rparr> \<in> set scale_kTable"
    by (simp add: scale_kTable_def)
  from this bspec [OF conjunct1 [OF cluster_tables_complete] this] show ?thesis by (auto intro!: bexI)
qed

subsection \<open>What an admitted entry has checked\<close>

text \<open>The members of a cluster's set.\<close>

definition cluster_set :: "redis_db \<Rightarrow> string \<Rightarrow> string list option" where
  "cluster_set d g =
     (case live d (clusterKey g) of None \<Rightarrow> Some [] | Some (RSet vs) \<Rightarrow> Some vs | Some _ \<Rightarrow> None)"

lemma as_list_blobs: "as_list as_string (map Blob_reply vs) = Inr vs"
  by (induction vs) (simp_all add: as_string_def as_optional_string_def)

lemma setMembers_contract:
  assumes "redis_contract exec db" "setMembers exec k w = (res, w')"
  shows "passed (db w) (db w')"
    and "res = Inr ms \<Longrightarrow> live (db w') k = (if ms = [] then live (db w') k else Some (RSet ms))
           \<and> (live (db w') k = None \<or> live (db w') k = Some (RSet ms))"
proof -
  define R where "R d = (case live d k of None \<Rightarrow> Array_reply [] | Some (RSet vs) \<Rightarrow> Array_reply (map Blob_reply vs)
      | Some _ \<Rightarrow> wrong_type)" for d
  have run: "redis_run [''SMEMBERS'', k] d = Some (R d, d)" for d
    by (simp add: redis_run_def redis_step_def R_def)
  obtain d where d: "passed (db w) d" "db w' = d \<and> res = as_array as_string (R d) \<or> (\<exists>e. res = Inl e) \<and> db w' = d"
    using execValue_step [OF assms(1) assms(2) [unfolded setMembers_def] run] by blast
  show "passed (db w) (db w')" using d by auto
  show "live (db w') k = (if ms = [] then live (db w') k else Some (RSet ms))
           \<and> (live (db w') k = None \<or> live (db w') k = Some (RSet ms))" if "res = Inr ms"
    using d that
    by (auto simp: R_def as_array_def as_list_blobs wrong_type_def split: option.splits rvalue.splits)
qed

text \<open>The decision for one cluster, said of the set.\<close>

definition room_for :: "redis_db \<Rightarrow> string \<Rightarrow> string \<Rightarrow> string \<Rightarrow> bool" where
  "room_for d g symbol strategyName \<longleftrightarrow>
     (\<exists>ms. cluster_set d g = Some ms \<and> int (length ms) < clusterLimit g
        \<and> (\<forall>m \<in> set ms. splitMember m \<noteq> Some (symbol, strategyName))
        \<and> (isStrictCluster g \<longrightarrow> (\<forall>m \<in> set ms. \<forall>s. splitMember m \<noteq> Some (s, strategyName))))"

lemma clusterLimit_range: "0 < clusterLimit g \<and> clusterLimit g \<le> 2"
proof (cases "findRule g")
  case (Some r)
  have "\<forall>r \<in> set kClusterRules. 0 < cr_limit r \<and> cr_limit r \<le> 2" by code_simp
  moreover have "r \<in> set kClusterRules" using Some by (simp add: findRule_def rule_tbl.search_Some_iff)
  ultimately show ?thesis using Some by (simp add: clusterLimit_def)
qed (simp add: clusterLimit_def)

lemma evaluate_Allowed:
  assumes "evaluateClusterGroup ms symbol strategyName (clusterLimit g) strict_rule = Allowed"
  shows "int (length ms) < clusterLimit g"
    and "\<forall>m \<in> set ms. splitMember m \<noteq> Some (symbol, strategyName)"
    and "strict_rule \<Longrightarrow> \<forall>m \<in> set ms. \<forall>s. splitMember m \<noteq> Some (s, strategyName)"
proof -
  have "u64 (clusterLimit g) = clusterLimit g" using clusterLimit_range [of g] by (simp add: u64_def)
  then show "int (length ms) < clusterLimit g" "\<forall>m \<in> set ms. splitMember m \<noteq> Some (symbol, strategyName)"
    "strict_rule \<Longrightarrow> \<forall>m \<in> set ms. \<forall>s. splitMember m \<noteq> Some (s, strategyName)"
    using assms by (fastforce simp: evaluateClusterGroup_def list_ex_iff split: if_splits)+
qed

lemma check_groups_contract:
  assumes "redis_contract exec db" "check_groups exec symbol strategyName gs w = (blocked, w')"
  shows "passed (db w) (db w') \<and> (\<not> blocked \<longrightarrow>
           (\<forall>g \<in> set gs. \<exists>d. passed (db w) d \<and> passed d (db w') \<and> room_for d g symbol strategyName))"
  using assms(2)
proof (induction gs arbitrary: w)
  case (Cons g gs)
  obtain res w1 where m: "setMembers exec (clusterKey g) w = (res, w1)" by force
  note c = setMembers_contract [OF assms(1) m]
  show ?case
  proof (cases "\<exists>ms. res = Inr ms \<and>
      evaluateClusterGroup ms symbol strategyName (clusterLimit g) (isStrictCluster g) = Allowed")
    case True
    then obtain ms where ms: "res = Inr ms"
      "evaluateClusterGroup ms symbol strategyName (clusterLimit g) (isStrictCluster g) = Allowed" by blast
    have "\<exists>vs. cluster_set (db w1) g = Some vs \<and> (vs = ms \<or> vs = [])"
      using c(2) [OF ms(1)] by (auto simp: cluster_set_def split: option.splits)
    then have "room_for (db w1) g symbol strategyName"
      using evaluate_Allowed [OF ms(2)] clusterLimit_range [of g] by (auto simp: room_for_def)
    moreover have "check_groups exec symbol strategyName gs w1 = (blocked, w')" using Cons.prems m ms by simp
    ultimately show ?thesis using Cons.IH [of w1] c(1) by (auto intro: passed_trans)
  next
    case False
    then have "blocked" "w' = w1" using Cons.prems m by (auto split: sum.splits if_splits)
    then show ?thesis using c(1) by simp
  qed
qed simp

lemma clusterLockKey_inj: "clusterLockKey a = clusterLockKey b \<longleftrightarrow> a = b"
  by (simp add: clusterLockKey_def)

lemma distinct_groupsFor: "distinct (groupsFor s)"
proof (cases "map_of (map (\<lambda>e. (sc_symbol e, e)) kClusterTable) s")
  case (Some e)
  have "\<forall>e \<in> set kClusterTable. distinct (take (sc_count e) (sc_groups e))" by code_simp
  moreover have "e \<in> set kClusterTable" using map_of_SomeD [OF Some] by auto
  ultimately show ?thesis using Some by (simp add: groupsFor_map_of)
qed (simp add: groupsFor_map_of)

text \<open>A lock that was taken: free in the store at \<open>t\<close>, and this symbol's until its time to live has
  passed.\<close>

definition lock_taken :: "redis_db \<Rightarrow> redis_db \<Rightarrow> string \<Rightarrow> int \<Rightarrow> time \<Rightarrow> string \<Rightarrow> bool" where
  "lock_taken d d' symbol ttl t g \<longleftrightarrow>
     db_now d \<le> t \<and> t \<le> db_now d' \<and> live (at_time t d) (clusterLockKey g) = None
     \<and> db_keys d' (clusterLockKey g) = Some (RString symbol, Some (t + 1000000 * ttl))"

lemma take_lock_step:
  assumes "redis_contract exec db" "0 < ttl"
    "setString exec (clusterLockKey g) symbol NotExists (Some (ttl * 1000)) w = (Inr True, w')"
  shows "lock_taken (db w) (db w') symbol ttl (db_now (db w')) g \<and> touched {clusterLockKey g} (db w) (db w')"
proof -
  obtain d where d: "passed (db w) d" "\<not> set_blocked d (clusterLockKey g) NotExists"
    "db w' = set_result (clusterLockKey g) symbol NotExists (Some (ttl * 1000)) d"
    using setString_contract [OF assms(1,3)] assms(2) by auto
  have w': "db w' = put_key (clusterLockKey g) (RString symbol) (Some (db_now d + 1000000 * ttl)) d"
    using d(2,3) by (simp add: set_result_def set_expiry_def expiry_at_def)
  obtain t where t: "db_now (db w) \<le> t" "d = at_time t (db w)" using d(1) by (auto simp: passed_def)
  show ?thesis
    using t d(2) by (simp add: lock_taken_def touched_def w' set_blocked_def put_key_def)
qed

lemma take_locks_contract:
  assumes "redis_contract exec db" "take_locks exec symbol ttl gs w = (False, w')" "0 < ttl" "distinct gs"
  shows "(\<forall>g \<in> set gs. \<exists>t. lock_taken (db w) (db w') symbol ttl t g)
         \<and> touched (clusterLockKey ` set gs) (db w) (db w')"
  using assms(2,4)
proof (induction gs arbitrary: w)
  case (Cons g gs)
  then obtain w1 where s: "setString exec (clusterLockKey g) symbol NotExists (Some (ttl * 1000)) w = (Inr True, w1)"
    and r: "take_locks exec symbol ttl gs w1 = (False, w')"
    by (auto simp: setIfNotExists_def split: prod.splits sum.splits if_splits)
  have one: "lock_taken (db w) (db w1) symbol ttl (db_now (db w1)) g" and t1: "touched {clusterLockKey g} (db w) (db w1)"
    using take_lock_step [OF assms(1,3) s] by auto
  have IH: "\<forall>g \<in> set gs. \<exists>t. lock_taken (db w1) (db w') symbol ttl t g"
    and t2: "touched (clusterLockKey ` set gs) (db w1) (db w')"
    using Cons.IH [OF r] Cons.prems(2) by auto
  have other: "clusterLockKey g \<notin> clusterLockKey ` set gs"
    using Cons.prems(2) by (auto simp: clusterLockKey_inj)
  then have "lock_taken (db w) (db w') symbol ttl (db_now (db w1)) g"
    using one t2 unfolding touched_def lock_taken_def by fastforce
  moreover have "\<exists>t. lock_taken (db w) (db w') symbol ttl t x" if x: "x \<in> set gs" for x
  proof -
    obtain t where t: "lock_taken (db w1) (db w') symbol ttl t x" using IH x by blast
    have "db_keys (db w1) (clusterLockKey x) = db_keys (db w) (clusterLockKey x)"
    proof -
      have "clusterLockKey x \<noteq> clusterLockKey g" using x Cons.prems(2) by (auto simp: clusterLockKey_inj)
      then show ?thesis using t1 by (simp add: touched_def)
    qed
    then have "lock_taken (db w) (db w') symbol ttl t x"
      using t t1 by (auto simp: lock_taken_def touched_def live_def split: option.splits if_splits)
    then show ?thesis by blast
  qed
  ultimately show ?case using touched_trans [OF t1 t2] by auto
qed (simp add: touched_def)

text \<open>C40: An entry the gate lets through belongs to at least one cluster, found the lock of each of its
  clusters free in the store, and holds it now until its time to live has passed; afterwards it found
  room in each cluster: fewer members than the limit, none with this symbol and strategy, and in a
  strict cluster none with this strategy. Whatever fails or is unknown blocks.\<close>

theorem cluster_gate_sound:
  assumes "redis_contract exec db" "isClusterBlocked exec symbol strategyName ttl w = (False, w')" "0 < ttl"
  shows "groupsFor symbol \<noteq> [] \<and>
    (\<forall>g \<in> set (groupsFor symbol).
       \<exists>t t'. lock_taken (db w) (db w') symbol ttl t g
         \<and> t \<le> t' \<and> t' \<le> db_now (db w') \<and> room_for (at_time t' (db w')) g symbol strategyName)"
proof -
  obtain w1 where l: "take_locks exec symbol ttl (groupsFor symbol) w = (False, w1)"
    and c: "check_groups exec symbol strategyName (groupsFor symbol) w1 = (False, w')" and n: "groupsFor symbol \<noteq> []"
    using assms(2) by (auto simp: isClusterBlocked_def Let_def split: if_splits prod.splits bool.splits)
  have taken: "\<forall>g \<in> set (groupsFor symbol). \<exists>t. lock_taken (db w) (db w1) symbol ttl t g"
    using take_locks_contract [OF assms(1) l assms(3) distinct_groupsFor] by blast
  have p: "passed (db w1) (db w')" and room: "\<forall>g \<in> set (groupsFor symbol).
      \<exists>d. passed (db w1) d \<and> passed d (db w') \<and> room_for d g symbol strategyName"
    using check_groups_contract [OF assms(1) c] by auto
  have "\<exists>t t'. lock_taken (db w) (db w') symbol ttl t g \<and> t \<le> t' \<and> t' \<le> db_now (db w')
      \<and> room_for (at_time t' (db w')) g symbol strategyName" if g: "g \<in> set (groupsFor symbol)" for g
  proof -
    obtain t where t: "lock_taken (db w) (db w1) symbol ttl t g" using taken g by blast
    obtain d where d: "passed (db w1) d" "passed d (db w')" "room_for d g symbol strategyName" using room g by blast
    have "at_time (db_now d) (db w') = d" using d(2) by (auto simp: passed_def)
    moreover have "lock_taken (db w) (db w') symbol ttl t g"
      using t passed_now [OF p] by (auto simp: lock_taken_def passed_keys [OF p])
    moreover have "t \<le> db_now d" using t passed_now [OF d(1)] by (simp add: lock_taken_def)
    ultimately show ?thesis using d(3) passed_now [OF d(2)] by (metis (no_types))
  qed
  then show ?thesis using n by blast
qed

lemma cluster_gate_sound_witness:
  "\<exists>w' t. isClusterBlocked mem_exec ''XAUUSD'' ''S'' 30 empty_db = (False, w')
     \<and> lock_taken empty_db w' ''XAUUSD'' 30 t ''Precious_Metals''"
proof -
  have g: "groupsFor ''XAUUSD'' = [''Precious_Metals'']" by code_simp
  have l: "clusterLimit ''Precious_Metals'' = 1" by code_simp
  let ?lock = "clusterLockKey ''Precious_Metals''"
  let ?w = "put_key ?lock (RString ''XAUUSD'') (Some 30000000) empty_db"
  have "setIfNotExists mem_exec ?lock ''XAUUSD'' (Some 30000) empty_db = (Inr True, ?w)"
    by (simp add: setIfNotExists_def mem_setString set_blocked_def set_result_def set_expiry_def expiry_at_def
        live_def empty_db_def)
  moreover have "setMembers mem_exec (clusterKey ''Precious_Metals'') ?w = (Inr [], ?w)"
    by (simp add: setMembers_def execValue_def mem_exec_def redis_run_def redis_step_def as_array_def live_def
        put_key_def empty_db_def clusterKey_def clusterLockKey_def)
  ultimately have open_gate: "isClusterBlocked mem_exec ''XAUUSD'' ''S'' 30 empty_db = (False, ?w)"
    by (simp add: isClusterBlocked_def g l evaluateClusterGroup_def u64_def)
  from cluster_gate_sound [OF mem_exec_contract this] g obtain t
    where "lock_taken empty_db ?w ''XAUUSD'' 30 t ''Precious_Metals''" by auto
  with open_gate show ?thesis by blast
qed

subsection \<open>Members\<close>

text \<open>A member string is read back as its symbol and strategy unless one of them holds a hash.\<close>

lemma splitMember_clusterMemberString:
  assumes "CHR ''#'' \<notin> set (cm_symbol m)" "CHR ''#'' \<notin> set (cm_strategyName m)"
  shows "splitMember (clusterMemberString m) = Some (cm_symbol m, cm_strategyName m)"
proof -
  have t: "takeWhile (\<lambda>c. c \<noteq> CHR ''#'') (u @ CHR ''#'' # v) = u" if "CHR ''#'' \<notin> set u" for u v
    using that by (induction u) auto
  show ?thesis
    using t [OF assms(1)] t [OF assms(2)] by (simp add: splitMember_def clusterMemberString_def)
qed

definition clusters_ok :: "(string \<times> string list) list \<Rightarrow> (string \<Rightarrow> string set) \<Rightarrow> bool" where
  "clusters_ok clusters expected \<longleftrightarrow>
     sorted_wrt (<) (map fst clusters)
     \<and> (\<forall>g. map_of clusters g = None \<longrightarrow> expected g = {})
     \<and> (\<forall>g vs. map_of clusters g = Some vs \<longrightarrow> vs \<noteq> [] \<and> set vs = expected g)"

lemma push_member_ok:
  assumes "clusters_ok clusters expected"
  shows "clusters_ok (push_member v g clusters) (expected(g := insert v (expected g)))"
proof -
  let ?old = "case map_of clusters g of Some vs \<Rightarrow> vs | None \<Rightarrow> []"
  have old: "set ?old = expected g"
    using assms by (cases "map_of clusters g") (simp_all add: clusters_ok_def)
  have map: "map_of (push_member v g clusters) = (map_of clusters)(g \<mapsto> ?old @ [v])"
    by (simp add: push_member_def)
  show ?thesis
    using assms old unfolding clusters_ok_def map
    by (auto simp: push_member_def sorted_map_put simp del: fun_upd_apply) (auto split: if_splits)
qed

lemma push_members_ok:
  "clusters_ok clusters expected \<Longrightarrow>
     clusters_ok (fold (push_member v) gs clusters) (\<lambda>g. expected g \<union> (if g \<in> set gs then {v} else {}))"
proof (induction gs arbitrary: clusters expected)
  case (Cons g gs)
  have "(\<lambda>x. (expected(g := insert v (expected g))) x \<union> (if x \<in> set gs then {v} else {}))
      = (\<lambda>x. expected x \<union> (if x \<in> set (g # gs) then {v} else {}))"
    by (auto simp: fun_eq_iff)
  with Cons.IH [OF push_member_ok [OF Cons.prems, of v g]] show ?case by simp
qed simp

text \<open>What the producer writes for each cluster: the distinct strings of its members, sorted.\<close>

definition members_of :: "cluster_member list \<Rightarrow> (string \<Rightarrow> string list) \<Rightarrow> string \<Rightarrow> string set" where
  "members_of members lookup g = clusterMemberString ` {m \<in> set members. g \<in> set (lookup (cm_symbol m))}"

lemma group_fold_ok:
  "clusters_ok clusters expected \<Longrightarrow>
     clusters_ok (fold (\<lambda>m. fold (push_member (clusterMemberString m)) (lookup (cm_symbol m))) members clusters)
       (\<lambda>g. expected g \<union> members_of members lookup g)"
proof (induction members arbitrary: clusters expected)
  case Nil
  then show ?case by (simp add: members_of_def)
next
  case (Cons m members)
  have "members_of (m # members) lookup g
      = (if g \<in> set (lookup (cm_symbol m)) then {clusterMemberString m} else {}) \<union> members_of members lookup g" for g
    by (auto simp: members_of_def)
  with Cons.IH [OF push_members_ok [OF Cons.prems, of "clusterMemberString m" "lookup (cm_symbol m)"]]
  show ?case by (simp add: Un_assoc)
qed

lemma distinct_remdups_adj: "sorted xs \<Longrightarrow> distinct (remdups_adj xs)"
  by (induction xs rule: remdups_adj.induct) (auto simp: antisym)

lemma groupMembersByCluster_sets:
  "sorted_wrt (<) (map fst (groupMembersByCluster members lookup))"
  "(g, vs) \<in> set (groupMembersByCluster members lookup) \<Longrightarrow>
     vs \<noteq> [] \<and> distinct vs \<and> set vs = members_of members lookup g"
  "members_of members lookup g \<noteq> {} \<Longrightarrow> g \<in> fst ` set (groupMembersByCluster members lookup)"
proof -
  define raw where "raw = fold (\<lambda>m. fold (push_member (clusterMemberString m)) (lookup (cm_symbol m))) members []"
  have "clusters_ok [] (\<lambda>g. {})" by (simp add: clusters_ok_def)
  from group_fold_ok [OF this, of lookup members] have ok: "clusters_ok raw (members_of members lookup)"
    by (simp add: raw_def)
  have out: "groupMembersByCluster members lookup = map (\<lambda>(g, vs). (g, remdups_adj (sort vs))) raw"
    by (simp add: groupMembersByCluster_def raw_def)
  have keys: "map fst (groupMembersByCluster members lookup) = map fst raw" by (simp add: out case_prod_beta)
  show "sorted_wrt (<) (map fst (groupMembersByCluster members lookup))"
    using ok by (simp add: keys clusters_ok_def)
  have d: "distinct (map fst raw)" using ok by (simp add: clusters_ok_def strict_sorted_iff)
  show "vs \<noteq> [] \<and> distinct vs \<and> set vs = members_of members lookup g"
    if mem: "(g, vs) \<in> set (groupMembersByCluster members lookup)"
  proof -
    obtain us where us: "(g, us) \<in> set raw" "vs = remdups_adj (sort us)" using mem by (auto simp: out)
    then have "map_of raw g = Some us" using d by simp
    then have "us \<noteq> [] \<and> set us = members_of members lookup g" using ok by (fastforce simp: clusters_ok_def)
    moreover have "distinct vs" using us(2) distinct_remdups_adj [of "sort us"] by simp
    moreover have "vs \<noteq> []" using us(2) calculation(1) by (metis remdups_adj_set set_empty set_sort)
    ultimately show ?thesis using us(2) by simp
  qed
  show "g \<in> fst ` set (groupMembersByCluster members lookup)" if "members_of members lookup g \<noteq> {}"
  proof -
    have "map_of raw g \<noteq> None" using ok that by (auto simp: clusters_ok_def split: option.splits)
    then have "g \<in> fst ` set raw" by (simp add: map_of_eq_None_iff)
    then show ?thesis using keys by (metis list.set_map)
  qed
qed

subsection \<open>The producer's swap\<close>

text \<open>A persistent set, absent when empty.\<close>

definition holds :: "redis_db \<Rightarrow> string \<Rightarrow> string list \<Rightarrow> bool" where
  "holds d k us \<longleftrightarrow> db_keys d k = (if us = [] then None else Some (RSet us, None))"

lemma holds_live: "holds d k us \<Longrightarrow> live d k = (if us = [] then None else Some (RSet us))"
  by (simp add: holds_def live_def)

lemma setAdd_holds:
  assumes "redis_contract exec db" "setAdd exec k v w = (Inr b, w')" "holds (db w) k us" "v \<notin> set us"
  shows "holds (db w') k (us @ [v]) \<and> touched {k} (db w) (db w')"
proof -
  obtain n where e: "execValue as_int exec [''SADD'', k, v] w = (Inr n, w')"
    using assms(2) by (auto simp: setAdd_def elim: redis_map_cases)
  obtain r where c: "exec [[''SADD'', k, v]] w = (Inr [r], w')"
    using e by (auto simp: execValue_def split: prod.splits sum.splits list.splits)
  obtain d where d: "passed (db w) d" "redis_run [''SADD'', k, v] d \<noteq> None \<Longrightarrow>
      redis_run [''SADD'', k, v] d = Some (r, db w')"
    using contract_one [OF assms(1) c] by auto
  have h: "holds d k us" using assms(3) passed_keys [OF d(1)] by (simp add: holds_def)
  have "redis_run [''SADD'', k, v] d = Some (Int_reply 1, put_key k (RSet (us @ [v])) None d)"
    using h assms(4) by (auto simp: redis_run_def redis_step_def holds_live key_expiry_def holds_def)
  then have "db w' = put_key k (RSet (us @ [v])) None d" using d(2) by simp
  then show ?thesis
    using passed_keys [OF d(1)] passed_now [OF d(1)] by (auto simp: holds_def touched_def put_key_def)
qed

lemma fill_set_holds:
  assumes "redis_contract exec db" "fill_set exec k vs w = (True, w')" "holds (db w) k us" "distinct (us @ vs)"
  shows "holds (db w') k (us @ vs) \<and> touched {k} (db w) (db w')"
  using assms(2-4)
proof (induction vs arbitrary: us w)
  case (Cons v vs)
  then obtain b w1 where a: "setAdd exec k v w = (Inr b, w1)" "fill_set exec k vs w1 = (True, w')"
    by (auto split: prod.splits sum.splits)
  have "holds (db w1) k (us @ [v]) \<and> touched {k} (db w) (db w1)"
    using setAdd_holds [OF assms(1) a(1) Cons.prems(2)] Cons.prems(3) by simp
  then show ?case
    using Cons.IH [OF a(2), of "us @ [v]"] Cons.prems(3) touched_trans [of "{k}" "db w" "db w1" "{k}"] by auto
qed (simp add: touched_def)

lemma keyRename_holds:
  assumes "redis_contract exec db" "keyRename exec t k w = (Inr b, w')" "holds (db w) t vs" "vs \<noteq> []" "t \<noteq> k"
  shows "holds (db w') k vs \<and> touched {t, k} (db w) (db w')"
proof -
  obtain rs where c: "exec [[''RENAME'', t, k]] w = (Inr rs, w')"
    using assms(2) by (auto simp: keyRename_def execIgnore_def elim!: redis_map_cases split: prod.splits sum.splits)
  obtain d where d: "passed (db w) d" "redis_run [''RENAME'', t, k] d \<noteq> None \<Longrightarrow>
      \<exists>r. redis_run [''RENAME'', t, k] d = Some (r, db w')"
    using contract_one [OF assms(1) c] by auto
  have h: "holds d t vs" using assms(3) passed_keys [OF d(1)] by (simp add: holds_def)
  have "redis_run [''RENAME'', t, k] d = Some (Simple_reply ''OK'', put_key k (RSet vs) None (del_key t d))"
    using holds_live [OF h] h assms(4) by (simp add: redis_run_def redis_step_def key_expiry_def holds_def)
  then have "db w' = put_key k (RSet vs) None (del_key t d)" using d(2) by simp
  then show ?thesis
    using passed_keys [OF d(1)] passed_now [OF d(1)] assms(4)
    by (auto simp: holds_def touched_def put_key_def del_key_def)
qed

lemma setTTL_holds:
  assumes "redis_contract exec db" "setTTL exec k ttl w = (Inr b, w')" "holds (db w) k vs" "vs \<noteq> []" "0 < ttl"
  shows "db_keys (db w') k = Some (RSet vs, Some (db_now (db w') + 1000 * ttl)) \<and> touched {k} (db w) (db w')"
proof -
  obtain n where e: "execValue as_int exec [''PEXPIRE'', k, int_dec ttl] w = (Inr n, w')"
    using assms(2) by (auto simp: setTTL_def elim: redis_map_cases)
  obtain r where c: "exec [[''PEXPIRE'', k, int_dec ttl]] w = (Inr [r], w')"
    using e by (auto simp: execValue_def split: prod.splits sum.splits list.splits)
  obtain d where d: "passed (db w) d" "redis_run [''PEXPIRE'', k, int_dec ttl] d \<noteq> None \<Longrightarrow>
      redis_run [''PEXPIRE'', k, int_dec ttl] d = Some (r, db w')"
    using contract_one [OF assms(1) c] by auto
  have h: "holds d k vs" using assms(3) passed_keys [OF d(1)] by (simp add: holds_def)
  have "redis_run [''PEXPIRE'', k, int_dec ttl] d
      = Some (Int_reply 1, put_key k (RSet vs) (Some (expiry_at d ttl)) d)"
    using h assms(4,5) by (auto simp: redis_run_def redis_step_def holds_live parse_ms_int_dec)
  then have "db w' = put_key k (RSet vs) (Some (expiry_at d ttl)) d" using d(2) by simp
  then show ?thesis
    using passed_keys [OF d(1)] passed_now [OF d(1)] by (auto simp: touched_def put_key_def expiry_at_def)
qed

lemma temp_key_other: "temp_key c n \<noteq> clusterKey g"
  by (simp add: temp_key_def clusterKey_def)

definition never_skips :: "'w exec \<Rightarrow> bool" where
  "never_skips exec \<longleftrightarrow> (\<forall>cmds w. fst (exec cmds w) \<noteq> Inl [])"

text \<open>One cluster's swap, unless its clearing of the temporary key was skipped.\<close>

lemma sync_cluster_swaps:
  assumes "redis_contract exec db" "sync_cluster exec nonce ttl g vs w = (True, w')"
    "never_skips exec" "vs \<noteq> []" "distinct vs" "0 < ttl"
  shows "db_keys (db w') (clusterKey g) = Some (RSet vs, Some (db_now (db w') + 1000 * ttl))
         \<and> touched {temp_key g nonce, clusterKey g} (db w) (db w')"
proof -
  let ?t = "temp_key g nonce"
  obtain res w1 where del: "deleteKey exec ?t w = (res, w1)" by force
  have ok: "\<not> (case res of Inl e \<Rightarrow> e \<noteq> [] | Inr _ \<Rightarrow> False)"
    using assms(2) del by (auto simp: sync_cluster_def Let_def split: sum.splits if_splits)
  obtain w2 b w3 b' where fill: "fill_set exec ?t vs w1 = (True, w2)"
    and ren: "keyRename exec ?t (clusterKey g) w2 = (Inr b, w3)"
    and expire: "setTTL exec (clusterKey g) ttl w3 = (Inr b', w')"
    using assms(2) del ok
    by (auto simp: sync_cluster_def Let_def split: prod.splits bool.splits sum.splits)
  have "res \<noteq> Inl []"
  proof
    assume "res = Inl []"
    then have "execValue as_int exec [''DEL'', ?t] w = (Inl [], w1)"
      using del by (auto simp: deleteKey_def elim: redis_map_cases)
    moreover have "as_int r \<noteq> Inl [] \<or> r = Error_reply []" for r
      by (auto simp: as_int_def type_mismatch_def split: reply.splits)
    moreover have "fst (exec [[''DEL'', ?t]] w) \<noteq> Inl []" using assms(3) unfolding never_skips_def by blast
    ultimately obtain r where r: "exec [[''DEL'', ?t]] w = (Inr [r], w1)" "r = Error_reply []"
      by (auto simp: execValue_def type_mismatch_def split: prod.splits sum.splits list.splits)
    have run: "redis_run [''DEL'', ?t] d = Some (bool_reply (live d ?t \<noteq> None), del_key ?t d)" for d
      by (simp add: redis_run_def redis_step_def)
    show False using contract_one [OF assms(1) r(1)] r(2) by (auto simp: run bool_reply_def)
  qed
  with ok obtain c where "res = Inr c" by (cases res) auto
  then obtain d where d: "passed (db w) d" "db w1 = del_key ?t d"
    using deleteKey_contract [OF assms(1) del] by auto
  have h0: "holds (db w1) ?t [] \<and> touched {?t} (db w) (db w1)"
    using d passed_keys [OF d(1)] passed_now [OF d(1)] by (auto simp: holds_def touched_def del_key_def)
  have h1: "holds (db w2) ?t vs \<and> touched {?t} (db w1) (db w2)"
    using fill_set_holds [OF assms(1) fill conjunct1 [OF h0]] assms(5) by simp
  have h2: "holds (db w3) (clusterKey g) vs \<and> touched {?t, clusterKey g} (db w2) (db w3)"
    using keyRename_holds [OF assms(1) ren conjunct1 [OF h1] assms(4) temp_key_other] .
  have h3: "db_keys (db w') (clusterKey g) = Some (RSet vs, Some (db_now (db w') + 1000 * ttl))
      \<and> touched {clusterKey g} (db w3) (db w')"
    using setTTL_holds [OF assms(1) expire conjunct1 [OF h2] assms(4,6)] .
  show ?thesis using h0 h1 h2 h3 by (auto simp: touched_def)
qed

lemma sync_loop_swaps:
  assumes "redis_contract exec db" "never_skips exec" "0 < ttl"
    "sync_loop exec nonce ttl clusters w = (True, w')"
    "distinct (map fst clusters)" "\<forall>(g, vs) \<in> set clusters. vs \<noteq> [] \<and> distinct vs"
  shows "(\<forall>(g, vs) \<in> set clusters. \<exists>t. db_now (db w) \<le> t \<and> t \<le> db_now (db w')
            \<and> db_keys (db w') (clusterKey g) = Some (RSet vs, Some (t + 1000 * ttl)))
         \<and> touched (\<Union>(g, vs) \<in> set clusters. {temp_key g nonce, clusterKey g}) (db w) (db w')"
  using assms(4-6)
proof (induction clusters arbitrary: w)
  case (Cons c clusters)
  obtain g vs where c: "c = (g, vs)" by force
  obtain w1 where s: "sync_cluster exec nonce ttl g vs w = (True, w1)"
    and r: "sync_loop exec nonce ttl clusters w1 = (True, w')"
    using Cons.prems(1) c by (auto split: prod.splits)
  have one: "db_keys (db w1) (clusterKey g) = Some (RSet vs, Some (db_now (db w1) + 1000 * ttl))"
    and t1: "touched {temp_key g nonce, clusterKey g} (db w) (db w1)"
    using sync_cluster_swaps [OF assms(1) s assms(2) _ _ assms(3)] Cons.prems(3) c by auto
  let ?keys = "\<Union>(g, vs) \<in> set clusters. {temp_key g nonce, clusterKey g}"
  have IH: "\<forall>(g, vs) \<in> set clusters. \<exists>t. db_now (db w1) \<le> t \<and> t \<le> db_now (db w')
            \<and> db_keys (db w') (clusterKey g) = Some (RSet vs, Some (t + 1000 * ttl))"
    and t2: "touched ?keys (db w1) (db w')"
    using Cons.IH [OF r] Cons.prems(2,3) by auto
  have "clusterKey g \<notin> ?keys"
    using Cons.prems(2) c temp_key_other by (force simp: clusterKey_def temp_key_def)
  then have "db_keys (db w') (clusterKey g) = Some (RSet vs, Some (db_now (db w1) + 1000 * ttl))"
    using t2 one by (simp add: touched_def)
  then have "\<exists>t. db_now (db w) \<le> t \<and> t \<le> db_now (db w')
      \<and> db_keys (db w') (clusterKey g) = Some (RSet vs, Some (t + 1000 * ttl))"
    using t1 t2 by (intro exI [of _ "db_now (db w1)"]) (simp add: touched_def)
  moreover have "\<forall>(g, vs) \<in> set clusters. \<exists>t. db_now (db w) \<le> t \<and> t \<le> db_now (db w')
      \<and> db_keys (db w') (clusterKey g) = Some (RSet vs, Some (t + 1000 * ttl))"
    using IH t1 unfolding touched_def by fastforce
  ultimately show ?case using touched_trans [OF t1 t2] c by simp
qed (simp add: touched_def)

lemma syncAllClusters_facts:
  assumes "redis_contract exec db" "never_skips exec" "0 < ttl"
    "syncAllClusters exec nonce members ttl w = (True, w')"
  shows "\<And>g. members_of members groupsFor g \<noteq> {} \<Longrightarrow>
       \<exists>vs t. db_keys (db w') (clusterKey g) = Some (RSet vs, Some (t + 1000 * ttl))
         \<and> distinct vs \<and> set vs = members_of members groupsFor g \<and> db_now (db w) \<le> t \<and> t \<le> db_now (db w')"
    and "\<And>k. (\<forall>g. k \<noteq> clusterKey g \<and> k \<noteq> temp_key g nonce) \<Longrightarrow> db_keys (db w') k = db_keys (db w) k"
proof -
  let ?cs = "groupMembersByCluster members groupsFor"
  have "distinct (map fst ?cs)"
    using groupMembersByCluster_sets(1) [of members groupsFor] by (simp add: strict_sorted_iff)
  moreover have cs: "vs \<noteq> [] \<and> distinct vs \<and> set vs = members_of members groupsFor g" if "(g, vs) \<in> set ?cs" for g vs
    using groupMembersByCluster_sets(2) [OF that] .
  then have "\<forall>(g, vs) \<in> set ?cs. vs \<noteq> [] \<and> distinct vs" by blast
  ultimately have all: "\<forall>(g, vs) \<in> set ?cs. \<exists>t. db_now (db w) \<le> t \<and> t \<le> db_now (db w')
        \<and> db_keys (db w') (clusterKey g) = Some (RSet vs, Some (t + 1000 * ttl))"
    and touch: "touched (\<Union>(g, vs) \<in> set ?cs. {temp_key g nonce, clusterKey g}) (db w) (db w')"
    using sync_loop_swaps [OF assms(1-3) assms(4) [unfolded syncAllClusters_def]] by auto
  show "\<exists>vs t. db_keys (db w') (clusterKey g) = Some (RSet vs, Some (t + 1000 * ttl))
         \<and> distinct vs \<and> set vs = members_of members groupsFor g \<and> db_now (db w) \<le> t \<and> t \<le> db_now (db w')"
    if g: "members_of members groupsFor g \<noteq> {}" for g
  proof -
    obtain vs where "(g, vs) \<in> set ?cs" using groupMembersByCluster_sets(3) [OF g] by auto
    then show ?thesis using all cs by fast
  qed
  show "db_keys (db w') k = db_keys (db w) k" if "\<forall>g. k \<noteq> clusterKey g \<and> k \<noteq> temp_key g nonce" for k
    using touch that by (auto simp: touched_def)
qed

text \<open>When the producer reports success, every cluster with members holds exactly the distinct member
  strings of its positions, under a time to live armed during this call, and no key but the clusters' sets
  and the temporary keys was touched: on a connection that never skips a command.\<close>

theorem syncAllClusters_rebuilds:
  assumes "redis_contract exec db" "never_skips exec" "0 < ttl"
    "syncAllClusters exec nonce members ttl w = (True, w')"
  shows "(\<forall>g. members_of members groupsFor g \<noteq> {} \<longrightarrow>
       (\<exists>vs t. db_keys (db w') (clusterKey g) = Some (RSet vs, Some (t + 1000 * ttl))
         \<and> distinct vs \<and> set vs = members_of members groupsFor g \<and> db_now (db w) \<le> t \<and> t \<le> db_now (db w')))
    \<and> (\<forall>k. (\<forall>g. k \<noteq> clusterKey g \<and> k \<noteq> temp_key g nonce) \<longrightarrow> db_keys (db w') k = db_keys (db w) k)"
  using syncAllClusters_facts [OF assms] by blast

lemma syncAllClusters_rebuilds_witness:
  "\<exists>w' vs t. syncAllClusters mem_exec ''n'' [\<lparr>cm_symbol = ''XAUUSD'', cm_strategyName = ''S'', cm_dealReference = ''1''\<rparr>] 5
       empty_db = (True, w')
     \<and> db_keys w' ''CG#Precious_Metals'' = Some (RSet vs, Some (t + 5000)) \<and> set vs = {''XAUUSD#S#1''}"
proof -
  let ?m = "\<lparr>cm_symbol = ''XAUUSD'', cm_strategyName = ''S'', cm_dealReference = ''1''\<rparr>"
  have "fst (syncAllClusters mem_exec ''n'' [?m] 5 empty_db)" by code_simp
  then obtain w' where w': "syncAllClusters mem_exec ''n'' [?m] 5 empty_db = (True, w')"
    by (metis (full_types) prod.collapse)
  have skips: "never_skips mem_exec"
    by (simp add: never_skips_def mem_exec_def split: option.splits)
  have "groupsFor ''XAUUSD'' = [''Precious_Metals'']" by code_simp
  then have m: "members_of [?m] groupsFor ''Precious_Metals'' = {''XAUUSD#S#1''}"
    by (auto simp: members_of_def clusterMemberString_def)
  have pos: "(0::int) < 5" by simp
  note all = conjunct1 [OF syncAllClusters_rebuilds [OF mem_exec_contract skips pos w']]
  obtain vs t where "db_keys w' (clusterKey ''Precious_Metals'') = Some (RSet vs, Some (t + 1000 * 5))"
    "set vs = members_of [?m] groupsFor ''Precious_Metals''"
    using all [rule_format, of "''Precious_Metals''"] m by auto
  then show ?thesis using w' m by (intro exI [of _ w'] exI [of _ vs] exI [of _ t]) (simp add: clusterKey_def)
qed

text \<open>A skipped \<open>DEL\<close> (the breaker's empty error) is taken for done: whatever a crash left under the
  temporary key is then merged into the cluster's set, and success is reported.\<close>

definition skip_first :: "(redis_db \<times> bool) exec" where
  "skip_first cmds w =
     (if snd w then (Inl [], (fst w, False)) else (case mem_exec cmds (fst w) of (r, d) \<Rightarrow> (r, (d, False))))"

definition stale_db :: redis_db where
  "stale_db = put_key (temp_key ''Precious_Metals'' ''n'') (RSet [''EURUSD#Old#0'']) None empty_db"

lemma syncAllClusters_merges_stale:
  "case syncAllClusters skip_first ''n'' [\<lparr>cm_symbol = ''XAUUSD'', cm_strategyName = ''S'', cm_dealReference = ''1''\<rparr>] 5
       (stale_db, True) of
     (ok, w') \<Rightarrow> ok \<and> live (fst w') ''CG#Precious_Metals'' = Some (RSet [''EURUSD#Old#0'', ''XAUUSD#S#1''])"
  by code_simp

end
