(* ===== verification/RedisLists.thy ===== *)
theory RedisLists
  imports RedisContract
begin

section \<open>List and pipeline operations under the contract\<close>

text \<open>
  What the list operations and the pipelined requests of \<open>RedisOperations\<close> do to the key space of a
  server that keeps \<open>redis_contract\<close>: \<open>RPOP\<close>, \<open>LINDEX -1\<close>, \<open>LREM 0\<close>, the \<open>LPUSH\<close> pipeline and the
  pipeline of \<open>SET\<close>s with an expiry, each of which may fail half way.
\<close>

lemma contract_runs:
  assumes "redis_contract exec db" "exec cmds w = (res, w')"
    "\<And>d. D cmds d \<Longrightarrow> redis_runs cmds d \<noteq> None"
  shows "\<exists>d. passed (db w) d \<and> (D cmds d \<longrightarrow>
           (case res of
              Inr rs \<Rightarrow> redis_runs cmds d = Some (rs, db w')
            | Inl e \<Rightarrow> \<exists>n. case redis_runs (take n cmds) d of Some (rs, d') \<Rightarrow> db w' = d' | None \<Rightarrow> True))"
proof -
  obtain t where t: "t \<ge> db_now (db w)" and c:
    "case res of
       Inr rs \<Rightarrow> (case redis_runs cmds (at_time t (db w)) of Some (rs', d') \<Rightarrow> rs = rs' \<and> db w' = d' | None \<Rightarrow> True)
     | Inl e \<Rightarrow> (\<exists>n. case redis_runs (take n cmds) (at_time t (db w)) of Some (rs', d') \<Rightarrow> db w' = d' | None \<Rightarrow> True)"
    using assms(1,2) unfolding redis_contract_def by blast
  have "passed (db w) (at_time t (db w))" using t unfolding passed_def by blast
  then show ?thesis
    using c assms(3) [of "at_time t (db w)"] by (cases res) (auto split: option.splits intro!: exI [of _ "at_time t (db w)"])
qed

subsection \<open>Lists\<close>

definition live_list :: "redis_db \<Rightarrow> string \<Rightarrow> string list" where
  "live_list d k = (case live d k of Some (RList vs) \<Rightarrow> vs | _ \<Rightarrow> [])"

text \<open>No key of another type stands where a list is expected.\<close>

definition list_key :: "redis_db \<Rightarrow> string \<Rightarrow> bool" where
  "list_key d k \<longleftrightarrow> (case live d k of None \<Rightarrow> True | Some (RList vs) \<Rightarrow> True | Some _ \<Rightarrow> False)"

lemma live_key_expiry: "live d k = Some v \<Longrightarrow> db_keys d k = Some (v, key_expiry d k)"
  by (auto simp: live_def key_expiry_def split: option.splits if_splits)

lemma live_put_same: "live d k \<noteq> None \<Longrightarrow> live (put_key k v (key_expiry d k) d) k = Some v"
  by (auto simp: live_def key_expiry_def put_key_def split: option.splits if_splits)

lemma live_list_put: "live d k \<noteq> None \<Longrightarrow> live_list (list_put k vs d) k = vs"
  by (simp add: live_list_def list_put_def live_put_same)

lemma list_put_other: "k \<noteq> k' \<Longrightarrow> db_keys (list_put k vs d) k' = db_keys d k'"
  by (simp add: list_put_def put_key_def del_key_def)

lemma list_put_now [simp]: "db_now (list_put k vs d) = db_now d"
  by (simp add: list_put_def)

lemma list_put_key: "live d k \<noteq> None \<Longrightarrow> list_key (list_put k vs d) k"
  by (simp add: list_key_def list_put_def live_put_same)

lemma live_same_key: "db_keys d' k = db_keys d k \<Longrightarrow> db_now d' = db_now d \<Longrightarrow> live d' k = live d k"
  by (auto simp: live_def split: option.splits)

lemma passed_list: "passed d d' \<Longrightarrow> live_list d' k = live_list d k \<or> live_list d' k = [] \<and> live d' k = None"
  by (auto simp: live_list_def live_def passed_keys split: option.splits dest: passed_now)

lemma passed_list_key: "passed d d' \<Longrightarrow> list_key d k \<Longrightarrow> list_key d' k"
  using passed_live [of d d' k] by (auto simp: list_key_def split: option.splits rvalue.splits)

text \<open>Lists without an expiry stay as time passes.\<close>

definition lasting :: "redis_db \<Rightarrow> string \<Rightarrow> bool" where
  "lasting d k \<longleftrightarrow> key_expiry d k = None"

lemma lasting_live: "passed d d' \<Longrightarrow> lasting d k \<Longrightarrow> live d' k = live d k"
  by (auto simp: lasting_def key_expiry_def live_def passed_keys split: option.splits)

lemma lasting_passed: "passed d d' \<Longrightarrow> lasting d k \<Longrightarrow> lasting d' k"
  by (simp add: lasting_def key_expiry_def passed_keys)

definition list_end :: "string list \<Rightarrow> string option" where
  "list_end vs = (if vs = [] then None else Some (last vs))"

text \<open>\<open>RPOP\<close>: the end of the list and a list without it.\<close>

definition popped :: "string \<Rightarrow> redis_db \<Rightarrow> redis_db" where
  "popped k d = (if live_list d k = [] then d else list_put k (butlast (live_list d k)) d)"

text \<open>One decoded command on a key space where it is defined; it fails only with its request.\<close>

lemma execValue_run:
  assumes "redis_contract exec db" "execValue decode exec cmd w = (res, w')"
    "\<And>d. passed (db w) d \<Longrightarrow> redis_run cmd d = Some (R d, D d)"
  shows "\<exists>d. passed (db w) d
           \<and> (db w' = D d \<and> res = decode (R d)
              \<or> (\<exists>e. fst (exec [cmd] w) = Inl e \<and> res = Inl e) \<and> (db w' = d \<or> db w' = D d))"
proof -
  obtain res1 w1 where e: "exec [cmd] w = (res1, w1)" by force
  obtain d where d: "passed (db w) d" "redis_run cmd d \<noteq> None \<longrightarrow>
      (case res1 of
         Inr rs \<Rightarrow> \<exists>r. rs = [r] \<and> redis_run cmd d = Some (r, db w1)
       | Inl e \<Rightarrow> db w1 = d \<or> (\<exists>r. redis_run cmd d = Some (r, db w1)))"
    using contract_one [OF assms(1) e] by blast
  then show ?thesis
    using assms(2) assms(3) [OF d(1)] e by (cases res1) (auto simp: execValue_def intro!: exI [of _ d])
qed

definition end_reply :: "string list \<Rightarrow> reply" where
  "end_reply vs = (case list_end vs of None \<Rightarrow> Nil_reply | Some v \<Rightarrow> Blob_reply v)"

lemma end_reply_string [simp]: "as_optional_string (end_reply vs) = Inr (list_end vs)"
  by (simp add: end_reply_def as_optional_string_def split: option.split)

lemma run_rpop: "list_key d k \<Longrightarrow> redis_run [''RPOP'', k] d = Some (end_reply (live_list d k), popped k d)"
  by (auto simp: redis_run_def redis_step_def list_key_def live_list_def popped_def end_reply_def list_end_def
      split: option.splits rvalue.splits)

lemma run_lindex: "list_key d k \<Longrightarrow> redis_run [''LINDEX'', k, ''-1''] d = Some (end_reply (live_list d k), d)"
  by (auto simp: redis_run_def redis_step_def list_key_def live_list_def end_reply_def list_end_def
      split: option.splits rvalue.splits)

lemma listPopBack_run:
  assumes "redis_contract exec db" "listPopBack exec k w = (res, w')" "list_key (db w) k"
  shows "\<exists>d. passed (db w) d
           \<and> (db w' = popped k d \<and> res = Inr (list_end (live_list d k))
              \<or> (\<exists>e. fst (exec [[''RPOP'', k]] w) = Inl e \<and> res = Inl e) \<and> (db w' = d \<or> db w' = popped k d))"
  using execValue_run [OF assms(1) assms(2) [unfolded listPopBack_def execOptionalString_def]
      run_rpop [OF passed_list_key [OF _ assms(3)]]]
  by simp

lemma listPopBack_contract:
  assumes "redis_contract exec db" "listPopBack exec k w = (res, w')" "list_key (db w) k"
  shows "\<exists>d. passed (db w) d
           \<and> (db w' = popped k d \<and> res = Inr (list_end (live_list d k))
              \<or> (\<exists>e. res = Inl e) \<and> (db w' = d \<or> db w' = popped k d))"
  using listPopBack_run [OF assms] by blast

lemma listIndex_run:
  assumes "redis_contract exec db" "listIndex exec k (- 1) w = (res, w')" "list_key (db w) k"
  shows "passed (db w) (db w')
    \<and> (res = Inr (list_end (live_list (db w') k)) \<or> (\<exists>e. fst (exec [[''LINDEX'', k, ''-1'']] w) = Inl e \<and> res = Inl e))"
proof -
  have dec: "int_dec (- 1) = ''-1''" by code_simp
  show ?thesis
    using execValue_run [OF assms(1) assms(2) [unfolded listIndex_def execOptionalString_def dec]
        run_lindex [OF passed_list_key [OF _ assms(3)]]] by auto
qed

text \<open>\<open>LREM 0\<close>: every occurrence goes.\<close>

definition list_removed :: "string \<Rightarrow> string \<Rightarrow> redis_db \<Rightarrow> redis_db" where
  "list_removed k v d = (if live d k = None then d else list_put k (filter (\<lambda>x. x \<noteq> v) (live_list d k)) d)"

lemma execIgnore_step:
  assumes "redis_contract exec db" "execIgnore exec [cmd] w = (res, w')"
    "\<And>d. passed (db w) d \<Longrightarrow> redis_run cmd d = Some (R d, D d)"
  shows "\<exists>d. passed (db w) d \<and> (db w' = D d \<or> (\<exists>e. res = Inl e) \<and> db w' = d)"
proof -
  obtain res1 where e: "exec [cmd] w = (res1, w')" and r: "\<And>e. res1 = Inl e \<Longrightarrow> res = Inl e"
    using assms(2) by (cases "exec [cmd] w") (auto simp: execIgnore_def split: sum.splits)
  show ?thesis using contract_one [OF assms(1) e] assms(3) r by (cases res1) auto
qed

lemma listRemove_contract:
  assumes "redis_contract exec db" "listRemove exec k 0 v w = (res, w')" "list_key (db w) k"
  shows "\<exists>d. passed (db w) d \<and> (db w' = list_removed k v d \<or> (\<exists>e. res = Inl e) \<and> db w' = d)"
proof -
  have dec: "int_dec 0 = ''0''" by code_simp
  have run: "redis_run [''LREM'', k, ''0'', v] d
      = Some (Int_reply (int (length (filter (\<lambda>x. x = v) (live_list d k)))), list_removed k v d)"
    if "passed (db w) d" for d
    using passed_list_key [OF that assms(3)]
    by (auto simp: redis_run_def redis_step_def live_list_def list_removed_def list_key_def
        split: option.splits rvalue.splits)
  show ?thesis by (rule execIgnore_step [OF assms(1) assms(2) [unfolded listRemove_def dec] run])
qed

text \<open>\<open>LPUSH\<close>: to the head, so that \<open>RPOP\<close> takes the oldest.\<close>

definition pushed :: "string \<Rightarrow> string list \<Rightarrow> redis_db \<Rightarrow> redis_db" where
  "pushed k vs d =
     (if vs = [] then d
      else put_key k (RList (rev vs @ live_list d k)) (if live d k = None then None else key_expiry d k) d)"

lemma pushed_now [simp]: "db_now (pushed k vs d) = db_now d"
  by (simp add: pushed_def)

lemma pushed_other: "k \<noteq> k' \<Longrightarrow> db_keys (pushed k vs d) k' = db_keys d k'"
  by (simp add: pushed_def put_key_def)

lemma live_pushed: "live (pushed k vs d) k = (if vs = [] then live d k else Some (RList (rev vs @ live_list d k)))"
  by (auto simp: pushed_def live_put_same)

lemma live_list_pushed [simp]: "live_list (pushed k vs d) k = rev vs @ live_list d k"
  unfolding live_list_def [of "pushed k vs d"] live_pushed by (simp add: live_list_def)

lemma list_key_pushed [simp]: "list_key d k \<Longrightarrow> list_key (pushed k vs d) k"
  unfolding list_key_def [of "pushed k vs d"] live_pushed by (simp add: list_key_def)

lemma lasting_pushed: "lasting d k \<or> live d k = None \<and> vs \<noteq> [] \<Longrightarrow> lasting (pushed k vs d) k"
  by (auto simp: lasting_def pushed_def key_expiry_def put_key_def split: option.splits)

lemma pushed_pushed: "pushed k [v] d' = D \<Longrightarrow> pushed k vs D = pushed k (v # vs) d'"
proof -
  assume D: "pushed k [v] d' = D"
  have l: "live D k = Some (RList (v # live_list d' k))" using live_pushed [of k "[v]" d'] D by simp
  have e: "key_expiry D k = (if live d' k = None then None else key_expiry d' k)"
    by (simp add: key_expiry_def put_key_def pushed_def flip: D)
  show ?thesis
    using l e D by (auto simp: pushed_def live_list_def put_key_def fun_eq_iff)
qed

lemma run_push: "list_key d k \<Longrightarrow> \<exists>r. redis_run [''LPUSH'', k, v] d = Some (r, pushed k [v] d)"
  by (auto simp: redis_run_def redis_step_def list_key_def pushed_def list_put_def live_list_def
      split: option.splits rvalue.splits)

lemma runs_push: "list_key d k \<Longrightarrow> \<exists>rs. redis_runs (map (\<lambda>v. [''LPUSH'', k, v]) vs) d = Some (rs, pushed k vs d)"
proof (induction vs arbitrary: d)
  case (Cons v vs)
  obtain r where r: "redis_run [''LPUSH'', k, v] d = Some (r, pushed k [v] d)" using run_push [OF Cons.prems] by blast
  obtain rs where "redis_runs (map (\<lambda>v. [''LPUSH'', k, v]) vs) (pushed k [v] d) = Some (rs, pushed k vs (pushed k [v] d))"
    using Cons.IH [of "pushed k [v] d"] Cons.prems by auto
  then show ?case using r pushed_pushed [of k v d "pushed k [v] d" vs] by simp
qed (simp add: pushed_def)

lemma listPushFrontAll_contract:
  assumes "redis_contract exec db" "listPushFrontAll exec k vs w = (res, w')" "list_key (db w) k"
  shows "\<exists>d n. passed (db w) d \<and> db w' = pushed k (take n vs) d \<and> ((\<exists>u. res = Inr u) \<longrightarrow> take n vs = vs)"
proof -
  let ?c = "map (\<lambda>v. [''LPUSH'', k, v]) vs"
  obtain res1 where e: "exec ?c w = (res1, w')" and r: "(\<exists>u. res = Inr u) \<longleftrightarrow> (\<exists>rs. res1 = Inr rs)"
    using assms(2) by (cases "exec ?c w") (auto simp: listPushFrontAll_def execIgnore_def split: sum.splits)
  have "redis_runs ?c d \<noteq> None" if "list_key d k" for d using runs_push [OF that, of vs] by auto
  then obtain d where d: "passed (db w) d" and c: "list_key d k \<longrightarrow>
      (case res1 of
         Inr rs \<Rightarrow> redis_runs ?c d = Some (rs, db w')
       | Inl e \<Rightarrow> \<exists>n. case redis_runs (take n ?c) d of Some (rs, d') \<Rightarrow> db w' = d' | None \<Rightarrow> True)"
    using contract_runs [OF assms(1) e, of "\<lambda>_ d. list_key d k"] by blast
  have k: "list_key d k" by (rule passed_list_key [OF d assms(3)])
  show ?thesis
  proof (cases res1)
    case (Inl x)
    then obtain n where n: "case redis_runs (take n ?c) d of Some (rs, d') \<Rightarrow> db w' = d' | None \<Rightarrow> True"
      using c k by auto
    then have "db w' = pushed k (take n vs) d" using runs_push [OF k, of "take n vs"] by (auto simp: take_map)
    then show ?thesis using d r Inl by auto
  next
    case (Inr rs)
    then have "db w' = pushed k vs d" using c k runs_push [OF k, of vs] by auto
    then show ?thesis using d by (intro exI [of _ d] exI [of _ "length vs"]) simp
  qed
qed

lemma listPushFront_contract:
  assumes "redis_contract exec db" "listPushFront exec k v w = (res, w')" "list_key (db w) k"
  shows "\<exists>d. passed (db w) d \<and> (db w' = pushed k [v] d \<or> (\<exists>e. res = Inl e) \<and> db w' = d)"
proof -
  have "listPushFrontAll exec k [v] w = (res, w')" using assms(2) by (simp add: listPushFront_def listPushFrontAll_def)
  from listPushFrontAll_contract [OF assms(1) this assms(3)] obtain d n where
    d: "passed (db w) d" "db w' = pushed k (take n [v]) d" "(\<exists>u. res = Inr u) \<longrightarrow> take n [v] = [v]" by blast
  show ?thesis
  proof (cases n)
    case 0
    then have "\<exists>e. res = Inl e" "db w' = d" using d(2,3) by (cases res; simp add: pushed_def)+
    then show ?thesis using d(1) by blast
  qed (use d in auto)
qed

subsection \<open>Requests that never fail\<close>

definition reliable :: "'w exec \<Rightarrow> bool" where
  "reliable exec \<longleftrightarrow> (\<forall>cmds w. \<exists>rs. fst (exec cmds w) = Inr rs)"

lemma reliable_ignore: "reliable exec \<Longrightarrow> \<exists>w'. execIgnore exec cmds w = (Inr (), w')"
  unfolding reliable_def execIgnore_def by (metis (no_types, lifting) case_prod_conv old.sum.simps(6) prod.collapse)

lemma reliable_not_failed: "reliable exec \<Longrightarrow> fst (exec cmds w) \<noteq> Inl e"
  unfolding reliable_def by (metis sum.distinct(1))

lemma pop_reliable:
  assumes "redis_contract exec db" "reliable exec" "listPopBack exec k w = (res, w')" "list_key (db w) k"
  shows "\<exists>d. passed (db w) d \<and> db w' = popped k d \<and> res = Inr (list_end (live_list d k))"
  using listPopBack_run [OF assms(1,3,4)] reliable_not_failed [OF assms(2)] by blast

lemma index_reliable:
  assumes "redis_contract exec db" "reliable exec" "listIndex exec k (- 1) w = (res, w')" "list_key (db w) k"
  shows "passed (db w) (db w') \<and> res = Inr (list_end (live_list (db w') k))"
  using listIndex_run [OF assms(1,3,4)] reliable_not_failed [OF assms(2)] by blast

lemma remove_reliable:
  assumes "redis_contract exec db" "reliable exec" "listRemove exec k 0 v w = (res, w')" "list_key (db w) k"
  shows "\<exists>d. passed (db w) d \<and> db w' = list_removed k v d \<and> res = Inr ()"
proof -
  have "res = Inr ()"
    using reliable_ignore [OF assms(2), of "[[''LREM'', k, int_dec 0, v]]" w] assms(3) by (auto simp: listRemove_def)
  then show ?thesis using listRemove_contract [OF assms(1,3,4)] by auto
qed

text \<open>Taking a stored string gives it, unless it has expired.\<close>

lemma take_reliable:
  assumes "redis_contract exec db" "reliable exec" "getDelete exec k w = (res, w')"
    "db_keys (db w) k = Some (RString s, e)"
  shows "\<exists>d. passed (db w) d \<and> (db w' = d \<or> db w' = del_key k d)
    \<and> res = Inr (if live d k = None then None else Some s) \<and> live (db w') k = None"
proof -
  define D where "D d = (case live d k of Some (RString s) \<Rightarrow> del_key k d | _ \<Rightarrow> d)" for d
  have run: "redis_run [''GETDEL'', k] d = Some (get_reply d k, D d)" for d
    by (simp add: redis_run_def redis_step_def D_def)
  obtain d where d: "passed (db w) d" "db w' = D d" "res = as_optional_string (get_reply d k)"
    using execValue_run [OF assms(1) assms(3) [unfolded getDelete_def execOptionalString_def] run]
      reliable_not_failed [OF assms(2)] by blast
  have "live d k = None \<or> live d k = Some (RString s)"
    using passed_keys [OF d(1)] assms(4) by (auto simp: live_def split: option.splits)
  then show ?thesis
    using d by (intro exI [of _ d]) (auto simp: D_def get_reply_def as_optional_string_def)
qed

subsection \<open>The payload pipeline\<close>

definition set_all :: "int \<Rightarrow> (string \<times> string) list \<Rightarrow> redis_db \<Rightarrow> redis_db" where
  "set_all ms kvs d = fold (\<lambda>(k, v) d. put_key k (RString v) (Some (expiry_at d ms)) d) kvs d"

lemma stored_now [simp]: "db_now (set_all ms kvs d) = db_now d"
  by (induction kvs arbitrary: d) (auto simp: set_all_def)

lemma stored_key:
  "db_keys (set_all ms kvs d) k =
     (case map_of (rev kvs) k of Some v \<Rightarrow> Some (RString v, Some (expiry_at d ms)) | None \<Rightarrow> db_keys d k)"
proof (induction kvs arbitrary: d)
  case (Cons kv kvs)
  obtain k' v' where [simp]: "kv = (k', v')" by force
  let ?d = "put_key k' (RString v') (Some (expiry_at d ms)) d"
  have e: "expiry_at ?d ms = expiry_at d ms" and p: "db_keys ?d = (db_keys d)(k' \<mapsto> (RString v', Some (expiry_at d ms)))"
    by (simp_all add: expiry_at_def put_key_def)
  have "set_all ms (kv # kvs) d = set_all ms kvs ?d"
    by (simp add: set_all_def)
  then show ?case
    by (auto simp: Cons.IH e p map_add_def split: option.splits)
qed (simp add: set_all_def)

lemma runs_set:
  "0 < ms \<Longrightarrow> \<exists>rs. redis_runs (map (\<lambda>(k, v). [''SET'', k, v, ''PX'', int_dec ms]) kvs) d = Some (rs, set_all ms kvs d)"
proof (induction kvs arbitrary: d)
  case (Cons kv kvs)
  obtain k v where [simp]: "kv = (k, v)" by force
  have "redis_run [''SET'', k, v, ''PX'', int_dec ms] d
      = Some (Simple_reply ''OK'', put_key k (RString v) (Some (expiry_at d ms)) d)"
    using Cons.prems by (simp add: redis_run_def redis_step_def set_step_def parse_ms_int_dec)
  moreover obtain rs where
    "redis_runs (map (\<lambda>(k, v). [''SET'', k, v, ''PX'', int_dec ms]) kvs) (put_key k (RString v) (Some (expiry_at d ms)) d)
     = Some (rs, set_all ms kvs (put_key k (RString v) (Some (expiry_at d ms)) d))"
    using Cons.IH [OF Cons.prems] by blast
  ultimately show ?case by (simp add: set_all_def)
qed (simp add: set_all_def)

lemma setMultipleWithTTL_contract:
  assumes "redis_contract exec db" "setMultipleWithTTL exec kvs ms w = (res, w')" "0 < ms"
  shows "\<exists>d n. passed (db w) d \<and> db w' = set_all ms (take n kvs) d \<and> ((\<exists>u. res = Inr u) \<longrightarrow> take n kvs = kvs)"
proof (cases "kvs = []")
  case False
  let ?c = "map (\<lambda>(k, v). [''SET'', k, v, ''PX'', int_dec ms]) kvs"
  obtain res1 where e: "exec ?c w = (res1, w')" and r: "(\<exists>u. res = Inr u) \<longleftrightarrow> (\<exists>rs. res1 = Inr rs)"
    using assms(2) False by (cases "exec ?c w") (auto simp: setMultipleWithTTL_def execIgnore_def split: sum.splits)
  have "redis_runs ?c d \<noteq> None" for d using runs_set [OF assms(3), of kvs d] by auto
  then obtain d where d: "passed (db w) d" and c: "True \<longrightarrow>
      (case res1 of
         Inr rs \<Rightarrow> redis_runs ?c d = Some (rs, db w')
       | Inl e \<Rightarrow> \<exists>n. case redis_runs (take n ?c) d of Some (rs, d') \<Rightarrow> db w' = d' | None \<Rightarrow> True)"
    using contract_runs [OF assms(1) e, of "\<lambda>_ _. True"] by blast
  show ?thesis
  proof (cases res1)
    case (Inl x)
    then obtain n where n: "case redis_runs (take n ?c) d of Some (rs, d') \<Rightarrow> db w' = d' | None \<Rightarrow> True"
      using c by auto
    then have "db w' = set_all ms (take n kvs) d" using runs_set [OF assms(3), of "take n kvs" d] by (auto simp: take_map)
    then show ?thesis using d r Inl by auto
  next
    case (Inr rs)
    then have "db w' = set_all ms kvs d" using c runs_set [OF assms(3), of kvs d] by auto
    then show ?thesis using d by (intro exI [of _ d] exI [of _ "length kvs"]) simp
  qed
next
  case True
  then have "db w' = db w" using assms(2) by (simp add: setMultipleWithTTL_def)
  then show ?thesis using True by (intro exI [of _ "db w"]) (simp add: set_all_def)
qed

end
