(* ===== verification/ConfigJson.thy ===== *)
theory ConfigJson
  imports Config JsonConv Base64
begin

section \<open>Configurations as JSON\<close>

text \<open>
  How a run and its strategies travel through the queue: the \<open>to_json\<close> and \<open>from_json\<close> of
  \<open>shared/tradingDefinitions\<close>, and \<open>shared/utilities/jsonParser.cpp\<close>, base64 included. The text
  conversions of decimals (\<open>boost::decimal\<close>) and of doubles (\<open>stod\<close>, \<open>lround\<close>) are parameters.
  \<open>Base64::b64decode\<close> may read outside its text, which C++ leaves undefined; that is \<open>Read_outside\<close>.
\<close>

record 'f num_text = "'f double_conv" +
  dbl_stod :: "string \<Rightarrow> string + 'f"
  dbl_less :: "'f \<Rightarrow> 'f \<Rightarrow> bool"
  dbl_lround :: "'f \<Rightarrow> int"

record 'd decimal_text =
  dec_of_int :: "int \<Rightarrow> 'd"
  dec_to_chars :: "'d \<Rightarrow> string option"
  dec_from_chars :: "string \<Rightarrow> 'd option"

abbreviation conv_of :: "'f num_text \<Rightarrow> 'f double_conv" where
  "conv_of nums \<equiv> double_conv.truncate nums"

abbreviation ops_of :: "'f num_text \<Rightarrow> 'f double_ops" where
  "ops_of nums \<equiv> double_ops.truncate nums"

subsection \<open>Trading, bar and range variables\<close>

definition readIntField :: "'f num_text \<Rightarrow> 'f json \<Rightarrow> conv_error + int" where
  "readIntField nums j =
     bind (case j of
             JString s \<Rightarrow> (case dbl_stod nums s of Inl e \<Rightarrow> Inl (Std_error e) | Inr x \<Rightarrow> Inr x)
           | _ \<Rightarrow> get_double_of (conv_of nums) j)
       (\<lambda>x.
         if \<not> dbl_isfinite nums x \<or> dbl_less nums x (dbl_of_int nums (-2147483648))
            \<or> dbl_less nums (dbl_of_int nums 2147483647) x
         then (case json_dump (ops_of nums) j of
                 Inl e \<Rightarrow> Inl (Json_error e)
               | Inr t \<Rightarrow> Inl (Std_error (''TradingVariables: integer field out of range: '' @ t)))
         else Inr (i32 (dbl_lround nums x)))"

definition trading_to_json :: "trading_variables \<Rightarrow> 'f json" where
  "trading_to_json v = json_init
     [(''STRATEGY'', JString (tv_STRATEGY v)),
      (''STOP_DISTANCE_IN_ATR'', JString (int_dec (tv_STOP_DISTANCE_IN_ATR v))),
      (''LIMIT_DISTANCE_IN_ATR'', JString (int_dec (tv_LIMIT_DISTANCE_IN_ATR v))),
      (''TRADING_SIZE'', JString (int_dec (tv_TRADING_SIZE v)))]"

definition trading_from_json :: "'f num_text \<Rightarrow> 'f json \<Rightarrow> conv_error + trading_variables" where
  "trading_from_json nums j =
     bind (bind (json_at j ''STRATEGY'') get_string_of) (\<lambda>s.
     bind (bind (json_at j ''STOP_DISTANCE_IN_ATR'') (readIntField nums)) (\<lambda>stop.
     bind (bind (json_at j ''LIMIT_DISTANCE_IN_ATR'') (readIntField nums)) (\<lambda>limit.
     bind (bind (json_at j ''TRADING_SIZE'') (readIntField nums)) (\<lambda>n.
       Inr \<lparr>tv_STRATEGY = s, tv_STOP_DISTANCE_IN_ATR = stop, tv_LIMIT_DISTANCE_IN_ATR = limit,
            tv_TRADING_SIZE = n\<rparr>))))"

text \<open>A struct that refuses negative fields says so with the document it refused.\<close>

definition refuse :: "'f num_text \<Rightarrow> string \<Rightarrow> 'f json \<Rightarrow> conv_error + 'a" where
  "refuse nums what j =
     (case json_dump (ops_of nums) j of Inl e \<Rightarrow> Inl (Json_error e) | Inr t \<Rightarrow> Inl (Std_error (what @ t)))"

definition ohlc_to_json :: "ohlc_variables \<Rightarrow> 'f json" where
  "ohlc_to_json v = json_init
     [(''OHLC_COUNT'', JInteger (ov_OHLC_COUNT v)), (''OHLC_MINUTES'', JInteger (ov_OHLC_MINUTES v))]"

definition ohlc_from_json :: "'f num_text \<Rightarrow> 'f json \<Rightarrow> conv_error + ohlc_variables" where
  "ohlc_from_json nums j =
     bind (bind (json_at j ''OHLC_COUNT'') (get_int_of (conv_of nums))) (\<lambda>n.
     bind (bind (json_at j ''OHLC_MINUTES'') (get_int_of (conv_of nums))) (\<lambda>m.
       if n < 0 \<or> m < 0
       then refuse nums ''OHLCVariables: OHLC_COUNT/OHLC_MINUTES must be >= 0, got '' j
       else Inr \<lparr>ov_OHLC_COUNT = n, ov_OHLC_MINUTES = m\<rparr>))"

definition range_to_json :: "range_bar_variables \<Rightarrow> 'f json" where
  "range_to_json v = json_init
     [(''RANGE_ATR_TICK_WINDOW'', JInteger (rv_RANGE_ATR_TICK_WINDOW v)),
      (''RANGE_ATR_PERCENT'', JInteger (rv_RANGE_ATR_PERCENT v)),
      (''RANGE_COUNT'', JInteger (rv_RANGE_COUNT v))]"

definition range_from_json :: "'f num_text \<Rightarrow> 'f json \<Rightarrow> conv_error + range_bar_variables" where
  "range_from_json nums j =
     bind (bind (json_at j ''RANGE_ATR_TICK_WINDOW'') (get_int_of (conv_of nums))) (\<lambda>n.
     bind (bind (json_at j ''RANGE_ATR_PERCENT'') (get_int_of (conv_of nums))) (\<lambda>p.
     bind (bind (json_at j ''RANGE_COUNT'') (get_int_of (conv_of nums))) (\<lambda>c.
       if n < 0 \<or> p < 0 \<or> c < 0
       then refuse nums ''RangeBarVariables: all fields must be >= 0, got '' j
       else Inr \<lparr>rv_RANGE_ATR_TICK_WINDOW = n, rv_RANGE_ATR_PERCENT = p, rv_RANGE_COUNT = c\<rparr>)))"

subsection \<open>The strategies' own variables\<close>

text \<open>\<open>NLOHMANN_DEFINE_TYPE_NON_INTRUSIVE\<close> and its variant with defaults, whose fields all default to 0.\<close>

definition int_or_0 :: "'f num_text \<Rightarrow> 'f json \<Rightarrow> string \<Rightarrow> conv_error + int" where
  "int_or_0 nums j k = value_or (get_int_of (conv_of nums)) j k 0"

definition ohlc_rsi_to_json :: "ohlc_rsi_variables \<Rightarrow> 'f json" where
  "ohlc_rsi_to_json v = json_fields
     [(''RSI_LONG'', JInteger (rsi_RSI_LONG v)), (''RSI_SHORT'', JInteger (rsi_RSI_SHORT v))]"

definition ohlc_rsi_from_json :: "'f num_text \<Rightarrow> 'f json \<Rightarrow> conv_error + ohlc_rsi_variables" where
  "ohlc_rsi_from_json nums j =
     bind (bind (json_at j ''RSI_LONG'') (get_int_of (conv_of nums))) (\<lambda>l.
     bind (bind (json_at j ''RSI_SHORT'') (get_int_of (conv_of nums))) (\<lambda>s.
       Inr \<lparr>rsi_RSI_LONG = l, rsi_RSI_SHORT = s\<rparr>))"

definition ohlc_breakout_to_json :: "ohlc_breakout_variables \<Rightarrow> 'f json" where
  "ohlc_breakout_to_json v = json_fields
     [(''BUFFER_PIPS'', JInteger (ob_BUFFER_PIPS v)),
      (''MAX_TRADE_DURATION_MINUTES'', JInteger (ob_MAX_TRADE_DURATION_MINUTES v))]"

definition ohlc_breakout_from_json :: "'f num_text \<Rightarrow> 'f json \<Rightarrow> conv_error + ohlc_breakout_variables" where
  "ohlc_breakout_from_json nums j =
     bind (int_or_0 nums j ''BUFFER_PIPS'') (\<lambda>x0.
     bind (int_or_0 nums j ''MAX_TRADE_DURATION_MINUTES'') (\<lambda>x1.
       Inr \<lparr>ob_BUFFER_PIPS = x0,
            ob_MAX_TRADE_DURATION_MINUTES = x1\<rparr>))"

definition fvg_to_json :: "fvg_strategy_variables \<Rightarrow> 'f json" where
  "fvg_to_json v = json_fields
     [(''LOOKBACK_BARS'', JInteger (fv_LOOKBACK_BARS v)),
      (''MIN_GAP_PIPS'', JInteger (fv_MIN_GAP_PIPS v)),
      (''HTF_SMA_PERIOD'', JInteger (fv_HTF_SMA_PERIOD v)),
      (''MIN_GAP_AGE_BARS'', JInteger (fv_MIN_GAP_AGE_BARS v)),
      (''MAX_TRADE_DURATION_MINUTES'', JInteger (fv_MAX_TRADE_DURATION_MINUTES v))]"

definition fvg_from_json :: "'f num_text \<Rightarrow> 'f json \<Rightarrow> conv_error + fvg_strategy_variables" where
  "fvg_from_json nums j =
     bind (int_or_0 nums j ''LOOKBACK_BARS'') (\<lambda>x0.
     bind (int_or_0 nums j ''MIN_GAP_PIPS'') (\<lambda>x1.
     bind (int_or_0 nums j ''HTF_SMA_PERIOD'') (\<lambda>x2.
     bind (int_or_0 nums j ''MIN_GAP_AGE_BARS'') (\<lambda>x3.
     bind (int_or_0 nums j ''MAX_TRADE_DURATION_MINUTES'') (\<lambda>x4.
       Inr \<lparr>fv_LOOKBACK_BARS = x0,
            fv_MIN_GAP_PIPS = x1,
            fv_HTF_SMA_PERIOD = x2,
            fv_MIN_GAP_AGE_BARS = x3,
            fv_MAX_TRADE_DURATION_MINUTES = x4\<rparr>)))))"

definition keltner_fade_to_json :: "keltner_fade_variables \<Rightarrow> 'f json" where
  "keltner_fade_to_json v = json_fields
     [(''BAND_SMA_PERIOD'', JInteger (kf_BAND_SMA_PERIOD v)),
      (''BAND_ATR_MULT_TENTHS'', JInteger (kf_BAND_ATR_MULT_TENTHS v)),
      (''MAX_TRADE_DURATION_MINUTES'', JInteger (kf_MAX_TRADE_DURATION_MINUTES v))]"

definition keltner_fade_from_json :: "'f num_text \<Rightarrow> 'f json \<Rightarrow> conv_error + keltner_fade_variables" where
  "keltner_fade_from_json nums j =
     bind (int_or_0 nums j ''BAND_SMA_PERIOD'') (\<lambda>x0.
     bind (int_or_0 nums j ''BAND_ATR_MULT_TENTHS'') (\<lambda>x1.
     bind (int_or_0 nums j ''MAX_TRADE_DURATION_MINUTES'') (\<lambda>x2.
       Inr \<lparr>kf_BAND_SMA_PERIOD = x0,
            kf_BAND_ATR_MULT_TENTHS = x1,
            kf_MAX_TRADE_DURATION_MINUTES = x2\<rparr>)))"

definition session_range_to_json :: "session_range_breakout_variables \<Rightarrow> 'f json" where
  "session_range_to_json v = json_fields
     [(''BUFFER_PIPS'', JInteger (sr_BUFFER_PIPS v)),
      (''ENTRY_WINDOW_MINUTES'', JInteger (sr_ENTRY_WINDOW_MINUTES v)),
      (''MAX_TRADE_DURATION_MINUTES'', JInteger (sr_MAX_TRADE_DURATION_MINUTES v))]"

definition session_range_from_json :: "'f num_text \<Rightarrow> 'f json \<Rightarrow> conv_error + session_range_breakout_variables" where
  "session_range_from_json nums j =
     bind (int_or_0 nums j ''BUFFER_PIPS'') (\<lambda>x0.
     bind (int_or_0 nums j ''ENTRY_WINDOW_MINUTES'') (\<lambda>x1.
     bind (int_or_0 nums j ''MAX_TRADE_DURATION_MINUTES'') (\<lambda>x2.
       Inr \<lparr>sr_BUFFER_PIPS = x0,
            sr_ENTRY_WINDOW_MINUTES = x1,
            sr_MAX_TRADE_DURATION_MINUTES = x2\<rparr>)))"

definition squeeze_to_json :: "squeeze_breakout_variables \<Rightarrow> 'f json" where
  "squeeze_to_json v = json_fields
     [(''NR_LOOKBACK'', JInteger (sq_NR_LOOKBACK v)),
      (''VALID_BARS'', JInteger (sq_VALID_BARS v)),
      (''BUFFER_PIPS'', JInteger (sq_BUFFER_PIPS v)),
      (''MAX_TRADE_DURATION_MINUTES'', JInteger (sq_MAX_TRADE_DURATION_MINUTES v))]"

definition squeeze_from_json :: "'f num_text \<Rightarrow> 'f json \<Rightarrow> conv_error + squeeze_breakout_variables" where
  "squeeze_from_json nums j =
     bind (int_or_0 nums j ''NR_LOOKBACK'') (\<lambda>x0.
     bind (int_or_0 nums j ''VALID_BARS'') (\<lambda>x1.
     bind (int_or_0 nums j ''BUFFER_PIPS'') (\<lambda>x2.
     bind (int_or_0 nums j ''MAX_TRADE_DURATION_MINUTES'') (\<lambda>x3.
       Inr \<lparr>sq_NR_LOOKBACK = x0,
            sq_VALID_BARS = x1,
            sq_BUFFER_PIPS = x2,
            sq_MAX_TRADE_DURATION_MINUTES = x3\<rparr>))))"

definition ny_open_to_json :: "ny_open_range_breakout_variables \<Rightarrow> 'f json" where
  "ny_open_to_json v = json_fields
     [(''RANGE_HOURS'', JInteger (ny_RANGE_HOURS v)),
      (''BUFFER_PIPS'', JInteger (ny_BUFFER_PIPS v)),
      (''ENTRY_WINDOW_MINUTES'', JInteger (ny_ENTRY_WINDOW_MINUTES v)),
      (''MAX_TRADE_DURATION_MINUTES'', JInteger (ny_MAX_TRADE_DURATION_MINUTES v))]"

definition ny_open_from_json :: "'f num_text \<Rightarrow> 'f json \<Rightarrow> conv_error + ny_open_range_breakout_variables" where
  "ny_open_from_json nums j =
     bind (int_or_0 nums j ''RANGE_HOURS'') (\<lambda>x0.
     bind (int_or_0 nums j ''BUFFER_PIPS'') (\<lambda>x1.
     bind (int_or_0 nums j ''ENTRY_WINDOW_MINUTES'') (\<lambda>x2.
     bind (int_or_0 nums j ''MAX_TRADE_DURATION_MINUTES'') (\<lambda>x3.
       Inr \<lparr>ny_RANGE_HOURS = x0,
            ny_BUFFER_PIPS = x1,
            ny_ENTRY_WINDOW_MINUTES = x2,
            ny_MAX_TRADE_DURATION_MINUTES = x3\<rparr>))))"

definition liquidity_sweep_to_json :: "liquidity_sweep_reversal_variables \<Rightarrow> 'f json" where
  "liquidity_sweep_to_json v = json_fields
     [(''PIVOT_BARS'', JInteger (ls_PIVOT_BARS v)),
      (''LOOKBACK_BARS'', JInteger (ls_LOOKBACK_BARS v)),
      (''MIN_SWEEP_PIPS'', JInteger (ls_MIN_SWEEP_PIPS v)),
      (''DISPLACEMENT_ATR_TENTHS'', JInteger (ls_DISPLACEMENT_ATR_TENTHS v)),
      (''VALID_BARS'', JInteger (ls_VALID_BARS v)),
      (''MAX_TRADE_DURATION_MINUTES'', JInteger (ls_MAX_TRADE_DURATION_MINUTES v))]"

definition liquidity_sweep_from_json :: "'f num_text \<Rightarrow> 'f json \<Rightarrow> conv_error + liquidity_sweep_reversal_variables" where
  "liquidity_sweep_from_json nums j =
     bind (int_or_0 nums j ''PIVOT_BARS'') (\<lambda>x0.
     bind (int_or_0 nums j ''LOOKBACK_BARS'') (\<lambda>x1.
     bind (int_or_0 nums j ''MIN_SWEEP_PIPS'') (\<lambda>x2.
     bind (int_or_0 nums j ''DISPLACEMENT_ATR_TENTHS'') (\<lambda>x3.
     bind (int_or_0 nums j ''VALID_BARS'') (\<lambda>x4.
     bind (int_or_0 nums j ''MAX_TRADE_DURATION_MINUTES'') (\<lambda>x5.
       Inr \<lparr>ls_PIVOT_BARS = x0,
            ls_LOOKBACK_BARS = x1,
            ls_MIN_SWEEP_PIPS = x2,
            ls_DISPLACEMENT_ATR_TENTHS = x3,
            ls_VALID_BARS = x4,
            ls_MAX_TRADE_DURATION_MINUTES = x5\<rparr>))))))"

definition range_velocity_to_json :: "range_velocity_variables \<Rightarrow> 'f json" where
  "range_velocity_to_json v = json_fields
     [(''RUN_BARS'', JInteger (ve_RUN_BARS v)),
      (''SPEED_LOOKBACK_BARS'', JInteger (ve_SPEED_LOOKBACK_BARS v)),
      (''SPEED_RATIO_PERCENT'', JInteger (ve_SPEED_RATIO_PERCENT v)),
      (''EXIT_RUN_BARS'', JInteger (ve_EXIT_RUN_BARS v)),
      (''MAX_TRADE_DURATION_MINUTES'', JInteger (ve_MAX_TRADE_DURATION_MINUTES v))]"

definition range_velocity_from_json :: "'f num_text \<Rightarrow> 'f json \<Rightarrow> conv_error + range_velocity_variables" where
  "range_velocity_from_json nums j =
     bind (int_or_0 nums j ''RUN_BARS'') (\<lambda>x0.
     bind (int_or_0 nums j ''SPEED_LOOKBACK_BARS'') (\<lambda>x1.
     bind (int_or_0 nums j ''SPEED_RATIO_PERCENT'') (\<lambda>x2.
     bind (int_or_0 nums j ''EXIT_RUN_BARS'') (\<lambda>x3.
     bind (int_or_0 nums j ''MAX_TRADE_DURATION_MINUTES'') (\<lambda>x4.
       Inr \<lparr>ve_RUN_BARS = x0,
            ve_SPEED_LOOKBACK_BARS = x1,
            ve_SPEED_RATIO_PERCENT = x2,
            ve_EXIT_RUN_BARS = x3,
            ve_MAX_TRADE_DURATION_MINUTES = x4\<rparr>)))))"

subsection \<open>The variables of a strategy\<close>

definition opt_to_json :: "('v \<Rightarrow> 'f json) \<Rightarrow> 'v option \<Rightarrow> 'f json" where
  "opt_to_json f v = (case v of Some x \<Rightarrow> f x | None \<Rightarrow> JNull)"

definition opt_from_json :: "('f json \<Rightarrow> conv_error + 'v) \<Rightarrow> 'f json \<Rightarrow> string \<Rightarrow> conv_error + 'v option" where
  "opt_from_json f j k =
     (if json_contains j k
      then bind (json_at j k) (\<lambda>v. case v of JNull \<Rightarrow> Inr None | _ \<Rightarrow> bind (f v) (\<lambda>x. Inr (Some x)))
      else Inr None)"

definition variables_to_json :: "strategy_variables \<Rightarrow> 'f json" where
  "variables_to_json s = json_fields
     [(''OHLC_RSI_VARIABLES'', opt_to_json ohlc_rsi_to_json (sv_OHLC_RSI_VARIABLES s)),
      (''OHLC_BREAKOUT_VARIABLES'', opt_to_json ohlc_breakout_to_json (sv_OHLC_BREAKOUT_VARIABLES s)),
      (''FVG_STRATEGY_VARIABLES'', opt_to_json fvg_to_json (sv_FVG_STRATEGY_VARIABLES s)),
      (''KELTNER_FADE_VARIABLES'', opt_to_json keltner_fade_to_json (sv_KELTNER_FADE_VARIABLES s)),
      (''SESSION_RANGE_BREAKOUT_VARIABLES'', opt_to_json session_range_to_json (sv_SESSION_RANGE_BREAKOUT_VARIABLES s)),
      (''SQUEEZE_BREAKOUT_VARIABLES'', opt_to_json squeeze_to_json (sv_SQUEEZE_BREAKOUT_VARIABLES s)),
      (''NY_OPEN_RANGE_BREAKOUT_VARIABLES'', opt_to_json ny_open_to_json (sv_NY_OPEN_RANGE_BREAKOUT_VARIABLES s)),
      (''LIQUIDITY_SWEEP_REVERSAL_VARIABLES'', opt_to_json liquidity_sweep_to_json (sv_LIQUIDITY_SWEEP_REVERSAL_VARIABLES s)),
      (''RANGE_VELOCITY_VARIABLES'', opt_to_json range_velocity_to_json (sv_RANGE_VELOCITY_VARIABLES s))]"

definition variables_from_json :: "'f num_text \<Rightarrow> 'f json \<Rightarrow> conv_error + strategy_variables" where
  "variables_from_json nums j =
     bind (opt_from_json (ohlc_rsi_from_json nums) j ''OHLC_RSI_VARIABLES'') (\<lambda>x0.
     bind (opt_from_json (ohlc_breakout_from_json nums) j ''OHLC_BREAKOUT_VARIABLES'') (\<lambda>x1.
     bind (opt_from_json (fvg_from_json nums) j ''FVG_STRATEGY_VARIABLES'') (\<lambda>x2.
     bind (opt_from_json (keltner_fade_from_json nums) j ''KELTNER_FADE_VARIABLES'') (\<lambda>x3.
     bind (opt_from_json (session_range_from_json nums) j ''SESSION_RANGE_BREAKOUT_VARIABLES'') (\<lambda>x4.
     bind (opt_from_json (squeeze_from_json nums) j ''SQUEEZE_BREAKOUT_VARIABLES'') (\<lambda>x5.
     bind (opt_from_json (ny_open_from_json nums) j ''NY_OPEN_RANGE_BREAKOUT_VARIABLES'') (\<lambda>x6.
     bind (opt_from_json (liquidity_sweep_from_json nums) j ''LIQUIDITY_SWEEP_REVERSAL_VARIABLES'') (\<lambda>x7.
     bind (opt_from_json (range_velocity_from_json nums) j ''RANGE_VELOCITY_VARIABLES'') (\<lambda>x8.
       Inr \<lparr>sv_OHLC_RSI_VARIABLES = x0,
            sv_OHLC_BREAKOUT_VARIABLES = x1,
            sv_FVG_STRATEGY_VARIABLES = x2,
            sv_KELTNER_FADE_VARIABLES = x3,
            sv_SESSION_RANGE_BREAKOUT_VARIABLES = x4,
            sv_SQUEEZE_BREAKOUT_VARIABLES = x5,
            sv_NY_OPEN_RANGE_BREAKOUT_VARIABLES = x6,
            sv_LIQUIDITY_SWEEP_REVERSAL_VARIABLES = x7,
            sv_RANGE_VELOCITY_VARIABLES = x8\<rparr>)))))))))"

subsection \<open>Strategies, runs and configurations\<close>

definition strategy_to_json :: "strategy_config \<Rightarrow> 'f json" where
  "strategy_to_json c = json_init
     [(''UUID'', JString (sc_UUID c)),
      (''TRADING_VARIABLES'', trading_to_json (sc_TRADING_VARIABLES c)),
      (''OHLC_VARIABLES'', JArray (map ohlc_to_json (sc_OHLC_VARIABLES c))),
      (''RANGE_VARIABLES'', JArray (map range_to_json (sc_RANGE_VARIABLES c))),
      (''STRATEGY_VARIABLES'', variables_to_json (sc_STRATEGY_VARIABLES c))]"

definition strategy_from_json :: "'f num_text \<Rightarrow> 'f json \<Rightarrow> conv_error + strategy_config" where
  "strategy_from_json nums j =
     bind (bind (json_at j ''UUID'') get_string_of) (\<lambda>uuid.
     bind (bind (json_at j ''TRADING_VARIABLES'') (trading_from_json nums)) (\<lambda>tv.
     bind (bind (json_at j ''OHLC_VARIABLES'') (get_array_of (ohlc_from_json nums))) (\<lambda>ov.
     bind (json_value (get_array_of (range_from_json nums)) j ''RANGE_VARIABLES'' []) (\<lambda>rv.
     bind (bind (json_at j ''STRATEGY_VARIABLES'') (variables_from_json nums)) (\<lambda>sv.
       Inr \<lparr>sc_UUID = uuid, sc_TRADING_VARIABLES = tv, sc_OHLC_VARIABLES = ov, sc_RANGE_VARIABLES = rv,
            sc_STRATEGY_VARIABLES = sv\<rparr>)))))"

text \<open>\<open>decimalJson.hpp\<close>.\<close>

definition decimal_to_json :: "'d decimal_text \<Rightarrow> 'd \<Rightarrow> conv_error + 'f json" where
  "decimal_to_json dec x =
     (case dec_to_chars dec x of
        None \<Rightarrow> Inl (Std_error ''decimal_json: to_chars failed serializing decimal64_t'')
      | Some t \<Rightarrow> Inr (JString t))"

definition decimal_from_json :: "'d decimal_text \<Rightarrow> 'f json \<Rightarrow> conv_error + 'd" where
  "decimal_from_json dec j =
     (case j of
        JString s \<Rightarrow>
          (case dec_from_chars dec s of
             Some x \<Rightarrow> Inr x
           | None \<Rightarrow> Inl (Std_error (''decimal_json: from_chars failed parsing '' @ [CHR 0x27] @ s @ [CHR 0x27])))
      | _ \<Rightarrow> Inl (Json_error (type_error 303
               (''incompatible ReferenceType for get_ref, actual type is '' @ type_name j))))"

text \<open>The fields of \<open>RunConfiguration\<close>, which \<open>Configuration\<close> repeats around its strategy.\<close>

definition run_fields :: "'d decimal_text \<Rightarrow> ('d, 'x) run_configuration_scheme \<Rightarrow> conv_error + (string \<times> 'f json) list" where
  "run_fields dec c =
     bind (decimal_to_json dec (rc_STARTING_BALANCE c)) (\<lambda>balance.
     bind (decimal_to_json dec (rc_MAX_LOSS_PERCENT c)) (\<lambda>loss.
       Inr [(''RUN_ID'', JString (rc_RUN_ID c)),
            (''SYMBOLS'', JString (rc_SYMBOLS c)),
            (''BATCH'', JString (rc_BATCH c)),
            (''EXECUTION_TS'', JString (rc_EXECUTION_TS c)),
            (''LAST_MONTHS'', JInteger (rc_LAST_MONTHS c)),
            (''OFFSET_MONTHS'', JInteger (rc_OFFSET_MONTHS c)),
            (''STARTING_BALANCE'', balance),
            (''MAX_LOSS_PERCENT'', loss),
            (''MAX_OPEN_TRADES'', JInteger (rc_MAX_OPEN_TRADES c)),
            (''MAX_TRADES_PER_MINUTE'', JInteger (rc_MAX_TRADES_PER_MINUTE c)),
            (''REPORT_FAILURES'', JBoolean (rc_REPORT_FAILURES c)),
            (''PEAK_HOURS_ONLY'', JBoolean (rc_PEAK_HOURS_ONLY c)),
            (''ENTRY_SLIPPAGE_TENTH_PIPS'', JInteger (rc_ENTRY_SLIPPAGE_TENTH_PIPS c))]))"

definition run_to_json :: "'d decimal_text \<Rightarrow> 'd run_configuration \<Rightarrow> conv_error + 'f json" where
  "run_to_json dec c = bind (run_fields dec c) (\<lambda>fs. Inr (json_init fs))"

definition run_from_json :: "'f num_text \<Rightarrow> 'd decimal_text \<Rightarrow> 'f json \<Rightarrow> conv_error + 'd run_configuration" where
  "run_from_json nums dec j =
     (let int_of = get_int_of (conv_of nums) in
     bind (bind (json_at j ''RUN_ID'') get_string_of) (\<lambda>run_id.
     bind (bind (json_at j ''SYMBOLS'') get_string_of) (\<lambda>symbols.
     bind (bind (json_at j ''LAST_MONTHS'') int_of) (\<lambda>months.
     bind (json_value get_string_of j ''BATCH'' []) (\<lambda>batch.
     bind (json_value get_string_of j ''EXECUTION_TS'' []) (\<lambda>ts.
     bind (json_value int_of j ''OFFSET_MONTHS'' 0) (\<lambda>offset.
     bind (json_value (decimal_from_json dec) j ''STARTING_BALANCE'' (dec_of_int dec 10000)) (\<lambda>balance.
     bind (json_value (decimal_from_json dec) j ''MAX_LOSS_PERCENT'' (dec_of_int dec 0)) (\<lambda>loss.
     bind (json_value int_of j ''MAX_OPEN_TRADES'' 0) (\<lambda>open_trades.
     bind (json_value int_of j ''MAX_TRADES_PER_MINUTE'' 60) (\<lambda>per_minute.
     bind (json_value get_bool_of j ''REPORT_FAILURES'' True) (\<lambda>report.
     bind (json_value get_bool_of j ''PEAK_HOURS_ONLY'' False) (\<lambda>peak.
     bind (json_value int_of j ''ENTRY_SLIPPAGE_TENTH_PIPS'' 0) (\<lambda>slip.
       Inr \<lparr>rc_RUN_ID = run_id, rc_SYMBOLS = symbols, rc_BATCH = batch, rc_EXECUTION_TS = ts,
            rc_LAST_MONTHS = months, rc_OFFSET_MONTHS = offset, rc_STARTING_BALANCE = balance,
            rc_MAX_LOSS_PERCENT = loss, rc_MAX_OPEN_TRADES = open_trades,
            rc_MAX_TRADES_PER_MINUTE = per_minute, rc_REPORT_FAILURES = report,
            rc_PEAK_HOURS_ONLY = peak, rc_ENTRY_SLIPPAGE_TENTH_PIPS = slip\<rparr>))))))))))))))"

text \<open>\<open>Configuration\<close>: a run's fields and one strategy.\<close>

record 'd configuration = "'d run_configuration" +
  cf_STRATEGY :: strategy_config

definition configuration_to_json :: "'d decimal_text \<Rightarrow> 'd configuration \<Rightarrow> conv_error + 'f json" where
  "configuration_to_json dec c =
     bind (run_fields dec c) (\<lambda>fs. Inr (json_init (fs @ [(''STRATEGY'', strategy_to_json (cf_STRATEGY c))])))"

definition configuration_of :: "'d run_configuration \<Rightarrow> strategy_config \<Rightarrow> 'd configuration" where
  "configuration_of r s = run_configuration.extend r (configuration.fields s)"

text \<open>\<open>STRATEGY\<close> is read before the optional fields: an unreadable one is the error reported.\<close>

definition configuration_from_json :: "'f num_text \<Rightarrow> 'd decimal_text \<Rightarrow> 'f json \<Rightarrow> conv_error + 'd configuration" where
  "configuration_from_json nums dec j =
     bind (bind (json_at j ''RUN_ID'') get_string_of) (\<lambda>_.
     bind (bind (json_at j ''SYMBOLS'') get_string_of) (\<lambda>_.
     bind (bind (json_at j ''LAST_MONTHS'') (get_int_of (conv_of nums))) (\<lambda>_.
     bind (bind (json_at j ''STRATEGY'') (strategy_from_json nums)) (\<lambda>s.
     bind (run_from_json nums dec j) (\<lambda>r.
       Inr (configuration_of r s))))))"

subsection \<open>Through the queue\<close>

definition b64_text :: "string \<Rightarrow> string" where
  "b64_text s = map char_of (b64encode (map of_char s))"

definition parse_base64 :: "'f num_text \<Rightarrow> ('f json \<Rightarrow> conv_error + 'a) \<Rightarrow> string \<Rightarrow> conv_error + 'a" where
  "parse_base64 nums from input =
     (case b64decode (map of_char input) of
        Inl e \<Rightarrow> Inl Read_outside
      | Inr bytes \<Rightarrow>
          (case json_parse (ops_of nums) (map char_of bytes) of
             Inl e \<Rightarrow> Inl (Json_error e)
           | Inr j \<Rightarrow> from j))"

definition parseStrategyFromBase64 :: "'f num_text \<Rightarrow> string \<Rightarrow> conv_error + strategy_config" where
  "parseStrategyFromBase64 nums = parse_base64 nums (strategy_from_json nums)"

definition parseRunConfigurationFromBase64 ::
  "'f num_text \<Rightarrow> 'd decimal_text \<Rightarrow> string \<Rightarrow> conv_error + 'd run_configuration" where
  "parseRunConfigurationFromBase64 nums dec = parse_base64 nums (run_from_json nums dec)"

definition parseConfigurationFromBase64 ::
  "'f num_text \<Rightarrow> 'd decimal_text \<Rightarrow> string \<Rightarrow> conv_error + 'd configuration" where
  "parseConfigurationFromBase64 nums dec = parse_base64 nums (configuration_from_json nums dec)"

end
