(* ===== verification/ConfigCodec.thy ===== *)
theory ConfigCodec
  imports ConfigJson
begin

section \<open>Configurations survive the queue\<close>

text \<open>
  What the loader pushes is what the worker reads: dumping, base64 and their inverses give a strategy
  and a run back field by field. The text conversions of numbers are assumed to be inverse on the
  values at hand.
\<close>

lemma int_read: "in_i32 n \<Longrightarrow> get_int_of conv (parsed_as (JInteger n)) = Inr n"
  by (rule get_int_parsed) simp

lemma int_canonical: "in_i32 n \<Longrightarrow> canonical dbl (parsed_as (JInteger n))"
  by (simp add: in_i32_def)

text \<open>One entry of a struct at a time: its key is ASCII, its value canonical.\<close>

lemma entries_ok_simps:
  "entries_ok dbl []"
  "entries_ok dbl ((k, v) # kvs) \<longleftrightarrow>
     list_all (\<lambda>c. of_char c < (0x80 :: nat)) k \<and> canonical dbl (parsed_as v) \<and> entries_ok dbl kvs"
  by (simp_all add: entries_ok_def)

lemma fields_read:
  assumes "kvs \<noteq> []"
  shows "int_or_0 nums (parsed_as (json_fields kvs)) k =
     (case map_of (rev kvs) k of Some v \<Rightarrow> get_int_of (conv_of nums) (parsed_as v) | None \<Rightarrow> Inr 0)"
  using parsed_fields(2) [OF assms] by (simp add: int_or_0_def)

subsection \<open>The strategies' own variables\<close>

definition ohlc_rsi_ok :: "ohlc_rsi_variables \<Rightarrow> bool" where
  "ohlc_rsi_ok v \<longleftrightarrow> list_all in_i32 [rsi_RSI_LONG v, rsi_RSI_SHORT v]"

definition ohlc_breakout_ok :: "ohlc_breakout_variables \<Rightarrow> bool" where
  "ohlc_breakout_ok v \<longleftrightarrow> list_all in_i32 [ob_BUFFER_PIPS v, ob_MAX_TRADE_DURATION_MINUTES v]"

definition fvg_ok :: "fvg_strategy_variables \<Rightarrow> bool" where
  "fvg_ok v \<longleftrightarrow> list_all in_i32 [fv_LOOKBACK_BARS v, fv_MIN_GAP_PIPS v, fv_HTF_SMA_PERIOD v, fv_MIN_GAP_AGE_BARS v, fv_MAX_TRADE_DURATION_MINUTES v]"

definition keltner_fade_ok :: "keltner_fade_variables \<Rightarrow> bool" where
  "keltner_fade_ok v \<longleftrightarrow> list_all in_i32 [kf_BAND_SMA_PERIOD v, kf_BAND_ATR_MULT_TENTHS v, kf_MAX_TRADE_DURATION_MINUTES v]"

definition session_range_ok :: "session_range_breakout_variables \<Rightarrow> bool" where
  "session_range_ok v \<longleftrightarrow> list_all in_i32 [sr_BUFFER_PIPS v, sr_ENTRY_WINDOW_MINUTES v, sr_MAX_TRADE_DURATION_MINUTES v]"

definition squeeze_ok :: "squeeze_breakout_variables \<Rightarrow> bool" where
  "squeeze_ok v \<longleftrightarrow> list_all in_i32 [sq_NR_LOOKBACK v, sq_VALID_BARS v, sq_BUFFER_PIPS v, sq_MAX_TRADE_DURATION_MINUTES v]"

definition ny_open_ok :: "ny_open_range_breakout_variables \<Rightarrow> bool" where
  "ny_open_ok v \<longleftrightarrow> list_all in_i32 [ny_RANGE_HOURS v, ny_BUFFER_PIPS v, ny_ENTRY_WINDOW_MINUTES v, ny_MAX_TRADE_DURATION_MINUTES v]"

definition liquidity_sweep_ok :: "liquidity_sweep_reversal_variables \<Rightarrow> bool" where
  "liquidity_sweep_ok v \<longleftrightarrow> list_all in_i32 [ls_PIVOT_BARS v, ls_LOOKBACK_BARS v, ls_MIN_SWEEP_PIPS v, ls_DISPLACEMENT_ATR_TENTHS v, ls_VALID_BARS v, ls_MAX_TRADE_DURATION_MINUTES v]"

definition range_velocity_ok :: "range_velocity_variables \<Rightarrow> bool" where
  "range_velocity_ok v \<longleftrightarrow> list_all in_i32 [ve_RUN_BARS v, ve_SPEED_LOOKBACK_BARS v, ve_SPEED_RATIO_PERCENT v, ve_EXIT_RUN_BARS v, ve_MAX_TRADE_DURATION_MINUTES v]"

lemmas struct_defs =
  ohlc_rsi_ok_def ohlc_rsi_to_json_def ohlc_rsi_from_json_def
  ohlc_breakout_ok_def ohlc_breakout_to_json_def ohlc_breakout_from_json_def
  fvg_ok_def fvg_to_json_def fvg_from_json_def
  keltner_fade_ok_def keltner_fade_to_json_def keltner_fade_from_json_def
  session_range_ok_def session_range_to_json_def session_range_from_json_def
  squeeze_ok_def squeeze_to_json_def squeeze_from_json_def
  ny_open_ok_def ny_open_to_json_def ny_open_from_json_def
  liquidity_sweep_ok_def liquidity_sweep_to_json_def liquidity_sweep_from_json_def
  range_velocity_ok_def range_velocity_to_json_def range_velocity_from_json_def

lemma ohlc_rsi_codec:
  assumes "ohlc_rsi_ok v"
  shows "ohlc_rsi_from_json nums (parsed_as (ohlc_rsi_to_json v)) = Inr v" "canonical dbl (parsed_as (ohlc_rsi_to_json v))"
  using assms
  by (simp_all add: struct_defs fields_read parsed_fields(1) int_read int_canonical canonical_fields entries_ok_simps
      del: parsed_as.simps canonical.simps)

lemma ohlc_breakout_codec:
  assumes "ohlc_breakout_ok v"
  shows "ohlc_breakout_from_json nums (parsed_as (ohlc_breakout_to_json v)) = Inr v" "canonical dbl (parsed_as (ohlc_breakout_to_json v))"
  using assms
  by (simp_all add: struct_defs fields_read parsed_fields(1) int_read int_canonical canonical_fields entries_ok_simps
      del: parsed_as.simps canonical.simps)

lemma fvg_codec:
  assumes "fvg_ok v"
  shows "fvg_from_json nums (parsed_as (fvg_to_json v)) = Inr v" "canonical dbl (parsed_as (fvg_to_json v))"
  using assms
  by (simp_all add: struct_defs fields_read parsed_fields(1) int_read int_canonical canonical_fields entries_ok_simps
      del: parsed_as.simps canonical.simps)

lemma keltner_fade_codec:
  assumes "keltner_fade_ok v"
  shows "keltner_fade_from_json nums (parsed_as (keltner_fade_to_json v)) = Inr v" "canonical dbl (parsed_as (keltner_fade_to_json v))"
  using assms
  by (simp_all add: struct_defs fields_read parsed_fields(1) int_read int_canonical canonical_fields entries_ok_simps
      del: parsed_as.simps canonical.simps)

lemma session_range_codec:
  assumes "session_range_ok v"
  shows "session_range_from_json nums (parsed_as (session_range_to_json v)) = Inr v" "canonical dbl (parsed_as (session_range_to_json v))"
  using assms
  by (simp_all add: struct_defs fields_read parsed_fields(1) int_read int_canonical canonical_fields entries_ok_simps
      del: parsed_as.simps canonical.simps)

lemma squeeze_codec:
  assumes "squeeze_ok v"
  shows "squeeze_from_json nums (parsed_as (squeeze_to_json v)) = Inr v" "canonical dbl (parsed_as (squeeze_to_json v))"
  using assms
  by (simp_all add: struct_defs fields_read parsed_fields(1) int_read int_canonical canonical_fields entries_ok_simps
      del: parsed_as.simps canonical.simps)

lemma ny_open_codec:
  assumes "ny_open_ok v"
  shows "ny_open_from_json nums (parsed_as (ny_open_to_json v)) = Inr v" "canonical dbl (parsed_as (ny_open_to_json v))"
  using assms
  by (simp_all add: struct_defs fields_read parsed_fields(1) int_read int_canonical canonical_fields entries_ok_simps
      del: parsed_as.simps canonical.simps)

lemma liquidity_sweep_codec:
  assumes "liquidity_sweep_ok v"
  shows "liquidity_sweep_from_json nums (parsed_as (liquidity_sweep_to_json v)) = Inr v" "canonical dbl (parsed_as (liquidity_sweep_to_json v))"
  using assms
  by (simp_all add: struct_defs fields_read parsed_fields(1) int_read int_canonical canonical_fields entries_ok_simps
      del: parsed_as.simps canonical.simps)

lemma range_velocity_codec:
  assumes "range_velocity_ok v"
  shows "range_velocity_from_json nums (parsed_as (range_velocity_to_json v)) = Inr v" "canonical dbl (parsed_as (range_velocity_to_json v))"
  using assms
  by (simp_all add: struct_defs fields_read parsed_fields(1) int_read int_canonical canonical_fields entries_ok_simps
      del: parsed_as.simps canonical.simps)

lemmas struct_codecs =
  ohlc_rsi_codec
  ohlc_breakout_codec
  fvg_codec
  keltner_fade_codec
  session_range_codec
  squeeze_codec
  ny_open_codec
  liquidity_sweep_codec
  range_velocity_codec

lemma json_fields_not_null: "kvs \<noteq> [] \<Longrightarrow> \<exists>m. json_fields kvs = JObject m"
  using json_fields_obj by blast

lemma objects_not_null:
  "\<exists>m. ohlc_rsi_to_json v0 = JObject m"
  "\<exists>m. ohlc_breakout_to_json v1 = JObject m"
  "\<exists>m. fvg_to_json v2 = JObject m"
  "\<exists>m. keltner_fade_to_json v3 = JObject m"
  "\<exists>m. session_range_to_json v4 = JObject m"
  "\<exists>m. squeeze_to_json v5 = JObject m"
  "\<exists>m. ny_open_to_json v6 = JObject m"
  "\<exists>m. liquidity_sweep_to_json v7 = JObject m"
  "\<exists>m. range_velocity_to_json v8 = JObject m"
  by (simp_all add: struct_defs json_fields_not_null)

definition opt_ok :: "('v \<Rightarrow> bool) \<Rightarrow> 'v option \<Rightarrow> bool" where
  "opt_ok ok v \<longleftrightarrow> (\<forall>x. v = Some x \<longrightarrow> ok x)"

lemma opt_read:
  assumes "kvs \<noteq> []" "map_of (rev kvs) k = Some (opt_to_json g v)" "opt_ok ok v"
    "\<And>x. ok x \<Longrightarrow> f (parsed_as (g x)) = Inr x" "\<And>x. \<exists>m. g x = JObject m"
  shows "opt_from_json f (parsed_as (json_fields kvs)) k = Inr v"
proof (cases v)
  case None
  then show ?thesis using assms(2) by (simp add: opt_from_json_def parsed_fields [OF assms(1)] opt_to_json_def)
next
  case (Some x)
  obtain m where "g x = JObject m" using assms(5) by blast
  then show ?thesis
    using assms(2,3) assms(4) [of x] Some
    by (simp add: opt_from_json_def parsed_fields [OF assms(1)] opt_to_json_def opt_ok_def)
qed

lemma opt_canonical:
  "opt_ok ok v \<Longrightarrow> (\<And>x. ok x \<Longrightarrow> canonical dbl (parsed_as (g x))) \<Longrightarrow> canonical dbl (parsed_as (opt_to_json g v))"
  by (cases v) (simp_all add: opt_to_json_def opt_ok_def)

definition variables_ok :: "strategy_variables \<Rightarrow> bool" where
  "variables_ok s \<longleftrightarrow>
     opt_ok ohlc_rsi_ok (sv_OHLC_RSI_VARIABLES s)
     \<and> opt_ok ohlc_breakout_ok (sv_OHLC_BREAKOUT_VARIABLES s)
     \<and> opt_ok fvg_ok (sv_FVG_STRATEGY_VARIABLES s)
     \<and> opt_ok keltner_fade_ok (sv_KELTNER_FADE_VARIABLES s)
     \<and> opt_ok session_range_ok (sv_SESSION_RANGE_BREAKOUT_VARIABLES s)
     \<and> opt_ok squeeze_ok (sv_SQUEEZE_BREAKOUT_VARIABLES s)
     \<and> opt_ok ny_open_ok (sv_NY_OPEN_RANGE_BREAKOUT_VARIABLES s)
     \<and> opt_ok liquidity_sweep_ok (sv_LIQUIDITY_SWEEP_REVERSAL_VARIABLES s)
     \<and> opt_ok range_velocity_ok (sv_RANGE_VELOCITY_VARIABLES s)"

lemma variables_codec:
  assumes "variables_ok s"
  shows "variables_from_json nums (parsed_as (variables_to_json s)) = Inr s"
    and "canonical dbl (parsed_as (variables_to_json s))"
proof -

  note ok = assms [unfolded variables_ok_def]
  let ?j = "parsed_as (variables_to_json s)"
  have "opt_from_json (ohlc_rsi_from_json nums) ?j ''OHLC_RSI_VARIABLES'' = Inr (sv_OHLC_RSI_VARIABLES s)"
    unfolding variables_to_json_def
    by (rule opt_read [OF _ _ _ ohlc_rsi_codec(1) objects_not_null(1)]) (simp_all add: ok)
  moreover
  have "opt_from_json (ohlc_breakout_from_json nums) ?j ''OHLC_BREAKOUT_VARIABLES'' = Inr (sv_OHLC_BREAKOUT_VARIABLES s)"
    unfolding variables_to_json_def
    by (rule opt_read [OF _ _ _ ohlc_breakout_codec(1) objects_not_null(2)]) (simp_all add: ok)
  moreover
  have "opt_from_json (fvg_from_json nums) ?j ''FVG_STRATEGY_VARIABLES'' = Inr (sv_FVG_STRATEGY_VARIABLES s)"
    unfolding variables_to_json_def
    by (rule opt_read [OF _ _ _ fvg_codec(1) objects_not_null(3)]) (simp_all add: ok)
  moreover
  have "opt_from_json (keltner_fade_from_json nums) ?j ''KELTNER_FADE_VARIABLES'' = Inr (sv_KELTNER_FADE_VARIABLES s)"
    unfolding variables_to_json_def
    by (rule opt_read [OF _ _ _ keltner_fade_codec(1) objects_not_null(4)]) (simp_all add: ok)
  moreover
  have "opt_from_json (session_range_from_json nums) ?j ''SESSION_RANGE_BREAKOUT_VARIABLES'' = Inr (sv_SESSION_RANGE_BREAKOUT_VARIABLES s)"
    unfolding variables_to_json_def
    by (rule opt_read [OF _ _ _ session_range_codec(1) objects_not_null(5)]) (simp_all add: ok)
  moreover
  have "opt_from_json (squeeze_from_json nums) ?j ''SQUEEZE_BREAKOUT_VARIABLES'' = Inr (sv_SQUEEZE_BREAKOUT_VARIABLES s)"
    unfolding variables_to_json_def
    by (rule opt_read [OF _ _ _ squeeze_codec(1) objects_not_null(6)]) (simp_all add: ok)
  moreover
  have "opt_from_json (ny_open_from_json nums) ?j ''NY_OPEN_RANGE_BREAKOUT_VARIABLES'' = Inr (sv_NY_OPEN_RANGE_BREAKOUT_VARIABLES s)"
    unfolding variables_to_json_def
    by (rule opt_read [OF _ _ _ ny_open_codec(1) objects_not_null(7)]) (simp_all add: ok)
  moreover
  have "opt_from_json (liquidity_sweep_from_json nums) ?j ''LIQUIDITY_SWEEP_REVERSAL_VARIABLES'' = Inr (sv_LIQUIDITY_SWEEP_REVERSAL_VARIABLES s)"
    unfolding variables_to_json_def
    by (rule opt_read [OF _ _ _ liquidity_sweep_codec(1) objects_not_null(8)]) (simp_all add: ok)
  moreover
  have "opt_from_json (range_velocity_from_json nums) ?j ''RANGE_VELOCITY_VARIABLES'' = Inr (sv_RANGE_VELOCITY_VARIABLES s)"
    unfolding variables_to_json_def
    by (rule opt_read [OF _ _ _ range_velocity_codec(1) objects_not_null(9)]) (simp_all add: ok)
  ultimately show "variables_from_json nums ?j = Inr s"
    by (simp add: variables_from_json_def)
  show "canonical dbl ?j"
    unfolding variables_to_json_def
    by (rule canonical_fields)
      (simp_all add: entries_ok_simps ok
      opt_canonical [of ohlc_rsi_ok, OF _ ohlc_rsi_codec(2)]
      opt_canonical [of ohlc_breakout_ok, OF _ ohlc_breakout_codec(2)]
      opt_canonical [of fvg_ok, OF _ fvg_codec(2)]
      opt_canonical [of keltner_fade_ok, OF _ keltner_fade_codec(2)]
      opt_canonical [of session_range_ok, OF _ session_range_codec(2)]
      opt_canonical [of squeeze_ok, OF _ squeeze_codec(2)]
      opt_canonical [of ny_open_ok, OF _ ny_open_codec(2)]
      opt_canonical [of liquidity_sweep_ok, OF _ liquidity_sweep_codec(2)]
      opt_canonical [of range_velocity_ok, OF _ range_velocity_codec(2)] del: parsed_as.simps canonical.simps)
qed

subsection \<open>Trading, bar and range variables\<close>

text \<open>Doubles are exact on 32-bit integers, and \<open>stod\<close> and \<open>lround\<close> read them back.\<close>

definition exact_ints :: "'f num_text \<Rightarrow> bool" where
  "exact_ints nums \<longleftrightarrow>
     (\<forall>n. in_i32 n \<longrightarrow>
        dbl_stod nums (int_dec n) = Inr (dbl_of_int nums n) \<and> dbl_isfinite nums (dbl_of_int nums n)
        \<and> dbl_lround nums (dbl_of_int nums n) = n)
     \<and> (\<forall>m n. in_i32 m \<longrightarrow> in_i32 n \<longrightarrow> dbl_less nums (dbl_of_int nums m) (dbl_of_int nums n) = (m < n))"

lemma readIntField_dec:
  assumes "exact_ints nums" "in_i32 n"
  shows "readIntField nums (parsed_as (JString (int_dec n))) = Inr n"
proof -
  have "in_i32 (-2147483648)" "in_i32 2147483647" by (simp_all add: in_i32_def)
  then have "\<not> dbl_less nums (dbl_of_int nums n) (dbl_of_int nums (-2147483648))"
    "\<not> dbl_less nums (dbl_of_int nums 2147483647) (dbl_of_int nums n)"
    using assms unfolding exact_ints_def by (auto simp: in_i32_def)
  then show ?thesis using assms by (simp add: readIntField_def exact_ints_def)
qed

lemma utf8_int_dec: "utf8 (int_dec n)"
proof -
  have "of_char c < (0x80 :: nat)" if "c \<in> set (nat_dec m)" for c m
  proof -
    obtain d ds where "nat_dec m = d # ds" "is_digit d" "\<forall>e \<in> set ds. is_digit e"
      using nat_dec_digits [of m] by blast
    then have "is_digit c" using that by auto
    then show ?thesis by simp
  qed
  then show ?thesis by (intro utf8_ascii) (auto simp: int_dec_def)
qed

definition trading_ok :: "trading_variables \<Rightarrow> bool" where
  "trading_ok v \<longleftrightarrow> utf8 (tv_STRATEGY v)
     \<and> list_all in_i32 [tv_STOP_DISTANCE_IN_ATR v, tv_LIMIT_DISTANCE_IN_ATR v, tv_TRADING_SIZE v]"

lemma trading_codec:
  assumes "exact_ints nums" "trading_ok v"
  shows "trading_from_json nums (parsed_as (trading_to_json v)) = Inr v"
    and "canonical dbl (parsed_as (trading_to_json v))"
proof -
  have ints: "in_i32 (tv_STOP_DISTANCE_IN_ATR v)" "in_i32 (tv_LIMIT_DISTANCE_IN_ATR v)" "in_i32 (tv_TRADING_SIZE v)"
    using assms(2) by (simp_all add: trading_ok_def)
  show "trading_from_json nums (parsed_as (trading_to_json v)) = Inr v"
    unfolding trading_to_json_def trading_from_json_def
    using readIntField_dec [OF assms(1) ints(1)] readIntField_dec [OF assms(1) ints(2)]
      readIntField_dec [OF assms(1) ints(3)]
    by (simp add: parsed_init get_string_of_def)
  show "canonical dbl (parsed_as (trading_to_json v))"
    unfolding trading_to_json_def
    by (rule canonical_init) (use assms(2) in \<open>simp add: entries_ok_simps trading_ok_def utf8_int_dec\<close>)
qed

definition ohlc_ok :: "ohlc_variables \<Rightarrow> bool" where
  "ohlc_ok v \<longleftrightarrow> list_all (\<lambda>n. in_i32 n \<and> 0 \<le> n) [ov_OHLC_COUNT v, ov_OHLC_MINUTES v]"

lemma ohlc_codec:
  assumes "ohlc_ok v"
  shows "ohlc_from_json nums (parsed_as (ohlc_to_json v)) = Inr v" "canonical dbl (parsed_as (ohlc_to_json v))"
  using assms
  by (simp_all add: ohlc_ok_def ohlc_to_json_def ohlc_from_json_def parsed_init int_read int_canonical
      canonical_init entries_ok_simps del: parsed_as.simps canonical.simps)

definition range_ok :: "range_bar_variables \<Rightarrow> bool" where
  "range_ok v \<longleftrightarrow> list_all (\<lambda>n. in_i32 n \<and> 0 \<le> n)
     [rv_RANGE_ATR_TICK_WINDOW v, rv_RANGE_ATR_PERCENT v, rv_RANGE_COUNT v]"

lemma range_codec:
  assumes "range_ok v"
  shows "range_from_json nums (parsed_as (range_to_json v)) = Inr v" "canonical dbl (parsed_as (range_to_json v))"
  using assms
  by (simp_all add: range_ok_def range_to_json_def range_from_json_def parsed_init int_read int_canonical
      canonical_init entries_ok_simps del: parsed_as.simps canonical.simps)

subsection \<open>Strategies\<close>

definition strategy_ok :: "strategy_config \<Rightarrow> bool" where
  "strategy_ok c \<longleftrightarrow> utf8 (sc_UUID c) \<and> trading_ok (sc_TRADING_VARIABLES c)
     \<and> list_all ohlc_ok (sc_OHLC_VARIABLES c) \<and> list_all range_ok (sc_RANGE_VARIABLES c)
     \<and> variables_ok (sc_STRATEGY_VARIABLES c)"

lemma array_read:
  assumes "\<And>x. x \<in> set xs \<Longrightarrow> f (parsed_as (g x)) = Inr x"
  shows "get_array_of f (parsed_as (JArray (map g xs))) = Inr xs"
  using get_each_map [of xs f g "\<lambda>x. x"] assms by simp

lemma string_canonical: "canonical dbl (parsed_as (JString s)) = utf8 s"
  by simp

lemma bool_canonical: "canonical dbl (parsed_as (JBoolean b))"
  by simp

lemma canonical_array:
  "list_all (\<lambda>x. canonical dbl (parsed_as (g x))) xs \<Longrightarrow> canonical dbl (parsed_as (JArray (map g xs)))"
  by (auto simp: list_all_iff)

lemma strategy_codec:
  assumes "exact_ints nums" "strategy_ok c"
  shows "strategy_from_json nums (parsed_as (strategy_to_json c)) = Inr c"
    and "canonical dbl (parsed_as (strategy_to_json c))"
proof -
  note ok = assms(2) [unfolded strategy_ok_def]
  have arrays: "get_array_of (ohlc_from_json nums) (parsed_as (JArray (map ohlc_to_json (sc_OHLC_VARIABLES c))))
      = Inr (sc_OHLC_VARIABLES c)"
    "get_array_of (range_from_json nums) (parsed_as (JArray (map range_to_json (sc_RANGE_VARIABLES c))))
      = Inr (sc_RANGE_VARIABLES c)"
    by (rule array_read; use ok in \<open>auto simp: list_all_iff ohlc_codec(1) range_codec(1)\<close>)+
  show "strategy_from_json nums (parsed_as (strategy_to_json c)) = Inr c"
    using ok arrays trading_codec(1) [OF assms(1)] variables_codec(1) [of "sc_STRATEGY_VARIABLES c" nums]
    unfolding strategy_to_json_def strategy_from_json_def
    by (simp add: parsed_init get_string_of_def del: parsed_as.simps)
      (simp add: get_string_of_def)
  show "canonical dbl (parsed_as (strategy_to_json c))"
    unfolding strategy_to_json_def
  proof (rule canonical_init)
    have "list_all (\<lambda>x. canonical dbl (parsed_as (ohlc_to_json x))) (sc_OHLC_VARIABLES c)"
      "list_all (\<lambda>x. canonical dbl (parsed_as (range_to_json x))) (sc_RANGE_VARIABLES c)"
      using ok by (auto simp: list_all_iff ohlc_codec(2) range_codec(2))
    from this [THEN canonical_array] show "entries_ok dbl
       [(''UUID'', JString (sc_UUID c)), (''TRADING_VARIABLES'', trading_to_json (sc_TRADING_VARIABLES c)),
        (''OHLC_VARIABLES'', JArray (map ohlc_to_json (sc_OHLC_VARIABLES c))),
        (''RANGE_VARIABLES'', JArray (map range_to_json (sc_RANGE_VARIABLES c))),
        (''STRATEGY_VARIABLES'', variables_to_json (sc_STRATEGY_VARIABLES c))]"
      using ok
      by (simp add: entries_ok_simps string_canonical trading_codec(2) [OF assms(1)] variables_codec(2) del: parsed_as.simps canonical.simps)
  qed
qed

lemma parse_base64_b64_text:
  "parse_base64 nums from (b64_text text) =
     (case json_parse (ops_of nums) text of Inl e \<Rightarrow> Inl (Json_error e) | Inr j \<Rightarrow> from j)"
proof -
  have byte: "list_all byte (map of_char s :: int list)" for s
  proof -
    have "byte (of_char c :: int)" for c
    proof -
      have "(of_char c :: int) = int (of_char c)" by (rule of_nat_of_char [symmetric])
      then show ?thesis using of_char_less_256 [of c] unfolding byte_def by linarith
    qed
    then show ?thesis by (simp add: list_all_iff)
  qed
  have "map of_char (map char_of xs :: string) = xs" if "list_all byte xs" for xs :: "int list"
    using that by (induction xs) (simp_all add: byte_def)
  then have "map of_char (b64_text text) = b64encode (map of_char text)"
    unfolding b64_text_def using b64encode_bytes [OF byte] by blast
  then show ?thesis by (simp add: parse_base64_def base64_round_trip_bytes [OF byte] comp_def)
qed

lemma payload_round_trip:
  assumes "canonical (ops_of nums) (parsed_as j)" "from (parsed_as j) = Inr c"
  shows "\<exists>text. json_dump (ops_of nums) j = Inr text \<and> parse_base64 nums from (b64_text text) = Inr c"
  using round_trip_parsed_as [OF assms(1)] assms(2) by (auto simp: parse_base64_b64_text)

text \<open>C11: A strategy that is dumped and base64 encoded onto the queue is parsed by the worker as exactly
  the same strategy: every field of every variable block, absent blocks and empty lists included.\<close>

theorem strategy_payload_round_trip:
  assumes "exact_ints nums" "strategy_ok c"
  shows "\<exists>text. json_dump (ops_of nums) (strategy_to_json c) = Inr text
           \<and> parseStrategyFromBase64 nums (b64_text text) = Inr c"
  unfolding parseStrategyFromBase64_def
  by (rule payload_round_trip) (rule strategy_codec [OF assms])+

subsection \<open>Runs\<close>

definition decimal_reads :: "'d decimal_text \<Rightarrow> 'd \<Rightarrow> bool" where
  "decimal_reads dec x \<longleftrightarrow> (\<exists>t. dec_to_chars dec x = Some t \<and> utf8 t \<and> dec_from_chars dec t = Some x)"

definition run_ok :: "'d decimal_text \<Rightarrow> ('d, 'x) run_configuration_scheme \<Rightarrow> bool" where
  "run_ok dec c \<longleftrightarrow>
     list_all utf8 [rc_RUN_ID c, rc_SYMBOLS c, rc_BATCH c, rc_EXECUTION_TS c]
     \<and> list_all in_i32 [rc_LAST_MONTHS c, rc_OFFSET_MONTHS c, rc_MAX_OPEN_TRADES c,
         rc_MAX_TRADES_PER_MINUTE c, rc_ENTRY_SLIPPAGE_TENTH_PIPS c]
     \<and> list_all (decimal_reads dec) [rc_STARTING_BALANCE c, rc_MAX_LOSS_PERCENT c]"

lemma run_codec:
  fixes nums :: "'f num_text"
  assumes "run_ok dec c"
  obtains j where "run_to_json dec c = Inr j" "run_from_json nums dec (parsed_as j) = Inr c"
    "canonical dbl (parsed_as j)"
proof -
  obtain b l where b: "dec_to_chars dec (rc_STARTING_BALANCE c) = Some b" "utf8 b"
      "dec_from_chars dec b = Some (rc_STARTING_BALANCE c)"
    and l: "dec_to_chars dec (rc_MAX_LOSS_PERCENT c) = Some l" "utf8 l"
      "dec_from_chars dec l = Some (rc_MAX_LOSS_PERCENT c)"
    using assms by (auto simp: run_ok_def decimal_reads_def)
  define fs :: "(string \<times> 'f json) list" where "fs = [(''RUN_ID'', JString (rc_RUN_ID c)),
      (''SYMBOLS'', JString (rc_SYMBOLS c)), (''BATCH'', JString (rc_BATCH c)),
      (''EXECUTION_TS'', JString (rc_EXECUTION_TS c)), (''LAST_MONTHS'', JInteger (rc_LAST_MONTHS c)),
      (''OFFSET_MONTHS'', JInteger (rc_OFFSET_MONTHS c)), (''STARTING_BALANCE'', JString b),
      (''MAX_LOSS_PERCENT'', JString l), (''MAX_OPEN_TRADES'', JInteger (rc_MAX_OPEN_TRADES c)),
      (''MAX_TRADES_PER_MINUTE'', JInteger (rc_MAX_TRADES_PER_MINUTE c)),
      (''REPORT_FAILURES'', JBoolean (rc_REPORT_FAILURES c)), (''PEAK_HOURS_ONLY'', JBoolean (rc_PEAK_HOURS_ONLY c)),
      (''ENTRY_SLIPPAGE_TENTH_PIPS'', JInteger (rc_ENTRY_SLIPPAGE_TENTH_PIPS c))]"
  have ints: "in_i32 (rc_LAST_MONTHS c)" "in_i32 (rc_OFFSET_MONTHS c)" "in_i32 (rc_MAX_OPEN_TRADES c)"
    "in_i32 (rc_MAX_TRADES_PER_MINUTE c)" "in_i32 (rc_ENTRY_SLIPPAGE_TENTH_PIPS c)"
    using assms by (simp_all add: run_ok_def)
  show ?thesis
  proof (rule that)
    show "run_to_json dec c = Inr (json_init fs)"
      using b l by (simp add: run_to_json_def run_fields_def decimal_to_json_def fs_def)
    have s: "get_string_of (parsed_as (JString t)) = Inr t" "get_bool_of (parsed_as (JBoolean q)) = Inr q"
      "decimal_from_json dec (parsed_as (JString b)) = Inr (rc_STARTING_BALANCE c)"
      "decimal_from_json dec (parsed_as (JString l)) = Inr (rc_MAX_LOSS_PERCENT c)" for t q
      using b l by (simp_all add: get_string_of_def get_bool_of_def decimal_from_json_def)
    show "run_from_json nums dec (parsed_as (json_init fs)) = Inr c"
      by (simp add: run_from_json_def Let_def parsed_init fs_def s int_read ints del: parsed_as.simps)
    show "canonical dbl (parsed_as (json_init fs))"
      by (rule canonical_init)
        (use assms b l ints in \<open>simp add: fs_def entries_ok_simps int_canonical
          string_canonical bool_canonical run_ok_def del: parsed_as.simps canonical.simps\<close>)
  qed
qed

text \<open>A run descriptor pushed on a run queue is parsed by the worker as exactly the same run, its
  decimal balance and loss limit included.\<close>

theorem run_descriptor_round_trip:
  assumes "run_ok dec c"
  shows "\<exists>j text. run_to_json dec c = Inr j \<and> json_dump (ops_of nums) j = Inr text
           \<and> parseRunConfigurationFromBase64 nums dec (b64_text text) = Inr c"
proof -
  obtain j where j: "run_to_json dec c = Inr j" "run_from_json nums dec (parsed_as j) = Inr c"
    "canonical (ops_of nums) (parsed_as j)" using run_codec [OF assms] .
  from payload_round_trip [of nums j "run_from_json nums dec" c, OF j(3,2)] j(1) show ?thesis
    by (auto simp: parseRunConfigurationFromBase64_def)
qed

subsection \<open>With integers for the doubles\<close>

definition read_dec :: "string \<Rightarrow> int" where
  "read_dec s = (case s of c # cs \<Rightarrow> if c = CHR ''-'' then - digits_value cs else digits_value s | [] \<Rightarrow> 0)"

definition int_nums :: "int num_text" where
  "int_nums = \<lparr>dbl_isfinite = (\<lambda>_. True), dbl_to_chars = int_dec, dbl_strtod = read_dec, dbl_of_int = id,
     dbl_to_int = id, dbl_format = int_dec, dbl_stod = (\<lambda>s. Inr (read_dec s)), dbl_less = (<), dbl_lround = id\<rparr>"

definition int_decimals :: "int decimal_text" where
  "int_decimals = \<lparr>dec_of_int = id, dec_to_chars = (\<lambda>x. Some (int_dec x)), dec_from_chars = (\<lambda>s. Some (read_dec s))\<rparr>"

lemma read_dec_int_dec: "read_dec (int_dec n) = n"
proof (cases "n < 0")
  case True
  then show ?thesis by (simp add: read_dec_def int_dec_def digits_value_dec)
next
  case False
  obtain c cs where c: "nat_dec (nat n) = c # cs" "is_digit c" using nat_dec_digits [of "nat n"] by blast
  then have "c \<noteq> CHR ''-''" by auto
  then have "read_dec (int_dec n) = digits_value (nat_dec (nat n))" using c(1) False by (simp add: read_dec_def int_dec_def)
  then show ?thesis using False by (simp add: digits_value_dec)
qed

lemma int_nums_exact: "exact_ints int_nums"
  by (simp add: exact_ints_def int_nums_def read_dec_int_dec)

definition sample_strategy :: strategy_config where
  "sample_strategy =
     \<lparr>sc_UUID = ''u-1'',
      sc_TRADING_VARIABLES = \<lparr>tv_STRATEGY = ''OHLCBreakoutStrategy'', tv_STOP_DISTANCE_IN_ATR = 2,
        tv_LIMIT_DISTANCE_IN_ATR = 3, tv_TRADING_SIZE = 1\<rparr>,
      sc_OHLC_VARIABLES = [\<lparr>ov_OHLC_COUNT = 20, ov_OHLC_MINUTES = 15\<rparr>], sc_RANGE_VARIABLES = [],
      sc_STRATEGY_VARIABLES =
        \<lparr>sv_OHLC_RSI_VARIABLES = None,
         sv_OHLC_BREAKOUT_VARIABLES = Some \<lparr>ob_BUFFER_PIPS = 5, ob_MAX_TRADE_DURATION_MINUTES = 120\<rparr>,
         sv_FVG_STRATEGY_VARIABLES = None, sv_KELTNER_FADE_VARIABLES = None,
         sv_SESSION_RANGE_BREAKOUT_VARIABLES = None, sv_SQUEEZE_BREAKOUT_VARIABLES = None,
         sv_NY_OPEN_RANGE_BREAKOUT_VARIABLES = None, sv_LIQUIDITY_SWEEP_REVERSAL_VARIABLES = None,
         sv_RANGE_VELOCITY_VARIABLES = None\<rparr>\<rparr>"

definition sample_run :: "int run_configuration" where
  "sample_run =
     \<lparr>rc_RUN_ID = ''r-1'', rc_SYMBOLS = ''EURUSD'', rc_BATCH = [], rc_EXECUTION_TS = [], rc_LAST_MONTHS = 3,
      rc_OFFSET_MONTHS = 0, rc_STARTING_BALANCE = 10000, rc_MAX_LOSS_PERCENT = 5, rc_MAX_OPEN_TRADES = 0,
      rc_MAX_TRADES_PER_MINUTE = 60, rc_REPORT_FAILURES = True, rc_PEAK_HOURS_ONLY = False,
      rc_ENTRY_SLIPPAGE_TENTH_PIPS = 0\<rparr>"

lemma sample_strategy_ok: "strategy_ok sample_strategy"
  by (simp add: strategy_ok_def sample_strategy_def trading_ok_def ohlc_ok_def variables_ok_def opt_ok_def
      ohlc_breakout_ok_def in_i32_def utf8_ascii)

lemma strategy_payload_round_trip_witness:
  "exact_ints int_nums \<and> strategy_ok sample_strategy
   \<and> (\<exists>text. json_dump (ops_of int_nums) (strategy_to_json sample_strategy) = Inr text
        \<and> parseStrategyFromBase64 int_nums (b64_text text) = Inr sample_strategy)"
  using strategy_payload_round_trip [OF int_nums_exact sample_strategy_ok] int_nums_exact sample_strategy_ok by blast

lemma sample_run_ok: "run_ok int_decimals sample_run"
  by (simp add: run_ok_def sample_run_def decimal_reads_def int_decimals_def in_i32_def utf8_ascii utf8_Nil
      utf8_int_dec read_dec_int_dec)

lemma run_descriptor_round_trip_witness:
  "run_ok int_decimals sample_run
   \<and> (\<exists>j text. run_to_json int_decimals sample_run = Inr j \<and> json_dump (ops_of int_nums) j = Inr text
        \<and> parseRunConfigurationFromBase64 int_nums int_decimals (b64_text text) = Inr sample_run)"
  using run_descriptor_round_trip [OF sample_run_ok, of int_nums] sample_run_ok by blast

end
