(* ===== verification/RunQueue.thy ===== *)
theory RunQueue
  imports RedisLists ConfigCodec "HOL-Library.Sublist"
begin

section \<open>The work queue\<close>

text \<open>
  \<open>shared/utilities/queueKeys.hpp\<close> (the keys), \<open>run/queue/runQueue.cpp\<close> (peek, pop, take, retire)
  and \<open>run/queue/rollingWindow.cppm\<close> (the ladder of windows and the queue of each rung). A name popped
  from a run's list and a payload taken by name go to at most one worker, whatever the interleaving and
  whichever Redis calls fail; \<open>queue_steps\<close> records what was handed out.
\<close>

subsection \<open>Keys\<close>

definition RUN :: string where
  "RUN = ''BACKTESTING_QUEUE_RUN''"

definition RUN_QUEUES :: "string list" where
  "RUN_QUEUES =
     [RUN, ''BACKTESTING_QUEUE_RUN_CHAIN:1'', ''BACKTESTING_QUEUE_RUN_CHAIN:2'', ''BACKTESTING_QUEUE_RUN_CHAIN:3'']"

definition PAYLOAD_TTL_SECONDS :: int where
  "PAYLOAD_TTL_SECONDS = 7 * 24 * 60 * 60"

definition strategyKey :: "string \<Rightarrow> string" where
  "strategyKey runId = ''BACKTESTING_QUEUE_STRATEGY:'' @ runId"

definition strategyPayloadKey :: "string \<Rightarrow> string \<Rightarrow> string" where
  "strategyPayloadKey runId uuid = ''BACKTESTING_QUEUE_STRATEGY_PAYLOAD:'' @ runId @ '':'' @ uuid"

definition EXPERIMENT_RUN :: string where
  "EXPERIMENT_RUN = ''BACKTESTING_QUEUE_EXPERIMENT_RUN''"

definition experimentKey :: "string \<Rightarrow> string" where
  "experimentKey runId = ''BACKTESTING_QUEUE_EXPERIMENT:'' @ runId"

definition experimentPayloadKey :: "string \<Rightarrow> string \<Rightarrow> string" where
  "experimentPayloadKey runId uuid = ''BACKTESTING_QUEUE_EXPERIMENT_PAYLOAD:'' @ runId @ '':'' @ uuid"

lemma queue_keys_apart [simp]:
  "strategyKey r \<noteq> strategyPayloadKey r' u" "strategyPayloadKey r' u \<noteq> strategyKey r"
  "experimentKey r \<noteq> experimentPayloadKey r' u" "experimentPayloadKey r' u \<noteq> experimentKey r"
  "q \<in> set RUN_QUEUES \<Longrightarrow> q \<noteq> strategyKey r" "q \<in> set RUN_QUEUES \<Longrightarrow> q \<noteq> strategyPayloadKey r u"
  by (auto simp: strategyKey_def strategyPayloadKey_def experimentKey_def experimentPayloadKey_def
      RUN_QUEUES_def RUN_def)

lemma strategyKey_inj [simp]: "strategyKey r = strategyKey r' \<longleftrightarrow> r = r'"
  by (simp add: strategyKey_def)

lemma strategyPayloadKey_inj [simp]: "strategyPayloadKey r u = strategyPayloadKey r u' \<longleftrightarrow> u = u'"
  by (simp add: strategyPayloadKey_def)

subsection \<open>The rolling window\<close>

record window =
  lastMonths :: int
  offsetMonths :: int

definition kFullHistory :: window where
  "kFullHistory = \<lparr>lastMonths = 9, offsetMonths = 0\<rparr>"

definition kLadder :: "(window \<times> window) list" where
  "kLadder =
     [(\<lparr>lastMonths = 3, offsetMonths = 0\<rparr>, \<lparr>lastMonths = 3, offsetMonths = 3\<rparr>),
      (\<lparr>lastMonths = 3, offsetMonths = 3\<rparr>, \<lparr>lastMonths = 3, offsetMonths = 6\<rparr>),
      (\<lparr>lastMonths = 3, offsetMonths = 6\<rparr>, kFullHistory)]"

fun find_step :: "(window \<times> window) list \<Rightarrow> window \<Rightarrow> window option" where
  "find_step [] finished = None"
| "find_step ((f, t) # steps) finished = (if f = finished then Some t else find_step steps finished)"

definition nextWindow :: "int \<Rightarrow> int \<Rightarrow> window option" where
  "nextWindow m k = find_step kLadder \<lparr>lastMonths = m, offsetMonths = k\<rparr>"

fun rung_of :: "(window \<times> window) list \<Rightarrow> nat \<Rightarrow> window \<Rightarrow> nat option" where
  "rung_of [] rung w = None"
| "rung_of ((f, t) # steps) rung w = (if t = w then Some rung else rung_of steps (Suc rung) w)"

definition queueKeyFor :: "window \<Rightarrow> string" where
  "queueKeyFor w = (case rung_of kLadder 0 w of Some rung \<Rightarrow> RUN_QUEUES ! (rung + 1) | None \<Rightarrow> RUN)"

definition nextRunConfiguration :: "'d configuration \<Rightarrow> window \<Rightarrow> string \<Rightarrow> 'd run_configuration" where
  "nextRunConfiguration finished w newRunId =
     \<lparr>rc_RUN_ID = newRunId, rc_SYMBOLS = rc_SYMBOLS finished, rc_BATCH = rc_BATCH finished,
      rc_EXECUTION_TS = rc_EXECUTION_TS finished, rc_LAST_MONTHS = lastMonths w,
      rc_OFFSET_MONTHS = offsetMonths w, rc_STARTING_BALANCE = rc_STARTING_BALANCE finished,
      rc_MAX_LOSS_PERCENT = rc_MAX_LOSS_PERCENT finished, rc_MAX_OPEN_TRADES = rc_MAX_OPEN_TRADES finished,
      rc_MAX_TRADES_PER_MINUTE = rc_MAX_TRADES_PER_MINUTE finished,
      rc_REPORT_FAILURES = rc_REPORT_FAILURES finished, rc_PEAK_HOURS_ONLY = rc_PEAK_HOURS_ONLY finished,
      rc_ENTRY_SLIPPAGE_TENTH_PIPS = rc_ENTRY_SLIPPAGE_TENTH_PIPS finished\<rparr>"

text \<open>The windows a strategy still has to pass, to the end of its chain.\<close>

definition window_step :: "window \<Rightarrow> window \<Rightarrow> bool" where
  "window_step w w' \<longleftrightarrow> nextWindow (lastMonths w) (offsetMonths w) = Some w'"

lemma nextWindow_cases:
  "nextWindow (lastMonths w) (offsetMonths w) =
     (if w = \<lparr>lastMonths = 3, offsetMonths = 0\<rparr> then Some \<lparr>lastMonths = 3, offsetMonths = 3\<rparr>
      else if w = \<lparr>lastMonths = 3, offsetMonths = 3\<rparr> then Some \<lparr>lastMonths = 3, offsetMonths = 6\<rparr>
      else if w = \<lparr>lastMonths = 3, offsetMonths = 6\<rparr> then Some kFullHistory else None)"
  by (cases w) (simp add: nextWindow_def kLadder_def)

lemma queueKeyFor_cases:
  "queueKeyFor w =
     (if w = \<lparr>lastMonths = 3, offsetMonths = 3\<rparr> then RUN_QUEUES ! 1
      else if w = \<lparr>lastMonths = 3, offsetMonths = 6\<rparr> then RUN_QUEUES ! 2
      else if w = kFullHistory then RUN_QUEUES ! 3 else RUN)"
  by (cases w) (simp add: queueKeyFor_def kLadder_def kFullHistory_def RUN_QUEUES_def)

lemma run_queues_distinct: "distinct RUN_QUEUES"
  by (simp add: RUN_QUEUES_def RUN_def)

lemma queueKeyFor_queue: "queueKeyFor w \<in> set RUN_QUEUES"
  by (simp add: queueKeyFor_cases) (simp add: RUN_QUEUES_def)

fun position :: "string list \<Rightarrow> string \<Rightarrow> nat" where
  "position [] k = 0"
| "position (x # xs) k = (if x = k then 0 else Suc (position xs k))"

lemma queueKeyFor_position:
  "position RUN_QUEUES (queueKeyFor w) =
     (if w = \<lparr>lastMonths = 3, offsetMonths = 3\<rparr> then 1
      else if w = \<lparr>lastMonths = 3, offsetMonths = 6\<rparr> then 2
      else if w = kFullHistory then 3 else 0)"
  by (simp add: queueKeyFor_cases) (simp add: RUN_QUEUES_def RUN_def)

lemma nth_run_queues: "RUN_QUEUES ! 1 = ''BACKTESTING_QUEUE_RUN_CHAIN:1''"
  "RUN_QUEUES ! 2 = ''BACKTESTING_QUEUE_RUN_CHAIN:2''" "RUN_QUEUES ! 3 = ''BACKTESTING_QUEUE_RUN_CHAIN:3''"
  by (simp_all add: RUN_QUEUES_def)

text \<open>Every step of the ladder moves the strategy onto a strictly lower priority queue, so chains end; the
  chain of the seed window ends with the full history.\<close>

lemma ladder_descends:
  "window_step w w' \<Longrightarrow> position RUN_QUEUES (queueKeyFor w) < position RUN_QUEUES (queueKeyFor w')"
  by (auto simp: window_step_def nextWindow_cases queueKeyFor_position kFullHistory_def split: if_splits)

lemma ladder_ends: "wfp (\<lambda>w' w. window_step w w')"
proof (rule wfp_if_convertible_to_nat [where f = "\<lambda>w. 3 - position RUN_QUEUES (queueKeyFor w)"])
  fix w' w assume s: "window_step w w'"
  have "position RUN_QUEUES (queueKeyFor w') \<le> 3" by (simp add: queueKeyFor_position)
  then show "3 - position RUN_QUEUES (queueKeyFor w') < 3 - position RUN_QUEUES (queueKeyFor w)"
    using ladder_descends [OF s] by linarith
qed

lemma seed_reaches_full_history: "window_step\<^sup>*\<^sup>* \<lparr>lastMonths = 3, offsetMonths = 0\<rparr> kFullHistory"
proof -
  have "window_step \<lparr>lastMonths = 3, offsetMonths = 0\<rparr> \<lparr>lastMonths = 3, offsetMonths = 3\<rparr>"
    "window_step \<lparr>lastMonths = 3, offsetMonths = 3\<rparr> \<lparr>lastMonths = 3, offsetMonths = 6\<rparr>"
    "window_step \<lparr>lastMonths = 3, offsetMonths = 6\<rparr> kFullHistory"
    by (simp_all add: window_step_def nextWindow_def kLadder_def)
  then show ?thesis by (meson converse_rtranclp_into_rtranclp rtranclp.rtrancl_refl)
qed

subsection \<open>Queue access\<close>

record peeked_run =
  pr_queueKey :: string
  pr_descriptorB64 :: string

definition peekQueueTail :: "'w exec \<Rightarrow> string \<Rightarrow> ('w, peeked_run option) redis" where
  "peekQueueTail exec queueKey =
     redis_map (map_option (\<lambda>descriptor. \<lparr>pr_queueKey = queueKey, pr_descriptorB64 = descriptor\<rparr>))
       (listIndex exec queueKey (- 1))"

fun peek_first :: "'w exec \<Rightarrow> string list \<Rightarrow> ('w, peeked_run option) redis" where
  "peek_first exec [] w = (Inr None, w)"
| "peek_first exec (queueKey # queues) w =
     (case peekQueueTail exec queueKey w of
        (Inl e, w') \<Rightarrow> (Inl e, w')
      | (Inr peeked, w') \<Rightarrow> if peeked \<noteq> None then (Inr peeked, w') else peek_first exec queues w')"

definition peekRunTail :: "'w exec \<Rightarrow> ('w, peeked_run option) redis" where
  "peekRunTail exec = peek_first exec RUN_QUEUES"

definition popStrategyKey :: "'w exec \<Rightarrow> string \<Rightarrow> ('w, string option) redis" where
  "popStrategyKey exec key = listPopBack exec key"

definition takeStrategyPayload :: "'w exec \<Rightarrow> string \<Rightarrow> ('w, string option) redis" where
  "takeStrategyPayload exec payloadKey = getDelete exec payloadKey"

definition removeRun :: "'w exec \<Rightarrow> string \<Rightarrow> string \<Rightarrow> ('w, unit) redis" where
  "removeRun exec queueKey descriptorB64 = listRemove exec queueKey 0 descriptorB64"

subsection \<open>Everything is handed out once\<close>

datatype handed = Popped string | Taken string string

fun pops :: "handed list \<Rightarrow> string list" where
  "pops [] = []"
| "pops (Popped name # hs) = name # pops hs"
| "pops (Taken k v # hs) = pops hs"

fun takes :: "string \<Rightarrow> handed list \<Rightarrow> string list" where
  "takes k [] = []"
| "takes k (Popped name # hs) = takes k hs"
| "takes k (Taken k' v # hs) = (if k' = k then v # takes k hs else takes k hs)"

definition handed_of :: "('a \<Rightarrow> handed) \<Rightarrow> string + 'a option \<Rightarrow> handed list" where
  "handed_of f res = (case res of Inr (Some x) \<Rightarrow> [f x] | _ \<Rightarrow> [])"

text \<open>What any number of workers do to the list of names and the payloads \<open>P\<close>, in any order, with what
  they were handed; everything else they do leaves these keys alone.\<close>

inductive queue_steps ::
  "'w exec \<Rightarrow> ('w \<Rightarrow> redis_db) \<Rightarrow> string \<Rightarrow> string set \<Rightarrow> 'w \<Rightarrow> handed list \<Rightarrow> 'w \<Rightarrow> bool"
  for exec db key P where
  queue_stop: "queue_steps exec db key P w [] w"
| queue_pop: "popStrategyKey exec key w = (res, w') \<Longrightarrow> queue_steps exec db key P w' hs v \<Longrightarrow>
    queue_steps exec db key P w (handed_of Popped res @ hs) v"
| queue_take: "takeStrategyPayload exec k w = (res, w') \<Longrightarrow> k \<in> P \<Longrightarrow> queue_steps exec db key P w' hs v \<Longrightarrow>
    queue_steps exec db key P w (handed_of (Taken k) res @ hs) v"
| queue_other: "touched ks (db w) (db w') \<Longrightarrow> key \<notin> ks \<Longrightarrow> ks \<inter> P = {} \<Longrightarrow>
    queue_steps exec db key P w' hs v \<Longrightarrow> queue_steps exec db key P w hs v"

lemma touched_live: "touched ks d d' \<Longrightarrow> k \<notin> ks \<Longrightarrow> live d' k = Some v \<Longrightarrow> live d k = Some v"
  by (auto simp: touched_def live_def split: option.splits if_splits)

lemma touched_live_string: "touched ks d d' \<Longrightarrow> k \<notin> ks \<Longrightarrow> live_string d' k = Some v \<Longrightarrow> live_string d k = Some v"
  using touched_live [of ks d d' k] by (auto simp: live_string_def split: option.splits rvalue.splits)

lemma touched_live_list: "touched ks d d' \<Longrightarrow> k \<notin> ks \<Longrightarrow> live_list d' k \<in> {[], live_list d k}"
  using touched_live [of ks d d' k] by (auto simp: live_list_def split: option.splits rvalue.splits)

lemma touched_list_key: "touched ks d d' \<Longrightarrow> k \<notin> ks \<Longrightarrow> list_key d k \<Longrightarrow> list_key d' k"
  using touched_live [of ks d d' k] by (auto simp: list_key_def split: option.splits rvalue.splits)

lemma popped_list:
  assumes "list_key d k"
  shows "live_list (popped k d) k = butlast (live_list d k)" "list_key (popped k d) k"
proof -
  have "live d k \<noteq> None" if "live_list d k \<noteq> []" using that by (auto simp: live_list_def split: option.splits)
  then show "live_list (popped k d) k = butlast (live_list d k)" "list_key (popped k d) k"
    using assms by (auto simp: popped_def live_list_put list_put_key)
qed

lemma pop_touched:
  assumes "redis_contract exec db" "listPopBack exec k w = (res, w')" "list_key (db w) k"
  shows "touched {k} (db w) (db w') \<and> list_key (db w') k"
proof -
  obtain d where d: "passed (db w) d" "db w' = d \<or> db w' = popped k d"
    using listPopBack_contract [OF assms] by blast
  have k: "list_key d k" by (rule passed_list_key [OF d(1) assms(3)])
  have "list_key (db w') k" using d(2) k popped_list(2) [OF k] by (elim disjE) simp_all
  moreover have "touched {k} d (popped k d)" by (simp add: touched_def popped_def list_put_other)
  then have "touched {k} (db w) (db w')"
    using d(2) touched_passed [OF d(1), of "{k}"] touched_trans [of "{k}" "db w" d "{k}"] by auto
  ultimately show ?thesis by blast
qed

lemma subseq_rev_end:
  "subseq ps (rev (butlast vs)) \<Longrightarrow> vs \<noteq> [] \<Longrightarrow> subseq (last vs # ps) (rev vs)"
  by (cases vs rule: rev_cases) auto

lemma subseq_rev_butlast: "subseq ps (rev (butlast vs)) \<Longrightarrow> subseq ps (rev vs)"
  by (cases vs rule: rev_cases) auto

lemma subseq_shrunk: "subseq xs (rev ys) \<Longrightarrow> ys \<in> {[], zs} \<Longrightarrow> subseq xs (rev zs)"
  by (auto dest!: list_emb_Nil2)

text \<open>One pop, and what is popped afterwards.\<close>

lemma pop_subseq:
  assumes "redis_contract exec db" "listPopBack exec k w = (res, w')" "list_key (db w) k"
    "subseq ps (rev (live_list (db w') k))"
  shows "subseq (pops (handed_of Popped res) @ ps) (rev (live_list (db w) k))"
proof -
  obtain d where d: "passed (db w) d" and c: "db w' = popped k d \<and> res = Inr (list_end (live_list d k))
      \<or> (\<exists>e. res = Inl e) \<and> (db w' = d \<or> db w' = popped k d)"
    using listPopBack_contract [OF assms(1-3)] by blast
  have l: "live_list d k \<in> {[], live_list (db w) k}" using passed_list [OF d] by auto
  have p: "live_list (popped k d) k = butlast (live_list d k)"
    by (rule popped_list(1) [OF passed_list_key [OF d assms(3)]])
  have "subseq (pops (handed_of Popped res) @ ps) (rev (live_list d k))"
    using c
  proof (elim disjE conjE exE)
    assume "db w' = popped k d" "res = Inr (list_end (live_list d k))"
    then show ?thesis
      using assms(4) p subseq_rev_end [of ps "live_list d k"] by (cases "live_list d k = []") (auto simp: handed_of_def list_end_def)
  qed (use assms(4) p subseq_rev_butlast in \<open>auto simp: handed_of_def\<close>)
  then show ?thesis using l subseq_shrunk by metis
qed

lemma pops_append [simp]: "pops (hs @ hs') = pops hs @ pops hs'"
  by (induction hs rule: pops.induct) auto

lemma takes_append [simp]: "takes k (hs @ hs') = takes k hs @ takes k hs'"
  by (induction k hs rule: takes.induct) auto

lemma handed_of_simps [simp]:
  "takes k (handed_of Popped res) = []" "pops (handed_of (Taken k') res) = []"
  "k \<noteq> k' \<Longrightarrow> takes k (handed_of (Taken k') res) = []"
  by (auto simp: handed_of_def split: sum.splits option.splits)

definition once :: "'a list \<Rightarrow> 'a option \<Rightarrow> bool" where
  "once xs v \<longleftrightarrow> xs = [] \<or> (\<exists>x. v = Some x \<and> xs = [x])"

lemma once_back: "once xs v \<Longrightarrow> (\<And>x. v = Some x \<Longrightarrow> v' = Some x) \<Longrightarrow> once xs v'"
  by (auto simp: once_def)

lemma touched_once:
  assumes "touched ks d d'" "k \<notin> ks" "once xs (live_string d' k)"
  shows "once xs (live_string d k)"
  by (rule once_back [OF assms(3) touched_live_string [OF assms(1,2)]])

lemma take_once:
  assumes "redis_contract exec db" "getDelete exec k w = (res, w')" "once ts (live_string (db w') k)"
  shows "once (takes k (handed_of (Taken k) res) @ ts) (live_string (db w) k)"
proof -
  obtain d where d: "passed (db w) d" "db w' = d \<or> db w' = del_key k d"
    "\<forall>v. res = Inr v \<longrightarrow> v = live_string d k \<and> live (db w') k = None"
    using getDelete_contract [OF assms(1,2)] by blast
  have earlier: "live_string (db w) k = Some v" if "live_string d k = Some v" for v
    using touched_live_string [OF touched_passed [OF d(1), of "{}"]] that by simp
  show ?thesis
  proof (cases "\<exists>v. res = Inr (Some v)")
    case True
    then obtain v where v: "res = Inr (Some v)" by blast
    then have "live_string d k = Some v" "live_string (db w') k = None"
      using d(3) by (auto simp: live_string_def [of "db w'"])
    then show ?thesis using v earlier assms(3) by (simp add: handed_of_def once_def)
  next
    case False
    then have "takes k (handed_of (Taken k) res) = []" by (auto simp: handed_of_def split: sum.splits option.splits)
    then show ?thesis
      using once_back [OF assms(3), of "live_string (db w) k"] d(2) earlier by (auto simp: live_string_def)
  qed
qed

lemma consumed_once_facts:
  assumes "queue_steps exec db key P w hs v" "redis_contract exec db" "list_key (db w) key" "key \<notin> P"
  shows "subseq (pops hs) (rev (live_list (db w) key)) \<and> (\<forall>k \<in> P. once (takes k hs) (live_string (db w) k))"
  using assms
proof (induction rule: queue_steps.induct)
  case (queue_pop w res w' hs v)
  note pop = queue_pop.hyps(1) [unfolded popStrategyKey_def]
  have t: "touched {key} (db w) (db w')" "list_key (db w') key"
    using pop_touched [OF queue_pop.prems(1) pop queue_pop.prems(2)] by auto
  then have IH: "subseq (pops hs) (rev (live_list (db w') key))" "\<forall>k \<in> P. once (takes k hs) (live_string (db w') k)"
    using queue_pop.IH queue_pop.prems by auto
  have "once (takes k hs) (live_string (db w) k)" if "k \<in> P" for k
    by (rule touched_once [OF t(1)]) (use IH(2) that queue_pop.prems(3) in auto)
  then show ?case using pop_subseq [OF queue_pop.prems(1) pop queue_pop.prems(2) IH(1)] by simp
next
  case (queue_take k w res w' hs v)
  note take = queue_take.hyps(1) [unfolded takeStrategyPayload_def]
  have t: "touched {k} (db w) (db w')" by (rule getDelete_touched [OF queue_take.prems(1) take])
  have key: "key \<notin> {k}" using queue_take.hyps(2) queue_take.prems(3) by auto
  have IH: "subseq (pops hs) (rev (live_list (db w') key))" "\<forall>k \<in> P. once (takes k hs) (live_string (db w') k)"
    using queue_take.IH queue_take.prems touched_list_key [OF t key] by auto
  have "once (takes k' (handed_of (Taken k) res @ hs)) (live_string (db w) k')" if "k' \<in> P" for k'
  proof (cases "k' = k")
    case True
    then show ?thesis using take_once [OF queue_take.prems(1) take] IH(2) that by simp
  next
    case False
    then have "once (takes k' hs) (live_string (db w) k')"
      by (intro touched_once [OF t]) (use IH(2) that in auto)
    then show ?thesis using False by simp
  qed
  moreover have "subseq (pops hs) (rev (live_list (db w) key))"
    using IH(1) touched_live_list [OF t key] subseq_shrunk by metis
  ultimately show ?case by simp
next
  case (queue_other ks w w' hs v)
  note t = queue_other.hyps(1)
  have IH: "subseq (pops hs) (rev (live_list (db w') key))" "\<forall>k \<in> P. once (takes k hs) (live_string (db w') k)"
    using queue_other.IH queue_other.prems touched_list_key [OF t queue_other.hyps(2)] by auto
  have "once (takes k hs) (live_string (db w) k)" if "k \<in> P" for k
    by (rule touched_once [OF t]) (use IH(2) that queue_other.hyps(3) in auto)
  then show ?case using IH(1) touched_live_list [OF t queue_other.hyps(2)] subseq_shrunk by metis
qed (auto simp: once_def)

text \<open>C8: However the workers interleave and whichever Redis calls fail, the payload names of a run are
  handed out in the order they were queued, each to at most one worker, and each payload is taken at most
  once, as it was stored.\<close>

theorem names_and_payloads_consumed_once:
  assumes "queue_steps exec db (strategyKey runId) P w hs v" "redis_contract exec db"
    "list_key (db w) (strategyKey runId)" "P \<subseteq> range (strategyPayloadKey runId)"
    "distinct (live_list (db w) (strategyKey runId))"
  shows "subseq (pops hs) (rev (live_list (db w) (strategyKey runId))) \<and> distinct (pops hs)
    \<and> (\<forall>k \<in> P. takes k hs = [] \<or> (\<exists>x. live_string (db w) k = Some x \<and> takes k hs = [x]))"
proof -
  have "strategyKey runId \<notin> P" using assms(4) by auto
  note facts = consumed_once_facts [OF assms(1-3) this]
  then have "distinct (pops hs)"
    using assms(5) by (metis distinct_rev in_set_subseqs subseqs_distinctD)
  then show ?thesis using facts by (auto simp: once_def)
qed

definition sample_queue :: redis_db where
  "sample_queue =
     put_key (strategyKey ''R'') (RList [strategyPayloadKey ''R'' ''B'', strategyPayloadKey ''R'' ''A'']) None
       (put_key (strategyPayloadKey ''R'' ''A'') (RString ''payload'') None empty_db)"

lemma mem_pop:
  "list_key d k \<Longrightarrow> popStrategyKey mem_exec k d = (Inr (list_end (live_list d k)), popped k d)"
  by (auto simp: popStrategyKey_def listPopBack_def execOptionalString_def execValue_def mem_exec_def redis_run_def
      redis_step_def list_key_def live_list_def popped_def list_end_def as_optional_string_def
      split: option.splits rvalue.splits)

lemma mem_take:
  "takeStrategyPayload mem_exec k d =
     (as_optional_string (get_reply d k), case live d k of Some (RString s) \<Rightarrow> del_key k d | _ \<Rightarrow> d)"
  by (simp add: takeStrategyPayload_def getDelete_def execOptionalString_def execValue_def mem_exec_def
      redis_run_def redis_step_def)

lemma names_and_payloads_consumed_once_witness:
  "let a = strategyPayloadKey ''R'' ''A''; b = strategyPayloadKey ''R'' ''B'';
       hs = [Popped a, Taken a ''payload'', Popped b]
   in (\<exists>v. queue_steps mem_exec (\<lambda>d. d) (strategyKey ''R'') {a} sample_queue hs v)
      \<and> subseq (pops hs) (rev (live_list sample_queue (strategyKey ''R''))) \<and> distinct (pops hs)"
proof -
  let ?k = "strategyKey ''R''"
  define a b where "a = strategyPayloadKey ''R'' ''A''" and "b = strategyPayloadKey ''R'' ''B''"
  have apart: "a \<noteq> b" "a \<noteq> ?k" "b \<noteq> ?k" by (auto simp: a_def b_def)
  have q: "sample_queue = put_key ?k (RList [b, a]) None (put_key a (RString ''payload'') None empty_db)"
    by (simp add: sample_queue_def a_def b_def)
  have l0: "list_key sample_queue ?k" "live_list sample_queue ?k = [b, a]" "live sample_queue a = Some (RString ''payload'')"
    using apart by (simp_all add: q list_key_def live_list_def)
  have p1: "popStrategyKey mem_exec ?k sample_queue = (Inr (Some a), popped ?k sample_queue)"
    using mem_pop [OF l0(1)] l0(2) by (simp add: list_end_def)
  let ?d1 = "popped ?k sample_queue"
  have l1: "list_key ?d1 ?k" "live_list ?d1 ?k = [b]" using popped_list [OF l0(1)] l0(2) by simp_all
  have a1: "live ?d1 a = Some (RString ''payload'')"
    using l0(3) apart live_same_key [of ?d1 a sample_queue] by (simp add: popped_def list_put_other)
  have p2: "takeStrategyPayload mem_exec a ?d1 = (Inr (Some ''payload''), del_key a ?d1)"
    using a1 by (simp add: mem_take get_reply_def as_optional_string_def)
  let ?d2 = "del_key a ?d1"
  have l2: "list_key ?d2 ?k" "live_list ?d2 ?k = [b]"
    using l1 apart by (simp_all add: list_key_def live_list_def)
  have p3: "popStrategyKey mem_exec ?k ?d2 = (Inr (Some b), popped ?k ?d2)"
    using mem_pop [OF l2(1)] l2(2) by (simp add: list_end_def)
  let ?hs = "[Popped a, Taken a ''payload'', Popped b]"
  have steps: "queue_steps mem_exec (\<lambda>d. d) ?k {a} sample_queue ?hs (popped ?k ?d2)"
    using queue_pop [OF p1 queue_take [OF p2 _ queue_pop [OF p3 queue_stop]], of "{a}" "\<lambda>d. d"]
    by (simp add: handed_of_def)
  have "distinct (live_list sample_queue ?k)" using l0(2) apart by simp
  from names_and_payloads_consumed_once [OF steps mem_exec_contract l0(1) _ this]
  have "subseq (pops ?hs) (rev (live_list sample_queue ?k)) \<and> distinct (pops ?hs)" by (simp add: a_def)
  then show ?thesis unfolding Let_def a_def [symmetric] b_def [symmetric] using steps by blast
qed

end
