(* ===== verification/RedisLoader.thy ===== *)
theory RedisLoader
  imports RunQueue
begin

section \<open>The loader\<close>

text \<open>
  \<open>load/redisLoader.cpp\<close> and the chunk source of \<open>load/loadCommand.cppm\<close>: a sweep is streamed onto the
  queue chunk by chunk, the payloads under their keys first, then their names, then the run
  descriptor. The error texts of Redis and of a rejected payload are the two exceptions of the
  stream; an \<open>exec\<close> that fails also stands for an event loop that runs dry, with the same status.
  \<open>loader_stores_before_naming\<close>: at whatever command the stream stops, every name on the list has
  its payload stored with the full time to live.
\<close>

record keyed_payload =
  kp_key :: string
  kp_rawJson :: string

datatype push_error = Redis_failed string | Rejected string

text \<open>\<open>std::isspace\<close> of the C locale.\<close>

definition c_space :: "char \<Rightarrow> bool" where
  "c_space c \<longleftrightarrow> c \<in> {CHR '' '', CHR 0x09, CHR 0x0A, CHR 0x0B, CHR 0x0C, CHR 0x0D}"

definition isBlank :: "string \<Rightarrow> bool" where
  "isBlank rawJson = list_all c_space rawJson"

definition pushOnce :: "'w exec \<Rightarrow> string \<Rightarrow> string \<Rightarrow> ('w, unit) redis" where
  "pushOnce exec queueKey encoded = listPushFront exec queueKey encoded"

text \<open>The status: 0 queued, 1 rejected, 3 Redis failed.\<close>

definition loadPayload :: "'w exec \<Rightarrow> string \<Rightarrow> string \<Rightarrow> 'w \<Rightarrow> int \<times> 'w" where
  "loadPayload exec queueKey rawJson w =
     (if isBlank rawJson then (1, w)
      else case pushOnce exec queueKey (b64_text rawJson) w of
          (Inl e, w') \<Rightarrow> (3, w')
        | (Inr _, w') \<Rightarrow> (0, w'))"

text \<open>A source gives the next chunk, empty at the end, or throws.\<close>

type_synonym 's chunk_source = "'s \<Rightarrow> (string + keyed_payload list) \<times> 's"

definition refuses :: "keyed_payload \<Rightarrow> bool" where
  "refuses p \<longleftrightarrow> kp_key p = [] \<or> isBlank (kp_rawJson p)"

definition keyed_values :: "keyed_payload list \<Rightarrow> (string \<times> string) list" where
  "keyed_values chunk = map (\<lambda>p. (kp_key p, b64_text (kp_rawJson p))) chunk"

definition pushChunk :: "'w exec \<Rightarrow> string \<Rightarrow> int \<Rightarrow> keyed_payload list \<Rightarrow> 'w \<Rightarrow> (push_error + unit) \<times> 'w" where
  "pushChunk exec listKey ttl chunk w =
     (if list_ex refuses chunk then (Inl (Rejected ''RedisLoader: empty payload or key rejected''), w)
      else case setMultipleWithTTL exec (keyed_values chunk) ttl w of
          (Inl e, w1) \<Rightarrow> (Inl (Redis_failed e), w1)
        | (Inr _, w1) \<Rightarrow>
            (case listPushFrontAll exec listKey (map kp_key chunk) w1 of
               (Inl e, w2) \<Rightarrow> (Inl (Redis_failed e), w2)
             | (Inr _, w2) \<Rightarrow> (Inr (), w2)))"

text \<open>A source that never ends keeps the loop going: \<open>None\<close>.\<close>

partial_function (option) pushKeyedStream ::
  "'w exec \<Rightarrow> 's chunk_source \<Rightarrow> string \<Rightarrow> int \<Rightarrow> nat \<Rightarrow> 's \<Rightarrow> 'w \<Rightarrow> ((push_error + nat) \<times> 's \<times> 'w) option" where
  "pushKeyedStream exec source listKey ttl queued s w =
     (case source s of
        (Inl e, s') \<Rightarrow> Some (Inl (Rejected e), s', w)
      | (Inr chunk, s') \<Rightarrow>
          if chunk = [] then Some (Inr queued, s', w)
          else (case pushChunk exec listKey ttl chunk w of
                  (Inl e, w') \<Rightarrow> Some (Inl e, s', w')
                | (Inr _, w') \<Rightarrow> pushKeyedStream exec source listKey ttl (queued + length chunk) s' w'))"

definition load_status :: "push_error + nat \<Rightarrow> int" where
  "load_status res = (case res of Inl (Redis_failed _) \<Rightarrow> 3 | Inl (Rejected _) \<Rightarrow> 1 | Inr _ \<Rightarrow> 0)"

definition loadKeyedPayloadStream ::
  "'w exec \<Rightarrow> string \<Rightarrow> 's chunk_source \<Rightarrow> int \<Rightarrow> 's \<Rightarrow> 'w \<Rightarrow> (int \<times> 's \<times> 'w) option" where
  "loadKeyedPayloadStream exec listKey source ttlSeconds s w =
     map_option (\<lambda>(res, s', w'). (load_status res, s', w'))
       (pushKeyedStream exec source listKey (1000 * ttlSeconds) 0 s w)"

subsection \<open>The chunks of a sweep\<close>

definition kChunkSize :: nat where
  "kChunkSize = 1000"

text \<open>\<open>strategyFactory(generator.combinationAt(i))\<close> and the dump may throw; the factory mints the UUID
  from the state \<open>'u\<close> of the random source.\<close>

fun buildStrategyChunk ::
  "(nat \<Rightarrow> 'u \<Rightarrow> (string + strategy_config) \<times> 'u) \<Rightarrow> (strategy_config \<Rightarrow> string + string) \<Rightarrow> string \<Rightarrow>
   nat list \<Rightarrow> 'u \<Rightarrow> (string + keyed_payload list) \<times> 'u" where
  "buildStrategyChunk mk to_text runId [] u = (Inr [], u)"
| "buildStrategyChunk mk to_text runId (i # is) u =
     (case mk i u of
        (Inl e, u') \<Rightarrow> (Inl e, u')
      | (Inr config, u') \<Rightarrow>
          (case to_text config of
             Inl e \<Rightarrow> (Inl e, u')
           | Inr raw \<Rightarrow>
               (case buildStrategyChunk mk to_text runId is u' of
                  (Inl e, u'') \<Rightarrow> (Inl e, u'')
                | (Inr chunk, u'') \<Rightarrow>
                    (Inr (\<lparr>kp_key = strategyPayloadKey runId (sc_UUID config), kp_rawJson = raw\<rparr> # chunk), u''))))"

definition sweepChunkSource ::
  "(nat \<Rightarrow> 'u \<Rightarrow> (string + strategy_config) \<times> 'u) \<Rightarrow> (strategy_config \<Rightarrow> string + string) \<Rightarrow> string \<Rightarrow> nat \<Rightarrow>
   (nat \<times> 'u) chunk_source" where
  "sweepChunkSource mk to_text runId all_strategies s =
     (case s of (first, u) \<Rightarrow>
        let beyond = min (first + kChunkSize) all_strategies in
        case buildStrategyChunk mk to_text runId [first..<beyond] u of (res, u') \<Rightarrow> (res, (beyond, u')))"

subsection \<open>Payloads before names\<close>

text \<open>A name is backed: its payload is stored until at least \<open>t\<close>.\<close>

definition backed :: "redis_db \<Rightarrow> time \<Rightarrow> string \<Rightarrow> bool" where
  "backed d t k \<longleftrightarrow> (\<exists>v e. db_keys d k = Some (RString v, Some e) \<and> t \<le> e)"

lemma backed_passed: "passed d d' \<Longrightarrow> backed d t k \<Longrightarrow> backed d' t k"
  by (simp add: backed_def passed_keys)

lemma backed_pushed: "backed d t k \<Longrightarrow> k \<noteq> key \<Longrightarrow> backed (pushed key vs d) t k"
  by (simp add: backed_def pushed_other)

lemma backed_stored: "t \<le> db_now d + 1000 * ms \<Longrightarrow> backed d t k \<or> k \<in> fst ` set kvs \<Longrightarrow> backed (set_all ms kvs d) t k"
  by (auto simp: backed_def stored_key expiry_at_def map_of_eq_None_iff split: option.splits)

text \<open>What holds of the list at any moment of the stream.\<close>

definition names_backed :: "redis_db \<Rightarrow> string \<Rightarrow> string set \<Rightarrow> time \<Rightarrow> bool" where
  "names_backed d key old t \<longleftrightarrow> (\<forall>k \<in> set (live_list d key). k \<in> old \<or> backed d t k)"

lemma names_backed_passed: "passed d d' \<Longrightarrow> names_backed d key old t \<Longrightarrow> names_backed d' key old t"
  using passed_list [of d d' key] by (auto simp: names_backed_def intro: backed_passed)

lemma live_list_stored: "key \<notin> fst ` set kvs \<Longrightarrow> live_list (set_all ms kvs d) key = live_list d key"
proof -
  assume "key \<notin> fst ` set kvs"
  then have "map_of (rev kvs) key = None" by (simp add: map_of_eq_None_iff)
  then have "live (set_all ms kvs d) key = live d key" by (intro live_same_key) (simp_all add: stored_key)
  then show ?thesis by (simp add: live_list_def)
qed

lemma list_key_stored: "key \<notin> fst ` set kvs \<Longrightarrow> list_key (set_all ms kvs d) key = list_key d key"
proof -
  assume "key \<notin> fst ` set kvs"
  then have "map_of (rev kvs) key = None" by (simp add: map_of_eq_None_iff)
  then have "live (set_all ms kvs d) key = live d key" by (intro live_same_key) (simp_all add: stored_key)
  then show ?thesis by (simp add: list_key_def)
qed

lemma names_backed_stored:
  "names_backed d key old t \<Longrightarrow> t \<le> db_now d + 1000 * ms \<Longrightarrow> key \<notin> fst ` set kvs \<Longrightarrow>
     names_backed (set_all ms kvs d) key old t"
  using backed_stored [of t d ms] by (auto simp: names_backed_def live_list_stored)

lemma names_backed_pushed:
  assumes "names_backed d key old t" "\<forall>k \<in> set vs. backed d t k \<and> k \<noteq> key"
  shows "names_backed (pushed key vs d) key old t"
proof -
  have "k \<noteq> key" if "k \<in> set (live_list d key)" "backed d t k" for k
    using that by (auto simp: backed_def live_list_def live_def split: option.splits rvalue.splits if_splits)
  then show ?thesis using assms by (auto simp: names_backed_def intro!: backed_pushed)
qed

lemma keyed_values_keys [simp]: "fst ` set (keyed_values chunk) = kp_key ` set chunk"
  by (force simp: keyed_values_def)

lemma passed_backed_list: "passed d d' \<Longrightarrow> list_key d key \<and> names_backed d key old t
    \<Longrightarrow> list_key d' key \<and> names_backed d' key old t"
  using passed_list_key names_backed_passed by blast

lemma pushChunk_backed:
  assumes "redis_contract exec db" "pushChunk exec key ms chunk w = (res, w')" "0 < ms"
    "\<forall>p \<in> set chunk. kp_key p \<noteq> key" "t \<le> db_now (db w) + 1000 * ms"
    "list_key (db w) key \<and> names_backed (db w) key old t"
  shows "list_key (db w') key \<and> names_backed (db w') key old t \<and> db_now (db w) \<le> db_now (db w')"
proof (cases "list_ex refuses chunk")
  case False
  obtain res1 w1 where s: "setMultipleWithTTL exec (keyed_values chunk) ms w = (res1, w1)" by force
  obtain d1 n where d1: "passed (db w) d1" "db w1 = set_all ms (take n (keyed_values chunk)) d1"
    and ok: "(\<exists>u. res1 = Inr u) \<longrightarrow> take n (keyed_values chunk) = keyed_values chunk"
    using setMultipleWithTTL_contract [OF assms(1) s assms(3)] by blast
  have key: "key \<notin> fst ` set (take n (keyed_values chunk))"
  proof -
    have "set (take n (keyed_values chunk)) \<subseteq> set (keyed_values chunk)" by (rule set_take_subset)
    then have "fst ` set (take n (keyed_values chunk)) \<subseteq> kp_key ` set chunk" by (metis image_mono keyed_values_keys)
    moreover have "key \<notin> kp_key ` set chunk" using assms(4) by auto
    ultimately show ?thesis by (rule contra_subsetD)
  qed
  have d: "list_key d1 key" "names_backed d1 key old t" using passed_backed_list [OF d1(1) assms(6)] by auto
  have t: "t \<le> db_now d1 + 1000 * ms" using passed_now [OF d1(1)] assms(5) by simp
  have w1: "list_key (db w1) key \<and> names_backed (db w1) key old t" "db_now (db w) \<le> db_now (db w1)"
    using d d1(2) key names_backed_stored [OF d(2) t key] list_key_stored [OF key] passed_now [OF d1(1)] by auto
  show ?thesis
  proof (cases res1)
    case (Inl e)
    then show ?thesis using assms(2) False s w1 by (simp add: pushChunk_def)
  next
    case (Inr u)
    obtain res2 w2 where l: "listPushFrontAll exec key (map kp_key chunk) w1 = (res2, w2)" by force
    obtain d2 m where d2: "passed (db w1) d2" "db w2 = pushed key (take m (map kp_key chunk)) d2"
      using listPushFrontAll_contract [OF assms(1) l] w1 by blast
    have d': "list_key d2 key" "names_backed d2 key old t" using passed_backed_list [OF d2(1) w1(1)] by auto
    have "backed (db w1) t k" if "k \<in> kp_key ` set chunk" for k
      unfolding d1(2) by (rule backed_stored [OF t]) (use that ok Inr in simp)
    then have "\<forall>k \<in> set (take m (map kp_key chunk)). backed d2 t k \<and> k \<noteq> key"
      using assms(4) backed_passed [OF d2(1)] by (auto dest!: in_set_takeD)
    then have "list_key (db w2) key \<and> names_backed (db w2) key old t"
      using d2(2) d' names_backed_pushed [OF d'(2)] by simp
    moreover have "w' = w2" using assms(2) False s l Inr by (auto simp: pushChunk_def split: sum.splits)
    ultimately show ?thesis using w1(2) passed_now [OF d2(1)] d2(2) by auto
  qed
qed (use assms in \<open>simp add: pushChunk_def\<close>)

lemma pushKeyedStream_backed:
  assumes "pushKeyedStream exec source key ms queued s w = Some (res, s', w')"
    "redis_contract exec db" "0 < ms" "\<And>s chunk s'. source s = (Inr chunk, s') \<Longrightarrow> \<forall>p \<in> set chunk. kp_key p \<noteq> key"
    "t \<le> db_now (db w) + 1000 * ms" "list_key (db w) key \<and> names_backed (db w) key old t"
  shows "list_key (db w') key \<and> names_backed (db w') key old t"
proof -
  define I where "I w \<longleftrightarrow> t \<le> db_now (db w) + 1000 * ms \<and> list_key (db w) key \<and> names_backed (db w) key old t" for w
  have "exec = exec \<and> source = source \<and> key = key \<and> ms = ms \<and> I w \<longrightarrow> list_key (db (snd (snd (res, s', w')))) key \<and> names_backed (db (snd (snd (res, s', w')))) key old t"
  proof (rule pushKeyedStream.raw_induct [OF _ assms(1), where
        P = "\<lambda>e src k m queued s w r. e = exec \<and> src = source \<and> k = key \<and> m = ms \<and> I w \<longrightarrow>
          list_key (db (snd (snd r))) key \<and> names_backed (db (snd (snd r))) key old t"], goal_cases)
    case (1 rec e src k m queued s w r)
    show ?case
    proof
      assume a: "e = exec \<and> src = source \<and> k = key \<and> m = ms \<and> I w"
      obtain x s1 where s1: "source s = (x, s1)" by force
      show "list_key (db (snd (snd r))) key \<and> names_backed (db (snd (snd r))) key old t"
      proof (cases "\<exists>chunk. x = Inr chunk \<and> chunk \<noteq> []")
        case True
        then obtain chunk where x: "x = Inr chunk" "chunk \<noteq> []" by blast
        obtain y w1 where p: "pushChunk exec key ms chunk w = (y, w1)" by force
        have w1: "list_key (db w1) key \<and> names_backed (db w1) key old t \<and> db_now (db w) \<le> db_now (db w1)"
          by (rule pushChunk_backed [OF assms(2) p assms(3)]) (use assms(4) [of s chunk s1] a s1 x in \<open>auto simp: I_def\<close>)
        then have "I w1" using a by (simp add: I_def)
        then show ?thesis
          using 1(1) [of e src k m "queued + length chunk" s1 w1 r] 1(2) a s1 x p w1 by (auto split: sum.splits)
      qed (use 1(2) a s1 in \<open>auto simp: I_def split: sum.splits if_splits\<close>)
    qed
  qed
  then show ?thesis using assms(5,6) by (simp add: I_def)
qed


subsection \<open>What a whole stream leaves\<close>

text \<open>The payloads a source gives from one state on, until it is exhausted.\<close>

inductive streamed :: "'s chunk_source \<Rightarrow> 's \<Rightarrow> keyed_payload list \<Rightarrow> 's \<Rightarrow> bool" for source where
  stream_end: "source s = (Inr [], s') \<Longrightarrow> streamed source s [] s'"
| stream_chunk: "source s = (Inr chunk, s1) \<Longrightarrow> chunk \<noteq> [] \<Longrightarrow> streamed source s1 ps s' \<Longrightarrow>
    streamed source s (chunk @ ps) s'"

definition payload_stored :: "redis_db \<Rightarrow> time \<Rightarrow> keyed_payload \<Rightarrow> bool" where
  "payload_stored d t p \<longleftrightarrow>
     (\<exists>e. db_keys d (kp_key p) = Some (RString (b64_text (kp_rawJson p)), Some e) \<and> t \<le> e)"

lemma payload_stored_touched:
  "touched ks d d' \<Longrightarrow> kp_key p \<notin> ks \<Longrightarrow> payload_stored d t p \<Longrightarrow> payload_stored d' t p"
  by (simp add: payload_stored_def touched_def)

lemma stored_touched: "touched (fst ` set kvs) d (set_all ms kvs d)"
proof -
  have "map_of (rev kvs) k = None" if "k \<notin> fst ` set kvs" for k using that by (simp add: map_of_eq_None_iff)
  then show ?thesis by (simp add: touched_def stored_key)
qed

lemma stored_payload:
  assumes "p \<in> set chunk" "distinct (map kp_key chunk)"
  shows "payload_stored (set_all ms (keyed_values chunk) d) (db_now d + 1000 * ms) p"
proof -
  have "map fst (keyed_values chunk) = map kp_key chunk" by (simp add: keyed_values_def comp_def)
  then have "distinct (map fst (rev (keyed_values chunk)))" using assms(2) by (simp add: rev_map [symmetric])
  then have "map_of (rev (keyed_values chunk)) (kp_key p) = Some (b64_text (kp_rawJson p))"
    using assms(1) by (intro map_of_is_SomeI) (auto simp: keyed_values_def)
  then show ?thesis by (simp add: payload_stored_def stored_key expiry_at_def)
qed

definition list_ready :: "redis_db \<Rightarrow> string \<Rightarrow> bool" where
  "list_ready d k \<longleftrightarrow> list_key d k \<and> lasting d k"

lemma list_ready_touched: "touched ks d d' \<Longrightarrow> k \<notin> ks \<Longrightarrow> list_ready d k \<Longrightarrow>
    list_ready d' k \<and> live_list d' k = live_list d k"
  by (auto simp: list_ready_def list_key_def live_list_def lasting_def key_expiry_def touched_def live_def
      split: option.splits)

lemma list_ready_pushed: "list_ready d k \<Longrightarrow> list_ready (pushed k vs d) k"
  by (simp add: list_ready_def lasting_pushed)

lemma pushed_touched: "touched {k} d (pushed k vs d)"
  by (simp add: touched_def pushed_other)

lemma touched_mono: "touched ks d d' \<Longrightarrow> ks \<subseteq> ls \<Longrightarrow> touched ls d d'"
  by (auto simp: touched_def)

lemma pushChunk_reliable:
  assumes "reliable exec" "redis_contract exec db" "\<not> list_ex refuses chunk" "chunk \<noteq> []" "0 < ms"
    "\<forall>p \<in> set chunk. kp_key p \<noteq> key" "distinct (map kp_key chunk)" "list_ready (db w) key"
  obtains w' where "pushChunk exec key ms chunk w = (Inr (), w')" "list_ready (db w') key"
    "live_list (db w') key = rev (map kp_key chunk) @ live_list (db w) key"
    "touched (insert key (kp_key ` set chunk)) (db w) (db w')"
    "\<And>p. p \<in> set chunk \<Longrightarrow> payload_stored (db w') (db_now (db w) + 1000 * ms) p"
proof -
  let ?kvs = "keyed_values chunk" and ?ks = "map kp_key chunk"
  have ne: "?kvs \<noteq> []" using assms(4) by (simp add: keyed_values_def)
  obtain w1 where s: "setMultipleWithTTL exec ?kvs ms w = (Inr (), w1)"
    using reliable_ignore [OF assms(1)] ne unfolding setMultipleWithTTL_def by metis
  obtain d1 where d1: "passed (db w) d1" "db w1 = set_all ms ?kvs d1"
    using setMultipleWithTTL_contract [OF assms(2) s assms(5)] by auto
  obtain w2 where l: "listPushFrontAll exec key ?ks w1 = (Inr (), w2)"
    using reliable_ignore [OF assms(1)] unfolding listPushFrontAll_def by metis
  have key: "key \<notin> kp_key ` set chunk" using assms(6) by auto
  have t1: "touched (kp_key ` set chunk) (db w) (db w1)"
    using touched_trans [OF touched_passed [OF d1(1), of "{}"] stored_touched [of ?kvs d1 ms]] d1(2) by simp
  note r1 = list_ready_touched [OF t1 key assms(8)]
  obtain d2 where d2: "passed (db w1) d2" "db w2 = pushed key ?ks d2"
    using listPushFrontAll_contract [OF assms(2) l] r1 by (auto simp: list_ready_def)
  note r2 = list_ready_touched [OF touched_passed [OF d2(1), of "{}"]]
  have t2: "touched {key} (db w1) (db w2)"
    using touched_trans [OF touched_passed [OF d2(1), of "{}"] pushed_touched [of key d2 ?ks]] d2(2) by simp
  show thesis
  proof (rule that)
    show "pushChunk exec key ms chunk w = (Inr (), w2)" using assms(3) s l by (simp add: pushChunk_def)
    show "list_ready (db w2) key" "live_list (db w2) key = rev ?ks @ live_list (db w) key"
      using r1 r2 [of key] d2(2) list_ready_pushed by auto
    show "touched (insert key (kp_key ` set chunk)) (db w) (db w2)"
      using touched_trans [OF t1 t2] by (simp add: Un_commute)
    show "payload_stored (db w2) (db_now (db w) + 1000 * ms) p" if p: "p \<in> set chunk" for p
    proof -
      have "payload_stored (db w1) (db_now (db w) + 1000 * ms) p"
        using stored_payload [OF p assms(7), of ms d1] passed_now [OF d1(1)] d1(2)
        by (auto simp: payload_stored_def)
      then show ?thesis using payload_stored_touched [OF t2] assms(6) p by auto
    qed
  qed
qed

lemma stream_reliable:
  assumes "streamed source s ps s'" "reliable exec" "redis_contract exec db" "0 < ms"
    "\<not> list_ex refuses ps" "\<forall>p \<in> set ps. kp_key p \<noteq> key" "distinct (map kp_key ps)" "list_ready (db w) key"
  shows "\<exists>w'. pushKeyedStream exec source key ms queued s w = Some (Inr (queued + length ps), s', w')
     \<and> list_ready (db w') key \<and> live_list (db w') key = rev (map kp_key ps) @ live_list (db w) key
     \<and> touched (insert key (kp_key ` set ps)) (db w) (db w')
     \<and> (\<forall>p \<in> set ps. payload_stored (db w') (db_now (db w) + 1000 * ms) p)"
  using assms
proof (induction arbitrary: w queued rule: streamed.induct)
  case (stream_end s s')
  then show ?case
    by (subst pushKeyedStream.simps) (auto simp: touched_def)
next
  case (stream_chunk s chunk s1 ps s')
  have c: "\<not> list_ex refuses chunk" "\<forall>p \<in> set chunk. kp_key p \<noteq> key" "distinct (map kp_key chunk)"
    "\<not> list_ex refuses ps" "\<forall>p \<in> set ps. kp_key p \<noteq> key" "distinct (map kp_key ps)"
    "kp_key ` set chunk \<inter> kp_key ` set ps = {}"
    using stream_chunk.prems(4-6) by auto
  obtain w1 where w1: "pushChunk exec key ms chunk w = (Inr (), w1)" "list_ready (db w1) key"
    "live_list (db w1) key = rev (map kp_key chunk) @ live_list (db w) key"
    "touched (insert key (kp_key ` set chunk)) (db w) (db w1)"
    "\<And>p. p \<in> set chunk \<Longrightarrow> payload_stored (db w1) (db_now (db w) + 1000 * ms) p"
    by (rule pushChunk_reliable [OF stream_chunk.prems(1,2) c(1) stream_chunk.hyps(2) stream_chunk.prems(3) c(2,3) stream_chunk.prems(7)]) (rule that)
  obtain w' where w': "pushKeyedStream exec source key ms (queued + length chunk) s1 w1
        = Some (Inr (queued + length chunk + length ps), s', w')"
    "list_ready (db w') key" "live_list (db w') key = rev (map kp_key ps) @ live_list (db w1) key"
    "touched (insert key (kp_key ` set ps)) (db w1) (db w')"
    "\<forall>p \<in> set ps. payload_stored (db w') (db_now (db w1) + 1000 * ms) p"
    using stream_chunk.IH [OF stream_chunk.prems(1-3) c(4-6) w1(2)] by blast
  have now: "db_now (db w) \<le> db_now (db w1)" using w1(4) by (simp add: touched_def)
  have "payload_stored (db w') (db_now (db w) + 1000 * ms) p" if "p \<in> set (chunk @ ps)" for p
  proof (cases "p \<in> set chunk")
    case True
    then have "kp_key p \<notin> insert key (kp_key ` set ps)" using c(2,7) by auto
    then show ?thesis using payload_stored_touched [OF w'(4)] w1(5) [OF True] by blast
  next
    case False
    then have "payload_stored (db w') (db_now (db w1) + 1000 * ms) p" using w'(5) that by simp
    then show ?thesis using now by (auto simp: payload_stored_def)
  qed
  moreover have "touched (insert key (kp_key ` set (chunk @ ps))) (db w) (db w')"
    by (rule touched_mono [OF touched_trans [OF w1(4) w'(4)]]) auto
  moreover have "pushKeyedStream exec source key ms queued s w = Some (Inr (queued + length (chunk @ ps)), s', w')"
    using stream_chunk.hyps(1,2) w1(1) w'(1) by (subst pushKeyedStream.simps) (simp add: add.assoc)
  ultimately show ?case using w'(2,3) w1(3) by auto
qed

text \<open>Error replies are not failures: a stream whose every \<open>SET\<close> is refused is reported as queued.\<close>

lemma refused_replies_are_queued:
  assumes "\<And>cmds w. exec cmds w = (Inr (map (\<lambda>_. Error_reply ''OOM'') cmds), w)"
    "streamed source s ps s'" "\<not> list_ex refuses ps"
  shows "loadKeyedPayloadStream exec listKey source ttl s w = Some (0, s', w)"
proof -
  have "pushKeyedStream exec source listKey ms queued s w = Some (Inr (queued + length ps), s', w)" for ms queued
    using assms(2,3)
  proof (induction arbitrary: queued rule: streamed.induct)
    case (stream_end s s')
    then show ?case by (subst pushKeyedStream.simps) simp
  next
    case (stream_chunk s chunk s1 ps s')
    then have "pushChunk exec listKey ms chunk w = (Inr (), w)"
      by (simp add: pushChunk_def setMultipleWithTTL_def listPushFrontAll_def execIgnore_def assms(1))
    then show ?case
      using stream_chunk by (subst pushKeyedStream.simps) (simp add: add.assoc)
  qed
  then show ?thesis by (simp add: loadKeyedPayloadStream_def load_status_def)
qed

subsection \<open>A server in memory\<close>

definition mem_server :: "redis_db exec" where
  "mem_server cmds d = (case redis_runs cmds d of Some (rs, d') \<Rightarrow> (Inr rs, d') | None \<Rightarrow> (Inr [], d))"

lemma mem_server_contract: "redis_contract mem_server (\<lambda>d. d)"
proof -
  have "\<exists>t \<ge> db_now w. case res of
             Inr rs \<Rightarrow> (case redis_runs cmds (at_time t w) of Some (rs', d') \<Rightarrow> rs = rs' \<and> w' = d' | None \<Rightarrow> True)
           | Inl e \<Rightarrow> (\<exists>n. case redis_runs (take n cmds) (at_time t w) of Some (rs', d') \<Rightarrow> w' = d' | None \<Rightarrow> True)"
    if "mem_server cmds w = (res, w')" for cmds w res w'
    using that
    by (intro exI [of _ "db_now w"] conjI order_refl) (auto simp: mem_server_def split: option.splits sum.splits)
  then show ?thesis unfolding redis_contract_def by blast
qed

lemma mem_server_reliable: "reliable mem_server"
  by (auto simp: reliable_def mem_server_def split: option.splits)

lemma empty_list_ready: "list_ready empty_db k" "live_list empty_db k = []"
  by (simp_all add: list_ready_def list_key_def lasting_def key_expiry_def live_list_def live_def empty_db_def)


end
