(* ===== verification/DrainRuns.thy ===== *)
theory DrainRuns
  imports RedisLoader
begin

section \<open>The drain loop\<close>

text \<open>
  \<open>run/queue/drainRuns.cpp\<close> and \<open>run/queue/redisRunner.cpp\<close>: a worker peeks the oldest run of the
  first non-empty queue, claims its payloads one by one, hands each backtest to the pool, and retires
  the run; a descriptor or payload that cannot be read is reported and skipped. The Redis operations
  are the modelled ones over \<open>dr_exec\<close>; the pool, the tick cache, the control segment, the timer
  and the reports are the other fields of \<open>drain_env\<close>. Console output is left out.
  \<open>drain_run_complete\<close>: a run is drained to the last payload, in the order of the queue.
\<close>

datatype thrown = Std string | Unknown

datatype drain_report =
    Descriptor_retired conv_error
  | Payload_skipped conv_error string
  | Drain_aborted thrown
  | Runner_failed string

record ('w, 'd, 'x) drain_env =
  dr_exec :: "'w exec"
  dr_stopRequested :: "'w \<Rightarrow> bool \<times> 'w"
  dr_takeError :: "'w \<Rightarrow> thrown option \<times> 'w"
  dr_wait :: "'w \<Rightarrow> 'w"
  dr_join :: "'w \<Rightarrow> 'w"
  dr_sleep :: "'w \<Rightarrow> (thrown + unit) \<times> 'w"
  dr_getTicks :: "string \<Rightarrow> int \<Rightarrow> int \<Rightarrow> ('w \<Rightarrow> (thrown + unit) \<times> 'w) \<Rightarrow> 'w \<Rightarrow> (thrown + 'x) \<times> 'w"
  dr_submit :: "'x \<Rightarrow> 'd configuration \<Rightarrow> 'w \<Rightarrow> 'w"
  dr_report :: "drain_report \<Rightarrow> 'w \<Rightarrow> 'w"
  dr_cancel :: "'w \<Rightarrow> 'w"

text \<open>How a step of the loop ends; undefined behaviour is the decoder reading outside its input.\<close>

datatype drain_end = Next | Stopping | Threw thrown | Undefined

text \<open>80 percent of the threads of the machine.\<close>

definition pool_threads :: "int \<Rightarrow> int" where
  "pool_threads hw = (if hw \<noteq> 0 then max 1 ((hw * 4) mod 2 ^ 32 div 5) else 1)"

definition quiesce :: "('w, 'd, 'x) drain_env \<Rightarrow> 'w \<Rightarrow> (thrown + unit) \<times> 'w" where
  "quiesce env w =
     (case dr_takeError env (dr_wait env w) of
        (Some t, w') \<Rightarrow> (Inl t, w')
      | (None, w') \<Rightarrow> (Inr (), w'))"

definition retire :: "('w, 'd, 'x) drain_env \<Rightarrow> peeked_run \<Rightarrow> 'w \<Rightarrow> drain_end \<times> 'w" where
  "retire env peeked w =
     (case removeRun (dr_exec env) (pr_queueKey peeked) (pr_descriptorB64 peeked) w of
        (Inl e, w') \<Rightarrow> (Threw (Std e), w')
      | (Inr _, w') \<Rightarrow> (Next, w'))"

text \<open>What is done with a payload; \<open>None\<close>: undefined.\<close>

definition run_payload ::
  "('w, 'd, 'x) drain_env \<Rightarrow> 'f num_text \<Rightarrow> 'd run_configuration \<Rightarrow> 'x \<Rightarrow> string option \<Rightarrow> 'w \<Rightarrow> 'w option" where
  "run_payload env nums runCfg slice strategyB64 w =
     (case strategyB64 of
        None \<Rightarrow> Some w
      | Some b64 \<Rightarrow>
          (case parseStrategyFromBase64 nums b64 of
             Inr strategy \<Rightarrow> Some (dr_submit env slice (configuration_of runCfg strategy) w)
           | Inl Read_outside \<Rightarrow> None
           | Inl err \<Rightarrow> Some (dr_report env (Payload_skipped err (rc_RUN_ID runCfg)) w)))"

text \<open>The strategies of one run: take, hand on, pop the next. Producers that keep pushing keep it going.\<close>

partial_function (option) drain_strategies ::
  "('w, 'd, 'x) drain_env \<Rightarrow> 'f num_text \<Rightarrow> 'd run_configuration \<Rightarrow> 'x \<Rightarrow> string \<Rightarrow> 'w \<Rightarrow>
   (drain_end \<times> 'w) option" where
  "drain_strategies env nums runCfg slice payloadKey w =
     (case takeStrategyPayload (dr_exec env) payloadKey w of
        (Inl e, w1) \<Rightarrow> Some (Threw (Std e), w1)
      | (Inr strategyB64, w1) \<Rightarrow>
          (case run_payload env nums runCfg slice strategyB64 w1 of
             None \<Rightarrow> Some (Undefined, w1)
           | Some w2 \<Rightarrow>
               (case dr_stopRequested env w2 of
                  (stop, w3) \<Rightarrow>
                    if stop then Some (Stopping, w3)
                    else (case popStrategyKey (dr_exec env) (strategyKey (rc_RUN_ID runCfg)) w3 of
                            (Inl e, w4) \<Rightarrow> Some (Threw (Std e), w4)
                          | (Inr None, w4) \<Rightarrow> Some (Next, w4)
                          | (Inr (Some k), w4) \<Rightarrow> drain_strategies env nums runCfg slice k w4))))"

definition drain_run ::
  "('w, 'd, 'x) drain_env \<Rightarrow> 'f num_text \<Rightarrow> peeked_run \<Rightarrow> 'd run_configuration \<Rightarrow> 'w \<Rightarrow> (drain_end \<times> 'w) option" where
  "drain_run env nums peeked runCfg w =
     (case popStrategyKey (dr_exec env) (strategyKey (rc_RUN_ID runCfg)) w of
        (Inl e, w1) \<Rightarrow> Some (Threw (Std e), w1)
      | (Inr None, w1) \<Rightarrow> Some (retire env peeked w1)
      | (Inr (Some payloadKey), w1) \<Rightarrow>
          (case dr_getTicks env (rc_SYMBOLS runCfg) (rc_LAST_MONTHS runCfg) (rc_OFFSET_MONTHS runCfg) (quiesce env) w1 of
             (Inl t, w2) \<Rightarrow> Some (Threw t, w2)
           | (Inr slice, w2) \<Rightarrow>
               (case drain_strategies env nums runCfg slice payloadKey w2 of
                  None \<Rightarrow> None
                | Some (Next, w3) \<Rightarrow> Some (retire env peeked w3)
                | Some (other, w3) \<Rightarrow> Some (other, w3))))"

definition drain_peeked ::
  "('w, 'd, 'x) drain_env \<Rightarrow> 'f num_text \<Rightarrow> 'd decimal_text \<Rightarrow> peeked_run \<Rightarrow> 'w \<Rightarrow> (drain_end \<times> 'w) option" where
  "drain_peeked env nums dec peeked w =
     (case parseRunConfigurationFromBase64 nums dec (pr_descriptorB64 peeked) of
        Inr runCfg \<Rightarrow> drain_run env nums peeked runCfg w
      | Inl Read_outside \<Rightarrow> Some (Undefined, w)
      | Inl err \<Rightarrow> Some (retire env peeked (dr_report env (Descriptor_retired err) w)))"

text \<open>One round of the loop.\<close>

definition drain_step ::
  "('w, 'd, 'x) drain_env \<Rightarrow> 'f num_text \<Rightarrow> 'd decimal_text \<Rightarrow> 'w \<Rightarrow> (drain_end \<times> 'w) option" where
  "drain_step env nums dec w =
     (case dr_stopRequested env w of
        (stop, w1) \<Rightarrow>
          if stop then Some (Stopping, w1)
          else (case dr_takeError env w1 of
                  (Some t, w2) \<Rightarrow> Some (Threw t, w2)
                | (None, w2) \<Rightarrow>
                    (case peekRunTail (dr_exec env) w2 of
                       (Inl e, w3) \<Rightarrow> Some (Threw (Std e), w3)
                     | (Inr None, w3) \<Rightarrow>
                         (case dr_sleep env w3 of
                            (Inl t, w4) \<Rightarrow> Some (Threw t, w4)
                          | (Inr _, w4) \<Rightarrow> Some (Next, w4))
                     | (Inr (Some peeked), w3) \<Rightarrow> drain_peeked env nums dec peeked w3)))"

partial_function (option) drain_loop ::
  "('w, 'd, 'x) drain_env \<Rightarrow> 'f num_text \<Rightarrow> 'd decimal_text \<Rightarrow> 'w \<Rightarrow> (drain_end \<times> 'w) option" where
  "drain_loop env nums dec w =
     (case drain_step env nums dec w of
        None \<Rightarrow> None
      | Some (e, w') \<Rightarrow> if e = Next then drain_loop env nums dec w' else Some (e, w'))"

text \<open>A stopped worker sleeps for ever, unless the timer throws.\<close>

partial_function (option) park :: "('w, 'd, 'x) drain_env \<Rightarrow> 'w \<Rightarrow> (thrown \<times> 'w) option" where
  "park env w =
     (case dr_sleep env w of
        (Inl t, w') \<Rightarrow> Some (t, w')
      | (Inr _, w') \<Rightarrow> park env w')"

text \<open>The pool is joined as the exception leaves the block, then reported; \<open>None\<close>: undefined.\<close>

definition drain_abort :: "('w, 'd, 'x) drain_env \<Rightarrow> thrown \<Rightarrow> 'w \<Rightarrow> int option \<times> 'w" where
  "drain_abort env t w = (Some 3, dr_cancel env (dr_report env (Drain_aborted t) (dr_join env w)))"

definition drainRuns ::
  "('w, 'd, 'x) drain_env \<Rightarrow> 'f num_text \<Rightarrow> 'd decimal_text \<Rightarrow> 'w \<Rightarrow> (int option \<times> 'w) option" where
  "drainRuns env nums dec w =
     (case drain_loop env nums dec w of
        None \<Rightarrow> None
      | Some (Threw t, w1) \<Rightarrow> Some (drain_abort env t w1)
      | Some (Undefined, w1) \<Rightarrow> Some (None, w1)
      | Some (_, w1) \<Rightarrow>
          (case quiesce env w1 of
             (Inl t, w2) \<Rightarrow> Some (drain_abort env t w2)
           | (Inr _, w2) \<Rightarrow> map_option (\<lambda>(t, w3). drain_abort env t w3) (park env w2)))"

subsection \<open>The world of a worker\<close>

text \<open>The keys \<open>K\<close> are this worker's: what is outside Redis lets time pass and may do anything to other
  keys. \<open>taken\<close> is what has been handed to the pool.\<close>

definition calm :: "('w \<Rightarrow> redis_db) \<Rightarrow> ('w \<Rightarrow> 'l) \<Rightarrow> string set \<Rightarrow> 'w \<Rightarrow> 'w \<Rightarrow> bool" where
  "calm db taken K w w' \<longleftrightarrow> touched (- K) (db w) (db w') \<and> taken w' = taken w"

definition drain_world ::
  "('w, 'd, 'x) drain_env \<Rightarrow> ('w \<Rightarrow> redis_db) \<Rightarrow> ('w \<Rightarrow> ('x \<times> 'd configuration) list) \<Rightarrow> string set \<Rightarrow> bool" where
  "drain_world env db taken K \<longleftrightarrow>
     redis_contract (dr_exec env) db \<and> (\<forall>cmds w. taken (snd (dr_exec env cmds w)) = taken w)
     \<and> (\<forall>w. calm db taken K w (snd (dr_stopRequested env w))) \<and> (\<forall>w. calm db taken K w (snd (dr_takeError env w)))
     \<and> (\<forall>w. calm db taken K w (dr_wait env w)) \<and> (\<forall>w. calm db taken K w (snd (dr_sleep env w)))
     \<and> (\<forall>r w. calm db taken K w (dr_report env r w))
     \<and> (\<forall>s m k before w. (\<forall>v. calm db taken K v (snd (before v))) \<longrightarrow>
          calm db taken K w (snd (dr_getTicks env s m k before w)))
     \<and> (\<forall>x c w. touched (- K) (db w) (db (dr_submit env x c w)) \<and> taken (dr_submit env x c w) = taken w @ [(x, c)])"

text \<open>Nothing gets in the way: no failing Redis, no stop request, no failed task, no failed load.\<close>

definition undisturbed :: "('w, 'd, 'x) drain_env \<Rightarrow> bool" where
  "undisturbed env \<longleftrightarrow> reliable (dr_exec env) \<and> (\<forall>w. \<not> fst (dr_stopRequested env w))
     \<and> (\<forall>w. fst (dr_takeError env w) = None) \<and> (\<forall>s m k f w. \<exists>x. fst (dr_getTicks env s m k f w) = Inr x)"

lemma drain_worldD:
  assumes "drain_world env db taken K"
  shows "redis_contract (dr_exec env) db" "\<And>cmds w. taken (snd (dr_exec env cmds w)) = taken w"
    "\<And>w. calm db taken K w (snd (dr_stopRequested env w))" "\<And>w. calm db taken K w (snd (dr_takeError env w))"
    "\<And>w. calm db taken K w (dr_wait env w)" "\<And>w. calm db taken K w (snd (dr_sleep env w))"
    "\<And>r w. calm db taken K w (dr_report env r w)"
    "\<And>s m k before w. (\<And>v. calm db taken K v (snd (before v))) \<Longrightarrow>
       calm db taken K w (snd (dr_getTicks env s m k before w))"
    "\<And>x c w. touched (- K) (db w) (db (dr_submit env x c w))"
    "\<And>x c w. taken (dr_submit env x c w) = taken w @ [(x, c)]"
  using assms unfolding drain_world_def by blast+

lemma calm_trans: "calm db taken K a b \<Longrightarrow> calm db taken K b c \<Longrightarrow> calm db taken K a c"
  unfolding calm_def using touched_trans [of "- K" "db a" "db b" "- K" "db c"] by simp

lemma quiesce_calm: "drain_world env db taken K \<Longrightarrow> calm db taken K w (snd (quiesce env w))"
  using drain_worldD(5) [of env db taken K w] drain_worldD(4) [of env db taken K "dr_wait env w"]
  by (auto simp: quiesce_def split: prod.splits option.splits intro: calm_trans)

text \<open>What is handed on for a payload.\<close>

definition handed_on :: "'f num_text \<Rightarrow> 'd run_configuration \<Rightarrow> 'x \<Rightarrow> string \<Rightarrow> ('x \<times> 'd configuration) list" where
  "handed_on nums runCfg slice b64 =
     (case parseStrategyFromBase64 nums b64 of
        Inr strategy \<Rightarrow> [(slice, configuration_of runCfg strategy)]
      | Inl _ \<Rightarrow> [])"

lemma run_payload_some:
  assumes "drain_world env db taken K" "\<forall>b. payload = Some b \<longrightarrow> parseStrategyFromBase64 nums b \<noteq> Inl Read_outside"
  obtains w' where "run_payload env nums run slice payload w = Some w'" "touched (- K) (db w) (db w')"
    "taken w' = taken w @ (case payload of None \<Rightarrow> [] | Some b \<Rightarrow> handed_on nums run slice b)"
proof (cases payload)
  case None
  then show thesis by (intro that [of w]) (simp_all add: run_payload_def touched_def)
next
  case (Some b)
  note W = drain_worldD [OF assms(1)]
  show thesis
  proof (cases "parseStrategyFromBase64 nums b")
    case (Inr s)
    then show thesis
      using W(9) [of w slice "configuration_of run s"] W(10) [of slice "configuration_of run s" w] Some
      by (intro that [of "dr_submit env slice (configuration_of run s) w"]) (auto simp: run_payload_def handed_on_def)
  next
    case (Inl e)
    then have "e \<noteq> Read_outside" using assms(2) Some by auto
    then show thesis
      using W(7) [of w "Payload_skipped e (rc_RUN_ID run)"] Some Inl
      by (intro that [of "dr_report env (Payload_skipped e (rc_RUN_ID run)) w"])
        (auto simp: run_payload_def handed_on_def calm_def split: conv_error.splits)
  qed
qed

subsection \<open>A run drained\<close>

text \<open>A payload stays under its key, to be read, until \<open>t\<close>.\<close>

definition queued :: "'f num_text \<Rightarrow> redis_db \<Rightarrow> time \<Rightarrow> (string \<Rightarrow> string) \<Rightarrow> string \<Rightarrow> bool" where
  "queued nums d t payload k \<longleftrightarrow>
     (\<exists>e. db_keys d k = Some (RString (payload k), Some e) \<and> t \<le> e)
     \<and> parseStrategyFromBase64 nums (payload k) \<noteq> Inl Read_outside"

lemma queued_touched: "touched ks d d' \<Longrightarrow> k \<notin> ks \<Longrightarrow> queued nums d t payload k \<Longrightarrow> queued nums d' t payload k"
  by (simp add: queued_def touched_def)

lemma popped_touched: "touched {k} d (popped k d)"
  by (simp add: touched_def popped_def list_put_other)

lemma lasting_popped: "lasting d k \<Longrightarrow> lasting (popped k d) k"
  by (simp add: lasting_def popped_def key_expiry_def list_put_def del_key_def put_key_def)

lemma list_ready_popped:
  "list_ready d k \<Longrightarrow> list_ready (popped k d) k \<and> live_list (popped k d) k = butlast (live_list d k)"
  by (simp add: list_ready_def popped_list lasting_popped)

lemma gone_touched: "touched ks d d' \<Longrightarrow> k \<notin> ks \<Longrightarrow> live d k = None \<Longrightarrow> live d' k = None"
  using touched_live [of ks d d' k] by fastforce

text \<open>One payload taken and handed on.\<close>

lemma take_and_hand_on:
  assumes "drain_world env db taken K" "reliable (dr_exec env)" "queued nums (db w) t payload k" "k \<in> K"
  obtains w1 w2 b where "takeStrategyPayload (dr_exec env) k w = (Inr b, w1)"
    "run_payload env nums run slice b w1 = Some w2" "touched (insert k (- K)) (db w) (db w2)"
    "live (db w2) k = None"
    "db_now (db w2) < t \<Longrightarrow> taken w2 = taken w @ handed_on nums run slice (payload k)"
proof -
  note W = drain_worldD [OF assms(1)]
  obtain res w1 where g: "getDelete (dr_exec env) k w = (res, w1)" by force
  obtain e where e: "db_keys (db w) k = Some (RString (payload k), Some e)" "t \<le> e"
    and p: "parseStrategyFromBase64 nums (payload k) \<noteq> Inl Read_outside"
    using assms(3) by (auto simp: queued_def)
  obtain d where d: "passed (db w) d" "db w1 = d \<or> db w1 = del_key k d"
    "res = Inr (if live d k = None then None else Some (payload k))" "live (db w1) k = None"
    using take_reliable [OF W(1) assms(2) g e(1)] by blast
  have t1: "touched {k} (db w) (db w1)" by (rule getDelete_touched [OF W(1) g])
  have l1: "taken w1 = taken w"
    using W(2) [of "[[''GETDEL'', k]]" w] g
    by (auto simp: getDelete_def execOptionalString_def execValue_def split: prod.splits sum.splits list.splits)
  define b where "b = (if live d k = None then None else Some (payload k))"
  obtain w2 where w2: "run_payload env nums run slice b w1 = Some w2" "touched (- K) (db w1) (db w2)"
    "taken w2 = taken w1 @ (case b of None \<Rightarrow> [] | Some b \<Rightarrow> handed_on nums run slice b)"
    by (rule run_payload_some [OF assms(1), of b nums run slice w1]) (use p in \<open>auto simp: b_def\<close>)
  show thesis
  proof (rule that)
    show "takeStrategyPayload (dr_exec env) k w = (Inr b, w1)" using g d(3) by (simp add: takeStrategyPayload_def b_def)
    show "run_payload env nums run slice b w1 = Some w2" by (rule w2)
    show "touched (insert k (- K)) (db w) (db w2)" using touched_trans [OF t1 w2(2)] by simp
    show "live (db w2) k = None" by (rule gone_touched [OF w2(2) _ d(4)]) (use assms(4) in simp)
    assume "db_now (db w2) < t"
    moreover have "db_now d \<le> db_now (db w2)" using w2(2) d(2) by (auto simp: touched_def)
    ultimately have "live d k = Some (RString (payload k))"
      using e passed_keys [OF d(1)] by (simp add: live_def)
    then show "taken w2 = taken w @ handed_on nums run slice (payload k)" using w2(3) l1 by (simp add: b_def)
  qed
qed

text \<open>One name popped.\<close>

lemma pop_name:
  assumes "drain_world env db taken K" "reliable (dr_exec env)" "list_ready (db w) key" "key \<in> K"
  obtains w1 where "popStrategyKey (dr_exec env) key w = (Inr (list_end (live_list (db w) key)), w1)"
    "list_ready (db w1) key" "live_list (db w1) key = butlast (live_list (db w) key)"
    "touched {key} (db w) (db w1)" "taken w1 = taken w"
proof -
  note W = drain_worldD [OF assms(1)]
  obtain res w1 where g: "listPopBack (dr_exec env) key w = (res, w1)" by force
  obtain d where d: "passed (db w) d" "db w1 = popped key d" "res = Inr (list_end (live_list d key))"
    using pop_reliable [OF W(1) assms(2) g] assms(3) by (auto simp: list_ready_def)
  have r: "list_ready d key" "live_list d key = live_list (db w) key"
    using list_ready_touched [OF touched_passed [OF d(1), of "{}"] _ assms(3)] by auto
  have l1: "taken w1 = taken w"
    using W(2) [of "[[''RPOP'', key]]" w] g
    by (auto simp: listPopBack_def execOptionalString_def execValue_def split: prod.splits sum.splits list.splits)
  show thesis
    by (rule that [of w1])
      (use d r g l1 list_ready_popped [OF r(1)] touched_trans [OF touched_passed [OF d(1), of "{}"] popped_touched [of key d]]
        in \<open>simp_all add: popStrategyKey_def\<close>)
qed

text \<open>One round of the inner loop: a payload handed on and the next name popped.\<close>

lemma one_claim:
  assumes "drain_world env db taken K" "undisturbed env" "key = strategyKey (rc_RUN_ID run)" "key \<in> K"
    "list_ready (db w) key" "queued nums (db w) t payload k" "k \<in> K - {key}"
  obtains w' where
    "drain_strategies env nums run slice k w =
       (case list_end (live_list (db w) key) of
          None \<Rightarrow> Some (Next, w') | Some n \<Rightarrow> drain_strategies env nums run slice n w')"
    "touched (insert key (insert k (- K))) (db w) (db w')"
    "list_ready (db w') key" "live_list (db w') key = butlast (live_list (db w) key)" "live (db w') k = None"
    "db_now (db w') < t \<Longrightarrow> taken w' = taken w @ handed_on nums run slice (payload k)"
proof -
  note W = drain_worldD [OF assms(1)]
  have rel: "reliable (dr_exec env)" using assms(2) by (simp add: undisturbed_def)
  obtain w1 w2 b where h: "takeStrategyPayload (dr_exec env) k w = (Inr b, w1)"
    "run_payload env nums run slice b w1 = Some w2" "touched (insert k (- K)) (db w) (db w2)" "live (db w2) k = None"
    "db_now (db w2) < t \<Longrightarrow> taken w2 = taken w @ handed_on nums run slice (payload k)"
    by (rule take_and_hand_on [OF assms(1) rel assms(6), of run slice]) (use assms(7) in auto)
  obtain stop w3 where s: "dr_stopRequested env w2 = (stop, w3)" by force
  have "\<not> fst (dr_stopRequested env w2)" using assms(2) unfolding undisturbed_def by blast
  then have stop: "\<not> stop" "touched (- K) (db w2) (db w3)" "taken w3 = taken w2"
    using W(3) [of w2] s by (simp_all add: calm_def)
  have t3: "touched (insert k (- K)) (db w) (db w3)" using touched_trans [OF h(3) stop(2)] by simp
  have r3: "list_ready (db w3) key" "live_list (db w3) key = live_list (db w) key"
    using list_ready_touched [OF t3 _ assms(5)] assms(4,7) by auto
  obtain w4 where p: "popStrategyKey (dr_exec env) key w3 = (Inr (list_end (live_list (db w3) key)), w4)"
    "list_ready (db w4) key" "live_list (db w4) key = butlast (live_list (db w3) key)"
    "touched {key} (db w3) (db w4)" "taken w4 = taken w3"
    by (rule pop_name [OF assms(1) rel r3(1) assms(4)])
  show thesis
  proof (rule that)
    show "drain_strategies env nums run slice k w =
       (case list_end (live_list (db w) key) of
          None \<Rightarrow> Some (Next, w4) | Some n \<Rightarrow> drain_strategies env nums run slice n w4)"
      using h(1,2) s stop(1) p(1) r3(2) by (subst drain_strategies.simps) (simp add: assms(3) split: option.split)
    show "touched (insert key (insert k (- K))) (db w) (db w4)" using touched_trans [OF t3 p(4)] by simp
    show "list_ready (db w4) key" "live_list (db w4) key = butlast (live_list (db w) key)" using p(2,3) r3(2) by auto
    have "live (db w3) k = None" by (rule gone_touched [OF stop(2) _ h(4)]) (use assms(7) in simp)
    then show "live (db w4) k = None" by (rule gone_touched [OF p(4), rotated]) (use assms(7) in simp)
    assume "db_now (db w4) < t"
    then show "taken w4 = taken w @ handed_on nums run slice (payload k)"
      using h(5) stop(2,3) p(4,5) by (simp add: touched_def)
  qed
qed

text \<open>After a pop: the names that are left, and their payloads.\<close>

lemma drain_strategies_all:
  assumes "drain_world env db taken K" "undisturbed env" "key = strategyKey (rc_RUN_ID run)" "key \<in> K"
  shows "list_ready (db w) key \<Longrightarrow> live_list (db w) key = rev names \<Longrightarrow> distinct (k # names) \<Longrightarrow>
    set (k # names) \<subseteq> K - {key} \<Longrightarrow> \<forall>n \<in> set (k # names). queued nums (db w) t payload n \<Longrightarrow>
    \<exists>w'. drain_strategies env nums run slice k w = Some (Next, w')
       \<and> touched (insert key (set (k # names)) \<union> - K) (db w) (db w')
       \<and> list_ready (db w') key \<and> live_list (db w') key = [] \<and> (\<forall>n \<in> set (k # names). live (db w') n = None)
       \<and> (db_now (db w') < t \<longrightarrow> taken w' = taken w @ concat (map (\<lambda>n. handed_on nums run slice (payload n)) (k # names)))"
proof (induction names arbitrary: k w)
  case Nil
  obtain w' where w': "drain_strategies env nums run slice k w =
       (case list_end (live_list (db w) key) of
          None \<Rightarrow> Some (Next, w') | Some n \<Rightarrow> drain_strategies env nums run slice n w')"
    "touched (insert key (insert k (- K))) (db w) (db w')"
    "list_ready (db w') key" "live_list (db w') key = butlast (live_list (db w) key)" "live (db w') k = None"
    "db_now (db w') < t \<Longrightarrow> taken w' = taken w @ handed_on nums run slice (payload k)"
    by (rule one_claim [OF assms Nil.prems(1), of nums t payload k slice]) (use Nil.prems in auto)
  then show ?case using Nil.prems(2) by (intro exI [of _ w']) (auto simp: list_end_def)
next
  case (Cons n names)
  obtain w1 where w1: "drain_strategies env nums run slice k w =
       (case list_end (live_list (db w) key) of
          None \<Rightarrow> Some (Next, w1) | Some n \<Rightarrow> drain_strategies env nums run slice n w1)"
    "touched (insert key (insert k (- K))) (db w) (db w1)"
    "list_ready (db w1) key" "live_list (db w1) key = butlast (live_list (db w) key)" "live (db w1) k = None"
    "db_now (db w1) < t \<Longrightarrow> taken w1 = taken w @ handed_on nums run slice (payload k)"
    by (rule one_claim [OF assms Cons.prems(1), of nums t payload k slice]) (use Cons.prems in auto)
  have l1: "live_list (db w1) key = rev names" using w1(4) Cons.prems(2) by simp
  have q1: "\<forall>m \<in> set (n # names). queued nums (db w1) t payload m"
  proof
    fix m assume m: "m \<in> set (n # names)"
    then have "m \<notin> insert key (insert k (- K))" using Cons.prems(3,4) by auto
    then show "queued nums (db w1) t payload m" using queued_touched [OF w1(2)] Cons.prems(5) m by auto
  qed
  obtain w' where w': "drain_strategies env nums run slice n w1 = Some (Next, w')"
    "touched (insert key (set (n # names)) \<union> - K) (db w1) (db w')" "list_ready (db w') key" "live_list (db w') key = []"
    "\<forall>m \<in> set (n # names). live (db w') m = None"
    "db_now (db w') < t \<longrightarrow> taken w' = taken w1 @ concat (map (\<lambda>n. handed_on nums run slice (payload n)) (n # names))"
    using Cons.IH [OF w1(3) l1 _ _ q1] Cons.prems(3,4) by auto
  have "k \<notin> insert key (set (n # names)) \<union> - K" using Cons.prems(3,4) by auto
  then have "live (db w') k = None" by (rule gone_touched [OF w'(2) _ w1(5)])
  moreover have "drain_strategies env nums run slice k w = Some (Next, w')"
    using w1(1) w'(1) Cons.prems(2) by (simp add: list_end_def)
  moreover have "touched (insert key (set (k # n # names)) \<union> - K) (db w) (db w')"
    by (rule touched_mono [OF touched_trans [OF w1(2) w'(2)]]) auto
  moreover have "db_now (db w1) \<le> db_now (db w')" using w'(2) by (simp add: touched_def)
  ultimately show ?case using w'(3-6) w1(6) by auto
qed

lemma list_removed_simps:
  "touched {k} d (list_removed k v d)" "list_key d k \<Longrightarrow> live_list (list_removed k v d) k = filter (\<lambda>x. x \<noteq> v) (live_list d k)"
  by (auto simp: touched_def list_removed_def list_put_other live_list_put) (simp add: live_list_def)

lemma retire_run:
  assumes "drain_world env db taken K" "reliable (dr_exec env)" "list_key (db w) (pr_queueKey peeked)"
  obtains w' where "retire env peeked w = (Next, w')" "touched {pr_queueKey peeked} (db w) (db w')"
    "taken w' = taken w" "pr_descriptorB64 peeked \<notin> set (live_list (db w') (pr_queueKey peeked))"
proof -
  note W = drain_worldD [OF assms(1)]
  let ?q = "pr_queueKey peeked" and ?v = "pr_descriptorB64 peeked"
  obtain res w' where r: "listRemove (dr_exec env) ?q 0 ?v w = (res, w')" by force
  obtain d where d: "passed (db w) d" "db w' = list_removed ?q ?v d" "res = Inr ()"
    using remove_reliable [OF W(1) assms(2) r assms(3)] by blast
  have k: "list_key d ?q" by (rule passed_list_key [OF d(1) assms(3)])
  have "taken w' = taken w"
    using W(2) [of "[[''LREM'', ?q, int_dec 0, ?v]]" w] r
    by (auto simp: listRemove_def execIgnore_def split: prod.splits sum.splits)
  moreover have "touched {?q} (db w) (db w')"
    using touched_trans [OF touched_passed [OF d(1), of "{}"] list_removed_simps(1) [of ?q d ?v]] d(2) by simp
  moreover have "?v \<notin> set (live_list (db w') ?q)" using list_removed_simps(2) [OF k, of ?v] d(2) by simp
  ultimately show thesis using r d(3) by (intro that [of w']) (simp_all add: retire_def removeRun_def)
qed

text \<open>C6: A worker that is not stopped and meets no failure drains a claimed run completely and ends the
  round: the list of names is empty, no payload is left, the run is off its queue, and, unless a payload expired on
  the way, the pool has been handed exactly the configurations of the readable payloads, in queue order, with
  the ticks of the run's window; an unreadable payload costs no other one.\<close>

theorem drain_run_complete:
  assumes "drain_world env db taken K" "undisturbed env" "set names \<union> {key, pr_queueKey peeked} \<subseteq> K"
    "key = strategyKey (rc_RUN_ID run)" "pr_queueKey peeked \<noteq> key" "key \<notin> set names" "pr_queueKey peeked \<notin> set names"
    "list_ready (db w) key" "live_list (db w) key = rev names" "distinct names"
    "\<forall>n \<in> set names. queued nums (db w) t payload n" "list_key (db w) (pr_queueKey peeked)"
  shows "\<exists>w' slice. drain_run env nums peeked run w = Some (Next, w')
     \<and> live_list (db w') key = [] \<and> (\<forall>n \<in> set names. live (db w') n = None)
     \<and> pr_descriptorB64 peeked \<notin> set (live_list (db w') (pr_queueKey peeked))
     \<and> (names \<noteq> [] \<longrightarrow> (\<exists>v v'. dr_getTicks env (rc_SYMBOLS run) (rc_LAST_MONTHS run) (rc_OFFSET_MONTHS run)
                           (quiesce env) v = (Inr slice, v')))
     \<and> (db_now (db w') < t \<longrightarrow> taken w' = taken w @ concat (map (\<lambda>n. handed_on nums run slice (payload n)) names))"
proof -
  note W = drain_worldD [OF assms(1)]
  let ?q = "pr_queueKey peeked"
  have rel: "reliable (dr_exec env)" using assms(2) by (simp add: undisturbed_def)
  obtain w1 where p: "popStrategyKey (dr_exec env) key w = (Inr (list_end (live_list (db w) key)), w1)"
    "list_ready (db w1) key" "live_list (db w1) key = butlast (live_list (db w) key)"
    "touched {key} (db w) (db w1)" "taken w1 = taken w"
    by (rule pop_name [OF assms(1) rel assms(8)]) (use assms(3) in auto)
  have q1: "list_key (db w1) ?q" by (rule touched_list_key [OF p(4) _ assms(12)]) (use assms(5) in simp)
  show ?thesis
  proof (cases names)
    case Nil
    obtain w' where r: "retire env peeked w1 = (Next, w')" "touched {?q} (db w1) (db w')"
      "taken w' = taken w1" "pr_descriptorB64 peeked \<notin> set (live_list (db w') ?q)"
      by (rule retire_run [OF assms(1) rel q1])
    have "live_list (db w') key = []"
      using list_ready_touched [OF r(2) _ p(2)] p(3) assms(5,9) Nil by auto
    then show ?thesis
      using Nil p(1,5) r assms(4,9) by (intro exI [of _ w']) (simp add: drain_run_def list_end_def)
  next
    case (Cons n ns)
    obtain slice w2 where g: "dr_getTicks env (rc_SYMBOLS run) (rc_LAST_MONTHS run) (rc_OFFSET_MONTHS run) (quiesce env) w1
        = (Inr slice, w2)"
      using assms(2) unfolding undisturbed_def by (metis prod.collapse)
    have t2: "touched (- K) (db w1) (db w2)" "taken w2 = taken w1"
      using W(8) [OF quiesce_calm [OF assms(1)], of w1 "rc_SYMBOLS run" "rc_LAST_MONTHS run" "rc_OFFSET_MONTHS run"] g
      by (simp_all add: calm_def)
    have t02: "touched (insert key (- K)) (db w) (db w2)" using touched_trans [OF p(4) t2(1)] by simp
    have r2: "list_ready (db w2) key" "live_list (db w2) key = rev ns"
      using list_ready_touched [OF t2(1) _ p(2)] p(3) assms(3,9) Cons by auto
    have qd: "\<forall>m \<in> set (n # ns). queued nums (db w2) t payload m"
    proof
      fix m assume m: "m \<in> set (n # ns)"
      then have "m \<notin> insert key (- K)" using assms(3,6) Cons by auto
      then show "queued nums (db w2) t payload m" using queued_touched [OF t02] assms(11) m Cons by auto
    qed
    have own: "key \<in> K" and dist: "distinct (n # ns)" and sub: "set (n # ns) \<subseteq> K - {key}"
      using assms(3,6,10) Cons by auto
    obtain w3 where d: "drain_strategies env nums run slice n w2 = Some (Next, w3)"
      "touched (insert key (set (n # ns)) \<union> - K) (db w2) (db w3)" "list_ready (db w3) key" "live_list (db w3) key = []"
      "\<forall>m \<in> set (n # ns). live (db w3) m = None"
      "db_now (db w3) < t \<longrightarrow> taken w3 = taken w2 @ concat (map (\<lambda>n. handed_on nums run slice (payload n)) (n # ns))"
      using drain_strategies_all [OF assms(1,2,4) own r2 dist sub qd, of slice] by blast
    have q3: "list_key (db w3) ?q"
      by (rule touched_list_key [OF touched_trans [OF t2(1) d(2)] _ q1]) (use assms(3,5,7) Cons in auto)
    obtain w' where r: "retire env peeked w3 = (Next, w')" "touched {?q} (db w3) (db w')"
      "taken w' = taken w3" "pr_descriptorB64 peeked \<notin> set (live_list (db w') ?q)"
      by (rule retire_run [OF assms(1) rel q3])
    have "drain_run env nums peeked run w = Some (Next, w')"
      using p(1) g d(1) r(1) assms(4,9) Cons by (simp add: drain_run_def list_end_def)
    moreover have "live_list (db w') key = []" using list_ready_touched [OF r(2) _ d(3)] d(4) assms(5) by auto
    moreover have "live (db w') m = None" if "m \<in> set names" for m
      by (rule gone_touched [OF r(2)]) (use that d(5) assms(7) Cons in auto)
    moreover have "taken w' = taken w @ concat (map (\<lambda>n. handed_on nums run slice (payload n)) names)" if "db_now (db w') < t"
      using that r(2,3) d(6) t2(2) p(5) Cons by (simp add: touched_def)
    ultimately show ?thesis using r(4) g by (intro exI [of _ w'] exI [of _ slice]) blast
  qed
qed

subsection \<open>The rounds around it\<close>

text \<open>A descriptor that cannot be read is reported once and taken off its queue.\<close>

lemma poison_descriptor_retired:
  assumes "drain_world env db taken K" "undisturbed env" "list_key (db w) (pr_queueKey peeked)"
    "pr_queueKey peeked \<in> K" "parseRunConfigurationFromBase64 nums dec (pr_descriptorB64 peeked) = Inl err" "err \<noteq> Read_outside"
  shows "\<exists>w'. drain_peeked env nums dec peeked w = Some (Next, w') \<and> taken w' = taken w
    \<and> pr_descriptorB64 peeked \<notin> set (live_list (db w') (pr_queueKey peeked))"
proof -
  note W = drain_worldD [OF assms(1)]
  let ?w = "dr_report env (Descriptor_retired err) w"
  have t: "touched (- K) (db w) (db ?w)" "taken ?w = taken w" using W(7) by (simp_all add: calm_def)
  have "list_key (db ?w) (pr_queueKey peeked)" by (rule touched_list_key [OF t(1) _ assms(3)]) (use assms(4) in simp)
  then obtain w' where "retire env peeked ?w = (Next, w')" "taken w' = taken ?w"
    "pr_descriptorB64 peeked \<notin> set (live_list (db w') (pr_queueKey peeked))"
    using retire_run [OF assms(1)] assms(2) unfolding undisturbed_def by metis
  then show ?thesis using assms(5,6) t(2) by (cases err) (auto simp: drain_peeked_def)
qed

text \<open>The run the worker peeks is the oldest of the first queue that has one.\<close>

lemma peek_first_reliable:
  assumes "redis_contract exec db" "reliable exec" "\<forall>q \<in> set qs. list_key (db w) q"
    "peek_first exec qs w = (res, w')" "\<forall>q \<in> set qs. lasting (db w) q"
  shows "passed (db w) (db w') \<and> (case find (\<lambda>q. live_list (db w) q \<noteq> []) qs of
           None \<Rightarrow> res = Inr None
         | Some q \<Rightarrow> res = Inr (Some \<lparr>pr_queueKey = q, pr_descriptorB64 = last (live_list (db w) q)\<rparr>))"
  using assms(3-5)
proof (induction qs arbitrary: w)
  case (Cons q qs)
  obtain r1 w1 where i: "listIndex exec q (- 1) w = (r1, w1)" by force
  have p: "passed (db w) (db w1)" "r1 = Inr (list_end (live_list (db w1) q))"
    using index_reliable [OF assms(1,2) i] Cons.prems(1) by auto
  have same: "live_list (db w1) q' = live_list (db w) q'" if "q' \<in> set (q # qs)" for q'
    using lasting_live [OF p(1), of q'] Cons.prems(3) that by (auto simp: live_list_def)
  show ?case
  proof (cases "live_list (db w) q = []")
    case True
    have "\<forall>q \<in> set qs. list_key (db w1) q" "\<forall>q \<in> set qs. lasting (db w1) q"
      using Cons.prems(1,3) passed_list_key [OF p(1)] lasting_passed [OF p(1)] by auto
    moreover have "peek_first exec qs w1 = (res, w')"
      using Cons.prems(2) i p(2) True same [of q]
      by (simp add: peekQueueTail_def redis_map_def list_end_def)
    moreover have "find (\<lambda>q. live_list (db w1) q \<noteq> []) qs = find (\<lambda>q. live_list (db w) q \<noteq> []) qs"
      by (rule find_cong) (use same in auto)
    ultimately have IH: "passed (db w1) (db w') \<and> (case find (\<lambda>q. live_list (db w) q \<noteq> []) qs of
           None \<Rightarrow> res = Inr None
         | Some q \<Rightarrow> res = Inr (Some \<lparr>pr_queueKey = q, pr_descriptorB64 = last (live_list (db w1) q)\<rparr>))"
      using Cons.IH [of w1] by simp
    have "live_list (db w1) q' = live_list (db w) q'" if "find (\<lambda>q. live_list (db w) q \<noteq> []) qs = Some q'" for q'
      using that same by (auto simp: find_Some_iff)
    then show ?thesis using IH True passed_trans [OF p(1)] by (auto split: option.splits)
  next
    case False
    then show ?thesis
      using Cons.prems(2) i p same [of q] by (simp add: peekQueueTail_def redis_map_def list_end_def)
  qed
qed simp

text \<open>A worker that does not sleep for ever leaves with status 3 only.\<close>

lemma drainRuns_exit:
  assumes "drainRuns env nums dec w = Some (res, w')"
  shows "res = Some 3 \<or> res = None"
  using assms by (auto simp: drainRuns_def drain_abort_def split: option.splits prod.splits drain_end.splits sum.splits)

subsection \<open>A worker in memory\<close>

type_synonym 'd mem_world = "redis_db \<times> (unit \<times> 'd configuration) list"

definition mem_worker :: "('d mem_world, 'd, unit) drain_env" where
  "mem_worker =
     \<lparr>dr_exec = (\<lambda>cmds w. case mem_server cmds (fst w) of (r, d) \<Rightarrow> (r, (d, snd w))),
      dr_stopRequested = (\<lambda>w. (False, w)), dr_takeError = (\<lambda>w. (None, w)), dr_wait = (\<lambda>w. w), dr_join = (\<lambda>w. w),
      dr_sleep = (\<lambda>w. (Inr (), w)),
      dr_getTicks = (\<lambda>s m k before w. (Inr (), w)),
      dr_submit = (\<lambda>x c w. (fst w, snd w @ [(x, c)])), dr_report = (\<lambda>r w. w), dr_cancel = (\<lambda>w. w)\<rparr>"

lemma mem_worker_contract: "redis_contract (dr_exec mem_worker) fst"
  unfolding redis_contract_def
proof (intro allI impI)
  fix cmds w res w'
  assume "dr_exec mem_worker cmds w = (res, w')"
  then have "mem_server cmds (fst w) = (res, fst w')" by (auto simp: mem_worker_def split: prod.splits)
  then show "\<exists>t \<ge> db_now (fst w). case res of
      Inr rs \<Rightarrow> (case redis_runs cmds (at_time t (fst w)) of Some (rs', d') \<Rightarrow> rs = rs' \<and> fst w' = d' | None \<Rightarrow> True)
    | Inl e \<Rightarrow> (\<exists>n. case redis_runs (take n cmds) (at_time t (fst w)) of Some (rs', d') \<Rightarrow> fst w' = d' | None \<Rightarrow> True)"
    using mem_server_contract unfolding redis_contract_def by blast
qed

lemma touched_refl [simp]: "touched ks d d"
  by (simp add: touched_def)

lemma mem_worker_world: "drain_world mem_worker fst snd K"
  unfolding drain_world_def
proof (intro conjI)
  show "redis_contract (dr_exec mem_worker) fst" by (rule mem_worker_contract)
qed (auto simp: mem_worker_def calm_def split: prod.splits sum.splits)

lemma mem_worker_undisturbed: "undisturbed mem_worker"
  unfolding undisturbed_def
proof (intro conjI allI)
  show "reliable (dr_exec mem_worker)"
    using mem_server_reliable by (auto simp: reliable_def mem_worker_def split: prod.splits)
       (metis fst_conv)
qed (auto simp: mem_worker_def split: prod.splits sum.splits)

text \<open>A run with one strategy.\<close>

definition one_strategy_db :: "string \<Rightarrow> redis_db" where
  "one_strategy_db b64 =
     put_key (strategyKey ''r-1'') (RList [strategyPayloadKey ''r-1'' ''u-1'']) None
       (put_key (strategyPayloadKey ''r-1'' ''u-1'') (RString b64) (Some 1000) empty_db)"

lemma drain_run_complete_witness:
  "let peeked = \<lparr>pr_queueKey = RUN, pr_descriptorB64 = ''x''\<rparr>
   in \<exists>b64 w'. parseStrategyFromBase64 int_nums b64 = Inr sample_strategy
     \<and> drain_run mem_worker int_nums peeked sample_run (one_strategy_db b64, []) = Some (Next, w')
     \<and> (db_now (fst w') < 1000 \<longrightarrow> snd w' = [((), configuration_of sample_run sample_strategy)])"
proof -
  let ?p = "\<lparr>pr_queueKey = RUN, pr_descriptorB64 = ''x''\<rparr>" and ?k = "strategyPayloadKey ''r-1'' ''u-1''"
  obtain b64 where b64: "parseStrategyFromBase64 int_nums b64 = Inr sample_strategy"
    using payload_round_trip [of int_nums "strategy_to_json sample_strategy" "strategy_from_json int_nums",
        OF strategy_codec(2,1) [OF int_nums_exact sample_strategy_ok]]
    unfolding parseStrategyFromBase64_def by blast
  let ?d = "one_strategy_db b64"
  have key: "strategyKey (rc_RUN_ID sample_run) = strategyKey ''r-1''" by (simp add: sample_run_def)
  have q: "RUN \<noteq> strategyKey r" "RUN \<noteq> strategyPayloadKey r u" for r u
    by (simp_all add: RUN_def strategyKey_def strategyPayloadKey_def)
  have ready: "list_ready ?d (strategyKey ''r-1'')" "live_list ?d (strategyKey ''r-1'') = rev [?k]"
    by (simp_all add: one_strategy_db_def list_ready_def list_key_def live_list_def lasting_def key_expiry_def put_key_def live_def)
  have queued: "\<forall>n \<in> set [?k]. queued int_nums ?d 1000 (\<lambda>_. b64) n"
    using b64 by (simp add: queued_def one_strategy_db_def put_key_def)
  have "live ?d RUN = None" using q by (simp add: one_strategy_db_def live_def put_key_def empty_db_def)
  then have run: "list_key ?d RUN" by (simp add: list_key_def)
  have prems: "set [?k] \<union> {strategyKey ''r-1'', pr_queueKey ?p} \<subseteq> UNIV" "strategyKey ''r-1'' = strategyKey (rc_RUN_ID sample_run)"
    "pr_queueKey ?p \<noteq> strategyKey ''r-1''" "strategyKey ''r-1'' \<notin> set [?k]" "pr_queueKey ?p \<notin> set [?k]" "distinct [?k]"
    using key q by simp_all
  have "list_ready (fst (?d, [])) (strategyKey ''r-1'')" "live_list (fst (?d, [])) (strategyKey ''r-1'') = rev [?k]"
    "\<forall>n \<in> set [?k]. queued int_nums (fst (?d, [])) 1000 (\<lambda>_. b64) n" "list_key (fst (?d, [])) (pr_queueKey ?p)"
    using ready queued run by simp_all
  from drain_run_complete [OF mem_worker_world mem_worker_undisturbed prems(1-5) this(1,2) prems(6) this(3,4)]
  obtain w' where w': "drain_run mem_worker int_nums ?p sample_run (?d, []) = Some (Next, w')"
    "db_now (fst w') < 1000 \<longrightarrow> snd w' = snd (?d, []) @ concat (map (\<lambda>n. handed_on int_nums sample_run () b64) [?k])"
    by auto
  have "handed_on int_nums sample_run () b64 = [((), configuration_of sample_run sample_strategy)]"
    using b64 by (simp add: handed_on_def)
  then show ?thesis using b64 w' unfolding Let_def by (intro exI [of _ b64] exI [of _ w']) simp
qed

end
