(* ===== verification/ThreadPool.thy ===== *)
theory ThreadPool
  imports Prelude "HOL-Library.Sublist" "HOL-Library.Multiset"
begin

section \<open>The thread pool\<close>

text \<open>
  \<open>ThreadPool\<close> of \<open>shared/utilities/threadPool.hpp\<close>. Each operation is what the code does while it
  holds the mutex; waiting on a condition variable is the operation not being enabled. A worker's local
  \<open>task\<close> is the entry of its thread in \<open>tp_workers\<close>. \<open>pool_run\<close> interleaves any number of threads and
  records what happened; its invariant gives the order, the bound and the meaning of \<open>wait\<close>.
\<close>

record ('t, 'e) pool =
  tp_tasks :: "'t list"
  tp_inFlight :: int
  tp_capacity :: int
  tp_gauge :: "int option"
  tp_firstError :: "'e option"
  tp_workers :: "'t option list"

definition new_pool :: "nat \<Rightarrow> bool \<Rightarrow> ('t, 'e) pool" where
  "new_pool threads gauged =
     \<lparr>tp_tasks = [], tp_inFlight = 0, tp_capacity = u64 (int threads * 2),
      tp_gauge = (if gauged then Some 0 else None), tp_firstError = None, tp_workers = replicate threads None\<rparr>"

definition publishInFlight :: "('t, 'e) pool \<Rightarrow> ('t, 'e) pool" where
  "publishInFlight p = p\<lparr>tp_gauge := map_option (\<lambda>_. i32 (tp_inFlight p)) (tp_gauge p)\<rparr>"

text \<open>\<open>None\<close>: blocked on \<open>slotFree_\<close>.\<close>

definition submit :: "'t \<Rightarrow> ('t, 'e) pool \<Rightarrow> ('t, 'e) pool option" where
  "submit task p =
     (if tp_inFlight p < tp_capacity p
      then Some (publishInFlight (p\<lparr>tp_tasks := tp_tasks p @ [task], tp_inFlight := u64 (tp_inFlight p + 1)\<rparr>))
      else None)"

text \<open>\<open>None\<close>: blocked on \<open>idle_\<close>.\<close>

definition pool_wait :: "('t, 'e) pool \<Rightarrow> ('t, 'e) pool option" where
  "pool_wait p = (if tp_inFlight p = 0 then Some p else None)"

definition takeError :: "('t, 'e) pool \<Rightarrow> 'e option \<times> ('t, 'e) pool" where
  "takeError p = (tp_firstError p, p\<lparr>tp_firstError := None\<rparr>)"

text \<open>The two locked sections of \<open>workerLoop\<close>, before and after \<open>task()\<close>.\<close>

definition worker_take :: "nat \<Rightarrow> ('t, 'e) pool \<Rightarrow> ('t \<times> ('t, 'e) pool) option" where
  "worker_take i p =
     (if i < length (tp_workers p) \<and> tp_workers p ! i = None
      then (case tp_tasks p of
              [] \<Rightarrow> None
            | task # rest \<Rightarrow> Some (task, p\<lparr>tp_tasks := rest, tp_workers := (tp_workers p)[i := Some task]\<rparr>))
      else None)"

definition worker_finish :: "nat \<Rightarrow> 'e option \<Rightarrow> ('t, 'e) pool \<Rightarrow> ('t \<times> ('t, 'e) pool) option" where
  "worker_finish i err p =
     (if i < length (tp_workers p)
      then (case tp_workers p ! i of
              None \<Rightarrow> None
            | Some task \<Rightarrow>
                Some (task, publishInFlight
                  (p\<lparr>tp_firstError := (if err \<noteq> None \<and> tp_firstError p = None then err else tp_firstError p),
                     tp_inFlight := u64 (tp_inFlight p - 1), tp_workers := (tp_workers p)[i := None]\<rparr>)))
      else None)"

text \<open>A stop request ends a worker only when there is nothing left to take.\<close>

definition worker_stops :: "nat \<Rightarrow> ('t, 'e) pool \<Rightarrow> bool" where
  "worker_stops i p \<longleftrightarrow> i < length (tp_workers p) \<and> tp_workers p ! i = None \<and> tp_tasks p = []"

subsection \<open>Interleavings\<close>

datatype ('t, 'e) pool_event =
    Submitted 't
  | Started nat 't
  | Finished nat 't "'e option"
  | Waited
  | Took "'e option"

inductive pool_step :: "('t, 'e) pool \<Rightarrow> ('t, 'e) pool_event \<Rightarrow> ('t, 'e) pool \<Rightarrow> bool" where
  step_submit: "submit t p = Some p' \<Longrightarrow> pool_step p (Submitted t) p'"
| step_take: "worker_take i p = Some (t, p') \<Longrightarrow> pool_step p (Started i t) p'"
| step_finish: "worker_finish i err p = Some (t, p') \<Longrightarrow> pool_step p (Finished i t err) p'"
| step_wait: "pool_wait p = Some p' \<Longrightarrow> pool_step p Waited p'"
| step_error: "takeError p = (err, p') \<Longrightarrow> pool_step p (Took err) p'"

text \<open>The events of a run, the latest first.\<close>

inductive pool_run :: "('t, 'e) pool \<Rightarrow> ('t, 'e) pool_event list \<Rightarrow> ('t, 'e) pool \<Rightarrow> bool" for p0 where
  run_start: "pool_run p0 [] p0"
| run_step: "pool_run p0 es p \<Longrightarrow> pool_step p e p' \<Longrightarrow> pool_run p0 (e # es) p'"

inductive_cases pool_stepE: "pool_step p e p'"

fun submitted :: "('t, 'e) pool_event list \<Rightarrow> 't list" where
  "submitted [] = []"
| "submitted (e # es) = submitted es @ (case e of Submitted t \<Rightarrow> [t] | _ \<Rightarrow> [])"

fun started :: "('t, 'e) pool_event list \<Rightarrow> 't list" where
  "started [] = []"
| "started (e # es) = started es @ (case e of Started i t \<Rightarrow> [t] | _ \<Rightarrow> [])"

fun finished :: "('t, 'e) pool_event list \<Rightarrow> 't list" where
  "finished [] = []"
| "finished (e # es) = finished es @ (case e of Finished i t err \<Rightarrow> [t] | _ \<Rightarrow> [])"

text \<open>The first error since the last one was taken.\<close>

fun pending_error :: "('t, 'e) pool_event list \<Rightarrow> 'e option" where
  "pending_error [] = None"
| "pending_error (e # es) =
     (case e of
        Took _ \<Rightarrow> None
      | Finished _ _ err \<Rightarrow> (case pending_error es of None \<Rightarrow> err | Some x \<Rightarrow> Some x)
      | _ \<Rightarrow> pending_error es)"

definition busy :: "'t option list \<Rightarrow> 't list" where
  "busy ws = concat (map (\<lambda>w. case w of None \<Rightarrow> [] | Some t \<Rightarrow> [t]) ws)"

definition running :: "('t, 'e) pool \<Rightarrow> 't list" where
  "running p = busy (tp_workers p)"

definition pool_inv :: "nat \<Rightarrow> bool \<Rightarrow> ('t, 'e) pool_event list \<Rightarrow> ('t, 'e) pool \<Rightarrow> bool" where
  "pool_inv threads gauged es p \<longleftrightarrow>
     submitted es = started es @ tp_tasks p
     \<and> mset (started es) = mset (finished es) + mset (running p)
     \<and> tp_inFlight p = int (length (tp_tasks p)) + int (length (running p))
     \<and> tp_inFlight p \<le> tp_capacity p \<and> tp_capacity p = 2 * int threads
     \<and> length (tp_workers p) = threads
     \<and> tp_gauge p = (if gauged then Some (tp_inFlight p) else None)
     \<and> tp_firstError p = pending_error es"

lemma busy_append [simp]: "busy (ws @ vs) = busy ws @ busy vs"
  by (simp add: busy_def)

lemma busy_Cons [simp]: "busy (w # ws) = (case w of None \<Rightarrow> [] | Some t \<Rightarrow> [t]) @ busy ws"
  by (simp add: busy_def)

lemma busy_Nil_simp [simp]: "busy [] = []"
  by (simp add: busy_def)

lemma lengths_zero [simp]: "int (length xs) + int (length ys) = 0 \<longleftrightarrow> xs = [] \<and> ys = []"
  by (cases xs; cases ys; simp)

lemma busy_replicate [simp]: "busy (replicate n None) = []"
  by (induction n) (simp_all add: busy_def)

lemma mset_busy_update:
  assumes "i < length ws"
  shows "mset (busy (ws[i := w])) + (case ws ! i of None \<Rightarrow> {#} | Some t \<Rightarrow> {#t#})
    = mset (busy ws) + (case w of None \<Rightarrow> {#} | Some t \<Rightarrow> {#t#})"
proof -
  have "mset (busy ws) = mset (busy (take i ws @ ws ! i # drop (Suc i) ws))" using id_take_nth_drop [OF assms] by simp
  then show ?thesis
    by (cases w; cases "ws ! i") (simp_all add: upd_conv_take_nth_drop [OF assms])
qed

lemma busy_length: "length (busy ws) \<le> length ws"
  by (induction ws) (auto simp: busy_def split: option.split)

lemma pool_inv_new: "int threads < 2 ^ 30 \<Longrightarrow> pool_inv threads gauged [] (new_pool threads gauged)"
  by (simp add: pool_inv_def new_pool_def running_def u64_def)

lemma in_flight_values:
  assumes "0 \<le> n" "n < 2 ^ 31"
  shows "u64 n = n" "i32 n = n"
  using assms by (simp_all add: u64_def in_i32_def)

lemma pool_inv_step:
  assumes "pool_inv threads gauged es p" "pool_step p e p'" "int threads < 2 ^ 30"
  shows "pool_inv threads gauged (e # es) p'"
  using assms(2)
proof (cases rule: pool_step.cases)
  case (step_submit t)
  then have lt: "tp_inFlight p < tp_capacity p"
    and p': "p' = publishInFlight (p\<lparr>tp_tasks := tp_tasks p @ [t], tp_inFlight := u64 (tp_inFlight p + 1)\<rparr>)"
    by (auto simp: submit_def split: if_splits)
  have "u64 (tp_inFlight p + 1) = tp_inFlight p + 1" "i32 (tp_inFlight p + 1) = tp_inFlight p + 1"
    using in_flight_values [of "tp_inFlight p + 1"] lt assms(1,3) by (auto simp: pool_inv_def)
  then show ?thesis
    using assms(1) lt p' step_submit(1) by (auto simp: pool_inv_def publishInFlight_def running_def)
next
  case (step_take i t)
  then obtain rest where t: "i < length (tp_workers p)" "tp_workers p ! i = None" "tp_tasks p = t # rest"
    and p': "p' = p\<lparr>tp_tasks := rest, tp_workers := (tp_workers p)[i := Some t]\<rparr>"
    by (auto simp: worker_take_def split: if_splits list.splits)
  have "mset (busy ((tp_workers p)[i := Some t])) = add_mset t (mset (running p))"
    using mset_busy_update [OF t(1), of "Some t"] t(2) by (simp add: running_def)
  moreover from this have "length (busy ((tp_workers p)[i := Some t])) = Suc (length (running p))"
    by (metis size_add_mset size_mset)
  ultimately show ?thesis
    using assms(1) t p' step_take(1) by (auto simp: pool_inv_def running_def)
next
  case (step_finish i err t)
  then have t: "i < length (tp_workers p)" "tp_workers p ! i = Some t"
    and p': "p' = publishInFlight
      (p\<lparr>tp_firstError := (if err \<noteq> None \<and> tp_firstError p = None then err else tp_firstError p),
         tp_inFlight := u64 (tp_inFlight p - 1), tp_workers := (tp_workers p)[i := None]\<rparr>)"
    by (auto simp: worker_finish_def split: if_splits option.splits)
  have m: "add_mset t (mset (busy ((tp_workers p)[i := None]))) = mset (running p)"
    using mset_busy_update [OF t(1), of None] t(2) by (simp add: running_def)
  then have l: "length (running p) = Suc (length (busy ((tp_workers p)[i := None])))"
    by (metis size_add_mset size_mset)
  have "u64 (tp_inFlight p - 1) = tp_inFlight p - 1" "i32 (tp_inFlight p - 1) = tp_inFlight p - 1"
    using in_flight_values [of "tp_inFlight p - 1"] l assms(1,3) by (auto simp: pool_inv_def)
  then show ?thesis
    using assms(1) m [symmetric] l p' step_finish(1)
    by (auto simp: pool_inv_def publishInFlight_def running_def split: option.splits)
qed (use assms(1) in \<open>auto simp: pool_inv_def pool_wait_def takeError_def running_def split: if_splits\<close>)

lemma pool_run_inv:
  assumes "pool_run (new_pool threads gauged) es p" "int threads < 2 ^ 30"
  shows "pool_inv threads gauged es p"
  using assms(1) by (induction rule: pool_run.induct) (use assms(2) pool_inv_new pool_inv_step in blast)+

text \<open>C9: However submitter and workers interleave: tasks are started in the order of submission, at most
  twice as many as there are threads are in flight, the gauge shows exactly that number, \<open>takeError\<close> gives
  the first error since the last one taken, and when \<open>wait\<close> returns every submitted task has finished.\<close>

theorem pool_accounts:
  assumes "pool_run (new_pool threads gauged) es p" "int threads < 2 ^ 30"
  shows "prefix (started es) (submitted es) \<and> mset (finished es) \<subseteq># mset (started es)
    \<and> tp_inFlight p = int (length (submitted es)) - int (length (finished es)) \<and> tp_inFlight p \<le> 2 * int threads
    \<and> tp_gauge p = (if gauged then Some (tp_inFlight p) else None)
    \<and> fst (takeError p) = pending_error es
    \<and> (pool_wait p \<noteq> None \<longrightarrow> mset (finished es) = mset (submitted es))"
proof -
  note inv = pool_run_inv [OF assms]
  then have m: "mset (started es) = mset (finished es) + mset (running p)" by (simp add: pool_inv_def)
  then have "length (started es) = length (finished es) + length (running p)" by (metis size_mset size_union)
  moreover have "mset (finished es) \<subseteq># mset (started es)" using m by simp
  ultimately show ?thesis
    using inv m by (auto simp: pool_inv_def prefix_def takeError_def pool_wait_def split: if_splits)
qed

subsection \<open>It does not get stuck\<close>

definition work_left :: "('t, 'e) pool \<Rightarrow> nat" where
  "work_left p = 2 * length (tp_tasks p) + length (running p)"

text \<open>Steps of the workers only.\<close>

inductive worker_step :: "('t, 'e) pool \<Rightarrow> ('t, 'e) pool \<Rightarrow> bool" where
  work_take: "worker_take i p = Some (t, p') \<Longrightarrow> worker_step p p'"
| work_finish: "worker_finish i err p = Some (t, p') \<Longrightarrow> worker_step p p'"

lemma worker_step_less: "worker_step p p' \<Longrightarrow> Suc (work_left p') = work_left p"
proof (induction rule: worker_step.induct)
  case (work_take i p t p')
  then obtain rest where t: "i < length (tp_workers p)" "tp_workers p ! i = None" "tp_tasks p = t # rest"
    and p': "p' = p\<lparr>tp_tasks := rest, tp_workers := (tp_workers p)[i := Some t]\<rparr>"
    by (auto simp: worker_take_def split: if_splits list.splits)
  have "mset (busy ((tp_workers p)[i := Some t])) = add_mset t (mset (running p))"
    using mset_busy_update [OF t(1), of "Some t"] t(2) by (simp add: running_def)
  then have "length (busy ((tp_workers p)[i := Some t])) = Suc (length (running p))" by (metis size_add_mset size_mset)
  then show ?case using t(3) p' by (simp add: work_left_def running_def)
next
  case (work_finish i err p t p')
  then have t: "i < length (tp_workers p)" "tp_workers p ! i = Some t"
    and p': "tp_tasks p' = tp_tasks p" "tp_workers p' = (tp_workers p)[i := None]"
    by (auto simp: worker_finish_def publishInFlight_def split: if_splits option.splits)
  have "add_mset t (mset (busy ((tp_workers p)[i := None]))) = mset (running p)"
    using mset_busy_update [OF t(1), of None] t(2) by (simp add: running_def)
  then have "length (running p) = Suc (length (busy ((tp_workers p)[i := None])))" by (metis size_add_mset size_mset)
  then show ?case using p' by (simp add: work_left_def running_def)
qed

lemma busy_Nil: "busy ws = [] \<Longrightarrow> i < length ws \<Longrightarrow> ws ! i = None"
  by (induction ws arbitrary: i) (auto simp: nth_Cons split: option.splits nat.splits)

lemma busy_some: "busy ws \<noteq> [] \<Longrightarrow> \<exists>i t. i < length ws \<and> ws ! i = Some t"
  by (induction ws) (auto simp: nth_Cons' less_Suc_eq_0_disj split: option.splits)

lemma worker_can_step:
  assumes "work_left p \<noteq> 0" "tp_workers p \<noteq> []"
  shows "\<exists>p'. worker_step p p'"
proof (cases "running p = []")
  case True
  then have i: "0 < length (tp_workers p)" "tp_workers p ! 0 = None"
    using assms(2) busy_Nil [of "tp_workers p" 0] by (auto simp: running_def)
  obtain t rest where t: "tp_tasks p = t # rest" using assms(1) True by (cases "tp_tasks p") (auto simp: work_left_def)
  show ?thesis using i t by (intro exI work_take [of 0 p t]) (simp add: worker_take_def)
next
  case False
  then obtain i t where "i < length (tp_workers p)" "tp_workers p ! i = Some t"
    using busy_some [of "tp_workers p"] by (auto simp: running_def)
  then show ?thesis by (intro exI work_finish [of i None p t]) (simp add: worker_finish_def)
qed

lemma worker_steps_count: "(worker_step ^^ n) p p' \<Longrightarrow> n + work_left p' = work_left p"
proof (induction n arbitrary: p')
  case (Suc n)
  then obtain q where "(worker_step ^^ n) p q" "worker_step q p'" by auto
  then show ?case using Suc.IH [of q] worker_step_less [of q p'] by simp
qed simp

lemma worker_step_workers: "worker_step p p' \<Longrightarrow> length (tp_workers p') = length (tp_workers p)"
  by (auto elim!: worker_step.cases simp: worker_take_def worker_finish_def publishInFlight_def
      split: if_splits list.splits option.splits)

lemma workers_drain: "tp_workers p \<noteq> [] \<Longrightarrow> \<exists>p'. (worker_step ^^ work_left p) p p' \<and> work_left p' = 0"
proof (induction "work_left p" arbitrary: p)
  case 0
  then show ?case by (intro exI [of _ p]) simp
next
  case (Suc n)
  obtain q where q: "worker_step p q" using worker_can_step [of p] Suc.hyps(2) Suc.prems by auto
  have "work_left q = n" using worker_step_less [OF q] Suc.hyps(2) by simp
  moreover have "tp_workers q \<noteq> []" using worker_step_workers [OF q] Suc.prems by auto
  ultimately obtain p' where "(worker_step ^^ n) q p'" "work_left p' = 0" using Suc.hyps(1) [of q] by auto
  then show ?case using q Suc.hyps(2) relpowp_Suc_I2 [of worker_step p q n p'] by (intro exI [of _ p']) (simp flip: Suc.hyps(2))
qed

lemma worker_steps_run:
  "(worker_step ^^ n) p p' \<Longrightarrow> pool_run p0 es p \<Longrightarrow> \<exists>es'. pool_run p0 es' p' \<and> submitted es' = submitted es"
proof (induction n arbitrary: p')
  case (Suc n)
  then obtain q where q: "(worker_step ^^ n) p q" "worker_step q p'" by auto
  obtain es' where es': "pool_run p0 es' q" "submitted es' = submitted es" using Suc.IH [OF q(1) Suc.prems(2)] by blast
  from q(2) show ?case
  proof cases
    case (work_take i t)
    then show ?thesis using run_step [OF es'(1) step_take] es'(2) by (intro exI [of _ "Started i t # es'"]) auto
  next
    case (work_finish i err t)
    then show ?thesis using run_step [OF es'(1) step_finish] es'(2) by (intro exI [of _ "Finished i t err # es'"]) auto
  qed
qed auto


text \<open>Two threads, two tasks, the first of which throws.\<close>

definition state :: "nat list \<Rightarrow> int \<Rightarrow> string option \<Rightarrow> nat option list \<Rightarrow> (nat, string) pool" where
  "state tasks n err ws =
     \<lparr>tp_tasks = tasks, tp_inFlight = n, tp_capacity = 4, tp_gauge = Some n, tp_firstError = err, tp_workers = ws\<rparr>"

definition sample_events :: "(nat, string) pool_event list" where
  "sample_events =
     [Waited, Finished 1 2 None, Finished 0 1 (Some ''bad tick''), Started 1 2, Started 0 1, Submitted 2, Submitted 1]"

lemma sample_pool_run: "pool_run (new_pool 2 True) sample_events (state [] 0 (Some ''bad tick'') [None, None])"
proof -
  note defs = state_def publishInFlight_def submit_def worker_take_def worker_finish_def pool_wait_def u64_def
  have i: "i32 1 = 1" "i32 2 = 2" by (simp_all add: in_i32_def)
  have p0: "new_pool 2 True = state [] 0 None [None, None]"
    by (simp add: new_pool_def state_def u64_def numeral_2_eq_2)
  have s: "submit 1 (state [] 0 None [None, None]) = Some (state [1] 1 None [None, None])"
    "submit 2 (state [1] 1 None [None, None]) = Some (state [1, 2] 2 None [None, None])"
    "worker_take 0 (state [1, 2] 2 None [None, None]) = Some (1, state [2] 2 None [Some 1, None])"
    "worker_take 1 (state [2] 2 None [Some 1, None]) = Some (2, state [] 2 None [Some 1, Some 2])"
    "worker_finish 0 (Some ''bad tick'') (state [] 2 None [Some 1, Some 2]) = Some (1, state [] 1 (Some ''bad tick'') [None, Some 2])"
    "worker_finish 1 None (state [] 1 (Some ''bad tick'') [None, Some 2]) = Some (2, state [] 0 (Some ''bad tick'') [None, None])"
    "pool_wait (state [] 0 (Some ''bad tick'') [None, None]) = Some (state [] 0 (Some ''bad tick'') [None, None])"
    by (simp_all add: defs i)
  show ?thesis
    unfolding sample_events_def p0
    by (intro run_step [OF _ step_wait] run_step [OF _ step_finish] run_step [OF _ step_take] run_step [OF _ step_submit])
      (rule run_start s)+
qed

lemma pool_accounts_witness:
  "prefix (started sample_events) (submitted sample_events)
   \<and> fst (takeError (state [] 0 (Some ''bad tick'') [None, None])) = pending_error sample_events
   \<and> pool_wait (state [] 0 (Some ''bad tick'') [None, None]) \<noteq> None
   \<and> mset (finished sample_events) = mset (submitted sample_events)"
  using pool_accounts [OF sample_pool_run] by (simp add: pool_wait_def state_def)


end
