(* ===== verification/BarScan.thy ===== *)
theory BarScan
  imports Strategy SymbolScale
begin

section \<open>Scanning bars\<close>

text \<open>
  What the strategies share: reading a bar by a computed index, which C++ does not check
  (\<open>UndefinedBehaviour\<close> outside the bars), loops over indices with an early exit, and a
  strategy without state of its own whose only exit is the time cap. Indices are integers: an
  unsigned subtraction that wraps is as much outside as a negative index. \<open>total_strategy\<close> is
  what a strategy owes the run loop: whatever the bars, an accepted configuration never reads
  outside them.
\<close>

definition bar_at :: "ohlc_object list \<Rightarrow> int \<Rightarrow> ohlc_object result" where
  "bar_at bars i = (if 0 \<le> i \<and> i < int (length bars) then Inr (bars ! nat i) else Inl UndefinedBehaviour)"

fun any_bar :: "(ohlc_object \<Rightarrow> bool) \<Rightarrow> ohlc_object list \<Rightarrow> int list \<Rightarrow> bool result" where
  "any_bar P bars [] = Inr False"
| "any_bar P bars (j # js) = bind (bar_at bars j) (\<lambda>bar. if P bar then Inr True else any_bar P bars js)"

text \<open>64-bit sums of closes.\<close>

fun sum_closes :: "ohlc_object list \<Rightarrow> int list \<Rightarrow> int \<Rightarrow> int result" where
  "sum_closes bars [] acc = Inr acc"
| "sum_closes bars (i # is) acc = bind (bar_at bars i) (\<lambda>bar. sum_closes bars is (i64 (acc + b_close bar)))"

definition inside :: "ohlc_object list \<Rightarrow> int \<Rightarrow> bool" where
  "inside bars i \<longleftrightarrow> 0 \<le> i \<and> i < int (length bars)"

lemma bar_at_inside [simp]: "inside bars i \<Longrightarrow> bar_at bars i = Inr (bars ! nat i)"
  by (simp add: bar_at_def inside_def)

lemma any_bar_inside:
  "\<forall>j \<in> set js. inside bars j \<Longrightarrow> any_bar P bars js = Inr (\<exists>j \<in> set js. P (bars ! nat j))"
  by (induction js) auto

lemma sum_closes_inside: "\<forall>i \<in> set is. inside bars i \<Longrightarrow> \<exists>n. sum_closes bars is acc = Inr n"
  by (induction "is" arbitrary: acc) auto

lemma sum_closes_exact:
  assumes "\<forall>i \<in> set is. inside bars i" "\<forall>bar \<in> set bars. in_i32 (b_close bar)"
    "\<bar>acc\<bar> + 2 ^ 31 * int (length is) < 2 ^ 63"
  shows "sum_closes bars is acc = Inr (acc + (\<Sum>i \<leftarrow> is. b_close (bars ! nat i)))"
  using assms
proof (induction "is" arbitrary: acc)
  case (Cons i "is")
  have "bars ! nat i \<in> set bars" using Cons.prems(1) by (auto simp: inside_def)
  then have c: "\<bar>b_close (bars ! nat i)\<bar> \<le> 2 ^ 31" using Cons.prems(2) by (auto simp: in_i32_def)
  have len: "0 \<le> int (length is)" "int (length (i # is)) = int (length is) + 1" by simp_all
  have "\<bar>acc + b_close (bars ! nat i)\<bar> + 2 ^ 31 * int (length is) < 2 ^ 63"
    using c Cons.prems(3) len(2) by (simp add: algebra_simps)
  moreover from this have "i64 (acc + b_close (bars ! nat i)) = acc + b_close (bars ! nat i)"
    using len(1) by (intro i64_id) (auto simp: in_i64_def)
  ultimately show ?case using Cons by (simp add: add.assoc)
qed simp

lemma ema_calculate_total: "1 \<le> period \<Longrightarrow> \<exists>es. ema_calculate prices period = Inr es \<and> length es = length prices"
  by (auto simp: ema_calculate_def Let_def)

lemma atr_calculate_total: "1 \<le> period \<Longrightarrow> \<exists>n. atr_calculate candles period = Inr n"
  by (auto simp: atr_calculate_def Let_def)

subsection \<open>Windows of a series\<close>

text \<open>\<open>static_cast<std::size_t>(count)\<close> of a negative \<open>count\<close> is huge, so that no series has as
  many bars; \<open>closed_bars\<close> is \<open>first(size() - 1)\<close>.\<close>

definition span_last :: "ohlc_object list \<Rightarrow> int \<Rightarrow> ohlc_object list option" where
  "span_last series n =
     (if int (length series) < u64 n then None else Some (lastn (nat (u64 n)) series))"

definition closed_bars :: "ohlc_object list \<Rightarrow> ohlc_object list result" where
  "closed_bars bars = (if bars = [] then Inl UndefinedBehaviour else Inr (butlast bars))"

lemma in_i32_less: "in_i32 x \<Longrightarrow> x < 2147483648"
  by (simp add: in_i32_def)

lemma span_last_length:
  assumes "span_last series n = Some bars" "0 \<le> n" "n < 2 ^ 31"
  shows "int (length bars) = n"
  using assms by (auto simp: span_last_def u64_def split: if_splits)

lemma closed_bars_total: "bars \<noteq> [] \<Longrightarrow> closed_bars bars = Inr (butlast bars)"
  by (simp add: closed_bars_def)

subsection \<open>Strategies with a time cap\<close>

definition capped_strategy ::
  "('s \<Rightarrow> price_data \<Rightarrow> bar_store \<Rightarrow> direction option result) \<Rightarrow> ('s \<Rightarrow> int) \<Rightarrow> 's strategy" where
  "capped_strategy decide cap =
     \<lparr>sg_decide = (\<lambda>self tick store. bind (decide self tick store) (\<lambda>signal. Inr (signal, self))),
      sg_during = (\<lambda>self price store tm. Inr (snd (closeIfPastCap price tm (cap self)), self))\<rparr>"

locale total_strategy = strategy_contract strat for strat :: "'s strategy" +
  fixes accepted :: "'s \<Rightarrow> bool"
  assumes decide_total: "accepted s \<Longrightarrow> \<exists>signal s'. sg_decide strat s tick store = Inr (signal, s') \<and> accepted s'"
    and during_total: "accepted s \<Longrightarrow> \<exists>tm' s'. sg_during strat s tick store tm = Inr (tm', s') \<and> accepted s'"

text \<open>Any sequence of ticks is judged to its end.\<close>

fun judge :: "'s strategy \<Rightarrow> 's \<Rightarrow> (price_data \<times> bar_store \<times> trade_manager) list \<Rightarrow> direction option list result" where
  "judge strat s [] = Inr []"
| "judge strat s ((tick, store, tm) # rest) =
     bind (sg_during strat s tick store tm) (\<lambda>(tm', s1).
     bind (sg_decide strat s1 tick store) (\<lambda>(signal, s2).
     bind (judge strat s2 rest) (\<lambda>signals. Inr (signal # signals))))"

context total_strategy
begin

lemma judge_total: "accepted s \<Longrightarrow> \<exists>signals. judge strat s ticks = Inr signals \<and> length signals = length ticks"
proof (induction ticks arbitrary: s)
  case (Cons t ticks)
  obtain tick store tm where t: "t = (tick, store, tm)" by (metis prod_cases3)
  obtain tm' s1 where s1: "sg_during strat s tick store tm = Inr (tm', s1)" "accepted s1"
    using during_total [OF Cons.prems] by blast
  obtain signal s2 where s2: "sg_decide strat s1 tick store = Inr (signal, s2)" "accepted s2"
    using decide_total [OF s1(2)] by blast
  show ?case using Cons.IH [OF s2(2)] s1(1) s2(1) t by auto
qed simp

end

lemma capped_total:
  assumes "\<And>s tick store. accepted s \<Longrightarrow> \<exists>signal. decide s tick store = Inr signal"
  shows "total_strategy (capped_strategy decide cap) accepted"
proof unfold_locales
  show "exits_only tm tm'"
    if "tm_inv tm" "sg_during (capped_strategy decide cap) s tick store tm = Inr (tm', s')" for tm s tick store tm' s'
    using that by (auto simp: capped_strategy_def exits_only_closeIfPastCap)
  show "\<exists>signal s'. sg_decide (capped_strategy decide cap) s tick store = Inr (signal, s') \<and> accepted s'"
    if acc: "accepted s" for s tick store
  proof -
    obtain signal where "decide s tick store = Inr signal" using assms [OF acc] by blast
    then show ?thesis using acc by (simp add: capped_strategy_def)
  qed
qed (simp add: capped_strategy_def)

end
