(* ===== verification/PatternStrategies.thy ===== *)
theory PatternStrategies
  imports BarScan
begin

section \<open>Strategies that look for a bar pattern\<close>

text \<open>
  \<open>source/strategies/fvg/fvgStrategy.cppm\<close>, \<open>keltnerFade/keltnerFadeStrategy.cppm\<close> and
  \<open>squeezeBreakout/squeezeBreakoutStrategy.cppm\<close>: what their constructors accept and what
  \<open>decide\<close> answers, arithmetic at its width. A constructor's acceptance is what makes every
  read of \<open>decide\<close> fall inside the bars (the interpretations of \<open>total_strategy\<close>); the signal
  of the gap strategy is shown to be the stated rule.
\<close>

subsection \<open>FvgStrategy\<close>

record fvg_strategy =
  g_fvgCfg :: ohlc_variables
  g_htfCfg :: ohlc_variables
  g_lookbackBars :: int
  g_minGapPips :: int
  g_htfSmaPeriod :: int
  g_minGapAgeBars :: int
  g_maxTradeDuration :: int

definition new_fvg :: "strategy_config \<Rightarrow> fvg_strategy result" where
  "new_fvg config =
     (case sc_OHLC_VARIABLES config of
        fvgCfg # htfCfg # _ \<Rightarrow>
          if \<exists>cfg \<in> set [fvgCfg, htfCfg]. ov_OHLC_MINUTES cfg < 1 then Inl InvalidArgument
          else (case sv_FVG_STRATEGY_VARIABLES (sc_STRATEGY_VARIABLES config) of
            None \<Rightarrow> Inl InvalidArgument
          | Some v \<Rightarrow>
              if fv_LOOKBACK_BARS v < 1 \<or> fv_MIN_GAP_PIPS v < 1 \<or> fv_HTF_SMA_PERIOD v < 1
              then Inl InvalidArgument
              else if fv_MIN_GAP_AGE_BARS v < 0 then Inl InvalidArgument
              else if fv_MAX_TRADE_DURATION_MINUTES v < 0 then Inl InvalidArgument
              else if ov_OHLC_COUNT fvgCfg < i32 (fv_LOOKBACK_BARS v + 3) then Inl InvalidArgument
              else if ov_OHLC_COUNT htfCfg < i32 (fv_HTF_SMA_PERIOD v + 2) then Inl InvalidArgument
              else Inr \<lparr>g_fvgCfg = fvgCfg, g_htfCfg = htfCfg, g_lookbackBars = fv_LOOKBACK_BARS v,
                     g_minGapPips = fv_MIN_GAP_PIPS v, g_htfSmaPeriod = fv_HTF_SMA_PERIOD v,
                     g_minGapAgeBars = fv_MIN_GAP_AGE_BARS v,
                     g_maxTradeDuration = fv_MAX_TRADE_DURATION_MINUTES v\<rparr>)
      | _ \<Rightarrow> Inl InvalidArgument)"

text \<open>The scan over the patterns ending at \<open>i\<close>, newest first. \<open>total\<close> bars, the last in progress.\<close>

fun fvg_scan :: "ohlc_object list \<Rightarrow> price_data \<Rightarrow> bool \<Rightarrow> bool \<Rightarrow> int \<Rightarrow> int \<Rightarrow> int list \<Rightarrow> direction option result"
where
  "fvg_scan bars tick up down minGap lastClose [] = Inr None"
| "fvg_scan bars tick up down minGap lastClose (i # is) =
     bind (bar_at bars i) (\<lambda>c3.
     bind (bar_at bars (i - 2)) (\<lambda>c1.
     bind (if up \<and> b_high c1 < b_low c3 \<and> i32 (b_low c3 - b_high c1) \<ge> minGap
           then bind (any_bar (\<lambda>bar. b_low bar \<le> b_high c1) bars [i + 1..int (length bars) - 2])
             (\<lambda>mitigated. Inr (\<not> mitigated \<and> lastClose > b_low c3
                               \<and> p_ask tick \<le> b_low c3 \<and> p_ask tick \<ge> b_high c1))
           else Inr False) (\<lambda>bullish.
     if bullish then Inr (Some LONG) else
     bind (if down \<and> b_low c1 > b_high c3 \<and> i32 (b_low c1 - b_high c3) \<ge> minGap
           then bind (any_bar (\<lambda>bar. b_high bar \<ge> b_low c1) bars [i + 1..int (length bars) - 2])
             (\<lambda>mitigated. Inr (\<not> mitigated \<and> lastClose < b_high c3
                               \<and> p_bid tick \<ge> b_high c3 \<and> p_bid tick \<le> b_low c1))
           else Inr False) (\<lambda>bearish.
     if bearish then Inr (Some SHORT) else fvg_scan bars tick up down minGap lastClose is))))"

definition fvg_decide :: "fvg_strategy \<Rightarrow> price_data \<Rightarrow> bar_store \<Rightarrow> direction option result" where
  "fvg_decide self tick store =
     (case (store_find store (p_symbol tick) (ov_OHLC_MINUTES (g_fvgCfg self)),
            store_find store (p_symbol tick) (ov_OHLC_MINUTES (g_htfCfg self))) of
        (Some fvgSeries, Some htfSeries) \<Rightarrow>
          (case (span_last fvgSeries (ov_OHLC_COUNT (g_fvgCfg self)),
                 span_last htfSeries (ov_OHLC_COUNT (g_htfCfg self))) of
             (Some fvgBars, Some htfBars) \<Rightarrow>
               (let totalBars = int (length fvgBars);
                    htfStartIdx = int (length htfBars) - 2;
                    period = g_htfSmaPeriod self in
                bind (sum_closes htfBars (rev [htfStartIdx - period + 1..htfStartIdx]) 0) (\<lambda>htfCloseSum.
                bind (bar_at htfBars htfStartIdx) (\<lambda>lastHtf.
                let lastHtfCloseScaled = i64 (b_close lastHtf * period);
                    isHtfUptrend = lastHtfCloseScaled > htfCloseSum;
                    isHtfDowntrend = lastHtfCloseScaled < htfCloseSum;
                    minGapPoints = i32 (g_minGapPips self * get_scale (p_symbol tick)) in
                bind (bar_at fvgBars (totalBars - 2)) (\<lambda>lastClosed.
                let endSearchIdx = max 2 (totalBars - g_lookbackBars self);
                    maxAgeIdx = max endSearchIdx (totalBars - 2 - g_minGapAgeBars self) in
                fvg_scan fvgBars tick isHtfUptrend isHtfDowntrend minGapPoints (b_close lastClosed)
                  (rev [maxAgeIdx..totalBars - 2])))))
           | _ \<Rightarrow> Inr None)
      | _ \<Rightarrow> Inr None)"

definition fvg_impl :: "fvg_strategy strategy" where
  "fvg_impl = capped_strategy fvg_decide g_maxTradeDuration"

subsection \<open>KeltnerFadeStrategy\<close>

record keltner_fade =
  k_signalCfg :: ohlc_variables
  k_bandSmaPeriod :: int
  k_bandAtrMultTenths :: int
  k_maxTradeDuration :: int

definition new_keltner_fade :: "strategy_config \<Rightarrow> keltner_fade result" where
  "new_keltner_fade config =
     (case sc_OHLC_VARIABLES config of
        [] \<Rightarrow> Inl InvalidArgument
      | signalCfg # _ \<Rightarrow>
          if ov_OHLC_MINUTES signalCfg < 1 then Inl InvalidArgument
          else (case sv_KELTNER_FADE_VARIABLES (sc_STRATEGY_VARIABLES config) of
            None \<Rightarrow> Inl InvalidArgument
          | Some v \<Rightarrow>
              if kf_BAND_SMA_PERIOD v < 1 \<or> kf_BAND_ATR_MULT_TENTHS v < 1 then Inl InvalidArgument
              else if ov_OHLC_COUNT signalCfg < i32 (kf_BAND_SMA_PERIOD v + 2) then Inl InvalidArgument
              else Inr \<lparr>k_signalCfg = signalCfg, k_bandSmaPeriod = kf_BAND_SMA_PERIOD v,
                     k_bandAtrMultTenths = kf_BAND_ATR_MULT_TENTHS v,
                     k_maxTradeDuration = kf_MAX_TRADE_DURATION_MINUTES v\<rparr>))"

definition keltner_fade_decide :: "keltner_fade \<Rightarrow> price_data \<Rightarrow> bar_store \<Rightarrow> direction option result" where
  "keltner_fade_decide self tick store =
     (case store_find store (p_symbol tick) (ov_OHLC_MINUTES (k_signalCfg self)) of
        None \<Rightarrow> Inr None
      | Some signalSeries \<Rightarrow>
          (case span_last signalSeries (ov_OHLC_COUNT (k_signalCfg self)) of
             None \<Rightarrow> Inr None
           | Some signalBars \<Rightarrow>
               bind (closed_bars signalBars) (\<lambda>closedBars.
               let n = int (length closedBars); period = k_bandSmaPeriod self in
               bind (sum_closes closedBars [u64 (n - u64 period)..n - 1] 0) (\<lambda>closeSum.
               bind (atr_calculate closedBars period) (\<lambda>atrPoints.
               if atrPoints \<le> 0 then Inr None
               else let bandOffset = i64 (i64 (k_bandAtrMultTenths self * atrPoints) * period);
                        centreScaled = i64 (closeSum * 10) in
                 if i64 (i64 (p_ask tick * period) * 10) < i64 (centreScaled - bandOffset) then Inr (Some LONG)
                 else if i64 (i64 (p_bid tick * period) * 10) > i64 (centreScaled + bandOffset)
                 then Inr (Some SHORT)
                 else Inr None)))))"

definition keltner_fade_impl :: "keltner_fade strategy" where
  "keltner_fade_impl = capped_strategy keltner_fade_decide k_maxTradeDuration"

subsection \<open>SqueezeBreakoutStrategy\<close>

record squeeze_breakout =
  q_signalCfg :: ohlc_variables
  q_trendCfg :: ohlc_variables
  q_nrLookback :: int
  q_validBars :: int
  q_bufferPips :: int
  q_maxTradeDuration :: int

definition new_squeeze_breakout :: "strategy_config \<Rightarrow> squeeze_breakout result" where
  "new_squeeze_breakout config =
     (case sc_OHLC_VARIABLES config of
        signalCfg # trendCfg # _ \<Rightarrow>
          if \<exists>cfg \<in> set [signalCfg, trendCfg]. ov_OHLC_MINUTES cfg < 1 then Inl InvalidArgument
          else if ov_OHLC_COUNT trendCfg < 2 then Inl InvalidArgument
          else (case sv_SQUEEZE_BREAKOUT_VARIABLES (sc_STRATEGY_VARIABLES config) of
            None \<Rightarrow> Inl InvalidArgument
          | Some v \<Rightarrow>
              if sq_NR_LOOKBACK v < 0 \<or> sq_NR_LOOKBACK v = 1 then Inl InvalidArgument
              else if sq_VALID_BARS v < 1 then Inl InvalidArgument
              else if sq_BUFFER_PIPS v < 0 then Inl InvalidArgument
              else if sq_MAX_TRADE_DURATION_MINUTES v < 0 then Inl InvalidArgument
              else let patternLookback = max 1 (sq_NR_LOOKBACK v - 1) in
                if ov_OHLC_COUNT signalCfg < i32 (i32 (sq_VALID_BARS v + patternLookback) + 1)
                then Inl InvalidArgument
                else Inr \<lparr>q_signalCfg = signalCfg, q_trendCfg = trendCfg, q_nrLookback = sq_NR_LOOKBACK v,
                       q_validBars = sq_VALID_BARS v, q_bufferPips = sq_BUFFER_PIPS v,
                       q_maxTradeDuration = sq_MAX_TRADE_DURATION_MINUTES v\<rparr>)
      | _ \<Rightarrow> Inl InvalidArgument)"

definition isPatternAt :: "squeeze_breakout \<Rightarrow> ohlc_object list \<Rightarrow> int \<Rightarrow> bool result" where
  "isPatternAt self closedBars index =
     (if q_nrLookback self = 0
      then bind (bar_at closedBars index) (\<lambda>bar.
           bind (bar_at closedBars (index - 1)) (\<lambda>mother.
           Inr (b_high bar \<le> b_high mother \<and> b_low bar \<ge> b_low mother)))
      else bind (bar_at closedBars index) (\<lambda>bar.
           let width = i32 (b_high bar - b_low bar) in
           bind (any_bar (\<lambda>other. width \<ge> i32 (b_high other - b_low other)) closedBars
                   (map (\<lambda>back. index - back) [1..q_nrLookback self - 1])) (\<lambda>wide.
           Inr (\<not> wide))))"

fun squeeze_scan ::
  "squeeze_breakout \<Rightarrow> ohlc_object list \<Rightarrow> price_data \<Rightarrow> bool \<Rightarrow> bool \<Rightarrow> int \<Rightarrow> int list \<Rightarrow> direction option result"
where
  "squeeze_scan self closedBars tick uptrend downtrend bufferPoints [] = Inr None"
| "squeeze_scan self closedBars tick uptrend downtrend bufferPoints (back # rest) =
     (let index = int (length closedBars) - 1 - back in
      bind (isPatternAt self closedBars index) (\<lambda>found.
      if \<not> found then squeeze_scan self closedBars tick uptrend downtrend bufferPoints rest
      else bind (bar_at closedBars index) (\<lambda>pattern.
        if uptrend \<and> p_bid tick > i32 (b_high pattern + bufferPoints) then Inr (Some LONG)
        else if downtrend \<and> p_ask tick < i32 (b_low pattern - bufferPoints) then Inr (Some SHORT)
        else squeeze_scan self closedBars tick uptrend downtrend bufferPoints rest)))"

definition squeeze_breakout_decide :: "squeeze_breakout \<Rightarrow> price_data \<Rightarrow> bar_store \<Rightarrow> direction option result" where
  "squeeze_breakout_decide self tick store =
     (case (store_find store (p_symbol tick) (ov_OHLC_MINUTES (q_signalCfg self)),
            store_find store (p_symbol tick) (ov_OHLC_MINUTES (q_trendCfg self))) of
        (Some signalSeries, Some trendSeries) \<Rightarrow>
          (case (span_last signalSeries (ov_OHLC_COUNT (q_signalCfg self)),
                 span_last trendSeries (ov_OHLC_COUNT (q_trendCfg self))) of
             (Some signalBars, Some trendBars) \<Rightarrow>
               (let closes = map b_close trendBars; emaPeriod = int (length closes div 2) in
                bind (ema_calculate closes emaPeriod) (\<lambda>emas.
                let currentClose = last closes; currentEma = last emas;
                    uptrend = currentClose > currentEma; downtrend = currentClose < currentEma in
                if \<not> uptrend \<and> \<not> downtrend then Inr None
                else bind (closed_bars signalBars) (\<lambda>closedBars.
                  squeeze_scan self closedBars tick uptrend downtrend
                    (i32 (q_bufferPips self * get_scale (p_symbol tick))) [0..q_validBars self - 1])))
           | _ \<Rightarrow> Inr None)
      | _ \<Rightarrow> Inr None)"

definition squeeze_breakout_impl :: "squeeze_breakout strategy" where
  "squeeze_breakout_impl = capped_strategy squeeze_breakout_decide q_maxTradeDuration"

subsection \<open>Accepted configurations stay inside the bars\<close>

definition fvg_ok :: "fvg_strategy \<Rightarrow> bool" where
  "fvg_ok self \<longleftrightarrow> 1 \<le> g_lookbackBars self \<and> 1 \<le> g_htfSmaPeriod self \<and> 0 \<le> g_minGapAgeBars self
     \<and> g_lookbackBars self + 3 \<le> ov_OHLC_COUNT (g_fvgCfg self) \<and> ov_OHLC_COUNT (g_fvgCfg self) < 2 ^ 31
     \<and> g_htfSmaPeriod self + 2 \<le> ov_OHLC_COUNT (g_htfCfg self) \<and> ov_OHLC_COUNT (g_htfCfg self) < 2 ^ 31"

definition keltner_fade_ok :: "keltner_fade \<Rightarrow> bool" where
  "keltner_fade_ok self \<longleftrightarrow> 1 \<le> k_bandSmaPeriod self
     \<and> k_bandSmaPeriod self + 2 \<le> ov_OHLC_COUNT (k_signalCfg self) \<and> ov_OHLC_COUNT (k_signalCfg self) < 2 ^ 31"

definition squeeze_breakout_ok :: "squeeze_breakout \<Rightarrow> bool" where
  "squeeze_breakout_ok self \<longleftrightarrow> 1 \<le> q_validBars self \<and> (q_nrLookback self = 0 \<or> 2 \<le> q_nrLookback self)
     \<and> 2 \<le> ov_OHLC_COUNT (q_trendCfg self) \<and> ov_OHLC_COUNT (q_trendCfg self) < 2 ^ 31
     \<and> q_validBars self + max 1 (q_nrLookback self - 1) + 1 \<le> ov_OHLC_COUNT (q_signalCfg self)
     \<and> ov_OHLC_COUNT (q_signalCfg self) < 2 ^ 31"

text \<open>The gap of the pattern ending at \<open>i\<close> is live and the price has come back into it.\<close>

definition bullish_entry :: "ohlc_object list \<Rightarrow> price_data \<Rightarrow> int \<Rightarrow> int \<Rightarrow> int \<Rightarrow> bool" where
  "bullish_entry bars tick minGap lastClose i \<longleftrightarrow>
     (let c3 = bars ! nat i; c1 = bars ! nat (i - 2) in
      b_high c1 < b_low c3 \<and> i32 (b_low c3 - b_high c1) \<ge> minGap
      \<and> (\<forall>j \<in> {i + 1..int (length bars) - 2}. b_high c1 < b_low (bars ! nat j))
      \<and> lastClose > b_low c3 \<and> b_high c1 \<le> p_ask tick \<and> p_ask tick \<le> b_low c3)"

definition bearish_entry :: "ohlc_object list \<Rightarrow> price_data \<Rightarrow> int \<Rightarrow> int \<Rightarrow> int \<Rightarrow> bool" where
  "bearish_entry bars tick minGap lastClose i \<longleftrightarrow>
     (let c3 = bars ! nat i; c1 = bars ! nat (i - 2) in
      b_low c1 > b_high c3 \<and> i32 (b_low c1 - b_high c3) \<ge> minGap
      \<and> (\<forall>j \<in> {i + 1..int (length bars) - 2}. b_high (bars ! nat j) < b_low c1)
      \<and> lastClose < b_high c3 \<and> b_high c3 \<le> p_bid tick \<and> p_bid tick \<le> b_low c1)"

lemma fvg_scan_step:
  assumes "2 \<le> i" "i \<le> int (length bars) - 2"
  shows "fvg_scan bars tick up down minGap lastClose (i # is) =
     (if up \<and> bullish_entry bars tick minGap lastClose i then Inr (Some LONG)
      else if down \<and> bearish_entry bars tick minGap lastClose i then Inr (Some SHORT)
      else fvg_scan bars tick up down minGap lastClose is)"
proof -
  let ?c3 = "bars ! nat i" and ?c1 = "bars ! nat (i - 2)" and ?later = "[i + 1..int (length bars) - 2]"
  have reads: "bar_at bars i = Inr ?c3" "bar_at bars (i - 2) = Inr ?c1"
    using assms by (simp_all add: inside_def)
  have mitigated: "any_bar P bars ?later = Inr (\<exists>j \<in> {i + 1..int (length bars) - 2}. P (bars ! nat j))" for P
    using assms by (subst any_bar_inside) (auto simp: inside_def)
  have bull: "(if up \<and> b_high ?c1 < b_low ?c3 \<and> i32 (b_low ?c3 - b_high ?c1) \<ge> minGap
      then bind (any_bar (\<lambda>bar. b_low bar \<le> b_high ?c1) bars ?later)
        (\<lambda>m. Inr (\<not> m \<and> lastClose > b_low ?c3 \<and> p_ask tick \<le> b_low ?c3 \<and> p_ask tick \<ge> b_high ?c1))
      else Inr False :: bool result) = Inr (up \<and> bullish_entry bars tick minGap lastClose i)"
    by (auto simp: mitigated bullish_entry_def Let_def not_le)
  have bear: "(if down \<and> b_low ?c1 > b_high ?c3 \<and> i32 (b_low ?c1 - b_high ?c3) \<ge> minGap
      then bind (any_bar (\<lambda>bar. b_high bar \<ge> b_low ?c1) bars ?later)
        (\<lambda>m. Inr (\<not> m \<and> lastClose < b_high ?c3 \<and> p_bid tick \<ge> b_high ?c3 \<and> p_bid tick \<le> b_low ?c1))
      else Inr False :: bool result) = Inr (down \<and> bearish_entry bars tick minGap lastClose i)"
    by (auto simp: mitigated bearish_entry_def Let_def not_le)
  show ?thesis unfolding fvg_scan.simps reads bind_simps bull bear by simp
qed

lemma fvg_scan_signal:
  assumes "\<forall>i \<in> set is. 2 \<le> i \<and> i \<le> int (length bars) - 2" "\<not> (up \<and> down)"
  shows "fvg_scan bars tick up down minGap lastClose is =
     Inr (if up \<and> (\<exists>i \<in> set is. bullish_entry bars tick minGap lastClose i) then Some LONG
          else if down \<and> (\<exists>i \<in> set is. bearish_entry bars tick minGap lastClose i) then Some SHORT
          else None)"
  using assms(1)
proof (induction "is")
  case (Cons i "is")
  have "fvg_scan bars tick up down minGap lastClose (i # is) =
     (if up \<and> bullish_entry bars tick minGap lastClose i then Inr (Some LONG)
      else if down \<and> bearish_entry bars tick minGap lastClose i then Inr (Some SHORT)
      else fvg_scan bars tick up down minGap lastClose is)"
    using Cons.prems by (intro fvg_scan_step) auto
  with Cons assms(2) show ?case by auto
qed simp

lemma fvg_scan_total:
  assumes "\<forall>i \<in> set is. 2 \<le> i \<and> i \<le> int (length bars) - 2"
  shows "\<exists>signal. fvg_scan bars tick up down minGap lastClose is = Inr signal"
  using assms
proof (induction "is")
  case (Cons i "is")
  then show ?case using fvg_scan_step [of i bars tick up down minGap lastClose "is"] by auto
qed simp

lemma fvg_decide_total:
  assumes "fvg_ok self"
  shows "\<exists>signal. fvg_decide self tick store = Inr signal"
proof -
  have ok: "\<exists>signal. fvg_scan fb tick up down gap lc (rev [max (max 2 (int (length fb) - g_lookbackBars self))
            (int (length fb) - 2 - g_minGapAgeBars self)..int (length fb) - 2]) = Inr signal" for fb up down gap lc
    by (rule fvg_scan_total) auto
  show ?thesis
  proof (cases "\<exists>fs hs fb hb. store_find store (p_symbol tick) (ov_OHLC_MINUTES (g_fvgCfg self)) = Some fs
      \<and> store_find store (p_symbol tick) (ov_OHLC_MINUTES (g_htfCfg self)) = Some hs
      \<and> span_last fs (ov_OHLC_COUNT (g_fvgCfg self)) = Some fb \<and> span_last hs (ov_OHLC_COUNT (g_htfCfg self)) = Some hb")
    case False
    then show ?thesis by (auto simp: fvg_decide_def split: option.split)
  next
    case True
    then obtain fs hs fb hb where fs: "store_find store (p_symbol tick) (ov_OHLC_MINUTES (g_fvgCfg self)) = Some fs"
      and hs: "store_find store (p_symbol tick) (ov_OHLC_MINUTES (g_htfCfg self)) = Some hs"
      and fb: "span_last fs (ov_OHLC_COUNT (g_fvgCfg self)) = Some fb"
      and hb: "span_last hs (ov_OHLC_COUNT (g_htfCfg self)) = Some hb" by blast
    have lf: "int (length fb) = ov_OHLC_COUNT (g_fvgCfg self)" and lh: "int (length hb) = ov_OHLC_COUNT (g_htfCfg self)"
      using assms fb hb by (auto simp: fvg_ok_def intro!: span_last_length)
    have inner: "inside hb (int (length hb) - 2)" "inside fb (int (length fb) - 2)"
      using assms lf lh by (auto simp: inside_def fvg_ok_def)
    have idx: "\<forall>i \<in> set (rev [int (length hb) - 2 - g_htfSmaPeriod self + 1..int (length hb) - 2]). inside hb i"
      using assms lh by (auto simp: inside_def fvg_ok_def)
    obtain n where "sum_closes hb (rev [int (length hb) - 2 - g_htfSmaPeriod self + 1..int (length hb) - 2]) 0 = Inr n"
      using sum_closes_inside [OF idx] by blast
    then show ?thesis using fs hs fb hb inner ok by (simp add: fvg_decide_def Let_def)
  qed
qed

interpretation fvg: total_strategy fvg_impl fvg_ok
  unfolding fvg_impl_def by (intro capped_total fvg_decide_total)

lemma keltner_fade_decide_total:
  assumes "keltner_fade_ok self"
  shows "\<exists>signal. keltner_fade_decide self tick store = Inr signal"
proof (cases "\<exists>series bars. store_find store (p_symbol tick) (ov_OHLC_MINUTES (k_signalCfg self)) = Some series
      \<and> span_last series (ov_OHLC_COUNT (k_signalCfg self)) = Some bars")
  case False
  then show ?thesis by (auto simp: keltner_fade_decide_def split: option.split)
next
  case True
  then obtain series bars where series: "store_find store (p_symbol tick) (ov_OHLC_MINUTES (k_signalCfg self)) = Some series"
    and bars: "span_last series (ov_OHLC_COUNT (k_signalCfg self)) = Some bars" by blast
  let ?n = "int (length (butlast bars))" and ?p = "k_bandSmaPeriod self"
  have len: "int (length bars) = ov_OHLC_COUNT (k_signalCfg self)"
    using assms bars by (auto simp: keltner_fade_ok_def intro!: span_last_length)
  then have n: "?p + 1 \<le> ?n" "?n < 2 ^ 31" "1 \<le> ?p" "bars \<noteq> []" using assms by (auto simp: keltner_fade_ok_def)
  then have "u64 (?n - u64 ?p) = ?n - ?p" by (simp add: u64_def)
  then have idx: "\<forall>i \<in> set [u64 (?n - u64 ?p)..?n - 1]. inside (butlast bars) i"
    using n by (auto simp: inside_def)
  obtain closeSum where "sum_closes (butlast bars) [u64 (?n - u64 ?p)..?n - 1] 0 = Inr closeSum"
    using sum_closes_inside [OF idx] by blast
  moreover obtain a where "atr_calculate (butlast bars) ?p = Inr a"
    using atr_calculate_total [OF n(3)] by blast
  ultimately show ?thesis
    using series bars n(4) by (simp add: keltner_fade_decide_def closed_bars_total Let_def)
qed

interpretation keltner: total_strategy keltner_fade_impl keltner_fade_ok
  unfolding keltner_fade_impl_def by (intro capped_total keltner_fade_decide_total)

lemma isPatternAt_total:
  assumes "squeeze_breakout_ok self" "max 1 (q_nrLookback self - 1) \<le> index" "index < int (length bars)"
  shows "\<exists>found. isPatternAt self bars index = Inr found"
proof -
  have "inside bars index" "inside bars (index - 1)" using assms(2,3) by (auto simp: inside_def)
  moreover have "\<forall>j \<in> set (map (\<lambda>back. index - back) [1..q_nrLookback self - 1]). inside bars j"
    using assms(2,3) by (auto simp: inside_def)
  ultimately show ?thesis by (simp add: isPatternAt_def any_bar_inside Let_def)
qed

lemma squeeze_scan_total:
  assumes "squeeze_breakout_ok self"
    "\<forall>back \<in> set backs. 0 \<le> back \<and> max 1 (q_nrLookback self - 1) \<le> int (length bars) - 1 - back"
  shows "\<exists>signal. squeeze_scan self bars tick up down buffer backs = Inr signal"
  using assms(2)
proof (induction backs)
  case (Cons k ks)
  let ?i = "int (length bars) - 1 - k"
  have i: "max 1 (q_nrLookback self - 1) \<le> ?i" "?i < int (length bars)" using Cons.prems by auto
  obtain found where "isPatternAt self bars ?i = Inr found" using isPatternAt_total [OF assms(1) i] by blast
  moreover have "inside bars ?i" using i by (auto simp: inside_def)
  ultimately show ?case using Cons by (simp add: Let_def)
qed simp

lemma squeeze_breakout_decide_total:
  assumes "squeeze_breakout_ok self"
  shows "\<exists>signal. squeeze_breakout_decide self tick store = Inr signal"
proof (cases "\<exists>fs hs fb hb. store_find store (p_symbol tick) (ov_OHLC_MINUTES (q_signalCfg self)) = Some fs
      \<and> store_find store (p_symbol tick) (ov_OHLC_MINUTES (q_trendCfg self)) = Some hs
      \<and> span_last fs (ov_OHLC_COUNT (q_signalCfg self)) = Some fb \<and> span_last hs (ov_OHLC_COUNT (q_trendCfg self)) = Some hb")
  case False
  then show ?thesis by (auto simp: squeeze_breakout_decide_def split: option.split)
next
  case True
  then obtain fs hs fb hb where fs: "store_find store (p_symbol tick) (ov_OHLC_MINUTES (q_signalCfg self)) = Some fs"
    and hs: "store_find store (p_symbol tick) (ov_OHLC_MINUTES (q_trendCfg self)) = Some hs"
    and fb: "span_last fs (ov_OHLC_COUNT (q_signalCfg self)) = Some fb"
    and hb: "span_last hs (ov_OHLC_COUNT (q_trendCfg self)) = Some hb" by blast
  have lf: "int (length fb) = ov_OHLC_COUNT (q_signalCfg self)" and lh: "int (length hb) = ov_OHLC_COUNT (q_trendCfg self)"
    using assms fb hb by (auto simp: squeeze_breakout_ok_def intro!: span_last_length)
  have "1 \<le> int (length (map b_close hb) div 2)" using assms lh by (auto simp: squeeze_breakout_ok_def)
  then obtain emas where emas: "ema_calculate (map b_close hb) (int (length (map b_close hb) div 2)) = Inr emas"
    using ema_calculate_total by blast
  have ne: "fb \<noteq> []" using assms lf by (auto simp: squeeze_breakout_ok_def)
  have "\<forall>back \<in> set [0..q_validBars self - 1].
      0 \<le> back \<and> max 1 (q_nrLookback self - 1) \<le> int (length (butlast fb)) - 1 - back"
    using assms lf ne by (auto simp: squeeze_breakout_ok_def)
  then have "\<exists>signal. squeeze_scan self (butlast fb) tick up down buffer [0..q_validBars self - 1] = Inr signal" for up down buffer
    using squeeze_scan_total [OF assms] by blast
  then show ?thesis
    using fs hs fb hb emas ne by (simp add: squeeze_breakout_decide_def closed_bars_total Let_def)
qed

interpretation squeeze: total_strategy squeeze_breakout_impl squeeze_breakout_ok
  unfolding squeeze_breakout_impl_def by (intro capped_total squeeze_breakout_decide_total)

subsection \<open>What the constructors establish\<close>

lemma new_fvg_ok:
  assumes "new_fvg config = Inr self" "\<forall>cfg \<in> set (sc_OHLC_VARIABLES config). in_i32 (ov_OHLC_COUNT cfg)"
    and "\<And>v. sv_FVG_STRATEGY_VARIABLES (sc_STRATEGY_VARIABLES config) = Some v \<Longrightarrow>
           in_i32 (fv_LOOKBACK_BARS v + 3) \<and> in_i32 (fv_HTF_SMA_PERIOD v + 2)"
  shows "fvg_ok self"
  using assms by (auto simp: new_fvg_def fvg_ok_def in_i32_less split: list.splits option.splits if_splits)

lemma new_keltner_fade_ok:
  assumes "new_keltner_fade config = Inr self"
    "\<forall>cfg \<in> set (sc_OHLC_VARIABLES config). in_i32 (ov_OHLC_COUNT cfg)"
    and "\<And>v. sv_KELTNER_FADE_VARIABLES (sc_STRATEGY_VARIABLES config) = Some v \<Longrightarrow>
           in_i32 (kf_BAND_SMA_PERIOD v + 2)"
  shows "keltner_fade_ok self"
  using assms by (auto simp: new_keltner_fade_def keltner_fade_ok_def in_i32_less
      split: list.splits option.splits if_splits)

lemma new_squeeze_breakout_ok:
  assumes new: "new_squeeze_breakout config = Inr self"
    and counts: "\<forall>cfg \<in> set (sc_OHLC_VARIABLES config). in_i32 (ov_OHLC_COUNT cfg)"
    and vars: "\<And>v. sv_SQUEEZE_BREAKOUT_VARIABLES (sc_STRATEGY_VARIABLES config) = Some v \<Longrightarrow>
           in_i32 (sq_VALID_BARS v + max 1 (sq_NR_LOOKBACK v - 1) + 1)"
  shows "squeeze_breakout_ok self"
proof -
  from new obtain s t r v where cfg: "sc_OHLC_VARIABLES config = s # t # r"
    and v: "sv_SQUEEZE_BREAKOUT_VARIABLES (sc_STRATEGY_VARIABLES config) = Some v"
    by (auto simp: new_squeeze_breakout_def split: list.splits option.splits if_splits)
  have v1: "1 \<le> sq_VALID_BARS v" using new cfg v by (auto simp: new_squeeze_breakout_def split: if_splits)
  have fits: "in_i32 (sq_VALID_BARS v + max 1 (sq_NR_LOOKBACK v - 1) + 1)" using vars [OF v] .
  then have "in_i32 (sq_VALID_BARS v + max 1 (sq_NR_LOOKBACK v - 1))" using v1 by (simp add: in_i32_def)
  with fits have "i32 (i32 (sq_VALID_BARS v + max 1 (sq_NR_LOOKBACK v - 1)) + 1)
      = sq_VALID_BARS v + max 1 (sq_NR_LOOKBACK v - 1) + 1" by simp
  then show ?thesis
    using new cfg v counts
    by (auto simp: new_squeeze_breakout_def squeeze_breakout_ok_def in_i32_less Let_def split: if_splits)
qed

subsection \<open>The rule of the gap strategy\<close>

lemma sum_list_rev_upto: "(\<Sum>i \<leftarrow> rev [a..b]. f i) = (\<Sum>i \<in> {a..b}. f i)" for f :: "int \<Rightarrow> int"
  by (simp add: rev_map [symmetric] sum_list_rev sum.distinct_set_conv_list [of "[a..b]", symmetric])

text \<open>C17: the signal of the gap strategy is its stated rule. Once both windows are full, and
  with the trend read exactly (the last closed close against the mean of the last
  \<open>HTF_SMA_PERIOD\<close> closed closes, compared without dividing), it buys when the trend is up and
  some gap among the newest closed patterns of the lookback is large enough, was never traded
  through, and holds the ask; it sells on the mirror image; and otherwise it does nothing.\<close>

theorem fvg_signal_rule:
  assumes "fvg_ok self"
    and "store_find store (p_symbol tick) (ov_OHLC_MINUTES (g_fvgCfg self)) = Some fvgSeries"
    and "store_find store (p_symbol tick) (ov_OHLC_MINUTES (g_htfCfg self)) = Some htfSeries"
    and "span_last fvgSeries (ov_OHLC_COUNT (g_fvgCfg self)) = Some bars"
    and "span_last htfSeries (ov_OHLC_COUNT (g_htfCfg self)) = Some htf"
    and "\<forall>bar \<in> set htf. in_i32 (b_close bar)"
  shows "fvg_decide self tick store =
    Inr (let n = int (length bars); h = int (length htf); period = g_htfSmaPeriod self;
             gap = i32 (g_minGapPips self * get_scale (p_symbol tick));
             lastClose = b_close (bars ! nat (n - 2));
             window = {max (max 2 (n - g_lookbackBars self)) (n - 2 - g_minGapAgeBars self)..n - 2};
             closes = (\<Sum>i \<in> {h - 1 - period..h - 2}. b_close (htf ! nat i));
             scaled = b_close (htf ! nat (h - 2)) * period in
         if scaled > closes \<and> (\<exists>i \<in> window. bullish_entry bars tick gap lastClose i) then Some LONG
         else if scaled < closes \<and> (\<exists>i \<in> window. bearish_entry bars tick gap lastClose i) then Some SHORT
         else None)"
proof -
  let ?n = "int (length bars)" and ?h = "int (length htf)" and ?p = "g_htfSmaPeriod self"
  have ln: "?n = ov_OHLC_COUNT (g_fvgCfg self)" and lh: "?h = ov_OHLC_COUNT (g_htfCfg self)"
    using assms(1,4,5) by (auto simp: fvg_ok_def intro!: span_last_length)
  have n: "4 \<le> ?n" and h: "?p + 2 \<le> ?h" "?h < 2 ^ 31" and p: "1 \<le> ?p" "in_i32 ?p"
    using assms(1) ln lh by (auto simp: fvg_ok_def in_i32_def)
  have inner: "inside htf (?h - 2)" "inside bars (?n - 2)" using n h p by (auto simp: inside_def)
  have idx: "\<forall>i \<in> set (rev [?h - 2 - ?p + 1..?h - 2]). inside htf i" using h p by (auto simp: inside_def)
  have "\<bar>0::int\<bar> + 2 ^ 31 * int (length (rev [?h - 2 - ?p + 1..?h - 2])) < 2 ^ 63" using p by (simp add: in_i32_def)
  from sum_closes_exact [OF idx assms(6) this]
  have closes: "sum_closes htf (rev [?h - 2 - ?p + 1..?h - 2]) 0 = Inr (\<Sum>i \<in> {?h - 1 - ?p..?h - 2}. b_close (htf ! nat i))"
    unfolding sum_list_rev_upto by (simp add: algebra_simps)
  have "htf ! nat (?h - 2) \<in> set htf" using inner(1) by (auto simp: inside_def)
  then have scaled: "i64 (b_close (htf ! nat (?h - 2)) * ?p) = b_close (htf ! nat (?h - 2)) * ?p"
    using assms(6) p(2) by (simp add: in_i64_mult)
  have win: "\<forall>i \<in> set (rev [max (max 2 (?n - g_lookbackBars self)) (?n - 2 - g_minGapAgeBars self)..?n - 2]).
      2 \<le> i \<and> i \<le> ?n - 2" by auto
  have scan: "fvg_scan bars tick (a > b) (a < b) gap lc
      (rev [max (max 2 (?n - g_lookbackBars self)) (?n - 2 - g_minGapAgeBars self)..?n - 2]) =
      Inr (if a > b \<and> (\<exists>i \<in> {max (max 2 (?n - g_lookbackBars self)) (?n - 2 - g_minGapAgeBars self)..?n - 2}.
                 bullish_entry bars tick gap lc i) then Some LONG
           else if a < b \<and> (\<exists>i \<in> {max (max 2 (?n - g_lookbackBars self)) (?n - 2 - g_minGapAgeBars self)..?n - 2}.
                 bearish_entry bars tick gap lc i) then Some SHORT else None)" for a b gap lc :: int
    by (subst fvg_scan_signal [OF win]) simp_all
  show ?thesis
    unfolding fvg_decide_def Let_def assms(2-5) option.case prod.case closes bind_simps
      bar_at_inside [OF inner(1)] bar_at_inside [OF inner(2)] scaled by (rule scan)
qed

text \<open>A gap between 100 and 120, the ask back inside it, and a rising trend.\<close>

abbreviation demo_bar :: "int \<Rightarrow> int \<Rightarrow> int \<Rightarrow> int \<Rightarrow> ohlc_object" where
  "demo_bar t h l c \<equiv> \<lparr>b_date = t, b_open = c, b_close = c, b_high = h, b_low = l, b_complete = False\<rparr>"

abbreviation demo_series :: "int \<Rightarrow> ohlc_object list \<Rightarrow> int \<Rightarrow> ohlc_object list \<Rightarrow> bar_store" where
  "demo_series m bars m' bars' \<equiv>
     \<lparr>bs_specs = [\<lparr>s_minutes = m, s_count = int (length bars)\<rparr>, \<lparr>s_minutes = m', s_count = int (length bars')\<rparr>],
      bs_bySymbol = [''EURUSD'' \<mapsto> [bars, bars']], bs_rangeSpecs = [], bs_rangeBySymbol = Map.empty\<rparr>"

definition gap_store :: bar_store where
  "gap_store = demo_series 5
     [demo_bar 0 100 90 95, demo_bar 1 100 90 95, demo_bar 2 125 98 124, demo_bar 3 135 120 130, demo_bar 4 130 115 118]
     60 [demo_bar 0 100 90 95, demo_bar 1 105 95 100, demo_bar 2 112 99 110, demo_bar 3 120 105 118]"

definition gap_strategy :: fvg_strategy where
  "gap_strategy = \<lparr>g_fvgCfg = \<lparr>ov_OHLC_COUNT = 5, ov_OHLC_MINUTES = 5\<rparr>,
     g_htfCfg = \<lparr>ov_OHLC_COUNT = 4, ov_OHLC_MINUTES = 60\<rparr>, g_lookbackBars = 2, g_minGapPips = 1,
     g_htfSmaPeriod = 2, g_minGapAgeBars = 0, g_maxTradeDuration = 0\<rparr>"

theorem fvg_signal_rule_witness:
  "fvg_decide gap_strategy \<lparr>p_ask = 118, p_bid = 117, p_timestamp = 5, p_symbol = ''EURUSD''\<rparr> gap_store = Inr (Some LONG)"
proof -
  let ?tick = "\<lparr>p_ask = 118, p_bid = 117, p_timestamp = 5, p_symbol = ''EURUSD''\<rparr>"
  let ?bars = "[demo_bar 0 100 90 95, demo_bar 1 100 90 95, demo_bar 2 125 98 124, demo_bar 3 135 120 130, demo_bar 4 130 115 118]"
  let ?htf = "[demo_bar 0 100 90 95, demo_bar 1 105 95 100, demo_bar 2 112 99 110, demo_bar 3 120 105 118]"
  have scale: "get_scale ''EURUSD'' = 10" by code_simp
  have two: "{1..2::int} = {1, 2}" by auto
  have "fvg_ok gap_strategy" by (simp add: fvg_ok_def gap_strategy_def)
  moreover have "store_find gap_store (p_symbol ?tick) (ov_OHLC_MINUTES (g_fvgCfg gap_strategy)) = Some ?bars"
    "store_find gap_store (p_symbol ?tick) (ov_OHLC_MINUTES (g_htfCfg gap_strategy)) = Some ?htf"
    by (simp_all add: store_find_def gap_store_def gap_strategy_def Let_def)
  moreover have "span_last ?bars (ov_OHLC_COUNT (g_fvgCfg gap_strategy)) = Some ?bars"
    "span_last ?htf (ov_OHLC_COUNT (g_htfCfg gap_strategy)) = Some ?htf"
    by (simp_all add: span_last_def u64_def lastn_def gap_strategy_def)
  moreover have "\<forall>bar \<in> set ?htf. in_i32 (b_close bar)" by (simp add: in_i32_def)
  ultimately have rule: "fvg_decide gap_strategy ?tick gap_store = Inr (Some LONG) \<longleftrightarrow>
      (\<exists>i \<in> {3..3}. bullish_entry ?bars ?tick 10 130 i)"
    by (subst fvg_signal_rule [where bars = ?bars and htf = ?htf])
      (simp_all add: gap_strategy_def scale two Let_def in_i32_def)
  show ?thesis unfolding rule by (simp add: bullish_entry_def Let_def in_i32_def)
qed

end
