(* ===== verification/SessionStrategies.thy ===== *)
theory SessionStrategies
  imports BarScan MarketHours
begin

section \<open>Strategies that trade the break of a session's range\<close>

text \<open>
  \<open>source/strategies/sessionRangeBreakout/sessionRangeBreakoutStrategy.cppm\<close> (the Asian range
  traded after the London open) and \<open>nyOpenRangeBreakout/nyOpenRangeBreakoutStrategy.cppm\<close> (the
  hours before the New York open). Both have the same loop over the closed bars, selected by
  date: \<open>session_range\<close>. The lemmas replace the loop by quantifiers over the bars.
\<close>

definition session_range :: "ohlc_object list \<Rightarrow> time \<Rightarrow> time \<Rightarrow> int \<times> int \<times> bool" where
  "session_range series start until =
     foldl (\<lambda>(high, low, seen) bar.
              if b_date bar < start \<or> b_date bar \<ge> until then (high, low, seen)
              else (max high (b_high bar), min low (b_low bar), True))
       (-2147483648, 2147483647, False) (take (length series - 1) series)"

subsection \<open>SessionRangeBreakoutStrategy\<close>

record session_range_breakout =
  a_signalCfg :: ohlc_variables
  a_bufferPips :: int
  a_entryWindow :: int
  a_maxTradeDuration :: int

definition kLatestLondonOpen :: int where "kLatestLondonOpen = 8 * 60"
definition kAsiaSessionEnd :: time where "kAsiaSessionEnd = hours_us 6"

definition new_session_range_breakout :: "strategy_config \<Rightarrow> session_range_breakout result" where
  "new_session_range_breakout config =
     (case sc_OHLC_VARIABLES config of
        [] \<Rightarrow> Inl InvalidArgument
      | signalCfg # _ \<Rightarrow>
          if ov_OHLC_MINUTES signalCfg < 1 then Inl InvalidArgument
          else (case sv_SESSION_RANGE_BREAKOUT_VARIABLES (sc_STRATEGY_VARIABLES config) of
            None \<Rightarrow> Inl InvalidArgument
          | Some v \<Rightarrow>
              if sr_BUFFER_PIPS v < 0 then Inl InvalidArgument
              else if sr_ENTRY_WINDOW_MINUTES v < 1 then Inl InvalidArgument
              else let spanMinutes = i64 (ov_OHLC_COUNT signalCfg * ov_OHLC_MINUTES signalCfg);
                       requiredMinutes = i64 (kLatestLondonOpen + sr_ENTRY_WINDOW_MINUTES v
                                              + 2 * ov_OHLC_MINUTES signalCfg) in
                if spanMinutes < requiredMinutes then Inl InvalidArgument
                else Inr \<lparr>a_signalCfg = signalCfg, a_bufferPips = sr_BUFFER_PIPS v,
                       a_entryWindow = sr_ENTRY_WINDOW_MINUTES v,
                       a_maxTradeDuration = sr_MAX_TRADE_DURATION_MINUTES v\<rparr>))"

definition session_range_breakout_decide ::
  "session_range_breakout \<Rightarrow> price_data \<Rightarrow> bar_store \<Rightarrow> direction option result" where
  "session_range_breakout_decide self tick store =
     (let day = floor_days (p_timestamp tick);
          sinceMidnight = since_midnight (p_timestamp tick);
          londonOpen = (if isLondonSummer day then hours_us 7 else hours_us 8) in
      if sinceMidnight < londonOpen \<or> sinceMidnight \<ge> londonOpen + minutes_us (a_entryWindow self) then Inr None
      else (case store_find store (p_symbol tick) (ov_OHLC_MINUTES (a_signalCfg self)) of
        None \<Rightarrow> Inr None
      | Some signalSeries \<Rightarrow>
          if length signalSeries < 2 then Inr None
          else let midnight = day * micros_per_day in
            if b_date (hd signalSeries) > midnight then Inr None
            else (case session_range signalSeries midnight (midnight + kAsiaSessionEnd) of
              (asianHigh, asianLow, sessionSeen) \<Rightarrow>
                if \<not> sessionSeen then Inr None
                else let bufferPoints = i32 (a_bufferPips self * get_scale (p_symbol tick)) in
                  if p_bid tick > i32 (asianHigh + bufferPoints) then Inr (Some LONG)
                  else if p_ask tick < i32 (asianLow - bufferPoints) then Inr (Some SHORT)
                  else Inr None)))"

definition session_range_breakout_impl :: "session_range_breakout strategy" where
  "session_range_breakout_impl = capped_strategy session_range_breakout_decide a_maxTradeDuration"

subsection \<open>NyOpenRangeBreakoutStrategy\<close>

record ny_open_range_breakout =
  y_signalCfg :: ohlc_variables
  y_rangeHours :: int
  y_bufferPips :: int
  y_entryWindow :: int
  y_maxTradeDuration :: int

definition new_ny_open_range_breakout :: "strategy_config \<Rightarrow> ny_open_range_breakout result" where
  "new_ny_open_range_breakout config =
     (case sc_OHLC_VARIABLES config of
        [] \<Rightarrow> Inl InvalidArgument
      | signalCfg # _ \<Rightarrow>
          if ov_OHLC_MINUTES signalCfg < 1 then Inl InvalidArgument
          else (case sv_NY_OPEN_RANGE_BREAKOUT_VARIABLES (sc_STRATEGY_VARIABLES config) of
            None \<Rightarrow> Inl InvalidArgument
          | Some v \<Rightarrow>
              if ny_RANGE_HOURS v < 1 then Inl InvalidArgument
              else if ny_RANGE_HOURS v * 60 > 13 * 60 + 30 then Inl InvalidArgument
              else if ny_BUFFER_PIPS v < 0 then Inl InvalidArgument
              else if ny_ENTRY_WINDOW_MINUTES v < 1 then Inl InvalidArgument
              else let spanMinutes = i64 (ov_OHLC_COUNT signalCfg * ov_OHLC_MINUTES signalCfg);
                       requiredMinutes = i64 (ny_RANGE_HOURS v * 60 + ny_ENTRY_WINDOW_MINUTES v
                                              + 2 * ov_OHLC_MINUTES signalCfg) in
                if spanMinutes < requiredMinutes then Inl InvalidArgument
                else Inr \<lparr>y_signalCfg = signalCfg, y_rangeHours = ny_RANGE_HOURS v,
                       y_bufferPips = ny_BUFFER_PIPS v, y_entryWindow = ny_ENTRY_WINDOW_MINUTES v,
                       y_maxTradeDuration = ny_MAX_TRADE_DURATION_MINUTES v\<rparr>))"

definition ny_open_range_breakout_decide ::
  "ny_open_range_breakout \<Rightarrow> price_data \<Rightarrow> bar_store \<Rightarrow> direction option result" where
  "ny_open_range_breakout_decide self tick store =
     (let day = floor_days (p_timestamp tick);
          sinceMidnight = since_midnight (p_timestamp tick);
          nyOpen = (if isNewYorkSummer day then hours_us 13 else hours_us 14) + minutes_us 30 in
      if sinceMidnight < nyOpen \<or> sinceMidnight \<ge> nyOpen + minutes_us (y_entryWindow self) then Inr None
      else (case store_find store (p_symbol tick) (ov_OHLC_MINUTES (y_signalCfg self)) of
        None \<Rightarrow> Inr None
      | Some signalSeries \<Rightarrow>
          if length signalSeries < 2 then Inr None
          else let openTime = day * micros_per_day + nyOpen;
                   rangeStart = openTime - hours_us (y_rangeHours self) in
            if b_date (hd signalSeries) > rangeStart then Inr None
            else (case session_range signalSeries rangeStart openTime of
              (rangeHigh, rangeLow, rangeSeen) \<Rightarrow>
                if \<not> rangeSeen then Inr None
                else let bufferPoints = i32 (y_bufferPips self * get_scale (p_symbol tick)) in
                  if p_bid tick > i32 (rangeHigh + bufferPoints) then Inr (Some LONG)
                  else if p_ask tick < i32 (rangeLow - bufferPoints) then Inr (Some SHORT)
                  else Inr None)))"

definition ny_open_range_breakout_impl :: "ny_open_range_breakout strategy" where
  "ny_open_range_breakout_impl = capped_strategy ny_open_range_breakout_decide y_maxTradeDuration"

subsection \<open>Neither reads outside its bars\<close>

text \<open>Every configuration record will do: the reads are guarded where they happen.\<close>

lemma session_range_breakout_decide_total: "\<exists>signal. session_range_breakout_decide self tick store = Inr signal"
  by (simp add: session_range_breakout_decide_def Let_def split: option.split prod.split)

lemma ny_open_range_breakout_decide_total: "\<exists>signal. ny_open_range_breakout_decide self tick store = Inr signal"
  by (simp add: ny_open_range_breakout_decide_def Let_def split: option.split prod.split)

interpretation session: total_strategy session_range_breakout_impl "\<lambda>_. True"
  unfolding session_range_breakout_impl_def by (intro capped_total session_range_breakout_decide_total)

interpretation ny: total_strategy ny_open_range_breakout_impl "\<lambda>_. True"
  unfolding ny_open_range_breakout_impl_def by (intro capped_total ny_open_range_breakout_decide_total)

subsection \<open>The range of a session\<close>

text \<open>The closed bars that started in the session.\<close>

definition session_bars :: "ohlc_object list \<Rightarrow> time \<Rightarrow> time \<Rightarrow> ohlc_object set" where
  "session_bars series start until = {bar \<in> set (butlast series). start \<le> b_date bar \<and> b_date bar < until}"

definition moderate_bar :: "ohlc_object \<Rightarrow> bool" where
  "moderate_bar bar \<longleftrightarrow> \<bar>b_high bar\<bar> \<le> 2 ^ 30 \<and> \<bar>b_low bar\<bar> \<le> 2 ^ 30"

lemma session_fold:
  "foldl (\<lambda>(high, low, seen) bar.
            if b_date bar < start \<or> b_date bar \<ge> until then (high, low, seen)
            else (max high (b_high bar), min low (b_low bar), True)) (high, low, seen) bars =
   (foldl (\<lambda>h bar. max h (b_high bar)) high (filter (\<lambda>bar. start \<le> b_date bar \<and> b_date bar < until) bars),
    foldl (\<lambda>l bar. min l (b_low bar)) low (filter (\<lambda>bar. start \<le> b_date bar \<and> b_date bar < until) bars),
    seen \<or> filter (\<lambda>bar. start \<le> b_date bar \<and> b_date bar < until) bars \<noteq> [])"
proof (induction bars arbitrary: high low seen)
  case (Cons bar bars)
  have "(b_date bar < start \<or> b_date bar \<ge> until) \<longleftrightarrow> \<not> (start \<le> b_date bar \<and> b_date bar < until)" by auto
  with Cons show ?case by simp
qed simp

lemma foldl_max_less: "foldl (\<lambda>h bar. max h (f bar)) h bars < x \<longleftrightarrow> h < x \<and> (\<forall>bar \<in> set bars. f bar < x)"
  for x :: int
  by (induction bars arbitrary: h) auto

lemma foldl_min_greater: "x < foldl (\<lambda>l bar. min l (f bar)) l bars \<longleftrightarrow> x < l \<and> (\<forall>bar \<in> set bars. x < f bar)"
  for x :: int
  by (induction bars arbitrary: l) auto

lemma session_range_bars:
  "session_range series start until =
     (foldl (\<lambda>h bar. max h (b_high bar)) (-2147483648) (filter (\<lambda>bar. start \<le> b_date bar \<and> b_date bar < until) (butlast series)),
      foldl (\<lambda>l bar. min l (b_low bar)) 2147483647 (filter (\<lambda>bar. start \<le> b_date bar \<and> b_date bar < until) (butlast series)),
      session_bars series start until \<noteq> {})"
  by (auto simp: session_range_def session_fold session_bars_def butlast_conv_take filter_empty_conv)

text \<open>Breaking the extreme of the session by the buffer is breaking every bar of it.\<close>

lemma session_breaks:
  assumes "\<forall>bar \<in> session_bars series start until. moderate_bar bar" "0 \<le> buffer" "buffer < 2 ^ 30"
    and "session_range series start until = (high, low, seen)" "seen"
  shows "i32 (high + buffer) < bid \<longleftrightarrow> (\<forall>bar \<in> session_bars series start until. b_high bar + buffer < bid)"
    and "ask < i32 (low - buffer) \<longleftrightarrow> (\<forall>bar \<in> session_bars series start until. ask < b_low bar - buffer)"
proof -
  let ?B = "session_bars series start until"
  let ?bars = "filter (\<lambda>bar. start \<le> b_date bar \<and> b_date bar < until) (butlast series)"
  have B: "set ?bars = ?B" by (auto simp: session_bars_def)
  have eqs: "high = foldl (\<lambda>h bar. max h (b_high bar)) (-2147483648) ?bars"
    "low = foldl (\<lambda>l bar. min l (b_low bar)) 2147483647 ?bars" and ne: "?B \<noteq> {}"
    using assms(4,5) by (auto simp: session_range_bars)
  have hi: "high < x \<longleftrightarrow> -2147483648 < x \<and> (\<forall>bar \<in> ?B. b_high bar < x)" for x
    unfolding eqs foldl_max_less B ..
  have lo: "x < low \<longleftrightarrow> x < 2147483647 \<and> (\<forall>bar \<in> ?B. x < b_low bar)" for x
    unfolding eqs foldl_min_greater B ..
  obtain bar where bar: "bar \<in> ?B" using ne by blast
  have mod: "\<bar>b_high b\<bar> \<le> 2 ^ 30" "\<bar>b_low b\<bar> \<le> 2 ^ 30" if "b \<in> ?B" for b
    using assms(1) that by (auto simp: moderate_bar_def)
  have "\<not> high < - (2 ^ 30)" using hi [of "- (2 ^ 30)"] bar mod(1) [OF bar] by force
  moreover have "high < 2 ^ 30 + 1" unfolding hi using mod(1) by force
  ultimately have h: "in_i32 (high + buffer)" using assms(2,3) by (simp add: in_i32_def)
  have "\<not> 2 ^ 30 < low" using lo [of "2 ^ 30"] bar mod(2) [OF bar] by force
  moreover have "- (2 ^ 30) - 1 < low" unfolding lo using mod(2) by force
  ultimately have l: "in_i32 (low - buffer)" using assms(2,3) by (simp add: in_i32_def)
  have "i32 (high + buffer) < bid \<longleftrightarrow> high < bid - buffer" using h by auto
  also have "\<dots> \<longleftrightarrow> (\<forall>bar \<in> ?B. b_high bar < bid - buffer)"
    unfolding hi using bar mod(1) [OF bar] by force
  finally show "i32 (high + buffer) < bid \<longleftrightarrow> (\<forall>bar \<in> ?B. b_high bar + buffer < bid)" by force
  have "ask < i32 (low - buffer) \<longleftrightarrow> ask + buffer < low" using l by auto
  also have "\<dots> \<longleftrightarrow> (\<forall>bar \<in> ?B. ask + buffer < b_low bar)"
    unfolding lo using bar mod(2) [OF bar] by force
  finally show "ask < i32 (low - buffer) \<longleftrightarrow> (\<forall>bar \<in> ?B. ask < b_low bar - buffer)" by force
qed

text \<open>The verdict both strategies end with, over the bars of the session.\<close>

definition break_signal :: "ohlc_object set \<Rightarrow> int \<Rightarrow> price_data \<Rightarrow> direction option" where
  "break_signal bars buffer tick =
     (if bars = {} then None
      else if \<forall>bar \<in> bars. b_high bar + buffer < p_bid tick then Some LONG
      else if \<forall>bar \<in> bars. p_ask tick < b_low bar - buffer then Some SHORT
      else None)"

lemma buffer_exact:
  assumes "0 \<le> pips" "pips \<le> 1000000"
  shows "i32 (pips * get_scale s) = pips * get_scale s" "0 \<le> pips * get_scale s" "pips * get_scale s < 2 ^ 30"
proof -
  have "pips * get_scale s \<le> 1000000 * 1000" using assms get_scale_le by (intro mult_mono) auto
  moreover show "0 \<le> pips * get_scale s" using assms by simp
  ultimately show "i32 (pips * get_scale s) = pips * get_scale s" "pips * get_scale s < 2 ^ 30"
    by (auto intro!: i32_id simp: in_i32_def)
qed

lemma session_verdict:
  assumes "\<forall>bar \<in> session_bars series start until. moderate_bar bar" "0 \<le> pips" "pips \<le> 1000000"
  shows "(case session_range series start until of (high, low, seen) \<Rightarrow>
      if \<not> seen then Inr None
      else if p_bid tick > i32 (high + i32 (pips * get_scale s)) then Inr (Some LONG)
      else if p_ask tick < i32 (low - i32 (pips * get_scale s)) then Inr (Some SHORT)
      else Inr None) =
    (Inr (break_signal (session_bars series start until) (pips * get_scale s) tick) :: direction option result)"
proof -
  obtain high low seen where r: "session_range series start until = (high, low, seen)" by (metis prod_cases3)
  then have "seen \<longleftrightarrow> session_bars series start until \<noteq> {}" by (simp add: session_range_bars)
  then show ?thesis
    using session_breaks [OF assms(1) buffer_exact(2,3) [OF assms(2,3)] r] r buffer_exact(1) [OF assms(2,3)]
    by (cases seen) (simp_all add: break_signal_def)
qed

subsection \<open>A winter morning and a winter afternoon\<close>

text \<open>10 January 2024; the quiet range lies between 90 and 100.\<close>

definition demo_midnight :: time where "demo_midnight = 19732 * micros_per_day"

definition demo_range :: "ohlc_object list" where
  "demo_range = [\<lparr>b_date = demo_midnight, b_open = 95, b_close = 95, b_high = 100, b_low = 90, b_complete = False\<rparr>,
     \<lparr>b_date = demo_midnight + hours_us 14, b_open = 95, b_close = 95, b_high = 99, b_low = 91, b_complete = False\<rparr>,
     \<lparr>b_date = demo_midnight + hours_us 15, b_open = 95, b_close = 111, b_high = 111, b_low = 91, b_complete = False\<rparr>]"

definition demo_range_store :: bar_store where
  "demo_range_store = \<lparr>bs_specs = [\<lparr>s_minutes = 60, s_count = 24\<rparr>],
     bs_bySymbol = [''EURUSD'' \<mapsto> [demo_range]], bs_rangeSpecs = [], bs_rangeBySymbol = Map.empty\<rparr>"

definition demo_break_tick :: "int \<Rightarrow> price_data" where
  "demo_break_tick offset = \<lparr>p_ask = 112, p_bid = 111, p_timestamp = demo_midnight + offset, p_symbol = ''EURUSD''\<rparr>"

lemma demo_range_facts:
  "store_find demo_range_store ''EURUSD'' 60 = Some demo_range" "2 \<le> length demo_range"
  "\<forall>bar \<in> set demo_range. moderate_bar bar" "b_date (hd demo_range) = demo_midnight"
  by (simp_all add: store_find_def demo_range_store_def demo_range_def Let_def moderate_bar_def)

lemma demo_session_bars:
  "session_bars demo_range demo_midnight (demo_midnight + 21600000000) = {demo_range ! 0}"
  "session_bars demo_range (5400000000 + demo_midnight) (demo_midnight + 52200000000) = {demo_range ! 1}"
  by (auto simp: session_bars_def demo_range_def hours_us_def)

lemma demo_range_bars: "b_high (demo_range ! 0) = 100" "b_high (demo_range ! Suc 0) = 99"
  by (simp_all add: demo_range_def)

lemma demo_calendar:
  "get_scale ''EURUSD'' = 10" "isLondonSummer 19732 = False" "isNewYorkSummer 19732 = False"
  by code_simp+

lemma demo_clock:
  assumes "0 \<le> offset" "offset < micros_per_day"
  shows "floor_days (demo_midnight + offset) = 19732" "since_midnight (demo_midnight + offset) = offset"
  using assms by (simp_all add: floor_days_def since_midnight_def demo_midnight_def micros_per_day_def)

text \<open>An entry on the Asian range happens exactly when the tick lies in the window after
  the day's London open (07:00 UTC in British summer time, 08:00 otherwise), the series
  reaches back to midnight, at least one closed bar started in the session, and the fill side
  of the tick has left every closed bar that started between midnight and 06:00 of the tick's
  own day behind by the buffer.\<close>

theorem session_breakout_signal:
  assumes "store_find store (p_symbol tick) (ov_OHLC_MINUTES (a_signalCfg self)) = Some series" "2 \<le> length series"
    and "\<forall>bar \<in> set series. moderate_bar bar" "0 \<le> a_bufferPips self" "a_bufferPips self \<le> 1000000"
  shows "session_range_breakout_decide self tick store =
    Inr (let now = p_timestamp tick; midnight = now - since_midnight now;
             londonOpen = midnight + hours_us (if isLondonSummer (floor_days now) then 7 else 8) in
         if londonOpen \<le> now \<and> now < londonOpen + minutes_us (a_entryWindow self) \<and> b_date (hd series) \<le> midnight
         then break_signal (session_bars series midnight (midnight + hours_us 6))
                (a_bufferPips self * get_scale (p_symbol tick)) tick
         else None)"
proof -
  have "p_timestamp tick - since_midnight (p_timestamp tick) = floor_days (p_timestamp tick) * micros_per_day"
    by (simp add: since_midnight_def)
  moreover have "\<And>a b. \<forall>bar \<in> session_bars series a b. moderate_bar bar"
    using assms(3) by (auto simp: session_bars_def dest: in_set_butlastD)
  note verdict = session_verdict [OF this assms(4,5)]
  ultimately show ?thesis
    unfolding session_range_breakout_decide_def Let_def kAsiaSessionEnd_def assms(1) option.case verdict
    using assms(2) by (auto simp: not_less not_le)
qed

theorem session_breakout_signal_witness:
  "session_range_breakout_decide
     \<lparr>a_signalCfg = \<lparr>ov_OHLC_COUNT = 24, ov_OHLC_MINUTES = 60\<rparr>, a_bufferPips = 1, a_entryWindow = 60, a_maxTradeDuration = 0\<rparr>
     (demo_break_tick (hours_us 8)) demo_range_store = Inr (Some LONG)"
proof -
  have clock: "floor_days (demo_midnight + hours_us 8) = 19732" "since_midnight (demo_midnight + hours_us 8) = hours_us 8"
    by (rule demo_clock; simp add: hours_us_def micros_per_day_def)+
  show ?thesis
    by (subst session_breakout_signal [where series = demo_range])
      (use clock in \<open>simp_all add: demo_break_tick_def demo_range_facts Let_def demo_calendar minutes_us_def
         break_signal_def demo_session_bars hours_us_def demo_range_bars\<close>)
qed

text \<open>An entry on the New York range is judged by the same rule over the \<open>RANGE_HOURS\<close>
  before the open (13:30 UTC in American summer time, 14:30 otherwise); and for every
  configuration the constructor accepts that range starts on the tick's own UTC day, so that
  it never mixes in the day before.\<close>

theorem ny_breakout_signal:
  assumes "new_ny_open_range_breakout config = Inr self"
    and "store_find store (p_symbol tick) (ov_OHLC_MINUTES (y_signalCfg self)) = Some series" "2 \<le> length series"
    and "\<forall>bar \<in> set series. moderate_bar bar" "y_bufferPips self \<le> 1000000"
  shows "(let now = p_timestamp tick; midnight = now - since_midnight now;
             nyOpen = midnight + (hours_us (if isNewYorkSummer (floor_days now) then 13 else 14) + minutes_us 30);
             rangeStart = nyOpen - hours_us (y_rangeHours self) in
         ny_open_range_breakout_decide self tick store =
           Inr (if nyOpen \<le> now \<and> now < nyOpen + minutes_us (y_entryWindow self) \<and> b_date (hd series) \<le> rangeStart
                then break_signal (session_bars series rangeStart nyOpen)
                       (y_bufferPips self * get_scale (p_symbol tick)) tick
                else None)
         \<and> midnight \<le> rangeStart \<and> rangeStart < nyOpen)"
proof -
  have self: "0 \<le> y_bufferPips self" "1 \<le> y_rangeHours self" "y_rangeHours self \<le> 13"
    using assms(1) by (auto simp: new_ny_open_range_breakout_def Let_def split: list.splits option.splits if_splits)
  have "p_timestamp tick - since_midnight (p_timestamp tick) = floor_days (p_timestamp tick) * micros_per_day"
    by (simp add: since_midnight_def)
  moreover have "\<And>a b. \<forall>bar \<in> session_bars series a b. moderate_bar bar"
    using assms(4) by (auto simp: session_bars_def dest: in_set_butlastD)
  note verdict = session_verdict [OF this self(1) assms(5)]
  ultimately show ?thesis
    unfolding ny_open_range_breakout_decide_def Let_def assms(2) option.case verdict
    using assms(3) self(2,3) by (auto simp: hours_us_def minutes_us_def not_less not_le)
qed

definition demo_ny_config :: strategy_config where
  "demo_ny_config =
     \<lparr>sc_UUID = [], sc_TRADING_VARIABLES = \<lparr>tv_STRATEGY = ''NyOpenRangeBreakoutStrategy'',
        tv_STOP_DISTANCE_IN_ATR = 1, tv_LIMIT_DISTANCE_IN_ATR = 1, tv_TRADING_SIZE = 1\<rparr>,
      sc_OHLC_VARIABLES = [\<lparr>ov_OHLC_COUNT = 24, ov_OHLC_MINUTES = 60\<rparr>], sc_RANGE_VARIABLES = [],
      sc_STRATEGY_VARIABLES = \<lparr>sv_OHLC_RSI_VARIABLES = None, sv_OHLC_BREAKOUT_VARIABLES = None,
        sv_FVG_STRATEGY_VARIABLES = None, sv_KELTNER_FADE_VARIABLES = None,
        sv_SESSION_RANGE_BREAKOUT_VARIABLES = None, sv_SQUEEZE_BREAKOUT_VARIABLES = None,
        sv_NY_OPEN_RANGE_BREAKOUT_VARIABLES = Some \<lparr>ny_RANGE_HOURS = 13, ny_BUFFER_PIPS = 1,
           ny_ENTRY_WINDOW_MINUTES = 60, ny_MAX_TRADE_DURATION_MINUTES = 0\<rparr>,
        sv_LIQUIDITY_SWEEP_REVERSAL_VARIABLES = None, sv_RANGE_VELOCITY_VARIABLES = None\<rparr>\<rparr>"

theorem ny_breakout_signal_witness:
  "case new_ny_open_range_breakout demo_ny_config of Inl e \<Rightarrow> False
   | Inr self \<Rightarrow> ny_open_range_breakout_decide self (demo_break_tick (hours_us 15)) demo_range_store = Inr (Some LONG)"
proof -
  have clock: "floor_days (demo_midnight + hours_us 15) = 19732" "since_midnight (demo_midnight + hours_us 15) = hours_us 15"
    by (rule demo_clock; simp add: hours_us_def micros_per_day_def)+
  let ?self = "\<lparr>y_signalCfg = \<lparr>ov_OHLC_COUNT = 24, ov_OHLC_MINUTES = 60\<rparr>, y_rangeHours = 13, y_bufferPips = 1,
    y_entryWindow = 60, y_maxTradeDuration = 0\<rparr>"
  have new: "new_ny_open_range_breakout demo_ny_config = Inr ?self"
    by (simp add: new_ny_open_range_breakout_def demo_ny_config_def Let_def in_i64_def)
  from ny_breakout_signal [OF new, of demo_range_store "demo_break_tick (hours_us 15)" demo_range]
  have "ny_open_range_breakout_decide ?self (demo_break_tick (hours_us 15)) demo_range_store = Inr (Some LONG)"
    using clock by (simp add: demo_break_tick_def demo_range_facts Let_def demo_calendar minutes_us_def
        break_signal_def demo_session_bars hours_us_def demo_range_bars)
  with new show ?thesis by simp
qed

end
