(* ===== verification/SweepReversal.thy ===== *)
theory SweepReversal
  imports BarScan
begin

section \<open>Reversals of a liquidity sweep\<close>

text \<open>
  \<open>source/strategies/liquiditySweepReversal/liquiditySweepReversalStrategy.cppm\<close>: a swing pivot
  whose level was pierced and rejected is faded. The two halves of the scan, highs and lows,
  are \<open>sweep_high\<close> and \<open>sweep_low\<close>; \<open>short_setup\<close> and \<open>long_setup\<close> say what they look for. A
  setup is the index of the rejecting bar and the level; \<open>None\<close> is \<open>found = false\<close>.
\<close>

record sweep_reversal =
  z_signalCfg :: ohlc_variables
  z_pivotBars :: int
  z_lookbackBars :: int
  z_minSweepPips :: int
  z_displacementAtrTenths :: int
  z_validBars :: int
  z_maxTradeDuration :: int

definition kSweepAtrPeriod :: int where "kSweepAtrPeriod = 10"

definition new_sweep_reversal :: "strategy_config \<Rightarrow> sweep_reversal result" where
  "new_sweep_reversal config =
     (case sc_OHLC_VARIABLES config of
        [] \<Rightarrow> Inl InvalidArgument
      | signalCfg # _ \<Rightarrow>
          if ov_OHLC_MINUTES signalCfg < 1 then Inl InvalidArgument
          else (case sv_LIQUIDITY_SWEEP_REVERSAL_VARIABLES (sc_STRATEGY_VARIABLES config) of
            None \<Rightarrow> Inl InvalidArgument
          | Some v \<Rightarrow>
              if ls_PIVOT_BARS v < 1 then Inl InvalidArgument
              else if ls_LOOKBACK_BARS v < i32 (ls_PIVOT_BARS v + 1) then Inl InvalidArgument
              else if ls_MIN_SWEEP_PIPS v < 0 then Inl InvalidArgument
              else if ls_DISPLACEMENT_ATR_TENTHS v < 0 then Inl InvalidArgument
              else if ls_VALID_BARS v < 1 \<or> ls_VALID_BARS v > ls_LOOKBACK_BARS v then Inl InvalidArgument
              else if ls_MAX_TRADE_DURATION_MINUTES v < 0 then Inl InvalidArgument
              else let minCount = max (i32 (i32 (ls_LOOKBACK_BARS v + ls_PIVOT_BARS v) + 1))
                                      (i32 (i32 (ls_VALID_BARS v + kSweepAtrPeriod) + 1)) in
                if ov_OHLC_COUNT signalCfg < minCount then Inl InvalidArgument
                else Inr \<lparr>z_signalCfg = signalCfg, z_pivotBars = ls_PIVOT_BARS v,
                       z_lookbackBars = ls_LOOKBACK_BARS v, z_minSweepPips = ls_MIN_SWEEP_PIPS v,
                       z_displacementAtrTenths = ls_DISPLACEMENT_ATR_TENTHS v, z_validBars = ls_VALID_BARS v,
                       z_maxTradeDuration = ls_MAX_TRADE_DURATION_MINUTES v\<rparr>))"

definition displacementOk :: "sweep_reversal \<Rightarrow> ohlc_object list \<Rightarrow> nat \<Rightarrow> bool \<Rightarrow> bool result" where
  "displacementOk self closedBars rejection sweptHigh =
     (if z_displacementAtrTenths self = 0 then Inr True
      else bind (bar_at closedBars (int rejection)) (\<lambda>bar.
        let body = (if sweptHigh then b_open bar - b_close bar else b_close bar - b_open bar) in
        if body \<le> 0 then Inr False
        else bind (atr_calculate (take (rejection + 1) closedBars) kSweepAtrPeriod) (\<lambda>atrPoints.
          if atrPoints \<le> 0 then Inr False
          else Inr (i64 (body * 10) \<ge> i64 (z_displacementAtrTenths self * atrPoints)))))"

text \<open>\<open>while (j < n && !beyond) ++j\<close>.\<close>

function first_touch :: "(ohlc_object \<Rightarrow> bool) \<Rightarrow> ohlc_object list \<Rightarrow> nat \<Rightarrow> nat" where
  "first_touch beyond bars j =
     (if j < length bars \<and> \<not> beyond (bars ! j) then first_touch beyond bars (Suc j) else j)"
  by pat_completeness auto
termination by (relation "measure (\<lambda>(beyond, bars, j). length bars - j)") auto

declare first_touch.simps [simp del]

definition sweep_high :: "sweep_reversal \<Rightarrow> ohlc_object list \<Rightarrow> int \<Rightarrow> nat \<Rightarrow> (nat \<times> int) option result" where
  "sweep_high self closedBars sweepPoints i =
     bind (isSwingHighAt closedBars i (z_pivotBars self)) (\<lambda>swing.
     if \<not> swing then Inr None
     else let n = length closedBars; level = b_high (closedBars ! i);
              j = first_touch (\<lambda>bar. b_high bar > level) closedBars (i + 1) in
       if j < n \<and> b_close (closedBars ! j) \<le> level \<and> i32 (b_high (closedBars ! j) - level) \<ge> sweepPoints
          \<and> int j + z_validBars self \<ge> int n
       then bind (displacementOk self closedBars j True) (\<lambda>ok.
         if \<not> ok then Inr None
         else let invalidated = list_ex (\<lambda>bar. b_close bar > level) (drop (j + 1) closedBars) in
           Inr (if invalidated then None else Some (j, level)))
       else Inr None)"

definition sweep_low :: "sweep_reversal \<Rightarrow> ohlc_object list \<Rightarrow> int \<Rightarrow> nat \<Rightarrow> (nat \<times> int) option result" where
  "sweep_low self closedBars sweepPoints i =
     bind (isSwingLowAt closedBars i (z_pivotBars self)) (\<lambda>swing.
     if \<not> swing then Inr None
     else let n = length closedBars; level = b_low (closedBars ! i);
              j = first_touch (\<lambda>bar. b_low bar < level) closedBars (i + 1) in
       if j < n \<and> b_close (closedBars ! j) \<ge> level \<and> i32 (level - b_low (closedBars ! j)) \<ge> sweepPoints
          \<and> int j + z_validBars self \<ge> int n
       then bind (displacementOk self closedBars j False) (\<lambda>ok.
         if \<not> ok then Inr None
         else let invalidated = list_ex (\<lambda>bar. b_close bar < level) (drop (j + 1) closedBars) in
           Inr (if invalidated then None else Some (j, level)))
       else Inr None)"

text \<open>\<open>!best.found || j > best.rejection\<close>.\<close>

fun newer :: "(nat \<times> int) option \<Rightarrow> (nat \<times> int) option \<Rightarrow> (nat \<times> int) option" where
  "newer best None = best"
| "newer None (Some s) = Some s"
| "newer (Some b) (Some s) = (if fst s > fst b then Some s else Some b)"

fun pivot_scan ::
  "sweep_reversal \<Rightarrow> ohlc_object list \<Rightarrow> int \<Rightarrow> nat list \<Rightarrow> (nat \<times> int) option \<Rightarrow> (nat \<times> int) option
     \<Rightarrow> ((nat \<times> int) option \<times> (nat \<times> int) option) result" where
  "pivot_scan self closedBars sweepPoints [] bestShort bestLong = Inr (bestShort, bestLong)"
| "pivot_scan self closedBars sweepPoints (i # is) bestShort bestLong =
     bind (sweep_high self closedBars sweepPoints i) (\<lambda>short.
     bind (sweep_low self closedBars sweepPoints i) (\<lambda>long.
     pivot_scan self closedBars sweepPoints is (newer bestShort short) (newer bestLong long)))"

definition sweep_verdict :: "price_data \<Rightarrow> (nat \<times> int) option \<Rightarrow> (nat \<times> int) option \<Rightarrow> direction option" where
  "sweep_verdict tick bestShort bestLong =
     (case (bestShort, bestLong) of
        (None, None) \<Rightarrow> None
      | (Some (_, level), None) \<Rightarrow> if p_bid tick < level then Some SHORT else None
      | (None, Some (_, level)) \<Rightarrow> if p_ask tick > level then Some LONG else None
      | (Some (j, level), Some (j', level')) \<Rightarrow>
          if j = j' then None
          else if j > j' then (if p_bid tick < level then Some SHORT else None)
          else if p_ask tick > level' then Some LONG else None)"

text \<open>The candidates \<open>i = scanStart; i + wing < n\<close> in 64-bit unsigned arithmetic.\<close>

definition pivot_candidates :: "int \<Rightarrow> int \<Rightarrow> int \<Rightarrow> nat list result" where
  "pivot_candidates n pivotBars lookbackBars =
     (let wing = u64 pivotBars; scanStart = max wing (u64 (n - u64 lookbackBars)) in
      if scanStart \<le> n then Inr [nat scanStart..<nat (n - wing)]
      else if u64 (scanStart + wing) < n then Inl UndefinedBehaviour
      else Inr [])"

definition sweep_reversal_decide :: "sweep_reversal \<Rightarrow> price_data \<Rightarrow> bar_store \<Rightarrow> direction option result" where
  "sweep_reversal_decide self tick store =
     (case store_find store (p_symbol tick) (ov_OHLC_MINUTES (z_signalCfg self)) of
        None \<Rightarrow> Inr None
      | Some signalSeries \<Rightarrow>
          (case span_last signalSeries (ov_OHLC_COUNT (z_signalCfg self)) of
             None \<Rightarrow> Inr None
           | Some signalBars \<Rightarrow>
               bind (closed_bars signalBars) (\<lambda>closedBars.
               let sweepPoints = i32 (z_minSweepPips self * get_scale (p_symbol tick)) in
               bind (pivot_candidates (int (length closedBars)) (z_pivotBars self) (z_lookbackBars self)) (\<lambda>is.
               bind (pivot_scan self closedBars sweepPoints is None None) (\<lambda>(bestShort, bestLong).
               Inr (sweep_verdict tick bestShort bestLong))))))"

definition sweep_reversal_impl :: "sweep_reversal strategy" where
  "sweep_reversal_impl = capped_strategy sweep_reversal_decide z_maxTradeDuration"

subsection \<open>What the scan looks for\<close>

definition displaced :: "sweep_reversal \<Rightarrow> ohlc_object list \<Rightarrow> nat \<Rightarrow> bool \<Rightarrow> bool" where
  "displaced self bars j sweptHigh \<longleftrightarrow> displacementOk self bars j sweptHigh = Inr True"

text \<open>The bar \<open>i\<close> is a swing high inside the lookback; \<open>j\<close> is the first later bar to trade above
  it, by at least \<open>points\<close>, closes back at or below it, is fresh and displaced; and nothing has
  closed above the level since.\<close>

definition short_setup :: "sweep_reversal \<Rightarrow> ohlc_object list \<Rightarrow> int \<Rightarrow> nat \<Rightarrow> nat \<Rightarrow> bool" where
  "short_setup self bars points i j \<longleftrightarrow>
     (let n = length bars; k = nat (z_pivotBars self); level = b_high (bars ! i) in
      (\<forall>w \<in> {1..k}. b_high (bars ! (i - w)) < level \<and> b_high (bars ! (i + w)) < level)
      \<and> i < j \<and> j < n \<and> (\<forall>m \<in> {i<..<j}. b_high (bars ! m) \<le> level) \<and> level < b_high (bars ! j)
      \<and> b_close (bars ! j) \<le> level \<and> points \<le> i32 (b_high (bars ! j) - level)
      \<and> int n \<le> int j + z_validBars self \<and> displaced self bars j True
      \<and> (\<forall>m \<in> {j<..<n}. b_close (bars ! m) \<le> level))"

definition long_setup :: "sweep_reversal \<Rightarrow> ohlc_object list \<Rightarrow> int \<Rightarrow> nat \<Rightarrow> nat \<Rightarrow> bool" where
  "long_setup self bars points i j \<longleftrightarrow>
     (let n = length bars; k = nat (z_pivotBars self); level = b_low (bars ! i) in
      (\<forall>w \<in> {1..k}. level < b_low (bars ! (i - w)) \<and> level < b_low (bars ! (i + w)))
      \<and> i < j \<and> j < n \<and> (\<forall>m \<in> {i<..<j}. level \<le> b_low (bars ! m)) \<and> b_low (bars ! j) < level
      \<and> level \<le> b_close (bars ! j) \<and> points \<le> i32 (level - b_low (bars ! j))
      \<and> int n \<le> int j + z_validBars self \<and> displaced self bars j False
      \<and> (\<forall>m \<in> {j<..<n}. level \<le> b_close (bars ! m)))"

lemma first_touch_spec:
  "j \<le> first_touch P bars j \<and> (\<forall>m \<in> {j..<first_touch P bars j}. \<not> P (bars ! m))
   \<and> (first_touch P bars j < length bars \<longrightarrow> P (bars ! first_touch P bars j))"
proof (induction P bars j rule: first_touch.induct)
  case (1 P bars j)
  show ?case
  proof (cases "j < length bars \<and> \<not> P (bars ! j)")
    case True
    then have eq: "first_touch P bars j = first_touch P bars (Suc j)" by (simp add: first_touch.simps [of P bars j])
    have "{j..<first_touch P bars (Suc j)} = insert j {Suc j..<first_touch P bars (Suc j)}"
      using 1 [OF True] by auto
    with 1 [OF True] True eq show ?thesis by auto
  next
    case False
    then have "first_touch P bars j = j" by (subst first_touch.simps) (simp only: if_False)
    with False show ?thesis by auto
  qed
qed

lemma first_touch_unique:
  assumes "i < j" "j < length bars" "P (bars ! j)" "\<forall>m \<in> {i<..<j}. \<not> P (bars ! m)"
  shows "first_touch P bars (Suc i) = j"
proof (rule linorder_cases)
  let ?t = "first_touch P bars (Suc i)"
  assume "?t < j"
  moreover have "Suc i \<le> ?t" "?t < length bars \<longrightarrow> P (bars ! ?t)" using first_touch_spec by blast+
  ultimately show ?thesis using assms by auto
next
  assume "j < first_touch P bars (Suc i)"
  then show ?thesis using first_touch_spec [of "Suc i" P bars] assms(1,3)
    by (auto dest!: bspec [of _ _ j])
qed

lemma list_ex_drop: "list_ex P (drop (Suc j) bars) \<longleftrightarrow> (\<exists>m \<in> {j<..<length bars}. P (bars ! m))"
proof
  assume "list_ex P (drop (Suc j) bars)"
  then obtain k where "k < length bars - Suc j" "P (bars ! (Suc j + k))" by (auto simp: list_ex_length)
  then show "\<exists>m \<in> {j<..<length bars}. P (bars ! m)" by (intro bexI [of _ "Suc j + k"]) auto
next
  assume "\<exists>m \<in> {j<..<length bars}. P (bars ! m)"
  then obtain m where "j < m" "m < length bars" "P (bars ! m)" by auto
  then show "list_ex P (drop (Suc j) bars)"
    by (auto simp: list_ex_length intro!: exI [of _ "m - Suc j"])
qed

lemma displacementOk_total:
  assumes "j < length bars"
  shows "displacementOk self bars j swept = Inr (displaced self bars j swept)"
proof -
  obtain a where "atr_calculate (take (j + 1) bars) kSweepAtrPeriod = Inr a"
    using atr_calculate_total [of kSweepAtrPeriod] by (auto simp: kSweepAtrPeriod_def)
  moreover have "inside bars (int j)" using assms by (simp add: inside_def)
  ultimately have "displacementOk self bars j swept \<noteq> Inl e" for e by (simp add: displacementOk_def Let_def)
  then show ?thesis by (cases "displacementOk self bars j swept") (auto simp: displaced_def)
qed

lemma isSwing_in_range:
  assumes "1 \<le> k" "nat k \<le> i" "i + nat k < length bars"
  shows "isSwingHighAt bars i k = Inr (\<forall>w \<in> {1..nat k}. b_high (bars ! (i - w)) < b_high (bars ! i)
           \<and> b_high (bars ! (i + w)) < b_high (bars ! i))"
    and "isSwingLowAt bars i k = Inr (\<forall>w \<in> {1..nat k}. b_low (bars ! i) < b_low (bars ! (i - w))
           \<and> b_low (bars ! i) < b_low (bars ! (i + w)))"
  using assms by (simp_all add: isSwingHighAt_def isSwingLowAt_def swing_high_loop_iff swing_low_loop_iff)

lemma sweep_high_spec:
  assumes "1 \<le> z_pivotBars self" "nat (z_pivotBars self) \<le> i" "i + nat (z_pivotBars self) < length bars"
  obtains s where "sweep_high self bars points i = Inr s"
    "\<And>j level. s = Some (j, level) \<longleftrightarrow> short_setup self bars points i j \<and> level = b_high (bars ! i)"
proof -
  let ?level = "b_high (bars ! i)" and ?j = "first_touch (\<lambda>bar. b_high bar > b_high (bars ! i)) bars (Suc i)"
  let ?s = "if (\<forall>w \<in> {1..nat (z_pivotBars self)}. b_high (bars ! (i - w)) < ?level \<and> b_high (bars ! (i + w)) < ?level)
      \<and> ?j < length bars \<and> b_close (bars ! ?j) \<le> ?level \<and> i32 (b_high (bars ! ?j) - ?level) \<ge> points
      \<and> int ?j + z_validBars self \<ge> int (length bars) \<and> displaced self bars ?j True
      \<and> \<not> list_ex (\<lambda>bar. b_close bar > ?level) (drop (Suc ?j) bars)
    then Some (?j, ?level) else None"
  have eq: "sweep_high self bars points i = Inr ?s"
    by (auto simp: sweep_high_def isSwing_in_range [OF assms] Let_def displacementOk_total)
  have "?s = Some (j, level) \<longleftrightarrow> short_setup self bars points i j \<and> level = ?level" for j level
  proof
    assume s: "?s = Some (j, level)"
    then have "j = ?j" "level = ?level" by (auto split: if_splits)
    with s first_touch_spec [of "Suc i" "\<lambda>bar. b_high bar > ?level" bars]
    show "short_setup self bars points i j \<and> level = ?level"
      by (auto simp: short_setup_def Let_def list_ex_drop Suc_le_eq not_less split: if_splits)
  next
    assume su: "short_setup self bars points i j \<and> level = ?level"
    then have "?j = j" by (intro first_touch_unique) (auto simp: short_setup_def Let_def not_less)
    with su show "?s = Some (j, level)"
      by (simp add: short_setup_def Let_def list_ex_drop) (auto simp: not_less)
  qed
  with eq show thesis by (rule that)
qed

lemma sweep_low_spec:
  assumes "1 \<le> z_pivotBars self" "nat (z_pivotBars self) \<le> i" "i + nat (z_pivotBars self) < length bars"
  obtains s where "sweep_low self bars points i = Inr s"
    "\<And>j level. s = Some (j, level) \<longleftrightarrow> long_setup self bars points i j \<and> level = b_low (bars ! i)"
proof -
  let ?level = "b_low (bars ! i)" and ?j = "first_touch (\<lambda>bar. b_low bar < b_low (bars ! i)) bars (Suc i)"
  let ?s = "if (\<forall>w \<in> {1..nat (z_pivotBars self)}. ?level < b_low (bars ! (i - w)) \<and> ?level < b_low (bars ! (i + w)))
      \<and> ?j < length bars \<and> b_close (bars ! ?j) \<ge> ?level \<and> i32 (?level - b_low (bars ! ?j)) \<ge> points
      \<and> int ?j + z_validBars self \<ge> int (length bars) \<and> displaced self bars ?j False
      \<and> \<not> list_ex (\<lambda>bar. b_close bar < ?level) (drop (Suc ?j) bars)
    then Some (?j, ?level) else None"
  have eq: "sweep_low self bars points i = Inr ?s"
    by (auto simp: sweep_low_def isSwing_in_range [OF assms] Let_def displacementOk_total)
  have "?s = Some (j, level) \<longleftrightarrow> long_setup self bars points i j \<and> level = ?level" for j level
  proof
    assume s: "?s = Some (j, level)"
    then have "j = ?j" "level = ?level" by (auto split: if_splits)
    with s first_touch_spec [of "Suc i" "\<lambda>bar. b_low bar < ?level" bars]
    show "long_setup self bars points i j \<and> level = ?level"
      by (auto simp: long_setup_def Let_def list_ex_drop Suc_le_eq not_less split: if_splits)
  next
    assume su: "long_setup self bars points i j \<and> level = ?level"
    then have "?j = j" by (intro first_touch_unique) (auto simp: long_setup_def Let_def not_less)
    with su show "?s = Some (j, level)"
      by (simp add: long_setup_def Let_def list_ex_drop) (auto simp: not_less)
  qed
  with eq show thesis by (rule that)
qed

subsection \<open>The newest rejection decides\<close>

definition sweep_reversal_ok :: "sweep_reversal \<Rightarrow> bool" where
  "sweep_reversal_ok self \<longleftrightarrow> 1 \<le> z_pivotBars self \<and> z_pivotBars self < z_lookbackBars self
     \<and> 1 \<le> z_validBars self \<and> z_lookbackBars self + z_pivotBars self + 1 \<le> ov_OHLC_COUNT (z_signalCfg self)
     \<and> ov_OHLC_COUNT (z_signalCfg self) < 2 ^ 31"

lemma new_sweep_reversal_ok:
  assumes new: "new_sweep_reversal config = Inr self"
    and counts: "\<forall>cfg \<in> set (sc_OHLC_VARIABLES config). in_i32 (ov_OHLC_COUNT cfg)"
    and vars: "\<And>v. sv_LIQUIDITY_SWEEP_REVERSAL_VARIABLES (sc_STRATEGY_VARIABLES config) = Some v \<Longrightarrow>
           in_i32 (ls_LOOKBACK_BARS v + ls_PIVOT_BARS v + 1) \<and> in_i32 (ls_LOOKBACK_BARS v)"
  shows "sweep_reversal_ok self"
proof -
  from new obtain s r v where cfg: "sc_OHLC_VARIABLES config = s # r"
    and v: "sv_LIQUIDITY_SWEEP_REVERSAL_VARIABLES (sc_STRATEGY_VARIABLES config) = Some v"
    by (auto simp: new_sweep_reversal_def split: list.splits option.splits if_splits)
  have pivot: "1 \<le> ls_PIVOT_BARS v" and lb: "i32 (ls_PIVOT_BARS v + 1) \<le> ls_LOOKBACK_BARS v" "1 \<le> ls_LOOKBACK_BARS v"
    using new cfg v by (auto simp: new_sweep_reversal_def Let_def split: if_splits)
  have fits: "in_i32 (ls_LOOKBACK_BARS v + ls_PIVOT_BARS v + 1)" using vars [OF v] by blast
  then have "in_i32 (ls_PIVOT_BARS v + 1)" "in_i32 (ls_LOOKBACK_BARS v + ls_PIVOT_BARS v)"
    using pivot lb(2) by (auto simp: in_i32_def)
  with fits have "i32 (ls_PIVOT_BARS v + 1) = ls_PIVOT_BARS v + 1"
    "i32 (i32 (ls_LOOKBACK_BARS v + ls_PIVOT_BARS v) + 1) = ls_LOOKBACK_BARS v + ls_PIVOT_BARS v + 1" by simp_all
  then show ?thesis
    using new cfg v counts
    by (auto simp: new_sweep_reversal_def sweep_reversal_ok_def in_i32_less Let_def split: if_splits)
qed

text \<open>Of the setups \<open>(i, j)\<close>, pivot and rejection, one with the newest rejection.\<close>

definition is_newest :: "(nat \<Rightarrow> int) \<Rightarrow> (nat \<times> nat) set \<Rightarrow> (nat \<times> int) option \<Rightarrow> bool" where
  "is_newest level S best \<longleftrightarrow>
     (case best of None \<Rightarrow> S = {}
      | Some (j, l) \<Rightarrow> (\<exists>i. (i, j) \<in> S \<and> l = level i) \<and> (\<forall>p \<in> S. snd p \<le> j))"

lemma is_newest_newer:
  assumes "is_newest level S best" "\<And>j l. s = Some (j, l) \<longleftrightarrow> is_setup i j \<and> l = level i"
  shows "is_newest level (S \<union> {(i', j). i' = i \<and> is_setup i j}) (newer best s)"
proof (cases s)
  case None
  then have "{(i', j). i' = i \<and> is_setup i j} = {}" using assms(2) by auto
  with None assms(1) show ?thesis by simp
next
  case (Some p)
  obtain j l where p: "p = (j, l)" by (cases p)
  then have l: "l = level i" using assms(2) Some by blast
  have all: "is_setup i j' \<longleftrightarrow> j' = j" for j' using assms(2) [of j' "level i"] Some p l by auto
  have S: "{(i', j). i' = i \<and> is_setup i j} = {(i, j)}" using all by auto
  show ?thesis
  proof (cases best)
    case None
    with assms(1) Some p l show ?thesis unfolding S by (auto simp: is_newest_def)
  next
    case (Some b)
    obtain j0 l0 where b: "b = (j0, l0)" by (cases b)
    have old: "\<exists>i0. (i0, j0) \<in> S \<and> l0 = level i0" "\<forall>q \<in> S. snd q \<le> j0"
      using assms(1) Some b by (auto simp: is_newest_def)
    then show ?thesis using Some \<open>s = Some p\<close> p b l unfolding S by (fastforce simp: is_newest_def)
  qed
qed

text \<open>The candidates, as indices into the closed bars.\<close>

definition candidate :: "sweep_reversal \<Rightarrow> nat \<Rightarrow> nat \<Rightarrow> bool" where
  "candidate self n i \<longleftrightarrow> z_pivotBars self \<le> int i \<and> int n - z_lookbackBars self \<le> int i \<and> int i + z_pivotBars self < int n"

definition short_setups :: "sweep_reversal \<Rightarrow> ohlc_object list \<Rightarrow> int \<Rightarrow> (nat \<times> nat) set" where
  "short_setups self bars points = {(i, j). candidate self (length bars) i \<and> short_setup self bars points i j}"

definition long_setups :: "sweep_reversal \<Rightarrow> ohlc_object list \<Rightarrow> int \<Rightarrow> (nat \<times> nat) set" where
  "long_setups self bars points = {(i, j). candidate self (length bars) i \<and> long_setup self bars points i j}"

lemma pivot_scan_spec:
  assumes "1 \<le> z_pivotBars self"
    "\<forall>i \<in> set is. nat (z_pivotBars self) \<le> i \<and> i + nat (z_pivotBars self) < length bars"
    "is_newest (\<lambda>i. b_high (bars ! i)) S bs" "is_newest (\<lambda>i. b_low (bars ! i)) L bl"
  shows "\<exists>bs' bl'. pivot_scan self bars points is bs bl = Inr (bs', bl')
     \<and> is_newest (\<lambda>i. b_high (bars ! i)) (S \<union> {(i, j). i \<in> set is \<and> short_setup self bars points i j}) bs'
     \<and> is_newest (\<lambda>i. b_low (bars ! i)) (L \<union> {(i, j). i \<in> set is \<and> long_setup self bars points i j}) bl'"
  using assms(2-4)
proof (induction "is" arbitrary: bs bl S L)
  case (Cons i "is")
  have i: "nat (z_pivotBars self) \<le> i" "i + nat (z_pivotBars self) < length bars" using Cons.prems(1) by auto
  obtain s where s: "sweep_high self bars points i = Inr s"
    "\<And>j level. s = Some (j, level) \<longleftrightarrow> short_setup self bars points i j \<and> level = b_high (bars ! i)"
    using sweep_high_spec [OF assms(1) i] by blast
  obtain t where t: "sweep_low self bars points i = Inr t"
    "\<And>j level. t = Some (j, level) \<longleftrightarrow> long_setup self bars points i j \<and> level = b_low (bars ! i)"
    using sweep_low_spec [OF assms(1) i] by blast
  have S: "S \<union> {(i', j). i' = i \<and> short_setup self bars points i j}
        \<union> {(i', j). i' \<in> set is \<and> short_setup self bars points i' j}
      = S \<union> {(i', j). i' \<in> set (i # is) \<and> short_setup self bars points i' j}" by auto
  have L: "L \<union> {(i', j). i' = i \<and> long_setup self bars points i j}
        \<union> {(i', j). i' \<in> set is \<and> long_setup self bars points i' j}
      = L \<union> {(i', j). i' \<in> set (i # is) \<and> long_setup self bars points i' j}" by auto
  note new = is_newest_newer [where is_setup = "short_setup self bars points", OF Cons.prems(2) s(2)]
    is_newest_newer [where is_setup = "long_setup self bars points", OF Cons.prems(3) t(2)]
  from Cons.IH [OF _ new] show ?case unfolding S L using Cons.prems(1) s(1) t(1) by simp
qed simp

lemma candidates_exact:
  assumes "1 \<le> pivot" "pivot < lookback" "lookback + pivot \<le> int n" "int n < 2 ^ 31"
  shows "pivot_candidates (int n) pivot lookback = Inr [nat (max pivot (int n - lookback))..<nat (int n - pivot)]"
proof -
  have "u64 pivot = pivot" "u64 lookback = lookback" "u64 (int n - lookback) = int n - lookback"
    using assms by (simp_all add: u64_def)
  then show ?thesis using assms by (simp add: pivot_candidates_def Let_def)
qed

lemma sweep_reversal_scan:
  assumes "sweep_reversal_ok self" "span_last series (ov_OHLC_COUNT (z_signalCfg self)) = Some signalBars"
    and store: "store_find store (p_symbol tick) (ov_OHLC_MINUTES (z_signalCfg self)) = Some series"
    and bars: "bars = butlast signalBars" and points: "points = i32 (z_minSweepPips self * get_scale (p_symbol tick))"
  obtains bs bl where "sweep_reversal_decide self tick store = Inr (sweep_verdict tick bs bl)"
    "is_newest (\<lambda>i. b_high (bars ! i)) (short_setups self bars points) bs"
    "is_newest (\<lambda>i. b_low (bars ! i)) (long_setups self bars points) bl"
proof -
  let ?n = "length bars" and ?p = "z_pivotBars self" and ?l = "z_lookbackBars self"
  have len: "int (length signalBars) = ov_OHLC_COUNT (z_signalCfg self)"
    using assms(1,2) by (auto simp: sweep_reversal_ok_def intro!: span_last_length)
  then have n: "1 \<le> ?p" "?p < ?l" "?l + ?p \<le> int ?n" "int ?n < 2 ^ 31" "signalBars \<noteq> []"
    using assms(1) by (auto simp: sweep_reversal_ok_def bars)
  let ?is = "[nat (max ?p (int ?n - ?l))..<nat (int ?n - ?p)]"
  have cand: "pivot_candidates (int ?n) ?p ?l = Inr ?is" by (rule candidates_exact [OF n(1-4)])
  have set: "i \<in> set ?is \<longleftrightarrow> candidate self ?n i" for i using n by (auto simp: candidate_def)
  have range: "\<forall>i \<in> set ?is. nat ?p \<le> i \<and> i + nat ?p < ?n" unfolding set using n by (auto simp: candidate_def)
  from pivot_scan_spec [OF n(1) range, of "{}" None "{}" None points]
  obtain bs bl where scan: "pivot_scan self bars points ?is None None = Inr (bs, bl)"
    and newest: "is_newest (\<lambda>i. b_high (bars ! i)) (short_setups self bars points) bs"
      "is_newest (\<lambda>i. b_low (bars ! i)) (long_setups self bars points) bl"
    unfolding set short_setups_def long_setups_def by (auto simp: is_newest_def [of _ "{}" None])
  have decide: "sweep_reversal_decide self tick store = Inr (sweep_verdict tick bs bl)"
    using assms(2) store n(5) cand scan
    by (simp add: sweep_reversal_decide_def closed_bars_total Let_def bars points)
  show thesis by (rule that [OF decide newest])
qed

lemma sweep_reversal_decide_total:
  assumes "sweep_reversal_ok self"
  shows "\<exists>signal. sweep_reversal_decide self tick store = Inr signal"
proof (cases "\<exists>series bars. store_find store (p_symbol tick) (ov_OHLC_MINUTES (z_signalCfg self)) = Some series
      \<and> span_last series (ov_OHLC_COUNT (z_signalCfg self)) = Some bars")
  case False
  then show ?thesis by (auto simp: sweep_reversal_decide_def split: option.split)
next
  case True
  then obtain series bars where "store_find store (p_symbol tick) (ov_OHLC_MINUTES (z_signalCfg self)) = Some series"
    "span_last series (ov_OHLC_COUNT (z_signalCfg self)) = Some bars" by blast
  with sweep_reversal_scan [OF assms this(2,1) refl refl] show ?thesis by metis
qed

interpretation sweep_rev: total_strategy sweep_reversal_impl sweep_reversal_ok
  unfolding sweep_reversal_impl_def by (intro capped_total sweep_reversal_decide_total)

lemma sweep_verdict_cases:
  "sweep_verdict tick bs bl = Some SHORT \<longleftrightarrow>
     (\<exists>j l. bs = Some (j, l) \<and> p_bid tick < l \<and> (\<forall>j' l'. bl = Some (j', l') \<longrightarrow> j' < j))"
  "sweep_verdict tick bs bl = Some LONG \<longleftrightarrow>
     (\<exists>j l. bl = Some (j, l) \<and> l < p_ask tick \<and> (\<forall>j' l'. bs = Some (j', l') \<longrightarrow> j' < j))"
  "bs = None \<and> bl = None \<or> (\<exists>j l l'. bs = Some (j, l) \<and> bl = Some (j, l')) \<Longrightarrow> sweep_verdict tick bs bl = None"
  by (auto simp: sweep_verdict_def split: option.splits)

lemma is_newest_SomeD:
  assumes "is_newest level S (Some (j, l))"
  shows "\<exists>i. (i, j) \<in> S \<and> l = level i" "\<forall>p \<in> S. snd p \<le> j"
  using assms by (auto simp: is_newest_def)

lemma is_newest_maximal:
  assumes "is_newest level S best" "(i, j) \<in> S" "\<forall>p \<in> S. snd p \<le> j"
  shows "\<exists>l. best = Some (j, l)"
  using assms by (force simp: is_newest_def split: option.splits prod.splits intro: antisym)

lemma is_newest_less:
  assumes "is_newest level S best" "\<forall>j' l'. best = Some (j', l') \<longrightarrow> j' < j"
  shows "\<forall>p \<in> S. snd p < j"
  using assms by (fastforce simp: is_newest_def split: option.splits prod.splits)

text \<open>C16: an entry of the sweep reversal is always justified by the freshest evidence. It sells
  only on a rejected sweep of a swing high inside the lookback that nothing has closed above
  since, that no other sweep, high or low, is as fresh as from the other side, and with the
  bid back below the swept level; it buys on the mirror image; with no such sweep, or with the
  two sides rejected by the same bar, it stays out.\<close>

theorem sweep_entry_is_justified:
  assumes "sweep_reversal_ok self" "span_last series (ov_OHLC_COUNT (z_signalCfg self)) = Some signalBars"
    and "store_find store (p_symbol tick) (ov_OHLC_MINUTES (z_signalCfg self)) = Some series"
  shows "(let bars = butlast signalBars; points = i32 (z_minSweepPips self * get_scale (p_symbol tick));
              S = short_setups self bars points; L = long_setups self bars points in
    (sweep_reversal_decide self tick store = Inr (Some SHORT) \<longrightarrow>
       (\<exists>i j. (i, j) \<in> S \<and> p_bid tick < b_high (bars ! i) \<and> (\<forall>p \<in> S. snd p \<le> j) \<and> (\<forall>p \<in> L. snd p < j)))
    \<and> (sweep_reversal_decide self tick store = Inr (Some LONG) \<longrightarrow>
       (\<exists>i j. (i, j) \<in> L \<and> b_low (bars ! i) < p_ask tick \<and> (\<forall>p \<in> L. snd p \<le> j) \<and> (\<forall>p \<in> S. snd p < j)))
    \<and> (S = {} \<and> L = {} \<or> (\<exists>i i' j. (i, j) \<in> S \<and> (i', j) \<in> L \<and> (\<forall>p \<in> S \<union> L. snd p \<le> j)) \<longrightarrow>
       sweep_reversal_decide self tick store = Inr None))"
proof -
  define bars points where bars_def: "bars = butlast signalBars" and points_def: "points = i32 (z_minSweepPips self * get_scale (p_symbol tick))"
  obtain bs bl where v: "sweep_reversal_decide self tick store = Inr (sweep_verdict tick bs bl)"
    and S: "is_newest (\<lambda>i. b_high (bars ! i)) (short_setups self bars points) bs"
    and L: "is_newest (\<lambda>i. b_low (bars ! i)) (long_setups self bars points) bl"
    by (rule sweep_reversal_scan [OF assms bars_def points_def])
  have a: "\<exists>i j. (i, j) \<in> short_setups self bars points \<and> p_bid tick < b_high (bars ! i)
      \<and> (\<forall>p \<in> short_setups self bars points. snd p \<le> j) \<and> (\<forall>p \<in> long_setups self bars points. snd p < j)"
    if sig: "sweep_verdict tick bs bl = Some SHORT"
  proof -
    obtain j l where j: "bs = Some (j, l)" "p_bid tick < l" "\<forall>j' l'. bl = Some (j', l') \<longrightarrow> j' < j"
      using sig unfolding sweep_verdict_cases(1) by blast
    obtain i where "(i, j) \<in> short_setups self bars points" "l = b_high (bars ! i)"
      using is_newest_SomeD(1) [OF S [unfolded j(1)]] by blast
    then show ?thesis
      using j(2) is_newest_SomeD(2) [OF S [unfolded j(1)]] is_newest_less [OF L j(3)] by blast
  qed
  have b: "\<exists>i j. (i, j) \<in> long_setups self bars points \<and> b_low (bars ! i) < p_ask tick
      \<and> (\<forall>p \<in> long_setups self bars points. snd p \<le> j) \<and> (\<forall>p \<in> short_setups self bars points. snd p < j)"
    if sig: "sweep_verdict tick bs bl = Some LONG"
  proof -
    obtain j l where j: "bl = Some (j, l)" "l < p_ask tick" "\<forall>j' l'. bs = Some (j', l') \<longrightarrow> j' < j"
      using sig unfolding sweep_verdict_cases(2) by blast
    obtain i where "(i, j) \<in> long_setups self bars points" "l = b_low (bars ! i)"
      using is_newest_SomeD(1) [OF L [unfolded j(1)]] by blast
    then show ?thesis
      using j(2) is_newest_SomeD(2) [OF L [unfolded j(1)]] is_newest_less [OF S j(3)] by blast
  qed
  have c: "sweep_verdict tick bs bl = None"
    if "short_setups self bars points = {}" "long_setups self bars points = {}"
  proof -
    have "bs = None" "bl = None" using that S L is_newest_SomeD(1) by (cases bs; cases bl; fastforce)+
    then show ?thesis by (simp add: sweep_verdict_cases(3))
  qed
  have d: "sweep_verdict tick bs bl = None"
    if prems: "(i, j) \<in> short_setups self bars points" "(i', j) \<in> long_setups self bars points"
      "\<forall>p \<in> short_setups self bars points \<union> long_setups self bars points. snd p \<le> j" for i i' j
  proof -
    obtain l l' where "bs = Some (j, l)" "bl = Some (j, l')"
      using is_newest_maximal [OF S prems(1)] is_newest_maximal [OF L prems(2)] prems(3) by auto
    then show ?thesis by (simp add: sweep_verdict_cases(3))
  qed
  show ?thesis
    unfolding Let_def bars_def [symmetric] points_def [symmetric] v sum.inject
    by (intro conjI impI, erule a, erule b, elim disjE exE conjE) (rule c d; assumption)+
qed

text \<open>A high of 20 is pierced to 25 and closed below; the bid is back under it.\<close>

definition demo_sweep_strategy :: sweep_reversal where
  "demo_sweep_strategy = \<lparr>z_signalCfg = \<lparr>ov_OHLC_COUNT = 5, ov_OHLC_MINUTES = 5\<rparr>, z_pivotBars = 1,
     z_lookbackBars = 3, z_minSweepPips = 0, z_displacementAtrTenths = 0, z_validBars = 1, z_maxTradeDuration = 0\<rparr>"

definition demo_sweep_bars :: "ohlc_object list" where
  "demo_sweep_bars = map (\<lambda>(h, l, c). \<lparr>b_date = 0, b_open = c, b_close = c, b_high = h, b_low = l, b_complete = False\<rparr>)
     [(10, 5, 8), (20, 6, 9), (15, 7, 9), (25, 8, 12), (14, 9, 13)]"

definition demo_sweep_store :: bar_store where
  "demo_sweep_store = \<lparr>bs_specs = [\<lparr>s_minutes = 5, s_count = 5\<rparr>],
     bs_bySymbol = [''EURUSD'' \<mapsto> [demo_sweep_bars]], bs_rangeSpecs = [], bs_rangeBySymbol = Map.empty\<rparr>"

definition demo_sweep_tick :: price_data where
  "demo_sweep_tick = \<lparr>p_ask = 16, p_bid = 15, p_timestamp = 5, p_symbol = ''EURUSD''\<rparr>"

theorem sweep_entry_is_justified_witness:
  "\<exists>i j. (i, j) \<in> short_setups demo_sweep_strategy (butlast demo_sweep_bars) 0
     \<and> p_bid demo_sweep_tick < b_high (demo_sweep_bars ! i)"
proof -
  have decide: "sweep_reversal_decide demo_sweep_strategy demo_sweep_tick demo_sweep_store = Inr (Some SHORT)"
    by code_simp
  have ok: "sweep_reversal_ok demo_sweep_strategy" by (simp add: sweep_reversal_ok_def demo_sweep_strategy_def)
  have span: "span_last demo_sweep_bars (ov_OHLC_COUNT (z_signalCfg demo_sweep_strategy)) = Some demo_sweep_bars"
    by (simp add: span_last_def demo_sweep_strategy_def demo_sweep_bars_def u64_def lastn_def)
  have find: "store_find demo_sweep_store (p_symbol demo_sweep_tick) (ov_OHLC_MINUTES (z_signalCfg demo_sweep_strategy))
      = Some demo_sweep_bars"
    by (simp add: store_find_def demo_sweep_store_def demo_sweep_tick_def demo_sweep_strategy_def Let_def)
  have points: "i32 (z_minSweepPips demo_sweep_strategy * get_scale (p_symbol demo_sweep_tick)) = 0"
    by (simp add: demo_sweep_strategy_def)
  obtain i j where ij: "(i, j) \<in> short_setups demo_sweep_strategy (butlast demo_sweep_bars) 0"
    "p_bid demo_sweep_tick < b_high (butlast demo_sweep_bars ! i)"
    using sweep_entry_is_justified [OF ok span find] decide unfolding Let_def points by blast
  then have "i < length (butlast demo_sweep_bars)" by (simp add: short_setups_def candidate_def demo_sweep_strategy_def)
  then have "butlast demo_sweep_bars ! i = demo_sweep_bars ! i" by (rule nth_butlast)
  with ij show ?thesis by auto
qed

end
