(* ===== verification/RangeVelocity.thy ===== *)
theory RangeVelocity
  imports BarScan
begin

section \<open>RangeVelocityStrategy\<close>

text \<open>
  \<open>source/strategies/rangeVelocity/rangeVelocityStrategy.cppm\<close>: a run of range bars in one
  direction, each faster than a fraction of the median before it. Both hooks judge only the tick
  that completes a bar. \<open>std::ranges::nth_element\<close> leaves at a position what sorting would.
\<close>

record range_velocity =
  v_spec :: range_bar_spec
  v_runBars :: int
  v_speedLookbackBars :: int
  v_speedRatioPercent :: int
  v_exitRunBars :: int
  v_maxTradeDuration :: int

definition barDirection :: "ohlc_object \<Rightarrow> int" where
  "barDirection bar = (if b_close bar > b_open bar then 1 else 0) - (if b_close bar < b_open bar then 1 else 0)"

definition new_range_velocity :: "strategy_config \<Rightarrow> range_velocity result" where
  "new_range_velocity config =
     (case sc_RANGE_VARIABLES config of
        [] \<Rightarrow> Inl InvalidArgument
      | rangeVars # _ \<Rightarrow>
          if rv_RANGE_ATR_TICK_WINDOW rangeVars < 1 \<or> rv_RANGE_ATR_PERCENT rangeVars < 1 \<or> rv_RANGE_COUNT rangeVars < 1
          then Inl InvalidArgument
          else (case sv_RANGE_VELOCITY_VARIABLES (sc_STRATEGY_VARIABLES config) of
            None \<Rightarrow> Inl InvalidArgument
          | Some rv \<Rightarrow>
              if ve_RUN_BARS rv < 1 then Inl InvalidArgument
              else if ve_SPEED_LOOKBACK_BARS rv < 1 then Inl InvalidArgument
              else if ve_SPEED_RATIO_PERCENT rv < 1 then Inl InvalidArgument
              else if ve_EXIT_RUN_BARS rv < 1 then Inl InvalidArgument
              else if ve_MAX_TRADE_DURATION_MINUTES rv < 0 then Inl InvalidArgument
              else if rv_RANGE_COUNT rangeVars
                        < max (i32 (ve_RUN_BARS rv + ve_SPEED_LOOKBACK_BARS rv)) (ve_EXIT_RUN_BARS rv)
              then Inl InvalidArgument
              else Inr \<lparr>v_spec = \<lparr>rs_atrTickWindow = rv_RANGE_ATR_TICK_WINDOW rangeVars,
                            rs_atrPercent = rv_RANGE_ATR_PERCENT rangeVars, rs_count = rv_RANGE_COUNT rangeVars\<rparr>,
                     v_runBars = ve_RUN_BARS rv, v_speedLookbackBars = ve_SPEED_LOOKBACK_BARS rv,
                     v_speedRatioPercent = ve_SPEED_RATIO_PERCENT rv, v_exitRunBars = ve_EXIT_RUN_BARS rv,
                     v_maxTradeDuration = ve_MAX_TRADE_DURATION_MINUTES rv\<rparr>))"

text \<open>Open-to-open durations, and the loop that stops at the first bar slower than \<open>allowance\<close>.\<close>

fun open_durations :: "ohlc_object list \<Rightarrow> int list \<Rightarrow> int list result" where
  "open_durations bars [] = Inr []"
| "open_durations bars (i # is) =
     bind (bar_at bars (i + 1)) (\<lambda>after.
     bind (bar_at bars i) (\<lambda>bar.
     bind (open_durations bars is) (\<lambda>rest. Inr (i64 (b_date after - b_date bar) # rest))))"

fun any_slow :: "ohlc_object list \<Rightarrow> int \<Rightarrow> int list \<Rightarrow> bool result" where
  "any_slow bars allowance [] = Inr False"
| "any_slow bars allowance (i # is) =
     bind (bar_at bars (i + 1)) (\<lambda>after.
     bind (bar_at bars i) (\<lambda>bar.
     if i64 (i64 (b_date after - b_date bar) * 100) > allowance then Inr True
     else any_slow bars allowance is))"

definition range_velocity_decide :: "range_velocity \<Rightarrow> price_data \<Rightarrow> bar_store \<Rightarrow> direction option result" where
  "range_velocity_decide self tick store =
     (case store_findRange store (p_symbol tick) (v_spec self) of
        None \<Rightarrow> Inr None
      | Some bars \<Rightarrow>
          if bars = [] \<or> \<not> b_complete (last bars) then Inr None
          else let n = int (length bars); k = u64 (v_runBars self); m = u64 (v_speedLookbackBars self) in
            if n < u64 (k + m) then Inr None
            else bind (bar_at bars (n - 1)) (\<lambda>newest.
              let dir = barDirection newest in
              if dir = 0 then Inr None
              else bind (any_bar (\<lambda>bar. barDirection bar \<noteq> dir) bars [n - k..n - 2]) (\<lambda>broken.
              if broken then Inr None
              else bind (open_durations bars [n - k - m..n - k - 1]) (\<lambda>durations.
              let median = sort durations ! (nat m div 2) in
              if median \<le> 0 then Inr None
              else let allowance = i64 (median * v_speedRatioPercent self) in
                bind (any_slow bars allowance [n - k..n - 2]) (\<lambda>slow.
                if slow then Inr None
                else let newestDuration = i64 (p_timestamp tick - b_date newest) in
                  if i64 (newestDuration * 100) > allowance then Inr None
                  else Inr (Some (if dir > 0 then LONG else SHORT)))))))"

definition range_velocity_during ::
  "range_velocity \<Rightarrow> price_data \<Rightarrow> bar_store \<Rightarrow> trade_manager \<Rightarrow> trade_manager result" where
  "range_velocity_during self price store tm =
     (case closeIfPastCap price tm (v_maxTradeDuration self) of
        (True, tm') \<Rightarrow> Inr tm'
      | (False, tm') \<Rightarrow>
          (case findActiveTrade tm' (p_symbol price) of
             None \<Rightarrow> Inr tm'
           | Some trade \<Rightarrow>
               let exitPrice = (if t_direction trade = LONG then p_bid price else p_ask price) in
               (case store_findRange store (p_symbol price) (v_spec self) of
                  None \<Rightarrow> Inr tm'
                | Some series \<Rightarrow>
                    if series = [] \<or> \<not> b_complete (last series) then Inr tm'
                    else let n = int (length series); e = u64 (v_exitRunBars self) in
                      if n < e then Inr tm'
                      else let against = (if t_direction trade = LONG then - 1 else 1) in
                        bind (any_bar (\<lambda>bar. barDirection bar \<noteq> against) series [n - e..n - 1]) (\<lambda>other.
                        if other then Inr tm'
                        else Inr (snd (closeTrade tm' (p_symbol price) exitPrice price False))))))"

definition range_velocity_impl :: "range_velocity strategy" where
  "range_velocity_impl =
     \<lparr>sg_decide = (\<lambda>self tick store. bind (range_velocity_decide self tick store) (\<lambda>signal. Inr (signal, self))),
      sg_during = (\<lambda>self price store tm. bind (range_velocity_during self price store tm) (\<lambda>tm'. Inr (tm', self)))\<rparr>"

subsection \<open>Accepted configurations stay inside the bars\<close>

definition range_velocity_ok :: "range_velocity \<Rightarrow> bool" where
  "range_velocity_ok self \<longleftrightarrow> 1 \<le> v_runBars self \<and> v_runBars self < 2 ^ 31
     \<and> 1 \<le> v_speedLookbackBars self \<and> v_speedLookbackBars self < 2 ^ 31
     \<and> 1 \<le> v_exitRunBars self \<and> v_exitRunBars self < 2 ^ 31"

lemma new_range_velocity_ok:
  assumes "new_range_velocity config = Inr self"
    and "\<And>v. sv_RANGE_VELOCITY_VARIABLES (sc_STRATEGY_VARIABLES config) = Some v \<Longrightarrow>
           in_i32 (ve_RUN_BARS v) \<and> in_i32 (ve_SPEED_LOOKBACK_BARS v) \<and> in_i32 (ve_EXIT_RUN_BARS v)"
  shows "range_velocity_ok self"
  using assms by (auto simp: new_range_velocity_def range_velocity_ok_def in_i32_less
      split: list.splits option.splits if_splits)

lemma open_durations_inside:
  "\<forall>i \<in> set is. inside bars i \<and> inside bars (i + 1) \<Longrightarrow>
     open_durations bars is = Inr (map (\<lambda>i. i64 (b_date (bars ! nat (i + 1)) - b_date (bars ! nat i))) is)"
  by (induction "is") auto

lemma any_slow_inside:
  "\<forall>i \<in> set is. inside bars i \<and> inside bars (i + 1) \<Longrightarrow>
     any_slow bars allowance is = Inr (\<exists>i \<in> set is.
       i64 (i64 (b_date (bars ! nat (i + 1)) - b_date (bars ! nat i)) * 100) > allowance)"
  by (induction "is") auto

text \<open>What \<open>decide\<close> answers, with the loops replaced by quantifiers.\<close>

definition fast_run :: "range_velocity \<Rightarrow> ohlc_object list \<Rightarrow> time \<Rightarrow> int \<Rightarrow> bool" where
  "fast_run self bars now dir \<longleftrightarrow>
     (let n = int (length bars); k = v_runBars self; m = v_speedLookbackBars self;
          gap = (\<lambda>i. i64 (b_date (bars ! nat (i + 1)) - b_date (bars ! nat i)));
          median = sort (map gap [n - k - m..n - k - 1]) ! (nat m div 2);
          allowance = i64 (median * v_speedRatioPercent self) in
      k + m \<le> n \<and> (\<forall>i \<in> {n - k..n - 1}. barDirection (bars ! nat i) = dir) \<and> 0 < median
      \<and> (\<forall>i \<in> {n - k..n - 2}. i64 (gap i * 100) \<le> allowance)
      \<and> i64 (i64 (now - b_date (last bars)) * 100) \<le> allowance)"

lemma barDirection_cases: "barDirection bar \<in> {-1, 0, 1}"
  by (simp add: barDirection_def)

lemma range_velocity_decide_rule:
  assumes "range_velocity_ok self" "store_findRange store (p_symbol tick) (v_spec self) = Some bars"
    "bars \<noteq> []" "b_complete (last bars)"
  shows "range_velocity_decide self tick store =
    Inr (if fast_run self bars (p_timestamp tick) 1 then Some LONG
         else if fast_run self bars (p_timestamp tick) (-1) then Some SHORT else None)"
proof -
  let ?n = "int (length bars)" and ?k = "v_runBars self" and ?m = "v_speedLookbackBars self"
  have k: "1 \<le> ?k" "1 \<le> ?m" "u64 ?k = ?k" "u64 ?m = ?m" "u64 (?k + ?m) = ?k + ?m"
    using assms(1) by (auto simp: range_velocity_ok_def u64_def)
  show ?thesis
  proof (cases "?n < ?k + ?m")
    case True
    then show ?thesis using assms k by (simp add: range_velocity_decide_def fast_run_def Let_def)
  next
    case False
    let ?gap = "\<lambda>i. i64 (b_date (bars ! nat (i + 1)) - b_date (bars ! nat i))"
    have "nat (?n - 1) = length bars - 1" by arith
    then have newest: "bar_at bars (?n - 1) = Inr (last bars)" "bars ! nat (?n - 1) = last bars"
      using assms(3) by (simp_all add: inside_def last_conv_nth)
    have run: "any_bar (\<lambda>bar. barDirection bar \<noteq> d) bars [?n - ?k..?n - 2] =
        Inr (\<exists>i \<in> {?n - ?k..?n - 2}. barDirection (bars ! nat i) \<noteq> d)" for d
      using False k by (subst any_bar_inside) (auto simp: inside_def)
    have durations: "open_durations bars [?n - ?k - ?m..?n - ?k - 1] = Inr (map ?gap [?n - ?k - ?m..?n - ?k - 1])"
      using False k by (intro open_durations_inside) (auto simp: inside_def)
    define quick where "quick = (\<lambda>a. \<forall>i \<in> {?n - ?k..?n - 2}. i64 (?gap i * 100) \<le> a)"
    have slow: "any_slow bars a [?n - ?k..?n - 2] = Inr (\<not> quick a)" for a
      using False k unfolding quick_def by (subst any_slow_inside) (auto simp: inside_def not_le)
    have split: "{?n - ?k..?n - 1} = insert (?n - 1) {?n - ?k..?n - 2}" using k by auto
    have all: "(\<forall>i \<in> {?n - ?k..?n - 1}. barDirection (bars ! nat i) = d) \<longleftrightarrow>
        barDirection (last bars) = d \<and> \<not> (\<exists>i \<in> {?n - ?k..?n - 2}. barDirection (bars ! nat i) \<noteq> d)" for d
      unfolding split using newest(2) by simp
    define med where "med = sort (map ?gap [?n - ?k - ?m..?n - ?k - 1]) ! (nat ?m div 2)"
    consider "barDirection (last bars) = 0" | "barDirection (last bars) = 1" | "barDirection (last bars) = - 1"
      using barDirection_cases [of "last bars"] by blast
    then show ?thesis
      unfolding range_velocity_decide_def fast_run_def Let_def assms(2) option.case newest k(3-5) bind_simps
        run durations slow all med_def [symmetric] quick_def [THEN fun_cong, symmetric]
      using False assms(3,4) by cases (simp_all add: not_less not_le)
  qed
qed

lemma range_velocity_decide_total:
  assumes "range_velocity_ok self"
  shows "\<exists>signal. range_velocity_decide self tick store = Inr signal"
proof (cases "\<exists>bars. store_findRange store (p_symbol tick) (v_spec self) = Some bars \<and> bars \<noteq> [] \<and> b_complete (last bars)")
  case True
  then show ?thesis using range_velocity_decide_rule [OF assms] by blast
next
  case False
  then show ?thesis by (auto simp: range_velocity_decide_def split: option.split)
qed

text \<open>The second half of \<open>during\<close>: a run of closed bars against the position ends it.\<close>

definition run_against :: "range_velocity \<Rightarrow> ohlc_object list \<Rightarrow> trade \<Rightarrow> bool" where
  "run_against self bars trade \<longleftrightarrow> bars \<noteq> [] \<and> b_complete (last bars) \<and> v_exitRunBars self \<le> int (length bars)
     \<and> (\<forall>i \<in> {int (length bars) - v_exitRunBars self..int (length bars) - 1}.
          barDirection (bars ! nat i) = (if t_direction trade = LONG then - 1 else 1))"

lemma range_velocity_during_rule:
  assumes "range_velocity_ok self" "closeIfPastCap price tm (v_maxTradeDuration self) = (False, tm)"
    "findActiveTrade tm (p_symbol price) = Some trade"
  shows "range_velocity_during self price store tm =
    Inr (case store_findRange store (p_symbol price) (v_spec self) of
           None \<Rightarrow> tm
         | Some bars \<Rightarrow> if run_against self bars trade
             then snd (closeTrade tm (p_symbol price)
                    (if t_direction trade = LONG then p_bid price else p_ask price) price False) else tm)"
proof (cases "store_findRange store (p_symbol price) (v_spec self)")
  case None
  then show ?thesis using assms by (simp add: range_velocity_during_def)
next
  case (Some bars)
  have e: "1 \<le> v_exitRunBars self" "u64 (v_exitRunBars self) = v_exitRunBars self"
    using assms(1) by (auto simp: range_velocity_ok_def u64_def)
  have run: "any_bar (\<lambda>bar. barDirection bar \<noteq> d) bars [int (length bars) - v_exitRunBars self..int (length bars) - 1] =
      Inr (\<exists>i \<in> {int (length bars) - v_exitRunBars self..int (length bars) - 1}. barDirection (bars ! nat i) \<noteq> d)"
    if "v_exitRunBars self \<le> int (length bars)" for d
    using that e by (subst any_bar_inside) (auto simp: inside_def)
  show ?thesis
    using Some assms(2,3) e run by (auto simp: range_velocity_during_def run_against_def Let_def not_less)
qed

lemma closeIfPastCap_cases:
  "closeIfPastCap price tm cap = (False, tm) \<or>
   (\<exists>trade. findActiveTrade tm (p_symbol price) = Some trade
      \<and> closeIfPastCap price tm cap = (True, snd (closeTrade tm (p_symbol price)
           (if t_direction trade = LONG then p_bid price else p_ask price) price False)))"
  by (auto simp: closeIfPastCap_def Let_def split: option.split)

lemma range_velocity_during_cases:
  assumes "range_velocity_ok self"
  obtains tm' where "range_velocity_during self price store tm = Inr tm'"
    "tm' = tm \<or> (\<exists>p. tm' = snd (closeTrade tm (p_symbol price) p price False))"
proof -
  consider (capped) p where "closeIfPastCap price tm (v_maxTradeDuration self)
        = (True, snd (closeTrade tm (p_symbol price) p price False))"
    | (flat) "closeIfPastCap price tm (v_maxTradeDuration self) = (False, tm)" "findActiveTrade tm (p_symbol price) = None"
    | (held) trade where "closeIfPastCap price tm (v_maxTradeDuration self) = (False, tm)"
        "findActiveTrade tm (p_symbol price) = Some trade"
    using closeIfPastCap_cases [of price tm "v_maxTradeDuration self"] by (metis option.exhaust)
  then show thesis
  proof cases
    case capped
    then show thesis by (intro that [of "snd (closeTrade tm (p_symbol price) p price False)"])
        (auto simp: range_velocity_during_def)
  next
    case flat
    then show thesis by (intro that [of tm]) (simp_all add: range_velocity_during_def)
  next
    case held
    show thesis
      by (rule that [OF range_velocity_during_rule [OF assms held]]) (auto split: option.split)
  qed
qed

interpretation velocity: total_strategy range_velocity_impl range_velocity_ok
proof unfold_locales
  show "exits_only tm tm'"
    if inv: "tm_inv tm" and during: "sg_during range_velocity_impl s tick store tm = Inr (tm', s')" for tm s tick store tm' s'
  proof -
    from during have "range_velocity_during s tick store tm = Inr tm'"
      by (cases "range_velocity_during s tick store tm") (auto simp: range_velocity_impl_def)
    then have "tm' = tm \<or> (\<exists>p. tm' = snd (closeTrade tm (p_symbol tick) p tick False))"
      using closeIfPastCap_cases [of tick tm "v_maxTradeDuration s"]
      by (auto simp: range_velocity_during_def Let_def bind_Inr_iff split: option.splits if_splits)
    then show ?thesis using inv by (auto simp: exits_only_closeTrade exits_only_refl)
  qed
  show "\<exists>signal s'. sg_decide range_velocity_impl s tick store = Inr (signal, s') \<and> range_velocity_ok s'"
    if "range_velocity_ok s" for s tick store
    using range_velocity_decide_total [OF that, of tick store] that by (auto simp: range_velocity_impl_def)
  show "\<exists>tm' s'. sg_during range_velocity_impl s tick store tm = Inr (tm', s') \<and> range_velocity_ok s'"
    if ok: "range_velocity_ok s" for s tick store tm
  proof -
    obtain tm' where "range_velocity_during s tick store tm = Inr tm'"
      by (rule range_velocity_during_cases [OF ok])
    then show ?thesis using ok by (simp add: range_velocity_impl_def)
  qed
qed

text \<open>C18: a position opened on a signal of the range velocity strategy survives the tick that
  opened it: the newest closed bar points with the entry, so no run against it can have
  completed, and no time has passed. The signal itself means that enough bars are closed and
  that the last \<open>RUN_BARS\<close> of them all point the signalled way.\<close>

theorem velocity_entry_survives_its_tick:
  assumes "range_velocity_ok self" "range_velocity_decide self tick store = Inr (Some d)"
    and "findActiveTrade tm (p_symbol tick) = Some trade" "t_direction trade = d" "t_openTime trade = p_timestamp tick"
  shows "range_velocity_during self tick store tm = Inr tm
    \<and> (\<exists>bars. store_findRange store (p_symbol tick) (v_spec self) = Some bars
         \<and> v_runBars self + v_speedLookbackBars self \<le> int (length bars)
         \<and> (\<forall>i \<in> {int (length bars) - v_runBars self..int (length bars) - 1}.
              barDirection (bars ! nat i) = (if d = LONG then 1 else - 1)))"
proof -
  obtain bars where bars: "store_findRange store (p_symbol tick) (v_spec self) = Some bars" "bars \<noteq> []"
    "b_complete (last bars)"
    using assms(2) by (auto simp: range_velocity_decide_def split: option.splits if_splits)
  have run: "fast_run self bars (p_timestamp tick) (if d = LONG then 1 else - 1)"
    using assms(2) range_velocity_decide_rule [OF assms(1) bars] by (auto split: if_splits)
  have k: "1 \<le> v_runBars self" "1 \<le> v_exitRunBars self" using assms(1) by (auto simp: range_velocity_ok_def)
  let ?n = "int (length bars)"
  have "?n - 1 \<in> {?n - v_runBars self..?n - 1}" "?n - 1 \<in> {?n - v_exitRunBars self..?n - 1}" using k by auto
  moreover have "barDirection (bars ! nat (?n - 1)) = (if d = LONG then 1 else - 1)"
    using run calculation(1) unfolding fast_run_def Let_def by blast
  ultimately have "\<not> run_against self bars trade" using assms(4) by (auto simp: run_against_def)
  moreover have "closeIfPastCap tick tm (v_maxTradeDuration self) = (False, tm)"
    using assms(3,5) by (auto simp: closeIfPastCap_def)
  ultimately have "range_velocity_during self tick store tm = Inr tm"
    using range_velocity_during_rule [OF assms(1) _ assms(3), of store] bars(1) by simp
  with run bars(1) show ?thesis unfolding fast_run_def Let_def by blast
qed

text \<open>Two rising range bars, the second completed twice as fast as the first.\<close>

definition demo_velocity :: range_velocity where
  "demo_velocity = \<lparr>v_spec = \<lparr>rs_atrTickWindow = 1, rs_atrPercent = 50, rs_count = 2\<rparr>, v_runBars = 1,
     v_speedLookbackBars = 1, v_speedRatioPercent = 100, v_exitRunBars = 1, v_maxTradeDuration = 5\<rparr>"

definition demo_velocity_store :: bar_store where
  "demo_velocity_store = \<lparr>bs_specs = [], bs_bySymbol = Map.empty,
     bs_rangeSpecs = [\<lparr>rs_atrTickWindow = 1, rs_atrPercent = 50, rs_count = 2\<rparr>],
     bs_rangeBySymbol = [''EURUSD'' \<mapsto> [\<lparr>r_spec = \<lparr>rs_atrTickWindow = 1, rs_atrPercent = 50, rs_count = 2\<rparr>,
       r_bars = [\<lparr>b_date = -150, b_open = 10, b_close = 12, b_high = 12, b_low = 10, b_complete = True\<rparr>,
                 \<lparr>b_date = -50, b_open = 12, b_close = 14, b_high = 14, b_low = 12, b_complete = True\<rparr>],
       r_maxDeque = [], r_minDeque = [], r_tickIndex = 3, r_lockedThreshold = 2, r_prepopulateAttempted = True\<rparr>]]\<rparr>"

definition demo_velocity_tick :: price_data where
  "demo_velocity_tick = \<lparr>p_ask = 14, p_bid = 13, p_timestamp = 0, p_symbol = ''EURUSD''\<rparr>"

definition demo_velocity_tm :: trade_manager where
  "demo_velocity_tm = (new_trade_manager 0)\<lparr>activeTrades := [(''EURUSD'', new_trade 14 1 LONG ''EURUSD'')]\<rparr>"

theorem velocity_entry_survives_its_tick_witness:
  "range_velocity_during demo_velocity demo_velocity_tick demo_velocity_store demo_velocity_tm = Inr demo_velocity_tm"
proof -
  have decide: "range_velocity_decide demo_velocity demo_velocity_tick demo_velocity_store = Inr (Some LONG)"
    by code_simp
  show ?thesis
    by (rule velocity_entry_survives_its_tick [where trade = "new_trade 14 1 LONG ''EURUSD''", OF _ decide, THEN conjunct1])
      (simp_all add: range_velocity_ok_def demo_velocity_def demo_velocity_tm_def demo_velocity_tick_def
        findActiveTrade_def new_trade_def)
qed

end
