(* ===== verification/StrategyFactory.thy ===== *)
theory StrategyFactory
  imports PatternStrategies SessionStrategies SweepReversal RangeVelocity
begin

section \<open>The strategy factory\<close>

text \<open>
  \<open>source/strategies/strategyFactory.cppm\<close>: the strategy a name stands for. A strategy object
  behind \<open>IStrategy\<close> is one of the nine states, and its two hooks dispatch on it. The generator
  of \<open>RandomStrategy\<close> starts from \<open>seed\<close>, what \<open>std::random_device\<close> gave.
\<close>

datatype 'r any_strategy =
    RandomStrategy 'r
  | OhlcBreakoutStrategy ohlc_breakout
  | FvgStrategy fvg_strategy
  | KeltnerFadeStrategy keltner_fade
  | SessionRangeBreakoutStrategy session_range_breakout
  | SqueezeBreakoutStrategy squeeze_breakout
  | NyOpenRangeBreakoutStrategy ny_open_range_breakout
  | LiquiditySweepReversalStrategy sweep_reversal
  | RangeVelocityStrategy range_velocity

definition kActiveStrategies :: "string list" where
  "kActiveStrategies = [''RandomStrategy'', ''OhlcBreakoutStrategy'', ''FvgStrategy'', ''KeltnerFadeStrategy'',
     ''SessionRangeBreakoutStrategy'', ''SqueezeBreakoutStrategy'', ''NyOpenRangeBreakoutStrategy'',
     ''LiquiditySweepReversalStrategy'', ''RangeVelocityStrategy'']"

datatype factory_error = UnknownStrategyError string | BadConfig cpp_error

definition built :: "('s \<Rightarrow> 'r any_strategy) \<Rightarrow> 's result \<Rightarrow> factory_error + 'r any_strategy" where
  "built C r = (case r of Inl e \<Rightarrow> Inl (BadConfig e) | Inr s \<Rightarrow> Inr (C s))"

definition makeStrategy :: "'r \<Rightarrow> strategy_config \<Rightarrow> factory_error + 'r any_strategy" where
  "makeStrategy seed config =
     (let name = tv_STRATEGY (sc_TRADING_VARIABLES config) in
      if name = ''RandomStrategy'' then Inr (RandomStrategy seed)
      else if name = ''OhlcBreakoutStrategy'' then built OhlcBreakoutStrategy (new_ohlc_breakout config)
      else if name = ''FvgStrategy'' then built FvgStrategy (new_fvg config)
      else if name = ''KeltnerFadeStrategy'' then built KeltnerFadeStrategy (new_keltner_fade config)
      else if name = ''SessionRangeBreakoutStrategy''
        then built SessionRangeBreakoutStrategy (new_session_range_breakout config)
      else if name = ''SqueezeBreakoutStrategy'' then built SqueezeBreakoutStrategy (new_squeeze_breakout config)
      else if name = ''NyOpenRangeBreakoutStrategy''
        then built NyOpenRangeBreakoutStrategy (new_ny_open_range_breakout config)
      else if name = ''LiquiditySweepReversalStrategy''
        then built LiquiditySweepReversalStrategy (new_sweep_reversal config)
      else if name = ''RangeVelocityStrategy'' then built RangeVelocityStrategy (new_range_velocity config)
      else Inl (UnknownStrategyError name))"

text \<open>A hook's answer, with the state put back behind the interface.\<close>

definition wrapped :: "('s \<Rightarrow> 'r any_strategy) \<Rightarrow> ('a \<times> 's) result \<Rightarrow> ('a \<times> 'r any_strategy) result" where
  "wrapped C r = bind r (\<lambda>(x, s). Inr (x, C s))"

definition any_decide ::
  "('r \<Rightarrow> bool \<times> 'r) \<Rightarrow> 'r any_strategy \<Rightarrow> price_data \<Rightarrow> bar_store \<Rightarrow> (direction option \<times> 'r any_strategy) result" where
  "any_decide coin self tick store =
     (case self of
        RandomStrategy s \<Rightarrow> wrapped RandomStrategy (sg_decide (random_strategy coin) s tick store)
      | OhlcBreakoutStrategy s \<Rightarrow> wrapped OhlcBreakoutStrategy (sg_decide ohlc_breakout_strategy s tick store)
      | FvgStrategy s \<Rightarrow> wrapped FvgStrategy (sg_decide fvg_impl s tick store)
      | KeltnerFadeStrategy s \<Rightarrow> wrapped KeltnerFadeStrategy (sg_decide keltner_fade_impl s tick store)
      | SessionRangeBreakoutStrategy s \<Rightarrow>
          wrapped SessionRangeBreakoutStrategy (sg_decide session_range_breakout_impl s tick store)
      | SqueezeBreakoutStrategy s \<Rightarrow> wrapped SqueezeBreakoutStrategy (sg_decide squeeze_breakout_impl s tick store)
      | NyOpenRangeBreakoutStrategy s \<Rightarrow>
          wrapped NyOpenRangeBreakoutStrategy (sg_decide ny_open_range_breakout_impl s tick store)
      | LiquiditySweepReversalStrategy s \<Rightarrow>
          wrapped LiquiditySweepReversalStrategy (sg_decide sweep_reversal_impl s tick store)
      | RangeVelocityStrategy s \<Rightarrow> wrapped RangeVelocityStrategy (sg_decide range_velocity_impl s tick store))"

definition any_during ::
  "('r \<Rightarrow> bool \<times> 'r) \<Rightarrow> 'r any_strategy \<Rightarrow> price_data \<Rightarrow> bar_store \<Rightarrow> trade_manager
     \<Rightarrow> (trade_manager \<times> 'r any_strategy) result" where
  "any_during coin self tick store tm =
     (case self of
        RandomStrategy s \<Rightarrow> wrapped RandomStrategy (sg_during (random_strategy coin) s tick store tm)
      | OhlcBreakoutStrategy s \<Rightarrow> wrapped OhlcBreakoutStrategy (sg_during ohlc_breakout_strategy s tick store tm)
      | FvgStrategy s \<Rightarrow> wrapped FvgStrategy (sg_during fvg_impl s tick store tm)
      | KeltnerFadeStrategy s \<Rightarrow> wrapped KeltnerFadeStrategy (sg_during keltner_fade_impl s tick store tm)
      | SessionRangeBreakoutStrategy s \<Rightarrow>
          wrapped SessionRangeBreakoutStrategy (sg_during session_range_breakout_impl s tick store tm)
      | SqueezeBreakoutStrategy s \<Rightarrow> wrapped SqueezeBreakoutStrategy (sg_during squeeze_breakout_impl s tick store tm)
      | NyOpenRangeBreakoutStrategy s \<Rightarrow>
          wrapped NyOpenRangeBreakoutStrategy (sg_during ny_open_range_breakout_impl s tick store tm)
      | LiquiditySweepReversalStrategy s \<Rightarrow>
          wrapped LiquiditySweepReversalStrategy (sg_during sweep_reversal_impl s tick store tm)
      | RangeVelocityStrategy s \<Rightarrow> wrapped RangeVelocityStrategy (sg_during range_velocity_impl s tick store tm))"

definition any_strategy_impl :: "('r \<Rightarrow> bool \<times> 'r) \<Rightarrow> 'r any_strategy strategy" where
  "any_strategy_impl coin = \<lparr>sg_decide = any_decide coin, sg_during = any_during coin\<rparr>"

subsection \<open>What a made strategy guarantees\<close>

definition ohlc_breakout_ok :: "ohlc_breakout \<Rightarrow> bool" where
  "ohlc_breakout_ok self \<longleftrightarrow> 2 \<le> ov_OHLC_COUNT (o_breakoutCfg self) \<and> 2 \<le> ov_OHLC_COUNT (o_trendCfg self)"

lemma ohlc_breakout_decide_total:
  assumes "ohlc_breakout_ok self"
  shows "\<exists>signal. ohlc_breakout_decide self tick store = Inr signal"
proof (cases "store_find store (p_symbol tick) (ov_OHLC_MINUTES (o_breakoutCfg self)) = None
    \<or> store_find store (p_symbol tick) (ov_OHLC_MINUTES (o_trendCfg self)) = None")
  case True
  then show ?thesis by (auto simp: ohlc_breakout_decide_def split: option.split)
next
  case False
  then obtain fs hs where find: "store_find store (p_symbol tick) (ov_OHLC_MINUTES (o_breakoutCfg self)) = Some fs"
    "store_find store (p_symbol tick) (ov_OHLC_MINUTES (o_trendCfg self)) = Some hs" by auto
  let ?closes = "map b_close (lastn (nat (ov_OHLC_COUNT (o_trendCfg self))) hs)"
  show ?thesis
  proof (cases "length hs < nat (ov_OHLC_COUNT (o_trendCfg self))")
    case True
    then show ?thesis using find by (simp add: ohlc_breakout_decide_def Let_def)
  next
    case False
    moreover have "2 \<le> nat (ov_OHLC_COUNT (o_trendCfg self))" using assms unfolding ohlc_breakout_ok_def by linarith
    ultimately have "1 \<le> int (length ?closes div 2)" by simp
    then obtain emas where "ema_calculate ?closes (int (length ?closes div 2)) = Inr emas"
      using ema_calculate_total by blast
    then show ?thesis using find False by (simp add: ohlc_breakout_decide_def Let_def)
  qed
qed

fun any_ok :: "'r any_strategy \<Rightarrow> bool" where
  "any_ok (RandomStrategy s) = True"
| "any_ok (OhlcBreakoutStrategy s) = ohlc_breakout_ok s"
| "any_ok (FvgStrategy s) = fvg_ok s"
| "any_ok (KeltnerFadeStrategy s) = keltner_fade_ok s"
| "any_ok (SessionRangeBreakoutStrategy s) = True"
| "any_ok (SqueezeBreakoutStrategy s) = squeeze_breakout_ok s"
| "any_ok (NyOpenRangeBreakoutStrategy s) = True"
| "any_ok (LiquiditySweepReversalStrategy s) = sweep_reversal_ok s"
| "any_ok (RangeVelocityStrategy s) = range_velocity_ok s"

interpretation random_total: total_strategy "random_strategy coin" "\<lambda>_. True" for coin
  by unfold_locales (auto simp: random_strategy_def exits_only_refl split: prod.split)

interpretation breakout_total: total_strategy ohlc_breakout_strategy ohlc_breakout_ok
proof -
  have eq: "ohlc_breakout_strategy = capped_strategy ohlc_breakout_decide o_maxTradeDuration"
    by (auto simp: ohlc_breakout_strategy_def capped_strategy_def fun_eq_iff bind_def)
  show "total_strategy ohlc_breakout_strategy ohlc_breakout_ok"
    unfolding eq by (intro capped_total ohlc_breakout_decide_total)
qed

lemma wrapped_during:
  assumes "strategy_contract strat" "tm_inv tm" "wrapped C (sg_during strat s tick store tm) = Inr (tm', s')"
  shows "exits_only tm tm'"
proof -
  obtain s0 where "sg_during strat s tick store tm = Inr (tm', s0)"
    using assms(3) by (cases "sg_during strat s tick store tm") (auto simp: wrapped_def)
  then show ?thesis by (rule strategy_contract.during_exits_only [OF assms(1,2)])
qed

lemma wrapped_total:
  assumes "total_strategy strat accepted" "accepted s" "\<And>s. accepted s \<Longrightarrow> any_ok (C s)"
  shows "\<exists>x s'. wrapped C (sg_decide strat s tick store) = Inr (x, s') \<and> any_ok s'"
    and "\<exists>x s'. wrapped C (sg_during strat s tick store tm) = Inr (x, s') \<and> any_ok s'"
proof -
  obtain x s' where "sg_decide strat s tick store = Inr (x, s')" "accepted s'"
    using total_strategy.decide_total [OF assms(1,2)] by blast
  then show "\<exists>x s'. wrapped C (sg_decide strat s tick store) = Inr (x, s') \<and> any_ok s'"
    using assms(3) by (auto simp: wrapped_def)
  obtain x s' where "sg_during strat s tick store tm = Inr (x, s')" "accepted s'"
    using total_strategy.during_total [OF assms(1,2)] by blast
  then show "\<exists>x s'. wrapped C (sg_during strat s tick store tm) = Inr (x, s') \<and> any_ok s'"
    using assms(3) by (auto simp: wrapped_def)
qed

lemmas all_total = random_total.total_strategy_axioms breakout_total.total_strategy_axioms
  fvg.total_strategy_axioms keltner.total_strategy_axioms session.total_strategy_axioms
  squeeze.total_strategy_axioms ny.total_strategy_axioms sweep_rev.total_strategy_axioms
  velocity.total_strategy_axioms

lemma total_contract: "total_strategy strat accepted \<Longrightarrow> strategy_contract strat"
  by (simp add: total_strategy_def)

interpretation any: total_strategy "any_strategy_impl coin" any_ok for coin
proof unfold_locales
  show "exits_only tm tm'"
    if inv: "tm_inv tm" and during: "sg_during (any_strategy_impl coin) s tick store tm = Inr (tm', s')"
    for tm s tick store tm' s'
    using during
    by (cases s) (simp only: any_strategy_impl_def any_during_def strategy.simps any_strategy.case,
      erule all_total [THEN total_contract, THEN wrapped_during, OF inv])+
next
  show "\<exists>signal s'. sg_decide (any_strategy_impl coin) s tick store = Inr (signal, s') \<and> any_ok s'"
    if "any_ok s" for s tick store
    using that
    by (cases s) (simp only: any_strategy_impl_def any_decide_def strategy.simps any_strategy.case any_ok.simps,
      rule all_total [THEN wrapped_total(1)]; simp)+
next
  show "\<exists>tm' s'. sg_during (any_strategy_impl coin) s tick store tm = Inr (tm', s') \<and> any_ok s'"
    if "any_ok s" for s tick store tm
    using that
    by (cases s) (simp only: any_strategy_impl_def any_during_def strategy.simps any_strategy.case any_ok.simps,
      rule all_total [THEN wrapped_total(2)]; simp)+
qed

text \<open>The configuration's fields are 32-bit, and the few sums the constructors form do not leave
  that width.\<close>

definition no_overflow :: "strategy_config \<Rightarrow> bool" where
  "no_overflow config \<longleftrightarrow>
     (\<forall>cfg \<in> set (sc_OHLC_VARIABLES config). in_i32 (ov_OHLC_COUNT cfg))
     \<and> (case sv_FVG_STRATEGY_VARIABLES (sc_STRATEGY_VARIABLES config) of None \<Rightarrow> True
        | Some v \<Rightarrow> in_i32 (fv_LOOKBACK_BARS v + 3) \<and> in_i32 (fv_HTF_SMA_PERIOD v + 2))
     \<and> (case sv_KELTNER_FADE_VARIABLES (sc_STRATEGY_VARIABLES config) of None \<Rightarrow> True
        | Some v \<Rightarrow> in_i32 (kf_BAND_SMA_PERIOD v + 2))
     \<and> (case sv_SQUEEZE_BREAKOUT_VARIABLES (sc_STRATEGY_VARIABLES config) of None \<Rightarrow> True
        | Some v \<Rightarrow> in_i32 (sq_VALID_BARS v + max 1 (sq_NR_LOOKBACK v - 1) + 1))
     \<and> (case sv_LIQUIDITY_SWEEP_REVERSAL_VARIABLES (sc_STRATEGY_VARIABLES config) of None \<Rightarrow> True
        | Some v \<Rightarrow> in_i32 (ls_LOOKBACK_BARS v + ls_PIVOT_BARS v + 1) \<and> in_i32 (ls_LOOKBACK_BARS v))
     \<and> (case sv_RANGE_VELOCITY_VARIABLES (sc_STRATEGY_VARIABLES config) of None \<Rightarrow> True
        | Some v \<Rightarrow> in_i32 (ve_RUN_BARS v) \<and> in_i32 (ve_SPEED_LOOKBACK_BARS v) \<and> in_i32 (ve_EXIT_RUN_BARS v))"

lemma new_ohlc_breakout_ok: "new_ohlc_breakout config = Inr self \<Longrightarrow> ohlc_breakout_ok self"
  by (auto simp: new_ohlc_breakout_def ohlc_breakout_ok_def split: list.splits option.splits if_splits)

lemma built_Inr_iff: "built C r = Inr s \<longleftrightarrow> (\<exists>s0. r = Inr s0 \<and> s = C s0)"
  by (cases r) (auto simp: built_def)

lemma no_overflowD:
  assumes "no_overflow config"
  shows "new_fvg config = Inr a \<Longrightarrow> fvg_ok a" "new_keltner_fade config = Inr b \<Longrightarrow> keltner_fade_ok b"
    "new_squeeze_breakout config = Inr c \<Longrightarrow> squeeze_breakout_ok c"
    "new_sweep_reversal config = Inr d \<Longrightarrow> sweep_reversal_ok d"
    "new_range_velocity config = Inr f \<Longrightarrow> range_velocity_ok f"
  using assms
  by (auto simp: no_overflow_def split: option.splits
      intro: new_fvg_ok new_keltner_fade_ok new_squeeze_breakout_ok new_sweep_reversal_ok new_range_velocity_ok)

lemma made_ok: "makeStrategy seed config = Inr s \<Longrightarrow> no_overflow config \<Longrightarrow> any_ok s"
  by (auto simp: makeStrategy_def Let_def built_Inr_iff new_ohlc_breakout_ok no_overflowD split: if_splits)

fun strategy_name :: "'r any_strategy \<Rightarrow> string" where
  "strategy_name (RandomStrategy s) = ''RandomStrategy''"
| "strategy_name (OhlcBreakoutStrategy s) = ''OhlcBreakoutStrategy''"
| "strategy_name (FvgStrategy s) = ''FvgStrategy''"
| "strategy_name (KeltnerFadeStrategy s) = ''KeltnerFadeStrategy''"
| "strategy_name (SessionRangeBreakoutStrategy s) = ''SessionRangeBreakoutStrategy''"
| "strategy_name (SqueezeBreakoutStrategy s) = ''SqueezeBreakoutStrategy''"
| "strategy_name (NyOpenRangeBreakoutStrategy s) = ''NyOpenRangeBreakoutStrategy''"
| "strategy_name (LiquiditySweepReversalStrategy s) = ''LiquiditySweepReversalStrategy''"
| "strategy_name (RangeVelocityStrategy s) = ''RangeVelocityStrategy''"

lemma constructors_refuse:
  "new_ohlc_breakout config = Inl e \<Longrightarrow> e = InvalidArgument" "new_fvg config = Inl e \<Longrightarrow> e = InvalidArgument"
  "new_keltner_fade config = Inl e \<Longrightarrow> e = InvalidArgument"
  "new_session_range_breakout config = Inl e \<Longrightarrow> e = InvalidArgument"
  "new_squeeze_breakout config = Inl e \<Longrightarrow> e = InvalidArgument"
  "new_ny_open_range_breakout config = Inl e \<Longrightarrow> e = InvalidArgument"
  "new_sweep_reversal config = Inl e \<Longrightarrow> e = InvalidArgument"
  "new_range_velocity config = Inl e \<Longrightarrow> e = InvalidArgument"
  by (auto simp: new_ohlc_breakout_def new_fvg_def new_keltner_fade_def new_session_range_breakout_def
      new_squeeze_breakout_def new_ny_open_range_breakout_def new_sweep_reversal_def new_range_velocity_def Let_def
      split: list.splits option.splits if_splits)

lemma built_Inl_iff: "built C r = Inl x \<longleftrightarrow> (\<exists>e. r = Inl e \<and> x = BadConfig e)"
  by (cases r) (auto simp: built_def)

lemma made_name: "makeStrategy seed config = Inr s \<Longrightarrow> strategy_name s = tv_STRATEGY (sc_TRADING_VARIABLES config)"
  by (auto simp: makeStrategy_def Let_def built_Inr_iff split: if_splits)

lemma refused_iff:
  assumes "makeStrategy seed config = Inl x"
  shows "x = (if tv_STRATEGY (sc_TRADING_VARIABLES config) \<in> set kActiveStrategies then BadConfig InvalidArgument
              else UnknownStrategyError (tv_STRATEGY (sc_TRADING_VARIABLES config)))"
  using assms
  by (auto simp: makeStrategy_def Let_def built_Inl_iff kActiveStrategies_def dest: constructors_refuse split: if_splits)

lemma strategy_name_active: "strategy_name s \<in> set kActiveStrategies"
  by (cases s) (simp_all add: kActiveStrategies_def)

text \<open>The factory knows exactly the strategies live trading calls active. A name outside the
  list is refused as unknown; a listed name reaches a constructor, which makes the strategy of
  that name or refuses the configuration as invalid.\<close>

theorem factory_covers_active_strategies:
  "case makeStrategy seed config of
     Inr s \<Rightarrow> strategy_name s = tv_STRATEGY (sc_TRADING_VARIABLES config)
              \<and> strategy_name s \<in> set kActiveStrategies
   | Inl (UnknownStrategyError name) \<Rightarrow> name = tv_STRATEGY (sc_TRADING_VARIABLES config) \<and> name \<notin> set kActiveStrategies
   | Inl (BadConfig e) \<Rightarrow> e = InvalidArgument \<and> tv_STRATEGY (sc_TRADING_VARIABLES config) \<in> set kActiveStrategies"
proof (cases "makeStrategy seed config")
  case (Inl x)
  then show ?thesis using refused_iff [OF Inl] by simp
next
  case (Inr s)
  then show ?thesis using made_name [OF Inr] strategy_name_active [of s] by simp
qed

text \<open>C15: no strategy the factory makes ever reads outside its bars: from a configuration whose
  few sums stay within 32 bits, any sequence of ticks, whatever bars have been built so far
  and whatever is open, is judged to its end, one signal per tick.\<close>

theorem made_strategies_never_fault:
  assumes "makeStrategy seed config = Inr s" "no_overflow config"
  shows "\<exists>signals. judge (any_strategy_impl coin) s ticks = Inr signals \<and> length signals = length ticks"
  by (rule any.judge_total [OF made_ok [OF assms]])

definition factory_demo_config :: strategy_config where
  "factory_demo_config =
     \<lparr>sc_UUID = [], sc_TRADING_VARIABLES = \<lparr>tv_STRATEGY = ''FvgStrategy'',
        tv_STOP_DISTANCE_IN_ATR = 1, tv_LIMIT_DISTANCE_IN_ATR = 1, tv_TRADING_SIZE = 1\<rparr>,
      sc_OHLC_VARIABLES = [\<lparr>ov_OHLC_COUNT = 5, ov_OHLC_MINUTES = 5\<rparr>, \<lparr>ov_OHLC_COUNT = 4, ov_OHLC_MINUTES = 60\<rparr>],
      sc_RANGE_VARIABLES = [],
      sc_STRATEGY_VARIABLES = \<lparr>sv_OHLC_RSI_VARIABLES = None, sv_OHLC_BREAKOUT_VARIABLES = None,
        sv_FVG_STRATEGY_VARIABLES = Some \<lparr>fv_LOOKBACK_BARS = 2, fv_MIN_GAP_PIPS = 1, fv_HTF_SMA_PERIOD = 2,
           fv_MIN_GAP_AGE_BARS = 0, fv_MAX_TRADE_DURATION_MINUTES = 0\<rparr>,
        sv_KELTNER_FADE_VARIABLES = None, sv_SESSION_RANGE_BREAKOUT_VARIABLES = None,
        sv_SQUEEZE_BREAKOUT_VARIABLES = None, sv_NY_OPEN_RANGE_BREAKOUT_VARIABLES = None,
        sv_LIQUIDITY_SWEEP_REVERSAL_VARIABLES = None, sv_RANGE_VELOCITY_VARIABLES = None\<rparr>\<rparr>"

theorem made_strategies_never_fault_witness:
  "\<exists>s signals. makeStrategy () factory_demo_config = Inr s
     \<and> judge (any_strategy_impl (\<lambda>_. (True, ()))) s
         [(\<lparr>p_ask = 118, p_bid = 117, p_timestamp = 5, p_symbol = ''EURUSD''\<rparr>, gap_store, new_trade_manager 0)] = Inr signals
     \<and> length signals = 1"
proof -
  have made: "makeStrategy () factory_demo_config = Inr (FvgStrategy gap_strategy)"
    by (simp add: makeStrategy_def factory_demo_config_def new_fvg_def built_def gap_strategy_def in_i32_def)
  moreover have "no_overflow factory_demo_config" by (simp add: no_overflow_def factory_demo_config_def in_i32_def)
  ultimately show ?thesis
    using made_strategies_never_fault [OF made, where coin = "\<lambda>_. (True, ())" and
      ticks = "[(\<lparr>p_ask = 118, p_bid = 117, p_timestamp = 5, p_symbol = ''EURUSD''\<rparr>, gap_store, new_trade_manager 0)]"]
    by fastforce
qed

text \<open>The hypothesis is needed: a lookback at the top of the 32-bit range wraps the window check
  of the constructor around, a window of one bar is accepted, and the first full window is
  read before its start.\<close>

lemma fvg_lookback_overflows:
  assumes config: "sc_OHLC_VARIABLES config = [\<lparr>ov_OHLC_COUNT = 1, ov_OHLC_MINUTES = 5\<rparr>, \<lparr>ov_OHLC_COUNT = 3, ov_OHLC_MINUTES = 60\<rparr>]"
    "sv_FVG_STRATEGY_VARIABLES (sc_STRATEGY_VARIABLES config) = Some \<lparr>fv_LOOKBACK_BARS = 2147483647, fv_MIN_GAP_PIPS = 1,
       fv_HTF_SMA_PERIOD = 1, fv_MIN_GAP_AGE_BARS = 0, fv_MAX_TRADE_DURATION_MINUTES = 0\<rparr>"
    and bars: "store_find store s 5 = Some [a]" "store_find store s 60 = Some [b, c, d]" and tick: "p_symbol tick = s"
  shows "\<exists>self. new_fvg config = Inr self \<and> fvg_decide self tick store = Inl UndefinedBehaviour"
proof -
  have "i32 2147483650 = -2147483646" by code_simp
  then have new: "new_fvg config = Inr \<lparr>g_fvgCfg = \<lparr>ov_OHLC_COUNT = 1, ov_OHLC_MINUTES = 5\<rparr>,
      g_htfCfg = \<lparr>ov_OHLC_COUNT = 3, ov_OHLC_MINUTES = 60\<rparr>, g_lookbackBars = 2147483647, g_minGapPips = 1,
      g_htfSmaPeriod = 1, g_minGapAgeBars = 0, g_maxTradeDuration = 0\<rparr>"
    using config by (simp add: new_fvg_def in_i32_def)
  then show ?thesis
    using bars tick by (simp add: fvg_decide_def span_last_def u64_def lastn_def Let_def bar_at_def)
qed

end
