(* ===== verification/SweepConfigs.thy ===== *)
theory SweepConfigs
  imports Sweep StrategyFactory
begin

section \<open>The sweeps the engine ships\<close>

text \<open>
  \<open>source/load/config\<close>: nine parameter grids and the factories that turn a combination into a
  strategy configuration, and the choice among them in \<open>LoadCommand::run\<close>
  (\<open>source/load/loadCommand.cppm\<close>). The literals of a grid are small integers, exact as doubles.
  The result is that every combination of every grid is accepted by its strategy.
\<close>

definition empty_generator :: "'f parameter_generator" where
  "empty_generator = \<lparr>g_ranges = [], g_symbolGroups = []\<rparr>"

definition addList ::
  "('d, 'f, 'y) float_ops_scheme \<Rightarrow> 'f parameter_generator \<Rightarrow> string \<Rightarrow> int list \<Rightarrow> 'f parameter_generator" where
  "addList F gen name ns = addRange gen name (ExplicitRange (map (\<lambda>n. f_lit F n 1) ns))"

text \<open>The consecutive \<open>addList\<close> calls of a builder.\<close>

definition addLists ::
  "('d, 'f, 'y) float_ops_scheme \<Rightarrow> 'f parameter_generator \<Rightarrow> (string \<times> int list) list \<Rightarrow> 'f parameter_generator" where
  "addLists F gen specs = foldl (\<lambda>gen (name, ns). addList F gen name ns) gen specs"

subsection \<open>The grids\<close>

definition kSymbolGroups :: "string list" where
  "kSymbolGroups =
    [''AUDUSD'', ''EURUSD'', ''GBRIDXGBP'', ''GBPUSD'', ''NZDUSD'', ''USDJPY'', ''GBPJPY'', ''EURJPY'',
     ''USDCAD'', ''FRAIDXEUR'', ''EURGBP'', ''USA500IDXUSD'', ''AUSIDXAUD'', ''USDCHF'', ''XAUUSD'',
     ''XAGUSD'', ''USATECHIDXUSD'', ''EURCHF'', ''DEUIDXEUR'', ''USA30IDXUSD'', ''LIGHTCMDUSD'',
     ''JPNIDXJPY'', ''BRENTCMDUSD'', ''AUDNZD'', ''EURAUD'', ''HKGIDXHKD'', ''COPPERCMDUSD'',
     ''USDSEK'', ''EURNOK'']"

definition kSymbolGroupsOverride :: "string list" where
  "kSymbolGroupsOverride =
    [''AUDUSD'', ''EURUSD'', ''GBRIDXGBP'', ''GBPUSD'', ''NZDUSD'', ''USDJPY'', ''GBPJPY'', ''EURJPY'',
     ''USDCAD'', ''FRAIDXEUR'', ''EURGBP'', ''USA500IDXUSD'', ''AUSIDXAUD'', ''USDCHF'', ''XAUUSD'',
     ''XAGUSD'', ''USATECHIDXUSD'', ''EURCHF'', ''DEUIDXEUR'', ''USA30IDXUSD'', ''LIGHTCMDUSD'',
     ''JPNIDXJPY'', ''BRENTCMDUSD'', ''AUDNZD'', ''EURAUD'', ''HKGIDXHKD'', ''COPPERCMDUSD'',
     ''USDSEK'', ''EURNOK'']"

definition buildRandomStrategySweep :: "('d, 'f, 'y) float_ops_scheme \<Rightarrow> 'f parameter_generator option" where
  "buildRandomStrategySweep F =
     map_option (\<lambda>gen. addRange (addLists F gen [(''STOP_DISTANCE_IN_ATR'', [1, 2])])
       ''LIMIT_DISTANCE_IN_ATR'' (LinearRange (f_lit F 3 1) (f_lit F 2 1) (f_lit F 9 1)))
       (setSymbolGroups empty_generator kSymbolGroupsOverride)"

definition kOhlcBreakoutSymbolGroupsOverride :: "string list" where
  "kOhlcBreakoutSymbolGroupsOverride =
    [''AUDUSD'', ''EURUSD'', ''GBRIDXGBP'', ''GBPUSD'', ''USDJPY'', ''GBPJPY'', ''EURJPY'', ''USDCAD'',
     ''FRAIDXEUR'', ''USA500IDXUSD'', ''AUSIDXAUD'', ''XAUUSD'', ''XAGUSD'', ''USATECHIDXUSD'',
     ''DEUIDXEUR'', ''USA30IDXUSD'', ''LIGHTCMDUSD'', ''JPNIDXJPY'', ''BRENTCMDUSD'', ''EURAUD'',
     ''HKGIDXHKD'', ''USDSEK'']"

definition buildOhlcBreakoutStrategySweep :: "('d, 'f, 'y) float_ops_scheme \<Rightarrow> 'f parameter_generator option" where
  "buildOhlcBreakoutStrategySweep F =
     map_option (\<lambda>gen. addLists F gen
       [(''BREAKOUT_OHLC_MINUTES'', [5, 10, 15, 30, 50]),
        (''BREAKOUT_OHLC_COUNT'', [5, 10, 20, 35, 50]), (''TREND_OHLC_MINUTES'', [40, 80, 120]),
        (''TREND_OHLC_COUNT'', [20, 60, 120]), (''BUFFER_PIPS'', [0, 6]),
        (''MAX_TRADE_DURATION_MINUTES'', [60, 120, 240]), (''STOP_DISTANCE_IN_ATR'', [2, 3]),
        (''LIMIT_DISTANCE_IN_ATR'', [2, 4, 6])])
       (setSymbolGroups empty_generator kOhlcBreakoutSymbolGroupsOverride)"

definition kFvgSymbolGroupsOverride :: "string list" where
  "kFvgSymbolGroupsOverride =
    [''AUDUSD'', ''EURUSD'', ''GBRIDXGBP'', ''GBPUSD'', ''USDJPY'', ''GBPJPY'', ''EURJPY'', ''USDCAD'',
     ''FRAIDXEUR'', ''USA500IDXUSD'', ''AUSIDXAUD'', ''XAUUSD'', ''XAGUSD'', ''USATECHIDXUSD'',
     ''DEUIDXEUR'', ''USA30IDXUSD'', ''LIGHTCMDUSD'', ''JPNIDXJPY'', ''BRENTCMDUSD'', ''EURAUD'',
     ''HKGIDXHKD'', ''USDSEK'']"

definition buildFvgStrategySweep :: "('d, 'f, 'y) float_ops_scheme \<Rightarrow> 'f parameter_generator option" where
  "buildFvgStrategySweep F =
     map_option (\<lambda>gen. addLists F gen
       [(''FVG_OHLC_MINUTES'', [15, 30]), (''HTF_OHLC_MINUTES'', [120, 240, 480]),
        (''LOOKBACK_BARS'', [10, 30]), (''MIN_GAP_PIPS'', [5, 10, 20, 35, 50]),
        (''HTF_SMA_PERIOD'', [50, 100]), (''MIN_GAP_AGE_BARS'', [0, 2, 5]),
        (''MAX_TRADE_DURATION_MINUTES'', [30, 60, 120]), (''STOP_DISTANCE_IN_ATR'', [1, 2]),
        (''LIMIT_DISTANCE_IN_ATR'', [3, 5, 7])])
       (setSymbolGroups empty_generator kFvgSymbolGroupsOverride)"

definition kKeltnerFadeSymbolGroupsOverride :: "string list" where
  "kKeltnerFadeSymbolGroupsOverride =
    [''EURGBP'', ''EURCHF'', ''AUDNZD'', ''USDCHF'', ''EURNOK'', ''USDSEK'', ''EURUSD'']"

definition buildKeltnerFadeStrategySweep :: "('d, 'f, 'y) float_ops_scheme \<Rightarrow> 'f parameter_generator option" where
  "buildKeltnerFadeStrategySweep F =
     map_option (\<lambda>gen. addLists F gen
       [(''OHLC_MINUTES'', [5, 15, 30]), (''BAND_SMA_PERIOD'', [20, 50]),
        (''BAND_ATR_MULT_TENTHS'', [15, 20, 25, 30, 40]),
        (''MAX_TRADE_DURATION_MINUTES'', [30, 60, 120]), (''STOP_DISTANCE_IN_ATR'', [2, 3]),
        (''LIMIT_DISTANCE_IN_ATR'', [1, 2, 3])])
       (setSymbolGroups empty_generator kKeltnerFadeSymbolGroupsOverride)"

definition kSessionRangeBreakoutSymbolGroupsOverride :: "string list" where
  "kSessionRangeBreakoutSymbolGroupsOverride =
    [''DEUIDXEUR'', ''FRAIDXEUR'', ''GBRIDXGBP'']"

definition buildSessionRangeBreakoutStrategySweep :: "('d, 'f, 'y) float_ops_scheme \<Rightarrow> 'f parameter_generator option" where
  "buildSessionRangeBreakoutStrategySweep F =
     map_option (\<lambda>gen. addLists F gen
       [(''OHLC_MINUTES'', [5, 15, 30, 45]), (''BUFFER_PIPS'', [0, 2, 4]),
        (''ENTRY_WINDOW_MINUTES'', [20, 30, 40, 60]), (''MAX_TRADE_DURATION_MINUTES'', [60, 120, 240]),
        (''STOP_DISTANCE_IN_ATR'', [1, 2]), (''LIMIT_DISTANCE_IN_ATR'', [3, 5, 7])])
       (setSymbolGroups empty_generator kSessionRangeBreakoutSymbolGroupsOverride)"

definition kSqueezeBreakoutSymbolGroupsOverride :: "string list" where
  "kSqueezeBreakoutSymbolGroupsOverride =
    [''AUDUSD'', ''EURUSD'', ''GBRIDXGBP'', ''GBPUSD'', ''USDJPY'', ''GBPJPY'', ''EURJPY'', ''USDCAD'',
     ''FRAIDXEUR'', ''USA500IDXUSD'', ''AUSIDXAUD'', ''XAUUSD'', ''XAGUSD'', ''USATECHIDXUSD'',
     ''DEUIDXEUR'', ''USA30IDXUSD'', ''LIGHTCMDUSD'', ''JPNIDXJPY'', ''BRENTCMDUSD'', ''EURAUD'',
     ''HKGIDXHKD'', ''USDSEK'']"

definition buildSqueezeBreakoutStrategySweep :: "('d, 'f, 'y) float_ops_scheme \<Rightarrow> 'f parameter_generator option" where
  "buildSqueezeBreakoutStrategySweep F =
     map_option (\<lambda>gen. addLists F gen
       [(''OHLC_MINUTES'', [15, 30, 60]), (''NR_LOOKBACK'', [0, 7]), (''VALID_BARS'', [1, 3, 5]),
        (''BUFFER_PIPS'', [0, 2]), (''MAX_TRADE_DURATION_MINUTES'', [30, 60, 120]),
        (''TREND_OHLC_MINUTES'', [60, 120]), (''TREND_OHLC_COUNT'', [40, 80]),
        (''STOP_DISTANCE_IN_ATR'', [1, 2]), (''LIMIT_DISTANCE_IN_ATR'', [3, 5, 7])])
       (setSymbolGroups empty_generator kSqueezeBreakoutSymbolGroupsOverride)"

definition kNyOpenRangeBreakoutSymbolGroupsOverride :: "string list" where
  "kNyOpenRangeBreakoutSymbolGroupsOverride =
    [''USA500IDXUSD'', ''USATECHIDXUSD'', ''XAUUSD'']"

definition buildNyOpenRangeBreakoutStrategySweep :: "('d, 'f, 'y) float_ops_scheme \<Rightarrow> 'f parameter_generator option" where
  "buildNyOpenRangeBreakoutStrategySweep F =
     map_option (\<lambda>gen. addLists F gen
       [(''OHLC_MINUTES'', [5, 15]), (''RANGE_HOURS'', [4, 8, 13]), (''BUFFER_PIPS'', [0, 2]),
        (''ENTRY_WINDOW_MINUTES'', [30, 60]), (''MAX_TRADE_DURATION_MINUTES'', [120, 240]),
        (''STOP_DISTANCE_IN_ATR'', [1]), (''LIMIT_DISTANCE_IN_ATR'', [3, 5])])
       (setSymbolGroups empty_generator kNyOpenRangeBreakoutSymbolGroupsOverride)"

definition kLiquiditySweepReversalSymbolGroupsOverride :: "string list" where
  "kLiquiditySweepReversalSymbolGroupsOverride =
    [''AUDUSD'', ''EURUSD'', ''GBRIDXGBP'', ''GBPUSD'', ''USDJPY'', ''GBPJPY'', ''EURJPY'', ''USDCAD'',
     ''FRAIDXEUR'', ''USA500IDXUSD'', ''AUSIDXAUD'', ''XAUUSD'', ''XAGUSD'', ''USATECHIDXUSD'',
     ''DEUIDXEUR'', ''USA30IDXUSD'', ''LIGHTCMDUSD'', ''JPNIDXJPY'', ''BRENTCMDUSD'', ''EURAUD'',
     ''HKGIDXHKD'', ''USDSEK'']"

definition buildLiquiditySweepReversalStrategySweep :: "('d, 'f, 'y) float_ops_scheme \<Rightarrow> 'f parameter_generator option" where
  "buildLiquiditySweepReversalStrategySweep F =
     map_option (\<lambda>gen. addLists F gen
       [(''OHLC_MINUTES'', [15, 30, 60]), (''PIVOT_BARS'', [2, 3, 5]), (''LOOKBACK_BARS'', [48, 96]),
        (''MIN_SWEEP_PIPS'', [0, 5, 10]), (''DISPLACEMENT_ATR_TENTHS'', [0, 3, 5, 7]),
        (''VALID_BARS'', [2, 4, 6, 8]), (''MAX_TRADE_DURATION_MINUTES'', [30, 60, 120]),
        (''STOP_DISTANCE_IN_ATR'', [2, 3]), (''LIMIT_DISTANCE_IN_ATR'', [2, 3, 4, 5])])
       (setSymbolGroups empty_generator kLiquiditySweepReversalSymbolGroupsOverride)"

definition kRangeVelocitySymbolGroupsOverride :: "string list" where
  "kRangeVelocitySymbolGroupsOverride =
    [''USA500IDXUSD'', ''USATECHIDXUSD'', ''USA30IDXUSD'', ''DEUIDXEUR'', ''FRAIDXEUR'', ''GBRIDXGBP'',
     ''JPNIDXJPY'', ''AUSIDXAUD'', ''HKGIDXHKD'', ''XAUUSD'', ''XAGUSD'']"

definition buildRangeVelocityStrategySweep :: "('d, 'f, 'y) float_ops_scheme \<Rightarrow> 'f parameter_generator option" where
  "buildRangeVelocityStrategySweep F =
     map_option (\<lambda>gen. addLists F gen
       [(''RANGE_ATR_TICK_WINDOW'', [500, 1000, 2500, 5000, 7000]),
        (''RANGE_ATR_PERCENT'', [25, 40, 60]), (''RUN_BARS'', [3, 5, 8]),
        (''SPEED_LOOKBACK_BARS'', [10, 20, 32, 40]), (''SPEED_RATIO_PERCENT'', [80, 100]),
        (''EXIT_RUN_BARS'', [5, 8, 12]), (''MAX_TRADE_DURATION_MINUTES'', [60, 120, 240]),
        (''STOP_DISTANCE_IN_ATR'', [2, 3]), (''LIMIT_DISTANCE_IN_ATR'', [3, 5, 7, 9])])
       (setSymbolGroups empty_generator kRangeVelocitySymbolGroupsOverride)"

subsection \<open>The factories\<close>

text \<open>A combination becomes a strategy configuration. \<open>uuid\<close> is what the random generator gave,
  \<open>lround\<close> the library's rounding of a double; an absent parameter is \<open>OutOfRange\<close>. The
  sub-record every factory fills the same way is \<open>swept_trading\<close>, and \<open>no_variables\<close> is
  \<open>StrategyVariables{}\<close>.\<close>

definition swept_trading :: "('f \<Rightarrow> int) \<Rightarrow> 'f combination \<Rightarrow> string \<Rightarrow> trading_variables result" where
  "swept_trading lround combo name =
     bind (combo_getInt lround combo ''STOP_DISTANCE_IN_ATR'') (\<lambda>stop.
     bind (combo_getInt lround combo ''LIMIT_DISTANCE_IN_ATR'') (\<lambda>limit.
     Inr \<lparr>tv_STRATEGY = name, tv_STOP_DISTANCE_IN_ATR = stop, tv_LIMIT_DISTANCE_IN_ATR = limit,
          tv_TRADING_SIZE = 1\<rparr>))"

definition no_variables :: strategy_variables where
  "no_variables =
     \<lparr>sv_OHLC_RSI_VARIABLES = None, sv_OHLC_BREAKOUT_VARIABLES = None, sv_FVG_STRATEGY_VARIABLES = None,
      sv_KELTNER_FADE_VARIABLES = None, sv_SESSION_RANGE_BREAKOUT_VARIABLES = None,
      sv_SQUEEZE_BREAKOUT_VARIABLES = None, sv_NY_OPEN_RANGE_BREAKOUT_VARIABLES = None,
      sv_LIQUIDITY_SWEEP_REVERSAL_VARIABLES = None, sv_RANGE_VELOCITY_VARIABLES = None\<rparr>"

definition makeRandomStrategy :: "('f \<Rightarrow> int) \<Rightarrow> string \<Rightarrow> 'f combination \<Rightarrow> strategy_config result" where
  "makeRandomStrategy lround uuid combo =
     bind (swept_trading lround combo ''RandomStrategy'') (\<lambda>trading.
     bind (if combo_has combo ''OHLC_COUNT'' then combo_getInt lround combo ''OHLC_COUNT'' else Inr 0) (\<lambda>ohlcCount.
     bind (if combo_has combo ''OHLC_MINUTES'' then combo_getInt lround combo ''OHLC_MINUTES'' else Inr 0) (\<lambda>ohlcMinutes.
     Inr \<lparr>sc_UUID = uuid, sc_TRADING_VARIABLES = trading,
          sc_OHLC_VARIABLES = [\<lparr>ov_OHLC_COUNT = ohlcCount, ov_OHLC_MINUTES = ohlcMinutes\<rparr>],
          sc_RANGE_VARIABLES = [],
          sc_STRATEGY_VARIABLES =
            no_variables\<lparr>sv_OHLC_RSI_VARIABLES := Some \<lparr>rsi_RSI_LONG = 60, rsi_RSI_SHORT = 40\<rparr>\<rparr>\<rparr>)))"

definition makeOhlcBreakoutStrategy :: "('f \<Rightarrow> int) \<Rightarrow> string \<Rightarrow> 'f combination \<Rightarrow> strategy_config result" where
  "makeOhlcBreakoutStrategy lround uuid combo =
     bind (swept_trading lround combo ''OhlcBreakoutStrategy'') (\<lambda>trading.
     bind (combo_getInt lround combo ''BREAKOUT_OHLC_COUNT'') (\<lambda>breakoutCount.
     bind (combo_getInt lround combo ''BREAKOUT_OHLC_MINUTES'') (\<lambda>breakoutMinutes.
     bind (combo_getInt lround combo ''TREND_OHLC_COUNT'') (\<lambda>trendCount.
     bind (combo_getInt lround combo ''TREND_OHLC_MINUTES'') (\<lambda>trendMinutes.
     bind (combo_getInt lround combo ''BUFFER_PIPS'') (\<lambda>bufferPips.
     bind (combo_getInt lround combo ''MAX_TRADE_DURATION_MINUTES'') (\<lambda>cap.
     Inr \<lparr>sc_UUID = uuid, sc_TRADING_VARIABLES = trading,
          sc_OHLC_VARIABLES = [\<lparr>ov_OHLC_COUNT = breakoutCount, ov_OHLC_MINUTES = breakoutMinutes\<rparr>,
                               \<lparr>ov_OHLC_COUNT = trendCount, ov_OHLC_MINUTES = trendMinutes\<rparr>],
          sc_RANGE_VARIABLES = [],
          sc_STRATEGY_VARIABLES =
            no_variables\<lparr>sv_OHLC_BREAKOUT_VARIABLES :=
              Some \<lparr>ob_BUFFER_PIPS = bufferPips, ob_MAX_TRADE_DURATION_MINUTES = cap\<rparr>\<rparr>\<rparr>)))))))"

definition makeFvgStrategy :: "('f \<Rightarrow> int) \<Rightarrow> string \<Rightarrow> 'f combination \<Rightarrow> strategy_config result" where
  "makeFvgStrategy lround uuid combo =
     bind (combo_getInt lround combo ''LOOKBACK_BARS'') (\<lambda>lookbackBars.
     bind (combo_getInt lround combo ''HTF_SMA_PERIOD'') (\<lambda>htfSmaPeriod.
     bind (swept_trading lround combo ''FvgStrategy'') (\<lambda>trading.
     bind (combo_getInt lround combo ''FVG_OHLC_MINUTES'') (\<lambda>fvgMinutes.
     bind (combo_getInt lround combo ''HTF_OHLC_MINUTES'') (\<lambda>htfMinutes.
     bind (combo_getInt lround combo ''MIN_GAP_PIPS'') (\<lambda>minGapPips.
     bind (combo_getInt lround combo ''MIN_GAP_AGE_BARS'') (\<lambda>minGapAgeBars.
     bind (combo_getInt lround combo ''MAX_TRADE_DURATION_MINUTES'') (\<lambda>cap.
     Inr \<lparr>sc_UUID = uuid, sc_TRADING_VARIABLES = trading,
          sc_OHLC_VARIABLES = [\<lparr>ov_OHLC_COUNT = i32 (lookbackBars + 3), ov_OHLC_MINUTES = fvgMinutes\<rparr>,
                               \<lparr>ov_OHLC_COUNT = i32 (htfSmaPeriod + 2), ov_OHLC_MINUTES = htfMinutes\<rparr>],
          sc_RANGE_VARIABLES = [],
          sc_STRATEGY_VARIABLES =
            no_variables\<lparr>sv_FVG_STRATEGY_VARIABLES :=
              Some \<lparr>fv_LOOKBACK_BARS = lookbackBars, fv_MIN_GAP_PIPS = minGapPips,
                    fv_HTF_SMA_PERIOD = htfSmaPeriod, fv_MIN_GAP_AGE_BARS = minGapAgeBars,
                    fv_MAX_TRADE_DURATION_MINUTES = cap\<rparr>\<rparr>\<rparr>))))))))"

definition makeKeltnerFadeStrategy :: "('f \<Rightarrow> int) \<Rightarrow> string \<Rightarrow> 'f combination \<Rightarrow> strategy_config result" where
  "makeKeltnerFadeStrategy lround uuid combo =
     bind (combo_getInt lround combo ''BAND_SMA_PERIOD'') (\<lambda>bandSmaPeriod.
     bind (swept_trading lround combo ''KeltnerFadeStrategy'') (\<lambda>trading.
     bind (combo_getInt lround combo ''OHLC_MINUTES'') (\<lambda>ohlcMinutes.
     bind (combo_getInt lround combo ''BAND_ATR_MULT_TENTHS'') (\<lambda>multTenths.
     bind (combo_getInt lround combo ''MAX_TRADE_DURATION_MINUTES'') (\<lambda>cap.
     Inr \<lparr>sc_UUID = uuid, sc_TRADING_VARIABLES = trading,
          sc_OHLC_VARIABLES = [\<lparr>ov_OHLC_COUNT = i32 (bandSmaPeriod + 2), ov_OHLC_MINUTES = ohlcMinutes\<rparr>],
          sc_RANGE_VARIABLES = [],
          sc_STRATEGY_VARIABLES =
            no_variables\<lparr>sv_KELTNER_FADE_VARIABLES :=
              Some \<lparr>kf_BAND_SMA_PERIOD = bandSmaPeriod, kf_BAND_ATR_MULT_TENTHS = multTenths,
                    kf_MAX_TRADE_DURATION_MINUTES = cap\<rparr>\<rparr>\<rparr>)))))"

text \<open>A C++ division by a zero parameter is undefined.\<close>

definition makeSessionRangeBreakoutStrategy :: "('f \<Rightarrow> int) \<Rightarrow> string \<Rightarrow> 'f combination \<Rightarrow> strategy_config result" where
  "makeSessionRangeBreakoutStrategy lround uuid combo =
     bind (combo_getInt lround combo ''OHLC_MINUTES'') (\<lambda>ohlcMinutes.
     bind (combo_getInt lround combo ''ENTRY_WINDOW_MINUTES'') (\<lambda>entryWindowMinutes.
     if ohlcMinutes = 0 then Inl UndefinedBehaviour else
     let ohlcCount = i32 (cdiv (i32 (i32 (i32 (480 + entryWindowMinutes) + ohlcMinutes) - 1)) ohlcMinutes + 2) in
     bind (swept_trading lround combo ''SessionRangeBreakoutStrategy'') (\<lambda>trading.
     bind (combo_getInt lround combo ''BUFFER_PIPS'') (\<lambda>bufferPips.
     bind (combo_getInt lround combo ''MAX_TRADE_DURATION_MINUTES'') (\<lambda>cap.
     Inr \<lparr>sc_UUID = uuid, sc_TRADING_VARIABLES = trading,
          sc_OHLC_VARIABLES = [\<lparr>ov_OHLC_COUNT = ohlcCount, ov_OHLC_MINUTES = ohlcMinutes\<rparr>],
          sc_RANGE_VARIABLES = [],
          sc_STRATEGY_VARIABLES =
            no_variables\<lparr>sv_SESSION_RANGE_BREAKOUT_VARIABLES :=
              Some \<lparr>sr_BUFFER_PIPS = bufferPips, sr_ENTRY_WINDOW_MINUTES = entryWindowMinutes,
                    sr_MAX_TRADE_DURATION_MINUTES = cap\<rparr>\<rparr>\<rparr>)))))"

definition makeSqueezeBreakoutStrategy :: "('f \<Rightarrow> int) \<Rightarrow> string \<Rightarrow> 'f combination \<Rightarrow> strategy_config result" where
  "makeSqueezeBreakoutStrategy lround uuid combo =
     bind (combo_getInt lround combo ''NR_LOOKBACK'') (\<lambda>nrLookback.
     bind (combo_getInt lround combo ''VALID_BARS'') (\<lambda>validBars.
     bind (swept_trading lround combo ''SqueezeBreakoutStrategy'') (\<lambda>trading.
     bind (combo_getInt lround combo ''OHLC_MINUTES'') (\<lambda>ohlcMinutes.
     bind (combo_getInt lround combo ''TREND_OHLC_COUNT'') (\<lambda>trendCount.
     bind (combo_getInt lround combo ''TREND_OHLC_MINUTES'') (\<lambda>trendMinutes.
     bind (combo_getInt lround combo ''BUFFER_PIPS'') (\<lambda>bufferPips.
     bind (combo_getInt lround combo ''MAX_TRADE_DURATION_MINUTES'') (\<lambda>cap.
     Inr \<lparr>sc_UUID = uuid, sc_TRADING_VARIABLES = trading,
          sc_OHLC_VARIABLES =
            [\<lparr>ov_OHLC_COUNT = i32 (i32 (validBars + max 1 (i32 (nrLookback - 1))) + 1), ov_OHLC_MINUTES = ohlcMinutes\<rparr>,
             \<lparr>ov_OHLC_COUNT = trendCount, ov_OHLC_MINUTES = trendMinutes\<rparr>],
          sc_RANGE_VARIABLES = [],
          sc_STRATEGY_VARIABLES =
            no_variables\<lparr>sv_SQUEEZE_BREAKOUT_VARIABLES :=
              Some \<lparr>sq_NR_LOOKBACK = nrLookback, sq_VALID_BARS = validBars, sq_BUFFER_PIPS = bufferPips,
                    sq_MAX_TRADE_DURATION_MINUTES = cap\<rparr>\<rparr>\<rparr>))))))))"

definition makeNyOpenRangeBreakoutStrategy :: "('f \<Rightarrow> int) \<Rightarrow> string \<Rightarrow> 'f combination \<Rightarrow> strategy_config result" where
  "makeNyOpenRangeBreakoutStrategy lround uuid combo =
     bind (combo_getInt lround combo ''OHLC_MINUTES'') (\<lambda>ohlcMinutes.
     bind (combo_getInt lround combo ''RANGE_HOURS'') (\<lambda>rangeHours.
     bind (combo_getInt lround combo ''ENTRY_WINDOW_MINUTES'') (\<lambda>entryWindowMinutes.
     if ohlcMinutes = 0 then Inl UndefinedBehaviour else
     let ohlcCount = i32 (cdiv (i32 (i32 (i32 (i32 (rangeHours * 60) + entryWindowMinutes) + ohlcMinutes) - 1)) ohlcMinutes + 2) in
     bind (swept_trading lround combo ''NyOpenRangeBreakoutStrategy'') (\<lambda>trading.
     bind (combo_getInt lround combo ''BUFFER_PIPS'') (\<lambda>bufferPips.
     bind (combo_getInt lround combo ''MAX_TRADE_DURATION_MINUTES'') (\<lambda>cap.
     Inr \<lparr>sc_UUID = uuid, sc_TRADING_VARIABLES = trading,
          sc_OHLC_VARIABLES = [\<lparr>ov_OHLC_COUNT = ohlcCount, ov_OHLC_MINUTES = ohlcMinutes\<rparr>],
          sc_RANGE_VARIABLES = [],
          sc_STRATEGY_VARIABLES =
            no_variables\<lparr>sv_NY_OPEN_RANGE_BREAKOUT_VARIABLES :=
              Some \<lparr>ny_RANGE_HOURS = rangeHours, ny_BUFFER_PIPS = bufferPips,
                    ny_ENTRY_WINDOW_MINUTES = entryWindowMinutes, ny_MAX_TRADE_DURATION_MINUTES = cap\<rparr>\<rparr>\<rparr>))))))"

definition makeLiquiditySweepReversalStrategy :: "('f \<Rightarrow> int) \<Rightarrow> string \<Rightarrow> 'f combination \<Rightarrow> strategy_config result" where
  "makeLiquiditySweepReversalStrategy lround uuid combo =
     bind (combo_getInt lround combo ''PIVOT_BARS'') (\<lambda>pivotBars.
     bind (combo_getInt lround combo ''LOOKBACK_BARS'') (\<lambda>lookbackBars.
     bind (combo_getInt lround combo ''VALID_BARS'') (\<lambda>validBars.
     let ohlcCount = max (i32 (i32 (lookbackBars + pivotBars) + 1)) (i32 (validBars + 11)) in
     bind (swept_trading lround combo ''LiquiditySweepReversalStrategy'') (\<lambda>trading.
     bind (combo_getInt lround combo ''OHLC_MINUTES'') (\<lambda>ohlcMinutes.
     bind (combo_getInt lround combo ''MIN_SWEEP_PIPS'') (\<lambda>minSweepPips.
     bind (combo_getInt lround combo ''DISPLACEMENT_ATR_TENTHS'') (\<lambda>tenths.
     bind (combo_getInt lround combo ''MAX_TRADE_DURATION_MINUTES'') (\<lambda>cap.
     Inr \<lparr>sc_UUID = uuid, sc_TRADING_VARIABLES = trading,
          sc_OHLC_VARIABLES = [\<lparr>ov_OHLC_COUNT = ohlcCount, ov_OHLC_MINUTES = ohlcMinutes\<rparr>],
          sc_RANGE_VARIABLES = [],
          sc_STRATEGY_VARIABLES =
            no_variables\<lparr>sv_LIQUIDITY_SWEEP_REVERSAL_VARIABLES :=
              Some \<lparr>ls_PIVOT_BARS = pivotBars, ls_LOOKBACK_BARS = lookbackBars, ls_MIN_SWEEP_PIPS = minSweepPips,
                    ls_DISPLACEMENT_ATR_TENTHS = tenths, ls_VALID_BARS = validBars,
                    ls_MAX_TRADE_DURATION_MINUTES = cap\<rparr>\<rparr>\<rparr>))))))))"

definition makeRangeVelocityStrategy :: "('f \<Rightarrow> int) \<Rightarrow> string \<Rightarrow> 'f combination \<Rightarrow> strategy_config result" where
  "makeRangeVelocityStrategy lround uuid combo =
     bind (combo_getInt lround combo ''RUN_BARS'') (\<lambda>runBars.
     bind (combo_getInt lround combo ''SPEED_LOOKBACK_BARS'') (\<lambda>speedLookbackBars.
     bind (combo_getInt lround combo ''EXIT_RUN_BARS'') (\<lambda>exitRunBars.
     let rangeCount = i32 (max (i32 (runBars + speedLookbackBars)) exitRunBars + 2) in
     bind (swept_trading lround combo ''RangeVelocityStrategy'') (\<lambda>trading.
     bind (combo_getInt lround combo ''RANGE_ATR_TICK_WINDOW'') (\<lambda>tickWindow.
     bind (combo_getInt lround combo ''RANGE_ATR_PERCENT'') (\<lambda>percent.
     bind (combo_getInt lround combo ''SPEED_RATIO_PERCENT'') (\<lambda>ratio.
     bind (combo_getInt lround combo ''MAX_TRADE_DURATION_MINUTES'') (\<lambda>cap.
     Inr \<lparr>sc_UUID = uuid, sc_TRADING_VARIABLES = trading, sc_OHLC_VARIABLES = [],
          sc_RANGE_VARIABLES = [\<lparr>rv_RANGE_ATR_TICK_WINDOW = tickWindow, rv_RANGE_ATR_PERCENT = percent,
                                 rv_RANGE_COUNT = rangeCount\<rparr>],
          sc_STRATEGY_VARIABLES =
            no_variables\<lparr>sv_RANGE_VELOCITY_VARIABLES :=
              Some \<lparr>ve_RUN_BARS = runBars, ve_SPEED_LOOKBACK_BARS = speedLookbackBars,
                    ve_SPEED_RATIO_PERCENT = ratio, ve_EXIT_RUN_BARS = exitRunBars,
                    ve_MAX_TRADE_DURATION_MINUTES = cap\<rparr>\<rparr>\<rparr>))))))))"

subsection \<open>The sweep a name selects\<close>

type_synonym 'f sweep_factory = "('f \<Rightarrow> int) \<Rightarrow> string \<Rightarrow> 'f combination \<Rightarrow> strategy_config result"

definition selectSweep ::
  "('d, 'f, 'y) float_ops_scheme \<Rightarrow> string \<Rightarrow> ('f parameter_generator option \<times> 'f sweep_factory) option" where
  "selectSweep F sweepName =
     (if sweepName = ''random'' then Some (buildRandomStrategySweep F, makeRandomStrategy)
      else if sweepName = ''ohlcBreakout'' then Some (buildOhlcBreakoutStrategySweep F, makeOhlcBreakoutStrategy)
      else if sweepName = ''fvg'' then Some (buildFvgStrategySweep F, makeFvgStrategy)
      else if sweepName = ''keltnerFade'' then Some (buildKeltnerFadeStrategySweep F, makeKeltnerFadeStrategy)
      else if sweepName = ''sessionRangeBreakout''
        then Some (buildSessionRangeBreakoutStrategySweep F, makeSessionRangeBreakoutStrategy)
      else if sweepName = ''squeezeBreakout'' then Some (buildSqueezeBreakoutStrategySweep F, makeSqueezeBreakoutStrategy)
      else if sweepName = ''nyOpenRangeBreakout''
        then Some (buildNyOpenRangeBreakoutStrategySweep F, makeNyOpenRangeBreakoutStrategy)
      else if sweepName = ''liquiditySweepReversal''
        then Some (buildLiquiditySweepReversalStrategySweep F, makeLiquiditySweepReversalStrategy)
      else if sweepName = ''rangeVelocity'' then Some (buildRangeVelocityStrategySweep F, makeRangeVelocityStrategy)
      else None)"

definition resolveSymbolGroups :: "string list \<Rightarrow> string list" where
  "resolveSymbolGroups sweepGroups = (if sweepGroups \<noteq> [] then sweepGroups else kSymbolGroups)"

subsection \<open>The values a combination can hold\<close>

text \<open>A generator is an integer grid when its ranges list integers.\<close>

definition int_grid :: "real parameter_generator \<Rightarrow> (string \<times> int list) list \<Rightarrow> bool" where
  "int_grid gen specs \<longleftrightarrow>
     range_values real_float (g_ranges gen) = Some (map (\<lambda>(n, ns). (n, map real_of_int ns)) specs)
     \<and> distinct (map fst specs) \<and> (\<forall>(n, ns) \<in> set specs. ns \<noteq> [])"

lemma range_values_append:
  "range_values F (as @ bs) =
     (case range_values F as of None \<Rightarrow> None | Some xs \<Rightarrow> map_option ((@) xs) (range_values F bs))"
  by (cases "range_values F bs"; induction as) (auto split: option.splits)

lemma addLists_ranges:
  "g_ranges (addLists F gen specs) = g_ranges gen @ map (\<lambda>(n, ns). (n, ExplicitRange (map (\<lambda>k. f_lit F k 1) ns))) specs"
  by (induction specs arbitrary: gen) (auto simp: addLists_def addList_def addRange_def)

lemma range_values_lists:
  "range_values real_float (map (\<lambda>(n, ns). (n, ExplicitRange (map (\<lambda>k. f_lit real_float k 1) ns))) specs)
     = Some (map (\<lambda>(n, ns). (n, map real_of_int ns)) specs)"
  by (induction specs) (auto simp: real_float_def)

lemma combo_loop_picks:
  assumes "\<forall>(n, vs) \<in> set nvs. vs \<noteq> []" "distinct (map fst nvs)"
  shows "\<exists>m. combo_loop nvs i c = Inr m \<and> (\<forall>(n, vs) \<in> set nvs. \<exists>v \<in> set vs. m n = Some v)
     \<and> (\<forall>n. n \<notin> fst ` set nvs \<longrightarrow> m n = c n)"
  using assms
proof (induction nvs arbitrary: i c)
  case (Cons nv nvs)
  obtain n vs where nv: "nv = (n, vs)" by (cases nv)
  have vs: "vs \<noteq> []" and new: "n \<notin> fst ` set nvs" using Cons.prems nv by auto
  let ?v = "vs ! (i mod length vs)"
  have v: "?v \<in> set vs" using vs by simp
  obtain m where m: "combo_loop nvs (i div length vs) (combo_set c n ?v) = Inr m"
    "\<forall>(n, vs) \<in> set nvs. \<exists>v \<in> set vs. m n = Some v" "\<forall>k. k \<notin> fst ` set nvs \<longrightarrow> m k = combo_set c n ?v k"
    using Cons.IH [of "i div length vs" "combo_set c n ?v"] Cons.prems by auto
  moreover have "m n = Some ?v" using m(3) new by (simp add: combo_set_def)
  moreover have "m k = c k" if "k \<notin> fst ` set (nv # nvs)" for k
    using m(3) that nv by (simp add: combo_set_def)
  ultimately show ?case using vs v by (auto simp: nv)
qed simp

lemma grid_combination:
  assumes "int_grid gen specs"
  shows "\<exists>m. combinationAt real_float gen i = Some (Inr m)
     \<and> (\<forall>(n, ns) \<in> set specs. \<exists>k \<in> set ns. m n = Some (real_of_int k))
     \<and> (\<forall>n. n \<notin> fst ` set specs \<longrightarrow> m n = None)"
proof -
  let ?nvs = "map (\<lambda>(n, ns). (n, map real_of_int ns)) specs"
  have "\<forall>(n, vs) \<in> set (rev ?nvs). vs \<noteq> []" "distinct (map fst (rev ?nvs))"
    using assms by (auto simp: int_grid_def rev_map [symmetric] comp_def case_prod_beta)
  from combo_loop_picks [OF this, of i Map.empty]
  obtain m where m: "combo_loop (rev ?nvs) i Map.empty = Inr m"
    "\<forall>(n, vs) \<in> set ?nvs. \<exists>v \<in> set vs. m n = Some v" "\<forall>n. n \<notin> fst ` set ?nvs \<longrightarrow> m n = None"
    by auto
  have "combinationAt real_float gen i = Some (Inr m)"
    using assms m(1) by (simp add: combinationAt_def int_grid_def)
  moreover have "\<forall>(n, ns) \<in> set specs. \<exists>k \<in> set ns. m n = Some (real_of_int k)" using m(2) by fastforce
  moreover have "\<forall>n. n \<notin> fst ` set specs \<longrightarrow> m n = None" using m(3) by (force simp: image_iff)
  ultimately show ?thesis by blast
qed

text \<open>Reading a parameter: a value of its list, hence within the list's bounds.\<close>

definition holds_grid :: "real combination \<Rightarrow> (string \<times> int list) list \<Rightarrow> bool" where
  "holds_grid m specs \<longleftrightarrow> (\<forall>(n, ns) \<in> set specs. \<exists>k \<in> set ns. m n = Some (real_of_int k))
     \<and> (\<forall>n. n \<notin> fst ` set specs \<longrightarrow> m n = None)"

lemma grid_getInt:
  assumes "holds_grid m specs" "map_of specs name = Some ns" "\<forall>k \<in> set ns. lo \<le> k \<and> k \<le> hi" "in_i32 lo" "in_i32 hi"
  obtains k where "combo_getInt round m name = Inr k" "lo \<le> k" "k \<le> hi"
proof -
  obtain k where k: "k \<in> set ns" "m name = Some (real_of_int k)"
    using assms(1) map_of_SomeD [OF assms(2)] by (auto simp: holds_grid_def)
  then have "in_i32 k" using assms(3-5) by (force simp: in_i32_def)
  then have "combo_getInt round m name = Inr k" by (simp add: combo_getInt_def combo_get_def k(2))
  then show thesis using assms(3) k(1) that by blast
qed

lemma addLists_grid:
  assumes "g_ranges gen0 = []" "distinct (map fst specs)" "\<forall>(n, ns) \<in> set specs. ns \<noteq> []"
  shows "int_grid (addLists real_float gen0 specs) specs"
  using assms by (simp add: int_grid_def addLists_ranges range_values_lists)

definition shipped :: "string list" where
  "shipped = [''random'', ''ohlcBreakout'', ''fvg'', ''keltnerFade'', ''sessionRangeBreakout'', ''squeezeBreakout'',
     ''nyOpenRangeBreakout'', ''liquiditySweepReversal'', ''rangeVelocity'']"

lemma selectSweep_shipped: "selectSweep F sweepName \<noteq> None \<longleftrightarrow> sweepName \<in> set shipped"
  by (simp add: selectSweep_def shipped_def)

lemma symbols_known:
  "allSymbolsKnown kSymbolGroupsOverride" "allSymbolsKnown kOhlcBreakoutSymbolGroupsOverride"
  "allSymbolsKnown kFvgSymbolGroupsOverride" "allSymbolsKnown kKeltnerFadeSymbolGroupsOverride"
  "allSymbolsKnown kSessionRangeBreakoutSymbolGroupsOverride" "allSymbolsKnown kSqueezeBreakoutSymbolGroupsOverride"
  "allSymbolsKnown kNyOpenRangeBreakoutSymbolGroupsOverride"
  "allSymbolsKnown kLiquiditySweepReversalSymbolGroupsOverride" "allSymbolsKnown kRangeVelocitySymbolGroupsOverride"
  "allSymbolsKnown kSymbolGroups"
  by code_simp+

subsection \<open>What each factory accepts\<close>

definition param :: "real combination \<Rightarrow> string \<Rightarrow> int \<Rightarrow> int \<Rightarrow> bool" where
  "param m name lo hi \<longleftrightarrow> (\<exists>k. combo_getInt round m name = Inr k \<and> lo \<le> k \<and> k \<le> hi)"

definition traded :: "real combination \<Rightarrow> bool" where
  "traded m \<longleftrightarrow> param m ''STOP_DISTANCE_IN_ATR'' 1 100 \<and> param m ''LIMIT_DISTANCE_IN_ATR'' 1 100"

definition accepted_config :: "strategy_config result \<Rightarrow> bool" where
  "accepted_config r \<longleftrightarrow>
     (\<exists>config. r = Inr config \<and> no_overflow config \<and> (\<exists>s. makeStrategy () config = Inr s))"

lemma param_grid:
  assumes "holds_grid m specs" "map_of specs name \<noteq> None"
    "\<forall>k \<in> set (the (map_of specs name)). lo \<le> k \<and> k \<le> hi" "in_i32 lo" "in_i32 hi"
  shows "param m name lo hi"
proof -
  obtain ns where ns: "map_of specs name = Some ns" using assms(2) by blast
  then have "\<forall>k \<in> set ns. lo \<le> k \<and> k \<le> hi" using assms(3) by simp
  from grid_getInt [OF assms(1) ns this assms(4,5)] show ?thesis by (metis param_def)
qed

lemma paramD: "param m name lo hi \<Longrightarrow> \<exists>k. combo_getInt round m name = Inr k \<and> lo \<le> k \<and> k \<le> hi"
  by (simp add: param_def)

lemma tradedD:
  "traded m \<Longrightarrow> \<exists>stop limit. swept_trading round m name = Inr \<lparr>tv_STRATEGY = name, tv_STOP_DISTANCE_IN_ATR = stop,
     tv_LIMIT_DISTANCE_IN_ATR = limit, tv_TRADING_SIZE = 1\<rparr>"
  by (auto simp: traded_def param_def swept_trading_def)

lemma random_accepted: "traded m \<Longrightarrow> m ''OHLC_COUNT'' = None \<Longrightarrow> m ''OHLC_MINUTES'' = None \<Longrightarrow>
    accepted_config (makeRandomStrategy round uuid m)"
  using tradedD [of m "''RandomStrategy''"]
  by (auto simp: accepted_config_def makeRandomStrategy_def combo_has_def makeStrategy_def no_overflow_def
      no_variables_def in_i32_def)

lemma ohlc_breakout_accepted:
  assumes "traded m" "param m ''BREAKOUT_OHLC_COUNT'' 2 10000" "param m ''BREAKOUT_OHLC_MINUTES'' 1 10000"
    "param m ''TREND_OHLC_COUNT'' 2 10000" "param m ''TREND_OHLC_MINUTES'' 1 10000" "param m ''BUFFER_PIPS'' 0 10000"
    "param m ''MAX_TRADE_DURATION_MINUTES'' 0 10000"
  shows "accepted_config (makeOhlcBreakoutStrategy round uuid m)"
  using tradedD [OF assms(1), of "''OhlcBreakoutStrategy''"] assms(2-7) [THEN paramD]
  by (auto simp: accepted_config_def makeOhlcBreakoutStrategy_def makeStrategy_def new_ohlc_breakout_def built_def
      no_overflow_def no_variables_def in_i32_def)

lemma fvg_accepted:
  assumes "traded m" "param m ''LOOKBACK_BARS'' 1 10000" "param m ''HTF_SMA_PERIOD'' 1 10000"
    "param m ''FVG_OHLC_MINUTES'' 1 10000" "param m ''HTF_OHLC_MINUTES'' 1 10000" "param m ''MIN_GAP_PIPS'' 1 10000"
    "param m ''MIN_GAP_AGE_BARS'' 0 10000" "param m ''MAX_TRADE_DURATION_MINUTES'' 0 10000"
  shows "accepted_config (makeFvgStrategy round uuid m)"
proof -
  obtain a b where "combo_getInt round m ''LOOKBACK_BARS'' = Inr a" "combo_getInt round m ''HTF_SMA_PERIOD'' = Inr b"
    and ab: "1 \<le> a" "a \<le> 10000" "1 \<le> b" "b \<le> 10000" using assms(2,3) [THEN paramD] by blast
  moreover have "in_i32 (a + 3)" "in_i32 (b + 2)" using ab by (auto simp: in_i32_def)
  ultimately show ?thesis
    using tradedD [OF assms(1), of "''FvgStrategy''"] assms(4-8) [THEN paramD]
    by (auto simp: accepted_config_def makeFvgStrategy_def makeStrategy_def new_fvg_def built_def no_overflow_def
        no_variables_def)
qed

lemma keltner_fade_accepted:
  assumes "traded m" "param m ''BAND_SMA_PERIOD'' 1 10000" "param m ''OHLC_MINUTES'' 1 10000"
    "param m ''BAND_ATR_MULT_TENTHS'' 1 10000" "param m ''MAX_TRADE_DURATION_MINUTES'' 0 10000"
  shows "accepted_config (makeKeltnerFadeStrategy round uuid m)"
proof -
  obtain a where "combo_getInt round m ''BAND_SMA_PERIOD'' = Inr a" and ab: "1 \<le> a" "a \<le> 10000"
    using assms(2) [THEN paramD] by blast
  moreover have "in_i32 (a + 2)" using ab by (auto simp: in_i32_def)
  ultimately show ?thesis
    using tradedD [OF assms(1), of "''KeltnerFadeStrategy''"] assms(3-5) [THEN paramD]
    by (auto simp: accepted_config_def makeKeltnerFadeStrategy_def makeStrategy_def new_keltner_fade_def built_def
        no_overflow_def no_variables_def)
qed

text \<open>The window of the session strategies: rounded up to whole bars, with two to spare.\<close>

lemma window_covers:
  fixes x m :: int
  assumes "1 \<le> m"
  shows "x + 2 * m \<le> ((x + m - 1) div m + 2) * m"
proof -
  let ?y = "x + m - 1"
  have "?y mod m \<le> m - 1" using assms pos_mod_bound [of m ?y] by linarith
  moreover have "?y = ?y div m * m + ?y mod m" by simp
  ultimately have "x \<le> ?y div m * m" by linarith
  then show ?thesis by (simp add: distrib_right)
qed

lemma window_small:
  fixes x m :: int
  assumes "1 \<le> m" "0 \<le> x" "x \<le> 100000" "m \<le> 10000"
  shows "0 \<le> (x + m - 1) div m" "(x + m - 1) div m \<le> 110000" "in_i64 (((x + m - 1) div m + 2) * m)"
proof -
  show lo: "0 \<le> (x + m - 1) div m" using assms by (simp add: pos_imp_zdiv_nonneg_iff)
  have "(x + m - 1) div m \<le> (x + m - 1) div 1" using assms by (intro zdiv_mono2) auto
  then show hi: "(x + m - 1) div m \<le> 110000" using assms by simp
  have "in_i32 ((x + m - 1) div m + 2)" "in_i32 m" using lo hi assms by (auto simp: in_i32_def)
  then show "in_i64 (((x + m - 1) div m + 2) * m)" by (rule in_i64_mult)
qed

lemma session_range_accepted:
  assumes "traded m" "param m ''OHLC_MINUTES'' 1 10000" "param m ''ENTRY_WINDOW_MINUTES'' 1 10000"
    "param m ''BUFFER_PIPS'' 0 10000" "param m ''MAX_TRADE_DURATION_MINUTES'' 0 10000"
  shows "accepted_config (makeSessionRangeBreakoutStrategy round uuid m)"
proof -
  obtain a b where get: "combo_getInt round m ''OHLC_MINUTES'' = Inr a" "combo_getInt round m ''ENTRY_WINDOW_MINUTES'' = Inr b"
    and ab: "1 \<le> a" "a \<le> 10000" "1 \<le> b" "b \<le> 10000" using assms(2,3) [THEN paramD] by blast
  obtain p d where rest: "combo_getInt round m ''BUFFER_PIPS'' = Inr p" "0 \<le> p"
    "combo_getInt round m ''MAX_TRADE_DURATION_MINUTES'' = Inr d" using assms(4,5) [THEN paramD] by blast
  obtain st li where t: "swept_trading round m ''SessionRangeBreakoutStrategy'' = Inr
      \<lparr>tv_STRATEGY = ''SessionRangeBreakoutStrategy'', tv_STOP_DISTANCE_IN_ATR = st, tv_LIMIT_DISTANCE_IN_ATR = li,
       tv_TRADING_SIZE = 1\<rparr>" using tradedD [OF assms(1)] by blast
  define n where "n = (480 + b + a - 1) div a + 2"
  have cover: "480 + b + 2 * a \<le> n * a" unfolding n_def using window_covers [OF ab(1), of "480 + b"] by simp
  have small: "2 \<le> n" "n \<le> 110002" "in_i64 (n * a)"
    unfolding n_def using window_small [of a "480 + b"] ab by auto
  have ints: "in_i32 (480 + b)" "in_i32 (480 + b + a)" "in_i32 (480 + b + a - 1)" "in_i32 n"
    "in_i64 (480 + b + 2 * a)" using ab small(1,2) by (auto simp: in_i32_def in_i64_def)
  have count: "i32 (cdiv (i32 (i32 (i32 (480 + b) + a) - 1)) a + 2) = n"
    using ints ab unfolding n_def by simp
  have ok: "\<not> i64 (n * a) < i64 (kLatestLondonOpen + b + 2 * a)"
    using cover small(3) ints(5) by (simp add: kLatestLondonOpen_def)
  have "a \<noteq> 0" "\<not> a < 1" "\<not> b < 1" "\<not> p < 0" using ab rest(2) by auto
  then show ?thesis
    by (simp add: accepted_config_def makeSessionRangeBreakoutStrategy_def get rest t count Let_def makeStrategy_def
        new_session_range_breakout_def built_def no_overflow_def no_variables_def ok ints(4))
qed

lemma ny_open_range_accepted:
  assumes "traded m" "param m ''OHLC_MINUTES'' 1 10000" "param m ''RANGE_HOURS'' 1 13"
    "param m ''ENTRY_WINDOW_MINUTES'' 1 10000" "param m ''BUFFER_PIPS'' 0 10000" "param m ''MAX_TRADE_DURATION_MINUTES'' 0 10000"
  shows "accepted_config (makeNyOpenRangeBreakoutStrategy round uuid m)"
proof -
  obtain a h b where get: "combo_getInt round m ''OHLC_MINUTES'' = Inr a" "combo_getInt round m ''RANGE_HOURS'' = Inr h"
      "combo_getInt round m ''ENTRY_WINDOW_MINUTES'' = Inr b"
    and ab: "1 \<le> a" "a \<le> 10000" "1 \<le> h" "h \<le> 13" "1 \<le> b" "b \<le> 10000" using assms(2-4) [THEN paramD] by blast
  obtain p d where rest: "combo_getInt round m ''BUFFER_PIPS'' = Inr p" "0 \<le> p"
    "combo_getInt round m ''MAX_TRADE_DURATION_MINUTES'' = Inr d" using assms(5,6) [THEN paramD] by blast
  obtain st li where t: "swept_trading round m ''NyOpenRangeBreakoutStrategy'' = Inr
      \<lparr>tv_STRATEGY = ''NyOpenRangeBreakoutStrategy'', tv_STOP_DISTANCE_IN_ATR = st, tv_LIMIT_DISTANCE_IN_ATR = li,
       tv_TRADING_SIZE = 1\<rparr>" using tradedD [OF assms(1)] by blast
  define n where "n = (h * 60 + b + a - 1) div a + 2"
  have cover: "h * 60 + b + 2 * a \<le> n * a" unfolding n_def using window_covers [OF ab(1), of "h * 60 + b"] by simp
  have small: "2 \<le> n" "n \<le> 110002" "in_i64 (n * a)"
    unfolding n_def using window_small [of a "h * 60 + b"] ab by auto
  have ints: "in_i32 (h * 60)" "in_i32 (h * 60 + b)" "in_i32 (h * 60 + b + a)" "in_i32 (h * 60 + b + a - 1)" "in_i32 n"
    "in_i64 (h * 60 + b + 2 * a)" using ab small(1,2) by (auto simp: in_i32_def in_i64_def)
  have count: "i32 (cdiv (i32 (i32 (i32 (i32 (h * 60) + b) + a) - 1)) a + 2) = n"
    using ints ab unfolding n_def by simp
  have ok: "\<not> i64 (n * a) < i64 (h * 60 + b + 2 * a)" using cover small(3) ints(6) by simp
  have "a \<noteq> 0" "\<not> a < 1" "\<not> b < 1" "\<not> p < 0" "\<not> h < 1" "\<not> 810 < h * 60" using ab rest(2) by auto
  then show ?thesis
    by (simp add: accepted_config_def makeNyOpenRangeBreakoutStrategy_def get rest t count Let_def makeStrategy_def
        new_ny_open_range_breakout_def built_def no_overflow_def no_variables_def ok ints(5))
qed

lemma squeeze_accepted:
  assumes "traded m" "\<exists>k. combo_getInt round m ''NR_LOOKBACK'' = Inr k \<and> (k = 0 \<or> 2 \<le> k \<and> k \<le> 10000)"
    "param m ''VALID_BARS'' 1 10000" "param m ''OHLC_MINUTES'' 1 10000" "param m ''TREND_OHLC_COUNT'' 2 10000"
    "param m ''TREND_OHLC_MINUTES'' 1 10000" "param m ''BUFFER_PIPS'' 0 10000" "param m ''MAX_TRADE_DURATION_MINUTES'' 0 10000"
  shows "accepted_config (makeSqueezeBreakoutStrategy round uuid m)"
proof -
  obtain k b where get: "combo_getInt round m ''NR_LOOKBACK'' = Inr k" "combo_getInt round m ''VALID_BARS'' = Inr b"
    and k: "k = 0 \<or> 2 \<le> k \<and> k \<le> 10000" and b: "1 \<le> b" "b \<le> 10000" using assms(2) assms(3) [THEN paramD] by blast
  obtain om tc tm p d where rest: "combo_getInt round m ''OHLC_MINUTES'' = Inr om" "combo_getInt round m ''TREND_OHLC_COUNT'' = Inr tc"
    "combo_getInt round m ''TREND_OHLC_MINUTES'' = Inr tm" "combo_getInt round m ''BUFFER_PIPS'' = Inr p"
    "combo_getInt round m ''MAX_TRADE_DURATION_MINUTES'' = Inr d" and r: "1 \<le> om" "2 \<le> tc" "tc \<le> 10000" "1 \<le> tm" "0 \<le> p" "0 \<le> d"
    using assms(4-8) [THEN paramD] by blast
  obtain st li where t: "swept_trading round m ''SqueezeBreakoutStrategy'' = Inr
      \<lparr>tv_STRATEGY = ''SqueezeBreakoutStrategy'', tv_STOP_DISTANCE_IN_ATR = st, tv_LIMIT_DISTANCE_IN_ATR = li,
       tv_TRADING_SIZE = 1\<rparr>" using tradedD [OF assms(1)] by blast
  define w where "w = max 1 (k - 1)"
  have w: "1 \<le> w" "w \<le> 10000" using k by (auto simp: w_def)
  have ints: "in_i32 (k - 1)" "in_i32 (b + w)" "in_i32 (b + w + 1)" "in_i32 tc" using k b w r by (auto simp: in_i32_def)
  have i: "i32 (k - 1) = k - 1" and count: "i32 (i32 (b + w) + 1) = b + w + 1" using ints by simp_all
  have "\<not> k < 0" "k \<noteq> 1" "\<not> om < 1" "\<not> tm < 1" "\<not> tc < 2" "\<not> b < 1" "\<not> p < 0" "\<not> d < 0" using k b r by auto
  then show ?thesis
    by (simp add: accepted_config_def makeSqueezeBreakoutStrategy_def get rest t i w_def [symmetric] count makeStrategy_def
        new_squeeze_breakout_def built_def no_overflow_def no_variables_def Let_def ints(3,4))
qed

lemma sweep_reversal_accepted:
  assumes "traded m" "param m ''PIVOT_BARS'' 1 20" "param m ''LOOKBACK_BARS'' 21 10000" "param m ''VALID_BARS'' 1 20"
    "param m ''OHLC_MINUTES'' 1 10000" "param m ''MIN_SWEEP_PIPS'' 0 10000" "param m ''DISPLACEMENT_ATR_TENTHS'' 0 10000"
    "param m ''MAX_TRADE_DURATION_MINUTES'' 0 10000"
  shows "accepted_config (makeLiquiditySweepReversalStrategy round uuid m)"
proof -
  obtain p l b where get: "combo_getInt round m ''PIVOT_BARS'' = Inr p" "combo_getInt round m ''LOOKBACK_BARS'' = Inr l"
      "combo_getInt round m ''VALID_BARS'' = Inr b"
    and r: "1 \<le> p" "p \<le> 20" "21 \<le> l" "l \<le> 10000" "1 \<le> b" "b \<le> 20" using assms(2-4) [THEN paramD] by blast
  obtain om sp t d where rest: "combo_getInt round m ''OHLC_MINUTES'' = Inr om" "combo_getInt round m ''MIN_SWEEP_PIPS'' = Inr sp"
    "combo_getInt round m ''DISPLACEMENT_ATR_TENTHS'' = Inr t" "combo_getInt round m ''MAX_TRADE_DURATION_MINUTES'' = Inr d"
    and q: "1 \<le> om" "0 \<le> sp" "0 \<le> t" "0 \<le> d" using assms(5-8) [THEN paramD] by blast
  obtain st li where tr: "swept_trading round m ''LiquiditySweepReversalStrategy'' = Inr
      \<lparr>tv_STRATEGY = ''LiquiditySweepReversalStrategy'', tv_STOP_DISTANCE_IN_ATR = st, tv_LIMIT_DISTANCE_IN_ATR = li,
       tv_TRADING_SIZE = 1\<rparr>" using tradedD [OF assms(1)] by blast
  define n where "n = max (l + p + 1) (b + 11)"
  have n: "in_i32 n" "in_i32 l" "in_i32 (l + p + 1)" using r by (auto simp: n_def in_i32_def)
  have "in_i32 (p + 1)" "in_i32 (l + p)" "in_i32 (b + 10)" "in_i32 (b + 11)" "in_i32 (11 + b)"
    using r by (auto simp: in_i32_def)
  then have count: "max (i32 (i32 (l + p) + 1)) (i32 (b + 11)) = n"
    "max (i32 (i32 (l + p) + 1)) (i32 (i32 (b + kSweepAtrPeriod) + 1)) = n" "i32 (p + 1) = p + 1"
    using n by (simp_all add: kSweepAtrPeriod_def n_def add.commute)
  have "\<not> p < 1" "\<not> l < p + 1" "\<not> sp < 0" "\<not> t < 0" "\<not> (b < 1 \<or> b > l)" "\<not> d < 0" "\<not> om < 1" using r q by auto
  then show ?thesis
    by (simp only: accepted_config_def makeLiquiditySweepReversalStrategy_def get rest tr count makeStrategy_def
        new_sweep_reversal_def Let_def bind_simps)
      (simp add: built_def no_overflow_def no_variables_def count n)
qed

lemma range_velocity_accepted:
  assumes "traded m" "param m ''RUN_BARS'' 1 10000" "param m ''SPEED_LOOKBACK_BARS'' 1 10000" "param m ''EXIT_RUN_BARS'' 1 10000"
    "param m ''RANGE_ATR_TICK_WINDOW'' 1 10000" "param m ''RANGE_ATR_PERCENT'' 1 10000" "param m ''SPEED_RATIO_PERCENT'' 1 10000"
    "param m ''MAX_TRADE_DURATION_MINUTES'' 0 10000"
  shows "accepted_config (makeRangeVelocityStrategy round uuid m)"
proof -
  obtain a b c where get: "combo_getInt round m ''RUN_BARS'' = Inr a" "combo_getInt round m ''SPEED_LOOKBACK_BARS'' = Inr b"
      "combo_getInt round m ''EXIT_RUN_BARS'' = Inr c"
    and r: "1 \<le> a" "a \<le> 10000" "1 \<le> b" "b \<le> 10000" "1 \<le> c" "c \<le> 10000" using assms(2-4) [THEN paramD] by blast
  obtain w pc ra d where rest: "combo_getInt round m ''RANGE_ATR_TICK_WINDOW'' = Inr w"
    "combo_getInt round m ''RANGE_ATR_PERCENT'' = Inr pc" "combo_getInt round m ''SPEED_RATIO_PERCENT'' = Inr ra"
    "combo_getInt round m ''MAX_TRADE_DURATION_MINUTES'' = Inr d" and q: "1 \<le> w" "1 \<le> pc" "1 \<le> ra" "0 \<le> d"
    using assms(5-8) [THEN paramD] by blast
  obtain st li where tr: "swept_trading round m ''RangeVelocityStrategy'' = Inr
      \<lparr>tv_STRATEGY = ''RangeVelocityStrategy'', tv_STOP_DISTANCE_IN_ATR = st, tv_LIMIT_DISTANCE_IN_ATR = li,
       tv_TRADING_SIZE = 1\<rparr>" using tradedD [OF assms(1)] by blast
  have ints: "in_i32 (a + b)" "in_i32 (max (a + b) c + 2)" "in_i32 a" "in_i32 b" "in_i32 c" using r by (auto simp: in_i32_def)
  have count: "i32 (a + b) = a + b" "i32 (max (a + b) c + 2) = max (a + b) c + 2" using ints by simp_all
  have "\<not> (w < 1 \<or> pc < 1 \<or> max (a + b) c + 2 < 1)" "\<not> a < 1" "\<not> b < 1" "\<not> c < 1" "\<not> ra < 1" "\<not> d < 0"
    "\<not> max (a + b) c + 2 < max (a + b) c" using r q by auto
  then show ?thesis
    by (simp only: accepted_config_def makeRangeVelocityStrategy_def get rest tr count makeStrategy_def
        new_range_velocity_def Let_def bind_simps)
      (simp add: built_def no_overflow_def no_variables_def count ints)
qed

subsection \<open>Every shipped combination is accepted\<close>

lemma lists_valid:
  assumes "map_option (\<lambda>gen. addLists real_float gen specs) (setSymbolGroups empty_generator syms) = Some gen"
    and "distinct (map fst specs)" "\<forall>(n, ns) \<in> set specs. ns \<noteq> []"
    and "\<And>m. holds_grid m specs \<Longrightarrow> accepted_config (mk m)"
  shows "\<exists>m. combinationAt real_float gen i = Some (Inr m) \<and> accepted_config (mk m)"
proof -
  obtain gen0 where "setSymbolGroups empty_generator syms = Some gen0" "gen = addLists real_float gen0 specs"
    using assms(1) by blast
  moreover from this have "g_ranges gen0 = []" by (auto simp: setSymbolGroups_def empty_generator_def split: if_splits)
  ultimately have "int_grid gen specs" using addLists_grid [OF _ assms(2,3)] by simp
  from grid_combination [OF this, of i] assms(4) show ?thesis by (auto simp: holds_grid_def)
qed

lemma random_grid:
  assumes "buildRandomStrategySweep real_float = Some gen"
  shows "int_grid gen [(''STOP_DISTANCE_IN_ATR'', [1, 2]), (''LIMIT_DISTANCE_IN_ATR'', [3, 5, 7, 9])]"
proof -
  have "generateValues real_float (LinearRange (of_int 3) (of_int 2) (of_int 9)) = Some (map of_int [3, 5, 7, 9])"
    by (subst linear_range_inclusive) (simp_all add: upt_rec)
  then have limit: "generateValues real_float (LinearRange (f_lit real_float 3 1) (f_lit real_float 2 1) (f_lit real_float 9 1))
      = Some [3, 5, 7, 9]" by (simp add: real_float_def)
  have "gen = addRange (addLists real_float \<lparr>g_ranges = [], g_symbolGroups = kSymbolGroupsOverride\<rparr>
       [(''STOP_DISTANCE_IN_ATR'', [1, 2])])
       ''LIMIT_DISTANCE_IN_ATR'' (LinearRange (f_lit real_float 3 1) (f_lit real_float 2 1) (f_lit real_float 9 1))"
    using assms by (simp add: buildRandomStrategySweep_def setSymbolGroups_def empty_generator_def split: if_splits)
  then show ?thesis
    by (simp add: int_grid_def addRange_def addLists_ranges range_values_append limit del: generateValues.simps(1))
      (simp add: real_float_def)
qed

lemma holds_traded:
  assumes "holds_grid m specs"
    "map_of specs ''STOP_DISTANCE_IN_ATR'' \<noteq> None" "map_of specs ''LIMIT_DISTANCE_IN_ATR'' \<noteq> None"
    "\<forall>k \<in> set (the (map_of specs ''STOP_DISTANCE_IN_ATR'')). 1 \<le> k \<and> k \<le> 100"
    "\<forall>k \<in> set (the (map_of specs ''LIMIT_DISTANCE_IN_ATR'')). 1 \<le> k \<and> k \<le> 100"
  shows "traded m"
  unfolding traded_def
  by (intro conjI param_grid [OF assms(1,2,4)] param_grid [OF assms(1,3,5)]) (simp_all add: in_i32_def)

text \<open>A parameter's bounds are checked against its list.\<close>

lemma nr_lookback:
  assumes "holds_grid m specs" "map_of specs ''NR_LOOKBACK'' = Some [0, 7]"
  shows "\<exists>k. combo_getInt round m ''NR_LOOKBACK'' = Inr k \<and> (k = 0 \<or> 2 \<le> k \<and> k \<le> 10000)"
proof -
  obtain k where k: "k \<in> {0, 7}" "m ''NR_LOOKBACK'' = Some (real_of_int k)"
    using assms(1) map_of_SomeD [OF assms(2)] by (auto simp: holds_grid_def)
  then have "combo_getInt round m ''NR_LOOKBACK'' = Inr (i32 k)" by (simp add: combo_getInt_def combo_get_def)
  with k show ?thesis by (auto simp: in_i32_def)
qed

lemmas grid_facts = holds_traded param_grid

lemma shipped_valid:
  assumes "selectSweep real_float sweepName = Some (Some gen, mk)"
  shows "\<exists>m. combinationAt real_float gen i = Some (Inr m) \<and> accepted_config (mk round uuid m)"
proof -
  consider "buildRandomStrategySweep real_float = Some gen" "mk = makeRandomStrategy"
    | "buildOhlcBreakoutStrategySweep real_float = Some gen" "mk = makeOhlcBreakoutStrategy"
    | "buildFvgStrategySweep real_float = Some gen" "mk = makeFvgStrategy"
    | "buildKeltnerFadeStrategySweep real_float = Some gen" "mk = makeKeltnerFadeStrategy"
    | "buildSessionRangeBreakoutStrategySweep real_float = Some gen" "mk = makeSessionRangeBreakoutStrategy"
    | "buildSqueezeBreakoutStrategySweep real_float = Some gen" "mk = makeSqueezeBreakoutStrategy"
    | "buildNyOpenRangeBreakoutStrategySweep real_float = Some gen" "mk = makeNyOpenRangeBreakoutStrategy"
    | "buildLiquiditySweepReversalStrategySweep real_float = Some gen" "mk = makeLiquiditySweepReversalStrategy"
    | "buildRangeVelocityStrategySweep real_float = Some gen" "mk = makeRangeVelocityStrategy"
    using assms by (simp only: selectSweep_def split: if_splits) (simp_all)
  then show ?thesis
  proof cases
    case 1
    obtain m where m: "combinationAt real_float gen i = Some (Inr m)"
      "holds_grid m [(''STOP_DISTANCE_IN_ATR'', [1, 2]), (''LIMIT_DISTANCE_IN_ATR'', [3, 5, 7, 9])]"
      using grid_combination [OF random_grid [OF 1(1)], of i] by (auto simp: holds_grid_def)
    have "traded m" by (rule holds_traded [OF m(2)]) simp_all
    moreover have "m ''OHLC_COUNT'' = None" "m ''OHLC_MINUTES'' = None" using m(2) by (simp_all add: holds_grid_def)
    ultimately show ?thesis using m(1) random_accepted 1(2) by blast
  next
    case 2
    show ?thesis unfolding 2(2)
      by (rule lists_valid [OF 2(1) [unfolded buildOhlcBreakoutStrategySweep_def]], simp, simp,
          rule ohlc_breakout_accepted; erule grid_facts; simp add: in_i32_def)
  next
    case 3
    show ?thesis unfolding 3(2)
      by (rule lists_valid [OF 3(1) [unfolded buildFvgStrategySweep_def]], simp, simp,
          rule fvg_accepted; erule grid_facts; simp add: in_i32_def)
  next
    case 4
    show ?thesis unfolding 4(2)
      by (rule lists_valid [OF 4(1) [unfolded buildKeltnerFadeStrategySweep_def]], simp, simp,
          rule keltner_fade_accepted; erule grid_facts; simp add: in_i32_def)
  next
    case 5
    show ?thesis unfolding 5(2)
      by (rule lists_valid [OF 5(1) [unfolded buildSessionRangeBreakoutStrategySweep_def]], simp, simp,
          rule session_range_accepted; erule grid_facts; simp add: in_i32_def)
  next
    case 6
    show ?thesis unfolding 6(2)
      by (rule lists_valid [OF 6(1) [unfolded buildSqueezeBreakoutStrategySweep_def]], simp, simp,
          rule squeeze_accepted; (erule nr_lookback)?; (erule grid_facts)?; simp add: in_i32_def)
  next
    case 7
    show ?thesis unfolding 7(2)
      by (rule lists_valid [OF 7(1) [unfolded buildNyOpenRangeBreakoutStrategySweep_def]], simp, simp,
          rule ny_open_range_accepted; erule grid_facts; simp add: in_i32_def)
  next
    case 8
    show ?thesis unfolding 8(2)
      by (rule lists_valid [OF 8(1) [unfolded buildLiquiditySweepReversalStrategySweep_def]], simp, simp,
          rule sweep_reversal_accepted; erule grid_facts; simp add: in_i32_def)
  next
    case 9
    show ?thesis unfolding 9(2)
      by (rule lists_valid [OF 9(1) [unfolded buildRangeVelocityStrategySweep_def]], simp, simp,
          rule range_velocity_accepted; erule grid_facts; simp add: in_i32_def)
  qed
qed

lemma addLists_symbols: "g_symbolGroups (addLists F gen specs) = g_symbolGroups gen"
  by (induction specs arbitrary: gen) (auto simp: addLists_def addList_def addRange_def)

lemmas builder_defs = buildRandomStrategySweep_def buildOhlcBreakoutStrategySweep_def buildFvgStrategySweep_def
  buildKeltnerFadeStrategySweep_def buildSessionRangeBreakoutStrategySweep_def buildSqueezeBreakoutStrategySweep_def
  buildNyOpenRangeBreakoutStrategySweep_def buildLiquiditySweepReversalStrategySweep_def buildRangeVelocityStrategySweep_def

lemma selected_builds:
  assumes "selectSweep F sweepName = Some (gens, mk)"
  obtains gen where "gens = Some gen"
proof -
  have "gens \<noteq> None"
    using assms by (simp only: selectSweep_def split: if_splits) (auto simp: builder_defs setSymbolGroups_def symbols_known)
  then show thesis using that by blast
qed

lemma selected_symbols:
  assumes "selectSweep F sweepName = Some (Some gen, mk)"
  shows "allSymbolsKnown (resolveSymbolGroups (g_symbolGroups gen))"
proof -
  have "allSymbolsKnown (g_symbolGroups gen)"
    using assms by (simp only: selectSweep_def split: if_splits)
      (auto simp: builder_defs setSymbolGroups_def symbols_known addLists_symbols addRange_def)
  then show ?thesis by (simp add: resolveSymbolGroups_def symbols_known)
qed

text \<open>C19: every backtest a shipped sweep can queue is a valid one. For each of the nine sweep
  names the loader accepts, and whatever the index into the grid, the combination exists, the
  sweep's factory finds every parameter it reads, the configuration it builds names a strategy
  whose constructor accepts it, and no 32-bit sum overflows on the way; an unknown name selects
  nothing; and every symbol of every grid is one the engine can scale.\<close>

theorem shipped_sweeps_are_valid:
  "case selectSweep real_float sweepName of
     None \<Rightarrow> sweepName \<notin> set shipped
   | Some (gens, mk) \<Rightarrow> sweepName \<in> set shipped
       \<and> (case gens of
            None \<Rightarrow> False
          | Some gen \<Rightarrow> allSymbolsKnown (resolveSymbolGroups (g_symbolGroups gen))
              \<and> (\<exists>m config strat. combinationAt real_float gen i = Some (Inr m)
                    \<and> mk round uuid m = Inr config \<and> no_overflow config \<and> makeStrategy () config = Inr strat))"
proof (cases "selectSweep real_float sweepName")
  case None
  then show ?thesis using selectSweep_shipped [of real_float sweepName] by simp
next
  case (Some p)
  obtain gens mk where p: "p = (gens, mk)" by (cases p)
  have known: "sweepName \<in> set shipped" using Some selectSweep_shipped [of real_float sweepName] by auto
  obtain gen where gen: "gens = Some gen" using Some [unfolded p] by (rule selected_builds)
  obtain m where "combinationAt real_float gen i = Some (Inr m)" "accepted_config (mk round uuid m)"
    using shipped_valid [OF Some [unfolded p gen], of i uuid] by blast
  moreover have "allSymbolsKnown (resolveSymbolGroups (g_symbolGroups gen))"
    using Some [unfolded p gen] by (rule selected_symbols)
  ultimately show ?thesis using Some p gen known by (auto simp: accepted_config_def)
qed

end
