(* ===== verification/ElasticPublisher.thy ===== *)
theory ElasticPublisher
  imports JsonConv Ohlc
begin

section \<open>The Elasticsearch publisher\<close>

text \<open>
  \<open>run/reporting/elasticPublisher.cpp\<close>: documents are queued per index and delivered in \<open>_bulk\<close>
  requests, retried while the failure may pass, and kept in a local dead-letter file when it does
  not. A request to libcurl is a field of \<open>elastic_env\<close>, with the other things the publisher asks of
  the system: the environment variables, the clock, sleeping, the random UUIDs, and appending to a
  file. Logging is left out. \<open>bulk_documents_accounted\<close>: no document is lost on the way.
\<close>

subsection \<open>Requests and attempts\<close>

record put_attempt =
  at_code :: int
  at_httpStatus :: int

record http_request =
  rq_method :: string
  rq_url :: string
  rq_user :: string
  rq_password :: string
  rq_contentType :: string
  rq_body :: string

text \<open>What libcurl makes of a request: no handle, an error (with the status and the part of the body
  received so far), or an answer.\<close>

datatype curl_outcome = No_handle | Transport_error int string | Answered int string

record 'w elastic_env =
  el_getenv :: "string \<Rightarrow> string option"
  el_perform :: "http_request \<Rightarrow> 'w \<Rightarrow> curl_outcome \<times> 'w"
  el_sleep :: "int \<Rightarrow> 'w \<Rightarrow> 'w"
  el_uuid :: "'w \<Rightarrow> string \<times> 'w"
  el_nowIsoUtc :: "'w \<Rightarrow> string \<times> 'w"
  el_append :: "string \<Rightarrow> string \<Rightarrow> 'w \<Rightarrow> bool \<times> 'w"

record bulk_doc =
  bd_id :: string
  bd_body :: string

definition elastic_disabled :: "'w elastic_env \<Rightarrow> bool" where
  "elastic_disabled env \<longleftrightarrow> getOr (el_getenv env) ''ELASTIC_ENABLED'' ''1'' = ''0''"

definition elastic_url :: "'w elastic_env \<Rightarrow> string \<Rightarrow> string" where
  "elastic_url env path = getOr (el_getenv env) ''ELASTIC_HOST'' ''http://localhost:9200'' @ path"

definition attemptRequest ::
  "'w elastic_env \<Rightarrow> string \<Rightarrow> string \<Rightarrow> string \<Rightarrow> string \<Rightarrow> 'w \<Rightarrow> (put_attempt \<times> string) \<times> 'w" where
  "attemptRequest env method url body contentType w =
     (case el_perform env
             \<lparr>rq_method = method, rq_url = url, rq_user = getOr (el_getenv env) ''ELASTIC_USER'' [],
              rq_password = getOr (el_getenv env) ''ELASTIC_USER_PASSWORD'' [],
              rq_contentType = contentType, rq_body = body\<rparr> w of
        (No_handle, w') \<Rightarrow> ((\<lparr>at_code = 1, at_httpStatus = 0\<rparr>, []), w')
      | (Transport_error status got, w') \<Rightarrow> ((\<lparr>at_code = 2, at_httpStatus = status\<rparr>, got), w')
      | (Answered status response, w') \<Rightarrow>
          ((\<lparr>at_code = (if status < 200 \<or> status \<ge> 300 then 3 else 0), at_httpStatus = status\<rparr>, response), w'))"

definition attemptPut :: "'w elastic_env \<Rightarrow> string \<Rightarrow> string \<Rightarrow> 'w \<Rightarrow> (put_attempt \<times> string) \<times> 'w" where
  "attemptPut env url body w =
     (case attemptRequest env ''PUT'' url body ''application/json'' w of ((a, _), w') \<Rightarrow> ((a, []), w'))"

definition attemptPost ::
  "'w elastic_env \<Rightarrow> string \<Rightarrow> string \<Rightarrow> string \<Rightarrow> 'w \<Rightarrow> (put_attempt \<times> string) \<times> 'w" where
  "attemptPost env url body contentType w = attemptRequest env ''POST'' url body contentType w"

definition kMaxRetryAttempts :: int where "kMaxRetryAttempts = 3"

definition isTransientFailure :: "put_attempt \<Rightarrow> bool" where
  "isTransientFailure a \<longleftrightarrow>
     at_code a = 2 \<or> (at_code a = 3 \<and> (at_httpStatus a = 429 \<or> at_httpStatus a \<ge> 500))"

definition retryBackoff :: "'w elastic_env \<Rightarrow> int \<Rightarrow> 'w \<Rightarrow> 'w" where
  "retryBackoff env attemptNumber w = el_sleep env (if attemptNumber = 1 then 1 else 3) w"

fun retry_loop ::
  "'w elastic_env \<Rightarrow> ('w \<Rightarrow> (put_attempt \<times> string) \<times> 'w) \<Rightarrow> int list \<Rightarrow> put_attempt \<times> string \<Rightarrow> 'w
     \<Rightarrow> (put_attempt \<times> string) \<times> 'w" where
  "retry_loop env tryOnce [] latest w = (latest, w)"
| "retry_loop env tryOnce (i # is) latest w =
     (case tryOnce w of
        (a, w') \<Rightarrow>
          if at_code (fst a) = 0 \<or> \<not> isTransientFailure (fst a) \<or> i = kMaxRetryAttempts then (a, w')
          else retry_loop env tryOnce is a (retryBackoff env i w'))"

definition attemptWithRetries ::
  "'w elastic_env \<Rightarrow> ('w \<Rightarrow> (put_attempt \<times> string) \<times> 'w) \<Rightarrow> 'w \<Rightarrow> (put_attempt \<times> string) \<times> 'w" where
  "attemptWithRetries env tryOnce w =
     retry_loop env tryOnce [1..kMaxRetryAttempts] (\<lparr>at_code = 0, at_httpStatus = 0\<rparr>, []) w"

subsection \<open>The dead-letter file\<close>

definition dq :: string where "dq = [CHR 0x22]"

definition dead_line :: "string \<Rightarrow> string \<Rightarrow> bulk_doc \<Rightarrow> string" where
  "dead_line ts index doc =
     ''{'' @ dq @ ''ts'' @ dq @ '':'' @ dq @ ts @ dq @ '','' @ dq @ ''index'' @ dq @ '':'' @ dq @ index @ dq
     @ '','' @ dq @ ''docId'' @ dq @ '':'' @ dq @ bd_id doc @ dq @ '','' @ dq @ ''doc'' @ dq @ '':'' @ bd_body doc
     @ ''}'' @ [CHR 0x0A]"

definition deadLetter :: "'w elastic_env \<Rightarrow> string \<Rightarrow> bulk_doc \<Rightarrow> 'w \<Rightarrow> 'w" where
  "deadLetter env index doc w =
     (case el_nowIsoUtc env w of
        (ts, w') \<Rightarrow> snd (el_append env (getOr (el_getenv env) ''ELASTIC_DEADLETTER_PATH'' ''elastic_deadletter.ndjson'')
                          (dead_line ts index doc) w'))"

definition putDocument :: "'w elastic_env \<Rightarrow> string \<Rightarrow> string \<Rightarrow> string \<Rightarrow> 'w \<Rightarrow> int \<times> 'w" where
  "putDocument env index body docId w =
     (if elastic_disabled env then (0, w)
      else case (if docId = [] then el_uuid env w else (docId, w)) of
        (uuid, w1) \<Rightarrow>
          (case attemptWithRetries env (attemptPut env (elastic_url env (''/'' @ index @ ''/_doc/'' @ uuid)) body) w1 of
             ((a, _), w2) \<Rightarrow>
               if at_code a = 0 then (0, w2)
               else (at_code a, deadLetter env index \<lparr>bd_id = uuid, bd_body = body\<rparr> w2)))"

subsection \<open>Bulk requests\<close>

fun buildBulkBody :: "'f double_ops \<Rightarrow> bulk_doc list \<Rightarrow> json_error + string" where
  "buildBulkBody dbl [] = Inr []"
| "buildBulkBody dbl (doc # docs) =
     bind (json_dump dbl (json_init [(''index'', json_init [(''_id'', JString (bd_id doc))])])) (\<lambda>action.
     bind (buildBulkBody dbl docs) (\<lambda>rest.
       Inr (action @ [CHR 0x0A] @ bd_body doc @ [CHR 0x0A] @ rest)))"

text \<open>\<open>items[k]\<close> of the response, and the status in it: 0 where there is none.\<close>

definition json_size :: "'f json \<Rightarrow> nat" where
  "json_size j = (case j of JNull \<Rightarrow> 0 | JArray js \<Rightarrow> length js | JObject kvs \<Rightarrow> length kvs | _ \<Rightarrow> 1)"

definition item_status :: "'f double_conv \<Rightarrow> 'f json \<Rightarrow> nat \<Rightarrow> conv_error + int" where
  "item_status conv items k =
     (if \<not> k < json_size items then Inr 0
      else case items of
        JArray js \<Rightarrow>
          (case js ! k of
             JObject kvs \<Rightarrow>
               (let action = (case map_of kvs ''index'' of Some a \<Rightarrow> a | None \<Rightarrow> JObject kvs) in
                case action of JObject _ \<Rightarrow> json_value (get_int_of conv) action ''status'' 0 | _ \<Rightarrow> Inr 0)
           | _ \<Rightarrow> Inr 0)
      | _ \<Rightarrow> Inl (Json_error (type_error 305 (''cannot use operator[] with a numeric argument with '' @ type_name items))))"

text \<open>The pass over the pending documents: what is to be sent again, and whether any was dead-lettered;
  a malformed item ends it.\<close>

fun sort_items ::
  "'w elastic_env \<Rightarrow> 'f double_conv \<Rightarrow> string \<Rightarrow> 'f json \<Rightarrow> nat \<Rightarrow> bulk_doc list \<Rightarrow> bulk_doc list \<Rightarrow> bool \<Rightarrow> 'w
     \<Rightarrow> (bool \<times> bulk_doc list \<times> bool) \<times> 'w" where
  "sort_items env conv index items k [] retry dead w = ((True, retry, dead), w)"
| "sort_items env conv index items k (doc # docs) retry dead w =
     (case item_status conv items k of
        Inl e \<Rightarrow> ((False, retry, dead), w)
      | Inr status \<Rightarrow>
          if status \<ge> 200 \<and> status < 300 then sort_items env conv index items (Suc k) docs retry dead w
          else if status = 429 \<or> status \<ge> 500 then sort_items env conv index items (Suc k) docs (retry @ [doc]) dead w
          else sort_items env conv index items (Suc k) docs retry True (deadLetter env index doc w))"

definition inspect ::
  "'w elastic_env \<Rightarrow> 'f double_conv \<Rightarrow> string \<Rightarrow> string \<Rightarrow> bulk_doc list \<Rightarrow> bool \<Rightarrow> 'w
     \<Rightarrow> (bulk_doc list \<times> bool) \<times> 'w" where
  "inspect env conv index response pending dead w =
     (case json_parse (double_ops.truncate conv) response of
        Inl e \<Rightarrow> (([], dead), w)
      | Inr resp \<Rightarrow>
          (case json_value get_bool_of resp ''errors'' False of
             Inl e \<Rightarrow> (([], dead), w)
           | Inr False \<Rightarrow> (([], dead), w)
           | Inr True \<Rightarrow>
               (case json_at resp ''items'' of
                  Inl e \<Rightarrow> (([], dead), w)
                | Inr items \<Rightarrow>
                    (case sort_items env conv index items 0 pending [] dead w of
                       ((complete, retry, dead'), w') \<Rightarrow> ((if complete then retry else [], dead'), w')))))"

text \<open>The attempts at a chunk: a status returned, or the documents given up on.\<close>

fun bulk_loop ::
  "'w elastic_env \<Rightarrow> 'f double_conv \<Rightarrow> string \<Rightarrow> string \<Rightarrow> int list \<Rightarrow> put_attempt \<Rightarrow> bulk_doc list \<Rightarrow> bool \<Rightarrow> 'w
     \<Rightarrow> (json_error + (int + put_attempt \<times> bulk_doc list)) \<times> 'w" where
  "bulk_loop env conv index url [] attempt pending dead w = (Inr (Inr (attempt, pending)), w)"
| "bulk_loop env conv index url (i # is) attempt pending dead w =
     (case buildBulkBody (double_ops.truncate conv) pending of
        Inl e \<Rightarrow> (Inl e, w)
      | Inr body \<Rightarrow>
          (case attemptPost env url body ''application/x-ndjson'' w of
             ((attempt', response), w1) \<Rightarrow>
               if at_code attempt' = 0 then
                 (case inspect env conv index response pending dead w1 of
                    ((retry, dead'), w2) \<Rightarrow>
                      if retry = [] then (Inr (Inl (if dead' then 3 else 0)), w2)
                      else if i = kMaxRetryAttempts then (Inr (Inr (attempt', retry)), w2)
                      else bulk_loop env conv index url is attempt' retry dead' (retryBackoff env i w2))
               else if \<not> isTransientFailure attempt' \<or> i = kMaxRetryAttempts
                 then (Inr (Inr (attempt', pending)), w1)
               else bulk_loop env conv index url is attempt' pending dead (retryBackoff env i w1)))"

definition postBulkChunk ::
  "'w elastic_env \<Rightarrow> 'f double_conv \<Rightarrow> string \<Rightarrow> string \<Rightarrow> bulk_doc list \<Rightarrow> 'w \<Rightarrow> (json_error + int) \<times> 'w" where
  "postBulkChunk env conv index url chunk w =
     (case bulk_loop env conv index url [1..kMaxRetryAttempts] \<lparr>at_code = 0, at_httpStatus = 0\<rparr> chunk False w of
        (Inl e, w1) \<Rightarrow> (Inl e, w1)
      | (Inr (Inl rc), w1) \<Rightarrow> (Inr rc, w1)
      | (Inr (Inr (attempt, pending)), w1) \<Rightarrow>
          (Inr (if at_code attempt \<noteq> 0 then at_code attempt else 3), fold (deadLetter env index) pending w1))"

definition kMaxBulkDocs :: nat where "kMaxBulkDocs = 1000"
definition kMaxBulkBytes :: int where "kMaxBulkBytes = 4 * 1024 * 1024"

definition flush_chunk ::
  "'w elastic_env \<Rightarrow> 'f double_conv \<Rightarrow> string \<Rightarrow> string \<Rightarrow> bulk_doc list \<Rightarrow> int \<Rightarrow> 'w \<Rightarrow> (json_error + int) \<times> 'w" where
  "flush_chunk env conv index url chunk worst w =
     (if chunk = [] then (Inr worst, w)
      else case postBulkChunk env conv index url chunk w of
          (Inl e, w') \<Rightarrow> (Inl e, w')
        | (Inr rc, w') \<Rightarrow> (Inr (if rc \<noteq> 0 then rc else worst), w'))"

fun bulk_chunks ::
  "'w elastic_env \<Rightarrow> 'f double_conv \<Rightarrow> string \<Rightarrow> string \<Rightarrow> bulk_doc list \<Rightarrow> bulk_doc list \<Rightarrow> int \<Rightarrow> int \<Rightarrow> 'w
     \<Rightarrow> (json_error + int) \<times> 'w" where
  "bulk_chunks env conv index url [] chunk chunkBytes worst w = flush_chunk env conv index url chunk worst w"
| "bulk_chunks env conv index url (doc # docs) chunk chunkBytes worst w =
     (let chunk' = chunk @ [doc];
          chunkBytes' = u64 (chunkBytes + (int (length (bd_id doc)) + int (length (bd_body doc)) + 32)) in
      if length chunk' \<ge> kMaxBulkDocs \<or> chunkBytes' \<ge> kMaxBulkBytes then
        (case flush_chunk env conv index url chunk' worst w of
           (Inl e, w') \<Rightarrow> (Inl e, w')
         | (Inr worst', w') \<Rightarrow> bulk_chunks env conv index url docs [] 0 worst' w')
      else bulk_chunks env conv index url docs chunk' chunkBytes' worst w)"

definition bulkIndexDocuments ::
  "'w elastic_env \<Rightarrow> 'f double_conv \<Rightarrow> string \<Rightarrow> bulk_doc list \<Rightarrow> 'w \<Rightarrow> (json_error + int) \<times> 'w" where
  "bulkIndexDocuments env conv index docs w =
     (if docs = [] \<or> elastic_disabled env then (Inr 0, w)
      else bulk_chunks env conv index (elastic_url env (''/'' @ index @ ''/_bulk'')) docs [] 0 0 w)"

subsection \<open>The buffered flusher\<close>

text \<open>\<open>DocumentBatcher\<close>: the documents per index, in the key order of a \<open>std::map\<close>.\<close>

type_synonym batcher = "(string \<times> bulk_doc list) list"

definition queued_for :: "batcher \<Rightarrow> string \<Rightarrow> bulk_doc list" where
  "queued_for pending index = (case map_of pending index of None \<Rightarrow> [] | Some docs \<Rightarrow> docs)"

definition batch_enqueue :: "string \<Rightarrow> bulk_doc list \<Rightarrow> batcher \<Rightarrow> batcher" where
  "batch_enqueue index docs pending = map_put index (queued_for pending index @ docs) pending"

fun deliver_batch ::
  "'w elastic_env \<Rightarrow> 'f double_conv \<Rightarrow> batcher \<Rightarrow> int \<Rightarrow> 'w \<Rightarrow> (json_error + int) \<times> 'w" where
  "deliver_batch env conv [] worst w = (Inr worst, w)"
| "deliver_batch env conv ((index, docs) # batch) worst w =
     (case bulkIndexDocuments env conv index docs w of
        (Inl e, w') \<Rightarrow> (Inl e, w')
      | (Inr rc, w') \<Rightarrow> deliver_batch env conv batch (if rc \<noteq> 0 then rc else worst) w')"

text \<open>The buffer is swapped out, then delivered: enqueues meanwhile land in the empty one.\<close>

definition batch_flush ::
  "'w elastic_env \<Rightarrow> 'f double_conv \<Rightarrow> batcher \<Rightarrow> 'w \<Rightarrow> (json_error + int) \<times> batcher \<times> 'w" where
  "batch_flush env conv pending w =
     (if pending = [] then (Inr 0, pending, w)
      else case deliver_batch env conv pending 0 w of (res, w') \<Rightarrow> (res, [], w'))"

definition enqueueDocument ::
  "'w elastic_env \<Rightarrow> string \<Rightarrow> string \<Rightarrow> string \<Rightarrow> batcher \<Rightarrow> 'w \<Rightarrow> batcher \<times> 'w" where
  "enqueueDocument env index body docId pending w =
     (if elastic_disabled env then (pending, w)
      else case (if docId = [] then el_uuid env w else (docId, w)) of
        (uuid, w') \<Rightarrow> (batch_enqueue index [\<lparr>bd_id = uuid, bd_body = body\<rparr>] pending, w'))"

definition enqueueDocuments ::
  "'w elastic_env \<Rightarrow> string \<Rightarrow> bulk_doc list \<Rightarrow> batcher \<Rightarrow> batcher" where
  "enqueueDocuments env index docs pending =
     (if docs = [] \<or> elastic_disabled env then pending else batch_enqueue index docs pending)"

definition flushQueuedDocuments ::
  "'w elastic_env \<Rightarrow> 'f double_conv \<Rightarrow> batcher \<Rightarrow> 'w \<Rightarrow> (json_error + int) \<times> batcher \<times> 'w" where
  "flushQueuedDocuments env conv pending w =
     (if elastic_disabled env then (Inr 0, pending, w) else batch_flush env conv pending w)"

subsection \<open>Reading and administration\<close>

text \<open>Status 4: the publisher is switched off.\<close>

definition searchIndex :: "'w elastic_env \<Rightarrow> string \<Rightarrow> string \<Rightarrow> 'w \<Rightarrow> (int \<times> string \<times> int) \<times> 'w" where
  "searchIndex env index queryBody w =
     (if elastic_disabled env then ((4, [], 0), w)
      else case attemptWithRetries env
             (attemptPost env (elastic_url env (''/'' @ index @ ''/_search'')) queryBody ''application/json'') w of
        ((a, response), w') \<Rightarrow> ((at_code a, response, at_httpStatus a), w'))"

fun contains_text :: "string \<Rightarrow> string \<Rightarrow> bool" where
  "contains_text needle [] \<longleftrightarrow> needle = []"
| "contains_text needle (c # cs) \<longleftrightarrow> take (length needle) (c # cs) = needle \<or> contains_text needle cs"

definition ensureIndexExists :: "'w elastic_env \<Rightarrow> string \<Rightarrow> 'w \<Rightarrow> int \<times> 'w" where
  "ensureIndexExists env index w =
     (if elastic_disabled env then (0, w)
      else case attemptWithRetries env
             (attemptRequest env ''PUT'' (elastic_url env (''/'' @ index)) ''{}'' ''application/json'') w of
        ((a, response), w') \<Rightarrow>
          (if at_code a = 0 then 0
           else if at_httpStatus a = 400 \<and> contains_text ''resource_already_exists_exception'' response then 0
           else at_code a, w'))"

definition alias_actions :: "string \<Rightarrow> string \<Rightarrow> 'f json" where
  "alias_actions alias index =
     JObject [(''actions'', JArray
       [JObject [(''remove'', json_fields [(''index'', JString ''*''), (''alias'', JString alias),
                                           (''must_exist'', JBoolean False)])],
        JObject [(''add'', json_fields [(''index'', JString index), (''alias'', JString alias)])]])]"

definition repointAlias ::
  "'w elastic_env \<Rightarrow> 'f double_conv \<Rightarrow> string \<Rightarrow> string \<Rightarrow> 'w \<Rightarrow> (json_error + int) \<times> 'w" where
  "repointAlias env conv alias index w =
     (if elastic_disabled env then (Inr 0, w)
      else case json_dump (double_ops.truncate conv) (alias_actions alias index) of
        Inl e \<Rightarrow> (Inl e, w)
      | Inr body \<Rightarrow>
          (case attemptWithRetries env (attemptPost env (elastic_url env ''/_aliases'') body ''application/json'') w of
             ((a, _), w') \<Rightarrow> (Inr (at_code a), w')))"

subsection \<open>What the publisher leaves behind\<close>

text \<open>\<open>log\<close> is the requests sent with their outcomes, \<open>dead\<close> the lines of the dead-letter file.\<close>

definition elastic_world ::
  "'w elastic_env \<Rightarrow> ('w \<Rightarrow> (http_request \<times> curl_outcome) list) \<Rightarrow> ('w \<Rightarrow> string list) \<Rightarrow> bool" where
  "elastic_world env log dead \<longleftrightarrow>
     (\<forall>rq w. log (snd (el_perform env rq w)) = log w @ [(rq, fst (el_perform env rq w))]
             \<and> dead (snd (el_perform env rq w)) = dead w)
     \<and> (\<forall>n w. log (el_sleep env n w) = log w \<and> dead (el_sleep env n w) = dead w)
     \<and> (\<forall>w. log (snd (el_nowIsoUtc env w)) = log w \<and> dead (snd (el_nowIsoUtc env w)) = dead w)
     \<and> (\<forall>path line w. log (snd (el_append env path line w)) = log w
                      \<and> dead (snd (el_append env path line w)) = dead w @ [line])"

text \<open>\<open>sent\<close> requests went out and \<open>ds\<close> were dead-lettered between \<open>w\<close> and \<open>w'\<close>.\<close>

definition went ::
  "('w \<Rightarrow> (http_request \<times> curl_outcome) list) \<Rightarrow> ('w \<Rightarrow> string list) \<Rightarrow> string
     \<Rightarrow> (http_request \<times> curl_outcome) list \<Rightarrow> bulk_doc list \<Rightarrow> 'w \<Rightarrow> 'w \<Rightarrow> bool" where
  "went log dead index sent ds w w' \<longleftrightarrow> log w' = log w @ sent
     \<and> (\<exists>stamps. length stamps = length ds \<and> dead w' = dead w @ map2 (\<lambda>ts. dead_line ts index) stamps ds)"

lemma went_refl: "went log dead index [] [] w w"
  by (simp add: went_def)

lemma went_trans:
  assumes "went log dead index s1 d1 w w1" "went log dead index s2 d2 w1 w2"
  shows "went log dead index (s1 @ s2) (d1 @ d2) w w2"
proof -
  obtain t1 t2 where t: "length t1 = length d1" "dead w1 = dead w @ map2 (\<lambda>ts. dead_line ts index) t1 d1"
    "length t2 = length d2" "dead w2 = dead w1 @ map2 (\<lambda>ts. dead_line ts index) t2 d2"
    using assms by (auto simp: went_def)
  then have "length (t1 @ t2) = length (d1 @ d2)"
    "dead w2 = dead w @ map2 (\<lambda>ts. dead_line ts index) (t1 @ t2) (d1 @ d2)" by simp_all
  then show ?thesis using assms unfolding went_def by (metis append_assoc)
qed

lemma went_deadLetter: "elastic_world env log dead \<Longrightarrow> went log dead index [] [doc] w (deadLetter env index doc w)"
  unfolding went_def by (rule conjI; (rule exI [of _ "[fst (el_nowIsoUtc env w)]"])?)
    (simp_all add: elastic_world_def deadLetter_def case_prod_beta)

lemma went_deadLetters: "elastic_world env log dead \<Longrightarrow> went log dead index [] ds w (fold (deadLetter env index) ds w)"
proof (induction ds arbitrary: w)
  case (Cons d ds)
  show ?case using went_trans [OF went_deadLetter [OF Cons.prems, of index d w] Cons.IH [OF Cons.prems]] by simp
qed (simp add: went_refl)

lemma went_backoff: "elastic_world env log dead \<Longrightarrow> went log dead index [] [] w (retryBackoff env i w)"
  by (simp add: elastic_world_def went_def retryBackoff_def)

lemma attemptPost_went:
  assumes "elastic_world env log dead" "attemptPost env url body ct w = ((a, response), w')"
  obtains rq answer where "went log dead index [(rq, answer)] [] w w'" "rq_body rq = body" "rq_url rq = url"
    "at_code a = 0 \<longleftrightarrow> (\<exists>status. answer = Answered status response \<and> 200 \<le> status \<and> status < 300)"
    "at_code a \<in> {0, 1, 2, 3}"
proof -
  define rq where "rq = \<lparr>rq_method = ''POST'', rq_url = url, rq_user = getOr (el_getenv env) ''ELASTIC_USER'' [],
    rq_password = getOr (el_getenv env) ''ELASTIC_USER_PASSWORD'' [], rq_contentType = ct, rq_body = body\<rparr>"
  obtain answer w'' where p: "el_perform env rq w = (answer, w'')" by force
  then have "w'' = w'" using assms(2)
    by (auto simp: attemptPost_def attemptRequest_def rq_def split: curl_outcome.splits)
  then have "went log dead index [(rq, answer)] [] w w'"
    using assms(1) p unfolding elastic_world_def went_def by (metis fst_conv snd_conv length_0_conv list.simps(8) zip_Nil append_Nil2)
  moreover have "at_code a = 0 \<longleftrightarrow> (\<exists>status. answer = Answered status response \<and> 200 \<le> status \<and> status < 300)"
    "at_code a \<in> {0, 1, 2, 3}"
    using assms(2) p by (auto simp: attemptPost_def attemptRequest_def rq_def split: curl_outcome.splits if_splits)
  ultimately show thesis using that by (simp add: rq_def)
qed

text \<open>What a 2xx answer to a bulk request of \<open>n\<close> documents says of the \<open>k\<close>-th: the items are legible or
  not, and a legible item takes it or not. An illegible answer counts as taken.\<close>

definition items_of :: "'f double_conv \<Rightarrow> string \<Rightarrow> 'f json option" where
  "items_of conv response =
     (case json_parse (double_ops.truncate conv) response of
        Inl e \<Rightarrow> None
      | Inr resp \<Rightarrow> if json_value get_bool_of resp ''errors'' False = Inr True
                    then (case json_at resp ''items'' of Inl e \<Rightarrow> None | Inr items \<Rightarrow> Some items) else None)"

definition taken_up :: "'f double_conv \<Rightarrow> string \<Rightarrow> nat \<Rightarrow> nat \<Rightarrow> bool" where
  "taken_up conv response n k \<longleftrightarrow>
     (case items_of conv response of
        None \<Rightarrow> True
      | Some items \<Rightarrow> (\<exists>j < n. \<exists>e. item_status conv items j = Inl e)
          \<or> (\<exists>status. item_status conv items k = Inr status \<and> 200 \<le> status \<and> status < 300))"

text \<open>A document went out in a request that was answered so.\<close>

definition delivered :: "'f double_conv \<Rightarrow> (http_request \<times> curl_outcome) list \<Rightarrow> bulk_doc \<Rightarrow> bool" where
  "delivered conv sent doc \<longleftrightarrow>
     (\<exists>(rq, answer) \<in> set sent. \<exists>ds k status response.
        answer = Answered status response \<and> 200 \<le> status \<and> status < 300
        \<and> buildBulkBody (double_ops.truncate conv) ds = Inr (rq_body rq)
        \<and> k < length ds \<and> ds ! k = doc \<and> taken_up conv response (length ds) k)"

lemma delivered_append: "delivered conv (a @ b) doc \<longleftrightarrow> delivered conv a doc \<or> delivered conv b doc"
  by (simp only: delivered_def set_append bex_Un)

text \<open>The pass over the items of a readable answer.\<close>

lemma sort_items_went:
  assumes "elastic_world env log dead"
    "sort_items env conv index items k pending retry anyDead w = ((complete, retry', anyDead'), w')"
  shows "\<exists>ds again. went log dead index [] ds w w' \<and> retry' = retry @ again \<and> anyDead' = (anyDead \<or> ds \<noteq> [])
     \<and> mset ds + mset again \<subseteq># mset pending
     \<and> (if complete then (\<forall>j < length pending. \<exists>status. item_status conv items (k + j) = Inr status
            \<and> (200 \<le> status \<and> status < 300 \<or> pending ! j \<in> set ds \<union> set again))
        else \<exists>j < length pending. \<exists>e. item_status conv items (k + j) = Inl e)"
  using assms(2)
proof (induction pending arbitrary: k retry anyDead w)
  case Nil
  then show ?case by (intro exI [of _ "[]"]) (auto simp: went_refl)
next
  case (Cons doc docs)
  show ?case
  proof (cases "item_status conv items k")
    case (Inl e)
    then have "j = 0 \<Longrightarrow> item_status conv items (k + j) = Inl e" for j by simp
    then show ?thesis using Cons.prems Inl
      by (intro exI [of _ "[]"]) (auto simp: went_refl intro!: exI [of _ "0 :: nat"])
  next
    case (Inr status)
    let ?good = "200 \<le> status \<and> status < 300" and ?again = "status = 429 \<or> status \<ge> 500"
    define ds1 where "ds1 = (if ?good \<or> ?again then [] else [doc])"
    define again1 where "again1 = (if ?again then [doc] else [])"
    define w1 where "w1 = (if ?good \<or> ?again then w else deadLetter env index doc w)"
    have step: "sort_items env conv index items (Suc k) docs (retry @ again1) (anyDead \<or> ds1 \<noteq> []) w1
        = ((complete, retry', anyDead'), w')"
      using Cons.prems Inr by (auto simp: ds1_def again1_def w1_def split: if_splits)
    have w1: "went log dead index [] ds1 w w1"
      using went_deadLetter [OF assms(1)] went_refl by (auto simp: ds1_def w1_def)
    obtain ds again where IH: "went log dead index [] ds w1 w'" "retry' = (retry @ again1) @ again"
      "anyDead' = ((anyDead \<or> ds1 \<noteq> []) \<or> ds \<noteq> [])" "mset ds + mset again \<subseteq># mset docs"
      "if complete then (\<forall>j < length docs. \<exists>status. item_status conv items (Suc k + j) = Inr status
            \<and> (200 \<le> status \<and> status < 300 \<or> docs ! j \<in> set ds \<union> set again))
        else \<exists>j < length docs. \<exists>e. item_status conv items (Suc k + j) = Inl e"
      using Cons.IH [OF step] by blast
    have head: "?good \<or> doc \<in> set ds1 \<union> set again1" by (auto simp: ds1_def again1_def)
    have "mset (ds1 @ ds) + mset (again1 @ again) \<subseteq># mset (doc # docs)"
      using IH(4) subset_mset.order_trans [of "mset ds + mset again" "mset docs" "add_mset doc (mset docs)"]
      by (auto simp: ds1_def again1_def)
    moreover have "if complete then (\<forall>j < length (doc # docs). \<exists>status. item_status conv items (k + j) = Inr status
            \<and> (200 \<le> status \<and> status < 300 \<or> (doc # docs) ! j \<in> set (ds1 @ ds) \<union> set (again1 @ again)))
        else \<exists>j < length (doc # docs). \<exists>e. item_status conv items (k + j) = Inl e"
    proof (cases complete)
      case True
      have "\<exists>status. item_status conv items (k + j) = Inr status
            \<and> (200 \<le> status \<and> status < 300 \<or> (doc # docs) ! j \<in> set (ds1 @ ds) \<union> set (again1 @ again))"
        if "j < length (doc # docs)" for j
      proof (cases j)
        case 0
        then show ?thesis using head Inr by auto
      next
        case (Suc i)
        then have "i < length docs" using that by simp
        then obtain status where "item_status conv items (Suc k + i) = Inr status"
          "200 \<le> status \<and> status < 300 \<or> docs ! i \<in> set ds \<union> set again"
          using IH(5) True by auto
        then show ?thesis using Suc by auto
      qed
      then show ?thesis using True by simp
    next
      case False
      then obtain j e where "j < length docs" "item_status conv items (Suc k + j) = Inl e" using IH(5) by auto
      then show ?thesis using False by (auto intro!: exI [of _ "Suc j"])
    qed
    moreover have "went log dead index [] (ds1 @ ds) w w'" using went_trans [OF w1 IH(1)] by simp
    ultimately show ?thesis using IH(2,3) by (intro exI [of _ "ds1 @ ds"] exI [of _ "again1 @ again"]) simp
  qed
qed

lemma inspect_went:
  assumes "elastic_world env log dead" "inspect env conv index response pending anyDead w = ((retry, anyDead'), w')"
  shows "\<exists>ds. went log dead index [] ds w w' \<and> anyDead' = (anyDead \<or> ds \<noteq> [])
     \<and> mset ds + mset retry \<subseteq># mset pending
     \<and> (\<forall>j < length pending. taken_up conv response (length pending) j \<or> pending ! j \<in> set ds \<union> set retry)"
proof (cases "items_of conv response")
  case None
  then have "retry = []" "anyDead' = anyDead" "w' = w"
    using assms(2) by (auto simp: inspect_def items_of_def split: sum.splits bool.splits)
  then show ?thesis using None by (intro exI [of _ "[]"]) (simp add: went_refl taken_up_def)
next
  case (Some items)
  then obtain complete again where s: "sort_items env conv index items 0 pending [] anyDead w = ((complete, again, anyDead'), w')"
    "retry = (if complete then again else [])"
    using assms(2) by (auto simp: inspect_def items_of_def split: sum.splits bool.splits prod.splits if_splits)
  obtain ds where d: "went log dead index [] ds w w'" "anyDead' = (anyDead \<or> ds \<noteq> [])"
    "mset ds + mset again \<subseteq># mset pending"
    "if complete then (\<forall>j < length pending. \<exists>status. item_status conv items j = Inr status
            \<and> (200 \<le> status \<and> status < 300 \<or> pending ! j \<in> set ds \<union> set again))
        else \<exists>j < length pending. \<exists>e. item_status conv items j = Inl e"
    using sort_items_went [OF assms(1) s(1), unfolded add_0 append_Nil] by blast
  have "mset ds + mset retry \<subseteq># mset pending"
    using d(3) s(2) subset_mset.order_trans [of "mset ds" "mset ds + mset again" "mset pending"] by auto
  moreover have "taken_up conv response (length pending) j \<or> pending ! j \<in> set ds \<union> set retry"
    if "j < length pending" for j
    using d(4) s(2) Some that by (cases complete) (auto simp: taken_up_def)
  ultimately show ?thesis using d(1,2) by blast
qed

subsection \<open>No document is lost\<close>

lemma bulk_action_dumps:
  assumes "utf8 s"
  shows "\<exists>text. json_dump dbl (json_init [(''index'', json_init [(''_id'', JString s)])]) = Inr text"
proof -
  have "utf8 ''index''" "utf8 ''_id''" by (rule utf8_ascii; simp)+
  then have "canonical dbl (json_init [(''index'', json_init [(''_id'', JString s)])])"
    using assms by (simp add: json_init_def)
  from json_round_trip_value [OF this] show ?thesis by blast
qed

lemma buildBulkBody_total:
  "\<forall>doc \<in> set ds. utf8 (bd_id doc) \<Longrightarrow> \<exists>body. buildBulkBody dbl ds = Inr body"
proof (induction ds)
  case (Cons doc ds)
  then obtain action rest where "json_dump dbl (json_init [(''index'', json_init [(''_id'', JString (bd_id doc))])]) = Inr action"
    "buildBulkBody dbl ds = Inr rest"
    using bulk_action_dumps [of "bd_id doc" dbl] by auto
  then show ?case by simp
qed simp

lemma subset_mset_keep: "A + B \<subseteq># C \<Longrightarrow> C + D \<subseteq># E \<Longrightarrow> A + B + D \<subseteq># (E :: 'a multiset)"
  by (meson subset_mset.add_right_mono subset_mset.order_trans)

lemma all_set_nth: "(\<forall>x \<in> set xs. P x) \<longleftrightarrow> (\<forall>i < length xs. P (xs ! i))"
  by (simp add: all_set_conv_all_nth)

text \<open>What a run of attempts leaves: \<open>rest\<close> is what was given up on.\<close>

definition chunk_outcome ::
  "'f double_conv \<Rightarrow> (http_request \<times> curl_outcome) list \<Rightarrow> bulk_doc list \<Rightarrow> bulk_doc list \<Rightarrow> bulk_doc list \<Rightarrow> bool" where
  "chunk_outcome conv sent ds rest pending \<longleftrightarrow>
     mset ds + mset rest \<subseteq># mset pending
     \<and> (\<forall>doc \<in> set pending. delivered conv sent doc \<or> doc \<in> set ds \<union> set rest)
     \<and> (\<forall>(rq, answer) \<in> set sent. \<exists>part. part \<noteq> [] \<and> mset part \<subseteq># mset pending
          \<and> buildBulkBody (double_ops.truncate conv) part = Inr (rq_body rq))"

lemma chunk_outcome_unanswered:
  assumes "pending \<noteq> []" "buildBulkBody (double_ops.truncate conv) pending = Inr (rq_body rq)"
  shows "chunk_outcome conv [(rq, answer)] [] pending pending"
  using assms by (auto simp: chunk_outcome_def)

lemma chunk_outcome_answered:
  assumes "pending \<noteq> []" "buildBulkBody (double_ops.truncate conv) pending = Inr (rq_body rq)"
    "answer = Answered status response" "200 \<le> status" "status < 300" "mset ds + mset retry \<subseteq># mset pending"
    "\<forall>j < length pending. taken_up conv response (length pending) j \<or> pending ! j \<in> set ds \<union> set retry"
  shows "chunk_outcome conv [(rq, answer)] ds retry pending"
proof -
  have "delivered conv [(rq, answer)] (pending ! j) \<or> pending ! j \<in> set ds \<union> set retry" if "j < length pending" for j
    using assms that by (auto simp: delivered_def)
  then show ?thesis using assms(1,2,6) by (auto simp: chunk_outcome_def all_set_nth)
qed

lemma chunk_outcome_trans:
  assumes "chunk_outcome conv s1 d1 retry pending" "chunk_outcome conv s2 d2 rest retry"
  shows "chunk_outcome conv (s1 @ s2) (d1 @ d2) rest pending"
proof -
  have 1: "mset d1 + mset retry \<subseteq># mset pending" and 2: "mset d2 + mset rest \<subseteq># mset retry"
    using assms by (simp_all add: chunk_outcome_def)
  have "mset d1 + (mset d2 + mset rest) \<subseteq># mset pending"
    using 1 2 by (meson subset_mset.add_left_mono subset_mset.order_trans)
  moreover have "mset retry \<subseteq># mset pending"
    using 1 by (metis mset_subset_eq_add_right subset_mset.order_trans)
  moreover have "delivered conv (s1 @ s2) doc \<or> doc \<in> set (d1 @ d2) \<union> set rest" if "doc \<in> set pending" for doc
    using assms that by (auto simp: chunk_outcome_def delivered_append)
  moreover have "\<exists>part. part \<noteq> [] \<and> mset part \<subseteq># mset pending
        \<and> buildBulkBody (double_ops.truncate conv) part = Inr (rq_body rq)"
    if mem: "(rq, answer) \<in> set (s1 @ s2)" for rq answer
  proof -
    consider "(rq, answer) \<in> set s1" | "(rq, answer) \<in> set s2" using mem by auto
    then show ?thesis
    proof cases
      case 1
      then show ?thesis using assms(1) by (auto simp: chunk_outcome_def)
    next
      case 2
      then obtain part where "part \<noteq> []" "mset part \<subseteq># mset retry"
        "buildBulkBody (double_ops.truncate conv) part = Inr (rq_body rq)"
        using assms(2) by (auto simp: chunk_outcome_def)
      then show ?thesis using \<open>mset retry \<subseteq># mset pending\<close> subset_mset.order_trans by blast
    qed
  qed
  ultimately show ?thesis unfolding chunk_outcome_def by (auto simp: ac_simps)
qed

lemma bulk_loop_outcome:
  assumes "elastic_world env log dead" "pending \<noteq> []" "is \<noteq> []" "\<forall>doc \<in> set pending. utf8 (bd_id doc)"
    "bulk_loop env conv index url is attempt pending anyDead w = (res, w')"
  shows "\<exists>sent ds rest. went log dead index sent ds w w' \<and> length sent \<le> length is
     \<and> chunk_outcome conv sent ds rest pending
     \<and> (if rest = [] then res = Inr (Inl (if anyDead \<or> ds \<noteq> [] then 3 else 0))
        else \<exists>a. res = Inr (Inr (a, rest)) \<and> at_code a \<in> {0, 1, 2, 3})"
  using assms(2-)
proof (induction "is" arbitrary: attempt pending anyDead w)
  case (Cons i js)
  obtain body where body: "buildBulkBody (double_ops.truncate conv) pending = Inr body"
    using buildBulkBody_total [OF Cons.prems(3)] by blast
  obtain a response w1 where post: "attemptPost env url body ''application/x-ndjson'' w = ((a, response), w1)"
    by (metis prod.collapse)
  obtain rq answer where rq: "went log dead index [(rq, answer)] [] w w1" "rq_body rq = body"
    "at_code a = 0 \<longleftrightarrow> (\<exists>status. answer = Answered status response \<and> 200 \<le> status \<and> status < 300)"
    "at_code a \<in> {0, 1, 2, 3}"
    by (rule attemptPost_went [OF assms(1) post]) blast
  have body': "buildBulkBody (double_ops.truncate conv) pending = Inr (rq_body rq)" using body rq(2) by simp
  note unanswered = chunk_outcome_unanswered [OF Cons.prems(1) body', of answer]
  have again: ?case
    if v: "went log dead index [(rq, answer)] ds w v" and out: "chunk_outcome conv [(rq, answer)] ds retry pending"
      and res: "(res, w') = (if i = kMaxRetryAttempts then (Inr (Inr (a', retry)), v)
          else bulk_loop env conv index url js a' retry (anyDead \<or> ds \<noteq> []) (retryBackoff env i v))"
      and ne: "retry \<noteq> []" and code: "at_code a' \<in> {0, 1, 2, 3}" for ds retry v a'
  proof (cases "i = kMaxRetryAttempts \<or> js = []")
    case True
    have "went log dead index [(rq, answer)] ds w (retryBackoff env i v)"
      using went_trans [OF v went_backoff [OF assms(1), of index v i]] by simp
    then show ?thesis using v out res ne code True
      by (intro exI [of _ "[(rq, answer)]"] exI [of _ ds] exI [of _ retry]) (auto split: if_splits)
  next
    case False
    have "mset retry \<subseteq># mset pending"
      using out unfolding chunk_outcome_def by (metis mset_subset_eq_add_right subset_mset.order_trans)
    then have "set retry \<subseteq> set pending" using set_mset_mono by fastforce
    then have utf8: "\<forall>doc \<in> set retry. utf8 (bd_id doc)" using Cons.prems(3) by blast
    obtain sent ds' rest where IH: "went log dead index sent ds' (retryBackoff env i v) w'" "length sent \<le> length js"
      "chunk_outcome conv sent ds' rest retry"
      "if rest = [] then res = Inr (Inl (if (anyDead \<or> ds \<noteq> []) \<or> ds' \<noteq> [] then 3 else 0))
        else \<exists>a. res = Inr (Inr (a, rest)) \<and> at_code a \<in> {0, 1, 2, 3}"
      using Cons.IH [OF ne _ utf8, of a' "anyDead \<or> ds \<noteq> []" "retryBackoff env i v"] False res by auto
    have "went log dead index ([(rq, answer)] @ sent) (ds @ ds') w w'"
      using went_trans [OF went_trans [OF v went_backoff [OF assms(1), of index v i]] IH(1)] by simp
    moreover have "chunk_outcome conv ([(rq, answer)] @ sent) (ds @ ds') rest pending"
      by (rule chunk_outcome_trans [OF out IH(3)])
    ultimately show ?thesis using IH(2,4)
      by (intro exI [of _ "[(rq, answer)] @ sent"] exI [of _ "ds @ ds'"] exI [of _ rest]) (auto split: if_splits)
  qed
  show ?case
  proof (cases "at_code a = 0")
    case False
    show ?thesis
    proof (cases "isTransientFailure a")
      case True
      show ?thesis
        using Cons.prems(4) body post False True
        by (intro again [OF rq(1) unanswered _ Cons.prems(1) rq(4)]) (auto split: if_splits)
    next
      case no: False
      then show ?thesis using Cons.prems(1,4) body post False rq(1,4) unanswered
        by (intro exI [of _ "[(rq, answer)]"] exI [of _ "[]"] exI [of _ pending]) auto
    qed
  next
    case True
    then obtain status where status: "answer = Answered status response" "200 \<le> status" "status < 300" using rq(3) by auto
    obtain retry anyDead' w2 where ins: "inspect env conv index response pending anyDead w1 = ((retry, anyDead'), w2)"
      by (metis prod.collapse)
    obtain ds where d: "went log dead index [] ds w1 w2" "anyDead' = (anyDead \<or> ds \<noteq> [])"
      "mset ds + mset retry \<subseteq># mset pending"
      "\<forall>j < length pending. taken_up conv response (length pending) j \<or> pending ! j \<in> set ds \<union> set retry"
      using inspect_went [OF assms(1) ins] by blast
    note out = chunk_outcome_answered [OF Cons.prems(1) body' status d(3,4)]
    have v: "went log dead index [(rq, answer)] ds w w2" using went_trans [OF rq(1) d(1)] by simp
    show ?thesis
    proof (cases "retry = []")
      case True
      then show ?thesis using Cons.prems(4) body post ins \<open>at_code a = 0\<close> v out d(2)
        by (intro exI [of _ "[(rq, answer)]"] exI [of _ ds] exI [of _ "[]"]) auto
    next
      case False
      show ?thesis
        using Cons.prems(4) body post ins \<open>at_code a = 0\<close> False d(2)
        by (intro again [OF v out _ False, of a]) (auto split: if_splits)
    qed
  qed
qed simp

lemma postBulkChunk_outcome:
  assumes "elastic_world env log dead" "chunk \<noteq> []" "\<forall>doc \<in> set chunk. utf8 (bd_id doc)"
    "postBulkChunk env conv index url chunk w = (res, w')"
  shows "\<exists>rc sent kept. res = Inr rc \<and> went log dead index sent kept w w' \<and> length sent \<le> 3
     \<and> chunk_outcome conv sent kept [] chunk \<and> (rc = 0 \<longleftrightarrow> kept = [])"
proof -
  obtain res1 w1 where l: "bulk_loop env conv index url [1..kMaxRetryAttempts] \<lparr>at_code = 0, at_httpStatus = 0\<rparr> chunk False w
      = (res1, w1)" by force
  have three: "[1..kMaxRetryAttempts] \<noteq> []" "length [1..kMaxRetryAttempts] = 3" by (simp_all add: kMaxRetryAttempts_def)
  obtain sent ds rest where o: "went log dead index sent ds w w1" "length sent \<le> 3" "chunk_outcome conv sent ds rest chunk"
    "if rest = [] then res1 = Inr (Inl (if False \<or> ds \<noteq> [] then 3 else 0))
     else \<exists>a. res1 = Inr (Inr (a, rest)) \<and> at_code a \<in> {0, 1, 2, 3}"
    using bulk_loop_outcome [OF assms(1,2) three(1) assms(3) l] unfolding three(2) by blast
  show ?thesis
  proof (cases "rest = []")
    case True
    then show ?thesis using o l assms(4)
      by (intro exI [of _ "if ds \<noteq> [] then 3 else 0"] exI [of _ sent] exI [of _ ds]) (auto simp: postBulkChunk_def)
  next
    case False
    then obtain a where a: "res1 = Inr (Inr (a, rest))" using o(4) by auto
    have "went log dead index sent (ds @ rest) w w'"
      using went_trans [OF o(1) went_deadLetters [OF assms(1), of index rest w1]] l a assms(4) by (simp add: postBulkChunk_def)
    moreover have "chunk_outcome conv sent (ds @ rest) [] chunk" using o(3) by (auto simp: chunk_outcome_def)
    ultimately show ?thesis using o(2) l a assms(4) False
      by (intro exI [of _ "if at_code a \<noteq> 0 then at_code a else 3"] exI [of _ sent] exI [of _ "ds @ rest"])
        (auto simp: postBulkChunk_def)
  qed
qed

text \<open>The requests for \<open>docs\<close> carry at most \<open>kMaxBulkDocs\<close> documents each, and are few.\<close>

definition bulk_outcome ::
  "'f double_conv \<Rightarrow> (http_request \<times> curl_outcome) list \<Rightarrow> bulk_doc list \<Rightarrow> bulk_doc list \<Rightarrow> bool" where
  "bulk_outcome conv sent kept docs \<longleftrightarrow>
     mset kept \<subseteq># mset docs \<and> length sent \<le> 3 * length docs
     \<and> (\<forall>doc \<in> set docs. delivered conv sent doc \<or> doc \<in> set kept)
     \<and> (\<forall>(rq, answer) \<in> set sent. \<exists>part. part \<noteq> [] \<and> length part \<le> kMaxBulkDocs \<and> mset part \<subseteq># mset docs
          \<and> buildBulkBody (double_ops.truncate conv) part = Inr (rq_body rq))"

lemma bulk_outcome_chunk:
  assumes "chunk_outcome conv sent kept [] chunk" "length sent \<le> 3" "chunk \<noteq> []" "length chunk \<le> kMaxBulkDocs"
  shows "bulk_outcome conv sent kept chunk"
proof -
  have "3 \<le> 3 * length chunk" using assms(3) by (cases chunk) auto
  then have "length sent \<le> 3 * length chunk" using assms(2) by simp
  moreover have "\<exists>part. part \<noteq> [] \<and> length part \<le> kMaxBulkDocs \<and> mset part \<subseteq># mset chunk
      \<and> buildBulkBody (double_ops.truncate conv) part = Inr (rq_body rq)" if mem: "(rq, answer) \<in> set sent" for rq answer
  proof -
    obtain part where part: "part \<noteq> []" "mset part \<subseteq># mset chunk"
      "buildBulkBody (double_ops.truncate conv) part = Inr (rq_body rq)"
      using assms(1) mem unfolding chunk_outcome_def by blast
    moreover have "length part \<le> kMaxBulkDocs" using size_mset_mono [OF part(2)] assms(4) by simp
    ultimately show ?thesis by blast
  qed
  ultimately show ?thesis using assms(1) unfolding chunk_outcome_def bulk_outcome_def by auto
qed

lemma bulk_outcome_append:
  assumes "bulk_outcome conv s1 k1 d1" "bulk_outcome conv s2 k2 d2"
  shows "bulk_outcome conv (s1 @ s2) (k1 @ k2) (d1 @ d2)"
proof -
  have sub: "A \<subseteq># mset d1 \<or> A \<subseteq># mset d2 \<Longrightarrow> A \<subseteq># mset (d1 @ d2)" for A
    unfolding mset_append by (meson mset_subset_eq_add_left mset_subset_eq_add_right subset_mset.order_trans)
  have "\<exists>part. part \<noteq> [] \<and> length part \<le> kMaxBulkDocs \<and> mset part \<subseteq># mset (d1 @ d2)
      \<and> buildBulkBody (double_ops.truncate conv) part = Inr (rq_body rq)" if mem: "(rq, answer) \<in> set (s1 @ s2)" for rq answer
  proof -
    obtain part where "part \<noteq> []" "length part \<le> kMaxBulkDocs" "mset part \<subseteq># mset d1 \<or> mset part \<subseteq># mset d2"
      "buildBulkBody (double_ops.truncate conv) part = Inr (rq_body rq)"
      using assms mem unfolding bulk_outcome_def set_append by blast
    then show ?thesis using sub by blast
  qed
  moreover have "mset (k1 @ k2) \<subseteq># mset (d1 @ d2)"
    using assms unfolding bulk_outcome_def mset_append by (intro subset_mset.add_mono) auto
  moreover have "\<forall>doc \<in> set (d1 @ d2). delivered conv (s1 @ s2) doc \<or> doc \<in> set (k1 @ k2)"
    using assms unfolding bulk_outcome_def delivered_append set_append by blast
  ultimately show ?thesis using assms unfolding bulk_outcome_def by auto
qed

lemma flush_chunk_outcome:
  assumes "elastic_world env log dead" "\<forall>doc \<in> set chunk. utf8 (bd_id doc)" "length chunk \<le> kMaxBulkDocs"
    "flush_chunk env conv index url chunk worst w = (res, w')"
  shows "\<exists>rc sent kept. res = Inr rc \<and> went log dead index sent kept w w' \<and> bulk_outcome conv sent kept chunk
     \<and> (rc = 0 \<longleftrightarrow> worst = 0 \<and> kept = [])"
proof (cases "chunk = []")
  case True
  then show ?thesis using assms(4) went_refl
    by (intro exI [of _ worst] exI [of _ "[]"]) (auto simp: flush_chunk_def bulk_outcome_def)
next
  case False
  obtain res1 w1 where p: "postBulkChunk env conv index url chunk w = (res1, w1)" by force
  obtain rc sent kept where o: "res1 = Inr rc" "went log dead index sent kept w w1" "length sent \<le> 3"
    "chunk_outcome conv sent kept [] chunk" "rc = 0 \<longleftrightarrow> kept = []"
    using postBulkChunk_outcome [OF assms(1) False assms(2) p] by blast
  then show ?thesis using bulk_outcome_chunk [OF o(4,3) False assms(3)] p False assms(4)
    by (intro exI [of _ "if rc \<noteq> 0 then rc else worst"] exI [of _ sent] exI [of _ kept]) (auto simp: flush_chunk_def)
qed

lemma bulk_chunks_outcome:
  assumes "elastic_world env log dead"
    "\<forall>doc \<in> set (chunk @ docs). utf8 (bd_id doc)" "length chunk < kMaxBulkDocs"
    "bulk_chunks env conv index url docs chunk chunkBytes worst w = (res, w')"
  shows "\<exists>rc sent kept. res = Inr rc \<and> went log dead index sent kept w w' \<and> bulk_outcome conv sent kept (chunk @ docs)
     \<and> (rc = 0 \<longleftrightarrow> worst = 0 \<and> kept = [])"
  using assms(2-)
proof (induction docs arbitrary: chunk chunkBytes worst w)
  case Nil
  then show ?case using flush_chunk_outcome [OF assms(1), of chunk conv index url worst w res w'] by simp
next
  case (Cons doc docs)
  have small: "length (chunk @ [doc]) \<le> kMaxBulkDocs" using Cons.prems(2) by simp
  have utf8: "\<forall>doc \<in> set (chunk @ [doc]). utf8 (bd_id doc)" "\<forall>doc \<in> set ([] @ docs). utf8 (bd_id doc)"
    "\<forall>doc \<in> set ((chunk @ [doc]) @ docs). utf8 (bd_id doc)" using Cons.prems(1) by simp_all
  define bytes where "bytes = u64 (chunkBytes + (int (length (bd_id doc)) + int (length (bd_body doc)) + 32))"
  show ?case
  proof (cases "length (chunk @ [doc]) \<ge> kMaxBulkDocs \<or> bytes \<ge> kMaxBulkBytes")
    case True
    obtain res1 w1 where f: "flush_chunk env conv index url (chunk @ [doc]) worst w = (res1, w1)" by force
    obtain rc1 s1 k1 where o1: "res1 = Inr rc1" "went log dead index s1 k1 w w1"
      "bulk_outcome conv s1 k1 (chunk @ [doc])" "rc1 = 0 \<longleftrightarrow> worst = 0 \<and> k1 = []"
      using flush_chunk_outcome [OF assms(1) utf8(1) small f] by blast
    have rest: "bulk_chunks env conv index url docs [] 0 rc1 w1 = (res, w')"
      using Cons.prems(3) True f o1(1) by (simp add: bytes_def Let_def)
    obtain rc s2 k2 where o2: "res = Inr rc" "went log dead index s2 k2 w1 w'" "bulk_outcome conv s2 k2 ([] @ docs)"
      "rc = 0 \<longleftrightarrow> rc1 = 0 \<and> k2 = []"
      using Cons.IH [OF utf8(2) _ rest] by (auto simp: kMaxBulkDocs_def)
    show ?thesis
      using o2(1,4) o1(4) went_trans [OF o1(2) o2(2)] bulk_outcome_append [OF o1(3) o2(3)]
      by (intro exI [of _ rc] exI [of _ "s1 @ s2"] exI [of _ "k1 @ k2"]) auto
  next
    case False
    then show ?thesis
      using Cons.IH [OF utf8(3), of bytes worst w] Cons.prems(3) by (simp add: bytes_def Let_def)
  qed
qed


text \<open>A server that refuses everything for good: the world is its log and the dead-letter file.\<close>

definition refusing_elastic :: "((http_request \<times> curl_outcome) list \<times> string list) elastic_env" where
  "refusing_elastic =
     \<lparr>el_getenv = (\<lambda>_. None),
      el_perform = (\<lambda>rq w. (Answered 400 [], (fst w @ [(rq, Answered 400 [])], snd w))),
      el_sleep = (\<lambda>_ w. w), el_uuid = (\<lambda>w. (''u'', w)), el_nowIsoUtc = (\<lambda>w. (''now'', w)),
      el_append = (\<lambda>_ line w. (True, (fst w, snd w @ [line])))\<rparr>"

definition no_doubles :: "nat double_conv" where
  "no_doubles = \<lparr>dbl_isfinite = (\<lambda>_. True), dbl_to_chars = (\<lambda>_. ''0''), dbl_strtod = (\<lambda>_. 0),
     dbl_of_int = nat, dbl_to_int = int, dbl_format = (\<lambda>_. ''0'')\<rparr>"

lemma refused_value:
  "fst (bulkIndexDocuments refusing_elastic no_doubles ''i'' [\<lparr>bd_id = ''r1:s'', bd_body = ''{}''\<rparr>] ([], [])) = Inr 3"
  by code_simp


subsection \<open>Nothing enqueued goes astray\<close>

text \<open>Enqueues and flushes, in the order in which they hold the mutex: a flush takes everything that is
  queued. Per index, what the flushes took and what is still queued is what was enqueued, in order.\<close>

datatype batch_op = Enqueue string "bulk_doc list" | Swap

fun batch_run :: "batch_op list \<Rightarrow> batcher \<Rightarrow> batcher list \<Rightarrow> batcher \<times> batcher list" where
  "batch_run [] pending swapped = (pending, swapped)"
| "batch_run (Enqueue index docs # ops) pending swapped = batch_run ops (batch_enqueue index docs pending) swapped"
| "batch_run (Swap # ops) pending swapped = batch_run ops [] (swapped @ [pending])"

fun enqueued_for :: "string \<Rightarrow> batch_op list \<Rightarrow> bulk_doc list" where
  "enqueued_for index [] = []"
| "enqueued_for index (Enqueue i docs # ops) = (if i = index then docs else []) @ enqueued_for index ops"
| "enqueued_for index (Swap # ops) = enqueued_for index ops"

lemma queued_for_enqueue [simp]:
  "queued_for (batch_enqueue index docs pending) i = queued_for pending i @ (if i = index then docs else [])"
  by (simp add: queued_for_def batch_enqueue_def)

lemma batch_run_keeps_order:
  assumes "batch_run ops pending swapped = (pending', swapped')"
  shows "concat (map (\<lambda>b. queued_for b index) swapped') @ queued_for pending' index
       = concat (map (\<lambda>b. queued_for b index) swapped) @ queued_for pending index @ enqueued_for index ops"
  using assms by (induction ops pending swapped rule: batch_run.induct) (auto simp: queued_for_def [of "[]"])

end
