(* ===== verification/Timestamps.thy ===== *)
theory Timestamps
  imports Calendar Ohlc "HOL-Library.List_Lexorder" JsonValue
begin

section \<open>Timestamps and batch labels as text\<close>

text \<open>
  \<open>TradeDocument::isoUtcMillis\<close> (\<open>run/reporting/tradeDocument.cpp\<close>) and the index names of
  \<open>run/reporting/outcomeIndices.cpp\<close>, with what they use of \<open>gmtime_r\<close> and \<open>strftime\<close>. Instants are
  microseconds, \<open>std::time_t\<close> is seconds. \<open>isoWeekLabel\<close> names the ISO week, and the text order of
  labels is the order of time.
\<close>

subsection \<open>Civil dates\<close>

definition month_of :: "int \<Rightarrow> nat" where
  "month_of day = length (filter (\<lambda>m. month_start (year_of day) m \<le> day) [1..<13])"

definition day_of_month :: "int \<Rightarrow> int" where
  "day_of_month day = day - month_start (year_of day) (month_of day) + 1"

text \<open>\<open>%G\<close> and \<open>%V\<close>: the year of the week's Thursday, and its count.\<close>

definition iso_thursday :: "int \<Rightarrow> int" where
  "iso_thursday day = day - (weekday day - 1) mod 7 + 3"

definition iso_year :: "int \<Rightarrow> int" where
  "iso_year day = year_of (iso_thursday day)"

definition iso_week :: "int \<Rightarrow> int" where
  "iso_week day = (iso_thursday day - jan1 (iso_year day)) div 7 + 1"

text \<open>A number padded with zeros to \<open>n\<close> digits.\<close>

fun padded :: "nat \<Rightarrow> int \<Rightarrow> string" where
  "padded 0 n = []"
| "padded (Suc w) n = padded w (n div 10) @ [char_of (48 + nat (n mod 10))]"

definition seconds_per_day :: int where "seconds_per_day = 86400"

subsection \<open>ISO-8601 instants\<close>

text \<open>\<open>%Y-%m-%dT%H:%M:%S\<close> of a \<open>time_t\<close>, for years of four digits.\<close>

definition iso_seconds :: "int \<Rightarrow> string" where
  "iso_seconds t =
     (let day = t div seconds_per_day; s = t mod seconds_per_day in
      padded 4 (year_of day) @ ''-'' @ padded 2 (int (month_of day)) @ ''-'' @ padded 2 (day_of_month day) @ ''T''
      @ padded 2 (s div 3600) @ '':'' @ padded 2 (s div 60 mod 60) @ '':'' @ padded 2 (s mod 60))"

text \<open>\<open>duration_cast\<close> truncates toward zero.\<close>

definition isoUtcMillis :: "time \<Rightarrow> string" where
  "isoUtcMillis tp =
     (let secs = cdiv tp 1000000; millis = cdiv (tp - secs * 1000000) 1000 in
      if millis < 0 then iso_seconds (secs - 1) @ ''.'' @ padded 3 (millis + 1000) @ ''Z''
      else iso_seconds secs @ ''.'' @ padded 3 millis @ ''Z'')"

subsection \<open>Index names\<close>

definition kResultsBase :: string where "kResultsBase = ''backtesting-results''"
definition kWinnersBase :: string where "kWinnersBase = ''backtesting-winners''"
definition kFinalBase :: string where "kFinalBase = ''backtesting-final''"
definition kFailuresBase :: string where "kFailuresBase = ''backtesting-failures''"
definition kTradesIndex :: string where "kTradesIndex = ''backtesting-trades''"
definition kExperimentsBase :: string where "kExperimentsBase = ''backtesting-experiments''"

definition kWeeklyBases :: "string list" where
  "kWeeklyBases = [kResultsBase, kWinnersBase, kFinalBase, kFailuresBase]"

definition weeklyIndex :: "string \<Rightarrow> string \<Rightarrow> string" where
  "weeklyIndex base batch = (if batch = [] then base else base @ ''-'' @ batch)"

definition currentAlias :: "string \<Rightarrow> string" where
  "currentAlias base = base @ ''-current''"

definition isoWeekLabel :: "int \<Rightarrow> string" where
  "isoWeekLabel utc =
     (let day = utc div seconds_per_day in padded 4 (iso_year day) @ ''-'' @ padded 2 (iso_week day))"

definition currentBatchLabel :: "(string \<Rightarrow> string option) \<Rightarrow> int \<Rightarrow> string" where
  "currentBatchLabel getenv now =
     (let pinned = getOr getenv ''BACKTEST_BATCH'' [] in if pinned \<noteq> [] then pinned else isoWeekLabel now)"

subsection \<open>Text order is number order\<close>

lemma length_padded [simp]: "length (padded w n) = w"
  by (induction w arbitrary: n) auto

lemma digit_less:
  assumes "0 \<le> a" "a < 10" "0 \<le> b" "b < (10 :: int)"
  shows "char_of (48 + nat a) < (char_of (48 + nat b) :: char) \<longleftrightarrow> a < b"
    "char_of (48 + nat a) = (char_of (48 + nat b) :: char) \<longleftrightarrow> a = b"
proof -
  have "nat a < 10" "nat b < 10" using assms by auto
  then show "char_of (48 + nat a) < (char_of (48 + nat b) :: char) \<longleftrightarrow> a < b"
    "char_of (48 + nat a) = (char_of (48 + nat b) :: char) \<longleftrightarrow> a = b"
    using assms by (auto simp: less_char_def)
qed

lemma append_less_same_length:
  "length a = length b \<Longrightarrow> a @ c < b @ d \<longleftrightarrow> a < b \<or> a = b \<and> c < (d :: 'a :: order list)"
  by (induction a b rule: list_induct2) auto

lemma base10_order:
  assumes "0 \<le> r" "r < 10" "0 \<le> r'" "r' < (10 :: int)"
  shows "10 * q + r < 10 * q' + r' \<longleftrightarrow> q < q' \<or> q = q' \<and> r < r'"
    "10 * q + r = 10 * q' + r' \<longleftrightarrow> q = q' \<and> r = r'"
proof -
  have le: "q \<le> q'" if "10 * q + r \<le> 10 * q' + r'" using assms that by linarith
  have ge: "q' \<le> q" if "10 * q' + r' \<le> 10 * q + r" using assms that by linarith
  have less: "10 * q + r < 10 * q' + r'" if "q < q'" using assms that by linarith
  show "10 * q + r < 10 * q' + r' \<longleftrightarrow> q < q' \<or> q = q' \<and> r < r'" using le less by fastforce
  show "10 * q + r = 10 * q' + r' \<longleftrightarrow> q = q' \<and> r = r'" using le ge by fastforce
qed

lemma padded_order:
  assumes "0 \<le> a" "a < 10 ^ w" "0 \<le> b" "b < 10 ^ w"
  shows "(padded w a < padded w b \<longleftrightarrow> a < b) \<and> (padded w a = padded w b \<longleftrightarrow> a = b)"
  using assms
proof (induction w arbitrary: a b)
  case (Suc w)
  have d: "0 \<le> n div 10" "n div 10 < 10 ^ w" if "0 \<le> n" "n < 10 ^ Suc w" for n :: int
    using that by auto
  have IH: "padded w (a div 10) < padded w (b div 10) \<longleftrightarrow> a div 10 < b div 10"
    "padded w (a div 10) = padded w (b div 10) \<longleftrightarrow> a div 10 = b div 10"
    using Suc.IH [OF d d] Suc.prems by blast+
  have m: "0 \<le> a mod 10" "a mod 10 < 10" "0 \<le> b mod 10" "b mod 10 < 10" by simp_all
  have "a < b \<longleftrightarrow> a div 10 < b div 10 \<or> a div 10 = b div 10 \<and> a mod 10 < b mod 10"
    "a = b \<longleftrightarrow> a div 10 = b div 10 \<and> a mod 10 = b mod 10"
    using base10_order [OF m, of "a div 10" "b div 10"] by simp_all
  then show ?case using IH digit_less [OF m] by (simp add: append_less_same_length)
qed simp

subsection \<open>The label of a week\<close>

lemma div_step:
  assumes "0 < (n :: int)"
  shows "y div n = (y - 1) div n + (if n dvd y then 1 else 0)"
proof (cases "n dvd y")
  case True
  then obtain q where q: "y = n * q" by (elim dvdE)
  have "(y - 1) div n = q - 1" by (rule int_div_pos_eq [of _ _ _ "n - 1"]) (use assms q in \<open>auto simp: algebra_simps\<close>)
  then show ?thesis using True q assms by simp
next
  case False
  then have "1 \<le> y mod n" using pos_mod_sign [OF assms, of y] by (simp add: dvd_eq_mod_eq_0)
  then have "(y - 1) div n = y div n"
    by (intro int_div_pos_eq [of _ _ _ "y mod n - 1"]) (use pos_mod_bound [OF assms, of y] in auto)
  then show ?thesis using False by simp
qed

lemma year_arith:
  assumes "0 \<le> c" "c \<le> b" "b \<le> a" "a \<le> (1 :: int)" "u = 365 * y + p - q + r - 719162"
    "v = 365 * (y - 1) + p' - q' + r' - 719162" "p = p' + a" "q = q' + b" "r = r' + c"
  shows "365 \<le> u - v \<and> u - v \<le> 366"
  using assms by (simp add: algebra_simps)

lemma jan1_step: "365 \<le> jan1 (y + 1) - jan1 y" "jan1 (y + 1) - jan1 y \<le> 366"
proof -
  define a b c where "a = (if 4 dvd y then 1 else 0 :: int)" and "b = (if 100 dvd y then 1 else 0 :: int)"
    and "c = (if 400 dvd y then 1 else 0 :: int)"
  have "100 dvd y \<Longrightarrow> 4 dvd y" "400 dvd y \<Longrightarrow> 100 dvd y" by (auto elim: dvd_trans [rotated])
  then have abc: "0 \<le> c" "c \<le> b" "b \<le> a" "a \<le> 1" by (auto simp: a_def b_def c_def)
  have next_year: "jan1 (y + 1) = 365 * y + y div 4 - y div 100 + y div 400 - 719162" by (simp add: jan1_def)
  have steps: "y div 4 = (y - 1) div 4 + a" "y div 100 = (y - 1) div 100 + b" "y div 400 = (y - 1) div 400 + c"
    unfolding a_def b_def c_def by (rule div_step; simp)+
  have "365 \<le> jan1 (y + 1) - jan1 y \<and> jan1 (y + 1) - jan1 y \<le> 366"
    by (rule year_arith [OF abc next_year jan1_def steps])
  then show "365 \<le> jan1 (y + 1) - jan1 y" "jan1 (y + 1) - jan1 y \<le> 366" by simp_all
qed

lemma jan1_mono: "y \<le> y' \<Longrightarrow> jan1 y \<le> jan1 y'"
proof (induction y' rule: int_ge_induct)
  case (step y')
  then show ?case using jan1_step(1) [of y'] by simp
qed simp

lemma year_of_mono: "d \<le> d' \<Longrightarrow> year_of d \<le> year_of d'"
  using year_of_bounds [of d] year_of_bounds [of d'] jan1_mono [of "year_of d' + 1" "year_of d"] by fastforce

lemma iso_thursday_week: "iso_thursday day = 7 * ((day + 3) div 7)"
proof -
  have "(weekday day - 1) mod 7 = (day + 3) mod 7" by (simp add: weekday_def mod_diff_left_eq add.commute)
  moreover have "(day + 3) - (day + 3) mod 7 = 7 * ((day + 3) div 7)" by (rule minus_mod_eq_mult_div)
  ultimately show ?thesis unfolding iso_thursday_def by linarith
qed

lemma iso_week_bounds: "1 \<le> iso_week day \<and> iso_week day \<le> 53"
proof -
  let ?T = "iso_thursday day"
  have "0 \<le> ?T - jan1 (year_of ?T)" "?T - jan1 (year_of ?T) < 366"
    using year_of_bounds [of ?T] jan1_step(2) [of "year_of ?T"] by auto
  then show ?thesis by (auto simp: iso_week_def iso_year_def)
qed

lemma iso_week_order:
  assumes "(d + 3) div 7 < (d' + 3) div 7"
  shows "iso_year d < iso_year d' \<or> iso_year d = iso_year d' \<and> iso_week d < iso_week d'"
proof -
  have T: "iso_thursday d + 7 \<le> iso_thursday d'" using assms by (simp add: iso_thursday_week)
  then have "iso_year d \<le> iso_year d'" unfolding iso_year_def by (intro year_of_mono) simp
  moreover have "iso_week d < iso_week d'" if "iso_year d = iso_year d'"
    using T that unfolding iso_week_def by simp
  ultimately show ?thesis by linarith
qed

lemma iso_year_bounds:
  assumes "0 \<le> d \<and> d < 2932532"
  shows "1970 \<le> iso_year d \<and> iso_year d \<le> 9999"
proof -
  define k where "k = (d + 3) div 7"
  have "7 * k = d + 3 - (d + 3) mod 7" unfolding k_def by (rule minus_mod_eq_mult_div [symmetric])
  moreover have "(d + 3) mod 7 \<le> d + 3" "0 \<le> (d + 3) mod 7"
    using assms zmod_le_nonneg_dividend [of "d + 3" 7] by simp_all
  ultimately have "0 \<le> 7 * k \<and> 7 * k \<le> d + 3" by presburger
  then have T: "0 \<le> iso_thursday d" "iso_thursday d \<le> 2932534"
    using assms unfolding iso_thursday_week k_def [symmetric] by simp_all
  have "year_of 0 = 1970" "year_of 2932534 = 9999" by code_simp+
  then show ?thesis unfolding iso_year_def using year_of_mono [OF T(1)] year_of_mono [OF T(2)] by simp
qed

text \<open>The weeks since the one of the epoch, which began on Monday 29 December 1969.\<close>

definition week_number :: "int \<Rightarrow> int" where
  "week_number utc = (utc div seconds_per_day + 3) div 7"

text \<open>C28: up to the year 9999, two instants carry the same batch label exactly if they lie in the
  same Monday-to-Sunday week, and labels sort as text in the order of time, also around New Year.\<close>

theorem week_label_is_chronological:
  assumes "0 \<le> utc" "utc < 253370764800" "0 \<le> utc'" "utc' < 253370764800"
  shows "(isoWeekLabel utc = isoWeekLabel utc' \<longleftrightarrow> week_number utc = week_number utc')
       \<and> (isoWeekLabel utc < isoWeekLabel utc' \<longleftrightarrow> week_number utc < week_number utc')"
proof -
  define d d' where "d = utc div seconds_per_day" and "d' = utc' div seconds_per_day"
  have "0 \<le> t div seconds_per_day \<and> t div seconds_per_day < 2932532" if "0 \<le> t" "t < 253370764800" for t
    using that by (auto simp: seconds_per_day_def)
  note y = this [OF assms(1,2), folded d_def, THEN iso_year_bounds] this [OF assms(3,4), folded d'_def, THEN iso_year_bounds]
  have Y: "padded 4 (iso_year d) < padded 4 (iso_year d') \<longleftrightarrow> iso_year d < iso_year d'"
    "padded 4 (iso_year d) = padded 4 (iso_year d') \<longleftrightarrow> iso_year d = iso_year d'"
    using padded_order [of "iso_year d" 4 "iso_year d'"] y by auto
  have W: "padded 2 (iso_week d) < padded 2 (iso_week d') \<longleftrightarrow> iso_week d < iso_week d'"
    "padded 2 (iso_week d) = padded 2 (iso_week d') \<longleftrightarrow> iso_week d = iso_week d'"
    using padded_order [of "iso_week d" 2 "iso_week d'"] iso_week_bounds [of d] iso_week_bounds [of d'] by auto
  have label: "isoWeekLabel utc < isoWeekLabel utc' \<longleftrightarrow>
      iso_year d < iso_year d' \<or> iso_year d = iso_year d' \<and> iso_week d < iso_week d'"
    "isoWeekLabel utc = isoWeekLabel utc' \<longleftrightarrow> iso_year d = iso_year d' \<and> iso_week d = iso_week d'"
    using Y W by (simp_all add: isoWeekLabel_def append_less_same_length Let_def d_def [symmetric] d'_def [symmetric])
  have week: "week_number utc = (d + 3) div 7" "week_number utc' = (d' + 3) div 7"
    by (simp_all add: week_number_def d_def d'_def)
  have same: "iso_year d = iso_year d' \<and> iso_week d = iso_week d'" if "(d + 3) div 7 = (d' + 3) div 7"
    using that by (simp add: iso_week_def iso_year_def iso_thursday_week)
  show ?thesis
    unfolding label week using same iso_week_order [of d d'] iso_week_order [of d' d]
    by (metis less_irrefl less_asym linorder_cases)
qed

text \<open>Sunday 3 January 2027 still belongs to the last week of 2026, the next day to the first of 2027.\<close>

theorem week_label_is_chronological_witness:
  "isoWeekLabel 1798934400 = ''2026-53'' \<and> isoWeekLabel 1799020800 = ''2027-01''
     \<and> isoWeekLabel 1798934400 < isoWeekLabel 1799020800"
proof -
  have "isoWeekLabel 1798934400 = ''2026-53''" "isoWeekLabel 1799020800 = ''2027-01''" by code_simp+
  moreover have "week_number 1798934400 < week_number 1799020800" by (simp add: week_number_def seconds_per_day_def)
  ultimately show ?thesis using week_label_is_chronological [of 1798934400 1799020800] by simp
qed

end
