(* ===== verification/Reporting.thy ===== *)
theory Reporting
  imports ElasticPublisher Timestamps ConfigJson ResultsSummary RunQueue
begin

section \<open>The documents of a run\<close>

text \<open>
  \<open>run/reporting/tradingResults.cpp\<close>, \<open>tradeDocument.cpp\<close> and \<open>elasticClient.cppm\<close>: the records a run
  reports, their JSON, and the index and id each is queued under. Unlike the queue's codecs these
  write decimals as numbers. A dump may throw on text that is not UTF-8. Doubles and decimals are
  the parameters \<open>F\<close> and \<open>dec\<close>.
\<close>

record ('d, 'f) trading_results =
  tr_RUN_ID :: string
  tr_timestamp :: string
  tr_durationSeconds :: 'f
  tr_hostname :: string
  tr_config :: "'d configuration"
  tr_results :: "'d trading_results_stats"

record ('d, 'f) trading_failure =
  tfl_RUN_ID :: string
  tfl_timestamp :: string
  tfl_durationSeconds :: 'f
  tfl_reason :: string
  tfl_breachPnlPips :: 'f
  tfl_lossFloorPips :: 'f
  tfl_hostname :: string
  tfl_config :: "'d configuration"
  tfl_results :: "'d trading_results_stats"

record ('d, 'f) trade_final =
  tf_RUN_ID :: string
  tf_timestamp :: string
  tf_durationSeconds :: 'f
  tf_success :: int
  tf_status :: string
  tf_hostname :: string
  tf_config :: "'d configuration"

record 'f trade_document =
  td_RUN_ID :: string
  td_timestamp :: string
  td_ingestedAt :: string
  td_hostname :: string
  td_strategyUuid :: string
  td_strategyName :: string
  td_tradeId :: string
  td_symbol :: string
  td_direction :: string
  td_size :: int
  td_entryPrice :: 'f
  td_entryBid :: 'f
  td_entryAsk :: 'f
  td_closePrice :: 'f
  td_stopPrice :: 'f
  td_limitPrice :: 'f
  td_stopDistancePips :: int
  td_limitDistancePips :: int
  td_openTime :: string
  td_closeTime :: string
  td_holdSeconds :: 'f
  td_pnlPoints :: int
  td_pnlPips :: 'f
  td_liquidated :: bool
  td_scalingFactor :: int
  td_priceScale :: int

record engine_exception =
  ex_timestamp :: string
  ex_source :: string
  ex_message :: string
  ex_RUN_ID :: string

subsection \<open>JSON\<close>

definition decimalToJsonNumber :: "('d, 'f, 'y) float_ops_scheme \<Rightarrow> 'd \<Rightarrow> 'f json" where
  "decimalToJsonNumber F x = JFloat (f_of_dec F x)"

definition stats_to_json :: "('d, 'f, 'y) float_ops_scheme \<Rightarrow> 'd trading_results_stats \<Rightarrow> 'f json" where
  "stats_to_json F s =
     (let num = decimalToJsonNumber F; cnt = (\<lambda>n. JUnsigned (int n)) in
      json_set ''avgPnl'' (case avgPnl s of Some x \<Rightarrow> num x | None \<Rightarrow> JNull)
       (json_init
         [(''finalPnl'', num (finalPnl s)), (''tradesOpened'', cnt (tradesOpened s)),
          (''tradesClosed'', cnt (tradesClosed s)), (''openedLong'', cnt (openedLong s)),
          (''openedShort'', cnt (openedShort s)), (''closedLong'', cnt (closedLong s)),
          (''closedShort'', cnt (closedShort s)), (''winners'', cnt (winners s)),
          (''losers'', cnt (losers s)), (''breakeven'', cnt (breakeven s)),
          (''liquidated'', cnt (liquidated s)), (''performanceScore'', num (performanceScore s)),
          (''winRate'', num (winRate s)), (''tradeRatio'', num (tradeRatio s)),
          (''expectancyScore'', num (expectancyScore s)), (''calmarScore'', num (calmarScore s)),
          (''confidenceMultiplier'', num (confidenceMultiplier s)),
          (''maxDrawdownPercent'', num (maxDrawdownPercent s))]))"

text \<open>\<open>j[k]\<close> as a place: the member, created as null.\<close>

definition json_member :: "'f json \<Rightarrow> string \<Rightarrow> 'f json" where
  "json_member j k = (case json_find j k of Some v \<Rightarrow> v | None \<Rightarrow> JNull)"

definition reportConfigJson ::
  "('d, 'f, 'y) float_ops_scheme \<Rightarrow> 'd decimal_text \<Rightarrow> 'd configuration \<Rightarrow> conv_error + 'f json" where
  "reportConfigJson F dec c =
     bind (configuration_to_json dec c) (\<lambda>j.
     let v = sc_TRADING_VARIABLES (cf_STRATEGY c);
         j = json_set ''MAX_LOSS_PERCENT'' (decimalToJsonNumber F (rc_MAX_LOSS_PERCENT c))
               (json_set ''STARTING_BALANCE'' (decimalToJsonNumber F (rc_STARTING_BALANCE c)) j);
         strategy = json_member j ''STRATEGY'';
         tv = json_set ''TRADING_SIZE'' (JInteger (tv_TRADING_SIZE v))
               (json_set ''LIMIT_DISTANCE_IN_ATR'' (JInteger (tv_LIMIT_DISTANCE_IN_ATR v))
                 (json_set ''STOP_DISTANCE_IN_ATR'' (JInteger (tv_STOP_DISTANCE_IN_ATR v))
                   (json_member strategy ''TRADING_VARIABLES'')))
     in Inr (json_set ''STRATEGY'' (json_set ''TRADING_VARIABLES'' tv strategy) j))"

definition appendBatchMetadata :: "'d configuration \<Rightarrow> 'f json \<Rightarrow> 'f json" where
  "appendBatchMetadata c j =
     (let j = (if rc_EXECUTION_TS c \<noteq> [] then json_set ''executionTimestamp'' (JString (rc_EXECUTION_TS c)) j else j)
      in if rc_BATCH c \<noteq> [] then json_set ''batch'' (JString (rc_BATCH c)) j else j)"

definition results_to_json ::
  "('d, 'f, 'y) float_ops_scheme \<Rightarrow> 'd decimal_text \<Rightarrow> ('d, 'f) trading_results \<Rightarrow> conv_error + 'f json" where
  "results_to_json F dec r =
     bind (reportConfigJson F dec (tr_config r)) (\<lambda>config.
       Inr (appendBatchMetadata (tr_config r) (json_init
         [(''RUN_ID'', JString (tr_RUN_ID r)), (''@timestamp'', JString (tr_timestamp r)),
          (''durationSeconds'', JFloat (tr_durationSeconds r)), (''hostname'', JString (tr_hostname r)),
          (''config'', config), (''results'', stats_to_json F (tr_results r))])))"

definition failure_to_json ::
  "('d, 'f, 'y) float_ops_scheme \<Rightarrow> 'd decimal_text \<Rightarrow> ('d, 'f) trading_failure \<Rightarrow> conv_error + 'f json" where
  "failure_to_json F dec r =
     bind (reportConfigJson F dec (tfl_config r)) (\<lambda>config.
       Inr (appendBatchMetadata (tfl_config r) (json_init
         [(''RUN_ID'', JString (tfl_RUN_ID r)), (''@timestamp'', JString (tfl_timestamp r)),
          (''durationSeconds'', JFloat (tfl_durationSeconds r)), (''reason'', JString (tfl_reason r)),
          (''breachPnlPips'', JFloat (tfl_breachPnlPips r)), (''lossFloorPips'', JFloat (tfl_lossFloorPips r)),
          (''hostname'', JString (tfl_hostname r)), (''config'', config),
          (''results'', stats_to_json F (tfl_results r))])))"

definition final_to_json ::
  "('d, 'f, 'y) float_ops_scheme \<Rightarrow> 'd decimal_text \<Rightarrow> ('d, 'f) trade_final \<Rightarrow> conv_error + 'f json" where
  "final_to_json F dec r =
     bind (reportConfigJson F dec (tf_config r)) (\<lambda>config.
       Inr (appendBatchMetadata (tf_config r) (json_init
         [(''RUN_ID'', JString (tf_RUN_ID r)), (''@timestamp'', JString (tf_timestamp r)),
          (''durationSeconds'', JFloat (tf_durationSeconds r)), (''success'', JInteger (tf_success r)),
          (''status'', JString (tf_status r)), (''hostname'', JString (tf_hostname r)), (''config'', config)])))"

text \<open>The trigger price of a leg that was never armed is null.\<close>

definition trade_to_json :: "'f trade_document \<Rightarrow> 'f json" where
  "trade_to_json t =
     json_set ''limitPrice'' (if td_limitDistancePips t \<noteq> 0 then JFloat (td_limitPrice t) else JNull)
      (json_set ''stopPrice'' (if td_stopDistancePips t \<noteq> 0 then JFloat (td_stopPrice t) else JNull)
       (json_init
         [(''RUN_ID'', JString (td_RUN_ID t)), (''@timestamp'', JString (td_timestamp t)),
          (''ingestedAt'', JString (td_ingestedAt t)), (''hostname'', JString (td_hostname t)),
          (''strategyUuid'', JString (td_strategyUuid t)), (''strategyName'', JString (td_strategyName t)),
          (''tradeId'', JString (td_tradeId t)), (''symbol'', JString (td_symbol t)),
          (''direction'', JString (td_direction t)), (''size'', JInteger (td_size t)),
          (''entryPrice'', JFloat (td_entryPrice t)), (''entryBid'', JFloat (td_entryBid t)),
          (''entryAsk'', JFloat (td_entryAsk t)), (''closePrice'', JFloat (td_closePrice t)),
          (''stopDistancePips'', JInteger (td_stopDistancePips t)),
          (''limitDistancePips'', JInteger (td_limitDistancePips t)),
          (''openTime'', JString (td_openTime t)), (''closeTime'', JString (td_closeTime t)),
          (''holdSeconds'', JFloat (td_holdSeconds t)), (''pnlPoints'', JInteger (td_pnlPoints t)),
          (''pnlPips'', JFloat (td_pnlPips t)), (''liquidated'', JBoolean (td_liquidated t)),
          (''scalingFactor'', JInteger (td_scalingFactor t)), (''priceScale'', JInteger (td_priceScale t))]))"

definition exception_to_json :: "engine_exception \<Rightarrow> 'f json" where
  "exception_to_json e = json_init
     [(''@timestamp'', JString (ex_timestamp e)), (''source'', JString (ex_source e)),
      (''message'', JString (ex_message e)), (''RUN_ID'', JString (ex_RUN_ID e))]"

subsection \<open>Index and id of a document\<close>

definition resultsBaseFor :: "int \<Rightarrow> int \<Rightarrow> string" where
  "resultsBaseFor months offset =
     (if months = lastMonths kFullHistory \<and> offset = offsetMonths kFullHistory then kWinnersBase else kResultsBase)"

definition outcomeDocId :: "string \<Rightarrow> 'd configuration \<Rightarrow> string" where
  "outcomeDocId runId config =
     (let uuid = sc_UUID (cf_STRATEGY config) in if uuid = [] then [] else runId @ '':'' @ uuid)"

text \<open>\<open>nlohmann::json(x).dump()\<close>.\<close>

definition dumped :: "'f double_ops \<Rightarrow> conv_error + 'f json \<Rightarrow> conv_error + string" where
  "dumped dbl res =
     bind res (\<lambda>j. case json_dump dbl j of Inl e \<Rightarrow> Inl (Json_error e) | Inr text \<Rightarrow> Inr text)"

definition enqueue_dumped ::
  "'w elastic_env \<Rightarrow> string \<Rightarrow> string \<Rightarrow> conv_error + string \<Rightarrow> batcher \<times> 'w \<Rightarrow> (conv_error + unit) \<times> batcher \<times> 'w" where
  "enqueue_dumped env index docId text bw =
     (case text of
        Inl e \<Rightarrow> (Inl e, bw)
      | Inr body \<Rightarrow> (Inr (), enqueueDocument env index body docId (fst bw) (snd bw)))"

definition putTradingResults ::
  "'w elastic_env \<Rightarrow> ('d, 'f, 'y) float_ops_scheme \<Rightarrow> 'd decimal_text \<Rightarrow> 'f double_ops \<Rightarrow> ('d, 'f) trading_results
     \<Rightarrow> batcher \<times> 'w \<Rightarrow> (conv_error + unit) \<times> batcher \<times> 'w" where
  "putTradingResults env F dec dbl r =
     enqueue_dumped env
       (weeklyIndex (resultsBaseFor (rc_LAST_MONTHS (tr_config r)) (rc_OFFSET_MONTHS (tr_config r))) (rc_BATCH (tr_config r)))
       (outcomeDocId (tr_RUN_ID r) (tr_config r)) (dumped dbl (results_to_json F dec r))"

definition putTradingFailure ::
  "'w elastic_env \<Rightarrow> ('d, 'f, 'y) float_ops_scheme \<Rightarrow> 'd decimal_text \<Rightarrow> 'f double_ops \<Rightarrow> ('d, 'f) trading_failure
     \<Rightarrow> batcher \<times> 'w \<Rightarrow> (conv_error + unit) \<times> batcher \<times> 'w" where
  "putTradingFailure env F dec dbl r =
     enqueue_dumped env (weeklyIndex kFailuresBase (rc_BATCH (tfl_config r)))
       (outcomeDocId (tfl_RUN_ID r) (tfl_config r)) (dumped dbl (failure_to_json F dec r))"

definition putTradeFinal ::
  "'w elastic_env \<Rightarrow> ('d, 'f, 'y) float_ops_scheme \<Rightarrow> 'd decimal_text \<Rightarrow> 'f double_ops \<Rightarrow> ('d, 'f) trade_final
     \<Rightarrow> batcher \<times> 'w \<Rightarrow> (conv_error + unit) \<times> batcher \<times> 'w" where
  "putTradeFinal env F dec dbl r =
     enqueue_dumped env (weeklyIndex kFinalBase (rc_BATCH (tf_config r)))
       (outcomeDocId (tf_RUN_ID r) (tf_config r)) (dumped dbl (final_to_json F dec r))"

definition toPrice :: "('d, 'f, 'y) float_ops_scheme \<Rightarrow> int \<Rightarrow> int \<Rightarrow> 'f" where
  "toPrice F priceScale points =
     (if priceScale > 0 then f_div F (f_lit F points 1) (f_lit F priceScale 1) else f_lit F points 1)"

definition trade_document_of ::
  "('d, 'f, 'y) float_ops_scheme \<Rightarrow> 'd configuration \<Rightarrow> string \<Rightarrow> string \<Rightarrow> trade \<Rightarrow> 'f trade_document" where
  "trade_document_of F config hostname ingestedAt trade =
     (let priceScale = getPriceScale (t_symbol trade);
          pnlPips = (if t_scalingFactor trade \<noteq> 0 \<and> t_size trade \<noteq> 0
                     then f_div F (f_lit F (t_pnl trade) 1)
                            (f_mult F (f_lit F (t_scalingFactor trade) 1) (f_lit F (t_size trade) 1))
                     else f_lit F 0 1);
          closeIso = isoUtcMillis (t_closeTime trade) in
      \<lparr>td_RUN_ID = rc_RUN_ID config, td_timestamp = closeIso, td_ingestedAt = ingestedAt, td_hostname = hostname,
       td_strategyUuid = sc_UUID (cf_STRATEGY config),
       td_strategyName = tv_STRATEGY (sc_TRADING_VARIABLES (cf_STRATEGY config)),
       td_tradeId = t_id trade, td_symbol = t_symbol trade,
       td_direction = (if t_direction trade = LONG then ''LONG'' else ''SHORT''), td_size = t_size trade,
       td_entryPrice = toPrice F priceScale (t_entryPrice trade), td_entryBid = toPrice F priceScale (t_entryBid trade),
       td_entryAsk = toPrice F priceScale (t_entryAsk trade), td_closePrice = toPrice F priceScale (t_closePrice trade),
       td_stopPrice = toPrice F priceScale (t_stopPrice trade), td_limitPrice = toPrice F priceScale (t_limitPrice trade),
       td_stopDistancePips = t_stopDistancePips trade, td_limitDistancePips = t_limitDistancePips trade,
       td_openTime = isoUtcMillis (t_openTime trade), td_closeTime = closeIso,
       td_holdSeconds = f_div F (f_lit F (i64 (t_closeTime trade - t_openTime trade)) 1) (f_lit F 1000000 1),
       td_pnlPoints = t_pnl trade, td_pnlPips = pnlPips, td_liquidated = t_liquidated trade,
       td_scalingFactor = t_scalingFactor trade, td_priceScale = priceScale\<rparr>)"

fun trade_docs ::
  "('d, 'f, 'y) float_ops_scheme \<Rightarrow> 'f double_ops \<Rightarrow> 'd configuration \<Rightarrow> string \<Rightarrow> string \<Rightarrow> string \<Rightarrow> trade list
     \<Rightarrow> conv_error + bulk_doc list" where
  "trade_docs F dbl config hostname ingestedAt idPrefix [] = Inr []"
| "trade_docs F dbl config hostname ingestedAt idPrefix (trade # trades) =
     bind (dumped dbl (Inr (trade_to_json (trade_document_of F config hostname ingestedAt trade)))) (\<lambda>body.
     bind (trade_docs F dbl config hostname ingestedAt idPrefix trades) (\<lambda>docs.
       Inr (\<lparr>bd_id = idPrefix @ t_id trade, bd_body = body\<rparr> # docs)))"

definition bulkPutTrades ::
  "'w elastic_env \<Rightarrow> ('d, 'f, 'y) float_ops_scheme \<Rightarrow> 'f double_ops \<Rightarrow> trade list \<Rightarrow> 'd configuration \<Rightarrow> string
     \<Rightarrow> batcher \<times> 'w \<Rightarrow> (conv_error + unit) \<times> batcher \<times> 'w" where
  "bulkPutTrades env F dbl finished config hostname bw =
     (if finished = [] then (Inr (), bw)
      else let outcomeId = outcomeDocId (rc_RUN_ID config) config;
               idPrefix = (if outcomeId = [] then rc_RUN_ID config else outcomeId) @ '':'' in
        (case el_nowIsoUtc env (snd bw) of
           (ingestedAt, w) \<Rightarrow>
             (case trade_docs F dbl config hostname ingestedAt idPrefix finished of
                Inl e \<Rightarrow> (Inl e, (fst bw, w))
              | Inr docs \<Rightarrow> (Inr (), (enqueueDocuments env kTradesIndex docs (fst bw), w)))))"

text \<open>Never throws: a message that cannot be dumped is dropped.\<close>

definition putEngineException ::
  "'w elastic_env \<Rightarrow> 'f double_ops \<Rightarrow> engine_exception \<Rightarrow> batcher \<times> 'w \<Rightarrow> batcher \<times> 'w" where
  "putEngineException env dbl e bw =
     snd (enqueue_dumped env ''engine_exceptions'' [] (dumped dbl (Inr (exception_to_json e))) bw)"

end
