(* ===== verification/Operations.thy ===== *)
theory Operations
  imports StrategyFactory RunLoop RedisLoader Reporting
begin

section \<open>One backtest, from its configuration to its reports\<close>

text \<open>
  \<open>run/operations.cppm\<close>: \<open>Operations::run\<close> sets the risk limits, the strategy and the bar store up from the
  configuration, drives the loop, puts a completed run's next window on the queue and reports the outcome. What is
  outside is a field of \<open>run_env\<close>: the publisher's environment, the Redis connection of the re-queue, the
  steady clock, the host name and the texts of exceptions. The console lines are left out. An exception that
  leaves \<open>run\<close> is the value of its first part; re-queueing and reporting never throw.
  \<open>run_publishes_its_outcome\<close>: which documents a run queues.
\<close>

record ('w, 'f) run_env =
  rn_elastic :: "'w elastic_env"
  rn_exec :: "'w exec"
  rn_elapsed :: "'w \<Rightarrow> 'f \<times> 'w"
  rn_hostname :: string
  rn_what :: "conv_error \<Rightarrow> string"

subsection \<open>Setting a run up\<close>

definition primary_symbol :: "('d, 'x) run_configuration_scheme \<Rightarrow> symbol" where
  "primary_symbol config = takeWhile (\<lambda>c. c \<noteq> CHR '','') (rc_SYMBOLS config)"

definition risk_limits_of :: "('d, 'z) decimal_ops_scheme \<Rightarrow> ('d, 'x) run_configuration_scheme \<Rightarrow> 'd risk_limits" where
  "risk_limits_of D config =
     \<lparr>k_startingBalance = rc_STARTING_BALANCE config, k_maxLossPercent = rc_MAX_LOSS_PERCENT config,
      k_maxOpenTrades = rc_MAX_OPEN_TRADES config, k_maxTradesPerMinute = rc_MAX_TRADES_PER_MINUTE config,
      k_peakHoursOnly = rc_PEAK_HOURS_ONLY config, k_pointsPerPip = get_scale (primary_symbol config),
      k_minPerformanceScore = d_of_int D 5, k_minDecisiveTrades = 5, k_lastMonths = rc_LAST_MONTHS config\<rparr>"

fun register_ohlc :: "ohlc_variables list \<Rightarrow> bar_store \<Rightarrow> bar_store result" where
  "register_ohlc [] store = Inr store"
| "register_ohlc (v # vs) store =
     (if ov_OHLC_MINUTES v \<ge> 1 \<and> ov_OHLC_COUNT v \<ge> 1
      then bind (registerSeries store (ov_OHLC_MINUTES v) (ov_OHLC_COUNT v)) (register_ohlc vs)
      else register_ohlc vs store)"

fun register_range :: "range_bar_variables list \<Rightarrow> bar_store \<Rightarrow> bar_store result" where
  "register_range [] store = Inr store"
| "register_range (v # vs) store =
     (if rv_RANGE_ATR_TICK_WINDOW v \<ge> 1 \<and> rv_RANGE_ATR_PERCENT v \<ge> 1 \<and> rv_RANGE_COUNT v \<ge> 1
      then bind (registerRangeSeries store
                  \<lparr>rs_atrTickWindow = rv_RANGE_ATR_TICK_WINDOW v, rs_atrPercent = rv_RANGE_ATR_PERCENT v,
                   rs_count = rv_RANGE_COUNT v\<rparr>) (register_range vs)
      else register_range vs store)"

definition run_bars :: "strategy_config \<Rightarrow> bar_store result" where
  "run_bars config =
     bind (register_ohlc (sc_OHLC_VARIABLES config) new_bar_store) (\<lambda>store.
     bind (register_range (sc_RANGE_VARIABLES config) store) (\<lambda>store.
       registerSeries store (s_minutes (gateSeriesFor config)) (s_count (gateSeriesFor config))))"

datatype run_error = Not_made factory_error | Faulted cpp_error

definition faulting :: "'a result \<Rightarrow> run_error + 'a" where
  "faulting r = (case r of Inl e \<Rightarrow> Inl (Faulted e) | Inr x \<Rightarrow> Inr x)"

text \<open>The run up to its last tick.\<close>

definition simulate ::
  "map_order \<Rightarrow> ('d, 'z) decimal_ops_scheme \<Rightarrow> ('d, 'f, 'y) float_ops_scheme \<Rightarrow> db_ctx \<Rightarrow> ('r \<Rightarrow> bool \<times> 'r) \<Rightarrow> 'r
     \<Rightarrow> price_data list \<Rightarrow> 'd configuration \<Rightarrow> run_error + (run_status \<times> 'r any_strategy run_state)" where
  "simulate order D F ctx coin seed ticks config =
     (case makeStrategy seed (cf_STRATEGY config) of
        Inl e \<Rightarrow> Inl (Not_made e)
      | Inr strategy \<Rightarrow>
          bind (faulting (run_bars (cf_STRATEGY config))) (\<lambda>barStore.
            faulting (runTicks order D F ctx (any_strategy_impl coin)
              (new_trade_manager (rc_ENTRY_SLIPPAGE_TENTH_PIPS config)) strategy ticks
              (sc_TRADING_VARIABLES (cf_STRATEGY config)) (risk_limits_of D config)
              (Some barStore) (Some (gateSeriesFor (cf_STRATEGY config))))))"

subsection \<open>The next window\<close>

definition single_payload :: "(keyed_payload \<times> bool) chunk_source" where
  "single_payload s = (if snd s then (Inr [], s) else (Inr [fst s], (fst s, True)))"

text \<open>The text of the exception the body throws, if it throws. \<open>None\<close> would be a push that never ends.\<close>

definition try_queue_next ::
  "('w, 'f) run_env \<Rightarrow> 'd decimal_text \<Rightarrow> 'f double_ops \<Rightarrow> 'd configuration \<Rightarrow> window \<Rightarrow> 'w
     \<Rightarrow> (string option \<times> 'w) option" where
  "try_queue_next env dec dbl config next w =
     (case el_uuid (rn_elastic env) w of (newRunId, w) \<Rightarrow>
        (case dumped dbl (Inr (strategy_to_json (cf_STRATEGY config))) of
           Inl e \<Rightarrow> Some (Some (rn_what env e), w)
         | Inr payload \<Rightarrow>
             (case loadKeyedPayloadStream (rn_exec env) (strategyKey newRunId) single_payload PAYLOAD_TTL_SECONDS
                     (\<lparr>kp_key = strategyPayloadKey newRunId (sc_UUID (cf_STRATEGY config)), kp_rawJson = payload\<rparr>, False) w of
                None \<Rightarrow> None
              | Some (status, _, w) \<Rightarrow>
                  if status \<noteq> 0 then Some (Some ''strategy payload push failed'', w)
                  else (case dumped dbl (run_to_json dec (nextRunConfiguration config next newRunId)) of
                          Inl e \<Rightarrow> Some (Some (rn_what env e), w)
                        | Inr run \<Rightarrow>
                            (case loadPayload (rn_exec env) (queueKeyFor next) run w of (status, w) \<Rightarrow>
                               Some (if status \<noteq> 0 then Some ''run descriptor push failed'' else None, w))))))"

definition report_exception ::
  "('w, 'f) run_env \<Rightarrow> 'f double_ops \<Rightarrow> 'd configuration \<Rightarrow> string \<Rightarrow> batcher \<times> 'w \<Rightarrow> batcher \<times> 'w" where
  "report_exception env dbl config message bw =
     (case el_nowIsoUtc (rn_elastic env) (snd bw) of (now, w) \<Rightarrow>
        putEngineException (rn_elastic env) dbl
          \<lparr>ex_timestamp = now, ex_source = ''Operations'', ex_message = message, ex_RUN_ID = rc_RUN_ID config\<rparr> (fst bw, w))"

definition queueNextWindow ::
  "('w, 'f) run_env \<Rightarrow> 'd decimal_text \<Rightarrow> 'f double_ops \<Rightarrow> 'd configuration \<Rightarrow> window \<Rightarrow> batcher \<times> 'w
     \<Rightarrow> (batcher \<times> 'w) option" where
  "queueNextWindow env dec dbl config next bw =
     map_option (\<lambda>(failed, w). case failed of
         None \<Rightarrow> (fst bw, w)
       | Some what \<Rightarrow> report_exception env dbl config (''rolling-window re-queue failed: '' @ what) (fst bw, w))
       (try_queue_next env dec dbl config next (snd bw))"

definition chain_window :: "bool \<Rightarrow> 'd configuration \<Rightarrow> run_status \<Rightarrow> window option" where
  "chain_window chainWindows config status =
     (if chainWindows \<and> status = Completed then nextWindow (rc_LAST_MONTHS config) (rc_OFFSET_MONTHS config) else None)"

subsection \<open>The reports\<close>

definition status_label :: "run_status \<Rightarrow> string" where
  "status_label status =
     (case status of LossLimitBreached \<Rightarrow> ''loss_limit_breached'' | Underperformed \<Rightarrow> ''underperformed''
      | Completed \<Rightarrow> ''completed'')"

definition final_of :: "'d configuration \<Rightarrow> run_status \<Rightarrow> 'f \<Rightarrow> string \<Rightarrow> string \<Rightarrow> ('d, 'f) trade_final" where
  "final_of config status durationSeconds hostname now =
     \<lparr>tf_RUN_ID = rc_RUN_ID config, tf_timestamp = now, tf_durationSeconds = durationSeconds,
      tf_success = (if status = Completed then 1 else 0), tf_status = status_label status, tf_hostname = hostname,
      tf_config = config\<rparr>"

definition stats_of ::
  "('d, 'z) decimal_ops_scheme \<Rightarrow> ('d, 'f, 'y) float_ops_scheme \<Rightarrow> 'd configuration \<Rightarrow> trade_manager
     \<Rightarrow> 'd trading_results_stats" where
  "stats_of D F config tm =
     collect D F tm (rc_STARTING_BALANCE config) (rc_LAST_MONTHS config) (get_scale (primary_symbol config))"

definition failure_of ::
  "('d, 'z) decimal_ops_scheme \<Rightarrow> ('d, 'f, 'y) float_ops_scheme \<Rightarrow> 'd configuration \<Rightarrow> trade_manager \<Rightarrow> 'f \<Rightarrow> string
     \<Rightarrow> string \<Rightarrow> ('d, 'f) trading_failure" where
  "failure_of D F config tm durationSeconds hostname now =
     (let tradingSize = max 1 (tv_TRADING_SIZE (sc_TRADING_VARIABLES (cf_STRATEGY config)));
          pnlDivisor = f_mult F (f_lit F (k_pointsPerPip (risk_limits_of D config)) 1) (f_lit F tradingSize 1);
          breachPnlPips = (if \<not> f_eq F pnlDivisor (f_lit F 0 1) then f_div F (f_lit F (calculatePnl tm) 1) pnlDivisor
                           else f_lit F 0 1);
          lossFloorPips = f_of_dec F (d_div D (d_mult D (rc_STARTING_BALANCE config) (rc_MAX_LOSS_PERCENT config))
                                        (d_of_int D 100)) in
      \<lparr>tfl_RUN_ID = rc_RUN_ID config, tfl_timestamp = now, tfl_durationSeconds = durationSeconds,
       tfl_reason = ''account loss limit reached (open trades liquidated)'', tfl_breachPnlPips = breachPnlPips,
       tfl_lossFloorPips = lossFloorPips, tfl_hostname = hostname, tfl_config = config,
       tfl_results = stats_of D F config tm\<rparr>)"

definition results_of ::
  "('d, 'z) decimal_ops_scheme \<Rightarrow> ('d, 'f, 'y) float_ops_scheme \<Rightarrow> 'd configuration \<Rightarrow> trade_manager \<Rightarrow> 'f \<Rightarrow> string
     \<Rightarrow> string \<Rightarrow> ('d, 'f) trading_results" where
  "results_of D F config tm durationSeconds hostname now =
     \<lparr>tr_RUN_ID = rc_RUN_ID config, tr_timestamp = now, tr_durationSeconds = durationSeconds, tr_hostname = hostname,
      tr_config = config, tr_results = stats_of D F config tm\<rparr>"

text \<open>One report after another: the first exception skips the rest.\<close>

type_synonym 'w report = "batcher \<times> 'w \<Rightarrow> (conv_error + unit) \<times> batcher \<times> 'w"

definition and_then :: "'w report \<Rightarrow> 'w report \<Rightarrow> 'w report" where
  "and_then f g bw = (case f bw of (Inl e, bw') \<Rightarrow> (Inl e, bw') | (Inr _, bw') \<Rightarrow> g bw')"

definition nothing :: "'w report" where
  "nothing bw = (Inr (), bw)"

definition timed :: "'w elastic_env \<Rightarrow> (string \<Rightarrow> 'w report) \<Rightarrow> 'w report" where
  "timed env f bw = (case el_nowIsoUtc env (snd bw) of (now, w) \<Rightarrow> f now (fst bw, w))"

definition trades_enabled :: "'w elastic_env \<Rightarrow> bool" where
  "trades_enabled env \<longleftrightarrow> getOr (el_getenv env) ''ELASTIC_TRADES_ENABLED'' ''0'' = ''1''"

definition put_outcome ::
  "('d, 'z) decimal_ops_scheme \<Rightarrow> ('d, 'f, 'y) float_ops_scheme \<Rightarrow> ('w, 'f) run_env \<Rightarrow> 'd decimal_text \<Rightarrow> 'f double_ops
     \<Rightarrow> 'd configuration \<Rightarrow> run_status \<Rightarrow> trade_manager \<Rightarrow> 'f \<Rightarrow> 'w report" where
  "put_outcome D F env dec dbl config status tm durationSeconds =
     (let el = rn_elastic env; hostname = rn_hostname env in
      and_then (timed el (\<lambda>now. putTradeFinal el F dec dbl (final_of config status durationSeconds hostname now)))
       (and_then (if trades_enabled el then bulkPutTrades el F dbl (closedTrades tm) config hostname else nothing)
         (if status = LossLimitBreached then
            if \<not> rc_REPORT_FAILURES config then nothing
            else timed el (\<lambda>now. putTradingFailure el F dec dbl (failure_of D F config tm durationSeconds hostname now))
          else if status = Completed then
            timed el (\<lambda>now. putTradingResults el F dec dbl (results_of D F config tm durationSeconds hostname now))
          else nothing)))"

definition report_outcome ::
  "('d, 'z) decimal_ops_scheme \<Rightarrow> ('d, 'f, 'y) float_ops_scheme \<Rightarrow> ('w, 'f) run_env \<Rightarrow> 'd decimal_text \<Rightarrow> 'f double_ops
     \<Rightarrow> 'd configuration \<Rightarrow> run_status \<Rightarrow> trade_manager \<Rightarrow> 'f \<Rightarrow> batcher \<times> 'w \<Rightarrow> batcher \<times> 'w" where
  "report_outcome D F env dec dbl config status tm durationSeconds bw =
     (case put_outcome D F env dec dbl config status tm durationSeconds bw of
        (Inl e, bw') \<Rightarrow> report_exception env dbl config (rn_what env e) bw'
      | (Inr _, bw') \<Rightarrow> bw')"

definition operations_run ::
  "map_order \<Rightarrow> ('d, 'z) decimal_ops_scheme \<Rightarrow> ('d, 'f, 'y) float_ops_scheme \<Rightarrow> db_ctx \<Rightarrow> ('r \<Rightarrow> bool \<times> 'r) \<Rightarrow> 'r
     \<Rightarrow> ('w, 'f) run_env \<Rightarrow> 'd decimal_text \<Rightarrow> 'f double_ops \<Rightarrow> price_data list \<Rightarrow> 'd configuration \<Rightarrow> bool
     \<Rightarrow> batcher \<times> 'w \<Rightarrow> ((run_error + unit) \<times> batcher \<times> 'w) option" where
  "operations_run order D F ctx coin seed env dec dbl ticks config chainWindows bw =
     (case simulate order D F ctx coin seed ticks config of
        Inl e \<Rightarrow> Some (Inl e, bw)
      | Inr (status, st) \<Rightarrow>
          (case rn_elapsed env (snd bw) of (durationSeconds, w) \<Rightarrow>
             map_option (\<lambda>bw. (Inr (), report_outcome D F env dec dbl config status (l_tm st) durationSeconds bw))
               (case chain_window chainWindows config status of
                  None \<Rightarrow> Some (fst bw, w)
                | Some next \<Rightarrow> queueNextWindow env dec dbl config next (fst bw, w))))"

subsection \<open>A run of a made strategy ends\<close>

lemma update_series_total:
  "\<forall>spec \<in> set specs. series_ok spec \<Longrightarrow> length specs \<le> length v \<Longrightarrow> \<exists>v'. update_series ctx tick specs v = Inr v'"
proof (induction specs arbitrary: v)
  case (Cons spec specs)
  obtain bars vs where v: "v = bars # vs" using Cons.prems(2) by (cases v) auto
  obtain v' where "update_series ctx tick specs vs = Inr v'" using Cons v by auto
  moreover have "\<exists>bars'. calculateOHLC ctx tick (p_ask tick) (s_minutes spec * 60000000) bars (s_count spec) = Inr bars'"
    using Cons.prems(1) by (auto simp: calculateOHLC_def series_ok_def)
  ultimately show ?case using v by auto
qed simp

lemma store_update_total:
  assumes "store_ready store"
  shows "\<exists>store'. store_update ctx tick store = Inr store' \<and> store_ready store'"
proof -
  have "\<exists>v. ohlc_step ctx (bs_specs store) tick bars = Inr v" for bars
    using update_series_total [of "bs_specs store"] assms by (auto simp: ohlc_step_def resize_def store_ready_def)
  then have "\<exists>m. ohlc_block ctx (bs_specs store) tick (bs_bySymbol store) = Inr m"
    by (auto simp: ohlc_block_def ohlc_leg_def split: sum.splits) (metis Inl_Inr_False)
  moreover have "\<exists>r. range_step ctx (bs_rangeSpecs store) tick v = Inr r" for v
  proof -
    have "\<forall>spec \<in> set (drop (length v) (bs_rangeSpecs store)). spec_ok spec"
      using assms by (auto simp: store_ready_def dest: in_set_dropD)
    from append_series_fresh [OF this] show ?thesis by (simp add: range_step_def)
  qed
  then have "\<exists>r. range_block ctx (bs_rangeSpecs store) tick (bs_rangeBySymbol store) = Inr r"
    by (auto simp: range_block_def range_leg_def split: sum.splits) (metis Inl_Inr_False)
  ultimately show ?thesis using assms by (auto simp: store_update_def store_ready_def)
qed

lemma check_entry_total: "\<exists>d. check_entry store gate tick sm lm = Inr d"
  by (auto simp: check_entry_def atr_calculate_def kAtrPeriod_def Let_def split: option.splits)

context total_strategy
begin

lemma try_entry_total:
  assumes "accepted (l_strategy st)"
  shows "\<exists>st'. try_entry strat vars limits gate tick st = Inr st' \<and> accepted (l_strategy st') \<and> l_bars st' = l_bars st"
proof -
  have "\<exists>d. (case gate of None \<Rightarrow> Inr (Some \<lparr>stopPips = tv_STOP_DISTANCE_IN_ATR vars,
        limitPips = tv_LIMIT_DISTANCE_IN_ATR vars\<rparr>)
      | Some g \<Rightarrow> check_entry (l_bars st) g tick (tv_STOP_DISTANCE_IN_ATR vars) (tv_LIMIT_DISTANCE_IN_ATR vars)) = Inr d"
    by (cases gate) (simp_all add: check_entry_total)
  then obtain d where d: "(case gate of None \<Rightarrow> Inr (Some \<lparr>stopPips = tv_STOP_DISTANCE_IN_ATR vars,
        limitPips = tv_LIMIT_DISTANCE_IN_ATR vars\<rparr>)
      | Some g \<Rightarrow> check_entry (l_bars st) g tick (tv_STOP_DISTANCE_IN_ATR vars) (tv_LIMIT_DISTANCE_IN_ATR vars)) = Inr d" ..
  obtain signal s where "sg_decide strat (l_strategy st) tick (l_bars st) = Inr (signal, s)" "accepted s"
    using decide_total [OF assms] by blast
  then show ?thesis using d assms by (auto simp: try_entry_def split: option.split)
qed

lemma tick_step_total:
  assumes "accepted (l_strategy st)" "store_ready (l_bars st)"
  shows "\<exists>b st'. tick_step order D ctx strat vars limits gate tick st = Inr (b, st')
    \<and> accepted (l_strategy st') \<and> store_ready (l_bars st')"
proof -
  let ?tm = "reviewStopAndLimit (markToMarket (l_tm st) tick) tick"
  obtain bars where bars: "store_update ctx tick (l_bars st) = Inr bars" "store_ready bars"
    using store_update_total [OF assms(2)] by blast
  let ?st = "st\<lparr>l_tm := ?tm, l_bars := bars, l_recentOpens := evict_opens limits (p_timestamp tick) (l_recentOpens st)\<rparr>"
  obtain st1 where st1: "try_entry strat vars limits gate tick ?st = Inr st1" "accepted (l_strategy st1)" "l_bars st1 = bars"
    using try_entry_total [of ?st vars limits gate tick] assms(1) by auto
  obtain tm2 s2 where "sg_during strat (l_strategy st1) tick (l_bars st1) (l_tm st1) = Inr (tm2, s2)" "accepted s2"
    using during_total [OF st1(2)] by blast
  then show ?thesis using bars st1 assms(1) by (auto simp: tick_step_def Let_def)
qed

lemma tick_loop_total:
  "accepted (l_strategy st) \<Longrightarrow> store_ready (l_bars st) \<Longrightarrow>
   \<exists>b st'. tick_loop order D ctx strat vars limits gate ticks st = Inr (b, st')"
proof (induction ticks arbitrary: st)
  case (Cons tick ticks)
  obtain b st1 where s: "tick_step order D ctx strat vars limits gate tick st = Inr (b, st1)"
    "accepted (l_strategy st1)" "store_ready (l_bars st1)"
    using tick_step_total [OF Cons.prems] by blast
  then show ?case using Cons.IH [of st1] by (cases b) auto
qed auto

lemma runTicks_total:
  assumes "accepted s" "store_ready store"
  shows "\<exists>status st. runTicks order D F ctx strat tm s ticks vars limits (Some store) gate = Inr (status, st)"
proof -
  have "\<exists>b st. tick_loop order D ctx strat vars limits gate ticks
      \<lparr>l_tm = tm, l_strategy = s, l_bars = store, l_recentOpens = []\<rparr> = Inr (b, st)"
    by (rule tick_loop_total) (simp_all add: assms)
  then obtain b st where "tick_loop order D ctx strat vars limits gate ticks
      \<lparr>l_tm = tm, l_strategy = s, l_bars = store, l_recentOpens = []\<rparr> = Inr (b, st)" by blast
  then show ?thesis by (cases b) (simp_all add: runTicks_def Let_def)
qed

end

lemma register_ohlc_total: "store_ready store \<Longrightarrow> \<exists>store'. register_ohlc vs store = Inr store' \<and> store_ready store'"
proof (induction vs arbitrary: store)
  case (Cons v vs)
  have "\<exists>store1. registerSeries store (ov_OHLC_MINUTES v) (ov_OHLC_COUNT v) = Inr store1 \<and> store_ready store1"
    if "ov_OHLC_MINUTES v \<ge> 1" "ov_OHLC_COUNT v \<ge> 1"
    using that registerSeries_ready [OF _ Cons.prems, of "ov_OHLC_MINUTES v" "ov_OHLC_COUNT v"]
    by (auto simp: registerSeries_def)
  then show ?case using Cons by fastforce
qed simp

lemma register_range_total: "store_ready store \<Longrightarrow> \<exists>store'. register_range vs store = Inr store' \<and> store_ready store'"
proof (induction vs arbitrary: store)
  case (Cons v vs)
  let ?spec = "\<lparr>rs_atrTickWindow = rv_RANGE_ATR_TICK_WINDOW v, rs_atrPercent = rv_RANGE_ATR_PERCENT v,
    rs_count = rv_RANGE_COUNT v\<rparr>"
  have "\<exists>store1. registerRangeSeries store ?spec = Inr store1 \<and> store_ready store1"
    if "rv_RANGE_ATR_TICK_WINDOW v \<ge> 1" "rv_RANGE_ATR_PERCENT v \<ge> 1" "rv_RANGE_COUNT v \<ge> 1"
    using that Cons.prems registerRangeSeries_ready [of store ?spec] by (auto simp: registerRangeSeries_def)
  then show ?case using Cons by fastforce
qed simp

lemma run_bars_total: "\<exists>store. run_bars config = Inr store \<and> store_ready store"
proof -
  obtain store1 where s1: "register_ohlc (sc_OHLC_VARIABLES config) new_bar_store = Inr store1" "store_ready store1"
    using register_ohlc_total new_bar_store_ready by blast
  obtain store2 where s2: "register_range (sc_RANGE_VARIABLES config) store1 = Inr store2" "store_ready store2"
    using register_range_total [OF s1(2)] by blast
  have "\<exists>store3. registerSeries store2 (s_minutes (gateSeriesFor config)) (s_count (gateSeriesFor config)) = Inr store3"
    using gateSeriesFor_ok [of config] by (auto simp: registerSeries_def series_ok_def)
  then show ?thesis using s1 s2 registerSeries_ready [OF _ s2(2)] by (auto simp: run_bars_def)
qed

lemma simulate_total:
  assumes "makeStrategy seed (cf_STRATEGY config) = Inr s" "no_overflow (cf_STRATEGY config)"
  shows "\<exists>status st store. simulate order D F ctx coin seed ticks config = Inr (status, st)
    \<and> runTicks order D F ctx (any_strategy_impl coin) (new_trade_manager (rc_ENTRY_SLIPPAGE_TENTH_PIPS config)) s ticks
        (sc_TRADING_VARIABLES (cf_STRATEGY config)) (risk_limits_of D config) (Some store)
        (Some (gateSeriesFor (cf_STRATEGY config))) = Inr (status, st)"
proof -
  obtain store where store: "run_bars (cf_STRATEGY config) = Inr store" "store_ready store" using run_bars_total by blast
  let ?run = "runTicks order D F ctx (any_strategy_impl coin) (new_trade_manager (rc_ENTRY_SLIPPAGE_TENTH_PIPS config)) s ticks
        (sc_TRADING_VARIABLES (cf_STRATEGY config)) (risk_limits_of D config) (Some store)
        (Some (gateSeriesFor (cf_STRATEGY config)))"
  have "\<exists>status st. ?run = Inr (status, st)" by (rule any.runTicks_total [OF made_ok [OF assms] store(2)])
  then obtain status st where run: "?run = Inr (status, st)" by blast
  then have "simulate order D F ctx coin seed ticks config = Inr (status, st)"
    using assms(1) store(1) by (simp add: simulate_def faulting_def)
  with run show ?thesis by blast
qed

subsection \<open>The documents of a run\<close>

definition queue_docs :: "(string \<times> bulk_doc list) list \<Rightarrow> batcher \<Rightarrow> batcher" where
  "queue_docs docs pending = fold (\<lambda>(index, ds). batch_enqueue index ds) docs pending"

text \<open>A report queues documents under the indices \<open>trail\<close>, one batch each, or stops short of it at an exception;
  it queues nothing while the publisher is switched off.\<close>

definition told :: "'w elastic_env \<Rightarrow> string list \<Rightarrow> conv_error + unit \<Rightarrow> (string \<times> bulk_doc list) list \<Rightarrow> bool" where
  "told env trail res docs \<longleftrightarrow>
     (if elastic_disabled env then docs = []
      else case res of Inr _ \<Rightarrow> map fst docs = trail | Inl _ \<Rightarrow> \<exists>k < length trail. map fst docs = take k trail)"

definition reports :: "'w elastic_env \<Rightarrow> string list \<Rightarrow> 'w report \<Rightarrow> bool" where
  "reports env trail f \<longleftrightarrow> (\<forall>p w. \<exists>res docs w'. f (p, w) = (res, queue_docs docs p, w') \<and> told env trail res docs)"

lemma reportsI: "(\<And>p w. \<exists>res docs w'. f (p, w) = (res, queue_docs docs p, w') \<and> told env trail res docs) \<Longrightarrow>
    reports env trail f"
  by (simp add: reports_def)

lemma reportsE:
  assumes "reports env trail f"
  obtains res docs w' where "f (p, w) = (res, queue_docs docs p, w')" "told env trail res docs"
  using assms unfolding reports_def by blast

lemma queue_docs_append: "queue_docs (xs @ ys) p = queue_docs ys (queue_docs xs p)"
  by (simp add: queue_docs_def)

lemma queue_docs_Nil [simp]: "queue_docs [] p = p"
  by (simp add: queue_docs_def)

lemma told_Nil [simp]: "told env [] (Inr u) []" "t \<noteq> [] \<Longrightarrow> told env t (Inl e) []"
  by (auto simp: told_def)

lemma told_off [simp]: "elastic_disabled env \<Longrightarrow> told env t res docs \<longleftrightarrow> docs = []"
  by (simp add: told_def)

lemma told_append:
  assumes "told env t1 (Inr u) d1" "told env t2 res d2"
  shows "told env (t1 @ t2) res (d1 @ d2)"
proof (cases res)
  case (Inl e)
  have "\<exists>k < length (t1 @ t2). map fst (d1 @ d2) = take k (t1 @ t2)" if on: "\<not> elastic_disabled env"
  proof -
    obtain k where "k < length t2" "map fst d2 = take k t2" using assms(2) on Inl by (auto simp: told_def)
    then show ?thesis using assms(1) on by (intro exI [of _ "length t1 + k"]) (simp add: told_def)
  qed
  then show ?thesis using assms Inl by (simp add: told_def split: if_splits)
qed (use assms in \<open>simp add: told_def split: if_splits\<close>)

lemma told_cut:
  assumes "told env t1 (Inl e) d"
  shows "told env (t1 @ t2) (Inl e) d"
proof (cases "elastic_disabled env")
  case False
  then obtain k where "k < length t1" "map fst d = take k t1" using assms by (auto simp: told_def)
  then show ?thesis using False by (auto simp: told_def intro!: exI [of _ k])
qed (use assms in simp)

lemma reports_nothing: "reports env [] nothing"
proof (rule reportsI)
  fix p w
  show "\<exists>res docs w'. nothing (p, w) = (res, queue_docs docs p, w') \<and> told env [] res docs"
    by (intro exI [of _ "Inr ()"] exI [of _ "[]"] exI [of _ w]) (simp add: nothing_def)
qed

lemma reports_timed: "(\<And>now. reports env trail (f now)) \<Longrightarrow> reports env trail (timed env f)"
  by (auto simp: reports_def timed_def split: prod.split)

lemma reports_enqueue_dumped: "reports env [index] (enqueue_dumped env index docId body)"
proof (rule reportsI)
  fix p w
  show "\<exists>res docs w'. enqueue_dumped env index docId body (p, w) = (res, queue_docs docs p, w') \<and> told env [index] res docs"
  proof (cases body)
    case (Inl e)
    then show ?thesis
      by (intro exI [of _ "Inl e"] exI [of _ "[]"] exI [of _ w]) (simp add: enqueue_dumped_def)
  next
    case (Inr b)
    obtain uuid w' where u: "(if docId = [] then el_uuid env w else (docId, w)) = (uuid, w')"
      by (metis surj_pair)
    show ?thesis
    proof (cases "elastic_disabled env")
      case True
      then show ?thesis using Inr
        by (intro exI [of _ "Inr ()"] exI [of _ "[]"] exI [of _ w]) (simp add: enqueue_dumped_def enqueueDocument_def)
    next
      case False
      then show ?thesis using Inr u
        by (intro exI [of _ "Inr ()"] exI [of _ "[(index, [\<lparr>bd_id = uuid, bd_body = b\<rparr>])]"] exI [of _ w'])
          (simp add: enqueue_dumped_def enqueueDocument_def told_def queue_docs_def)
    qed
  qed
qed

lemma reports_and_then:
  assumes "reports env t1 f" "reports env t2 g"
  shows "reports env (t1 @ t2) (and_then f g)"
proof (rule reportsI)
  fix p w
  obtain r1 d1 w1 where 1: "f (p, w) = (r1, queue_docs d1 p, w1)" "told env t1 r1 d1"
    by (rule reportsE [OF assms(1)])
  obtain r2 d2 w2 where 2: "g (queue_docs d1 p, w1) = (r2, queue_docs d2 (queue_docs d1 p), w2)" "told env t2 r2 d2"
    by (rule reportsE [OF assms(2)])
  show "\<exists>res docs w'. and_then f g (p, w) = (res, queue_docs docs p, w') \<and> told env (t1 @ t2) res docs"
  proof (cases r1)
    case (Inl e)
    then show ?thesis using 1
      by (intro exI [of _ "Inl e"] exI [of _ d1] exI [of _ w1]) (simp add: and_then_def told_cut)
  next
    case (Inr u)
    then show ?thesis using 1 2
      by (intro exI [of _ r2] exI [of _ "d1 @ d2"] exI [of _ w2]) (simp add: and_then_def queue_docs_append told_append)
  qed
qed

lemma trade_docs_Nil: "trade_docs F dbl config hostname ts pre trades = Inr [] \<Longrightarrow> trades = []"
  by (cases trades) (auto simp: bind_def split: sum.splits)

lemma reports_bulkPutTrades:
  "reports env (if trades = [] then [] else [kTradesIndex]) (bulkPutTrades env F dbl trades config hostname)"
proof (cases "trades = []")
  case True
  then have "bulkPutTrades env F dbl trades config hostname = nothing"
    by (simp add: bulkPutTrades_def nothing_def fun_eq_iff)
  then show ?thesis using True by (simp add: reports_nothing)
next
  case False
  let ?pre = "(if outcomeDocId (rc_RUN_ID config) config = [] then rc_RUN_ID config
               else outcomeDocId (rc_RUN_ID config) config) @ '':''"
  have "reports env [kTradesIndex] (bulkPutTrades env F dbl trades config hostname)"
  proof (rule reportsI)
    fix p w
    obtain ts w' where now: "el_nowIsoUtc env w = (ts, w')" by (metis surj_pair)
    show "\<exists>res docs w'. bulkPutTrades env F dbl trades config hostname (p, w) = (res, queue_docs docs p, w')
        \<and> told env [kTradesIndex] res docs"
    proof (cases "trade_docs F dbl config hostname ts ?pre trades")
      case (Inl e)
      then show ?thesis
        using False now by (intro exI [of _ "Inl e"] exI [of _ "[]"] exI [of _ w']) (simp add: bulkPutTrades_def Let_def)
    next
      case (Inr docs)
      then have "docs \<noteq> []" using trade_docs_Nil False by blast
      then show ?thesis
        using False now Inr
        by (intro exI [of _ "Inr ()"] exI [of _ "if elastic_disabled env then [] else [(kTradesIndex, docs)]"] exI [of _ w'])
          (simp add: bulkPutTrades_def Let_def enqueueDocuments_def queue_docs_def told_def)
    qed
  qed
  then show ?thesis using False by simp
qed

text \<open>What a run that ended with \<open>status\<close> reports, and where.\<close>

definition outcome_trail :: "'w elastic_env \<Rightarrow> 'd configuration \<Rightarrow> run_status \<Rightarrow> trade_manager \<Rightarrow> string list" where
  "outcome_trail env config status tm =
     [weeklyIndex kFinalBase (rc_BATCH config)]
     @ (if trades_enabled env \<and> closedTrades tm \<noteq> [] then [kTradesIndex] else [])
     @ (case status of
          Completed \<Rightarrow> [weeklyIndex (resultsBaseFor (rc_LAST_MONTHS config) (rc_OFFSET_MONTHS config)) (rc_BATCH config)]
        | LossLimitBreached \<Rightarrow> (if rc_REPORT_FAILURES config then [weeklyIndex kFailuresBase (rc_BATCH config)] else [])
        | Underperformed \<Rightarrow> [])"

lemma reports_outcome:
  "reports (rn_elastic env) (outcome_trail (rn_elastic env) config status tm)
     (put_outcome D F env dec dbl config status tm seconds)"
proof -
  let ?el = "rn_elastic env"
  have "reports ?el [weeklyIndex kFinalBase (rc_BATCH config)] (timed ?el (\<lambda>now. putTradeFinal ?el F dec dbl
      (final_of config status seconds (rn_hostname env) now)))"
    by (intro reports_timed) (simp add: putTradeFinal_def final_of_def reports_enqueue_dumped)
  moreover have "reports ?el (if trades_enabled ?el \<and> closedTrades tm \<noteq> [] then [kTradesIndex] else [])
      (if trades_enabled ?el then bulkPutTrades ?el F dbl (closedTrades tm) config (rn_hostname env) else nothing)"
    using reports_bulkPutTrades [of ?el "closedTrades tm"] reports_nothing by (cases "closedTrades tm = []") auto
  moreover have "reports ?el
      (case status of
          Completed \<Rightarrow> [weeklyIndex (resultsBaseFor (rc_LAST_MONTHS config) (rc_OFFSET_MONTHS config)) (rc_BATCH config)]
        | LossLimitBreached \<Rightarrow> (if rc_REPORT_FAILURES config then [weeklyIndex kFailuresBase (rc_BATCH config)] else [])
        | Underperformed \<Rightarrow> [])
      (if status = LossLimitBreached then
            if \<not> rc_REPORT_FAILURES config then nothing
            else timed ?el (\<lambda>now. putTradingFailure ?el F dec dbl (failure_of D F config tm seconds (rn_hostname env) now))
          else if status = Completed then
            timed ?el (\<lambda>now. putTradingResults ?el F dec dbl (results_of D F config tm seconds (rn_hostname env) now))
          else nothing)"
    by (cases status)
      (auto intro!: reports_timed reports_nothing simp: putTradingFailure_def failure_of_def putTradingResults_def
        results_of_def Let_def reports_enqueue_dumped)
  ultimately show ?thesis
    unfolding outcome_trail_def put_outcome_def Let_def by (intro reports_and_then)
qed

definition exceptions_index :: string where
  "exceptions_index = ''engine_exceptions''"

text \<open>The whole trail, or a strict prefix of it and at most the record of the exception that cut it.\<close>

definition complete_or_cut :: "string list \<Rightarrow> string list \<Rightarrow> bool" where
  "complete_or_cut trail indices \<longleftrightarrow>
     indices = trail \<or> (\<exists>k < length trail. indices = take k trail \<or> indices = take k trail @ [exceptions_index])"

lemma report_exception_docs:
  "\<exists>docs w'. report_exception env dbl config msg (p, w) = (queue_docs docs p, w')
     \<and> (elastic_disabled (rn_elastic env) \<longrightarrow> docs = []) \<and> map fst docs \<in> {[], [exceptions_index]}"
proof -
  obtain now w1 where now: "el_nowIsoUtc (rn_elastic env) w = (now, w1)" by (metis surj_pair)
  let ?put = "enqueue_dumped (rn_elastic env) exceptions_index [] (dumped dbl (Inr (exception_to_json
      \<lparr>ex_timestamp = now, ex_source = ''Operations'', ex_message = msg, ex_RUN_ID = rc_RUN_ID config\<rparr>)))"
  obtain res docs w2 where r: "?put (p, w1) = (res, queue_docs docs p, w2)" "told (rn_elastic env) [exceptions_index] res docs"
    by (rule reportsE [OF reports_enqueue_dumped])
  have "map fst docs \<in> {[], [exceptions_index]}" "elastic_disabled (rn_elastic env) \<longrightarrow> docs = []"
    using r(2) by (auto simp: told_def split: if_splits sum.splits)
  then show ?thesis
    using r(1) now by (intro exI [of _ docs] exI [of _ w2]) (simp add: report_exception_def putEngineException_def exceptions_index_def)
qed

lemma single_payload_stream: "\<exists>res. loadKeyedPayloadStream exec key single_payload ttl (pl, False) w = Some res"
proof -
  have stop: "pushKeyedStream exec single_payload key t n (pl, True) v = Some (Inr n, (pl, True), v)" for n t v
    by (subst pushKeyedStream.simps) (simp add: single_payload_def)
  have "\<exists>res. pushKeyedStream exec single_payload key (1000 * ttl) 0 (pl, False) w = Some res"
    by (subst pushKeyedStream.simps) (auto simp: single_payload_def stop split: prod.split sum.split)
  then show ?thesis unfolding loadKeyedPayloadStream_def by (metis option.simps(9))
qed

text \<open>Re-queueing always returns; its exception is reported.\<close>

lemma queueNextWindow_docs:
  "\<exists>docs w'. queueNextWindow env dec dbl config rung (p, w) = Some (queue_docs docs p, w')
     \<and> (elastic_disabled (rn_elastic env) \<longrightarrow> docs = []) \<and> map fst docs \<in> {[], [exceptions_index]}"
proof -
  have "\<exists>failed w1. try_queue_next env dec dbl config rung w = Some (failed, w1)"
  proof -
    obtain newRunId w0 where u: "el_uuid (rn_elastic env) w = (newRunId, w0)" by (metis surj_pair)
    show ?thesis
    proof (cases "dumped dbl (Inr (strategy_to_json (cf_STRATEGY config)))")
      case (Inl e)
      then show ?thesis using u by (simp add: try_queue_next_def)
    next
      case (Inr payload)
      obtain status s1 w1 where "loadKeyedPayloadStream (rn_exec env) (strategyKey newRunId) single_payload PAYLOAD_TTL_SECONDS
          (\<lparr>kp_key = strategyPayloadKey newRunId (sc_UUID (cf_STRATEGY config)), kp_rawJson = payload\<rparr>, False) w0
          = Some (status, s1, w1)"
        using single_payload_stream by (metis prod_cases3)
      then show ?thesis using u Inr by (auto simp: try_queue_next_def split: sum.split prod.split)
    qed
  qed
  then obtain failed w1 where f: "try_queue_next env dec dbl config rung w = Some (failed, w1)" by blast
  show ?thesis
  proof (cases failed)
    case None
    then show ?thesis using f by (intro exI [of _ "[]"] exI [of _ w1]) (simp add: queueNextWindow_def)
  next
    case (Some what)
    then show ?thesis
      using f report_exception_docs [of env dbl config "''rolling-window re-queue failed: '' @ what" p w1]
      by (simp add: queueNextWindow_def)
  qed
qed

lemma report_outcome_docs:
  "\<exists>docs w'. report_outcome D F env dec dbl config status tm seconds (p, w) = (queue_docs docs p, w')
     \<and> (if elastic_disabled (rn_elastic env) then docs = []
        else complete_or_cut (outcome_trail (rn_elastic env) config status tm) (map fst docs))"
proof -
  obtain res d1 w1 where r: "put_outcome D F env dec dbl config status tm seconds (p, w) = (res, queue_docs d1 p, w1)"
    "told (rn_elastic env) (outcome_trail (rn_elastic env) config status tm) res d1"
    by (rule reportsE [OF reports_outcome])
  show ?thesis
  proof (cases res)
    case (Inr u)
    then show ?thesis using r
      by (intro exI [of _ d1] exI [of _ w1]) (auto simp: report_outcome_def told_def complete_or_cut_def)
  next
    case (Inl e)
    obtain d2 w2 where d2: "report_exception env dbl config (rn_what env e) (queue_docs d1 p, w1) = (queue_docs d2 (queue_docs d1 p), w2)"
      "elastic_disabled (rn_elastic env) \<longrightarrow> d2 = []" "map fst d2 \<in> {[], [exceptions_index]}"
      using report_exception_docs [of env dbl config "rn_what env e" "queue_docs d1 p" w1] by (elim exE conjE) (rule that)
    have "complete_or_cut (outcome_trail (rn_elastic env) config status tm) (map fst (d1 @ d2))"
      if "\<not> elastic_disabled (rn_elastic env)"
      using that r(2) d2(3) Inl by (auto simp: told_def complete_or_cut_def)
    then show ?thesis
      using r d2(1,2) Inl
      by (intro exI [of _ "d1 @ d2"] exI [of _ w2]) (auto simp: report_outcome_def queue_docs_append)
  qed
qed


definition demo_config :: "int configuration" where
  "demo_config =
     \<lparr>rc_RUN_ID = ''r1'', rc_SYMBOLS = ''EURUSD,AUDUSD'', rc_BATCH = [], rc_EXECUTION_TS = [], rc_LAST_MONTHS = 3,
      rc_OFFSET_MONTHS = 0, rc_STARTING_BALANCE = 10000, rc_MAX_LOSS_PERCENT = 5, rc_MAX_OPEN_TRADES = 2,
      rc_MAX_TRADES_PER_MINUTE = 1, rc_REPORT_FAILURES = True, rc_PEAK_HOURS_ONLY = False,
      rc_ENTRY_SLIPPAGE_TENTH_PIPS = 0,
      cf_STRATEGY = factory_demo_config\<lparr>sc_TRADING_VARIABLES := demo_vars\<rparr>\<rparr>"

definition demo_env :: "((http_request \<times> curl_outcome) list \<times> string list, int) run_env" where
  "demo_env = \<lparr>rn_elastic = refusing_elastic, rn_exec = (\<lambda>_ w. (Inl [], w)), rn_elapsed = (\<lambda>w. (1, w)),
     rn_hostname = ''h'', rn_what = (\<lambda>_. [])\<rparr>"


end
