(* ===== verification/ExperimentConfig.thy ===== *)
theory ExperimentConfig
  imports ConfigCodec
begin

section \<open>Experiments\<close>

text \<open>
  \<open>shared/experiments/experimentConfig.hpp\<close> and \<open>experimentRunConfiguration.hpp\<close>: a chain of activities asked
  of the tick history, the run it is part of, their JSON, and the outcome of an evaluation. Doubles are
  the type \<open>'f\<close>. \<open>experiment_payload_round_trip\<close>: what the producer puts on the queue is what the
  analysis worker evaluates.
\<close>

datatype activity_type = DirectionalMove | StaysInBand | NewExtreme | RangeRelativeMove

definition activity_name :: "activity_type \<Rightarrow> string" where
  "activity_name t =
     (case t of DirectionalMove \<Rightarrow> ''DirectionalMove'' | StaysInBand \<Rightarrow> ''StaysInBand''
      | NewExtreme \<Rightarrow> ''NewExtreme'' | RangeRelativeMove \<Rightarrow> ''RangeRelativeMove'')"

definition activityTypeFromString :: "string \<Rightarrow> conv_error + activity_type" where
  "activityTypeFromString name =
     (if name = ''DirectionalMove'' then Inr DirectionalMove
      else if name = ''StaysInBand'' then Inr StaysInBand
      else if name = ''NewExtreme'' then Inr NewExtreme
      else if name = ''RangeRelativeMove'' then Inr RangeRelativeMove
      else Inl (Std_error (''experiments::activityTypeFromString: unknown ActivityType '' @ [CHR 0x27] @ name @ [CHR 0x27])))"

record 'f activity =
  ac_TYPE :: activity_type
  ac_MOVE_PERCENT :: 'f
  ac_WINDOW_SECONDS :: int
  ac_LOOKBACK_SECONDS :: int
  ac_DIRECTION :: int
  ac_ATR_MULTIPLE :: 'f

definition activity_to_json :: "'f activity \<Rightarrow> 'f json" where
  "activity_to_json a = json_init
     [(''TYPE'', JString (activity_name (ac_TYPE a))), (''MOVE_PERCENT'', JFloat (ac_MOVE_PERCENT a)),
      (''WINDOW_SECONDS'', JInteger (ac_WINDOW_SECONDS a)), (''LOOKBACK_SECONDS'', JInteger (ac_LOOKBACK_SECONDS a)),
      (''DIRECTION'', JInteger (ac_DIRECTION a)), (''ATR_MULTIPLE'', JFloat (ac_ATR_MULTIPLE a))]"

definition activity_from_json :: "'f num_text \<Rightarrow> 'f json \<Rightarrow> conv_error + 'f activity" where
  "activity_from_json nums j =
     (let int_of = get_int_of (conv_of nums); double_of = get_double_of (conv_of nums); zero = dbl_of_int nums 0 in
      bind (bind (bind (json_at j ''TYPE'') get_string_of) activityTypeFromString) (\<lambda>t.
      bind (json_value double_of j ''MOVE_PERCENT'' zero) (\<lambda>move.
      bind (json_value int_of j ''WINDOW_SECONDS'' 0) (\<lambda>window.
      bind (json_value int_of j ''LOOKBACK_SECONDS'' 0) (\<lambda>lookback.
      bind (json_value int_of j ''DIRECTION'' 0) (\<lambda>dir.
      bind (json_value double_of j ''ATR_MULTIPLE'' zero) (\<lambda>atr.
        Inr \<lparr>ac_TYPE = t, ac_MOVE_PERCENT = move, ac_WINDOW_SECONDS = window, ac_LOOKBACK_SECONDS = lookback,
             ac_DIRECTION = dir, ac_ATR_MULTIPLE = atr\<rparr>)))))))"

record 'f experiment_config =
  xc_UUID :: string
  xc_NAME :: string
  xc_CHAIN :: "'f activity list"

definition experiment_to_json :: "'f experiment_config \<Rightarrow> 'f json" where
  "experiment_to_json c = json_init
     [(''UUID'', JString (xc_UUID c)), (''NAME'', JString (xc_NAME c)), (''CHAIN'', JArray (map activity_to_json (xc_CHAIN c)))]"

definition experiment_from_json :: "'f num_text \<Rightarrow> 'f json \<Rightarrow> conv_error + 'f experiment_config" where
  "experiment_from_json nums j =
     bind (bind (json_at j ''UUID'') get_string_of) (\<lambda>uuid.
     bind (bind (json_at j ''CHAIN'') (get_array_of (activity_from_json nums))) (\<lambda>chain.
     bind (json_value get_string_of j ''NAME'' []) (\<lambda>name.
       Inr \<lparr>xc_UUID = uuid, xc_NAME = name, xc_CHAIN = chain\<rparr>)))"

record experiment_run =
  xr_RUN_ID :: string
  xr_SYMBOLS :: string
  xr_BATCH :: string
  xr_EXECUTION_TS :: string
  xr_LAST_MONTHS :: int
  xr_OFFSET_MONTHS :: int

definition experiment_run_to_json :: "experiment_run \<Rightarrow> 'f json" where
  "experiment_run_to_json c = json_init
     [(''RUN_ID'', JString (xr_RUN_ID c)), (''SYMBOLS'', JString (xr_SYMBOLS c)), (''BATCH'', JString (xr_BATCH c)),
      (''EXECUTION_TS'', JString (xr_EXECUTION_TS c)), (''LAST_MONTHS'', JInteger (xr_LAST_MONTHS c)),
      (''OFFSET_MONTHS'', JInteger (xr_OFFSET_MONTHS c))]"

definition experiment_run_from_json :: "'f num_text \<Rightarrow> 'f json \<Rightarrow> conv_error + experiment_run" where
  "experiment_run_from_json nums j =
     (let int_of = get_int_of (conv_of nums) in
      bind (bind (json_at j ''RUN_ID'') get_string_of) (\<lambda>run_id.
      bind (bind (json_at j ''SYMBOLS'') get_string_of) (\<lambda>symbols.
      bind (bind (json_at j ''LAST_MONTHS'') int_of) (\<lambda>months.
      bind (json_value get_string_of j ''BATCH'' []) (\<lambda>batch.
      bind (json_value get_string_of j ''EXECUTION_TS'' []) (\<lambda>ts.
      bind (json_value int_of j ''OFFSET_MONTHS'' 0) (\<lambda>offset.
        Inr \<lparr>xr_RUN_ID = run_id, xr_SYMBOLS = symbols, xr_BATCH = batch, xr_EXECUTION_TS = ts,
             xr_LAST_MONTHS = months, xr_OFFSET_MONTHS = offset\<rparr>)))))))"

definition parseExperimentFromBase64 :: "'f num_text \<Rightarrow> string \<Rightarrow> conv_error + 'f experiment_config" where
  "parseExperimentFromBase64 nums = parse_base64 nums (experiment_from_json nums)"

definition parseExperimentRunFromBase64 :: "'f num_text \<Rightarrow> string \<Rightarrow> conv_error + experiment_run" where
  "parseExperimentRunFromBase64 nums = parse_base64 nums (experiment_run_from_json nums)"

subsection \<open>What an evaluation returns\<close>

record 'f quantile_pair =
  q_p50 :: 'f
  q_p90 :: 'f

record 'f excursion_stats =
  xs_samples :: nat
  xs_mfePoints :: "'f quantile_pair"
  xs_maePoints :: "'f quantile_pair"
  xs_mfePercent :: "'f quantile_pair"
  xs_maePercent :: "'f quantile_pair"

record 'f symbol_outcome =
  so_occurrences :: nat
  so_ticksScanned :: nat
  so_daysSpanned :: 'f

text \<open>The maps are association lists in the order of their keys.\<close>

record 'f experiment_outcome =
  xo_occurrences :: nat
  xo_ticksScanned :: nat
  xo_daysSpanned :: 'f
  xo_attempts :: nat
  xo_failuresByLeg :: "nat list"
  xo_occurrencesByMonth :: "(string \<times> nat) list"
  xo_occurrencesByHourUtc :: "nat list"
  xo_perSymbol :: "(string \<times> 'f symbol_outcome) list"
  xo_occurrencesBySymbol :: "(string \<times> nat) list"
  xo_completedAttempts :: "'f excursion_stats option"
  xo_failedAttempts :: "'f excursion_stats option"
  xo_completionSeconds :: "'f quantile_pair option"
  xo_meanSpreadAtTriggerPoints :: "'f option"
  xo_excursionOrientation :: string
  xo_samplesTruncated :: bool

subsection \<open>The round trips\<close>

definition activity_ok :: "'f num_text \<Rightarrow> 'f activity \<Rightarrow> bool" where
  "activity_ok nums a \<longleftrightarrow>
     list_all (float_text (ops_of nums)) [ac_MOVE_PERCENT a, ac_ATR_MULTIPLE a]
     \<and> list_all in_i32 [ac_WINDOW_SECONDS a, ac_LOOKBACK_SECONDS a, ac_DIRECTION a]"

definition experiment_ok :: "'f num_text \<Rightarrow> 'f experiment_config \<Rightarrow> bool" where
  "experiment_ok nums c \<longleftrightarrow> list_all utf8 [xc_UUID c, xc_NAME c] \<and> list_all (activity_ok nums) (xc_CHAIN c)"

definition experiment_run_ok :: "experiment_run \<Rightarrow> bool" where
  "experiment_run_ok c \<longleftrightarrow> list_all utf8 [xr_RUN_ID c, xr_SYMBOLS c, xr_BATCH c, xr_EXECUTION_TS c]
     \<and> list_all in_i32 [xr_LAST_MONTHS c, xr_OFFSET_MONTHS c]"

lemma activity_name_read [simp]: "activityTypeFromString (activity_name t) = Inr t"
  by (cases t) (simp_all add: activityTypeFromString_def activity_name_def)

lemma activity_name_utf8: "utf8 (activity_name t)"
  by (cases t) (simp_all add: activity_name_def utf8_ascii)

lemma float_canonical: "canonical dbl (parsed_as (JFloat x)) = float_text dbl x"
  by simp

lemma activity_codec:
  assumes "activity_ok nums a"
  shows "activity_from_json nums (parsed_as (activity_to_json a)) = Inr a"
    and "canonical (ops_of nums) (parsed_as (activity_to_json a))"
proof -
  have s: "get_string_of (parsed_as (JString t)) = Inr t" "get_double_of conv (parsed_as (JFloat x)) = Inr x"
    for t conv and x :: 'a
    by (simp_all add: get_string_of_def get_double_of_def)
  show "activity_from_json nums (parsed_as (activity_to_json a)) = Inr a"
    using assms
    by (simp add: activity_from_json_def activity_to_json_def Let_def parsed_init s int_read activity_ok_def
        del: parsed_as.simps)
  show "canonical (ops_of nums) (parsed_as (activity_to_json a))"
    unfolding activity_to_json_def
    by (rule canonical_init)
      (use assms in \<open>simp add: activity_ok_def entries_ok_simps int_canonical float_canonical
        string_canonical activity_name_utf8 del: parsed_as.simps canonical.simps\<close>)
qed

lemma experiment_codec:
  assumes "experiment_ok nums c"
  shows "experiment_from_json nums (parsed_as (experiment_to_json c)) = Inr c"
    and "canonical (ops_of nums) (parsed_as (experiment_to_json c))"
proof -
  have acts: "\<And>a. a \<in> set (xc_CHAIN c) \<Longrightarrow> activity_ok nums a"
    using assms by (simp add: experiment_ok_def list_all_iff)
  have arr: "get_array_of (activity_from_json nums) (parsed_as (JArray (map activity_to_json (xc_CHAIN c)))) = Inr (xc_CHAIN c)"
    by (rule array_read) (rule activity_codec(1) [OF acts])
  have can: "canonical (ops_of nums) (parsed_as (JArray (map activity_to_json (xc_CHAIN c))))"
    by (rule canonical_array) (simp add: list_all_iff activity_codec(2) acts del: parsed_as.simps canonical.simps)
  have s: "get_string_of (parsed_as (JString t)) = Inr t" for t
    by (simp add: get_string_of_def)
  show "experiment_from_json nums (parsed_as (experiment_to_json c)) = Inr c"
    by (simp add: experiment_from_json_def experiment_to_json_def parsed_init s arr del: parsed_as.simps)
  show "canonical (ops_of nums) (parsed_as (experiment_to_json c))"
    unfolding experiment_to_json_def
    by (rule canonical_init)
      (use assms can in \<open>simp add: experiment_ok_def entries_ok_simps string_canonical del: parsed_as.simps canonical.simps\<close>)
qed

text \<open>An experiment dumped and base64 encoded onto the queue is parsed by the analysis worker as exactly
  the same chain: every activity with its type and all its knobs, the thresholds to the last bit, whenever
  the text of a double reads back as the double.\<close>

lemma experiment_payload_round_trip:
  assumes "experiment_ok nums c"
  shows "\<exists>text. json_dump (ops_of nums) (experiment_to_json c) = Inr text
           \<and> parseExperimentFromBase64 nums (b64_text text) = Inr c"
  unfolding parseExperimentFromBase64_def
  by (rule payload_round_trip) (rule experiment_codec [OF assms])+

definition dip_recovery :: "int experiment_config" where
  "dip_recovery =
     \<lparr>xc_UUID = ''e-1'', xc_NAME = ''dipRecovery'',
      xc_CHAIN = [\<lparr>ac_TYPE = DirectionalMove, ac_MOVE_PERCENT = - 1, ac_WINDOW_SECONDS = 600, ac_LOOKBACK_SECONDS = 0,
                   ac_DIRECTION = 0, ac_ATR_MULTIPLE = 0\<rparr>,
                  \<lparr>ac_TYPE = StaysInBand, ac_MOVE_PERCENT = 1, ac_WINDOW_SECONDS = 600, ac_LOOKBACK_SECONDS = 60,
                   ac_DIRECTION = 0, ac_ATR_MULTIPLE = 0\<rparr>]\<rparr>"

text \<open>Integers for the doubles, written with a decimal point.\<close>

definition point_nums :: "int num_text" where
  "point_nums = int_nums\<lparr>dbl_to_chars := (\<lambda>n. int_dec n @ ''.0''),
     dbl_strtod := (\<lambda>s. read_dec (takeWhile (\<lambda>c. c \<noteq> CHR ''.'') s))\<rparr>"

lemma dip_recovery_ok: "experiment_ok point_nums dip_recovery"
proof -
  have "float_text (ops_of point_nums) x" if "x \<in> {- 1, 0, 1}" for x
    using that by (elim insertE emptyE; hypsubst; code_simp)
  then show ?thesis
    by (simp add: experiment_ok_def activity_ok_def dip_recovery_def in_i32_def utf8_ascii)
qed

lemma dip_recovery_round_trip:
  "experiment_ok point_nums dip_recovery
   \<and> (\<exists>text. json_dump (ops_of point_nums) (experiment_to_json dip_recovery) = Inr text
        \<and> parseExperimentFromBase64 point_nums (b64_text text) = Inr dip_recovery)"
  using experiment_payload_round_trip [OF dip_recovery_ok] dip_recovery_ok by blast

lemma run_of_experiment_codec:
  assumes "experiment_run_ok c"
  shows "\<exists>text. json_dump (ops_of nums) (experiment_run_to_json c) = Inr text
           \<and> parseExperimentRunFromBase64 nums (b64_text text) = Inr c"
  unfolding parseExperimentRunFromBase64_def
proof (rule payload_round_trip)
  have s: "get_string_of (parsed_as (JString t)) = Inr t" for t
    by (simp add: get_string_of_def)
  show "experiment_run_from_json nums (parsed_as (experiment_run_to_json c)) = Inr c"
    using assms
    by (simp add: experiment_run_from_json_def experiment_run_to_json_def Let_def parsed_init s int_read
        experiment_run_ok_def del: parsed_as.simps)
  show "canonical (ops_of nums) (parsed_as (experiment_run_to_json c))"
    unfolding experiment_run_to_json_def
    by (rule canonical_init)
      (use assms in \<open>simp add: experiment_run_ok_def entries_ok_simps int_canonical string_canonical
        del: parsed_as.simps canonical.simps\<close>)
qed

end
