(* ===== verification/ChainMatcher.thy ===== *)
theory ChainMatcher
  imports ExperimentConfig RangeBar Timestamps
begin

section \<open>Counting chains of activities\<close>

text \<open>
  \<open>shared/experiments/chainMatcher.cppm\<close>: one state machine per symbol looks for an experiment's chain in the
  ticks. Rolling windows are deques that expire by time, times and durations are microseconds.
  Dereferencing an empty optional, the front of an empty deque and an index out of range are
  undefined behaviour, an error value. \<open>tracker_is_trailing_window\<close>: the deques give the extremes and
  the coverage of the trailing window. \<open>matcher_accounts_for_attempts\<close>: an accepted chain is replayed over
  any ticks, and every attempt it started is a match, a failure of one leg, or still in flight.
\<close>

record ('d, 'f) chain_ops = "('d, 'f) float_ops" +
  f_llround :: "'f \<Rightarrow> int"
  f_ceil :: "'f \<Rightarrow> int"

subsection \<open>Trailing windows\<close>

record tracker =
  tk_window :: int
  tk_maxDeque :: "(time \<times> int) list"
  tk_minDeque :: "(time \<times> int) list"
  tk_gapDeque :: "(time \<times> int) list"
  tk_lastTick :: "time option"
  tk_preMax :: "int option"
  tk_preMin :: "int option"

definition seconds_us :: "int \<Rightarrow> int" where
  "seconds_us n = n * 1000000"

definition new_tracker :: "int \<Rightarrow> tracker" where
  "new_tracker window =
     \<lparr>tk_window = seconds_us window, tk_maxDeque = [], tk_minDeque = [], tk_gapDeque = [], tk_lastTick = None,
      tk_preMax = None, tk_preMin = None\<rparr>"

text \<open>\<open>duration::max()\<close>: the gap before the first tick.\<close>

definition kMaxDuration :: int where
  "kMaxDuration = 9223372036854775807"

definition expired :: "int \<Rightarrow> time \<Rightarrow> (time \<times> int) list \<Rightarrow> (time \<times> int) list" where
  "expired window ts deque = dropWhile (\<lambda>e. fst e + window < ts) deque"

definition front_price :: "(time \<times> int) list \<Rightarrow> int option" where
  "front_price deque = (case deque of [] \<Rightarrow> None | e # _ \<Rightarrow> Some (snd e))"

definition tracker_feed :: "time \<Rightarrow> int \<Rightarrow> tracker \<Rightarrow> tracker" where
  "tracker_feed ts mid tk =
     (let maxDeque = expired (tk_window tk) ts (tk_maxDeque tk);
          minDeque = expired (tk_window tk) ts (tk_minDeque tk);
          gapDeque = expired (tk_window tk) ts (tk_gapDeque tk);
          gap = (case tk_lastTick tk of Some t \<Rightarrow> ts - t | None \<Rightarrow> kMaxDuration) in
      tk\<lparr>tk_maxDeque := deque_push (\<le>) maxDeque ts mid, tk_minDeque := deque_push (\<ge>) minDeque ts mid,
         tk_gapDeque := deque_push (\<le>) gapDeque ts gap, tk_lastTick := Some ts,
         tk_preMax := front_price maxDeque, tk_preMin := front_price minDeque\<rparr>)"

definition hasData :: "tracker \<Rightarrow> bool" where
  "hasData tk \<longleftrightarrow> tk_maxDeque tk \<noteq> []"

definition front_of :: "(time \<times> int) list \<Rightarrow> int result" where
  "front_of deque = (case deque of [] \<Rightarrow> Inl UndefinedBehaviour | e # _ \<Rightarrow> Inr (snd e))"

definition tracker_max :: "tracker \<Rightarrow> int result" where
  "tracker_max tk = front_of (tk_maxDeque tk)"

definition tracker_min :: "tracker \<Rightarrow> int result" where
  "tracker_min tk = front_of (tk_minDeque tk)"

definition covered :: "tracker \<Rightarrow> bool" where
  "covered tk \<longleftrightarrow> (case tk_gapDeque tk of [] \<Rightarrow> False | e # _ \<Rightarrow> snd e < tk_window tk)"

definition tracker_reset :: "tracker \<Rightarrow> tracker" where
  "tracker_reset tk =
     tk\<lparr>tk_maxDeque := [], tk_minDeque := [], tk_gapDeque := [], tk_lastTick := None, tk_preMax := None, tk_preMin := None\<rparr>"

subsection \<open>The matcher of one symbol\<close>

definition kMaxAttemptSamples :: nat where
  "kMaxAttemptSamples = 100000"

record excursion_sample =
  ex_abovePoints :: int
  ex_belowPoints :: int
  ex_anchorMid :: int

record match_stats =
  ms_occurrences :: nat
  ms_attempts :: nat
  ms_failuresByLeg :: "nat list"
  ms_completedExcursions :: "excursion_sample list"
  ms_failedExcursions :: "excursion_sample list"
  ms_completionSeconds :: "int list"
  ms_spreadAtTriggerSum :: int
  ms_spreadAtTriggerCount :: nat
  ms_samplesTruncated :: bool

record leg_runtime =
  lg_type :: activity_type
  lg_window :: int
  lg_pctScaled :: int
  lg_negativeMove :: bool
  lg_direction :: int
  lg_atrScaled :: int
  lg_moveTracker :: "tracker option"
  lg_basisTracker :: "tracker option"

record chain_matcher =
  cm_legs :: "leg_runtime list"
  cm_stats :: match_stats
  cm_maxSamples :: nat
  cm_active :: nat
  cm_anchorMid :: int
  cm_anchorTs :: time
  cm_anchorThreshold :: int
  cm_anchorThresholdValid :: bool
  cm_attemptAnchorMid :: int
  cm_attemptAnchorTs :: time
  cm_attemptAbove :: int
  cm_attemptBelow :: int

definition ensure :: "bool \<Rightarrow> string \<Rightarrow> string + unit" where
  "ensure ok message = (if ok then Inr () else Inl message)"

definition make_leg :: "('d, 'f, 'y) chain_ops_scheme \<Rightarrow> 'f activity \<Rightarrow> nat \<Rightarrow> string + leg_runtime" where
  "make_leg F a index =
     (let leg = \<lparr>lg_type = ac_TYPE a, lg_window = seconds_us (ac_WINDOW_SECONDS a), lg_pctScaled = 0,
                 lg_negativeMove = False, lg_direction = 0, lg_atrScaled = 0, lg_moveTracker = None,
                 lg_basisTracker = None\<rparr>;
          zero = f_lit F 0 1;
          scaled = (\<lambda>x. f_llround F (f_mult F x (f_lit F 1000000 1)));
          needs = (\<lambda>ok what. ensure ok (''ChainMatcher: leg '' @ nat_dec (Suc index) @ '' ('' @ activity_name (ac_TYPE a)
                                        @ '') requires '' @ what));
          positive = (\<lambda>n field. needs (n \<ge> 1) (field @ '' >= 1''));
          oriented = needs (ac_DIRECTION a = 1 \<or> ac_DIRECTION a = - 1) ''DIRECTION of +1 or -1'' in
      case ac_TYPE a of
        DirectionalMove \<Rightarrow>
          bind (needs (\<not> f_eq F (ac_MOVE_PERCENT a) zero) ''a non-zero MOVE_PERCENT'') (\<lambda>_.
          bind (positive (ac_WINDOW_SECONDS a) ''WINDOW_SECONDS'') (\<lambda>_.
            Inr (leg\<lparr>lg_negativeMove := f_less F (ac_MOVE_PERCENT a) zero,
                     lg_pctScaled := scaled (f_abs F (ac_MOVE_PERCENT a)),
                     lg_moveTracker := (if index = 0 then Some (new_tracker (ac_WINDOW_SECONDS a)) else None)\<rparr>)))
      | StaysInBand \<Rightarrow>
          bind (needs (\<not> f_eq F (ac_MOVE_PERCENT a) zero) ''a non-zero MOVE_PERCENT (band width)'') (\<lambda>_.
          let bandSeconds = (if ac_LOOKBACK_SECONDS a > 0 then ac_LOOKBACK_SECONDS a else ac_WINDOW_SECONDS a) in
          bind (positive bandSeconds ''LOOKBACK_SECONDS (or WINDOW_SECONDS)'') (\<lambda>_.
          bind (if index > 0 then positive (ac_WINDOW_SECONDS a) ''WINDOW_SECONDS'' else Inr ()) (\<lambda>_.
            Inr (leg\<lparr>lg_pctScaled := scaled (f_abs F (ac_MOVE_PERCENT a)),
                     lg_basisTracker := Some (new_tracker bandSeconds)\<rparr>))))
      | NewExtreme \<Rightarrow>
          bind (positive (ac_LOOKBACK_SECONDS a) ''LOOKBACK_SECONDS'') (\<lambda>_.
          bind oriented (\<lambda>_.
          bind (if index > 0 then positive (ac_WINDOW_SECONDS a) ''WINDOW_SECONDS'' else Inr ()) (\<lambda>_.
            Inr (leg\<lparr>lg_direction := ac_DIRECTION a, lg_basisTracker := Some (new_tracker (ac_LOOKBACK_SECONDS a))\<rparr>))))
      | RangeRelativeMove \<Rightarrow>
          bind (positive (ac_LOOKBACK_SECONDS a) ''LOOKBACK_SECONDS'') (\<lambda>_.
          bind (positive (ac_WINDOW_SECONDS a) ''WINDOW_SECONDS'') (\<lambda>_.
          bind oriented (\<lambda>_.
          bind (needs (\<not> f_leq F (ac_ATR_MULTIPLE a) zero) ''ATR_MULTIPLE > 0'') (\<lambda>_.
            Inr (leg\<lparr>lg_direction := ac_DIRECTION a, lg_atrScaled := scaled (ac_ATR_MULTIPLE a),
                     lg_basisTracker := Some (new_tracker (ac_LOOKBACK_SECONDS a)),
                     lg_moveTracker := (if index = 0 then Some (new_tracker (ac_WINDOW_SECONDS a)) else None)\<rparr>))))))"

fun make_legs :: "('d, 'f, 'y) chain_ops_scheme \<Rightarrow> 'f activity list \<Rightarrow> nat \<Rightarrow> string + leg_runtime list" where
  "make_legs F [] index = Inr []"
| "make_legs F (a # chain) index =
     bind (make_leg F a index) (\<lambda>leg. bind (make_legs F chain (Suc index)) (\<lambda>legs. Inr (leg # legs)))"

definition new_stats :: "nat \<Rightarrow> match_stats" where
  "new_stats n =
     \<lparr>ms_occurrences = 0, ms_attempts = 0, ms_failuresByLeg = replicate n 0, ms_completedExcursions = [],
      ms_failedExcursions = [], ms_completionSeconds = [], ms_spreadAtTriggerSum = 0, ms_spreadAtTriggerCount = 0,
      ms_samplesTruncated = False\<rparr>"

definition new_matcher ::
  "('d, 'f, 'y) chain_ops_scheme \<Rightarrow> 'f experiment_config \<Rightarrow> nat \<Rightarrow> string + chain_matcher" where
  "new_matcher F config maxAttemptSamples =
     (if xc_CHAIN config = [] then Inl ''ChainMatcher: CHAIN must not be empty''
      else bind (make_legs F (xc_CHAIN config) 0) (\<lambda>legs.
        Inr \<lparr>cm_legs = legs, cm_stats = new_stats (length legs), cm_maxSamples = maxAttemptSamples, cm_active = 0,
             cm_anchorMid = 0, cm_anchorTs = 0, cm_anchorThreshold = 0, cm_anchorThresholdValid = False,
             cm_attemptAnchorMid = 0, cm_attemptAnchorTs = 0, cm_attemptAbove = 0, cm_attemptBelow = 0\<rparr>))"

definition rangeThreshold :: "int \<Rightarrow> int \<Rightarrow> int" where
  "rangeThreshold range' atrScaled = max 1 (cdiv (i64 (i64 (range' * atrScaled) + 500000)) 1000000)"

definition tracker_of :: "tracker option \<Rightarrow> tracker result" where
  "tracker_of t = (case t of None \<Rightarrow> Inl UndefinedBehaviour | Some tk \<Rightarrow> Inr tk)"

text \<open>A move of \<open>points\<close> from the price \<open>from\<close> reaches the percentage.\<close>

definition moved :: "int \<Rightarrow> int \<Rightarrow> int \<Rightarrow> bool" where
  "moved points from' pctScaled \<longleftrightarrow> i64 (points * 100000000) \<ge> i64 (from' * pctScaled)"

definition tracker_range :: "tracker \<Rightarrow> int result" where
  "tracker_range tk = bind (tracker_max tk) (\<lambda>hi. bind (tracker_min tk) (\<lambda>lo. Inr (hi - lo)))"

definition conditionHolds :: "chain_matcher \<Rightarrow> nat \<Rightarrow> int \<Rightarrow> bool result" where
  "conditionHolds m index cur =
     (if index \<ge> length (cm_legs m) then Inl UndefinedBehaviour
      else let leg = cm_legs m ! index in
      case lg_type leg of
        DirectionalMove \<Rightarrow>
          if index = 0 then
            bind (tracker_of (lg_moveTracker leg)) (\<lambda>roll.
              if \<not> hasData roll then Inr False
              else if lg_negativeMove leg then
                bind (tracker_max roll) (\<lambda>rollMax. Inr (moved (rollMax - cur) rollMax (lg_pctScaled leg)))
              else bind (tracker_min roll) (\<lambda>rollMin. Inr (moved (cur - rollMin) rollMin (lg_pctScaled leg))))
          else Inr (if lg_negativeMove leg then moved (cm_anchorMid m - cur) (cm_anchorMid m) (lg_pctScaled leg)
                    else moved (cur - cm_anchorMid m) (cm_anchorMid m) (lg_pctScaled leg))
      | StaysInBand \<Rightarrow>
          bind (tracker_of (lg_basisTracker leg)) (\<lambda>basis.
            if \<not> covered basis then Inr False
            else bind (tracker_range basis) (\<lambda>r. Inr (i64 (r * 100000000) \<le> i64 (cur * lg_pctScaled leg))))
      | NewExtreme \<Rightarrow>
          bind (tracker_of (lg_basisTracker leg)) (\<lambda>basis.
            if \<not> covered basis then Inr False
            else Inr (if lg_direction leg > 0
                      then (case tk_preMax basis of None \<Rightarrow> False | Some p \<Rightarrow> cur > p)
                      else (case tk_preMin basis of None \<Rightarrow> False | Some p \<Rightarrow> cur < p)))
      | RangeRelativeMove \<Rightarrow>
          if index = 0 then
            bind (tracker_of (lg_basisTracker leg)) (\<lambda>basis.
              if \<not> covered basis then Inr False
              else bind (tracker_range basis) (\<lambda>r.
                let threshold = rangeThreshold r (lg_atrScaled leg) in
                bind (tracker_of (lg_moveTracker leg)) (\<lambda>roll.
                  if lg_direction leg < 0 then bind (tracker_max roll) (\<lambda>rollMax. Inr (rollMax - cur \<ge> threshold))
                  else bind (tracker_min roll) (\<lambda>rollMin. Inr (cur - rollMin \<ge> threshold)))))
          else Inr (cm_anchorThresholdValid m
                    \<and> (if lg_direction leg < 0 then cm_anchorMid m - cur \<ge> cm_anchorThreshold m
                       else cur - cm_anchorMid m \<ge> cm_anchorThreshold m)))"

definition record_attempt :: "bool \<Rightarrow> time \<Rightarrow> chain_matcher \<Rightarrow> chain_matcher" where
  "record_attempt completed ts m =
     (let s = cm_stats m;
          samples = (if completed then ms_completedExcursions s else ms_failedExcursions s);
          sample = \<lparr>ex_abovePoints = cm_attemptAbove m, ex_belowPoints = cm_attemptBelow m,
                    ex_anchorMid = i32 (cm_attemptAnchorMid m)\<rparr> in
      if length samples \<ge> cm_maxSamples m then m\<lparr>cm_stats := s\<lparr>ms_samplesTruncated := True\<rparr>\<rparr>
      else if completed then
        m\<lparr>cm_stats := s\<lparr>ms_completedExcursions := samples @ [sample],
                        ms_completionSeconds := ms_completionSeconds s @ [cdiv (ts - cm_attemptAnchorTs m) 1000000]\<rparr>\<rparr>
      else m\<lparr>cm_stats := s\<lparr>ms_failedExcursions := samples @ [sample]\<rparr>\<rparr>)"

definition on_trackers :: "(tracker \<Rightarrow> tracker) \<Rightarrow> leg_runtime \<Rightarrow> leg_runtime" where
  "on_trackers f leg =
     leg\<lparr>lg_moveTracker := map_option f (lg_moveTracker leg), lg_basisTracker := map_option f (lg_basisTracker leg)\<rparr>"

definition resetAfterMatch :: "chain_matcher \<Rightarrow> chain_matcher" where
  "resetAfterMatch m = m\<lparr>cm_active := 0, cm_legs := map (on_trackers tracker_reset) (cm_legs m)\<rparr>"

text \<open>A first leg completed: the attempt and its recorder start.\<close>

definition arm_attempt :: "int \<Rightarrow> int \<Rightarrow> time \<Rightarrow> chain_matcher \<Rightarrow> chain_matcher" where
  "arm_attempt mid spread ts m =
     m\<lparr>cm_stats := (cm_stats m)\<lparr>ms_attempts := ms_attempts (cm_stats m) + 1,
         ms_spreadAtTriggerSum := i64 (ms_spreadAtTriggerSum (cm_stats m) + spread),
         ms_spreadAtTriggerCount := ms_spreadAtTriggerCount (cm_stats m) + 1\<rparr>,
       cm_attemptAnchorMid := mid, cm_attemptAnchorTs := ts, cm_attemptAbove := 0, cm_attemptBelow := 0\<rparr>"

definition completeActiveLeg :: "int \<Rightarrow> int \<Rightarrow> time \<Rightarrow> chain_matcher \<Rightarrow> chain_matcher result" where
  "completeActiveLeg mid spread ts m =
     (let m = (if cm_active m = 0 then arm_attempt mid spread ts m else m) in
      if cm_active m + 1 = length (cm_legs m) then
        Inr (resetAfterMatch (record_attempt True ts
               (m\<lparr>cm_stats := (cm_stats m)\<lparr>ms_occurrences := ms_occurrences (cm_stats m) + 1\<rparr>\<rparr>)))
      else
        let m = m\<lparr>cm_active := cm_active m + 1, cm_anchorMid := mid, cm_anchorTs := ts\<rparr> in
        if cm_active m \<ge> length (cm_legs m) then Inl UndefinedBehaviour
        else let leg = cm_legs m ! cm_active m in
        if lg_type leg = RangeRelativeMove then
          bind (tracker_of (lg_basisTracker leg)) (\<lambda>basis.
            if covered basis then
              bind (tracker_range basis) (\<lambda>r.
                Inr (m\<lparr>cm_anchorThresholdValid := True, cm_anchorThreshold := rangeThreshold r (lg_atrScaled leg)\<rparr>))
            else Inr (m\<lparr>cm_anchorThresholdValid := False, cm_anchorThreshold := 0\<rparr>))
        else Inr m)"

definition scan_first :: "int \<Rightarrow> int \<Rightarrow> time \<Rightarrow> chain_matcher \<Rightarrow> chain_matcher result" where
  "scan_first mid spread ts m =
     bind (conditionHolds m 0 mid) (\<lambda>holds. if holds then completeActiveLeg mid spread ts m else Inr m)"

definition expire_attempt :: "time \<Rightarrow> chain_matcher \<Rightarrow> chain_matcher" where
  "expire_attempt ts m =
     (let m = record_attempt False ts m; fs = ms_failuresByLeg (cm_stats m) in
      m\<lparr>cm_stats := (cm_stats m)\<lparr>ms_failuresByLeg := fs[cm_active m := fs ! cm_active m + 1]\<rparr>, cm_active := 0\<rparr>)"

definition on_tick :: "int \<Rightarrow> int \<Rightarrow> time \<Rightarrow> chain_matcher \<Rightarrow> chain_matcher result" where
  "on_tick mid spread ts m =
     (let m = m\<lparr>cm_legs := map (on_trackers (tracker_feed ts mid)) (cm_legs m)\<rparr> in
      if cm_active m > 0 then
        let m = m\<lparr>cm_attemptAbove := max (cm_attemptAbove m) (mid - cm_attemptAnchorMid m),
                  cm_attemptBelow := max (cm_attemptBelow m) (cm_attemptAnchorMid m - mid)\<rparr> in
        if cm_active m \<ge> length (cm_legs m) then Inl UndefinedBehaviour
        else if ts - cm_anchorTs m > lg_window (cm_legs m ! cm_active m)
          then scan_first mid spread ts (expire_attempt ts m)
        else bind (conditionHolds m (cm_active m) mid) (\<lambda>holds.
          if holds then completeActiveLeg mid spread ts m else Inr m)
      else scan_first mid spread ts m)"

subsection \<open>A window of time\<close>

text \<open>The entries a window keeps at the time \<open>ts\<close>, and the gap before each tick.\<close>

definition kept :: "int \<Rightarrow> time \<Rightarrow> (time \<times> int) list \<Rightarrow> (time \<times> int) list" where
  "kept w ts xs = dropWhile (\<lambda>e. fst e + w < ts) xs"

lemma kept_snoc [simp]: "0 \<le> w \<Longrightarrow> kept w ts (es @ [(ts, x)]) = kept w ts es @ [(ts, x)]"
  unfolding kept_def by (induction es) auto

fun gaps :: "time option \<Rightarrow> (time \<times> int) list \<Rightarrow> (time \<times> int) list" where
  "gaps l [] = []"
| "gaps l ((t, m) # xs) = (t, case l of Some p \<Rightarrow> t - p | None \<Rightarrow> kMaxDuration) # gaps (Some t) xs"

definition feed_all :: "(time \<times> int) list \<Rightarrow> tracker \<Rightarrow> tracker" where
  "feed_all ticks tk = fold (\<lambda>(ts, mid). tracker_feed ts mid) ticks tk"

text \<open>A deque that drops what a condition holds of, where the condition holds of a prefix.\<close>

context deque_order
begin

lemma beaters_dropWhile_prefix:
  assumes "sorted_wrt (\<lambda>e f. P f \<longrightarrow> P e) es"
  shows "dropWhile P (beaters pops es) = beaters pops (dropWhile P es)"
  using assms
proof (induction es)
  case (Cons e es)
  show ?case
  proof (cases "P e")
    case False
    have "dropWhile P (beaters pops es) = beaters pops es"
      using Cons.prems False set_beaters [of es] by (cases "beaters pops es") auto
    with False show ?thesis by simp
  qed (use Cons in simp)
qed simp

lemma window_expire:
  assumes "sorted_wrt (\<lambda>e f. fst e \<le> fst f) es" "t \<le> ts"
  shows "expired w ts (beaters pops (kept w t es)) = beaters pops (kept w ts es)"
proof -
  have sorted: "sorted_wrt (\<lambda>e f. fst e \<le> fst f) (kept w t es)"
    using assms(1) unfolding kept_def by (metis sorted_wrt_append takeWhile_dropWhile_id)
  have later: "dropWhile (\<lambda>e. fst e + w < ts) (kept w t es) = kept w ts es"
    unfolding kept_def using assms(2) by (induction es) auto
  have "sorted_wrt (\<lambda>e f. fst f + w < ts \<longrightarrow> fst e + w < ts) (kept w t es)"
    by (rule sorted_wrt_mono_rel [OF _ sorted]) simp
  then show ?thesis
    unfolding expired_def by (subst beaters_dropWhile_prefix) (simp_all add: later)
qed

lemma front_is_extreme:
  assumes "es \<noteq> []"
  shows "\<exists>e rest. beaters pops es = e # rest \<and> e \<in> set es \<and> (\<forall>f \<in> set es. pops (snd f) (snd e))"
  using beaters_head [OF assms] set_beaters [of es] by (cases "beaters pops es") auto

end

lemma front_max:
  assumes "es \<noteq> []"
  shows "front_of (beaters (\<le>) es) = Inr (Max (snd ` set es))"
    "front_price (beaters (\<le>) es) = Some (Max (snd ` set es))"
proof -
  obtain e rest where e: "beaters (\<le>) es = e # rest" "e \<in> set es" "\<forall>f \<in> set es. snd f \<le> snd e"
    using max_deque.front_is_extreme [OF assms] by blast
  then have "Max (snd ` set es) = snd e" by (intro Max_eqI) auto
  with e(1) show "front_of (beaters (\<le>) es) = Inr (Max (snd ` set es))"
    "front_price (beaters (\<le>) es) = Some (Max (snd ` set es))"
    by (simp_all add: front_of_def front_price_def)
qed

lemma front_min:
  assumes "es \<noteq> []"
  shows "front_of (beaters (\<ge>) es) = Inr (Min (snd ` set es))"
    "front_price (beaters (\<ge>) es) = Some (Min (snd ` set es))"
proof -
  obtain e rest where e: "beaters (\<ge>) es = e # rest" "e \<in> set es" "\<forall>f \<in> set es. snd f \<ge> snd e"
    using min_deque.front_is_extreme [OF assms] by blast
  then have "Min (snd ` set es) = snd e" by (intro Min_eqI) auto
  with e(1) show "front_of (beaters (\<ge>) es) = Inr (Min (snd ` set es))"
    "front_price (beaters (\<ge>) es) = Some (Min (snd ` set es))"
    by (simp_all add: front_of_def front_price_def)
qed

lemma front_price_extreme:
  "front_price (beaters (\<le>) es) = (if set es = {} then None else Some (Max (snd ` set es)))"
  "front_price (beaters (\<ge>) es) = (if set es = {} then None else Some (Min (snd ` set es)))"
  using front_max(2) [of es] front_min(2) [of es] by (cases es; simp add: front_price_def)+

lemma kept_filter:
  "sorted_wrt (\<lambda>e f. fst e \<le> fst f) es \<Longrightarrow> kept w ts es = filter (\<lambda>e. ts \<le> fst e + w) es"
  unfolding kept_def
proof (induction es)
  case (Cons e es)
  then show ?case by (cases "fst e + w < ts") (auto intro!: filter_True [symmetric] intro: order_trans)
qed simp

lemma map_fst_gaps: "map fst (gaps l xs) = map fst xs"
  by (induction l xs rule: gaps.induct) auto

lemma gaps_snoc:
  "gaps l (xs @ [(ts, m)]) =
   gaps l xs @ [(ts, case (if xs = [] then l else Some (fst (last xs))) of Some p \<Rightarrow> ts - p | None \<Rightarrow> kMaxDuration)]"
  by (induction l xs rule: gaps.induct) auto

lemma nth_gaps:
  "i < length xs \<Longrightarrow> gaps l xs ! i =
   (fst (xs ! i), case (if i = 0 then l else Some (fst (xs ! (i - 1)))) of Some p \<Rightarrow> fst (xs ! i) - p | None \<Rightarrow> kMaxDuration)"
proof (induction l xs arbitrary: i rule: gaps.induct)
  case (2 l t m xs)
  then show ?case by (cases i) (auto simp: nth_Cons' split: option.split)
qed simp

lemma length_gaps [simp]: "length (gaps l xs) = length xs"
  by (induction l xs rule: gaps.induct) auto

lemma kept_set: "sorted (map fst es) \<Longrightarrow> set (kept w ts es) = set es \<inter> {e. ts \<le> fst e + w}"
  by (auto simp: kept_filter sorted_wrt_map)

lemma sorted_map_fst: "sorted_wrt (\<lambda>e f. fst e \<le> fst f) xs \<longleftrightarrow> sorted (map fst xs)"
  by (simp add: sorted_wrt_map)

text \<open>The invariant: the deques are the reference deques of the window.\<close>

definition tracks :: "tracker \<Rightarrow> (time \<times> int) list \<Rightarrow> bool" where
  "tracks tk xs \<longleftrightarrow>
     (let ts = (if xs = [] then 0 else fst (last xs)); w = tk_window tk in
      tk_maxDeque tk = beaters (\<le>) (kept w ts xs) \<and> tk_minDeque tk = beaters (\<ge>) (kept w ts xs)
      \<and> tk_gapDeque tk = beaters (\<le>) (kept w ts (gaps None xs))
      \<and> tk_lastTick tk = (if xs = [] then None else Some ts))"

lemma tracks_feed:
  assumes "tracks tk xs" "sorted (map fst xs)" "xs \<noteq> [] \<longrightarrow> fst (last xs) \<le> ts" "0 \<le> tk_window tk"
  shows "tracks (tracker_feed ts mid tk) (xs @ [(ts, mid)])"
    and "tk_preMax (tracker_feed ts mid tk) = front_price (beaters (\<le>) (kept (tk_window tk) ts xs))"
    and "tk_preMin (tracker_feed ts mid tk) = front_price (beaters (\<ge>) (kept (tk_window tk) ts xs))"
proof -
  define t where "t = (if xs = [] then ts else fst (last xs))"
  have t: "t \<le> ts" using assms(3) by (simp add: t_def)
  have sorted: "sorted_wrt (\<lambda>e f. fst e \<le> fst f) xs" "sorted_wrt (\<lambda>e f. fst e \<le> fst f) (gaps None xs)"
    using assms(2) by (simp_all add: sorted_map_fst map_fst_gaps)
  have deques: "tk_maxDeque tk = beaters (\<le>) (kept (tk_window tk) t xs)" "tk_minDeque tk = beaters (\<ge>) (kept (tk_window tk) t xs)"
      "tk_gapDeque tk = beaters (\<le>) (kept (tk_window tk) t (gaps None xs))"
    using assms(1) by (auto simp: tracks_def t_def kept_def Let_def)
  have l: "tk_lastTick tk = (if xs = [] then None else Some (fst (last xs)))"
    using assms(1) by (simp add: tracks_def Let_def)
  note deque_ops = max_deque.window_expire [OF sorted(1) t] min_deque.window_expire [OF sorted(1) t]
    max_deque.window_expire [OF sorted(2) t] max_deque.deque_push_beaters min_deque.deque_push_beaters
  show "tracks (tracker_feed ts mid tk) (xs @ [(ts, mid)])"
    using assms(4) by (simp add: tracks_def tracker_feed_def Let_def deques deque_ops gaps_snoc l)
  show "tk_preMax (tracker_feed ts mid tk) = front_price (beaters (\<le>) (kept (tk_window tk) ts xs))"
    "tk_preMin (tracker_feed ts mid tk) = front_price (beaters (\<ge>) (kept (tk_window tk) ts xs))"
    by (simp_all add: tracker_feed_def Let_def deques deque_ops)
qed

lemma window_feed [simp]: "tk_window (tracker_feed ts mid tk) = tk_window tk"
  by (simp add: tracker_feed_def Let_def)

lemma window_feed_all [simp]: "tk_window (feed_all xs tk) = tk_window tk"
  unfolding feed_all_def by (induction xs arbitrary: tk) auto

lemma tracks_all:
  assumes "sorted (map fst xs)" "0 \<le> window"
  shows "tracks (feed_all xs (new_tracker window)) xs"
  using assms(1)
proof (induction xs rule: rev_induct)
  case Nil
  show ?case by (simp add: feed_all_def tracks_def new_tracker_def kept_def)
next
  case (snoc x xs)
  obtain ts mid where x: "x = (ts, mid)" by fastforce
  have "tracks (tracker_feed ts mid (feed_all xs (new_tracker window))) (xs @ [(ts, mid)])"
    by (rule tracks_feed(1))
      (use snoc x assms(2) in \<open>auto simp: sorted_append new_tracker_def seconds_us_def\<close>)
  then show ?case by (simp add: x feed_all_def)
qed

lemma covered_gaps:
  assumes "tracks tk xs" "xs \<noteq> []" "sorted (map fst xs)" "0 \<le> tk_window tk"
  shows "covered tk \<longleftrightarrow>
    (\<forall>e \<in> set (gaps None xs). fst (last xs) \<le> fst e + tk_window tk \<longrightarrow> snd e < tk_window tk)"
proof -
  let ?w = "tk_window tk"
  let ?es = "kept ?w (fst (last xs)) (gaps None xs)"
  have set: "set ?es = set (gaps None xs) \<inter> {e. fst (last xs) \<le> fst e + ?w}"
    by (rule kept_set) (simp add: map_fst_gaps assms(3))
  have "fst (last xs) \<in> fst ` set (gaps None xs)"
    using assms(2) by (metis last_in_set last_map list.map_disc_iff map_fst_gaps set_map)
  then have "set ?es \<noteq> {}" unfolding set using assms(4) by fastforce
  then have "?es \<noteq> []" by auto
  then obtain e rest where e: "beaters (\<le>) ?es = e # rest" "e \<in> set ?es" "\<forall>f \<in> set ?es. snd f \<le> snd e"
    using max_deque.front_is_extreme by blast
  have "tk_gapDeque tk = beaters (\<le>) ?es" using assms(1,2) by (simp add: tracks_def Let_def)
  then have "covered tk \<longleftrightarrow> snd e < ?w" by (simp add: covered_def e(1))
  also have "\<dots> \<longleftrightarrow> (\<forall>f \<in> set ?es. snd f < ?w)" using e(2,3) by force
  finally show ?thesis by (auto simp: set)
qed

lemma gaps_bounded:
  assumes "xs \<noteq> []" "w \<le> kMaxDuration"
  shows "(\<forall>e \<in> set (gaps None xs). ts \<le> fst e + w \<longrightarrow> snd e < w) \<longleftrightarrow>
    \<not> ts \<le> fst (hd xs) + w
    \<and> (\<forall>i < length xs - 1. ts \<le> fst (xs ! Suc i) + w \<longrightarrow> fst (xs ! Suc i) - fst (xs ! i) < w)"
proof -
  have "(\<forall>e \<in> set (gaps None xs). ts \<le> fst e + w \<longrightarrow> snd e < w) \<longleftrightarrow>
      (\<forall>i < length xs. ts \<le> fst (gaps None xs ! i) + w \<longrightarrow> snd (gaps None xs ! i) < w)"
    by (simp add: all_set_conv_all_nth)
  also have "\<dots> \<longleftrightarrow> (\<forall>i < Suc (length xs - 1). ts \<le> fst (gaps None xs ! i) + w \<longrightarrow> snd (gaps None xs ! i) < w)"
    using assms(1) by simp
  also have "\<dots> \<longleftrightarrow> (ts \<le> fst (gaps None xs ! 0) + w \<longrightarrow> snd (gaps None xs ! 0) < w)
      \<and> (\<forall>i < length xs - 1. ts \<le> fst (gaps None xs ! Suc i) + w \<longrightarrow> snd (gaps None xs ! Suc i) < w)"
    by (rule All_less_Suc2)
  also have "\<dots> \<longleftrightarrow> \<not> ts \<le> fst (hd xs) + w
    \<and> (\<forall>i < length xs - 1. ts \<le> fst (xs ! Suc i) + w \<longrightarrow> fst (xs ! Suc i) - fst (xs ! i) < w)"
    using assms by (auto simp: nth_gaps hd_conv_nth)
  finally show ?thesis .
qed

text \<open>C25: whatever ticks a tracker has been fed since it was made or reset, in the order of their times, its
  \<open>max\<close> and \<open>min\<close> are the extremes of the prices no older than the window, the present tick included; the
  snapshots a new extreme must beat are those of the ticks before it; and the window counts as covered
  exactly when the first tick is older than the window and no tick inside it came a full window or
  more after the tick before it. No entry of the three deques is ever stale, and none that could
  still become the extreme was discarded.\<close>

theorem tracker_is_trailing_window:
  assumes sorted: "sorted (map fst (ticks @ [(ts, mid)]))" and w: "1 \<le> window" "in_i32 window"
  defines "tk \<equiv> feed_all (ticks @ [(ts, mid)]) (new_tracker window)"
    and "recent \<equiv> {e. ts \<le> fst e + window * 1000000}"
    and "all \<equiv> ticks @ [(ts, mid)]"
  shows "tracker_max tk = Inr (Max (snd ` (set all \<inter> recent))) \<and> tracker_min tk = Inr (Min (snd ` (set all \<inter> recent)))
    \<and> tk_preMax tk = (if set ticks \<inter> recent = {} then None else Some (Max (snd ` (set ticks \<inter> recent))))
    \<and> tk_preMin tk = (if set ticks \<inter> recent = {} then None else Some (Min (snd ` (set ticks \<inter> recent))))
    \<and> (covered tk \<longleftrightarrow> hd all \<notin> recent
         \<and> (\<forall>i < length ticks. all ! Suc i \<in> recent \<longrightarrow> fst (all ! Suc i) - fst (all ! i) < window * 1000000))"
proof -
  define w where "w = window * 1000000"
  let ?tk0 = "feed_all ticks (new_tracker window)"
  have w0: "0 \<le> w" "w \<le> kMaxDuration" using w by (simp_all add: w_def in_i32_def kMaxDuration_def)
  have win: "tk_window ?tk0 = w" "tk_window tk = w" by (simp_all add: tk_def new_tracker_def seconds_us_def w_def)
  have order: "sorted (map fst ticks)" "ticks \<noteq> [] \<longrightarrow> fst (last ticks) \<le> ts"
    using sorted by (auto simp: sorted_append)
  have tk: "tk = tracker_feed ts mid ?tk0" by (simp add: tk_def feed_all_def)
  have "tracks ?tk0 ticks" by (rule tracks_all) (use order w(1) in simp_all)
  note step = tracks_feed [OF this order, of mid, folded tk, unfolded win, OF w0(1)]
  have all: "tracks tk all" using step(1) by (simp add: all_def)
  have recent: "recent = {e. ts \<le> fst e + w}" by (simp add: recent_def w_def)
  have set: "set (kept w ts all) = set all \<inter> recent" "set (kept w ts ticks) = set ticks \<inter> recent"
    using sorted order(1) kept_set unfolding all_def recent by blast+
  have ne: "kept w ts all \<noteq> []" using w0(1) by (simp add: all_def)
  have deques: "tk_maxDeque tk = beaters (\<le>) (kept w ts all)" "tk_minDeque tk = beaters (\<ge>) (kept w ts all)"
    using all by (simp_all add: tracks_def win Let_def) (simp_all add: all_def)
  have "tracker_max tk = Inr (Max (snd ` (set all \<inter> recent)))" "tracker_min tk = Inr (Min (snd ` (set all \<inter> recent)))"
    by (simp_all add: tracker_max_def tracker_min_def deques front_max front_min ne set)
  moreover have "tk_preMax tk = (if set ticks \<inter> recent = {} then None else Some (Max (snd ` (set ticks \<inter> recent))))"
    "tk_preMin tk = (if set ticks \<inter> recent = {} then None else Some (Min (snd ` (set ticks \<inter> recent))))"
    by (simp_all only: step(2,3) front_price_extreme set)
  moreover have "covered tk \<longleftrightarrow> hd all \<notin> recent
       \<and> (\<forall>i < length ticks. all ! Suc i \<in> recent \<longrightarrow> fst (all ! Suc i) - fst (all ! i) < w)"
    using covered_gaps [OF all] gaps_bounded [of all w ts] sorted w0 by (simp add: all_def win recent)
  ultimately show ?thesis by (simp add: w_def)
qed

theorem tracker_is_trailing_window_witness:
  "tk_preMax (feed_all ([(0, 5), (400000, 9), (900000, 7)] @ [(1200000, 6)]) (new_tracker 1)) = Some 9
   \<and> covered (feed_all ([(0, 5), (400000, 9), (900000, 7)] @ [(1200000, 6)]) (new_tracker 1))"
proof -
  let ?recent = "{e :: int \<times> int. 1200000 \<le> fst e + 1 * 1000000}"
  have "set [(0, 5), (400000, 9), (900000, 7)] \<inter> ?recent = {(400000, 9), (900000, 7)}" by auto
  with tracker_is_trailing_window [of "[(0, 5), (400000, 9), (900000, 7)]" 1200000 6 1] show ?thesis
    by (simp add: in_i32_def less_Suc_eq numeral_nat all_simps)
qed

subsection \<open>Every attempt is accounted for\<close>

definition matcher_run :: "(int \<times> int \<times> time) list \<Rightarrow> chain_matcher \<Rightarrow> chain_matcher result" where
  "matcher_run ticks m = res_fold (\<lambda>(mid, spread, ts). on_tick mid spread ts) ticks m"

text \<open>The trackers a leg reads exist, and hold data once a tick has been fed.\<close>

definition leg_ok :: "nat \<Rightarrow> leg_runtime \<Rightarrow> bool" where
  "leg_ok i leg \<longleftrightarrow>
     (lg_type leg \<in> {StaysInBand, NewExtreme, RangeRelativeMove} \<longrightarrow> lg_basisTracker leg \<noteq> None)
     \<and> (i = 0 \<longrightarrow> lg_type leg \<in> {DirectionalMove, RangeRelativeMove} \<longrightarrow> lg_moveTracker leg \<noteq> None)"

definition tracker_fed :: "tracker \<Rightarrow> bool" where
  "tracker_fed tk \<longleftrightarrow> tk_maxDeque tk \<noteq> [] \<and> tk_minDeque tk \<noteq> []"

definition leg_fed :: "leg_runtime \<Rightarrow> bool" where
  "leg_fed leg \<longleftrightarrow> pred_option tracker_fed (lg_moveTracker leg) \<and> pred_option tracker_fed (lg_basisTracker leg)"

definition legs_ok :: "leg_runtime list \<Rightarrow> bool" where
  "legs_ok legs \<longleftrightarrow> legs \<noteq> [] \<and> (\<forall>i < length legs. leg_ok i (legs ! i))"

text \<open>The books with \<open>n\<close> attempts in flight.\<close>

definition books :: "nat \<Rightarrow> chain_matcher \<Rightarrow> bool" where
  "books n m \<longleftrightarrow>
     (let s = cm_stats m; failures = sum_list (ms_failuresByLeg s) in
      length (ms_failuresByLeg s) = length (cm_legs m) \<and> ms_failuresByLeg s ! 0 = 0
      \<and> ms_attempts s = ms_occurrences s + failures + n \<and> ms_spreadAtTriggerCount s = ms_attempts s
      \<and> length (ms_completedExcursions s) = min (ms_occurrences s) (cm_maxSamples m)
      \<and> length (ms_completionSeconds s) = length (ms_completedExcursions s)
      \<and> length (ms_failedExcursions s) = min failures (cm_maxSamples m)
      \<and> (ms_samplesTruncated s \<longleftrightarrow> cm_maxSamples m < max (ms_occurrences s) failures))"

definition matcher_ok :: "chain_matcher \<Rightarrow> bool" where
  "matcher_ok m \<longleftrightarrow> legs_ok (cm_legs m) \<and> cm_active m < length (cm_legs m) \<and> books (if cm_active m = 0 then 0 else 1) m"

lemma make_leg_ok: "make_leg F a i = Inr leg \<Longrightarrow> leg_ok i leg"
  by (cases "ac_TYPE a") (auto simp: make_leg_def Let_def leg_ok_def bind_Inr_iff)

lemma make_legs_ok: "make_legs F chain i = Inr legs \<Longrightarrow>
    length legs = length chain \<and> (\<forall>j < length legs. leg_ok (i + j) (legs ! j))"
proof (induction F chain i arbitrary: legs rule: make_legs.induct)
  case (2 F a chain i)
  then obtain leg rest where "make_leg F a i = Inr leg" "make_legs F chain (Suc i) = Inr rest" "legs = leg # rest"
    by (auto simp: bind_Inr_iff)
  with 2 make_leg_ok [of F a i] show ?case by (auto simp: nth_Cons split: nat.split)
qed simp

lemma new_matcher_ok:
  assumes "new_matcher F config cap = Inr m"
  shows "matcher_ok m" "cm_active m = 0" "ms_occurrences (cm_stats m) = 0" "cm_maxSamples m = cap"
    "length (cm_legs m) = length (xc_CHAIN config)"
  using assms make_legs_ok [of F "xc_CHAIN config" 0]
  by (auto simp: new_matcher_def bind_Inr_iff matcher_ok_def legs_ok_def books_def new_stats_def sum_list_replicate
      split: if_splits)

lemma leg_ok_on_trackers [simp]: "leg_ok i (on_trackers f leg) = leg_ok i leg"
  by (simp add: leg_ok_def on_trackers_def)

lemma legs_ok_on_trackers [simp]: "legs_ok (map (on_trackers f) legs) = legs_ok legs"
  by (simp add: legs_ok_def)

lemma tracker_fed_feed: "tracker_fed (tracker_feed ts mid tk)"
  by (simp add: tracker_fed_def tracker_feed_def Let_def deque_push_def)

lemma leg_fed_feed: "leg_fed (on_trackers (tracker_feed ts mid) leg)"
  by (cases "lg_moveTracker leg"; cases "lg_basisTracker leg") (simp_all add: leg_fed_def on_trackers_def tracker_fed_feed)

lemma fed_reads: "tracker_fed tk \<Longrightarrow> \<exists>hi lo. tracker_max tk = Inr hi \<and> tracker_min tk = Inr lo"
  by (auto simp: tracker_fed_def tracker_max_def tracker_min_def front_of_def neq_Nil_conv)

lemma conditionHolds_total:
  assumes "legs_ok (cm_legs m)" "\<forall>leg \<in> set (cm_legs m). leg_fed leg" "i < length (cm_legs m)"
  shows "\<exists>b. conditionHolds m i cur = Inr b"
proof -
  let ?leg = "cm_legs m ! i"
  have ok: "leg_ok i ?leg" and fed: "leg_fed ?leg" using assms by (auto simp: legs_ok_def)
  have reads: "\<exists>tk' hi lo. t = Some tk' \<and> tracker_max tk' = Inr hi \<and> tracker_min tk' = Inr lo"
    if "t \<noteq> None" "t = lg_moveTracker ?leg \<or> t = lg_basisTracker ?leg" for t
  proof -
    from that fed have "\<exists>tk. t = Some tk \<and> tracker_fed tk" by (cases t) (auto simp: leg_fed_def dest: sym)
    with fed_reads show ?thesis by blast
  qed
  have basis: "\<exists>tk hi lo. lg_basisTracker ?leg = Some tk \<and> tracker_max tk = Inr hi \<and> tracker_min tk = Inr lo"
    if "lg_type ?leg \<in> {StaysInBand, NewExtreme, RangeRelativeMove}"
    by (rule reads) (use that ok in \<open>simp_all add: leg_ok_def\<close>)
  have move: "\<exists>tk hi lo. lg_moveTracker ?leg = Some tk \<and> tracker_max tk = Inr hi \<and> tracker_min tk = Inr lo"
    if "i = 0" "lg_type ?leg \<in> {DirectionalMove, RangeRelativeMove}"
    by (rule reads) (use that ok in \<open>simp_all add: leg_ok_def\<close>)
  note eval = conditionHolds_def Let_def tracker_of_def tracker_range_def
  show ?thesis
  proof (cases "lg_type ?leg")
    case DirectionalMove
    with move assms(3) show ?thesis by (cases "i = 0") (auto simp: eval)
  next
    case RangeRelativeMove
    with move basis assms(3) show ?thesis by (cases "i = 0") (auto simp: eval)
  qed (use basis assms(3) in \<open>auto simp: eval\<close>)
qed

lemma books_arm: "books 0 m \<Longrightarrow> books 1 (arm_attempt mid spread ts m)"
  by (simp add: books_def arm_attempt_def Let_def)

lemma books_anchor: "books n (m\<lparr>cm_active := a, cm_anchorMid := mid, cm_anchorTs := ts\<rparr>) = books n m"
  "books n (m\<lparr>cm_anchorThresholdValid := v, cm_anchorThreshold := t\<rparr>) = books n m"
  "books n (m\<lparr>cm_attemptAbove := x, cm_attemptBelow := y\<rparr>) = books n m"
  "books n (m\<lparr>cm_legs := map (on_trackers f) (cm_legs m)\<rparr>) = books n m"
  by (simp_all add: books_def Let_def)

lemma books_match:
  assumes "books 1 m"
  shows "books 0 (resetAfterMatch (record_attempt True ts
           (m\<lparr>cm_stats := (cm_stats m)\<lparr>ms_occurrences := ms_occurrences (cm_stats m) + 1\<rparr>\<rparr>)))"
  using assms by (auto simp: books_def resetAfterMatch_def record_attempt_def Let_def)

lemma sum_list_bump: "k < length fs \<Longrightarrow> sum_list (fs[k := Suc (fs ! k)]) = Suc (sum_list fs)"
  by (induction fs arbitrary: k) (auto simp: nth_Cons split: nat.split)

lemma record_attempt_frame [simp]:
  "cm_legs (record_attempt ok ts m) = cm_legs m" "cm_maxSamples (record_attempt ok ts m) = cm_maxSamples m"
  "cm_active (record_attempt ok ts m) = cm_active m"
  "ms_occurrences (cm_stats (record_attempt ok ts m)) = ms_occurrences (cm_stats m)"
  by (simp_all add: record_attempt_def Let_def)

lemma books_expire:
  assumes "books 1 m" "0 < cm_active m" "cm_active m < length (cm_legs m)"
  shows "books 0 (expire_attempt ts m)"
proof -
  have "sum_list (fs[cm_active m := Suc (fs ! cm_active m)]) = Suc (sum_list fs)"
    if "length fs = length (cm_legs m)" for fs :: "nat list"
    using that assms(3) by (simp add: sum_list_bump)
  with assms show ?thesis by (auto simp: books_def expire_attempt_def record_attempt_def Let_def)
qed

text \<open>What one step keeps, and at most one match.\<close>

definition step_ok :: "chain_matcher \<Rightarrow> chain_matcher \<Rightarrow> bool" where
  "step_ok m m' \<longleftrightarrow> matcher_ok m' \<and> cm_maxSamples m' = cm_maxSamples m \<and> length (cm_legs m') = length (cm_legs m)
     \<and> ms_occurrences (cm_stats m') \<in> {ms_occurrences (cm_stats m), Suc (ms_occurrences (cm_stats m))}"

definition legs_fed :: "chain_matcher \<Rightarrow> bool" where
  "legs_fed m \<longleftrightarrow> legs_ok (cm_legs m) \<and> (\<forall>leg \<in> set (cm_legs m). leg_fed leg)"

lemma completeActiveLeg_ok:
  assumes "legs_fed m" "matcher_ok m"
  shows "\<exists>m'. completeActiveLeg mid spread ts m = Inr m' \<and> step_ok m m'"
proof -
  define a where "a = (if cm_active m = 0 then arm_attempt mid spread ts m else m)"
  have a: "books 1 a" "cm_legs a = cm_legs m" "cm_active a = cm_active m" "cm_maxSamples a = cm_maxSamples m"
      "ms_occurrences (cm_stats a) = ms_occurrences (cm_stats m)"
    using assms(2) books_arm [of m] by (auto simp: a_def matcher_ok_def) (simp_all add: arm_attempt_def)
  have legs: "legs_ok (cm_legs m)" "cm_active m < length (cm_legs m)" using assms by (simp_all add: matcher_ok_def)
  show ?thesis
  proof (cases "cm_active m + 1 = length (cm_legs m)")
    case True
    then have "completeActiveLeg mid spread ts m = Inr (resetAfterMatch (record_attempt True ts
        (a\<lparr>cm_stats := (cm_stats a)\<lparr>ms_occurrences := ms_occurrences (cm_stats a) + 1\<rparr>\<rparr>)))"
      by (simp add: completeActiveLeg_def Let_def a flip: a_def)
    with books_match [OF a(1), of ts] legs a show ?thesis
      by (auto simp: step_ok_def matcher_ok_def) (auto simp: resetAfterMatch_def)
  next
    case False
    let ?b = "a\<lparr>cm_active := Suc (cm_active m), cm_anchorMid := mid, cm_anchorTs := ts\<rparr>"
    let ?leg = "cm_legs m ! (Suc (cm_active m))"
    have i: "Suc (cm_active m) < length (cm_legs m)" using False legs(2) by linarith
    have ok: "leg_ok (Suc (cm_active m)) ?leg" "leg_fed ?leg"
      using legs i assms(1) by (auto simp: legs_ok_def legs_fed_def)
    have done_b: "step_ok m ?b" "step_ok m (?b\<lparr>cm_anchorThresholdValid := v, cm_anchorThreshold := t\<rparr>)" for v t
      using a i legs by (simp_all add: step_ok_def matcher_ok_def books_anchor)
    have eq: "completeActiveLeg mid spread ts m =
        (if lg_type ?leg = RangeRelativeMove then
          bind (tracker_of (lg_basisTracker ?leg)) (\<lambda>basis.
            if covered basis then
              bind (tracker_range basis) (\<lambda>r.
                Inr (?b\<lparr>cm_anchorThresholdValid := True, cm_anchorThreshold := rangeThreshold r (lg_atrScaled ?leg)\<rparr>))
            else Inr (?b\<lparr>cm_anchorThresholdValid := False, cm_anchorThreshold := 0\<rparr>))
        else Inr ?b)"
      using False i by (simp add: completeActiveLeg_def Let_def a flip: a_def)
    show ?thesis
    proof (cases "lg_type ?leg = RangeRelativeMove")
      case True
      with ok obtain basis where basis: "lg_basisTracker ?leg = Some basis" "tracker_fed basis"
        by (auto simp: leg_ok_def leg_fed_def)
      from fed_reads [OF basis(2)] obtain hi lo where "tracker_max basis = Inr hi" "tracker_min basis = Inr lo"
        by (elim exE conjE) (rule that)
      with True basis(1) done_b(2) show ?thesis
        by (auto simp: eq tracker_of_def tracker_range_def)
    qed (use done_b(1) eq in simp)
  qed
qed

lemma scan_first_ok:
  assumes "legs_fed m" "matcher_ok m" "cm_active m = 0"
  shows "\<exists>m'. scan_first mid spread ts m = Inr m' \<and> step_ok m m'"
proof -
  obtain b where b: "conditionHolds m 0 mid = Inr b"
    using conditionHolds_total [of m 0 mid] assms by (auto simp: legs_fed_def legs_ok_def)
  show ?thesis
  proof (cases b)
    case True
    with b completeActiveLeg_ok [OF assms(1,2), of mid spread ts] show ?thesis by (simp add: scan_first_def)
  qed (use b assms(2) in \<open>simp add: scan_first_def step_ok_def\<close>)
qed

lemma on_tick_ok:
  assumes "matcher_ok m"
  shows "\<exists>m'. on_tick mid spread ts m = Inr m' \<and> step_ok m m'"
proof -
  define f where "f = m\<lparr>cm_legs := map (on_trackers (tracker_feed ts mid)) (cm_legs m)\<rparr>"
  have f: "legs_fed f" "matcher_ok f" "cm_active f = cm_active m" "step_ok f = step_ok m"
    using assms by (auto simp: f_def legs_fed_def matcher_ok_def leg_fed_feed books_anchor step_ok_def fun_eq_iff)
  show ?thesis
  proof (cases "cm_active m = 0")
    case True
    with scan_first_ok [OF f(1,2), of mid spread ts] f(3,4) show ?thesis
      by (simp add: on_tick_def Let_def flip: f_def)
  next
    case False
    define g where "g = f\<lparr>cm_attemptAbove := max (cm_attemptAbove f) (mid - cm_attemptAnchorMid f),
                  cm_attemptBelow := max (cm_attemptBelow f) (cm_attemptAnchorMid f - mid)\<rparr>"
    have g: "legs_fed g" "matcher_ok g" "cm_active g = cm_active m" "step_ok g = step_ok m"
      using f by (auto simp: g_def legs_fed_def matcher_ok_def books_anchor step_ok_def fun_eq_iff)
    have i: "cm_active m < length (cm_legs g)" using g(2,3) by (simp add: matcher_ok_def)
    define e where "e = expire_attempt ts g"
    have e: "legs_fed e" "matcher_ok e" "cm_active e = 0" "step_ok e = step_ok g"
      using g books_expire [of g ts] False
      by (auto simp: e_def matcher_ok_def legs_fed_def)
        (auto simp: expire_attempt_def Let_def step_ok_def fun_eq_iff)
    obtain b where b: "conditionHolds g (cm_active m) mid = Inr b"
      using conditionHolds_total [of g "cm_active m" mid] g(1) i by (auto simp: legs_fed_def)
    have "on_tick mid spread ts m =
        (if ts - cm_anchorTs g > lg_window (cm_legs g ! cm_active m) then scan_first mid spread ts e
         else if b then completeActiveLeg mid spread ts g else Inr g)"
      using False i b f(3) by (simp add: on_tick_def Let_def e_def g(3) flip: f_def g_def)
    moreover have "step_ok g g" using g(2) by (simp add: step_ok_def)
    ultimately show ?thesis
      using scan_first_ok [OF e(1-3), of mid spread ts] completeActiveLeg_ok [OF g(1,2), of mid spread ts] e(4) g(4)
      by auto
  qed
qed

lemma matcher_run_ok:
  assumes "matcher_ok m"
  shows "\<exists>m'. matcher_run ticks m = Inr m' \<and> matcher_ok m' \<and> cm_maxSamples m' = cm_maxSamples m
    \<and> length (cm_legs m') = length (cm_legs m)"
  using assms
proof (induction ticks arbitrary: m)
  case (Cons t ticks)
  obtain mid spread ts where t: "t = (mid, spread, ts)" by (cases t)
  obtain n where n: "on_tick mid spread ts m = Inr n" "step_ok m n"
    using on_tick_ok [OF Cons.prems, of mid spread ts] by (elim exE conjE) (rule that)
  with Cons.IH [of n] show ?case by (simp add: matcher_run_def t step_ok_def)
qed (simp add: matcher_run_def)

text \<open>C24: a chain the constructor accepts can be replayed over any ticks in any order without ever reading an
  absent tracker, an empty window or a leg out of range, and its counts are exact: every attempt (a completed
  first leg, which is also when the spread was sampled) became one match, one failure attributed to a
  later leg, or is the single one still in flight; the samples are kept up to the cap, and the
  truncation flag is raised exactly when one of the two populations outgrew it.\<close>

theorem matcher_accounts_for_attempts:
  assumes "new_matcher F config cap = Inr m"
  shows "\<exists>m' s failures. matcher_run ticks m = Inr m' \<and> s = cm_stats m' \<and> failures = sum_list (ms_failuresByLeg s)
    \<and> ms_attempts s = ms_occurrences s + failures + (if cm_active m' = 0 then 0 else 1)
    \<and> length (ms_failuresByLeg s) = length (xc_CHAIN config) \<and> ms_failuresByLeg s ! 0 = 0
    \<and> ms_spreadAtTriggerCount s = ms_attempts s
    \<and> length (ms_completedExcursions s) = min (ms_occurrences s) cap
    \<and> length (ms_completionSeconds s) = min (ms_occurrences s) cap
    \<and> length (ms_failedExcursions s) = min failures cap
    \<and> (ms_samplesTruncated s \<longleftrightarrow> cap < max (ms_occurrences s) failures)"
proof -
  note new = new_matcher_ok [OF assms]
  obtain m' where m': "matcher_run ticks m = Inr m'" "matcher_ok m'" "cm_maxSamples m' = cap"
      "length (cm_legs m') = length (xc_CHAIN config)"
    using matcher_run_ok [OF new(1), of ticks] new(4,5) by auto
  then show ?thesis by (auto simp: matcher_ok_def books_def Let_def)
qed

text \<open>A drop of one percent in ten minutes, then a minute in a band of one percent, in exact arithmetic.\<close>

definition real_chain :: "(real, real) chain_ops" where
  "real_chain = float_ops.extend real_float
     \<lparr>f_llround = (\<lambda>x. if 0 \<le> x then \<lfloor>x + 1 / 2\<rfloor> else - \<lfloor>1 / 2 - x\<rfloor>), f_ceil = ceiling\<rparr>"

definition dip_then_band :: "real experiment_config" where
  "dip_then_band =
     \<lparr>xc_UUID = ''e-1'', xc_NAME = ''dipThenBand'',
      xc_CHAIN = [\<lparr>ac_TYPE = DirectionalMove, ac_MOVE_PERCENT = - 1, ac_WINDOW_SECONDS = 600, ac_LOOKBACK_SECONDS = 0,
                   ac_DIRECTION = 0, ac_ATR_MULTIPLE = 0\<rparr>,
                  \<lparr>ac_TYPE = StaysInBand, ac_MOVE_PERCENT = 1, ac_WINDOW_SECONDS = 600, ac_LOOKBACK_SECONDS = 60,
                   ac_DIRECTION = 0, ac_ATR_MULTIPLE = 0\<rparr>]\<rparr>"

lemma dip_then_band_accepted: "\<exists>m. new_matcher real_chain dip_then_band cap = Inr m"
  by (simp add: new_matcher_def dip_then_band_def make_leg_def real_chain_def float_ops.extend_def real_float_def ensure_def)

theorem matcher_accounts_for_attempts_witness:
  "\<exists>m m'. new_matcher real_chain dip_then_band 5 = Inr m
     \<and> matcher_run [(10000, 2, 0), (9800, 2, 1000000), (9810, 2, 62000000)] m = Inr m'
     \<and> ms_attempts (cm_stats m') = ms_occurrences (cm_stats m') + sum_list (ms_failuresByLeg (cm_stats m'))
         + (if cm_active m' = 0 then 0 else 1)"
proof -
  obtain m where m: "new_matcher real_chain dip_then_band 5 = Inr m"
    using dip_then_band_accepted by blast
  with matcher_accounts_for_attempts [OF m, of "[(10000, 2, 0), (9800, 2, 1000000), (9810, 2, 62000000)]"]
  show ?thesis by auto
qed

end
