(* ===== verification/ExperimentScan.thy ===== *)
theory ExperimentScan
  imports ChainMatcher
begin

section \<open>Evaluating an experiment\<close>

text \<open>
  \<open>evaluateExperiment\<close> of \<open>shared/experiments/chainMatcher.cppm\<close>: the tick stream of a symbol group is demuxed
  into one matcher per symbol, matches are bucketed by the month and hour of the completing tick, and the
  matchers' counts and samples are summed. Ordered maps are association lists sorted by key.
  \<open>experiment_is_per_symbol\<close>: an accepted chain always gives an outcome, whose counts for each symbol are
  those of a matcher that saw only that symbol's ticks, and whose totals are their sums.
\<close>

subsection \<open>Percentiles and excursions\<close>

fun insert_double :: "('d, 'f, 'y) chain_ops_scheme \<Rightarrow> 'f \<Rightarrow> 'f list \<Rightarrow> 'f list" where
  "insert_double F x [] = [x]"
| "insert_double F x (y # ys) = (if f_less F y x then y # insert_double F x ys else x # y # ys)"

definition sort_doubles :: "('d, 'f, 'y) chain_ops_scheme \<Rightarrow> 'f list \<Rightarrow> 'f list" where
  "sort_doubles F xs = foldr (insert_double F) xs []"

definition nearestRank :: "('d, 'f, 'y) chain_ops_scheme \<Rightarrow> 'f list \<Rightarrow> 'f \<Rightarrow> 'f result" where
  "nearestRank F sorted' q =
     (let rank = nat (f_ceil F (f_mult F q (f_lit F (int (length sorted')) 1))); i = max rank 1 - 1 in
      if i \<ge> length sorted' then Inl UndefinedBehaviour else Inr (sorted' ! i))"

definition quantiles :: "('d, 'f, 'y) chain_ops_scheme \<Rightarrow> 'f list \<Rightarrow> 'f quantile_pair result" where
  "quantiles F xs =
     (let xs = sort_doubles F xs in
      bind (nearestRank F xs (f_lit F 5 10)) (\<lambda>p50.
      bind (nearestRank F xs (f_lit F 9 10)) (\<lambda>p90. Inr \<lparr>q_p50 = p50, q_p90 = p90\<rparr>)))"

definition favorableUp :: "('d, 'f, 'y) chain_ops_scheme \<Rightarrow> 'f activity \<Rightarrow> bool" where
  "favorableUp F a =
     (case ac_TYPE a of
        DirectionalMove \<Rightarrow> f_leq F (f_lit F 0 1) (ac_MOVE_PERCENT a)
      | NewExtreme \<Rightarrow> ac_DIRECTION a \<ge> 0
      | RangeRelativeMove \<Rightarrow> ac_DIRECTION a \<ge> 0
      | StaysInBand \<Rightarrow> True)"

definition summariseExcursions ::
  "('d, 'f, 'y) chain_ops_scheme \<Rightarrow> excursion_sample list \<Rightarrow> bool \<Rightarrow> 'f excursion_stats option result" where
  "summariseExcursions F samples up =
     (let favorable = (\<lambda>s. f_lit F (if up then ex_abovePoints s else ex_belowPoints s) 1);
          adverse = (\<lambda>s. f_lit F (if up then ex_belowPoints s else ex_abovePoints s) 1);
          percent = (\<lambda>points s. f_div F (f_mult F (f_lit F 100 1) (points s)) (f_lit F (ex_anchorMid s) 1)) in
      if samples = [] then Inr None
      else bind (quantiles F (map favorable samples)) (\<lambda>mfe.
           bind (quantiles F (map adverse samples)) (\<lambda>mae.
           bind (quantiles F (map (percent favorable) samples)) (\<lambda>mfePercent.
           bind (quantiles F (map (percent adverse) samples)) (\<lambda>maePercent.
             Inr (Some \<lparr>xs_samples = length samples, xs_mfePoints = mfe, xs_maePoints = mae,
                        xs_mfePercent = mfePercent, xs_maePercent = maePercent\<rparr>))))))"

subsection \<open>The scan\<close>

datatype experiment_error = Invalid_chain string | Fault cpp_error

definition chain_valid :: "string + 'a \<Rightarrow> experiment_error + 'a" where
  "chain_valid r = (case r of Inl e \<Rightarrow> Inl (Invalid_chain e) | Inr x \<Rightarrow> Inr x)"

definition defined :: "'a result \<Rightarrow> experiment_error + 'a" where
  "defined r = (case r of Inl e \<Rightarrow> Inl (Fault e) | Inr x \<Rightarrow> Inr x)"

record symbol_span =
  sp_ticks :: nat
  sp_minTs :: time
  sp_maxTs :: time

definition no_span :: symbol_span where
  "no_span = \<lparr>sp_ticks = 0, sp_minTs = 9223372036854775807, sp_maxTs = - 9223372036854775808\<rparr>"

definition widen :: "time \<Rightarrow> symbol_span \<Rightarrow> symbol_span" where
  "widen ts sp = \<lparr>sp_ticks = sp_ticks sp + 1, sp_minTs = min (sp_minTs sp) ts, sp_maxTs = max (sp_maxTs sp) ts\<rparr>"

record scan_state =
  sc_matchers :: "(string \<times> chain_matcher) list"
  sc_spans :: "(string \<times> symbol_span) list"
  sc_months :: "(string \<times> nat) list"
  sc_hours :: "nat list"
  sc_span :: symbol_span

definition new_scan :: scan_state where
  "new_scan = \<lparr>sc_matchers = [], sc_spans = [], sc_months = [], sc_hours = replicate 24 0, sc_span = no_span\<rparr>"

definition month_label :: "time \<Rightarrow> string" where
  "month_label ts = (let day = floor_days ts in padded 4 (year_of day) @ ''-'' @ padded 2 (int (month_of day)))"

definition hour_utc :: "time \<Rightarrow> nat" where
  "hour_utc ts = nat (since_midnight ts div 3600000000)"

text \<open>\<open>++map[k]\<close>.\<close>

definition bump :: "string \<Rightarrow> (string \<times> nat) list \<Rightarrow> (string \<times> nat) list" where
  "bump k counts = map_put k (case map_of counts k of None \<Rightarrow> 1 | Some n \<Rightarrow> n + 1) counts"

definition bucket_match :: "time \<Rightarrow> scan_state \<Rightarrow> scan_state" where
  "bucket_match ts st =
     st\<lparr>sc_months := bump (month_label ts) (sc_months st),
        sc_hours := (sc_hours st)[hour_utc ts := sc_hours st ! hour_utc ts + 1]\<rparr>"

definition span_of :: "string \<Rightarrow> (string \<times> symbol_span) list \<Rightarrow> symbol_span" where
  "span_of symbol spans = (case map_of spans symbol of None \<Rightarrow> no_span | Some s \<Rightarrow> s)"

definition tick_mid :: "price_data \<Rightarrow> int" where
  "tick_mid tick = i32 (cdiv (p_ask tick + p_bid tick) 2)"

definition tick_spread :: "price_data \<Rightarrow> int" where
  "tick_spread tick = i32 (p_ask tick - p_bid tick)"

definition scan_tick ::
  "('d, 'f, 'y) chain_ops_scheme \<Rightarrow> 'f experiment_config \<Rightarrow> price_data \<Rightarrow> scan_state \<Rightarrow> experiment_error + scan_state" where
  "scan_tick F config tick st =
     (let ts = p_timestamp tick; symbol = p_symbol tick in
      bind (case map_of (sc_matchers st) symbol of
              Some m \<Rightarrow> Inr m
            | None \<Rightarrow> chain_valid (new_matcher F config kMaxAttemptSamples)) (\<lambda>matcher.
      bind (defined (on_tick (tick_mid tick) (tick_spread tick) ts matcher)) (\<lambda>matcher'.
        let st = st\<lparr>sc_matchers := map_put symbol matcher' (sc_matchers st)\<rparr>;
            st = (if ms_occurrences (cm_stats matcher') > ms_occurrences (cm_stats matcher)
                  then bucket_match ts st else st) in
        Inr (st\<lparr>sc_spans := map_put symbol (widen ts (span_of symbol (sc_spans st))) (sc_spans st),
                sc_span := widen ts (sc_span st)\<rparr>))))"

fun scan_ticks ::
  "('d, 'f, 'y) chain_ops_scheme \<Rightarrow> 'f experiment_config \<Rightarrow> price_data list \<Rightarrow> scan_state \<Rightarrow> experiment_error + scan_state" where
  "scan_ticks F config [] st = Inr st"
| "scan_ticks F config (tick # ticks) st = bind (scan_tick F config tick st) (scan_ticks F config ticks)"

subsection \<open>The outcome\<close>

definition days_between :: "('d, 'f, 'y) chain_ops_scheme \<Rightarrow> symbol_span \<Rightarrow> 'f" where
  "days_between F sp = f_div F (f_lit F (sp_maxTs sp - sp_minTs sp) 1) (f_lit F 86400000000 1)"

record 'f gathered =
  ga_outcome :: "'f experiment_outcome"
  ga_completed :: "excursion_sample list"
  ga_failed :: "excursion_sample list"
  ga_seconds :: "'f list"
  ga_spreadSum :: int
  ga_spreadCount :: nat

fun add_counts :: "nat list \<Rightarrow> nat list \<Rightarrow> nat list result" where
  "add_counts counts [] = Inr counts"
| "add_counts [] (n # ns) = Inl UndefinedBehaviour"
| "add_counts (c # counts) (n # ns) = bind (add_counts counts ns) (\<lambda>cs. Inr ((c + n) # cs))"

definition gather ::
  "('d, 'f, 'y) chain_ops_scheme \<Rightarrow> (string \<times> symbol_span) list \<Rightarrow> string \<times> chain_matcher \<Rightarrow> 'f gathered \<Rightarrow> 'f gathered result" where
  "gather F spans entry g =
     (let symbol = fst entry; s = cm_stats (snd entry); out = ga_outcome g in
      bind (add_counts (xo_failuresByLeg out) (ms_failuresByLeg s)) (\<lambda>failures.
      case map_of spans symbol of
        None \<Rightarrow> Inl OutOfRange
      | Some sp \<Rightarrow>
          Inr \<lparr>ga_outcome = out\<lparr>
                 xo_occurrences := xo_occurrences out + ms_occurrences s,
                 xo_attempts := xo_attempts out + ms_attempts s,
                 xo_failuresByLeg := failures,
                 xo_perSymbol := map_put symbol
                   \<lparr>so_occurrences = ms_occurrences s, so_ticksScanned = sp_ticks sp, so_daysSpanned = days_between F sp\<rparr>
                   (xo_perSymbol out),
                 xo_occurrencesBySymbol := map_put symbol (ms_occurrences s) (xo_occurrencesBySymbol out),
                 xo_samplesTruncated := xo_samplesTruncated out \<or> ms_samplesTruncated s\<rparr>,
               ga_completed = ga_completed g @ ms_completedExcursions s,
               ga_failed = ga_failed g @ ms_failedExcursions s,
               ga_seconds = ga_seconds g @ map (\<lambda>n. f_lit F n 1) (ms_completionSeconds s),
               ga_spreadSum = i64 (ga_spreadSum g + ms_spreadAtTriggerSum s),
               ga_spreadCount = ga_spreadCount g + ms_spreadAtTriggerCount s\<rparr>))"

definition new_outcome ::
  "('d, 'f, 'y) chain_ops_scheme \<Rightarrow> 'f experiment_config \<Rightarrow> nat \<Rightarrow> scan_state \<Rightarrow> 'f experiment_outcome" where
  "new_outcome F config n st =
     \<lparr>xo_occurrences = 0, xo_ticksScanned = n,
      xo_daysSpanned = (if n = 0 then f_lit F 0 1 else days_between F (sc_span st)), xo_attempts = 0,
      xo_failuresByLeg = replicate (length (xc_CHAIN config)) 0, xo_occurrencesByMonth = sc_months st,
      xo_occurrencesByHourUtc = sc_hours st, xo_perSymbol = [], xo_occurrencesBySymbol = [],
      xo_completedAttempts = None, xo_failedAttempts = None, xo_completionSeconds = None,
      xo_meanSpreadAtTriggerPoints = None, xo_excursionOrientation = [], xo_samplesTruncated = False\<rparr>"

definition finish_outcome ::
  "('d, 'f, 'y) chain_ops_scheme \<Rightarrow> 'f experiment_config \<Rightarrow> 'f gathered \<Rightarrow> 'f experiment_outcome result" where
  "finish_outcome F config g =
     (let up = favorableUp F (last (xc_CHAIN config)) in
      bind (summariseExcursions F (ga_completed g) up) (\<lambda>completed.
      bind (summariseExcursions F (ga_failed g) up) (\<lambda>failed.
      bind (if ga_seconds g = [] then Inr None else bind (quantiles F (ga_seconds g)) (\<lambda>q. Inr (Some q))) (\<lambda>seconds.
        Inr ((ga_outcome g)\<lparr>xo_completedAttempts := completed, xo_failedAttempts := failed, xo_completionSeconds := seconds,
               xo_meanSpreadAtTriggerPoints :=
                 (if ga_spreadCount g > 0
                  then Some (f_div F (f_lit F (ga_spreadSum g) 1) (f_lit F (int (ga_spreadCount g)) 1)) else None),
               xo_excursionOrientation := (if up then ''up'' else ''down'')\<rparr>)))))"

definition evaluateExperiment ::
  "('d, 'f, 'y) chain_ops_scheme \<Rightarrow> price_data list \<Rightarrow> 'f experiment_config \<Rightarrow> experiment_error + 'f experiment_outcome" where
  "evaluateExperiment F ticks config =
     bind (chain_valid (new_matcher F config kMaxAttemptSamples)) (\<lambda>validation.
     bind (scan_ticks F config ticks new_scan) (\<lambda>st.
       defined (bind (res_fold (gather F (sc_spans st)) (sc_matchers st)
                  \<lparr>ga_outcome = new_outcome F config (length ticks) st, ga_completed = [], ga_failed = [], ga_seconds = [],
                   ga_spreadSum = 0, ga_spreadCount = 0\<rparr>)
                (finish_outcome F config))))"

subsection \<open>Sums over a map\<close>

definition total_of :: "('v \<Rightarrow> nat) \<Rightarrow> (string \<times> 'v) list \<Rightarrow> nat" where
  "total_of f kvs = sum_list (map (f \<circ> snd) kvs)"

lemma total_of_put:
  "sorted_wrt (<) (map fst kvs) \<Longrightarrow>
   total_of f (map_put k v kvs) + (case map_of kvs k of None \<Rightarrow> 0 | Some w \<Rightarrow> f w) = total_of f kvs + f v"
proof (induction k v kvs rule: map_put.induct)
  case (2 k v k' v' kvs)
  show ?case
  proof (cases "k < k'")
    case True
    with 2(2) have "map_of kvs k = None" by (auto simp: map_of_eq_None_iff dest: less_trans less_asym)
    with True show ?thesis by (simp add: total_of_def)
  next
    case False
    with 2 show ?thesis by (auto simp: total_of_def)
  qed
qed (simp add: total_of_def)

lemma keys_put_cong: "map fst kvs = map fst kws \<Longrightarrow> map fst (map_put k v kvs) = map fst (map_put k w kws)"
proof (induction k v kvs arbitrary: kws rule: map_put.induct)
  case (2 k v k' v' kvs)
  then show ?case by (cases kws) auto
qed simp

lemma total_bump: "sorted_wrt (<) (map fst counts) \<Longrightarrow> total_of id (bump k counts) = Suc (total_of id counts)"
  using total_of_put [of counts id k "case map_of counts k of None \<Rightarrow> 1 | Some n \<Rightarrow> n + 1"]
  by (auto simp: bump_def split: option.splits)

lemma sorted_bump: "sorted_wrt (<) (map fst counts) \<Longrightarrow> sorted_wrt (<) (map fst (bump k counts))"
  by (simp add: bump_def sorted_map_put)

subsection \<open>The scan demuxes\<close>

definition own_ticks :: "symbol \<Rightarrow> price_data list \<Rightarrow> price_data list" where
  "own_ticks symbol ticks = filter (\<lambda>t. p_symbol t = symbol) ticks"

text \<open>The matcher of one symbol, fed with its ticks alone.\<close>

definition matched_alone :: "chain_matcher \<Rightarrow> symbol \<Rightarrow> price_data list \<Rightarrow> chain_matcher result" where
  "matched_alone m symbol ticks =
     matcher_run (map (\<lambda>t. (tick_mid t, tick_spread t, p_timestamp t)) (own_ticks symbol ticks)) m"

definition occurrences :: "chain_matcher \<Rightarrow> nat" where
  "occurrences m = ms_occurrences (cm_stats m)"

definition demuxed :: "chain_matcher \<Rightarrow> price_data list \<Rightarrow> scan_state \<Rightarrow> bool" where
  "demuxed m0 ticks st \<longleftrightarrow>
     sorted_wrt (<) (map fst (sc_matchers st)) \<and> map fst (sc_spans st) = map fst (sc_matchers st)
     \<and> (\<forall>symbol. case map_of (sc_matchers st) symbol of
                   None \<Rightarrow> own_ticks symbol ticks = []
                 | Some m \<Rightarrow> own_ticks symbol ticks \<noteq> [] \<and> matched_alone m0 symbol ticks = Inr m)
     \<and> (\<forall>symbol. sp_ticks (span_of symbol (sc_spans st)) = length (own_ticks symbol ticks))
     \<and> length (sc_hours st) = 24 \<and> sum_list (sc_hours st) = total_of occurrences (sc_matchers st)
     \<and> sorted_wrt (<) (map fst (sc_months st)) \<and> total_of id (sc_months st) = total_of occurrences (sc_matchers st)"

lemma hour_utc_bound: "hour_utc ts < 24"
proof -
  have "0 \<le> since_midnight ts" "since_midnight ts < 86400000000"
    by (simp_all add: since_midnight_def floor_days_def micros_per_day_def minus_div_mult_eq_mod)
  then show ?thesis by (simp add: hour_utc_def)
qed

lemma own_ticks_snoc:
  "own_ticks symbol (ticks @ [tick]) = own_ticks symbol ticks @ (if p_symbol tick = symbol then [tick] else [])"
  by (simp add: own_ticks_def)

lemma matched_alone_ok:
  "matcher_ok m0 \<Longrightarrow> \<exists>m. matched_alone m0 symbol ticks = Inr m \<and> matcher_ok m \<and> length (cm_legs m) = length (cm_legs m0)"
  unfolding matched_alone_def using matcher_run_ok by blast

lemma matched_alone_snoc:
  assumes "matched_alone m0 (p_symbol tick) ticks = Inr m"
  shows "matched_alone m0 (p_symbol tick) (ticks @ [tick]) = on_tick (tick_mid tick) (tick_spread tick) (p_timestamp tick) m"
  using assms by (simp add: matched_alone_def own_ticks_snoc matcher_run_def res_fold_append split: sum.split)

lemma span_of_put: "span_of s (map_put k v spans) = (if s = k then v else span_of s spans)"
  by (simp add: span_of_def)

lemma scan_tick_demuxed:
  assumes st: "demuxed m0 ticks st" and new: "new_matcher F config kMaxAttemptSamples = Inr m0"
  shows "\<exists>st'. scan_tick F config tick st = Inr st' \<and> demuxed m0 (ticks @ [tick]) st'"
proof -
  define s ts where "s = p_symbol tick" and "ts = p_timestamp tick"
  define m where "m = (case map_of (sc_matchers st) s of None \<Rightarrow> m0 | Some m \<Rightarrow> m)"
  have m: "matched_alone m0 s ticks = Inr m"
    using st by (auto simp: demuxed_def m_def matched_alone_def matcher_run_def dest: spec [of _ s] split: option.split)
  moreover have "matcher_ok m" using matched_alone_ok [OF new_matcher_ok(1) [OF new], of s ticks] m by auto
  ultimately obtain m' where m': "on_tick (tick_mid tick) (tick_spread tick) ts m = Inr m'" "step_ok m m'"
      "matched_alone m0 s (ticks @ [tick]) = Inr m'"
    using on_tick_ok [of m "tick_mid tick" "tick_spread tick" ts] matched_alone_snoc by (auto simp: s_def ts_def)
  define put where "put = st\<lparr>sc_matchers := map_put s m' (sc_matchers st)\<rparr>"
  define hit where "hit = (if occurrences m' > occurrences m then bucket_match ts put else put)"
  define st' where "st' = hit\<lparr>sc_spans := map_put s (widen ts (span_of s (sc_spans hit))) (sc_spans hit),
      sc_span := widen ts (sc_span hit)\<rparr>"
  have "scan_tick F config tick st = Inr st'"
    using m'(1) by (auto simp: scan_tick_def Let_def s_def ts_def m_def new chain_valid_def defined_def put_def hit_def
      st'_def occurrences_def split: option.splits)
  moreover have "demuxed m0 (ticks @ [tick]) st'"
  proof -
    have old: "occurrences m = (case map_of (sc_matchers st) s of None \<Rightarrow> 0 | Some w \<Rightarrow> occurrences w)"
      using new_matcher_ok(3) [OF new] by (simp add: m_def occurrences_def split: option.split)
    have sorted: "sorted_wrt (<) (map fst (sc_matchers st))" "sorted_wrt (<) (map fst (sc_months st))"
      using st by (simp_all add: demuxed_def)
    have sums: "total_of occurrences (sc_matchers st') + occurrences m = total_of occurrences (sc_matchers st) + occurrences m'"
      using total_of_put [OF sorted(1), of occurrences s m'] old
      by (auto simp: st'_def hit_def put_def bucket_match_def split: option.splits)
    have step: "occurrences m' = occurrences m \<or> occurrences m' = Suc (occurrences m)"
      using m'(2) by (simp add: step_ok_def occurrences_def)
    have matchers: "sc_matchers st' = map_put s m' (sc_matchers st)"
        "sc_spans st' = map_put s (widen ts (span_of s (sc_spans st))) (sc_spans st)"
      by (simp_all add: st'_def hit_def put_def bucket_match_def)
    have months: "total_of id (sc_months st') = total_of occurrences (sc_matchers st')"
        "sum_list (sc_hours st') = total_of occurrences (sc_matchers st')" "length (sc_hours st') = 24"
        "sorted_wrt (<) (map fst (sc_months st'))"
      using st sums step total_bump [OF sorted(2)] sorted_bump [OF sorted(2)] hour_utc_bound [of ts]
        sum_list_bump [of "hour_utc ts" "sc_hours st"]
      by (auto simp: demuxed_def st'_def hit_def put_def bucket_match_def)
    have "own_ticks s (ticks @ [tick]) \<noteq> []" by (simp add: own_ticks_snoc s_def)
    then have own: "case map_of (sc_matchers st') symbol of
                   None \<Rightarrow> own_ticks symbol (ticks @ [tick]) = []
                 | Some m \<Rightarrow> own_ticks symbol (ticks @ [tick]) \<noteq> [] \<and> matched_alone m0 symbol (ticks @ [tick]) = Inr m"
      for symbol
    proof (cases "symbol = s")
      case False
      then have eq: "own_ticks symbol (ticks @ [tick]) = own_ticks symbol ticks" by (simp add: own_ticks_snoc s_def)
      then have "matched_alone m0 symbol (ticks @ [tick]) = matched_alone m0 symbol ticks" by (simp add: matched_alone_def)
      moreover have "case map_of (sc_matchers st) symbol of None \<Rightarrow> own_ticks symbol ticks = []
          | Some m \<Rightarrow> own_ticks symbol ticks \<noteq> [] \<and> matched_alone m0 symbol ticks = Inr m"
        using st by (simp only: demuxed_def)
      ultimately show ?thesis using False by (simp add: matchers eq split: option.splits)
    qed (use m'(3) in \<open>simp add: matchers\<close>)
    moreover have "\<forall>symbol. sp_ticks (span_of symbol (sc_spans st')) = length (own_ticks symbol (ticks @ [tick]))"
      using st by (simp add: demuxed_def matchers span_of_put own_ticks_snoc s_def widen_def)
    moreover have "map fst (sc_spans st') = map fst (sc_matchers st')"
      unfolding matchers by (rule keys_put_cong) (use st in \<open>simp add: demuxed_def\<close>)
    ultimately show ?thesis
      using months own sorted_map_put [OF sorted(1)] by (simp add: demuxed_def matchers(1))
  qed
  ultimately show ?thesis by blast
qed

lemma scan_ticks_demuxed:
  assumes "new_matcher F config kMaxAttemptSamples = Inr m0" "demuxed m0 seen st"
  shows "\<exists>st'. scan_ticks F config ticks st = Inr st' \<and> demuxed m0 (seen @ ticks) st'"
  using assms(2)
proof (induction ticks arbitrary: seen st)
  case (Cons tick ticks)
  obtain st1 where st1: "scan_tick F config tick st = Inr st1" "demuxed m0 (seen @ [tick]) st1"
    using scan_tick_demuxed [OF Cons.prems assms(1), of tick] by (elim exE conjE) (rule that)
  with Cons.IH [OF st1(2)] show ?case by simp
qed simp

lemma demuxed_new: "demuxed m0 [] new_scan"
  by (simp add: demuxed_def new_scan_def own_ticks_def span_of_def no_span_def total_of_def sum_list_replicate)

subsection \<open>The sums\<close>

lemma add_counts_ok:
  "length ns \<le> length cs \<Longrightarrow> \<exists>ds. add_counts cs ns = Inr ds \<and> length ds = length cs \<and> sum_list ds = sum_list cs + sum_list ns"
proof (induction cs ns rule: add_counts.induct)
  case (3 c counts n ns)
  then show ?case by auto
qed auto

definition outcome_of ::
  "('d, 'f, 'y) chain_ops_scheme \<Rightarrow> (string \<times> symbol_span) list \<Rightarrow> string \<times> chain_matcher \<Rightarrow> string \<times> 'f symbol_outcome" where
  "outcome_of F spans entry =
     (fst entry, \<lparr>so_occurrences = occurrences (snd entry), so_ticksScanned = sp_ticks (span_of (fst entry) spans),
                  so_daysSpanned = days_between F (span_of (fst entry) spans)\<rparr>)"

definition attempts :: "chain_matcher \<Rightarrow> nat" where
  "attempts m = ms_attempts (cm_stats m)"

definition failures :: "chain_matcher \<Rightarrow> nat" where
  "failures m = sum_list (ms_failuresByLeg (cm_stats m))"

definition same_scan :: "'f experiment_outcome \<Rightarrow> 'f experiment_outcome \<Rightarrow> bool" where
  "same_scan a b \<longleftrightarrow> xo_ticksScanned b = xo_ticksScanned a \<and> xo_occurrencesByMonth b = xo_occurrencesByMonth a
     \<and> xo_occurrencesByHourUtc b = xo_occurrencesByHourUtc a"

lemma gather_all:
  assumes "\<forall>e \<in> set entries. length (ms_failuresByLeg (cm_stats (snd e))) = length (xo_failuresByLeg (ga_outcome g))
             \<and> map_of spans (fst e) \<noteq> None"
    and "sorted_wrt (<) (map fst (xo_perSymbol (ga_outcome g)) @ map fst entries)"
    and "map fst (xo_perSymbol (ga_outcome g)) = map fst (xo_occurrencesBySymbol (ga_outcome g))"
  shows "\<exists>g'. res_fold (gather F spans) entries g = Inr g'
    \<and> xo_occurrences (ga_outcome g') = xo_occurrences (ga_outcome g) + total_of occurrences entries
    \<and> xo_attempts (ga_outcome g') = xo_attempts (ga_outcome g) + total_of attempts entries
    \<and> sum_list (xo_failuresByLeg (ga_outcome g')) = sum_list (xo_failuresByLeg (ga_outcome g)) + total_of failures entries
    \<and> xo_perSymbol (ga_outcome g') = xo_perSymbol (ga_outcome g) @ map (outcome_of F spans) entries
    \<and> xo_occurrencesBySymbol (ga_outcome g') =
        xo_occurrencesBySymbol (ga_outcome g) @ map (\<lambda>(s, m). (s, occurrences m)) entries
    \<and> same_scan (ga_outcome g) (ga_outcome g')"
  using assms
proof (induction entries arbitrary: g)
  case (Cons e entries)
  let ?o = "ga_outcome g" and ?s = "cm_stats (snd e)"
  obtain fs where fs: "add_counts (xo_failuresByLeg ?o) (ms_failuresByLeg ?s) = Inr fs"
      "length fs = length (xo_failuresByLeg ?o)" "sum_list fs = sum_list (xo_failuresByLeg ?o) + failures (snd e)"
    using add_counts_ok [of "ms_failuresByLeg ?s" "xo_failuresByLeg ?o"] Cons.prems(1) by (auto simp: failures_def)
  obtain sp where sp: "map_of spans (fst e) = Some sp" using Cons.prems(1) by auto
  have after: "\<forall>k' \<in> set (map fst (xo_perSymbol ?o)). k' < fst e"
    using Cons.prems(2) by (simp add: sorted_wrt_append)
  have puts: "map_put (fst e) v (xo_perSymbol ?o) = xo_perSymbol ?o @ [(fst e, v)]"
      "map_put (fst e) w (xo_occurrencesBySymbol ?o) = xo_occurrencesBySymbol ?o @ [(fst e, w)]" for v w
    using after Cons.prems(3) by (auto intro!: map_put_last)
  define g1 where "g1 = \<lparr>ga_outcome = ?o\<lparr>
                 xo_occurrences := xo_occurrences ?o + ms_occurrences ?s, xo_attempts := xo_attempts ?o + ms_attempts ?s,
                 xo_failuresByLeg := fs, xo_perSymbol := xo_perSymbol ?o @ [outcome_of F spans e],
                 xo_occurrencesBySymbol := xo_occurrencesBySymbol ?o @ [(fst e, occurrences (snd e))],
                 xo_samplesTruncated := xo_samplesTruncated ?o \<or> ms_samplesTruncated ?s\<rparr>,
               ga_completed = ga_completed g @ ms_completedExcursions ?s,
               ga_failed = ga_failed g @ ms_failedExcursions ?s,
               ga_seconds = ga_seconds g @ map (\<lambda>n. f_lit F n 1) (ms_completionSeconds ?s),
               ga_spreadSum = i64 (ga_spreadSum g + ms_spreadAtTriggerSum ?s),
               ga_spreadCount = ga_spreadCount g + ms_spreadAtTriggerCount ?s\<rparr>"
  have "gather F spans e g = Inr g1"
    by (simp add: gather_def Let_def fs(1) sp puts g1_def outcome_of_def occurrences_def span_of_def)
  moreover have "\<exists>g'. res_fold (gather F spans) entries g1 = Inr g'
    \<and> xo_occurrences (ga_outcome g') = xo_occurrences (ga_outcome g1) + total_of occurrences entries
    \<and> xo_attempts (ga_outcome g') = xo_attempts (ga_outcome g1) + total_of attempts entries
    \<and> sum_list (xo_failuresByLeg (ga_outcome g')) = sum_list (xo_failuresByLeg (ga_outcome g1)) + total_of failures entries
    \<and> xo_perSymbol (ga_outcome g') = xo_perSymbol (ga_outcome g1) @ map (outcome_of F spans) entries
    \<and> xo_occurrencesBySymbol (ga_outcome g') =
        xo_occurrencesBySymbol (ga_outcome g1) @ map (\<lambda>(s, m). (s, occurrences m)) entries
    \<and> same_scan (ga_outcome g1) (ga_outcome g')"
    by (rule Cons.IH) (use Cons.prems fs(2) in \<open>simp_all add: g1_def outcome_of_def\<close>)
  moreover have "ms_occurrences ?s = occurrences (snd e)" "ms_attempts ?s = attempts (snd e)"
    by (simp_all add: occurrences_def attempts_def)
  ultimately show ?case
    using fs(3) by (auto simp: g1_def total_of_def same_scan_def split_beta)
qed (simp add: total_of_def same_scan_def)

subsection \<open>The percentiles exist\<close>

definition ranks_ok :: "('d, 'f, 'y) chain_ops_scheme \<Rightarrow> bool" where
  "ranks_ok F \<longleftrightarrow> (\<forall>n > 0. f_ceil F (f_mult F (f_lit F 5 10) (f_lit F n 1)) \<le> n
                       \<and> f_ceil F (f_mult F (f_lit F 9 10) (f_lit F n 1)) \<le> n)"

lemma length_insert_double [simp]: "length (insert_double F x xs) = Suc (length xs)"
  by (induction xs) auto

lemma length_sort_doubles [simp]: "length (sort_doubles F xs) = length xs"
  unfolding sort_doubles_def by (induction xs) auto

lemma rank_index: "r \<le> length xs \<Longrightarrow> xs \<noteq> [] \<Longrightarrow> max r 1 - 1 < length xs" for r :: nat
  by (cases xs; cases r) auto

lemma quantiles_exist:
  assumes "ranks_ok F" "xs \<noteq> []"
  shows "\<exists>q. quantiles F xs = Inr q"
proof -
  have "nat (f_ceil F (f_mult F (f_lit F k 10) (f_lit F (int (length xs)) 1))) \<le> length xs" if "k = 5 \<or> k = 9" for k
    using assms that by (auto simp: ranks_ok_def nat_le_iff)
  then have "max (nat (f_ceil F (f_mult F (f_lit F k 10) (f_lit F (int (length xs)) 1)))) 1 - 1 < length xs"
    if "k = 5 \<or> k = 9" for k
    using rank_index that assms(2) by blast
  then have "\<exists>x. nearestRank F (sort_doubles F xs) (f_lit F k 10) = Inr x" if "k = 5 \<or> k = 9" for k
    using that by (simp add: nearestRank_def Let_def not_le)
  from this [of 5] this [of 9] show ?thesis by (auto simp: quantiles_def Let_def)
qed

lemma excursions_exist: "ranks_ok F \<Longrightarrow> \<exists>r. summariseExcursions F samples up = Inr r"
proof -
  assume F: "ranks_ok F"
  have q: "\<exists>q. quantiles F (map f samples) = Inr q" if "samples \<noteq> []" for f
    using quantiles_exist [OF F] that by simp
  show ?thesis
  proof (cases "samples = []")
    case False
    define favorable adverse percent
      where "favorable = (\<lambda>s :: excursion_sample. f_lit F (if up then ex_abovePoints s else ex_belowPoints s) 1)"
        and "adverse = (\<lambda>s :: excursion_sample. f_lit F (if up then ex_belowPoints s else ex_abovePoints s) 1)"
        and "percent = (\<lambda>points (s :: excursion_sample). f_div F (f_mult F (f_lit F 100 1) (points s)) (f_lit F (ex_anchorMid s) 1))"
    from q [OF False, of favorable] q [OF False, of adverse] q [OF False, of "percent favorable"]
      q [OF False, of "percent adverse"] False
    show ?thesis
      by (auto simp: summariseExcursions_def Let_def simp flip: favorable_def adverse_def percent_def)
  qed (simp add: summariseExcursions_def)
qed

lemma finish_exists:
  assumes "ranks_ok F"
  shows "\<exists>out. finish_outcome F config g = Inr out \<and> xo_occurrences out = xo_occurrences (ga_outcome g)
    \<and> xo_attempts out = xo_attempts (ga_outcome g) \<and> xo_failuresByLeg out = xo_failuresByLeg (ga_outcome g)
    \<and> xo_perSymbol out = xo_perSymbol (ga_outcome g) \<and> xo_occurrencesBySymbol out = xo_occurrencesBySymbol (ga_outcome g)
    \<and> same_scan (ga_outcome g) out"
proof -
  let ?up = "favorableUp F (last (xc_CHAIN config))"
  obtain c where c: "summariseExcursions F (ga_completed g) ?up = Inr c" using excursions_exist [OF assms] by blast
  obtain f where f: "summariseExcursions F (ga_failed g) ?up = Inr f" using excursions_exist [OF assms] by blast
  obtain s where s: "(if ga_seconds g = [] then Inr None else bind (quantiles F (ga_seconds g)) (\<lambda>q. Inr (Some q))) = Inr s"
    using quantiles_exist [OF assms, of "ga_seconds g"] by (cases "ga_seconds g = []") auto
  show ?thesis by (simp add: finish_outcome_def Let_def c f s same_scan_def)
qed

lemma demuxed_matchers:
  assumes "demuxed m0 ticks st" "new_matcher F config kMaxAttemptSamples = Inr m0" "e \<in> set (sc_matchers st)"
  shows "matcher_ok (snd e) \<and> length (cm_legs (snd e)) = length (xc_CHAIN config)"
proof -
  have "distinct (map fst (sc_matchers st))"
    using assms(1) by (simp add: demuxed_def strict_sorted_iff)
  then have "map_of (sc_matchers st) (fst e) = Some (snd e)" using assms(3) by simp
  then have "matched_alone m0 (fst e) ticks = Inr (snd e)"
    using assms(1) by (auto simp: demuxed_def dest: spec [of _ "fst e"])
  with matched_alone_ok [OF new_matcher_ok(1) [OF assms(2)], of "fst e" ticks] new_matcher_ok(5) [OF assms(2)]
  show ?thesis by simp
qed

lemma attempts_between:
  assumes "\<And>e. e \<in> set ms \<Longrightarrow> matcher_ok (snd e)"
  shows "total_of occurrences ms + total_of failures ms \<le> total_of attempts ms
    \<and> total_of attempts ms \<le> total_of occurrences ms + total_of failures ms + length ms"
  using assms
proof (induction ms)
  case (Cons e ms)
  have "occurrences (snd e) + failures (snd e) \<le> attempts (snd e)
      \<and> attempts (snd e) \<le> occurrences (snd e) + failures (snd e) + 1"
    using Cons.prems [of e] by (simp add: matcher_ok_def books_def Let_def occurrences_def failures_def attempts_def)
  moreover have "total_of f (e # ms) = f (snd e) + total_of f ms" for f by (simp add: total_of_def)
  ultimately show ?case using Cons by fastforce
qed (simp add: total_of_def)

lemma per_symbol_counts:
  assumes "demuxed m0 ticks st"
  shows "case map_of (map (outcome_of F (sc_spans st)) (sc_matchers st)) symbol of
          None \<Rightarrow> own_ticks symbol ticks = []
        | Some so \<Rightarrow> own_ticks symbol ticks \<noteq> [] \<and> so_ticksScanned so = length (own_ticks symbol ticks)
            \<and> (\<exists>m. matched_alone m0 symbol ticks = Inr m \<and> so_occurrences so = ms_occurrences (cm_stats m))"
proof -
  have lookup: "map_of (map (outcome_of F (sc_spans st)) ms) symbol =
      map_option (\<lambda>m. snd (outcome_of F (sc_spans st) (symbol, m))) (map_of ms symbol)" for ms
    by (induction ms) (auto simp: outcome_of_def)
  have "case map_of (sc_matchers st) symbol of
                   None \<Rightarrow> own_ticks symbol ticks = []
                 | Some m \<Rightarrow> own_ticks symbol ticks \<noteq> [] \<and> matched_alone m0 symbol ticks = Inr m"
      "sp_ticks (span_of symbol (sc_spans st)) = length (own_ticks symbol ticks)"
    using assms by (simp_all only: demuxed_def)
  then show ?thesis
    by (cases "map_of (sc_matchers st) symbol") (simp_all add: lookup outcome_of_def occurrences_def)
qed

lemma evaluate_gathers:
  assumes F: "ranks_ok F" and new: "new_matcher F config kMaxAttemptSamples = Inr m0" and st: "demuxed m0 ticks st"
    and scan: "scan_ticks F config ticks new_scan = Inr st"
  shows "\<exists>out. evaluateExperiment F ticks config = Inr out \<and> xo_occurrences out = total_of occurrences (sc_matchers st)
    \<and> xo_attempts out = total_of attempts (sc_matchers st) \<and> sum_list (xo_failuresByLeg out) = total_of failures (sc_matchers st)
    \<and> xo_perSymbol out = map (outcome_of F (sc_spans st)) (sc_matchers st)
    \<and> xo_occurrencesBySymbol out = map (\<lambda>(s, m). (s, occurrences m)) (sc_matchers st)
    \<and> same_scan (new_outcome F config (length ticks) st) out"
proof -
  let ?ms = "sc_matchers st"
  let ?g = "\<lparr>ga_outcome = new_outcome F config (length ticks) st, ga_completed = [], ga_failed = [], ga_seconds = [],
              ga_spreadSum = 0, ga_spreadCount = 0\<rparr>"
  have g: "length (ms_failuresByLeg (cm_stats (snd e))) = length (xo_failuresByLeg (ga_outcome ?g))
             \<and> map_of (sc_spans st) (fst e) \<noteq> None" if e: "e \<in> set ?ms" for e
  proof
    show "length (ms_failuresByLeg (cm_stats (snd e))) = length (xo_failuresByLeg (ga_outcome ?g))"
      using demuxed_matchers [OF st new e] by (simp add: new_outcome_def matcher_ok_def books_def Let_def)
    have "set (map fst (sc_spans st)) = set (map fst ?ms)" using st by (simp only: demuxed_def)
    moreover have "fst e \<in> set (map fst ?ms)" using e by simp
    ultimately show "map_of (sc_spans st) (fst e) \<noteq> None" unfolding map_of_eq_None_iff set_map [symmetric] by blast
  qed
  have sorted: "sorted_wrt (<) (map fst ?ms)" using st by (simp add: demuxed_def)
  obtain g' where g': "res_fold (gather F (sc_spans st)) ?ms ?g = Inr g'"
      "xo_occurrences (ga_outcome g') = total_of occurrences ?ms" "xo_attempts (ga_outcome g') = total_of attempts ?ms"
      "sum_list (xo_failuresByLeg (ga_outcome g')) = total_of failures ?ms"
      "xo_perSymbol (ga_outcome g') = map (outcome_of F (sc_spans st)) ?ms"
      "xo_occurrencesBySymbol (ga_outcome g') = map (\<lambda>(s, m). (s, occurrences m)) ?ms"
      "same_scan (new_outcome F config (length ticks) st) (ga_outcome g')"
    using gather_all [of ?ms ?g "sc_spans st" F] g sorted
    by (auto simp: new_outcome_def sum_list_replicate)
  with finish_exists [OF F, of config g'] show ?thesis
    by (auto simp: evaluateExperiment_def new scan chain_valid_def defined_def same_scan_def)
qed

text \<open>C23: an experiment whose chain is accepted is evaluated to an outcome over any stream of ticks, however the
  symbols interleave, and never faults. Each symbol's count of matches is the one of a matcher that
  saw only that symbol's own ticks, and its scanned ticks are those; no other symbol appears. The
  totals, the months and the hours all add up to the same number of matches, and the attempts are
  the matches and failures, plus at most one attempt in flight per symbol. The percentile ranks need
  only that the rounded rank of a population does not exceed its size.\<close>

theorem experiment_is_per_symbol:
  assumes F: "ranks_ok F" and new: "new_matcher F config kMaxAttemptSamples = Inr m0"
  shows "\<exists>out. evaluateExperiment F ticks config = Inr out \<and> xo_ticksScanned out = length ticks
    \<and> (\<forall>symbol. case map_of (xo_perSymbol out) symbol of
          None \<Rightarrow> own_ticks symbol ticks = []
        | Some so \<Rightarrow> own_ticks symbol ticks \<noteq> [] \<and> so_ticksScanned so = length (own_ticks symbol ticks)
            \<and> (\<exists>m. matched_alone m0 symbol ticks = Inr m \<and> so_occurrences so = ms_occurrences (cm_stats m)))
    \<and> xo_occurrencesBySymbol out = map (\<lambda>(s, so). (s, so_occurrences so)) (xo_perSymbol out)
    \<and> sum_list (map snd (xo_occurrencesBySymbol out)) = xo_occurrences out
    \<and> sum_list (map snd (xo_occurrencesByMonth out)) = xo_occurrences out
    \<and> sum_list (xo_occurrencesByHourUtc out) = xo_occurrences out
    \<and> xo_occurrences out + sum_list (xo_failuresByLeg out) \<le> xo_attempts out
    \<and> xo_attempts out \<le> xo_occurrences out + sum_list (xo_failuresByLeg out) + length (xo_perSymbol out)"
proof -
  obtain st where st: "scan_ticks F config ticks new_scan = Inr st" "demuxed m0 ticks st"
    using scan_ticks_demuxed [OF new demuxed_new, of ticks] by auto
  let ?ms = "sc_matchers st"
  obtain out where out: "evaluateExperiment F ticks config = Inr out" "xo_occurrences out = total_of occurrences ?ms"
      "xo_attempts out = total_of attempts ?ms" "sum_list (xo_failuresByLeg out) = total_of failures ?ms"
      "xo_perSymbol out = map (outcome_of F (sc_spans st)) ?ms"
      "xo_occurrencesBySymbol out = map (\<lambda>(s, m). (s, occurrences m)) ?ms"
      "same_scan (new_outcome F config (length ticks) st) out"
    using evaluate_gathers [OF F new st(2,1)] by (elim exE conjE) (rule that)
  have scan: "xo_ticksScanned out = length ticks" "xo_occurrencesByMonth out = sc_months st" "xo_occurrencesByHourUtc out = sc_hours st"
    using out(7) by (simp_all add: same_scan_def new_outcome_def)
  have "total_of occurrences ?ms + total_of failures ?ms \<le> total_of attempts ?ms
      \<and> total_of attempts ?ms \<le> total_of occurrences ?ms + total_of failures ?ms + length ?ms"
    using demuxed_matchers [OF st(2) new] by (intro attempts_between) blast
  then show ?thesis
    using st(2) by (intro exI [of _ out])
      (simp add: scan out per_symbol_counts demuxed_def total_of_def comp_def split_beta outcome_of_def)
qed

lemma real_ranks: "ranks_ok real_chain"
  by (simp add: ranks_ok_def real_chain_def float_ops.extend_def real_float_def ceiling_le_iff)

theorem experiment_is_per_symbol_witness:
  "\<exists>out. evaluateExperiment real_chain
       [\<lparr>p_ask = 10001, p_bid = 9999, p_timestamp = 0, p_symbol = ''EURUSD''\<rparr>,
        \<lparr>p_ask = 20001, p_bid = 19999, p_timestamp = 500000, p_symbol = ''GBPUSD''\<rparr>,
        \<lparr>p_ask = 9801, p_bid = 9799, p_timestamp = 1000000, p_symbol = ''EURUSD''\<rparr>] dip_then_band = Inr out
     \<and> xo_ticksScanned out = 3 \<and> sum_list (xo_occurrencesByHourUtc out) = xo_occurrences out
     \<and> map_option so_ticksScanned (map_of (xo_perSymbol out) ''EURUSD'') = Some 2"
proof -
  let ?ticks = "[\<lparr>p_ask = 10001, p_bid = 9999, p_timestamp = 0, p_symbol = ''EURUSD''\<rparr>,
        \<lparr>p_ask = 20001, p_bid = 19999, p_timestamp = 500000, p_symbol = ''GBPUSD''\<rparr>,
        \<lparr>p_ask = 9801, p_bid = 9799, p_timestamp = 1000000, p_symbol = ''EURUSD''\<rparr>]"
  obtain m0 where m0: "new_matcher real_chain dip_then_band kMaxAttemptSamples = Inr m0"
    using dip_then_band_accepted by blast
  obtain out where out: "evaluateExperiment real_chain ?ticks dip_then_band = Inr out" "xo_ticksScanned out = length ?ticks"
      "\<forall>symbol. case map_of (xo_perSymbol out) symbol of
          None \<Rightarrow> own_ticks symbol ?ticks = []
        | Some so \<Rightarrow> own_ticks symbol ?ticks \<noteq> [] \<and> so_ticksScanned so = length (own_ticks symbol ?ticks)
            \<and> (\<exists>m. matched_alone m0 symbol ?ticks = Inr m \<and> so_occurrences so = ms_occurrences (cm_stats m))"
      "sum_list (xo_occurrencesByHourUtc out) = xo_occurrences out"
    using experiment_is_per_symbol [OF real_ranks m0, of ?ticks] by (elim exE conjE) (rule that)
  have "map_option so_ticksScanned (map_of (xo_perSymbol out) ''EURUSD'') = Some 2"
    using out(3) [THEN spec, of "''EURUSD''"] by (simp add: own_ticks_def split: option.splits)
  with out(1,2,4) show ?thesis by auto
qed

end
