(* ===== verification/Markets.thy ===== *)
theory Markets
  imports SymbolScale Config
begin

section \<open>The markets traded live\<close>

text \<open>
  \<open>live/broker/marketDefinitions.cppm\<close>: the contract of each symbol, looked up by symbol and by the epic of its
  mini contract. Decimal literals are fractions, made doubles by \<open>f_lit\<close>. \<open>markets_cover_scales\<close>: whatever is priced
  can be traded and the reverse, and both lookups find exactly the row.
\<close>

datatype market_type = Forex | Indice

record market_definition =
  mk_symbol :: symbol
  mk_igMarketId :: string
  mk_epicCfd :: string
  mk_epicMini :: string
  mk_currency :: string
  mk_polygonIdentifier :: string
  mk_polygonScale :: "int \<times> int"
  mk_type :: market_type
  mk_tradeSizeModifier :: "int \<times> int"

definition sizeModifier :: "('d, 'f, 'y) float_ops_scheme \<Rightarrow> market_definition \<Rightarrow> 'f" where
  "sizeModifier F m =
     (let x = f_lit F (fst (mk_tradeSizeModifier m)) (snd (mk_tradeSizeModifier m)) in
      if f_less F (f_lit F 0 1) x then x else f_lit F 1 1)"

abbreviation market_row ::
  "symbol \<Rightarrow> string \<Rightarrow> string \<Rightarrow> string \<Rightarrow> string \<Rightarrow> string \<Rightarrow> int \<times> int \<Rightarrow> market_type \<Rightarrow> int \<times> int \<Rightarrow> market_definition"
where
  "market_row s i cfd mini cur pid ps t md \<equiv>
     \<lparr>mk_symbol = s, mk_igMarketId = i, mk_epicCfd = cfd, mk_epicMini = mini, mk_currency = cur,
      mk_polygonIdentifier = pid, mk_polygonScale = ps, mk_type = t, mk_tradeSizeModifier = md\<rparr>"

definition kMarkets :: "market_definition list" where
  "kMarkets =
    [market_row ''AUDNZD'' ''AUDNZD'' ''CS.D.AUDNZD.CFD.IP'' ''CS.D.AUDNZD.MINI.IP'' ''NZD'' ''C.AUD/NZD'' (0, 1) Forex (0, 1),
     market_row ''AUDUSD'' ''AUDUSD'' ''CS.D.AUDUSD.CFD.IP'' ''CS.D.AUDUSD.MINI.IP'' ''USD'' ''C.AUD/USD'' (0, 1) Forex (0, 1),
     market_row ''AUSIDXAUD'' ''AUSIDXAUD'' ''IX.D.ASX.IFS.IP'' ''IX.D.ASX.IFS.IP'' ''GBP'' [] (0, 1) Indice (0, 1),
     market_row ''BRENTCMDUSD'' ''BRENTCMDUSD'' ''CC.D.LCO.UMP.IP'' ''CC.D.LCO.UMP.IP'' ''GBP'' [] (0, 1) Indice (0, 1),
     market_row ''COPPERCMDUSD'' ''COPPERCMDUSD'' ''CC.D.HG.UMP.IP'' ''CC.D.HG.UMP.IP'' ''GBP'' [] (0, 1) Indice (0, 1),
     market_row ''DEUIDXEUR'' ''DEUIDXEUR'' ''IX.D.DAX.IFS.IP'' ''IX.D.DAX.IFS.IP'' ''GBP'' [] (0, 1) Indice (0, 1),
     market_row ''EURAUD'' ''EURAUD'' ''CS.D.EURAUD.CFD.IP'' ''CS.D.EURAUD.MINI.IP'' ''AUD'' ''C.EUR/AUD'' (0, 1) Forex (0, 1),
     market_row ''EURCHF'' ''EURCHF'' ''CS.D.EURCHF.CFD.IP'' ''CS.D.EURCHF.MINI.IP'' ''CHF'' ''C.EUR/CHF'' (0, 1) Forex (0, 1),
     market_row ''EURGBP'' ''EURGBP'' ''CS.D.EURGBP.CFD.IP'' ''CS.D.EURGBP.MINI.IP'' ''GBP'' ''C.EUR/GBP'' (0, 1) Forex (0, 1),
     market_row ''EURJPY'' ''EURJPY'' ''CS.D.EURJPY.CFD.IP'' ''CS.D.EURJPY.MINI.IP'' ''JPY'' ''C.EUR/JPY'' (0, 1) Forex (0, 1),
     market_row ''EURNOK'' ''EURNOK'' ''CS.D.EURNOK.CFD.IP'' ''CS.D.EURNOK.MINI.IP'' ''NOK'' ''C.EUR/NOK'' (0, 1) Forex (0, 1),
     market_row ''EURUSD'' ''EURUSD'' ''CS.D.EURUSD.CFD.IP'' ''CS.D.EURUSD.MINI.IP'' ''USD'' ''C.EUR/USD'' (0, 1) Forex (0, 1),
     market_row ''FRAIDXEUR'' ''FRAIDXEUR'' ''IX.D.CAC.IFS.IP'' ''IX.D.CAC.IFS.IP'' ''GBP'' [] (0, 1) Indice (0, 1),
     market_row ''GBPJPY'' ''GBPJPY'' ''CS.D.GBPJPY.CFD.IP'' ''CS.D.GBPJPY.MINI.IP'' ''JPY'' ''C.GBP/JPY'' (0, 1) Forex (0, 1),
     market_row ''GBPUSD'' ''GBPUSD'' ''CS.D.GBPUSD.CFD.IP'' ''CS.D.GBPUSD.MINI.IP'' ''USD'' ''C.GBP/USD'' (0, 1) Forex (0, 1),
     market_row ''GBRIDXGBP'' ''GBRIDXGBP'' ''IX.D.FTSE.CFD.IP'' ''IX.D.FTSE.IFM.IP'' ''GBP'' [] (0, 1) Indice (5, 10),
     market_row ''HKGIDXHKD'' ''HKGIDXHKD'' ''IX.D.HANGSENG.IFU.IP'' ''IX.D.HANGSENG.IFU.IP'' ''USD'' [] (0, 1) Indice (0, 1),
     market_row ''JPNIDXJPY'' ''JPNIDXJPY'' ''IX.D.NIKKEI.IFM.IP'' ''IX.D.NIKKEI.IFM.IP'' ''USD'' [] (0, 1) Indice (0, 1),
     market_row ''LIGHTCMDUSD'' ''LIGHTCMDUSD'' ''CC.D.CL.UMP.IP'' ''CC.D.CL.UMP.IP'' ''GBP'' [] (0, 1) Indice (0, 1),
     market_row ''NZDUSD'' ''NZDUSD'' ''CS.D.NZDUSD.CFD.IP'' ''CS.D.NZDUSD.MINI.IP'' ''USD'' ''C.NZD/USD'' (0, 1) Forex (0, 1),
     market_row ''USA30IDXUSD'' ''USA30IDXUSD'' ''IX.D.DOW.IFS.IP'' ''IX.D.DOW.IFS.IP'' ''GBP'' [] (0, 1) Indice (0, 1),
     market_row ''USA500IDXUSD'' ''USA500IDXUSD'' ''IX.D.SPTRD.IFS.IP'' ''IX.D.SPTRD.IFS.IP'' ''GBP'' [] (0, 1) Indice (0, 1),
     market_row ''USATECHIDXUSD'' ''USATECHIDXUSD'' ''IX.D.NASDAQ.IFS.IP'' ''IX.D.NASDAQ.IFS.IP'' ''GBP'' [] (0, 1) Indice (0, 1),
     market_row ''USDCAD'' ''USDCAD'' ''CS.D.USDCAD.CFD.IP'' ''CS.D.USDCAD.MINI.IP'' ''CAD'' ''C.USD/CAD'' (0, 1) Forex (0, 1),
     market_row ''USDCHF'' ''USDCHF'' ''CS.D.USDCHF.CFD.IP'' ''CS.D.USDCHF.MINI.IP'' ''CHF'' ''C.USD/CHF'' (0, 1) Forex (0, 1),
     market_row ''USDJPY'' ''USDJPY'' ''CS.D.USDJPY.CFD.IP'' ''CS.D.USDJPY.MINI.IP'' ''JPY'' ''C.USD/JPY'' (0, 1) Forex (0, 1),
     market_row ''USDSEK'' ''USDSEK'' ''CS.D.USDSEK.CFD.IP'' ''CS.D.USDSEK.MINI.IP'' ''SEK'' ''C.USD/SEK'' (0, 1) Forex (0, 1),
     market_row ''XAGUSD'' ''XAGUSD'' ''CS.D.CFDSILVER.CFM.IP'' ''CS.D.CFDSILVER.CFM.IP'' ''USD'' ''C.XAG/USD'' (100, 1) Forex (2, 10),
     market_row ''XAUUSD'' ''XAUUSD'' ''CS.D.CFPGOLD.CFP.IP'' ''CS.D.CFPGOLD.CFP.IP'' ''GBP'' ''C.XAU/USD'' (0, 1) Forex (10, 10)]"

definition kTradableSymbols :: "symbol list" where
  "kTradableSymbols = map mk_symbol kMarkets"

definition findMarket :: "symbol \<Rightarrow> market_definition option" where
  "findMarket symbol = table_search mk_symbol kMarkets symbol 0 (length kMarkets)"

definition findMarketByEpicMini :: "string \<Rightarrow> market_definition option" where
  "findMarketByEpicMini epic = List.find (\<lambda>entry. mk_epicMini entry = epic) kMarkets"

lemma kMarkets_sorted: "table_sorted mk_symbol kMarkets"
  by code_simp

interpretation market_tbl: sorted_table mk_symbol kMarkets
  by unfold_locales (rule kMarkets_sorted)

lemma findMarket_Some: "findMarket symbol = Some m \<longleftrightarrow> m \<in> set kMarkets \<and> mk_symbol m = symbol"
  by (simp add: findMarket_def market_tbl.search_Some_iff)

lemma market_symbols: "map mk_symbol kMarkets = map e_symbol scale_kTable"
  by code_simp

lemma distinct_epics: "distinct (map mk_epicMini kMarkets)"
  by code_simp

lemma find_by_key:
  "distinct (map key xs) \<Longrightarrow> List.find (\<lambda>e. key e = k) xs = Some x \<longleftrightarrow> x \<in> set xs \<and> key x = k"
  by (induction xs) (auto simp: image_iff)

text \<open>The table of the markets and the table of the price scales list the same symbols, so a symbol is
  tradable exactly if its points per pip are known; and the two lookups, by symbol and by mini epic,
  find exactly the row that has the key, so the epic of an order leads back to its symbol.\<close>

lemma markets_cover_scales:
  "(findMarket symbol = None \<longleftrightarrow> get_scale symbol = kUnknown)
   \<and> (findMarket symbol = Some m \<longleftrightarrow> m \<in> set kMarkets \<and> mk_symbol m = symbol)
   \<and> (findMarketByEpicMini epic = Some m \<longleftrightarrow> m \<in> set kMarkets \<and> mk_epicMini m = epic)"
proof -
  have "mk_symbol ` set kMarkets = e_symbol ` set scale_kTable"
    using market_symbols by (metis set_map)
  then have "findMarket symbol = None \<longleftrightarrow> get_scale symbol = kUnknown"
    by (simp add: findMarket_def market_tbl.search_None_iff symbol_lookup_unknown)
  then show ?thesis
    by (simp add: findMarket_Some findMarketByEpicMini_def find_by_key [OF distinct_epics])
qed

end
