(* ===== verification/LiveOrders.thy ===== *)
theory LiveOrders
  imports Markets PositionManager TradeLocks PositionClustering TradeManager Timestamps ConfigCodec
begin

section \<open>Live orders\<close>

text \<open>
  From a strategy's decision to the broker: \<open>live/execution/orderRequest.cppm\<close> (levels and deal reference),
  \<open>live/broker/igMarkets.cppm\<close> (the bodies of requests and responses), \<open>orderChannel.cppm\<close> (one placement or close,
  with its bookkeeping), \<open>brokerOrderSink.cppm\<close> (the stores behind its hooks), \<open>redisPositionCounter.cppm\<close> and
  \<open>redisPositionFeed.cppm\<close>. The broker's calls, the hooks and the clock are parameters acting on a world \<open>'w\<close>; a hook
  that throws (\<open>Inl\<close>) ends the operation. Logging and traces are left out.
\<close>

subsection \<open>Order requests\<close>

record order_intent =
  oi_strategyName :: string
  oi_strategyUuid :: string
  oi_symbol :: symbol
  oi_direction :: direction
  oi_size :: int
  oi_stopDistancePips :: int
  oi_limitDistancePips :: int
  oi_bid :: int
  oi_ask :: int
  oi_timestamp :: time

record order_request =
  rq_symbol :: symbol
  rq_strategyUuid :: string
  rq_strategyName :: string
  rq_dealReference :: string
  rq_direction :: direction
  rq_bid :: int
  rq_ask :: int
  rq_timestamp :: time
  rq_size :: int
  rq_stopDistancePips :: int
  rq_limitDistancePips :: int
  rq_pointsPerPip :: int
  rq_level :: int
  rq_stopLevel :: int
  rq_limitLevel :: int
  rq_spreadPoints :: int

definition is_alnum :: "char \<Rightarrow> bool" where
  "is_alnum c \<longleftrightarrow>
     is_digit c \<or> (of_char CHR ''a'' \<le> (of_char c :: nat) \<and> of_char c \<le> (of_char CHR ''z'' :: nat))
     \<or> (of_char CHR ''A'' \<le> (of_char c :: nat) \<and> of_char c \<le> (of_char CHR ''Z'' :: nat))"

definition makeDealReference :: "string \<Rightarrow> direction \<Rightarrow> time \<Rightarrow> string" where
  "makeDealReference strategyUuid dir timestamp =
     (let prefix = take 8 (filter is_alnum strategyUuid); millis = cdiv timestamp 1000 in
      prefix @ ''-'' @ (if dir = LONG then ''L'' else ''S'') @ int_dec millis)"

definition makeOrderRequest :: "order_intent \<Rightarrow> order_request option" where
  "makeOrderRequest intent =
     (let pointsPerPip = get_scale (oi_symbol intent) in
      if pointsPerPip = kUnknown then None
      else
        let stopPoints = i32 (oi_stopDistancePips intent * pointsPerPip);
            limitPoints = i32 (oi_limitDistancePips intent * pointsPerPip);
            long = (oi_direction intent = LONG);
            level = (if long then oi_ask intent else oi_bid intent) in
        Some \<lparr>rq_symbol = oi_symbol intent, rq_strategyUuid = oi_strategyUuid intent,
              rq_strategyName = oi_strategyName intent,
              rq_dealReference = makeDealReference (oi_strategyUuid intent) (oi_direction intent) (oi_timestamp intent),
              rq_direction = oi_direction intent, rq_bid = oi_bid intent, rq_ask = oi_ask intent,
              rq_timestamp = oi_timestamp intent, rq_size = oi_size intent,
              rq_stopDistancePips = oi_stopDistancePips intent, rq_limitDistancePips = oi_limitDistancePips intent,
              rq_pointsPerPip = pointsPerPip, rq_level = level,
              rq_stopLevel = (if long then i32 (level - stopPoints) else i32 (level + stopPoints)),
              rq_limitLevel = (if long then i32 (level + limitPoints) else i32 (level - limitPoints)),
              rq_spreadPoints = i32 (oi_ask intent - oi_bid intent)\<rparr>)"

subsection \<open>What the broker is sent and answers\<close>

record 'f trade_open =
  to_currencyCode :: string
  to_epic :: string
  to_expiry :: string
  to_direction :: string
  to_size :: 'f
  to_forceOpen :: bool
  to_guaranteedStop :: bool
  to_orderType :: string
  to_stopDistance :: int
  to_limitDistance :: int
  to_dealReference :: string

record 'f trade_close =
  tc_orderType :: string
  tc_direction :: string
  tc_dealId :: string
  tc_size :: 'f

record position_response =
  ps_dealReference :: string
  ps_errorCode :: "string option"

record deal_confirmation =
  dc_dealId :: string
  dc_dealReference :: string
  dc_dealStatus :: string
  dc_reason :: string

definition encodeTradeOpen :: "'f double_ops \<Rightarrow> 'f trade_open \<Rightarrow> json_error + string" where
  "encodeTradeOpen dbl order =
     (let body = json_init
            [(''currencyCode'', JString (to_currencyCode order)), (''epic'', JString (to_epic order)),
             (''expiry'', JString (to_expiry order)), (''direction'', JString (to_direction order)),
             (''size'', JFloat (to_size order)), (''forceOpen'', JBoolean (to_forceOpen order)),
             (''guaranteedStop'', JBoolean (to_guaranteedStop order)), (''orderType'', JString (to_orderType order))];
          body = (if to_stopDistance order > 0 then json_set ''stopDistance'' (JInteger (to_stopDistance order)) body else body);
          body = (if to_limitDistance order > 0 then json_set ''limitDistance'' (JInteger (to_limitDistance order)) body else body);
          body = (if to_dealReference order \<noteq> [] then json_set ''dealReference'' (JString (to_dealReference order)) body else body) in
      json_dump dbl body)"

definition encodeTradeClose :: "'f double_ops \<Rightarrow> 'f trade_close \<Rightarrow> json_error + string" where
  "encodeTradeClose dbl close =
     json_dump dbl (json_init
       [(''orderType'', JString (tc_orderType close)), (''direction'', JString (tc_direction close)),
        (''dealId'', JString (tc_dealId close)), (''size'', JFloat (tc_size close))])"

definition parsePositionResponse :: "'f double_ops \<Rightarrow> string \<Rightarrow> position_response option" where
  "parsePositionResponse dbl body =
     (case json_parse dbl body of
        Inr (JObject kvs) \<Rightarrow>
          Some \<lparr>ps_dealReference = read_string (JObject kvs) ''dealReference'',
                ps_errorCode = (case json_find (JObject kvs) ''errorCode'' of Some (JString s) \<Rightarrow> Some s | _ \<Rightarrow> None)\<rparr>
      | _ \<Rightarrow> None)"

definition parseDealConfirmation :: "'f double_ops \<Rightarrow> string \<Rightarrow> deal_confirmation option" where
  "parseDealConfirmation dbl body =
     (case json_parse dbl body of
        Inr (JObject kvs) \<Rightarrow>
          Some \<lparr>dc_dealId = read_string (JObject kvs) ''dealId'', dc_dealReference = read_string (JObject kvs) ''dealReference'',
                dc_dealStatus = read_string (JObject kvs) ''dealStatus'', dc_reason = read_string (JObject kvs) ''reason''\<rparr>
      | _ \<Rightarrow> None)"

definition closingDirection :: "string \<Rightarrow> string" where
  "closingDirection openBrokerDirection = (if openBrokerDirection = ''BUY'' then ''SELL'' else ''BUY'')"

record order_context =
  oc_strategyUuid :: string
  oc_strategyName :: string
  oc_symbol :: symbol
  oc_openDirection :: string

datatype open_status = Open_accepted | Open_rejected | Open_failed

record open_result =
  or_status :: open_status
  or_dealReference :: string
  or_dealId :: string

datatype close_status = Close_ok | Close_gone | Close_failed

subsection \<open>The channel\<close>

record close_request =
  cr_strategyUuid :: string
  cr_strategyName :: string
  cr_symbol :: symbol
  cr_direction :: direction
  cr_dealId :: string
  cr_dealReference :: string

record 'f close_order = close_request +
  cr_size :: 'f

type_synonym 'w hook = "'w \<Rightarrow> (json_error + bool) \<times> 'w"

text \<open>\<open>None\<close> from a broker call: it threw.\<close>

record ('w, 'f) channel_env =
  ce_lookup :: "symbol \<Rightarrow> market_definition option"
  ce_placeOrder :: "'f trade_open \<Rightarrow> order_context \<Rightarrow> 'w \<Rightarrow> open_result option \<times> 'w"
  ce_placeClose :: "'f trade_close \<Rightarrow> order_context \<Rightarrow> 'w \<Rightarrow> close_status option \<times> 'w"
  ce_now :: "'w \<Rightarrow> time \<times> 'w"
  ce_clusterBlocked :: "symbol \<Rightarrow> string \<Rightarrow> 'w hook"
  ce_clusterOpened :: "(symbol \<Rightarrow> 'w \<Rightarrow> 'w) option"
  ce_extendLock :: "string \<Rightarrow> string \<Rightarrow> int \<Rightarrow> 'w hook"
  ce_releaseLock :: "string \<Rightarrow> string \<Rightarrow> 'w hook"
  ce_savePosition :: "string \<Rightarrow> string \<Rightarrow> 'w hook"
  ce_addPosition :: "string \<Rightarrow> string \<Rightarrow> 'w hook"
  ce_saveDealReceipt :: "string \<Rightarrow> symbol \<Rightarrow> string \<Rightarrow> 'w hook"
  ce_removePosition :: "string \<Rightarrow> string \<Rightarrow> 'w hook"
  ce_inFlightTtl :: int
  ce_failureTtl :: int
  ce_closedTtl :: int

definition lockDirection :: "direction \<Rightarrow> string" where
  "lockDirection dir = (if dir = LONG then ''LONG'' else ''SHORT'')"

definition brokerDirection :: "direction \<Rightarrow> string" where
  "brokerDirection dir = (if dir = LONG then ''BUY'' else ''SELL'')"

definition isoUtcSeconds :: "time \<Rightarrow> string" where
  "isoUtcSeconds tp = iso_seconds (tp div 1000000) @ ''Z''"

definition buildPositionPayload :: "'f double_conv \<Rightarrow> order_request \<Rightarrow> 'f trade_open \<Rightarrow> string \<Rightarrow> string \<Rightarrow> string" where
  "buildPositionPayload conv rq order dealReference dealId =
     ''{'' @ quoted ''dealId'' @ '':'' @ quoted dealId
     @ '','' @ quoted ''dealReference'' @ '':'' @ quoted dealReference
     @ '','' @ quoted ''symbol'' @ '':'' @ quoted (rq_symbol rq)
     @ '','' @ quoted ''epic'' @ '':'' @ quoted (to_epic order)
     @ '','' @ quoted ''direction'' @ '':'' @ quoted (to_direction order)
     @ '','' @ quoted ''size'' @ '':'' @ dbl_format conv (to_size order)
     @ '','' @ quoted ''level'' @ '':'' @ int_dec (rq_level rq)
     @ '','' @ quoted ''stopLevel'' @ '':'' @ int_dec (rq_stopLevel rq)
     @ '','' @ quoted ''limitLevel'' @ '':'' @ int_dec (rq_limitLevel rq)
     @ '','' @ quoted ''strategyId'' @ '':'' @ quoted (rq_strategyUuid rq)
     @ '','' @ quoted ''strategyName'' @ '':'' @ quoted (rq_strategyName rq)
     @ '','' @ quoted ''openedAt'' @ '':'' @ int_dec (rq_timestamp rq) @ ''}''"

definition buildDealReceipt :: "order_request \<Rightarrow> string \<Rightarrow> string \<Rightarrow> string" where
  "buildDealReceipt rq dealReference dealId =
     ''{'' @ quoted ''id'' @ '':'' @ quoted (''DealId#'' @ dealReference)
     @ '','' @ quoted ''sort'' @ '':'' @ quoted (rq_symbol rq)
     @ '','' @ quoted ''date'' @ '':'' @ quoted (isoUtcSeconds (rq_timestamp rq))
     @ '','' @ quoted ''dealReference'' @ '':'' @ quoted dealReference
     @ '','' @ quoted ''strategyId'' @ '':'' @ quoted (rq_strategyUuid rq)
     @ '','' @ quoted ''dealId'' @ '':'' @ quoted dealId
     @ '','' @ quoted ''strategyName'' @ '':'' @ quoted (rq_strategyName rq) @ ''}''"

definition hooked :: "'w hook \<Rightarrow> (bool \<Rightarrow> 'w hook) \<Rightarrow> 'w hook" where
  "hooked m f w = (case m w of (Inl e, w') \<Rightarrow> (Inl e, w') | (Inr b, w') \<Rightarrow> f b w')"

definition answer :: "bool \<Rightarrow> 'w hook" where
  "answer b w = (Inr b, w)"

definition order_of :: "('d, 'f, 'y) float_ops_scheme \<Rightarrow> order_request \<Rightarrow> market_definition \<Rightarrow> 'f trade_open" where
  "order_of F rq market =
     \<lparr>to_currencyCode = mk_currency market, to_epic = mk_epicMini market, to_expiry = ''-'',
      to_direction = brokerDirection (rq_direction rq),
      to_size = f_mult F (f_lit F (rq_size rq) 1) (sizeModifier F market), to_forceOpen = True, to_guaranteedStop = False,
      to_orderType = ''MARKET'', to_stopDistance = rq_stopDistancePips rq, to_limitDistance = rq_limitDistancePips rq,
      to_dealReference = rq_dealReference rq\<rparr>"

text \<open>The bookkeeping of a deal the broker accepted.\<close>

definition book_deal ::
  "('w, 'f) channel_env \<Rightarrow> 'f double_conv \<Rightarrow> order_request \<Rightarrow> 'f trade_open \<Rightarrow> open_result \<Rightarrow> 'w hook" where
  "book_deal env conv rq order result w =
     (let reference = (if or_dealReference result = [] then rq_dealReference rq else or_dealReference result) in
      hooked (ce_savePosition env reference (buildPositionPayload conv rq order reference (or_dealId result))) (\<lambda>saved.
      hooked (ce_addPosition env (rq_strategyUuid rq) reference) (\<lambda>listed.
      hooked (ce_saveDealReceipt env reference (rq_symbol rq) (buildDealReceipt rq reference (or_dealId result))) (\<lambda>receipt.
        answer True)))
      (case ce_clusterOpened env of Some opened \<Rightarrow> opened (rq_symbol rq) w | None \<Rightarrow> w))"

text \<open>What follows the broker's answer; a call that threw has failed.\<close>

definition settle_open ::
  "('w, 'f) channel_env \<Rightarrow> 'f double_conv \<Rightarrow> order_request \<Rightarrow> 'f trade_open \<Rightarrow> open_result option \<Rightarrow> 'w hook" where
  "settle_open env conv rq order placed =
     (let uuid = rq_strategyUuid rq; dir = lockDirection (rq_direction rq);
          result = (case placed of Some r \<Rightarrow> r
                    | None \<Rightarrow> \<lparr>or_status = Open_failed, or_dealReference = [], or_dealId = []\<rparr>) in
      case or_status result of
        Open_accepted \<Rightarrow> book_deal env conv rq order result
      | Open_rejected \<Rightarrow> hooked (ce_releaseLock env uuid dir) (\<lambda>_. answer False)
      | Open_failed \<Rightarrow> hooked (ce_extendLock env uuid dir (ce_failureTtl env)) (\<lambda>_. answer False))"

definition place_open ::
  "('w, 'f) channel_env \<Rightarrow> 'f double_conv \<Rightarrow> order_request \<Rightarrow> 'f trade_open \<Rightarrow> 'w hook" where
  "place_open env conv rq order w =
     (let context = \<lparr>oc_strategyUuid = rq_strategyUuid rq, oc_strategyName = rq_strategyName rq,
                     oc_symbol = rq_symbol rq, oc_openDirection = to_direction order\<rparr> in
      case ce_placeOrder env order context w of (placed, w') \<Rightarrow> settle_open env conv rq order placed w')"

definition channel_request ::
  "('w, 'f) channel_env \<Rightarrow> ('d, 'f, 'y) float_ops_scheme \<Rightarrow> 'f double_conv \<Rightarrow> order_request \<Rightarrow> 'w hook" where
  "channel_request env F conv rq =
     (case ce_lookup env (rq_symbol rq) of
        None \<Rightarrow> answer False
      | Some market \<Rightarrow>
          hooked (ce_clusterBlocked env (rq_symbol rq) (rq_strategyName rq)) (\<lambda>blocked.
            if blocked then answer False
            else hooked (ce_extendLock env (rq_strategyUuid rq) (lockDirection (rq_direction rq)) (ce_inFlightTtl env)) (\<lambda>_.
              place_open env conv rq (order_of F rq market))))"

type_synonym recent_closes = "(string \<times> time) list"

definition drop_book :: "('w, 'f) channel_env \<Rightarrow> 'f close_order \<Rightarrow> bool \<Rightarrow> 'w hook" where
  "drop_book env rq ok =
     (if cr_dealReference rq = [] then answer ok
      else hooked (ce_removePosition env (cr_strategyUuid rq) (cr_dealReference rq)) (\<lambda>_. answer ok))"

definition closePosition ::
  "('w, 'f) channel_env \<Rightarrow> 'f close_order \<Rightarrow> recent_closes \<times> 'w \<Rightarrow> (json_error + bool) \<times> recent_closes \<times> 'w" where
  "closePosition env rq st =
     (case st of (recentCloses, w) \<Rightarrow>
      if cr_dealId rq = [] then (Inr False, recentCloses, w)
      else case ce_now env w of (now, w1) \<Rightarrow>
        if (case map_of recentCloses (cr_dealId rq) of Some t \<Rightarrow> now < t | None \<Rightarrow> False)
        then (Inr False, recentCloses, w1)
        else
          let recentCloses = AList.delete (cr_dealId rq) recentCloses;
              close = \<lparr>tc_orderType = ''MARKET'', tc_direction = closingDirection (brokerDirection (cr_direction rq)),
                       tc_dealId = cr_dealId rq, tc_size = cr_size rq\<rparr>;
              context = \<lparr>oc_strategyUuid = cr_strategyUuid rq, oc_strategyName = cr_strategyName rq,
                         oc_symbol = cr_symbol rq, oc_openDirection = brokerDirection (cr_direction rq)\<rparr> in
          (case ce_placeClose env close context w1 of (placed, w2) \<Rightarrow>
             (case placed of
                Some Close_ok \<Rightarrow>
                  let recentCloses = AList.update (cr_dealId rq) (now + ce_closedTtl env * 1000000) recentCloses in
                  (case drop_book env rq True w2 of (r, w3) \<Rightarrow> (r, recentCloses, w3))
              | Some Close_gone \<Rightarrow> (case drop_book env rq False w2 of (r, w3) \<Rightarrow> (r, recentCloses, w3))
              | _ \<Rightarrow> (Inr False, recentCloses, w2))))"

subsection \<open>The stores behind the hooks\<close>

text \<open>A worker's lock instance keeps what it holds; its cache of position counts is keyed by strategy.\<close>

record 'w worker =
  wk_world :: 'w
  wk_held :: held
  wk_counts :: "(string \<times> int \<times> time) list"

definition on_world :: "('w \<Rightarrow> 'a \<times> 'w) \<Rightarrow> 'w worker \<Rightarrow> 'a \<times> 'w worker" where
  "on_world f k = (case f (wk_world k) of (x, w) \<Rightarrow> (x, k\<lparr>wk_world := w\<rparr>))"

definition on_locks :: "(held \<Rightarrow> 'w \<Rightarrow> bool \<times> held \<times> 'w) \<Rightarrow> 'w worker hook" where
  "on_locks f k = (case f (wk_held k) (wk_world k) of (b, h, w) \<Rightarrow> (Inr b, k\<lparr>wk_world := w, wk_held := h\<rparr>))"

definition no_throw :: "('w \<Rightarrow> bool \<times> 'w) \<Rightarrow> 'w hook" where
  "no_throw f w = (case f w of (b, w') \<Rightarrow> (Inr b, w'))"

definition threadChannel ::
  "'w lock_env \<Rightarrow> 'f double_ops \<Rightarrow> int \<Rightarrow> ('f trade_open \<Rightarrow> order_context \<Rightarrow> 'w \<Rightarrow> open_result option \<times> 'w)
    \<Rightarrow> ('f trade_close \<Rightarrow> order_context \<Rightarrow> 'w \<Rightarrow> close_status option \<times> 'w) \<Rightarrow> ('w worker, 'f) channel_env" where
  "threadChannel lk dbl lockTtl placeOrder placeClose =
     \<lparr>ce_lookup = findMarket,
      ce_placeOrder = (\<lambda>order context. on_world (placeOrder order context)),
      ce_placeClose = (\<lambda>close context. on_world (placeClose close context)),
      ce_now = on_world (lk_now lk),
      ce_clusterBlocked = (\<lambda>symbol name. on_world (no_throw (isClusterBlocked (lk_exec lk) symbol name 10))),
      ce_clusterOpened = Some (\<lambda>symbol k. k\<lparr>wk_world := markOpened (lk_exec lk) symbol 120 (wk_world k)\<rparr>),
      ce_extendLock = (\<lambda>uuid dir ttl. on_locks (extendLock lk uuid dir ttl)),
      ce_releaseLock = (\<lambda>uuid dir. on_locks (releaseLock lk uuid dir)),
      ce_savePosition = (\<lambda>reference payload. on_world (no_throw (savePosition (lk_exec lk) reference payload 300000))),
      ce_addPosition = (\<lambda>uuid reference. on_world (addPosition (lk_exec lk) dbl uuid reference)),
      ce_saveDealReceipt = (\<lambda>reference symbol payload.
        on_world (no_throw (saveDealReceipt (lk_exec lk) reference symbol payload (24 * 60 * 3600000)))),
      ce_removePosition = (\<lambda>uuid reference. on_world (removePosition (lk_exec lk) dbl uuid reference)),
      ce_inFlightTtl = lockTtl, ce_failureTtl = 120, ce_closedTtl = 300\<rparr>"

definition cached_count :: "string \<Rightarrow> time \<Rightarrow> (string \<times> int \<times> time) list \<Rightarrow> int option" where
  "cached_count strategyUuid now cache =
     (case map_of cache strategyUuid of
        None \<Rightarrow> None
      | Some (n, freshUntil) \<Rightarrow> if now \<ge> freshUntil then None else Some n)"

definition invalidateCache :: "string \<Rightarrow> 'w worker \<Rightarrow> 'w worker" where
  "invalidateCache strategyUuid k = k\<lparr>wk_counts := AList.delete strategyUuid (wk_counts k)\<rparr>"

definition count_positions :: "'w lock_env \<Rightarrow> 'f double_ops \<Rightarrow> int \<Rightarrow> string \<Rightarrow> 'w worker \<Rightarrow> int option \<times> 'w worker" where
  "count_positions lk dbl cacheTtl strategyUuid k =
     (case on_world (lk_now lk) k of (now, k) \<Rightarrow>
        (case cached_count strategyUuid now (wk_counts k) of
           Some n \<Rightarrow> (Some n, k)
         | None \<Rightarrow>
             (case on_world (getPositionCount (lk_exec lk) dbl strategyUuid) k of
                (None, k) \<Rightarrow> (None, k)
              | (Some n, k) \<Rightarrow>
                  (Some n, k\<lparr>wk_counts := AList.update strategyUuid (n, now + cacheTtl * 1000000) (wk_counts k)\<rparr>))))"

definition order_sink ::
  "('w worker, 'f) channel_env \<Rightarrow> ('d, 'f, 'y) float_ops_scheme \<Rightarrow> 'f double_conv \<Rightarrow> order_intent \<Rightarrow> 'w worker \<Rightarrow>
   (json_error + unit) \<times> 'w worker" where
  "order_sink env F conv intent k =
     (case makeOrderRequest intent of
        None \<Rightarrow> (Inr (), k)
      | Some rq \<Rightarrow>
          (case channel_request env F conv rq k of
             (Inl e, k) \<Rightarrow> (Inl e, k)
           | (Inr accepted, k) \<Rightarrow> (Inr (), if accepted then invalidateCache (rq_strategyUuid rq) k else k)))"

definition close_sink ::
  "('w worker, 'f) channel_env \<Rightarrow> 'f close_order \<Rightarrow> recent_closes \<times> 'w worker \<Rightarrow>
   (json_error + unit) \<times> recent_closes \<times> 'w worker" where
  "close_sink env rq st =
     (case closePosition env rq st of
        (Inl e, st) \<Rightarrow> (Inl e, st)
      | (Inr ok, recentCloses, k) \<Rightarrow>
          (Inr (), recentCloses, if ok then invalidateCache (cr_strategyUuid rq) k else k))"

subsection \<open>The book read back\<close>

record 'f booked_position =
  bp_dealId :: string
  bp_dealReference :: string
  bp_direction :: direction
  bp_brokerSize :: 'f
  bp_engineSize :: int
  bp_level :: int
  bp_openedAt :: time

definition toBookedPosition ::
  "('d, 'f, 'y) float_ops_scheme \<Rightarrow> ('f \<Rightarrow> int) \<Rightarrow> 'f position_record \<Rightarrow> market_definition option \<Rightarrow> 'f booked_position option"
where
  "toBookedPosition F llround' r market =
     (let modifier = (case market of Some m \<Rightarrow> sizeModifier F m | None \<Rightarrow> f_lit F 1 1);
          position = (\<lambda>dir. \<lparr>bp_dealId = pr_dealId r, bp_dealReference = pr_dealReference r, bp_direction = dir,
                        bp_brokerSize = pr_size r, bp_engineSize = i32 (llround' (f_div F (pr_size r) modifier)),
                        bp_level = pr_level r, bp_openedAt = pr_openedAtMicros r\<rparr>) in
      if pr_direction r = ''BUY'' then Some (position LONG)
      else if pr_direction r = ''SELL'' then Some (position SHORT)
      else None)"

definition booked_here ::
  "('d, 'f, 'y) float_ops_scheme \<Rightarrow> ('f \<Rightarrow> int) \<Rightarrow> 'f double_conv \<Rightarrow> symbol \<Rightarrow> string \<times> string \<Rightarrow> 'f booked_position option" where
  "booked_here F llround' conv symbol entry =
     (case decodePositionRecord conv (snd entry) of
        None \<Rightarrow> None
      | Some r \<Rightarrow> if pr_symbol r \<noteq> symbol then None else toBookedPosition F llround' r (findMarket symbol))"

definition position_feed ::
  "'w exec \<Rightarrow> ('d, 'f, 'y) float_ops_scheme \<Rightarrow> ('f \<Rightarrow> int) \<Rightarrow> 'f double_conv \<Rightarrow> string \<Rightarrow> symbol \<Rightarrow> 'w \<Rightarrow>
   'f booked_position list option \<times> 'w" where
  "position_feed exec F llround' conv strategyUuid symbol w =
     (case getPositionPayloads exec (double_ops.truncate conv) strategyUuid w of
        (None, w') \<Rightarrow> (None, w')
      | (Some payloads, w') \<Rightarrow> (Some (List.map_filter (booked_here F llround' conv symbol) payloads), w'))"

subsection \<open>The levels of an order\<close>

lemma i32_eq_iff: "i32 x = i32 y \<longleftrightarrow> 4294967296 dvd x - y"
  by (simp add: i32_code) (simp add: mod_eq_dvd_iff)

lemma i32_dvd: "4294967296 dvd i32 x - x"
  using i32_eq_iff [of "i32 x" x] by simp

text \<open>The trade the backtest would open on the same tick, without slippage.\<close>

definition backtest_trade :: "int \<Rightarrow> order_intent \<Rightarrow> trade" where
  "backtest_trade counter intent =
     build_trade 0 counter
       \<lparr>p_ask = oi_ask intent, p_bid = oi_bid intent, p_timestamp = oi_timestamp intent, p_symbol = oi_symbol intent\<rparr>
       (oi_size intent) (oi_direction intent) (oi_stopDistancePips intent) (oi_limitDistancePips intent)"

definition shifted :: "direction \<Rightarrow> int \<Rightarrow> int \<Rightarrow> int" where
  "shifted dir spread level = i32 (if dir = LONG then level + spread else level - spread)"

text \<open>C21: a live order is for the price at which the backtest, without slippage, would open the trade on the same
  tick. Its stop and limit levels are the backtest's moved by exactly the spread, up for a long and down
  for a short: the order measures both from the side it enters on, the backtest from the side it
  closes on, in the width of the prices even where they wrap.\<close>

theorem order_levels_and_the_backtest:
  assumes "makeOrderRequest intent = Some rq"
  shows "rq_level rq = t_entryPrice (backtest_trade counter intent) \<and> rq_size rq = t_size (backtest_trade counter intent)
    \<and> rq_pointsPerPip rq = t_scalingFactor (backtest_trade counter intent)
    \<and> rq_stopLevel rq = shifted (oi_direction intent) (rq_spreadPoints rq) (t_stopPrice (backtest_trade counter intent))
    \<and> rq_limitLevel rq = shifted (oi_direction intent) (rq_spreadPoints rq) (t_limitPrice (backtest_trade counter intent))"
proof -
  let ?a = "oi_ask intent" and ?b = "oi_bid intent"
  define stop lim where "stop = i32 (oi_stopDistancePips intent * get_scale (oi_symbol intent))"
    and "lim = i32 (oi_limitDistancePips intent * get_scale (oi_symbol intent))"
  have rq: "rq_level rq = (if oi_direction intent = LONG then ?a else ?b)" "rq_size rq = oi_size intent"
      "rq_pointsPerPip rq = get_scale (oi_symbol intent)" "rq_spreadPoints rq = i32 (?a - ?b)"
      "rq_stopLevel rq = (if oi_direction intent = LONG then i32 (?a - stop) else i32 (?b + stop))"
      "rq_limitLevel rq = (if oi_direction intent = LONG then i32 (?a + lim) else i32 (?b - lim))"
    using assms(1) by (auto simp: makeOrderRequest_def Let_def stop_def lim_def split: if_splits)
  let ?trade = "backtest_trade counter intent"
  have trade: "t_entryPrice ?trade = (if oi_direction intent = LONG then ?a else ?b)" "t_size ?trade = oi_size intent"
      "t_scalingFactor ?trade = get_scale (oi_symbol intent)"
      "t_stopPrice ?trade = (if oi_direction intent = LONG then i32 (?b - stop) else i32 (?a + stop))"
      "t_limitPrice ?trade = (if oi_direction intent = LONG then i32 (?b + lim) else i32 (?a - lim))"
    by (simp_all add: backtest_trade_def build_trade_def new_trade_def Let_def stop_def lim_def)
  have up: "i32 (?a + x) = i32 (i32 (?b + x) + i32 (?a - ?b))" for x
    unfolding i32_eq_iff using dvd_add [OF i32_dvd [of "?b + x"] i32_dvd [of "?a - ?b"]]
    by (subst dvd_minus_iff [symmetric]) (simp add: algebra_simps)
  have down: "i32 (?b + x) = i32 (i32 (?a + x) - i32 (?a - ?b))" for x
    unfolding i32_eq_iff using dvd_diff [OF i32_dvd [of "?a + x"] i32_dvd [of "?a - ?b"]]
    by (subst dvd_minus_iff [symmetric]) (simp add: algebra_simps)
  show ?thesis
    using up [of "- stop"] up [of lim] down [of stop] down [of "- lim"]
    by (cases "oi_direction intent") (simp_all add: rq trade shifted_def)
qed

definition gold_intent :: order_intent where
  "gold_intent = \<lparr>oi_strategyName = ''Fvg'', oi_strategyUuid = ''8c1f-77'', oi_symbol = ''XAUUSD'', oi_direction = LONG,
     oi_size = 1, oi_stopDistancePips = 3, oi_limitDistancePips = 6, oi_bid = 2400000, oi_ask = 2400300,
     oi_timestamp = 1700000000000000\<rparr>"

theorem order_levels_and_the_backtest_witness:
  "\<exists>rq. makeOrderRequest gold_intent = Some rq \<and> rq_level rq = 2400300 \<and> rq_stopLevel rq = 2397300"
proof -
  have scale: "get_scale ''XAUUSD'' = 1000" by code_simp
  then obtain rq where rq: "makeOrderRequest gold_intent = Some rq" "rq_spreadPoints rq = 300"
    by (simp add: makeOrderRequest_def gold_intent_def Let_def kUnknown_def in_i32_def)
  from order_levels_and_the_backtest [OF rq(1), of 0] rq show ?thesis
    by (simp add: gold_intent_def shifted_def backtest_trade_def build_trade_def new_trade_def Let_def scale in_i32_def)
qed

lemma length_nat_dec_le: "n < 10 ^ k \<Longrightarrow> 0 < k \<Longrightarrow> length (nat_dec n) \<le> k"
proof (induction k arbitrary: n)
  case (Suc k)
  show ?case
  proof (cases "n < 10")
    case False
    then have "0 < k" using Suc.prems(1) by (cases k) auto
    moreover have "n div 10 < 10 ^ k" using Suc.prems(1) by (simp add: less_mult_imp_div_less mult.commute)
    ultimately show ?thesis using Suc.IH [of "n div 10"] False by (subst length_nat_dec) simp
  qed (simp add: length_nat_dec)
qed simp

lemma millis_bound: "in_i64 ts \<Longrightarrow> \<bar>cdiv ts 1000\<bar> < 10 ^ 16"
  by (auto simp: cdiv_def in_i64_def sgn_if abs_mult)

lemma int_dec_shape:
  "\<forall>c \<in> set (int_dec n). is_alnum c \<or> c = CHR ''-''" "\<bar>n\<bar> < 10 ^ 16 \<Longrightarrow> length (int_dec n) \<le> 17"
proof -
  have "is_alnum c" if "c \<in> set (nat_dec k)" for c k
  proof -
    have "is_digit c" using nat_dec_digits [of k] that by auto
    then show ?thesis by (simp add: is_alnum_def)
  qed
  then show "\<forall>c \<in> set (int_dec n). is_alnum c \<or> c = CHR ''-''" by (auto simp: int_dec_def split: if_splits)
  show "length (int_dec n) \<le> 17" if "\<bar>n\<bar> < 10 ^ 16"
  proof -
    have "nat \<bar>n\<bar> < 10 ^ 16" using that by (simp add: nat_less_iff)
    then have "length (nat_dec (nat \<bar>n\<bar>)) \<le> 16" by (intro length_nat_dec_le) simp_all
    then show ?thesis by (cases "n < 0") (simp_all add: int_dec_def)
  qed
qed

text \<open>C22: every deal reference is one the broker accepts: at most thirty characters, letters, digits and dashes only,
  whatever the strategy's identifier and for every representable instant. Two references of one strategy
  are equal exactly if direction and millisecond are; nothing tells apart two strategies whose
  identifiers agree in their first eight letters and digits.\<close>

theorem deal_reference_valid_and_unique:
  assumes "in_i64 ts"
  shows "length (makeDealReference uuid dir ts) \<le> 30
    \<and> (\<forall>c \<in> set (makeDealReference uuid dir ts). is_alnum c \<or> c = CHR ''-'')
    \<and> (makeDealReference uuid dir ts = makeDealReference uuid dir' ts' \<longleftrightarrow> dir = dir' \<and> cdiv ts 1000 = cdiv ts' 1000)"
proof (intro conjI)
  show "length (makeDealReference uuid dir ts) \<le> 30"
    using int_dec_shape(2) [OF millis_bound [OF assms]] by (simp add: makeDealReference_def Let_def)
  show "\<forall>c \<in> set (makeDealReference uuid dir ts). is_alnum c \<or> c = CHR ''-''"
    using int_dec_shape(1) [of "cdiv ts 1000"] by (auto simp: makeDealReference_def Let_def is_alnum_def dest: in_set_takeD)
  have "int_dec a = int_dec b \<longleftrightarrow> a = b" for a b using read_dec_int_dec by metis
  then show "makeDealReference uuid dir ts = makeDealReference uuid dir' ts' \<longleftrightarrow> dir = dir' \<and> cdiv ts 1000 = cdiv ts' 1000"
    by (cases dir; cases dir') (simp_all add: makeDealReference_def Let_def)
qed

theorem deal_reference_valid_and_unique_witness:
  "in_i64 1700000000000000 \<and> length (makeDealReference ''8c1f-77'' LONG 1700000000000000) \<le> 30"
  using deal_reference_valid_and_unique [of 1700000000000000] by (simp add: in_i64_def)

subsection \<open>What is booked is read back\<close>

text \<open>The payload of an accepted deal is the producer's record of it, and the feed recovers the engine's size.\<close>

definition deal_record :: "order_request \<Rightarrow> 'f trade_open \<Rightarrow> string \<Rightarrow> string \<Rightarrow> 'f position_record" where
  "deal_record rq order dealReference dealId =
     \<lparr>pr_dealId = dealId, pr_dealReference = dealReference, pr_symbol = rq_symbol rq, pr_epic = to_epic order,
      pr_direction = to_direction order, pr_size = to_size order, pr_level = rq_level rq,
      pr_stopLevel = rq_stopLevel rq, pr_limitLevel = rq_limitLevel rq, pr_strategyId = rq_strategyUuid rq,
      pr_strategyName = rq_strategyName rq, pr_openedAtMicros = rq_timestamp rq\<rparr>"

lemma payload_is_record:
  "buildPositionPayload conv rq order dealReference dealId = encodePositionRecord conv (deal_record rq order dealReference dealId)"
  by (simp add: buildPositionPayload_def encodePositionRecord_def deal_record_def)

lemma modifier_positive: "0 < sizeModifier real_float m"
  by (simp add: sizeModifier_def real_float_def Let_def)

lemma engine_size_survives:
  assumes "in_i32 (rq_size rq)"
  shows "toBookedPosition real_float (\<lambda>x. \<lfloor>x + 1 / 2\<rfloor>) (deal_record rq (order_of real_float rq market) reference dealId) (Some market)
    = Some \<lparr>bp_dealId = dealId, bp_dealReference = reference, bp_direction = rq_direction rq,
            bp_brokerSize = to_size (order_of real_float rq market), bp_engineSize = rq_size rq,
            bp_level = rq_level rq, bp_openedAt = rq_timestamp rq\<rparr>"
proof -
  have "\<lfloor>real_of_int n * x / x + 1 / 2\<rfloor> = n" if "0 < x" for n and x :: real
    using that by (simp add: floor_eq_iff)
  then have size: "i32 \<lfloor>f_div real_float (to_size (order_of real_float rq market)) (sizeModifier real_float market) + 1 / 2\<rfloor> = rq_size rq"
    using modifier_positive [of market] assms by (simp add: order_of_def) (simp add: real_float_def)
  show ?thesis
    by (cases "rq_direction rq")
      (simp_all add: toBookedPosition_def deal_record_def Let_def size, simp_all add: order_of_def brokerDirection_def)
qed

lemma sink_refreshes_count:
  assumes "makeOrderRequest intent = Some rq" "channel_request env F conv rq k = (Inr True, k')"
  shows "cached_count (oi_strategyUuid intent) now (wk_counts (snd (order_sink env F conv intent k))) = None"
proof -
  have "rq_strategyUuid rq = oi_strategyUuid intent"
    using assms(1) by (auto simp: makeOrderRequest_def Let_def split: if_splits)
  with assms show ?thesis by (simp add: order_sink_def invalidateCache_def cached_count_def)
qed

subsection \<open>A deal is closed once\<close>

text \<open>Time only passes: \<open>clk\<close> is the steady clock of the world, and no call turns it back.\<close>

definition forward :: "('w \<Rightarrow> int) \<Rightarrow> ('w \<Rightarrow> 'a \<times> 'w) \<Rightarrow> bool" where
  "forward clk m \<longleftrightarrow> (\<forall>w. clk w \<le> clk (snd (m w)))"

definition env_clock :: "('w, 'f) channel_env \<Rightarrow> ('w \<Rightarrow> int) \<Rightarrow> bool" where
  "env_clock env clk \<longleftrightarrow>
     (\<forall>w. clk w \<le> fst (ce_now env w) \<and> fst (ce_now env w) \<le> clk (snd (ce_now env w)))
     \<and> (\<forall>x y. forward clk (ce_placeOrder env x y)) \<and> (\<forall>x y. forward clk (ce_placeClose env x y))
     \<and> (\<forall>x y. forward clk (ce_clusterBlocked env x y)) \<and> (\<forall>x y z. forward clk (ce_extendLock env x y z))
     \<and> (\<forall>x y. forward clk (ce_releaseLock env x y)) \<and> (\<forall>x y. forward clk (ce_savePosition env x y))
     \<and> (\<forall>x y. forward clk (ce_addPosition env x y)) \<and> (\<forall>x y z. forward clk (ce_saveDealReceipt env x y z))
     \<and> (\<forall>x y. forward clk (ce_removePosition env x y))
     \<and> (\<forall>f x w. ce_clusterOpened env = Some f \<longrightarrow> clk w \<le> clk (f x w))"

lemma forward_hooked: "forward clk m \<Longrightarrow> (\<And>b. forward clk (f b)) \<Longrightarrow> forward clk (hooked m f)"
  unfolding forward_def hooked_def by (fastforce split: prod.split sum.split intro: order_trans)

lemma forward_answer [simp]: "forward clk (answer b)"
  by (simp add: forward_def answer_def)

lemma forward_book:
  assumes "env_clock env clk"
  shows "forward clk (book_deal env conv rq order result)"
proof -
  have "forward clk (hooked (ce_savePosition env r p) (\<lambda>_. hooked (ce_addPosition env u r) (\<lambda>_.
      hooked (ce_saveDealReceipt env r s q) (\<lambda>_. answer True))))" for r p u s q
    using assms by (intro forward_hooked) (simp_all add: env_clock_def)
  moreover have "clk w \<le> clk (case ce_clusterOpened env of Some f \<Rightarrow> f x w | None \<Rightarrow> w)" for x w
    using assms by (simp add: env_clock_def split: option.split)
  ultimately show ?thesis unfolding forward_def book_deal_def Let_def by (blast intro: order_trans)
qed

lemma forward_settle: "env_clock env clk \<Longrightarrow> forward clk (settle_open env conv rq order placed)"
  unfolding settle_open_def Let_def
  by (auto split: open_status.split intro!: forward_hooked forward_book simp: env_clock_def)

lemma forward_place:
  assumes "env_clock env clk"
  shows "forward clk (place_open env conv rq order)"
proof -
  have "forward clk (ce_placeOrder env order c)" for c using assms by (simp add: env_clock_def)
  then show ?thesis
    using forward_settle [OF assms] unfolding forward_def place_open_def Let_def
    by (auto split: prod.split) (metis order_trans snd_conv)
qed

lemma forward_request: "env_clock env clk \<Longrightarrow> forward clk (channel_request env F conv rq)"
  unfolding channel_request_def
  by (auto split: option.split intro!: forward_hooked forward_place simp: env_clock_def)

lemma forward_drop: "env_clock env clk \<Longrightarrow> forward clk (drop_book env rq ok)"
  unfolding drop_book_def by (auto intro!: forward_hooked simp: env_clock_def)

text \<open>The suppression of a deal lasts until \<open>until\<close>: it is still listed that long, or that time has come.\<close>

definition suppressed :: "('w \<Rightarrow> int) \<Rightarrow> string \<Rightarrow> time \<Rightarrow> recent_closes \<times> 'w \<Rightarrow> bool" where
  "suppressed clk deal until st \<longleftrightarrow>
     (\<exists>e. map_of (fst st) deal = Some e \<and> until \<le> e) \<or> until \<le> clk (snd st)"

lemma close_suppressed:
  assumes env: "env_clock env clk" and close: "closePosition env rq (rc, w) = (r, rc', w')"
    and sup: "suppressed clk deal until (rc, w)"
  shows "suppressed clk deal until (rc', w') \<and> clk w \<le> clk w'"
proof (cases "cr_dealId rq = []")
  case False
  obtain now w1 where now: "ce_now env w = (now, w1)" by fastforce
  have clk1: "clk w \<le> now" "now \<le> clk w1" using env now by (simp_all add: env_clock_def) (metis fst_conv snd_conv)+
  show ?thesis
  proof (cases "case map_of rc (cr_dealId rq) of Some t \<Rightarrow> now < t | None \<Rightarrow> False")
    case True
    then show ?thesis using close False now sup clk1 by (auto simp: closePosition_def suppressed_def)
  next
    case fresh: False
    let ?close = "\<lparr>tc_orderType = ''MARKET'', tc_direction = closingDirection (brokerDirection (cr_direction rq)),
                       tc_dealId = cr_dealId rq, tc_size = cr_size rq\<rparr>"
    let ?origin = "\<lparr>oc_strategyUuid = cr_strategyUuid rq, oc_strategyName = cr_strategyName rq,
                         oc_symbol = cr_symbol rq, oc_openDirection = brokerDirection (cr_direction rq)\<rparr>"
    let ?rc = "AList.delete (cr_dealId rq) rc"
    obtain placed w2 where placed: "ce_placeClose env ?close ?origin w1 = (placed, w2)" by fastforce
    have "forward clk (ce_placeClose env ?close ?origin)" using env by (simp add: env_clock_def)
    then have clk2: "clk w1 \<le> clk w2" using placed by (metis forward_def snd_conv)
    have clk3: "clk w2 \<le> clk (snd (drop_book env rq ok w2))" for ok
      using forward_drop [OF env] by (simp add: forward_def)
    have result: "clk w2 \<le> clk w' \<and> (rc' = ?rc \<or> rc' = AList.update (cr_dealId rq) (now + ce_closedTtl env * 1000000) ?rc)"
      using close False now fresh placed clk3
      by (auto simp: closePosition_def Let_def split: option.splits close_status.splits prod.splits)
        (metis snd_conv)+
    show ?thesis
    proof (cases "cr_dealId rq = deal \<and> (\<exists>e. map_of rc deal = Some e \<and> until \<le> e)")
      case True
      then have "until \<le> now" using fresh by auto
      with result clk1 clk2 show ?thesis by (auto simp: suppressed_def)
    next
      case other: False
      with sup have "until \<le> clk w \<or> (cr_dealId rq \<noteq> deal \<and> (\<exists>e. map_of rc deal = Some e \<and> until \<le> e))"
        by (auto simp: suppressed_def)
      with result clk1 clk2 show ?thesis by (auto simp: suppressed_def AList.update_conv' AList.delete_conv')
    qed
  qed
qed (use close sup in \<open>auto simp: closePosition_def\<close>)

text \<open>What the worker's channel does between two closes: opens, closes of any deals, and time passing.\<close>

inductive channel_steps ::
  "('w, 'f) channel_env \<Rightarrow> ('d, 'f, 'y) float_ops_scheme \<Rightarrow> 'f double_conv \<Rightarrow> ('w \<Rightarrow> int) \<Rightarrow>
   recent_closes \<times> 'w \<Rightarrow> recent_closes \<times> 'w \<Rightarrow> bool"
  for env F conv clk where
  chan_stay: "channel_steps env F conv clk st st"
| chan_open: "channel_request env F conv rq w = (r, w') \<Longrightarrow> channel_steps env F conv clk (rc, w') st \<Longrightarrow>
    channel_steps env F conv clk (rc, w) st"
| chan_close: "closePosition env rq (rc, w) = (r, rc', w') \<Longrightarrow> channel_steps env F conv clk (rc', w') st \<Longrightarrow>
    channel_steps env F conv clk (rc, w) st"
| chan_idle: "clk w \<le> clk w' \<Longrightarrow> channel_steps env F conv clk (rc, w') st \<Longrightarrow> channel_steps env F conv clk (rc, w) st"

lemma steps_suppressed:
  assumes "channel_steps env F conv clk st st'" "env_clock env clk" "suppressed clk deal until st"
  shows "suppressed clk deal until st'"
  using assms(1,3)
proof (induction rule: channel_steps.induct)
  case (chan_open rq w r w' rc st)
  have "clk w \<le> clk w'" using forward_request [OF assms(2)] chan_open.hyps(1) by (metis forward_def snd_conv)
  with chan_open show ?case by (auto simp: suppressed_def)
next
  case (chan_close rq rc w r rc' w' st)
  with close_suppressed [OF assms(2) chan_close.hyps(1)] show ?case by blast
qed (auto simp: suppressed_def)

lemma accepted_close_listed:
  assumes "env_clock env clk" "closePosition env rq (rc, w) = (Inr True, rc', w')"
  shows "suppressed clk (cr_dealId rq) (clk w + ce_closedTtl env * 1000000) (rc', w')"
proof -
  obtain now w1 where now: "ce_now env w = (now, w1)" by fastforce
  have clk1: "clk w \<le> now" using assms(1) now by (simp add: env_clock_def) (metis fst_conv)
  have "map_of rc' (cr_dealId rq) = Some (now + ce_closedTtl env * 1000000)"
    using assms(2) now
    by (auto simp: closePosition_def drop_book_def hooked_def answer_def Let_def AList.update_conv'
        split: if_splits option.splits close_status.splits prod.splits sum.splits)
  with clk1 show ?thesis by (auto simp: suppressed_def)
qed

text \<open>C20: once the broker has accepted the close of a deal, no other close of it reaches the broker while the window
  lasts: whatever opens, closes and waits the worker goes through in between, and whatever the broker
  and Redis answer, a close signal for the same deal is refused, with nothing changed but the time.\<close>

theorem accepted_close_is_not_repeated:
  assumes env: "env_clock env clk" and first: "closePosition env rq (rc, w) = (Inr True, rc1, w1)"
    and steps: "channel_steps env F conv clk (rc1, w1) (rc2, w2)"
    and same: "cr_dealId rq' = cr_dealId rq"
    and inside: "ce_now env w2 = (now, w3)" "now < clk w + ce_closedTtl env * 1000000"
  shows "closePosition env rq' (rc2, w2) = (Inr False, rc2, w3)"
proof -
  have "suppressed clk (cr_dealId rq) (clk w + ce_closedTtl env * 1000000) (rc2, w2)"
    by (rule steps_suppressed [OF steps env accepted_close_listed [OF env first]])
  moreover have "clk w2 \<le> now" using env inside(1) by (simp add: env_clock_def) (metis fst_conv)
  ultimately obtain e where "map_of rc2 (cr_dealId rq') = Some e" "now < e"
    using inside(2) same by (auto simp: suppressed_def)
  moreover have "cr_dealId rq' \<noteq> []" using first same by (auto simp: closePosition_def)
  ultimately show ?thesis using inside(1) by (simp add: closePosition_def)
qed

text \<open>A broker that accepts everything, and a world that is the clock.\<close>

definition calm_env :: "(int, 'f) channel_env" where
  "calm_env =
     \<lparr>ce_lookup = findMarket,
      ce_placeOrder = (\<lambda>_ _ w. (Some \<lparr>or_status = Open_accepted, or_dealReference = ''R1'', or_dealId = ''D1''\<rparr>, w + 2)),
      ce_placeClose = (\<lambda>_ _ w. (Some Close_ok, w + 2)), ce_now = (\<lambda>w. (w, w + 1)),
      ce_clusterBlocked = (\<lambda>_ _. answer False), ce_clusterOpened = None, ce_extendLock = (\<lambda>_ _ _. answer True),
      ce_releaseLock = (\<lambda>_ _. answer True), ce_savePosition = (\<lambda>_ _. answer True), ce_addPosition = (\<lambda>_ _. answer True),
      ce_saveDealReceipt = (\<lambda>_ _ _. answer True), ce_removePosition = (\<lambda>_ _. answer True),
      ce_inFlightTtl = 30, ce_failureTtl = 120, ce_closedTtl = 300\<rparr>"

definition close_d1 :: "int close_order" where
  "close_d1 = \<lparr>cr_strategyUuid = ''u'', cr_strategyName = ''Fvg'', cr_symbol = ''XAUUSD'', cr_direction = LONG,
     cr_dealId = ''D1'', cr_dealReference = ''R1'', cr_size = 1\<rparr>"

theorem accepted_close_is_not_repeated_witness:
  "closePosition (calm_env :: (int, int) channel_env) close_d1 ([], 0) = (Inr True, [(''D1'', 300000000)], 3)
   \<and> closePosition (calm_env :: (int, int) channel_env) close_d1 ([(''D1'', 300000000)], 9000) =
       (Inr False, [(''D1'', 300000000)], 9001)"
proof -
  let ?env = "calm_env :: (int, int) channel_env"
  have env: "env_clock ?env id" by (simp add: env_clock_def calm_env_def forward_def answer_def)
  have first: "closePosition ?env close_d1 ([], 0) = (Inr True, [(''D1'', 300000000)], 3)" by code_simp
  have "channel_steps ?env F conv id ([(''D1'', 300000000)], 3) ([(''D1'', 300000000)], 9000)"
    for F :: "(unit, int, unit) float_ops_scheme" and conv
    by (rule chan_idle [OF _ chan_stay]) simp
  from accepted_close_is_not_repeated [OF env first this refl, of 9000 9001] first show ?thesis
    by (simp add: calm_env_def)
qed

end
