(* ===== verification/Spec2Isabelle.thy ===== *)
theory Spec2Isabelle
  imports Accounting Drawdown EntryConditions MarketHours RunLoop Sweep TickCache Base64 JsonRoundTrip
    JsonUtf8 PositionManager SyncClient TradeLocks PositionClustering DrainRuns ThreadPool SweepConfigs Operations
    ExperimentScan LiveOrders
begin

text \<open>
  A verification library for the backtesting engine. File names are under \<open>src/source\<close>; a definition has the
  name of the function it models, with a suffix where HOL has the name already.

  \<^bold>\<open>The program.\<close> A producer (\<open>load\<close>) expands a strategy's parameter grid into configurations and streams
  them, base64 encoded JSON, onto Redis queues. Workers (\<open>run/queue\<close>) claim runs, load the ticks of the run's
  window through a cache, and hand each strategy to a thread pool. One backtest (\<open>run/operations.cppm\<close>)
  registers its bar series, replays the ticks through the run loop (marking, stops, bars, entries, limits),
  and queues its result documents, which a publisher delivers to Elasticsearch; a promising run queues the
  next window of the rolling ladder. A second kind of work, experiments, counts chains of price activities
  in the same ticks. Around it, Redis holds positions, trade locks and cluster locks that gate live entries.

  \<^bold>\<open>Data and arithmetic.\<close> \<open>Prelude\<close> has the conventions: machine integers are \<open>int\<close> with the wrap of their
  width (\<open>i32\<close>, \<open>i64\<close>, \<open>u64\<close>) written where the source computes, and the properties that need no overflow say
  so; exceptions are values of \<open>cpp_error\<close>, an unchecked read out of range is \<open>UndefinedBehaviour\<close>. \<open>Trade\<close>,
  \<open>Config\<close> and \<open>SymbolScale\<close> (over \<open>TableSearch\<close>, the binary search of all static tables) are the shared
  records. Doubles and the fixed-point \<open>Decimal\<close> are type parameters with records of operations
  (\<open>float_ops\<close>, \<open>decimal_ops\<close>), instantiated by exact reals in witnesses.

  \<^bold>\<open>One backtest.\<close>
  \<^item> \<open>TradeManager\<close>, \<open>Accounting\<close>, \<open>Drawdown\<close>: \<open>run/trading/tradeManager.cppm\<close>. Closing the book realises the
    equity; stops and limits fire exactly at their prices; the drawdown is the largest peak to trough drop.
  \<^item> \<open>Ohlc\<close>, \<open>RangeBar\<close>, \<open>BarStore\<close>, \<open>Indicators\<close>: bars, incremental against their specifications (greedy
    grouping by time, the rolling range by monotonic deques, the last bars of a symbol), and ATR, EMA, pivots.
  \<^item> \<open>Calendar\<close>, \<open>MarketHours\<close>: the civil calendar and the session filter, exact across changes of clock.
  \<^item> \<open>EntryConditions\<close>, \<open>Strategy\<close>, \<open>BarScan\<close>, \<open>PatternStrategies\<close>, \<open>SessionStrategies\<close>, \<open>SweepReversal\<close>,
    \<open>RangeVelocity\<close>, \<open>StrategyFactory\<close>: the entry gate and the nine strategies. Each signal is characterised
    by the bars it needs, and no strategy the factory makes ever reads outside its bars. \<open>IStrategy\<close> is the
    locale \<open>strategy_contract\<close> (\<open>during\<close> only exits), extended by \<open>total_strategy\<close> (no fault), interpreted for each.
  \<^item> \<open>RunLoop\<close>, \<open>ResultsSummary\<close>, \<open>Operations\<close>: one tick, a run, its statistics, and \<open>Operations::run\<close> from the
    configuration to the queued documents. Entries respect the limits, a run ends flat, publishes exactly its
    outcome, and never throws for a strategy the factory makes.

  \<^bold>\<open>The queue.\<close>
  \<^item> \<open>Sweep\<close>, \<open>SweepConfigs\<close>: parameter grids, the lazy combination against the eager expansion, and the
    validity of every configuration the nine shipped sweeps produce.
  \<^item> \<open>Base64\<close>, \<open>JsonValue\<close> to \<open>JsonUtf8\<close>, \<open>JsonConv\<close>: the codec and the parts of \<open>external/nlohmann/json.hpp\<close> in
    use. Dumping and parsing are inverse on canonical values and everything parsed is valid UTF-8.
    \<open>ConfigJson\<close>, \<open>ConfigCodec\<close>, \<open>ExperimentConfig\<close>: the payloads' round trips.
  \<^item> \<open>Redis\<close>, \<open>SyncClient\<close>: the commands and how replies are read; the pump with its deadline and breaker.
    \<open>RedisContract\<close> states the documented behaviour of the commands as \<open>redis_contract\<close>, a step of a key space
    with expiry that a failed call may or may not have taken; \<open>RedisLists\<close> has lists and pipelines. The
    in-memory connection \<open>mem_exec\<close> satisfies it.
  \<^item> \<open>RunQueue\<close>, \<open>RedisLoader\<close>, \<open>DrainRuns\<close>, \<open>ThreadPool\<close>, \<open>TickCache\<close>: payloads are stored before they are
    named, names and payloads are consumed once under any interleaving, a run is drained completely and in
    order, the pool's accounts balance and it never gets stuck, a slice is the window's query.
  \<^item> \<open>PositionManager\<close>, \<open>TradeLocks\<close>, \<open>PositionClustering\<close>: stores and gates of live entries. \<open>Markets\<close>, \<open>LiveOrders\<close>: the
    markets, an order from the decision to the broker and into the stores, a close, and the book read back. A deal
    is closed once per window, and an order's levels are those of the backtest moved by the spread.
  \<^item> \<open>ElasticPublisher\<close>, \<open>Timestamps\<close>, \<open>Reporting\<close>: delivery with retries and dead letters loses no document;
    batch labels sort by time; the documents of a run.

  \<^bold>\<open>Experiments.\<close> \<open>ChainMatcher\<close>, \<open>ExperimentScan\<close>: trailing windows by time, the state machine of a chain, and
  the evaluation over a stream of several symbols. The trailing windows reuse the locale \<open>deque_order\<close> of
  \<open>RangeBar\<close>, interpreted for both orders.

  \<^bold>\<open>Parameters.\<close> The environment and clock, the tick database (its answers, \<open>db_ctx\<close>), the Redis connection (a
  step function on a state), curl's outcome of a request, a random source, unordered iteration (any order), and
  the text of a double (\<open>num_text\<close>, with reading back assumed where a round trip is stated).

  \<^bold>\<open>Bounds and fuel.\<close> There is no fuel. A recursion is structural or has a measure (the lexer and parser: the input
  left; the loops over bars: the distance to the end). A loop that may run forever is a partial function with the
  result \<open>None\<close> when it does: the stepped ranges of a sweep, the drain and its waits, the streamed push, the key scan and
  the pump of the Redis client. \<open>run_op_returns\<close>, \<open>drain_run_complete\<close> and the lemmas of the loader and the sweep show
  when they return. The pool, the queue, the streams and the locks are step relations with rule induction.

  \<^bold>\<open>Not modelled.\<close>
  \<^item> The rest of live trading (\<open>live\<close>, \<open>tracking\<close>, \<open>positions\<close>, \<open>shared/ig\<close>, \<open>shared/aws\<close>): the workers' threads, the
    choice of winners, HTTP, UDP and the dashboard; the path of an order, the stores and the gates are here.
  \<^item> Ingestion and SQL (\<open>ingest\<close>, \<open>shared/questdb\<close>): pure input and output; the query's result is a parameter.
  \<^item> The analysis worker's queue loop and its experiment producer (\<open>analysis\<close>, \<open>experiments\<close>), which repeat the
    structure of the drain loop and the loader; the evaluation they call is modelled.
  \<^item> Process plumbing: \<open>main.cpp\<close>, the commands' argument parsing and consoles, \<open>shared/ipc\<close>, \<open>shared/net\<close>, logging,
    \<open>shared/redis/connection\<close>, the request gate.
  \<^item> Of the JSON library: pretty printing, binary formats, iterators, pointers and patches, which the engine does not
    use, and the digit generation of doubles (a parameter).
\<close>

end
